(* ===== verification/UMH_Prelude.thy ===== *)
theory UMH_Prelude
  imports Main "HOL-Library.Word" "HOL-Library.Sublist"
begin

text \<open>
  Shared vocabulary of the development: Go's error values with wrapping, the few functions of
  the Go standard library the modelled code calls on them (\<^verbatim>\<open>errors.Is\<close>,
  \<^verbatim>\<open>errors.Unwrap\<close>, \<^verbatim>\<open>strings.Contains\<close>, decimal formatting), machine integer
  types, and the generic list and word lemmas that the component theories use.
\<close>

named_theorems go_error_simps \<open>rewrite rules for Go error values\<close>

section \<open>Machine integers\<close>

type_synonym u64 = "64 word"
type_synonym u16 = "16 word"

section \<open>Strings\<close>

text \<open>\<^verbatim>\<open>strings.Contains(s, sub)\<close>.\<close>

fun str_contains :: "string \<Rightarrow> string \<Rightarrow> bool" where
  "str_contains [] sub = (sub = [])"
| "str_contains (c # cs) sub = (prefix sub (c # cs) \<or> str_contains cs sub)"

abbreviation newline :: char where "newline \<equiv> CHR 0x0A"

text \<open>\<^verbatim>\<open>strings.TrimSpace\<close> on ASCII text and \<^verbatim>\<open>strings.Split\<close> at newlines.\<close>

definition is_space :: "char \<Rightarrow> bool" where
  "is_space c = (c \<in> {CHR 0x09, CHR 0x0A, CHR 0x0B, CHR 0x0C, CHR 0x0D, CHR '' ''})"

definition trim_space :: "string \<Rightarrow> string" where
  "trim_space s = rev (dropWhile is_space (rev (dropWhile is_space s)))"

fun split_newline :: "string \<Rightarrow> string list" where
  "split_newline [] = [[]]"
| "split_newline (c # cs) =
     (if c = newline then [] # split_newline cs
      else case split_newline cs of [] \<Rightarrow> [[c]] | l # ls \<Rightarrow> (c # l) # ls)"

text \<open>The decimal rendering that the verb \<^verbatim>\<open>%d\<close> gives for an unsigned value.\<close>

definition digit_char :: "nat \<Rightarrow> char" where
  "digit_char d = char_of (48 + d)"

fun itoa :: "nat \<Rightarrow> string" where
  "itoa n = (if n < 10 then [digit_char n] else itoa (n div 10) @ [digit_char (n mod 10)])"

declare itoa.simps [simp del]

section \<open>Errors\<close>

text \<open>
  A Go \<^verbatim>\<open>error\<close> is nil (modelled by \<^const>\<open>None\<close>) or a value. A value is a leaf, made by
  \<^verbatim>\<open>errors.New\<close> or by \<^verbatim>\<open>fmt.Errorf\<close> without the verb \<^verbatim>\<open>%w\<close>, or it wraps another
  error: \<^verbatim>\<open>fmt.Errorf("...: %w", err)\<close>. Every wrapping format in the modelled code ends in
  \<^verbatim>\<open>%w\<close>, so a wrapper is the rendered prefix and its cause. A leaf carries a tag that stands
  for its identity, which is what \<^verbatim>\<open>errors.Is\<close> compares. \<open>ErrorJoin\<close> is the result of
  \<^verbatim>\<open>errors.Join\<close> on the non-nil errors given: its text is one line per error, and
  \<^verbatim>\<open>errors.Unwrap\<close> gives nil for it.
\<close>

datatype goerror = ErrorNew nat string | Errorf string goerror | ErrorJoin "goerror list"

fun join_lines :: "string list \<Rightarrow> string" where
  "join_lines [] = []"
| "join_lines [s] = s"
| "join_lines (s # t # ss) = s @ [CHR 0x0A] @ join_lines (t # ss)"

fun error_text :: "goerror \<Rightarrow> string" where
  "error_text (ErrorNew _ s) = s"
| "error_text (Errorf p e) = p @ error_text e"
| "error_text (ErrorJoin es) = join_lines (map error_text es)"

text \<open>\<^verbatim>\<open>errors.Is(err, target)\<close> for a leaf target: some error of the chain is the target.\<close>

fun errors_is :: "goerror \<Rightarrow> goerror \<Rightarrow> bool" where
  "errors_is (ErrorNew i s) t = (ErrorNew i s = t)"
| "errors_is (Errorf p e) t = (Errorf p e = t \<or> errors_is e t)"
| "errors_is (ErrorJoin es) t = (ErrorJoin es = t \<or> list_ex (\<lambda>e. errors_is e t) es)"

fun errors_unwrap :: "goerror \<Rightarrow> goerror option" where
  "errors_unwrap (ErrorNew _ _) = None"
| "errors_unwrap (Errorf _ e) = Some e"
| "errors_unwrap (ErrorJoin _) = None"

text \<open>
  \<^verbatim>\<open>fmt.Errorf(p + "%w", err)\<close> on a possibly nil error; formatting a nil error with
  \<^verbatim>\<open>%w\<close> yields a leaf whose text ends in \<^verbatim>\<open>%!w(<nil>)\<close>.
\<close>

fun wrapf :: "string \<Rightarrow> goerror option \<Rightarrow> goerror" where
  "wrapf p None = ErrorNew 0 (p @ ''%!w(<nil>)'')"
| "wrapf p (Some e) = Errorf p e"

definition ctx_canceled :: goerror where
  "ctx_canceled = ErrorNew 1 ''context canceled''"

definition ctx_deadline_exceeded :: goerror where
  "ctx_deadline_exceeded = ErrorNew 2 ''context deadline exceeded''"

section \<open>Lemmas\<close>

lemma str_contains_iff_sublist: "str_contains s sub \<longleftrightarrow> sublist sub s"
  by (induction s) (auto simp: sublist_Cons_right)

lemma str_contains_prefix [simp]: "str_contains (sub @ s) sub"
  by (simp add: str_contains_iff_sublist)

lemma str_contains_append_left: "str_contains s sub \<Longrightarrow> str_contains (p @ s) sub"
  by (auto simp: str_contains_iff_sublist sublist_def) (metis append.assoc)

lemma str_contains_append_right: "str_contains s sub \<Longrightarrow> str_contains (s @ p) sub"
  by (auto simp: str_contains_iff_sublist sublist_def) metis

lemma is_space_newline [simp]: "is_space newline"
  by (simp add: is_space_def)

lemma split_newline_line:
  "newline \<notin> set l \<Longrightarrow> split_newline (l @ newline # rest) = l # split_newline rest"
  by (induction l) auto

lemma split_newline_last: "newline \<notin> set l \<Longrightarrow> split_newline l = [l]"
  by (induction l) auto

lemma itoa_nonempty [simp]: "itoa n \<noteq> []"
  by (subst itoa.simps) simp

lemma errors_is_wrap [go_error_simps]: "errors_is (Errorf p e) (ErrorNew i s) = errors_is e (ErrorNew i s)"
  by simp

lemma unat_add_no_overflow:
  fixes a b :: u64
  assumes "unat a + unat b < 2 ^ 64"
  shows "unat (a + b) = unat a + unat b"
  using assms by (simp add: unat_word_ariths)

lemma unat_Suc_below:
  fixes n m :: u64
  assumes "unat n < unat m"
  shows "unat (n + 1) = Suc (unat n)"
proof -
  have "unat n + unat (1 :: u64) < 2 ^ 64"
    using assms unsigned_less [of m, where 'a = nat] by simp
  then show ?thesis by (subst unat_add_no_overflow) simp_all
qed

lemma u64_less_iff: "(a :: u64) < b \<longleftrightarrow> unat a < unat b"
  by (rule word_less_nat_alt)

lemma u64_pos_iff: "(0 :: u64) < a \<longleftrightarrow> a \<noteq> 0"
  by (rule word_neq_0_conv [symmetric])

lemma mod_neq_near:
  assumes "k < (n::nat)" and "n < k + c"
  shows "k mod c \<noteq> n mod c"
proof
  assume "k mod c = n mod c"
  then have "c dvd n - k" using assms(1) by (metis mod_eq_dvd_iff_nat less_imp_le)
  then have "c \<le> n - k" using assms(1) by (intro dvd_imp_le) simp_all
  with assms show False by linarith
qed

end
