(* ===== verification/Backoff.thy ===== *)
theory Backoff
  imports UMH_Prelude
begin

text \<open>
  The retry policy of every FSM instance: \<^verbatim>\<open>umh-core/pkg/backoff/manager.go\<close> and
  \<^verbatim>\<open>errors.go\<close>, over the vendored policy \<^verbatim>\<open>vendor/github.com/cenkalti/backoff\<close>
  (exponential intervals, capped number of tries). The manager reaches its policy through the Go
  interface \<^verbatim>\<open>backoff.BackOff\<close>, so its operations take the policy's \<^verbatim>\<open>NextBackOff\<close> and
  \<^verbatim>\<open>Reset\<close> as arguments; the locale \<open>retry_policy\<close> is the contract of that interface and it
  is interpreted on the policy \<^verbatim>\<open>NewBackoffManager\<close> builds.

  Durations are \<open>int\<close> nanoseconds. The intervals are computed in \<^verbatim>\<open>float64\<close> by the source;
  the model uses the exact rationals, which agree with the floats below \<open>2 ^ 51\<close> nanoseconds
  (26 days). The random value in [0,1) that \<^verbatim>\<open>getRandomValueFromInterval\<close> adds before
  truncation is the parameter \<open>r\<close>: 0, or 1 when the float sum rounds up.
\<close>

section \<open>The vendored retry policy\<close>

abbreviation millisecond :: int where
  "millisecond \<equiv> 1000000"

definition Stop :: int where
  "Stop = -1"

record ExponentialBackOff =
  InitialInterval :: int
  MaxInterval :: int
  MaxElapsedTime :: int
  currentInterval :: int
  startTime :: int

definition TickClock_Now :: int where
  "TickClock_Now = 0"

definition GetElapsedTime :: "ExponentialBackOff \<Rightarrow> int" where
  "GetElapsedTime b = TickClock_Now - startTime b"

definition ebo_Reset :: "ExponentialBackOff \<Rightarrow> ExponentialBackOff" where
  "ebo_Reset b = b\<lparr>currentInterval := InitialInterval b, startTime := TickClock_Now\<rparr>"

text \<open>The multiplier is the default 1.5; the truncation is towards zero.\<close>

definition incrementCurrentInterval :: "ExponentialBackOff \<Rightarrow> ExponentialBackOff" where
  "incrementCurrentInterval b =
     (if 3 * currentInterval b \<ge> 2 * MaxInterval b
      then b\<lparr>currentInterval := MaxInterval b\<rparr>
      else b\<lparr>currentInterval := sgn (currentInterval b) * ((3 * \<bar>currentInterval b\<bar>) div 2)\<rparr>)"

text \<open>With \<^verbatim>\<open>RandomizationFactor = 0\<close> both ends of the random interval are the interval.\<close>

definition ebo_NextBackOff :: "int \<Rightarrow> ExponentialBackOff \<Rightarrow> int \<times> ExponentialBackOff" where
  "ebo_NextBackOff r b =
     (if MaxElapsedTime b \<noteq> 0 \<and> GetElapsedTime b > MaxElapsedTime b then (Stop, b)
      else (currentInterval b + r, incrementCurrentInterval b))"

record backOffTries =
  delegate :: ExponentialBackOff
  maxTries :: u64
  numTries :: u64

definition tries_NextBackOff :: "int \<Rightarrow> backOffTries \<Rightarrow> int \<times> backOffTries" where
  "tries_NextBackOff r b =
     (if maxTries b > 0 \<and> maxTries b \<le> numTries b then (Stop, b)
      else
        (let b' = (if maxTries b > 0 then b\<lparr>numTries := numTries b + 1\<rparr> else b);
             (d, e) = ebo_NextBackOff r (delegate b')
         in (d, b'\<lparr>delegate := e\<rparr>)))"

definition tries_Reset :: "backOffTries \<Rightarrow> backOffTries" where
  "tries_Reset b = b\<lparr>numTries := 0, delegate := ebo_Reset (delegate b)\<rparr>"

section \<open>The backoff manager\<close>

record 'b BackoffManager =
  lastError :: "goerror option"
  backoff :: 'b
  suspendedUntilTick :: u64
  ticksToWait :: u64
  permanentFailure :: bool

record BackoffConfig =
  cfg_InitialInterval :: u64
  cfg_MaxInterval :: u64
  cfg_MaxRetries :: u64

definition DefaultConfig :: BackoffConfig where
  "DefaultConfig = \<lparr>cfg_InitialInterval = 1, cfg_MaxInterval = 600, cfg_MaxRetries = 5\<rparr>"

definition NewBackoffConfig :: "u64 \<Rightarrow> u64 \<Rightarrow> u64 \<Rightarrow> BackoffConfig" where
  "NewBackoffConfig initInterval maxInterval maxRetries =
     \<lparr>cfg_InitialInterval = initInterval, cfg_MaxInterval = maxInterval,
      cfg_MaxRetries = maxRetries\<rparr>"

text \<open>\<^verbatim>\<open>time.Duration(ticks) * time.Millisecond\<close>: a signed 64-bit product.\<close>

definition duration_of_ticks :: "u64 \<Rightarrow> int" where
  "duration_of_ticks t = sint (t * 1000000)"

definition NewBackoffManager :: "BackoffConfig \<Rightarrow> backOffTries BackoffManager" where
  "NewBackoffManager c =
     (let base = \<lparr>InitialInterval = duration_of_ticks (cfg_InitialInterval c),
                  MaxInterval = duration_of_ticks (cfg_MaxInterval c),
                  MaxElapsedTime = 15 * 60 * 1000 * millisecond,
                  currentInterval = 500 * millisecond,
                  startTime = 0\<rparr>;
          pol = tries_Reset \<lparr>delegate = base, maxTries = cfg_MaxRetries c, numTries = 0\<rparr>
      in \<lparr>lastError = None, backoff = pol, suspendedUntilTick = 0, ticksToWait = 0,
          permanentFailure = False\<rparr>)"

text \<open>\<^verbatim>\<open>uint64(next.Milliseconds())\<close> and the minimum of one tick.\<close>

definition ticks_of_duration :: "int \<Rightarrow> u64" where
  "ticks_of_duration d =
     (let t = (word_of_int (sgn d * (\<bar>d\<bar> div millisecond)) :: u64) in if t < 1 then 1 else t)"

definition SetError ::
  "('b \<Rightarrow> int \<times> 'b) \<Rightarrow> 'b BackoffManager \<Rightarrow> goerror option \<Rightarrow> u64 \<Rightarrow> bool \<times> 'b BackoffManager"
where
  "SetError nextBackOff m err currentTick =
     (let m1 = m\<lparr>lastError := err\<rparr>
      in if permanentFailure m1 then (True, m1)
         else let (d, b) = nextBackOff (backoff m1); m2 = m1\<lparr>backoff := b\<rparr>
              in if d = Stop
                 then (True, m2\<lparr>permanentFailure := True, suspendedUntilTick := 0\<rparr>)
                 else let t = ticks_of_duration d
                      in (False, m2\<lparr>ticksToWait := t, suspendedUntilTick := currentTick + t\<rparr>))"

definition Reset :: "('b \<Rightarrow> 'b) \<Rightarrow> 'b BackoffManager \<Rightarrow> 'b BackoffManager" where
  "Reset reset m = m\<lparr>lastError := None, backoff := reset (backoff m), suspendedUntilTick := 0,
     permanentFailure := False\<rparr>"

definition ShouldSkipOperation :: "'b BackoffManager \<Rightarrow> u64 \<Rightarrow> bool" where
  "ShouldSkipOperation m currentTick =
     (if permanentFailure m then True
      else if lastError m = None \<or> suspendedUntilTick m = 0 then False
      else currentTick < suspendedUntilTick m)"

definition IsPermanentlyFailed :: "'b BackoffManager \<Rightarrow> bool" where
  "IsPermanentlyFailed m = permanentFailure m"

definition GetLastError :: "'b BackoffManager \<Rightarrow> goerror option" where
  "GetLastError m = lastError m"

definition TemporaryBackoffError :: string where
  "TemporaryBackoffError = ''operation suspended due to temporary error''"

definition PermanentFailureError :: string where
  "PermanentFailureError = ''operation permanently failed after max retries''"

definition GetBackoffError :: "'b BackoffManager \<Rightarrow> u64 \<Rightarrow> goerror option" where
  "GetBackoffError m currentTick =
     (if permanentFailure m then Some (wrapf (PermanentFailureError @ '': '') (lastError m))
      else if lastError m \<noteq> None \<and> suspendedUntilTick m > 0 \<and> currentTick < suspendedUntilTick m
      then Some (wrapf (TemporaryBackoffError @ '' (retry after ''
             @ itoa (unat (suspendedUntilTick m - currentTick)) @ '' ticks): '') (lastError m))
      else None)"

section \<open>Classification of backoff errors\<close>

definition IsTemporaryBackoffError :: "goerror option \<Rightarrow> bool" where
  "IsTemporaryBackoffError err =
     (case err of None \<Rightarrow> False | Some e \<Rightarrow> str_contains (error_text e) TemporaryBackoffError)"

definition IsPermanentFailureError :: "goerror option \<Rightarrow> bool" where
  "IsPermanentFailureError err =
     (case err of None \<Rightarrow> False | Some e \<Rightarrow> str_contains (error_text e) PermanentFailureError)"

definition IsBackoffError :: "goerror option \<Rightarrow> bool" where
  "IsBackoffError err = (IsTemporaryBackoffError err \<or> IsPermanentFailureError err)"

text \<open>The loop that unwraps until \<^verbatim>\<open>errors.Unwrap\<close> returns nil.\<close>

fun unwrap_all :: "goerror \<Rightarrow> goerror" where
  "unwrap_all (ErrorNew i s) = ErrorNew i s"
| "unwrap_all (Errorf p e) = unwrap_all e"
| "unwrap_all (ErrorJoin es) = ErrorJoin es"

definition ExtractOriginalError :: "goerror option \<Rightarrow> goerror option" where
  "ExtractOriginalError err = map_option unwrap_all err"

section \<open>Runs of failures\<close>

text \<open>
  A burst of reconcile failures with no success in between: the errors with the tick at which
  each is recorded and the value of the policy's random term.
\<close>

fun set_errors ::
  "(int \<Rightarrow> 'b \<Rightarrow> int \<times> 'b) \<Rightarrow> 'b BackoffManager \<Rightarrow> (int \<times> goerror \<times> u64) list \<Rightarrow> 'b BackoffManager"
where
  "set_errors nb m [] = m"
| "set_errors nb m ((r, e, t) # xs) = set_errors nb (snd (SetError (nb r) m (Some e) t)) xs"

section \<open>The contract of a retry policy\<close>

text \<open>
  What the manager relies on: \<open>left b\<close> is the number of intervals the policy still hands out
  (None: no limit), a policy stops exactly when none is left, and every interval it hands out
  lies between 0 and \<open>cap b\<close> nanoseconds. \<open>nxt\<close> and \<open>rst\<close> are the interface's
  \<^verbatim>\<open>NextBackOff\<close> and \<^verbatim>\<open>Reset\<close>.
\<close>

locale retry_policy =
  fixes nxt :: "int \<Rightarrow> 'b \<Rightarrow> int \<times> 'b"
    and rst :: "'b \<Rightarrow> 'b"
    and ok :: "'b \<Rightarrow> bool"
    and left :: "'b \<Rightarrow> nat option"
    and full :: "'b \<Rightarrow> nat option"
    and cap :: "'b \<Rightarrow> int"
  assumes ok_next: "ok b \<Longrightarrow> ok (snd (nxt r b))"
    and ok_reset: "ok b \<Longrightarrow> ok (rst b)"
    and stop_iff: "ok b \<Longrightarrow> 0 \<le> r \<Longrightarrow> fst (nxt r b) = Stop \<longleftrightarrow> left b = Some 0"
    and left_next: "ok b \<Longrightarrow> left (snd (nxt r b)) = map_option (\<lambda>n. n - 1) (left b)"
    and left_reset: "ok b \<Longrightarrow> left (rst b) = full b"
    and full_next: "ok b \<Longrightarrow> full (snd (nxt r b)) = full b"
    and full_reset: "ok b \<Longrightarrow> full (rst b) = full b"
    and cap_next: "ok b \<Longrightarrow> cap (snd (nxt r b)) = cap b"
    and interval_lower: "ok b \<Longrightarrow> 0 \<le> r \<Longrightarrow> left b \<noteq> Some 0 \<Longrightarrow> 0 \<le> fst (nxt r b)"
    and interval_upper: "ok b \<Longrightarrow> r \<le> 1 \<Longrightarrow> left b \<noteq> Some 0 \<Longrightarrow> fst (nxt r b) \<le> cap b + 1"
begin

lemma SetError_permanent:
  assumes "ok (backoff m)" and "0 \<le> r"
  shows "fst (SetError (nxt r) m e t) \<longleftrightarrow> permanentFailure m \<or> left (backoff m) = Some 0"
    and "permanentFailure (snd (SetError (nxt r) m e t))
         \<longleftrightarrow> permanentFailure m \<or> left (backoff m) = Some 0"
  using stop_iff [OF assms] assms(1)
  by (auto simp: SetError_def Let_def split: prod.splits)

lemma SetError_policy:
  assumes "ok (backoff m)"
  shows "ok (backoff (snd (SetError (nxt r) m e t)))"
    and "full (backoff (snd (SetError (nxt r) m e t))) = full (backoff m)"
    and "cap (backoff (snd (SetError (nxt r) m e t))) = cap (backoff m)"
    and "\<not> permanentFailure m \<Longrightarrow>
         left (backoff (snd (SetError (nxt r) m e t))) = map_option (\<lambda>n. n - 1) (left (backoff m))"
  using ok_next [OF assms, of r] full_next [OF assms, of r] left_next [OF assms, of r]
    cap_next [OF assms, of r] assms
  by (auto simp: SetError_def Let_def split: prod.splits)

lemma set_errors_permanent_stays:
  assumes "permanentFailure m"
  shows "permanentFailure (set_errors nxt m xs)"
  using assms
proof (induction nxt m xs rule: set_errors.induct)
  case (2 nb m r e t xs)
  then show ?case by (auto simp: SetError_def Let_def split: prod.splits)
qed simp

lemma set_errors_ok:
  assumes "ok (backoff m)"
  shows "ok (backoff (set_errors nxt m xs)) \<and> full (backoff (set_errors nxt m xs)) = full (backoff m)
     \<and> cap (backoff (set_errors nxt m xs)) = cap (backoff m)"
  using assms
proof (induction xs arbitrary: m)
  case (Cons x xs)
  obtain r e t where "x = (r, e, t)" by (cases x)
  then show ?case
    using Cons.IH [of "snd (SetError (nxt r) m (Some e) t)"] SetError_policy(1,2,3) [OF Cons.prems]
    by simp
qed simp

text \<open>
  Counting a burst of failures: the manager gives up exactly when more errors were recorded than
  the policy had intervals left.
\<close>

lemma set_errors_permanent_iff:
  assumes "ok (backoff m)" and "\<not> permanentFailure m"
    and "\<forall>(r, e, t) \<in> set xs. 0 \<le> r"
  shows "permanentFailure (set_errors nxt m xs)
     \<longleftrightarrow> (case left (backoff m) of None \<Rightarrow> False | Some n \<Rightarrow> n < length xs)"
  using assms
proof (induction xs arbitrary: m)
  case Nil
  then show ?case by (simp split: option.split)
next
  case (Cons x xs)
  obtain r e t where x: "x = (r, e, t)" by (cases x)
  let ?m = "snd (SetError (nxt r) m (Some e) t)"
  have r: "0 \<le> r" using Cons.prems(3) x by simp
  have ok': "ok (backoff ?m)" by (rule SetError_policy(1) [OF Cons.prems(1)])
  have lft: "left (backoff ?m) = map_option (\<lambda>n. n - 1) (left (backoff m))"
    by (rule SetError_policy(4) [OF Cons.prems(1,2)])
  show ?case
  proof (cases "left (backoff m) = Some 0")
    case True
    then have "permanentFailure ?m" using SetError_permanent(2) [OF Cons.prems(1) r] by simp
    then have "permanentFailure (set_errors nxt ?m xs)" by (rule set_errors_permanent_stays)
    with True x show ?thesis by simp
  next
    case False
    then have "\<not> permanentFailure ?m"
      using SetError_permanent(2) [OF Cons.prems(1) r] Cons.prems(2) by simp
    from Cons.IH [OF ok' this] Cons.prems(3) lft False x show ?thesis
      by (cases "left (backoff m)") (auto simp: Suc_diff_le less_Suc_eq_le)
  qed
qed

text \<open>A reset gives the whole budget back, whatever happened before.\<close>

lemma reset_restores_budget:
  assumes "ok (backoff m)" and "\<forall>(r, e, t) \<in> set ys. 0 \<le> r"
  shows "permanentFailure (set_errors nxt (Reset rst (set_errors nxt m xs)) ys)
     \<longleftrightarrow> (case full (backoff m) of None \<Rightarrow> False | Some n \<Rightarrow> n < length ys)"
proof -
  let ?m = "Reset rst (set_errors nxt m xs)"
  have "ok (backoff ?m)" "left (backoff ?m) = full (backoff m)" "\<not> permanentFailure ?m"
    using set_errors_ok [OF assms(1), of xs] ok_reset left_reset by (simp_all add: Reset_def)
  with set_errors_permanent_iff [of ?m ys] assms(2) show ?thesis by simp
qed

text \<open>The waiting time of one suspension.\<close>

lemma SetError_wait:
  assumes "ok (backoff m)" and "0 \<le> r" and "r \<le> 1"
    and "SetError (nxt r) m (Some e) t = (False, m')"
  shows "\<exists>d. ticksToWait m' = ticks_of_duration d \<and> 0 \<le> d \<and> d \<le> cap (backoff m) + 1
           \<and> suspendedUntilTick m' = t + ticksToWait m'"
    and "lastError m' = Some e" and "\<not> permanentFailure m'"
  using interval_lower [OF assms(1,2)] interval_upper [OF assms(1,3)] stop_iff [OF assms(1,2)]
    SetError_permanent(1) [OF assms(1,2), of "Some e" t] assms(4)
  by (auto simp: SetError_def Let_def split: prod.splits if_splits)

end

section \<open>The policy the program uses\<close>

definition ebo_ok :: "ExponentialBackOff \<Rightarrow> bool" where
  "ebo_ok b \<longleftrightarrow> 0 \<le> InitialInterval b \<and> 0 \<le> MaxInterval b \<and> 0 \<le> MaxElapsedTime b
     \<and> startTime b = TickClock_Now \<and> 0 \<le> currentInterval b
     \<and> currentInterval b \<le> max (InitialInterval b) (MaxInterval b)"

definition tries_ok :: "backOffTries \<Rightarrow> bool" where
  "tries_ok b \<longleftrightarrow> ebo_ok (delegate b) \<and> (maxTries b = 0 \<or> numTries b \<le> maxTries b)"

definition tries_left :: "backOffTries \<Rightarrow> nat option" where
  "tries_left b = (if maxTries b = 0 then None else Some (unat (maxTries b) - unat (numTries b)))"

definition tries_full :: "backOffTries \<Rightarrow> nat option" where
  "tries_full b = (if maxTries b = 0 then None else Some (unat (maxTries b)))"

definition tries_cap :: "backOffTries \<Rightarrow> int" where
  "tries_cap b = max (InitialInterval (delegate b)) (MaxInterval (delegate b))"

lemmas policy_defs = tries_ok_def ebo_ok_def tries_left_def tries_full_def tries_cap_def
  tries_NextBackOff_def tries_Reset_def ebo_NextBackOff_def ebo_Reset_def GetElapsedTime_def

lemma incrementCurrentInterval_ok: "ebo_ok b \<Longrightarrow> ebo_ok (incrementCurrentInterval b)"
  by (auto simp: ebo_ok_def incrementCurrentInterval_def sgn_if)

lemma incrementCurrentInterval_frame [simp]:
  "InitialInterval (incrementCurrentInterval b) = InitialInterval b"
  "MaxInterval (incrementCurrentInterval b) = MaxInterval b"
  by (simp_all add: incrementCurrentInterval_def)

lemma ebo_NextBackOff_ok:
  assumes "ebo_ok b"
  shows "ebo_NextBackOff r b = (currentInterval b + r, incrementCurrentInterval b)"
  using assms by (auto simp: ebo_ok_def ebo_NextBackOff_def GetElapsedTime_def)

lemma tries_NextBackOff_ok:
  assumes "tries_ok b"
  shows "tries_NextBackOff r b =
     (if tries_left b = Some 0 then (Stop, b)
      else (currentInterval (delegate b) + r,
            b\<lparr>numTries := (if maxTries b = 0 then numTries b else numTries b + 1),
              delegate := incrementCurrentInterval (delegate b)\<rparr>))"
  using assms ebo_NextBackOff_ok [of "delegate b" r]
  by (auto simp: tries_ok_def tries_NextBackOff_def tries_left_def Let_def word_le_nat_alt
      u64_pos_iff split: prod.splits)

interpretation tries: retry_policy tries_NextBackOff tries_Reset tries_ok tries_left tries_full tries_cap
proof (unfold_locales, goal_cases)
  case (1 b r)
  then show ?case
    using unat_Suc_below [of "numTries b" "maxTries b"]
    by (auto simp: tries_NextBackOff_ok tries_ok_def incrementCurrentInterval_ok tries_left_def
        word_le_nat_alt)
next
  case (2 b)
  then show ?case by (auto simp: policy_defs)
next
  case (3 b r)
  then show ?case by (auto simp: tries_NextBackOff_ok Stop_def tries_ok_def ebo_ok_def)
next
  case (4 b r)
  then show ?case
    using unat_Suc_below [of "numTries b" "maxTries b"]
    by (auto simp: tries_NextBackOff_ok tries_left_def)
next
  case (5 b)
  then show ?case by (simp add: policy_defs)
next
  case (6 b r)
  then show ?case by (auto simp: tries_NextBackOff_ok tries_full_def)
next
  case (7 b)
  then show ?case by (simp add: policy_defs)
next
  case (8 b r)
  then show ?case by (auto simp: tries_NextBackOff_ok tries_cap_def)
next
  case (9 b r)
  then show ?case by (auto simp: tries_NextBackOff_ok tries_ok_def ebo_ok_def)
next
  case (10 b r)
  then show ?case by (auto simp: tries_NextBackOff_ok tries_ok_def ebo_ok_def tries_cap_def)
qed

section \<open>Managers built from a configuration\<close>

text \<open>The configured intervals fit a signed 64-bit number of nanoseconds.\<close>

definition config_in_range :: "BackoffConfig \<Rightarrow> bool" where
  "config_in_range c \<longleftrightarrow> unat (cfg_InitialInterval c) * 1000000 < 2 ^ 63
     \<and> unat (cfg_MaxInterval c) * 1000000 < 2 ^ 63"

definition max_wait :: "BackoffConfig \<Rightarrow> nat" where
  "max_wait c = max (unat (cfg_InitialInterval c)) (unat (cfg_MaxInterval c))"

lemma duration_of_ticks_in_range:
  assumes "unat t * 1000000 < 2 ^ 63"
  shows "duration_of_ticks t = int (unat t) * 1000000"
proof -
  have "unat (t * 1000000) = unat t * 1000000"
    using assms by (simp add: unat_word_ariths)
  then have "int (unat (t * 1000000)) = int (unat t * 1000000)"
    by (simp only:)
  then have u: "uint (t * 1000000) = int (unat t) * 1000000" by simp
  have "int (unat t * 1000000) < int (2 ^ 63)" using assms by (simp only: of_nat_less_iff)
  then have "int (unat t) * 1000000 < 2 ^ 63" by simp
  moreover have "- (2 ^ 63) \<le> int (unat t) * 1000000"
    by (rule order.trans [of _ 0]) simp_all
  ultimately have "signed_take_bit 63 (int (unat t) * 1000000) = int (unat t) * 1000000"
    by (intro signed_take_bit_int_eq_self)
  then show ?thesis by (simp add: duration_of_ticks_def sint_uint u)
qed

lemma int_max_scaled: "max (int a * millisecond) (int b * millisecond) = int (max a b) * millisecond"
  by (simp add: max_def)

lemma NewBackoffManager_policy:
  assumes "config_in_range c"
  shows "tries_ok (backoff (NewBackoffManager c))"
    and "tries_left (backoff (NewBackoffManager c)) =
         (if cfg_MaxRetries c = 0 then None else Some (unat (cfg_MaxRetries c)))"
    and "tries_full (backoff (NewBackoffManager c)) =
         (if cfg_MaxRetries c = 0 then None else Some (unat (cfg_MaxRetries c)))"
    and "tries_cap (backoff (NewBackoffManager c)) = int (max_wait c) * millisecond"
  using assms int_max_scaled [of "unat (cfg_InitialInterval c)" "unat (cfg_MaxInterval c)"]
  by (auto simp: NewBackoffManager_def policy_defs TickClock_Now_def Let_def config_in_range_def
      duration_of_ticks_in_range max_wait_def)

lemma ticks_of_duration_bounds:
  assumes "0 \<le> d" and "d \<le> int k * millisecond + 1" and "k * 1000000 < 2 ^ 63"
  shows "1 \<le> unat (ticks_of_duration d)" and "unat (ticks_of_duration d) \<le> max 1 k"
proof -
  let ?q = "d div millisecond"
  have q: "0 \<le> ?q" "?q \<le> int k" using assms(1,2) by linarith+
  have "k < 2 ^ 64" using assms(3) by simp
  then have lt: "nat ?q < 2 ^ 64" using q by linarith
  have "unat (word_of_int ?q :: u64) = nat ?q"
    using q(1) lt by (simp add: unsigned_of_int take_bit_int_eq_self nat_less_iff)
  moreover have "sgn d * (\<bar>d\<bar> div millisecond) = ?q" using assms(1) by (simp add: sgn_if)
  ultimately show "1 \<le> unat (ticks_of_duration d)" and "unat (ticks_of_duration d) \<le> max 1 k"
    using q by (auto simp: ticks_of_duration_def Let_def word_less_nat_alt)
qed

lemma wrapf_permanent: "IsPermanentFailureError (Some (wrapf (PermanentFailureError @ '': '') e))"
  by (cases e) (auto simp: IsPermanentFailureError_def intro: str_contains_prefix)

lemma wrapf_temporary:
  "IsTemporaryBackoffError (Some (wrapf (TemporaryBackoffError @ p) (Some e)))"
  by (auto simp: IsTemporaryBackoffError_def intro: str_contains_prefix)

lemma suspended_exactly:
  assumes "config_in_range c" and "0 \<le> r" and "r \<le> 1"
    and "SetError (tries_NextBackOff r) (set_errors tries_NextBackOff (NewBackoffManager c) xs)
           (Some e) t = (False, m')"
    and "unat t + max 1 (max_wait c) < 2 ^ 64"
  shows "1 \<le> unat (ticksToWait m') \<and> unat (ticksToWait m') \<le> max 1 (max_wait c)
    \<and> (\<forall>t'. ShouldSkipOperation m' t' \<longleftrightarrow> unat t' < unat t + unat (ticksToWait m'))"
proof -
  let ?m = "set_errors tries_NextBackOff (NewBackoffManager c) xs"
  note pol = NewBackoffManager_policy [OF assms(1)]
  have ok: "tries_ok (backoff ?m)" and cap: "tries_cap (backoff ?m) = int (max_wait c) * millisecond"
    using tries.set_errors_ok [OF pol(1), of xs] pol(4) by simp_all
  note w = tries.SetError_wait [OF ok assms(2,3,4)]
  have k: "max_wait c * 1000000 < 2 ^ 63"
    using assms(1) by (auto simp: config_in_range_def max_wait_def max_def)
  have lo: "1 \<le> unat (ticksToWait m')" and hi: "unat (ticksToWait m') \<le> max 1 (max_wait c)"
    using w(1) cap ticks_of_duration_bounds [OF _ _ k] by auto
  have "unat (suspendedUntilTick m') = unat t + unat (ticksToWait m')"
    using w(1) hi assms(5) by (auto intro!: unat_add_no_overflow)
  moreover from this have "suspendedUntilTick m' \<noteq> 0"
    using lo by (metis One_nat_def add_is_0 not_one_le_zero unat_0)
  ultimately have "\<forall>t'. ShouldSkipOperation m' t' \<longleftrightarrow> unat t' < unat t + unat (ticksToWait m')"
    using w(2,3) by (simp add: ShouldSkipOperation_def u64_less_iff)
  with lo hi show ?thesis by simp
qed

lemma skip_iff_backoff_error: "ShouldSkipOperation m t \<longleftrightarrow> GetBackoffError m t \<noteq> None"
  by (auto simp: ShouldSkipOperation_def GetBackoffError_def u64_pos_iff)

section \<open>Properties\<close>

text \<open>
  A manager built by \<^verbatim>\<open>NewBackoffManager\<close> with intervals in range gives up exactly when
  more consecutive errors were recorded than \<^verbatim>\<open>MaxRetries\<close> (never, when it is 0), and a
  \<^verbatim>\<open>Reset\<close> after any such history restores the whole budget.
\<close>

theorem retry_budget_exact:
  assumes "config_in_range c"
    and "\<forall>(r, e, t) \<in> set (xs @ ys). 0 \<le> r"
  shows "(IsPermanentlyFailed (set_errors tries_NextBackOff (NewBackoffManager c) xs)
       \<longleftrightarrow> cfg_MaxRetries c \<noteq> 0 \<and> unat (cfg_MaxRetries c) < length xs) \<and>
       (IsPermanentlyFailed (set_errors tries_NextBackOff
           (Reset tries_Reset (set_errors tries_NextBackOff (NewBackoffManager c) xs)) ys)
       \<longleftrightarrow> cfg_MaxRetries c \<noteq> 0 \<and> unat (cfg_MaxRetries c) < length ys)"
proof (intro conjI)
  note pol = NewBackoffManager_policy [OF assms(1)]
  have fresh: "\<not> permanentFailure (NewBackoffManager c)"
    by (simp add: NewBackoffManager_def Let_def)
  show "IsPermanentlyFailed (set_errors tries_NextBackOff (NewBackoffManager c) xs)
       \<longleftrightarrow> cfg_MaxRetries c \<noteq> 0 \<and> unat (cfg_MaxRetries c) < length xs"
    using tries.set_errors_permanent_iff [OF pol(1) fresh, of xs] assms(2) pol(2)
    by (simp add: IsPermanentlyFailed_def)
  show "IsPermanentlyFailed (set_errors tries_NextBackOff
           (Reset tries_Reset (set_errors tries_NextBackOff (NewBackoffManager c) xs)) ys)
       \<longleftrightarrow> cfg_MaxRetries c \<noteq> 0 \<and> unat (cfg_MaxRetries c) < length ys"
    using tries.reset_restores_budget [OF pol(1), of ys xs] assms(2) pol(3)
    by (simp add: IsPermanentlyFailed_def)
qed

theorem retry_budget_exact_witness:
  "config_in_range DefaultConfig
   \<and> IsPermanentlyFailed (set_errors tries_NextBackOff (NewBackoffManager DefaultConfig)
        (replicate 6 (0, ErrorNew 9 ''x'', 7)))
   \<and> \<not> IsPermanentlyFailed (set_errors tries_NextBackOff (Reset tries_Reset
        (set_errors tries_NextBackOff (NewBackoffManager DefaultConfig)
           (replicate 6 (0, ErrorNew 9 ''x'', 7)))) (replicate 5 (1, ErrorNew 9 ''x'', 7)))"
proof -
  let ?xs = "replicate 6 (0 :: int, ErrorNew 9 ''x'', 7 :: u64)"
  let ?ys = "replicate 5 (1 :: int, ErrorNew 9 ''x'', 7 :: u64)"
  have c: "config_in_range DefaultConfig" by (simp add: config_in_range_def DefaultConfig_def)
  have r: "\<forall>(r, e, t) \<in> set (?xs @ ?ys). 0 \<le> r" by auto
  show ?thesis using c retry_budget_exact [OF c r] by (simp add: DefaultConfig_def)
qed

text \<open>
  After an error that does not exhaust the budget, the manager waits at least one tick and at
  most the larger of the two configured intervals, and (when the tick counter does not overflow)
  it skips exactly the ticks before the end of that wait.
\<close>

theorem suspension_window:
  assumes "config_in_range c" and "0 \<le> r" and "r \<le> 1"
    and "SetError (tries_NextBackOff r) (set_errors tries_NextBackOff (NewBackoffManager c) xs)
           (Some e) t = (False, m')"
    and "unat t + max 1 (max_wait c) < 2 ^ 64"
  shows "1 \<le> unat (ticksToWait m') \<and> unat (ticksToWait m') \<le> max 1 (max_wait c)
    \<and> (\<forall>t'. ShouldSkipOperation m' t' \<longleftrightarrow> unat t' < unat t + unat (ticksToWait m'))"
  by (rule suspended_exactly [OF assms])

theorem suspension_window_witness:
  "let m' = snd (SetError (tries_NextBackOff 0)
        (set_errors tries_NextBackOff (NewBackoffManager DefaultConfig)
           (replicate 3 (0, ErrorNew 9 ''x'', 1))) (Some (ErrorNew 9 ''y'')) 10)
   in ticksToWait m' = 3 \<and> ShouldSkipOperation m' 12 \<and> \<not> ShouldSkipOperation m' 13"
proof -
  let ?m = "set_errors tries_NextBackOff (NewBackoffManager DefaultConfig)
     (replicate 3 (0, ErrorNew 9 ''x'', 1))"
  let ?s = "SetError (tries_NextBackOff 0) ?m (Some (ErrorNew 9 ''y'')) 10"
  have c: "config_in_range DefaultConfig" by (simp add: config_in_range_def DefaultConfig_def)
  have run: "fst ?s = False \<and> ticksToWait (snd ?s) = 3" by code_simp
  then have s: "?s = (False, snd ?s)" by (metis prod.collapse)
  have t: "unat (10 :: u64) + max 1 (max_wait DefaultConfig) < 2 ^ 64"
    by (simp add: max_wait_def DefaultConfig_def)
  note w = suspension_window [OF c _ _ s t]
  have "ShouldSkipOperation (snd ?s) 12" and "\<not> ShouldSkipOperation (snd ?s) 13"
    using w run by simp_all
  with run show ?thesis by (simp add: Let_def)
qed

text \<open>
  In every state of the manager \<^verbatim>\<open>ShouldSkipOperation\<close> and \<^verbatim>\<open>GetBackoffError\<close> agree,
  and the error they report is recognised by the classification functions the callers branch on:
  a permanently failed manager reports a permanent failure, a suspended one a temporary one, and
  the original error is the cause of both.
\<close>

theorem skip_agrees_with_backoff_error:
  "(ShouldSkipOperation m t \<longleftrightarrow> GetBackoffError m t \<noteq> None)
   \<and> (permanentFailure m \<longrightarrow> IsPermanentFailureError (GetBackoffError m t))
   \<and> (\<not> permanentFailure m \<and> ShouldSkipOperation m t \<longrightarrow> IsTemporaryBackoffError (GetBackoffError m t))
   \<and> (lastError m \<noteq> None \<and> ShouldSkipOperation m t \<longrightarrow>
        ExtractOriginalError (GetBackoffError m t) = ExtractOriginalError (lastError m))"
  using wrapf_permanent [of "lastError m"] wrapf_temporary skip_iff_backoff_error [of m t]
  by (auto simp: ShouldSkipOperation_def GetBackoffError_def u64_pos_iff ExtractOriginalError_def
      split: if_splits)

theorem skip_agrees_with_backoff_error_witness:
  "let m = snd (SetError (tries_NextBackOff 0) (NewBackoffManager DefaultConfig)
        (Some (ErrorNew 9 ''y'')) 10)
   in IsTemporaryBackoffError (GetBackoffError m 10)
      \<and> ExtractOriginalError (GetBackoffError m 10) = Some (ErrorNew 9 ''y'')
      \<and> IsPermanentFailureError (GetBackoffError (m\<lparr>permanentFailure := True\<rparr>) 10)"
proof -
  let ?m = "snd (SetError (tries_NextBackOff 0) (NewBackoffManager DefaultConfig)
        (Some (ErrorNew 9 ''y'')) 10)"
  have m: "ShouldSkipOperation ?m 10" "\<not> permanentFailure ?m" "lastError ?m = Some (ErrorNew 9 ''y'')"
    by code_simp+
  then show ?thesis
    using skip_agrees_with_backoff_error [of "?m\<lparr>permanentFailure := True\<rparr>" 10]
      skip_agrees_with_backoff_error [of ?m 10]
    by (simp add: Let_def ExtractOriginalError_def)
qed

end
