(* ===== verification/Base_FSM.thy ===== *)
theory Base_FSM
  imports Backoff
begin

text \<open>
  The generic FSM instance every component embeds: \<^verbatim>\<open>umh-core/internal/fsm/baseFSM.go\<close> and
  \<^verbatim>\<open>lifecycle_states.go\<close>, over the vendored machine \<^verbatim>\<open>vendor/github.com/looplab/fsm\<close>.
  A Go struct that embeds \<^verbatim>\<open>*BaseFSMInstance\<close> is an extension of the record, so every
  operation here is polymorphic in the extension.

  Time and contexts are inputs. One transition reads the caller's context (its error and the time
  left to its deadline) and the fresh transition context (its error when the state is switched);
  those readings are an \<open>event_env\<close>. An enter callback may send another event, which reads its
  own: \<open>env k\<close> is the reading of the \<open>k\<close>-th nested transition. Locks and log lines have no
  counterpart: every operation runs under the instance's own reconcile call.
\<close>

section \<open>Lifecycle states and events\<close>

abbreviation LifecycleEventRemove :: string where "LifecycleEventRemove \<equiv> ''remove''"
abbreviation LifecycleEventRemoveDone :: string where "LifecycleEventRemoveDone \<equiv> ''remove_done''"
abbreviation LifecycleEventCreate :: string where "LifecycleEventCreate \<equiv> ''create''"
abbreviation LifecycleEventCreateDone :: string where "LifecycleEventCreateDone \<equiv> ''create_done''"

abbreviation LifecycleStateToBeCreated :: string where "LifecycleStateToBeCreated \<equiv> ''to_be_created''"
abbreviation LifecycleStateCreating :: string where "LifecycleStateCreating \<equiv> ''creating''"
abbreviation LifecycleStateRemoving :: string where "LifecycleStateRemoving \<equiv> ''removing''"
abbreviation LifecycleStateRemoved :: string where "LifecycleStateRemoved \<equiv> ''removed''"

definition IsLifecycleState :: "string \<Rightarrow> bool" where
  "IsLifecycleState s =
     (s = LifecycleStateToBeCreated \<or> s = LifecycleStateCreating
      \<or> s = LifecycleStateRemoving \<or> s = LifecycleStateRemoved)"

section \<open>The vendored state machine\<close>

record EventDesc =
  ev_Name :: string
  ev_Src :: "string list"
  ev_Dst :: string

type_synonym transitions = "string \<times> string \<rightharpoonup> string"

text \<open>\<^verbatim>\<open>NewFSM\<close> stores every source of every event; a later entry replaces an earlier one.\<close>

definition add_event :: "EventDesc \<Rightarrow> transitions \<Rightarrow> transitions" where
  "add_event e m = fold (\<lambda>src m. m((ev_Name e, src) \<mapsto> ev_Dst e)) (ev_Src e) m"

definition NewFSM_transitions :: "EventDesc list \<Rightarrow> transitions" where
  "NewFSM_transitions es = fold add_event es Map.empty"

section \<open>The instance\<close>

datatype callback = LogCallback | AutoRemoveCallback

record BaseFSMInstanceConfig =
  cfg_ID :: string
  cfg_DesiredFSMState :: string
  cfg_OperationalStateAfterCreate :: string
  cfg_OperationalStateBeforeRemove :: string
  cfg_OperationalTransitions :: "EventDesc list"
  cfg_MaxTicksToRemainInTransientState :: u64

record BaseFSMInstance =
  fsm_current :: string
  fsm_transitions :: transitions
  callbacks :: "string \<rightharpoonup> callback"
  backoffManager :: "backOffTries BackoffManager"
  lastObservedLifecycleState :: string
  cfg :: BaseFSMInstanceConfig
  transientStreakCounter :: u64

text \<open>The key under which the callback for entering a state is registered.\<close>

definition enter_key :: "string \<Rightarrow> string" where
  "enter_key st = ''enter_'' @ st"

definition AddCallback :: "string \<Rightarrow> callback \<Rightarrow> 'a BaseFSMInstance_scheme \<Rightarrow> 'a BaseFSMInstance_scheme" where
  "AddCallback eventName cb s = s\<lparr>callbacks := (callbacks s)(eventName \<mapsto> cb)\<rparr>"

definition lifecycle_events :: "BaseFSMInstanceConfig \<Rightarrow> EventDesc list" where
  "lifecycle_events c =
     [\<lparr>ev_Name = LifecycleEventCreate, ev_Src = [LifecycleStateToBeCreated], ev_Dst = LifecycleStateCreating\<rparr>,
      \<lparr>ev_Name = LifecycleEventCreateDone, ev_Src = [LifecycleStateCreating],
       ev_Dst = cfg_OperationalStateAfterCreate c\<rparr>,
      \<lparr>ev_Name = LifecycleEventRemove, ev_Src = [cfg_OperationalStateBeforeRemove c],
       ev_Dst = LifecycleStateRemoving\<rparr>,
      \<lparr>ev_Name = LifecycleEventRemoveDone, ev_Src = [LifecycleStateRemoving], ev_Dst = LifecycleStateRemoved\<rparr>]"

definition DefaultMaxTicksToRemainInTransientState :: u64 where
  "DefaultMaxTicksToRemainInTransientState = 600"

definition NewBaseFSMInstance :: "BaseFSMInstanceConfig \<Rightarrow> BackoffConfig \<Rightarrow> BaseFSMInstance" where
  "NewBaseFSMInstance c bc =
     (let c' = (if cfg_MaxTicksToRemainInTransientState c = 0
                then c\<lparr>cfg_MaxTicksToRemainInTransientState := DefaultMaxTicksToRemainInTransientState\<rparr>
                else c);
          s0 = \<lparr>fsm_current = LifecycleStateToBeCreated,
                fsm_transitions = NewFSM_transitions (lifecycle_events c' @ cfg_OperationalTransitions c'),
                callbacks = Map.empty, backoffManager = NewBackoffManager bc,
                lastObservedLifecycleState = [], cfg = c', transientStreakCounter = 0\<rparr>
      in AddCallback (enter_key LifecycleStateRemoving) LogCallback
           (AddCallback (enter_key LifecycleStateToBeCreated) LogCallback
             (AddCallback (enter_key LifecycleStateCreating) LogCallback
               (AddCallback (enter_key LifecycleStateRemoved) LogCallback s0))))"

definition fsm_SetError :: "int \<Rightarrow> goerror option \<Rightarrow> u64 \<Rightarrow> 'a BaseFSMInstance_scheme \<Rightarrow> bool \<times> 'a BaseFSMInstance_scheme" where
  "fsm_SetError r err tick s =
     (let (p, m) = SetError (tries_NextBackOff r) (backoffManager s) err tick
      in (p, s\<lparr>backoffManager := m\<rparr>))"

definition fsm_GetError :: "'a BaseFSMInstance_scheme \<Rightarrow> goerror option" where
  "fsm_GetError s = GetLastError (backoffManager s)"

definition SetDesiredFSMState :: "string \<Rightarrow> 'a BaseFSMInstance_scheme \<Rightarrow> 'a BaseFSMInstance_scheme" where
  "SetDesiredFSMState st s = s\<lparr>cfg := (cfg s)\<lparr>cfg_DesiredFSMState := st\<rparr>\<rparr>"

definition GetDesiredFSMState :: "'a BaseFSMInstance_scheme \<Rightarrow> string" where
  "GetDesiredFSMState s = cfg_DesiredFSMState (cfg s)"

definition GetCurrentFSMState :: "'a BaseFSMInstance_scheme \<Rightarrow> string" where
  "GetCurrentFSMState s = fsm_current s"

definition SetCurrentFSMState :: "string \<Rightarrow> 'a BaseFSMInstance_scheme \<Rightarrow> 'a BaseFSMInstance_scheme" where
  "SetCurrentFSMState st s = s\<lparr>fsm_current := st\<rparr>"

definition GetID :: "'a BaseFSMInstance_scheme \<Rightarrow> string" where
  "GetID s = cfg_ID (cfg s)"

definition IsRemoved :: "'a BaseFSMInstance_scheme \<Rightarrow> bool" where
  "IsRemoved s = (fsm_current s = LifecycleStateRemoved)"

definition IsRemoving :: "'a BaseFSMInstance_scheme \<Rightarrow> bool" where
  "IsRemoving s = (fsm_current s = LifecycleStateRemoving)"

definition fsm_ShouldSkipReconcileBecauseOfError :: "u64 \<Rightarrow> 'a BaseFSMInstance_scheme \<Rightarrow> bool" where
  "fsm_ShouldSkipReconcileBecauseOfError tick s = ShouldSkipOperation (backoffManager s) tick"

definition ClearError :: "'a BaseFSMInstance_scheme \<Rightarrow> 'a BaseFSMInstance_scheme" where
  "ClearError s = s\<lparr>backoffManager := Reset tries_Reset (backoffManager s)\<rparr>"

definition ResetState :: "'a BaseFSMInstance_scheme \<Rightarrow> 'a BaseFSMInstance_scheme" where
  "ResetState s = s\<lparr>backoffManager := Reset tries_Reset (backoffManager s)\<rparr>"

definition fsm_IsPermanentlyFailed :: "'a BaseFSMInstance_scheme \<Rightarrow> bool" where
  "fsm_IsPermanentlyFailed s = IsPermanentlyFailed (backoffManager s)"

definition fsm_GetBackoffError :: "u64 \<Rightarrow> 'a BaseFSMInstance_scheme \<Rightarrow> goerror option" where
  "fsm_GetBackoffError tick s = GetBackoffError (backoffManager s) tick"

section \<open>Sending events\<close>

record event_env =
  env_ctx_err :: "goerror option"
  env_deadline :: "int option"
  env_fsm_err :: "goerror option"
  env_rand :: int

definition ExpectedMaxP95ExecutionTimePerEvent :: int where
  "ExpectedMaxP95ExecutionTimePerEvent = 1 * millisecond"

definition unknown_event :: "string \<Rightarrow> goerror" where
  "unknown_event ev = ErrorNew 10 (''event '' @ ev @ '' does not exist'')"

definition invalid_event :: "string \<Rightarrow> string \<Rightarrow> goerror" where
  "invalid_event ev st = ErrorNew 11 (''event '' @ ev @ '' inappropriate in current state '' @ st)"

definition no_transition :: goerror where
  "no_transition = ErrorNew 12 ''no transition''"

definition remove_failed_prefix :: string where
  "remove_failed_prefix = PermanentFailureError @ '': remove transition failed: ''"

text \<open>
  \<^verbatim>\<open>Event\<close> of the vendored machine for the only kind of callback the program registers
  with it (\<^verbatim>\<open>enter_state\<close>): look the transition up; refuse unknown and inappropriate events
  and self transitions; switch the state unless the transition context has expired; then run the
  callback registered for the state just entered. \<open>cb\<close> is what the auto-remove callback does.
  \<open>known ev\<close> says that some transition carries the event's name.
\<close>

definition fsm_Event ::
  "('a BaseFSMInstance_scheme \<Rightarrow> 'a BaseFSMInstance_scheme) \<Rightarrow> (string \<Rightarrow> bool) \<Rightarrow> event_env \<Rightarrow> string
   \<Rightarrow> 'a BaseFSMInstance_scheme \<Rightarrow> goerror option \<times> 'a BaseFSMInstance_scheme"
where
  "fsm_Event cb known env ev s =
     (case fsm_transitions s (ev, fsm_current s) of
        None \<Rightarrow> (Some (if known ev then invalid_event ev (fsm_current s) else unknown_event ev), s)
      | Some dst \<Rightarrow>
          if fsm_current s = dst then (Some no_transition, s)
          else (case env_fsm_err env of
                  Some e \<Rightarrow> (Some e, s)
                | None \<Rightarrow>
                    let s1 = s\<lparr>fsm_current := dst\<rparr>
                    in (None, case callbacks s1 (enter_key dst) of
                                Some AutoRemoveCallback \<Rightarrow> cb s1
                              | _ \<Rightarrow> s1)))"

definition event_names :: "BaseFSMInstanceConfig \<Rightarrow> string \<Rightarrow> bool" where
  "event_names c ev = (ev \<in> ev_Name ` set (filter (\<lambda>e. ev_Src e \<noteq> []) (lifecycle_events c @ cfg_OperationalTransitions c)))"

definition transition_prefix :: "'a BaseFSMInstance_scheme \<Rightarrow> string \<Rightarrow> string" where
  "transition_prefix s ev = ''FSM '' @ GetID s @ '' failed transition: current_state='' @ [CHR 0x27]
     @ fsm_current s @ [CHR 0x27] @ '' -> event='' @ [CHR 0x27] @ ev @ [CHR 0x27]
     @ '' (desired_state='' @ [CHR 0x27] @ GetDesiredFSMState s @ [CHR 0x27] @ ''): ''"

text \<open>\<^verbatim>\<open>SendEvent\<close>, given what the auto-remove callback does.\<close>

definition SendEvent_with ::
  "('a BaseFSMInstance_scheme \<Rightarrow> 'a BaseFSMInstance_scheme) \<Rightarrow> event_env \<Rightarrow> string
   \<Rightarrow> 'a BaseFSMInstance_scheme \<Rightarrow> goerror option \<times> 'a BaseFSMInstance_scheme"
where
  "SendEvent_with cb env ev s =
     (case env_ctx_err env of
        Some e \<Rightarrow> (Some e, s)
      | None \<Rightarrow>
          if (case env_deadline env of
                None \<Rightarrow> False
              | Some left \<Rightarrow> left < ExpectedMaxP95ExecutionTimePerEvent)
          then (Some ctx_deadline_exceeded, s)
          else (case fsm_Event cb (event_names (cfg s)) env ev s of
                  (err, s') \<Rightarrow> (map_option (Errorf (transition_prefix s ev)) err, s')))"

text \<open>
  The callback that \<^verbatim>\<open>Remove\<close> arms: send the remove event, record a failure (with tick 0),
  and delete the key \<^verbatim>\<open>auto_remove_once\<close>.
\<close>

definition auto_remove_callback ::
  "('a BaseFSMInstance_scheme \<Rightarrow> goerror option \<times> 'a BaseFSMInstance_scheme) \<Rightarrow> int
   \<Rightarrow> 'a BaseFSMInstance_scheme \<Rightarrow> 'a BaseFSMInstance_scheme"
where
  "auto_remove_callback sendRemove r s =
     (let (err, s1) = sendRemove s;
          s2 = (case err of
                  None \<Rightarrow> s1
                | Some e \<Rightarrow> snd (fsm_SetError r (Some (Errorf remove_failed_prefix e)) 0 s1))
      in s2\<lparr>callbacks := (callbacks s2)(''auto_remove_once'' := None)\<rparr>)"

text \<open>
  \<^verbatim>\<open>SendEvent\<close> and the callback call each other, so the nesting is bounded by \<open>depth\<close>; in the
  program it never exceeds two levels, which \<open>SendEvent_depth_enough\<close> shows.
\<close>

primrec SendEvent_depth ::
  "nat \<Rightarrow> (nat \<Rightarrow> event_env) \<Rightarrow> string \<Rightarrow> 'a BaseFSMInstance_scheme \<Rightarrow> goerror option \<times> 'a BaseFSMInstance_scheme"
where
  "SendEvent_depth 0 env ev s = (None, s)"
| "SendEvent_depth (Suc depth) env ev s =
     SendEvent_with
       (auto_remove_callback (SendEvent_depth depth (\<lambda>i. env (Suc i)) LifecycleEventRemove) (env_rand (env 0)))
       (env 0) ev s"

definition SendEvent ::
  "(nat \<Rightarrow> event_env) \<Rightarrow> string \<Rightarrow> 'a BaseFSMInstance_scheme \<Rightarrow> goerror option \<times> 'a BaseFSMInstance_scheme"
where
  "SendEvent = SendEvent_depth 2"

definition fsm_Can :: "string \<Rightarrow> 'a BaseFSMInstance_scheme \<Rightarrow> bool" where
  "fsm_Can ev s = (fsm_transitions s (ev, fsm_current s) \<noteq> None)"

section \<open>Removal\<close>

definition fsm_Remove ::
  "(nat \<Rightarrow> event_env) \<Rightarrow> 'a BaseFSMInstance_scheme \<Rightarrow> goerror option \<times> 'a BaseFSMInstance_scheme"
where
  "fsm_Remove env s =
     (if IsRemoved s \<or> IsRemoving s then (None, s)
      else
        let preRemove = cfg_OperationalStateBeforeRemove (cfg s);
            s1 = SetDesiredFSMState preRemove s
        in if GetCurrentFSMState s1 = preRemove \<and> fsm_Can LifecycleEventRemove s1
           then SendEvent env LifecycleEventRemove s1
           else if callbacks s1 ''auto_remove_once'' = None
           then (None, AddCallback (enter_key preRemove) AutoRemoveCallback s1)
           else (None, s1))"

definition force_remove_failed :: "'a BaseFSMInstance_scheme \<Rightarrow> goerror \<Rightarrow> goerror" where
  "force_remove_failed s e =
     Errorf (''failed to force remove the '' @ GetID s @ '' instance: '' @ PermanentFailureError @ '' : '') e"

text \<open>
  The two removal functions act on the whole instance, so they take and return it.
\<close>

definition HandlePermanentError ::
  "goerror option \<Rightarrow> ('a BaseFSMInstance_scheme \<Rightarrow> bool)
   \<Rightarrow> ('a BaseFSMInstance_scheme \<Rightarrow> goerror option \<times> 'a BaseFSMInstance_scheme)
   \<Rightarrow> ('a BaseFSMInstance_scheme \<Rightarrow> goerror option \<times> 'a BaseFSMInstance_scheme)
   \<Rightarrow> 'a BaseFSMInstance_scheme \<Rightarrow> (goerror option \<times> bool) \<times> 'a BaseFSMInstance_scheme"
where
  "HandlePermanentError err isInShutdownState normalRemove forceRemove s =
     (if isInShutdownState s
      then case forceRemove s of
             (Some e, s1) \<Rightarrow> ((Some (force_remove_failed s e), False), s1)
           | (None, s1) \<Rightarrow> ((err, True), SetCurrentFSMState LifecycleStateRemoved s1)
      else
        case normalRemove (ResetState s) of
          (None, s1) \<Rightarrow> ((None, False), s1)
        | (Some _, s1) \<Rightarrow>
            (case forceRemove s1 of
               (Some e, s2) \<Rightarrow> ((Some (force_remove_failed s e), False), s2)
             | (None, s2) \<Rightarrow> ((None, False), SetCurrentFSMState LifecycleStateRemoved s2)))"

section \<open>Lifecycle reconciliation\<close>

definition ErrInstanceRemoved :: goerror where
  "ErrInstanceRemoved = ErrorNew 20 ''instance removed''"

definition ErrRemovalPending :: goerror where
  "ErrRemovalPending = ErrorNew 21 ''service removal still in progress''"

definition note_lifecycle_state :: "string \<Rightarrow> 'a BaseFSMInstance_scheme \<Rightarrow> 'a BaseFSMInstance_scheme" where
  "note_lifecycle_state st s =
     s\<lparr>transientStreakCounter :=
         (if st = lastObservedLifecycleState s then transientStreakCounter s + 1 else 0),
       lastObservedLifecycleState := st\<rparr>"

definition ReconcileLifecycleStates ::
  "(nat \<Rightarrow> event_env) \<Rightarrow> string
   \<Rightarrow> ('a BaseFSMInstance_scheme \<Rightarrow> goerror option \<times> 'a BaseFSMInstance_scheme)
   \<Rightarrow> ('a BaseFSMInstance_scheme \<Rightarrow> goerror option \<times> 'a BaseFSMInstance_scheme)
   \<Rightarrow> ('a BaseFSMInstance_scheme \<Rightarrow> bool \<times> 'a BaseFSMInstance_scheme)
   \<Rightarrow> 'a BaseFSMInstance_scheme \<Rightarrow> (goerror option \<times> bool) \<times> 'a BaseFSMInstance_scheme"
where
  "ReconcileLifecycleStates env currentState createInstance removeInstance checkForCreation s =
     (let s0 = note_lifecycle_state currentState s
      in if currentState = LifecycleStateToBeCreated then
           (case createInstance s0 of
              (Some e, s1) \<Rightarrow> ((Some e, False), s1)
            | (None, s1) \<Rightarrow> (case SendEvent env LifecycleEventCreate s1 of (e, s2) \<Rightarrow> ((e, True), s2)))
         else if currentState = LifecycleStateCreating then
           (case checkForCreation s0 of
              (False, s1) \<Rightarrow> ((None, False), s1)
            | (True, s1) \<Rightarrow> (case SendEvent env LifecycleEventCreateDone s1 of (e, s2) \<Rightarrow> ((e, True), s2)))
         else if currentState = LifecycleStateRemoving then
           (case removeInstance s0 of
              (Some e, s1) \<Rightarrow>
                if errors_is e ErrRemovalPending then ((None, False), s1) else ((Some e, False), s1)
            | (None, s1) \<Rightarrow> (case SendEvent env LifecycleEventRemoveDone s1 of (e, s2) \<Rightarrow> ((e, True), s2)))
         else if currentState = LifecycleStateRemoved then ((Some ErrInstanceRemoved, True), s0)
         else ((None, False), s0))"

definition IsTransientStreakCounterMaxed :: "'a BaseFSMInstance_scheme \<Rightarrow> bool" where
  "IsTransientStreakCounterMaxed s =
     (transientStreakCounter s \<ge> cfg_MaxTicksToRemainInTransientState (cfg s))"

definition IsDeadlineExceededAndHandle ::
  "int \<Rightarrow> goerror \<Rightarrow> u64 \<Rightarrow> 'a BaseFSMInstance_scheme \<Rightarrow> bool \<times> 'a BaseFSMInstance_scheme"
where
  "IsDeadlineExceededAndHandle r err tick s =
     (if errors_is err ctx_deadline_exceeded then (True, snd (fsm_SetError r (Some err) tick s))
      else (False, s))"

section \<open>Runs\<close>

text \<open>
  What a reconcile cycle can do to the generic instance: send an event, ask for removal, set the
  desired state, record an error, reset after a success, note a lifecycle state.
\<close>

datatype fsm_op =
    OpSend "nat \<Rightarrow> event_env" string
  | OpRemove "nat \<Rightarrow> event_env"
  | OpSetDesired string
  | OpSetError int "goerror option" u64
  | OpReset
  | OpNote string

fun fsm_op_step :: "fsm_op \<Rightarrow> 'a BaseFSMInstance_scheme \<Rightarrow> 'a BaseFSMInstance_scheme" where
  "fsm_op_step (OpSend env ev) s = snd (SendEvent env ev s)"
| "fsm_op_step (OpRemove env) s = snd (fsm_Remove env s)"
| "fsm_op_step (OpSetDesired st) s = SetDesiredFSMState st s"
| "fsm_op_step (OpSetError r e t) s = snd (fsm_SetError r e t s)"
| "fsm_op_step OpReset s = ResetState s"
| "fsm_op_step (OpNote st) s = note_lifecycle_state st s"

definition fsm_run :: "fsm_op list \<Rightarrow> 'a BaseFSMInstance_scheme \<Rightarrow> 'a BaseFSMInstance_scheme" where
  "fsm_run ops s = fold fsm_op_step ops s"

text \<open>The position of a state in the life of an instance.\<close>

definition lifecycle_rank :: "string \<Rightarrow> nat" where
  "lifecycle_rank st =
     (if st = LifecycleStateToBeCreated then 0 else if st = LifecycleStateCreating then 1
      else if st = LifecycleStateRemoving then 3 else if st = LifecycleStateRemoved then 4 else 2)"

section \<open>Well-formed configurations and the instance invariant\<close>

text \<open>
  Operational transitions neither use the names of the lifecycle events nor touch lifecycle
  states; the states after creation and before removal are operational.
\<close>

definition cfg_wf :: "BaseFSMInstanceConfig \<Rightarrow> bool" where
  "cfg_wf c \<longleftrightarrow> \<not> IsLifecycleState (cfg_OperationalStateAfterCreate c)
     \<and> \<not> IsLifecycleState (cfg_OperationalStateBeforeRemove c)
     \<and> list_all (\<lambda>e. ev_Name e \<notin> {LifecycleEventCreate, LifecycleEventCreateDone,
           LifecycleEventRemove, LifecycleEventRemoveDone}
         \<and> list_all (\<lambda>st. \<not> IsLifecycleState st) (ev_Src e)
         \<and> \<not> IsLifecycleState (ev_Dst e)) (cfg_OperationalTransitions c)"

definition auto_keys :: "(string \<rightharpoonup> callback) \<Rightarrow> string set" where
  "auto_keys cbs = {k. cbs k = Some AutoRemoveCallback}"

definition fsm_inv :: "'a BaseFSMInstance_scheme \<Rightarrow> bool" where
  "fsm_inv s \<longleftrightarrow> cfg_wf (cfg s)
     \<and> fsm_transitions s = NewFSM_transitions (lifecycle_events (cfg s) @ cfg_OperationalTransitions (cfg s))
     \<and> auto_keys (callbacks s) \<subseteq> {enter_key (cfg_OperationalStateBeforeRemove (cfg s))}
     \<and> callbacks s ''auto_remove_once'' = None"

text \<open>The auto-remove callback waits for the state before removal.\<close>

definition armed :: "'a BaseFSMInstance_scheme \<Rightarrow> bool" where
  "armed s \<longleftrightarrow> callbacks s (enter_key (cfg_OperationalStateBeforeRemove (cfg s))) = Some AutoRemoveCallback"

text \<open>No context of the transition has expired and its deadline is far enough.\<close>

definition env_good :: "event_env \<Rightarrow> bool" where
  "env_good e \<longleftrightarrow> env_ctx_err e = None \<and> env_fsm_err e = None
     \<and> (case env_deadline e of None \<Rightarrow> True | Some l \<Rightarrow> l \<ge> ExpectedMaxP95ExecutionTimePerEvent)"

subsection \<open>The transition table\<close>

lemma fold_upd_const:
  "fold (\<lambda>src m. m((n, src) \<mapsto> d)) srcs m (n', s') =
     (if n' = n \<and> s' \<in> set srcs then Some d else m (n', s'))"
  by (induction srcs arbitrary: m) auto

lemma add_event_apply:
  "add_event e m (n, s) = (if n = ev_Name e \<and> s \<in> set (ev_Src e) then Some (ev_Dst e) else m (n, s))"
  by (simp add: add_event_def fold_upd_const)

lemma fold_add_event_other:
  assumes "list_all (\<lambda>e. ev_Name e \<noteq> n) es"
  shows "fold add_event es m (n, s) = m (n, s)"
  using assms by (induction es arbitrary: m) (auto simp: add_event_apply)

lemma fold_add_event_Some:
  assumes "fold add_event es m (n, s) = Some d"
  shows "m (n, s) = Some d \<or> (\<exists>e \<in> set es. ev_Name e = n \<and> s \<in> set (ev_Src e) \<and> ev_Dst e = d)"
  using assms
proof (induction es arbitrary: m)
  case (Cons e es)
  then have "add_event e m (n, s) = Some d
      \<or> (\<exists>e \<in> set es. ev_Name e = n \<and> s \<in> set (ev_Src e) \<and> ev_Dst e = d)" by simp
  then show ?case by (auto simp: add_event_apply split: if_splits)
qed simp

lemma lifecycle_transition:
  assumes "cfg_wf c" and "n \<in> {LifecycleEventCreate, LifecycleEventCreateDone,
           LifecycleEventRemove, LifecycleEventRemoveDone}"
  shows "NewFSM_transitions (lifecycle_events c @ cfg_OperationalTransitions c) (n, st) =
     NewFSM_transitions (lifecycle_events c) (n, st)"
proof -
  have "list_all (\<lambda>e. ev_Name e \<noteq> n) (cfg_OperationalTransitions c)"
    using assms by (auto simp: cfg_wf_def list_all_iff)
  then show ?thesis by (simp add: NewFSM_transitions_def fold_add_event_other)
qed

lemma lifecycle_table:
  "NewFSM_transitions (lifecycle_events c) (n, st) =
     (if n = LifecycleEventRemoveDone \<and> st = LifecycleStateRemoving then Some LifecycleStateRemoved
      else if n = LifecycleEventRemove \<and> st = cfg_OperationalStateBeforeRemove c then Some LifecycleStateRemoving
      else if n = LifecycleEventCreateDone \<and> st = LifecycleStateCreating then Some (cfg_OperationalStateAfterCreate c)
      else if n = LifecycleEventCreate \<and> st = LifecycleStateToBeCreated then Some LifecycleStateCreating
      else None)"
  by (auto simp: NewFSM_transitions_def lifecycle_events_def add_event_apply)

lemma lifecycle_rank_simps [simp]:
  "lifecycle_rank LifecycleStateToBeCreated = 0" "lifecycle_rank LifecycleStateCreating = 1"
  "lifecycle_rank LifecycleStateRemoving = 3" "lifecycle_rank LifecycleStateRemoved = 4"
  by (simp_all add: lifecycle_rank_def)

lemma lifecycle_rank_operational: "lifecycle_rank st = 2 \<longleftrightarrow> \<not> IsLifecycleState st"
  by (simp add: lifecycle_rank_def IsLifecycleState_def)

lemma cfg_wf_ranks:
  assumes "cfg_wf c"
  shows "lifecycle_rank (cfg_OperationalStateAfterCreate c) = 2"
    and "lifecycle_rank (cfg_OperationalStateBeforeRemove c) = 2"
    and "e \<in> set (cfg_OperationalTransitions c) \<Longrightarrow> st \<in> set (ev_Src e) \<Longrightarrow>
         lifecycle_rank st = 2 \<and> lifecycle_rank (ev_Dst e) = 2"
  using assms by (simp_all add: cfg_wf_def lifecycle_rank_operational list_all_iff)

lemma lifecycle_table_rank:
  assumes "cfg_wf c" and "NewFSM_transitions (lifecycle_events c) (n, st) = Some d"
  shows "lifecycle_rank st \<le> lifecycle_rank d"
proof -
  consider "st = LifecycleStateRemoving" "d = LifecycleStateRemoved"
    | "st = cfg_OperationalStateBeforeRemove c" "d = LifecycleStateRemoving"
    | "st = LifecycleStateCreating" "d = cfg_OperationalStateAfterCreate c"
    | "st = LifecycleStateToBeCreated" "d = LifecycleStateCreating"
    using assms(2) by (simp only: lifecycle_table split: if_split_asm) simp_all
  then show ?thesis by cases (simp_all add: cfg_wf_ranks [OF assms(1)])
qed

lemma transition_rank:
  assumes "fsm_inv s" and "fsm_transitions s (n, st) = Some d"
  shows "lifecycle_rank st \<le> lifecycle_rank d"
proof -
  have wf: "cfg_wf (cfg s)" using assms(1) by (simp add: fsm_inv_def)
  have "fold add_event (cfg_OperationalTransitions (cfg s))
          (NewFSM_transitions (lifecycle_events (cfg s))) (n, st) = Some d"
    using assms by (simp add: fsm_inv_def NewFSM_transitions_def)
  from fold_add_event_Some [OF this] show ?thesis
    using lifecycle_table_rank [OF wf] cfg_wf_ranks(3) [OF wf] by fastforce
qed

lemma remove_transition:
  assumes "fsm_inv s"
  shows "fsm_transitions s (LifecycleEventRemove, st) =
     (if st = cfg_OperationalStateBeforeRemove (cfg s) then Some LifecycleStateRemoving else None)"
  using assms lifecycle_transition [of "cfg s" LifecycleEventRemove st]
  by (auto simp: fsm_inv_def lifecycle_table)

lemma enter_key_inject [simp]: "enter_key a = enter_key b \<longleftrightarrow> a = b"
  by (simp add: enter_key_def)

lemma enter_key_auto_remove [simp]: "enter_key a \<noteq> ''auto_remove_once''" "''auto_remove_once'' \<noteq> enter_key a"
  by (simp_all add: enter_key_def)

lemma fsm_inv_removing_callback:
  assumes "fsm_inv s"
  shows "callbacks s (enter_key LifecycleStateRemoving) \<noteq> Some AutoRemoveCallback"
proof
  assume "callbacks s (enter_key LifecycleStateRemoving) = Some AutoRemoveCallback"
  then have "enter_key LifecycleStateRemoving \<in> auto_keys (callbacks s)" by (simp add: auto_keys_def)
  then have "cfg_OperationalStateBeforeRemove (cfg s) = LifecycleStateRemoving"
    using assms by (auto simp: fsm_inv_def)
  then show False using assms by (simp add: fsm_inv_def cfg_wf_def IsLifecycleState_def)
qed

subsection \<open>Sending an event\<close>

lemma fsm_SetError_frame [simp]:
  "cfg (snd (fsm_SetError r e t s)) = cfg s"
  "fsm_transitions (snd (fsm_SetError r e t s)) = fsm_transitions s"
  "callbacks (snd (fsm_SetError r e t s)) = callbacks s"
  "fsm_current (snd (fsm_SetError r e t s)) = fsm_current s"
  by (simp_all add: fsm_SetError_def split: prod.splits)

text \<open>What every transition leaves alone; the callback only deletes an absent key.\<close>

definition same_table :: "'a BaseFSMInstance_scheme \<Rightarrow> 'a BaseFSMInstance_scheme \<Rightarrow> bool" where
  "same_table s s' \<longleftrightarrow> cfg s' = cfg s \<and> fsm_transitions s' = fsm_transitions s \<and> callbacks s' = callbacks s"

lemma fsm_inv_same_table: "fsm_inv s \<Longrightarrow> same_table s s' \<Longrightarrow> fsm_inv s'"
  by (simp add: fsm_inv_def same_table_def)

lemma armed_same_table: "armed s \<Longrightarrow> same_table s s' \<Longrightarrow> armed s'"
  by (simp add: armed_def same_table_def)

lemma fsm_Event_cases:
  obtains (stay) e where "fsm_Event cb known env ev s = (Some e, s)"
  | (plain) dst where "fsm_transitions s (ev, fsm_current s) = Some dst"
      "callbacks s (enter_key dst) \<noteq> Some AutoRemoveCallback"
      "fsm_Event cb known env ev s = (None, s\<lparr>fsm_current := dst\<rparr>)"
  | (auto) dst where "fsm_transitions s (ev, fsm_current s) = Some dst"
      "callbacks s (enter_key dst) = Some AutoRemoveCallback"
      "fsm_Event cb known env ev s = (None, cb (s\<lparr>fsm_current := dst\<rparr>))"
proof (cases "fsm_transitions s (ev, fsm_current s)")
  case None
  then show thesis by (intro stay) (simp add: fsm_Event_def)
next
  case (Some dst)
  show thesis
  proof (cases "fsm_current s = dst \<or> env_fsm_err env \<noteq> None")
    case True
    with Some have "\<exists>e. fsm_Event cb known env ev s = (Some e, s)" by (auto simp: fsm_Event_def)
    with stay show thesis by blast
  next
    case False
    with Some plain auto show thesis
      by (cases "callbacks s (enter_key dst) = Some AutoRemoveCallback")
        (auto simp: fsm_Event_def Let_def split: option.splits callback.splits)
  qed
qed

lemma SendEvent_with_result:
  "snd (SendEvent_with cb env ev s) = s
   \<or> snd (SendEvent_with cb env ev s) = snd (fsm_Event cb (event_names (cfg s)) env ev s)"
  by (simp add: SendEvent_with_def split: option.split prod.split)

lemma auto_remove_callback_frame:
  assumes "same_table s (snd (send s))" and "callbacks s ''auto_remove_once'' = None"
  shows "same_table s (auto_remove_callback send r s)"
    and "fsm_current (auto_remove_callback send r s) = fsm_current (snd (send s))"
  using assms
  by (auto simp: auto_remove_callback_def Let_def same_table_def fun_upd_idem_iff
      split: prod.split option.split)

lemma SendEvent_depth_inv:
  assumes "fsm_inv s"
  shows "same_table s (snd (SendEvent_depth k env ev s))
     \<and> lifecycle_rank (fsm_current s) \<le> lifecycle_rank (fsm_current (snd (SendEvent_depth k env ev s)))"
  using assms
proof (induction k arbitrary: env ev s)
  case 0
  then show ?case by (simp add: same_table_def)
next
  case (Suc k)
  let ?send = "SendEvent_depth k (\<lambda>i. env (Suc i)) LifecycleEventRemove"
  let ?cb = "auto_remove_callback ?send (env_rand (env 0))"
  let ?E = "fsm_Event ?cb (event_names (cfg s)) (env 0) ev s"
  have "same_table s (snd ?E) \<and> lifecycle_rank (fsm_current s) \<le> lifecycle_rank (fsm_current (snd ?E))"
  proof (cases rule: fsm_Event_cases [of ?cb "event_names (cfg s)" "env 0" ev s])
    case (stay e)
    then show ?thesis by (simp add: same_table_def)
  next
    case (plain dst)
    then show ?thesis using transition_rank [OF Suc.prems plain(1)] by (simp add: same_table_def)
  next
    case (auto dst)
    let ?s1 = "s\<lparr>fsm_current := dst\<rparr>"
    have inv1: "fsm_inv ?s1" using Suc.prems by (simp add: fsm_inv_def)
    have IH: "same_table ?s1 (snd (?send ?s1))" "lifecycle_rank dst \<le> lifecycle_rank (fsm_current (snd (?send ?s1)))"
      using Suc.IH [OF inv1, of "\<lambda>i. env (Suc i)" LifecycleEventRemove] by simp_all
    have "callbacks ?s1 ''auto_remove_once'' = None" using Suc.prems by (simp add: fsm_inv_def)
    from auto_remove_callback_frame [where send = ?send, OF IH(1) this, of "env_rand (env 0)"] show ?thesis
      using transition_rank [OF Suc.prems auto(1)] auto(3) IH(2) by (simp add: same_table_def)
  qed
  moreover have "same_table s s" by (simp add: same_table_def)
  ultimately show ?case
    using SendEvent_with_result [of ?cb "env 0" ev s] by auto
qed

text \<open>
  Two levels of nesting are enough: the callback's own event leads to \<^verbatim>\<open>removing\<close>, which has
  no auto-remove callback.
\<close>

lemma SendEvent_with_remove_cb:
  assumes "fsm_inv s"
  shows "SendEvent_with cb env LifecycleEventRemove s = SendEvent_with cb' env LifecycleEventRemove s"
  using fsm_inv_removing_callback [OF assms]
  by (simp add: SendEvent_with_def fsm_Event_def remove_transition [OF assms] Let_def
      split: option.split callback.split)

lemma SendEvent_depth_enough:
  assumes "fsm_inv s"
  shows "SendEvent_depth (Suc (Suc k)) env ev s = SendEvent env ev s"
proof -
  have "auto_remove_callback (SendEvent_depth (Suc k) e LifecycleEventRemove) r (s\<lparr>fsm_current := dst\<rparr>)
     = auto_remove_callback (SendEvent_depth (Suc 0) e LifecycleEventRemove) r (s\<lparr>fsm_current := dst\<rparr>)" for dst e r
  proof -
    have "fsm_inv (s\<lparr>fsm_current := dst\<rparr>)" using assms by (simp add: fsm_inv_def)
    from SendEvent_with_remove_cb [OF this] show ?thesis
      unfolding auto_remove_callback_def SendEvent_depth.simps by (metis (no_types, lifting))
  qed
  then show ?thesis
    unfolding SendEvent_def numeral_2_eq_2 SendEvent_depth.simps(2) [of "Suc _"]
    by (simp add: SendEvent_with_def fsm_Event_def Let_def del: SendEvent_depth.simps
        split: option.split callback.split)
qed

lemmas SendEvent_inv = SendEvent_depth_inv [where k = 2, folded SendEvent_def]

subsection \<open>Every operation keeps the invariant\<close>

lemma auto_keys_simps [simp]:
  "auto_keys Map.empty = {}"
  "auto_keys (m(k \<mapsto> LogCallback)) = auto_keys m - {k}"
  "auto_keys (m(k \<mapsto> AutoRemoveCallback)) = insert k (auto_keys m)"
  by (auto simp: auto_keys_def)

lemma cfg_wf_desired [simp]: "cfg_wf (c\<lparr>cfg_DesiredFSMState := st\<rparr>) = cfg_wf c"
  by (simp add: cfg_wf_def)

lemma NewBaseFSMInstance_inv:
  assumes "cfg_wf c"
  shows "fsm_inv (NewBaseFSMInstance c bc)"
proof -
  have "lifecycle_events (c\<lparr>cfg_MaxTicksToRemainInTransientState := m\<rparr>) = lifecycle_events c" for m
    by (simp add: lifecycle_events_def)
  with assms show ?thesis
    by (simp add: NewBaseFSMInstance_def fsm_inv_def cfg_wf_def AddCallback_def Let_def)
qed

text \<open>One step: the invariant, the lifecycle order, and an armed callback are kept.\<close>

definition keeps :: "'a BaseFSMInstance_scheme \<Rightarrow> 'a BaseFSMInstance_scheme \<Rightarrow> bool" where
  "keeps s s' \<longleftrightarrow> fsm_inv s' \<and> (armed s \<longrightarrow> armed s')
     \<and> lifecycle_rank (fsm_current s) \<le> lifecycle_rank (fsm_current s')
     \<and> cfg_OperationalStateBeforeRemove (cfg s') = cfg_OperationalStateBeforeRemove (cfg s)"

lemma keeps_trans: "keeps s t \<Longrightarrow> keeps t u \<Longrightarrow> keeps s u"
  by (auto simp: keeps_def)

lemma keeps_same_table:
  assumes "fsm_inv s" and "same_table s s'" and "lifecycle_rank (fsm_current s) \<le> lifecycle_rank (fsm_current s')"
  shows "keeps s s'"
  using assms fsm_inv_same_table armed_same_table by (auto simp: keeps_def same_table_def)

lemma keeps_SendEvent: "fsm_inv s \<Longrightarrow> keeps s (snd (SendEvent env ev s))"
  using SendEvent_inv [of s env ev] keeps_same_table by blast

lemma lifecycle_events_desired [simp]:
  "lifecycle_events (c\<lparr>cfg_DesiredFSMState := st\<rparr>) = lifecycle_events c"
  by (simp add: lifecycle_events_def)

lemma keeps_SetDesired: "fsm_inv s \<Longrightarrow> keeps s (SetDesiredFSMState st s)"
  by (simp add: keeps_def fsm_inv_def armed_def SetDesiredFSMState_def)

lemma keeps_AddCallback_auto:
  "fsm_inv s \<Longrightarrow> keeps s (AddCallback (enter_key (cfg_OperationalStateBeforeRemove (cfg s))) AutoRemoveCallback s)"
  by (simp add: keeps_def fsm_inv_def armed_def AddCallback_def)

lemma keeps_Remove:
  assumes "fsm_inv s"
  shows "keeps s (snd (fsm_Remove env s))"
proof -
  let ?s1 = "SetDesiredFSMState (cfg_OperationalStateBeforeRemove (cfg s)) s"
  have s: "keeps s s" using assms by (simp add: keeps_def)
  have s1: "keeps s ?s1" "fsm_inv ?s1" using keeps_SetDesired [OF assms] by (simp_all add: keeps_def)
  have "cfg_OperationalStateBeforeRemove (cfg ?s1) = cfg_OperationalStateBeforeRemove (cfg s)"
    by (simp add: SetDesiredFSMState_def)
  then show ?thesis
    using s s1(1) keeps_trans [OF s1(1) keeps_SendEvent [OF s1(2), of env LifecycleEventRemove]]
      keeps_trans [OF s1(1) keeps_AddCallback_auto [OF s1(2)]]
    by (simp add: fsm_Remove_def Let_def)
qed

lemma keeps_step: "fsm_inv s \<Longrightarrow> keeps s (fsm_op_step op s)"
  by (cases op)
    (simp_all add: keeps_SendEvent keeps_Remove keeps_SetDesired keeps_same_table same_table_def
      ResetState_def note_lifecycle_state_def)

lemma keeps_run: "fsm_inv s \<Longrightarrow> keeps s (fsm_run ops s)"
proof (induction ops arbitrary: s)
  case Nil
  then show ?case by (simp add: fsm_run_def keeps_def)
next
  case (Cons op ops)
  from keeps_step [OF Cons.prems] have k: "keeps s (fsm_op_step op s)" .
  then have "keeps (fsm_op_step op s) (fsm_run ops (fsm_op_step op s))"
    by (intro Cons.IH) (simp add: keeps_def)
  with keeps_trans [OF k] show ?case by (simp add: fsm_run_def)
qed

lemma fsm_run_append: "fsm_run (xs @ ys) s = fsm_run ys (fsm_run xs s)"
  by (simp add: fsm_run_def)

lemma lifecycle_rank_removed: "lifecycle_rank st = 4 \<longleftrightarrow> st = LifecycleStateRemoved"
  by (simp add: lifecycle_rank_def)

lemma lifecycle_rank_le: "lifecycle_rank st \<le> 4"
  by (simp add: lifecycle_rank_def)

subsection \<open>Graceful removal\<close>

lemma Remove_arms:
  assumes "\<not> IsRemoved s" and "\<not> IsRemoving s" and "fsm_inv s"
    and "fsm_current s \<noteq> cfg_OperationalStateBeforeRemove (cfg s)"
  shows "fst (fsm_Remove env s) = None" and "armed (snd (fsm_Remove env s))"
    and "GetDesiredFSMState (snd (fsm_Remove env s)) = cfg_OperationalStateBeforeRemove (cfg s)"
    and "fsm_current (snd (fsm_Remove env s)) = fsm_current s"
  using assms
  by (simp_all add: fsm_Remove_def GetCurrentFSMState_def SetDesiredFSMState_def AddCallback_def
      armed_def GetDesiredFSMState_def fsm_inv_def Let_def)

lemma SendEvent_with_good:
  assumes "env_good env" and "fsm_transitions s (ev, fsm_current s) = Some dst" and "fsm_current s \<noteq> dst"
  shows "SendEvent_with cb env ev s =
     (None, if callbacks s (enter_key dst) = Some AutoRemoveCallback
            then cb (s\<lparr>fsm_current := dst\<rparr>) else s\<lparr>fsm_current := dst\<rparr>)"
  using assms
  by (auto simp: SendEvent_with_def fsm_Event_def env_good_def Let_def split: option.splits callback.splits)

lemma fsm_inv_pre_not_removing:
  "fsm_inv s \<Longrightarrow> cfg_OperationalStateBeforeRemove (cfg s) \<noteq> LifecycleStateRemoving"
  by (simp add: fsm_inv_def cfg_wf_def IsLifecycleState_def)

lemma SendEvent_remove_good:
  assumes "fsm_inv s" and "env_good (env 0)" and "fsm_current s = cfg_OperationalStateBeforeRemove (cfg s)"
  shows "SendEvent_depth (Suc k) env LifecycleEventRemove s = (None, s\<lparr>fsm_current := LifecycleStateRemoving\<rparr>)"
  using assms SendEvent_with_good [OF assms(2), of s LifecycleEventRemove LifecycleStateRemoving]
    fsm_inv_removing_callback [OF assms(1)] fsm_inv_pre_not_removing [OF assms(1)]
  by (simp add: remove_transition)

lemma armed_event_removes:
  assumes "fsm_inv s" and "armed s"
    and "fsm_transitions s (ev, fsm_current s) = Some (cfg_OperationalStateBeforeRemove (cfg s))"
    and "fsm_current s \<noteq> cfg_OperationalStateBeforeRemove (cfg s)"
    and "env_good (env 0)" and "env_good (env 1)"
  shows "\<exists>s'. SendEvent env ev s = (None, s') \<and> fsm_current s' = LifecycleStateRemoving"
proof -
  let ?s1 = "s\<lparr>fsm_current := cfg_OperationalStateBeforeRemove (cfg s)\<rparr>"
  have "fsm_inv ?s1" using assms(1) by (simp add: fsm_inv_def)
  from SendEvent_remove_good [OF this, of "\<lambda>i. env (Suc i)" 0] assms(6)
  have "SendEvent_depth (Suc 0) (\<lambda>i. env (Suc i)) LifecycleEventRemove ?s1
      = (None, ?s1\<lparr>fsm_current := LifecycleStateRemoving\<rparr>)" by simp
  then show ?thesis
    using SendEvent_with_good [OF assms(5,3,4)] assms(2)
    by (simp add: SendEvent_def numeral_2_eq_2 armed_def auto_remove_callback_def del: SendEvent_depth.simps(1))
qed

subsection \<open>A failing auto-remove\<close>

lemma SendEvent_remove_ctx_err:
  assumes "env_ctx_err (env 0) = Some e"
  shows "SendEvent_depth (Suc k) env ev s = (Some e, s)"
  using assms by (simp add: SendEvent_with_def)

lemma armed_event_failing:
  assumes "armed s"
    and "fsm_transitions s (ev, fsm_current s) = Some (cfg_OperationalStateBeforeRemove (cfg s))"
    and "fsm_current s \<noteq> cfg_OperationalStateBeforeRemove (cfg s)"
    and "env_good (env 0)" and "env_ctx_err (env 1) = Some e"
  shows "fst (SendEvent env ev s) = None"
    and "backoffManager (snd (SendEvent env ev s)) =
      snd (SetError (tries_NextBackOff (env_rand (env 0))) (backoffManager s)
             (Some (Errorf remove_failed_prefix e)) 0)"
proof -
  have "SendEvent_depth (Suc 0) (\<lambda>i. env (Suc i)) LifecycleEventRemove s1 = (Some e, s1)"
    for s1 :: "'a BaseFSMInstance_scheme"
    by (rule SendEvent_remove_ctx_err) (simp add: assms(5) [unfolded One_nat_def])
  then show "fst (SendEvent env ev s) = None"
    and "backoffManager (snd (SendEvent env ev s)) =
      snd (SetError (tries_NextBackOff (env_rand (env 0))) (backoffManager s)
             (Some (Errorf remove_failed_prefix e)) 0)"
    using SendEvent_with_good [OF assms(4,2,3)] assms(1)
    by (simp_all add: SendEvent_def numeral_2_eq_2 armed_def auto_remove_callback_def fsm_SetError_def
        del: SendEvent_depth.simps(1) split: prod.split)
qed

subsection \<open>Stuck instances\<close>

lemma note_iterate:
  assumes "lastObservedLifecycleState s \<noteq> st" and "k < 2 ^ 64"
  shows "transientStreakCounter ((note_lifecycle_state st ^^ Suc k) s) = of_nat k
     \<and> lastObservedLifecycleState ((note_lifecycle_state st ^^ Suc k) s) = st
     \<and> cfg ((note_lifecycle_state st ^^ Suc k) s) = cfg s"
  using assms(2)
proof (induction k)
  case 0
  then show ?case using assms(1) by (simp add: note_lifecycle_state_def)
next
  case (Suc k)
  then show ?case by (simp add: note_lifecycle_state_def add.commute)
qed

section \<open>Properties\<close>

text \<open>
  C1: along any run of a new instance with a well-formed configuration the lifecycle only moves
  forward (to be created, creating, operational, removing, removed), and a removed instance stays
  removed, whatever events, removal requests, errors and resets follow.
\<close>

theorem lifecycle_order:
  assumes "cfg_wf c"
  shows "lifecycle_rank (fsm_current (fsm_run xs (NewBaseFSMInstance c bc)))
       \<le> lifecycle_rank (fsm_current (fsm_run (xs @ ys) (NewBaseFSMInstance c bc)))
     \<and> (IsRemoved (fsm_run xs (NewBaseFSMInstance c bc))
        \<longrightarrow> IsRemoved (fsm_run (xs @ ys) (NewBaseFSMInstance c bc)))"
proof -
  let ?s = "fsm_run xs (NewBaseFSMInstance c bc)"
  have "fsm_inv ?s" using keeps_run [OF NewBaseFSMInstance_inv [OF assms]] by (simp add: keeps_def)
  from keeps_run [OF this, of ys]
  have r: "lifecycle_rank (fsm_current ?s) \<le> lifecycle_rank (fsm_current (fsm_run ys ?s))"
    by (simp add: keeps_def)
  moreover from r lifecycle_rank_le [of "fsm_current (fsm_run ys ?s)"]
  have "lifecycle_rank (fsm_current ?s) = 4 \<Longrightarrow> lifecycle_rank (fsm_current (fsm_run ys ?s)) = 4"
    by simp
  ultimately show ?thesis
    by (simp add: fsm_run_append IsRemoved_def lifecycle_rank_removed)
qed

definition demo_cfg :: BaseFSMInstanceConfig where
  "demo_cfg = \<lparr>cfg_ID = ''x'', cfg_DesiredFSMState = ''stopped'',
     cfg_OperationalStateAfterCreate = ''stopped'', cfg_OperationalStateBeforeRemove = ''stopped'',
     cfg_OperationalTransitions =
       [\<lparr>ev_Name = ''start'', ev_Src = [''stopped''], ev_Dst = ''running''\<rparr>,
        \<lparr>ev_Name = ''stop'', ev_Src = [''running''], ev_Dst = ''stopped''\<rparr>],
     cfg_MaxTicksToRemainInTransientState = 0\<rparr>"

definition demo_env :: event_env where
  "demo_env = \<lparr>env_ctx_err = None, env_deadline = Some (5 * millisecond), env_fsm_err = None, env_rand = 0\<rparr>"

definition demo_up :: "fsm_op list" where
  "demo_up = [OpSend (\<lambda>_. demo_env) LifecycleEventCreate, OpSend (\<lambda>_. demo_env) LifecycleEventCreateDone,
     OpSend (\<lambda>_. demo_env) ''start'']"

lemma demo_cfg_wf: "cfg_wf demo_cfg"
  by code_simp

lemma demo_env_good: "env_good demo_env"
  by code_simp

theorem lifecycle_order_witness:
  "lifecycle_rank (fsm_current (fsm_run demo_up (NewBaseFSMInstance demo_cfg DefaultConfig))) = 2
   \<and> 2 \<le> lifecycle_rank (fsm_current (fsm_run (demo_up @ [OpRemove (\<lambda>_. demo_env)])
            (NewBaseFSMInstance demo_cfg DefaultConfig)))"
proof -
  have "lifecycle_rank (fsm_current (fsm_run demo_up (NewBaseFSMInstance demo_cfg DefaultConfig))) = 2"
    by code_simp
  with lifecycle_order [OF demo_cfg_wf, of demo_up DefaultConfig "[OpRemove (\<lambda>_. demo_env)]"]
  show ?thesis by simp
qed

text \<open>
  C2: graceful removal completes. A removal request on a running instance points the desired state
  at the state before removal and, whatever happens in between, the first event that enters that
  state carries the instance on to removing in the same call, provided the contexts are alive.
\<close>

theorem graceful_removal:
  assumes "cfg_wf c" and "s = fsm_run xs (NewBaseFSMInstance c bc)"
    and "\<not> IsRemoved s" and "\<not> IsRemoving s"
    and "fsm_current s \<noteq> cfg_OperationalStateBeforeRemove (cfg s)"
    and "s1 = snd (fsm_Remove env s)" and "s2 = fsm_run ys s1"
    and "fsm_transitions s2 (ev, fsm_current s2) = Some (cfg_OperationalStateBeforeRemove (cfg s2))"
    and "fsm_current s2 \<noteq> cfg_OperationalStateBeforeRemove (cfg s2)"
    and "env_good (env' 0)" and "env_good (env' 1)"
  shows "fst (fsm_Remove env s) = None
     \<and> GetDesiredFSMState s1 = cfg_OperationalStateBeforeRemove (cfg s)
     \<and> fst (SendEvent env' ev s2) = None \<and> IsRemoving (snd (SendEvent env' ev s2))"
proof -
  have inv: "fsm_inv s"
    using keeps_run [OF NewBaseFSMInstance_inv [OF assms(1)]] assms(2) by (simp add: keeps_def)
  note arms = Remove_arms [OF assms(3,4) inv assms(5), of env]
  have inv1: "fsm_inv s1" using keeps_Remove [OF inv] assms(6) by (simp add: keeps_def)
  from keeps_run [OF this, of ys] have "fsm_inv s2" "armed s2"
    using arms(2) assms(6,7) by (simp_all add: keeps_def)
  from armed_event_removes [OF this assms(8-11)] show ?thesis
    using arms(1,3) assms(6) by (auto simp: IsRemoving_def)
qed

theorem graceful_removal_witness:
  "let s = fsm_run demo_up (NewBaseFSMInstance demo_cfg DefaultConfig);
       s2 = snd (fsm_Remove (\<lambda>_. demo_env) s)
   in IsRemoving (snd (SendEvent (\<lambda>_. demo_env) ''stop'' s2))"
proof -
  let ?s = "fsm_run demo_up (NewBaseFSMInstance demo_cfg DefaultConfig)"
  let ?s1 = "snd (fsm_Remove (\<lambda>_. demo_env) ?s)"
  have h: "\<not> IsRemoved ?s" "\<not> IsRemoving ?s"
    "fsm_current ?s \<noteq> cfg_OperationalStateBeforeRemove (cfg ?s)"
    "fsm_transitions ?s1 (''stop'', fsm_current ?s1) = Some (cfg_OperationalStateBeforeRemove (cfg ?s1))"
    "fsm_current ?s1 \<noteq> cfg_OperationalStateBeforeRemove (cfg ?s1)"
    by code_simp+
  have "fsm_run [] ?s1 = ?s1" by (simp add: fsm_run_def)
  from graceful_removal [OF demo_cfg_wf refl h(1,2,3) refl this [symmetric] h(4,5) demo_env_good demo_env_good]
  show ?thesis by (simp add: Let_def)
qed

text \<open>
  The callback that a removal request arms is never detached: the code deletes the key
  \<^verbatim>\<open>auto_remove_once\<close>, which is never stored, so no later event, request or reset disarms it.
\<close>

theorem auto_remove_never_detached:
  assumes "cfg_wf c" and "s = fsm_run xs (NewBaseFSMInstance c bc)"
    and "\<not> IsRemoved s" and "\<not> IsRemoving s"
    and "fsm_current s \<noteq> cfg_OperationalStateBeforeRemove (cfg s)"
  shows "armed (fsm_run ys (snd (fsm_Remove env s)))"
proof -
  have inv: "fsm_inv s"
    using keeps_run [OF NewBaseFSMInstance_inv [OF assms(1)]] assms(2) by (simp add: keeps_def)
  have "fsm_inv (snd (fsm_Remove env s))" using keeps_Remove [OF inv] by (simp add: keeps_def)
  from keeps_run [OF this, of ys] Remove_arms(2) [OF assms(3,4) inv assms(5)] show ?thesis
    by (simp add: keeps_def)
qed

theorem auto_remove_never_detached_witness:
  "armed (fsm_run [OpSend (\<lambda>_. demo_env) ''stop'', OpReset] (snd (fsm_Remove (\<lambda>_. demo_env)
     (fsm_run demo_up (NewBaseFSMInstance demo_cfg DefaultConfig)))))"
proof -
  let ?s = "fsm_run demo_up (NewBaseFSMInstance demo_cfg DefaultConfig)"
  have h: "\<not> IsRemoved ?s" "\<not> IsRemoving ?s"
    "fsm_current ?s \<noteq> cfg_OperationalStateBeforeRemove (cfg ?s)" by code_simp+
  show ?thesis by (rule auto_remove_never_detached [OF demo_cfg_wf refl h])
qed

text \<open>
  When the auto-remove callback fails, the event that triggered it still succeeds and the
  error is recorded at tick 0, so for every tick past the longest wait the instance reports no
  backoff error at all: the failure is not escalated, although its text is that of a permanent one.
\<close>

theorem failed_auto_remove_not_escalated:
  assumes "config_in_range bc" and "backoffManager s = NewBackoffManager bc"
    and "cfg_MaxRetries bc \<noteq> 0"
    and "armed s"
    and "fsm_transitions s (ev, fsm_current s) = Some (cfg_OperationalStateBeforeRemove (cfg s))"
    and "fsm_current s \<noteq> cfg_OperationalStateBeforeRemove (cfg s)"
    and "env_good (env 0)" and "env_ctx_err (env 1) = Some e"
    and "0 \<le> env_rand (env 0)" and "env_rand (env 0) \<le> 1"
    and "max 1 (max_wait bc) \<le> unat tick"
  shows "fst (SendEvent env ev s) = None
     \<and> IsPermanentFailureError (fsm_GetError (snd (SendEvent env ev s)))
     \<and> fsm_GetBackoffError tick (snd (SendEvent env ev s)) = None"
proof -
  note ev = armed_event_failing [OF assms(4-8)]
  let ?perr = "Errorf remove_failed_prefix e"
  let ?S = "SetError (tries_NextBackOff (env_rand (env 0))) (set_errors tries_NextBackOff (NewBackoffManager bc) [])
     (Some ?perr) 0"
  note pol = NewBackoffManager_policy [OF assms(1)]
  have "fst ?S = False"
    using tries.SetError_permanent(1) [OF pol(1) assms(9)] pol(2) assms(3)
    by (auto simp: NewBackoffManager_def Let_def unat_eq_zero)
  then have S: "?S = (False, snd ?S)" by (metis prod.collapse)
  have ovf: "unat (0 :: u64) + max 1 (max_wait bc) < 2 ^ 64"
    using assms(11) unsigned_less [of tick, where 'a = nat] by simp
  have "unat (ticksToWait (snd ?S)) \<le> max 1 (max_wait bc)"
    and "ShouldSkipOperation (snd ?S) tick \<longleftrightarrow> unat tick < unat (0 :: u64) + unat (ticksToWait (snd ?S))"
    using suspended_exactly [OF assms(1,9,10) S ovf] by blast+
  then have "\<not> ShouldSkipOperation (snd ?S) tick" using assms(11) by (simp only: unat_0 add_0)
  then have "GetBackoffError (snd ?S) tick = None" by (simp add: skip_iff_backoff_error)
  moreover have "GetLastError (snd ?S) = Some ?perr"
    by (simp add: GetLastError_def SetError_def Let_def split: prod.split)
  moreover have "IsPermanentFailureError (Some ?perr)"
    by (simp add: IsPermanentFailureError_def remove_failed_prefix_def)
  ultimately show ?thesis
    using ev assms(2) by (simp add: fsm_GetBackoffError_def fsm_GetError_def)
qed

theorem failed_auto_remove_not_escalated_witness:
  "let s = snd (fsm_Remove (\<lambda>_. demo_env) (fsm_run demo_up (NewBaseFSMInstance demo_cfg DefaultConfig)));
       s' = snd (SendEvent (\<lambda>i. if i = 0 then demo_env else demo_env\<lparr>env_ctx_err := Some ctx_canceled\<rparr>) ''stop'' s)
   in IsPermanentFailureError (fsm_GetError s') \<and> fsm_GetBackoffError 700 s' = None"
proof -
  let ?s = "snd (fsm_Remove (\<lambda>_. demo_env) (fsm_run demo_up (NewBaseFSMInstance demo_cfg DefaultConfig)))"
  let ?env = "\<lambda>i :: nat. if i = 0 then demo_env else demo_env\<lparr>env_ctx_err := Some ctx_canceled\<rparr>"
  have b: "backoffManager ?s = NewBackoffManager DefaultConfig" by code_simp
  have h: "armed ?s" "fsm_transitions ?s (''stop'', fsm_current ?s) = Some (cfg_OperationalStateBeforeRemove (cfg ?s))"
    "fsm_current ?s \<noteq> cfg_OperationalStateBeforeRemove (cfg ?s)" by code_simp+
  have c: "config_in_range DefaultConfig" and m: "cfg_MaxRetries DefaultConfig \<noteq> 0"
    and t: "max 1 (max_wait DefaultConfig) \<le> unat (700 :: u64)"
    by (simp_all add: config_in_range_def max_wait_def DefaultConfig_def)
  have e: "env_good (?env 0)" "env_ctx_err (?env 1) = Some ctx_canceled" "0 \<le> env_rand (?env 0)"
    "env_rand (?env 0) \<le> 1" using demo_env_good by (simp_all add: demo_env_def)
  show ?thesis
    using failed_auto_remove_not_escalated [where env = ?env, OF c b m h e t] by (simp add: Let_def)
qed

text \<open>
  \<^verbatim>\<open>HandlePermanentError\<close> always makes progress: the instance ends in the removed state, or
  the returned error is a permanent failure (so the manager drops the instance), or the graceful
  removal was accepted, in which case the backoff had been reset first. It asks for another pass
  only after a successful forced removal.
\<close>

theorem permanent_error_progress:
  assumes "HandlePermanentError err isInShutdownState normalRemove forceRemove s = ((e', again), s')"
  shows "(IsRemoved s' \<or> IsPermanentFailureError e'
          \<or> (\<not> isInShutdownState s \<and> normalRemove (ResetState s) = (None, s') \<and> e' = None))
     \<and> (again \<longrightarrow> isInShutdownState s \<and> IsRemoved s' \<and> e' = err \<and> fst (forceRemove s) = None)"
proof -
  have "IsPermanentFailureError (Some (force_remove_failed s e))" for e
    unfolding IsPermanentFailureError_def force_remove_failed_def
    by (simp only: option.case error_text.simps append.assoc)
      (intro str_contains_append_left str_contains_prefix)
  with assms show ?thesis
    by (auto simp: HandlePermanentError_def SetCurrentFSMState_def IsRemoved_def
        split: if_splits prod.splits option.splits)
qed

theorem permanent_error_progress_witness:
  "let s = fsm_run demo_up (NewBaseFSMInstance demo_cfg DefaultConfig);
       r = HandlePermanentError (Some ctx_canceled) (\<lambda>_. True) (\<lambda>s. (None, s)) (\<lambda>s. (None, s)) s
   in snd (fst r) \<and> IsRemoved (snd r)"
proof -
  let ?s = "fsm_run demo_up (NewBaseFSMInstance demo_cfg DefaultConfig)"
  let ?r = "HandlePermanentError (Some ctx_canceled) (\<lambda>_. True) (\<lambda>s. (None, s)) (\<lambda>s. (None, s)) ?s"
  have r: "?r = ((fst (fst ?r), snd (fst ?r)), snd ?r)" by simp
  have "snd (fst ?r)" by (simp add: HandlePermanentError_def)
  with permanent_error_progress [OF r] show ?thesis by (simp add: Let_def)
qed

text \<open>
  An instance that reports the same state in consecutive lifecycle passes is declared stuck
  exactly when it was seen there more often than the configured number of ticks.
\<close>

theorem stuck_detection_exact:
  assumes "lastObservedLifecycleState s \<noteq> st" and "0 < k" and "k \<le> 2 ^ 64"
  shows "IsTransientStreakCounterMaxed ((note_lifecycle_state st ^^ k) s)
     \<longleftrightarrow> unat (cfg_MaxTicksToRemainInTransientState (cfg s)) < k"
proof -
  obtain n where n: "k = Suc n" using assms(2) by (cases k) auto
  with assms(3) have lt: "n < 2 ^ 64" by simp
  then have "unat (of_nat n :: u64) = n" by (simp add: unat_of_nat)
  then show ?thesis
    using note_iterate [OF assms(1) lt] n
    by (simp add: IsTransientStreakCounterMaxed_def word_le_nat_alt less_Suc_eq_le del: funpow.simps)
qed

theorem stuck_detection_exact_witness:
  "IsTransientStreakCounterMaxed ((note_lifecycle_state ''creating'' ^^ 601)
      (NewBaseFSMInstance demo_cfg DefaultConfig))
   \<and> \<not> IsTransientStreakCounterMaxed ((note_lifecycle_state ''creating'' ^^ 600)
      (NewBaseFSMInstance demo_cfg DefaultConfig))"
proof -
  let ?s = "NewBaseFSMInstance demo_cfg DefaultConfig"
  have l: "lastObservedLifecycleState ?s \<noteq> ''creating''"
    and m: "cfg_MaxTicksToRemainInTransientState (cfg ?s) = 600" by code_simp+
  show ?thesis
    using stuck_detection_exact [OF l, of 601] stuck_detection_exact [OF l, of 600] m by simp
qed

end
