(* ===== verification/Base_Manager.thy ===== *)
theory Base_Manager
  imports Complex_Main Base_FSM
begin

text \<open>
  The generic manager that keeps a set of FSM instances in line with the configuration:
  \<^verbatim>\<open>umh-core/pkg/fsm/base_manager.go\<close> and \<^verbatim>\<open>umh-core/pkg/ctxutil/timeout.go\<close>. The functions
  a concrete manager injects (\<^verbatim>\<open>extractConfigs\<close>, \<^verbatim>\<open>createInstance\<close>, ...) and the methods of
  the interface \<^verbatim>\<open>FSMInstance\<close> are the fields of one record, so the manager is generic in the
  configuration type and in the instance type as the Go code is.

  Inputs that the code takes from its surroundings are explicit: the random value of
  \<^verbatim>\<open>schedule\<close>, the order in which Go ranges over the map of instances (any list with the map's
  keys), and for every scheduled instance what the clock and the goroutines did (\<open>slot_env\<close>).
  Entries with a nil instance, which only the test helper \<^verbatim>\<open>AddInstanceForTest\<close> can store, are
  not represented.
\<close>

section \<open>Constants\<close>

definition TicksBeforeNextAdd :: u64 where "TicksBeforeNextAdd = 30"
definition TicksBeforeNextUpdate :: u64 where "TicksBeforeNextUpdate = 10"
definition TicksBeforeNextRemove :: u64 where "TicksBeforeNextRemove = 10"
definition TicksBeforeNextState :: u64 where "TicksBeforeNextState = 10"
definition MaxConcurrentFSMOperations :: nat where "MaxConcurrentFSMOperations = 1000"

definition ErrNoDeadline :: goerror where
  "ErrNoDeadline = ErrorNew 30 ''context has no deadline''"

text \<open>\<^verbatim>\<open>HasSufficientTime\<close>: the time left to the deadline, whether it suffices, an error.\<close>

definition HasSufficientTime :: "int option \<Rightarrow> int \<Rightarrow> int \<times> bool \<times> goerror option" where
  "HasSufficientTime deadline requiredTime =
     (case deadline of
        None \<Rightarrow> (0, False, Some ErrNoDeadline)
      | Some remaining \<Rightarrow> if remaining < requiredTime then (remaining, False, None) else (remaining, True, None))"

section \<open>Injected functions and instance methods\<close>

record ('c, 'i, 'f) manager_ops =
  extractConfigs :: "'f \<Rightarrow> goerror + 'c list"
  getName :: "'c \<Rightarrow> goerror + string"
  getDesiredState :: "'c \<Rightarrow> goerror + string"
  createInstance :: "'c \<Rightarrow> goerror option \<times> 'i option"
  compareConfig :: "'i \<Rightarrow> 'c \<Rightarrow> goerror + bool"
  setConfig :: "'i \<Rightarrow> 'c \<Rightarrow> goerror option \<times> 'i"
  getMinimumRequiredTime :: "'i \<Rightarrow> goerror + int"
  inst_GetCurrentFSMState :: "'i \<Rightarrow> string"
  inst_GetDesiredFSMState :: "'i \<Rightarrow> string"
  inst_SetDesiredFSMState :: "string \<Rightarrow> 'i \<Rightarrow> goerror option \<times> 'i"
  inst_Remove :: "'i \<Rightarrow> goerror option \<times> 'i"
  inst_Reconcile :: "u64 \<Rightarrow> 'i \<Rightarrow> (goerror option \<times> bool) \<times> 'i"
  inst_IsTransientStreakCounterMaxed :: "'i \<Rightarrow> bool"
  inst_ForceRemove :: "('i \<Rightarrow> goerror option \<times> 'i) option"

record 'i BaseFSMManager =
  instances :: "string \<rightharpoonup> 'i"
  managerTick :: u64
  nextAddTick :: u64
  nextUpdateTick :: u64
  nextRemoveTick :: u64
  nextStateTick :: u64

definition NewBaseFSMManager :: "'i BaseFSMManager" where
  "NewBaseFSMManager = \<lparr>instances = Map.empty, managerTick = 0, nextAddTick = 0, nextUpdateTick = 0,
     nextRemoveTick = 0, nextStateTick = 0\<rparr>"

definition GetInstance :: "string \<Rightarrow> 'i BaseFSMManager \<Rightarrow> 'i option" where
  "GetInstance name m = instances m name"

text \<open>
  \<^verbatim>\<open>schedule\<close>: a random value \<open>r\<close> in the unit interval gives a factor between 0.75 and 1.25;
  the delay is rounded to the nearest tick.
\<close>

definition schedule_delay :: "rat \<Rightarrow> u64 \<Rightarrow> int" where
  "schedule_delay r base = \<lfloor>of_nat (unat base) * (1 + (r * 2 - 1) * (1 / 4)) + 1 / 2\<rfloor>"

definition schedule :: "rat \<Rightarrow> u64 \<Rightarrow> 'i BaseFSMManager \<Rightarrow> u64" where
  "schedule r base m = managerTick m + word_of_int (schedule_delay r base)"

section \<open>Step 2: create or update one instance\<close>

type_synonym outcome = "goerror option \<times> bool"

text \<open>
  One iteration of the loop over the configurations; None in the first component is
  \<^verbatim>\<open>continue\<close>, Some is an early return of \<^verbatim>\<open>Reconcile\<close>.
\<close>

definition step2_one ::
  "('c, 'i, 'f) manager_ops \<Rightarrow> rat \<Rightarrow> 'c \<Rightarrow> 'i BaseFSMManager \<Rightarrow> outcome option \<times> 'i BaseFSMManager"
where
  "step2_one ops r c m =
     (case getName ops c of
        Inl e \<Rightarrow> (Some (Some (Errorf ''failed to get name: '' e), False), m)
      | Inr name \<Rightarrow>
          (case instances m name of
             None \<Rightarrow>
               if managerTick m < nextAddTick m then (None, m)
               else (case createInstance ops c of
                       (None, Some inst) \<Rightarrow>
                         (case getDesiredState ops c of
                            Inl e \<Rightarrow> (Some (Some (Errorf ''failed to get desired state: '' e), False), m)
                          | Inr d \<Rightarrow>
                              (case inst_SetDesiredFSMState ops d inst of
                                 (Some _, _) \<Rightarrow> (None, m)
                               | (None, inst') \<Rightarrow>
                                   let m' = m\<lparr>instances := (instances m)(name \<mapsto> inst')\<rparr>
                                   in (Some (None, True), m'\<lparr>nextAddTick := schedule r TicksBeforeNextAdd m'\<rparr>)))
                     | (e, _) \<Rightarrow> (Some (Some (wrapf ''failed to create instance: '' e), False), m))
           | Some inst \<Rightarrow>
               if inst_GetCurrentFSMState ops inst = LifecycleStateRemoved then (None, m)
               else
               (case compareConfig ops inst c of
                  Inl e \<Rightarrow> (Some (Some (Errorf ''failed to compare config: '' e), False), m)
                | Inr False \<Rightarrow>
                    if managerTick m < nextUpdateTick m then (None, m)
                    else (case setConfig ops inst c of
                            (Some e, inst') \<Rightarrow>
                              (Some (Some (Errorf ''failed to set config: '' e), False),
                               m\<lparr>instances := (instances m)(name \<mapsto> inst')\<rparr>)
                          | (None, inst') \<Rightarrow>
                              let m' = m\<lparr>instances := (instances m)(name \<mapsto> inst')\<rparr>
                              in (Some (None, True), m'\<lparr>nextUpdateTick := schedule r TicksBeforeNextUpdate m'\<rparr>))
                | Inr True \<Rightarrow>
                    (case getDesiredState ops c of
                       Inl e \<Rightarrow> (Some (Some (Errorf ''failed to get desired state: '' e), False), m)
                     | Inr d \<Rightarrow>
                         if inst_GetDesiredFSMState ops inst \<noteq> d then
                           if managerTick m < nextStateTick m then (None, m)
                           else (case inst_SetDesiredFSMState ops d inst of
                                   (Some _, inst') \<Rightarrow> (None, m\<lparr>instances := (instances m)(name \<mapsto> inst')\<rparr>)
                                 | (None, inst') \<Rightarrow>
                                     let m' = m\<lparr>instances := (instances m)(name \<mapsto> inst')\<rparr>
                                     in (Some (None, True), m'\<lparr>nextStateTick := schedule r TicksBeforeNextState m'\<rparr>))
                         else (None, m)))))"

fun step2 ::
  "('c, 'i, 'f) manager_ops \<Rightarrow> rat \<Rightarrow> 'c list \<Rightarrow> 'i BaseFSMManager \<Rightarrow> outcome option \<times> 'i BaseFSMManager"
where
  "step2 ops r [] m = (None, m)"
| "step2 ops r (c # cs) m =
     (case step2_one ops r c m of
        (Some o', m') \<Rightarrow> (Some o', m')
      | (None, m') \<Rightarrow> step2 ops r cs m')"

section \<open>Step 3: start one removal, collect removed instances\<close>

text \<open>The inner loop: whether some configuration carries the name.\<close>

fun config_named :: "('c, 'i, 'f) manager_ops \<Rightarrow> string \<Rightarrow> 'c list \<Rightarrow> goerror + bool" where
  "config_named ops n [] = Inr False"
| "config_named ops n (c # cs) =
     (case getName ops c of
        Inl e \<Rightarrow> Inl e
      | Inr name \<Rightarrow> if name = n then Inr True else config_named ops n cs)"

fun step3 ::
  "('c, 'i, 'f) manager_ops \<Rightarrow> rat \<Rightarrow> 'c list \<Rightarrow> string list \<Rightarrow> string list \<Rightarrow> 'i BaseFSMManager
   \<Rightarrow> outcome option \<times> string list \<times> 'i BaseFSMManager"
where
  "step3 ops r cs [] dels m = (None, dels, m)"
| "step3 ops r cs (n # ns) dels m =
     (case config_named ops n cs of
        Inl e \<Rightarrow> (Some (Some (Errorf ''failed to get name: '' e), False), dels, m)
      | Inr found \<Rightarrow>
          (case instances m n of
             None \<Rightarrow> step3 ops r cs ns dels m
           | Some inst \<Rightarrow>
               if inst_GetCurrentFSMState ops inst = LifecycleStateRemoving then step3 ops r cs ns dels m
               else if inst_GetCurrentFSMState ops inst = LifecycleStateRemoved
               then step3 ops r cs ns (dels @ [n]) m
               else if found then step3 ops r cs ns dels m
               else if managerTick m < nextRemoveTick m then step3 ops r cs ns dels m
               else (case inst_Remove ops inst of
                       (Some e, inst') \<Rightarrow>
                         (Some (Some e, False), dels, m\<lparr>instances := (instances m)(n \<mapsto> inst')\<rparr>)
                     | (None, inst') \<Rightarrow>
                         let m' = m\<lparr>instances := (instances m)(n \<mapsto> inst')\<rparr>
                         in (Some (None, True), dels,
                             m'\<lparr>nextRemoveTick := schedule r TicksBeforeNextRemove m'\<rparr>))))"

definition delete_instances :: "string list \<Rightarrow> 'i BaseFSMManager \<Rightarrow> 'i BaseFSMManager" where
  "delete_instances ns m = m\<lparr>instances := (instances m) |` (- set ns)\<rparr>"

section \<open>Step 4: reconcile a batch of instances\<close>

text \<open>The slice of the list of names that a tick schedules.\<close>

definition batch_bounds :: "nat \<Rightarrow> u64 \<Rightarrow> nat \<times> nat" where
  "batch_bounds n tick =
     (if n > MaxConcurrentFSMOperations
      then let totalBatches = (n + MaxConcurrentFSMOperations - 1) div MaxConcurrentFSMOperations;
               currentBatch = unat (tick mod of_nat totalBatches);
               startIdx = currentBatch * MaxConcurrentFSMOperations;
               endIdx = startIdx + MaxConcurrentFSMOperations
           in (startIdx, if endIdx > n then n else endIdx)
      else (0, n))"

definition batch :: "string list \<Rightarrow> u64 \<Rightarrow> string list" where
  "batch names tick = (case batch_bounds (length names) tick of (a, b) \<Rightarrow> take (b - a) (drop a names))"

definition force_remove_if_able :: "('c, 'i, 'f) manager_ops \<Rightarrow> 'i \<Rightarrow> 'i" where
  "force_remove_if_able ops inst =
     (case inst_ForceRemove ops of None \<Rightarrow> inst | Some f \<Rightarrow> snd (f inst))"

definition maybeEscalateRemoval :: "('c, 'i, 'f) manager_ops \<Rightarrow> 'i \<Rightarrow> 'i" where
  "maybeEscalateRemoval ops inst =
     (if \<not> inst_IsTransientStreakCounterMaxed ops inst then inst
      else if inst_GetCurrentFSMState ops inst = LifecycleStateRemoving then force_remove_if_able ops inst
      else (case inst_Remove ops inst of
              (None, inst') \<Rightarrow> inst'
            | (Some _, inst') \<Rightarrow> force_remove_if_able ops inst'))"

text \<open>Result: reconciled, to be removed, error; and the instance afterwards.\<close>

definition reconcileInstanceWithTimeout ::
  "('c, 'i, 'f) manager_ops \<Rightarrow> u64 \<Rightarrow> 'i \<Rightarrow> (bool \<times> bool \<times> goerror option) \<times> 'i"
where
  "reconcileInstanceWithTimeout ops tick inst =
     (case inst_Reconcile ops tick inst of
        ((Some e, _), inst') \<Rightarrow>
          if IsPermanentFailureError (Some e) then ((True, True, None), inst')
          else ((False, False, Some (Errorf ''error reconciling instance: '' e)), inst')
      | ((None, reconciled), inst') \<Rightarrow> ((reconciled, False, None), maybeEscalateRemoval ops inst'))"

text \<open>
  What the clock and the scheduler did around one slot of the batch: whether the inner context
  had expired before the slot was started, the time left for it, whether the goroutine could be
  started, whether it found the context expired, and whether it finished before the wait ended.
\<close>

record slot_env =
  slot_expired :: bool
  slot_time_left :: int
  slot_started :: bool
  slot_skips :: bool
  slot_finished :: bool

record 'i pass_state =
  ps_instances :: "string \<rightharpoonup> 'i"
  ps_hasAnyReconciles :: bool
  ps_instancesToRemove :: "string list"
  ps_err :: "goerror option"

definition run_slot ::
  "('c, 'i, 'f) manager_ops \<Rightarrow> u64 \<Rightarrow> slot_env \<Rightarrow> string \<Rightarrow> 'i \<Rightarrow> 'i pass_state \<Rightarrow> 'i pass_state"
where
  "run_slot ops tick se name inst ps =
     (if slot_skips se then ps
      else case reconcileInstanceWithTimeout ops tick inst of
             ((reconciled, gone, err), inst') \<Rightarrow>
               let ps1 = ps\<lparr>ps_instances := (ps_instances ps)(name \<mapsto> inst')\<rparr>
               in if \<not> slot_finished se then ps1
                  else (case err of
                          Some e \<Rightarrow> ps1\<lparr>ps_err := (case ps_err ps1 of None \<Rightarrow> Some e | Some e0 \<Rightarrow> Some e0)\<rparr>
                        | None \<Rightarrow>
                            ps1\<lparr>ps_hasAnyReconciles := (ps_hasAnyReconciles ps1 \<or> reconciled),
                                ps_instancesToRemove :=
                                  (if gone then ps_instancesToRemove ps1 @ [name] else ps_instancesToRemove ps1)\<rparr>))"

fun run_batch ::
  "('c, 'i, 'f) manager_ops \<Rightarrow> u64 \<Rightarrow> (string \<times> slot_env) list \<Rightarrow> 'i pass_state
   \<Rightarrow> goerror option \<times> 'i pass_state"
where
  "run_batch ops tick [] ps = (None, ps)"
| "run_batch ops tick ((name, se) # rest) ps =
     (if slot_expired se then (None, ps)
      else case ps_instances ps name of
             None \<Rightarrow> run_batch ops tick rest ps
           | Some inst \<Rightarrow>
               (case getMinimumRequiredTime ops inst of
                  Inl e \<Rightarrow>
                    (Some (Errorf (''failed to get minimum required time for instance '' @ name @ '': '') e), ps)
                | Inr required \<Rightarrow>
                    (case HasSufficientTime (Some (slot_time_left se)) required of
                       (_, sufficient, _) \<Rightarrow>
                         if \<not> sufficient then run_batch ops tick rest (ps\<lparr>ps_hasAnyReconciles := True\<rparr>)
                         else if \<not> slot_started se then (None, ps)
                         else run_batch ops tick rest (run_slot ops tick se name inst ps))))"

section \<open>Reconcile\<close>

text \<open>
  One call: the context's error and deadline, the random value, the two orders in which the map
  is ranged over, the slots of the batch and, when the wait ended with the inner context, its
  error (otherwise every goroutine has finished). An early error return leaves the goroutines
  that already run to complete, so their instances are updated all the same.
\<close>

record pass_env =
  pe_ctx_err :: "goerror option"
  pe_deadline :: "int option"
  pe_rand :: rat
  pe_order3 :: "string list"
  pe_order4 :: "string list"
  pe_slots :: "nat \<Rightarrow> slot_env"
  pe_wait_err :: "goerror option"

definition reconcile_instances ::
  "('c, 'i, 'f) manager_ops \<Rightarrow> pass_env \<Rightarrow> 'i BaseFSMManager \<Rightarrow> outcome \<times> 'i BaseFSMManager"
where
  "reconcile_instances ops pe m =
     (case pe_deadline pe of
        None \<Rightarrow> ((Some ErrNoDeadline, False), m)
      | Some _ \<Rightarrow>
          let names = filter (\<lambda>n. instances m n \<noteq> None) (pe_order4 pe);
              (a, b) = batch_bounds (length names) (managerTick m);
              slot = (\<lambda>i. if pe_wait_err pe = None then (pe_slots pe i)\<lparr>slot_finished := True\<rparr> else pe_slots pe i);
              slots = zip (batch names (managerTick m)) (map slot [a..<b]);
              ps0 = \<lparr>ps_instances = instances m, ps_hasAnyReconciles = False,
                     ps_instancesToRemove = [], ps_err = None\<rparr>
          in (case run_batch ops (managerTick m) slots ps0 of
                (Some e, ps) \<Rightarrow> ((Some e, False), m\<lparr>instances := ps_instances ps\<rparr>)
              | (None, ps) \<Rightarrow>
                  let err = (case pe_wait_err pe of Some e \<Rightarrow> Some e | None \<Rightarrow> ps_err ps);
                      m' = delete_instances (ps_instancesToRemove ps) (m\<lparr>instances := ps_instances ps\<rparr>)
                  in (case err of
                        Some e \<Rightarrow> if errors_is e ctx_deadline_exceeded
                                   then ((None, ps_hasAnyReconciles ps), m')
                                   else ((Some e, ps_hasAnyReconciles ps), m')
                      | None \<Rightarrow> ((None, ps_hasAnyReconciles ps), m'))))"

definition Reconcile ::
  "('c, 'i, 'f) manager_ops \<Rightarrow> pass_env \<Rightarrow> 'f \<Rightarrow> 'i BaseFSMManager \<Rightarrow> outcome \<times> 'i BaseFSMManager"
where
  "Reconcile ops pe currentConfig m0 =
     (let m = m0\<lparr>managerTick := managerTick m0 + 1\<rparr>
      in case pe_ctx_err pe of
           Some e \<Rightarrow> if errors_is e ctx_deadline_exceeded then ((None, False), m) else ((Some e, False), m)
         | None \<Rightarrow>
             (case extractConfigs ops currentConfig of
                Inl e \<Rightarrow> ((Some (Errorf ''failed to extract configs: '' e), False), m)
              | Inr cs \<Rightarrow>
                  (case step2 ops (pe_rand pe) cs m of
                     (Some res, m') \<Rightarrow> (res, m')
                   | (None, m') \<Rightarrow>
                       (case step3 ops (pe_rand pe) cs (pe_order3 pe) [] m' of
                          (Some res, _, m'') \<Rightarrow> (res, m'')
                        | (None, dels, m'') \<Rightarrow> reconcile_instances ops pe (delete_instances dels m'')))))"

section \<open>Rate limits\<close>

lemma schedule_delay_mono_bounds:
  assumes "0 \<le> r" and "r \<le> 1"
  shows "\<lfloor>of_nat (unat base) * (3 / 4) + 1 / 2 :: rat\<rfloor> \<le> schedule_delay r base"
    and "schedule_delay r base \<le> \<lfloor>of_nat (unat base) * (5 / 4) + 1 / 2 :: rat\<rfloor>"
proof -
  let ?b = "of_nat (unat base) :: rat"
  have b: "0 \<le> ?b" by (rule of_nat_0_le_iff)
  have f1: "3 / 4 \<le> 1 + (r * 2 - 1) * (1 / 4)" using assms(1) by (simp add: field_simps)
  have f2: "1 + (r * 2 - 1) * (1 / 4) \<le> 5 / 4" using assms(2) by (simp add: field_simps)
  show "\<lfloor>?b * (3 / 4) + 1 / 2\<rfloor> \<le> schedule_delay r base"
    unfolding schedule_delay_def by (intro floor_mono add_right_mono mult_left_mono f1 f2 b)
  show "schedule_delay r base \<le> \<lfloor>?b * (5 / 4) + 1 / 2\<rfloor>"
    unfolding schedule_delay_def by (intro floor_mono add_right_mono mult_left_mono f1 f2 b)
qed

lemma schedule_delay_add:
  assumes "0 \<le> r" and "r \<le> 1"
  shows "23 \<le> schedule_delay r TicksBeforeNextAdd" and "schedule_delay r TicksBeforeNextAdd \<le> 38"
  using schedule_delay_mono_bounds [OF assms, of TicksBeforeNextAdd]
  by (simp_all add: TicksBeforeNextAdd_def)

lemma unat_schedule_add:
  assumes "0 \<le> r" and "r \<le> 1" and "unat (managerTick m) + 38 < 2 ^ 64"
  shows "unat (managerTick m) + 23 \<le> unat (schedule r TicksBeforeNextAdd m)"
proof -
  let ?d = "schedule_delay r TicksBeforeNextAdd"
  note b = schedule_delay_add [OF assms(1,2)]
  have "unat (word_of_int ?d :: u64) = nat ?d"
    using b by (simp add: unsigned_of_int take_bit_int_eq_self)
  then have "unat (managerTick m + word_of_int ?d) = unat (managerTick m) + nat ?d"
    using b assms(3) by (intro unat_add_no_overflow [THEN trans]) simp_all
  then show ?thesis using b by (simp add: schedule_def)
qed

text \<open>What one call can do to the set of instances and to the add limiter.\<close>

definition add_effect :: "rat \<Rightarrow> 'i BaseFSMManager \<Rightarrow> 'i BaseFSMManager \<Rightarrow> bool" where
  "add_effect r m m' \<longleftrightarrow> managerTick m' = managerTick m \<and>
     (dom (instances m') \<subseteq> dom (instances m) \<and> nextAddTick m' = nextAddTick m
      \<or> \<not> managerTick m < nextAddTick m
         \<and> (\<exists>n. n \<notin> dom (instances m) \<and> dom (instances m') = insert n (dom (instances m)))
         \<and> nextAddTick m' = schedule r TicksBeforeNextAdd m)"

lemma add_effect_refl [simp]: "add_effect r m m"
  by (simp add: add_effect_def)

definition no_add :: "'i BaseFSMManager \<Rightarrow> 'i BaseFSMManager \<Rightarrow> bool" where
  "no_add m m' \<longleftrightarrow> managerTick m' = managerTick m \<and> nextAddTick m' = nextAddTick m
     \<and> dom (instances m') \<subseteq> dom (instances m)"

lemma no_add_refl [simp]: "no_add m m"
  by (simp add: no_add_def)

lemma no_add_trans: "no_add a b \<Longrightarrow> no_add b c \<Longrightarrow> no_add a c"
  unfolding no_add_def by (metis subset_trans)

lemma no_add_effect: "no_add m m' \<Longrightarrow> add_effect r m m'"
  by (simp add: no_add_def add_effect_def)

lemma no_add_then_effect: "no_add a b \<Longrightarrow> dom (instances b) = dom (instances a) \<Longrightarrow> add_effect r b c \<Longrightarrow> add_effect r a c"
  by (auto simp: no_add_def add_effect_def schedule_def)

text \<open>
  The four things one iteration can do: nothing (or return an error), create an instance, set a
  configuration, set a desired state.
\<close>

lemma step2_one_cases:
  assumes "step2_one ops r c m = (res, m')"
  obtains (same) "m' = m" "res \<noteq> Some (None, True)"
  | (create) name inst d inst' where "getName ops c = Inr name" "instances m name = None"
      "\<not> managerTick m < nextAddTick m" "getDesiredState ops c = Inr d"
      "inst_SetDesiredFSMState ops d inst = (None, inst')" "res = Some (None, True)"
      "m' = m\<lparr>instances := (instances m)(name \<mapsto> inst'), nextAddTick := schedule r TicksBeforeNextAdd m\<rparr>"
  | (config) name inst where "instances m name = Some inst" "res \<noteq> None"
      "instances m' = (instances m)(name \<mapsto> snd (setConfig ops inst c))"
      "managerTick m' = managerTick m" "nextAddTick m' = nextAddTick m"
  | (desired) name inst d where "instances m name = Some inst"
      "instances m' = (instances m)(name \<mapsto> snd (inst_SetDesiredFSMState ops d inst))"
      "managerTick m' = managerTick m" "nextAddTick m' = nextAddTick m"
      "res \<noteq> None \<or> fst (inst_SetDesiredFSMState ops d inst) \<noteq> None"
proof (cases "getName ops c")
  case (Inl e)
  with assms same show thesis by (auto simp: step2_one_def)
next
  case (Inr name)
  note nm = Inr
  show thesis
  proof (cases "instances m name")
    case None
    with assms nm same create [of name] show thesis
      by (auto simp: step2_one_def Let_def schedule_def split: if_splits prod.splits option.splits sum.splits)
  next
    case (Some inst)
    show thesis
    proof (cases "inst_GetCurrentFSMState ops inst = LifecycleStateRemoved")
      case True
      with assms nm Some same show thesis by (simp add: step2_one_def)
    next
      case live: False
      show thesis
      proof (cases "compareConfig ops inst c")
        case (Inl e)
        with assms nm Some live same show thesis by (auto simp: step2_one_def)
      next
        case (Inr eq)
        show thesis
        proof (cases eq)
          case False
          obtain e inst' where sc: "setConfig ops inst c = (e, inst')" by fastforce
          show thesis
            using assms nm Some live Inr False sc same config [OF Some]
            by (cases e) (auto simp: step2_one_def Let_def simp del: not_None_eq split: if_splits)
        next
          case True
          show thesis
          proof (cases "getDesiredState ops c")
            case (Inl e)
            with assms nm Some live Inr True same show thesis by (auto simp: step2_one_def)
          next
            case gd: (Inr d)
            obtain e inst' where sd: "inst_SetDesiredFSMState ops d inst = (e, inst')" by fastforce
            show thesis
              using assms nm Some live Inr True gd sd same desired [OF Some, of d]
              by (cases e) (auto simp: step2_one_def Let_def simp del: not_None_eq split: if_splits)
          qed
        qed
      qed
    qed
  qed
qed

lemma step2_one_effect:
  assumes "step2_one ops r c m = (res, m')"
  shows "add_effect r m m'" and "res = None \<Longrightarrow> no_add m m' \<and> dom (instances m') = dom (instances m)"
  using assms
  by (cases rule: step2_one_cases; auto simp: add_effect_def no_add_def; metis domIff)+

lemma step2_effect:
  assumes "step2 ops r cs m = (res, m')"
  shows "add_effect r m m' \<and> (res = None \<longrightarrow> no_add m m' \<and> dom (instances m') = dom (instances m))"
  using assms
proof (induction cs arbitrary: m)
  case (Cons c cs)
  obtain res1 m1 where one: "step2_one ops r c m = (res1, m1)" by fastforce
  note eff = step2_one_effect [OF one]
  show ?case
  proof (cases res1)
    case None
    then have rest: "step2 ops r cs m1 = (res, m')" using Cons.prems one by simp
    from eff(2) None have "no_add m m1" "dom (instances m1) = dom (instances m)" by simp_all
    with Cons.IH [OF rest] show ?thesis using no_add_then_effect no_add_trans by metis
  next
    case (Some o1)
    then show ?thesis using Cons.prems one eff by auto
  qed
qed simp

lemma step2_grows: "step2 ops r cs m = (res, m') \<Longrightarrow> dom (instances m) \<subseteq> dom (instances m')"
proof (induction cs arbitrary: m)
  case (Cons c cs)
  obtain res1 m1 where one: "step2_one ops r c m = (res1, m1)" by fastforce
  then have "dom (instances m) \<subseteq> dom (instances m1)" by (cases rule: step2_one_cases) auto
  moreover have "dom (instances m1) \<subseteq> dom (instances m')"
    using Cons one by (cases res1) simp_all
  ultimately show ?case by (rule subset_trans)
qed simp

lemma step3_effect:
  assumes "step3 ops r cs ns dels m = (res, dels', m')"
  shows "no_add m m' \<and> dom (instances m') = dom (instances m)"
  using assms
proof (induction ns arbitrary: dels m)
  case (Cons n ns)
  then show ?case
    by (auto simp: no_add_def Let_def split: sum.splits option.splits prod.splits if_splits)
qed simp

lemma run_slot_dom:
  assumes "n \<in> dom (ps_instances ps)"
  shows "dom (ps_instances (run_slot ops t se n i ps)) = dom (ps_instances ps)"
  using assms by (auto simp: run_slot_def Let_def split: prod.splits option.splits)

lemma run_batch_dom: "dom (ps_instances (snd (run_batch ops t slots ps))) = dom (ps_instances ps)"
proof (induction slots arbitrary: ps)
  case (Cons x slots)
  obtain n se where x: "x = (n, se)" by (cases x)
  show ?case
  proof (cases "ps_instances ps n")
    case None
    then show ?thesis using Cons.IH x by simp
  next
    case (Some i)
    then have "dom (ps_instances (run_slot ops t se n i ps)) = dom (ps_instances ps)"
      by (intro run_slot_dom) (simp add: domI)
    then show ?thesis using Cons.IH Some x by (simp split: sum.split prod.split)
  qed
qed simp

lemma delete_instances_no_add: "no_add m (delete_instances ns m)"
  by (auto simp: no_add_def delete_instances_def)

lemma no_add_replace: "dom is = dom (instances m) \<Longrightarrow> no_add m (m\<lparr>instances := is\<rparr>)"
  by (simp add: no_add_def)

lemma reconcile_instances_effect: "no_add m (snd (reconcile_instances ops pe m))"
proof (cases "pe_deadline pe")
  case None
  then show ?thesis by (simp add: reconcile_instances_def)
next
  case (Some d)
  let ?names = "filter (\<lambda>n. instances m n \<noteq> None) (pe_order4 pe)"
  let ?slot = "\<lambda>i. if pe_wait_err pe = None then (pe_slots pe i)\<lparr>slot_finished := True\<rparr> else pe_slots pe i"
  obtain a b where ab: "batch_bounds (length ?names) (managerTick m) = (a, b)" by fastforce
  obtain e ps where rb: "run_batch ops (managerTick m)
      (zip (batch ?names (managerTick m)) (map ?slot [a..<b]))
      \<lparr>ps_instances = instances m, ps_hasAnyReconciles = False, ps_instancesToRemove = [], ps_err = None\<rparr>
      = (e, ps)" by fastforce
  have "dom (ps_instances (snd (e, ps))) = dom (instances m)"
    unfolding rb [symmetric] run_batch_dom by simp
  then have rep: "no_add m (m\<lparr>instances := ps_instances ps\<rparr>)" by (intro no_add_replace) simp
  from no_add_trans [OF rep delete_instances_no_add]
  have "no_add m (delete_instances ns (m\<lparr>instances := ps_instances ps\<rparr>))" for ns .
  with rep show ?thesis
    unfolding reconcile_instances_def Some Let_def ab option.case prod.case rb
    by (simp split: option.split)
qed

lemma Reconcile_effect:
  "add_effect (pe_rand pe) (m\<lparr>managerTick := managerTick m + 1\<rparr>) (snd (Reconcile ops pe fc m))"
proof -
  let ?m = "m\<lparr>managerTick := managerTick m + 1\<rparr>"
  show ?thesis
  proof (cases "pe_ctx_err pe = None \<and> (\<exists>cs. extractConfigs ops fc = Inr cs)")
    case False
    then show ?thesis by (auto simp: Reconcile_def Let_def split: option.split sum.split)
  next
    case True
    then obtain cs where cs: "pe_ctx_err pe = None" "extractConfigs ops fc = Inr cs" by blast
    obtain r2 m2 where s2: "step2 ops (pe_rand pe) cs ?m = (r2, m2)" by fastforce
    note e2 = step2_effect [OF s2]
    show ?thesis
    proof (cases r2)
      case (Some res)
      with cs s2 e2 show ?thesis by (simp add: Reconcile_def Let_def)
    next
      case None
      obtain r3 dels m3 where s3: "step3 ops (pe_rand pe) cs (pe_order3 pe) [] m2 = (r3, dels, m3)"
        by (metis prod_cases3)
      have "no_add m2 m3" using step3_effect [OF s3] by simp
      moreover have "no_add m3 (delete_instances dels m3)" by (rule delete_instances_no_add)
      moreover note reconcile_instances_effect [of "delete_instances dels m3" ops pe]
      moreover have "no_add ?m m2" using e2 None by simp
      ultimately have "no_add ?m m3" "no_add ?m (snd (reconcile_instances ops pe (delete_instances dels m3)))"
        by (meson no_add_trans)+
      then have "no_add ?m (snd (Reconcile ops pe fc m))"
        using None cs s2 s3 by (cases r3) (simp_all add: Reconcile_def)
      then show ?thesis by (rule no_add_effect)
    qed
  qed
qed

text \<open>A run of reconcile calls.\<close>

primrec reconcile_run ::
  "('c, 'i, 'f) manager_ops \<Rightarrow> (pass_env \<times> 'f) list \<Rightarrow> 'i BaseFSMManager \<Rightarrow> 'i BaseFSMManager"
where
  "reconcile_run ops [] m = m"
| "reconcile_run ops (x # xs) m = reconcile_run ops xs (snd (Reconcile ops (fst x) (snd x) m))"

lemma reconcile_run_append:
  "reconcile_run ops (xs @ ys) m = reconcile_run ops ys (reconcile_run ops xs m)"
  by (induction xs arbitrary: m) simp_all

text \<open>Whether a call added an instance.\<close>

definition adds_instance :: "('c, 'i, 'f) manager_ops \<Rightarrow> pass_env \<times> 'f \<Rightarrow> 'i BaseFSMManager \<Rightarrow> bool" where
  "adds_instance ops x m \<longleftrightarrow> \<not> dom (instances (snd (Reconcile ops (fst x) (snd x) m))) \<subseteq> dom (instances m)"

lemma Reconcile_tick: "managerTick (snd (Reconcile ops pe fc m)) = managerTick m + 1"
  using Reconcile_effect [of pe m ops fc] by (simp add: add_effect_def)

lemma unat_tick_run:
  assumes "unat (managerTick m) + length xs < 2 ^ 64"
  shows "unat (managerTick (reconcile_run ops xs m)) = unat (managerTick m) + length xs"
  using assms
proof (induction xs arbitrary: m)
  case (Cons x xs)
  have "unat (managerTick m + 1) = unat (managerTick m) + 1"
    using Cons.prems by (subst unat_add_no_overflow) simp_all
  then show ?case using Cons.IH [of "snd (Reconcile ops (fst x) (snd x) m)"] Cons.prems
    by (simp add: Reconcile_tick)
qed simp

text \<open>The limiter never moves back below a bound that lies at most 23 ticks ahead.\<close>

lemma next_add_lower:
  assumes "b \<le> unat (nextAddTick m)" and "b \<le> unat (managerTick m) + 24"
    and "unat (managerTick m) + length xs + 38 < 2 ^ 64"
    and "\<forall>x \<in> set xs. 0 \<le> pe_rand (fst x) \<and> pe_rand (fst x) \<le> 1"
  shows "b \<le> unat (nextAddTick (reconcile_run ops xs m))"
  using assms
proof (induction xs arbitrary: m)
  case (Cons x xs)
  let ?m = "m\<lparr>managerTick := managerTick m + 1\<rparr>"
  let ?m' = "snd (Reconcile ops (fst x) (snd x) m)"
  have t: "unat (managerTick m + 1) = unat (managerTick m) + 1"
    using Cons.prems(3) by (subst unat_add_no_overflow) simp_all
  have "unat (managerTick ?m) + 23 \<le> unat (schedule (pe_rand (fst x)) TicksBeforeNextAdd ?m)"
    using Cons.prems(3,4) t by (intro unat_schedule_add) simp_all
  then have "b \<le> unat (nextAddTick ?m')"
    using Reconcile_effect [of "fst x" m ops "snd x"] Cons.prems(1,2) t by (auto simp: add_effect_def)
  then show ?case
    using Cons.IH [of ?m'] Cons.prems t by (simp add: Reconcile_tick)
qed simp

lemma adds_instance_limits:
  assumes "adds_instance ops x m" and "0 \<le> pe_rand (fst x)" and "pe_rand (fst x) \<le> 1"
    and "unat (managerTick m) + 39 < 2 ^ 64"
  shows "unat (nextAddTick m) \<le> unat (managerTick m) + 1"
    and "unat (managerTick m) + 24 \<le> unat (nextAddTick (snd (Reconcile ops (fst x) (snd x) m)))"
    and "\<exists>n. n \<notin> dom (instances m)
           \<and> dom (instances (snd (Reconcile ops (fst x) (snd x) m))) = insert n (dom (instances m))"
proof -
  let ?m = "m\<lparr>managerTick := managerTick m + 1\<rparr>"
  have t: "unat (managerTick m + 1) = unat (managerTick m) + 1"
    using assms(4) by (subst unat_add_no_overflow) simp_all
  have e: "\<not> managerTick ?m < nextAddTick ?m"
    "nextAddTick (snd (Reconcile ops (fst x) (snd x) m)) = schedule (pe_rand (fst x)) TicksBeforeNextAdd ?m"
    "\<exists>n. n \<notin> dom (instances m)
       \<and> dom (instances (snd (Reconcile ops (fst x) (snd x) m))) = insert n (dom (instances m))"
    using Reconcile_effect [of "fst x" m ops "snd x"] assms(1) by (auto simp: add_effect_def adds_instance_def)
  show "unat (nextAddTick m) \<le> unat (managerTick m) + 1"
    using e(1) t by (simp add: u64_less_iff)
  have "unat (managerTick ?m) + 23 \<le> unat (schedule (pe_rand (fst x)) TicksBeforeNextAdd ?m)"
    using assms t by (intro unat_schedule_add) simp_all
  then show "unat (managerTick m) + 24 \<le> unat (nextAddTick (snd (Reconcile ops (fst x) (snd x) m)))"
    using e(2) t by simp
  show "\<exists>n. n \<notin> dom (instances m)
       \<and> dom (instances (snd (Reconcile ops (fst x) (snd x) m))) = insert n (dom (instances m))"
    by (rule e(3))
qed

section \<open>Batches\<close>

lemma batch_bounds_le:
  assumes "batch_bounds n t = (a, b)"
  shows "b \<le> n" and "b - a \<le> MaxConcurrentFSMOperations"
  using assms by (auto simp: batch_bounds_def Let_def split: if_splits)

lemma nth_in_batch:
  assumes "batch_bounds (length xs) t = (a, b)" and "a \<le> i" and "i < b"
  shows "xs ! i \<in> set (batch xs t)"
proof -
  have "b \<le> length xs" using batch_bounds_le(1) [OF assms(1)] .
  then have "take (b - a) (drop a xs) ! (i - a) = xs ! i" "i - a < length (take (b - a) (drop a xs))"
    using assms by simp_all
  then have "xs ! i \<in> set (take (b - a) (drop a xs))"
    unfolding in_set_conv_nth by (intro exI [of _ "i - a"]) simp
  then show ?thesis using assms(1) by (simp add: batch_def)
qed

text \<open>
  With a fixed list of names, any \<open>totalBatches\<close> consecutive ticks reach every index: some of
  them has the residue of the index's batch.
\<close>

lemma exists_residue:
  assumes "(q :: nat) < k"
  shows "\<exists>j < k. (t + j) mod k = q"
proof (cases "t mod k \<le> q")
  case True
  have "(t + (q - t mod k)) mod k = q"
  proof -
    have "(t + (q - t mod k)) mod k = (t mod k + (q - t mod k)) mod k" by (simp add: mod_add_left_eq)
    then show ?thesis using True assms by simp
  qed
  then show ?thesis using assms by (intro exI [of _ "q - t mod k"]) simp
next
  case False
  let ?j = "k - t mod k + q"
  have lt: "t mod k < k" using assms by simp
  have "(t + ?j) mod k = (t mod k + ?j) mod k" by (simp add: mod_add_left_eq)
  also have "t mod k + ?j = k + q" using lt by simp
  finally have "(t + ?j) mod k = q" using assms by simp
  moreover have "?j < k" using False lt by simp
  ultimately show ?thesis by blast
qed

definition totalBatches :: "nat \<Rightarrow> nat" where
  "totalBatches n = (n + MaxConcurrentFSMOperations - 1) div MaxConcurrentFSMOperations"

lemma batch_bounds_at:
  assumes "MaxConcurrentFSMOperations < n" and "n < 2 ^ 64" and "i < n"
    and "unat t mod totalBatches n = i div MaxConcurrentFSMOperations"
  shows "\<exists>a b. batch_bounds n t = (a, b) \<and> a \<le> i \<and> i < b"
proof -
  let ?k = "totalBatches n" and ?M = MaxConcurrentFSMOperations
  have M: "0 < ?M" by (simp add: MaxConcurrentFSMOperations_def)
  have "?k \<le> n" using assms(1) by (simp add: totalBatches_def MaxConcurrentFSMOperations_def)
  then have k: "unat (of_nat ?k :: u64) = ?k" using assms(2) by (simp add: unat_of_nat)
  have "unat (t mod of_nat ?k) = i div ?M" by (simp add: unat_mod k assms(4))
  then have "batch_bounds n t = (i div ?M * ?M, if i div ?M * ?M + ?M > n then n else i div ?M * ?M + ?M)"
    using assms(1) by (simp add: batch_bounds_def Let_def totalBatches_def)
  moreover have "i div ?M * ?M \<le> i" by simp
  moreover have "i < i div ?M * ?M + ?M" using M by (metis add.commute div_mult_mod_eq mod_less_divisor nat_add_left_cancel_less)
  ultimately show ?thesis using assms(3) by auto
qed

lemma index_batch_lt:
  assumes "i < n" shows "i div MaxConcurrentFSMOperations < totalBatches n"
  using assms by (simp add: totalBatches_def MaxConcurrentFSMOperations_def)

section \<open>Cleaning up\<close>

text \<open>
  A configuration that asks for nothing in this tick: its instance is removed (and left to the
  clean-up), or up to date, or missing while additions are rate limited.
\<close>

definition config_quiet :: "('c, 'i, 'f) manager_ops \<Rightarrow> 'i BaseFSMManager \<Rightarrow> 'c \<Rightarrow> bool" where
  "config_quiet ops m c =
     (case getName ops c of
        Inl _ \<Rightarrow> False
      | Inr n \<Rightarrow>
          (case instances m n of
             None \<Rightarrow> managerTick m < nextAddTick m
           | Some i \<Rightarrow> inst_GetCurrentFSMState ops i = LifecycleStateRemoved
               \<or> compareConfig ops i c = Inr True \<and> getDesiredState ops c = Inr (inst_GetDesiredFSMState ops i)))"

text \<open>An instance without configuration that needs no removal request in this tick.\<close>

definition orphan_quiet :: "('c, 'i, 'f) manager_ops \<Rightarrow> 'c list \<Rightarrow> 'i BaseFSMManager \<Rightarrow> string \<Rightarrow> bool" where
  "orphan_quiet ops cs m n \<longleftrightarrow>
     (\<exists>c \<in> set cs. getName ops c = Inr n) \<or> managerTick m < nextRemoveTick m
     \<or> (\<exists>i. instances m n = Some i
          \<and> inst_GetCurrentFSMState ops i \<in> {LifecycleStateRemoving, LifecycleStateRemoved})"

lemma step2_quiet: "list_all (config_quiet ops m) cs \<Longrightarrow> step2 ops r cs m = (None, m)"
  by (induction cs)
    (auto simp: config_quiet_def step2_one_def split: sum.splits option.splits)

lemma config_named_total:
  assumes "\<forall>c \<in> set cs. \<exists>n'. getName ops c = Inr n'"
  shows "config_named ops n cs = Inr (\<exists>c \<in> set cs. getName ops c = Inr n)"
  using assms by (induction cs) auto

lemma step3_quiet:
  assumes "\<forall>c \<in> set cs. \<exists>n'. getName ops c = Inr n'"
    and "\<forall>n \<in> set ns. orphan_quiet ops cs m n \<or> instances m n = None"
  shows "step3 ops r cs ns dels m =
     (None, dels @ filter (\<lambda>n. \<exists>i. instances m n = Some i \<and> inst_GetCurrentFSMState ops i = LifecycleStateRemoved) ns, m)"
  using assms(2)
proof (induction ns arbitrary: dels)
  case (Cons n ns)
  then show ?case
    using config_named_total [OF assms(1), of n]
    by (auto simp: orphan_quiet_def split: option.split)
qed simp

text \<open>Names can only disappear while a batch runs if an instance failed for good.\<close>

lemma run_slot_remove:
  assumes "n' \<in> set (ps_instancesToRemove (run_slot ops t se n i ps))"
  shows "n' \<in> set (ps_instancesToRemove ps)
     \<or> n' = n \<and> IsPermanentFailureError (fst (fst (inst_Reconcile ops t i)))"
  using assms
  by (auto simp: run_slot_def reconcileInstanceWithTimeout_def Let_def
      split: prod.splits option.splits if_splits)

lemma run_slot_other: "n \<noteq> n' \<Longrightarrow> ps_instances (run_slot ops t se n' i ps) n = ps_instances ps n"
  by (auto simp: run_slot_def Let_def split: prod.splits option.splits)

lemma run_batch_remove:
  assumes "n \<in> set (ps_instancesToRemove (snd (run_batch ops t slots ps)))" and "distinct (map fst slots)"
    and "n \<notin> set (ps_instancesToRemove ps)"
  shows "\<exists>i. n \<in> fst ` set slots \<and> ps_instances ps n = Some i
     \<and> IsPermanentFailureError (fst (fst (inst_Reconcile ops t i)))"
  using assms
proof (induction slots arbitrary: ps)
  case (Cons x slots)
  obtain n' se where x: "x = (n', se)" by (cases x)
  have d: "distinct (map fst slots)" "n' \<notin> fst ` set slots" using Cons.prems(2) x by simp_all
  show ?case
  proof (cases "\<exists>i. ps_instances ps n' = Some i \<and> run_batch ops t (x # slots) ps
      = run_batch ops t slots (run_slot ops t se n' i ps)")
    case True
    then obtain i where i: "ps_instances ps n' = Some i"
      "run_batch ops t (x # slots) ps = run_batch ops t slots (run_slot ops t se n' i ps)" by blast
    show ?thesis
    proof (cases "n \<in> set (ps_instancesToRemove (run_slot ops t se n' i ps))")
      case True
      from run_slot_remove [OF this] Cons.prems(3) i(1) x show ?thesis by auto
    next
      case False
      from Cons.IH [OF _ d(1) this] Cons.prems(1) i(2)
      obtain i' where "n \<in> fst ` set slots" "ps_instances (run_slot ops t se n' i ps) n = Some i'"
        "IsPermanentFailureError (fst (fst (inst_Reconcile ops t i')))" by auto
      moreover from this(1) d(2) have "n \<noteq> n'" by auto
      ultimately show ?thesis by (simp add: run_slot_other)
    qed
  next
    case False
    then show ?thesis
      using Cons.prems Cons.IH [of ps] Cons.IH [of "ps\<lparr>ps_hasAnyReconciles := True\<rparr>"] d(1)
      by (auto simp: x split: if_splits option.splits sum.splits prod.splits)
  qed
qed simp

lemma distinct_batch: "distinct xs \<Longrightarrow> distinct (batch xs t)"
  by (simp add: batch_def split: prod.split)

lemma distinct_zip_fst: "distinct xs \<Longrightarrow> distinct (map fst (zip xs ys))"
  by (simp add: map_fst_zip_take)

lemma reconcile_instances_drop:
  assumes "n \<in> dom (instances m)" and "n \<notin> dom (instances (snd (reconcile_instances ops pe m)))"
    and "distinct (pe_order4 pe)"
  shows "\<exists>i. instances m n = Some i \<and> IsPermanentFailureError (fst (fst (inst_Reconcile ops (managerTick m) i)))"
proof (cases "pe_deadline pe")
  case None
  then show ?thesis using assms by (simp add: reconcile_instances_def)
next
  case (Some d)
  let ?names = "filter (\<lambda>n. instances m n \<noteq> None) (pe_order4 pe)"
  let ?slot = "\<lambda>i. if pe_wait_err pe = None then (pe_slots pe i)\<lparr>slot_finished := True\<rparr> else pe_slots pe i"
  obtain a b where ab: "batch_bounds (length ?names) (managerTick m) = (a, b)" by fastforce
  let ?ps0 = "\<lparr>ps_instances = instances m, ps_hasAnyReconciles = False, ps_instancesToRemove = [], ps_err = None\<rparr>"
  let ?run = "run_batch ops (managerTick m) (zip (batch ?names (managerTick m)) (map ?slot [a..<b])) ?ps0"
  obtain e ps where rb: "?run = (e, ps)" by fastforce
  have "dom (ps_instances (snd ?run)) = dom (instances m)" by (simp add: run_batch_dom)
  then have "n \<in> dom (ps_instances ps)" using assms(1) rb by simp
  moreover have "instances (snd (reconcile_instances ops pe m)) = ps_instances ps
      \<or> instances (snd (reconcile_instances ops pe m)) = ps_instances ps |` (- set (ps_instancesToRemove ps))"
    unfolding reconcile_instances_def Some Let_def ab option.case prod.case rb
    by (simp add: delete_instances_def split: option.split)
  ultimately have "n \<in> set (ps_instancesToRemove ps)"
    using assms(2) by (auto simp: dom_restrict)
  then have "n \<in> set (ps_instancesToRemove (snd ?run))" using rb by simp
  from run_batch_remove [OF this distinct_zip_fst [OF distinct_batch [OF distinct_filter [OF assms(3)]]]]
  show ?thesis by simp
qed

section \<open>The contract of a managed instance\<close>

text \<open>
  What the manager relies on from the method that sets the desired state: a state that was
  accepted is the one reported afterwards, and a refusal leaves the instance alone.
\<close>

locale managed_instance =
  fixes ops :: "('c, 'i, 'f) manager_ops"
  assumes set_desired_ok:
      "fst (inst_SetDesiredFSMState ops d i) = None \<Longrightarrow>
       inst_GetDesiredFSMState ops (snd (inst_SetDesiredFSMState ops d i)) = d"
    and set_desired_refused:
      "fst (inst_SetDesiredFSMState ops d i) \<noteq> None \<Longrightarrow> snd (inst_SetDesiredFSMState ops d i) = i"
begin

text \<open>Step 2 either ends the call or leaves every instance alone.\<close>

lemma step2_one_same:
  assumes "step2_one ops r c m = (None, m')"
  shows "instances m' = instances m"
  using assms by (cases rule: step2_one_cases) (auto simp: set_desired_refused fun_upd_idem)

lemma step2_same: "step2 ops r cs m = (None, m') \<Longrightarrow> instances m' = instances m"
proof (induction cs arbitrary: m)
  case (Cons c cs)
  then obtain m1 where "step2_one ops r c m = (None, m1)" "step2 ops r cs m1 = (None, m')"
    by (auto split: prod.splits option.splits)
  with Cons.IH step2_one_same show ?case by metis
qed simp

lemma step3_dels:
  assumes "step3 ops r cs ns dels m = (None, dels', m')"
  shows "m' = m \<and> (\<forall>n \<in> set dels'. n \<in> set dels
     \<or> (\<exists>i. instances m n = Some i \<and> inst_GetCurrentFSMState ops i = LifecycleStateRemoved))"
  using assms
proof (induction ns arbitrary: dels)
  case (Cons n ns)
  then show ?case
    using Cons.IH [of dels] Cons.IH [of "dels @ [n]"]
    by (auto simp: Let_def split: sum.splits option.splits if_splits prod.splits)
qed simp

text \<open>An instance leaves the manager only when it is removed or has failed for good.\<close>

lemma dropped_reason:
  assumes "instances m n = Some i" and "n \<notin> dom (instances (snd (Reconcile ops pe fc m)))"
    and "distinct (pe_order4 pe)"
  shows "inst_GetCurrentFSMState ops i = LifecycleStateRemoved
     \<or> IsPermanentFailureError (fst (fst (inst_Reconcile ops (managerTick m + 1) i)))"
proof -
  let ?m = "m\<lparr>managerTick := managerTick m + 1\<rparr>"
  have n: "n \<in> dom (instances ?m)" using assms(1) by auto
  obtain cs where cs: "pe_ctx_err pe = None" "extractConfigs ops fc = Inr cs"
    using assms(1,2) by (auto simp: Reconcile_def Let_def split: option.splits sum.splits if_splits)
  obtain r2 m2 where s2: "step2 ops (pe_rand pe) cs ?m = (r2, m2)" by fastforce
  have "n \<in> dom (instances m2)" using step2_grows [OF s2] n by auto
  then have r2: "r2 = None" using assms(2) cs s2 by (cases r2) (auto simp: Reconcile_def)
  then have i2: "instances m2 n = Some i" using step2_same s2 assms(1) by simp
  obtain r3 dels m3 where s3: "step3 ops (pe_rand pe) cs (pe_order3 pe) [] m2 = (r3, dels, m3)"
    by (metis prod_cases3)
  have "dom (instances m3) = dom (instances m2)" using step3_effect [OF s3] by simp
  then have r3: "r3 = None" using assms(2) cs s2 r2 s3 i2 by (cases r3) (auto simp: Reconcile_def)
  note d = step3_dels [OF s3 [unfolded r3]]
  have t: "managerTick (delete_instances dels m3) = managerTick m + 1"
    using step2_effect [OF s2] d r2 by (simp add: delete_instances_def no_add_def)
  show ?thesis
  proof (cases "n \<in> set dels")
    case True
    then show ?thesis using d i2 by auto
  next
    case False
    then have i3: "instances (delete_instances dels m3) n = Some i"
      using d i2 by (simp add: delete_instances_def)
    have "n \<notin> dom (instances (snd (reconcile_instances ops pe (delete_instances dels m3))))"
      using assms(2) cs s2 r2 s3 r3 by (simp add: Reconcile_def)
    from reconcile_instances_drop [OF _ this assms(3)] i3 t show ?thesis by auto
  qed
qed

text \<open>A new instance starts with the desired state its configuration asks for.\<close>

lemma step2_one_created:
  assumes "step2_one ops r c m = (res, m')" and "instances m n = None" and "instances m' n = Some i"
  shows "getName ops c = Inr n \<and> getDesiredState ops c = Inr (inst_GetDesiredFSMState ops i)
     \<and> res = Some (None, True)"
  using assms(1)
proof (cases rule: step2_one_cases)
  case (create name inst d inst')
  then have "n = name" "i = inst'" using assms(2,3) by (auto split: if_splits)
  then show ?thesis using create set_desired_ok [of d inst] by simp
qed (use assms(2,3) in \<open>auto split: if_splits\<close>)

lemma step2_created:
  assumes "step2 ops r cs m = (res, m')" and "instances m n = None" and "instances m' n = Some i"
  shows "\<exists>c \<in> set cs. getName ops c = Inr n \<and> getDesiredState ops c = Inr (inst_GetDesiredFSMState ops i)"
  using assms
proof (induction cs arbitrary: m)
  case (Cons c cs)
  obtain res1 m1 where one: "step2_one ops r c m = (res1, m1)" by fastforce
  show ?case
  proof (cases res1)
    case None
    then have rest: "step2 ops r cs m1 = (res, m')" using Cons.prems(1) one by simp
    from step2_one_effect(2) [OF one None] Cons.prems(2) have "instances m1 n = None" by auto
    from Cons.IH [OF rest this Cons.prems(3)] show ?thesis by auto
  next
    case (Some o1)
    then have "m1 = m'" using Cons.prems(1) one by simp
    with step2_one_created [OF one Cons.prems(2)] Cons.prems(3) show ?thesis by auto
  qed
qed simp

lemma created_desired:
  assumes "instances m n = None" and "instances (snd (Reconcile ops pe fc m)) n = Some i"
  shows "\<exists>cs c. extractConfigs ops fc = Inr cs \<and> c \<in> set cs \<and> getName ops c = Inr n
     \<and> getDesiredState ops c = Inr (inst_GetDesiredFSMState ops i)"
proof -
  let ?m = "m\<lparr>managerTick := managerTick m + 1\<rparr>"
  obtain cs where cs: "pe_ctx_err pe = None" "extractConfigs ops fc = Inr cs"
    using assms by (auto simp: Reconcile_def Let_def split: option.splits sum.splits if_splits)
  obtain r2 m2 where s2: "step2 ops (pe_rand pe) cs ?m = (r2, m2)" by fastforce
  show ?thesis
  proof (cases r2)
    case (Some res)
    then have "instances m2 n = Some i" using assms(2) cs s2 by (simp add: Reconcile_def)
    from step2_created [OF s2 _ this] assms(1) cs show ?thesis by auto
  next
    case None
    then have dom2: "dom (instances m2) = dom (instances m)" using step2_effect [OF s2] by simp
    obtain r3 dels m3 where s3: "step3 ops (pe_rand pe) cs (pe_order3 pe) [] m2 = (r3, dels, m3)"
      by (metis prod_cases3)
    have "dom (instances m3) = dom (instances m2)" using step3_effect [OF s3] by simp
    moreover have "dom (instances (snd (reconcile_instances ops pe (delete_instances dels m3))))
        \<subseteq> dom (instances m3)"
      using no_add_trans [OF delete_instances_no_add reconcile_instances_effect] by (metis no_add_def)
    ultimately have "n \<notin> dom (instances (snd (Reconcile ops pe fc m)))"
      using dom2 assms(1) cs s2 None s3 by (cases r3) (auto simp: Reconcile_def)
    then show ?thesis using assms(2) by auto
  qed
qed

end

section \<open>Starving an instance\<close>

lemma batch_nth:
  assumes "x \<in> set (batch xs t)" and "batch_bounds (length xs) t = (a, b)"
  shows "\<exists>k. a \<le> k \<and> k < b \<and> xs ! k = x"
proof -
  obtain j where "j < length (take (b - a) (drop a xs))" "take (b - a) (drop a xs) ! j = x"
    using assms by (auto simp: batch_def in_set_conv_nth)
  then show ?thesis by (intro exI [of _ "a + j"]) (auto simp: nth_drop)
qed

lemma batch_misses_index:
  assumes "MaxConcurrentFSMOperations < length xs" and "batch_bounds (length xs) t = (a, b)"
  shows "\<exists>p < length xs. \<not> (a \<le> p \<and> p < b)"
proof (cases "a = 0")
  case True
  then have "b \<le> MaxConcurrentFSMOperations" using batch_bounds_le(2) [OF assms(2)] by simp
  then show ?thesis using assms(1) by (intro exI [of _ b]) simp
next
  case False
  then show ?thesis using assms(1) by (intro exI [of _ 0]) auto
qed

section \<open>Properties\<close>



text \<open>
  Batching. A tick schedules at most 1000 instances; if the list of names kept its order, any
  \<open>totalBatches\<close> consecutive ticks would schedule every instance. The list is built by ranging
  over a Go map, whose order may differ in every tick, and then nothing keeps an instance from
  being left out: for every tick there is an order of the same names that does not schedule it.
\<close>

theorem batch_rotation:
  assumes "distinct xs" and "x \<in> set xs" and "MaxConcurrentFSMOperations < length xs"
    and "unat t + length xs < 2 ^ 64"
  shows "length (batch xs t) \<le> MaxConcurrentFSMOperations
     \<and> (\<exists>j < totalBatches (length xs). x \<in> set (batch xs (t + of_nat j)))
     \<and> (\<exists>ys. set ys = set xs \<and> distinct ys \<and> x \<notin> set (batch ys t))"
proof (intro conjI)
  obtain a b where ab: "batch_bounds (length xs) t = (a, b)" by fastforce
  show "length (batch xs t) \<le> MaxConcurrentFSMOperations"
    using batch_bounds_le [OF ab] ab by (simp add: batch_def)
  obtain i where i: "i < length xs" "xs ! i = x" using assms(2) by (auto simp: in_set_conv_nth)
  from exists_residue [OF index_batch_lt [OF i(1)], of "unat t"] obtain j where
    j: "j < totalBatches (length xs)" "(unat t + j) mod totalBatches (length xs) = i div MaxConcurrentFSMOperations"
    by blast
  have "totalBatches (length xs) \<le> length xs"
    using assms(3) by (simp add: totalBatches_def MaxConcurrentFSMOperations_def)
  then have "j < 2 ^ 64" "unat t + j < 2 ^ 64" using j(1) assms(4) by simp_all
  then have "unat (t + of_nat j) = unat t + j"
    by (subst unat_add_no_overflow) (simp_all add: unat_of_nat)
  with batch_bounds_at [OF assms(3) _ i(1), of "t + of_nat j"] j(2) assms(4)
  obtain a' b' where "batch_bounds (length xs) (t + of_nat j) = (a', b')" "a' \<le> i" "i < b'" by auto
  from nth_in_batch [OF this] j(1) i(2) show "\<exists>j < totalBatches (length xs). x \<in> set (batch xs (t + of_nat j))"
    by auto
  obtain p where p: "p < length xs" "\<not> (a \<le> p \<and> p < b)" using batch_misses_index [OF assms(3) ab] by blast
  let ?ys = "xs[i := xs ! p, p := xs ! i]"
  have d: "distinct ?ys" using assms(1) i(1) p(1) by (simp add: distinct_swap)
  have "x \<notin> set (batch ?ys t)"
  proof
    assume "x \<in> set (batch ?ys t)"
    then obtain k where k: "a \<le> k" "k < b" "?ys ! k = x" using batch_nth ab by (metis length_list_update)
    have "k < length ?ys" using k(2) batch_bounds_le(1) [OF ab] by simp
    moreover have "?ys ! p = x" using p(1) i by simp
    ultimately have "k = p" using d k(3) p(1) by (metis length_list_update nth_eq_iff_index_eq)
    with k p(2) show False by simp
  qed
  moreover have "set ?ys = set xs" using i(1) p(1) by (simp add: set_swap)
  ultimately show "\<exists>ys. set ys = set xs \<and> distinct ys \<and> x \<notin> set (batch ys t)" using d by blast
qed

section \<open>Witnesses\<close>

text \<open>A manager of instances that only store their state and desired state.\<close>

definition demo_ops :: "(string, string \<times> string, string list) manager_ops" where
  "demo_ops = \<lparr>extractConfigs = (\<lambda>cs. Inr cs), getName = (\<lambda>c. Inr c), getDesiredState = (\<lambda>c. Inr ''active''),
     createInstance = (\<lambda>c. (None, Some (''to_be_created'', ''stopped''))),
     compareConfig = (\<lambda>i c. Inr True), setConfig = (\<lambda>i c. (None, i)),
     getMinimumRequiredTime = (\<lambda>i. Inr 1),
     inst_GetCurrentFSMState = fst, inst_GetDesiredFSMState = snd,
     inst_SetDesiredFSMState = (\<lambda>d i. (None, (fst i, d))),
     inst_Remove = (\<lambda>i. (None, (''removing'', snd i))),
     inst_Reconcile = (\<lambda>t i. ((None, False), i)),
     inst_IsTransientStreakCounterMaxed = (\<lambda>i. False), inst_ForceRemove = None\<rparr>"

definition demo_pass :: "goerror option \<Rightarrow> string list \<Rightarrow> pass_env" where
  "demo_pass e ns = \<lparr>pe_ctx_err = e, pe_deadline = Some 50, pe_rand = 0, pe_order3 = ns, pe_order4 = ns,
     pe_slots = (\<lambda>i. \<lparr>slot_expired = False, slot_time_left = 40, slot_started = True, slot_skips = False,
       slot_finished = True\<rparr>), pe_wait_err = None\<rparr>"

definition demo_run :: "(pass_env \<times> string list) list" where
  "demo_run = (demo_pass None [], [''a'', ''b'']) # replicate 22 (demo_pass (Some ctx_canceled) [], [''a'', ''b''])
     @ [(demo_pass None [''a''], [''a'', ''b''])]"

lemma demo_run_cancelled:
  "reconcile_run ops (replicate k (demo_pass (Some e) ns, fc)) m = m\<lparr>managerTick := managerTick m + of_nat k\<rparr>"
  by (induction k arbitrary: m)
    (simp_all add: Reconcile_def demo_pass_def Let_def add.assoc)

lemma demo_run_first:
  "snd (Reconcile demo_ops (demo_pass None []) [''a'', ''b''] NewBaseFSMManager)
   = NewBaseFSMManager\<lparr>managerTick := 1, instances := [''a'' \<mapsto> (''to_be_created'', ''active'')], nextAddTick := 24\<rparr>"
  by (simp add: Reconcile_def demo_ops_def demo_pass_def step2_one_def NewBaseFSMManager_def schedule_def
      schedule_delay_def TicksBeforeNextAdd_def)



theorem batch_rotation_witness:
  "length (batch (map (\<lambda>k. replicate k CHR ''x'') [0..<1001]) 7) \<le> 1000
   \<and> (\<exists>j < 2. [] \<in> set (batch (map (\<lambda>k. replicate k CHR ''x'') [0..<1001]) (7 + of_nat j)))
   \<and> (\<exists>ys. set ys = set (map (\<lambda>k. replicate k CHR ''x'') [0..<1001]) \<and> distinct ys \<and> [] \<notin> set (batch ys 7))"
proof -
  let ?xs = "map (\<lambda>k. replicate k CHR ''x'') [0..<1001]"
  have d: "distinct ?xs" by (simp add: distinct_map inj_on_def)
  have m: "[] \<in> set ?xs" by force
  have l: "MaxConcurrentFSMOperations < length ?xs" "unat (7 :: u64) + length ?xs < 2 ^ 64"
    "totalBatches (length ?xs) = 2"
    by (simp_all add: MaxConcurrentFSMOperations_def totalBatches_def)
  from batch_rotation [OF d m l(1,2)] show ?thesis unfolding l(3) MaxConcurrentFSMOperations_def by blast
qed

end
