(* ===== verification/Go_Path.thy ===== *)
theory Go_Path
  imports UMH_Prelude
begin

text \<open>
  The functions of Go's \<^verbatim>\<open>path/filepath\<close> on Unix that the modelled code calls on service and
  configuration paths.
\<close>

text \<open>
  \<^verbatim>\<open>filepath.Clean\<close> and \<^verbatim>\<open>filepath.Join\<close> of the Go library on Unix: a path is split at the
  slashes, empty and \<^verbatim>\<open>.\<close> elements vanish, \<^verbatim>\<open>..\<close> takes the preceding element away (or itself, at
  the root).
\<close>

fun split_slash :: "string \<Rightarrow> string list" where
  "split_slash [] = [[]]"
| "split_slash (c # cs) =
     (if c = CHR ''/'' then [] # split_slash cs
      else case split_slash cs of [] \<Rightarrow> [[c]] | e # es \<Rightarrow> (c # e) # es)"

definition clean_elem :: "bool \<Rightarrow> string \<Rightarrow> string list \<Rightarrow> string list" where
  "clean_elem rooted e acc =
     (if e = [] \<or> e = ''.'' then acc
      else if e = ''..'' then
        (if acc \<noteq> [] \<and> last acc \<noteq> ''..'' then butlast acc
         else if rooted then acc else acc @ [e])
      else acc @ [e])"

fun join_slash :: "string list \<Rightarrow> string" where
  "join_slash [] = []"
| "join_slash [e] = e"
| "join_slash (e # f # es) = e @ ''/'' @ join_slash (f # es)"

definition is_rooted :: "string \<Rightarrow> bool" where
  "is_rooted p = (case p of [] \<Rightarrow> False | c # _ \<Rightarrow> c = CHR ''/'')"

definition filepath_Clean :: "string \<Rightarrow> string" where
  "filepath_Clean p =
     (let q = (if is_rooted p then ''/'' else []) @ join_slash (fold (clean_elem (is_rooted p)) (split_slash p) [])
      in if q = [] then ''.'' else q)"

definition filepath_Join :: "string \<Rightarrow> string \<Rightarrow> string" where
  "filepath_Join a b =
     (if a \<noteq> [] then filepath_Clean (a @ ''/'' @ b) else if b \<noteq> [] then filepath_Clean b else [])"

text \<open>\<^verbatim>\<open>filepath.Base\<close> and \<^verbatim>\<open>filepath.Dir\<close>: what follows the last slash, and the cleaned rest.\<close>

definition after_last_slash :: "string \<Rightarrow> string" where
  "after_last_slash p = rev (takeWhile (\<lambda>c. c \<noteq> CHR ''/'') (rev p))"

definition filepath_Base :: "string \<Rightarrow> string" where
  "filepath_Base p =
     (if p = [] then ''.''
      else let q = rev (dropWhile (\<lambda>c. c = CHR ''/'') (rev p)); b = after_last_slash q
           in if b = [] then ''/'' else b)"

definition filepath_Dir :: "string \<Rightarrow> string" where
  "filepath_Dir p = filepath_Clean (rev (dropWhile (\<lambda>c. c \<noteq> CHR ''/'') (rev p)))"

definition filepath_IsAbs :: "string \<Rightarrow> bool" where
  "filepath_IsAbs p = is_rooted p"

text \<open>A path and everything below it.\<close>

definition below :: "string \<Rightarrow> string \<Rightarrow> bool" where
  "below p q \<longleftrightarrow> q = p \<or> prefix (p @ ''/'') q"

lemma below_self [simp]: "below p p"
  by (simp add: below_def)

lemma below_trans: "below p q \<Longrightarrow> below q r \<Longrightarrow> below p r"
  by (auto simp: below_def prefix_def)

section \<open>Plain names\<close>

definition plain_name :: "string \<Rightarrow> bool" where
  "plain_name n \<longleftrightarrow> n \<noteq> [] \<and> n \<noteq> ''.'' \<and> n \<noteq> ''..'' \<and> CHR ''/'' \<notin> set n"

definition path_elems :: "string \<Rightarrow> string list" where
  "path_elems p = fold (clean_elem True) (split_slash p) []"

lemma split_slash_nonempty [simp]: "split_slash p \<noteq> []"
  by (induction p) (auto split: list.split)

lemma split_slash_append: "split_slash (a @ CHR ''/'' # b) = split_slash a @ split_slash b"
proof (induction a)
  case (Cons c a)
  then show ?case by (cases "split_slash a") auto
qed simp

lemma split_slash_plain: "CHR ''/'' \<notin> set n \<Longrightarrow> split_slash n = [n]"
  by (induction n) auto

lemma join_slash_snoc: "xs \<noteq> [] \<Longrightarrow> join_slash (xs @ [x]) = join_slash xs @ ''/'' @ x"
  by (induction xs rule: join_slash.induct) simp_all

lemma Clean_rooted: "is_rooted p \<Longrightarrow> filepath_Clean p = ''/'' @ join_slash (path_elems p)"
  by (simp add: filepath_Clean_def path_elems_def)

lemma path_elems_append: "path_elems (p @ CHR ''/'' # q) = fold (clean_elem True) (split_slash q) (path_elems p)"
  by (simp add: path_elems_def split_slash_append)

lemma rooted_append: "is_rooted p \<Longrightarrow> is_rooted (p @ q)" and rooted_nonempty: "is_rooted p \<Longrightarrow> p \<noteq> []"
  by (auto simp: is_rooted_def split: list.splits)

lemma Join_plain:
  assumes "is_rooted base" and "path_elems base \<noteq> []" and "plain_name n"
  shows "filepath_Join base n = filepath_Clean base @ ''/'' @ n"
proof -
  have "path_elems (base @ ''/'' @ n) = path_elems base @ [n]"
    using assms(3) by (simp add: path_elems_append split_slash_plain plain_name_def clean_elem_def)
  then show ?thesis
    using assms(1,2) by (simp add: filepath_Join_def rooted_nonempty Clean_rooted rooted_append join_slash_snoc)
qed

lemma after_last_slash_append: "CHR ''/'' \<notin> set n \<Longrightarrow> after_last_slash (p @ CHR ''/'' # n) = n"
  by (simp add: after_last_slash_def takeWhile_append)

lemma Base_plain:
  assumes "plain_name n"
  shows "filepath_Base (p @ ''/'' @ n) = n"
proof -
  have "rev n \<noteq> [] \<and> hd (rev n) \<noteq> CHR ''/''" using assms by (metis plain_name_def hd_in_set rev_is_Nil_conv set_rev)
  then have "dropWhile (\<lambda>c. c = CHR ''/'') (rev n @ x) = rev n @ x" for x by (cases "rev n") auto
  then show ?thesis
    using assms after_last_slash_append [of n p] by (simp add: filepath_Base_def Let_def plain_name_def)
qed

text \<open>A path with no \<^verbatim>\<open>..\<close> in it stays below the directory it is joined to.\<close>

definition real_elem :: "string \<Rightarrow> bool" where
  "real_elem e \<longleftrightarrow> e \<noteq> [] \<and> e \<noteq> ''.''"

lemma clean_elems: "''..'' \<notin> set es \<Longrightarrow> fold (clean_elem True) es acc = acc @ filter real_elem es"
  by (induction es arbitrary: acc) (auto simp: clean_elem_def real_elem_def)

lemma split_slash_sublist: "e \<in> set (split_slash p) \<Longrightarrow> sublist e p"
proof (induction p arbitrary: e)
  case (Cons c p)
  have hd: "prefix (hd (split_slash p)) p" for p
    by (induction p) (auto split: list.split simp: Let_def dest: split_slash_nonempty [THEN notE])
  show ?case
  proof (cases "c = CHR ''/''")
    case True
    with Cons show ?thesis by (auto simp: sublist_Cons_right)
  next
    case False
    obtain x xs where x: "split_slash p = x # xs" by (cases "split_slash p") auto
    with False Cons.prems have "e = c # x \<or> e \<in> set (split_slash p)" by auto
    with Cons.IH hd [of p] x show ?thesis by (auto simp: sublist_Cons_right)
  qed
qed simp

lemma join_slash_append: "xs \<noteq> [] \<Longrightarrow> ys \<noteq> [] \<Longrightarrow> join_slash (xs @ ys) = join_slash xs @ ''/'' @ join_slash ys"
  by (induction xs rule: join_slash.induct) (auto simp: neq_Nil_conv)

lemma Join_below:
  assumes "is_rooted d" and "path_elems d \<noteq> []" and "\<not> str_contains q ''..''" and "\<exists>e \<in> set (split_slash q). real_elem e"
  shows "prefix (filepath_Clean d @ ''/'') (filepath_Join d q)"
proof -
  let ?es = "filter real_elem (split_slash q)"
  have "''..'' \<notin> set (split_slash q)" using split_slash_sublist assms(3) by (auto simp: str_contains_iff_sublist)
  then have "path_elems (d @ ''/'' @ q) = path_elems d @ ?es" by (simp add: path_elems_append clean_elems)
  moreover have "?es \<noteq> []" using assms(4) by (auto simp: filter_empty_conv)
  ultimately show ?thesis
    using assms(1,2) by (simp add: filepath_Join_def rooted_nonempty Clean_rooted rooted_append join_slash_append)
qed

lemma last_split_slash: "last (split_slash p) = after_last_slash p"
proof (induction p rule: rev_induct)
  case (snoc c p)
  show ?case
  proof (cases "c = CHR ''/''")
    case True
    have "split_slash (p @ [CHR ''/'']) = split_slash p @ [[]]" using split_slash_append [of p "[]"] by simp
    then show ?thesis using True by (simp add: after_last_slash_def)
  next
    case False
    have "split_slash (p @ [c]) = butlast (split_slash p) @ [last (split_slash p) @ [c]]"
      using False by (induction p) (auto split: list.split simp: butlast_append)
    then show ?thesis using False snoc by (simp add: after_last_slash_def)
  qed
qed (simp add: after_last_slash_def)

lemma Base_real:
  assumes "p \<noteq> []" and "\<not> is_rooted p" and "filepath_Base p \<noteq> ''.''"
  shows "\<exists>e \<in> set (split_slash p). real_elem e"
proof -
  define q where "q = rev (dropWhile (\<lambda>c. c = CHR ''/'') (rev p))"
  define k where "k = length (takeWhile (\<lambda>c. c = CHR ''/'') (rev p))"
  have "rev p = takeWhile (\<lambda>c. c = CHR ''/'') (rev p) @ rev q" by (simp add: q_def)
  moreover have "takeWhile (\<lambda>c. c = CHR ''/'') (rev p) = replicate k (CHR ''/'')"
    unfolding k_def by (metis (full_types) replicate_length_same set_takeWhileD)
  ultimately have p: "p = q @ replicate k (CHR ''/'')" by (metis rev_append rev_replicate rev_rev_ident)
  have q: "q \<noteq> []" using assms(1,2) p by (cases k) (auto simp: is_rooted_def)
  then have "last q \<noteq> CHR ''/''" using hd_dropWhile [of "\<lambda>c. c = CHR ''/''" "rev p"] by (auto simp: q_def last_rev)
  with q have ne: "after_last_slash q \<noteq> []" by (cases q rule: rev_cases) (auto simp: after_last_slash_def)
  with assms(1,3) have "real_elem (after_last_slash q)" by (auto simp: filepath_Base_def Let_def q_def real_elem_def split: if_splits)
  moreover have "set (split_slash q) \<subseteq> set (split_slash p)"
    unfolding p by (cases k) (auto simp: split_slash_append)
  ultimately show ?thesis using last_split_slash [of q] by (metis last_in_set split_slash_nonempty subsetD)
qed

end
