(* ===== verification/S6_FSM.thy ===== *)
theory S6_FSM
  imports Base_Manager Go_Path "HOL-Library.Finite_Map"
begin

text \<open>
  The FSM of one supervised process: \<^verbatim>\<open>umh-core/pkg/fsm/s6\<close> (\<^verbatim>\<open>models.go\<close>, \<^verbatim>\<open>machine.go\<close>,
  \<^verbatim>\<open>fsm_callbacks.go\<close>, \<^verbatim>\<open>actions.go\<close>, \<^verbatim>\<open>reconcile.go\<close>). The Go struct holds a base
  instance; here it extends the base record.

  The FSM reaches the s6 service through the Go interface \<^verbatim>\<open>s6service.Service\<close>, whose
  implementation talks to the file system. One pass asks each of its methods at most once (the
  directory check once per place it is called from), so the service's answers in a pass are the
  record \<open>s6_answers\<close>, unconstrained unless a lemma says so, and the field \<open>service\<close> holds
  the calls that change the service, in the order in which they were made. Times are \<open>int\<close>
  nanoseconds since Go's zero time.
\<close>

section \<open>States and events\<close>

abbreviation OperationalStateStarting :: string where "OperationalStateStarting \<equiv> ''starting''"
abbreviation OperationalStateRunning :: string where "OperationalStateRunning \<equiv> ''running''"
abbreviation OperationalStateStopping :: string where "OperationalStateStopping \<equiv> ''stopping''"
abbreviation OperationalStateStopped :: string where "OperationalStateStopped \<equiv> ''stopped''"
abbreviation OperationalStateUnknown :: string where "OperationalStateUnknown \<equiv> ''unknown''"

abbreviation EventStart :: string where "EventStart \<equiv> ''start''"
abbreviation EventStartDone :: string where "EventStartDone \<equiv> ''start_done''"
abbreviation EventStop :: string where "EventStop \<equiv> ''stop''"
abbreviation EventStopDone :: string where "EventStopDone \<equiv> ''stop_done''"

definition IsOperationalState :: "string \<Rightarrow> bool" where
  "IsOperationalState st =
     (st = OperationalStateStopped \<or> st = OperationalStateStarting \<or> st = OperationalStateRunning
      \<or> st = OperationalStateStopping \<or> st = OperationalStateUnknown)"

section \<open>Data\<close>

text \<open>
  A Go map or slice may be nil, which \<^verbatim>\<open>reflect.DeepEqual\<close> tells apart from an empty one; on
  these structs it is therefore structural equality.
\<close>

record S6ServiceConfig =
  Env :: "(string, string) fmap option"
  ConfigFiles :: "(string, string) fmap option"
  Command :: "string list option"
  MemoryLimit :: "64 word"
  LogFilesize :: "64 word"

definition zero_S6ServiceConfig :: S6ServiceConfig where
  "zero_S6ServiceConfig = \<lparr>Env = None, ConfigFiles = None, Command = None, MemoryLimit = 0, LogFilesize = 0\<rparr>"

definition S6ServiceConfig_Equal :: "S6ServiceConfig \<Rightarrow> S6ServiceConfig \<Rightarrow> bool" where
  "S6ServiceConfig_Equal c other = (c = other)"

record S6FSMConfig =
  Name :: string
  DesiredFSMState :: string
  s6cfg_S6ServiceConfig :: S6ServiceConfig

text \<open>The empty string, the type's zero value, is \<open>ServiceUnset\<close>.\<close>

datatype ServiceStatus = ServiceUnset | ServiceUnknown | ServiceUp | ServiceDown | ServiceRestarting

datatype HealthStatus = HealthUnknown | HealthOK | HealthBad

text \<open>A value of the integer type that is none of the three constants is \<open>ActionInvalid\<close>.\<close>

datatype RecoveryAction = ActionOK | ActionWait | ActionRecreate | ActionInvalid

record ExitEvent =
  ee_Timestamp :: int
  ee_ExitCode :: int
  ee_Signal :: int

record ServiceInfo =
  LastChangedAt :: int
  LastReadyAt :: int
  LastDeploymentTime :: int
  Status :: ServiceStatus
  ExitHistory :: "ExitEvent list"
  Uptime :: int
  DownTime :: int
  ReadyTime :: int
  Pid :: int
  Pgid :: int
  ExitCode :: int
  WantUp :: bool
  IsPaused :: bool
  IsFinishing :: bool
  IsWantingUp :: bool
  IsReady :: bool
  IsDownAndReady :: bool

definition zero_ServiceInfo :: ServiceInfo where
  "zero_ServiceInfo = \<lparr>LastChangedAt = 0, LastReadyAt = 0, LastDeploymentTime = 0, Status = ServiceUnset,
     ExitHistory = [], Uptime = 0, DownTime = 0, ReadyTime = 0, Pid = 0, Pgid = 0, ExitCode = 0,
     WantUp = False, IsPaused = False, IsFinishing = False, IsWantingUp = False, IsReady = False,
     IsDownAndReady = False\<rparr>"

record S6ObservedState =
  ObservedS6ServiceConfig :: S6ServiceConfig
  ServiceInfo :: ServiceInfo
  LastStateChange :: int
  DirectoryHealth :: HealthStatus

datatype s6_call =
    CallCreate string S6ServiceConfig
  | CallRemove string
  | CallForceRemove string
  | CallStart string
  | CallStop string
  | CallRestart string

record S6Instance = BaseFSMInstance +
  servicePath :: string
  s6_config :: S6FSMConfig
  ObservedState :: S6ObservedState
  service :: "s6_call list"

text \<open>What the service answers in one pass.\<close>

record s6_answers =
  ans_Create :: "goerror option"
  ans_integrity_after_create :: HealthStatus
  ans_Remove :: "goerror option"
  ans_ForceRemove :: "goerror option"
  ans_Start :: "goerror option"
  ans_Stop :: "goerror option"
  ans_Restart :: "goerror option"
  ans_EnsureSupervision :: "goerror + bool"
  ans_integrity :: HealthStatus
  ans_Status :: "goerror + ServiceInfo"
  ans_GetConfig :: "goerror + S6ServiceConfig"
  ans_Health :: RecoveryAction

text \<open>
  What one pass reads from its surroundings: the context's error, the random term of the retry
  policy, the time of the snapshot, the readings of the transitions (of the removal that a
  configuration change requests, of the removal after a permanent error, of the state machine's
  own event) and the service's answers.
\<close>

record s6_env =
  e_ctx_err :: "goerror option"
  e_rand :: int
  e_time :: int
  e_update_remove :: "nat \<Rightarrow> event_env"
  e_perm_remove :: "nat \<Rightarrow> event_env"
  e_event :: "nat \<Rightarrow> event_env"
  e_svc :: s6_answers

definition S6UpdateObservedStateTimeout :: int where
  "S6UpdateObservedStateTimeout = 20 * millisecond"

definition S6DownAndReadyRestartDelay :: int where
  "S6DownAndReadyRestartDelay = 3000 * millisecond"

section \<open>Service paths\<close>

definition s6_service_path :: "string \<Rightarrow> string \<Rightarrow> string" where
  "s6_service_path s6BaseDir nm =
     (let joined = filepath_Join s6BaseDir nm
      in if \<not> prefix (filepath_Clean s6BaseDir @ ''/'') joined then s6BaseDir else joined)"

section \<open>A new instance\<close>

definition s6_transitions :: "EventDesc list" where
  "s6_transitions =
     [\<lparr>ev_Name = EventStart, ev_Src = [OperationalStateStopped], ev_Dst = OperationalStateStarting\<rparr>,
      \<lparr>ev_Name = EventStartDone, ev_Src = [OperationalStateStarting], ev_Dst = OperationalStateRunning\<rparr>,
      \<lparr>ev_Name = EventStop, ev_Src = [OperationalStateRunning, OperationalStateStarting],
       ev_Dst = OperationalStateStopping\<rparr>,
      \<lparr>ev_Name = EventStopDone, ev_Src = [OperationalStateStopping], ev_Dst = OperationalStateStopped\<rparr>]"

definition s6_base_config :: "string \<Rightarrow> BaseFSMInstanceConfig" where
  "s6_base_config nm =
     \<lparr>cfg_ID = nm, cfg_DesiredFSMState = OperationalStateStopped,
      cfg_OperationalStateAfterCreate = OperationalStateStopped,
      cfg_OperationalStateBeforeRemove = OperationalStateStopped,
      cfg_OperationalTransitions = s6_transitions, cfg_MaxTicksToRemainInTransientState = 20\<rparr>"

definition registerCallbacks :: "'a BaseFSMInstance_scheme \<Rightarrow> 'a BaseFSMInstance_scheme" where
  "registerCallbacks s =
     AddCallback (enter_key OperationalStateUnknown) LogCallback
       (AddCallback (enter_key OperationalStateRunning) LogCallback
         (AddCallback (enter_key OperationalStateStopped) LogCallback
           (AddCallback (enter_key OperationalStateStopping) LogCallback
             (AddCallback (enter_key OperationalStateStarting) LogCallback s))))"

definition NewS6Instance :: "string \<Rightarrow> S6FSMConfig \<Rightarrow> S6Instance" where
  "NewS6Instance s6BaseDir c =
     registerCallbacks
       (BaseFSMInstance.extend (NewBaseFSMInstance (s6_base_config (Name c)) DefaultConfig)
         (S6Instance.fields (s6_service_path s6BaseDir (Name c)) c
           \<lparr>ObservedS6ServiceConfig = zero_S6ServiceConfig, ServiceInfo = zero_ServiceInfo,
            LastStateChange = 0, DirectoryHealth = HealthUnknown\<rparr> []))"

definition invalid_desired_state :: "string \<Rightarrow> goerror" where
  "invalid_desired_state st = ErrorNew 40 (''invalid desired state: '' @ st @ ''. valid states are running and stopped'')"

definition s6_SetDesiredFSMState :: "string \<Rightarrow> S6Instance \<Rightarrow> goerror option \<times> S6Instance" where
  "s6_SetDesiredFSMState st s =
     (if st \<noteq> OperationalStateRunning \<and> st \<noteq> OperationalStateStopped
      then (Some (invalid_desired_state st), s)
      else (None, SetDesiredFSMState st s))"

definition IsStopping :: "S6Instance \<Rightarrow> bool" where
  "IsStopping s = (GetCurrentFSMState s = OperationalStateStopping)"

definition IsStopped :: "S6Instance \<Rightarrow> bool" where
  "IsStopped s = (GetCurrentFSMState s = OperationalStateStopped)"

definition WantsToBeStopped :: "S6Instance \<Rightarrow> bool" where
  "WantsToBeStopped s = (GetDesiredFSMState s = OperationalStateStopped)"

section \<open>Actions\<close>

definition s6_error :: "string \<Rightarrow> goerror" where
  "s6_error txt = ErrorNew 41 txt"

definition ErrServiceNotExist :: goerror where
  "ErrServiceNotExist = ErrorNew 42 ''service does not exist''"

definition note_call :: "s6_call \<Rightarrow> S6Instance \<Rightarrow> S6Instance" where
  "note_call c s = s\<lparr>service := service s @ [c]\<rparr>"

definition IsS6Running :: "S6Instance \<Rightarrow> bool" where
  "IsS6Running s = (Status (ServiceInfo (ObservedState s)) = ServiceUp)"

definition IsS6Stopped :: "S6Instance \<Rightarrow> bool" where
  "IsS6Stopped s = (Status (ServiceInfo (ObservedState s)) = ServiceDown)"

definition GetServicePid :: "S6Instance \<Rightarrow> int" where
  "GetServicePid s = (if IsS6Running s then Pid (ServiceInfo (ObservedState s)) else -1)"

definition GetServiceUptime :: "S6Instance \<Rightarrow> int" where
  "GetServiceUptime s = (if IsS6Running s then Uptime (ServiceInfo (ObservedState s)) else -1)"

definition GetExitCode :: "S6Instance \<Rightarrow> int" where
  "GetExitCode s = (if IsS6Running s then -1 else ExitCode (ServiceInfo (ObservedState s)))"

definition IsInDownAndReadyState :: "S6Instance \<Rightarrow> bool" where
  "IsInDownAndReadyState s = IsDownAndReady (ServiceInfo (ObservedState s))"

definition CreateInstance :: "s6_answers \<Rightarrow> S6Instance \<Rightarrow> goerror option \<times> S6Instance" where
  "CreateInstance a s =
     (let c = s6cfg_S6ServiceConfig (s6_config s);
          configEmpty = (Command c = None \<and> Env c = None \<and> ConfigFiles c = None);
          s1 = note_call (CallCreate (servicePath s) (if configEmpty then zero_S6ServiceConfig else c)) s
      in case ans_Create a of
           Some e \<Rightarrow>
             (Some (Errorf ((if configEmpty then ''failed to create service directory for ''
                             else ''failed to create service with config for '') @ GetID s @ '': '') e), s1)
         | None \<Rightarrow>
             (case ans_integrity_after_create a of
                HealthBad \<Rightarrow>
                  (Some (s6_error (''service directory integrity is bad after creation for '' @ GetID s)), s1)
              | HealthUnknown \<Rightarrow>
                  (Some (s6_error (''service directory integrity unknown after creation for '' @ GetID s
                     @ '' (temporary I/O issue, will retry)'')), s1)
              | HealthOK \<Rightarrow> (None, s1)))"

definition RemoveInstance :: "s6_answers \<Rightarrow> S6Instance \<Rightarrow> goerror option \<times> S6Instance" where
  "RemoveInstance a s =
     (if IsS6Running s
      then (Some (s6_error (''service '' @ GetID s @ '' cannot be removed while running'')), s)
      else
        let s1 = note_call (CallRemove (servicePath s)) s
        in case ans_Remove a of
             None \<Rightarrow> (None, s1)
           | Some e \<Rightarrow>
               if errors_is e ErrServiceNotExist then (None, s1)
               else (Some (Errorf (''failed to remove service directory for '' @ GetID s @ '': '') e), s1))"

definition StartInstance :: "s6_answers \<Rightarrow> S6Instance \<Rightarrow> goerror option \<times> S6Instance" where
  "StartInstance a s =
     (map_option (Errorf (''failed to start S6 service '' @ GetID s @ '': '')) (ans_Start a),
      note_call (CallStart (servicePath s)) s)"

definition StopInstance :: "s6_answers \<Rightarrow> S6Instance \<Rightarrow> goerror option \<times> S6Instance" where
  "StopInstance a s =
     (map_option (Errorf (''failed to stop S6 service '' @ GetID s @ '': '')) (ans_Stop a),
      note_call (CallStop (servicePath s)) s)"

definition RestartInstance :: "s6_answers \<Rightarrow> S6Instance \<Rightarrow> goerror option \<times> S6Instance" where
  "RestartInstance a s =
     (map_option (Errorf (''failed to restart S6 service '' @ GetID s @ '': '')) (ans_Restart a),
      note_call (CallRestart (servicePath s)) s)"

definition CheckForCreation :: "s6_answers \<Rightarrow> S6Instance \<Rightarrow> bool \<times> S6Instance" where
  "CheckForCreation a s =
     (case ans_EnsureSupervision a of Inl _ \<Rightarrow> (False, s) | Inr ready \<Rightarrow> (ready, s))"

text \<open>The service's forced removal, as \<^verbatim>\<open>Reconcile\<close> hands it to \<^verbatim>\<open>HandlePermanentError\<close>.\<close>

definition force_remove_service :: "s6_answers \<Rightarrow> S6Instance \<Rightarrow> goerror option \<times> S6Instance" where
  "force_remove_service a s = (ans_ForceRemove a, note_call (CallForceRemove (servicePath s)) s)"

definition UpdateObservedStateOfInstance :: "s6_env \<Rightarrow> S6Instance \<Rightarrow> goerror option \<times> S6Instance" where
  "UpdateObservedStateOfInstance env s =
     (let a = e_svc env;
          s1 = s\<lparr>ObservedState := (ObservedState s)\<lparr>DirectoryHealth := ans_integrity a\<rparr>\<rparr>
      in if DirectoryHealth (ObservedState s1) = HealthBad
         then (None, s1\<lparr>ObservedState := (ObservedState s1)\<lparr>
                 ServiceInfo := zero_ServiceInfo\<lparr>Status := ServiceUnknown\<rparr>,
                 ObservedS6ServiceConfig := zero_S6ServiceConfig\<rparr>\<rparr>)
         else
           (case ans_Status a of
              Inl e \<Rightarrow> (Some (Errorf ''failed to get service status: '' e), s1)
            | Inr info \<Rightarrow>
                let s2 = s1\<lparr>ObservedState := (ObservedState s1)\<lparr>ServiceInfo := info\<rparr>\<rparr>
                in (case ans_GetConfig a of
                      Inl e \<Rightarrow> (Some (Errorf ''failed to get service config: '' e), s2)
                    | Inr c \<Rightarrow>
                        let s3 = s2\<lparr>ObservedState := (ObservedState s2)\<lparr>ObservedS6ServiceConfig := c\<rparr>\<rparr>
                        in if ObservedS6ServiceConfig (ObservedState s3) \<noteq> s6cfg_S6ServiceConfig (s6_config s3)
                           then fsm_Remove (e_update_remove env) s3
                           else (None, s3))))"

section \<open>Reconciliation\<close>

definition reconcileExternalChanges :: "s6_env \<Rightarrow> S6Instance \<Rightarrow> goerror option \<times> S6Instance" where
  "reconcileExternalChanges env s =
     (case UpdateObservedStateOfInstance env s of
        (err, s1) \<Rightarrow> (map_option (Errorf ''failed to update observed state: '') err, s1))"

definition reconcileTransitionToRunning ::
  "s6_env \<Rightarrow> string \<Rightarrow> S6Instance \<Rightarrow> (goerror option \<times> bool) \<times> S6Instance"
where
  "reconcileTransitionToRunning env currentState s =
     (if currentState = OperationalStateStopped then
        (case StartInstance (e_svc env) s of
           (Some e, s1) \<Rightarrow> ((Some e, True), s1)
         | (None, s1) \<Rightarrow> (case SendEvent (e_event env) EventStart s1 of (e, s2) \<Rightarrow> ((e, True), s2)))
      else if IsInDownAndReadyState s then
        (if e_time env - LastChangedAt (ServiceInfo (ObservedState s)) < S6DownAndReadyRestartDelay
         then ((None, False), s)
         else (case RestartInstance (e_svc env) s of
                 (Some e, s1) \<Rightarrow> ((Some e, True), s1)
               | (None, s1) \<Rightarrow> ((None, False), s1)))
      else if currentState = OperationalStateStarting then
        (if IsS6Running s
         then (case SendEvent (e_event env) EventStartDone s of (e, s2) \<Rightarrow> ((e, True), s2))
         else ((None, False), s))
      else ((None, False), s))"

definition reconcileTransitionToStopped ::
  "s6_env \<Rightarrow> string \<Rightarrow> S6Instance \<Rightarrow> (goerror option \<times> bool) \<times> S6Instance"
where
  "reconcileTransitionToStopped env currentState s =
     (if currentState = OperationalStateRunning \<or> currentState = OperationalStateStarting then
        (if DirectoryHealth (ObservedState s) = HealthBad
         then (case SendEvent (e_event env) EventStop s of (e, s2) \<Rightarrow> ((e, True), s2))
         else (case StopInstance (e_svc env) s of
                 (Some e, s1) \<Rightarrow> ((Some e, True), s1)
               | (None, s1) \<Rightarrow> (case SendEvent (e_event env) EventStop s1 of (e, s2) \<Rightarrow> ((e, True), s2))))
      else if currentState = OperationalStateStopping then
        (if IsS6Stopped s \<or> DirectoryHealth (ObservedState s) = HealthBad
         then (case SendEvent (e_event env) EventStopDone s of (e, s2) \<Rightarrow> ((e, True), s2))
         else ((None, False), s))
      else ((None, False), s))"

definition reconcileOperationalStates ::
  "s6_env \<Rightarrow> string \<Rightarrow> string \<Rightarrow> S6Instance \<Rightarrow> (goerror option \<times> bool) \<times> S6Instance"
where
  "reconcileOperationalStates env currentState desiredState s =
     (if desiredState = OperationalStateRunning then reconcileTransitionToRunning env currentState s
      else if desiredState = OperationalStateStopped then reconcileTransitionToStopped env currentState s
      else ((Some (s6_error (''invalid desired state: '' @ desiredState)), False), s))"

text \<open>The callers' normal form: an error is reported with \<open>reconciled = false\<close>.\<close>

definition drop_flag_on_error :: "(goerror option \<times> bool) \<times> S6Instance \<Rightarrow> (goerror option \<times> bool) \<times> S6Instance" where
  "drop_flag_on_error r = (case r of ((Some e, _), s) \<Rightarrow> ((Some e, False), s) | ((None, b), s) \<Rightarrow> ((None, b), s))"

definition directory_corrupted :: "string \<Rightarrow> goerror" where
  "directory_corrupted st = s6_error (PermanentFailureError @ '': directory corrupted in state '' @ st)"

definition dispatch_state ::
  "s6_env \<Rightarrow> string \<Rightarrow> string \<Rightarrow> S6Instance \<Rightarrow> (goerror option \<times> bool) \<times> S6Instance"
where
  "dispatch_state env currentState desiredState s =
     (if IsLifecycleState currentState then
        drop_flag_on_error
          (ReconcileLifecycleStates (e_event env) currentState (CreateInstance (e_svc env))
             (RemoveInstance (e_svc env)) (CheckForCreation (e_svc env)) s)
      else if IsOperationalState currentState then
        drop_flag_on_error (reconcileOperationalStates env currentState desiredState s)
      else ((Some (s6_error (''invalid state: '' @ currentState)), False), s))"

definition reconcileStateTransition :: "s6_env \<Rightarrow> S6Instance \<Rightarrow> (goerror option \<times> bool) \<times> S6Instance" where
  "reconcileStateTransition env s =
     (let currentState = GetCurrentFSMState s; desiredState = GetDesiredFSMState s
      in case ans_Health (e_svc env) of
           ActionRecreate \<Rightarrow> ((Some (directory_corrupted currentState), False), s)
         | ActionWait \<Rightarrow>
             if IsOperationalState currentState then ((None, False), s)
             else dispatch_state env currentState desiredState s
         | _ \<Rightarrow> dispatch_state env currentState desiredState s)"

definition s6_in_shutdown :: "S6Instance \<Rightarrow> bool" where
  "s6_in_shutdown s =
     (DirectoryHealth (ObservedState s) = HealthBad
      \<or> IsRemoved s \<or> IsRemoving s \<or> IsStopping s \<or> IsStopped s \<or> WantsToBeStopped s)"

text \<open>The three stages of \<^verbatim>\<open>Reconcile\<close>: the retry gate, the observed state, the transition.\<close>

definition s6_transition_stage :: "s6_env \<Rightarrow> u64 \<Rightarrow> S6Instance \<Rightarrow> (goerror option \<times> bool) \<times> S6Instance" where
  "s6_transition_stage env tick s =
     (case reconcileStateTransition env s of
        ((Some e, _), s2) \<Rightarrow>
          if errors_is e ErrInstanceRemoved then ((None, False), s2)
          else (case IsDeadlineExceededAndHandle (e_rand env) e tick s2 of
                  (True, s3) \<Rightarrow> ((None, False), s3)
                | (False, s3) \<Rightarrow> ((None, False), snd (fsm_SetError (e_rand env) (Some e) tick s3)))
      | ((None, reconciled), s2) \<Rightarrow> ((None, reconciled), ResetState s2))"

definition s6_Reconcile :: "s6_env \<Rightarrow> u64 \<Rightarrow> S6Instance \<Rightarrow> (goerror option \<times> bool) \<times> S6Instance" where
  "s6_Reconcile env tick s =
     (case e_ctx_err env of
        Some ce \<Rightarrow>
          (case IsDeadlineExceededAndHandle (e_rand env) ce tick s of
             (True, s1) \<Rightarrow> ((None, False), s1)
           | (False, s1) \<Rightarrow> ((Some ce, False), s1))
      | None \<Rightarrow>
          if fsm_ShouldSkipReconcileBecauseOfError tick s then
            (let err = fsm_GetBackoffError tick s
             in if IsPermanentFailureError err
                then HandlePermanentError err s6_in_shutdown (fsm_Remove (e_perm_remove env))
                       (force_remove_service (e_svc env)) s
                else ((None, False), s))
          else
            (case reconcileExternalChanges env s of
               (Some e, s1) \<Rightarrow>
                 (case IsDeadlineExceededAndHandle (e_rand env) e tick s1 of
                    (True, s2) \<Rightarrow> ((None, False), s2)
                  | (False, s2) \<Rightarrow> s6_transition_stage env tick s2)
             | (None, s1) \<Rightarrow> s6_transition_stage env tick s1))"

section \<open>What the operations leave alone\<close>

text \<open>An operation of the base instance changes neither the S6 fields nor the desired state.\<close>

lemma fsm_SetError_more [simp]: "BaseFSMInstance.more (snd (fsm_SetError r e t s)) = BaseFSMInstance.more s"
  by (simp add: fsm_SetError_def split: prod.splits)

lemma auto_remove_callback_more:
  "BaseFSMInstance.more (auto_remove_callback send r s) = BaseFSMInstance.more (snd (send s))"
  by (simp add: auto_remove_callback_def Let_def split: prod.split option.split)

lemma fsm_Event_more:
  assumes "\<And>s. BaseFSMInstance.more (cb s) = BaseFSMInstance.more s"
  shows "BaseFSMInstance.more (snd (fsm_Event cb known env ev s)) = BaseFSMInstance.more s"
  using assms by (cases rule: fsm_Event_cases [of cb known env ev s]) simp_all

lemma SendEvent_depth_more:
  fixes s :: "'a BaseFSMInstance_scheme"
  shows "BaseFSMInstance.more (snd (SendEvent_depth k env ev s)) = BaseFSMInstance.more s"
proof (induction k arbitrary: env ev s)
  case (Suc k)
  let ?cb = "auto_remove_callback (SendEvent_depth k (\<lambda>i. env (Suc i)) LifecycleEventRemove) (env_rand (env 0))"
  have "BaseFSMInstance.more (?cb s) = BaseFSMInstance.more s" for s :: "'a BaseFSMInstance_scheme"
    by (simp add: auto_remove_callback_more Suc.IH)
  note ev = fsm_Event_more [of ?cb, OF this]
  show ?case
    unfolding SendEvent_depth.simps
    using SendEvent_with_result [of ?cb "env 0" ev s] by (elim disjE) (simp_all only: ev)
qed simp

lemma SendEvent_more [simp]: "BaseFSMInstance.more (snd (SendEvent env ev s)) = BaseFSMInstance.more s"
  by (simp add: SendEvent_def SendEvent_depth_more)

lemma fsm_Remove_more [simp]: "BaseFSMInstance.more (snd (fsm_Remove env s)) = BaseFSMInstance.more s"
  by (simp add: fsm_Remove_def SetDesiredFSMState_def AddCallback_def Let_def)

lemma fields_of_more:
  assumes "BaseFSMInstance.more s' = BaseFSMInstance.more s"
  shows "servicePath s' = servicePath s" "s6_config s' = s6_config s"
    "ObservedState s' = ObservedState s" "service s' = service s"
  using assms by (cases s; cases s'; simp)+

lemmas SendEvent_fields [simp] = fields_of_more [OF SendEvent_more]
  and fsm_Remove_fields [simp] = fields_of_more [OF fsm_Remove_more]
  and fsm_SetError_fields [simp] = fields_of_more [OF fsm_SetError_more]

lemma ResetState_simps [simp]:
  "cfg (ResetState s) = cfg s" "fsm_current (ResetState s) = fsm_current s"
  "fsm_transitions (ResetState s) = fsm_transitions s" "callbacks (ResetState s) = callbacks s"
  by (simp_all add: ResetState_def)

lemma ResetState_fields [simp]:
  "servicePath (ResetState s) = servicePath s" "s6_config (ResetState s) = s6_config s"
  "ObservedState (ResetState s) = ObservedState s" "service (ResetState s) = service s"
  by (simp_all add: ResetState_def)

section \<open>The state machine of a new instance\<close>

lemma s6_cfg_wf: "cfg_wf (s6_base_config nm)"
  by (simp add: cfg_wf_def s6_base_config_def s6_transitions_def IsLifecycleState_def)

definition s6_state :: "string \<Rightarrow> bool" where
  "s6_state st \<longleftrightarrow> IsLifecycleState st
     \<or> st \<in> {OperationalStateStopped, OperationalStateStarting, OperationalStateRunning, OperationalStateStopping}"

text \<open>What every S6 instance keeps: its transition table is the one \<^verbatim>\<open>NewS6Instance\<close> builds.\<close>

definition s6_inv :: "S6Instance \<Rightarrow> bool" where
  "s6_inv s \<longleftrightarrow> fsm_inv s
     \<and> (cfg s)\<lparr>cfg_DesiredFSMState := OperationalStateStopped\<rparr> = s6_base_config (cfg_ID (cfg s))
     \<and> GetDesiredFSMState s \<in> {OperationalStateRunning, OperationalStateStopped}
     \<and> s6_state (fsm_current s)"

lemma NewS6Instance_inv: "s6_inv (NewS6Instance base c)"
proof -
  have "fsm_inv (NewBaseFSMInstance (s6_base_config (Name c)) DefaultConfig)"
    by (rule NewBaseFSMInstance_inv [OF s6_cfg_wf])
  moreover have "cfg (NewBaseFSMInstance (s6_base_config (Name c)) DefaultConfig) = s6_base_config (Name c)"
    by (simp add: NewBaseFSMInstance_def s6_base_config_def AddCallback_def Let_def)
  moreover have "fsm_current (NewBaseFSMInstance (s6_base_config (Name c)) DefaultConfig) = LifecycleStateToBeCreated"
    by (simp add: NewBaseFSMInstance_def AddCallback_def Let_def)
  ultimately show ?thesis
    unfolding s6_inv_def fsm_inv_def
    by (auto simp add: NewS6Instance_def registerCallbacks_def AddCallback_def BaseFSMInstance.defs S6Instance.defs
        GetDesiredFSMState_def s6_base_config_def s6_state_def IsLifecycleState_def enter_key_def)
qed


lemma s6_inv_cfg:
  assumes "s6_inv s"
  shows "cfg_OperationalStateBeforeRemove (cfg s) = OperationalStateStopped"
    and "cfg_OperationalStateAfterCreate (cfg s) = OperationalStateStopped"
    and "cfg_OperationalTransitions (cfg s) = s6_transitions"
    and "cfg_MaxTicksToRemainInTransientState (cfg s) = 20"
    and "fsm_inv s"
proof -
  let ?c = "(cfg s)\<lparr>cfg_DesiredFSMState := OperationalStateStopped\<rparr>"
  have c: "?c = s6_base_config (cfg_ID (cfg s))" using assms by (simp add: s6_inv_def)
  have "cfg_OperationalStateBeforeRemove (cfg s) = cfg_OperationalStateBeforeRemove ?c"
    "cfg_OperationalStateAfterCreate (cfg s) = cfg_OperationalStateAfterCreate ?c"
    "cfg_OperationalTransitions (cfg s) = cfg_OperationalTransitions ?c"
    "cfg_MaxTicksToRemainInTransientState (cfg s) = cfg_MaxTicksToRemainInTransientState ?c"
    by simp_all
  then show "cfg_OperationalStateBeforeRemove (cfg s) = OperationalStateStopped"
    "cfg_OperationalStateAfterCreate (cfg s) = OperationalStateStopped"
    "cfg_OperationalTransitions (cfg s) = s6_transitions"
    "cfg_MaxTicksToRemainInTransientState (cfg s) = 20"
    unfolding c by (simp_all add: s6_base_config_def)
  show "fsm_inv s" using assms by (simp add: s6_inv_def)
qed

lemma s6_table:
  assumes "s6_inv s"
  shows "fsm_transitions s (n, st) =
     (if n = EventStopDone \<and> st = OperationalStateStopping then Some OperationalStateStopped
      else if n = EventStop \<and> (st = OperationalStateRunning \<or> st = OperationalStateStarting) then Some OperationalStateStopping
      else if n = EventStartDone \<and> st = OperationalStateStarting then Some OperationalStateRunning
      else if n = EventStart \<and> st = OperationalStateStopped then Some OperationalStateStarting
      else if n = LifecycleEventRemoveDone \<and> st = LifecycleStateRemoving then Some LifecycleStateRemoved
      else if n = LifecycleEventRemove \<and> st = OperationalStateStopped then Some LifecycleStateRemoving
      else if n = LifecycleEventCreateDone \<and> st = LifecycleStateCreating then Some OperationalStateStopped
      else if n = LifecycleEventCreate \<and> st = LifecycleStateToBeCreated then Some LifecycleStateCreating
      else None)"
proof -
  have "fsm_transitions s = NewFSM_transitions (lifecycle_events (cfg s) @ s6_transitions)"
    using s6_inv_cfg [OF assms] by (simp add: fsm_inv_def)
  then have "fsm_transitions s (n, st) =
      fold add_event s6_transitions (NewFSM_transitions (lifecycle_events (cfg s))) (n, st)"
    by (simp add: NewFSM_transitions_def)
  then show ?thesis
    by (simp only: s6_transitions_def fold.simps comp_apply id_apply add_event_apply lifecycle_table
        s6_inv_cfg [OF assms] EventDesc.simps list.set insert_iff empty_iff simp_thms)
qed

lemma s6_table_state:
  assumes "s6_inv s" and "fsm_transitions s (n, st) = Some d"
  shows "s6_state d"
  using assms(2) unfolding s6_table [OF assms(1)]
  by (simp only: s6_state_def IsLifecycleState_def split: if_split_asm) simp_all

text \<open>Where one event can lead: nowhere, to its target, or past it when the target is armed.\<close>

lemma SendEvent_current:
  fixes s :: "'a BaseFSMInstance_scheme"
  assumes "fsm_inv s"
  shows "fsm_current (snd (SendEvent env ev s)) \<in> {fsm_current s, LifecycleStateRemoving}
     \<or> fsm_transitions s (ev, fsm_current s) = Some (fsm_current (snd (SendEvent env ev s)))"
proof -
  let ?send = "SendEvent_depth 1 (\<lambda>i. env (Suc i)) LifecycleEventRemove"
  let ?cb = "auto_remove_callback ?send (env_rand (env 0))"
  have cb: "fsm_current (?cb t) \<in> {fsm_current t, LifecycleStateRemoving}"
    if "fsm_inv t" for t :: "'a BaseFSMInstance_scheme"
  proof -
    have none: "callbacks t ''auto_remove_once'' = None" using that by (simp add: fsm_inv_def)
    have st: "same_table t (snd (?send t))" using SendEvent_depth_inv [OF that] by blast
    let ?E = "fsm_Event (auto_remove_callback (SendEvent_depth 0 (\<lambda>i. env (Suc (Suc i))) LifecycleEventRemove)
        (env_rand (env 1))) (event_names (cfg t)) (env 1) LifecycleEventRemove t"
    have "fsm_current (snd ?E) \<in> {fsm_current t, LifecycleStateRemoving}"
      using fsm_inv_removing_callback [OF that]
      by (simp add: fsm_Event_def remove_transition [OF that] Let_def split: option.split callback.split)
    moreover have "snd (?send t) = t \<or> snd (?send t) = snd ?E"
      using SendEvent_with_result [of _ "env 1" LifecycleEventRemove t] by simp
    ultimately have "fsm_current (snd (?send t)) \<in> {fsm_current t, LifecycleStateRemoving}" by auto
    then show ?thesis using auto_remove_callback_frame(2) [where send = ?send, OF st none] by simp
  qed
  have inv1: "fsm_inv (s\<lparr>fsm_current := dst\<rparr>)" for dst using assms by (simp add: fsm_inv_def)
  let ?E = "fsm_Event ?cb (event_names (cfg s)) (env 0) ev s"
  have "fsm_current (snd ?E) \<in> {fsm_current s, LifecycleStateRemoving}
     \<or> fsm_transitions s (ev, fsm_current s) = Some (fsm_current (snd ?E))"
  proof (cases rule: fsm_Event_cases [of ?cb "event_names (cfg s)" "env 0" ev s])
    case (auto dst)
    then show ?thesis using cb [OF inv1, of dst] by auto
  qed simp_all
  moreover have "snd (SendEvent env ev s) = s \<or> snd (SendEvent env ev s) = snd ?E"
    using SendEvent_with_result [of ?cb "env 0" ev s]
    by (simp add: SendEvent_def numeral_2_eq_2 del: SendEvent_depth.simps(1))
  ultimately show ?thesis by auto
qed


subsection \<open>Every operation keeps the invariant\<close>

definition s6_keeps :: "S6Instance \<Rightarrow> S6Instance \<Rightarrow> bool" where
  "s6_keeps s s' \<longleftrightarrow> s6_inv s' \<and> keeps s s'"

lemma s6_keeps_refl: "s6_inv s \<Longrightarrow> s6_keeps s s"
  by (simp add: s6_keeps_def keeps_def s6_inv_def)

lemma s6_keeps_trans: "s6_keeps s t \<Longrightarrow> s6_keeps t u \<Longrightarrow> s6_keeps s u"
  using keeps_trans by (auto simp: s6_keeps_def)

lemma s6_keeps_inv: "s6_keeps s t \<Longrightarrow> s6_inv t"
  by (simp add: s6_keeps_def)

lemma s6_keeps_same_table:
  assumes "s6_inv s" and "same_table s s'" and "fsm_current s' = fsm_current s"
  shows "s6_keeps s s'"
  using assms keeps_same_table [of s s']
  by (auto simp: s6_keeps_def s6_inv_def keeps_def same_table_def GetDesiredFSMState_def)

lemma s6_keeps_SendEvent:
  assumes "s6_inv s"
  shows "s6_keeps s (snd (SendEvent env ev s))"
proof -
  have inv: "fsm_inv s" by (rule s6_inv_cfg(5) [OF assms])
  have k: "keeps s (snd (SendEvent env ev s))" by (rule keeps_SendEvent [OF inv])
  have "cfg (snd (SendEvent env ev s)) = cfg s"
    using SendEvent_inv [OF inv] by (auto simp: same_table_def)
  moreover have "s6_state (fsm_current (snd (SendEvent env ev s)))"
    using SendEvent_current [OF inv, of env ev] s6_table_state [OF assms] assms
    by (auto simp: s6_inv_def s6_state_def IsLifecycleState_def)
  ultimately show ?thesis using assms k
    by (auto simp: s6_keeps_def s6_inv_def keeps_def GetDesiredFSMState_def)
qed

lemma s6_keeps_SetDesired:
  assumes "s6_inv s" and "d = OperationalStateRunning \<or> d = OperationalStateStopped"
  shows "s6_keeps s (SetDesiredFSMState d s)"
  using assms keeps_SetDesired [OF s6_inv_cfg(5) [OF assms(1)], of d]
  by (auto simp: s6_keeps_def s6_inv_def keeps_def SetDesiredFSMState_def GetDesiredFSMState_def)

lemma s6_keeps_Remove:
  assumes "s6_inv s"
  shows "s6_keeps s (snd (fsm_Remove env s))"
proof -
  let ?d = "SetDesiredFSMState OperationalStateStopped s"
  have d: "s6_keeps s ?d" "s6_inv ?d" using s6_keeps_SetDesired [OF assms] by (auto dest: s6_keeps_inv)
  have c: "cfg (AddCallback k cb ?d) = cfg ?d" "fsm_current (AddCallback k cb ?d) = fsm_current ?d" for k cb
    by (simp_all add: AddCallback_def)
  have "keeps ?d (AddCallback (enter_key OperationalStateStopped) AutoRemoveCallback ?d)"
    using keeps_AddCallback_auto [OF s6_inv_cfg(5) [OF d(2)]] s6_inv_cfg(1) [OF d(2)] by simp
  then have "s6_keeps ?d (AddCallback (enter_key OperationalStateStopped) AutoRemoveCallback ?d)"
    using d(2) c by (simp add: s6_keeps_def s6_inv_def keeps_def GetDesiredFSMState_def)
  then show ?thesis
    using s6_keeps_refl [OF assms] d s6_keeps_trans [OF d(1)] s6_keeps_SendEvent [OF d(2)]
    by (simp add: fsm_Remove_def s6_inv_cfg [OF assms] Let_def)
qed

lemma s6_keeps_SetError: "s6_inv s \<Longrightarrow> s6_keeps s (snd (fsm_SetError r e t s))"
  by (rule s6_keeps_same_table) (simp_all add: same_table_def)

lemma s6_keeps_Reset: "s6_inv s \<Longrightarrow> s6_keeps s (ResetState s)"
  by (rule s6_keeps_same_table) (simp_all add: same_table_def)

lemma s6_keeps_note: "s6_inv s \<Longrightarrow> s6_keeps s (note_lifecycle_state st s)"
  by (rule s6_keeps_same_table) (simp_all add: same_table_def note_lifecycle_state_def)

lemma s6_keeps_call: "s6_inv s \<Longrightarrow> s6_keeps s (note_call c s)"
  by (rule s6_keeps_same_table) (simp_all add: same_table_def note_call_def)

lemma s6_keeps_removed: "s6_inv s \<Longrightarrow> s6_keeps s (SetCurrentFSMState LifecycleStateRemoved s)"
  using lifecycle_rank_le [of "fsm_current s"]
  by (auto simp: s6_keeps_def s6_inv_def keeps_def fsm_inv_def armed_def SetCurrentFSMState_def GetDesiredFSMState_def
      s6_state_def IsLifecycleState_def)

lemmas s6_keeps_base = s6_keeps_SendEvent s6_keeps_SetError s6_keeps_Reset s6_keeps_note s6_keeps_call
  s6_keeps_Remove s6_keeps_removed s6_keeps_refl

lemma s6_keeps_actions:
  assumes "s6_inv s"
  shows "s6_keeps s (snd (CreateInstance a s))" and "s6_keeps s (snd (RemoveInstance a s))"
    and "s6_keeps s (snd (StartInstance a s))" and "s6_keeps s (snd (StopInstance a s))"
    and "s6_keeps s (snd (RestartInstance a s))" and "s6_keeps s (snd (CheckForCreation a s))"
    and "s6_keeps s (snd (force_remove_service a s))"
  using assms s6_keeps_refl [OF assms] s6_keeps_call [OF assms]
  by (simp_all add: CreateInstance_def RemoveInstance_def StartInstance_def StopInstance_def RestartInstance_def
      CheckForCreation_def force_remove_service_def Let_def split: option.split HealthStatus.split sum.split)

lemma s6_keeps_observed: "s6_inv s \<Longrightarrow> s6_keeps s (s\<lparr>ObservedState := ob\<rparr>)"
  by (rule s6_keeps_same_table) (simp_all add: same_table_def)

lemma s6_keeps_update:
  assumes "s6_inv s"
  shows "s6_keeps s (snd (UpdateObservedStateOfInstance env s))"
proof -
  have ob: "s6_keeps s (s\<lparr>ObservedState := ob\<rparr>)" for ob by (rule s6_keeps_observed [OF assms])
  then have "s6_keeps s (snd (fsm_Remove e (s\<lparr>ObservedState := ob\<rparr>)))" for e ob
    by (rule s6_keeps_trans) (rule s6_keeps_Remove [OF s6_keeps_inv [OF ob]])
  with ob show ?thesis
    by (simp add: UpdateObservedStateOfInstance_def Let_def split: sum.split)
qed

lemma s6_keeps_send:
  assumes "s6_keeps s t"
  shows "s6_keeps s (snd (SendEvent env ev t))"
  by (rule s6_keeps_trans [OF assms s6_keeps_SendEvent [OF s6_keeps_inv [OF assms]]])

lemma snd_case_send:
  "snd (case SendEvent env ev t of (e, u) \<Rightarrow> (f e, u)) = snd (SendEvent env ev t)"
  by (simp split: prod.split)

lemma s6_keeps_lifecycle:
  assumes "s6_inv s"
  shows "s6_keeps s (snd (ReconcileLifecycleStates env st (CreateInstance a) (RemoveInstance a) (CheckForCreation a) s))"
proof -
  define n where "n = note_lifecycle_state st s"
  have n: "s6_keeps s n" "s6_inv n" using s6_keeps_note [OF assms] by (auto simp: n_def dest: s6_keeps_inv)
  obtain e1 t1 e2 t2 b t3 where eqs: "CreateInstance a n = (e1, t1)" "RemoveInstance a n = (e2, t2)"
    "CheckForCreation a n = (b, t3)" by (metis surj_pair)
  then have "s6_keeps s t1" "s6_keeps s t2" "s6_keeps s t3"
    using s6_keeps_trans [OF n(1)] s6_keeps_actions(1,2,6) [OF n(2), of a] by simp_all
  with n(1) s6_keeps_send show ?thesis
    unfolding ReconcileLifecycleStates_def Let_def n_def [symmetric]
    by (cases e1; cases e2; cases b) (simp_all add: eqs snd_case_send)
qed

lemma s6_keeps_transition:
  assumes "s6_inv s"
  shows "s6_keeps s (snd (reconcileStateTransition env s))"
proof -
  note r = s6_keeps_refl [OF assms]
  obtain e1 t1 e2 t2 e3 t3 where eqs: "StartInstance (e_svc env) s = (e1, t1)" "StopInstance (e_svc env) s = (e2, t2)"
    "RestartInstance (e_svc env) s = (e3, t3)" by (metis surj_pair)
  then have "s6_keeps s t1" "s6_keeps s t2" "s6_keeps s t3"
    using s6_keeps_actions(3,4,5) [OF assms, of "e_svc env"] by simp_all
  with r s6_keeps_send have "s6_keeps s (snd (reconcileOperationalStates env c d s))" for c d
    by (cases e1; cases e2; cases e3)
      (simp_all add: reconcileOperationalStates_def reconcileTransitionToRunning_def
        reconcileTransitionToStopped_def eqs snd_case_send)
  moreover have "snd (drop_flag_on_error p) = snd p" for p
    by (simp add: drop_flag_on_error_def split: prod.split option.split)
  ultimately show ?thesis
    using r s6_keeps_lifecycle [OF assms]
    by (simp add: reconcileStateTransition_def dispatch_state_def Let_def split: RecoveryAction.split)
qed

lemma s6_keeps_stage:
  assumes "s6_inv s"
  shows "s6_keeps s (snd (s6_transition_stage env tick s))"
proof -
  obtain e b t where eq: "reconcileStateTransition env s = ((e, b), t)" by (metis surj_pair)
  then have t: "s6_keeps s t" using s6_keeps_transition [OF assms, of env] by simp
  have "s6_keeps s (ResetState t)" "s6_keeps s (snd (fsm_SetError r x k t))" for r x k
    using s6_keeps_trans [OF t] s6_keeps_Reset s6_keeps_SetError s6_keeps_inv [OF t] by blast+
  with t show ?thesis
    by (cases e) (simp_all add: s6_transition_stage_def eq IsDeadlineExceededAndHandle_def)
qed

lemma s6_keeps_permanent:
  assumes "s6_inv s"
  shows "s6_keeps s (snd (HandlePermanentError err sh (fsm_Remove env) (force_remove_service a) s))"
proof -
  have f: "s6_keeps t (snd (force_remove_service a t))"
    and g: "s6_keeps t (SetCurrentFSMState LifecycleStateRemoved (snd (force_remove_service a t)))" if "s6_inv t" for t
    using s6_keeps_actions(7) [OF that, of a] s6_keeps_trans s6_keeps_removed s6_keeps_inv by blast+
  have r: "s6_keeps s (snd (fsm_Remove env (ResetState s)))"
    using s6_keeps_trans [OF s6_keeps_Reset [OF assms]] s6_keeps_Remove s6_keeps_inv [OF s6_keeps_Reset [OF assms]]
    by blast
  let ?t = "snd (fsm_Remove env (ResetState s))"
  have "s6_keeps s (snd (force_remove_service a ?t))"
    "s6_keeps s (SetCurrentFSMState LifecycleStateRemoved (snd (force_remove_service a ?t)))"
    using s6_keeps_trans [OF r] f [OF s6_keeps_inv [OF r]] g [OF s6_keeps_inv [OF r]] by blast+
  with r f [OF assms] g [OF assms] show ?thesis
    by (auto simp: HandlePermanentError_def split: prod.split option.split)
qed

lemma s6_keeps_Reconcile:
  assumes "s6_inv s"
  shows "s6_keeps s (snd (s6_Reconcile env tick s))"
proof -
  obtain e t where eq: "reconcileExternalChanges env s = (e, t)" by fastforce
  have t: "s6_keeps s t"
    using s6_keeps_update [OF assms, of env] eq by (auto simp: reconcileExternalChanges_def split: prod.splits)
  have "s6_keeps s (snd (s6_transition_stage env tick t))"
    using s6_keeps_trans [OF t s6_keeps_stage [OF s6_keeps_inv [OF t]]] .
  moreover have "s6_keeps s (snd (fsm_SetError r x k t))" for r x k
    using s6_keeps_trans [OF t s6_keeps_SetError [OF s6_keeps_inv [OF t]]] .
  ultimately show ?thesis
    using s6_keeps_refl [OF assms] s6_keeps_SetError [OF assms] s6_keeps_permanent [OF assms]
    by (cases e) (auto simp: s6_Reconcile_def eq IsDeadlineExceededAndHandle_def Let_def split: option.split)
qed

end
