(* ===== verification/S6_Runs.thy ===== *)
theory S6_Runs
  imports S6_FSM
begin

text \<open>
  What the S6 state machine does over time: the states an instance can reach, the discipline of
  its calls to the service, how long bring-up and removal take with a service that cooperates, and
  how a corrupted service directory is recovered.
\<close>

section \<open>Reachable instances\<close>

text \<open>
  What the manager does to an instance: reconcile it, set its desired state, ask for its removal,
  store a new configuration.
\<close>

inductive s6_step :: "S6Instance \<Rightarrow> S6Instance \<Rightarrow> bool" where
  reconcile: "s6_step s (snd (s6_Reconcile env tick s))"
| set_desired: "s6_step s (snd (s6_SetDesiredFSMState d s))"
| remove: "s6_step s (snd (fsm_Remove env s))"
| set_config: "s6_step s (s\<lparr>s6_config := (s6_config s)\<lparr>s6cfg_S6ServiceConfig := c\<rparr>\<rparr>)"

inductive s6_reachable :: "string \<Rightarrow> S6FSMConfig \<Rightarrow> S6Instance \<Rightarrow> bool" for base c where
  start: "s6_reachable base c (NewS6Instance base c)"
| step: "s6_reachable base c s \<Longrightarrow> s6_step s t \<Longrightarrow> s6_reachable base c t"

lemma s6_keeps_step: "s6_step s t \<Longrightarrow> s6_inv s \<Longrightarrow> s6_keeps s t"
proof (induction rule: s6_step.induct)
  case (set_desired s d)
  then show ?case
    using s6_keeps_SetDesired [of s d] s6_keeps_refl [of s] by (simp add: s6_SetDesiredFSMState_def)
next
  case (set_config s c)
  then show ?case by (rule s6_keeps_same_table) (simp_all add: same_table_def)
qed (simp_all add: s6_keeps_Reconcile s6_keeps_Remove)

lemma s6_reachable_inv: "s6_reachable base c s \<Longrightarrow> s6_inv s"
  by (induction rule: s6_reachable.induct) (auto intro: NewS6Instance_inv s6_keeps_inv s6_keeps_step)

section \<open>Calls to the service\<close>

text \<open>When the state machine may call the service, in terms of the state it has just observed.\<close>

definition transition_call :: "s6_env \<Rightarrow> S6Instance \<Rightarrow> s6_call \<Rightarrow> bool" where
  "transition_call env s call =
     (let st = fsm_current s; want = GetDesiredFSMState s
      in ans_Health (e_svc env) \<noteq> ActionRecreate \<and>
         (case call of
            CallForceRemove p \<Rightarrow> False
          | CallCreate p c \<Rightarrow> p = servicePath s \<and> st = LifecycleStateToBeCreated
          | CallRemove p \<Rightarrow> p = servicePath s \<and> st = LifecycleStateRemoving \<and> \<not> IsS6Running s
          | CallStart p \<Rightarrow> p = servicePath s \<and> st = OperationalStateStopped \<and> want = OperationalStateRunning
          | CallStop p \<Rightarrow> p = servicePath s \<and> (st = OperationalStateRunning \<or> st = OperationalStateStarting)
              \<and> want = OperationalStateStopped \<and> DirectoryHealth (ObservedState s) \<noteq> HealthBad
          | CallRestart p \<Rightarrow> p = servicePath s \<and> IsOperationalState st \<and> st \<noteq> OperationalStateStopped
              \<and> want = OperationalStateRunning \<and> IsInDownAndReadyState s
              \<and> S6DownAndReadyRestartDelay \<le> e_time env - LastChangedAt (ServiceInfo (ObservedState s))))"

definition call_allowed :: "s6_env \<Rightarrow> u64 \<Rightarrow> S6Instance \<Rightarrow> s6_call \<Rightarrow> bool" where
  "call_allowed env tick s call =
     (e_ctx_err env = None \<and>
      (if fsm_ShouldSkipReconcileBecauseOfError tick s
       then call = CallForceRemove (servicePath s) \<and> IsPermanentFailureError (fsm_GetBackoffError tick s)
       else transition_call env (snd (reconcileExternalChanges env s)) call))"

lemma note_fields [simp]:
  "service (note_lifecycle_state st s) = service s" "servicePath (note_lifecycle_state st s) = servicePath s"
  "ObservedState (note_lifecycle_state st s) = ObservedState s"
  "service (note_call c s) = service s @ [c]" "IsS6Running (note_lifecycle_state st s) = IsS6Running s"
  by (simp_all add: note_lifecycle_state_def note_call_def IsS6Running_def)

text \<open>One call at most, and one of the given calls.\<close>

definition calls :: "(s6_call \<Rightarrow> bool) \<Rightarrow> S6Instance \<Rightarrow> S6Instance \<Rightarrow> bool" where
  "calls P s s' \<longleftrightarrow> service s' = service s \<or> (\<exists>c. P c \<and> service s' = service s @ [c])"

lemma calls_refl [simp]: "calls P s s"
  by (simp add: calls_def)

lemma calls_send: "calls P s (snd (SendEvent env ev t)) = calls P s t"
  by (simp add: calls_def)

lemma calls_actions:
  shows "calls (\<lambda>c. \<exists>x. c = CallCreate (servicePath s) x) s (snd (CreateInstance a s))"
    and "calls (\<lambda>c. c = CallRemove (servicePath s) \<and> \<not> IsS6Running s) s (snd (RemoveInstance a s))"
    and "calls (\<lambda>c. c = CallStart (servicePath s)) s (snd (StartInstance a s))"
    and "calls (\<lambda>c. c = CallStop (servicePath s)) s (snd (StopInstance a s))"
    and "calls (\<lambda>c. c = CallRestart (servicePath s)) s (snd (RestartInstance a s))"
    and "calls (\<lambda>c. c = CallForceRemove (servicePath s)) s (snd (force_remove_service a s))"
    and "snd (CheckForCreation a s) = s"
  by (auto simp: calls_def CreateInstance_def RemoveInstance_def StartInstance_def StopInstance_def
      RestartInstance_def force_remove_service_def CheckForCreation_def Let_def
      split: option.split HealthStatus.split sum.split)

lemma calls_lifecycle:
  "calls (\<lambda>c. case c of CallCreate p _ \<Rightarrow> p = servicePath s \<and> st = LifecycleStateToBeCreated
      | CallRemove p \<Rightarrow> p = servicePath s \<and> st = LifecycleStateRemoving \<and> \<not> IsS6Running s | _ \<Rightarrow> False)
     s (snd (ReconcileLifecycleStates env st (CreateInstance a) (RemoveInstance a) (CheckForCreation a) s))"
    (is "calls ?P _ _")
proof -
  define n where "n = note_lifecycle_state st s"
  have f: "service n = service s" "servicePath n = servicePath s" "IsS6Running n = IsS6Running s"
    by (simp_all add: n_def)
  obtain e1 t1 e2 t2 b t3 where eqs: "CreateInstance a n = (e1, t1)" "RemoveInstance a n = (e2, t2)"
    "CheckForCreation a n = (b, t3)" by (metis surj_pair)
  have "st = LifecycleStateToBeCreated \<Longrightarrow> calls ?P s t1" "st = LifecycleStateRemoving \<Longrightarrow> calls ?P s t2"
    using calls_actions(1) [of n a] calls_actions(2) [of n a] f by (auto simp: eqs calls_def)
  moreover have "calls Q s n" "calls Q s t3" for Q
    using f calls_actions(7) [of a n] by (simp_all add: calls_def eqs)
  ultimately show ?thesis
    unfolding ReconcileLifecycleStates_def Let_def n_def [symmetric]
    by (cases e1; cases e2; cases b) (simp_all add: eqs snd_case_send calls_send)
qed


lemma calls_mono: "calls P s s' \<Longrightarrow> (\<And>c. P c \<Longrightarrow> Q c) \<Longrightarrow> calls Q s s'"
  by (auto simp: calls_def)

lemma calls_operational:
  "calls (\<lambda>c. case c of CallStart p \<Rightarrow> p = servicePath s \<and> st = OperationalStateStopped \<and> want = OperationalStateRunning
      | CallStop p \<Rightarrow> p = servicePath s \<and> (st = OperationalStateRunning \<or> st = OperationalStateStarting)
          \<and> want = OperationalStateStopped \<and> DirectoryHealth (ObservedState s) \<noteq> HealthBad
      | CallRestart p \<Rightarrow> p = servicePath s \<and> st \<noteq> OperationalStateStopped \<and> want = OperationalStateRunning
          \<and> IsInDownAndReadyState s
          \<and> S6DownAndReadyRestartDelay \<le> e_time env - LastChangedAt (ServiceInfo (ObservedState s))
      | _ \<Rightarrow> False) s (snd (reconcileOperationalStates env st want s))"
    (is "calls ?P _ _")
proof -
  obtain e1 t1 e2 t2 e3 t3 where eqs: "StartInstance (e_svc env) s = (e1, t1)" "StopInstance (e_svc env) s = (e2, t2)"
    "RestartInstance (e_svc env) s = (e3, t3)" by (metis surj_pair)
  then have "calls (\<lambda>c. c = CallStart (servicePath s)) s t1" "calls (\<lambda>c. c = CallStop (servicePath s)) s t2"
    "calls (\<lambda>c. c = CallRestart (servicePath s)) s t3"
    using calls_actions(3-5) [of s "e_svc env"] by simp_all
  then have "?P (CallStart (servicePath s)) \<Longrightarrow> calls ?P s t1" "?P (CallStop (servicePath s)) \<Longrightarrow> calls ?P s t2"
    "?P (CallRestart (servicePath s)) \<Longrightarrow> calls ?P s t3" by (blast intro: calls_mono)+
  then show ?thesis
    by (cases e1; cases e2; cases e3)
      (simp_all add: reconcileOperationalStates_def reconcileTransitionToRunning_def
        reconcileTransitionToStopped_def eqs snd_case_send calls_send)
qed

lemma calls_transition: "calls (transition_call env s) s (snd (reconcileStateTransition env s))"
proof -
  let ?st = "GetCurrentFSMState s"
  have d: "snd (drop_flag_on_error p) = snd p" for p
    by (simp add: drop_flag_on_error_def split: prod.split option.split)
  have "calls (transition_call env s) s
      (snd (ReconcileLifecycleStates (e_event env) ?st (CreateInstance (e_svc env)) (RemoveInstance (e_svc env))
        (CheckForCreation (e_svc env)) s))" if "ans_Health (e_svc env) \<noteq> ActionRecreate"
    by (rule calls_mono [OF calls_lifecycle])
      (use that in \<open>auto simp: transition_call_def GetCurrentFSMState_def split: s6_call.splits\<close>)
  moreover have "calls (transition_call env s) s (snd (reconcileOperationalStates env ?st (GetDesiredFSMState s) s))"
    if "ans_Health (e_svc env) \<noteq> ActionRecreate" "IsOperationalState ?st"
    by (rule calls_mono [OF calls_operational])
      (use that in \<open>auto simp: transition_call_def GetCurrentFSMState_def Let_def split: s6_call.splits\<close>)
  ultimately show ?thesis
    by (simp add: reconcileStateTransition_def dispatch_state_def Let_def d split: RecoveryAction.split)
qed

lemma update_fields [simp]:
  "service (snd (reconcileExternalChanges env s)) = service s"
  "servicePath (snd (reconcileExternalChanges env s)) = servicePath s"
proof -
  have "snd (reconcileExternalChanges env s) = snd (UpdateObservedStateOfInstance env s)"
    by (simp add: reconcileExternalChanges_def split: prod.split)
  moreover have "service (snd (UpdateObservedStateOfInstance env s)) = service s"
    "servicePath (snd (UpdateObservedStateOfInstance env s)) = servicePath s"
    by (simp_all add: UpdateObservedStateOfInstance_def Let_def split: sum.split)
  ultimately show "service (snd (reconcileExternalChanges env s)) = service s"
    "servicePath (snd (reconcileExternalChanges env s)) = servicePath s" by simp_all
qed

lemma calls_stage: "calls (transition_call env s) s (snd (s6_transition_stage env tick s))"
proof -
  obtain e b t where eq: "reconcileStateTransition env s = ((e, b), t)" by (metis surj_pair)
  then have "calls (transition_call env s) s t" using calls_transition [of env s] by simp
  then show ?thesis
    by (cases e) (simp_all add: s6_transition_stage_def eq IsDeadlineExceededAndHandle_def calls_def)
qed

lemma calls_permanent:
  "calls (\<lambda>c. c = CallForceRemove (servicePath s)) s
     (snd (HandlePermanentError err sh (fsm_Remove env) (force_remove_service a) s))"
proof -
  obtain e t where r: "fsm_Remove env (ResetState s) = (e, t)" by fastforce
  then have f: "service t = service s" "servicePath t = servicePath s"
    using fsm_Remove_fields(1,4) [of env "ResetState s"] by simp_all
  show ?thesis
    by (cases e)
      (auto simp: HandlePermanentError_def r f calls_def force_remove_service_def SetCurrentFSMState_def
        split: option.split)
qed

lemma calls_Reconcile: "calls (call_allowed env tick s) s (snd (s6_Reconcile env tick s))"
proof -
  let ?o = "snd (reconcileExternalChanges env s)"
  have st: "calls (transition_call env ?o) s (snd (s6_transition_stage env tick ?o))"
    using calls_stage [of env ?o tick] by (simp add: calls_def)
  have [simp]: "calls P s (snd (fsm_SetError r x k s))" "calls P s (snd (fsm_SetError r x k ?o))" for P r x k
    by (simp_all add: calls_def)
  obtain e t where eq: "reconcileExternalChanges env s = (e, t)" by fastforce
  have t: "service t = service s" using update_fields(1) [of env s] eq by simp
  show ?thesis
    using st t calls_permanent [of s] unfolding s6_Reconcile_def call_allowed_def
    by (cases e) (auto simp: eq IsDeadlineExceededAndHandle_def Let_def calls_def split: option.split)
qed

section \<open>A pass with a service that cooperates\<close>

text \<open>
  The service's calls succeed, the directory is intact and holds the configuration of the
  instance, the status can be read, and no context expires.
\<close>

definition cooperative :: "S6ServiceConfig \<Rightarrow> ServiceStatus \<Rightarrow> s6_env \<Rightarrow> bool" where
  "cooperative c st env \<longleftrightarrow> e_ctx_err env = None \<and> env_good (e_event env 0) \<and> env_good (e_event env 1)
     \<and> (let a = e_svc env in ans_Health a = ActionOK \<and> ans_integrity a = HealthOK \<and> ans_GetConfig a = Inr c
          \<and> (case ans_Status a of Inl _ \<Rightarrow> False | Inr info \<Rightarrow> Status info = st \<and> \<not> IsDownAndReady info)
          \<and> ans_Create a = None \<and> ans_integrity_after_create a = HealthOK \<and> ans_EnsureSupervision a = Inr True
          \<and> ans_Start a = None \<and> ans_Stop a = None \<and> ans_Remove a = None)"

text \<open>No error is pending, as after every successful pass.\<close>

definition clear :: "S6Instance \<Rightarrow> bool" where
  "clear s \<longleftrightarrow> lastError (backoffManager s) = None \<and> \<not> permanentFailure (backoffManager s)"

lemma clear_no_skip: "clear s \<Longrightarrow> \<not> fsm_ShouldSkipReconcileBecauseOfError tick s"
  by (simp add: clear_def fsm_ShouldSkipReconcileBecauseOfError_def ShouldSkipOperation_def)

lemma clear_Reset [simp]: "clear (ResetState s)"
  by (simp add: clear_def ResetState_def Reset_def)

definition observe :: "s6_env \<Rightarrow> S6Instance \<Rightarrow> S6Instance" where
  "observe env s = snd (reconcileExternalChanges env s)"

lemma cooperative_update:
  assumes "cooperative c st env" and "s6cfg_S6ServiceConfig (s6_config s) = c"
  shows "fst (reconcileExternalChanges env s) = None"
    and "\<exists>ob. observe env s = s\<lparr>ObservedState := ob\<rparr> \<and> Status (ServiceInfo ob) = st
      \<and> \<not> IsDownAndReady (ServiceInfo ob) \<and> DirectoryHealth ob = HealthOK"
  using assms
  by (auto simp: cooperative_def reconcileExternalChanges_def UpdateObservedStateOfInstance_def observe_def Let_def
      split: sum.splits)

lemma cooperative_pass:
  assumes "cooperative c st env" and "s6cfg_S6ServiceConfig (s6_config s) = c" and "clear s"
    and "reconcileStateTransition env (observe env s) = ((None, b), t)"
  shows "s6_Reconcile env tick s = ((None, b), ResetState t)"
proof -
  have "reconcileExternalChanges env s = (None, observe env s)"
    using cooperative_update(1) [OF assms(1,2)] by (metis observe_def prod.collapse)
  then show ?thesis
    using assms(1,4) clear_no_skip [OF assms(3)]
    by (simp add: s6_Reconcile_def cooperative_def s6_transition_stage_def)
qed

lemma SendEvent_plain:
  assumes "env_good (env 0)" and "fsm_transitions s (ev, fsm_current s) = Some dst" and "fsm_current s \<noteq> dst"
    and "callbacks s (enter_key dst) \<noteq> Some AutoRemoveCallback"
  shows "SendEvent env ev s = (None, s\<lparr>fsm_current := dst\<rparr>)"
  using SendEvent_with_good [OF assms(1-3)] assms(4)
  by (simp add: SendEvent_def numeral_2_eq_2 del: SendEvent_depth.simps(1))

text \<open>The only state whose entry can trigger a removal is \<^verbatim>\<open>stopped\<close>.\<close>

lemma s6_callback:
  assumes "s6_inv s" and "st \<noteq> OperationalStateStopped \<or> \<not> armed s"
  shows "callbacks s (enter_key st) \<noteq> Some AutoRemoveCallback"
proof
  assume c: "callbacks s (enter_key st) = Some AutoRemoveCallback"
  then have "enter_key st \<in> auto_keys (callbacks s)" by (simp add: auto_keys_def)
  then have "st = OperationalStateStopped"
    using s6_inv_cfg(1,5) [OF assms(1)] by (auto simp: fsm_inv_def)
  with c assms(2) s6_inv_cfg(1) [OF assms(1)] show False by (simp add: armed_def)
qed


text \<open>A pass that ends in a state after the given calls and leaves the rest of the instance alone.\<close>

definition advanced :: "S6Instance \<Rightarrow> string \<Rightarrow> s6_call list \<Rightarrow> S6Instance \<Rightarrow> bool" where
  "advanced s st cs s' \<longleftrightarrow> s6_inv s' \<and> clear s' \<and> fsm_current s' = st \<and> service s' = service s @ cs
     \<and> servicePath s' = servicePath s \<and> s6_config s' = s6_config s \<and> cfg s' = cfg s \<and> callbacks s' = callbacks s"

lemma advancedI:
  assumes "cooperative c ss env" and "s6cfg_S6ServiceConfig (s6_config s) = c" and "clear s" and "s6_inv s"
    and "reconcileStateTransition env (observe env s) = ((None, b), t)"
    and "fsm_current t = st" and "service t = service s @ cs" and "servicePath t = servicePath s"
    and "s6_config t = s6_config s" and "cfg t = cfg s" and "callbacks t = callbacks s"
  shows "advanced s st cs (snd (s6_Reconcile env tick s))"
  using cooperative_pass [OF assms(1-3,5), of tick] s6_keeps_Reconcile [OF assms(4), of env tick] assms(6-)
  by (simp add: advanced_def s6_keeps_def)

definition created_config :: "S6ServiceConfig \<Rightarrow> S6ServiceConfig" where
  "created_config c = (if Command c = None \<and> Env c = None \<and> ConfigFiles c = None then zero_S6ServiceConfig else c)"

text \<open>The event that ends a pass, given what the action before it did to the instance.\<close>

lemma send_advances:
  assumes "cooperative c ss env" and "s6_inv t" and "fsm_transitions t (ev, fsm_current t) = Some st"
    and "fsm_current t \<noteq> st" and "st \<noteq> OperationalStateStopped \<or> \<not> armed t"
  shows "SendEvent (e_event env) ev t = (None, t\<lparr>fsm_current := st\<rparr>)"
  using assms by (intro SendEvent_plain s6_callback) (simp_all add: cooperative_def)

lemmas transition_defs = reconcileStateTransition_def dispatch_state_def drop_flag_on_error_def
  reconcileOperationalStates_def reconcileTransitionToRunning_def reconcileTransitionToStopped_def
  GetCurrentFSMState_def IsLifecycleState_def IsOperationalState_def

text \<open>An instance with no pending error, in a pass in which its service cooperates.\<close>

definition ready :: "ServiceStatus \<Rightarrow> s6_env \<Rightarrow> S6Instance \<Rightarrow> bool" where
  "ready ss env s \<longleftrightarrow> cooperative (s6cfg_S6ServiceConfig (s6_config s)) ss env \<and> clear s \<and> s6_inv s"

lemma ready_observe:
  assumes "ready ss env s"
  obtains ob where "observe env s = s\<lparr>ObservedState := ob\<rparr>" "Status (ServiceInfo ob) = ss"
    "\<not> IsDownAndReady (ServiceInfo ob)" "DirectoryHealth ob = HealthOK" "s6_inv (observe env s)"
proof -
  from assms have coop: "cooperative (s6cfg_S6ServiceConfig (s6_config s)) ss env" and i: "s6_inv s"
    by (simp_all add: ready_def)
  from cooperative_update(2) [OF coop refl] obtain ob where ob: "observe env s = s\<lparr>ObservedState := ob\<rparr>"
    "Status (ServiceInfo ob) = ss" "\<not> IsDownAndReady (ServiceInfo ob)" "DirectoryHealth ob = HealthOK" by blast
  moreover have "s6_inv (observe env s)" unfolding ob by (rule s6_keeps_inv [OF s6_keeps_observed [OF i]])
  ultimately show ?thesis using that by blast
qed

lemma ready_advances:
  assumes "ready ss env s" and "reconcileStateTransition env (observe env s) = ((None, b), t)"
    and "fsm_current t = st" and "service t = service s @ cs" and "servicePath t = servicePath s"
    and "s6_config t = s6_config s" and "cfg t = cfg s" and "callbacks t = callbacks s"
  shows "advanced s st cs (snd (s6_Reconcile env tick s))"
  using assms(1) unfolding ready_def by (elim conjE) (rule advancedI [OF _ refl _ _ assms(2-)])

lemma ready_send:
  assumes "ready ss env s" and "s6_inv t" and "fsm_transitions t (ev, fsm_current t) = Some st"
    and "fsm_current t \<noteq> st" and "st \<noteq> OperationalStateStopped \<or> \<not> armed t"
  shows "SendEvent (e_event env) ev t = (None, t\<lparr>fsm_current := st\<rparr>)"
  using assms(1) unfolding ready_def by (elim conjE) (rule send_advances [OF _ assms(2-)])

lemma ready_answers:
  assumes "ready ss env s"
  shows "ans_Health (e_svc env) = ActionOK" "ans_Create (e_svc env) = None" "ans_integrity_after_create (e_svc env) = HealthOK"
    "ans_EnsureSupervision (e_svc env) = Inr True" "ans_Start (e_svc env) = None" "ans_Stop (e_svc env) = None"
    "ans_Remove (e_svc env) = None" "env_good (e_event env 0)" "env_good (e_event env 1)"
  using assms by (simp_all add: ready_def cooperative_def Let_def)

lemmas pass_defs = transition_defs ReconcileLifecycleStates_def Let_def

lemma pass_create:
  assumes r: "ready ss env s" and cur: "fsm_current s = LifecycleStateToBeCreated"
  shows "advanced s LifecycleStateCreating
     [CallCreate (servicePath s) (created_config (s6cfg_S6ServiceConfig (s6_config s)))] (snd (s6_Reconcile env tick s))"
proof -
  obtain ob where o: "observe env s = s\<lparr>ObservedState := ob\<rparr>" "s6_inv (observe env s)" by (rule ready_observe [OF r]) blast
  define n where "n = note_lifecycle_state LifecycleStateToBeCreated (observe env s)"
  define t where "t = note_call (CallCreate (servicePath s) (created_config (s6cfg_S6ServiceConfig (s6_config s)))) n"
  have i: "s6_inv t" unfolding t_def n_def
    by (intro s6_keeps_inv [OF s6_keeps_call] s6_keeps_inv [OF s6_keeps_note] o(2))
  have ct: "fsm_current t = LifecycleStateToBeCreated"
    using cur by (simp add: t_def n_def o(1) note_call_def note_lifecycle_state_def)
  have "CreateInstance (e_svc env) n = (None, t)"
    using ready_answers [OF r]
    by (simp add: CreateInstance_def created_config_def t_def n_def o(1) note_lifecycle_state_def Let_def)
  moreover have "SendEvent (e_event env) LifecycleEventCreate t = (None, t\<lparr>fsm_current := LifecycleStateCreating\<rparr>)"
    by (rule ready_send [OF r i]) (simp_all add: s6_table [OF i] ct)
  ultimately have "reconcileStateTransition env (observe env s) = ((None, True), t\<lparr>fsm_current := LifecycleStateCreating\<rparr>)"
    using ready_answers(1) [OF r] cur by (simp add: pass_defs o(1) n_def)
  then show ?thesis
    by (rule ready_advances [OF r]) (simp_all add: t_def n_def o(1) note_call_def note_lifecycle_state_def)
qed

lemma pass_create_done:
  assumes r: "ready ss env s" and cur: "fsm_current s = LifecycleStateCreating" and "\<not> armed s"
  shows "advanced s OperationalStateStopped [] (snd (s6_Reconcile env tick s))"
proof -
  obtain ob where o: "observe env s = s\<lparr>ObservedState := ob\<rparr>" "s6_inv (observe env s)" by (rule ready_observe [OF r]) blast
  define t where "t = note_lifecycle_state LifecycleStateCreating (observe env s)"
  have i: "s6_inv t" unfolding t_def by (intro s6_keeps_inv [OF s6_keeps_note] o(2))
  have ct: "fsm_current t = LifecycleStateCreating" using cur by (simp add: t_def o(1) note_lifecycle_state_def)
  have "\<not> armed t" using assms(3) by (simp add: t_def armed_def o(1) note_lifecycle_state_def)
  then have "SendEvent (e_event env) LifecycleEventCreateDone t = (None, t\<lparr>fsm_current := OperationalStateStopped\<rparr>)"
    by (intro ready_send [OF r i]) (simp_all add: s6_table [OF i] ct)
  then have "reconcileStateTransition env (observe env s) = ((None, True), t\<lparr>fsm_current := OperationalStateStopped\<rparr>)"
    using ready_answers(1,4) [OF r] cur by (simp add: pass_defs o(1) t_def CheckForCreation_def)
  then show ?thesis
    by (rule ready_advances [OF r]) (simp_all add: t_def o(1) note_lifecycle_state_def)
qed

lemma pass_start:
  assumes r: "ready ss env s" and cur: "fsm_current s = OperationalStateStopped"
    and want: "GetDesiredFSMState s = OperationalStateRunning"
  shows "advanced s OperationalStateStarting [CallStart (servicePath s)] (snd (s6_Reconcile env tick s))"
proof -
  obtain ob where o: "observe env s = s\<lparr>ObservedState := ob\<rparr>" "s6_inv (observe env s)" by (rule ready_observe [OF r]) blast
  define t where "t = note_call (CallStart (servicePath s)) (observe env s)"
  have i: "s6_inv t" unfolding t_def by (intro s6_keeps_inv [OF s6_keeps_call] o(2))
  have ct: "fsm_current t = OperationalStateStopped" using cur by (simp add: t_def o(1) note_call_def)
  have "SendEvent (e_event env) EventStart t = (None, t\<lparr>fsm_current := OperationalStateStarting\<rparr>)"
    by (rule ready_send [OF r i]) (simp_all add: s6_table [OF i] ct)
  then have "reconcileStateTransition env (observe env s) = ((None, True), t\<lparr>fsm_current := OperationalStateStarting\<rparr>)"
    using ready_answers(1,5) [OF r] cur want
    by (simp add: pass_defs o(1) t_def StartInstance_def GetDesiredFSMState_def)
  then show ?thesis
    by (rule ready_advances [OF r]) (simp_all add: t_def o(1) note_call_def)
qed

lemma pass_start_done:
  assumes r: "ready ServiceUp env s" and cur: "fsm_current s = OperationalStateStarting"
    and want: "GetDesiredFSMState s = OperationalStateRunning"
  shows "advanced s OperationalStateRunning [] (snd (s6_Reconcile env tick s))"
proof -
  obtain ob where o: "observe env s = s\<lparr>ObservedState := ob\<rparr>" "s6_inv (observe env s)"
    "Status (ServiceInfo ob) = ServiceUp" "\<not> IsDownAndReady (ServiceInfo ob)" by (rule ready_observe [OF r]) blast
  have "SendEvent (e_event env) EventStartDone (observe env s)
      = (None, (observe env s)\<lparr>fsm_current := OperationalStateRunning\<rparr>)"
    using s6_table [OF o(2), of EventStartDone] by (intro ready_send [OF r o(2)]) (simp_all add: o(1) cur)
  then have "reconcileStateTransition env (observe env s) = ((None, True), (observe env s)\<lparr>fsm_current := OperationalStateRunning\<rparr>)"
    using ready_answers(1) [OF r] cur want o(3,4)
    by (simp add: pass_defs o(1) GetDesiredFSMState_def IsInDownAndReadyState_def IsS6Running_def)
  then show ?thesis
    by (rule ready_advances [OF r]) (simp_all add: o(1))
qed

lemma pass_stop:
  assumes r: "ready ss env s" and cur: "fsm_current s = OperationalStateRunning \<or> fsm_current s = OperationalStateStarting"
    and want: "GetDesiredFSMState s = OperationalStateStopped"
  shows "advanced s OperationalStateStopping [CallStop (servicePath s)] (snd (s6_Reconcile env tick s))"
proof -
  obtain ob where o: "observe env s = s\<lparr>ObservedState := ob\<rparr>" "s6_inv (observe env s)" "DirectoryHealth ob = HealthOK"
    by (rule ready_observe [OF r]) blast
  define t where "t = note_call (CallStop (servicePath s)) (observe env s)"
  have i: "s6_inv t" unfolding t_def by (intro s6_keeps_inv [OF s6_keeps_call] o(2))
  have ct: "fsm_current t = fsm_current s" by (simp add: t_def o(1) note_call_def)
  have "SendEvent (e_event env) EventStop t = (None, t\<lparr>fsm_current := OperationalStateStopping\<rparr>)"
    using cur by (intro ready_send [OF r i]) (auto simp: s6_table [OF i] ct)
  then have "reconcileStateTransition env (observe env s) = ((None, True), t\<lparr>fsm_current := OperationalStateStopping\<rparr>)"
    using ready_answers(1,6) [OF r] cur want o(3)
    by (auto simp: pass_defs o(1) t_def StopInstance_def GetDesiredFSMState_def)
  then show ?thesis
    by (rule ready_advances [OF r]) (simp_all add: t_def o(1) note_call_def)
qed

lemma pass_remove:
  assumes r: "ready ss env s" and cur: "fsm_current s = LifecycleStateRemoving" and "ss \<noteq> ServiceUp"
  shows "advanced s LifecycleStateRemoved [CallRemove (servicePath s)] (snd (s6_Reconcile env tick s))"
proof -
  obtain ob where o: "observe env s = s\<lparr>ObservedState := ob\<rparr>" "s6_inv (observe env s)" "Status (ServiceInfo ob) = ss"
    by (rule ready_observe [OF r]) blast
  define n where "n = note_lifecycle_state LifecycleStateRemoving (observe env s)"
  define t where "t = note_call (CallRemove (servicePath s)) n"
  have i: "s6_inv t" unfolding t_def n_def
    by (intro s6_keeps_inv [OF s6_keeps_call] s6_keeps_inv [OF s6_keeps_note] o(2))
  have ct: "fsm_current t = LifecycleStateRemoving"
    using cur by (simp add: t_def n_def o(1) note_call_def note_lifecycle_state_def)
  have "RemoveInstance (e_svc env) n = (None, t)"
    using ready_answers [OF r] assms(3) o(3)
    by (simp add: RemoveInstance_def t_def n_def o(1) IsS6Running_def Let_def)
  moreover have "SendEvent (e_event env) LifecycleEventRemoveDone t = (None, t\<lparr>fsm_current := LifecycleStateRemoved\<rparr>)"
    by (rule ready_send [OF r i]) (simp_all add: s6_table [OF i] ct)
  ultimately have "reconcileStateTransition env (observe env s) = ((None, True), t\<lparr>fsm_current := LifecycleStateRemoved\<rparr>)"
    using ready_answers(1) [OF r] cur by (simp add: pass_defs o(1) n_def)
  then show ?thesis
    by (rule ready_advances [OF r]) (simp_all add: t_def n_def o(1) note_call_def note_lifecycle_state_def)
qed


lemma pass_stop_done_armed:
  assumes r: "ready ServiceDown env s" and cur: "fsm_current s = OperationalStateStopping"
    and want: "GetDesiredFSMState s = OperationalStateStopped" and "armed s"
  shows "advanced s LifecycleStateRemoving [] (snd (s6_Reconcile env tick s))"
proof -
  obtain ob where o: "observe env s = s\<lparr>ObservedState := ob\<rparr>" "s6_inv (observe env s)" "Status (ServiceInfo ob) = ServiceDown"
    by (rule ready_observe [OF r]) blast
  let ?o = "observe env s"
  note c = s6_inv_cfg [OF o(2)]
  have "armed ?o" using assms(4) by (simp add: armed_def o(1))
  moreover have "fsm_transitions ?o (EventStopDone, fsm_current ?o) = Some (cfg_OperationalStateBeforeRemove (cfg ?o))"
    "fsm_current ?o \<noteq> cfg_OperationalStateBeforeRemove (cfg ?o)"
    using s6_table [OF o(2), of EventStopDone "fsm_current ?o"] c(1) by (simp_all add: o(1) cur)
  ultimately obtain t where t: "SendEvent (e_event env) EventStopDone ?o = (None, t)"
    "fsm_current t = LifecycleStateRemoving"
    using armed_event_removes [OF c(5)] ready_answers(8,9) [OF r] by blast
  then have st: "same_table ?o t" using SendEvent_inv [OF c(5), of "e_event env" EventStopDone] by simp
  have f: "service t = service s" "servicePath t = servicePath s" "s6_config t = s6_config s"
    using SendEvent_fields [of "e_event env" EventStopDone ?o, unfolded t(1) snd_conv] by (simp_all add: o(1))
  have "reconcileStateTransition env ?o = ((None, True), t)"
    using ready_answers(1) [OF r] cur want o(3) t(1)
    by (simp add: pass_defs o(1) GetDesiredFSMState_def IsS6Stopped_def)
  then show ?thesis
    by (rule ready_advances [OF r]) (use t(2) f st in \<open>simp_all add: same_table_def o(1)\<close>)
qed

section \<open>Bring-up and removal\<close>

definition s6_run :: "(s6_env \<times> u64) list \<Rightarrow> S6Instance \<Rightarrow> S6Instance" where
  "s6_run xs s = fold (\<lambda>(env, tick) s. snd (s6_Reconcile env tick s)) xs s"

lemma s6_run_simps [simp]: "s6_run [] s = s" "s6_run ((env, tick) # xs) s = s6_run xs (snd (s6_Reconcile env tick s))"
  by (simp_all add: s6_run_def)

lemma advanced_ready:
  assumes "advanced s st cs s'" and "cooperative (s6cfg_S6ServiceConfig (s6_config s)) ss env"
  shows "ready ss env s'"
  using assms by (simp add: advanced_def ready_def)

lemma advanced_trans:
  assumes "advanced s st cs t" and "advanced t st' cs' u"
  shows "advanced s st' (cs @ cs') u"
  using assms by (simp add: advanced_def)

lemma advanced_frame:
  assumes "advanced s st cs t"
  shows "fsm_current t = st" "GetDesiredFSMState t = GetDesiredFSMState s" "armed t = armed s"
    "servicePath t = servicePath s" "s6_config t = s6_config s"
  using assms by (simp_all add: advanced_def GetDesiredFSMState_def armed_def)

lemma bring_up_advances:
  assumes "ready st1 e1 s" and c: "cooperative (s6cfg_S6ServiceConfig (s6_config s)) st2 e2"
    "cooperative (s6cfg_S6ServiceConfig (s6_config s)) st3 e3" "cooperative (s6cfg_S6ServiceConfig (s6_config s)) ServiceUp e4"
    and "fsm_current s = LifecycleStateToBeCreated" and "GetDesiredFSMState s = OperationalStateRunning" and "\<not> armed s"
  shows "advanced s OperationalStateRunning
     [CallCreate (servicePath s) (created_config (s6cfg_S6ServiceConfig (s6_config s))), CallStart (servicePath s)]
     (s6_run [(e1, t1), (e2, t2), (e3, t3), (e4, t4)] s)"
proof -
  let ?s1 = "snd (s6_Reconcile e1 t1 s)"
  let ?s2 = "snd (s6_Reconcile e2 t2 ?s1)"
  let ?s3 = "snd (s6_Reconcile e3 t3 ?s2)"
  note a1 = pass_create [OF assms(1,5), of t1]
  note f1 = advanced_frame [OF a1]
  have a2: "advanced ?s1 OperationalStateStopped [] ?s2"
    using f1 assms(7) by (intro pass_create_done [OF advanced_ready [OF a1 c(1)]]) simp_all
  note b2 = advanced_trans [OF a1 a2]
  note f2 = advanced_frame [OF b2]
  have a3: "advanced ?s2 OperationalStateStarting [CallStart (servicePath ?s2)] ?s3"
    using f2 assms(6) by (intro pass_start [OF advanced_ready [OF b2 c(2)]]) simp_all
  note b3 = advanced_trans [OF b2 a3]
  note f3 = advanced_frame [OF b3]
  have a4: "advanced ?s3 OperationalStateRunning [] (snd (s6_Reconcile e4 t4 ?s3))"
    using f3 assms(6) by (intro pass_start_done [OF advanced_ready [OF b3 c(3)]]) simp_all
  from advanced_trans [OF b3 a4] f2(4) show ?thesis by simp
qed

lemma tear_down_advances:
  assumes "ready st1 e1 s" and c: "cooperative (s6cfg_S6ServiceConfig (s6_config s)) ServiceDown e2"
    "cooperative (s6cfg_S6ServiceConfig (s6_config s)) st3 e3" and "st3 \<noteq> ServiceUp"
    and "fsm_current s = OperationalStateRunning \<or> fsm_current s = OperationalStateStarting"
    and "GetDesiredFSMState s = OperationalStateStopped" and "armed s"
  shows "advanced s LifecycleStateRemoved [CallStop (servicePath s), CallRemove (servicePath s)]
     (s6_run [(e1, t1), (e2, t2), (e3, t3)] s)"
proof -
  let ?s1 = "snd (s6_Reconcile e1 t1 s)"
  let ?s2 = "snd (s6_Reconcile e2 t2 ?s1)"
  note a1 = pass_stop [OF assms(1,5,6), of t1]
  note f1 = advanced_frame [OF a1]
  have a2: "advanced ?s1 LifecycleStateRemoving [] ?s2"
    using f1 assms(6,7) by (intro pass_stop_done_armed [OF advanced_ready [OF a1 c(1)]]) simp_all
  note b2 = advanced_trans [OF a1 a2]
  note f2 = advanced_frame [OF b2]
  have a3: "advanced ?s2 LifecycleStateRemoved [CallRemove (servicePath ?s2)] (snd (s6_Reconcile e3 t3 ?s2))"
    using f2 assms(4) by (intro pass_remove [OF advanced_ready [OF b2 c(2)]]) simp_all
  from advanced_trans [OF b2 a3] f2(4) show ?thesis by simp
qed

section \<open>Recovery of a corrupted directory\<close>

text \<open>A pass in which the service reports that its directory is broken.\<close>

definition corrupted :: "s6_env \<Rightarrow> bool" where
  "corrupted env \<longleftrightarrow> e_ctx_err env = None \<and> ans_integrity (e_svc env) = HealthBad
     \<and> ans_Health (e_svc env) = ActionRecreate \<and> (e_rand env = 0 \<or> e_rand env = 1)"

text \<open>The retry policy after \<open>n\<close> failures, with the interval it hands out next.\<close>

definition policy_at :: "u64 \<Rightarrow> int \<Rightarrow> backOffTries" where
  "policy_at n i = \<lparr>delegate = \<lparr>InitialInterval = millisecond, MaxInterval = 600 * millisecond,
       MaxElapsedTime = 900000 * millisecond, currentInterval = i, startTime = 0\<rparr>,
     maxTries = 5, numTries = n\<rparr>"

lemma new_policy: "backoff (NewBackoffManager DefaultConfig) = policy_at 0 millisecond"
  by (simp add: NewBackoffManager_def DefaultConfig_def tries_Reset_def ebo_Reset_def TickClock_Now_def policy_at_def
      duration_of_ticks_in_range)

lemma reset_policy: "tries_Reset (policy_at n i) = policy_at 0 millisecond"
  by (simp add: policy_at_def tries_Reset_def ebo_Reset_def TickClock_Now_def)

lemma next_policy:
  assumes "n < 5" and "3 * i < 1200 * millisecond" and "0 < i"
  shows "tries_NextBackOff r (policy_at n i) = (i + r, policy_at (n + 1) ((3 * i) div 2))"
  using assms
  by (simp add: policy_at_def tries_NextBackOff_def ebo_NextBackOff_def incrementCurrentInterval_def
      GetElapsedTime_def TickClock_Now_def Let_def not_le)

lemma wait_ticks:
  assumes "r = 0 \<or> r = 1"
  shows "ticks_of_duration (1000000 + r) = 1" "ticks_of_duration (1500000 + r) = 1" "ticks_of_duration (2250000 + r) = 2"
  using assms by (auto simp: ticks_of_duration_def)

lemma SetError_at:
  assumes "\<not> permanentFailure m" and "backoff m = policy_at n i" and "n < 5" and "3 * i < 1200 * millisecond" and "0 < i"
    and "0 \<le> r"
  shows "SetError (tries_NextBackOff r) m (Some e) tick =
     (False, m\<lparr>lastError := Some e, backoff := policy_at (n + 1) ((3 * i) div 2),
        ticksToWait := ticks_of_duration (i + r), suspendedUntilTick := tick + ticks_of_duration (i + r)\<rparr>)"
  using assms next_policy [OF assms(3-5), of r] by (simp add: SetError_def Stop_def Let_def)


text \<open>After a pass that found the directory broken: nothing was called and the next try is scheduled.\<close>

definition suspended :: "S6Instance \<Rightarrow> u64 \<Rightarrow> int \<Rightarrow> u64 \<Rightarrow> S6Instance \<Rightarrow> bool" where
  "suspended s n i until s' \<longleftrightarrow> fsm_current s' = fsm_current s \<and> service s' = service s \<and> servicePath s' = servicePath s
     \<and> DirectoryHealth (ObservedState s') = HealthBad
     \<and> \<not> permanentFailure (backoffManager s') \<and> backoff (backoffManager s') = policy_at n i
     \<and> lastError (backoffManager s') = Some (directory_corrupted (fsm_current s))
     \<and> suspendedUntilTick (backoffManager s') = until"

lemma corrupted_error:
  "\<not> errors_is (directory_corrupted st) ErrInstanceRemoved" "\<not> errors_is (directory_corrupted st) ctx_deadline_exceeded"
  by (simp_all add: directory_corrupted_def s6_error_def ErrInstanceRemoved_def ctx_deadline_exceeded_def)

lemma corrupted_pass:
  assumes "corrupted env" and "\<not> fsm_ShouldSkipReconcileBecauseOfError tick s" and "\<not> permanentFailure (backoffManager s)"
    and "backoff (backoffManager s) = policy_at n i" and "n < 5" and "3 * i < 1200 * millisecond" and "0 < i"
  shows "fst (s6_Reconcile env tick s) = (None, False)"
    and "suspended s (n + 1) ((3 * i) div 2) (tick + ticks_of_duration (i + e_rand env)) (snd (s6_Reconcile env tick s))"
proof -
  have r: "0 \<le> e_rand env" using assms(1) by (auto simp: corrupted_def)
  let ?o = "s\<lparr>ObservedState := (ObservedState s)\<lparr>DirectoryHealth := HealthBad,
      ServiceInfo := zero_ServiceInfo\<lparr>Status := ServiceUnknown\<rparr>, ObservedS6ServiceConfig := zero_S6ServiceConfig\<rparr>\<rparr>"
  have "reconcileExternalChanges env s = (None, ?o)"
    using assms(1) by (simp add: corrupted_def reconcileExternalChanges_def UpdateObservedStateOfInstance_def)
  then have "s6_Reconcile env tick s = s6_transition_stage env tick ?o"
    using assms(1,2) by (simp add: s6_Reconcile_def corrupted_def)
  moreover have "reconcileStateTransition env ?o = ((Some (directory_corrupted (fsm_current s)), False), ?o)"
    using assms(1) by (simp add: reconcileStateTransition_def corrupted_def GetCurrentFSMState_def)
  ultimately have eq: "s6_Reconcile env tick s =
      ((None, False), snd (fsm_SetError (e_rand env) (Some (directory_corrupted (fsm_current s))) tick ?o))"
    by (simp add: s6_transition_stage_def corrupted_error IsDeadlineExceededAndHandle_def)
  then show "fst (s6_Reconcile env tick s) = (None, False)" by simp
  show "suspended s (n + 1) ((3 * i) div 2) (tick + ticks_of_duration (i + e_rand env)) (snd (s6_Reconcile env tick s))"
    using assms(3) SetError_at [OF assms(3-7) r, of "directory_corrupted (fsm_current s)" tick]
    by (simp add: eq suspended_def fsm_SetError_def)
qed

lemma suspended_trans: "suspended s n i u t \<Longrightarrow> suspended t n' i' u' v \<Longrightarrow> suspended s n' i' u' v"
  by (simp add: suspended_def)

lemma suspended_skip:
  assumes "suspended s n i u t"
  shows "fsm_ShouldSkipReconcileBecauseOfError tick t \<longleftrightarrow> u \<noteq> 0 \<and> tick < u"
  using assms by (simp add: suspended_def fsm_ShouldSkipReconcileBecauseOfError_def ShouldSkipOperation_def)

text \<open>
  The text of the error makes even the temporary backoff error a permanent one, so the first
  skipped pass forces the removal.
\<close>

lemma suspended_forced:
  assumes "suspended s n i u t" and "u \<noteq> 0" and "tick < u" and "e_ctx_err env = None" and "ans_ForceRemove (e_svc env) = None"
  shows "\<exists>e. fst (s6_Reconcile env tick t) = (Some e, True) \<and> IsPermanentFailureError (Some e)"
    and "IsRemoved (snd (s6_Reconcile env tick t))"
    and "service (snd (s6_Reconcile env tick t)) = service s @ [CallForceRemove (servicePath s)]"
proof -
  let ?d = "directory_corrupted (fsm_current s)"
  have "0 < u" using assms(2) by (simp add: word_neq_0_conv)
  with assms(1,3) obtain p where b: "fsm_GetBackoffError tick t = Some (Errorf p ?d)"
    by (auto simp: suspended_def fsm_GetBackoffError_def GetBackoffError_def)
  have perm: "IsPermanentFailureError (Some (Errorf p ?d))"
    by (simp add: IsPermanentFailureError_def directory_corrupted_def s6_error_def str_contains_append_left)
  have sh: "s6_in_shutdown t" using assms(1) by (simp add: suspended_def s6_in_shutdown_def)
  have "s6_Reconcile env tick t = ((Some (Errorf p ?d), True),
      SetCurrentFSMState LifecycleStateRemoved (note_call (CallForceRemove (servicePath t)) t))"
    using suspended_skip [OF assms(1), of tick] assms(2-5) b perm sh
    by (simp add: s6_Reconcile_def HandlePermanentError_def force_remove_service_def)
  with perm assms(1) show "\<exists>e. fst (s6_Reconcile env tick t) = (Some e, True) \<and> IsPermanentFailureError (Some e)"
    "IsRemoved (snd (s6_Reconcile env tick t))"
    "service (snd (s6_Reconcile env tick t)) = service s @ [CallForceRemove (servicePath s)]"
    by (auto simp: SetCurrentFSMState_def IsRemoved_def suspended_def note_call_def)
qed


lemma corrupted_three:
  assumes "corrupted e0" and "corrupted e1" and "corrupted e2" and "clear s"
    and "backoff (backoffManager s) = policy_at 0 millisecond"
  shows "suspended s 3 3375000 (tick + 4) (s6_run [(e0, tick), (e1, tick + 1), (e2, tick + 2)] s)"
proof -
  let ?s1 = "snd (s6_Reconcile e0 tick s)"
  let ?s2 = "snd (s6_Reconcile e1 (tick + 1) ?s1)"
  have r: "e_rand e0 = 0 \<or> e_rand e0 = 1" "e_rand e1 = 0 \<or> e_rand e1 = 1" "e_rand e2 = 0 \<or> e_rand e2 = 1"
    using assms(1-3) by (simp_all add: corrupted_def)
  have p: "\<not> permanentFailure (backoffManager s)" using assms(4) by (simp add: clear_def)
  have s1: "suspended s 1 1500000 (tick + 1) ?s1"
    using corrupted_pass(2) [OF assms(1) clear_no_skip [OF assms(4)] p assms(5), of tick] wait_ticks(1) [OF r(1)] by simp
  have "suspended ?s1 2 2250000 (tick + 2) ?s2"
    using corrupted_pass(2) [OF assms(2), of "tick + 1" ?s1 1 1500000] suspended_skip [OF s1, of "tick + 1"] s1
      wait_ticks(2) [OF r(2)] by (simp add: suspended_def)
  then have s2: "suspended s 2 2250000 (tick + 2) ?s2" by (rule suspended_trans [OF s1])
  have "suspended ?s2 3 3375000 (tick + 4) (snd (s6_Reconcile e2 (tick + 2) ?s2))"
    using corrupted_pass(2) [OF assms(3), of "tick + 2" ?s2 2 2250000] suspended_skip [OF s2, of "tick + 2"] s2
      wait_ticks(3) [OF r(3)] by (simp add: suspended_def)
  then show ?thesis using suspended_trans [OF s2] by simp
qed

section \<open>Service directories\<close>

lemma service_path_plain:
  assumes "is_rooted base" and "path_elems base \<noteq> []" and "plain_name n"
  shows "s6_service_path base n = filepath_Clean base @ ''/'' @ n"
  using Join_plain [OF assms] by (simp add: s6_service_path_def)

section \<open>Properties\<close>

text \<open>
  C6: the states of an S6 instance. Whatever the manager and the service do, a reachable instance is
  in one of the four lifecycle states or in stopped, starting, running or stopping, its desired
  state is running or stopped (so no pass ever fails with an invalid state), and no step takes it
  back in its lifecycle.
\<close>

theorem s6_state_space:
  assumes "s6_reachable base c s"
  shows "(IsLifecycleState (fsm_current s)
       \<or> fsm_current s \<in> {OperationalStateStopped, OperationalStateStarting, OperationalStateRunning, OperationalStateStopping})
     \<and> GetDesiredFSMState s \<in> {OperationalStateRunning, OperationalStateStopped}
     \<and> (s6_step s t \<longrightarrow> lifecycle_rank (fsm_current s) \<le> lifecycle_rank (fsm_current t))"
proof -
  have i: "s6_inv s" by (rule s6_reachable_inv [OF assms])
  then have "s6_state (fsm_current s)" "GetDesiredFSMState s \<in> {OperationalStateRunning, OperationalStateStopped}"
    by (simp_all add: s6_inv_def)
  moreover have "s6_step s t \<Longrightarrow> lifecycle_rank (fsm_current s) \<le> lifecycle_rank (fsm_current t)"
    using s6_keeps_step [OF _ i] by (simp add: s6_keeps_def keeps_def)
  ultimately show ?thesis by (simp add: s6_state_def)
qed

text \<open>
  C3: discipline towards the service. One pass makes at most one call that changes the service, and
  only the one that the observed state allows: it creates only an instance that is to be created,
  starts only a stopped one that should run, stops only a starting or running one that should
  stop, restarts only one that has been down and ready for three seconds, removes only a removing
  one whose process is not up, and forces a removal only in a pass that is skipped because of a
  permanent failure.
\<close>

theorem s6_call_discipline:
  "service (snd (s6_Reconcile env tick s)) = service s
   \<or> (\<exists>call. call_allowed env tick s call \<and> service (snd (s6_Reconcile env tick s)) = service s @ [call])"
  using calls_Reconcile [of env tick s] by (simp add: calls_def)


text \<open>
  C5: removal. When the removal of a running (or starting) instance without a pending error is
  requested and its service cooperates, it is removed after three passes; the service is stopped
  first and its directory is removed once, after the service was seen down.
\<close>

theorem s6_tear_down:
  assumes "s6_reachable base c s" and "clear s"
    and "fsm_current s = OperationalStateRunning \<or> fsm_current s = OperationalStateStarting"
    and "cooperative (s6cfg_S6ServiceConfig (s6_config s)) st1 e1"
    and "cooperative (s6cfg_S6ServiceConfig (s6_config s)) ServiceDown e2"
    and "cooperative (s6cfg_S6ServiceConfig (s6_config s)) st3 e3" and "st3 \<noteq> ServiceUp"
    and "s' = s6_run [(e1, t1), (e2, t2), (e3, t3)] (snd (fsm_Remove env s))"
  shows "IsRemoved s' \<and> service s' = service s @ [CallStop (servicePath s), CallRemove (servicePath s)]"
proof -
  have i: "s6_inv s" by (rule s6_reachable_inv [OF assms(1)])
  let ?r = "snd (fsm_Remove env s)"
  have n: "\<not> IsRemoved s" "\<not> IsRemoving s" "fsm_current s \<noteq> cfg_OperationalStateBeforeRemove (cfg s)"
    using assms(3) s6_inv_cfg(1) [OF i] by (auto simp: IsRemoved_def IsRemoving_def)
  note a = Remove_arms [OF n(1,2) s6_inv_cfg(5) [OF i] n(3), of env]
  have "backoffManager ?r = backoffManager s"
    using n assms(3) by (simp add: fsm_Remove_def SetDesiredFSMState_def AddCallback_def GetCurrentFSMState_def Let_def)
  then have r: "ready st1 e1 ?r"
    using assms(2,4) s6_keeps_inv [OF s6_keeps_Remove [OF i]] by (simp add: ready_def clear_def)
  have "advanced ?r LifecycleStateRemoved [CallStop (servicePath ?r), CallRemove (servicePath ?r)] s'"
    unfolding assms(8) using assms(3,5-7) a s6_inv_cfg(1) [OF i]
    by (intro tear_down_advances [OF r]) simp_all
  then show ?thesis by (simp add: advanced_def IsRemoved_def)
qed


text \<open>
  Service directories. An instance with a plain name (no slash, not empty, not a dot name) gets
  its own directory below the base directory, so two names never share one; any name yields the
  base directory itself or a path below it.
\<close>

theorem s6_paths_confined:
  assumes "is_rooted base" and "path_elems base \<noteq> []" and "plain_name n" and "plain_name n'"
  shows "s6_service_path base n = filepath_Clean base @ ''/'' @ n
     \<and> (s6_service_path base n = s6_service_path base n' \<longleftrightarrow> n = n')
     \<and> (s6_service_path base m = base \<or> prefix (filepath_Clean base @ ''/'') (s6_service_path base m))"
  using service_path_plain [OF assms(1-3)] service_path_plain [OF assms(1,2,4)]
  by (simp add: s6_service_path_def Let_def)

section \<open>Witnesses\<close>

definition demo_s6_config :: S6FSMConfig where
  "demo_s6_config = \<lparr>Name = ''w'', DesiredFSMState = ''running'',
     s6cfg_S6ServiceConfig = zero_S6ServiceConfig\<lparr>Command := Some [''/bin/w'']\<rparr>\<rparr>"

definition demo_s6_env :: "ServiceStatus \<Rightarrow> s6_env" where
  "demo_s6_env st = \<lparr>e_ctx_err = None, e_rand = 0, e_time = 0, e_update_remove = (\<lambda>_. demo_env),
     e_perm_remove = (\<lambda>_. demo_env), e_event = (\<lambda>_. demo_env),
     e_svc = \<lparr>ans_Create = None, ans_integrity_after_create = HealthOK, ans_Remove = None, ans_ForceRemove = None,
       ans_Start = None, ans_Stop = None, ans_Restart = None, ans_EnsureSupervision = Inr True, ans_integrity = HealthOK,
       ans_Status = Inr (zero_ServiceInfo\<lparr>Status := st\<rparr>),
       ans_GetConfig = Inr (s6cfg_S6ServiceConfig demo_s6_config), ans_Health = ActionOK\<rparr>\<rparr>"

definition demo_corrupted :: s6_env where
  "demo_corrupted = (demo_s6_env ServiceUp)\<lparr>e_svc := (e_svc (demo_s6_env ServiceUp))\<lparr>ans_integrity := HealthBad,
     ans_Health := ActionRecreate\<rparr>\<rparr>"

definition demo_s6_new :: S6Instance where
  "demo_s6_new = snd (s6_SetDesiredFSMState OperationalStateRunning (NewS6Instance ''/run/service'' demo_s6_config))"

definition demo_s6_running :: S6Instance where
  "demo_s6_running = s6_run [(demo_s6_env ServiceDown, 1), (demo_s6_env ServiceDown, 2), (demo_s6_env ServiceDown, 3),
     (demo_s6_env ServiceUp, 4)] demo_s6_new"

lemma demo_cooperative: "cooperative (s6cfg_S6ServiceConfig demo_s6_config) st (demo_s6_env st)"
  using demo_env_good by (simp add: cooperative_def demo_s6_env_def zero_ServiceInfo_def)

lemma demo_is_corrupted: "corrupted demo_corrupted"
  by (simp add: corrupted_def demo_corrupted_def demo_s6_env_def)

theorem s6_state_space_witness:
  "IsLifecycleState (fsm_current (NewS6Instance ''/run/service'' demo_s6_config))
   \<or> fsm_current (NewS6Instance ''/run/service'' demo_s6_config)
      \<in> {OperationalStateStopped, OperationalStateStarting, OperationalStateRunning, OperationalStateStopping}"
  using s6_state_space [OF s6_reachable.start [of "''/run/service''" demo_s6_config]] by blast


lemma s6_reachable_run: "s6_reachable base c s \<Longrightarrow> s6_reachable base c (s6_run xs s)"
proof (induction xs arbitrary: s)
  case (Cons x xs)
  obtain env tick where x: "x = (env, tick)" by fastforce
  from s6_reachable.step [OF Cons.prems s6_step.reconcile] have "s6_reachable base c (snd (s6_Reconcile env tick s))" .
  from Cons.IH [OF this] show ?case by (simp add: x)
qed simp

lemma demo_s6_reachable: "s6_reachable ''/run/service'' demo_s6_config demo_s6_running"
  unfolding demo_s6_running_def demo_s6_new_def
  by (intro s6_reachable_run s6_reachable.step [OF s6_reachable.start s6_step.set_desired])

lemma demo_s6_running_facts:
  "fsm_current demo_s6_running = OperationalStateRunning" "clear demo_s6_running"
  "servicePath demo_s6_running = ''/run/service/w''"
  "backoff (backoffManager demo_s6_running) = backoff (NewBackoffManager DefaultConfig)"
  "s6_config demo_s6_running = demo_s6_config" 
  by code_simp+

theorem s6_tear_down_witness:
  "IsRemoved (s6_run [(demo_s6_env ServiceUp, 5), (demo_s6_env ServiceDown, 6), (demo_s6_env ServiceDown, 7)]
     (snd (fsm_Remove (\<lambda>_. demo_env) demo_s6_running)))"
proof -
  note f = demo_s6_running_facts
  have c: "cooperative (s6cfg_S6ServiceConfig (s6_config demo_s6_running)) st (demo_s6_env st)" for st
    unfolding f(5) by (rule demo_cooperative)
  show ?thesis
    using s6_tear_down [OF demo_s6_reachable f(2) disjI1 [OF f(1)] c c c _ refl] by blast
qed


theorem s6_paths_confined_witness:
  "s6_service_path ''/run/service'' ''benthos-a'' = ''/run/service/benthos-a''
   \<and> s6_service_path ''/run/service'' ''../x'' = ''/run/service''"
proof -
  have h: "is_rooted ''/run/service''" "path_elems ''/run/service'' \<noteq> []" "plain_name ''benthos-a''" by code_simp+
  have c: "filepath_Clean ''/run/service'' = ''/run/service''" by code_simp
  have x: "s6_service_path ''/run/service'' ''../x'' = ''/run/service''" by code_simp
  show ?thesis using s6_paths_confined [OF h h(3)] x by (simp add: c)
qed

end
