(* ===== verification/S6_Manager.thy ===== *)
theory S6_Manager
  imports S6_Runs
begin

text \<open>
  The manager of the S6 instances: \<^verbatim>\<open>umh-core/pkg/fsm/s6/manager.go\<close>, the functions it injects
  into the generic manager. It is the generic manager of \<open>Base_Manager\<close> at these operations, so the
  contract \<open>managed_instance\<close> is interpreted here.

  The surroundings of a pass depend on the tick and on the instance: \<open>env tick name\<close>. Removal
  requests of the manager itself read \<open>renv name\<close>. An \<^verbatim>\<open>S6Instance\<close> has no method
  \<^verbatim>\<open>ForceRemove\<close>, so the type assertion in \<^verbatim>\<open>maybeEscalateRemoval\<close> fails for it.
\<close>

abbreviation S6BaseDir :: string where "S6BaseDir \<equiv> ''/run/service''"

text \<open>Of the full configuration the manager reads \<^verbatim>\<open>Internal.Services\<close> only.\<close>

record FullConfig =
  Internal_Services :: "S6FSMConfig list"

definition s6_GetMinimumRequiredTime :: "S6Instance \<Rightarrow> int" where
  "s6_GetMinimumRequiredTime s = S6UpdateObservedStateTimeout"

definition NewS6Manager ::
  "(string \<Rightarrow> nat \<Rightarrow> event_env) \<Rightarrow> (u64 \<Rightarrow> string \<Rightarrow> s6_env) \<Rightarrow> (S6FSMConfig, S6Instance, FullConfig) manager_ops"
where
  "NewS6Manager renv env =
     \<lparr>extractConfigs = (\<lambda>fullConfig. Inr (Internal_Services fullConfig)),
      getName = (\<lambda>c. Inr (Name c)),
      getDesiredState = (\<lambda>c. Inr (DesiredFSMState c)),
      createInstance = (\<lambda>c. (None, Some (NewS6Instance S6BaseDir c))),
      compareConfig = (\<lambda>s c. Inr (S6ServiceConfig_Equal (s6cfg_S6ServiceConfig (s6_config s)) (s6cfg_S6ServiceConfig c))),
      setConfig = (\<lambda>s c. (None, s\<lparr>s6_config := (s6_config s)\<lparr>s6cfg_S6ServiceConfig := s6cfg_S6ServiceConfig c\<rparr>\<rparr>)),
      getMinimumRequiredTime = (\<lambda>s. Inr (s6_GetMinimumRequiredTime s)),
      inst_GetCurrentFSMState = GetCurrentFSMState,
      inst_GetDesiredFSMState = GetDesiredFSMState,
      inst_SetDesiredFSMState = s6_SetDesiredFSMState,
      inst_Remove = (\<lambda>s. fsm_Remove (renv (GetID s)) s),
      inst_Reconcile = (\<lambda>tick s. s6_Reconcile (env tick (GetID s)) tick s),
      inst_IsTransientStreakCounterMaxed = IsTransientStreakCounterMaxed,
      inst_ForceRemove = None\<rparr>"

interpretation s6m: managed_instance "NewS6Manager renv env" for renv env
  by unfold_locales
    (auto simp: NewS6Manager_def s6_SetDesiredFSMState_def SetDesiredFSMState_def GetDesiredFSMState_def
      split: if_splits)

section \<open>What a failing pass returns\<close>

text \<open>
  The error of a pass is a permanent failure only if the service was asked to remove its directory
  by force in that pass: every other error of the state machine is kept inside the instance.
\<close>

lemma permanent_error_forced:
  assumes "IsPermanentFailureError (fst (fst (s6_Reconcile env tick s)))"
    and "e_ctx_err env \<in> {None, Some ctx_canceled, Some ctx_deadline_exceeded}"
  shows "service (snd (s6_Reconcile env tick s)) = service s @ [CallForceRemove (servicePath s)]"
proof -
  have nc: "\<not> IsPermanentFailureError (Some ctx_canceled)" "\<not> IsPermanentFailureError (Some ctx_deadline_exceeded)"
    "\<not> IsPermanentFailureError None" by code_simp+
  have stage: "\<not> IsPermanentFailureError (fst (fst (s6_transition_stage env tick t)))" for t
    using nc(3) by (simp add: s6_transition_stage_def split: prod.split option.split bool.split)
  show ?thesis
  proof (cases "e_ctx_err env")
    case (Some e)
    with assms nc show ?thesis
      by (auto simp: s6_Reconcile_def IsDeadlineExceededAndHandle_def split: if_splits)
  next
    case None
    let ?H = "HandlePermanentError (fsm_GetBackoffError tick s) s6_in_shutdown (fsm_Remove (e_perm_remove env))
        (force_remove_service (e_svc env)) s"
    have "s6_Reconcile env tick s = ?H"
      using assms(1) None nc(3) stage
      by (auto simp: s6_Reconcile_def Let_def split: if_splits prod.splits option.splits bool.splits)
    moreover have "service (snd ?H) = service s @ [CallForceRemove (servicePath s)]"
      if "IsPermanentFailureError (fst (fst ?H))"
    proof -
      obtain e t where r: "fsm_Remove (e_perm_remove env) (ResetState s) = (e, t)" by fastforce
      then have "service t = service s" "servicePath t = servicePath s"
        using fsm_Remove_fields [of "e_perm_remove env" "ResetState s", unfolded r snd_conv] by simp_all
      then show ?thesis
        using that nc(3)
        by (cases e)
          (auto simp: HandlePermanentError_def r force_remove_service_def SetCurrentFSMState_def
            split: if_splits option.splits)
    qed
    ultimately show ?thesis using assms(1) by simp
  qed
qed

section \<open>Properties\<close>

text \<open>
  The S6 manager gives an instance up only when it is gone. When an instance leaves the manager
  in a reconcile call, either it was in the removed state, or in this very pass the service was
  asked to remove the instance's directory by force. (A context's error is one of the two values
  the Go library defines.)
\<close>

theorem s6_manager_drop:
  assumes "instances m n = Some s" and "n \<notin> dom (instances (snd (Reconcile (NewS6Manager renv env) pe fc m)))"
    and "distinct (pe_order4 pe)"
    and "\<forall>t k. e_ctx_err (env t k) \<in> {None, Some ctx_canceled, Some ctx_deadline_exceeded}"
  shows "IsRemoved s
     \<or> service (snd (s6_Reconcile (env (managerTick m + 1) (GetID s)) (managerTick m + 1) s))
        = service s @ [CallForceRemove (servicePath s)]"
proof -
  let ?e = "env (managerTick m + 1) (GetID s)"
  from s6m.dropped_reason [OF assms(1-3)]
  have "IsRemoved s \<or> IsPermanentFailureError (fst (fst (s6_Reconcile ?e (managerTick m + 1) s)))"
    by (simp add: NewS6Manager_def IsRemoved_def GetCurrentFSMState_def)
  then show ?thesis using permanent_error_forced [of ?e] assms(4) by blast
qed

text \<open>
  The S6 manager creates what the configuration asks for. An instance that appears in a
  reconcile call belongs to a service of the configuration with its name and has the desired state
  configured there; that state is running or stopped, since a service with any other is not added.
\<close>

theorem s6_manager_create:
  assumes "instances m n = None" and "instances (snd (Reconcile (NewS6Manager renv env) pe fc m)) n = Some s"
  shows "\<exists>c \<in> set (Internal_Services fc). Name c = n \<and> DesiredFSMState c = GetDesiredFSMState s"
  using s6m.created_desired [OF assms] by (auto simp: NewS6Manager_def)

section \<open>Witnesses\<close>

definition demo_fleet :: "S6Instance BaseFSMManager" where
  "demo_fleet = NewBaseFSMManager\<lparr>instances := [''w'' \<mapsto> SetCurrentFSMState LifecycleStateRemoved demo_s6_running]\<rparr>"

theorem s6_manager_create_witness:
  "\<exists>c \<in> set (Internal_Services \<lparr>Internal_Services = [demo_s6_config]\<rparr>). Name c = ''w'' \<and> DesiredFSMState c = ''running''"
proof -
  let ?M = "snd (Reconcile (NewS6Manager (\<lambda>_ _. demo_env) (\<lambda>_ _. demo_corrupted)) (demo_pass None [])
      \<lparr>Internal_Services = [demo_s6_config]\<rparr> NewBaseFSMManager)"
  have n: "instances (NewBaseFSMManager :: S6Instance BaseFSMManager) ''w'' = None" by (simp add: NewBaseFSMManager_def)
  have m: "instances ?M ''w'' = Some demo_s6_new"
    by (simp add: Reconcile_def NewS6Manager_def demo_pass_def step2_one_def NewBaseFSMManager_def demo_s6_new_def
        demo_s6_config_def s6_SetDesiredFSMState_def Let_def)
  have "GetDesiredFSMState demo_s6_new = ''running''"
    by (simp add: demo_s6_new_def s6_SetDesiredFSMState_def SetDesiredFSMState_def GetDesiredFSMState_def)
  with s6_manager_create [OF n m] show ?thesis by simp
qed

theorem s6_manager_drop_witness:
  "IsRemoved (SetCurrentFSMState LifecycleStateRemoved demo_s6_running)
   \<or> service (snd (s6_Reconcile demo_corrupted (managerTick demo_fleet + 1)
        (SetCurrentFSMState LifecycleStateRemoved demo_s6_running)))
      = service (SetCurrentFSMState LifecycleStateRemoved demo_s6_running)
          @ [CallForceRemove (servicePath (SetCurrentFSMState LifecycleStateRemoved demo_s6_running))]"
proof -
  let ?s = "SetCurrentFSMState LifecycleStateRemoved demo_s6_running"
  have i: "instances demo_fleet ''w'' = Some ?s" by (simp add: demo_fleet_def)
  have "config_named (NewS6Manager r e) n [] = Inr False" for r e n by simp
  then have g: "''w'' \<notin> dom (instances (snd (Reconcile (NewS6Manager (\<lambda>_ _. demo_env) (\<lambda>_ _. demo_corrupted))
      (demo_pass None [''w'']) \<lparr>Internal_Services = []\<rparr> demo_fleet)))"
    by (simp add: Reconcile_def NewS6Manager_def demo_pass_def demo_fleet_def NewBaseFSMManager_def
        GetCurrentFSMState_def SetCurrentFSMState_def delete_instances_def reconcile_instances_def Let_def
        batch_bounds_def batch_def)
  have d: "distinct (pe_order4 (demo_pass None [''w'']))" by (simp add: demo_pass_def)
  have c: "\<forall>t k. e_ctx_err ((\<lambda>_ _. demo_corrupted) t k) \<in> {None, Some ctx_canceled, Some ctx_deadline_exceeded}"
    by (simp add: demo_corrupted_def demo_s6_env_def)
  from s6_manager_drop [OF i g d c] show ?thesis by simp
qed

end
