(* ===== verification/S6_Time.thy ===== *)
theory S6_Time
  imports UMH_Prelude "HOL-Library.List_Lexorder" "HOL-Library.Char_ord"
begin

text \<open>
  The time stamps of s6 log lines: \<^verbatim>\<open>umh-core/pkg/service/s6/time.go\<close> (\<^verbatim>\<open>ParseNano\<close>). Times are
  nanoseconds since Go's zero time, so the zero time is 0. Every valid civil time, printed in the
  format s6-log uses, is read back as its instant, and the order of the texts is the order of the
  instants.
\<close>

section \<open>Time stamps\<close>

text \<open>\<^verbatim>\<open>time.Date(\<dots>, time.UTC)\<close>: months carry into years; all smaller units are added up.\<close>

definition is_leap :: "int \<Rightarrow> bool" where
  "is_leap y = (y mod 4 = 0 \<and> (y mod 100 \<noteq> 0 \<or> y mod 400 = 0))"

definition days_before_month :: "int \<Rightarrow> int" where
  "days_before_month m = [0, 31, 59, 90, 120, 151, 181, 212, 243, 273, 304, 334] ! nat (m - 1)"

definition days_before_year :: "int \<Rightarrow> int" where
  "days_before_year y = 365 * (y - 1) + (y - 1) div 4 - (y - 1) div 100 + (y - 1) div 400"

definition time_Date :: "int \<Rightarrow> int \<Rightarrow> int \<Rightarrow> int \<Rightarrow> int \<Rightarrow> int \<Rightarrow> int \<Rightarrow> int" where
  "time_Date year month day hour minute sec nsec =
     (let y = year + (month - 1) div 12; m = (month - 1) mod 12 + 1;
          days = days_before_year y + days_before_month m + (if is_leap y \<and> 3 \<le> m then 1 else 0) + (day - 1)
      in (((days * 24 + hour) * 60 + minute) * 60 + sec) * 1000000000 + nsec)"

text \<open>\<^verbatim>\<open>int(b - '0')\<close> on a byte: the subtraction wraps around for a byte below the digits.\<close>

definition byte_digit :: "char \<Rightarrow> int" where
  "byte_digit b = (int (of_char b) - 48) mod 256"

definition toInt :: "char \<Rightarrow> char \<Rightarrow> int" where
  "toInt b c = byte_digit b * 10 + byte_digit c"

definition ParseNano :: "string \<Rightarrow> goerror + int" where
  "ParseNano s =
     (if length s \<noteq> 29 then Inl (ErrorNew 50 ''invalid length'')
      else if s ! 4 \<noteq> CHR ''-'' \<or> s ! 7 \<noteq> CHR ''-'' \<or> s ! 10 \<noteq> CHR '' ''
        \<or> s ! 13 \<noteq> CHR '':'' \<or> s ! 16 \<noteq> CHR '':'' \<or> s ! 19 \<noteq> CHR ''.''
      then Inl (ErrorNew 51 ''invalid delimiters'')
      else
        let year = byte_digit (s ! 0) * 1000 + byte_digit (s ! 1) * 100 + byte_digit (s ! 2) * 10 + byte_digit (s ! 3);
            nano = fold (\<lambda>i n. n * 10 + byte_digit (s ! i)) [20..<29] 0
        in Inr (time_Date year (toInt (s ! 5) (s ! 6)) (toInt (s ! 8) (s ! 9)) (toInt (s ! 11) (s ! 12))
             (toInt (s ! 14) (s ! 15)) (toInt (s ! 17) (s ! 18)) nano))"

section \<open>Printed time stamps\<close>

fun pad :: "nat \<Rightarrow> nat \<Rightarrow> string" where
  "pad 0 n = []"
| "pad (Suc w) n = pad w (n div 10) @ [digit_char (n mod 10)]"

record civil =
  c_year :: nat
  c_month :: nat
  c_day :: nat
  c_hour :: nat
  c_min :: nat
  c_sec :: nat
  c_nano :: nat

definition stamp_text :: "civil \<Rightarrow> string" where
  "stamp_text c = pad 4 (c_year c) @ ''-'' @ pad 2 (c_month c) @ ''-'' @ pad 2 (c_day c) @ '' '' @ pad 2 (c_hour c)
     @ '':'' @ pad 2 (c_min c) @ '':'' @ pad 2 (c_sec c) @ ''.'' @ pad 9 (c_nano c)"

definition days_in_month :: "nat \<Rightarrow> nat \<Rightarrow> nat" where
  "days_in_month y m = [31, if is_leap (int y) then 29 else 28, 31, 30, 31, 30, 31, 31, 30, 31, 30, 31] ! (m - 1)"

definition civil_ok :: "civil \<Rightarrow> bool" where
  "civil_ok c \<longleftrightarrow> c_year c < 10000 \<and> 1 \<le> c_month c \<and> c_month c \<le> 12
     \<and> 1 \<le> c_day c \<and> c_day c \<le> days_in_month (c_year c) (c_month c)
     \<and> c_hour c < 24 \<and> c_min c < 60 \<and> c_sec c < 60 \<and> c_nano c < 1000000000"

definition time_of :: "civil \<Rightarrow> int" where
  "time_of c = time_Date (int (c_year c)) (int (c_month c)) (int (c_day c)) (int (c_hour c)) (int (c_min c)) (int (c_sec c)) (int (c_nano c))"

definition dec_value :: "string \<Rightarrow> int" where
  "dec_value s = fold (\<lambda>c n. n * 10 + byte_digit c) s 0"

lemma byte_digit_char [simp]: "d < 10 \<Longrightarrow> byte_digit (digit_char d) = int d"
  by (simp add: byte_digit_def digit_char_def)

lemma dec_value_pad: "dec_value (pad w n) = int (n mod 10 ^ w)"
proof (induction w arbitrary: n)
  case (Suc w)
  have "n mod 10 ^ Suc w = 10 * (n div 10 mod 10 ^ w) + n mod 10"
    by (simp add: mod_mult2_eq)
  with Suc show ?case by (simp add: dec_value_def)
qed (simp add: dec_value_def)

lemma length_pad [simp]: "length (pad w n) = w"
  by (induction w arbitrary: n) simp_all

lemma list_of_length_2: "length s = 2 \<Longrightarrow> s = [s ! 0, s ! 1]"
  by (auto simp: numeral_2_eq_2 length_Suc_conv)

lemma list_of_length_4: "length s = 4 \<Longrightarrow> s = [s ! 0, s ! 1, s ! 2, s ! 3]"
  by (auto simp: eval_nat_numeral length_Suc_conv)

lemma list_of_length_9:
  "length s = 9 \<Longrightarrow> s = [s ! 0, s ! 1, s ! 2, s ! 3, s ! 4, s ! 5, s ! 6, s ! 7, s ! 8]"
  by (auto simp: eval_nat_numeral length_Suc_conv)

lemma pad_2_split: obtains a b where "pad 2 n = [a, b]"
  using list_of_length_2 [OF length_pad, of n] by blast

lemma pad_4_split: obtains a b c d where "pad 4 n = [a, b, c, d]"
  using list_of_length_4 [OF length_pad, of n] by blast

lemma pad_9_split: obtains a b c d e f g h i where "pad 9 n = [a, b, c, d, e, f, g, h, i]"
  using list_of_length_9 [OF length_pad, of n] by blast

lemma toInt_value: "toInt a b = dec_value [a, b]"
  by (simp add: toInt_def dec_value_def)

lemma ParseNano_stamp:
  assumes "civil_ok c"
  shows "ParseNano (stamp_text c) = Inr (time_of c)"
proof -
  obtain y0 y1 y2 y3 where y: "pad 4 (c_year c) = [y0, y1, y2, y3]" by (rule pad_4_split)
  obtain m0 m1 where m: "pad 2 (c_month c) = [m0, m1]" by (rule pad_2_split)
  obtain d0 d1 where d: "pad 2 (c_day c) = [d0, d1]" by (rule pad_2_split)
  obtain h0 h1 where h: "pad 2 (c_hour c) = [h0, h1]" by (rule pad_2_split)
  obtain i0 i1 where i: "pad 2 (c_min c) = [i0, i1]" by (rule pad_2_split)
  obtain s0 s1 where s: "pad 2 (c_sec c) = [s0, s1]" by (rule pad_2_split)
  obtain n0 n1 n2 n3 n4 n5 n6 n7 n8 where n: "pad 9 (c_nano c) = [n0, n1, n2, n3, n4, n5, n6, n7, n8]"
    by (rule pad_9_split)
  have "days_in_month (c_year c) (c_month c) < 100"
    using assms by (auto simp: civil_ok_def days_in_month_def nth_Cons split: nat.splits)
  with assms have small: "c_year c < 10 ^ 4" "c_month c < 10 ^ 2" "c_day c < 10 ^ 2" "c_hour c < 10 ^ 2" "c_min c < 10 ^ 2"
    "c_sec c < 10 ^ 2" "c_nano c < 10 ^ 9" by (auto simp: civil_ok_def)
  note v = dec_value_pad [of 4 "c_year c", unfolded y] dec_value_pad [of 2 "c_month c", unfolded m]
    dec_value_pad [of 2 "c_day c", unfolded d] dec_value_pad [of 2 "c_hour c", unfolded h]
    dec_value_pad [of 2 "c_min c", unfolded i] dec_value_pad [of 2 "c_sec c", unfolded s]
    dec_value_pad [of 9 "c_nano c", unfolded n]
  have year: "byte_digit y0 * 1000 + byte_digit y1 * 100 + byte_digit y2 * 10 + byte_digit y3 = int (c_year c)"
    using v(1) small(1) by (simp add: dec_value_def)
  have nano: "fold (\<lambda>k v. v * 10 + byte_digit (stamp_text c ! k)) [20..<29] 0 = int (c_nano c)"
    using v(7) small(7) by (simp add: dec_value_def upt_conv_Cons stamp_text_def y m d h i s n)
  show ?thesis
    using v(2-6) small(2-6) nano
    by (simp add: ParseNano_def Let_def) (simp add: stamp_text_def y m d h i s n toInt_value year time_of_def)
qed


definition civil_less :: "civil \<Rightarrow> civil \<Rightarrow> bool" where
  "civil_less a b \<longleftrightarrow> c_year a < c_year b \<or> c_year a = c_year b \<and> (c_month a < c_month b \<or> c_month a = c_month b
     \<and> (c_day a < c_day b \<or> c_day a = c_day b \<and> (c_hour a < c_hour b \<or> c_hour a = c_hour b
     \<and> (c_min a < c_min b \<or> c_min a = c_min b \<and> (c_sec a < c_sec b \<or> c_sec a = c_sec b \<and> c_nano a < c_nano b)))))"

lemma mixed_radix_less:
  fixes q :: int
  assumes "0 \<le> r" "r < B" "0 \<le> r'" "r' < B"
  shows "q * B + r < q' * B + r' \<longleftrightarrow> q < q' \<or> q = q' \<and> r < r'"
proof -
  have step: "a * B + x < b * B + y" if "a < b" "0 \<le> y" "x < B" for a b x y :: int
  proof -
    have "a * B + x < (a + 1) * B" using that by (simp add: algebra_simps)
    also have "\<dots> \<le> b * B" using that assms by (intro mult_right_mono) auto
    finally show ?thesis using that by simp
  qed
  show ?thesis
    using step [of q q' r' r] step [of q' q r r'] assms by (cases q q' rule: linorder_cases) auto
qed

lemma mixed_radix_eq:
  fixes q :: int
  assumes "0 \<le> r" "r < B" "0 \<le> r'" "r' < B"
  shows "q * B + r = q' * B + r' \<longleftrightarrow> q = q' \<and> r = r'"
  using mixed_radix_less [OF assms, of q q'] mixed_radix_less [OF assms(3,4,1,2), of q' q] by linarith

definition month_start :: "nat \<Rightarrow> nat \<Rightarrow> int" where
  "month_start y m = days_before_month (int m) + (if is_leap (int y) \<and> 3 \<le> m then 1 else 0)"

definition day_number :: "civil \<Rightarrow> int" where
  "day_number c = days_before_year (int (c_year c)) + month_start (c_year c) (c_month c) + int (c_day c) - 1"

definition year_days :: "nat \<Rightarrow> int" where
  "year_days y = (if is_leap (int y) then 366 else 365)"

lemma month_cases:
  assumes "1 \<le> m" "m \<le> (12::nat)"
  shows "m = 1 \<or> m = 2 \<or> m = 3 \<or> m = 4 \<or> m = 5 \<or> m = 6 \<or> m = 7 \<or> m = 8 \<or> m = 9 \<or> m = 10 \<or> m = 11 \<or> m = 12"
  using assms by arith

lemma month_start_step:
  assumes "1 \<le> m" "m < 12"
  shows "month_start y (Suc m) = month_start y m + int (days_in_month y m)"
  using month_cases [OF assms(1) less_imp_le [OF assms(2)]] assms(2)
  by (elim disjE) (simp_all add: month_start_def days_before_month_def days_in_month_def)

lemma month_start_mono:
  assumes "1 \<le> m" "m < m'" "m' \<le> 12"
  shows "month_start y m + int (days_in_month y m) \<le> month_start y m'"
  using assms(2,3)
proof (induction m')
  case (Suc k)
  show ?case
  proof (cases "k = m")
    case True
    with assms(1) Suc.prems show ?thesis by (simp add: month_start_step)
  next
    case False
    with Suc have "month_start y m + int (days_in_month y m) \<le> month_start y k" by simp
    with month_start_step [of k y] assms(1) Suc.prems False show ?thesis by simp
  qed
qed simp

lemma month_start_bounds:
  assumes "1 \<le> m" "m \<le> 12"
  shows "0 \<le> month_start y m" "month_start y m + int (days_in_month y m) \<le> year_days y"
proof -
  have "month_start y m + int (days_in_month y m) \<le> month_start y 12 + 31"
    using month_start_mono [of m 12 y] assms by (cases "m = 12") (simp_all add: days_in_month_def)
  also have "\<dots> = year_days y" by (simp add: month_start_def days_before_month_def year_days_def)
  finally show "month_start y m + int (days_in_month y m) \<le> year_days y" .
  have "month_start y 1 = 0" by (simp add: month_start_def days_before_month_def)
  then show "0 \<le> month_start y m"
    using month_start_mono [of 1 m y] assms by (cases "m = 1") simp_all
qed

lemma leap_count:
  fixes a b c a' b' c' Y :: int
  assumes "a' = a + (if p then 1 else 0)" "b' = b + (if q then 1 else 0)" "c' = c + (if r then 1 else 0)"
    and "r \<Longrightarrow> q" and "q \<Longrightarrow> p"
  shows "365 * Y + a' - b' + c' = (365 * (Y - 1) + a - b + c) + (if p \<and> (\<not> q \<or> r) then 366 else 365)"
  using assms by (cases p; cases q; cases r; simp)

lemma days_before_year_step: "days_before_year (int y + 1) = days_before_year (int y) + year_days y"
proof -
  have "z div k = (z - 1) div k + (if z mod k = 0 then 1 else 0)" if "0 < k" for z k :: int
  proof (cases "z mod k = 0")
    case True
    then have "z - 1 = k * (z div k - 1) + (k - 1)" by (auto simp: algebra_simps)
    with that True show ?thesis by (simp add: int_div_pos_eq [of "z - 1" k "z div k - 1" "k - 1"])
  next
    case False
    have "z - 1 = k * (z div k) + (z mod k - 1)" by simp
    moreover have "0 \<le> z mod k - 1" "z mod k - 1 < k" using that False pos_mod_bound [OF that, of z] pos_mod_sign [OF that, of z] by linarith+
    ultimately have "(z - 1) div k = z div k" by (rule int_div_pos_eq)
    with False show ?thesis by simp
  qed
  note step = this
  have f: "int y div 4 = (int y - 1) div 4 + (if int y mod 4 = 0 then 1 else 0)"
    "int y div 100 = (int y - 1) div 100 + (if int y mod 100 = 0 then 1 else 0)"
    "int y div 400 = (int y - 1) div 400 + (if int y mod 400 = 0 then 1 else 0)" by (rule step, simp)+
  have "int y mod 400 = 0 \<Longrightarrow> int y mod 100 = 0" "int y mod 100 = 0 \<Longrightarrow> int y mod 4 = 0"
    by (simp_all add: mod_eq_0_iff_dvd dvd_trans [of 100 400] dvd_trans [of 4 100])
  from leap_count [OF f this, of "int y"] show ?thesis
    unfolding days_before_year_def year_days_def is_leap_def add_diff_cancel_right' .
qed

lemma days_before_year_mono:
  assumes "y < y'"
  shows "days_before_year (int y) + year_days y \<le> days_before_year (int y')"
  using assms
proof (induction y')
  case (Suc k)
  have "0 \<le> year_days k" by (simp add: year_days_def)
  with Suc days_before_year_step [of k] days_before_year_step [of y] show ?case
    by (cases "k = y") (auto simp: add.commute)
qed simp

definition date_less :: "civil \<Rightarrow> civil \<Rightarrow> bool" where
  "date_less a b \<longleftrightarrow> c_year a < c_year b \<or> c_year a = c_year b \<and> (c_month a < c_month b \<or> c_month a = c_month b \<and> c_day a < c_day b)"

lemma day_number_less:
  assumes "civil_ok a" "civil_ok b" "date_less a b"
  shows "day_number a < day_number b"
proof -
  have ok: "1 \<le> c_month a" "c_month a \<le> 12" "1 \<le> c_month b" "c_month b \<le> 12" "1 \<le> c_day b"
    "int (c_day a) \<le> int (days_in_month (c_year a) (c_month a))" using assms by (auto simp: civil_ok_def)
  note bnd = month_start_bounds [OF ok(1,2), of "c_year a"] month_start_bounds [OF ok(3,4), of "c_year b"]
  from assms(3) consider "c_year a < c_year b" | "c_year a = c_year b" "c_month a < c_month b"
    | "c_year a = c_year b" "c_month a = c_month b" "c_day a < c_day b" unfolding date_less_def by blast
  then show ?thesis
  proof cases
    case 1
    with days_before_year_mono [OF 1] bnd ok(5,6) show ?thesis by (simp add: day_number_def)
  next
    case 2
    with month_start_mono [OF ok(1) 2(2) ok(4), of "c_year a"] ok(5,6) show ?thesis by (simp add: day_number_def)
  qed (simp add: day_number_def)
qed

lemma date_linear:
  obtains "date_less a b" | "date_less b a" | "c_year a = c_year b" "c_month a = c_month b" "c_day a = c_day b"
  unfolding date_less_def by (metis linorder_neqE_nat)

lemma date_less_asym: "date_less a b \<Longrightarrow> \<not> date_less b a"
  by (auto simp: date_less_def)

lemma date_less_neq: "date_less a b \<Longrightarrow> \<not> (c_year a = c_year b \<and> c_month a = c_month b \<and> c_day a = c_day b)"
  by (auto simp: date_less_def)

lemma day_number_less_iff:
  assumes "civil_ok a" "civil_ok b"
  shows "day_number a < day_number b \<longleftrightarrow> date_less a b"
    and "day_number a = day_number b \<longleftrightarrow> c_year a = c_year b \<and> c_month a = c_month b \<and> c_day a = c_day b"
proof -
  have "(day_number a < day_number b \<longleftrightarrow> date_less a b)
    \<and> (day_number a = day_number b \<longleftrightarrow> c_year a = c_year b \<and> c_month a = c_month b \<and> c_day a = c_day b)"
  proof (cases a b rule: date_linear)
    case 1
    with day_number_less [OF assms] date_less_neq [OF 1] show ?thesis by (metis less_irrefl)
  next
    case 2
    with day_number_less [OF assms(2,1)] date_less_neq [OF 2] date_less_asym [OF 2] show ?thesis
      by (metis less_asym less_irrefl)
  next
    case 3
    then show ?thesis by (simp add: day_number_def date_less_def)
  qed
  then show "day_number a < day_number b \<longleftrightarrow> date_less a b"
    and "day_number a = day_number b \<longleftrightarrow> c_year a = c_year b \<and> c_month a = c_month b \<and> c_day a = c_day b" by simp_all
qed

lemma time_of_radix:
  assumes "civil_ok c"
  shows "time_of c = (((day_number c * 24 + int (c_hour c)) * 60 + int (c_min c)) * 60 + int (c_sec c)) * 1000000000 + int (c_nano c)"
proof -
  have m: "1 \<le> c_month c" "c_month c \<le> 12" using assms by (auto simp: civil_ok_def)
  then have "(int (c_month c) - 1) div 12 = 0" "(int (c_month c) - 1) mod 12 = int (c_month c) - 1"
    by simp_all
  then show ?thesis
    by (simp add: time_of_def time_Date_def Let_def day_number_def month_start_def)
qed

lemma time_of_less_iff:
  assumes "civil_ok a" "civil_ok b"
  shows "time_of a < time_of b \<longleftrightarrow> civil_less a b"
proof -
  have bnd: "int (c_nano a) < 1000000000" "int (c_nano b) < 1000000000" "int (c_sec a) < 60" "int (c_sec b) < 60"
    "int (c_min a) < 60" "int (c_min b) < 60" "int (c_hour a) < 24" "int (c_hour b) < 24"
    using assms by (auto simp: civil_ok_def)
  show ?thesis
    unfolding time_of_radix [OF assms(1)] time_of_radix [OF assms(2)]
      mixed_radix_less [OF of_nat_0_le_iff bnd(1) of_nat_0_le_iff bnd(2)]
      mixed_radix_less [OF of_nat_0_le_iff bnd(3) of_nat_0_le_iff bnd(4)]
      mixed_radix_eq [OF of_nat_0_le_iff bnd(3) of_nat_0_le_iff bnd(4)]
      mixed_radix_less [OF of_nat_0_le_iff bnd(5) of_nat_0_le_iff bnd(6)]
      mixed_radix_eq [OF of_nat_0_le_iff bnd(5) of_nat_0_le_iff bnd(6)]
      mixed_radix_less [OF of_nat_0_le_iff bnd(7) of_nat_0_le_iff bnd(8)]
      mixed_radix_eq [OF of_nat_0_le_iff bnd(7) of_nat_0_le_iff bnd(8)]
      day_number_less_iff [OF assms] civil_less_def date_less_def of_nat_less_iff of_nat_eq_iff
    by blast
qed

lemma lex_append:
  fixes xs ys :: string
  assumes "length xs = length ys"
  shows "xs @ u < ys @ v \<longleftrightarrow> xs < ys \<or> xs = ys \<and> u < v"
  using assms by (induction xs ys rule: list_induct2) auto

lemma digit_char_less [simp]: "a < 10 \<Longrightarrow> b < 10 \<Longrightarrow> digit_char a < digit_char b \<longleftrightarrow> a < b"
  by (simp add: less_char_def digit_char_def del: of_char_of) (simp add: of_char_of)

lemma pad_inj: "a < 10 ^ w \<Longrightarrow> b < 10 ^ w \<Longrightarrow> pad w a = pad w b \<longleftrightarrow> a = b"
  by (metis dec_value_pad mod_less of_nat_eq_iff)

lemma pad_less: "a < 10 ^ w \<Longrightarrow> b < 10 ^ w \<Longrightarrow> pad w a < pad w b \<longleftrightarrow> a < b"
proof (induction w arbitrary: a b)
  case (Suc w)
  then have d: "a div 10 < 10 ^ w" "b div 10 < 10 ^ w" by auto
  have "a < b \<longleftrightarrow> a div 10 < b div 10 \<or> a div 10 = b div 10 \<and> a mod 10 < b mod 10"
  proof -
    have "int a = int (a div 10) * 10 + int (a mod 10)" "int b = int (b div 10) * 10 + int (b mod 10)"
      by (metis div_mult_mod_eq of_nat_add of_nat_mult of_nat_numeral)+
    then show ?thesis
      using mixed_radix_less [of "int (a mod 10)" 10 "int (b mod 10)" "int (a div 10)" "int (b div 10)"] by simp linarith
  qed
  with Suc.IH [OF d] pad_inj [OF d] show ?case by (auto simp: lex_append)
qed simp

lemma stamp_text_less_iff:
  assumes "civil_ok a" "civil_ok b"
  shows "stamp_text a < stamp_text b \<longleftrightarrow> civil_less a b"
proof -
  have dim: "civil_ok c \<Longrightarrow> days_in_month (c_year c) (c_month c) < 100" for c
    by (auto simp: civil_ok_def days_in_month_def nth_Cons split: nat.splits)
  have small: "c_year c < 10 ^ 4" "c_month c < 10 ^ 2" "c_day c < 10 ^ 2" "c_hour c < 10 ^ 2" "c_min c < 10 ^ 2"
    "c_sec c < 10 ^ 2" "c_nano c < 10 ^ 9" if "civil_ok c" for c
    using that dim [of c] by (auto simp: civil_ok_def)
  show ?thesis
    by (simp add: stamp_text_def lex_append civil_less_def
        pad_less [OF small(1) small(1)] pad_less [OF small(2) small(2)] pad_less [OF small(3) small(3)] pad_less [OF small(4) small(4)]
        pad_less [OF small(5) small(5)] pad_less [OF small(6) small(6)] pad_less [OF small(7) small(7)]
        pad_inj [OF small(1) small(1)] pad_inj [OF small(2) small(2)] pad_inj [OF small(3) small(3)] pad_inj [OF small(4) small(4)]
        pad_inj [OF small(5) small(5)] pad_inj [OF small(6) small(6)] assms)
qed


lemma civil_less_linear:
  assumes "\<not> civil_less a b" "\<not> civil_less b a"
  shows "a = b"
proof -
  have y0: "c_year a = c_year b" using assms by (cases "c_year a" "c_year b" rule: linorder_cases) (simp_all add: civil_less_def)
  have m1: "c_month a = c_month b" using assms by (cases "c_month a" "c_month b" rule: linorder_cases) (simp_all add: civil_less_def y0)
  have d2: "c_day a = c_day b" using assms by (cases "c_day a" "c_day b" rule: linorder_cases) (simp_all add: civil_less_def y0 m1)
  have h3: "c_hour a = c_hour b" using assms by (cases "c_hour a" "c_hour b" rule: linorder_cases) (simp_all add: civil_less_def y0 m1 d2)
  have m4: "c_min a = c_min b" using assms by (cases "c_min a" "c_min b" rule: linorder_cases) (simp_all add: civil_less_def y0 m1 d2 h3)
  have s5: "c_sec a = c_sec b" using assms by (cases "c_sec a" "c_sec b" rule: linorder_cases) (simp_all add: civil_less_def y0 m1 d2 h3 m4)
  have n6: "c_nano a = c_nano b" using assms by (cases "c_nano a" "c_nano b" rule: linorder_cases) (simp_all add: civil_less_def y0 m1 d2 h3 m4 s5)
  show ?thesis using y0 m1 d2 h3 m4 s5 n6 by (intro civil.equality) simp_all
qed

section \<open>Properties\<close>

text \<open>
  Time stamps survive the round trip. A valid civil time, printed as s6-log prints it, is parsed
  to its instant; two time stamps denote the same instant only if they are the same, and the
  byte-wise order of the printed texts is the chronological order of the parsed times.
\<close>

theorem timestamp_roundtrip:
  assumes "civil_ok a" and "civil_ok b"
  shows "ParseNano (stamp_text a) = Inr (time_of a)
    \<and> (ParseNano (stamp_text a) = ParseNano (stamp_text b) \<longleftrightarrow> a = b)
    \<and> (time_of a < time_of b \<longleftrightarrow> stamp_text a < stamp_text b)"
proof -
  have "a = b" if "time_of a = time_of b"
    using that time_of_less_iff [OF assms] time_of_less_iff [OF assms(2,1)] by (intro civil_less_linear) auto
  then show ?thesis
    using assms by (auto simp: ParseNano_stamp time_of_less_iff stamp_text_less_iff)
qed

definition demo_civil :: civil where
  "demo_civil = \<lparr>c_year = 2024, c_month = 2, c_day = 29, c_hour = 13, c_min = 1, c_sec = 2, c_nano = 123456789\<rparr>"

theorem timestamp_roundtrip_witness:
  "ParseNano (stamp_text demo_civil) = Inr (time_of demo_civil)
   \<and> time_of demo_civil < time_of (demo_civil\<lparr>c_month := 3, c_day := 1\<rparr>)"
proof -
  have ok: "civil_ok demo_civil" "civil_ok (demo_civil\<lparr>c_month := 3, c_day := 1\<rparr>)"
    by (simp_all add: civil_ok_def demo_civil_def days_in_month_def is_leap_def)
  have "stamp_text demo_civil < stamp_text (demo_civil\<lparr>c_month := 3, c_day := 1\<rparr>)"
    unfolding stamp_text_less_iff [OF ok] by (simp add: civil_less_def demo_civil_def)
  with timestamp_roundtrip [OF ok] show ?thesis by simp
qed

end
