(* ===== verification/S6_Logs.thy ===== *)
theory S6_Logs
  imports S6_Time
begin

text \<open>
  The log reader of the S6 service: \<^verbatim>\<open>umh-core/pkg/service/s6/s6.go\<close> (\<^verbatim>\<open>GetLogs\<close>,
  \<^verbatim>\<open>appendToRingBuffer\<close>, \<^verbatim>\<open>ParseLogsFromBytes\<close> and its unoptimised variant,
  \<^verbatim>\<open>findLatestRotatedFile\<close>), and \<^verbatim>\<open>ReadFileRange\<close> of \<^verbatim>\<open>pkg/service/filesystem/filesystem.go\<close>, which
  it reads with. Bytes are characters.

  The file system is reached through the interface \<^verbatim>\<open>filesystem.Service\<close>; its answers to one call
  of \<^verbatim>\<open>GetLogs\<close> are the record \<open>log_env\<close>.
\<close>

section \<open>Parsing log lines\<close>

record LogEntry =
  le_Timestamp :: int
  le_Content :: string

text \<open>\<^verbatim>\<open>bytes.Index(line, "  ")\<close>.\<close>

fun index_sep :: "string \<Rightarrow> nat option" where
  "index_sep [] = None"
| "index_sep (c # cs) = (if prefix ''  '' (c # cs) then Some 0 else map_option Suc (index_sep cs))"

definition parse_line :: "string \<Rightarrow> LogEntry" where
  "parse_line line =
     (case index_sep line of
        None \<Rightarrow> \<lparr>le_Timestamp = 0, le_Content = line\<rparr>
      | Some sep \<Rightarrow>
          if sep < 29 then \<lparr>le_Timestamp = 0, le_Content = line\<rparr>
          else (case ParseNano (take sep line) of
                  Inl _ \<Rightarrow> \<lparr>le_Timestamp = 0, le_Content = line\<rparr>
                | Inr ts \<Rightarrow> \<lparr>le_Timestamp = ts, le_Content = drop (sep + 2) line\<rparr>))"

text \<open>
  The single pass over the buffer, on what is left of it: the next line ends before the next
  newline or at the end of the buffer.
\<close>

function parse_lines :: "string \<Rightarrow> LogEntry list" where
  "parse_lines buf =
     (if buf = [] then []
      else let line = takeWhile (\<lambda>c. c \<noteq> newline) buf; rest = drop (Suc (length line)) buf
           in if line = [] then parse_lines rest else parse_line line # parse_lines rest)"
  by pat_completeness auto

termination
  by (relation "measure length") auto

declare parse_lines.simps [simp del]

definition trim_newline :: "string \<Rightarrow> string" where
  "trim_newline buf = (if buf \<noteq> [] \<and> last buf = newline then butlast buf else buf)"

definition ParseLogsFromBytes :: "string \<Rightarrow> LogEntry list" where
  "ParseLogsFromBytes buf = parse_lines (trim_newline buf)"

subsection \<open>The unoptimised parser\<close>

definition parseLogLine :: "string \<Rightarrow> LogEntry" where
  "parseLogLine line =
     (if length line < 28 then \<lparr>le_Timestamp = 0, le_Content = line\<rparr>
      else case index_sep line of
             None \<Rightarrow> \<lparr>le_Timestamp = 0, le_Content = line\<rparr>
           | Some sepIdx \<Rightarrow>
               if sepIdx > 29 then \<lparr>le_Timestamp = 0, le_Content = line\<rparr>
               else let content = (if sepIdx + 2 < length line then drop (sepIdx + 2) line else [])
                    in (case ParseNano (take sepIdx line) of
                          Inl _ \<Rightarrow> \<lparr>le_Timestamp = 0, le_Content = line\<rparr>
                        | Inr ts \<Rightarrow> \<lparr>le_Timestamp = ts, le_Content = content\<rparr>))"

definition ParseLogsFromBytes_Unoptimized :: "string \<Rightarrow> LogEntry list" where
  "ParseLogsFromBytes_Unoptimized content =
     filter (\<lambda>e. le_Timestamp e \<noteq> 0)
       (map parseLogLine (filter (\<lambda>l. l \<noteq> []) (split_newline (trim_space content))))"

section \<open>The ring of recent lines\<close>

definition S6MaxLines :: nat where "S6MaxLines = 10000"

text \<open>A nil slice of entries is None.\<close>

record logState =
  ls_logs :: "LogEntry list option"
  ls_inode :: u64
  ls_offset :: int
  ls_head :: nat
  ls_full :: bool

definition new_logState :: logState where
  "new_logState = \<lparr>ls_logs = None, ls_inode = 0, ls_offset = 0, ls_head = 0, ls_full = False\<rparr>"

definition zero_LogEntry :: LogEntry where
  "zero_LogEntry = \<lparr>le_Timestamp = 0, le_Content = []\<rparr>"

definition ring_put :: "LogEntry \<Rightarrow> logState \<Rightarrow> logState" where
  "ring_put e st =
     (let head = (ls_head st + 1) mod S6MaxLines
      in st\<lparr>ls_logs := map_option (\<lambda>l. l[ls_head st := e]) (ls_logs st), ls_head := head,
            ls_full := (if \<not> ls_full st \<and> head = 0 then True else ls_full st)\<rparr>)"

definition appendToRingBuffer :: "LogEntry list \<Rightarrow> logState \<Rightarrow> logState" where
  "appendToRingBuffer entries st =
     (let st0 = (if ls_logs st = None
                 then st\<lparr>ls_logs := Some (replicate S6MaxLines zero_LogEntry), ls_head := 0, ls_full := False\<rparr>
                 else st)
      in fold ring_put entries st0)"

definition copy_out :: "logState \<Rightarrow> LogEntry list" where
  "copy_out st =
     (let logs = (case ls_logs st of None \<Rightarrow> [] | Some l \<Rightarrow> l)
      in if ls_full st then drop (ls_head st) logs @ take (ls_head st) logs else take (ls_head st) logs)"

section \<open>Reading new lines\<close>

definition findLatestRotatedFile :: "string list \<Rightarrow> string" where
  "findLatestRotatedFile entries =
     (case entries of [] \<Rightarrow> [] | x # xs \<Rightarrow> fold (\<lambda>y m. if m < y then y else m) xs x)"

text \<open>
  \<^verbatim>\<open>ReadFileRange\<close> of \<^verbatim>\<open>filesystem.go\<close>: the file is read in chunks from the offset on, and the read
  stops early, with what it has, once half of the time left at its start is used up. The record
  holds what the operating system, the clock and the context answer: errors of opening, stating or
  seeking (the file content otherwise), whether the context has a deadline, whether it is late
  before the i-th chunk, the error of the i-th chunk, and the context's error before or during the
  call.
\<close>

definition S6FileReadChunkSize :: nat where "S6FileReadChunkSize = 1024 * 1024"

record read_env =
  re_ctx_before :: "goerror option"
  re_file :: "goerror + string"
  re_seek :: "goerror option"
  re_deadline :: bool
  re_late :: "nat \<Rightarrow> bool"
  re_chunk_err :: "nat \<Rightarrow> goerror option"
  re_ctx_done :: "goerror option"

lemma S6FileReadChunkSize_pos [simp]: "0 < S6FileReadChunkSize"
  by (simp add: S6FileReadChunkSize_def)

function read_chunks :: "read_env \<Rightarrow> nat \<Rightarrow> string \<Rightarrow> string \<Rightarrow> goerror + string" where
  "read_chunks env i rest buf =
     (if re_late env i then Inr buf
      else (case re_chunk_err env i of
              Some e \<Rightarrow> Inl e
            | None \<Rightarrow>
                if length rest < S6FileReadChunkSize then Inr (buf @ rest)
                else read_chunks env (Suc i) (drop S6FileReadChunkSize rest) (buf @ take S6FileReadChunkSize rest)))"
  by pat_completeness auto

termination
proof (relation "measure (\<lambda>(_, _, rest, _). length rest)", goal_cases)
  case (2 env i rest buf)
  then show ?case by (simp add: S6FileReadChunkSize_def)
qed simp

declare read_chunks.simps [simp del]

definition ReadFileRange :: "read_env \<Rightarrow> int \<Rightarrow> goerror + string \<times> int" where
  "ReadFileRange env from =
     (case re_ctx_before env of
        Some e \<Rightarrow> Inl e
      | None \<Rightarrow>
     (case re_ctx_done env of
        Some e \<Rightarrow> Inl e
      | None \<Rightarrow>
     (case re_file env of
        Inl e \<Rightarrow> Inl e
      | Inr content \<Rightarrow>
          if from \<ge> int (length content) then Inr ([], int (length content))
          else (case re_seek env of
                  Some e \<Rightarrow> Inl e
                | None \<Rightarrow>
                    if \<not> re_deadline env then Inl (ErrorNew 54 ''context deadline not set'')
                    else (case read_chunks env 0 (drop (nat from) content) [] of
                            Inl e \<Rightarrow> Inl e
                          | Inr buf \<Rightarrow> Inr (buf, from + int (length buf)))))))"

text \<open>What the file system answers to one call of \<^verbatim>\<open>GetLogs\<close>.\<close>

record log_env =
  ge_service_exists :: "goerror + bool"
  ge_file_exists :: "goerror + bool"
  ge_Stat :: "goerror + (int \<times> u64) option"
  ge_Glob :: "goerror + string list"
  ge_read_rotated :: "string \<Rightarrow> int \<Rightarrow> goerror + string \<times> int"
  ge_read_current :: "int \<Rightarrow> goerror + string \<times> int"
  ge_last_deployed :: int

definition ErrLogFileNotFound :: goerror where
  "ErrLogFileNotFound = ErrorNew 52 ''log file not found''"

definition log_ErrServiceNotExist :: goerror where
  "log_ErrServiceNotExist = ErrorNew 42 ''service does not exist''"

text \<open>Entries since the last deployment: from the first one that is later.\<close>

definition since_deployment :: "int \<Rightarrow> LogEntry list \<Rightarrow> LogEntry list" where
  "since_deployment lastDeployed out =
     (if lastDeployed = 0 then out else dropWhile (\<lambda>e. \<not> le_Timestamp e > lastDeployed) out)"

text \<open>Step 2: the bytes left in the rotated file, and the cursor for the current one.\<close>

definition detect_rotation :: "log_env \<Rightarrow> int \<Rightarrow> u64 \<Rightarrow> logState \<Rightarrow> (goerror + string) \<times> logState" where
  "detect_rotation env sz ino st =
     (if ls_inode st \<noteq> 0 \<and> (ls_inode st \<noteq> ino \<or> ls_offset st > sz) then
        let st1 = (if ls_logs st = None then st\<lparr>ls_logs := Some (replicate S6MaxLines zero_LogEntry)\<rparr> else st)
        in (case ge_Glob env of
              Inl e \<Rightarrow> (Inl e, st1)
            | Inr entries \<Rightarrow>
                let rotatedFile = findLatestRotatedFile entries;
                    rotatedContent =
                      (if rotatedFile = [] then []
                       else case ge_read_rotated env rotatedFile (ls_offset st) of Inl _ \<Rightarrow> [] | Inr (content, _) \<Rightarrow> content)
                in (Inr rotatedContent, st1\<lparr>ls_inode := ino, ls_offset := 0\<rparr>))
      else if ls_inode st = 0 then (Inr [], st\<lparr>ls_inode := ino\<rparr>)
      else (Inr [], st))"

definition append_content :: "string \<Rightarrow> logState \<Rightarrow> logState" where
  "append_content content st = (if content = [] then st else appendToRingBuffer (ParseLogsFromBytes content) st)"

definition GetLogs :: "log_env \<Rightarrow> string \<Rightarrow> logState \<Rightarrow> (goerror + LogEntry list) \<times> logState" where
  "GetLogs env logFile st =
     (case ge_service_exists env of
        Inl e \<Rightarrow> (Inl (Errorf ''failed to check if service exists: '' e), st)
      | Inr False \<Rightarrow> (Inl log_ErrServiceNotExist, st)
      | Inr True \<Rightarrow>
     (case ge_file_exists env of
        Inl e \<Rightarrow> (Inl (Errorf ''failed to check if log file exists: '' e), st)
      | Inr False \<Rightarrow> (Inl (Errorf (''path: '' @ logFile @ '' err :'') ErrLogFileNotFound), st)
      | Inr True \<Rightarrow>
     (case ge_Stat env of
        Inl e \<Rightarrow> (Inl e, st)
      | Inr None \<Rightarrow> (Inl (ErrorNew 53 (''stat returned nil for log file: '' @ logFile)), st)
      | Inr (Some (sz, ino)) \<Rightarrow>
     (case detect_rotation env sz ino st of
        (Inl e, st1) \<Rightarrow> (Inl e, st1)
      | (Inr rotatedContent, st1) \<Rightarrow>
     (case ge_read_current env (ls_offset st1) of
        Inl e \<Rightarrow> (Inl e, st1)
      | Inr (currentContent, newSize) \<Rightarrow>
          let st2 = append_content currentContent (append_content rotatedContent (st1\<lparr>ls_offset := newSize\<rparr>))
          in (Inr (since_deployment (ge_last_deployed env) (copy_out st2)), st2))))))"

section \<open>The ring holds the newest lines\<close>

text \<open>
  What \<^verbatim>\<open>GetLogs\<close> relies on: appending entries extends the history the ring stands for, and
  copying out gives the newest \<open>cap\<close> entries of that history, oldest first.
\<close>

locale line_ring =
  fixes holds :: "'s \<Rightarrow> 'e list \<Rightarrow> bool"
    and app :: "'e list \<Rightarrow> 's \<Rightarrow> 's"
    and out :: "'s \<Rightarrow> 'e list"
    and cap :: nat
  assumes app_holds: "holds s h \<Longrightarrow> holds (app es s) (h @ es)"
    and out_holds: "holds s h \<Longrightarrow> out s = drop (length h - cap) h"
begin

lemma out_bounded: "holds s h \<Longrightarrow> length (out s) = min (length h) cap"
  by (simp add: out_holds)

lemma out_app: "holds s h \<Longrightarrow> out (app es s) = drop (length h + length es - cap) (h @ es)"
  using out_holds [OF app_holds] by simp

lemma newest_kept:
  assumes "holds s h" and "length es \<le> cap"
  shows "suffix es (out (app es s))"
  using assms by (auto simp: out_app suffix_def)

end

definition ring_holds :: "logState \<Rightarrow> LogEntry list \<Rightarrow> bool" where
  "ring_holds st h \<longleftrightarrow>
     (case ls_logs st of
        None \<Rightarrow> h = [] \<and> ls_head st = 0 \<and> \<not> ls_full st
      | Some l \<Rightarrow> length l = S6MaxLines \<and> ls_head st = length h mod S6MaxLines
          \<and> ls_full st = (S6MaxLines \<le> length h)
          \<and> (\<forall>k < length h. length h \<le> k + S6MaxLines \<longrightarrow> l ! (k mod S6MaxLines) = h ! k))"

lemma S6MaxLines_pos [simp]: "0 < S6MaxLines"
  by (simp add: S6MaxLines_def)

lemma wrapped_first_time:
  "(\<not> (S6MaxLines \<le> n) \<and> (n mod S6MaxLines + 1) mod S6MaxLines = 0 \<or> S6MaxLines \<le> n) = (S6MaxLines \<le> Suc n)"
proof (cases "S6MaxLines \<le> n")
  case False
  then have "n mod S6MaxLines = n" by simp
  moreover have "Suc n mod S6MaxLines = 0 \<longleftrightarrow> Suc n = S6MaxLines"
  proof (cases "Suc n = S6MaxLines")
    case other: False
    with False have "Suc n < S6MaxLines" by simp
    then show ?thesis by simp
  qed simp
  ultimately show ?thesis using False by auto
qed simp

lemma ring_put_holds:
  assumes h: "ring_holds st h" and l: "ls_logs st = Some l"
  shows "ring_holds (ring_put e st) (h @ [e]) \<and> ls_logs (ring_put e st) \<noteq> None"
proof -
  let ?n = "length h"
  have r: "length l = S6MaxLines" "ls_head st = ?n mod S6MaxLines" "ls_full st = (S6MaxLines \<le> ?n)"
    "\<And>k. k < ?n \<Longrightarrow> ?n \<le> k + S6MaxLines \<Longrightarrow> l ! (k mod S6MaxLines) = h ! k"
    using h l by (auto simp: ring_holds_def)
  have slot: "l[?n mod S6MaxLines := e] ! (k mod S6MaxLines) = (h @ [e]) ! k"
    if "k < Suc ?n" "Suc ?n \<le> k + S6MaxLines" for k
  proof (cases "k = ?n")
    case True
    with r(1) show ?thesis by simp
  next
    case False
    with that have "k < ?n" "?n < k + S6MaxLines" by simp_all
    with mod_neq_near [OF this] r(4) [of k] show ?thesis by (simp add: nth_append)
  qed
  have "ls_full (ring_put e st) = (S6MaxLines \<le> Suc ?n)"
    using wrapped_first_time [of ?n] by (auto simp: ring_put_def Let_def r(2,3))
  with slot r(1,2) l show ?thesis
    by (simp add: ring_holds_def ring_put_def Let_def mod_Suc_eq)
qed

lemma ring_puts_hold:
  "ring_holds st h \<Longrightarrow> ls_logs st \<noteq> None \<Longrightarrow> ring_holds (fold ring_put es st) (h @ es)"
proof (induction es arbitrary: st h)
  case (Cons e es)
  from Cons.prems(2) obtain l where "ls_logs st = Some l" by auto
  from ring_put_holds [OF Cons.prems(1) this, of e] Cons.IH [of "ring_put e st" "h @ [e]"] show ?case by simp
qed simp

lemma ring_holds_alloc:
  assumes "ring_holds st h" and "ls_logs st = None"
  shows "ring_holds (st\<lparr>ls_logs := Some (replicate S6MaxLines zero_LogEntry)\<rparr>) h"
  using assms S6MaxLines_pos by (auto simp: ring_holds_def)

lemma ring_holds_cursor [simp]:
  "ring_holds (st\<lparr>ls_inode := i\<rparr>) h = ring_holds st h" "ring_holds (st\<lparr>ls_offset := off\<rparr>) h = ring_holds st h"
  by (simp_all add: ring_holds_def split: option.splits)

lemma append_holds:
  assumes "ring_holds st h"
  shows "ring_holds (appendToRingBuffer es st) (h @ es)"
proof (cases "ls_logs st")
  case None
  with assms have "st\<lparr>ls_logs := l, ls_head := 0, ls_full := False\<rparr> = st\<lparr>ls_logs := l\<rparr>" for l
    by (auto simp: ring_holds_def)
  with ring_puts_hold [OF ring_holds_alloc [OF assms None], of es] None show ?thesis
    by (simp add: appendToRingBuffer_def Let_def)
next
  case (Some l)
  with ring_puts_hold [OF assms, of es] show ?thesis by (simp add: appendToRingBuffer_def Let_def)
qed

lemma drop_ring:
  assumes l: "length l = c" and c: "0 < c" and full: "c \<le> length h"
    and slot: "\<And>k. k < length h \<Longrightarrow> length h \<le> k + c \<Longrightarrow> l ! (k mod c) = h ! k"
  shows "drop (length h mod c) l @ take (length h mod c) l = drop (length h - c) h"
proof (rule nth_equalityI)
  let ?n = "length h"
  let ?m = "?n mod c"
  have m: "?m < c" using c by simp
  show "length (drop ?m l @ take ?m l) = length (drop (?n - c) h)" using l m full by simp
  fix i assume "i < length (drop ?m l @ take ?m l)"
  then have i: "i < c" using l m by simp
  have "(drop ?m l @ take ?m l) ! i = l ! ((?m + i) mod c)"
  proof (cases "?m + i < c")
    case False
    then have "?m + i - c < c" using m i by linarith
    then have "(?m + i) mod c = ?m + i - c" using False by (simp add: le_mod_geq)
    moreover have "\<not> i < c - ?m" "i - (c - ?m) = ?m + i - c" using False m by linarith+
    ultimately show ?thesis using False l i by (simp add: nth_append)
  next
    case True
    then have "i < c - ?m" by linarith
    with True l show ?thesis by (simp add: nth_append)
  qed
  also have "(?m + i) mod c = (?n - c + i) mod c"
    using full by (metis le_add_diff_inverse2 mod_add_left_eq mod_add_self2)
  also have "l ! \<dots> = h ! (?n - c + i)" using i full by (intro slot) simp_all
  finally show "(drop ?m l @ take ?m l) ! i = drop (?n - c) h ! i" using full i by simp
qed

lemma copy_out_holds:
  assumes "ring_holds st h"
  shows "copy_out st = drop (length h - S6MaxLines) h"
proof (cases "ls_logs st")
  case None
  with assms show ?thesis by (simp add: ring_holds_def copy_out_def)
next
  case (Some l)
  with assms have r: "length l = S6MaxLines" "ls_head st = length h mod S6MaxLines" "ls_full st = (S6MaxLines \<le> length h)"
    "\<And>k. k < length h \<Longrightarrow> length h \<le> k + S6MaxLines \<Longrightarrow> l ! (k mod S6MaxLines) = h ! k"
    by (auto simp: ring_holds_def)
  show ?thesis
  proof (cases "S6MaxLines \<le> length h")
    case True
    with drop_ring [OF r(1) S6MaxLines_pos True r(4)] Some r(2,3) show ?thesis by (simp add: copy_out_def)
  next
    case False
    have "l ! k = h ! k" if "k < length h" for k using r(4) [of k] that False by simp
    then have "take (length h) l = h" using r(1) False by (intro nth_equalityI) simp_all
    with False Some r(2,3) show ?thesis by (simp add: copy_out_def)
  qed
qed

interpretation lines: line_ring ring_holds appendToRingBuffer copy_out S6MaxLines
  by unfold_locales (simp_all add: append_holds copy_out_holds)

section \<open>Parsing distributes over complete lines\<close>

definition line_aligned :: "string \<Rightarrow> bool" where
  "line_aligned s \<longleftrightarrow> s = [] \<or> last s = newline"

lemma line_aligned_append: "line_aligned a \<Longrightarrow> line_aligned b \<Longrightarrow> line_aligned (a @ b)"
  by (auto simp: line_aligned_def last_append)

lemma parse_lines_Nil [simp]: "parse_lines [] = []"
  by (simp add: parse_lines.simps)

lemma parse_lines_line:
  assumes "newline \<notin> set l"
  shows "parse_lines (l @ newline # rest) = (if l = [] then [] else [parse_line l]) @ parse_lines rest"
proof -
  have "takeWhile (\<lambda>c. c \<noteq> newline) (l @ newline # rest) = l"
    using assms by (subst takeWhile_append2) auto
  then show ?thesis by (subst parse_lines.simps) (simp add: Let_def)
qed

lemma parse_lines_last:
  assumes "newline \<notin> set l"
  shows "parse_lines l = (if l = [] then [] else [parse_line l])"
proof -
  have "takeWhile (\<lambda>c. c \<noteq> newline) l = l" using assms by (subst takeWhile_eq_all_conv) blast
  then show ?thesis by (subst parse_lines.simps) (simp only: Let_def, simp)
qed

lemma split_first_line:
  obtains (last) "newline \<notin> set s" | (line) l rest where "s = l @ newline # rest" "newline \<notin> set l"
  by (metis split_list_first)

lemma parse_lines_append:
  "line_aligned a \<Longrightarrow> parse_lines (a @ b) = parse_lines a @ parse_lines b"
proof (induction a rule: measure_induct_rule [of length])
  case (less a)
  show ?case
  proof (cases a rule: split_first_line)
    case last
    then have "a = []" using less.prems unfolding line_aligned_def by (metis last_in_set)
    then show ?thesis by simp
  next
    case (line l rest)
    then have "line_aligned rest" using less.prems by (auto simp: line_aligned_def split: if_splits)
    with less.IH [of rest] line show ?thesis by (simp add: parse_lines_line)
  qed
qed

lemma parse_lines_newline: "parse_lines (b @ [newline]) = parse_lines b"
proof (induction b rule: measure_induct_rule [of length])
  case (less b)
  show ?case
  proof (cases b rule: split_first_line)
    case last
    then show ?thesis using parse_lines_line [OF last, of "[]"] by (simp add: parse_lines_last)
  next
    case (line l rest)
    with less.IH [of rest] show ?thesis by (simp add: parse_lines_line)
  qed
qed

lemma ParseLogsFromBytes_lines: "ParseLogsFromBytes buf = parse_lines buf"
  by (auto simp: ParseLogsFromBytes_def trim_newline_def) (metis append_butlast_last_id parse_lines_newline)

lemma append_content_holds:
  assumes "ring_holds st h"
  shows "ring_holds (append_content c st) (h @ parse_lines c)"
  using assms lines.app_holds [OF assms] by (simp add: append_content_def ParseLogsFromBytes_lines)

section \<open>Reading a file in ranges\<close>

lemma read_chunks_prefix:
  "read_chunks env i rest buf = Inr out \<Longrightarrow> \<exists>k \<le> length rest. out = buf @ take k rest"
proof (induction env i rest buf rule: read_chunks.induct)
  case (1 env i rest buf)
  show ?case
  proof (cases "re_late env i \<or> re_chunk_err env i \<noteq> None \<or> length rest < S6FileReadChunkSize")
    case True
    with "1.prems" show ?thesis
      by (subst (asm) read_chunks.simps) (auto split: if_splits option.splits intro: exI [of _ "length rest"])
  next
    case False
    with "1.prems" have "read_chunks env (Suc i) (drop S6FileReadChunkSize rest) (buf @ take S6FileReadChunkSize rest) = Inr out"
      by (subst (asm) read_chunks.simps) auto
    with "1.IH" False obtain k where "k \<le> length rest - S6FileReadChunkSize"
      "out = (buf @ take S6FileReadChunkSize rest) @ take k (drop S6FileReadChunkSize rest)" by auto
    with False show ?thesis by (intro exI [of _ "S6FileReadChunkSize + k"]) (auto simp: take_add)
  qed
qed

lemma read_chunks_complete:
  assumes "\<And>j. \<not> re_late env j" and "\<And>j. re_chunk_err env j = None"
  shows "read_chunks env i rest buf = Inr (buf @ rest)"
proof (induction rest arbitrary: i buf rule: measure_induct_rule [of length])
  case (less rest)
  show ?case
  proof (cases "length rest < S6FileReadChunkSize")
    case True
    with assms show ?thesis by (subst read_chunks.simps) simp
  next
    case False
    then have "length (drop S6FileReadChunkSize rest) < length rest" by (simp add: S6FileReadChunkSize_def)
    from less.IH [OF this] False assms show ?thesis by (subst read_chunks.simps) simp
  qed
qed

lemma ReadFileRange_prefix:
  assumes "ReadFileRange env (int off) = Inr (buf, n)" and "re_file env = Inr content" and "off \<le> length content"
  shows "\<exists>k. n = int (off + k) \<and> off + k \<le> length content \<and> buf = take k (drop off content)"
proof (cases "off = length content")
  case True
  with assms show ?thesis by (auto simp: ReadFileRange_def split: option.splits)
next
  case False
  with assms have "read_chunks env 0 (drop off content) [] = Inr buf" "n = int off + int (length buf)"
    by (auto simp: ReadFileRange_def split: option.splits if_splits sum.splits)
  with read_chunks_prefix [of env 0 "drop off content" "[]" buf] assms(3) show ?thesis
    by auto
qed

lemma read_chunks_unhurried:
  assumes "\<And>j. \<not> re_late env j"
  shows "read_chunks env i rest buf = Inr out \<Longrightarrow> out = buf @ rest"
proof (induction rest arbitrary: i buf rule: measure_induct_rule [of length])
  case (less rest)
  show ?case
  proof (cases "length rest < S6FileReadChunkSize")
    case True
    with less.prems assms show ?thesis by (subst (asm) read_chunks.simps) (auto split: option.splits)
  next
    case False
    then have "length (drop S6FileReadChunkSize rest) < length rest" by (simp add: S6FileReadChunkSize_def)
    note IH = less.IH [OF this]
    have "read_chunks env (Suc i) (drop S6FileReadChunkSize rest) (buf @ take S6FileReadChunkSize rest) = Inr out"
      using less.prems False assms by (subst (asm) read_chunks.simps) (auto split: option.splits)
    from IH [OF this] show ?thesis by simp
  qed
qed

lemma read_range_unhurried:
  assumes "ReadFileRange env (int off) = Inr (buf, n)" and "re_file env = Inr content" and "off \<le> length content"
    and "\<forall>j. \<not> re_late env j"
  shows "buf = drop off content \<and> n = int (length content)"
  using assms read_chunks_unhurried [of env 0 "drop off content" "[]"]
  by (auto simp: ReadFileRange_def split: option.splits if_splits sum.splits)

lemma ReadFileRange_complete:
  assumes "re_ctx_before env = None" "re_ctx_done env = None" "re_seek env = None" "re_deadline env"
    and "re_file env = Inr content" and "\<And>j. \<not> re_late env j" and "\<And>j. re_chunk_err env j = None"
    and "off \<le> length content"
  shows "ReadFileRange env (int off) = Inr (drop off content, int (length content))"
  using assms by (auto simp: ReadFileRange_def read_chunks_complete)

section \<open>A log directory over time\<close>

text \<open>
  The log directory of one service as s6-log keeps it: the current file with its inode, and the
  rotated files by name. Between two polls the service writes lines and the file is rotated at most
  once; a rotated file gets a name later than all before, the new file another inode.
\<close>

record log_disk =
  ld_current :: string
  ld_inode :: u64
  ld_rotated :: "(string \<times> string) list"

datatype log_round = Grow string | Rotated string string u64 string

fun disk_round :: "log_round \<Rightarrow> log_disk \<Rightarrow> log_disk" where
  "disk_round (Grow w) d = d\<lparr>ld_current := ld_current d @ w\<rparr>"
| "disk_round (Rotated w1 name ino w2) d =
     \<lparr>ld_current = w2, ld_inode = ino, ld_rotated = ld_rotated d @ [(name, ld_current d @ w1)]\<rparr>"

fun written :: "log_round \<Rightarrow> string" where
  "written (Grow w) = w"
| "written (Rotated w1 name ino w2) = w1 @ w2"

fun round_ok :: "log_disk \<Rightarrow> log_round \<Rightarrow> bool" where
  "round_ok d (Grow w) = line_aligned w"
| "round_ok d (Rotated w1 name ino w2) =
     (line_aligned w1 \<and> line_aligned w2 \<and> ino \<noteq> 0 \<and> ino \<noteq> ld_inode d \<and> name \<noteq> []
      \<and> list_all (\<lambda>(n, _). n < name) (ld_rotated d))"

fun rounds_ok :: "log_disk \<Rightarrow> log_round list \<Rightarrow> bool" where
  "rounds_ok d [] = True"
| "rounds_ok d (r # rs) = (round_ok d r \<and> rounds_ok (disk_round r d) rs)"

definition full_read :: "string \<Rightarrow> read_env" where
  "full_read content = \<lparr>re_ctx_before = None, re_file = Inr content, re_seek = None, re_deadline = True,
     re_late = (\<lambda>_. False), re_chunk_err = (\<lambda>_. None), re_ctx_done = None\<rparr>"

definition disk_env :: "int \<Rightarrow> log_disk \<Rightarrow> log_env" where
  "disk_env deployed d =
     \<lparr>ge_service_exists = Inr True, ge_file_exists = Inr True,
      ge_Stat = Inr (Some (int (length (ld_current d)), ld_inode d)), ge_Glob = Inr (map fst (ld_rotated d)),
      ge_read_rotated = (\<lambda>name off. case map_of (ld_rotated d) name of
          None \<Rightarrow> Inl (ErrorNew 55 ''no such file'') | Some c \<Rightarrow> ReadFileRange (full_read c) off),
      ge_read_current = ReadFileRange (full_read (ld_current d)), ge_last_deployed = deployed\<rparr>"

fun poll_rounds :: "int \<Rightarrow> string \<Rightarrow> log_round list \<Rightarrow> log_disk \<Rightarrow> logState \<Rightarrow> log_disk \<times> logState" where
  "poll_rounds deployed f [] d st = (d, st)"
| "poll_rounds deployed f (r # rs) d st =
     poll_rounds deployed f rs (disk_round r d) (snd (GetLogs (disk_env deployed (disk_round r d)) f st))"

lemma full_read_complete [simp]:
  "off \<le> length content \<Longrightarrow> ReadFileRange (full_read content) (int off) = Inr (drop off content, int (length content))"
  by (rule ReadFileRange_complete) (simp_all add: full_read_def)

lemma full_read_start [simp]:
  "ReadFileRange (full_read content) 0 = Inr (content, int (length content))"
  using full_read_complete [of 0 content] by simp

lemma latest_is_new:
  assumes "\<And>n. n \<in> set ns \<Longrightarrow> n < name"
  shows "findLatestRotatedFile (ns @ [name]) = name"
proof -
  have "fold (\<lambda>y m. if m < y then y else m) xs x < name" if "x < name" "\<forall>n \<in> set xs. n < name" for xs and x :: string
    using that by (induction xs arbitrary: x) auto
  with assms show ?thesis by (cases ns) (simp_all add: findLatestRotatedFile_def)
qed

text \<open>The cursor is in step with the directory and stands for the entries \<open>h\<close>.\<close>

definition in_step :: "log_disk \<Rightarrow> logState \<Rightarrow> LogEntry list \<Rightarrow> bool" where
  "in_step d st h \<longleftrightarrow> ring_holds st h \<and> ls_inode st = ld_inode d \<and> ld_inode d \<noteq> 0
     \<and> ls_offset st = int (length (ld_current d))"

definition newest_since :: "int \<Rightarrow> LogEntry list \<Rightarrow> LogEntry list" where
  "newest_since deployed h = since_deployment deployed (drop (length h - S6MaxLines) h)"

lemma append_content_cursor [simp]:
  "ls_inode (append_content c st) = ls_inode st" "ls_offset (append_content c st) = ls_offset st"
proof -
  have "ls_inode (fold ring_put es s) = ls_inode s \<and> ls_offset (fold ring_put es s) = ls_offset s" for es s
    by (induction es arbitrary: s) (simp_all add: ring_put_def Let_def)
  then show "ls_inode (append_content c st) = ls_inode st" "ls_offset (append_content c st) = ls_offset st"
    by (simp_all add: append_content_def appendToRingBuffer_def Let_def)
qed

lemma poll_finish:
  assumes g: "detect_rotation (disk_env dep d) (int (length (ld_current d))) (ld_inode d) st = (Inr rot, cur)"
    and cur: "ring_holds cur h" "ls_inode cur = ld_inode d" "ld_inode d \<noteq> 0" "ls_offset cur = int off"
    and off: "off \<le> length (ld_current d)"
    and h': "h' = h @ parse_lines rot @ parse_lines (drop off (ld_current d))"
  shows "\<exists>st'. GetLogs (disk_env dep d) f st = (Inr (newest_since dep h'), st') \<and> in_step d st' h'"
proof -
  let ?st = "append_content (drop off (ld_current d)) (append_content rot (cur\<lparr>ls_offset := int (length (ld_current d))\<rparr>))"
  have "ring_holds ?st h'"
    using cur(1) unfolding h' append_assoc [symmetric] by (intro append_content_holds) simp
  then have "in_step d ?st h'" and "copy_out ?st = drop (length h' - S6MaxLines) h'"
    using cur by (simp_all add: in_step_def lines.out_holds)
  moreover have "GetLogs (disk_env dep d) f st = (Inr (since_deployment dep (copy_out ?st)), ?st)"
    using g cur(4) off by (simp add: GetLogs_def disk_env_def Let_def)
  ultimately show ?thesis by (simp add: newest_since_def)
qed

lemma poll_first:
  assumes "ld_inode d \<noteq> 0"
  shows "\<exists>st'. GetLogs (disk_env dep d) f new_logState = (Inr (newest_since dep (parse_lines (ld_current d))), st')
     \<and> in_step d st' (parse_lines (ld_current d))"
  using assms
  by (intro poll_finish [where cur = "new_logState\<lparr>ls_inode := ld_inode d\<rparr>" and off = 0 and h = "[]" and rot = "[]"])
    (simp_all add: detect_rotation_def new_logState_def ring_holds_def)

lemma poll_grow:
  assumes s: "in_step d st h" and d: "d' = disk_round (Grow w) d"
  shows "\<exists>st'. GetLogs (disk_env dep d') f st = (Inr (newest_since dep (h @ parse_lines w)), st')
     \<and> in_step d' st' (h @ parse_lines w)"
  using s unfolding d
  by (intro poll_finish [where cur = st and off = "length (ld_current d)" and h = h and rot = "[]"])
    (simp_all add: in_step_def detect_rotation_def)

lemma rotation_cursor:
  assumes s: "in_step d st h" and ok: "round_ok d (Rotated w1 name ino w2)" and d: "d' = disk_round (Rotated w1 name ino w2) d"
  shows "\<exists>cur. detect_rotation (disk_env dep d') (int (length (ld_current d'))) (ld_inode d') st = (Inr w1, cur)
     \<and> ring_holds cur h \<and> ls_inode cur = ino \<and> ls_offset cur = 0"
proof -
  let ?cur = "(if ls_logs st = None then st\<lparr>ls_logs := Some (replicate S6MaxLines zero_LogEntry)\<rparr> else st)\<lparr>ls_inode := ino, ls_offset := 0\<rparr>"
  have names: "n < name" if "n \<in> fst ` set (ld_rotated d)" for n
    using ok that by (auto simp: list_all_iff)
  then have fresh: "map_of (ld_rotated d) name = None" by (auto simp: map_of_eq_None_iff)
  have latest: "findLatestRotatedFile (map fst (ld_rotated d) @ [name]) = name"
    using names by (intro latest_is_new) simp
  have "detect_rotation (disk_env dep d') (int (length (ld_current d'))) (ld_inode d') st = (Inr w1, ?cur)"
    using s ok fresh latest unfolding d
    by (auto simp: detect_rotation_def disk_env_def in_step_def Let_def map_add_def map_of_append)
  moreover have "ring_holds ?cur h"
    using s ring_holds_alloc [of st h] by (auto simp: in_step_def)
  ultimately show ?thesis by auto
qed

lemma poll_rotated:
  assumes s: "in_step d st h" and ok: "round_ok d (Rotated w1 name ino w2)" and d: "d' = disk_round (Rotated w1 name ino w2) d"
  shows "\<exists>st'. GetLogs (disk_env dep d') f st = (Inr (newest_since dep (h @ parse_lines w1 @ parse_lines w2)), st')
     \<and> in_step d' st' (h @ parse_lines w1 @ parse_lines w2)"
proof -
  from rotation_cursor [OF assms, of dep] obtain cur where
    "detect_rotation (disk_env dep d') (int (length (ld_current d'))) (ld_inode d') st = (Inr w1, cur)"
    "ring_holds cur h" "ls_inode cur = ino" "ls_offset cur = 0" by blast
  with ok show ?thesis unfolding d
    by (intro poll_finish [where cur = cur and off = 0 and h = h and rot = w1]) simp_all
qed

lemma poll_round:
  assumes "in_step d st h" and "round_ok d r" and "d' = disk_round r d"
  shows "\<exists>st'. GetLogs (disk_env dep d') f st = (Inr (newest_since dep (h @ parse_lines (written r))), st')
     \<and> in_step d' st' (h @ parse_lines (written r))"
proof (cases r)
  case (Grow w)
  with poll_grow [OF assms(1)] assms(3) show ?thesis by simp
next
  case (Rotated w1 name ino w2)
  with assms(2) have "line_aligned w1" by simp
  with Rotated poll_rotated [OF assms(1), of w1 name ino w2] assms(2,3) show ?thesis
    by (simp add: parse_lines_append)
qed

lemma poll_rounds_in_step:
  assumes "in_step d st h" and "rounds_ok d rs" and "poll_rounds dep f rs d st = (d', st')"
    and "list_all (line_aligned \<circ> written) rs"
  shows "in_step d' st' (h @ parse_lines (concat (map written rs)))"
  using assms
proof (induction rs arbitrary: d st h)
  case (Cons r rs)
  from poll_round [OF Cons.prems(1), of r "disk_round r d" dep f] Cons.prems(2) obtain s1 where
    "snd (GetLogs (disk_env dep (disk_round r d)) f st) = s1"
    "in_step (disk_round r d) s1 (h @ parse_lines (written r))" by auto
  with Cons.IH [OF this(2)] Cons.prems(2,3,4) show ?case by (simp add: parse_lines_append)
qed simp

lemma written_aligned: "rounds_ok d rs \<Longrightarrow> list_all (line_aligned \<circ> written) rs"
proof (induction rs arbitrary: d)
  case (Cons r rs)
  then show ?case by (cases r) (auto simp: line_aligned_append)
qed simp

section \<open>Properties\<close>

text \<open>The answer of a poll after the rounds \<open>rs\<close>, with a poll at the start and after every round.\<close>

definition poll_after :: "int \<Rightarrow> string \<Rightarrow> log_disk \<Rightarrow> log_round list \<Rightarrow> goerror + LogEntry list" where
  "poll_after dep f d rs =
     (case poll_rounds dep f rs d (snd (GetLogs (disk_env dep d) f new_logState)) of
        (d', st) \<Rightarrow> fst (GetLogs (disk_env dep d') f st))"


definition demo_disk :: log_disk where
  "demo_disk = \<lparr>ld_current = ''first'' @ [newline], ld_inode = 7, ld_rotated = []\<rparr>"

definition demo_rounds :: "log_round list" where
  "demo_rounds = [Grow (''second'' @ [newline]),
     Rotated (''third'' @ [newline]) ''@4000000065012345678.s'' 8 (''2025-04-20 13:01:02.123456789  up'' @ [newline])]"


text \<open>
  A read error right after a rotation loses lines. When the file was rotated and the read of
  the new file fails, the poll answers with the error but has already moved its cursor to the new
  file; the next successful poll misses every line written to the old file since the poll before.
\<close>

theorem rotation_read_failure:
  assumes "ld_inode d \<noteq> 0" and "round_ok d (Rotated w1 name ino w2)" and "d' = disk_round (Rotated w1 name ino w2) d"
    and "failed = GetLogs ((disk_env dep d')\<lparr>ge_read_current := (\<lambda>_. Inl e)\<rparr>) f (snd (GetLogs (disk_env dep d) f new_logState))"
  shows "fst failed = Inl e
    \<and> fst (GetLogs (disk_env dep d') f (snd failed)) = Inr (newest_since dep (parse_lines (ld_current d) @ parse_lines w2))"
proof -
  let ?h = "parse_lines (ld_current d)"
  obtain s0 where s0: "snd (GetLogs (disk_env dep d) f new_logState) = s0" "in_step d s0 ?h"
    using poll_first [OF assms(1), of dep f] by auto
  obtain cur where cur: "detect_rotation (disk_env dep d') (int (length (ld_current d'))) (ld_inode d') s0 = (Inr w1, cur)"
    "ring_holds cur ?h" "ls_inode cur = ino" "ls_offset cur = 0"
    using rotation_cursor [OF s0(2) assms(2,3)] by blast
  have g: "detect_rotation ((disk_env dep d')\<lparr>ge_read_current := (\<lambda>_. Inl e)\<rparr>) sz i s
      = detect_rotation (disk_env dep d') sz i s" for sz i s
    unfolding detect_rotation_def disk_env_def log_env.update_convs log_env.select_convs ..
  have failed: "failed = (Inl e, cur)"
    using cur(1) g unfolding assms(4) s0(1) by (simp add: GetLogs_def) (simp add: disk_env_def)
  have "detect_rotation (disk_env dep d') (int (length (ld_current d'))) (ld_inode d') cur = (Inr [], cur)"
    using cur assms(2,3) by (simp add: detect_rotation_def)
  moreover have "ls_inode cur = ld_inode d'" "ld_inode d' \<noteq> 0" "ld_current d' = w2" "ls_offset cur = int 0"
    using cur(3,4) assms(2,3) by simp_all
  ultimately obtain st' where "GetLogs (disk_env dep d') f cur = (Inr (newest_since dep (?h @ parse_lines w2)), st')"
    using poll_finish [OF _ cur(2), of dep d' cur "[]" 0 "?h @ parse_lines w2" f] by auto
  with failed show ?thesis by simp
qed

theorem rotation_read_failure_witness:
  "fst (GetLogs (disk_env 0 (disk_round (Rotated (''lost'' @ [newline]) ''@1.s'' 8 (''kept'' @ [newline])) demo_disk)) ''current''
        (snd (GetLogs ((disk_env 0 (disk_round (Rotated (''lost'' @ [newline]) ''@1.s'' 8 (''kept'' @ [newline])) demo_disk))
                         \<lparr>ge_read_current := (\<lambda>_. Inl (ErrorNew 9 ''i/o timeout''))\<rparr>) ''current''
                (snd (GetLogs (disk_env 0 demo_disk) ''current'' new_logState)))))
     = Inr [\<lparr>le_Timestamp = 0, le_Content = ''first''\<rparr>, \<lparr>le_Timestamp = 0, le_Content = ''kept''\<rparr>]"
proof -
  have ok: "ld_inode demo_disk \<noteq> 0" "round_ok demo_disk (Rotated (''lost'' @ [newline]) ''@1.s'' 8 (''kept'' @ [newline]))"
    by code_simp+
  have "newest_since 0 (parse_lines (ld_current demo_disk) @ parse_lines (''kept'' @ [newline]))
      = [\<lparr>le_Timestamp = 0, le_Content = ''first''\<rparr>, \<lparr>le_Timestamp = 0, le_Content = ''kept''\<rparr>]" by code_simp
  with rotation_read_failure [OF ok refl refl] show ?thesis by simp
qed

section \<open>The two parsers\<close>

text \<open>A line as s6-log writes it, with a payload that neither starts the line nor ends it in white space.\<close>

definition s6_line :: "string \<Rightarrow> bool" where
  "s6_line l \<longleftrightarrow> index_sep l = Some 29 \<and> newline \<notin> set l \<and> 31 < length l
     \<and> \<not> is_space (hd l) \<and> \<not> is_space (last l)
     \<and> (case ParseNano (take 29 l) of Inl _ \<Rightarrow> False | Inr t \<Rightarrow> t \<noteq> 0)"

definition s6_file :: "string list \<Rightarrow> string" where
  "s6_file ls = concat (map (\<lambda>l. l @ [newline]) ls)"

lemma s6_line_entries:
  assumes "s6_line l"
  shows "parseLogLine l = parse_line l" and "le_Timestamp (parse_line l) \<noteq> 0"
  using assms by (auto simp: s6_line_def parseLogLine_def parse_line_def Let_def split: sum.splits)

lemma parse_lines_file:
  assumes "list_all s6_line ls"
  shows "parse_lines (s6_file ls) = map parse_line ls"
  using assms
proof (induction ls)
  case (Cons l ls)
  then have "newline \<notin> set l" "l \<noteq> []" by (auto simp: s6_line_def)
  with Cons parse_lines_line [of l "s6_file ls"] show ?case by (simp add: s6_file_def)
qed (simp add: s6_file_def)

lemma split_newline_file:
  assumes "list_all s6_line ls" and "newline \<notin> set l"
  shows "split_newline (s6_file ls @ l) = ls @ [l]"
  using assms
proof (induction ls)
  case (Cons k ls)
  then have "newline \<notin> set k" by (auto simp: s6_line_def)
  with Cons split_newline_line [of k "s6_file ls @ l"] show ?case by (simp add: s6_file_def)
qed (simp add: s6_file_def split_newline_last)

lemma trim_space_file:
  assumes "list_all s6_line (ls @ [l])"
  shows "trim_space (s6_file (ls @ [l])) = s6_file ls @ l"
proof -
  have l: "l \<noteq> []" "\<not> is_space (hd l)" "\<not> is_space (last l)" using assms by (auto simp: s6_line_def)
  have "s6_file ls @ l \<noteq> [] \<and> \<not> is_space (hd (s6_file ls @ l))"
    using assms l by (cases ls) (auto simp: s6_file_def s6_line_def hd_append)
  then have "dropWhile is_space (s6_file (ls @ [l])) = s6_file (ls @ [l])"
    using dropWhile_eq_self_iff [of is_space "s6_file (ls @ [l])"] l by (auto simp: s6_file_def hd_append split: if_splits)
  moreover have "dropWhile is_space (rev (s6_file (ls @ [l]))) = rev (s6_file ls @ l)"
    using l by (cases l rule: rev_cases) (simp_all add: s6_file_def)
  ultimately show ?thesis by (simp add: trim_space_def)
qed

text \<open>
  The single-pass parser agrees with the readable one. On every file of lines as s6-log writes
  them both give one entry per line, in order.
\<close>

theorem parsers_agree:
  assumes "list_all s6_line ls"
  shows "ParseLogsFromBytes (s6_file ls) = ParseLogsFromBytes_Unoptimized (s6_file ls)
    \<and> ParseLogsFromBytes (s6_file ls) = map parse_line ls"
proof (cases ls rule: rev_cases)
  case Nil
  then show ?thesis
    by (simp add: ParseLogsFromBytes_lines ParseLogsFromBytes_Unoptimized_def s6_file_def trim_space_def)
next
  case (snoc ks l)
  then have "newline \<notin> set l" "list_all s6_line ks" using assms by (auto simp: s6_line_def)
  then have "split_newline (trim_space (s6_file ls)) = ls"
    using assms unfolding snoc by (simp add: trim_space_file split_newline_file)
  moreover have "filter (\<lambda>l. l \<noteq> []) ls = ls" "map parseLogLine ls = map parse_line ls"
    "filter (\<lambda>e. le_Timestamp e \<noteq> 0) (map parse_line ls) = map parse_line ls"
    using assms by (auto simp: list_all_iff s6_line_entries filter_id_conv) (auto simp: s6_line_def)
  ultimately show ?thesis
    using parse_lines_file [OF assms] unfolding ParseLogsFromBytes_lines ParseLogsFromBytes_Unoptimized_def by metis
qed

theorem parsers_agree_witness:
  "map le_Content (ParseLogsFromBytes_Unoptimized (s6_file [''2025-04-20 13:01:02.123456789  a  b'', ''2025-04-20 13:01:03.000000000  c'']))
   = [''a  b'', ''c'']"
proof -
  let ?ls = "[''2025-04-20 13:01:02.123456789  a  b'', ''2025-04-20 13:01:03.000000000  c'']"
  have ok: "list_all s6_line ?ls" by code_simp
  have c: "map le_Content (map parse_line ?ls) = [''a  b'', ''c'']" by code_simp
  have "ParseLogsFromBytes_Unoptimized (s6_file ?ls) = map parse_line ?ls" using parsers_agree [OF ok] by (elim conjE) (simp only:)
  then show ?thesis using c by (simp only:)
qed

text \<open>On other lines they differ: the readable version drops a line without a time stamp.\<close>

lemma parsers_differ_on_raw_lines:
  "map le_Content (ParseLogsFromBytes (''panic: no time stamp here, but a line'' @ [newline])) = [''panic: no time stamp here, but a line'']
   \<and> ParseLogsFromBytes_Unoptimized (''panic: no time stamp here, but a line'' @ [newline]) = []"
  by code_simp

text \<open>
  Reading in ranges neither skips nor repeats a byte, however early each read gives up: what a
  successful read returns is the file from the offset on, and the offset it answers with is the one
  at which the next read continues. A read with enough time returns all that is left.
\<close>

theorem read_range_resumes:
  assumes "re_file env = Inr content" and "off \<le> length content" and "ReadFileRange env (int off) = Inr (buf, n)"
  shows "take off content @ buf = take (nat n) content
    \<and> int off \<le> n \<and> n \<le> int (length content)
    \<and> ((\<forall>j. \<not> re_late env j) \<longrightarrow> buf = drop off content \<and> n = int (length content))"
proof -
  obtain k where k: "n = int (off + k)" "off + k \<le> length content" "buf = take k (drop off content)"
    using ReadFileRange_prefix [OF assms(3,1,2)] by blast
  have "buf = drop off content \<and> n = int (length content)" if "\<forall>j. \<not> re_late env j"
    using read_range_unhurried [OF assms(3,1,2)] that by blast
  moreover have "take (nat n) content = take off content @ buf" using k by (simp only: nat_int take_add)
  ultimately show ?thesis using k by simp
qed

theorem read_range_resumes_witness:
  "ReadFileRange (full_read ''abc'') (int 1) = Inr (''bc'', 3) \<and> ''a'' @ ''bc'' = take (nat 3) ''abc''"
proof -
  have r: "ReadFileRange (full_read ''abc'') (int 1) = Inr (''bc'', 3)" by (subst full_read_complete) simp_all
  have f: "re_file (full_read ''abc'') = Inr ''abc''" "1 \<le> length ''abc''" by (simp_all add: full_read_def)
  from read_range_resumes [OF f r] r show ?thesis by simp
qed

end
