(* ===== verification/S6_Status.thy ===== *)
theory S6_Status
  imports S6_Time S6_FSM "HOL-Library.Log_Nat"
begin

text \<open>
  The status reader of the S6 service: \<^verbatim>\<open>umh-core/pkg/service/s6/status.go\<close> (\<^verbatim>\<open>parseS6StatusFile\<close>,
  \<^verbatim>\<open>buildFullServiceInfo\<close>, \<^verbatim>\<open>ExitHistory\<close>), \<^verbatim>\<open>Status\<close> of \<^verbatim>\<open>s6.go\<close>, and \<^verbatim>\<open>Parse\<close> of the vendored
  package \<^verbatim>\<open>cactus/tai64\<close>. The status file is the 43 byte record that s6-supervise writes. The answers of
  the file system are arguments. Bytes are characters, times nanoseconds since Go's zero time.
\<close>

unbundle bit_operations_syntax

section \<open>TAI64N labels\<close>

text \<open>\<^verbatim>\<open>hex.EncodeToString\<close> and \<^verbatim>\<open>strconv.ParseInt(s, 16, 64)\<close>.\<close>

definition hex_digit :: "nat \<Rightarrow> char" where
  "hex_digit d = ''0123456789abcdef'' ! d"

definition hex_encode :: "string \<Rightarrow> string" where
  "hex_encode bs = concat (map (\<lambda>b. [hex_digit (of_char b div 16), hex_digit (of_char b mod 16)]) bs)"

definition hex_value :: "char \<Rightarrow> int option" where
  "hex_value c =
     (let n = of_char c :: int
      in if 48 \<le> n \<and> n \<le> 57 then Some (n - 48)
         else if 97 \<le> n \<and> n \<le> 102 then Some (n - 87)
         else if 65 \<le> n \<and> n \<le> 70 then Some (n - 55) else None)"

fun hex_number :: "string \<Rightarrow> int \<Rightarrow> int option" where
  "hex_number [] acc = Some acc"
| "hex_number (c # cs) acc = (case hex_value c of None \<Rightarrow> None | Some d \<Rightarrow> hex_number cs (acc * 16 + d))"

definition err_syntax :: goerror where "err_syntax = ErrorNew 60 ''invalid syntax''"
definition err_range :: goerror where "err_range = ErrorNew 61 ''value out of range''"

definition ParseInt16 :: "string \<Rightarrow> goerror + int" where
  "ParseInt16 s =
     (let neg = (s \<noteq> [] \<and> hd s = CHR ''-'');
          ds = (if s \<noteq> [] \<and> (hd s = CHR ''-'' \<or> hd s = CHR ''+'') then tl s else s)
      in if ds = [] then Inl err_syntax
         else case hex_number ds 0 of
                None \<Rightarrow> Inl err_syntax
              | Some n \<Rightarrow>
                  if neg then (if n > 2 ^ 63 then Inl err_range else Inr (- n))
                  else if n \<ge> 2 ^ 63 then Inl err_range else Inr n)"

text \<open>The table of leap seconds: TAI label, offset, Unix time.\<close>

definition tia64nDifferences :: "(int \<times> int \<times> int) list" where
  "tia64nDifferences =
    [(0x4000000003c2670a, 10, 63072000), (0x4000000004b2580b, 11, 78796800), (0x4000000005a4ec0c, 12, 94694400),
     (0x4000000007861f8d, 13, 126230400), (0x400000000967530e, 14, 157766400), (0x400000000b48868f, 15, 189302400),
     (0x400000000d2b0b90, 16, 220924800), (0x400000000f0c3f11, 17, 252460800), (0x4000000010ed7292, 18, 283996800),
     (0x4000000012cea613, 19, 315532800), (0x40000000159fca94, 20, 362793600), (0x400000001780fe15, 21, 394329600),
     (0x4000000019623196, 22, 425865600), (0x400000001d25ea17, 23, 489024000), (0x4000000021dae518, 24, 567993600),
     (0x40000000259e9d99, 25, 631152000), (0x40000000277fd11a, 26, 662688000), (0x400000002a50f59b, 27, 709948800),
     (0x400000002c32291c, 28, 741484800), (0x400000002e135c9d, 29, 773020800), (0x4000000030e7241e, 30, 820454400),
     (0x4000000033b8489f, 31, 867715200), (0x40000000368c1020, 32, 915148800), (0x4000000043b71ba1, 33, 1136073600),
     (0x40000000495c07a2, 34, 1230768000), (0x400000004fef9323, 35, 1341100800), (0x4000000055932da4, 36, 1435708800),
     (0x40000000586846a5, 37, 1483228800)]"

definition epochTai64 :: int where "epochTai64 = 2 * 2 ^ 61 + 10"

text \<open>Both lookups walk the table backwards to the first row that is not later.\<close>

definition GetOffsetUnix :: "int \<Rightarrow> int" where
  "GetOffsetUnix utime =
     (case find (\<lambda>row. \<not> utime < snd (snd row)) (rev tia64nDifferences) of Some (_, off, _) \<Rightarrow> off | None \<Rightarrow> 10)"

definition getInvOffsetTai64 :: "int \<Rightarrow> int" where
  "getInvOffsetTai64 ttime =
     (case find (\<lambda>row. \<not> ttime < fst row) (rev tia64nDifferences) of Some (_, off, _) \<Rightarrow> off | None \<Rightarrow> 10)"

text \<open>\<^verbatim>\<open>time.Unix(sec, nsec)\<close>.\<close>

definition unix_time :: "int \<Rightarrow> int \<Rightarrow> int" where
  "unix_time sec nsec = (sec + 62135596800) * 1000000000 + nsec"

definition tai64_Parse :: "string \<Rightarrow> goerror + int" where
  "tai64_Parse s0 =
     (let s = (if s0 \<noteq> [] \<and> hd s0 = CHR ''@'' then tl s0 else s0)
      in if length s < 16 then Inl (ErrorNew 62 ''invalid tai64 time string'')
         else case ParseInt16 (take 16 s) of
                Inl e \<Rightarrow> Inl e
              | Inr tseconds \<Rightarrow>
                  let rest = drop 16 s in
                  (case (if length rest = 8 \<or> length rest = 16 then ParseInt16 (take 8 rest) else Inr 0) of
                     Inl e \<Rightarrow> Inl e
                   | Inr nanoseconds \<Rightarrow>
                       if tseconds \<ge> epochTai64
                       then Inr (unix_time (tseconds - epochTai64 - (getInvOffsetTai64 tseconds - 10)) nanoseconds)
                       else Inr (unix_time (- (epochTai64 - tseconds)) nanoseconds)))"

section \<open>The status file\<close>

record S6StatusData =
  sd_StampTime :: int
  sd_ReadyTime :: int
  sd_Pid :: int
  sd_Pgid :: int
  sd_Wstat :: u16
  sd_IsPaused :: bool
  sd_IsFinishing :: bool
  sd_IsWantingUp :: bool
  sd_IsReady :: bool

definition S6StatusFileSize :: nat where "S6StatusFileSize = 43"

definition byte_slice :: "nat \<Rightarrow> nat \<Rightarrow> string \<Rightarrow> string" where
  "byte_slice a n bs = take n (drop a bs)"

text \<open>\<^verbatim>\<open>binary.BigEndian\<close>.\<close>

definition big_endian :: "string \<Rightarrow> nat" where
  "big_endian bs = fold (\<lambda>b n. n * 256 + of_char b) bs 0"

text \<open>\<open>int(x)\<close> on an unsigned 64-bit value: the same bits, read as signed.\<close>

definition to_int64 :: "nat \<Rightarrow> int" where
  "to_int64 n = sint (of_nat n :: u64)"

text \<open>\<open>file\<close> is the outcome of reading the status file.\<close>

definition parseS6StatusFile :: "goerror + string \<Rightarrow> goerror + S6StatusData" where
  "parseS6StatusFile file =
     (case file of
        Inl e \<Rightarrow> Inl (Errorf ''failed to read status file: '' e)
      | Inr statusData \<Rightarrow>
          if length statusData \<noteq> S6StatusFileSize
          then Inl (ErrorNew 63 (''invalid status file size: got '' @ itoa (length statusData) @ '' bytes, expected '' @ itoa S6StatusFileSize))
          else
            let stampHex = ''@'' @ hex_encode (byte_slice 0 12 statusData) in
            (case tai64_Parse stampHex of
               Inl e \<Rightarrow> Inl (Errorf (''failed to parse stamp ('' @ stampHex @ ''): '') e)
             | Inr stampTime \<Rightarrow>
                 let readyHex = ''@'' @ hex_encode (byte_slice 12 12 statusData) in
                 (case tai64_Parse readyHex of
                    Inl e \<Rightarrow> Inl (Errorf (''failed to parse readystamp ('' @ readyHex @ ''): '') e)
                  | Inr readyTime \<Rightarrow>
                      let flags = (of_char (statusData ! 42) :: nat) in
                      Inr \<lparr>sd_StampTime = stampTime, sd_ReadyTime = readyTime,
                           sd_Pid = to_int64 (big_endian (byte_slice 24 8 statusData)),
                           sd_Pgid = to_int64 (big_endian (byte_slice 32 8 statusData)),
                           sd_Wstat = of_nat (big_endian (byte_slice 40 2 statusData)),
                           sd_IsPaused = (flags AND 1 \<noteq> 0), sd_IsFinishing = (flags AND 2 \<noteq> 0),
                           sd_IsWantingUp = (flags AND 4 \<noteq> 0), sd_IsReady = (flags AND 8 \<noteq> 0)\<rparr>)))"

section \<open>Exit history\<close>

definition S6_DTALLY_PACK :: nat where "S6_DTALLY_PACK = 14"

fun tally_records :: "nat \<Rightarrow> string \<Rightarrow> ExitEvent list" where
  "tally_records 0 bs = []"
| "tally_records (Suc n) bs =
     (let rec = take S6_DTALLY_PACK bs; rest = tally_records n (drop S6_DTALLY_PACK bs)
      in case tai64_Parse (''@'' @ hex_encode (take 12 rec)) of
           Inl _ \<Rightarrow> rest
         | Inr t \<Rightarrow> \<lparr>ee_Timestamp = t, ee_ExitCode = of_char (rec ! 12), ee_Signal = of_char (rec ! 13)\<rparr> # rest)"

text \<open>\<open>present\<close> and \<open>file\<close> are the outcomes of the existence check and of the read.\<close>

definition s6_ExitHistory :: "goerror + bool \<Rightarrow> goerror + string \<Rightarrow> goerror + ExitEvent list" where
  "s6_ExitHistory present file =
     (case present of
        Inl e \<Rightarrow> Inl e
      | Inr False \<Rightarrow> Inr []
      | Inr True \<Rightarrow>
     (case file of
        Inl e \<Rightarrow> Inl (Errorf ''failed to read dtally file: '' e)
      | Inr data \<Rightarrow>
          if length data mod S6_DTALLY_PACK \<noteq> 0
          then Inl (ErrorNew 64 (''dtally file size ('' @ itoa (length data) @ '' bytes) is not a multiple of record size ('' @ itoa S6_DTALLY_PACK @ '')''))
          else Inr (tally_records (length data div S6_DTALLY_PACK) data)))"

section \<open>Service information\<close>

text \<open>\<^verbatim>\<open>syscall.WaitStatus\<close> on Linux.\<close>

definition ws_Exited :: "u16 \<Rightarrow> bool" where
  "ws_Exited w = (w AND 127 = 0)"

definition ws_Signaled :: "u16 \<Rightarrow> bool" where
  "ws_Signaled w = (w AND 127 \<noteq> 127 \<and> w AND 127 \<noteq> 0)"

definition ws_ExitStatus :: "u16 \<Rightarrow> int" where
  "ws_ExitStatus w = uint (drop_bit 8 w AND 255)"

definition ws_Signal :: "u16 \<Rightarrow> int" where
  "ws_Signal w = uint (w AND 127)"

text \<open>The exit code of a service that is down; a signal is recorded as a negative number.\<close>

definition wait_exit_code :: "u16 \<Rightarrow> int" where
  "wait_exit_code w = (if ws_Exited w then ws_ExitStatus w else if ws_Signaled w then - ws_Signal w else uint w)"

text \<open>
  \<^verbatim>\<open>int64(d.Seconds())\<close>: the whole seconds and the fraction are added as double-precision numbers,
  rounded to 53 bits, ties to even, and the sum is truncated. \<open>float_frac\<close> is the nearest double of a
  quotient below one, as a multiple of \<open>2 ^ - s\<close>.
\<close>

definition round_half_even :: "nat \<Rightarrow> nat \<Rightarrow> nat" where
  "round_half_even n d =
     (let q = n div d; r = n mod d
      in if 2 * r < d then q else if 2 * r > d then q + 1 else if even q then q else q + 1)"

definition float_frac :: "nat \<Rightarrow> nat \<times> nat" where
  "float_frac nsec = (let s = 53 + (floorlog 2 (1000000000 div nsec) - 1) in (round_half_even (nsec * 2 ^ s) 1000000000, s))"

definition abs_seconds :: "nat \<Rightarrow> nat" where
  "abs_seconds d =
     (let sec = d div 1000000000; nsec = d mod 1000000000
      in if nsec = 0 then sec
         else let (m, s) = float_frac nsec; total = sec * 2 ^ s + m; excess = floorlog 2 total - 53
              in round_half_even total (2 ^ excess) * 2 ^ excess div 2 ^ s)"

text \<open>\<^verbatim>\<open>now.Sub(t)\<close> saturates at the range of a \<^verbatim>\<open>Duration\<close>.\<close>

definition time_Sub :: "int \<Rightarrow> int \<Rightarrow> int" where
  "time_Sub t u = max (- (2 ^ 63)) (min (2 ^ 63 - 1) (t - u))"

definition seconds_since :: "int \<Rightarrow> int \<Rightarrow> int" where
  "seconds_since now t = (let d = time_Sub now t in sgn d * int (abs_seconds (nat \<bar>d\<bar>)))"

record status_env =
  se_now :: int
  se_deployed :: int
  se_down_exists :: "goerror + bool"
  se_tally_exists :: "goerror + bool"
  se_tally_file :: "goerror + string"

definition buildFullServiceInfo :: "status_env \<Rightarrow> S6StatusData \<Rightarrow> goerror option \<times> ServiceInfo" where
  "buildFullServiceInfo env d =
     (let up = (sd_Pid d \<noteq> 0 \<and> \<not> sd_IsFinishing d);
          since = seconds_since (se_now env) (sd_StampTime d);
          code = wait_exit_code (sd_Wstat d);
          info = \<lparr>LastChangedAt = sd_StampTime d, LastReadyAt = sd_ReadyTime d, LastDeploymentTime = se_deployed env,
                   Status = (if up then ServiceUp else ServiceDown), ExitHistory = [],
                   Uptime = (if up then since else 0), DownTime = (if up then 0 else since),
                   ReadyTime = seconds_since (se_now env) (sd_ReadyTime d), Pid = sd_Pid d, Pgid = sd_Pgid d,
                   ExitCode = (if up then 0 else code), WantUp = (se_down_exists env \<noteq> Inr True),
                   IsPaused = sd_IsPaused d, IsFinishing = sd_IsFinishing d, IsWantingUp = sd_IsWantingUp d,
                   IsReady = sd_IsReady d, IsDownAndReady = (sd_IsReady d \<and> sd_Pid d = 0)\<rparr>
      in (case s6_ExitHistory (se_tally_exists env) (se_tally_file env) of
            Inl e \<Rightarrow> (Some (Errorf ''failed to get exit history: '' e), info)
          | Inr history \<Rightarrow> (None, info\<lparr>ExitHistory := history\<rparr>)))"

text \<open>The answers to the checks of the service directory, the supervise directory and the status file.\<close>

record status_files =
  sf_service :: "goerror + bool"
  sf_supervise :: "goerror + bool"
  sf_status :: "goerror + bool"
  sf_content :: "goerror + string"

definition s6_ServiceExists :: "goerror + bool \<Rightarrow> goerror + bool" where
  "s6_ServiceExists r = (case r of Inl e \<Rightarrow> Inl (Errorf ''failed to check if S6 service exists: '' e) | Inr b \<Rightarrow> Inr b)"

definition s6_Status :: "status_files \<Rightarrow> status_env \<Rightarrow> goerror option \<times> ServiceInfo" where
  "s6_Status f env =
     (let unknown = zero_ServiceInfo\<lparr>Status := ServiceUnknown\<rparr>
      in (case s6_ServiceExists (sf_service f) of
            Inl e \<Rightarrow> (Some (Errorf ''failed to check if service exists: '' e), zero_ServiceInfo)
          | Inr False \<Rightarrow> (Some ErrServiceNotExist, zero_ServiceInfo)
          | Inr True \<Rightarrow>
         (case sf_supervise f of
            Inl e \<Rightarrow> (Some (Errorf ''failed to check if supervise directory exists: '' e), unknown)
          | Inr False \<Rightarrow> (Some ErrServiceNotExist, unknown)
          | Inr True \<Rightarrow>
         (case sf_status f of
            Inl e \<Rightarrow> (Some (Errorf ''failed to check if status file exists: '' e), unknown)
          | Inr False \<Rightarrow> (Some ErrServiceNotExist, unknown)
          | Inr True \<Rightarrow>
         (case parseS6StatusFile (sf_content f) of
            Inl e \<Rightarrow> (Some (Errorf ''failed to parse status file: '' e), unknown)
          | Inr d \<Rightarrow> buildFullServiceInfo env d)))))"

section \<open>What s6 writes\<close>

text \<open>The bytes of a number, most significant first.\<close>

fun be_bytes :: "nat \<Rightarrow> nat \<Rightarrow> string" where
  "be_bytes 0 n = []"
| "be_bytes (Suc w) n = be_bytes w (n div 256) @ [char_of (n mod 256)]"

lemma length_be_bytes [simp]: "length (be_bytes w n) = w"
  by (induction w arbitrary: n) simp_all

lemma big_endian_snoc: "big_endian (bs @ [b]) = big_endian bs * 256 + of_char b"
  by (simp add: big_endian_def)

lemma big_endian_be_bytes: "big_endian (be_bytes w n) = n mod 256 ^ w"
proof (induction w arbitrary: n)
  case (Suc w)
  have "n mod 256 ^ Suc w = 256 * (n div 256 mod 256 ^ w) + n mod 256" by (simp add: mod_mult2_eq)
  with Suc show ?case by (simp add: big_endian_snoc)
qed (simp add: big_endian_def)

lemma of_char_less [simp]: "of_char c < (256 :: nat)"
  by (metis mod_less_divisor of_char_mod_256 zero_less_numeral)

lemma big_endian_less: "big_endian bs < 256 ^ length bs"
proof (induction bs rule: rev_induct)
  case (snoc b bs)
  have "big_endian bs * 256 + of_char b < (big_endian bs + 1) * 256" using of_char_less [of b] by simp
  also have "\<dots> \<le> 256 ^ length bs * 256" using snoc by (intro mult_right_mono) simp_all
  finally show ?case by (simp add: big_endian_snoc mult.commute)
qed (simp add: big_endian_def)

lemma hex_value_digit:
  assumes "d < 16"
  shows "hex_value (hex_digit d) = Some (int d)"
proof -
  from assms have "d \<in> set [0..<16]" by simp
  then show ?thesis by (simp add: upt_rec) (elim disjE; simp add: hex_value_def hex_digit_def)
qed

lemma hex_number_append: "hex_number (a @ b) acc = Option.bind (hex_number a acc) (hex_number b)"
  by (induction a arbitrary: acc) (auto split: option.splits)

lemma hex_encode_snoc:
  "hex_encode (bs @ [b]) = hex_encode bs @ [hex_digit (of_char b div 16), hex_digit (of_char b mod 16)]"
  by (simp add: hex_encode_def)

lemma length_hex_encode [simp]: "length (hex_encode bs) = 2 * length bs"
  by (induction bs) (simp_all add: hex_encode_def)

lemma hex_encode_append: "hex_encode (a @ b) = hex_encode a @ hex_encode b"
  by (simp add: hex_encode_def)

lemma hex_number_encode: "hex_number (hex_encode bs) 0 = Some (int (big_endian bs))"
proof (induction bs rule: rev_induct)
  case (snoc b bs)
  have d: "of_char b div 16 < (16 :: nat)" "of_char b mod 16 < (16 :: nat)"
    using of_char_less [of b] by (auto simp: less_mult_imp_div_less)
  have "of_char b = 16 * (of_char b div 16) + (of_char b mod 16 :: nat)" by simp
  then have "int (of_char b) = 16 * int (of_char b div 16) + int (of_char b mod 16)" by (metis of_nat_add of_nat_mult of_nat_numeral)
  then have "(int (big_endian bs) * 16 + int (of_char b div 16)) * 16 + int (of_char b mod 16) = int (big_endian (bs @ [b]))"
    by (simp add: big_endian_snoc)
  with snoc d show ?case by (simp add: hex_encode_snoc hex_number_append hex_value_digit)
qed (simp add: hex_encode_def big_endian_def)

lemma hex_digit_no_sign: "d < 16 \<Longrightarrow> hex_digit d \<noteq> CHR ''-'' \<and> hex_digit d \<noteq> CHR ''+''"
  using hex_value_digit [of d] by (auto simp: hex_value_def)

lemma ParseInt16_encode:
  assumes "bs \<noteq> []"
  shows "ParseInt16 (hex_encode bs) = (if 2 ^ 63 \<le> big_endian bs then Inl err_range else Inr (int (big_endian bs)))"
proof -
  from assms obtain b cs where b: "bs = b # cs" by (cases bs) auto
  have "of_char b div 16 < (16 :: nat)" using of_char_less [of b] by (auto simp: less_mult_imp_div_less)
  from hex_digit_no_sign [OF this] have "hd (hex_encode bs) \<noteq> CHR ''-''" "hd (hex_encode bs) \<noteq> CHR ''+''" "hex_encode bs \<noteq> []"
    by (simp_all add: b hex_encode_def)
  then show ?thesis by (simp add: ParseInt16_def Let_def hex_number_encode)
qed

text \<open>The label of an instant at or after the Unix epoch, as \<^verbatim>\<open>FormatNano\<close> and s6 compute it.\<close>

definition tai_label :: "nat \<Rightarrow> nat" where
  "tai_label sec = 2 ^ 62 + sec + nat (GetOffsetUnix (int sec))"

definition tain_pack :: "nat \<Rightarrow> nat \<Rightarrow> string" where
  "tain_pack sec nsec = be_bytes 8 (tai_label sec) @ be_bytes 4 nsec"

lemma length_tain_pack [simp]: "length (tain_pack sec nsec) = 12"
  by (simp add: tain_pack_def)

text \<open>A well-formed table: labels are Unix times plus offsets, offsets grow by one.\<close>

fun leap_table_ok :: "(int \<times> int \<times> int) list \<Rightarrow> bool" where
  "leap_table_ok [] = True"
| "leap_table_ok ((t, off, u) # rows) =
     (t = 2 ^ 62 + u + off \<and> (case rows of [] \<Rightarrow> off = 10 | (_, off', u') # _ \<Rightarrow> off = off' + 1 \<and> u' \<le> u) \<and> leap_table_ok rows)"

lemma leap_lookup:
  assumes "leap_table_ok rows" and "off = (case find (\<lambda>row. \<not> v < snd (snd row)) rows of Some (_, off, _) \<Rightarrow> off | None \<Rightarrow> 10)"
  shows "(case find (\<lambda>row. \<not> 2 ^ 62 + v + off < fst row) rows of Some (_, off, _) \<Rightarrow> off | None \<Rightarrow> 10) = off
    \<and> 10 \<le> off \<and> (case rows of [] \<Rightarrow> off = 10 | (_, o1, _) # _ \<Rightarrow> off \<le> o1)"
  using assms
proof (induction rows)
  case (Cons row rows)
  obtain t o1 u where row: "row = (t, o1, u)" by (cases row)
  show ?case
  proof (cases "v < u")
    case False
    have "10 \<le> o1" using Cons.prems(1) row
    proof (induction rows arbitrary: row t o1 u)
      case (Cons r rs)
      obtain t' o2 u' where r: "r = (t', o2, u')" by (cases r)
      from Cons.IH [of r t' o2 u'] Cons.prems r show ?case by auto
    qed auto
    with False Cons.prems row show ?thesis by auto
  next
    case True
    have rows: "leap_table_ok rows" "off = (case find (\<lambda>row. \<not> v < snd (snd row)) rows of Some (_, off, _) \<Rightarrow> off | None \<Rightarrow> 10)"
      using Cons.prems True row by auto
    from Cons.IH [OF rows] have IH: "(case find (\<lambda>row. \<not> 2 ^ 62 + v + off < fst row) rows of Some (_, off, _) \<Rightarrow> off | None \<Rightarrow> 10) = off"
      "10 \<le> off" "case rows of [] \<Rightarrow> off = 10 | (_, o1, _) # _ \<Rightarrow> off \<le> o1" by blast+
    have "off \<le> o1" using IH(3) Cons.prems(1) row by (cases rows) auto
    with True IH Cons.prems(1) row show ?thesis by auto
  qed
qed simp

lemma leap_table: "leap_table_ok (rev tia64nDifferences)"
  by code_simp

lemma tai_offset:
  "getInvOffsetTai64 (2 ^ 62 + v + GetOffsetUnix v) = GetOffsetUnix v \<and> 10 \<le> GetOffsetUnix v \<and> GetOffsetUnix v \<le> 37"
proof -
  have "case rev tia64nDifferences of [] \<Rightarrow> GetOffsetUnix v = 10 | (_, o1, _) # _ \<Rightarrow> GetOffsetUnix v \<le> o1"
    using leap_lookup [OF leap_table, of "GetOffsetUnix v" v] by (simp add: GetOffsetUnix_def)
  then have "GetOffsetUnix v \<le> 37" by (simp add: tia64nDifferences_def)
  with leap_lookup [OF leap_table, of "GetOffsetUnix v" v] show ?thesis
    by (simp add: GetOffsetUnix_def getInvOffsetTai64_def)
qed

lemma tai64_Parse_pack:
  assumes "sec < 2 ^ 61" and "nsec < 2 ^ 32"
  shows "tai64_Parse (''@'' @ hex_encode (tain_pack sec nsec)) = Inr (unix_time (int sec) (int nsec))"
proof -
  have off: "10 \<le> GetOffsetUnix (int sec)" "GetOffsetUnix (int sec) \<le> 37"
    "getInvOffsetTai64 (2 ^ 62 + int sec + GetOffsetUnix (int sec)) = GetOffsetUnix (int sec)"
    using tai_offset [of "int sec"] by auto
  have label: "tai_label sec < 2 ^ 63" "int (tai_label sec) = 2 ^ 62 + int sec + GetOffsetUnix (int sec)"
    using assms(1) off by (auto simp: tai_label_def)
  have be: "big_endian (be_bytes 8 (tai_label sec)) = tai_label sec" "big_endian (be_bytes 4 nsec) = nsec"
    using label(1) assms(2) by (simp_all add: big_endian_be_bytes)
  have s: "take 16 (hex_encode (tain_pack sec nsec)) = hex_encode (be_bytes 8 (tai_label sec))"
    "drop 16 (hex_encode (tain_pack sec nsec)) = hex_encode (be_bytes 4 nsec)"
    by (simp_all add: tain_pack_def hex_encode_append)
  have p: "ParseInt16 (hex_encode (be_bytes 8 (tai_label sec))) = Inr (int (tai_label sec))"
    "ParseInt16 (hex_encode (be_bytes 4 nsec)) = Inr (int nsec)"
    using ParseInt16_encode [of "be_bytes 8 (tai_label sec)"] ParseInt16_encode [of "be_bytes 4 nsec"] label(1) assms(2)
    by (simp_all add: be length_0_conv [symmetric] del: length_0_conv)
  have "epochTai64 \<le> int (tai_label sec)" "int (tai_label sec) - epochTai64 - (getInvOffsetTai64 (int (tai_label sec)) - 10) = int sec"
    using off label(2) by (simp_all add: epochTai64_def)
  with p show ?thesis by (simp add: tai64_Parse_def Let_def s length_tain_pack)
qed

section \<open>Properties\<close>

text \<open>The record s6-supervise writes, and what it stands for.\<close>

record s6_status =
  w_stamp :: "nat \<times> nat"
  w_ready :: "nat \<times> nat"
  w_pid :: nat
  w_pgid :: nat
  w_wstat :: nat
  w_paused :: bool
  w_finishing :: bool
  w_wantup :: bool
  w_isready :: bool

definition flags_of :: "s6_status \<Rightarrow> nat" where
  "flags_of w = of_bool (w_paused w) + 2 * of_bool (w_finishing w) + 4 * of_bool (w_wantup w) + 8 * of_bool (w_isready w)"

definition status_pack :: "s6_status \<Rightarrow> string" where
  "status_pack w = tain_pack (fst (w_stamp w)) (snd (w_stamp w)) @ tain_pack (fst (w_ready w)) (snd (w_ready w))
     @ be_bytes 8 (w_pid w) @ be_bytes 8 (w_pgid w) @ be_bytes 2 (w_wstat w)
     @ [char_of (flags_of w)]"

definition status_ok :: "s6_status \<Rightarrow> bool" where
  "status_ok w \<longleftrightarrow> fst (w_stamp w) < 2 ^ 61 \<and> snd (w_stamp w) < 2 ^ 32 \<and> fst (w_ready w) < 2 ^ 61 \<and> snd (w_ready w) < 2 ^ 32
     \<and> w_pid w < 2 ^ 63 \<and> w_pgid w < 2 ^ 63 \<and> w_wstat w < 2 ^ 16"

definition status_meaning :: "s6_status \<Rightarrow> S6StatusData" where
  "status_meaning w =
     \<lparr>sd_StampTime = unix_time (int (fst (w_stamp w))) (int (snd (w_stamp w))),
      sd_ReadyTime = unix_time (int (fst (w_ready w))) (int (snd (w_ready w))),
      sd_Pid = int (w_pid w), sd_Pgid = int (w_pgid w), sd_Wstat = of_nat (w_wstat w),
      sd_IsPaused = w_paused w, sd_IsFinishing = w_finishing w, sd_IsWantingUp = w_wantup w, sd_IsReady = w_isready w\<rparr>"

lemma to_int64_small: "n < 2 ^ 63 \<Longrightarrow> to_int64 n = int n"
  by (simp add: to_int64_def sint_uint signed_take_bit_eq_if_positive take_bit_nat_eq_self unsigned_of_nat
      bit_unsigned_iff signed_take_bit_int_eq_self)

lemma flag_byte: "of_char (char_of (flags_of w)) = flags_of w"
  by (cases "w_paused w"; cases "w_finishing w"; cases "w_wantup w"; cases "w_isready w"; simp add: flags_of_def)

lemma flag_bits:
  "flags_of w AND 1 \<noteq> 0 \<longleftrightarrow> w_paused w" "flags_of w AND 2 \<noteq> 0 \<longleftrightarrow> w_finishing w"
  "flags_of w AND 4 \<noteq> 0 \<longleftrightarrow> w_wantup w" "flags_of w AND 8 \<noteq> 0 \<longleftrightarrow> w_isready w"
proof -
  have t: "n AND 2 ^ k \<noteq> 0 \<longleftrightarrow> odd (n div 2 ^ k)" for n k :: nat
    by (simp add: and_exp_eq_0_iff_not_bit bit_iff_odd)
  have f: "odd (flags_of w) \<longleftrightarrow> w_paused w" "odd (flags_of w div 2) \<longleftrightarrow> w_finishing w"
    "odd (flags_of w div 4) \<longleftrightarrow> w_wantup w" "odd (flags_of w div 8) \<longleftrightarrow> w_isready w"
    by (cases "w_paused w"; cases "w_finishing w"; cases "w_wantup w"; cases "w_isready w"; simp add: flags_of_def)+
  show "flags_of w AND 1 \<noteq> 0 \<longleftrightarrow> w_paused w" using t [of "flags_of w" 0] f(1) by (simp only: power_0 div_by_1)
  show "flags_of w AND 2 \<noteq> 0 \<longleftrightarrow> w_finishing w" using t [of "flags_of w" 1] f(2) by (simp only: power_one_right)
  show "flags_of w AND 4 \<noteq> 0 \<longleftrightarrow> w_wantup w" using t [of "flags_of w" 2] f(3) by simp
  show "flags_of w AND 8 \<noteq> 0 \<longleftrightarrow> w_isready w" using t [of "flags_of w" 3] f(4) by simp
qed

lemma slice_head: "length a = n \<Longrightarrow> byte_slice 0 n (a @ b) = a"
  by (simp add: byte_slice_def)

lemma slice_skip: "length a = n \<Longrightarrow> n \<le> k \<Longrightarrow> byte_slice k m (a @ b) = byte_slice (k - n) m b"
  by (simp add: byte_slice_def)

lemma nth_skip: "length a = n \<Longrightarrow> n \<le> k \<Longrightarrow> (a @ b) ! k = b ! (k - n)"
  by (simp add: nth_append)

lemma status_slices:
  "length (status_pack w) = 43"
  "byte_slice 0 12 (status_pack w) = tain_pack (fst (w_stamp w)) (snd (w_stamp w))"
  "byte_slice 12 12 (status_pack w) = tain_pack (fst (w_ready w)) (snd (w_ready w))"
  "byte_slice 24 8 (status_pack w) = be_bytes 8 (w_pid w)"
  "byte_slice 32 8 (status_pack w) = be_bytes 8 (w_pgid w)"
  "byte_slice 40 2 (status_pack w) = be_bytes 2 (w_wstat w)"
  "status_pack w ! 42 = char_of (flags_of w)"
  unfolding status_pack_def
  by (simp_all add: slice_head slice_skip [OF length_tain_pack] slice_skip [OF length_be_bytes]
      nth_skip [OF length_tain_pack] nth_skip [OF length_be_bytes] del: append_assoc nth_append)

lemma status_pack_parsed:
  assumes "status_ok w"
  shows "parseS6StatusFile (Inr (status_pack w)) = Inr (status_meaning w)"
proof -
  have t: "tai64_Parse (''@'' @ hex_encode (tain_pack (fst (w_stamp w)) (snd (w_stamp w)))) = Inr (sd_StampTime (status_meaning w))"
    "tai64_Parse (''@'' @ hex_encode (tain_pack (fst (w_ready w)) (snd (w_ready w)))) = Inr (sd_ReadyTime (status_meaning w))"
    using assms by (simp_all only: tai64_Parse_pack status_ok_def status_meaning_def S6StatusData.select_convs)
  have n: "to_int64 (big_endian (be_bytes 8 (w_pid w))) = int (w_pid w)" "to_int64 (big_endian (be_bytes 8 (w_pgid w))) = int (w_pgid w)"
    "big_endian (be_bytes 2 (w_wstat w)) = w_wstat w"
    using assms by (simp_all add: big_endian_be_bytes status_ok_def to_int64_small)
  show ?thesis
    unfolding parseS6StatusFile_def Let_def sum.case status_slices S6StatusFileSize_def t n flag_byte flag_bits
    by (simp add: status_meaning_def)
qed

text \<open>
  The status file is read exactly. Every record s6-supervise can write, packed in its 43 byte
  format, is read back field by field; a file of any other length is refused.
\<close>

theorem status_roundtrip:
  assumes "status_ok w"
  shows "parseS6StatusFile (Inr (status_pack w)) = Inr (status_meaning w)
    \<and> (length bs \<noteq> length (status_pack w) \<longrightarrow> isl (parseS6StatusFile (Inr bs)))"
  using status_pack_parsed [OF assms] by (simp add: status_slices(1) parseS6StatusFile_def S6StatusFileSize_def)

definition demo_status :: s6_status where
  "demo_status = \<lparr>w_stamp = (1700000000, 5), w_ready = (1700000001, 0), w_pid = 4711, w_pgid = 4711, w_wstat = 0,
     w_paused = False, w_finishing = False, w_wantup = True, w_isready = True\<rparr>"

lemma demo_status_ok: "status_ok demo_status"
  by (simp add: status_ok_def demo_status_def)

theorem status_roundtrip_witness:
  "(case parseS6StatusFile (Inr (status_pack demo_status)) of Inl _ \<Rightarrow> False
      | Inr d \<Rightarrow> sd_Pid d = 4711 \<and> sd_IsReady d \<and> \<not> sd_IsFinishing d)
   \<and> isl (parseS6StatusFile (Inr ''short''))"
proof -
  have "length ''short'' \<noteq> length (status_pack demo_status)" by (simp add: status_slices(1))
  with status_roundtrip [OF demo_status_ok, of "''short''"] show ?thesis
    by (simp add: status_meaning_def demo_status_def)
qed

text \<open>A record of the death tally: time, exit code, signal.\<close>

type_synonym death = "nat \<times> nat \<times> nat \<times> nat"

fun tally_pack :: "death \<Rightarrow> string" where
  "tally_pack (sec, nsec, code, sig) = tain_pack sec nsec @ [char_of code, char_of sig]"

fun tally_ok :: "death \<Rightarrow> bool" where
  "tally_ok (sec, nsec, code, sig) = (sec < 2 ^ 61 \<and> nsec < 2 ^ 32 \<and> code < 256 \<and> sig < 256)"

fun tally_event :: "death \<Rightarrow> ExitEvent" where
  "tally_event (sec, nsec, code, sig) =
     \<lparr>ee_Timestamp = unix_time (int sec) (int nsec), ee_ExitCode = int code, ee_Signal = int sig\<rparr>"

lemma length_tally_pack [simp]: "length (tally_pack x) = S6_DTALLY_PACK"
  by (cases x) (simp add: S6_DTALLY_PACK_def)

lemma tally_records_step:
  assumes "tally_ok x"
  shows "tally_records (Suc n) (tally_pack x @ bs) = tally_event x # tally_records n bs"
proof (cases x)
  case (fields sec nsec code sig)
  have c: "(of_char (char_of k) :: int) = int k" if "k < 256" for k :: nat
    using that by (metis char_of_nat int_ops(3) of_char_of mod_less of_nat_of_char)
  have "take 12 (tally_pack x) = tain_pack sec nsec" "tally_pack x ! 12 = char_of code" "tally_pack x ! 13 = char_of sig"
    by (simp_all add: fields nth_append)
  moreover have "take S6_DTALLY_PACK (tally_pack x @ bs) = tally_pack x" "drop S6_DTALLY_PACK (tally_pack x @ bs) = bs" by simp_all
  ultimately show ?thesis
    using assms tai64_Parse_pack [of sec nsec] c [of code] c [of sig]
    by (simp only: tally_records.simps Let_def fields tally_ok.simps sum.case tally_event.simps)
qed

lemma tally_records_pack:
  "list_all tally_ok xs \<Longrightarrow> tally_records (length xs) (concat (map tally_pack xs)) = map tally_event xs"
  by (induction xs) (simp_all add: tally_records_step del: tally_records.simps(2))

lemma exit_history_pack:
  assumes "list_all tally_ok xs"
  shows "s6_ExitHistory (Inr True) (Inr (concat (map tally_pack xs))) = Inr (map tally_event xs)"
proof -
  have "length (concat (map tally_pack xs)) = length xs * S6_DTALLY_PACK" by (induction xs) simp_all
  moreover have "0 < S6_DTALLY_PACK" by (simp add: S6_DTALLY_PACK_def)
  ultimately show ?thesis using tally_records_pack [OF assms] by (simp add: s6_ExitHistory_def)
qed

lemma unat_and_127: "unat (w AND 127 :: u16) = unat w mod 128"
proof -
  have "w AND 127 = take_bit 7 w" by (simp add: take_bit_eq_mask mask_eq_exp_minus_1)
  then show ?thesis by (simp only: unsigned_take_bit_eq) (simp add: take_bit_eq_mod)
qed

lemma word_0_iff_unat: "(w :: u16) = 0 \<longleftrightarrow> unat w = 0"
  by (simp add: unat_eq_0)

lemma word_127_iff_unat: "(w :: u16) = 127 \<longleftrightarrow> unat w = 127"
  using word_unat_eq_iff [of w 127] by simp

lemma wait_status_exited:
  assumes "code < 256"
  shows "ws_Exited (of_nat (256 * code))" "ws_ExitStatus (of_nat (256 * code)) = int code"
proof -
  have u: "unat (of_nat (256 * code) :: u16) = 256 * code"
    using assms by (simp add: unsigned_of_nat take_bit_nat_eq_self del: of_nat_mult)
  have "256 * code mod 128 = 0" by presburger
  then show "ws_Exited (of_nat (256 * code))"
    unfolding ws_Exited_def word_0_iff_unat unat_and_127 u .
  have "drop_bit 8 v AND 255 = take_bit 8 (drop_bit 8 v)" for v :: u16
    by (simp add: take_bit_eq_mask mask_eq_exp_minus_1)
  then have "unat (drop_bit 8 (of_nat (256 * code) :: u16) AND 255) = take_bit 8 (drop_bit 8 (256 * code))"
    by (simp only: unsigned_take_bit_eq unsigned_drop_bit_eq u) (use assms in \<open>simp add: take_bit_nat_eq_self\<close>)
  also have "\<dots> = code" using assms by (simp add: drop_bit_eq_div take_bit_nat_eq_self)
  finally have "unat (drop_bit 8 (of_nat (256 * code) :: u16) AND 255) = code" .
  then show "ws_ExitStatus (of_nat (256 * code)) = int code" unfolding ws_ExitStatus_def by (metis uint_nat)
qed

lemma wait_status_signaled:
  assumes "0 < sig" "sig < 127" "n = sig \<or> n = sig + 128"
  shows "\<not> ws_Exited (of_nat n)" "ws_Signaled (of_nat n)" "ws_Signal (of_nat n) = int sig"
proof -
  have u: "unat (of_nat n :: u16) = n" using assms by (auto simp: unsigned_of_nat take_bit_nat_eq_self)
  have m: "unat (of_nat n AND 127 :: u16) = sig" using assms by (auto simp: unat_and_127 u)
  show "\<not> ws_Exited (of_nat n)" using m assms(1) by (simp add: ws_Exited_def word_0_iff_unat)
  show "ws_Signaled (of_nat n)" using m assms(1,2) by (simp add: ws_Signaled_def word_0_iff_unat word_127_iff_unat)
  show "ws_Signal (of_nat n) = int sig" using m by (simp add: ws_Signal_def flip: m)
qed

text \<open>
  The reported state is the one s6 recorded. For a readable service directory \<^verbatim>\<open>Status\<close> reports the
  service up exactly when it has a process that is not finishing, and down otherwise; a service
  that exited shows its exit code, one that was killed the negative signal number, with or without a
  core dump; the exit history is the recorded one.
\<close>

theorem status_exact:
  assumes "status_ok w" and "list_all tally_ok deaths"
    and "sf_service f = Inr True" "sf_supervise f = Inr True" "sf_status f = Inr True" "sf_content f = Inr (status_pack w)"
    and "se_tally_exists env = Inr True" "se_tally_file env = Inr (concat (map tally_pack deaths))"
  shows "\<exists>info. s6_Status f env = (None, info)
    \<and> Status info = (if w_pid w \<noteq> 0 \<and> \<not> w_finishing w then ServiceUp else ServiceDown)
    \<and> Pid info = int (w_pid w) \<and> (IsDownAndReady info \<longleftrightarrow> w_isready w \<and> w_pid w = 0)
    \<and> ExitHistory info = map tally_event deaths
    \<and> (Status info = ServiceDown \<longrightarrow>
         (\<forall>code < 256. w_wstat w = 256 * code \<longrightarrow> ExitCode info = int code)
         \<and> (\<forall>sig < 127. 0 < sig \<and> (w_wstat w = sig \<or> w_wstat w = sig + 128) \<longrightarrow> ExitCode info = - int sig))"
proof -
  have p: "parseS6StatusFile (Inr (status_pack w)) = Inr (status_meaning w)"
    by (rule status_pack_parsed [OF assms(1)])
  define info where "info = snd (buildFullServiceInfo env (status_meaning w))"
  note info = info_def buildFullServiceInfo_def Let_def status_meaning_def exit_history_pack [OF assms(2)] assms(7,8)
  have i: "buildFullServiceInfo env (status_meaning w) = (None, info)"
    "Status info = (if w_pid w \<noteq> 0 \<and> \<not> w_finishing w then ServiceUp else ServiceDown)"
    "Pid info = int (w_pid w)" "IsDownAndReady info \<longleftrightarrow> w_isready w \<and> w_pid w = 0" "ExitHistory info = map tally_event deaths"
    "Status info = ServiceDown \<Longrightarrow> ExitCode info = wait_exit_code (of_nat (w_wstat w))"
    by (auto simp: info split: if_splits)
  have st: "s6_Status f env = (None, info)"
    using p i(1) assms(3-6) by (simp add: s6_Status_def s6_ServiceExists_def)
  have exited: "wait_exit_code (of_nat (256 * code)) = int code" if "code < 256" for code
    using wait_status_exited [OF that] by (simp only: wait_exit_code_def if_True)
  have signaled: "wait_exit_code (of_nat n) = - int sig" if "0 < sig" "sig < 127" "n = sig \<or> n = sig + 128" for sig n
    using wait_status_signaled [OF that] by (simp only: wait_exit_code_def if_True if_False)
  have "(\<forall>code < 256. w_wstat w = 256 * code \<longrightarrow> ExitCode info = int code)
      \<and> (\<forall>sig < 127. 0 < sig \<and> (w_wstat w = sig \<or> w_wstat w = sig + 128) \<longrightarrow> ExitCode info = - int sig)"
    if "Status info = ServiceDown" unfolding i(6) [OF that] using exited signaled by metis
  with st i(2-5) show ?thesis by blast
qed

theorem status_exact_witness:
  "\<exists>info. s6_Status \<lparr>sf_service = Inr True, sf_supervise = Inr True, sf_status = Inr True,
        sf_content = Inr (status_pack (demo_status\<lparr>w_pid := 0, w_wstat := 137\<rparr>))\<rparr>
      \<lparr>se_now = 0, se_deployed = 0, se_down_exists = Inr False, se_tally_exists = Inr True,
        se_tally_file = Inr (concat (map tally_pack [(1700000000, 0, 0, 9)]))\<rparr> = (None, info)
    \<and> Status info = ServiceDown \<and> ExitCode info = - 9 \<and> length (ExitHistory info) = 1"
proof -
  let ?w = "demo_status\<lparr>w_pid := 0, w_wstat := 137\<rparr>" and ?f = "\<lparr>sf_service = Inr True, sf_supervise = Inr True, sf_status = Inr True,
        sf_content = Inr (status_pack (demo_status\<lparr>w_pid := 0, w_wstat := 137\<rparr>))\<rparr>"
  let ?env = "\<lparr>se_now = 0, se_deployed = 0, se_down_exists = Inr False, se_tally_exists = Inr True,
        se_tally_file = Inr (concat (map tally_pack [(1700000000, 0, 0, 9)]))\<rparr>"
  have "status_ok ?w" "list_all tally_ok [(1700000000, 0, 0, 9)]" by (simp_all add: status_ok_def demo_status_def)
  from status_exact [OF this, of ?f ?env] obtain info where i: "s6_Status ?f ?env = (None, info)" "Status info = ServiceDown"
    "ExitHistory info = map tally_event [(1700000000, 0, 0, 9)]"
    "\<forall>sig < 127. 0 < sig \<and> (w_wstat ?w = sig \<or> w_wstat ?w = sig + 128) \<longrightarrow> ExitCode info = - int sig"
    by (auto simp del: map_map)
  from i(4) [rule_format, of 9] have "ExitCode info = - 9" by simp
  with i show ?thesis by auto
qed

end
