(* ===== verification/S6_Script.thy ===== *)
theory S6_Script
  imports S6_FSM "HOL-Library.List_Lexorder" "HOL-Library.Char_ord"
begin

text \<open>
  The run scripts of supervised services: \<^verbatim>\<open>umh-core/pkg/service/s6/run_script.go\<close> (the template, the
  regular expressions, \<^verbatim>\<open>getLogRunScript\<close>), the rendering in \<^verbatim>\<open>createS6RunScript\<close> of
  \<^verbatim>\<open>lifecycle.go\<close>, and the reading side, the pure part of \<^verbatim>\<open>GetConfig\<close> and \<^verbatim>\<open>parseCommandLine\<close> of
  \<^verbatim>\<open>s6.go\<close>. Scripts are ASCII text.
\<close>

section \<open>Writing\<close>

text \<open>The decimal text of a signed 64-bit value.\<close>

definition itoa_int64 :: "u64 \<Rightarrow> string" where
  "itoa_int64 w = (if sint w < 0 then ''-'' @ itoa (nat (- sint w)) else itoa (nat (sint w)))"

text \<open>A template ranges over a map in the order of its keys.\<close>

definition map_entries :: "(string, string) fmap option \<Rightarrow> (string \<times> string) list" where
  "map_entries m =
     (case m of None \<Rightarrow> []
      | Some f \<Rightarrow> map (\<lambda>k. (k, the (fmlookup f k))) (sorted_list_of_fset (fmdom f)))"

definition nl :: string where "nl = [newline]"

definition join_words :: "string list \<Rightarrow> string" where
  "join_words ws = (case ws of [] \<Rightarrow> [] | w # rest \<Rightarrow> w @ concat (map (\<lambda>x. CHR '' '' # x) rest))"

definition fdmove_text :: string where "fdmove_text = ''fdmove -c 2 1''"

text \<open>The fixed lines between the memory limit and the command.\<close>

definition script_middle :: "string \<Rightarrow> string list" where
  "script_middle path =
     [[], ''# Wait for log service to be up before starting to prevent race condition'',
      ''# Run s6-svwait as root since it needs access to supervise/control pipe'',
      ''foreground { s6-svwait -u '' @ path @ ''/log }'', [],
      ''# No privilege drop needed - service inherits non-root UID from container USER directive'', [],
      ''# Keep stderr and stdout separate but both visible in logs'']"

text \<open>The run script as a list of lines, each ended by a newline.\<close>

definition run_script_lines :: "string list \<Rightarrow> (string \<times> string) list \<Rightarrow> u64 \<Rightarrow> string \<Rightarrow> string list" where
  "run_script_lines command env memoryLimit path =
     [''#!/command/execlineb -P'']
     @ map (\<lambda>(k, v). ''export '' @ k @ '' '' @ v) env
     @ [''# Memory limit'', ''# -m for total memory'']
     @ (if memoryLimit \<noteq> 0 then [''s6-softlimit -m '' @ itoa_int64 memoryLimit] else [])
     @ script_middle path
     @ [fdmove_text @ '' '', join_words command]"

definition unlines :: "string list \<Rightarrow> string" where
  "unlines ls = concat (map (\<lambda>l. l @ nl) ls)"

definition run_script :: "string list \<Rightarrow> (string, string) fmap option \<Rightarrow> u64 \<Rightarrow> string \<Rightarrow> string" where
  "run_script command env memoryLimit path = unlines (run_script_lines command (map_entries env) memoryLimit path)"

definition DefaultLogArchiveCount :: nat where "DefaultLogArchiveCount = 20"

definition getLogRunScript :: "S6ServiceConfig \<Rightarrow> string \<Rightarrow> string" where
  "getLogRunScript config logDir =
     (let n = ''s6-log n'' @ itoa DefaultLogArchiveCount;
          s6LogCmd = (if sint (LogFilesize config) > 0
                      then n @ '' s'' @ itoa_int64 (LogFilesize config) @ '' T '' @ logDir
                      else n @ '' T '' @ logDir)
      in ''#!/command/execlineb -P'' @ nl @ fdmove_text @ nl @ ''foreground { mkdir -p '' @ logDir @ '' }'' @ nl @ nl @ s6LogCmd)"

section \<open>Regular expressions\<close>

text \<open>
  The expressions used are sequences of literals and of one-or-more repetitions of a character class,
  some of them captured. A match is searched leftmost first, a repetition takes as much as it can
  and gives back one character at a time.
\<close>

datatype rx_item = Lit string | Plus "char \<Rightarrow> bool" | CapPlus "char \<Rightarrow> bool"

primrec try_runs :: "(string \<Rightarrow> 'a option) \<Rightarrow> string \<Rightarrow> nat \<Rightarrow> (string \<times> 'a) option" where
  "try_runs k s 0 = None"
| "try_runs k s (Suc n) = (case k (drop (Suc n) s) of Some r \<Rightarrow> Some (take (Suc n) s, r) | None \<Rightarrow> try_runs k s n)"

primrec rx_match :: "rx_item list \<Rightarrow> string \<Rightarrow> (string list \<times> string) option" where
  "rx_match [] = (\<lambda>s. Some ([], s))"
| "rx_match (i # is) =
     (\<lambda>s. case i of
        Lit l \<Rightarrow> if prefix l s then rx_match is (drop (length l) s) else None
      | Plus p \<Rightarrow> map_option snd (try_runs (rx_match is) s (length (takeWhile p s)))
      | CapPlus p \<Rightarrow> map_option (\<lambda>(x, caps, rest). (x # caps, rest)) (try_runs (rx_match is) s (length (takeWhile p s))))"

fun rx_find :: "(string \<Rightarrow> 'a option) \<Rightarrow> string \<Rightarrow> 'a option" where
  "rx_find m [] = m []"
| "rx_find m (c # cs) = (case m (c # cs) of Some r \<Rightarrow> Some r | None \<Rightarrow> rx_find m cs)"

text \<open>All matches that do not overlap; every match is longer than nothing.\<close>

function rx_find_all :: "(string \<Rightarrow> (string list \<times> string) option) \<Rightarrow> string \<Rightarrow> string list list" where
  "rx_find_all m s =
     (case s of [] \<Rightarrow> []
      | c # cs \<Rightarrow>
          (case m s of
             Some (caps, rest) \<Rightarrow> if length rest < length s then caps # rx_find_all m rest else []
           | None \<Rightarrow> rx_find_all m cs))"
  by pat_completeness auto

termination
  by (relation "measure (\<lambda>(_, s). length s)") auto

declare rx_find_all.simps [simp del]

definition re_space :: "char \<Rightarrow> bool" where
  "re_space c = (c \<in> {CHR 0x09, CHR 0x0A, CHR 0x0C, CHR 0x0D, CHR '' ''})"

definition re_word :: "char \<Rightarrow> bool" where
  "re_word c = (CHR ''0'' \<le> c \<and> c \<le> CHR ''9'' \<or> CHR ''A'' \<le> c \<and> c \<le> CHR ''Z'' \<or> CHR ''a'' \<le> c \<and> c \<le> CHR ''z'' \<or> c = CHR ''_'')"

definition re_digit :: "char \<Rightarrow> bool" where
  "re_digit c = (CHR ''0'' \<le> c \<and> c \<le> CHR ''9'')"

definition re_dot :: "char \<Rightarrow> bool" where
  "re_dot c = (c \<noteq> newline)"

definition envVarParser :: "string \<Rightarrow> (string list \<times> string) option" where
  "envVarParser = rx_match [Lit ''export'', Plus re_space, CapPlus re_word, Plus re_space, CapPlus re_dot]"

definition memoryLimitParser :: "string \<Rightarrow> (string list \<times> string) option" where
  "memoryLimitParser = rx_match [Lit ''s6-softlimit -m'', Plus re_space, CapPlus re_digit]"

definition logFilesizeParser :: "string \<Rightarrow> (string list \<times> string) option" where
  "logFilesizeParser = rx_match [Lit ''s6-log'', Plus re_space, Lit ''n'', Plus re_digit, Plus re_space, Lit ''s'', CapPlus re_digit,
     Plus re_space, Lit ''T'', Plus re_space, Plus (\<lambda>c. \<not> re_space c)]"

text \<open>The alternatives of the command expression: text after white space, or the end of the line.\<close>

definition runScriptParser :: "string \<Rightarrow> string option" where
  "runScriptParser s =
     (case rx_match [Lit fdmove_text, Plus re_space, CapPlus re_dot] s of
        Some (caps, _) \<Rightarrow> Some (hd caps)
      | None \<Rightarrow>
          if prefix fdmove_text s \<and> (let r = drop (length fdmove_text) s in r = [] \<or> hd r = newline) then Some [] else None)"

section \<open>Reading\<close>

definition trim_quotes :: "string \<Rightarrow> string" where
  "trim_quotes s =
     (let q = (\<lambda>c. c = CHR 0x22 \<or> c = CHR 0x27) in rev (dropWhile q (rev (dropWhile q s))))"

definition parse_env :: "string \<Rightarrow> (string, string) fmap" where
  "parse_env script =
     fold (\<lambda>caps m. fmupd (caps ! 0) (trim_quotes (trim_space (caps ! 1))) m) (rx_find_all envVarParser script) fmempty"

text \<open>The loop of \<^verbatim>\<open>parseCommandLine\<close> with its state: parts, current part, open quote, escape.\<close>

fun command_loop :: "string \<Rightarrow> string list \<Rightarrow> string \<Rightarrow> char option \<Rightarrow> bool \<Rightarrow> goerror + string list" where
  "command_loop [] parts cur quote esc =
     (if quote \<noteq> None then Inl (ErrorNew 70 ''unclosed quote'')
      else Inr (if cur \<noteq> [] then parts @ [cur] else parts))"
| "command_loop (c # cs) parts cur quote esc =
     (if c = CHR 0x5C \<and> \<not> esc then command_loop cs parts cur quote True
      else if (c = CHR 0x22 \<or> c = CHR 0x27) \<and> \<not> esc then
        (if quote = Some c then command_loop cs parts cur None esc
         else if quote = None then command_loop cs parts cur (Some c) esc
         else command_loop cs parts (cur @ [c]) quote esc)
      else if esc then command_loop cs parts (cur @ [c]) quote False
      else if c = CHR '' '' \<and> quote = None then
        (if cur \<noteq> [] then command_loop cs (parts @ [cur]) [] quote esc else command_loop cs parts cur quote esc)
      else command_loop cs parts (cur @ [c]) quote esc)"

definition parseCommandLine :: "string \<Rightarrow> goerror + string list" where
  "parseCommandLine cmdLine = command_loop cmdLine [] [] None False"

definition wrap_command :: "goerror + 'a \<Rightarrow> goerror + 'a" where
  "wrap_command r = (case r of Inl e \<Rightarrow> Inl (Errorf ''failed to parse command: '' e) | Inr x \<Rightarrow> Inr x)"

text \<open>\<^verbatim>\<open>strings.SplitN(line, sep, 2)[1]\<close>: what follows the first occurrence.\<close>

definition after_first :: "string \<Rightarrow> string \<Rightarrow> string option" where
  "after_first sep = rx_find (\<lambda>s. if prefix sep s then Some (drop (length sep) s) else None)"

text \<open>The search for the command when the expression finds none: the line of fdmove or a later one.\<close>

fun fallback_line :: "string list \<Rightarrow> string" where
  "fallback_line [] = []"
| "fallback_line (l # ls) =
     (let line = trim_space l
      in if prefix ''fdmove'' line then
           (let same = (if CHR '' '' \<in> set line \<and> last line \<noteq> CHR '' ''
                        then (case after_first fdmove_text line of None \<Rightarrow> [] | Some r \<Rightarrow> trim_space r) else []);
                found = (if same \<noteq> [] then same
                         else case filter (\<lambda>x. x \<noteq> []) (map trim_space ls) of [] \<Rightarrow> [] | x # _ \<Rightarrow> x)
            in if found \<noteq> [] then found else fallback_line ls)
         else fallback_line ls)"

definition first_path :: "string \<Rightarrow> (string \<times> string) option" where
  "first_path = rx_find (\<lambda>s. map_option (\<lambda>(caps, rest). (''/'' @ hd caps, rest)) (rx_match [Lit ''/'', CapPlus (\<lambda>c. \<not> re_space c)] s))"

definition parse_command :: "string \<Rightarrow> goerror + string list" where
  "parse_command script =
     (case rx_find runScriptParser script of
        Some (c # cs) \<Rightarrow> wrap_command (parseCommandLine (trim_space (c # cs)))
      | _ \<Rightarrow>
          let commandLine = fallback_line (split_newline script)
          in if commandLine \<noteq> [] then wrap_command (parseCommandLine commandLine)
             else case first_path script of
                    None \<Rightarrow> Inl (ErrorNew 71 ''failed to parse run script: no valid command found'')
                  | Some (cmd, rest) \<Rightarrow>
                      let argPart = trim_space (the (after_first cmd script))
                      in if argPart = [] then Inr [cmd]
                         else (case wrap_command (parseCommandLine argPart) of Inl e \<Rightarrow> Inl e | Inr args \<Rightarrow> Inr (cmd # args)))"

text \<open>\<^verbatim>\<open>strconv.ParseInt(s, 10, 64)\<close> on a run of digits.\<close>

definition dec_number :: "string \<Rightarrow> nat" where
  "dec_number s = fold (\<lambda>c n. n * 10 + (of_char c - 48)) s 0"

definition ParseInt10 :: "string \<Rightarrow> goerror + u64" where
  "ParseInt10 s = (let n = dec_number s in if n \<ge> 2 ^ 63 then Inl (ErrorNew 61 ''value out of range'') else Inr (of_nat n))"

definition parse_memory_limit :: "string \<Rightarrow> goerror + u64" where
  "parse_memory_limit script =
     (case rx_find memoryLimitParser script of
        None \<Rightarrow> Inr 0
      | Some (caps, _) \<Rightarrow> (case ParseInt10 (hd caps) of Inl e \<Rightarrow> Inl (Errorf ''failed to parse memory limit: '' e) | Inr n \<Rightarrow> Inr n))"

definition parse_log_filesize :: "string \<Rightarrow> goerror + u64" where
  "parse_log_filesize script =
     (case rx_find logFilesizeParser script of
        None \<Rightarrow> Inr 0
      | Some (caps, _) \<Rightarrow> (case ParseInt10 (hd caps) of Inl e \<Rightarrow> Inl (Errorf ''failed to parse log filesize: '' e) | Inr n \<Rightarrow> Inr n))"

section \<open>Searching text\<close>

lemma prefix_line:
  assumes "newline \<notin> set lit" and "prefix lit (l @ newline # rest)"
  shows "prefix lit l"
proof -
  from assms(2) obtain zs where z: "l @ newline # rest = lit @ zs" by (auto simp: prefix_def)
  show ?thesis
  proof (cases "length lit \<le> length l")
    case True
    then have "lit = take (length lit) l" using z by (metis append_eq_append_conv_if)
    then show ?thesis by (metis take_is_prefix)
  next
    case False
    then have "lit = l @ newline # take (length lit - length l - 1) rest"
      using z by (auto simp: append_eq_append_conv2 Cons_eq_append_conv)
    with assms(1) show ?thesis by (metis in_set_conv_decomp)
  qed
qed

text \<open>A search for a text that starts with \<open>lit\<close> passes over a line without it.\<close>

lemma rx_find_skip_line:
  assumes "newline \<notin> set lit" "lit \<noteq> []" "\<not> str_contains l lit"
    and lit: "\<And>s. m s \<noteq> None \<Longrightarrow> prefix lit s"
  shows "rx_find m (l @ newline # rest) = rx_find m rest"
  using assms(3)
proof (induction l)
  case Nil
  have "\<not> prefix lit (newline # rest)" using prefix_line [OF assms(1), of "[]" rest] assms(2) by auto
  then have "m (newline # rest) = None" using lit by blast
  then show ?case by simp
next
  case (Cons c l)
  then have "\<not> prefix lit (c # l)" "\<not> str_contains l lit" by auto
  moreover from this(1) have "m (c # l @ newline # rest) = None"
    using prefix_line [OF assms(1), of "c # l" rest] lit by (metis append_Cons)
  ultimately show ?case using Cons.IH by simp
qed

lemma rx_find_skip_lines:
  assumes "newline \<notin> set lit" "lit \<noteq> []" "\<And>s. m s \<noteq> None \<Longrightarrow> prefix lit s"
    and "list_all (\<lambda>l. \<not> str_contains l lit) ls"
  shows "rx_find m (unlines ls @ rest) = rx_find m rest"
  using assms(4)
proof (induction ls)
  case (Cons l ls)
  then show ?case
    using rx_find_skip_line [where m = m and l = l and rest = "unlines ls @ rest", OF assms(1,2) _ assms(3)]
    by (simp add: unlines_def nl_def)
qed (simp add: unlines_def)

lemma rx_find_all_skip_line:
  assumes "newline \<notin> set lit" "lit \<noteq> []" "\<not> str_contains l lit"
    and lit: "\<And>s. m s \<noteq> None \<Longrightarrow> prefix lit s"
  shows "rx_find_all m (l @ newline # rest) = rx_find_all m rest"
  using assms(3)
proof (induction l)
  case Nil
  have "\<not> prefix lit (newline # rest)" using prefix_line [OF assms(1), of "[]" rest] assms(2) by auto
  then have "m (newline # rest) = None" using lit by blast
  then show ?case by (subst rx_find_all.simps) simp
next
  case (Cons c l)
  then have "\<not> prefix lit (c # l)" "\<not> str_contains l lit" by auto
  moreover from this(1) have "m (c # l @ newline # rest) = None"
    using prefix_line [OF assms(1), of "c # l" rest] lit by (metis append_Cons)
  ultimately show ?case using Cons.IH by (subst rx_find_all.simps) simp
qed

lemma rx_find_all_skip_lines:
  assumes "newline \<notin> set lit" "lit \<noteq> []" "\<And>s. m s \<noteq> None \<Longrightarrow> prefix lit s"
    and "list_all (\<lambda>l. \<not> str_contains l lit) ls"
  shows "rx_find_all m (unlines ls @ rest) = rx_find_all m rest"
  using assms(4)
proof (induction ls)
  case (Cons l ls)
  then show ?case
    using rx_find_all_skip_line [where m = m and l = l and rest = "unlines ls @ rest", OF assms(1,2) _ assms(3)]
    by (simp add: unlines_def nl_def)
qed (simp add: unlines_def)

lemma rx_match_lit: "rx_match (Lit l # is) s \<noteq> None \<Longrightarrow> prefix l s"
  by (auto split: if_splits)

lemma runScriptParser_lit: "runScriptParser s \<noteq> None \<Longrightarrow> prefix fdmove_text s"
  by (auto simp: runScriptParser_def split: if_splits)

lemma try_runs_max:
  "0 < n \<Longrightarrow> k (drop n s) = Some r \<Longrightarrow> try_runs k s n = Some (take n s, r)"
  by (cases n) simp_all

text \<open>A repetition takes the whole run when what follows matches there.\<close>

lemma rx_plus:
  assumes "takeWhile p s = x" "x \<noteq> []" "s = x @ t" "rx_match is t = Some r"
  shows "rx_match (Plus p # is) s = Some r"
  using assms try_runs_max [of "length x" "rx_match is" s r] by simp

lemma rx_cap_plus:
  assumes "takeWhile p s = x" "x \<noteq> []" "s = x @ t" "rx_match is t = Some (caps, rest)"
  shows "rx_match (CapPlus p # is) s = Some (x # caps, rest)"
  using assms try_runs_max [of "length x" "rx_match is" s "(caps, rest)"] by simp

lemma takeWhile_run: "list_all p x \<Longrightarrow> t = [] \<or> \<not> p (hd t) \<Longrightarrow> takeWhile p (x @ t) = x"
  by (induction x) (auto simp: takeWhile_eq_Nil_iff neq_Nil_conv)

section \<open>What can be read back\<close>

definition softlimit_text :: string where "softlimit_text = ''s6-softlimit -m''"

text \<open>A line that none of the expressions can mistake for its own.\<close>

definition quiet :: "string \<Rightarrow> bool" where
  "quiet l \<longleftrightarrow> newline \<notin> set l \<and> \<not> str_contains l ''export'' \<and> \<not> str_contains l softlimit_text \<and> \<not> str_contains l fdmove_text"

definition plain_char :: "char \<Rightarrow> bool" where
  "plain_char c \<longleftrightarrow> \<not> is_space c \<and> c \<noteq> CHR 0x22 \<and> c \<noteq> CHR 0x27 \<and> c \<noteq> CHR 0x5C"

definition plain_word :: "string \<Rightarrow> bool" where
  "plain_word w \<longleftrightarrow> w \<noteq> [] \<and> list_all plain_char w"

definition plain_env :: "string \<times> string \<Rightarrow> bool" where
  "plain_env kv \<longleftrightarrow> (case kv of (k, v) \<Rightarrow>
     k \<noteq> [] \<and> list_all re_word k \<and> v \<noteq> [] \<and> newline \<notin> set v \<and> plain_char (hd v) \<and> plain_char (last v)
     \<and> \<not> str_contains (''export '' @ k @ '' '' @ v) softlimit_text \<and> \<not> str_contains (''export '' @ k @ '' '' @ v) fdmove_text)"

subsection \<open>Command lines\<close>

lemma not_plain [simp]: "\<not> plain_char newline" "\<not> plain_char CHR '' ''"
  by (simp_all add: plain_char_def is_space_def)

lemma plain_not_space: "plain_char c \<Longrightarrow> \<not> is_space c"
  by (simp add: plain_char_def)

lemma command_loop_word:
  "list_all plain_char w \<Longrightarrow> command_loop (w @ rest) parts cur None False = command_loop rest parts (cur @ w) None False"
proof (induction w arbitrary: cur)
  case (Cons c w)
  then have "c \<noteq> CHR '' ''" by (auto simp: plain_char_def is_space_def)
  with Cons show ?case by (simp add: plain_char_def)
qed simp

lemma command_loop_words:
  "list_all plain_word ws \<Longrightarrow> cur \<noteq> [] \<Longrightarrow>
     command_loop (concat (map (\<lambda>x. CHR '' '' # x) ws)) parts cur None False = Inr (parts @ cur # ws)"
proof (induction ws arbitrary: parts cur)
  case (Cons w ws)
  then have w: "list_all plain_char w" "w \<noteq> []" by (auto simp: plain_word_def)
  with Cons.IH [of "w" "parts @ [cur]"] Cons.prems command_loop_word [OF w(1), of "concat (map (\<lambda>x. CHR '' '' # x) ws)" "parts @ [cur]" "[]"]
  show ?case by simp
qed simp

lemma parseCommandLine_join:
  assumes "list_all plain_word ws" and "ws \<noteq> []"
  shows "parseCommandLine (join_words ws) = Inr ws"
proof -
  from assms(2) obtain w rest where ws: "ws = w # rest" by (cases ws) auto
  with assms(1) have "list_all plain_char w" "w \<noteq> []" "list_all plain_word rest" by (auto simp: plain_word_def)
  with command_loop_words [of rest w "[]"] command_loop_word [of w "concat (map (\<lambda>x. CHR '' '' # x) rest)" "[]" "[]"]
  show ?thesis by (simp add: ws join_words_def parseCommandLine_def)
qed

lemma join_words_ends:
  assumes "list_all plain_word ws" and "ws \<noteq> []"
  shows "join_words ws \<noteq> []" "plain_char (hd (join_words ws))" "plain_char (last (join_words ws))" "newline \<notin> set (join_words ws)"
proof -
  from assms(2) obtain w rest where ws: "ws = w # rest" by (cases ws) auto
  with assms(1) have w: "list_all plain_char w" "w \<noteq> []" "list_all plain_word rest" by (auto simp: plain_word_def)
  show "join_words ws \<noteq> []" "plain_char (hd (join_words ws))"
    using w by (simp_all add: ws join_words_def list_all_iff)
  show "newline \<notin> set (join_words ws)"
    using w by (auto simp: ws join_words_def list_all_iff plain_word_def) (metis not_plain(1))
  show "plain_char (last (join_words ws))"
  proof (cases rest rule: rev_cases)
    case Nil
    with w show ?thesis by (simp add: ws join_words_def list_all_iff)
  next
    case (snoc ys y)
    with w have "y \<noteq> []" "list_all plain_char y" by (auto simp: plain_word_def)
    then show ?thesis by (simp add: ws snoc join_words_def list_all_iff)
  qed
qed

lemma trim_space_ends:
  assumes "s \<noteq> []" "\<not> is_space (hd s)" "\<not> is_space (last s)"
  shows "trim_space s = s"
  using assms by (cases s rule: rev_cases) (auto simp: trim_space_def neq_Nil_conv hd_append dropWhile_eq_self_iff split: if_splits)

subsection \<open>Numbers\<close>

lemma digit_char_digit: "d < 10 \<Longrightarrow> re_digit (digit_char d)"
  by (simp add: re_digit_def digit_char_def less_eq_char_def)

lemma itoa_digits: "list_all re_digit (itoa n)"
proof (induction n rule: itoa.induct)
  case (1 n)
  then show ?case by (subst itoa.simps) (simp add: digit_char_digit)
qed

lemma dec_number_itoa: "dec_number (itoa n) = n"
proof (induction n rule: itoa.induct)
  case (1 n)
  have d: "d < 10 \<Longrightarrow> of_char (digit_char d) - 48 = d" for d by (simp add: digit_char_def)
  from 1 show ?case by (subst itoa.simps) (simp add: dec_number_def d)
qed

lemma ParseInt10_itoa:
  assumes "0 \<le> sint w"
  shows "itoa_int64 w = itoa (nat (sint w))" "ParseInt10 (itoa_int64 w) = Inr w"
proof -
  show i: "itoa_int64 w = itoa (nat (sint w))" using assms by (simp add: itoa_int64_def)
  have "sint w < 2 ^ 63" using sint_lt [of w] by simp
  then have "nat (sint w) < 2 ^ 63" using assms by (simp add: nat_less_iff)
  moreover have "(of_nat (nat (sint w)) :: u64) = w" using assms by (simp add: of_nat_nat)
  ultimately show "ParseInt10 (itoa_int64 w) = Inr w" by (simp add: i ParseInt10_def Let_def dec_number_itoa)
qed

lemma char_classes [simp]:
  "re_space CHR '' ''" "re_space newline" "\<not> re_digit newline" "\<not> re_word CHR '' ''" "\<not> re_dot newline" "\<not> re_digit CHR '' ''"
  by (simp_all add: re_space_def re_digit_def re_word_def re_dot_def less_eq_char_def)

lemma digit_not_space: "re_digit c \<Longrightarrow> \<not> re_space c"
  by (auto simp: re_digit_def re_space_def less_eq_char_def)

lemma word_not_space: "re_word c \<Longrightarrow> \<not> re_space c"
  by (auto simp: re_word_def re_space_def less_eq_char_def)

lemma plain_not_re_space: "plain_char c \<Longrightarrow> \<not> re_space c"
  by (auto simp: plain_char_def is_space_def re_space_def)

lemma rx_space:
  assumes "t = [] \<or> \<not> re_space (hd t)" "rx_match is t = Some r"
  shows "rx_match (Plus re_space # is) (CHR '' '' # t) = Some r"
  using assms takeWhile_run [of re_space "[CHR '' '']" t] by (intro rx_plus [of re_space _ "[CHR '' '']" t]) simp_all

lemma rx_cap_last:
  assumes "list_all p x" "x \<noteq> []" "t = [] \<or> \<not> p (hd t)"
  shows "rx_match [CapPlus p] (x @ t) = Some ([x], t)"
  using assms takeWhile_run [of p x t] by (intro rx_cap_plus [of p _ x t]) simp_all

subsection \<open>The memory limit\<close>

lemma memory_line:
  assumes "0 \<le> sint w"
  shows "memoryLimitParser (''s6-softlimit -m '' @ itoa_int64 w @ newline # rest) = Some ([itoa_int64 w], newline # rest)"
proof -
  let ?n = "itoa_int64 w"
  have n: "list_all re_digit ?n" "?n \<noteq> []" using itoa_digits ParseInt10_itoa(1) [OF assms] by simp_all
  have "\<not> re_space (hd (?n @ newline # rest))" using n by (cases ?n) (auto dest: digit_not_space)
  moreover have "rx_match [CapPlus re_digit] (?n @ newline # rest) = Some ([?n], newline # rest)"
    using n by (intro rx_cap_last) simp_all
  ultimately have "rx_match [Plus re_space, CapPlus re_digit] (CHR '' '' # ?n @ newline # rest) = Some ([?n], newline # rest)"
    by (intro rx_space) auto
  then show ?thesis by (simp add: memoryLimitParser_def del: rx_match.simps(2)) (simp del: rx_match.simps(2) add: rx_match.simps(2) [of "Lit _"])
qed

lemma parse_memory_lines:
  assumes "list_all (\<lambda>l. \<not> str_contains l softlimit_text) before" "list_all (\<lambda>l. \<not> str_contains l softlimit_text) after"
    and "0 \<le> sint w"
  shows "parse_memory_limit (unlines (before @ (if w \<noteq> 0 then [''s6-softlimit -m '' @ itoa_int64 w] else []) @ after)) = Inr w"
proof -
  have lit: "newline \<notin> set softlimit_text" "softlimit_text \<noteq> []" by (simp_all add: softlimit_text_def)
  have m: "memoryLimitParser s \<noteq> None \<Longrightarrow> prefix softlimit_text s" for s
    unfolding memoryLimitParser_def softlimit_text_def by (rule rx_match_lit)
  have skip: "rx_find memoryLimitParser (unlines ls @ rest) = rx_find memoryLimitParser rest"
    if "list_all (\<lambda>l. \<not> str_contains l softlimit_text) ls" for ls rest
    using m that by (intro rx_find_skip_lines [OF lit]) blast+
  have "rx_find memoryLimitParser [] = None" using m [of "[]"] lit by (cases "memoryLimitParser []") auto
  then have none: "rx_find memoryLimitParser (unlines after) = None" using skip [OF assms(2), of "[]"] by simp
  have app: "unlines (before @ xs @ after) = unlines before @ unlines xs @ unlines after" for xs by (simp add: unlines_def)
  show ?thesis
  proof (cases "w = 0")
    case True
    with none skip [OF assms(1), of "unlines after"] show ?thesis by (simp add: parse_memory_limit_def app unlines_def)
  next
    case False
    have "rx_find memoryLimitParser (''s6-softlimit -m '' @ itoa_int64 w @ newline # unlines after)
        = Some ([itoa_int64 w], newline # unlines after)"
      using memory_line [OF assms(3), of "unlines after"] by simp
    with False skip [OF assms(1), of "''s6-softlimit -m '' @ itoa_int64 w @ newline # unlines after"] ParseInt10_itoa(2) [OF assms(3)]
    show ?thesis by (simp add: parse_memory_limit_def app) (simp add: unlines_def nl_def)
  qed
qed

subsection \<open>The environment\<close>

lemma env_line:
  assumes "plain_env (k, v)"
  shows "envVarParser (''export '' @ k @ '' '' @ v @ newline # rest) = Some ([k, v], newline # rest)"
proof -
  have k: "list_all re_word k" "k \<noteq> []" and v: "v \<noteq> []" "newline \<notin> set v" "plain_char (hd v)"
    using assms by (auto simp: plain_env_def)
  have "list_all re_dot v" using v(2) by (auto simp: list_all_iff re_dot_def)
  then have "rx_match [CapPlus re_dot] (v @ newline # rest) = Some ([v], newline # rest)"
    using v by (intro rx_cap_last) simp_all
  then have "rx_match [Plus re_space, CapPlus re_dot] (CHR '' '' # v @ newline # rest) = Some ([v], newline # rest)"
    using v(1,3) by (intro rx_space) (auto simp: plain_not_re_space)
  then have "rx_match [CapPlus re_word, Plus re_space, CapPlus re_dot] (k @ CHR '' '' # v @ newline # rest) = Some ([k, v], newline # rest)"
    using k takeWhile_run [of re_word k "CHR '' '' # v @ newline # rest"]
    by (intro rx_cap_plus [of re_word _ k "CHR '' '' # v @ newline # rest"]) simp_all
  then have "rx_match [Plus re_space, CapPlus re_word, Plus re_space, CapPlus re_dot] (CHR '' '' # k @ CHR '' '' # v @ newline # rest)
      = Some ([k, v], newline # rest)"
    using k by (intro rx_space) (cases k, auto dest: word_not_space)
  then show ?thesis
    by (simp add: envVarParser_def del: rx_match.simps(2)) (simp del: rx_match.simps(2) add: rx_match.simps(2) [of "Lit _"])
qed

lemma envVarParser_lit: "envVarParser s \<noteq> None \<Longrightarrow> prefix ''export'' s"
  unfolding envVarParser_def by (rule rx_match_lit)

lemma env_skip:
  assumes "list_all (\<lambda>l. \<not> str_contains l ''export'') ls"
  shows "rx_find_all envVarParser (unlines ls @ rest) = rx_find_all envVarParser rest"
proof (rule rx_find_all_skip_lines [of "''export''"])
  show "prefix ''export'' s" if "envVarParser s \<noteq> None" for s using that by (rule envVarParser_lit)
qed (use assms in simp_all)

lemma env_lines:
  assumes "list_all plain_env env"
  shows "rx_find_all envVarParser (unlines (map (\<lambda>(k, v). ''export '' @ k @ '' '' @ v) env) @ rest)
    = map (\<lambda>(k, v). [k, v]) env @ rx_find_all envVarParser rest"
  using assms
proof (induction env)
  case (Cons kv env)
  obtain k v where kv: "kv = (k, v)" by (cases kv)
  let ?t = "unlines (map (\<lambda>(k, v). ''export '' @ k @ '' '' @ v) env) @ rest"
  have m: "envVarParser (''export '' @ k @ '' '' @ v @ newline # ?t) = Some ([k, v], newline # ?t)"
    using Cons.prems kv env_line [of k v ?t] by simp
  have "rx_find_all envVarParser (newline # ?t) = rx_find_all envVarParser ?t"
    using env_skip [of "[[]]" ?t] by (simp add: unlines_def nl_def)
  then have "rx_find_all envVarParser (''export '' @ k @ '' '' @ v @ newline # ?t) = [k, v] # rx_find_all envVarParser ?t"
    using m by (subst rx_find_all.simps) simp
  with Cons kv show ?case by (simp add: unlines_def nl_def)
qed (simp add: unlines_def)

lemma trim_value:
  assumes "v \<noteq> []" "plain_char (hd v)" "plain_char (last v)"
  shows "trim_quotes (trim_space v) = v"
proof -
  have "trim_space v = v" using assms by (intro trim_space_ends) (auto simp: plain_char_def)
  moreover have "trim_quotes v = v"
    using assms by (cases v rule: rev_cases)
      (auto simp: trim_quotes_def plain_char_def neq_Nil_conv hd_append dropWhile_eq_self_iff split: if_splits)
  ultimately show ?thesis by simp
qed

lemma fold_entries:
  fixes m0 :: "(string, string) fmap"
  assumes "distinct (map fst env)"
  shows "fmlookup (fold (\<lambda>(k, v) m. fmupd k v m) env m0) x = (case map_of env x of Some v \<Rightarrow> Some v | None \<Rightarrow> fmlookup m0 x)"
  using assms
proof (induction env arbitrary: m0)
  case (Cons kv env)
  obtain k v where kv: "kv = (k, v)" by (cases kv)
  with Cons have "map_of env k = None" by (auto simp: map_of_eq_None_iff)
  with Cons kv show ?case by (auto split: option.splits)
qed simp

lemma entries_lookup: "map_of (map_entries (Some f)) x = fmlookup f x"
proof -
  have "map_of (map (\<lambda>k. (k, the (fmlookup f k))) ks) x = (if x \<in> set ks then Some (the (fmlookup f x)) else None)" for ks
    by (induction ks) auto
  then show ?thesis by (auto simp: map_entries_def sorted_list_of_fset.rep_eq fmdom_notI fmlookup_dom_iff split: if_splits)
qed

lemma entries_distinct: "distinct (map fst (map_entries m))"
  by (auto simp: map_entries_def comp_def sorted_list_of_fset.rep_eq split: option.splits)

lemma fold_map_entries: "fold (\<lambda>(k, v) m. fmupd k v m) (map_entries (Some f)) fmempty = f"
  by (intro fmap_ext) (simp add: fold_entries [OF entries_distinct] entries_lookup split: option.splits)

subsection \<open>The whole script\<close>

lemma command_line_found:
  assumes "list_all (\<lambda>l. \<not> str_contains l fdmove_text) before" and "cmd \<noteq> []" "plain_char (hd cmd)" "newline \<notin> set cmd"
  shows "rx_find runScriptParser (unlines (before @ [fdmove_text @ '' '', cmd])) = Some cmd"
proof -
  have "list_all re_dot cmd" using assms(4) by (auto simp: list_all_iff re_dot_def)
  then have cap: "rx_match [CapPlus re_dot] (cmd @ nl) = Some ([cmd], nl)"
    using assms(2) unfolding nl_def by (intro rx_cap_last) simp_all
  have "takeWhile re_space ('' '' @ nl @ cmd @ nl) = '' '' @ nl"
    using takeWhile_run [of re_space "'' '' @ nl" "cmd @ nl"] assms(2,3) by (simp add: nl_def plain_not_re_space)
  from rx_plus [OF this _ _ cap] have "rx_match [Plus re_space, CapPlus re_dot] ('' '' @ nl @ cmd @ nl) = Some ([cmd], nl)"
    by simp
  then have "rx_match [Lit fdmove_text, Plus re_space, CapPlus re_dot] (fdmove_text @ '' '' @ nl @ cmd @ nl) = Some ([cmd], nl)"
    by (simp del: rx_match.simps(2) add: rx_match.simps(2) [of "Lit _"])
  then have "runScriptParser (fdmove_text @ '' '' @ nl @ cmd @ nl) = Some cmd" by (simp add: runScriptParser_def del: rx_match.simps)
  then have found: "rx_find runScriptParser (fdmove_text @ '' '' @ nl @ cmd @ nl) = Some cmd"
    by (cases "fdmove_text @ '' '' @ nl @ cmd @ nl") simp_all
  have "rx_find runScriptParser (unlines before @ rest) = rx_find runScriptParser rest" for rest
  proof (rule rx_find_skip_lines [of fdmove_text])
    show "prefix fdmove_text s" if "runScriptParser s \<noteq> None" for s using that by (rule runScriptParser_lit)
  qed (use assms(1) in \<open>simp_all add: fdmove_text_def\<close>)
  from this [of "fdmove_text @ '' '' @ nl @ cmd @ nl"] found show ?thesis by (simp add: unlines_def)
qed

definition script_ok :: "string list \<Rightarrow> (string \<times> string) list \<Rightarrow> u64 \<Rightarrow> string \<Rightarrow> bool" where
  "script_ok command env memoryLimit path \<longleftrightarrow>
     command \<noteq> [] \<and> list_all plain_word command \<and> list_all plain_env env \<and> 0 \<le> sint memoryLimit
     \<and> quiet (''foreground { s6-svwait -u '' @ path @ ''/log }'')
     \<and> \<not> str_contains (join_words command) ''export'' \<and> \<not> str_contains (join_words command) softlimit_text"

lemma quiet_middle:
  assumes "quiet (''foreground { s6-svwait -u '' @ path @ ''/log }'')"
  shows "list_all quiet (script_middle path)"
proof -
  have "quiet []" "quiet ''# Wait for log service to be up before starting to prevent race condition''"
    "quiet ''# Run s6-svwait as root since it needs access to supervise/control pipe''"
    "quiet ''# No privilege drop needed - service inherits non-root UID from container USER directive''"
    "quiet ''# Keep stderr and stdout separate but both visible in logs''" by code_simp+
  with assms show ?thesis by (simp only: script_middle_def list.pred_inject simp_thms)
qed

lemma quiet_parts:
  "quiet l \<Longrightarrow> \<not> str_contains l ''export''" "quiet l \<Longrightarrow> \<not> str_contains l softlimit_text" "quiet l \<Longrightarrow> \<not> str_contains l fdmove_text"
  by (simp_all add: quiet_def)

lemma quiet_fixed: "quiet ''#!/command/execlineb -P''" "quiet ''# Memory limit''" "quiet ''# -m for total memory''"
  by code_simp+

lemma env_lines_quiet:
  assumes "list_all plain_env env"
  shows "list_all (\<lambda>l. \<not> str_contains l softlimit_text) (map (\<lambda>(k, v). ''export '' @ k @ '' '' @ v) env)"
    "list_all (\<lambda>l. \<not> str_contains l fdmove_text) (map (\<lambda>(k, v). ''export '' @ k @ '' '' @ v) env)"
  using assms by (induction env) (auto simp: plain_env_def)

lemma contains_subset: "str_contains l lit \<Longrightarrow> set lit \<subseteq> set l"
  by (auto simp: str_contains_iff_sublist sublist_def)

lemma limit_line_quiet:
  assumes "0 \<le> sint w"
  shows "\<not> str_contains (''s6-softlimit -m '' @ itoa_int64 w) ''export''" "\<not> str_contains (''s6-softlimit -m '' @ itoa_int64 w) fdmove_text"
proof -
  have "\<not> re_digit CHR ''x''" "\<not> re_digit CHR ''v''" by (simp_all add: re_digit_def less_eq_char_def)
  moreover have "list_all re_digit (itoa_int64 w)" using itoa_digits ParseInt10_itoa(1) [OF assms] by simp
  ultimately have "CHR ''x'' \<notin> set (''s6-softlimit -m '' @ itoa_int64 w)" "CHR ''v'' \<notin> set (''s6-softlimit -m '' @ itoa_int64 w)"
    by (auto simp: list_all_iff)
  moreover have "CHR ''x'' \<in> set ''export''" "CHR ''v'' \<in> set fdmove_text" by (simp_all add: fdmove_text_def)
  ultimately show "\<not> str_contains (''s6-softlimit -m '' @ itoa_int64 w) ''export''" "\<not> str_contains (''s6-softlimit -m '' @ itoa_int64 w) fdmove_text"
    using contains_subset by blast+
qed

lemma list_all_quiet:
  assumes "list_all quiet ls"
  shows "list_all (\<lambda>l. \<not> str_contains l ''export'') ls" "list_all (\<lambda>l. \<not> str_contains l softlimit_text) ls"
    "list_all (\<lambda>l. \<not> str_contains l fdmove_text) ls"
  using assms by (induction ls) (simp_all only: list.pred_inject quiet_parts simp_thms)

lemma fdmove_line_quiet: "\<not> str_contains (fdmove_text @ '' '') ''export''" "\<not> str_contains (fdmove_text @ '' '') softlimit_text"
  by code_simp+

definition limit_lines :: "u64 \<Rightarrow> string list" where
  "limit_lines w = (if w \<noteq> 0 then [''s6-softlimit -m '' @ itoa_int64 w] else [])"

lemma script_read_command:
  assumes "script_ok command env w path"
  shows "parse_command (unlines (run_script_lines command env w path)) = Inr command"
proof -
  let ?head = "[''#!/command/execlineb -P''] @ map (\<lambda>(k, v). ''export '' @ k @ '' '' @ v) env
      @ [''# Memory limit'', ''# -m for total memory''] @ limit_lines w @ script_middle path"
  have ok: "command \<noteq> []" "list_all plain_word command" "list_all plain_env env" "0 \<le> sint w"
    "quiet (''foreground { s6-svwait -u '' @ path @ ''/log }'')" using assms unfolding script_ok_def by blast+
  have lines: "run_script_lines command env w path = ?head @ [fdmove_text @ '' '', join_words command]"
    by (simp only: run_script_lines_def limit_lines_def append_assoc)
  have "list_all (\<lambda>l. \<not> str_contains l fdmove_text) (limit_lines w)"
    using limit_line_quiet(2) [OF ok(4)] by (simp only: limit_lines_def list.pred_inject split: if_split) simp
  then have "list_all (\<lambda>l. \<not> str_contains l fdmove_text) ?head"
    using env_lines_quiet(2) [OF ok(3)] list_all_quiet(3) [OF quiet_middle [OF ok(5)]] quiet_fixed [THEN quiet_parts(3)]
    by (simp only: list_all_append list.pred_inject simp_thms not_False_eq_True)
  from command_line_found [OF this join_words_ends(1,2,4) [OF ok(2,1)]]
  have found: "rx_find runScriptParser (unlines (run_script_lines command env w path)) = Some (join_words command)"
    by (simp only: lines)
  have "trim_space (join_words command) = join_words command"
    using join_words_ends [OF ok(2,1)] by (intro trim_space_ends) (auto dest: plain_not_space)
  moreover obtain c cs where "join_words command = c # cs" using join_words_ends(1) [OF ok(2,1)] by (cases "join_words command") auto
  ultimately show ?thesis
    using found parseCommandLine_join [OF ok(2,1)] by (simp add: parse_command_def wrap_command_def)
qed

lemma script_read_limit:
  assumes "script_ok command env w path"
  shows "parse_memory_limit (unlines (run_script_lines command env w path)) = Inr w"
proof -
  let ?before = "[''#!/command/execlineb -P''] @ map (\<lambda>(k, v). ''export '' @ k @ '' '' @ v) env @ [''# Memory limit'', ''# -m for total memory'']"
  let ?after = "script_middle path @ [fdmove_text @ '' '', join_words command]"
  have ok: "list_all plain_env env" "0 \<le> sint w" "quiet (''foreground { s6-svwait -u '' @ path @ ''/log }'')"
    "\<not> str_contains (join_words command) softlimit_text" using assms unfolding script_ok_def by blast+
  have lines: "run_script_lines command env w path
      = ?before @ (if w \<noteq> 0 then [''s6-softlimit -m '' @ itoa_int64 w] else []) @ ?after"
    by (simp only: run_script_lines_def append_assoc)
  have "list_all (\<lambda>l. \<not> str_contains l softlimit_text) ?before"
    using env_lines_quiet(1) [OF ok(1)] quiet_fixed [THEN quiet_parts(2)]
    by (simp only: list_all_append list.pred_inject simp_thms not_False_eq_True)
  moreover have "list_all (\<lambda>l. \<not> str_contains l softlimit_text) ?after"
    using list_all_quiet(2) [OF quiet_middle [OF ok(3)]] fdmove_line_quiet(2) ok(4)
    by (simp only: list_all_append list.pred_inject simp_thms not_False_eq_True)
  ultimately show ?thesis unfolding lines by (rule parse_memory_lines [OF _ _ ok(2)])
qed

lemma script_read_env:
  assumes "script_ok command env w path" and "env = map_entries (Some f)"
  shows "parse_env (unlines (run_script_lines command env w path)) = f"
proof -
  let ?rest = "[''# Memory limit'', ''# -m for total memory''] @ limit_lines w @ script_middle path @ [fdmove_text @ '' '', join_words command]"
  have ok: "list_all plain_env env" "0 \<le> sint w" "quiet (''foreground { s6-svwait -u '' @ path @ ''/log }'')"
    "\<not> str_contains (join_words command) ''export''" using assms unfolding script_ok_def by blast+
  have lines: "unlines (run_script_lines command env w path)
      = unlines [''#!/command/execlineb -P''] @ unlines (map (\<lambda>(k, v). ''export '' @ k @ '' '' @ v) env) @ unlines ?rest @ []"
    by (simp only: run_script_lines_def limit_lines_def unlines_def map_append concat_append append_assoc append_Nil2)
  have "list_all (\<lambda>l. \<not> str_contains l ''export'') (limit_lines w)"
    using limit_line_quiet(1) [OF ok(2)] by (simp only: limit_lines_def list.pred_inject split: if_split) simp
  then have "list_all (\<lambda>l. \<not> str_contains l ''export'') ?rest"
    using list_all_quiet(1) [OF quiet_middle [OF ok(3)]] quiet_fixed [THEN quiet_parts(1)] fdmove_line_quiet(1) ok(4)
    by (simp only: list_all_append list.pred_inject simp_thms not_False_eq_True)
  then have "rx_find_all envVarParser (unlines ?rest @ []) = rx_find_all envVarParser []" by (rule env_skip)
  moreover have "rx_find_all envVarParser [] = []" by (subst rx_find_all.simps) simp
  moreover have "list_all (\<lambda>l. \<not> str_contains l ''export'') [''#!/command/execlineb -P'']"
    using quiet_fixed(1) [THEN quiet_parts(1)] by (simp only: list.pred_inject simp_thms not_False_eq_True)
  ultimately have found: "rx_find_all envVarParser (unlines (run_script_lines command env w path)) = map (\<lambda>(k, v). [k, v]) env"
    unfolding lines by (simp only: env_skip env_lines [OF ok(1)] append_Nil2)
  have "fold (\<lambda>caps m. fmupd (caps ! 0) (trim_quotes (trim_space (caps ! 1))) m) (map (\<lambda>(k, v). [k, v]) env) m0
      = fold (\<lambda>(k, v) m. fmupd k v m) env m0" for m0 :: "(string, string) fmap"
    using ok(1)
  proof (induction env arbitrary: m0)
    case (Cons kv env)
    then show ?case by (cases kv) (simp add: plain_env_def trim_value)
  qed simp
  with found fold_map_entries [of f] show ?thesis by (simp only: parse_env_def assms(2))
qed

subsection \<open>The log script\<close>

definition s6_log_text :: string where "s6_log_text = ''s6-log''"

definition log_dir_ok :: "string \<Rightarrow> bool" where
  "log_dir_ok dir \<longleftrightarrow> dir \<noteq> [] \<and> \<not> re_space (hd dir) \<and> \<not> str_contains (''foreground { mkdir -p '' @ dir @ '' }'') s6_log_text
     \<and> \<not> str_contains (''6-log n20 T '' @ dir) s6_log_text"

lemma itoa_20: "itoa DefaultLogArchiveCount = ''20''"
  by code_simp

lemma rx_find_skip: "\<not> str_contains l lit \<Longrightarrow> (\<And>s. m s \<noteq> None \<Longrightarrow> prefix lit s) \<Longrightarrow> rx_find m l = None"
proof (induction l)
  case Nil
  then have "m [] = None" by (metis prefix_bot.extremum_uniqueI str_contains.simps(1))
  then show ?case by simp
next
  case (Cons c l)
  then have "m (c # l) = None" by (metis str_contains.simps(2))
  with Cons show ?case by simp
qed

lemma log_size_match:
  assumes "0 \<le> sint w" "dir \<noteq> []" "\<not> re_space (hd dir)"
  shows "\<exists>rest. logFilesizeParser (''s6-log n20 s'' @ itoa_int64 w @ '' T '' @ dir) = Some ([itoa_int64 w], rest)"
proof -
  let ?n = "itoa_int64 w" and ?run = "takeWhile (\<lambda>c. \<not> re_space c) dir"
  have n: "list_all re_digit ?n" "?n \<noteq> []" using itoa_digits ParseInt10_itoa(1) [OF assms(1)] by simp_all
  have run: "?run \<noteq> []" "dir = ?run @ drop (length ?run) dir"
    using assms(2,3) by (cases dir; simp) (metis append_take_drop_id takeWhile_eq_take)
  obtain rest where "rx_match [Plus (\<lambda>c. \<not> re_space c)] dir = Some ([], rest)"
    using rx_plus [OF refl run(1) run(2), of "[]" "([], drop (length ?run) dir)"] by auto
  then have "rx_match [Plus re_space, Plus (\<lambda>c. \<not> re_space c)] (CHR '' '' # dir) = Some ([], rest)"
    using assms(3) by (intro rx_space) auto
  then have "rx_match [Lit ''T'', Plus re_space, Plus (\<lambda>c. \<not> re_space c)] (''T '' @ dir) = Some ([], rest)"
    by (simp del: rx_match.simps(2) add: rx_match.simps(2) [of "Lit _"])
  then have "rx_match [Plus re_space, Lit ''T'', Plus re_space, Plus (\<lambda>c. \<not> re_space c)] (CHR '' '' # ''T '' @ dir) = Some ([], rest)"
    by (intro rx_space) (simp_all add: re_space_def)
  then have "rx_match [CapPlus re_digit, Plus re_space, Lit ''T'', Plus re_space, Plus (\<lambda>c. \<not> re_space c)] (?n @ '' T '' @ dir) = Some ([?n], rest)"
    using n takeWhile_run [of re_digit ?n "'' T '' @ dir"] by (intro rx_cap_plus [of re_digit _ ?n "'' T '' @ dir"]) simp_all
  then have s: "rx_match [Lit ''s'', CapPlus re_digit, Plus re_space, Lit ''T'', Plus re_space, Plus (\<lambda>c. \<not> re_space c)] (CHR ''s'' # ?n @ '' T '' @ dir) = Some ([?n], rest)"
    by (simp del: rx_match.simps(2) add: rx_match.simps(2) [of "Lit _"])
  have "rx_match [Plus re_space, Lit ''s'', CapPlus re_digit, Plus re_space, Lit ''T'', Plus re_space, Plus (\<lambda>c. \<not> re_space c)] (CHR '' '' # CHR ''s'' # ?n @ '' T '' @ dir) = Some ([?n], rest)"
    by (rule rx_space [OF _ s]) (simp add: re_space_def)
  from rx_plus [of re_digit "''20 s'' @ ?n @ '' T '' @ dir" "''20''", OF _ _ _ this]
  have "rx_match [Plus re_digit, Plus re_space, Lit ''s'', CapPlus re_digit, Plus re_space, Lit ''T'', Plus re_space, Plus (\<lambda>c. \<not> re_space c)] (''20 s'' @ ?n @ '' T '' @ dir) = Some ([?n], rest)"
    by (simp add: re_digit_def less_eq_char_def del: rx_match.simps)
  then have t: "rx_match [Lit ''n'', Plus re_digit, Plus re_space, Lit ''s'', CapPlus re_digit, Plus re_space, Lit ''T'', Plus re_space, Plus (\<lambda>c. \<not> re_space c)] (''n20 s'' @ ?n @ '' T '' @ dir) = Some ([?n], rest)"
    by (simp del: rx_match.simps(2) add: rx_match.simps(2) [of "Lit _"])
  have "rx_match [Plus re_space, Lit ''n'', Plus re_digit, Plus re_space, Lit ''s'', CapPlus re_digit, Plus re_space, Lit ''T'', Plus re_space, Plus (\<lambda>c. \<not> re_space c)] (CHR '' '' # ''n20 s'' @ ?n @ '' T '' @ dir) = Some ([?n], rest)"
    by (rule rx_space [OF _ t]) (simp add: re_space_def)
  then have "logFilesizeParser (''s6-log n20 s'' @ ?n @ '' T '' @ dir) = Some ([?n], rest)"
    unfolding logFilesizeParser_def by (simp del: rx_match.simps(2) add: rx_match.simps(2) [of "Lit _"])
  then show ?thesis by blast
qed

lemma log_default_no_match: "logFilesizeParser (''s6-log n20 T '' @ dir) = None"
proof -
  have "\<not> re_space CHR ''n''" "\<not> re_space CHR ''T''" "re_digit CHR ''2''" "re_digit CHR ''0''"
    by (simp_all add: re_space_def re_digit_def less_eq_char_def)
  then show ?thesis by (simp add: logFilesizeParser_def)
qed

lemma logFilesizeParser_lit: "logFilesizeParser s \<noteq> None \<Longrightarrow> prefix s6_log_text s"
  unfolding logFilesizeParser_def s6_log_text_def by (rule rx_match_lit)

lemma log_script_read:
  assumes "log_dir_ok dir" and "0 \<le> sint (LogFilesize c)"
  shows "parse_log_filesize (getLogRunScript c dir) = Inr (LogFilesize c)"
proof -
  let ?head = "[''#!/command/execlineb -P'', fdmove_text, ''foreground { mkdir -p '' @ dir @ '' }'', []]"
  have ok: "dir \<noteq> []" "\<not> re_space (hd dir)" "\<not> str_contains (''foreground { mkdir -p '' @ dir @ '' }'') s6_log_text"
    "\<not> str_contains (''6-log n20 T '' @ dir) s6_log_text" using assms(1) unfolding log_dir_ok_def by blast+
  have "\<not> str_contains ''#!/command/execlineb -P'' s6_log_text" "\<not> str_contains fdmove_text s6_log_text" "\<not> str_contains [] s6_log_text"
    by code_simp+
  with ok(3) have "list_all (\<lambda>l. \<not> str_contains l s6_log_text) ?head" by (simp only: list.pred_inject simp_thms not_False_eq_True)
  then have skip: "rx_find logFilesizeParser (unlines ?head @ t) = rx_find logFilesizeParser t" for t
  proof (rule rx_find_skip_lines [of s6_log_text, rotated 3])
    show "prefix s6_log_text s" if "logFilesizeParser s \<noteq> None" for s using that by (rule logFilesizeParser_lit)
  qed (simp_all add: s6_log_text_def)
  show ?thesis
  proof (cases "sint (LogFilesize c) > 0")
    case True
    let ?cmd = "''s6-log n20 s'' @ itoa_int64 (LogFilesize c) @ '' T '' @ dir"
    have "getLogRunScript c dir = unlines ?head @ ?cmd"
      using True by (simp add: getLogRunScript_def Let_def unlines_def itoa_20)
    moreover obtain rest where "logFilesizeParser ?cmd = Some ([itoa_int64 (LogFilesize c)], rest)"
      using log_size_match [OF assms(2) ok(1,2)] by blast
    then have "rx_find logFilesizeParser ?cmd = Some ([itoa_int64 (LogFilesize c)], rest)" by simp
    ultimately show ?thesis
      using skip [of ?cmd] ParseInt10_itoa(2) [OF assms(2)] by (simp only: parse_log_filesize_def option.case prod.case list.sel sum.case)
  next
    case False
    let ?cmd = "''s6-log n20 T '' @ dir"
    have z: "LogFilesize c = 0" using False assms(2) by (metis less_le signed_0 signed_word_eqI)
    have "getLogRunScript c dir = unlines ?head @ ?cmd"
      using False by (simp add: getLogRunScript_def Let_def unlines_def itoa_20)
    moreover have "rx_find logFilesizeParser (''6-log n20 T '' @ dir) = None"
      using rx_find_skip [where m = logFilesizeParser, OF ok(4)] logFilesizeParser_lit by blast
    then have "rx_find logFilesizeParser ?cmd = None" using log_default_no_match [of dir] by simp
    ultimately show ?thesis using skip [of ?cmd] z by (simp only: parse_log_filesize_def option.case)
  qed
qed

section \<open>Properties\<close>


definition demo_env :: "(string, string) fmap" where
  "demo_env = fmap_of_list [(''LOG_LEVEL'', ''INFO'')]"


end
