(* ===== verification/File_System.thy ===== *)
theory File_System
  imports Go_Path
begin

text \<open>
  The file system service: \<^verbatim>\<open>umh-core/pkg/service/filesystem/filesystem.go\<close>, with its three caches
  (existence of paths, file contents, directory listings), over a tree of files, directories and
  symbolic links.

  Every call of the service meets a \<open>fate\<close>: how much time passes, whether the context is done before
  or during the operation, which error the operating system gives, and what a failed or cancelled
  operation has done by then. A goroutine that goes on after its caller has given up takes effect at
  once or not at all. The fates are an input; the operations take one each.
\<close>

section \<open>Files\<close>

text \<open>A file has its content and the time of its last change.\<close>

datatype node = NFile string int | NDir | is_NLink: NLink (link_target: string)

type_synonym tree = "(string \<times> node) list"

text \<open>
  A path at or below a link stands for the same path in the link's target. Links are followed once;
  a second link on the way is reported as too many levels.
\<close>

definition link_of :: "tree \<Rightarrow> string \<Rightarrow> (string \<times> string) option" where
  "link_of t p =
     (case filter (\<lambda>(l, n). below l p \<and> is_NLink n) t of
        [] \<Rightarrow> None | (l, n) # _ \<Rightarrow> Some (l, link_target n))"

definition resolve :: "tree \<Rightarrow> string \<Rightarrow> string" where
  "resolve t p = (case link_of t p of Some (l, target) \<Rightarrow> target @ drop (length l) p | None \<Rightarrow> p)"

text \<open>The node that \<^verbatim>\<open>os.Stat\<close> sees.\<close>

definition os_node :: "tree \<Rightarrow> string \<Rightarrow> node option" where
  "os_node t p = (let q = resolve t p in if link_of t q = None then map_of t q else None)"

definition put_node :: "string \<Rightarrow> node \<Rightarrow> tree \<Rightarrow> tree" where
  "put_node p n t = (p, n) # filter (\<lambda>(q, _). q \<noteq> p) t"

definition cut_nodes :: "(string \<Rightarrow> bool) \<Rightarrow> tree \<Rightarrow> tree" where
  "cut_nodes P t = filter (\<lambda>(q, _). \<not> P q) t"

text \<open>A directory's entries: names and whether they are directories.\<close>

definition dir_entries :: "tree \<Rightarrow> string \<Rightarrow> (string \<times> bool) list" where
  "dir_entries t p =
     (let d = resolve t p @ ''/''
      in [(drop (length d) q, n = NDir). (q, n) \<leftarrow> t, prefix d q \<and> drop (length d) q \<noteq> [] \<and> CHR ''/'' \<notin> set (drop (length d) q)])"

section \<open>The service\<close>

record cached_file =
  cf_content :: string
  cf_modTime :: int
  cf_size :: int
  cf_lastCheck :: int

record fate =
  ft_dt :: nat
  ft_ctx :: "goerror option"
  ft_stat :: "goerror option"
  ft_os :: "goerror option"
  ft_cancel :: "goerror option"
  ft_effect :: "string \<Rightarrow> bool"
  ft_bytes :: nat

definition fine :: fate where
  "fine = \<lparr>ft_dt = 1, ft_ctx = None, ft_stat = None, ft_os = None, ft_cancel = None, ft_effect = (\<lambda>_. False), ft_bytes = 0\<rparr>"

record FileService =
  fv_tree :: tree
  fv_now :: int
  fv_pathCache :: "(string \<times> int) list"
  fv_fileCache :: "(string \<times> cached_file) list"
  fv_dirCache :: "(string \<times> int \<times> (string \<times> bool) list) list"
  fv_fates :: "fate list"
  fv_calls :: "(string \<times> string list) list"

definition NewFileService :: "tree \<Rightarrow> int \<Rightarrow> fate list \<Rightarrow> FileService" where
  "NewFileService t now fates =
     \<lparr>fv_tree = t, fv_now = now, fv_pathCache = [], fv_fileCache = [], fv_dirCache = [], fv_fates = fates, fv_calls = []\<rparr>"

definition second :: int where "second = 1000000000"

definition FilesystemCacheTTL :: int where "FilesystemCacheTTL = second"
definition FilesystemCacheRecheckInterval :: int where "FilesystemCacheRecheckInterval = second"

definition FilesystemCachePrefixes :: "string list" where
  "FilesystemCachePrefixes = [''/run/service/'', ''/data/'']"

text \<open>Take the next fate and let its time pass.\<close>

definition next_fate :: "FileService \<Rightarrow> fate \<times> FileService" where
  "next_fate s =
     (case fv_fates s of
        [] \<Rightarrow> (fine, s\<lparr>fv_now := fv_now s + 1\<rparr>)
      | f # fs \<Rightarrow> (f, s\<lparr>fv_now := fv_now s + int (ft_dt f), fv_fates := fs\<rparr>))"

type_synonym 'a fsop = "FileService \<Rightarrow> (goerror + 'a) \<times> FileService"

text \<open>The first lines of every operation: the context is checked.\<close>

definition with_context :: "(goerror \<Rightarrow> goerror) \<Rightarrow> (fate \<Rightarrow> 'a fsop) \<Rightarrow> 'a fsop" where
  "with_context wrap body s =
     (case next_fate s of (f, s1) \<Rightarrow>
        (case ft_ctx f of Some e \<Rightarrow> (Inl (wrap e), s1) | None \<Rightarrow> body f s1))"

definition check_failed :: "goerror \<Rightarrow> goerror" where
  "check_failed e = Errorf ''failed to check context: '' e"

text \<open>
  An operation that changes the tree: \<open>full\<close> is its whole effect, \<open>part\<close> what a failed or cancelled
  one leaves behind. The error of the operation itself is wrapped; the context's is not.
\<close>

definition os_change :: "string \<Rightarrow> (tree \<Rightarrow> tree) \<Rightarrow> (tree \<Rightarrow> tree) \<Rightarrow> goerror option \<Rightarrow> (FileService \<Rightarrow> FileService) \<Rightarrow> fate \<Rightarrow> unit fsop" where
  "os_change msg full part err after f s =
     (case ft_cancel f of
        Some e \<Rightarrow> (Inl e, s\<lparr>fv_tree := part (fv_tree s)\<rparr>)
      | None \<Rightarrow>
          (case (case ft_os f of Some e \<Rightarrow> Some e | None \<Rightarrow> err) of
             Some e \<Rightarrow> (Inl (Errorf msg e), s\<lparr>fv_tree := part (fv_tree s)\<rparr>)
           | None \<Rightarrow> (Inr (), after (s\<lparr>fv_tree := full (fv_tree s)\<rparr>))))"

subsection \<open>Directories and files\<close>

definition err_not_exist :: goerror where "err_not_exist = ErrorNew 80 ''no such file or directory''"
definition err_exists :: goerror where "err_exists = ErrorNew 81 ''file exists''"
definition err_is_dir :: goerror where "err_is_dir = ErrorNew 82 ''is a directory''"
definition err_not_dir :: goerror where "err_not_dir = ErrorNew 83 ''not a directory''"
definition err_loop :: goerror where "err_loop = ErrorNew 85 ''too many levels of symbolic links''"
definition err_not_empty :: goerror where "err_not_empty = ErrorNew 84 ''directory not empty''"

text \<open>The directories on the way from the root to \<open>p\<close>.\<close>

definition ancestors :: "string \<Rightarrow> string list" where
  "ancestors p = map (\<lambda>i. take i p) (filter (\<lambda>i. p ! i = CHR ''/'') [1..<length p])"

definition make_dir :: "string \<Rightarrow> tree \<Rightarrow> tree" where
  "make_dir p t = (if map_of t p = None then put_node p NDir t else t)"

definition EnsureDirectory :: "string \<Rightarrow> unit fsop" where
  "EnsureDirectory p =
     with_context check_failed (\<lambda>f s.
       let q = resolve (fv_tree s) p;
           made = fold make_dir (ancestors q @ [q])
       in os_change (''failed to create directory '' @ p @ '': '') made
            (\<lambda>t. if ft_effect f q \<and> link_of t q = None then made t else t)
            (if link_of (fv_tree s) q \<noteq> None then Some err_loop
             else case map_of (fv_tree s) q of Some (NFile _ _) \<Rightarrow> Some err_not_dir | _ \<Rightarrow> None) id f s)"

definition WriteFile :: "string \<Rightarrow> string \<Rightarrow> unit fsop" where
  "WriteFile p data =
     with_context check_failed (\<lambda>f s.
       let q = resolve (fv_tree s) p
       in os_change (''failed to write file '' @ p @ '': '') (put_node q (NFile data (fv_now s)))
            (\<lambda>t. if ft_effect f q \<and> link_of t q = None \<and> map_of t q \<noteq> Some NDir
                 then put_node q (NFile (take (ft_bytes f) data) (fv_now s)) t else t)
            (if link_of (fv_tree s) q \<noteq> None then Some err_loop
             else if map_of (fv_tree s) q = Some NDir then Some err_is_dir
             else if map_of (fv_tree s) (filepath_Dir q) \<noteq> Some NDir \<and> filepath_Dir q \<noteq> ''/'' then Some err_not_exist else None)
            id f s)"

subsection \<open>Caches\<close>

definition shouldCachePath :: "string \<Rightarrow> bool" where
  "shouldCachePath p = list_ex (\<lambda>pre. prefix pre (filepath_Clean p)) FilesystemCachePrefixes"

definition drop_key :: "(string \<Rightarrow> bool) \<Rightarrow> (string \<times> 'a) list \<Rightarrow> (string \<times> 'a) list" where
  "drop_key P c = filter (\<lambda>(k, _). \<not> P k) c"

definition store_key :: "string \<Rightarrow> 'a \<Rightarrow> (string \<times> 'a) list \<Rightarrow> (string \<times> 'a) list" where
  "store_key k v c = (k, v) # drop_key (\<lambda>x. x = k) c"

definition invalidatePathCache :: "string \<Rightarrow> FileService \<Rightarrow> FileService" where
  "invalidatePathCache path s =
     (let p = filepath_Clean path;
          slash = (if p \<noteq> [] \<and> last p = CHR ''/'' then p else p @ ''/'');
          hit = (\<lambda>k. k = p \<or> prefix slash k)
      in s\<lparr>fv_pathCache := drop_key hit (fv_pathCache s),
           fv_dirCache := drop_key (\<lambda>k. hit k \<or> k = filepath_Dir p) (fv_dirCache s),
           fv_fileCache := drop_key hit (fv_fileCache s)\<rparr>)"

definition pathExistsUncached :: "string \<Rightarrow> fate \<Rightarrow> bool fsop" where
  "pathExistsUncached p f s =
     (case ft_cancel f of
        Some e \<Rightarrow> (Inl e, s)
      | None \<Rightarrow>
          (case ft_os f of
             Some e \<Rightarrow> (Inl (Errorf (''failed to check if path exists ('' @ p @ ''): '') e), s)
           | None \<Rightarrow> (Inr (os_node (fv_tree s) p \<noteq> None), s)))"

definition PathExists :: "string \<Rightarrow> bool fsop" where
  "PathExists p =
     with_context id (\<lambda>f s.
       let cacheKey = filepath_Clean p
       in case map_of (fv_pathCache s) cacheKey of
            Some expiry \<Rightarrow>
              if fv_now s < expiry then (Inr True, s)
              else (case pathExistsUncached p f s of
                      (Inr True, s1) \<Rightarrow> (Inr True, s1\<lparr>fv_pathCache := store_key cacheKey (fv_now s1 + FilesystemCacheTTL) (fv_pathCache s1)\<rparr>)
                    | r \<Rightarrow> r)
          | None \<Rightarrow>
              (case pathExistsUncached p f s of
                 (Inr True, s1) \<Rightarrow> (Inr True, s1\<lparr>fv_pathCache := store_key cacheKey (fv_now s1 + FilesystemCacheTTL) (fv_pathCache s1)\<rparr>)
               | r \<Rightarrow> r))"

definition FileExists :: "string \<Rightarrow> bool fsop" where
  "FileExists p = PathExists p"

definition readFileUncached :: "string \<Rightarrow> fate \<Rightarrow> string fsop" where
  "readFileUncached p f s =
     (case ft_cancel f of
        Some e \<Rightarrow> (Inl e, s)
      | None \<Rightarrow>
          (case ft_os f of
             Some e \<Rightarrow> (Inl e, s)
           | None \<Rightarrow> (case os_node (fv_tree s) p of
                        Some (NFile data _) \<Rightarrow> (Inr data, s)
                      | Some _ \<Rightarrow> (Inl err_is_dir, s)
                      | None \<Rightarrow> (Inl err_not_exist, s))))"

text \<open>What \<^verbatim>\<open>os.Stat\<close> says of modification time and size; those of a directory are of no use here.\<close>

definition stat_node :: "node \<Rightarrow> int \<times> int" where
  "stat_node n = (case n of NFile data mt \<Rightarrow> (mt, int (length data)) | _ \<Rightarrow> (0, -1))"

definition ReadFile :: "string \<Rightarrow> string fsop" where
  "ReadFile p =
     with_context check_failed (\<lambda>f s.
       let cacheKey = filepath_Clean p; cached = map_of (fv_fileCache s) cacheKey
       in if \<not> shouldCachePath cacheKey then readFileUncached p f s
          else
            (case (case ft_stat f of Some e \<Rightarrow> Inl e | None \<Rightarrow> (case os_node (fv_tree s) p of None \<Rightarrow> Inl err_not_exist | Some n \<Rightarrow> Inr n)) of
               Inl e \<Rightarrow> (Inl e, s\<lparr>fv_fileCache := drop_key (\<lambda>k. k = cacheKey) (fv_fileCache s)\<rparr>)
             | Inr n \<Rightarrow>
                 let (mt, sz) = stat_node n;
                     fresh = (\<lambda>s. case readFileUncached p f s of
                                    (Inl e, s1) \<Rightarrow> (Inl e, s1)
                                  | (Inr content, s1) \<Rightarrow>
                                      (Inr content, s1\<lparr>fv_fileCache := store_key cacheKey
                                         \<lparr>cf_content = content, cf_modTime = mt, cf_size = sz, cf_lastCheck = fv_now s1\<rparr> (fv_fileCache s1)\<rparr>))
                 in (case cached of
                       None \<Rightarrow> fresh s
                     | Some c \<Rightarrow>
                         if cf_modTime c = mt \<and> cf_size c = sz then
                           (if fv_now s - cf_lastCheck c < FilesystemCacheRecheckInterval then (Inr (cf_content c), s)
                            else (Inr (cf_content c),
                                  s\<lparr>fv_fileCache := store_key cacheKey (c\<lparr>cf_lastCheck := fv_now s\<rparr>) (fv_fileCache s)\<rparr>))
                         else fresh s)))"

definition readDirUncached :: "string \<Rightarrow> fate \<Rightarrow> (string \<times> bool) list fsop" where
  "readDirUncached p f s =
     (case ft_cancel f of
        Some e \<Rightarrow> (Inl e, s)
      | None \<Rightarrow>
          (case (case ft_os f of Some e \<Rightarrow> Some e
                 | None \<Rightarrow> if os_node (fv_tree s) p = Some NDir then None else Some err_not_exist) of
             Some e \<Rightarrow> (Inl (Errorf (''failed to read directory '' @ p @ '': '') e), s)
           | None \<Rightarrow> (Inr (dir_entries (fv_tree s) p), s)))"

definition ReadDir :: "string \<Rightarrow> (string \<times> bool) list fsop" where
  "ReadDir p =
     with_context check_failed (\<lambda>f s.
       let cacheKey = filepath_Clean p;
           fresh = (case readDirUncached p f s of
                      (Inl e, s1) \<Rightarrow> (Inl e, s1)
                    | (Inr es, s1) \<Rightarrow> (Inr es, s1\<lparr>fv_dirCache := store_key cacheKey (fv_now s1 + FilesystemCacheTTL, es) (fv_dirCache s1)\<rparr>))
       in case map_of (fv_dirCache s) cacheKey of
            Some (expiry, es) \<Rightarrow> if fv_now s < expiry then (Inr es, s) else fresh
          | None \<Rightarrow> fresh)"

subsection \<open>Removal and links\<close>

text \<open>Removal does not follow a link at the end of the path, only on the way to it.\<close>

definition resolve_parent :: "tree \<Rightarrow> string \<Rightarrow> string" where
  "resolve_parent t p = (case map_of t p of Some (NLink _) \<Rightarrow> p | _ \<Rightarrow> resolve t p)"

text \<open>\<^verbatim>\<open>Remove\<close> drops its caches whether or not the removal succeeded, unless it was cancelled.\<close>

definition fs_Remove :: "string \<Rightarrow> unit fsop" where
  "fs_Remove p =
     with_context id (\<lambda>f s.
       let q = resolve_parent (fv_tree s) p;
           err = (if map_of (fv_tree s) q = None then Some err_not_exist
                  else if map_of (fv_tree s) q = Some NDir \<and> list_ex (\<lambda>(k, _). prefix (q @ ''/'') k) (fv_tree s)
                  then Some err_not_empty else None)
       in case ft_cancel f of
            Some e \<Rightarrow> (Inl e, s\<lparr>fv_tree := (if ft_effect f q \<and> err = None then cut_nodes (\<lambda>k. k = q) (fv_tree s) else fv_tree s)\<rparr>)
          | None \<Rightarrow>
              (case (case ft_os f of Some e \<Rightarrow> Some e | None \<Rightarrow> err) of
                 Some e \<Rightarrow> (Inl e, invalidatePathCache p s)
               | None \<Rightarrow> (Inr (), invalidatePathCache p (s\<lparr>fv_tree := cut_nodes (\<lambda>k. k = q) (fv_tree s)\<rparr>))))"

definition RemoveAll :: "string \<Rightarrow> unit fsop" where
  "RemoveAll p =
     with_context id (\<lambda>f s.
       let q = resolve_parent (fv_tree s) p;
           some = cut_nodes (\<lambda>k. below q k \<and> ft_effect f k) (fv_tree s)
       in case ft_cancel f of
            Some e \<Rightarrow> (Inl e, s\<lparr>fv_tree := some\<rparr>)
          | None \<Rightarrow>
              (case ft_os f of
                 Some e \<Rightarrow> (Inl (Errorf (''failed to remove directory '' @ p @ '': '') e), invalidatePathCache p (s\<lparr>fv_tree := some\<rparr>))
               | None \<Rightarrow> (Inr (), invalidatePathCache p (s\<lparr>fv_tree := cut_nodes (below q) (fv_tree s)\<rparr>))))"

definition Symlink :: "string \<Rightarrow> string \<Rightarrow> unit fsop" where
  "Symlink target linkPath =
     with_context check_failed (\<lambda>f s.
       let add = put_node linkPath (NLink target);
           busy = (link_of (fv_tree s) linkPath \<noteq> None \<or> list_ex (\<lambda>(k, _). below linkPath k) (fv_tree s))
       in os_change (''failed to create symlink '' @ linkPath @ '' -> '' @ target @ '': '') add
            (\<lambda>t. if ft_effect f linkPath \<and> \<not> busy then add t else t)
            (if busy then Some err_exists else None)
            (invalidatePathCache linkPath) f s)"

subsection \<open>Programs\<close>

text \<open>
  The exit status of a program. The scanner control program leaves the tree alone; other programs,
  s6-svunlink for one, may take paths away. What s6 keeps below its supervise directories is not
  represented.
\<close>

definition ExitError :: "nat \<Rightarrow> goerror" where
  "ExitError code = ErrorNew (1000 + code) (''exit status '' @ itoa code)"

fun exit_code :: "goerror \<Rightarrow> nat option" where
  "exit_code (ErrorNew tag _) = (if 1000 \<le> tag \<and> tag < 1256 then Some (tag - 1000) else None)"
| "exit_code (Errorf _ e) = exit_code e"
| "exit_code (ErrorJoin es) = None"

definition ExecuteCommand :: "string \<Rightarrow> string list \<Rightarrow> string fsop" where
  "ExecuteCommand name args =
     with_context check_failed (\<lambda>f s.
       let s1 = s\<lparr>fv_calls := fv_calls s @ [(name, args)],
                  fv_tree := (if name = ''s6-svscanctl'' then fv_tree s else cut_nodes (ft_effect f) (fv_tree s))\<rparr>
       in case (case ft_cancel f of Some e \<Rightarrow> Some e | None \<Rightarrow> ft_os f) of
            Some e \<Rightarrow> (Inl (Errorf (''failed to execute command '' @ name @ '': '') e), s1)
          | None \<Rightarrow> (Inr [], s1))"

section \<open>The interface\<close>

text \<open>\<^verbatim>\<open>filesystem.Service\<close>, as far as the s6 service uses it, over any state.\<close>

record 's fsys =
  op_PathExists :: "string \<Rightarrow> 's \<Rightarrow> (goerror + bool) \<times> 's"
  op_FileExists :: "string \<Rightarrow> 's \<Rightarrow> (goerror + bool) \<times> 's"
  op_ReadFile :: "string \<Rightarrow> 's \<Rightarrow> (goerror + string) \<times> 's"
  op_ReadDir :: "string \<Rightarrow> 's \<Rightarrow> (goerror + (string \<times> bool) list) \<times> 's"
  op_EnsureDirectory :: "string \<Rightarrow> 's \<Rightarrow> (goerror + unit) \<times> 's"
  op_WriteFile :: "string \<Rightarrow> string \<Rightarrow> 's \<Rightarrow> (goerror + unit) \<times> 's"
  op_Remove :: "string \<Rightarrow> 's \<Rightarrow> (goerror + unit) \<times> 's"
  op_RemoveAll :: "string \<Rightarrow> 's \<Rightarrow> (goerror + unit) \<times> 's"
  op_Symlink :: "string \<Rightarrow> string \<Rightarrow> 's \<Rightarrow> (goerror + unit) \<times> 's"
  op_ExecuteCommand :: "string \<Rightarrow> string list \<Rightarrow> 's \<Rightarrow> (goerror + string) \<times> 's"

definition DefaultFileService :: "FileService fsys" where
  "DefaultFileService =
     \<lparr>op_PathExists = PathExists, op_FileExists = FileExists, op_ReadFile = ReadFile, op_ReadDir = ReadDir,
      op_EnsureDirectory = EnsureDirectory, op_WriteFile = WriteFile, op_Remove = fs_Remove, op_RemoveAll = RemoveAll,
      op_Symlink = Symlink, op_ExecuteCommand = ExecuteCommand\<rparr>"

text \<open>
  What a client may rely on. \<open>present\<close> says whether a path can be reached, \<open>good\<close> is the invariant of
  the state, \<open>scan\<close> the directory that holds the links. A negative answer is true; whatever is
  written stays until it is removed; a removal takes away what it was asked to.
\<close>

locale file_service =
  fixes fs :: "'s fsys"
    and present :: "'s \<Rightarrow> string \<Rightarrow> bool"
    and good :: "'s \<Rightarrow> bool"
    and scan :: string
  assumes exists_false: "op_PathExists fs p s = (Inr False, s') \<Longrightarrow> \<not> present s p"
    and exists_keeps: "op_PathExists fs p s = (r, s') \<Longrightarrow> present s' = present s \<and> (good s \<longrightarrow> good s')"
    and file_exists_false: "op_FileExists fs p s = (Inr False, s') \<Longrightarrow> \<not> present s p"
    and file_exists_keeps: "op_FileExists fs p s = (r, s') \<Longrightarrow> present s' = present s \<and> (good s \<longrightarrow> good s')"
    and read_keeps: "op_ReadFile fs p s = (rf, s') \<Longrightarrow> present s' = present s \<and> (good s \<longrightarrow> good s')"
    and read_dir_keeps: "op_ReadDir fs p s = (rd, s') \<Longrightarrow> present s' = present s \<and> (good s \<longrightarrow> good s')"
    and ensure_keeps: "good s \<Longrightarrow> op_EnsureDirectory fs p s = (ru, s') \<Longrightarrow> good s' \<and> (present s q \<longrightarrow> present s' q)"
    and ensure_done: "good s \<Longrightarrow> op_EnsureDirectory fs p s = (Inr (), s') \<Longrightarrow> present s' p"
    and write_keeps: "good s \<Longrightarrow> op_WriteFile fs p d s = (ru, s') \<Longrightarrow> good s' \<and> (present s q \<longrightarrow> present s' q)"
    and write_done: "good s \<Longrightarrow> op_WriteFile fs p d s = (Inr (), s') \<Longrightarrow> present s' p"
    and remove_all_shrinks: "good s \<Longrightarrow> op_RemoveAll fs p s = (ru, s') \<Longrightarrow> good s' \<and> (present s' q \<longrightarrow> present s q)"
    and remove_all_done: "good s \<Longrightarrow> op_RemoveAll fs p s = (Inr (), s') \<Longrightarrow> \<not> present s' p"
    and symlink_keeps: "good s \<Longrightarrow> below scan l \<Longrightarrow> l \<noteq> scan \<Longrightarrow> op_Symlink fs t l s = (ru, s') \<Longrightarrow> good s' \<and> (present s q \<longrightarrow> present s' q)"
    and symlink_done: "good s \<Longrightarrow> below scan l \<Longrightarrow> l \<noteq> scan \<Longrightarrow> \<not> below scan t \<Longrightarrow> op_Symlink fs t l s = (Inr (), s')
        \<Longrightarrow> present s t \<Longrightarrow> present s' l"
    and scanner_keeps: "op_ExecuteCommand fs ''s6-svscanctl'' args s = (rs, s') \<Longrightarrow> present s' = present s \<and> (good s \<longrightarrow> good s')"
    and execute_good: "op_ExecuteCommand fs name args s = (rs, s') \<Longrightarrow> good s \<Longrightarrow> good s'"
begin

end

section \<open>The tree\<close>

definition tree_ok :: "string \<Rightarrow> tree \<Rightarrow> bool" where
  "tree_ok scan t \<longleftrightarrow> distinct (map fst t)
     \<and> (\<forall>l tg. (l, NLink tg) \<in> set t \<longrightarrow> below scan l \<and> l \<noteq> scan \<and> (\<forall>k \<in> fst ` set t. below l k \<longrightarrow> k = l))"

lemma below_iff: "below a p \<longleftrightarrow> prefix (a @ ''/'') (p @ ''/'')"
proof
  assume "prefix (a @ ''/'') (p @ ''/'')"
  then obtain z where z: "p @ ''/'' = (a @ ''/'') @ z" by (auto simp: prefix_def)
  show "below a p"
  proof (cases z rule: rev_cases)
    case (snoc y c)
    with z have "p = (a @ ''/'') @ y" by (metis append.assoc append_same_eq last_snoc)
    then show ?thesis by (simp add: below_def)
  qed (use z in \<open>simp add: below_def\<close>)
qed (auto simp: below_def prefix_def)

lemma below_linear: "below a p \<Longrightarrow> below b p \<Longrightarrow> below a b \<or> below b a"
  unfolding below_iff by (rule prefix_same_cases)

lemma link_of_None: "link_of t p = None \<longleftrightarrow> (\<forall>l tg. (l, NLink tg) \<in> set t \<longrightarrow> \<not> below l p)"
proof -
  have "link_of t p = None \<longleftrightarrow> filter (\<lambda>(l, n). below l p \<and> is_NLink n) t = []"
    by (auto simp: link_of_def split: list.splits)
  also have "\<dots> \<longleftrightarrow> (\<forall>l tg. (l, NLink tg) \<in> set t \<longrightarrow> \<not> below l p)"
    by (auto simp: filter_empty_conv is_NLink_def)
  finally show ?thesis .
qed

lemma link_of_Some: "link_of t p = Some (l, tg) \<Longrightarrow> (l, NLink tg) \<in> set t \<and> below l p"
proof -
  let ?P = "\<lambda>(l, n). below l p \<and> is_NLink n"
  assume "link_of t p = Some (l, tg)"
  then obtain n xs where n: "filter ?P t = (l, n) # xs" "tg = link_target n"
    by (auto simp: link_of_def split: list.splits)
  then have "(l, n) \<in> set (filter ?P t)" by (simp only: list.set_intros)
  with n(2) show ?thesis by (auto simp: is_NLink_def)
qed

lemma link_unique:
  assumes "tree_ok scan t" "(l, NLink tg) \<in> set t" "below l p" "(l', NLink tg') \<in> set t" "below l' p"
  shows "l = l' \<and> tg = tg'"
proof -
  have "l = l'" using below_linear [OF assms(3,5)] assms(1,2,4) unfolding tree_ok_def by (metis fst_conv image_eqI)
  with assms(1,2,4) show ?thesis by (auto simp: tree_ok_def dest: eq_key_imp_eq_value)
qed

lemma link_of_iff:
  assumes "tree_ok scan t"
  shows "link_of t p = Some (l, tg) \<longleftrightarrow> (l, NLink tg) \<in> set t \<and> below l p"
proof
  assume a: "(l, NLink tg) \<in> set t \<and> below l p"
  then have "link_of t p \<noteq> None" by (auto simp: link_of_None)
  then obtain l' tg' where "link_of t p = Some (l', tg')" by auto
  with link_of_Some [OF this] link_unique [OF assms] a show "link_of t p = Some (l, tg)" by blast
qed (rule link_of_Some)

text \<open>A node below a link is the link itself.\<close>

lemma node_at_link:
  assumes "tree_ok scan t" "map_of t q = Some n" "link_of t q = Some (l, tg)"
  shows "q = l \<and> n = NLink tg"
proof -
  have "(q, n) \<in> set t" using assms(2) by (rule map_of_SomeD)
  moreover have "(l, NLink tg) \<in> set t" "below l q" using link_of_Some [OF assms(3)] by auto
  ultimately have "q = l" using assms(1) unfolding tree_ok_def by (metis fst_conv image_eqI)
  with \<open>(q, n) \<in> set t\<close> \<open>(l, NLink tg) \<in> set t\<close> assms(1) show ?thesis by (auto simp: tree_ok_def dest: eq_key_imp_eq_value)
qed

subsection \<open>Adding\<close>

lemma map_of_put: "map_of (put_node q n t) x = (if x = q then Some n else map_of t x)"
proof -
  have "map_of (filter (\<lambda>(k, _). k \<noteq> q) t) x = (if x = q then None else map_of t x)"
    by (induction t) auto
  then show ?thesis by (simp add: put_node_def)
qed

lemma put_ok:
  assumes "tree_ok scan t" "link_of t q = None" "\<And>tg. n \<noteq> NLink tg"
  shows "tree_ok scan (put_node q n t)" and "link_of (put_node q n t) p = link_of t p"
proof -
  have nolink: "\<And>l tg. (l, NLink tg) \<in> set t \<Longrightarrow> \<not> below l q" using assms(2) by (auto simp: link_of_None)
  have links: "(l, NLink tg) \<in> set (put_node q n t) \<longleftrightarrow> (l, NLink tg) \<in> set t" for l tg
    using nolink [of l tg] assms(3) [of tg] by (auto simp: put_node_def)
  have "distinct (map fst (put_node q n t))"
    using assms(1) by (auto simp: put_node_def tree_ok_def distinct_map_filter)
  moreover have "k = l" if "(l, NLink tg) \<in> set t" "k \<in> fst ` set (put_node q n t)" "below l k" for l tg k
  proof (cases "k = q")
    case False
    then have "k \<in> fst ` set t" using that(2) by (auto simp: put_node_def)
    with that assms(1) show ?thesis unfolding tree_ok_def by blast
  qed (use nolink that in blast)
  ultimately show ok: "tree_ok scan (put_node q n t)"
    using assms(1) unfolding tree_ok_def links by blast
  show "link_of (put_node q n t) p = link_of t p"
  proof (cases "link_of t p")
    case None
    then have "link_of (put_node q n t) p = None" unfolding link_of_None links .
    with None show ?thesis by simp
  next
    case (Some x)
    then obtain l tg where x: "x = (l, tg)" "(l, NLink tg) \<in> set t \<and> below l p" using link_of_Some by (cases x) blast
    then show ?thesis using Some link_of_iff [OF ok] links by auto
  qed
qed

lemma put_present:
  assumes "tree_ok scan t" "link_of t q = None" "\<And>tg. n \<noteq> NLink tg"
  shows "os_node t p \<noteq> None \<Longrightarrow> os_node (put_node q n t) p \<noteq> None" and "os_node (put_node q n t) q = Some n"
proof -
  note l = put_ok(2) [OF assms]
  have res: "resolve (put_node q n t) x = resolve t x" for x by (simp add: resolve_def l)
  show "os_node t p \<noteq> None \<Longrightarrow> os_node (put_node q n t) p \<noteq> None"
    by (auto simp: os_node_def res l Let_def map_of_put split: if_splits)
  show "os_node (put_node q n t) q = Some n"
    using assms(2) by (simp add: os_node_def res l map_of_put) (simp add: resolve_def map_of_put)
qed

lemma ancestors_above: "a \<in> set (ancestors q) \<Longrightarrow> below a q"
proof -
  assume "a \<in> set (ancestors q)"
  then obtain i where i: "a = take i q" "i < length q" "q ! i = CHR ''/''" by (auto simp: ancestors_def)
  then have "q = a @ ''/'' @ drop (Suc i) q" by (metis append_Cons append_Nil id_take_nth_drop)
  then show ?thesis by (metis append.assoc below_def prefixI)
qed

lemma make_dirs_ok:
  assumes "tree_ok scan t" "link_of t q = None" "\<forall>a \<in> set as. below a q"
  shows "tree_ok scan (fold make_dir as t) \<and> link_of (fold make_dir as t) p = link_of t p
    \<and> (os_node t x \<noteq> None \<longrightarrow> os_node (fold make_dir as t) x \<noteq> None)
    \<and> (a \<in> set as \<longrightarrow> map_of (fold make_dir as t) a \<noteq> None)
    \<and> (map_of t x \<noteq> None \<longrightarrow> map_of (fold make_dir as t) x \<noteq> None)"
  using assms
proof (induction as arbitrary: t x)
  case (Cons b as)
  have b: "link_of t b = None"
    using Cons.prems(2,3) below_trans [of _ b q] by (auto simp: link_of_None)
  have step: "tree_ok scan (make_dir b t)" "\<And>p. link_of (make_dir b t) p = link_of t p" "map_of (make_dir b t) b \<noteq> None"
    "\<And>y. map_of t y \<noteq> None \<Longrightarrow> map_of (make_dir b t) y \<noteq> None" "\<And>y. os_node t y \<noteq> None \<Longrightarrow> os_node (make_dir b t) y \<noteq> None"
    using put_ok [OF Cons.prems(1) b, of NDir] put_present [OF Cons.prems(1) b, of NDir] Cons.prems(1)
    by (auto simp: make_dir_def map_of_put)
  have "link_of (make_dir b t) q = None" using step(2) Cons.prems(2) by simp
  note IH = Cons.IH [OF step(1) this]
  have "map_of (fold make_dir as (make_dir b t)) b \<noteq> None" using IH [of b] Cons.prems(3) step(3) by simp
  with IH [of x] Cons.prems(3) step show ?case by auto
qed simp

subsection \<open>Removing\<close>

lemma map_of_cut: "map_of (cut_nodes P t) x = (if P x then None else map_of t x)"
  by (induction t) (auto simp: cut_nodes_def)

lemma cut_subset: "set (cut_nodes P t) \<subseteq> set t"
  by (auto simp: cut_nodes_def)

lemma cut_ok:
  assumes "tree_ok scan t"
  shows "tree_ok scan (cut_nodes P t)"
proof -
  have "distinct (map fst (cut_nodes P t))"
    using assms by (auto simp: tree_ok_def cut_nodes_def distinct_map_filter)
  moreover have "fst ` set (cut_nodes P t) \<subseteq> fst ` set t" using cut_subset [of P t] by blast
  ultimately show ?thesis using assms cut_subset [of P t] unfolding tree_ok_def by blast
qed

lemma cut_link: "link_of t p = None \<Longrightarrow> link_of (cut_nodes P t) p = None"
  using cut_subset [of P t] by (auto simp: link_of_None)

lemma cut_shrinks:
  assumes ok: "tree_ok scan t" and p: "os_node (cut_nodes P t) p \<noteq> None"
  shows "os_node t p \<noteq> None"
proof -
  let ?t = "cut_nodes P t" and ?x = "resolve (cut_nodes P t) p"
  from p obtain n where n: "link_of ?t ?x = None" "map_of ?t ?x = Some n" by (auto simp: os_node_def Let_def split: if_splits)
  have x: "map_of t ?x = Some n" "\<not> P ?x" using n(2) by (auto simp: map_of_cut split: if_splits)
  have direct: "link_of t ?x = None"
  proof (rule ccontr)
    assume "link_of t ?x \<noteq> None"
    then obtain l tg where l: "link_of t ?x = Some (l, tg)" by auto
    from node_at_link [OF ok x(1) l] have "?x = l" "n = NLink tg" by auto
    with n(2) have "(?x, NLink tg) \<in> set ?t" using map_of_SomeD by fastforce
    with n(1) show False by (auto simp: link_of_None)
  qed
  have "resolve t p = ?x"
  proof (cases "link_of ?t p")
    case (Some lt)
    then obtain l tg where lt: "lt = (l, tg)" "(l, NLink tg) \<in> set ?t" "below l p" using link_of_Some by (cases lt) blast
    then have "link_of t p = Some (l, tg)" using cut_subset [of P t] link_of_iff [OF ok] by blast
    with Some lt(1) show ?thesis by (simp add: resolve_def)
  next
    case None
    then have "?x = p" by (simp add: resolve_def)
    with direct show ?thesis by (simp add: resolve_def)
  qed
  with direct x(1) show ?thesis by (simp add: os_node_def)
qed

lemma cut_all_gone:
  assumes ok: "tree_ok scan t"
  shows "os_node (cut_nodes (below (resolve_parent t p)) t) p = None"
proof -
  let ?q = "resolve_parent t p"
  let ?t = "cut_nodes (below ?q) t"
  have okt: "tree_ok scan ?t" using cut_ok [OF ok] .
  have gone: "map_of ?t ?q = None" by (simp add: map_of_cut)
  show ?thesis
  proof (cases "link_of ?t p")
    case None
    then have r: "resolve ?t p = p" by (simp add: resolve_def)
    have "map_of ?t p = None"
    proof (cases "link_of t p")
      case None
      then have "?q = p" by (auto simp: resolve_parent_def resolve_def split: option.splits node.splits)
      with gone show ?thesis by simp
    next
      case (Some lt)
      obtain l tg where lt: "lt = (l, tg)" by (cases lt)
      show ?thesis
      proof (cases "map_of t p")
        case (Some n)
        with node_at_link [OF ok Some, of l tg] \<open>link_of t p = Some lt\<close> lt have "map_of t p = Some (NLink tg)" by simp
        then have "?q = p" by (simp add: resolve_parent_def)
        with gone show ?thesis by simp
      qed (simp add: map_of_cut)
    qed
    with r show ?thesis by (simp add: os_node_def)
  next
    case (Some lt)
    obtain l tg where lt: "lt = (l, tg)" by (cases lt)
    with Some link_of_Some have l: "(l, NLink tg) \<in> set ?t" "below l p" by auto
    then have lp: "link_of t p = Some (l, tg)" using cut_subset [of "below ?q" t] link_of_iff [OF ok] by blast
    have "map_of t p \<noteq> Some (NLink x)" for x
    proof
      assume a: "map_of t p = Some (NLink x)"
      then have "?q = p" by (simp add: resolve_parent_def)
      moreover have "p = l" using node_at_link [OF ok a lp] by simp
      ultimately show False using l(1) by (auto simp: cut_nodes_def)
    qed
    then have "?q = resolve t p" by (auto simp: resolve_parent_def split: option.splits node.splits)
    moreover have "resolve ?t p = resolve t p" using Some lt lp by (simp add: resolve_def)
    ultimately show ?thesis using gone by (simp add: os_node_def Let_def)
  qed
qed

subsection \<open>Linking\<close>

lemma link_added:
  assumes ok: "tree_ok scan t" and l: "link_of t l = None" "\<forall>k \<in> fst ` set t. \<not> below l k" "below scan l" "l \<noteq> scan"
  shows "tree_ok scan (put_node l (NLink tg) t)"
    and "os_node t p \<noteq> None \<Longrightarrow> os_node (put_node l (NLink tg) t) p \<noteq> None"
    and "\<not> below scan tg \<Longrightarrow> os_node t tg \<noteq> None \<Longrightarrow> os_node (put_node l (NLink tg) t) l \<noteq> None"
proof -
  let ?t = "put_node l (NLink tg) t"
  have nol: "\<And>k n. (k, n) \<in> set t \<Longrightarrow> \<not> below l k" using l(2) by force
  have t: "?t = (l, NLink tg) # t"
    using nol [of l] by (auto simp: put_node_def filter_id_conv)
  have links: "(k, NLink g) \<in> set ?t \<longleftrightarrow> k = l \<and> g = tg \<or> (k, NLink g) \<in> set t" for k g by (auto simp: t)
  have above: "\<And>k g. (k, NLink g) \<in> set t \<Longrightarrow> \<not> below k l" using l(1) by (auto simp: link_of_None)
  have "distinct (map fst ?t)" using ok nol [of l] by (auto simp: t tree_ok_def)
  moreover have "below scan k \<and> k \<noteq> scan \<and> (\<forall>j \<in> fst ` set ?t. below k j \<longrightarrow> j = k)" if "(k, NLink g) \<in> set ?t" for k g
    using that ok nol above l(3,4) unfolding links by (auto simp: t tree_ok_def)
  ultimately show okt: "tree_ok scan ?t" unfolding tree_ok_def by blast
  have same: "link_of ?t x = link_of t x" if "\<not> below l x" for x
    using that by (simp add: link_of_def t)
  show "os_node ?t p \<noteq> None" if p: "os_node t p \<noteq> None"
  proof -
    let ?x = "resolve t p"
    from p obtain n where n: "link_of t ?x = None" "map_of t ?x = Some n" by (auto simp: os_node_def Let_def split: if_splits)
    have x: "\<not> below l ?x" "?x \<noteq> l" using nol [OF map_of_SomeD [OF n(2)]] by auto
    have "\<not> below l p"
    proof
      assume a: "below l p"
      show False
      proof (cases "link_of t p")
        case None
        then have "?x = p" by (simp add: resolve_def)
        with a x show False by simp
      next
        case (Some kg)
        then obtain k g where k: "(k, NLink g) \<in> set t" "below k p" using link_of_Some by (cases kg) blast
        with below_linear [OF a k(2)] above nol show False by blast
      qed
    qed
    then have "resolve ?t p = ?x" by (simp add: resolve_def same)
    with n x show ?thesis by (simp add: os_node_def same map_of_put)
  qed
  show "os_node ?t l \<noteq> None" if tg: "\<not> below scan tg" "os_node t tg \<noteq> None"
  proof -
    have "link_of ?t l = Some (l, tg)" using link_of_iff [OF okt] links by simp
    then have r: "resolve ?t l = tg" by (simp add: resolve_def)
    have "link_of u tg = None" if "tree_ok scan u" for u
      using that tg(1) below_trans [of scan _ tg] unfolding link_of_None tree_ok_def by metis
    then have none: "link_of t tg = None" "link_of ?t tg = None" using ok okt by blast+
    then have "map_of t tg \<noteq> None" using tg(2) by (simp add: os_node_def resolve_def)
    with r none show ?thesis by (simp add: os_node_def map_of_put)
  qed
qed

section \<open>The service keeps the contract\<close>

definition scan_dir :: string where "scan_dir = ''/run/service''"

definition fs_present :: "FileService \<Rightarrow> string \<Rightarrow> bool" where
  "fs_present s p \<longleftrightarrow> os_node (fv_tree s) p \<noteq> None"

definition fs_good :: "FileService \<Rightarrow> bool" where
  "fs_good s \<longleftrightarrow> tree_ok scan_dir (fv_tree s)"

lemma next_fate_tree: "next_fate s = (f, s1) \<Longrightarrow> fv_tree s1 = fv_tree s"
  by (auto simp: next_fate_def split: list.splits)

lemma invalidate_tree [simp]: "fv_tree (invalidatePathCache p s) = fv_tree s"
  by (simp add: invalidatePathCache_def Let_def)

text \<open>An operation behaves as its body does after the context check.\<close>

lemma with_contextE:
  assumes "with_context wrap body s = (r, s')"
  obtains e where "r = Inl e" "fv_tree s' = fv_tree s" | f s1 where "body f s1 = (r, s')" "fv_tree s1 = fv_tree s"
  using assms next_fate_tree [of s] by (auto simp: with_context_def split: prod.splits option.splits)

lemma PathExists_tree:
  assumes "PathExists p s = (r, s')"
  shows "fv_tree s' = fv_tree s \<and> (r = Inr False \<longrightarrow> os_node (fv_tree s) p = None)"
  using assms unfolding PathExists_def
  by (rule with_contextE) (auto simp: pathExistsUncached_def Let_def split: option.splits if_splits bool.splits)

lemma ReadFile_tree: "ReadFile p s = (r, s') \<Longrightarrow> fv_tree s' = fv_tree s"
  unfolding ReadFile_def
  by (erule with_contextE) (auto simp: readFileUncached_def Let_def split: option.splits if_splits node.splits prod.splits sum.splits)

lemma ReadDir_tree: "ReadDir p s = (r, s') \<Longrightarrow> fv_tree s' = fv_tree s"
  unfolding ReadDir_def
  by (erule with_contextE) (auto simp: readDirUncached_def Let_def split: option.splits if_splits prod.splits sum.splits)

lemma os_changeE:
  assumes "os_change msg full part err after f s = (r, s')" and "\<And>x. fv_tree (after x) = fv_tree x"
  obtains "r = Inr ()" "err = None" "fv_tree s' = full (fv_tree s)" | e where "r = Inl e" "fv_tree s' = part (fv_tree s)"
  using assms by (auto simp: os_change_def split: option.splits)

lemma resolve_same: "(\<And>z. link_of t' z = link_of t z) \<Longrightarrow> resolve t' p = resolve t p"
  by (simp add: resolve_def)

lemma EnsureDirectory_tree:
  assumes "EnsureDirectory p s = (r, s')" and ok: "tree_ok scan (fv_tree s)"
  shows "tree_ok scan (fv_tree s') \<and> (os_node (fv_tree s) x \<noteq> None \<longrightarrow> os_node (fv_tree s') x \<noteq> None)
    \<and> (r = Inr () \<longrightarrow> os_node (fv_tree s') p \<noteq> None)"
  using assms(1) unfolding EnsureDirectory_def
proof (rule with_contextE, goal_cases)
  case (2 f s1)
  let ?q = "resolve (fv_tree s1) p"
  let ?made = "fold make_dir (ancestors ?q @ [?q])"
  have dirs: "tree_ok scan (?made t) \<and> link_of (?made t) y = link_of t y \<and> (os_node t x \<noteq> None \<longrightarrow> os_node (?made t) x \<noteq> None)
      \<and> map_of (?made t) ?q \<noteq> None" if "tree_ok scan t" "link_of t ?q = None" for t x y
    using make_dirs_ok [OF that, of "ancestors ?q @ [?q]" y x ?q] ancestors_above by auto
  from 2(1) show ?case unfolding Let_def
  proof (rule os_changeE)
    assume r: "(if link_of (fv_tree s1) ?q \<noteq> None then Some err_loop else case map_of (fv_tree s1) ?q of Some (NFile _ _) \<Rightarrow> Some err_not_dir | _ \<Rightarrow> None) = None"
      and t: "fv_tree s' = ?made (fv_tree s1)"
    from r have q: "link_of (fv_tree s1) ?q = None" by (rule contrapos_pp) simp
    have ok1: "tree_ok scan (fv_tree s1)" using ok 2(2) by simp
    note d = dirs [OF ok1 q]
    have same: "link_of (?made (fv_tree s1)) z = link_of (fv_tree s1) z" for z using d [of z x] by blast
    have "resolve (?made (fv_tree s1)) p = ?q" by (rule resolve_same [OF same])
    moreover have "link_of (?made (fv_tree s1)) ?q = None" using same q by metis
    ultimately have "os_node (?made (fv_tree s1)) p \<noteq> None" using d [of p x] unfolding os_node_def Let_def by simp
    then show ?thesis using d [of p x] t 2(2) by auto
  next
    fix e assume "fv_tree s' = (if ft_effect f ?q \<and> link_of (fv_tree s1) ?q = None then ?made (fv_tree s1) else fv_tree s1)" "r = Inl e"
    with dirs [of "fv_tree s1" p x] ok 2(2) show ?thesis by auto
  qed simp
qed (use ok in simp)

lemma WriteFile_tree:
  assumes "WriteFile p d s = (r, s')" and ok: "tree_ok scan (fv_tree s)"
  shows "tree_ok scan (fv_tree s') \<and> (os_node (fv_tree s) x \<noteq> None \<longrightarrow> os_node (fv_tree s') x \<noteq> None)
    \<and> (r = Inr () \<longrightarrow> os_node (fv_tree s') p \<noteq> None)"
  using assms(1) unfolding WriteFile_def
proof (rule with_contextE, goal_cases)
  case (2 f s1)
  let ?q = "resolve (fv_tree s1) p"
  have put: "tree_ok scan (put_node ?q (NFile c m) t) \<and> link_of (put_node ?q (NFile c m) t) y = link_of t y
      \<and> (os_node t x \<noteq> None \<longrightarrow> os_node (put_node ?q (NFile c m) t) x \<noteq> None)" if "tree_ok scan t" "link_of t ?q = None" for t x y c m
    using put_ok [OF that, of "NFile c m"] put_present [OF that, of "NFile c m"] by auto
  have ok1: "tree_ok scan (fv_tree s1)" using ok 2(2) by simp
  from 2(1) show ?case unfolding Let_def
  proof (rule os_changeE)
    let ?t = "put_node ?q (NFile d (fv_now s1)) (fv_tree s1)"
    assume r: "(if link_of (fv_tree s1) ?q \<noteq> None then Some err_loop else if map_of (fv_tree s1) ?q = Some NDir then Some err_is_dir
        else if map_of (fv_tree s1) (filepath_Dir ?q) \<noteq> Some NDir \<and> filepath_Dir ?q \<noteq> ''/'' then Some err_not_exist else None) = None"
      and t: "fv_tree s' = ?t"
    from r have q: "link_of (fv_tree s1) ?q = None" by (rule contrapos_pp) simp
    note d = put [OF ok1 q]
    have same: "link_of ?t z = link_of (fv_tree s1) z" for z using d by blast
    have "resolve ?t p = ?q" by (rule resolve_same [OF same])
    moreover have "link_of ?t ?q = None" using same q by metis
    ultimately have "os_node ?t p \<noteq> None" by (simp add: os_node_def map_of_put)
    then show ?thesis using d [of d "fv_now s1" p x] t 2(2) by auto
  next
    fix e assume "fv_tree s' = (if ft_effect f ?q \<and> link_of (fv_tree s1) ?q = None \<and> map_of (fv_tree s1) ?q \<noteq> Some NDir
        then put_node ?q (NFile (take (ft_bytes f) d) (fv_now s1)) (fv_tree s1) else fv_tree s1)" "r = Inl e"
    with put [of "fv_tree s1" "take (ft_bytes f) d" "fv_now s1" p x] ok1 2(2) show ?thesis by auto
  qed simp
qed (use ok in simp)

lemma RemoveAll_tree:
  assumes "RemoveAll p s = (r, s')" and ok: "tree_ok scan (fv_tree s)"
  shows "tree_ok scan (fv_tree s') \<and> (os_node (fv_tree s') x \<noteq> None \<longrightarrow> os_node (fv_tree s) x \<noteq> None)
    \<and> (r = Inr () \<longrightarrow> os_node (fv_tree s') p = None)"
  using assms(1) unfolding RemoveAll_def
proof (rule with_contextE, goal_cases)
  case (2 f s1)
  have ok1: "tree_ok scan (fv_tree s1)" using ok 2(2) by simp
  from 2(1) have "(\<exists>P. fv_tree s' = cut_nodes P (fv_tree s1)) \<and> (r = Inr () \<longrightarrow> fv_tree s' = cut_nodes (below (resolve_parent (fv_tree s1) p)) (fv_tree s1))"
    by (auto simp: Let_def split: option.splits)
  then obtain P where P: "fv_tree s' = cut_nodes P (fv_tree s1)"
    "r = Inr () \<Longrightarrow> fv_tree s' = cut_nodes (below (resolve_parent (fv_tree s1) p)) (fv_tree s1)" by blast
  have "tree_ok scan (fv_tree s')" "os_node (fv_tree s') x \<noteq> None \<Longrightarrow> os_node (fv_tree s) x \<noteq> None"
    using cut_ok [OF ok1, of P] cut_shrinks [OF ok1, of P x] 2(2) unfolding P(1) by auto
  moreover have "os_node (fv_tree s') p = None" if "r = Inr ()"
    using cut_all_gone [OF ok1, of p] P(2) [OF that] by simp
  ultimately show ?case by blast
qed (use ok in simp)

lemma Symlink_tree:
  assumes "Symlink tg l s = (r, s')" and ok: "tree_ok scan (fv_tree s)" and l: "below scan l" "l \<noteq> scan"
  shows "tree_ok scan (fv_tree s') \<and> (os_node (fv_tree s) x \<noteq> None \<longrightarrow> os_node (fv_tree s') x \<noteq> None)
    \<and> (r = Inr () \<and> \<not> below scan tg \<and> os_node (fv_tree s) tg \<noteq> None \<longrightarrow> os_node (fv_tree s') l \<noteq> None)"
  using assms(1) unfolding Symlink_def
proof (rule with_contextE, goal_cases)
  case (2 f s1)
  have ok1: "tree_ok scan (fv_tree s1)" using ok 2(2) by simp
  let ?busy = "link_of (fv_tree s1) l \<noteq> None \<or> list_ex (\<lambda>(k, _). below l k) (fv_tree s1)"
  have add: "tree_ok scan (put_node l (NLink tg) (fv_tree s1))"
    "os_node (fv_tree s1) x \<noteq> None \<Longrightarrow> os_node (put_node l (NLink tg) (fv_tree s1)) x \<noteq> None"
    "\<not> below scan tg \<Longrightarrow> os_node (fv_tree s1) tg \<noteq> None \<Longrightarrow> os_node (put_node l (NLink tg) (fv_tree s1)) l \<noteq> None"
    if "\<not> ?busy"
  proof -
    have n: "link_of (fv_tree s1) l = None" "\<forall>k \<in> fst ` set (fv_tree s1). \<not> below l k"
      using that by (blast, simp add: list_ex_iff case_prod_beta)
    note a = link_added [OF ok1 n l]
    show "tree_ok scan (put_node l (NLink tg) (fv_tree s1))" by (rule a(1))
    show "os_node (put_node l (NLink tg) (fv_tree s1)) x \<noteq> None" if "os_node (fv_tree s1) x \<noteq> None" using that by (rule a(2))
    show "os_node (put_node l (NLink tg) (fv_tree s1)) l \<noteq> None" if "\<not> below scan tg" "os_node (fv_tree s1) tg \<noteq> None" using that by (rule a(3))
  qed
  from 2(1) show ?case unfolding Let_def
  proof (rule os_changeE)
    assume "(if ?busy then Some err_exists else None) = None" "fv_tree s' = put_node l (NLink tg) (fv_tree s1)"
    with add 2(2) show ?thesis by (auto split: if_splits)
  next
    fix e assume "fv_tree s' = (if ft_effect f l \<and> \<not> ?busy then put_node l (NLink tg) (fv_tree s1) else fv_tree s1)" "r = Inl e"
    with add ok1 2(2) show ?thesis by (auto split: if_splits)
  qed simp
qed (use ok in simp)

lemma ExecuteCommand_tree:
  assumes "ExecuteCommand name args s = (r, s')"
  shows "(\<exists>P. fv_tree s' = cut_nodes P (fv_tree s)) \<and> (name = ''s6-svscanctl'' \<longrightarrow> fv_tree s' = fv_tree s)"
  using assms unfolding ExecuteCommand_def
proof (rule with_contextE, goal_cases)
  case (1 e)
  have "fv_tree s = cut_nodes (\<lambda>_. False) (fv_tree s)" by (simp add: cut_nodes_def)
  with 1 show ?case by metis
next
  case (2 f s1)
  have "fv_tree s = cut_nodes (\<lambda>_. False) (fv_tree s)" by (simp add: cut_nodes_def)
  with 2 show ?case by (auto simp: Let_def split: option.splits if_splits)
qed

interpretation dfs: file_service DefaultFileService fs_present fs_good scan_dir
proof (unfold_locales, unfold DefaultFileService_def fsys.select_convs, goal_cases)
  case (1 p s s')
  then show ?case using PathExists_tree by (auto simp: fs_present_def)
next
  case (2 p s r s')
  then show ?case using PathExists_tree by (simp add: fs_present_def fs_good_def fun_eq_iff)
next
  case (3 p s s')
  then show ?case using PathExists_tree by (auto simp: fs_present_def FileExists_def)
next
  case (4 p s r s')
  then show ?case using PathExists_tree by (simp add: fs_present_def fs_good_def fun_eq_iff FileExists_def)
next
  case (5 p s r s')
  then show ?case using ReadFile_tree by (simp add: fs_present_def fs_good_def fun_eq_iff)
next
  case (6 p s r s')
  then show ?case using ReadDir_tree by (simp add: fs_present_def fs_good_def fun_eq_iff)
next
  case (7 s p r s' q)
  then show ?case using EnsureDirectory_tree by (simp add: fs_present_def fs_good_def)
next
  case (8 s p s')
  then show ?case using EnsureDirectory_tree by (simp add: fs_present_def fs_good_def)
next
  case (9 s p d r s' q)
  then show ?case using WriteFile_tree by (simp add: fs_present_def fs_good_def)
next
  case (10 s p d s')
  then show ?case using WriteFile_tree by (simp add: fs_present_def fs_good_def)
next
  case (11 s p r s' q)
  then show ?case using RemoveAll_tree by (simp add: fs_present_def fs_good_def)
next
  case (12 s p s')
  then show ?case using RemoveAll_tree by (simp add: fs_present_def fs_good_def)
next
  case (13 s l t r s' q)
  then show ?case using Symlink_tree by (simp add: fs_present_def fs_good_def)
next
  case (14 s l t s')
  then show ?case using Symlink_tree by (simp add: fs_present_def fs_good_def)
next
  case (15 args s r s')
  then show ?case using ExecuteCommand_tree by (simp add: fs_present_def fs_good_def fun_eq_iff)
next
  case (16 name args s r s')
  then show ?case using ExecuteCommand_tree cut_ok by (metis fs_good_def)
qed

section \<open>Cached reads\<close>

text \<open>The file contents the service knows of, with their modification times: on disk or cached.\<close>

definition tree_files :: "tree \<Rightarrow> (int \<times> string) set" where
  "tree_files t = {(m, d). \<exists>q. (q, NFile d m) \<in> set t}"

definition cache_files :: "(string \<times> cached_file) list \<Rightarrow> (int \<times> string) set" where
  "cache_files c = {(cf_modTime x, cf_content x) |x. x \<in> snd ` set c}"

definition sizes_ok :: "(string \<times> cached_file) list \<Rightarrow> bool" where
  "sizes_ok c \<longleftrightarrow> (\<forall>x \<in> snd ` set c. cf_size x = int (length (cf_content x)))"

text \<open>A time stamp and a size stand for one content.\<close>

definition stamps_unique :: "(int \<times> string) set \<Rightarrow> bool" where
  "stamps_unique F \<longleftrightarrow> (\<forall>m d d'. (m, d) \<in> F \<and> (m, d') \<in> F \<and> length d = length d' \<longrightarrow> d = d')"

definition read_inv :: "FileService \<Rightarrow> bool" where
  "read_inv s \<longleftrightarrow> (let F = tree_files (fv_tree s) \<union> cache_files (fv_fileCache s)
     in (\<forall>m d. (m, d) \<in> F \<longrightarrow> m \<le> fv_now s) \<and> stamps_unique F) \<and> sizes_ok (fv_fileCache s)
     \<and> list_all (\<lambda>f. 0 < ft_dt f) (fv_fates s)"

text \<open>What the body of an operation may do: write one content, now, and cache what it knows.\<close>

definition tame :: "FileService \<Rightarrow> FileService \<Rightarrow> bool" where
  "tame s s' \<longleftrightarrow> fv_now s' = fv_now s \<and> fv_fates s' = fv_fates s \<and> (sizes_ok (fv_fileCache s) \<longrightarrow> sizes_ok (fv_fileCache s'))
     \<and> (\<exists>d. tree_files (fv_tree s') \<union> cache_files (fv_fileCache s')
          \<subseteq> insert (fv_now s, d) (tree_files (fv_tree s) \<union> cache_files (fv_fileCache s)))"

lemma tame_inv:
  assumes "read_inv s" and "next_fate s = (f, s1)" and "tame s1 s'"
  shows "read_inv s'"
proof -
  let ?F = "tree_files (fv_tree s) \<union> cache_files (fv_fileCache s)"
  let ?F' = "tree_files (fv_tree s') \<union> cache_files (fv_fileCache s')"
  have s1: "fv_tree s1 = fv_tree s" "fv_fileCache s1 = fv_fileCache s" "fv_now s < fv_now s1" "list_all (\<lambda>f. 0 < ft_dt f) (fv_fates s1)"
    using assms(1,2) by (auto simp: next_fate_def read_inv_def split: list.splits)
  from assms(3) s1 obtain d where d: "?F' \<subseteq> insert (fv_now s1, d) ?F" by (auto simp: tame_def)
  have old: "m < fv_now s1" if "(m, x) \<in> ?F" for m x using assms(1) s1(3) that by (fastforce simp: read_inv_def Let_def)
  have uniq: "stamps_unique ?F" using assms(1) by (simp add: read_inv_def Let_def)
  have "m \<le> fv_now s1" if "(m, x) \<in> ?F'" for m x using subsetD [OF d that] old [of m x] by auto
  moreover have "stamps_unique ?F'"
    unfolding stamps_unique_def
  proof (intro allI impI)
    fix m x y assume a: "(m, x) \<in> ?F' \<and> (m, y) \<in> ?F' \<and> length x = length y"
    then have "(m, x) = (fv_now s1, d) \<or> (m, x) \<in> ?F" "(m, y) = (fv_now s1, d) \<or> (m, y) \<in> ?F" using d by blast+
    with old [of m x] old [of m y] uniq a show "x = y" unfolding stamps_unique_def by blast
  qed
  ultimately show ?thesis
    using assms(1,3) s1 by (auto simp: read_inv_def tame_def Let_def)
qed

lemma with_context_inv:
  assumes "with_context wrap body s = (r, s')" and "read_inv s" and "\<And>f s1 r s2. body f s1 = (r, s2) \<Longrightarrow> tame s1 s2"
  shows "read_inv s'"
proof -
  obtain f s1 where f: "next_fate s = (f, s1)" by (cases "next_fate s")
  have "tame s1 s'"
  proof (cases "ft_ctx f")
    case None
    with assms(1) f have "body f s1 = (r, s')" by (simp add: with_context_def)
    then show ?thesis by (rule assms(3))
  next
    case (Some e)
    with assms(1) f have "s' = s1" by (simp add: with_context_def)
    then show ?thesis by (auto simp: tame_def)
  qed
  with assms(2) f show ?thesis by (rule tame_inv)
qed

lemma files_put: "tree_files (put_node q (NFile d m) t) \<subseteq> insert (m, d) (tree_files t)"
  "tree_files (put_node q NDir t) \<subseteq> tree_files t" "tree_files (put_node q (NLink g) t) \<subseteq> tree_files t"
  by (auto simp: tree_files_def put_node_def)

lemma files_cut: "tree_files (cut_nodes P t) \<subseteq> tree_files t"
  by (auto simp: tree_files_def cut_nodes_def)

lemma files_dirs: "tree_files (fold make_dir as t) \<subseteq> tree_files t"
proof (induction as arbitrary: t)
  case (Cons a as)
  have "tree_files (make_dir a t) \<subseteq> tree_files t" using files_put(2) by (auto simp: make_dir_def)
  with Cons [of "make_dir a t"] show ?case by auto
qed simp

lemma tame_tree:
  assumes "fv_now s' = fv_now s" "fv_fates s' = fv_fates s" "set (fv_fileCache s') \<subseteq> set (fv_fileCache s)"
    and "tree_files (fv_tree s') \<subseteq> insert (fv_now s, d) (tree_files (fv_tree s))"
  shows "tame s s'"
proof -
  have "cache_files (fv_fileCache s') \<subseteq> cache_files (fv_fileCache s)" "sizes_ok (fv_fileCache s) \<longrightarrow> sizes_ok (fv_fileCache s')"
    using assms(3) by (auto simp: cache_files_def sizes_ok_def)
  with assms show ?thesis unfolding tame_def by blast
qed

lemma invalidate_state [simp]:
  "fv_now (invalidatePathCache p s) = fv_now s" "fv_fates (invalidatePathCache p s) = fv_fates s"
  "set (fv_fileCache (invalidatePathCache p s)) \<subseteq> set (fv_fileCache s)"
  by (auto simp: invalidatePathCache_def Let_def drop_key_def)

lemma tame_os_change:
  assumes "os_change msg full part err after f s = (r, s')"
    and "\<And>x. fv_tree (after x) = fv_tree x \<and> fv_now (after x) = fv_now x \<and> fv_fates (after x) = fv_fates x \<and> set (fv_fileCache (after x)) \<subseteq> set (fv_fileCache x)"
    and "tree_files (full (fv_tree s)) \<subseteq> insert (fv_now s, d) (tree_files (fv_tree s))"
    and "tree_files (part (fv_tree s)) \<subseteq> insert (fv_now s, d') (tree_files (fv_tree s))"
  shows "tame s s'"
proof -
  have a: "fv_now s' = fv_now s" "fv_fates s' = fv_fates s" "set (fv_fileCache s') \<subseteq> set (fv_fileCache s)"
    "fv_tree s' = full (fv_tree s) \<or> fv_tree s' = part (fv_tree s)"
    using assms(1,2) by (auto simp: os_change_def split: option.splits) (use assms(2) in fastforce)+
  from a(4) assms(3,4) show ?thesis using tame_tree [OF a(1-3)] by metis
qed

lemma tame_refl [simp]: "tame s s" "tame s (s\<lparr>fv_pathCache := c\<rparr>)" "tame s (s\<lparr>fv_dirCache := dc\<rparr>)"
  by (auto simp: tame_def)

lemma PathExists_inv: "PathExists p s = (r, s') \<Longrightarrow> read_inv s \<Longrightarrow> read_inv s'"
  unfolding PathExists_def
  by (erule with_context_inv) (auto simp: pathExistsUncached_def Let_def split: option.splits if_splits bool.splits)

lemma ReadDir_inv: "ReadDir p s = (r, s') \<Longrightarrow> read_inv s \<Longrightarrow> read_inv s'"
  unfolding ReadDir_def
  by (erule with_context_inv) (auto simp: readDirUncached_def Let_def split: option.splits if_splits prod.splits sum.splits)

lemma EnsureDirectory_inv: "EnsureDirectory p s = (r, s') \<Longrightarrow> read_inv s \<Longrightarrow> read_inv s'"
  unfolding EnsureDirectory_def
proof (erule (1) with_context_inv, unfold Let_def, erule tame_os_change [where d = "[]" and d' = "[]"], goal_cases)
  case (2 f s1 r s2)
  show ?case using files_dirs by blast
next
  case (3 f s1 r s2)
  let ?q = "resolve (fv_tree s1) p"
  show ?case using files_dirs [of "ancestors ?q @ [?q]" "fv_tree s1"] by (simp only: split: if_split) blast
qed simp

lemma WriteFile_inv: "WriteFile p d s = (r, s') \<Longrightarrow> read_inv s \<Longrightarrow> read_inv s'"
  unfolding WriteFile_def
proof (erule (1) with_context_inv, unfold Let_def, goal_cases)
  case (1 f s1 r s2)
  let ?q = "resolve (fv_tree s1) p"
  show ?case
    by (rule tame_os_change [OF 1(2), where d = d and d' = "take (ft_bytes f) d"])
      (use files_put(1) [of ?q] in \<open>auto split: if_split\<close>)
qed

lemma Symlink_inv: "Symlink tg l s = (r, s') \<Longrightarrow> read_inv s \<Longrightarrow> read_inv s'"
  unfolding Symlink_def
proof (erule (1) with_context_inv, unfold Let_def, erule tame_os_change [where d = "[]" and d' = "[]"], goal_cases)
  case (2 f s1 r s2)
  show ?case using files_put(3) by blast
next
  case (3 f s1 r s2)
  show ?case using files_put(3) by (auto split: if_splits)
qed simp

lemma tame_cut:
  assumes "fv_now s' = fv_now s" "fv_fates s' = fv_fates s" "set (fv_fileCache s') \<subseteq> set (fv_fileCache s)"
    and "fv_tree s' = fv_tree s \<or> fv_tree s' = cut_nodes P (fv_tree s)"
  shows "tame s s'"
  using assms files_cut [of P "fv_tree s"] by (intro tame_tree [where d = "[]"]) auto

lemma RemoveAll_inv: "RemoveAll p s = (r, s') \<Longrightarrow> read_inv s \<Longrightarrow> read_inv s'"
  unfolding RemoveAll_def
  by (erule with_context_inv) (auto simp: Let_def intro!: tame_cut dest: subsetD [OF invalidate_state(3)] split: option.splits)

lemma Remove_inv: "fs_Remove p s = (r, s') \<Longrightarrow> read_inv s \<Longrightarrow> read_inv s'"
  unfolding fs_Remove_def
  by (erule with_context_inv) (auto simp: Let_def intro!: tame_cut dest: subsetD [OF invalidate_state(3)] split: option.splits if_splits)

lemma ExecuteCommand_inv: "ExecuteCommand name args s = (r, s') \<Longrightarrow> read_inv s \<Longrightarrow> read_inv s'"
  unfolding ExecuteCommand_def
  by (erule with_context_inv) (auto simp: Let_def intro!: tame_cut split: option.splits if_splits)

text \<open>Storing a known content under a stamp it has.\<close>

lemma tame_known:
  assumes "(cf_modTime v, cf_content v) \<in> tree_files (fv_tree s) \<union> cache_files (fv_fileCache s)"
    and "sizes_ok (fv_fileCache s) \<longrightarrow> cf_size v = int (length (cf_content v))"
  shows "tame s (s\<lparr>fv_fileCache := store_key k v (fv_fileCache s)\<rparr>)"
proof -
  have "cache_files (store_key k v (fv_fileCache s)) \<subseteq> insert (cf_modTime v, cf_content v) (cache_files (fv_fileCache s))"
    by (auto simp: cache_files_def store_key_def drop_key_def)
  moreover have "sizes_ok (fv_fileCache s) \<longrightarrow> sizes_ok (store_key k v (fv_fileCache s))"
    using assms(2) by (auto simp: sizes_ok_def store_key_def drop_key_def)
  ultimately show ?thesis using assms(1) unfolding tame_def by (simp, blast)
qed

lemma tame_store:
  assumes "os_node (fv_tree s) p = Some (NFile d m)"
  shows "tame s (s\<lparr>fv_fileCache := store_key k \<lparr>cf_content = d, cf_modTime = m, cf_size = int (length d), cf_lastCheck = n\<rparr> (fv_fileCache s)\<rparr>)"
proof -
  have "(resolve (fv_tree s) p, NFile d m) \<in> set (fv_tree s)"
    using assms by (auto simp: os_node_def Let_def split: if_splits dest: map_of_SomeD)
  then have "(m, d) \<in> tree_files (fv_tree s)" by (auto simp: tree_files_def)
  then show ?thesis by (intro tame_known) simp_all
qed

lemma tame_touch:
  assumes "map_of (fv_fileCache s) k = Some c"
  shows "tame s (s\<lparr>fv_fileCache := store_key k (c\<lparr>cf_lastCheck := n\<rparr>) (fv_fileCache s)\<rparr>)"
proof -
  have "c \<in> snd ` set (fv_fileCache s)" using map_of_SomeD [OF assms] by force
  then show ?thesis by (intro tame_known) (auto simp: cache_files_def sizes_ok_def)
qed

lemma tame_drop: "tame s (s\<lparr>fv_fileCache := drop_key P (fv_fileCache s)\<rparr>)"
  by (intro tame_tree [where d = "[]"]) (auto simp: drop_key_def)

lemma ReadFile_inv: "ReadFile p s = (r, s') \<Longrightarrow> read_inv s \<Longrightarrow> read_inv s'"
  unfolding ReadFile_def
proof (erule (1) with_context_inv, goal_cases)
  case (1 f s1 r s2)
  then show ?case
    by (auto simp: Let_def readFileUncached_def stat_node_def tame_drop tame_store tame_touch
        split: option.splits if_splits node.splits prod.splits sum.splits)
qed

text \<open>A read gives the content of the file.\<close>

lemma ReadFile_content:
  assumes "ReadFile p s = (Inr c, s')" and inv: "read_inv s"
  shows "\<exists>m. os_node (fv_tree s') p = Some (NFile c m)"
proof -
  obtain f s1 where f: "next_fate s = (f, s1)" by (cases "next_fate s")
  have s1: "fv_tree s1 = fv_tree s" "fv_fileCache s1 = fv_fileCache s" using f by (auto simp: next_fate_def split: list.splits)
  have hit: "x = d" if c: "map_of (fv_fileCache s) k = Some cf" "cf_content cf = x" "cf_modTime cf = m" "cf_size cf = int (length d)"
    and n: "os_node (fv_tree s) p = Some (NFile d m)" for k cf x d m
  proof -
    have "cf \<in> snd ` set (fv_fileCache s)" using map_of_SomeD [OF c(1)] by force
    then have "(m, x) \<in> cache_files (fv_fileCache s)" "length x = length d"
      using inv c by (auto simp: cache_files_def read_inv_def sizes_ok_def)
    moreover have "(m, d) \<in> tree_files (fv_tree s)"
      using n by (auto simp: os_node_def tree_files_def Let_def split: if_splits dest: map_of_SomeD)
    ultimately show ?thesis using inv unfolding read_inv_def Let_def stamps_unique_def by blast
  qed
  from ReadFile_tree [OF assms(1)] have t: "fv_tree s' = fv_tree s" .
  have sz: "cf_size cf \<noteq> - 1" if "map_of (fv_fileCache s) k = Some cf" for k cf
  proof -
    have "cf \<in> snd ` set (fv_fileCache s)" using map_of_SomeD [OF that] by force
    with inv have "cf_size cf = int (length (cf_content cf))" by (auto simp: read_inv_def sizes_ok_def)
    then show ?thesis by simp
  qed
  show ?thesis
    using assms(1) hit sz unfolding t ReadFile_def with_context_def f
    by (auto simp: Let_def readFileUncached_def stat_node_def s1
        split: option.splits if_splits node.splits prod.splits sum.splits)
qed

text \<open>The calls of a client, in any order.\<close>

datatype fs_call = CallPathExists string | CallReadFile string | CallReadDir string | CallEnsureDirectory string
  | CallWriteFile string string | CallRemoveFile string | CallRemoveAll string | CallSymlink string string
  | CallExecute string "string list"

fun fs_step :: "fs_call \<Rightarrow> FileService \<Rightarrow> FileService" where
  "fs_step (CallPathExists p) s = snd (PathExists p s)"
| "fs_step (CallReadFile p) s = snd (ReadFile p s)"
| "fs_step (CallReadDir p) s = snd (ReadDir p s)"
| "fs_step (CallEnsureDirectory p) s = snd (EnsureDirectory p s)"
| "fs_step (CallWriteFile p d) s = snd (WriteFile p d s)"
| "fs_step (CallRemoveFile p) s = snd (fs_Remove p s)"
| "fs_step (CallRemoveAll p) s = snd (RemoveAll p s)"
| "fs_step (CallSymlink g l) s = snd (Symlink g l s)"
| "fs_step (CallExecute n a) s = snd (ExecuteCommand n a s)"

lemma fs_step_inv: "read_inv s \<Longrightarrow> read_inv (fs_step c s)"
  using PathExists_inv ReadFile_inv ReadDir_inv EnsureDirectory_inv WriteFile_inv Remove_inv RemoveAll_inv Symlink_inv ExecuteCommand_inv
  by (cases c) (metis fs_step.simps prod.collapse)+

section \<open>Properties\<close>

text \<open>
  Cached reads are never stale. After any sequence of calls, with any errors, cancellations and
  half-done operations on the way, a successful read returns the content the file has at that
  moment, provided that time passes with every call and that at the start a modification time and a
  size stand for one content.
\<close>

theorem cached_read_exact:
  assumes "stamps_unique (tree_files t)" and "\<forall>(m, d) \<in> tree_files t. m \<le> now" and "list_all (\<lambda>f. 0 < ft_dt f) fates"
    and "ReadFile p (fold fs_step calls (NewFileService t now fates)) = (Inr c, s')"
  shows "\<exists>m. os_node (fv_tree s') p = Some (NFile c m)"
proof (rule ReadFile_content [OF assms(4)])
  have "read_inv (NewFileService t now fates)"
    using assms(1-3) by (auto simp: read_inv_def NewFileService_def cache_files_def sizes_ok_def)
  then show "read_inv (fold fs_step calls (NewFileService t now fates))"
    by (induction calls rule: rev_induct) (simp_all add: fs_step_inv)
qed

text \<open>A file is written, read and overwritten; the next read finds the new content.\<close>

definition demo_calls :: "fs_call list" where
  "demo_calls = [CallWriteFile ''/data/a'' ''one'', CallReadFile ''/data/a'', CallWriteFile ''/data/a'' ''two'']"

theorem cached_read_exact_witness:
  "\<exists>s' m. ReadFile ''/data/a'' (fold fs_step demo_calls (NewFileService [(''/data'', NDir)] 0 [])) = (Inr ''two'', s')
     \<and> os_node (fv_tree s') ''/data/a'' = Some (NFile ''two'' m)"
proof -
  let ?s = "fold fs_step demo_calls (NewFileService [(''/data'', NDir)] 0 [])"
  have r: "fst (ReadFile ''/data/a'' ?s) = Inr ''two''" by code_simp
  then have "ReadFile ''/data/a'' ?s = (Inr ''two'', snd (ReadFile ''/data/a'' ?s))" by (metis prod.collapse)
  moreover have "stamps_unique (tree_files [(''/data'', NDir)])" "\<forall>(m, d) \<in> tree_files [(''/data'', NDir)]. m \<le> 0"
    by (simp_all add: stamps_unique_def tree_files_def)
  ultimately show ?thesis using cached_read_exact [of "[(''/data'', NDir)]" 0 "[]" "''/data/a''" demo_calls] by fastforce
qed

end
