(* ===== verification/Go_Calls.thy ===== *)
theory Go_Calls
  imports UMH_Prelude
begin

text \<open>
  Calls that change a state and may return an error, the ways in which the code strings them
  together, and rules for reasoning about them.
\<close>

section \<open>Calls that can fail\<close>

type_synonym ('s, 'a) act = "'s \<Rightarrow> (goerror + 'a) \<times> 's"

definition ret :: "'a \<Rightarrow> ('s, 'a) act" where
  "ret x s = (Inr x, s)"

definition fail :: "goerror \<Rightarrow> ('s, 'a) act" where
  "fail e s = (Inl e, s)"

text \<open>\<^verbatim>\<open>x, err := m(); if err != nil { return err }\<close> and what follows.\<close>

definition call :: "('s, 'a) act \<Rightarrow> ('a \<Rightarrow> ('s, 'b) act) \<Rightarrow> ('s, 'b) act" where
  "call m k s = (case m s of (Inl e, t) \<Rightarrow> (Inl e, t) | (Inr x, t) \<Rightarrow> k x t)"

text \<open>An error of \<open>m\<close> is returned as \<^verbatim>\<open>fmt.Errorf(msg + "%w", err)\<close>.\<close>

definition wrapped :: "string \<Rightarrow> ('s, 'a) act \<Rightarrow> ('s, 'a) act" where
  "wrapped msg m s = (case m s of (Inl e, t) \<Rightarrow> (Inl (Errorf msg e), t) | r \<Rightarrow> r)"

text \<open>The outcome of \<open>m\<close> is looked at, its error not returned.\<close>

definition attempt :: "('s, 'a) act \<Rightarrow> ('s, goerror + 'a) act" where
  "attempt m s = (case m s of (r, t) \<Rightarrow> (Inr r, t))"

definition unit_of :: "('s, 'a) act \<Rightarrow> ('s, unit) act" where
  "unit_of m = call m (\<lambda>_. ret ())"

section \<open>Successful runs\<close>

named_theorems ok_simps \<open>when a composed call succeeds\<close>

lemma call_ok [ok_simps]: "call m k s = (Inr y, t) \<longleftrightarrow> (\<exists>x u. m s = (Inr x, u) \<and> k x u = (Inr y, t))"
  by (auto simp: call_def split: prod.splits sum.splits)

lemma wrapped_ok [ok_simps]: "wrapped msg m s = (Inr y, t) \<longleftrightarrow> m s = (Inr y, t)"
  by (auto simp: wrapped_def split: prod.splits sum.splits)

lemma attempt_ok [ok_simps]: "attempt m s = (Inr r, t) \<longleftrightarrow> m s = (r, t)" "attempt m s \<noteq> (Inl e, t)"
  by (auto simp: attempt_def split: prod.splits)

lemma ret_ok [ok_simps]: "ret x s = (r, t) \<longleftrightarrow> r = Inr x \<and> t = s"
  by (auto simp: ret_def)

lemma fail_ok [ok_simps]: "fail e s = (r, t) \<longleftrightarrow> r = Inl e \<and> t = s"
  by (auto simp: fail_def)

lemma unit_of_ok [ok_simps]: "unit_of m s = (Inr y, t) \<longleftrightarrow> (\<exists>x. m s = (Inr x, t))"
  by (auto simp: unit_of_def ok_simps)

lemma if_act [ok_simps]: "(if b then m else n) s = (if b then m s else n s)"
  by simp

section \<open>Rules\<close>

text \<open>From a state with \<open>P\<close>, \<open>m\<close> either succeeds with \<open>Q\<close> or fails with \<open>E\<close>.\<close>

definition triple :: "('s \<Rightarrow> bool) \<Rightarrow> ('s, 'a) act \<Rightarrow> ('a \<Rightarrow> 's \<Rightarrow> bool) \<Rightarrow> ('s \<Rightarrow> bool) \<Rightarrow> bool" where
  "triple P m Q E \<longleftrightarrow> (\<forall>s. P s \<longrightarrow> (case m s of (Inr x, t) \<Rightarrow> Q x t | (Inl e, t) \<Rightarrow> E t))"

named_theorems triples \<open>rules for the combinators\<close>

lemma tripleI: "(\<And>s x t. P s \<Longrightarrow> m s = (Inr x, t) \<Longrightarrow> Q x t) \<Longrightarrow> (\<And>s e t. P s \<Longrightarrow> m s = (Inl e, t) \<Longrightarrow> E t) \<Longrightarrow> triple P m Q E"
  unfolding triple_def by (auto split: prod.split sum.split)

lemma triple_ok: "triple P m Q E \<Longrightarrow> m s = (Inr x, t) \<Longrightarrow> P s \<Longrightarrow> Q x t"
  unfolding triple_def by fastforce

lemma triple_err: "triple P m Q E \<Longrightarrow> m s = (Inl e, t) \<Longrightarrow> P s \<Longrightarrow> E t"
  unfolding triple_def by fastforce

lemma triple_ret [triples]: "(\<And>s. P s \<Longrightarrow> Q x s) \<Longrightarrow> triple P (ret x) Q E"
  by (auto simp: triple_def ret_def)

lemma triple_fail [triples]: "(\<And>s. P s \<Longrightarrow> E s) \<Longrightarrow> triple P (fail e) Q E"
  by (auto simp: triple_def fail_def)

lemma triple_call [triples]: "triple P m Q E \<Longrightarrow> (\<And>x. triple (Q x) (k x) R E) \<Longrightarrow> triple P (call m k) R E"
  unfolding triple_def call_def by (fastforce split: prod.splits sum.splits)

lemma triple_wrapped [triples]: "triple P m Q E \<Longrightarrow> triple P (wrapped msg m) Q E"
  unfolding triple_def wrapped_def by (fastforce split: prod.splits sum.splits)

lemma triple_attempt: "triple P m (\<lambda>x. Q (Inr x)) E \<Longrightarrow> (\<And>e s. E s \<Longrightarrow> Q (Inl e) s) \<Longrightarrow> triple P (attempt m) Q F"
  unfolding triple_def attempt_def by (fastforce split: prod.splits sum.splits)

lemma triple_unit_of [triples]: "triple P m (\<lambda>_. Q ()) E \<Longrightarrow> triple P (unit_of m) Q E"
  unfolding unit_of_def by (rule triple_call) (auto intro: triple_ret)

lemma triple_if [triples]: "(b \<Longrightarrow> triple P m Q E) \<Longrightarrow> (\<not> b \<Longrightarrow> triple P n Q E) \<Longrightarrow> triple P (if b then m else n) Q E"
  by simp

lemma triple_weaken: "triple P m Q E \<Longrightarrow> (\<And>s. P' s \<Longrightarrow> P s) \<Longrightarrow> (\<And>x s. Q x s \<Longrightarrow> Q' x s) \<Longrightarrow> (\<And>s. E s \<Longrightarrow> E' s) \<Longrightarrow> triple P' m Q' E'"
  unfolding triple_def by (fastforce split: prod.splits sum.splits)

lemma triple_pure: "(C \<Longrightarrow> triple P m Q E) \<Longrightarrow> triple (\<lambda>s. C \<and> P s) m Q E"
  by (auto simp: triple_def)

text \<open>A call that keeps \<open>P\<close> whether or not it succeeds.\<close>

definition keeps :: "('s \<Rightarrow> bool) \<Rightarrow> ('s, 'a) act \<Rightarrow> bool" where
  "keeps P m \<longleftrightarrow> triple P m (\<lambda>_. P) P"

named_theorems keeps_rules \<open>rules for calls that keep a predicate\<close>

lemma keepsI: "(\<And>s r t. P s \<Longrightarrow> m s = (r, t) \<Longrightarrow> P t) \<Longrightarrow> keeps P m"
  unfolding keeps_def by (rule tripleI) blast+

lemma keepsD: "keeps P m \<Longrightarrow> m s = (r, t) \<Longrightarrow> P s \<Longrightarrow> P t"
  unfolding keeps_def by (cases r) (auto dest: triple_ok triple_err)

lemma keeps_ret [keeps_rules]: "keeps P (ret x)"
  by (simp add: keeps_def triple_ret)

lemma keeps_fail [keeps_rules]: "keeps P (fail e)"
  by (simp add: keeps_def triple_fail)

lemma keeps_call [keeps_rules]: "keeps P m \<Longrightarrow> (\<And>x. keeps P (k x)) \<Longrightarrow> keeps P (call m k)"
  unfolding keeps_def by (rule triple_call)

lemma keeps_wrapped [keeps_rules]: "keeps P m \<Longrightarrow> keeps P (wrapped msg m)"
  unfolding keeps_def by (rule triple_wrapped)

lemma keeps_attempt [keeps_rules]: "keeps P m \<Longrightarrow> keeps P (attempt m)"
  unfolding keeps_def by (rule triple_attempt) auto

lemma keeps_unit_of [keeps_rules]: "keeps P m \<Longrightarrow> keeps P (unit_of m)"
  unfolding unit_of_def by (intro keeps_rules)

lemma keeps_if [keeps_rules]: "(b \<Longrightarrow> keeps P m) \<Longrightarrow> (\<not> b \<Longrightarrow> keeps P n) \<Longrightarrow> keeps P (if b then m else n)"
  by simp

end
