(* ===== verification/S6_Service.thy ===== *)
theory S6_Service
  imports S6_Status S6_Script File_System Go_Calls
begin

text \<open>
  The lifecycle of a supervised process on disk: \<^verbatim>\<open>umh-core/pkg/service/s6/lifecycle.go\<close>,
  \<^verbatim>\<open>lifecycle_force.go\<close> and the operations of \<^verbatim>\<open>s6.go\<close> that change a service directory. Every
  operation is written over an arbitrary implementation \<open>fs\<close> of the file system interface; what is
  proved of it rests on the contract \<open>file_service\<close> and reaches the real file system service through
  that contract's interpretation.

  A context is what can be asked of it in a state: its error and the time left until its deadline.
  A message that goes on after the wrapped error (\<^verbatim>\<open>%w, output: %s\<close>) is cut there; the output is
  empty whenever a command failed.
\<close>

section \<open>State\<close>

record RemovalProgress =
  SymlinkRemoved :: bool
  ServiceStopped :: bool
  ServiceUnsupervised :: bool
  DirectoriesRemoved :: bool

record ServiceArtifacts =
  ar_RemovalProgress :: "RemovalProgress option"
  ar_ServiceDir :: string
  ar_RepositoryDir :: string
  ar_LogDir :: string
  ar_CreatedFiles :: "string list"

text \<open>
  The service object with its tracked artifacts, the process-wide times of deployment, and the
  file system it works on. The artifacts are a pointer in the code; the only alias is the one a
  running operation holds, so writing through it is writing the field.
\<close>

record 's s6_world =
  artifacts :: "ServiceArtifacts option"
  configChangeTimestamps :: "string \<rightharpoonup> int"
  disk :: 's

definition on_disk :: "('s, 'a) act \<Rightarrow> ('s s6_world, 'a) act" where
  "on_disk m w = (case m (disk w) of (r, s) \<Rightarrow> (r, w\<lparr>disk := s\<rparr>))"

record 's go_ctx =
  ctx_Err :: "'s \<Rightarrow> goerror option"
  ctx_Until :: "'s \<Rightarrow> int option"

definition check_ctx :: "'s go_ctx \<Rightarrow> ('s, unit) act" where
  "check_ctx ctx s = (case ctx_Err ctx s of Some e \<Rightarrow> (Inl e, s) | None \<Rightarrow> (Inr (), s))"

definition S6BaseDir :: string where "S6BaseDir = ''/run/service''"
definition S6LogBaseDir :: string where "S6LogBaseDir = ''/data/logs''"
definition S6ConfigDirName :: string where "S6ConfigDirName = ''config''"

text \<open>\<open>persist\<close> says whether the environment variable \<^verbatim>\<open>S6_PERSIST_DIRECTORY\<close> is set to a true value.\<close>

definition GetS6RepositoryBaseDir :: "bool \<Rightarrow> string" where
  "GetS6RepositoryBaseDir persist = (if persist then ''/data/services'' else ''/tmp/umh-core-services'')"

definition no_progress :: RemovalProgress where
  "no_progress = \<lparr>SymlinkRemoved = False, ServiceStopped = False, ServiceUnsupervised = False, DirectoriesRemoved = False\<rparr>"

definition InitRemovalProgress :: "ServiceArtifacts \<Rightarrow> ServiceArtifacts" where
  "InitRemovalProgress a = (if ar_RemovalProgress a = None then a\<lparr>ar_RemovalProgress := Some no_progress\<rparr> else a)"

definition IsFullyRemoved :: "ServiceArtifacts \<Rightarrow> bool" where
  "IsFullyRemoved a =
     (case ar_RemovalProgress a of None \<Rightarrow> False
      | Some p \<Rightarrow> SymlinkRemoved p \<and> ServiceStopped p \<and> ServiceUnsupervised p \<and> DirectoriesRemoved p)"

section \<open>Commands\<close>

definition ErrS6TemporaryError :: goerror where "ErrS6TemporaryError = ErrorNew 90 ''s6 temporary error (exit code 111)''"
definition ErrS6ProgramNotFound :: goerror where "ErrS6ProgramNotFound = ErrorNew 91 ''s6 program not found (exit code 127)''"
definition ErrS6ProgramNotExecutable :: goerror where
  "ErrS6ProgramNotExecutable = ErrorNew 92 ''s6 program not executable (exit code 126)''"

definition ExecuteS6Command :: "'s fsys \<Rightarrow> string \<Rightarrow> string \<Rightarrow> string list \<Rightarrow> ('s, string) act" where
  "ExecuteS6Command fs path name args s =
     (case op_ExecuteCommand fs name args s of
        (Inr out, t) \<Rightarrow> (Inr out, t)
      | (Inl e, t) \<Rightarrow>
          (case exit_code e of
             None \<Rightarrow> (Inl (Errorf (''failed to execute s6 command (name: '' @ name @ '', args: ['' @ join_words args @ '']): '') e), t)
           | Some code \<Rightarrow>
               if code = 111 then (Inl ErrS6TemporaryError, t)
               else if code = 100 then (Inr [], t)
               else if code = 127 then (Inl ErrS6ProgramNotFound, t)
               else if code = 126 then (Inl ErrS6ProgramNotExecutable, t)
               else (Inl (Errorf (''unknown S6 error (exit code '' @ itoa code @ '') for service '' @ path @ '': '') e), t)))"

text \<open>\<^verbatim>\<open>ServiceExists\<close>, with the error text its callers put in front.\<close>

definition svc_exists :: "'s fsys \<Rightarrow> string \<Rightarrow> ('s, bool) act" where
  "svc_exists fs path s = (case op_PathExists fs path s of (r, t) \<Rightarrow> (s6_ServiceExists r, t))"

definition require_service :: "'s fsys \<Rightarrow> string \<Rightarrow> ('s, unit) act" where
  "require_service fs path =
     call (wrapped ''failed to check if service exists: '' (svc_exists fs path)) (\<lambda>b.
       if b then ret () else fail ErrServiceNotExist)"

text \<open>\<^verbatim>\<open>exists, _ := fsService.PathExists(ctx, p)\<close>.\<close>

definition probe :: "'s fsys \<Rightarrow> string \<Rightarrow> ('s, bool) act" where
  "probe fs p = call (attempt (op_PathExists fs p)) (\<lambda>r. ret (r = Inr True))"

text \<open>\<^verbatim>\<open>float64(d)\<close> for a positive duration, halved, and truncated to an integer.\<close>

definition half_float :: "nat \<Rightarrow> nat" where
  "half_float d = (let excess = floorlog 2 d - 53 in round_half_even d (2 ^ excess) * 2 ^ excess div 2)"

definition calculateS6Timeout :: "'s go_ctx \<Rightarrow> 's \<Rightarrow> nat" where
  "calculateS6Timeout ctx s =
     (case ctx_Until ctx s of None \<Rightarrow> 0 | Some remaining \<Rightarrow> if remaining \<le> 0 then 0 else half_float (nat remaining) div 1000000)"

definition timeout_args :: "string \<Rightarrow> nat \<Rightarrow> string list" where
  "timeout_args flag ms = (if ms > 0 then [flag, itoa ms] else [])"

definition EnsureSupervision :: "'s fsys \<Rightarrow> string \<Rightarrow> ('s, bool) act" where
  "EnsureSupervision fs path =
     (let notify = call (wrapped ''failed to notify s6-svscan: '' (ExecuteS6Command fs path ''s6-svscanctl'' [''-a'', S6BaseDir])) (\<lambda>_. ret False)
      in call (require_service fs path) (\<lambda>_.
         call (wrapped ''failed to check if supervise directory exists: '' (op_FileExists fs (filepath_Join path ''supervise''))) (\<lambda>b.
         if \<not> b then notify
         else call (wrapped ''failed to check if log/supervise directory exists: ''
                     (op_FileExists fs (filepath_Join (filepath_Join path ''log'') ''supervise''))) (\<lambda>b.
              if \<not> b then notify else ret True))))"

section \<open>Creation\<close>

definition reservedNames :: "string list" where
  "reservedNames = [''.'', ''..'', ''CON'', ''PRN'', ''AUX'', ''NUL'']"

text \<open>\<^verbatim>\<open>strings.EqualFold\<close> against an ASCII name that has no letter with a fold outside ASCII.\<close>

definition ascii_upper :: "char \<Rightarrow> char" where
  "ascii_upper c = (let n = of_char c :: nat in if 97 \<le> n \<and> n \<le> 122 then char_of (n - 32) else c)"

definition EqualFold :: "string \<Rightarrow> string \<Rightarrow> bool" where
  "EqualFold a b = (map ascii_upper a = map ascii_upper b)"

definition config_name_error :: "string \<Rightarrow> goerror option" where
  "config_name_error path =
     (if trim_space path = [] then Some (ErrorNew 100 ''config filename cannot be empty'')
      else if str_contains path ''..'' then Some (ErrorNew 101 (''invalid config filename contains path traversal: '' @ path))
      else if \<not> filepath_IsAbs path \<and> (prefix ''../'' (filepath_Clean path) \<or> filepath_Clean path = ''..'')
      then Some (ErrorNew 102 (''invalid config filename attempts to escape config directory: '' @ path))
      else if \<not> filepath_IsAbs path \<and> prefix ''/'' path
      then Some (ErrorNew 103 (''config filename cannot start with '' @ [CHR 0x27, CHR ''/'', CHR 0x27] @ '': '' @ path))
      else if list_ex (EqualFold (filepath_Base path)) reservedNames
      then Some (ErrorNew 104 (''config filename cannot be reserved name: '' @ path))
      else if list_ex (\<lambda>c. c \<in> {CHR 0x00, CHR 0x0D, CHR 0x0A}) (filepath_Base path)
      then Some (ErrorNew 105 (''config filename contains invalid characters: '' @ path))
      else None)"

definition config_target :: "string \<Rightarrow> string \<Rightarrow> string" where
  "config_target configPath path = (if filepath_IsAbs path then path else filepath_Join configPath path)"

fun config_loop :: "'s fsys \<Rightarrow> string \<Rightarrow> (string \<times> string) list \<Rightarrow> ('s, string list) act" where
  "config_loop fs configPath [] = ret []"
| "config_loop fs configPath ((path, content) # rest) =
     (case config_name_error path of
        Some e \<Rightarrow> fail e
      | None \<Rightarrow>
          let p = config_target configPath path
          in call (wrapped ''failed to create directory for config file: '' (op_EnsureDirectory fs (filepath_Dir p))) (\<lambda>_.
             call (wrapped (''failed to write to config file '' @ p @ '': '') (op_WriteFile fs p content)) (\<lambda>_.
             call (config_loop fs configPath rest) (\<lambda>created. ret (p # created)))))"

text \<open>\<open>files\<close> are the entries of the map in the order in which the loop happens to meet them.\<close>

definition createS6ConfigFiles :: "'s fsys \<Rightarrow> string \<Rightarrow> (string \<times> string) list \<Rightarrow> ('s, string list) act" where
  "createS6ConfigFiles fs path files = config_loop fs (filepath_Join path S6ConfigDirName) files"

definition createS6RunScript :: "'s fsys \<Rightarrow> string \<Rightarrow> string list \<Rightarrow> (string, string) fmap option \<Rightarrow> u64 \<Rightarrow> string \<Rightarrow> ('s, unit) act" where
  "createS6RunScript fs path command env memoryLimit finalServicePath =
     wrapped ''failed to write run script: ''
       (op_WriteFile fs (filepath_Join path ''run'') (run_script command env memoryLimit finalServicePath))"

type_synonym map_order = "(string, string) fmap option \<Rightarrow> (string \<times> string) list"

definition longrun :: string where "longrun = ''longrun''"

definition createS6FilesInRepository :: "'s fsys \<Rightarrow> map_order \<Rightarrow> string \<Rightarrow> S6ServiceConfig \<Rightarrow> ('s, string list) act" where
  "createS6FilesInRepository fs order repo config =
     (let typeFile = filepath_Join repo ''type'';
          logDir = filepath_Join S6LogBaseDir (filepath_Base repo);
          logServicePath = filepath_Join repo ''log'';
          logTypeFile = filepath_Join logServicePath ''type'';
          logRunPath = filepath_Join logServicePath ''run'';
          dependenciesDPath = filepath_Join repo ''dependencies.d'';
          baseDepFile = filepath_Join dependenciesDPath ''base''
      in call (wrapped ''failed to create repository directory: '' (op_EnsureDirectory fs repo)) (\<lambda>_.
         call (wrapped ''failed to create down file: '' (op_WriteFile fs (filepath_Join repo ''down'') [])) (\<lambda>_.
         call (wrapped ''failed to create type file: '' (op_WriteFile fs typeFile longrun)) (\<lambda>_.
         call (wrapped ''failed to create log service directory: '' (op_EnsureDirectory fs logServicePath)) (\<lambda>_.
         call (wrapped ''failed to create log service type file: '' (op_WriteFile fs logTypeFile longrun)) (\<lambda>_.
         call (wrapped ''failed to create log service down file: '' (op_WriteFile fs (filepath_Join logServicePath ''down'') [])) (\<lambda>_.
         call (wrapped ''failed to write log run script: '' (op_WriteFile fs logRunPath (getLogRunScript config logDir))) (\<lambda>_.
         case Command config of
           Some (c # cs) \<Rightarrow>
             call (wrapped ''failed to create S6 run script: ''
                    (createS6RunScript fs repo (c # cs) (Env config) (MemoryLimit config) repo)) (\<lambda>_.
             call (wrapped ''failed to create S6 config files: '' (createS6ConfigFiles fs repo (order (ConfigFiles config)))) (\<lambda>configFiles.
             call (wrapped ''failed to create dependencies.d directory: '' (op_EnsureDirectory fs dependenciesDPath)) (\<lambda>_.
             call (wrapped ''failed to create base dependency file: '' (op_WriteFile fs baseDepFile [])) (\<lambda>_.
             ret ([typeFile, logTypeFile, logRunPath, filepath_Join repo ''run''] @ configFiles @ [baseDepFile])))))
         | _ \<Rightarrow> fail (ErrorNew 106 ''no command specified for service'')))))))))"

definition remove_if_exists :: "'s fsys \<Rightarrow> string \<Rightarrow> string \<Rightarrow> ('s, unit) act" where
  "remove_if_exists fs msg p = call (probe fs p) (\<lambda>b. if b then wrapped msg (op_RemoveAll fs p) else ret ())"

text \<open>On failure the repository is removed again, whatever comes of it.\<close>

definition or_clean :: "'s fsys \<Rightarrow> string \<Rightarrow> string \<Rightarrow> ('s, 'a) act \<Rightarrow> ('s, 'a) act" where
  "or_clean fs repo msg m s =
     (case m s of
        (Inl e, t) \<Rightarrow> (Inl (Errorf msg e), snd (op_RemoveAll fs repo t))
      | r \<Rightarrow> r)"

definition new_artifacts :: "bool \<Rightarrow> string \<Rightarrow> ServiceArtifacts" where
  "new_artifacts persist path =
     \<lparr>ar_RemovalProgress = None, ar_ServiceDir = path,
      ar_RepositoryDir = filepath_Join (GetS6RepositoryBaseDir persist) (filepath_Base path),
      ar_LogDir = filepath_Join S6LogBaseDir (filepath_Base path), ar_CreatedFiles = []\<rparr>"

text \<open>The part of \<^verbatim>\<open>CreateArtifacts\<close> before the time of deployment is noted.\<close>

definition build_artifacts :: "'s go_ctx \<Rightarrow> 's fsys \<Rightarrow> map_order \<Rightarrow> bool \<Rightarrow> string \<Rightarrow> S6ServiceConfig \<Rightarrow> ('s, ServiceArtifacts) act" where
  "build_artifacts ctx fs order persist path config =
     (let a = new_artifacts persist path; repo = ar_RepositoryDir a
      in call (check_ctx ctx) (\<lambda>_.
         call (remove_if_exists fs ''failed to remove existing symlink: '' path) (\<lambda>_.
         call (remove_if_exists fs ''failed to remove existing repository: '' repo) (\<lambda>_.
         call (or_clean fs repo ''failed to create service files: '' (createS6FilesInRepository fs order repo config)) (\<lambda>createdFiles.
         call (or_clean fs repo ''failed to create scan directory symlink: '' (op_Symlink fs repo path)) (\<lambda>_.
         ret (a\<lparr>ar_CreatedFiles := createdFiles\<rparr>)))))))"

definition CreateArtifacts :: "'s go_ctx \<Rightarrow> 's fsys \<Rightarrow> map_order \<Rightarrow> bool \<Rightarrow> ('s \<Rightarrow> int) \<Rightarrow> string \<Rightarrow> S6ServiceConfig
    \<Rightarrow> ('s s6_world, ServiceArtifacts) act" where
  "CreateArtifacts ctx fs order persist now path config =
     call (on_disk (build_artifacts ctx fs order persist path config)) (\<lambda>a w.
       (Inr a, (snd (on_disk (EnsureSupervision fs path)
                  (w\<lparr>configChangeTimestamps := (configChangeTimestamps w)(path \<mapsto> now (disk w))\<rparr>)))))"

section \<open>Removal\<close>

definition stop_one :: "'s go_ctx \<Rightarrow> 's fsys \<Rightarrow> string \<Rightarrow> goerror option \<Rightarrow> 's \<Rightarrow> goerror option \<times> 's" where
  "stop_one ctx fs p lastErr s =
     (case op_PathExists fs p s of
        (Inl e, t) \<Rightarrow> (Some e, t)
      | (Inr False, t) \<Rightarrow> (lastErr, t)
      | (Inr True, t) \<Rightarrow>
          (case ExecuteS6Command fs p ''s6-svc'' (timeout_args ''-T'' (calculateS6Timeout ctx t) @ [''-wD'', ''-d'', p]) t of
             (Inl e, u) \<Rightarrow> (Some e, u)
           | (Inr _, u) \<Rightarrow> (lastErr, u)))"

definition stopServiceCleanly :: "'s go_ctx \<Rightarrow> 's fsys \<Rightarrow> string \<Rightarrow> ('s, unit) act" where
  "stopServiceCleanly ctx fs path s =
     (case stop_one ctx fs path None s of (e1, t) \<Rightarrow>
      case stop_one ctx fs (filepath_Join path ''log'') e1 t of
        (None, u) \<Rightarrow> (Inr (), u) | (Some e, u) \<Rightarrow> (Inl e, u))"

definition checkSingleSupervisionEnded :: "'s fsys \<Rightarrow> string \<Rightarrow> ('s, unit) act" where
  "checkSingleSupervisionEnded fs path =
     (let lockFile = filepath_Join (filepath_Join path ''supervise'') ''lock''
      in call (wrapped (''failed to check lock file '' @ lockFile @ '': '') (op_PathExists fs lockFile)) (\<lambda>b.
         if \<not> b then ret ()
         else call (attempt (op_ExecuteCommand fs ''flock'' [''-n'', lockFile, ''true''])) (\<lambda>r.
           case r of Inl _ \<Rightarrow> fail (ErrorNew 93 (''supervisor still running (lock file '' @ lockFile @ '' is locked)''))
                   | Inr _ \<Rightarrow> ret ())))"

definition verifySupervisionEnded :: "'s fsys \<Rightarrow> string \<Rightarrow> ('s, unit) act" where
  "verifySupervisionEnded fs path =
     call (wrapped ''main service supervision still active: '' (checkSingleSupervisionEnded fs path)) (\<lambda>_.
     wrapped ''log service supervision still active: '' (checkSingleSupervisionEnded fs (filepath_Join path ''log'')))"

definition unsuperviseService :: "'s go_ctx \<Rightarrow> 's fsys \<Rightarrow> string \<Rightarrow> ('s, unit) act" where
  "unsuperviseService ctx fs path =
     call (wrapped (''s6-svunlink command failed for service '' @ path @ '': '')
       (\<lambda>s. ExecuteS6Command fs path ''s6-svunlink''
              (timeout_args ''-t'' (calculateS6Timeout ctx s) @ [filepath_Dir path, filepath_Base path]) s)) (\<lambda>_.
     wrapped (''supervision verification failed for service '' @ path @ '': '') (verifySupervisionEnded fs path))"

text \<open>The listing that is only logged.\<close>

definition logDirectoryContentsIfNotEmpty :: "'s fsys \<Rightarrow> string \<Rightarrow> ('s, unit) act" where
  "logDirectoryContentsIfNotEmpty fs p = unit_of (attempt (op_ReadDir fs p))"

definition remove_logged :: "'s fsys \<Rightarrow> string \<Rightarrow> string \<Rightarrow> ('s, unit) act" where
  "remove_logged fs msg p =
     call (probe fs p) (\<lambda>b. if b then call (logDirectoryContentsIfNotEmpty fs p) (\<lambda>_. wrapped msg (op_RemoveAll fs p)) else ret ())"

text \<open>A step of the removal is done once; its flag is set only when it went through.\<close>

definition mark :: "(RemovalProgress \<Rightarrow> RemovalProgress) \<Rightarrow> ('s s6_world, unit) act" where
  "mark f w = (Inr (), w\<lparr>artifacts := map_option (\<lambda>a. a\<lparr>ar_RemovalProgress := map_option f (ar_RemovalProgress a)\<rparr>) (artifacts w)\<rparr>)"

definition removal_flag :: "(RemovalProgress \<Rightarrow> bool) \<Rightarrow> 's s6_world \<Rightarrow> bool" where
  "removal_flag done w =
     (case artifacts w of None \<Rightarrow> False
      | Some a \<Rightarrow> (case ar_RemovalProgress a of None \<Rightarrow> False | Some p \<Rightarrow> done p))"

definition removal_step :: "(RemovalProgress \<Rightarrow> bool) \<Rightarrow> (RemovalProgress \<Rightarrow> RemovalProgress) \<Rightarrow> ('s, unit) act \<Rightarrow> ('s s6_world, unit) act" where
  "removal_step done f work w =
     (if removal_flag done w then (Inr (), w) else call (on_disk work) (\<lambda>_. mark f) w)"

definition stop_work :: "'s go_ctx \<Rightarrow> 's fsys \<Rightarrow> ServiceArtifacts \<Rightarrow> ('s, unit) act" where
  "stop_work ctx fs a =
     call (probe fs (ar_ServiceDir a)) (\<lambda>b.
       if b then wrapped ''failed to stop service cleanly: '' (stopServiceCleanly ctx fs (ar_ServiceDir a)) else ret ())"

definition unsupervise_work :: "'s go_ctx \<Rightarrow> 's fsys \<Rightarrow> ServiceArtifacts \<Rightarrow> ('s, unit) act" where
  "unsupervise_work ctx fs a =
     call (probe fs (ar_ServiceDir a)) (\<lambda>b.
       if b then wrapped ''failed to unsupervise service: '' (unsuperviseService ctx fs (ar_ServiceDir a)) else ret ())"

definition directory_work :: "'s fsys \<Rightarrow> ServiceArtifacts \<Rightarrow> ('s, unit) act" where
  "directory_work fs a =
     call (remove_if_exists fs ''failed to remove scan directory symlink: '' (ar_ServiceDir a)) (\<lambda>_.
     call (remove_logged fs ''failed to remove repository directory: '' (ar_RepositoryDir a)) (\<lambda>_.
     remove_logged fs ''failed to remove log directory: '' (ar_LogDir a)))"

definition artifacts_nil :: goerror where "artifacts_nil = ErrorNew 94 ''artifacts is nil''"

definition removal_sequence :: "'s go_ctx \<Rightarrow> 's fsys \<Rightarrow> ServiceArtifacts \<Rightarrow> ('s s6_world, unit) act" where
  "removal_sequence ctx fs a =
     call (removal_step ServiceStopped (\<lambda>p. p\<lparr>ServiceStopped := True\<rparr>) (stop_work ctx fs a)) (\<lambda>_.
     call (removal_step ServiceUnsupervised (\<lambda>p. p\<lparr>ServiceUnsupervised := True\<rparr>) (unsupervise_work ctx fs a)) (\<lambda>_.
     removal_step DirectoriesRemoved (\<lambda>p. p\<lparr>DirectoriesRemoved := True, SymlinkRemoved := True\<rparr>) (directory_work fs a)))"

definition RemoveArtifacts :: "'s go_ctx \<Rightarrow> 's fsys \<Rightarrow> ('s s6_world, unit) act" where
  "RemoveArtifacts ctx fs =
     call (on_disk (check_ctx ctx)) (\<lambda>_ w.
       case artifacts w of
         None \<Rightarrow> (Inl artifacts_nil, w)
       | Some a0 \<Rightarrow>
           let a = InitRemovalProgress a0; v = w\<lparr>artifacts := Some a\<rparr>
           in if IsFullyRemoved a then (Inr (), v) else removal_sequence ctx fs a v)"

section \<open>Forced removal\<close>

definition createDownFiles :: "'s fsys \<Rightarrow> ServiceArtifacts \<Rightarrow> ('s, unit) act" where
  "createDownFiles fs a =
     (let down = (\<lambda>p. wrapped (''failed to create down file '' @ p @ '': '') (op_WriteFile fs p []))
      in call (down (filepath_Join (ar_ServiceDir a) ''down'')) (\<lambda>_.
         down (filepath_Join (filepath_Join (ar_ServiceDir a) ''log'') ''down'')))"

text \<open>\<open>chunk\<close> is the context made for one removal; its error is asked for after the removal failed.\<close>

definition removeDirectoryWithTimeout :: "'s go_ctx \<Rightarrow> 's fsys \<Rightarrow> string \<Rightarrow> ('s, unit) act" where
  "removeDirectoryWithTimeout chunk fs p =
     call (logDirectoryContentsIfNotEmpty fs p) (\<lambda>_ s.
       case op_RemoveAll fs p s of
         (Inl e, t) \<Rightarrow> (Inl (if ctx_Err chunk t = Some ctx_deadline_exceeded then ctx_deadline_exceeded else e), t)
       | r \<Rightarrow> r)"

definition verify_gone :: "'s fsys \<Rightarrow> ServiceArtifacts \<Rightarrow> ('s, unit) act" where
  "verify_gone fs a =
     call (wrapped ''failed to verify service cleanup: '' (op_PathExists fs (ar_ServiceDir a))) (\<lambda>serviceExists.
     call (wrapped ''failed to verify log cleanup: '' (op_PathExists fs (ar_LogDir a))) (\<lambda>logExists.
     call (if ar_RepositoryDir a \<noteq> [] then wrapped ''failed to verify repository cleanup: '' (op_PathExists fs (ar_RepositoryDir a)) else ret False) (\<lambda>repoExists.
     if serviceExists \<or> logExists \<or> repoExists
     then fail (ErrorNew 95 (''force cleanup incomplete: service='' @ (if serviceExists then ''true'' else ''false'')
            @ '', log='' @ (if logExists then ''true'' else ''false'') @ '', repo='' @ (if repoExists then ''true'' else ''false'')))
     else ret ())))"

definition ForceCleanup :: "'s go_ctx \<Rightarrow> 's go_ctx \<Rightarrow> 's fsys \<Rightarrow> ServiceArtifacts \<Rightarrow> ('s, unit) act" where
  "ForceCleanup ctx chunk fs a =
     call (check_ctx ctx) (\<lambda>_.
     call (attempt (createDownFiles fs a)) (\<lambda>_.
     call (attempt (stopServiceCleanly ctx fs (ar_ServiceDir a))) (\<lambda>_.
     call (attempt (unsuperviseService ctx fs (ar_ServiceDir a))) (\<lambda>_.
     call (attempt (removeDirectoryWithTimeout chunk fs (ar_ServiceDir a))) (\<lambda>_.
     call (attempt (removeDirectoryWithTimeout chunk fs (ar_LogDir a))) (\<lambda>_.
     call (if ar_RepositoryDir a \<noteq> [] then attempt (removeDirectoryWithTimeout chunk fs (ar_RepositoryDir a)) else ret (Inr ())) (\<lambda>_.
     call (attempt (ExecuteS6Command fs (ar_ServiceDir a) ''s6-svscanctl'' [''-an'', S6BaseDir])) (\<lambda>_.
     verify_gone fs a))))))))"

section \<open>Health\<close>

fun tracked_files_health :: "'s fsys \<Rightarrow> string list \<Rightarrow> ('s, HealthStatus) act" where
  "tracked_files_health fs [] = ret HealthOK"
| "tracked_files_health fs (f # rest) =
     call (op_FileExists fs f) (\<lambda>b. if b then tracked_files_health fs rest else ret HealthBad)"

text \<open>
  \<^verbatim>\<open>CheckArtifactsHealth\<close> returns a status and an error; the status beside an error is unknown,
  except for missing artifacts, where it is bad.
\<close>

definition CheckArtifactsHealth :: "'s go_ctx \<Rightarrow> 's fsys \<Rightarrow> ServiceArtifacts option \<Rightarrow> 's \<Rightarrow> (HealthStatus \<times> goerror option) \<times> 's" where
  "CheckArtifactsHealth ctx fs ao s =
     (case ctx_Err ctx s of
        Some e \<Rightarrow> ((HealthUnknown, Some e), s)
      | None \<Rightarrow>
     (case ao of
        None \<Rightarrow> ((HealthBad, Some artifacts_nil), s)
      | Some a \<Rightarrow>
          if ar_CreatedFiles a = [] then ((HealthBad, None), s)
          else
     (case call (tracked_files_health fs (ar_CreatedFiles a)) (\<lambda>h.
             if h \<noteq> HealthOK then ret h
             else call (op_PathExists fs (ar_ServiceDir a)) (\<lambda>b.
                  if \<not> b then ret HealthBad
                  else call (op_PathExists fs (ar_RepositoryDir a)) (\<lambda>b.
                       ret (if b then HealthOK else HealthBad)))) s of
        (Inl e, t) \<Rightarrow> ((HealthUnknown, Some e), t)
      | (Inr h, t) \<Rightarrow> ((h, None), t))))"

definition CheckServiceDirectoryIntegrity :: "'s go_ctx \<Rightarrow> 's fsys \<Rightarrow> 's s6_world \<Rightarrow> HealthStatus \<times> 's s6_world" where
  "CheckServiceDirectoryIntegrity ctx fs w =
     (case artifacts w of
        None \<Rightarrow> (HealthUnknown, w)
      | Some a \<Rightarrow>
          (case CheckArtifactsHealth ctx fs (Some a) (disk w) of
             ((h, Some e), s) \<Rightarrow> (HealthUnknown, w\<lparr>disk := s\<rparr>)
           | ((h, None), s) \<Rightarrow> (h, w\<lparr>disk := s\<rparr>)))"

definition svc_Health :: "'s go_ctx \<Rightarrow> 's fsys \<Rightarrow> 's s6_world \<Rightarrow> RecoveryAction \<times> 's s6_world" where
  "svc_Health ctx fs w =
     (case artifacts w of
        None \<Rightarrow> (ActionOK, w)
      | Some a \<Rightarrow>
          if ar_RemovalProgress a \<noteq> None then (ActionWait, w)
          else
            (case CheckArtifactsHealth ctx fs (Some a) (disk w) of
               ((h, Some e), s) \<Rightarrow> (ActionWait, w\<lparr>disk := s\<rparr>)
             | ((h, None), s) \<Rightarrow>
                 ((case h of HealthOK \<Rightarrow> ActionOK | HealthBad \<Rightarrow> ActionRecreate | HealthUnknown \<Rightarrow> ActionWait), w\<lparr>disk := s\<rparr>)))"

section \<open>Configuration\<close>

fun read_config_files :: "'s fsys \<Rightarrow> string \<Rightarrow> (string \<times> bool) list \<Rightarrow> (string, string) fmap \<Rightarrow> ('s, (string, string) fmap) act" where
  "read_config_files fs configPath [] m = ret m"
| "read_config_files fs configPath ((name, isDir) # rest) m =
     (if isDir then read_config_files fs configPath rest m
      else call (wrapped (''failed to read config file '' @ name @ '': '') (op_ReadFile fs (filepath_Join configPath name))) (\<lambda>content.
           read_config_files fs configPath rest (fmupd name content m)))"

definition of_result :: "goerror + 'a \<Rightarrow> ('s, 'a) act" where
  "of_result r s = (r, s)"

definition svc_GetConfig :: "'s fsys \<Rightarrow> string \<Rightarrow> ('s, S6ServiceConfig) act" where
  "svc_GetConfig fs path =
     (let runScript = filepath_Join path ''run''; configPath = filepath_Join path ''config'';
          logScript = filepath_Join (filepath_Join path ''log'') ''run''
      in call (require_service fs path) (\<lambda>_.
         call (wrapped ''failed to check if run script exists: '' (op_FileExists fs runScript)) (\<lambda>b.
         if \<not> b then fail (ErrorNew 107 ''run script not found'')
         else
         call (wrapped ''failed to read run script: '' (op_ReadFile fs runScript)) (\<lambda>script.
         call (of_result (parse_command script)) (\<lambda>command.
         call (of_result (parse_memory_limit script)) (\<lambda>limit.
         let observed = \<lparr>Env = Some (parse_env script), ConfigFiles = Some fmempty, Command = Some command,
                         MemoryLimit = limit, LogFilesize = 0\<rparr>
         in
         call (wrapped ''failed to check if config directory exists: '' (op_FileExists fs configPath)) (\<lambda>b.
         if \<not> b then ret observed
         else
         call (wrapped ''failed to read config directory: '' (op_ReadDir fs configPath)) (\<lambda>entries.
         call (read_config_files fs configPath entries fmempty) (\<lambda>files.
         call (wrapped ''failed to check if log run script exists: '' (op_FileExists fs logScript)) (\<lambda>b.
         if \<not> b then fail (ErrorNew 108 ''log run script not found'')
         else
         call (wrapped ''failed to read log run script: '' (op_ReadFile fs logScript)) (\<lambda>logContent.
         call (of_result (parse_log_filesize logContent)) (\<lambda>size.
         ret (observed\<lparr>ConfigFiles := Some files, LogFilesize := size\<rparr>)))))))))))))"

definition GetS6ConfigFile :: "'s go_ctx \<Rightarrow> 's fsys \<Rightarrow> string \<Rightarrow> string \<Rightarrow> ('s, string) act" where
  "GetS6ConfigFile ctx fs path name =
     (let configPath = filepath_Join (filepath_Join path S6ConfigDirName) name
      in call (check_ctx ctx) (\<lambda>_.
         call (require_service fs path) (\<lambda>_.
         call (wrapped ''failed to check if config file exists: '' (op_FileExists fs configPath)) (\<lambda>b.
         if \<not> b then fail (ErrorNew 109 (''config file '' @ name @ '' does not exist in service directory '' @ path))
         else wrapped (''error reading config file '' @ name @ '' in service directory '' @ path @ '': '') (op_ReadFile fs configPath)))))"

section \<open>The operations of the service\<close>

definition store :: "ServiceArtifacts option \<Rightarrow> ('s s6_world, unit) act" where
  "store a w = (Inr (), w\<lparr>artifacts := a\<rparr>)"

definition create_fresh :: "'s go_ctx \<Rightarrow> 's fsys \<Rightarrow> map_order \<Rightarrow> bool \<Rightarrow> ('s \<Rightarrow> int) \<Rightarrow> string \<Rightarrow> S6ServiceConfig \<Rightarrow> ('s s6_world, unit) act" where
  "create_fresh ctx fs order persist now path config =
     call (CreateArtifacts ctx fs order persist now path config) (\<lambda>a. store (Some a))"

text \<open>The service is gone by \<open>rm\<close>, then created again.\<close>

definition recreate :: "'s go_ctx \<Rightarrow> 's fsys \<Rightarrow> map_order \<Rightarrow> bool \<Rightarrow> ('s \<Rightarrow> int) \<Rightarrow> string \<Rightarrow> S6ServiceConfig
    \<Rightarrow> ('s s6_world, unit) act \<Rightarrow> ('s s6_world, unit) act" where
  "recreate ctx fs order persist now path config rm =
     call rm (\<lambda>_. call (store None) (\<lambda>_. create_fresh ctx fs order persist now path config))"

text \<open>The directory exists and its artifacts are tracked.\<close>

definition create_tracked :: "'s go_ctx \<Rightarrow> 's go_ctx \<Rightarrow> 's fsys \<Rightarrow> map_order \<Rightarrow> bool \<Rightarrow> ('s \<Rightarrow> int) \<Rightarrow> string \<Rightarrow> S6ServiceConfig
    \<Rightarrow> ServiceArtifacts \<Rightarrow> ('s s6_world, unit) act" where
  "create_tracked ctx chunk fs order persist now path config current w =
     (case CheckArtifactsHealth ctx fs (Some current) (disk w) of ((health, err), s) \<Rightarrow>
        let w1 = w\<lparr>disk := s\<rparr>; again = recreate ctx fs order persist now path config
        in if err \<noteq> None \<and> health \<noteq> HealthUnknown
           then (Inl (Errorf ''failed to check service health: '' (the err)), w1)
           else if health = HealthBad
           then again (on_disk (wrapped ''failed to remove unhealthy service: '' (ForceCleanup ctx chunk fs current))) w1
           else call (on_disk (wrapped ''failed to get current config: '' (svc_GetConfig fs path))) (\<lambda>currentConfig.
                if S6ServiceConfig_Equal currentConfig config then ret ()
                else again (wrapped ''failed to remove service for recreation: '' (RemoveArtifacts ctx fs))) w1)"

definition svc_Create :: "'s go_ctx \<Rightarrow> 's go_ctx \<Rightarrow> 's fsys \<Rightarrow> map_order \<Rightarrow> bool \<Rightarrow> ('s \<Rightarrow> int) \<Rightarrow> string \<Rightarrow> S6ServiceConfig
    \<Rightarrow> ('s s6_world, unit) act" where
  "svc_Create ctx chunk fs order persist now path config =
     (let fresh = create_fresh ctx fs order persist now path config
      in call (on_disk (wrapped ''failed to check if service path exists: '' (op_PathExists fs path))) (\<lambda>b w.
         if \<not> b then fresh w
         else (case artifacts w of
           None \<Rightarrow>
             call (on_disk (wrapped ''failed to remove orphaned service directory: '' (op_RemoveAll fs path))) (\<lambda>_. fresh) w
         | Some current \<Rightarrow> create_tracked ctx chunk fs order persist now path config current w)))"

definition untracked :: "string \<Rightarrow> goerror" where
  "untracked name = ErrorNew 110 (PermanentFailureError @ '': untracked on-disk state for service '' @ name)"

definition svc_Remove :: "'s go_ctx \<Rightarrow> 's fsys \<Rightarrow> bool \<Rightarrow> string \<Rightarrow> ('s s6_world, unit) act" where
  "svc_Remove ctx fs persist path =
     call (on_disk (check_ctx ctx)) (\<lambda>_ w.
       if (case artifacts w of None \<Rightarrow> False | Some a \<Rightarrow> ar_CreatedFiles a \<noteq> [])
       then call (RemoveArtifacts ctx fs) (\<lambda>_. store None) w
       else on_disk
         (call (wrapped ''failed to probe service path during no-tracking remove: '' (op_PathExists fs path)) (\<lambda>serviceExists.
          call (wrapped ''failed to probe repository path during no-tracking remove: ''
                 (op_PathExists fs (ar_RepositoryDir (new_artifacts persist path)))) (\<lambda>repoExists.
          call (wrapped ''failed to probe log path during no-tracking remove: ''
                 (op_PathExists fs (ar_LogDir (new_artifacts persist path)))) (\<lambda>logExists.
          if serviceExists \<or> repoExists \<or> logExists then fail (untracked (filepath_Base path))
          else fail ErrServiceNotExist)))) w)"

text \<open>\<open>ctx\<close> is the fresh context of the forced removal, \<open>chunk\<close> the one of each directory removal.\<close>

definition svc_ForceRemove :: "'s go_ctx \<Rightarrow> 's go_ctx \<Rightarrow> 's fsys \<Rightarrow> bool \<Rightarrow> string \<Rightarrow> ('s s6_world, unit) act" where
  "svc_ForceRemove ctx chunk fs persist path =
     call (on_disk (ForceCleanup ctx chunk fs (new_artifacts persist path))) (\<lambda>_. store None)"

definition remove_down_file :: "'s fsys \<Rightarrow> string \<Rightarrow> ('s, unit) act" where
  "remove_down_file fs p =
     call (attempt (op_FileExists fs p)) (\<lambda>r. if r = Inr True then unit_of (attempt (op_Remove fs p)) else ret ())"

definition svc_Start :: "'s fsys \<Rightarrow> string \<Rightarrow> ('s, unit) act" where
  "svc_Start fs path =
     (let logServicePath = filepath_Join path ''log''
      in call (require_service fs path) (\<lambda>_.
         call (remove_down_file fs (filepath_Join path ''down'')) (\<lambda>_.
         call (remove_down_file fs (filepath_Join logServicePath ''down'')) (\<lambda>_.
         call (wrapped ''failed to start log service: '' (ExecuteS6Command fs path ''s6-svc'' [''-u'', logServicePath])) (\<lambda>_.
         unit_of (wrapped ''failed to start service: '' (ExecuteS6Command fs path ''s6-svc'' [''-u'', path])))))))"

definition svc_Stop :: "'s fsys \<Rightarrow> string \<Rightarrow> ('s, unit) act" where
  "svc_Stop fs path =
     (let logServicePath = filepath_Join path ''log''
      in call (require_service fs path) (\<lambda>_.
         call (wrapped ''failed to stop service: '' (ExecuteS6Command fs path ''s6-svc'' [''-d'', path])) (\<lambda>_.
         call (wrapped ''failed to stop log service: '' (ExecuteS6Command fs path ''s6-svc'' [''-d'', logServicePath])) (\<lambda>_.
         call (attempt (op_WriteFile fs (filepath_Join path ''down'') [])) (\<lambda>_.
         unit_of (attempt (op_WriteFile fs (filepath_Join logServicePath ''down'') [])))))))"

definition svc_Restart :: "'s fsys \<Rightarrow> string \<Rightarrow> ('s, unit) act" where
  "svc_Restart fs path =
     call (require_service fs path) (\<lambda>_.
     unit_of (wrapped ''failed to restart service: '' (ExecuteS6Command fs path ''s6-svc'' [''-r'', path])))"

definition knownServices :: "string list" where
  "knownServices = [''s6-linux-init-shutdownd'', ''s6rc-fdholder'', ''s6rc-oneshot-runner'', ''umh-core'', ''.s6-svscan'',
     ''user'', ''s6-rc'', ''log-user-service'']"

definition IsKnownService :: "string \<Rightarrow> bool" where
  "IsKnownService name =
     (name \<in> set knownServices \<or> suffix ''-log'' name \<or> suffix ''-prepare'' name \<or> suffix ''-log-prepare'' name)"

fun clean_loop :: "'s fsys \<Rightarrow> string \<Rightarrow> (string \<times> bool) list \<Rightarrow> ('s, unit) act" where
  "clean_loop fs path [] = ret ()"
| "clean_loop fs path ((name, isDir) # rest) =
     (if \<not> isDir \<or> IsKnownService name then clean_loop fs path rest
      else call (attempt (op_RemoveAll fs (filepath_Join path name))) (\<lambda>_. clean_loop fs path rest))"

definition CleanS6ServiceDirectory :: "'s go_ctx \<Rightarrow> 's fsys \<Rightarrow> string \<Rightarrow> ('s, unit) act" where
  "CleanS6ServiceDirectory ctx fs path =
     call (wrapped ''context is done: '' (check_ctx ctx)) (\<lambda>_.
     call (wrapped ''failed to read S6 service directory: '' (op_ReadDir fs path)) (\<lambda>entries.
     clean_loop fs path entries))"

end
