(* ===== verification/S6_Lifecycle.thy ===== *)
theory S6_Lifecycle
  imports S6_Service
begin

text \<open>
  What the lifecycle operations of \<open>S6_Service\<close> guarantee. The lemmas are proved once over the contract
  \<open>file_service\<close> and then stated for the file system service.
\<close>

section \<open>The world around the disk\<close>

lemma triple_on_disk: "triple P m Q E \<Longrightarrow> triple (\<lambda>w. P (disk w)) (on_disk m) (\<lambda>x w. Q x (disk w)) (\<lambda>w. E (disk w))"
  unfolding triple_def on_disk_def by (fastforce split: prod.splits sum.splits)

lemma on_disk_frame: "on_disk m w = (r, w') \<Longrightarrow> artifacts w' = artifacts w \<and> m (disk w) = (r, disk w')"
  by (auto simp: on_disk_def split: prod.splits)

lemma check_ctx_keeps [keeps_rules]: "keeps P (check_ctx ctx)"
  by (rule keepsI) (auto simp: check_ctx_def split: option.splits)

section \<open>Over the contract\<close>

context file_service
begin

text \<open>Checks that found nothing were right.\<close>

lemma verify_gone_true:
  assumes "verify_gone fs a s = (Inr u, t)"
  shows "\<not> present t (ar_ServiceDir a) \<and> \<not> present t (ar_LogDir a) \<and> (ar_RepositoryDir a \<noteq> [] \<longrightarrow> \<not> present t (ar_RepositoryDir a))"
proof -
  have gone: "\<not> present v p \<and> present v = present x" if "op_PathExists fs p x = (Inr False, v)" for p x v
    using exists_false [OF that] exists_keeps [OF that] by simp
  from assms show ?thesis
    unfolding verify_gone_def by (auto simp: ok_simps dest!: gone split: if_splits)
qed

lemma ForceRemove_clean:
  assumes "svc_ForceRemove ctx chunk fs persist path w = (Inr u, w')" and "a = new_artifacts persist path"
  shows "artifacts w' = None \<and> \<not> present (disk w') path \<and> \<not> present (disk w') (ar_LogDir a)
     \<and> (ar_RepositoryDir a \<noteq> [] \<longrightarrow> \<not> present (disk w') (ar_RepositoryDir a))"
proof -
  from assms(1) obtain w1 x where 1: "on_disk (ForceCleanup ctx chunk fs (new_artifacts persist path)) w = (Inr x, w1)"
    and 2: "w' = w1\<lparr>artifacts := None\<rparr>" by (auto simp: svc_ForceRemove_def store_def ok_simps)
  from on_disk_frame [OF 1] obtain s where "verify_gone fs (new_artifacts persist path) s = (Inr (), disk w1)"
    by (auto simp: ForceCleanup_def ok_simps)
  from verify_gone_true [OF this] show ?thesis by (simp add: 2 assms(2)) (simp add: new_artifacts_def)
qed

lemma Remove_untracked:
  assumes "svc_Remove ctx fs persist path w = (Inl ErrServiceNotExist, w')" and "ctx_Err ctx (disk w) = None"
    and "artifacts w = None" and "a = new_artifacts persist path"
  shows "\<not> present (disk w') path \<and> \<not> present (disk w') (ar_RepositoryDir a) \<and> \<not> present (disk w') (ar_LogDir a)"
proof -
  have gone: "\<not> present v p \<and> present v = present x" if "op_PathExists fs p x = (Inr False, v)" for p x v
    using exists_false [OF that] exists_keeps [OF that] by simp
  have ne: "Errorf m e \<noteq> ErrServiceNotExist" "untracked m \<noteq> ErrServiceNotExist" for m e
    by (simp_all add: ErrServiceNotExist_def untracked_def)
  from assms show ?thesis
    by (auto simp: svc_Remove_def call_def wrapped_def check_ctx_def fail_def on_disk_def ne dest!: gone split: prod.splits sum.splits if_splits)
qed

subsection \<open>Creation\<close>

definition holds :: "string set \<Rightarrow> 's \<Rightarrow> bool" where
  "holds A s \<longleftrightarrow> good s \<and> (\<forall>q \<in> A. present s q)"

lemma holds_empty: "holds {} = good"
  by (auto simp: holds_def)

lemma ensure_triple: "triple (holds A) (op_EnsureDirectory fs p) (\<lambda>_. holds (insert p A)) good"
  by (rule tripleI) (use ensure_keeps ensure_done in \<open>auto simp: holds_def\<close>)

lemma write_triple: "triple (holds A) (op_WriteFile fs p d) (\<lambda>_. holds (insert p A)) good"
  by (rule tripleI) (use write_keeps write_done in \<open>auto simp: holds_def\<close>)

lemma ensure_call: "(\<And>u. triple (holds (insert p A)) (k u) Q good) \<Longrightarrow> triple (holds A) (call (wrapped m (op_EnsureDirectory fs p)) k) Q good"
  by (rule triple_call [OF triple_wrapped [OF ensure_triple]])

lemma write_call: "(\<And>u. triple (holds (insert p A)) (k u) Q good) \<Longrightarrow> triple (holds A) (call (wrapped m (op_WriteFile fs p d)) k) Q good"
  by (rule triple_call [OF triple_wrapped [OF write_triple]])

lemma config_loop_triple: "triple (holds A) (config_loop fs cp files) (\<lambda>created. holds (A \<union> set created)) good"
proof (induction files arbitrary: A)
  case (Cons f files)
  obtain path content where f: "f = (path, content)" by fastforce
  show ?case
  proof (cases "config_name_error path")
    case None
    let ?p = "config_target cp path"
    have "triple (holds A) (call (wrapped m (op_EnsureDirectory fs (filepath_Dir ?p))) (\<lambda>_.
        call (wrapped m' (op_WriteFile fs ?p content)) (\<lambda>_.
        call (config_loop fs cp files) (\<lambda>created. ret (?p # created))))) (\<lambda>created. holds (A \<union> set created)) good" for m m'
      by (intro ensure_call write_call, rule triple_call, rule Cons.IH) (auto simp: holds_def intro: triple_ret)
    then show ?thesis by (simp add: f None Let_def)
  qed (auto simp: f holds_def intro: triple_fail)
qed (auto intro: triple_ret)

lemma create_files_triple:
  "triple (holds {}) (createS6FilesInRepository fs order repo config) (\<lambda>created s. created \<noteq> [] \<and> holds (insert repo (set created)) s) good"
proof -
  have finish: "triple (holds A) (call (wrapped m1 (config_loop fs cp files)) (\<lambda>configFiles.
      call (wrapped m2 (op_EnsureDirectory fs dir)) (\<lambda>_. call (wrapped m3 (op_WriteFile fs b [])) (\<lambda>_. ret (pre @ configFiles @ [b])))))
      (\<lambda>created s. created \<noteq> [] \<and> holds (insert repo (set created)) s) good" if "repo \<in> A" "set pre \<subseteq> A" for A m1 m2 m3 cp files dir b pre
    using that by (intro triple_call [OF triple_wrapped [OF config_loop_triple]] ensure_call write_call triple_ret) (auto simp: holds_def)
  have none: "triple (holds A) (fail e) Q good" for A e and Q :: "string list \<Rightarrow> 's \<Rightarrow> bool"
    by (rule triple_fail) (simp add: holds_def)
  show ?thesis
    unfolding createS6FilesInRepository_def Let_def createS6ConfigFiles_def createS6RunScript_def
    apply (intro ensure_call write_call)
    apply (split option.split, intro conjI allI impI, rule none)
    apply (split list.split, intro conjI allI impI, rule none)
    apply (rule triple_call [OF triple_wrapped [OF triple_wrapped [OF write_triple]]])
    by (rule finish) auto
qed

lemma remove_all_triple: "keeps good (op_RemoveAll fs p)"
  by (rule keepsI) (use remove_all_shrinks in blast)

lemma probe_keeps: "keeps (holds A) (probe fs p)"
  unfolding probe_def by (intro keeps_rules keepsI) (use exists_keeps in \<open>auto simp: holds_def\<close>)

lemma remove_if_exists_keeps: "keeps good (remove_if_exists fs m p)"
  unfolding remove_if_exists_def using probe_keeps [of "{}"] by (intro keeps_rules remove_all_triple) (simp add: holds_empty)

lemma or_clean_triple:
  assumes "triple P m Q good"
  shows "triple P (or_clean fs repo msg m) Q good"
proof (rule tripleI)
  fix s x t assume "P s" and "or_clean fs repo msg m s = (Inr x, t)"
  then show "Q x t" using triple_ok [OF assms] by (auto simp: or_clean_def split: prod.splits sum.splits)
next
  fix s e t assume "P s" and "or_clean fs repo msg m s = (Inl e, t)"
  then obtain e' u where "m s = (Inl e', u)" "t = snd (op_RemoveAll fs repo u)" by (auto simp: or_clean_def split: prod.splits sum.splits)
  with triple_err [OF assms _ \<open>P s\<close>] keepsD [OF remove_all_triple] show "good t" by (metis prod.collapse)
qed

lemma symlink_triple:
  assumes "below scan path" "path \<noteq> scan" "\<not> below scan repo" "repo \<in> A"
  shows "triple (holds A) (op_Symlink fs repo path) (\<lambda>_. holds (insert path A)) good"
  by (rule tripleI) (use assms symlink_keeps symlink_done in \<open>auto simp: holds_def\<close>)

definition tracked :: "bool \<Rightarrow> string \<Rightarrow> ServiceArtifacts \<Rightarrow> 's \<Rightarrow> bool" where
  "tracked persist path a s \<longleftrightarrow>
     a = (new_artifacts persist path)\<lparr>ar_CreatedFiles := ar_CreatedFiles a\<rparr> \<and> ar_CreatedFiles a \<noteq> []
     \<and> holds ({path, ar_RepositoryDir a} \<union> set (ar_CreatedFiles a)) s"

lemma build_artifacts_triple:
  assumes "below scan path" "path \<noteq> scan" "\<not> below scan (ar_RepositoryDir (new_artifacts persist path))"
  shows "triple good (build_artifacts ctx fs order persist path config) (\<lambda>a. tracked persist path a) good"
  unfolding build_artifacts_def Let_def
  apply (rule triple_call [OF check_ctx_keeps [unfolded keeps_def]])
  apply (rule triple_call [OF remove_if_exists_keeps [unfolded keeps_def]])
  apply (rule triple_call [OF remove_if_exists_keeps [unfolded keeps_def]])
  apply (rule triple_call [OF or_clean_triple [OF create_files_triple [unfolded holds_empty]]])
  apply (rule triple_pure)
  apply (rule triple_call [OF or_clean_triple [OF symlink_triple [OF assms]]], simp)
  by (rule triple_ret) (auto simp: tracked_def holds_def new_artifacts_def)

lemma ExecuteS6Command_good: "keeps good (ExecuteS6Command fs path name args)"
  by (rule keepsI) (use execute_good in \<open>auto simp: ExecuteS6Command_def split: prod.splits sum.splits option.splits if_splits\<close>)

lemma scanner_holds: "keeps (holds A) (ExecuteS6Command fs path ''s6-svscanctl'' args)"
  by (rule keepsI) (use scanner_keeps in \<open>fastforce simp: ExecuteS6Command_def holds_def split: prod.splits sum.splits option.splits if_splits\<close>)

lemma file_exists_holds: "keeps (holds A) (op_FileExists fs p)"
  by (rule keepsI) (use file_exists_keeps in \<open>auto simp: holds_def\<close>)

lemma exists_holds: "keeps (holds A) (op_PathExists fs p)"
  by (rule keepsI) (use exists_keeps in \<open>auto simp: holds_def\<close>)

lemma require_service_holds: "keeps (holds A) (require_service fs p)"
proof -
  have "keeps (holds A) (svc_exists fs p)"
    by (rule keepsI) (use exists_keeps in \<open>auto simp: svc_exists_def holds_def split: prod.splits\<close>)
  then show ?thesis unfolding require_service_def by (intro keeps_rules)
qed

lemma EnsureSupervision_holds: "keeps (holds A) (EnsureSupervision fs path)"
  unfolding EnsureSupervision_def Let_def
  by (intro keeps_rules require_service_holds file_exists_holds scanner_holds)

lemma create_fresh_tracked:
  assumes "below scan path" "path \<noteq> scan" "\<not> below scan (ar_RepositoryDir (new_artifacts persist path))"
    and "create_fresh ctx fs order persist now path config w = (Inr u, w')" and "good (disk w)"
  shows "\<exists>a. artifacts w' = Some a \<and> tracked persist path a (disk w')"
proof -
  from assms(4) obtain a w1 where b: "on_disk (build_artifacts ctx fs order persist path config) w = (Inr a, w1)"
    and e: "w' = (snd (on_disk (EnsureSupervision fs path)
       (w1\<lparr>configChangeTimestamps := (configChangeTimestamps w1)(path \<mapsto> now (disk w1))\<rparr>)))\<lparr>artifacts := Some a\<rparr>"
    by (auto simp: create_fresh_def CreateArtifacts_def store_def ok_simps)
  from on_disk_frame [OF b] assms have t: "tracked persist path a (disk w1)"
    by (blast intro: triple_ok [OF build_artifacts_triple])
  obtain r d where r: "EnsureSupervision fs path (disk w1) = (r, d)" by fastforce
  from t keepsD [OF EnsureSupervision_holds r] have "tracked persist path a d" by (simp add: tracked_def)
  with e r show ?thesis by (simp add: on_disk_def)
qed

subsection \<open>Health\<close>

lemma tracked_files_ok: "triple (holds A) (tracked_files_health fs files) (\<lambda>h s. (set files \<subseteq> A \<longrightarrow> h = HealthOK) \<and> holds A s) (holds A)"
proof (induction files)
  case (Cons f files)
  have "triple (holds A) (op_FileExists fs f) (\<lambda>b s. (f \<in> A \<longrightarrow> b) \<and> holds A s) (holds A)"
    by (rule tripleI) (use file_exists_keeps file_exists_false in \<open>fastforce simp: holds_def\<close>)+
  moreover have "triple (\<lambda>s. (f \<in> A \<longrightarrow> b) \<and> holds A s) (if b then tracked_files_health fs files else ret HealthBad)
      (\<lambda>h s. (set (f # files) \<subseteq> A \<longrightarrow> h = HealthOK) \<and> holds A s) (holds A)" for b
    by (rule triple_if; rule triple_weaken [OF Cons.IH] triple_ret) auto
  ultimately show ?case by (simp add: triple_call)
qed (auto intro: triple_ret)

lemma exists_ok:
  assumes "p \<in> A" and "triple (holds A) (k True) Q (holds A)"
  shows "triple (holds A) (call (op_PathExists fs p) k) Q (holds A)"
proof (rule triple_call)
  show "triple (holds A) (op_PathExists fs p) (\<lambda>b s. b \<and> holds A s) (holds A)"
    by (rule tripleI) (use assms(1) exists_keeps exists_false in \<open>fastforce simp: holds_def\<close>)+
  show "triple (\<lambda>s. b \<and> holds A s) (k b) Q (holds A)" for b
    using assms(2) by (cases b) (auto simp: triple_def)
qed

lemma CheckArtifactsHealth_ok:
  assumes "holds ({ar_ServiceDir a, ar_RepositoryDir a} \<union> set (ar_CreatedFiles a)) s" and "ar_CreatedFiles a \<noteq> []"
    and "CheckArtifactsHealth ctx fs (Some a) s = ((h, err), t)"
  shows "h = HealthOK \<and> err = None \<or> h = HealthUnknown \<and> err \<noteq> None"
proof -
  let ?A = "{ar_ServiceDir a, ar_RepositoryDir a} \<union> set (ar_CreatedFiles a)"
  have "triple (holds ?A) (call (tracked_files_health fs (ar_CreatedFiles a)) (\<lambda>h.
             if h \<noteq> HealthOK then ret h
             else call (op_PathExists fs (ar_ServiceDir a)) (\<lambda>b.
                  if \<not> b then ret HealthBad
                  else call (op_PathExists fs (ar_RepositoryDir a)) (\<lambda>b.
                       ret (if b then HealthOK else HealthBad))))) (\<lambda>h _. h = HealthOK) (holds ?A)"
    apply (rule triple_call [OF tracked_files_ok])
    apply (rule triple_if, rule triple_ret, blast)
    apply (rule triple_weaken [where P = "holds ?A"], rule exists_ok, simp)
       apply (simp, rule exists_ok, simp)
    by (auto intro: triple_ret)
  note ok = triple_ok [OF this _ assms(1)]
  show ?thesis
  proof (cases "ctx_Err ctx s")
    case (Some e)
    with assms(3) have "h = HealthUnknown" "err = Some e" by (simp_all add: CheckArtifactsHealth_def)
    then show ?thesis by simp
  next
    case None
    with assms(2,3) ok show ?thesis by (auto simp: CheckArtifactsHealth_def split: prod.splits sum.splits)
  qed
qed

subsection \<open>Everything keeps the state good\<close>

lemma good_exists: "keeps good (op_PathExists fs p)"
  using exists_holds [of "{}"] by (simp add: holds_empty)

lemma good_file_exists: "keeps good (op_FileExists fs p)"
  using file_exists_holds [of "{}"] by (simp add: holds_empty)

lemma good_probe: "keeps good (probe fs p)"
  using probe_keeps [of "{}"] by (simp add: holds_empty)

lemma good_require: "keeps good (require_service fs p)"
  using require_service_holds [of "{}"] by (simp add: holds_empty)

lemma good_read: "keeps good (op_ReadFile fs p)"
  by (rule keepsI) (use read_keeps in blast)

lemma good_read_dir: "keeps good (op_ReadDir fs p)"
  by (rule keepsI) (use read_dir_keeps in blast)

lemma good_write: "keeps good (op_WriteFile fs p d)"
  by (rule keepsI) (use write_keeps in blast)

lemma good_execute: "keeps good (op_ExecuteCommand fs n as)"
  by (rule keepsI) (use execute_good in blast)

lemmas good_ops = good_exists good_file_exists good_probe good_require good_read good_read_dir good_write good_execute
  remove_all_triple ExecuteS6Command_good remove_if_exists_keeps

lemma good_stop: "keeps good (stopServiceCleanly ctx fs path)"
proof -
  have one: "good t" if "stop_one ctx fs p e s = (r, t)" "good s" for p e r s t
    using that keepsD [OF good_exists] keepsD [OF ExecuteS6Command_good]
    by (fastforce simp: stop_one_def split: prod.splits sum.splits bool.splits)
  show ?thesis
    by (rule keepsI) (auto simp: stopServiceCleanly_def dest: one split: prod.splits option.splits)
qed

lemma good_unsupervise: "keeps good (unsuperviseService ctx fs path)"
proof -
  have "keeps good (checkSingleSupervisionEnded fs p)" for p
    unfolding checkSingleSupervisionEnded_def Let_def by (intro keeps_rules good_ops) (auto intro: keeps_rules split: sum.split)
  moreover have "keeps good (\<lambda>s. ExecuteS6Command fs path n (args s) s)" for n args
    by (rule keepsI) (use keepsD [OF ExecuteS6Command_good] in blast)
  ultimately show ?thesis unfolding unsuperviseService_def verifySupervisionEnded_def by (intro keeps_rules)
qed

lemma good_remove_timeout: "keeps good (removeDirectoryWithTimeout chunk fs p)"
proof -
  have "keeps good (\<lambda>s. case op_RemoveAll fs p s of
      (Inl e, t) \<Rightarrow> (Inl (if ctx_Err chunk t = Some ctx_deadline_exceeded then ctx_deadline_exceeded else e), t) | r \<Rightarrow> r)"
    by (rule keepsI) (use keepsD [OF remove_all_triple] in \<open>fastforce split: prod.splits sum.splits\<close>)
  then show ?thesis unfolding removeDirectoryWithTimeout_def logDirectoryContentsIfNotEmpty_def by (intro keeps_rules good_ops)
qed

lemma good_ForceCleanup: "keeps good (ForceCleanup ctx chunk fs a)"
  unfolding ForceCleanup_def createDownFiles_def verify_gone_def Let_def
  by (intro keeps_rules good_ops good_stop good_unsupervise good_remove_timeout)

lemma good_GetConfig: "keeps good (svc_GetConfig fs path)"
proof -
  have files: "keeps good (read_config_files fs cp es m)" for cp es m
    by (induction es arbitrary: m) (auto intro!: keeps_rules good_ops)
  have result: "keeps good (of_result r)" for r :: "goerror + 'x"
    by (rule keepsI) (simp add: of_result_def)
  show ?thesis
    unfolding svc_GetConfig_def Let_def by (intro keeps_rules good_ops files result)
qed

lemma on_disk_good: "keeps good m \<Longrightarrow> keeps (\<lambda>w. good (disk w)) (on_disk m)"
  unfolding keeps_def by (drule triple_on_disk)

lemma mark_good: "keeps (\<lambda>w. good (disk w)) (mark f)"
  by (rule keepsI) (auto simp: mark_def)

lemma removal_step_good: "keeps good work \<Longrightarrow> keeps (\<lambda>w. good (disk w)) (removal_step d f work)"
  using keeps_call [OF on_disk_good mark_good, of work "\<lambda>_. f"]
  by (auto simp: removal_step_def intro!: keepsI dest: keepsD split: if_splits)

lemma good_RemoveArtifacts: "keeps (\<lambda>w. good (disk w)) (RemoveArtifacts ctx fs)"
proof -
  have seq: "keeps (\<lambda>w. good (disk w)) (removal_sequence ctx fs a)" for a
    unfolding removal_sequence_def stop_work_def unsupervise_work_def directory_work_def remove_logged_def logDirectoryContentsIfNotEmpty_def
    by (intro keeps_rules removal_step_good good_ops good_stop good_unsupervise)
  have "keeps (\<lambda>w. good (disk w)) (\<lambda>w. case artifacts w of None \<Rightarrow> (Inl artifacts_nil, w)
       | Some a0 \<Rightarrow> let a = InitRemovalProgress a0; v = w\<lparr>artifacts := Some a\<rparr>
           in if IsFullyRemoved a then (Inr (), v) else removal_sequence ctx fs a v)"
    by (rule keepsI) (auto simp: Let_def dest: keepsD [OF seq] split: option.splits if_splits)
  then show ?thesis unfolding RemoveArtifacts_def by (intro keeps_call on_disk_good check_ctx_keeps)
qed

lemma good_CheckArtifactsHealth:
  assumes "CheckArtifactsHealth ctx fs ao s = (r, t)" and "good s"
  shows "good t"
proof -
  have files: "keeps good (tracked_files_health fs fl)" for fl
    by (induction fl) (auto intro!: keeps_rules good_ops)
  have "keeps good (call (tracked_files_health fs fl) (\<lambda>h.
             if h \<noteq> HealthOK then ret h
             else call (op_PathExists fs p) (\<lambda>b.
                  if \<not> b then ret HealthBad
                  else call (op_PathExists fs q) (\<lambda>b. ret (if b then HealthOK else HealthBad)))))" for fl p q
    by (intro keeps_rules good_ops files)
  from keepsD [OF this] assms show ?thesis
    by (auto simp: CheckArtifactsHealth_def split: option.splits prod.splits sum.splits if_splits)
qed

lemma recreate_tracked:
  assumes "below scan path" "path \<noteq> scan" "\<not> below scan (ar_RepositoryDir (new_artifacts persist path))"
    and "recreate ctx fs order persist now path config rm w = (Inr u, w')" and "keeps (\<lambda>w. good (disk w)) rm" and "good (disk w)"
  shows "\<exists>a. artifacts w' = Some a \<and> tracked persist path a (disk w')"
  using assms(4-6) create_fresh_tracked [OF assms(1-3)] by (auto simp: recreate_def call_ok store_def dest: keepsD)

lemma create_tracked_tracked:
  assumes scan: "below scan path" "path \<noteq> scan" "\<not> below scan (ar_RepositoryDir (new_artifacts persist path))"
    and run: "create_tracked ctx chunk fs order persist now path config current w = (Inr u, w')" and g: "good (disk w)"
  shows "artifacts w' = artifacts w \<or> (\<exists>a. artifacts w' = Some a \<and> tracked persist path a (disk w'))"
proof -
  obtain h err s where c: "CheckArtifactsHealth ctx fs (Some current) (disk w) = ((h, err), s)" by (metis prod.exhaust)
  let ?w1 = "w\<lparr>disk := s\<rparr>"
  note again = recreate_tracked [OF scan]
  have g1: "good (disk ?w1)" using good_CheckArtifactsHealth [OF c g] by simp
  have ne: "\<not> (err \<noteq> None \<and> h \<noteq> HealthUnknown)" using run c by (auto simp: create_tracked_def Let_def split: if_splits)
  show ?thesis
  proof (cases "h = HealthBad")
    case True
    with run c ne have "recreate ctx fs order persist now path config
        (on_disk (wrapped ''failed to remove unhealthy service: '' (ForceCleanup ctx chunk fs current))) ?w1 = (Inr u, w')"
      by (simp add: create_tracked_def Let_def)
    from again [OF this on_disk_good [OF keeps_wrapped [OF good_ForceCleanup]] g1] show ?thesis by blast
  next
    case False
    with run c ne obtain cfg w2 where r: "on_disk (wrapped ''failed to get current config: '' (svc_GetConfig fs path)) ?w1 = (Inr cfg, w2)"
      and k: "(if S6ServiceConfig_Equal cfg config then ret () else recreate ctx fs order persist now path config
          (wrapped ''failed to remove service for recreation: '' (RemoveArtifacts ctx fs))) w2 = (Inr u, w')"
      by (auto simp: create_tracked_def Let_def call_ok)
    have g2: "good (disk w2)" and a2: "artifacts w2 = artifacts w"
      using keepsD [OF on_disk_good [OF keeps_wrapped [OF good_GetConfig]] r] on_disk_frame [OF r] g1 by simp_all
    show ?thesis
      using k a2 again [OF _ keeps_wrapped [OF good_RemoveArtifacts] g2] by (auto simp: ok_simps split: if_splits)
  qed
qed

lemma Create_tracked:
  assumes scan: "below scan path" "path \<noteq> scan" "\<not> below scan (ar_RepositoryDir (new_artifacts persist path))"
    and run: "svc_Create ctx chunk fs order persist now path config w = (Inr u, w')" and g: "good (disk w)"
  shows "artifacts w \<noteq> None \<and> artifacts w' = artifacts w \<or> (\<exists>a. artifacts w' = Some a \<and> tracked persist path a (disk w'))"
proof -
  note fresh = create_fresh_tracked [OF scan]
  from run obtain b w1 where e: "on_disk (wrapped ''failed to check if service path exists: '' (op_PathExists fs path)) w = (Inr b, w1)"
    and rest: "(if \<not> b then create_fresh ctx fs order persist now path config w1
       else (case artifacts w1 of
           None \<Rightarrow> call (on_disk (wrapped ''failed to remove orphaned service directory: '' (op_RemoveAll fs path)))
               (\<lambda>_. create_fresh ctx fs order persist now path config) w1
         | Some current \<Rightarrow> create_tracked ctx chunk fs order persist now path config current w1)) = (Inr u, w')"
    by (auto simp: svc_Create_def Let_def call_ok)
  have g1: "good (disk w1)" and a1: "artifacts w1 = artifacts w"
    using keepsD [OF on_disk_good [OF keeps_wrapped [OF good_exists]] e] on_disk_frame [OF e] g by simp_all
  consider "\<not> b" | "b" "artifacts w1 = None" | current where "b" "artifacts w1 = Some current" by blast
  then show ?thesis
  proof cases
    case 1
    with rest fresh [OF _ g1] show ?thesis by simp
  next
    case 2
    with rest obtain x v where r: "on_disk (wrapped ''failed to remove orphaned service directory: '' (op_RemoveAll fs path)) w1 = (Inr x, v)"
      and f: "create_fresh ctx fs order persist now path config v = (Inr u, w')" by (auto simp: call_ok)
    from keepsD [OF on_disk_good [OF keeps_wrapped [OF remove_all_triple]] r] g1 have "good (disk v)" by blast
    with fresh [OF f] show ?thesis by blast
  next
    case (3 current)
    with rest have "create_tracked ctx chunk fs order persist now path config current w1 = (Inr u, w')" by simp
    from create_tracked_tracked [OF scan this g1] 3 a1 show ?thesis by simp
  qed
qed

end

section \<open>An undisturbed disk\<close>

text \<open>\<open>calm\<close>: from now on nothing but the tree itself makes a call fail, and programs succeed.\<close>

locale calm_file_service = file_service fs present good scan
  for fs :: "'s fsys" and present :: "'s \<Rightarrow> string \<Rightarrow> bool" and good :: "'s \<Rightarrow> bool" and scan :: string +
  fixes calm :: "'s \<Rightarrow> bool"
  assumes calm_exists: "calm s \<Longrightarrow> \<exists>b t. op_PathExists fs p s = (Inr b, t) \<and> calm t"
    and calm_remove_all: "calm s \<Longrightarrow> \<exists>t. op_RemoveAll fs p s = (Inr (), t) \<and> calm t"
    and calm_execute: "calm s \<Longrightarrow> \<exists>out t. op_ExecuteCommand fs name args s = (Inr out, t) \<and> calm t"
    and calm_read_dir: "calm s \<Longrightarrow> op_ReadDir fs p s = (rd, t) \<Longrightarrow> calm t"
begin

definition clear :: "string set \<Rightarrow> 's \<Rightarrow> bool" where
  "clear A s \<longleftrightarrow> calm s \<and> good s \<and> (\<forall>q \<in> A. \<not> present s q)"

abbreviation sure :: "('s \<Rightarrow> bool) \<Rightarrow> ('s, 'a) act \<Rightarrow> ('a \<Rightarrow> 's \<Rightarrow> bool) \<Rightarrow> bool" where
  "sure P m Q \<equiv> triple P m Q (\<lambda>_. False)"

lemma clear_exists: "sure (clear A) (op_PathExists fs p) (\<lambda>b. clear (if b then A else insert p A))"
proof (rule tripleI)
  fix s b t assume c: "clear A s" and e: "op_PathExists fs p s = (Inr b, t)"
  moreover have "calm t" using calm_exists [of s p] c e by (auto simp: clear_def)
  ultimately show "clear (if b then A else insert p A) t"
    using exists_keeps [OF e] exists_false [of p s t] by (cases b) (auto simp: clear_def)
qed (metis calm_exists clear_def old.sum.distinct(2) prod.inject)

lemma clear_remove_all: "sure (clear A) (op_RemoveAll fs p) (\<lambda>_. clear (insert p A))"
proof (rule tripleI)
  fix s b t assume c: "clear A s" and e: "op_RemoveAll fs p s = (Inr b, t)"
  moreover have "calm t" using calm_remove_all [of s p] c e by (auto simp: clear_def)
  ultimately show "clear (insert p A) t"
    using remove_all_shrinks [OF _ e] remove_all_done [of s p t] by (auto simp: clear_def)
qed (metis calm_remove_all clear_def old.sum.distinct(2) prod.inject)

lemma clear_execute: "sure (clear {}) (op_ExecuteCommand fs name args) (\<lambda>_. clear {})"
proof (rule tripleI)
  fix s b t assume c: "clear {} s" and e: "op_ExecuteCommand fs name args s = (Inr b, t)"
  moreover have "calm t" using calm_execute [of s name args] c e by (auto simp: clear_def)
  ultimately show "clear {} t" using execute_good [OF e] by (auto simp: clear_def)
qed (metis calm_execute clear_def old.sum.distinct(2) prod.inject)

lemma clear_command: "sure (clear {}) (ExecuteS6Command fs path name args) (\<lambda>_. clear {})"
  using clear_execute [of name args] by (fastforce simp: triple_def ExecuteS6Command_def split: prod.splits sum.splits)

lemma clear_log: "sure (clear A) (logDirectoryContentsIfNotEmpty fs p) (\<lambda>_. clear A)"
proof -
  have "keeps (clear A) (op_ReadDir fs p)"
    by (rule keepsI) (use calm_read_dir read_dir_keeps in \<open>auto simp: clear_def\<close>)
  then have "sure (clear A) (attempt (op_ReadDir fs p)) (\<lambda>_. clear A)"
    unfolding keeps_def by (rule triple_attempt)
  then show ?thesis unfolding logDirectoryContentsIfNotEmpty_def by (rule triple_unit_of)
qed

lemma clear_probe: "sure (clear A) (probe fs p) (\<lambda>b. clear (if b then A else insert p A))"
proof -
  have "sure (clear A) (attempt (op_PathExists fs p)) (\<lambda>r s. (\<exists>b. r = Inr b \<and> clear (if b then A else insert p A) s))"
    by (rule triple_attempt [OF triple_weaken [OF clear_exists]]) auto
  then show ?thesis unfolding probe_def by (rule triple_call) (auto intro: triple_ret)
qed

lemma probe_then:
  assumes "sure (clear A) m (\<lambda>_. clear (insert p A))"
  shows "sure (clear A) (call (probe fs p) (\<lambda>b. if b then m else ret ())) (\<lambda>_. clear (insert p A))"
  by (rule triple_call [OF clear_probe]) (auto intro: triple_ret assms)

lemma clear_directories:
  "sure (clear {}) (directory_work fs a) (\<lambda>_. clear {ar_ServiceDir a, ar_RepositoryDir a, ar_LogDir a})"
proof -
  have a: "sure (clear A) (remove_if_exists fs m p) (\<lambda>_. clear (insert p A))" for A m p
    unfolding remove_if_exists_def by (intro probe_then triple_wrapped clear_remove_all)
  have b: "sure (clear A) (remove_logged fs m p) (\<lambda>_. clear (insert p A))" for A m p
    unfolding remove_logged_def by (rule probe_then, rule triple_call [OF clear_log]) (intro triple_wrapped clear_remove_all)
  show ?thesis
    unfolding directory_work_def
    by (rule triple_call [OF a], rule triple_call [OF b], rule triple_weaken [OF b]) (auto simp: insert_commute)
qed

lemma clear_stop: "sure (clear {}) (stopServiceCleanly ctx fs path) (\<lambda>_. clear {})"
proof -
  have one: "clear {} t \<and> r = e" if st: "stop_one ctx fs p e s = (r, t)" and cl: "clear {} s" for p e r s t
  proof -
    obtain b u where b: "op_PathExists fs p s = (Inr b, u)" using cl calm_exists [of s p] by (auto simp: clear_def)
    have c: "clear {} u" using triple_ok [OF clear_exists b cl] by (auto simp: clear_def split: if_splits)
    let ?cmd = "ExecuteS6Command fs p ''s6-svc'' (timeout_args ''-T'' (calculateS6Timeout ctx u) @ [''-wD'', ''-d'', p]) u"
    obtain x v where v: "?cmd = (x, v)" by fastforce
    with c have "\<exists>y. x = Inr y \<and> clear {} v"
      using triple_ok [OF clear_command] triple_err [OF clear_command] by (cases x) blast+
    with st b c v show ?thesis by (auto simp: stop_one_def split: bool.splits)
  qed
  show ?thesis
    by (rule tripleI) (auto simp: stopServiceCleanly_def dest: one split: prod.splits option.splits)
qed

lemma clear_unsupervise: "sure (clear {}) (unsuperviseService ctx fs path) (\<lambda>_. clear {})"
proof -
  have ended: "sure (clear {}) (checkSingleSupervisionEnded fs p) (\<lambda>_. clear {})" for p
  proof -
    let ?lock = "filepath_Join (filepath_Join p ''supervise'') ''lock''"
    have flock: "sure (clear {}) (attempt (op_ExecuteCommand fs ''flock'' args)) (\<lambda>r s. (\<exists>y. r = Inr y) \<and> clear {} s)" for args
      by (rule triple_attempt [OF triple_weaken [OF clear_execute]]) auto
    have tail: "sure (\<lambda>s. (\<exists>y. r = Inr y) \<and> clear {} s) (case r of Inl _ \<Rightarrow> fail e | Inr _ \<Rightarrow> ret ()) (\<lambda>_. clear {})" for r :: "goerror + string" and e
      by (cases r) (auto intro: triple_ret triple_fail)
    have "sure (clear (if b then {} else {?lock})) (if \<not> b then ret () else call (attempt (op_ExecuteCommand fs ''flock'' args)) (\<lambda>r.
          case r of Inl _ \<Rightarrow> fail e | Inr _ \<Rightarrow> ret ())) (\<lambda>_. clear {})" for b args e
      by (cases b) (auto intro: triple_call [OF flock tail] triple_ret simp: clear_def)
    then show ?thesis
      unfolding checkSingleSupervisionEnded_def Let_def by (intro triple_call [OF triple_wrapped [OF clear_exists]])
  qed
  have cmd: "sure (clear {}) (\<lambda>s. ExecuteS6Command fs path n (args s) s) (\<lambda>_. clear {})" for n args
    by (rule tripleI) (use triple_ok [OF clear_command] triple_err [OF clear_command] in blast)+
  show ?thesis
    unfolding unsuperviseService_def verifySupervisionEnded_def
    by (rule triple_call, rule triple_wrapped, rule cmd, rule triple_wrapped, rule triple_call, rule triple_wrapped, rule ended,
        rule triple_wrapped, rule ended)
qed

lemma sure_run: "sure P m Q \<Longrightarrow> P s \<Longrightarrow> \<exists>x t. m s = (Inr x, t) \<and> Q x t"
  by (cases "m s"; cases "fst (m s)") (auto dest: triple_ok triple_err)

lemma sure_step:
  assumes "sure (clear {}) work (\<lambda>_. clear A)" and "clear {} (disk w)"
  shows "\<exists>w'. removal_step d f work w = (Inr (), w') \<and> clear (if removal_flag d w then {} else A) (disk w')
     \<and> artifacts w' = (if removal_flag d w then artifacts w
          else map_option (\<lambda>a. a\<lparr>ar_RemovalProgress := map_option f (ar_RemovalProgress a)\<rparr>) (artifacts w))"
proof -
  from sure_run [OF assms] obtain x t where "work (disk w) = (Inr x, t)" "clear A t" by blast
  with assms(2) show ?thesis by (auto simp: removal_step_def on_disk_def mark_def call_def)
qed

lemma Remove_complete:
  assumes "artifacts w = Some a" "ar_CreatedFiles a \<noteq> []" and "\<not> removal_flag DirectoriesRemoved w"
    and "ctx_Err ctx (disk w) = None" and "calm (disk w)" "good (disk w)"
  shows "\<exists>w'. svc_Remove ctx fs persist path w = (Inr (), w') \<and> artifacts w' = None
     \<and> (\<forall>p \<in> {ar_ServiceDir a, ar_RepositoryDir a, ar_LogDir a}. \<not> present (disk w') p)"
proof -
  let ?a = "InitRemovalProgress a"
  let ?v = "w\<lparr>artifacts := Some ?a\<rparr>"
  have dirs: "ar_ServiceDir ?a = ar_ServiceDir a" "ar_RepositoryDir ?a = ar_RepositoryDir a" "ar_LogDir ?a = ar_LogDir a"
    by (simp_all add: InitRemovalProgress_def)
  obtain p where p: "ar_RemovalProgress ?a = Some p" "\<not> DirectoriesRemoved p"
    using assms(1,3) by (cases "ar_RemovalProgress a") (auto simp: InitRemovalProgress_def no_progress_def removal_flag_def)
  have stop: "sure (clear {}) (stop_work ctx fs ?a) (\<lambda>_. clear {})"
    unfolding stop_work_def by (rule triple_call [OF clear_probe]) (auto intro!: triple_if triple_wrapped clear_stop triple_ret simp: clear_def)
  have unsup: "sure (clear {}) (unsupervise_work ctx fs ?a) (\<lambda>_. clear {})"
    unfolding unsupervise_work_def by (rule triple_call [OF clear_probe]) (auto intro!: triple_if triple_wrapped clear_unsupervise triple_ret simp: clear_def)
  have c: "clear {} (disk ?v)" using assms by (simp add: clear_def)
  obtain v1 where v1: "removal_step ServiceStopped (\<lambda>p. p\<lparr>ServiceStopped := True\<rparr>) (stop_work ctx fs ?a) ?v = (Inr (), v1)"
    "clear {} (disk v1)" "\<exists>b. artifacts v1 = Some b \<and> (\<exists>q. ar_RemovalProgress b = Some q \<and> \<not> DirectoriesRemoved q)"
    using sure_step [OF stop c, of ServiceStopped "\<lambda>p. p\<lparr>ServiceStopped := True\<rparr>"] p by (auto split: if_splits)
  obtain v2 where v2: "removal_step ServiceUnsupervised (\<lambda>p. p\<lparr>ServiceUnsupervised := True\<rparr>) (unsupervise_work ctx fs ?a) v1 = (Inr (), v2)"
    "clear {} (disk v2)" "\<exists>b. artifacts v2 = Some b \<and> (\<exists>q. ar_RemovalProgress b = Some q \<and> \<not> DirectoriesRemoved q)"
    using sure_step [OF unsup v1(2), of ServiceUnsupervised "\<lambda>p. p\<lparr>ServiceUnsupervised := True\<rparr>"] v1(3) by (auto split: if_splits)
  have "\<not> removal_flag DirectoriesRemoved v2" using v2(3) by (auto simp: removal_flag_def)
  then obtain v3 where v3: "removal_step DirectoriesRemoved (\<lambda>p. p\<lparr>DirectoriesRemoved := True, SymlinkRemoved := True\<rparr>) (directory_work fs ?a) v2 = (Inr (), v3)"
    "clear {ar_ServiceDir a, ar_RepositoryDir a, ar_LogDir a} (disk v3)"
    using sure_step [OF clear_directories [of ?a] v2(2), of DirectoriesRemoved] dirs by auto
  have "RemoveArtifacts ctx fs w = (Inr (), v3)"
    using assms(1,4) p v1(1) v2(1) v3(1)
    by (simp add: RemoveArtifacts_def on_disk_def check_ctx_def call_def Let_def IsFullyRemoved_def removal_sequence_def)
  then show ?thesis
    using assms(1,2,4) v3(2) by (auto simp: svc_Remove_def on_disk_def check_ctx_def call_def store_def clear_def)
qed

end

section \<open>The file system service\<close>

definition fs_calm :: "FileService \<Rightarrow> bool" where
  "fs_calm s \<longleftrightarrow> list_all (\<lambda>f. ft_ctx f = None \<and> ft_cancel f = None \<and> ft_os f = None) (fv_fates s)"

lemma calm_fate:
  assumes "fs_calm s" and "next_fate s = (f, t)"
  shows "ft_ctx f = None \<and> ft_cancel f = None \<and> ft_os f = None \<and> fs_calm t"
  using assms by (auto simp: fs_calm_def next_fate_def fine_def split: list.splits)

lemma calm_context:
  assumes "fs_calm s" and "\<And>f t. ft_cancel f = None \<Longrightarrow> ft_os f = None \<Longrightarrow> fs_calm t \<Longrightarrow> \<exists>x u. body f t = (r x, u) \<and> fs_calm u"
  shows "\<exists>x u. with_context wrap body s = (r x, u) \<and> fs_calm u"
proof -
  obtain f t where n: "next_fate s = (f, t)" by fastforce
  from calm_fate [OF assms(1) n] assms(2) [of f t] n show ?thesis by (simp add: with_context_def)
qed

lemma calm_state [simp]:
  "fs_calm (s\<lparr>fv_tree := tr\<rparr>) = fs_calm s" "fs_calm (s\<lparr>fv_pathCache := pc\<rparr>) = fs_calm s" "fs_calm (s\<lparr>fv_dirCache := dc\<rparr>) = fs_calm s"
  "fs_calm (s\<lparr>fv_calls := cs\<rparr>) = fs_calm s" "fs_calm (invalidatePathCache p s) = fs_calm s"
  by (simp_all add: fs_calm_def invalidatePathCache_def Let_def)

interpretation calm_dfs: calm_file_service DefaultFileService fs_present fs_good scan_dir fs_calm
proof (unfold_locales, unfold DefaultFileService_def fsys.select_convs, goal_cases)
  case (1 s p)
  then show ?case unfolding PathExists_def
    by (rule calm_context) (auto simp: pathExistsUncached_def Let_def split: option.split bool.split)
next
  case (2 s p)
  have "\<exists>x u. RemoveAll p s = (Inr x, u) \<and> fs_calm u"
    unfolding RemoveAll_def by (rule calm_context [OF 2]) (auto simp: Let_def)
  then show ?case by simp
next
  case (3 s name args)
  then show ?case unfolding ExecuteCommand_def by (rule calm_context) (auto simp: Let_def)
next
  case (4 s p rd t)
  have "\<exists>x u. ReadDir p s = (id x, u) \<and> fs_calm u"
    unfolding ReadDir_def
    by (rule calm_context [OF 4(1)]) (auto simp: readDirUncached_def Let_def split: option.split prod.split sum.split)
  with 4(2) show ?case by auto
qed

subsection \<open>The three paths of a service\<close>

definition repo_base_ok :: "bool \<Rightarrow> bool" where
  "repo_base_ok persist = (let d = GetS6RepositoryBaseDir persist
     in is_rooted d \<and> path_elems d \<noteq> [] \<and> filepath_Clean d = d \<and> 1 < length d \<and> d ! 1 \<noteq> scan_dir ! 1)"

lemma repo_base_ok: "repo_base_ok persist"
proof -
  have "repo_base_ok True" "repo_base_ok False" by code_simp+
  then show ?thesis by (cases persist) simp_all
qed

lemma repo_base: "is_rooted (GetS6RepositoryBaseDir persist)" "path_elems (GetS6RepositoryBaseDir persist) \<noteq> []"
  "filepath_Clean (GetS6RepositoryBaseDir persist) = GetS6RepositoryBaseDir persist"
  "1 < length (GetS6RepositoryBaseDir persist)" "GetS6RepositoryBaseDir persist ! 1 \<noteq> scan_dir ! 1"
  using repo_base_ok [of persist] unfolding repo_base_ok_def Let_def by blast+

lemma repo_plain:
  assumes "plain_name n"
  shows "ar_RepositoryDir (new_artifacts persist (S6BaseDir @ ''/'' @ n)) = GetS6RepositoryBaseDir persist @ ''/'' @ n"
  unfolding new_artifacts_def ServiceArtifacts.select_convs Base_plain [OF assms]
    Join_plain [OF repo_base(1,2) assms] repo_base(3) ..

lemma log_plain:
  assumes "plain_name n"
  shows "ar_LogDir (new_artifacts persist (S6BaseDir @ ''/'' @ n)) = S6LogBaseDir @ ''/'' @ n"
proof -
  have l: "is_rooted S6LogBaseDir" "path_elems S6LogBaseDir \<noteq> []" "filepath_Clean S6LogBaseDir = S6LogBaseDir" by code_simp+
  show ?thesis
    unfolding new_artifacts_def ServiceArtifacts.select_convs Base_plain [OF assms] Join_plain [OF l(1,2) assms] l(3) ..
qed

lemma below_nth: "below a p \<Longrightarrow> i < length a \<Longrightarrow> p ! i = a ! i"
  by (auto simp: below_def prefix_def nth_append)

lemma repo_outside: "\<not> below scan_dir (GetS6RepositoryBaseDir persist @ x)"
proof
  assume "below scan_dir (GetS6RepositoryBaseDir persist @ x)"
  moreover have "1 < length scan_dir" by code_simp
  ultimately have "(GetS6RepositoryBaseDir persist @ x) ! 1 = scan_dir ! 1" by (rule below_nth)
  then show False using repo_base(4,5) [of persist] unfolding nth_append by (simp only: if_True)
qed

lemma path_plain: "plain_name n \<Longrightarrow> below scan_dir (S6BaseDir @ ''/'' @ n) \<and> S6BaseDir @ ''/'' @ n \<noteq> scan_dir"
proof -
  have "scan_dir = S6BaseDir" by code_simp
  then show ?thesis by (simp add: below_def)
qed

section \<open>Properties\<close>



text \<open>
  Configuration files stay in their directory. The file of a relative name that passes the checks
  is written strictly below the configuration directory of the service; names with a parent reference
  are refused.
\<close>

theorem config_file_confined:
  assumes "is_rooted d" and "path_elems d \<noteq> []" and "\<not> filepath_IsAbs p"
  shows "config_name_error p = None \<longrightarrow> prefix (filepath_Clean d @ ''/'') (config_target d p)"
proof
  assume n: "config_name_error p = None"
  then have c: "\<not> str_contains p ''..''" "trim_space p \<noteq> []" "\<not> list_ex (EqualFold (filepath_Base p)) reservedNames"
    by (simp_all add: config_name_error_def split: if_splits)
  have "p \<noteq> []" using c(2) by (auto simp: trim_space_def)
  moreover have "filepath_Base p \<noteq> ''.''" using c(3) by (auto simp: reservedNames_def EqualFold_def)
  ultimately have "\<exists>e \<in> set (split_slash p). real_elem e" using assms(3) by (intro Base_real) (simp_all add: filepath_IsAbs_def)
  from Join_below [OF assms(1,2) c(1) this] show "prefix (filepath_Clean d @ ''/'') (config_target d p)"
    using assms(3) by (simp add: config_target_def)
qed

section \<open>Witnesses\<close>

definition quiet_ctx :: "FileService go_ctx" where
  "quiet_ctx = \<lparr>ctx_Err = (\<lambda>_. None), ctx_Until = (\<lambda>_. None)\<rparr>"

definition flow_config :: S6ServiceConfig where
  "flow_config = \<lparr>Env = None, ConfigFiles = None, Command = Some [''/bin/flow'', ''-c''], MemoryLimit = 0, LogFilesize = 0\<rparr>"

definition empty_world :: "FileService s6_world" where
  "empty_world = \<lparr>artifacts = None, configChangeTimestamps = Map.empty, disk = NewFileService [] 0 []\<rparr>"

definition flow_path :: string where "flow_path = S6BaseDir @ ''/'' @ ''flow''"

definition no_files :: map_order where "no_files m = []"

definition flow_created :: "(goerror + unit) \<times> FileService s6_world" where
  "flow_created = svc_Create quiet_ctx quiet_ctx DefaultFileService no_files False fv_now flow_path flow_config empty_world"

lemma flow_plain: "plain_name ''flow''"
  by code_simp

lemma flow_created_ok: "fst flow_created = Inr ()"
  by code_simp


definition left_world :: "FileService s6_world" where
  "left_world = empty_world\<lparr>disk := NewFileService [(flow_path, NLink ''/tmp/umh-core-services/flow''), (''/tmp/umh-core-services/flow'', NDir)] 0 []\<rparr>"


theorem config_file_confined_witness:
  "config_name_error ''sub/a.yaml'' = None \<and> prefix ''/data/x/config/'' (config_target ''/data/x/config'' ''sub/a.yaml'')"
proof -
  have "is_rooted ''/data/x/config''" "path_elems ''/data/x/config'' \<noteq> []" "\<not> filepath_IsAbs ''sub/a.yaml''"
    "filepath_Clean ''/data/x/config'' = ''/data/x/config''" and n: "config_name_error ''sub/a.yaml'' = None" by code_simp+
  from config_file_confined [OF this(1-3)] this(4) n show ?thesis by (metis append_Cons append_Nil)
qed

end
