(* ===== verification/S6_Removal.thy ===== *)
theory S6_Removal
  imports S6_Lifecycle
begin

text \<open>
  The removal of a service across retries: the recorded progress, the order of the programs that are
  run, and what is left behind.
\<close>

section \<open>The order of the removal\<close>

text \<open>
  Whatever a service object has been through, a removal under way has its steps done in order, and
  the last one is never on record: it ends the tracking.
\<close>

definition progress_ok :: "'s s6_world \<Rightarrow> bool" where
  "progress_ok w \<longleftrightarrow> (\<forall>a p. artifacts w = Some a \<longrightarrow> ar_RemovalProgress a = Some p \<longrightarrow>
     (ServiceUnsupervised p \<longrightarrow> ServiceStopped p) \<and> \<not> DirectoriesRemoved p \<and> \<not> SymlinkRemoved p)"

inductive svc_reach :: "'s fsys \<Rightarrow> 's s6_world \<Rightarrow> bool" for fs where
  svc_new: "artifacts w = None \<Longrightarrow> svc_reach fs w"
| svc_create: "svc_reach fs w \<Longrightarrow> svc_Create ctx chunk fs order persist now path config w = (r, w') \<Longrightarrow> svc_reach fs w'"
| svc_remove: "svc_reach fs w \<Longrightarrow> svc_Remove ctx fs persist path w = (r, w') \<Longrightarrow> svc_reach fs w'"
| svc_force: "svc_reach fs w \<Longrightarrow> svc_ForceRemove ctx chunk fs persist path w = (r, w') \<Longrightarrow> svc_reach fs w'"
| svc_other: "svc_reach fs w \<Longrightarrow> svc_reach fs (w\<lparr>disk := s\<rparr>)"

lemma removal_step_cases:
  assumes "removal_step d f work w = (r, w')"
  shows "removal_flag d w \<and> r = Inr () \<and> w' = w
     \<or> \<not> removal_flag d w \<and> (\<exists>e t. work (disk w) = (Inl e, t) \<and> r = Inl e \<and> w' = w\<lparr>disk := t\<rparr>)
     \<or> \<not> removal_flag d w \<and> (\<exists>t. work (disk w) = (Inr (), t) \<and> (r, w') = mark f (w\<lparr>disk := t\<rparr>))"
  using assms by (auto simp: removal_step_def call_def on_disk_def split: if_splits prod.splits sum.splits)

definition all_flag :: "(RemovalProgress \<Rightarrow> bool) \<Rightarrow> 's s6_world \<Rightarrow> bool" where
  "all_flag d w \<longleftrightarrow> (\<forall>a p. artifacts w = Some a \<longrightarrow> ar_RemovalProgress a = Some p \<longrightarrow> d p)"

lemma flag_all: "removal_flag d w \<Longrightarrow> all_flag d w"
  by (auto simp: removal_flag_def all_flag_def split: option.splits)

lemma triple_removal_step:
  assumes "\<And>w. P w \<Longrightarrow> all_flag d w \<Longrightarrow> Q w" and "\<And>w s. P w \<Longrightarrow> P (w\<lparr>disk := s\<rparr>)"
    and "\<And>w. P w \<Longrightarrow> Q (snd (mark f w))"
  shows "triple P (removal_step d f work) (\<lambda>_. Q) P"
proof (rule tripleI)
  fix s x t assume "P s" and "removal_step d f work s = (Inr x, t)"
  then show "Q t" using assms(1) [OF _ flag_all] assms(3) [OF assms(2)] by (auto dest!: removal_step_cases) (metis snd_conv)
next
  fix s e t assume "P s" and "removal_step d f work s = (Inl e, t)"
  then show "P t" using assms(2) by (auto dest!: removal_step_cases simp: mark_def)
qed

lemma removal_error_progress:
  assumes "removal_sequence ctx fs a w = (Inl e, w')" and "progress_ok w"
  shows "progress_ok w'"
proof -
  let ?P2 = "\<lambda>w :: 'a s6_world. progress_ok w \<and> all_flag ServiceStopped w"
  have "triple progress_ok (removal_sequence ctx fs a) (\<lambda>_ _. True) progress_ok"
    unfolding removal_sequence_def
  proof (rule triple_call [where Q = "\<lambda>_. ?P2"], goal_cases)
    case 1
    show ?case by (rule triple_removal_step) (auto simp: progress_ok_def all_flag_def mark_def)
  next
    case (2 x)
    show ?case
    proof (rule triple_call [where Q = "\<lambda>_. progress_ok"], goal_cases)
      case 1
      have "triple ?P2 (removal_step ServiceUnsupervised (\<lambda>p. p\<lparr>ServiceUnsupervised := True\<rparr>) (unsupervise_work ctx fs a)) (\<lambda>_. progress_ok) ?P2"
        by (rule triple_removal_step) (auto simp: progress_ok_def all_flag_def mark_def)
      then show ?case by (rule triple_weaken) auto
    next
      case (2 x)
      show ?case by (rule triple_removal_step) (auto simp: progress_ok_def)
    qed
  qed
  from triple_err [OF this assms] show ?thesis .
qed

lemma RemoveArtifacts_progress:
  assumes "RemoveArtifacts ctx fs w = (Inl e, w')" and "progress_ok w"
  shows "progress_ok w'"
proof -
  have init: "progress_ok (w\<lparr>artifacts := Some (InitRemovalProgress a)\<rparr>)" if "artifacts w = Some a" for a
    using assms(2) that by (auto simp: progress_ok_def InitRemovalProgress_def no_progress_def)
  from assms show ?thesis
    unfolding RemoveArtifacts_def
    by (auto simp: call_def on_disk_def check_ctx_def Let_def progress_ok_def [of "_\<lparr>disk := _\<rparr>"] dest: removal_error_progress [OF _ init]
        split: option.splits if_splits prod.splits sum.splits)
qed

lemma create_fresh_progress:
  assumes "create_fresh ctx fs order persist now path config w = (r, w')" and "progress_ok w"
  shows "progress_ok w'"
proof -
  have "ar_RemovalProgress a = None" if "build_artifacts ctx fs order persist path config s = (Inr a, t)" for a s t
    using that by (auto simp: build_artifacts_def Let_def ok_simps new_artifacts_def)
  with assms show ?thesis
    by (auto simp: create_fresh_def CreateArtifacts_def call_def on_disk_def store_def progress_ok_def split: prod.splits sum.splits)
qed

lemma on_disk_progress: "keeps progress_ok (on_disk m)"
  by (rule keepsI) (auto simp: on_disk_def progress_ok_def split: prod.splits)

lemma recreate_progress:
  assumes "triple progress_ok rm (\<lambda>_ _. True) progress_ok"
  shows "keeps progress_ok (recreate ctx fs order persist now path config rm)"
proof -
  have "triple (\<lambda>_. True) (store None) (\<lambda>_. progress_ok) progress_ok"
    by (rule tripleI) (auto simp: store_def progress_ok_def)
  moreover have "keeps progress_ok (create_fresh ctx fs order persist now path config)"
    by (rule keepsI) (rule create_fresh_progress)
  ultimately show ?thesis
    unfolding recreate_def keeps_def by (blast intro: triple_call [OF assms] triple_call)
qed

lemma create_tracked_progress: "keeps progress_ok (create_tracked ctx chunk fs order persist now path config current)"
proof (rule keepsI)
  fix w r w' assume p: "progress_ok w" and run: "create_tracked ctx chunk fs order persist now path config current w = (r, w')"
  let ?again = "recreate ctx fs order persist now path config"
  let ?new = "call (on_disk (wrapped ''failed to get current config: '' (svc_GetConfig fs path))) (\<lambda>currentConfig.
      if S6ServiceConfig_Equal currentConfig config then ret ()
      else ?again (wrapped ''failed to remove service for recreation: '' (RemoveArtifacts ctx fs)))"
  let ?bad = "?again (on_disk (wrapped ''failed to remove unhealthy service: '' (ForceCleanup ctx chunk fs current)))"
  obtain h err s where c: "CheckArtifactsHealth ctx fs (Some current) (disk w) = ((h, err), s)" by (metis prod.exhaust)
  have w1: "progress_ok (w\<lparr>disk := s\<rparr>)" using p by (simp add: progress_ok_def)
  have rm: "triple progress_ok (RemoveArtifacts ctx fs) (\<lambda>_ _. True) progress_ok"
    by (rule tripleI) (auto dest: RemoveArtifacts_progress)
  have new: "keeps progress_ok ?new"
    by (intro keeps_rules on_disk_progress recreate_progress triple_wrapped rm)
  have bad: "keeps progress_ok ?bad"
    by (rule recreate_progress, rule triple_weaken [OF on_disk_progress [unfolded keeps_def]]) auto
  from run c have "w' = w\<lparr>disk := s\<rparr> \<or> ?bad (w\<lparr>disk := s\<rparr>) = (r, w') \<or> ?new (w\<lparr>disk := s\<rparr>) = (r, w')"
    by (auto simp: create_tracked_def Let_def split: if_splits)
  with w1 keepsD [OF new] keepsD [OF bad] show "progress_ok w'" by blast
qed

lemma Create_progress: "keeps progress_ok (svc_Create ctx chunk fs order persist now path config)"
proof -
  let ?fresh = "create_fresh ctx fs order persist now path config"
  let ?rest = "\<lambda>b w. if \<not> b then ?fresh w
         else (case artifacts w of
           None \<Rightarrow> call (on_disk (wrapped ''failed to remove orphaned service directory: '' (op_RemoveAll fs path))) (\<lambda>_. ?fresh) w
         | Some current \<Rightarrow> create_tracked ctx chunk fs order persist now path config current w)"
  have fresh: "keeps progress_ok ?fresh" by (rule keepsI) (rule create_fresh_progress)
  have orphan: "keeps progress_ok (call (on_disk m) (\<lambda>_. ?fresh))" for m :: "('a, 'b) act" by (intro keeps_rules on_disk_progress fresh)
  have "keeps progress_ok (?rest b)" for b
    by (rule keepsI) (use keepsD [OF fresh] keepsD [OF orphan] keepsD [OF create_tracked_progress] in \<open>auto split: if_splits option.splits\<close>)
  then show ?thesis unfolding svc_Create_def Let_def by (intro keeps_call on_disk_progress)
qed

lemma Remove_progress: "keeps progress_ok (svc_Remove ctx fs persist path)"
proof -
  have rm: "triple progress_ok (RemoveArtifacts ctx fs) (\<lambda>_ _. True) progress_ok"
    by (rule tripleI) (auto dest: RemoveArtifacts_progress)
  have tr: "keeps progress_ok (call (RemoveArtifacts ctx fs) (\<lambda>_. store None))"
    unfolding keeps_def by (rule triple_call [OF rm], rule tripleI) (auto simp: store_def progress_ok_def)
  have "keeps progress_ok (\<lambda>w. if b w then call (RemoveArtifacts ctx fs) (\<lambda>_. store None) w else on_disk m w)" for b and m :: "('a, unit) act"
    by (rule keepsI) (use keepsD [OF tr] keepsD [OF on_disk_progress] in \<open>auto split: if_splits\<close>)
  then show ?thesis unfolding svc_Remove_def by (intro keeps_call on_disk_progress)
qed

lemma ForceRemove_progress: "keeps progress_ok (svc_ForceRemove ctx chunk fs persist path)"
proof -
  have "keeps progress_ok (store None)" by (rule keepsI) (auto simp: store_def progress_ok_def)
  then show ?thesis unfolding svc_ForceRemove_def by (intro keeps_call on_disk_progress)
qed

lemma svc_reach_progress: "svc_reach fs w \<Longrightarrow> progress_ok w"
proof (induction rule: svc_reach.induct)
  case (svc_new w)
  then show ?case by (simp add: progress_ok_def)
next
  case (svc_other w s)
  then show ?case by (simp add: progress_ok_def)
next
  case svc_create
  then show ?case by (blast dest: keepsD [OF Create_progress])
next
  case svc_remove
  then show ?case by (blast dest: keepsD [OF Remove_progress])
next
  case svc_force
  then show ?case by (blast dest: keepsD [OF ForceRemove_progress])
qed

section \<open>The commands of a removal\<close>

text \<open>\<open>calls\<close> are the programs run so far; only running a program adds to them.\<close>

locale command_log =
  fixes fs :: "'s fsys" and calls :: "'s \<Rightarrow> (string \<times> string list) list"
  assumes log_exists: "op_PathExists fs p s = (rb, t) \<Longrightarrow> calls t = calls s"
    and log_read_dir: "op_ReadDir fs p s = (rd, t) \<Longrightarrow> calls t = calls s"
    and log_remove_all: "op_RemoveAll fs p s = (ru, t) \<Longrightarrow> calls t = calls s"
    and log_execute: "op_ExecuteCommand fs name args s = (rs, t) \<Longrightarrow> calls t = calls s \<or> calls t = calls s @ [(name, args)]"
begin

definition logged :: "(string \<times> string list) list \<Rightarrow> string set \<Rightarrow> 's \<Rightarrow> bool" where
  "logged c N s \<longleftrightarrow> (\<exists>zs. calls s = c @ zs \<and> fst ` set zs \<subseteq> N)"

lemma logged_exists: "keeps (logged c N) (op_PathExists fs p)"
  by (rule keepsI) (auto simp: logged_def dest: log_exists)

lemma logged_remove_all: "keeps (logged c N) (op_RemoveAll fs p)"
  by (rule keepsI) (auto simp: logged_def dest: log_remove_all)

lemma logged_read_dir: "keeps (logged c N) (op_ReadDir fs p)"
  by (rule keepsI) (auto simp: logged_def dest: log_read_dir)

lemma logged_execute:
  assumes "name \<in> N"
  shows "keeps (logged c N) (op_ExecuteCommand fs name args)"
proof (rule keepsI)
  fix s r t assume l: "logged c N s" and e: "op_ExecuteCommand fs name args s = (r, t)"
  from l obtain zs where zs: "calls s = c @ zs" "fst ` set zs \<subseteq> N" by (auto simp: logged_def)
  from log_execute [OF e] show "logged c N t"
  proof
    assume "calls t = calls s"
    with zs show ?thesis by (auto simp: logged_def)
  next
    assume "calls t = calls s @ [(name, args)]"
    with zs assms show ?thesis unfolding logged_def by (intro exI [of _ "zs @ [(name, args)]"]) auto
  qed
qed

lemma logged_command:
  assumes "name \<in> N" and "ExecuteS6Command fs p name args s = (r, t)" and "logged c N s"
  shows "logged c N t"
proof -
  obtain x where "op_ExecuteCommand fs name args s = (x, t)"
    using assms(2) by (auto simp: ExecuteS6Command_def split: prod.splits sum.splits option.splits if_splits)
  from keepsD [OF logged_execute [OF assms(1)] this assms(3)] show ?thesis .
qed

lemma logged_probe: "keeps (logged c N) (probe fs p)"
  unfolding probe_def by (intro keeps_rules logged_exists)

lemma logged_stop: "keeps (logged c {''s6-svc''}) (stop_work ctx fs a)"
proof -
  have one: "logged c {''s6-svc''} t" if "stop_one ctx fs p e s = (r, t)" "logged c {''s6-svc''} s" for p e r s t
    using that keepsD [OF logged_exists] logged_command [of "''s6-svc''" "{''s6-svc''}"]
    by (fastforce simp: stop_one_def split: prod.splits sum.splits bool.splits)
  have "keeps (logged c {''s6-svc''}) (stopServiceCleanly ctx fs p)" for p
    by (rule keepsI) (auto simp: stopServiceCleanly_def dest: one split: prod.splits option.splits)
  then show ?thesis unfolding stop_work_def by (intro keeps_rules logged_probe)
qed

lemma logged_unsupervise: "keeps (logged c {''s6-svunlink'', ''flock''}) (unsupervise_work ctx fs a)"
proof -
  let ?N = "{''s6-svunlink'', ''flock''}"
  have tail: "keeps (logged c ?N) (case r of Inl _ \<Rightarrow> fail e | Inr _ \<Rightarrow> ret ())" for r :: "goerror + string" and e
    by (cases r) (auto intro: keeps_rules)
  have "keeps (logged c ?N) (checkSingleSupervisionEnded fs p)" for p
    unfolding checkSingleSupervisionEnded_def Let_def by (intro keeps_rules logged_exists logged_execute tail) simp
  moreover have "keeps (logged c ?N) (\<lambda>s. ExecuteS6Command fs p ''s6-svunlink'' (args s) s)" for p args
    by (rule keepsI) (use logged_command [of "''s6-svunlink''" ?N] in blast)
  ultimately show ?thesis
    unfolding unsupervise_work_def unsuperviseService_def verifySupervisionEnded_def by (intro keeps_rules logged_probe)
qed

lemma logged_directories: "keeps (logged c {}) (directory_work fs a)"
  unfolding directory_work_def remove_if_exists_def remove_logged_def logDirectoryContentsIfNotEmpty_def
  by (intro keeps_rules logged_probe logged_remove_all logged_read_dir)

text \<open>First the services are stopped, then they are unsupervised; a retry never goes back.\<close>

definition in_order :: "(string \<times> string list) list \<Rightarrow> 's s6_world \<Rightarrow> bool" where
  "in_order c w \<longleftrightarrow> (\<exists>xs ys. calls (disk w) = c @ xs @ ys \<and> fst ` set xs \<subseteq> {''s6-svc''} \<and> fst ` set ys \<subseteq> {''s6-svunlink'', ''flock''}
     \<and> (ys \<noteq> [] \<longrightarrow> artifacts w = None \<or> removal_flag ServiceStopped w))"

lemma order_stop:
  assumes "removal_step ServiceStopped (\<lambda>p. p\<lparr>ServiceStopped := True\<rparr>) (stop_work ctx fs a) w = (r, w')"
    and "in_order c w" and "artifacts w = Some b" "ar_RemovalProgress b = Some p"
  shows "in_order c w' \<and> (\<exists>b p. artifacts w' = Some b \<and> ar_RemovalProgress b = Some p \<and> (r = Inr () \<longrightarrow> ServiceStopped p))"
proof (cases "removal_flag ServiceStopped w")
  case True
  with removal_step_cases [OF assms(1)] assms(2-4) show ?thesis by (auto simp: removal_flag_def)
next
  case False
  from assms(2,3) False obtain xs where xs: "calls (disk w) = c @ xs" "fst ` set xs \<subseteq> {''s6-svc''}" by (auto simp: in_order_def)
  obtain x t where t: "stop_work ctx fs a (disk w) = (x, t)" by fastforce
  from xs have "logged c {''s6-svc''} (disk w)" by (auto simp: logged_def)
  from keepsD [OF logged_stop t, OF this] obtain zs where "calls t = c @ zs" "fst ` set zs \<subseteq> {''s6-svc''}" by (auto simp: logged_def)
  then have o: "in_order c v" if "disk v = t" for v using that unfolding in_order_def by (intro exI [of _ zs] exI [of _ "[]"]) simp
  from removal_step_cases [OF assms(1)] False t assms(3,4) show ?thesis by (auto simp: mark_def intro: o)
qed

lemma order_unsupervise:
  assumes "removal_step ServiceUnsupervised (\<lambda>p. p\<lparr>ServiceUnsupervised := True\<rparr>) (unsupervise_work ctx fs a) w = (r, w')"
    and "in_order c w" and "artifacts w = Some b" "ar_RemovalProgress b = Some p" "ServiceStopped p"
  shows "in_order c w' \<and> (\<exists>b p. artifacts w' = Some b \<and> ar_RemovalProgress b = Some p \<and> ServiceStopped p)"
proof -
  from assms(2) obtain xs ys where xs: "calls (disk w) = (c @ xs) @ ys" "fst ` set xs \<subseteq> {''s6-svc''}" "fst ` set ys \<subseteq> {''s6-svunlink'', ''flock''}"
    by (auto simp: in_order_def)
  obtain x t where t: "unsupervise_work ctx fs a (disk w) = (x, t)" by fastforce
  from xs have "logged (c @ xs) {''s6-svunlink'', ''flock''} (disk w)" by (auto simp: logged_def)
  from keepsD [OF logged_unsupervise t, OF this] obtain zs where "calls t = c @ xs @ zs" "fst ` set zs \<subseteq> {''s6-svunlink'', ''flock''}"
    by (auto simp: logged_def)
  with xs(2) have o: "in_order c v" if "disk v = t" "removal_flag ServiceStopped v" for v using that unfolding in_order_def by blast
  from removal_step_cases [OF assms(1)] assms(2-5) t show ?thesis by (auto simp: mark_def removal_flag_def intro: o)
qed

lemma order_directories:
  assumes "removal_step DirectoriesRemoved f (directory_work fs a) w = (r, w')" and f: "\<And>p. ServiceStopped (f p) = ServiceStopped p"
    and "in_order c w" and "artifacts w = Some b" "ar_RemovalProgress b = Some p" "ServiceStopped p"
  shows "in_order c w'"
proof -
  obtain x t where t: "directory_work fs a (disk w) = (x, t)" by fastforce
  have "logged (calls (disk w)) {} (disk w)" by (simp add: logged_def)
  from keepsD [OF logged_directories t, OF this] have "calls t = calls (disk w)" by (auto simp: logged_def)
  with assms(3) have o: "in_order c v" if "disk v = t" "removal_flag ServiceStopped v" for v using that unfolding in_order_def by auto
  from removal_step_cases [OF assms(1)] assms(3-6) t show ?thesis by (auto simp: mark_def removal_flag_def f intro: o)
qed

lemma order_sequence:
  assumes "removal_sequence ctx fs a w = (r, w')" and "in_order c w" and "artifacts w = Some b" "ar_RemovalProgress b = Some p"
  shows "in_order c w'"
proof -
  obtain r1 w1 where 1: "removal_step ServiceStopped (\<lambda>p. p\<lparr>ServiceStopped := True\<rparr>) (stop_work ctx fs a) w = (r1, w1)" by fastforce
  from order_stop [OF 1 assms(2-4)] obtain b1 p1 where i1: "in_order c w1" "artifacts w1 = Some b1" "ar_RemovalProgress b1 = Some p1"
    "r1 = Inr () \<longrightarrow> ServiceStopped p1" by blast
  obtain r2 w2 where 2: "removal_step ServiceUnsupervised (\<lambda>p. p\<lparr>ServiceUnsupervised := True\<rparr>) (unsupervise_work ctx fs a) w1 = (r2, w2)" by fastforce
  show ?thesis
  proof (cases "r1 = Inr ()")
    case True
    with order_unsupervise [OF 2 i1(1-3)] i1(4) obtain b2 p2 where i2: "in_order c w2" "artifacts w2 = Some b2" "ar_RemovalProgress b2 = Some p2"
      "ServiceStopped p2" by blast
    show ?thesis
    proof (cases "r2 = Inr ()")
      case r2: True
      with assms(1) True 1 2 have "removal_step DirectoriesRemoved (\<lambda>p. p\<lparr>DirectoriesRemoved := True, SymlinkRemoved := True\<rparr>) (directory_work fs a) w2 = (r, w')"
        by (simp add: removal_sequence_def call_def)
      from order_directories [OF this _ i2] show ?thesis by simp
    next
      case False
      with assms(1) True 1 2 i2 show ?thesis by (auto simp: removal_sequence_def call_def split: sum.splits)
    qed
  next
    case False
    with assms(1) 1 i1 show ?thesis by (auto simp: removal_sequence_def call_def split: sum.splits)
  qed
qed

lemma order_drop: "in_order c w \<Longrightarrow> in_order c (w\<lparr>artifacts := None\<rparr>)"
  unfolding in_order_def by simp blast

lemma order_Remove: "keeps (in_order c) (svc_Remove ctx fs persist path)"
proof (rule keepsI)
  fix w r w' assume i: "in_order c w" and run: "svc_Remove ctx fs persist path w = (r, w')"
  have same: "in_order c v" if "artifacts v = artifacts w" "calls (disk v) = calls (disk w)" for v
    using that i by (auto simp: in_order_def removal_flag_def)
  consider "ctx_Err ctx (disk w) \<noteq> None" | "ctx_Err ctx (disk w) = None" "\<exists>a. artifacts w = Some a \<and> ar_CreatedFiles a \<noteq> []"
    | "ctx_Err ctx (disk w) = None" "\<not> (\<exists>a. artifacts w = Some a \<and> ar_CreatedFiles a \<noteq> [])" by blast
  then show "in_order c w'"
  proof cases
    case 1
    with run i show ?thesis by (auto simp: svc_Remove_def call_def on_disk_def check_ctx_def)
  next
    case 2
    then obtain a where a: "artifacts w = Some a" "ar_CreatedFiles a \<noteq> []" by blast
    let ?a = "InitRemovalProgress a"
    let ?v = "w\<lparr>artifacts := Some ?a\<rparr>"
    obtain p where p: "ar_RemovalProgress ?a = Some p" by (cases "ar_RemovalProgress a") (auto simp: InitRemovalProgress_def)
    have v: "in_order c ?v"
    proof -
      from i obtain xs ys where xs: "calls (disk w) = c @ xs @ ys" "fst ` set xs \<subseteq> {''s6-svc''}" "fst ` set ys \<subseteq> {''s6-svunlink'', ''flock''}"
        "ys \<noteq> [] \<longrightarrow> artifacts w = None \<or> removal_flag ServiceStopped w" unfolding in_order_def by blast
      have "ys \<noteq> [] \<longrightarrow> artifacts ?v = None \<or> removal_flag ServiceStopped ?v"
        using xs(4) a by (auto simp: removal_flag_def InitRemovalProgress_def split: option.splits)
      with xs show ?thesis unfolding in_order_def by (intro exI [of _ xs] exI [of _ ys]) simp
    qed
    obtain r1 w1 where r1: "RemoveArtifacts ctx fs w = (r1, w1)" by fastforce
    have "in_order c w1"
      using r1 2(1) a order_sequence [OF _ v, of _ _ _ w1 ?a p] p v
      by (auto simp: RemoveArtifacts_def call_def on_disk_def check_ctx_def Let_def split: if_splits)
    moreover have "w' = w1 \<or> w' = w1\<lparr>artifacts := None\<rparr>"
      using run 2(1) a r1 by (auto simp: svc_Remove_def call_def on_disk_def check_ctx_def store_def split: sum.splits)
    ultimately show ?thesis using order_drop by blast
  next
    case 3
    then have "artifacts w' = artifacts w \<and> logged (calls (disk w)) {} (disk w')"
    proof -
      let ?m = "call (wrapped ''failed to probe service path during no-tracking remove: '' (op_PathExists fs path)) (\<lambda>serviceExists.
          call (wrapped ''failed to probe repository path during no-tracking remove: ''
                 (op_PathExists fs (ar_RepositoryDir (new_artifacts persist path)))) (\<lambda>repoExists.
          call (wrapped ''failed to probe log path during no-tracking remove: ''
                 (op_PathExists fs (ar_LogDir (new_artifacts persist path)))) (\<lambda>logExists.
          if serviceExists \<or> repoExists \<or> logExists then fail (untracked (filepath_Base path))
          else fail ErrServiceNotExist)))"
      have "on_disk ?m w = (r, w')" using run 3 by (auto simp: svc_Remove_def call_def on_disk_def check_ctx_def split: option.splits)
      moreover have "keeps (logged d {}) ?m" for d by (intro keeps_rules logged_exists)
      ultimately show ?thesis using keepsD [of "logged (calls (disk w)) {}" ?m] by (auto dest!: on_disk_frame simp: logged_def)
    qed
    with same show ?thesis by (auto simp: logged_def)
  qed
qed

end

section \<open>The file system service\<close>

lemma context_calls:
  assumes "with_context wrap body s = (r, t)" and "\<And>f s1 r t. body f s1 = (r, t) \<Longrightarrow> fv_calls t = fv_calls s1 \<or> fv_calls t = fv_calls s1 @ xs"
  shows "fv_calls t = fv_calls s \<or> fv_calls t = fv_calls s @ xs"
proof -
  obtain f s1 where n: "next_fate s = (f, s1)" by fastforce
  then have "fv_calls s1 = fv_calls s" by (auto simp: next_fate_def split: list.splits)
  with assms(1) assms(2) [of f s1 r t] n show ?thesis by (cases "ft_ctx f") (auto simp: with_context_def)
qed

lemma invalidate_calls [simp]: "fv_calls (invalidatePathCache p s) = fv_calls s"
  by (simp add: invalidatePathCache_def Let_def)

interpretation log_dfs: command_log DefaultFileService fv_calls
proof (unfold_locales, unfold DefaultFileService_def fsys.select_convs, goal_cases)
  case (1 p s rb t)
  then show ?case unfolding PathExists_def
    by (drule_tac xs = "[]" in context_calls) (auto simp: pathExistsUncached_def Let_def split: option.splits if_splits bool.splits)
next
  case (2 p s rd t)
  then show ?case unfolding ReadDir_def
    by (drule_tac xs = "[]" in context_calls) (auto simp: readDirUncached_def Let_def split: option.splits if_splits prod.splits sum.splits)
next
  case (3 p s ru t)
  then show ?case unfolding RemoveAll_def
    by (drule_tac xs = "[]" in context_calls) (auto simp: Let_def split: option.splits)
next
  case (4 name args s rs t)
  then show ?case unfolding ExecuteCommand_def
    by (rule context_calls) (auto simp: Let_def split: option.splits if_splits)
qed

text \<open>The next \<open>n\<close> calls fail, and nothing is cached.\<close>

definition blind :: "nat \<Rightarrow> FileService \<Rightarrow> FileService \<Rightarrow> bool" where
  "blind n s0 s \<longleftrightarrow> fv_pathCache s = [] \<and> fv_tree s = fv_tree s0 \<and> fv_calls s = fv_calls s0 \<and> n \<le> length (fv_fates s)
     \<and> (\<forall>f \<in> set (take n (fv_fates s)). ft_ctx f = None \<and> ft_cancel f = None \<and> ft_os f \<noteq> None)"

lemma blind_probe: "triple (blind (Suc n) s0) (probe DefaultFileService p) (\<lambda>b s. \<not> b \<and> blind n s0 s) (\<lambda>_. False)"
  unfolding triple_def
proof (intro allI impI)
  fix s assume b: "blind (Suc n) s0 s"
  then obtain f fates e where f: "fv_fates s = f # fates" "ft_ctx f = None" "ft_cancel f = None" "ft_os f = Some e"
    by (cases "fv_fates s") (auto simp: blind_def)
  with b have "probe DefaultFileService p s = (Inr False, s\<lparr>fv_now := fv_now s + int (ft_dt f), fv_fates := fates\<rparr>)"
    by (simp add: blind_def probe_def call_def attempt_def ret_def DefaultFileService_def PathExists_def with_context_def next_fate_def
        pathExistsUncached_def Let_def)
  with b f show "case probe DefaultFileService p s of (Inl e, t) \<Rightarrow> False | (Inr x, t) \<Rightarrow> \<not> x \<and> blind n s0 t"
    by (auto simp: blind_def)
qed

lemma blind_skip:
  "triple (blind (Suc n) s0) (call (probe DefaultFileService p) (\<lambda>b. if b then m else ret ())) (\<lambda>_. blind n s0) (\<lambda>_. False)"
  by (rule triple_call [OF blind_probe], rule triple_pure) (auto intro: triple_ret)

lemma blind_directories: "triple (blind 3 s0) (directory_work DefaultFileService a) (\<lambda>_. blind 0 s0) (\<lambda>_. False)"
  unfolding directory_work_def remove_if_exists_def remove_logged_def numeral_3_eq_3
  by (rule triple_call [OF blind_skip], rule triple_call [OF blind_skip], rule blind_skip)

section \<open>Properties\<close>



text \<open>
  A removal that reports success although nothing was removed. \<^verbatim>\<open>RemoveArtifacts\<close> takes a failed
  existence check for the answer that the path does not exist. When the checks fail during one call,
  \<^verbatim>\<open>Remove\<close> returns nil and drops its tracking while every file is still there, against its comment
  that it returns nil only when nothing is left.
\<close>

theorem remove_drops_tracking:
  assumes "artifacts w = Some a" and "ar_CreatedFiles a \<noteq> []" and "ar_RemovalProgress a = None" and "ctx_Err ctx (disk w) = None"
    and "fv_pathCache (disk w) = []" and "5 \<le> length (fv_fates (disk w))"
    and "\<forall>f \<in> set (take 5 (fv_fates (disk w))). ft_ctx f = None \<and> ft_cancel f = None \<and> ft_os f \<noteq> None"
  shows "\<exists>w'. svc_Remove ctx DefaultFileService persist path w = (Inr (), w') \<and> artifacts w' = None
     \<and> fv_tree (disk w') = fv_tree (disk w) \<and> fv_calls (disk w') = fv_calls (disk w)"
proof -
  let ?a = "InitRemovalProgress a"
  have 5: "blind (Suc (Suc 3)) (disk w) (disk w)" using assms(5-7) by (simp add: blind_def)
  obtain t1 where t1: "stop_work ctx DefaultFileService ?a (disk w) = (Inr (), t1)" "blind (Suc 3) (disk w) t1"
    using calm_dfs.sure_run [OF blind_skip 5] unfolding stop_work_def by auto
  obtain t2 where t2: "unsupervise_work ctx DefaultFileService ?a t1 = (Inr (), t2)" "blind 3 (disk w) t2"
    using calm_dfs.sure_run [OF blind_skip t1(2)] unfolding unsupervise_work_def by auto
  obtain t3 where t3: "directory_work DefaultFileService ?a t2 = (Inr (), t3)" "blind 0 (disk w) t3"
    using calm_dfs.sure_run [OF blind_directories t2(2)] by auto
  have "\<exists>w'. RemoveArtifacts ctx DefaultFileService w = (Inr (), w') \<and> disk w' = t3"
    using assms(1,3,4) t1(1) t2(1) t3(1)
    by (simp add: RemoveArtifacts_def on_disk_def check_ctx_def call_def Let_def IsFullyRemoved_def removal_sequence_def removal_step_def
        removal_flag_def mark_def InitRemovalProgress_def no_progress_def)
  then show ?thesis
    using assms(1,2,4) t3(2) by (auto simp: svc_Remove_def on_disk_def check_ctx_def call_def store_def blind_def)
qed

section \<open>Witnesses\<close>

definition flow_artifacts :: ServiceArtifacts where
  "flow_artifacts = (new_artifacts False flow_path)\<lparr>ar_CreatedFiles := [''/tmp/umh-core-services/flow/run'']\<rparr>"


theorem remove_drops_tracking_witness:
  "\<exists>w w'. fs_present (disk w) flow_path \<and> svc_Remove quiet_ctx DefaultFileService False flow_path w = (Inr (), w')
     \<and> artifacts w' = None \<and> fs_present (disk w') flow_path"
proof -
  let ?bad = "fine\<lparr>ft_os := Some ctx_canceled\<rparr>"
  let ?w = "left_world\<lparr>artifacts := Some flow_artifacts, disk := (disk left_world)\<lparr>fv_fates := replicate 5 ?bad\<rparr>\<rparr>"
  have "\<exists>w'. svc_Remove quiet_ctx DefaultFileService False flow_path ?w = (Inr (), w') \<and> artifacts w' = None
     \<and> fv_tree (disk w') = fv_tree (disk ?w) \<and> fv_calls (disk w') = fv_calls (disk ?w)"
    by (rule remove_drops_tracking [of ?w flow_artifacts])
      (simp_all add: left_world_def NewFileService_def flow_artifacts_def new_artifacts_def quiet_ctx_def fine_def)
  moreover have "fs_present (disk ?w) flow_path" by code_simp
  ultimately show ?thesis unfolding fs_present_def by metis
qed

end
