(* ===== verification/Port_Manager.thy ===== *)
theory Port_Manager
  imports UMH_Prelude
begin

text \<open>
  The port manager that hands a TCP port of a fixed range to every service instance:
  \<^verbatim>\<open>umh-core/pkg/portmanager/portmanager.go\<close>. The manager's mutex makes each exported
  operation one atomic step, so a concurrent execution is a sequence of such steps; only
  \<^verbatim>\<open>PreReconcile\<close> releases the lock between its steps and re-checks inside
  \<^verbatim>\<open>AllocatePort\<close>. What the surroundings decide (the context's error, the random draw, whether
  binding succeeds) is an argument of each attempt.
\<close>

section \<open>State\<close>

record DefaultPortManager =
  instanceToPorts :: "string \<rightharpoonup> u16"
  portToInstances :: "u16 \<rightharpoonup> string"
  allocatedPorts :: "u16 \<rightharpoonup> bool"
  minPort :: u16
  maxPort :: u16

definition getServicePortRange :: "u16 \<times> u16" where
  "getServicePortRange = (20000, 32767)"

definition newDefaultPortManager :: DefaultPortManager where
  "newDefaultPortManager =
     (let (lo, hi) = getServicePortRange
      in \<lparr>instanceToPorts = Map.empty, portToInstances = Map.empty, allocatedPorts = Map.empty,
          minPort = lo, maxPort = hi\<rparr>)"

section \<open>Operations\<close>

text \<open>One pass of the retry loop: the context's error, the random draw, the bind error.\<close>

record port_attempt =
  at_ctx_err :: "goerror option"
  at_rand :: nat
  at_listen_err :: "goerror option"

text \<open>\<^verbatim>\<open>rand.IntN(n)\<close> gives some value below n; it panics for n = 0, which the fixed range excludes.\<close>

definition rand_IntN :: "nat \<Rightarrow> nat \<Rightarrow> nat" where
  "rand_IntN draw n = draw mod n"

definition candidate_port :: "port_attempt \<Rightarrow> DefaultPortManager \<Rightarrow> u16" where
  "candidate_port a pm =
     (let portRange = maxPort pm - minPort pm + 1
      in minPort pm + of_nat (rand_IntN (at_rand a) (unat portRange)))"

definition store_port :: "string \<Rightarrow> u16 \<Rightarrow> DefaultPortManager \<Rightarrow> DefaultPortManager" where
  "store_port name p pm =
     pm\<lparr>instanceToPorts := (instanceToPorts pm)(name \<mapsto> p),
        portToInstances := (portToInstances pm)(p \<mapsto> name),
        allocatedPorts := (allocatedPorts pm)(p \<mapsto> True)\<rparr>"

definition maxRetries :: nat where
  "maxRetries = 5"

fun alloc_loop ::
  "nat \<Rightarrow> (nat \<Rightarrow> port_attempt) \<Rightarrow> string \<Rightarrow> DefaultPortManager \<Rightarrow> (u16 \<times> goerror option) \<times> DefaultPortManager"
where
  "alloc_loop 0 att name pm =
     ((0, Some (ErrorNew 40 (''failed to allocate port for instance '' @ name @ '' after '' @ itoa maxRetries @ '' attempts''))), pm)"
| "alloc_loop (Suc k) att name pm =
     (case at_ctx_err (att 0) of
        Some e \<Rightarrow> ((0, Some (Errorf ''port allocation cancelled: '' e)), pm)
      | None \<Rightarrow>
          let port = candidate_port (att 0) pm
          in if allocatedPorts pm port = Some True then alloc_loop k (\<lambda>i. att (Suc i)) name pm
             else if at_listen_err (att 0) \<noteq> None then alloc_loop k (\<lambda>i. att (Suc i)) name pm
             else ((port, None), store_port name port pm))"

definition AllocatePort ::
  "(nat \<Rightarrow> port_attempt) \<Rightarrow> string \<Rightarrow> DefaultPortManager \<Rightarrow> (u16 \<times> goerror option) \<times> DefaultPortManager"
where
  "AllocatePort att name pm =
     (case instanceToPorts pm name of
        Some port \<Rightarrow> ((port, None), pm)
      | None \<Rightarrow> alloc_loop maxRetries att name pm)"

definition ReleasePort :: "string \<Rightarrow> DefaultPortManager \<Rightarrow> goerror option \<times> DefaultPortManager" where
  "ReleasePort name pm =
     (case instanceToPorts pm name of
        None \<Rightarrow> (Some (ErrorNew 41 (''instance '' @ name @ '' has no allocated port'')), pm)
      | Some port \<Rightarrow>
          (None, pm\<lparr>instanceToPorts := (instanceToPorts pm)(name := None),
                    portToInstances := (portToInstances pm)(port := None),
                    allocatedPorts := (allocatedPorts pm)(port := None)\<rparr>))"

text \<open>\<^verbatim>\<open>GetPort\<close> returns the port and true, or the zero value and false.\<close>

definition GetPort :: "string \<Rightarrow> DefaultPortManager \<Rightarrow> u16 \<times> bool" where
  "GetPort name pm = (case instanceToPorts pm name of Some p \<Rightarrow> (p, True) | None \<Rightarrow> (0, False))"

definition ReservePort ::
  "goerror option \<Rightarrow> goerror option \<Rightarrow> string \<Rightarrow> u16 \<Rightarrow> DefaultPortManager \<Rightarrow> goerror option \<times> DefaultPortManager"
where
  "ReservePort listen_err close_err name port pm =
     (if port < minPort pm \<or> maxPort pm < port
      then (Some (ErrorNew 42 (''invalid port '' @ itoa (unat port) @ '': allowed range is '' @ itoa (unat (minPort pm))
              @ ''-'' @ itoa (unat (maxPort pm)) @ ''; choose a port in range or let the manager allocate one'')), pm)
      else case portToInstances pm port of
        Some existingInstance \<Rightarrow>
          if existingInstance \<noteq> name
          then (Some (ErrorNew 43 (''port '' @ itoa (unat port) @ '' is already in use by instance '' @ existingInstance)), pm)
          else (None, pm)
      | None \<Rightarrow>
          (case instanceToPorts pm name of
             Some existingPort \<Rightarrow>
               if existingPort \<noteq> port
               then (Some (ErrorNew 44 (''instance '' @ name @ '' already has port '' @ itoa (unat existingPort) @ '' allocated'')), pm)
               else (None, pm)
           | None \<Rightarrow>
               (case listen_err of
                  Some e \<Rightarrow> (Some (Errorf (''port '' @ itoa (unat port) @ '' is not available: '') e), pm)
                | None \<Rightarrow>
                    (case close_err of
                       Some e \<Rightarrow> (Some (Errorf (''failed to close listener for port '' @ itoa (unat port) @ '': '') e), pm)
                     | None \<Rightarrow> (None, store_port name port pm)))))"

text \<open>The loop of \<^verbatim>\<open>PreReconcile\<close>; the attempts made for the instance at position i are \<open>att i\<close>.\<close>

fun pre_reconcile_loop ::
  "(nat \<Rightarrow> nat \<Rightarrow> port_attempt) \<Rightarrow> string list \<Rightarrow> goerror list \<Rightarrow> DefaultPortManager
   \<Rightarrow> goerror list \<times> DefaultPortManager"
where
  "pre_reconcile_loop att [] errs pm = (errs, pm)"
| "pre_reconcile_loop att (name # names) errs pm =
     (if instanceToPorts pm name \<noteq> None then pre_reconcile_loop (\<lambda>i. att (Suc i)) names errs pm
      else case AllocatePort (att 0) name pm of
             ((_, None), pm') \<Rightarrow> pre_reconcile_loop (\<lambda>i. att (Suc i)) names errs pm'
           | ((_, Some e), pm') \<Rightarrow>
               pre_reconcile_loop (\<lambda>i. att (Suc i)) names
                 (errs @ [Errorf (''failed to allocate port for instance '' @ name @ '': '') e]) pm')"

definition PreReconcile ::
  "(nat \<Rightarrow> nat \<Rightarrow> port_attempt) \<Rightarrow> string list \<Rightarrow> DefaultPortManager \<Rightarrow> goerror option \<times> DefaultPortManager"
where
  "PreReconcile att names pm =
     (case pre_reconcile_loop att names [] pm of
        (errs, pm') \<Rightarrow>
          (if errs \<noteq> [] then Some (Errorf ''port allocation failed: '' (ErrorJoin errs)) else None, pm'))"

definition PostReconcile :: "DefaultPortManager \<Rightarrow> goerror option \<times> DefaultPortManager" where
  "PostReconcile pm = (None, pm)"

section \<open>The process-wide manager\<close>

text \<open>
  The package variables: the objects allocated so far, the pointer to the current one (an index
  into them) and whether the once-guard has fired. \<^verbatim>\<open>ResetDefaultPortManager\<close> replaces both.
\<close>

record port_globals =
  pm_objects :: "DefaultPortManager list"
  defaultPortManagerInstance :: "nat option"
  defaultPortManagerOnce :: bool

definition pm_package_init :: port_globals where
  "pm_package_init = \<lparr>pm_objects = [], defaultPortManagerInstance = None, defaultPortManagerOnce = False\<rparr>"

definition GetDefaultPortManager :: "port_globals \<Rightarrow> nat option" where
  "GetDefaultPortManager g = defaultPortManagerInstance g"

definition initDefaultPortManager :: "port_globals \<Rightarrow> nat option \<times> port_globals" where
  "initDefaultPortManager g =
     (let g' = (if defaultPortManagerOnce g then g
                else g\<lparr>pm_objects := pm_objects g @ [newDefaultPortManager],
                       defaultPortManagerInstance := Some (length (pm_objects g)),
                       defaultPortManagerOnce := True\<rparr>)
      in (defaultPortManagerInstance g', g'))"

definition NewDefaultPortManager :: "port_globals \<Rightarrow> (goerror + nat) \<times> port_globals" where
  "NewDefaultPortManager g =
     (case GetDefaultPortManager g of
        Some existing \<Rightarrow> (Inr existing, g)
      | None \<Rightarrow>
          (case initDefaultPortManager g of
             (None, g') \<Rightarrow> (Inl (ErrorNew 45 ''failed to initialize port manager''), g')
           | (Some p, g') \<Rightarrow> (Inr p, g')))"

definition ResetDefaultPortManager :: "port_globals \<Rightarrow> port_globals" where
  "ResetDefaultPortManager g = g\<lparr>defaultPortManagerInstance := None, defaultPortManagerOnce := False\<rparr>"

section \<open>The contract of a port manager\<close>

text \<open>Sequences of atomic calls, over any implementation of the three operations.\<close>

datatype ('e, 'r) port_op = Allocate 'e string | Release string | Reserve 'r string u16

fun port_step ::
  "('e \<Rightarrow> string \<Rightarrow> 's \<Rightarrow> (u16 \<times> goerror option) \<times> 's) \<Rightarrow> (string \<Rightarrow> 's \<Rightarrow> goerror option \<times> 's)
   \<Rightarrow> ('r \<Rightarrow> string \<Rightarrow> u16 \<Rightarrow> 's \<Rightarrow> goerror option \<times> 's) \<Rightarrow> ('e, 'r) port_op \<Rightarrow> 's \<Rightarrow> 's"
where
  "port_step alloc release reserve (Allocate e n) s = snd (alloc e n s)"
| "port_step alloc release reserve (Release n) s = snd (release n s)"
| "port_step alloc release reserve (Reserve r n p) s = snd (reserve r n p s)"

definition port_run ::
  "('e \<Rightarrow> string \<Rightarrow> 's \<Rightarrow> (u16 \<times> goerror option) \<times> 's) \<Rightarrow> (string \<Rightarrow> 's \<Rightarrow> goerror option \<times> 's)
   \<Rightarrow> ('r \<Rightarrow> string \<Rightarrow> u16 \<Rightarrow> 's \<Rightarrow> goerror option \<times> 's) \<Rightarrow> ('e, 'r) port_op list \<Rightarrow> 's \<Rightarrow> 's"
where
  "port_run alloc release reserve ops s = fold (port_step alloc release reserve) ops s"

text \<open>
  What the interface \<^verbatim>\<open>PortManager\<close> promises: ownership is an injective partial map into the
  range, a successful call changes only the entry it names and never moves an instance to another
  port, and a failing call changes nothing.
\<close>

locale port_contract =
  fixes inv :: "'s \<Rightarrow> bool"
    and owner :: "'s \<Rightarrow> string \<rightharpoonup> u16"
    and lo hi :: u16
    and alloc :: "'e \<Rightarrow> string \<Rightarrow> 's \<Rightarrow> (u16 \<times> goerror option) \<times> 's"
    and release :: "string \<Rightarrow> 's \<Rightarrow> goerror option \<times> 's"
    and reserve :: "'r \<Rightarrow> string \<Rightarrow> u16 \<Rightarrow> 's \<Rightarrow> goerror option \<times> 's"
  assumes owner_inj: "inv s \<Longrightarrow> owner s n = Some p \<Longrightarrow> owner s m = Some p \<Longrightarrow> n = m"
    and owner_range: "inv s \<Longrightarrow> owner s n = Some p \<Longrightarrow> lo \<le> p \<and> p \<le> hi"
    and alloc_ok: "inv s \<Longrightarrow> alloc e n s = ((p, None), s') \<Longrightarrow>
        inv s' \<and> owner s n \<in> {None, Some p} \<and> owner s' = (owner s)(n \<mapsto> p)"
    and alloc_err: "inv s \<Longrightarrow> alloc e n s = ((p, Some er), s') \<Longrightarrow> s' = s \<and> owner s n = None"
    and release_ok: "inv s \<Longrightarrow> release n s = (None, s') \<Longrightarrow>
        inv s' \<and> owner s n \<noteq> None \<and> owner s' = (owner s)(n := None)"
    and release_err: "inv s \<Longrightarrow> release n s = (Some er, s') \<Longrightarrow> s' = s \<and> owner s n = None"
    and reserve_ok: "inv s \<Longrightarrow> reserve r n p s = (None, s') \<Longrightarrow>
        inv s' \<and> owner s n \<in> {None, Some p} \<and> owner s' = (owner s)(n \<mapsto> p)"
    and reserve_err: "inv s \<Longrightarrow> reserve r n p s = (Some er, s') \<Longrightarrow> s' = s"
begin

lemma step_keeps:
  assumes "inv s"
  shows "inv (port_step alloc release reserve x s)
     \<and> (x \<noteq> Release n \<and> owner s n = Some p \<longrightarrow> owner (port_step alloc release reserve x s) n = Some p)"
proof (cases x)
  case (Allocate e m)
  obtain q err s' where a: "alloc e m s = ((q, err), s')" by (metis prod.collapse)
  show ?thesis
    using Allocate a alloc_ok [OF assms, of e m q s'] alloc_err [OF assms, of e m q _ s'] assms
    by (cases err) auto
next
  case (Release m)
  obtain err s' where r: "release m s = (err, s')" by fastforce
  show ?thesis
    using Release r release_ok [OF assms, of m s'] release_err [OF assms, of m _ s'] assms
    by (cases err) auto
next
  case (Reserve r m q)
  obtain err s' where r: "reserve r m q s = (err, s')" by fastforce
  show ?thesis
    using Reserve r reserve_ok [OF assms, of r m q s'] reserve_err [OF assms, of r m q _ s'] assms
    by (cases err) auto
qed

lemma run_keeps:
  assumes "inv s"
  shows "inv (port_run alloc release reserve xs s)"
    and "Release n \<notin> set xs \<Longrightarrow> owner s n = Some p \<Longrightarrow> owner (port_run alloc release reserve xs s) n = Some p"
proof -
  have "inv (port_run alloc release reserve xs s) \<and> (Release n \<notin> set xs \<longrightarrow> owner s n = Some p
      \<longrightarrow> owner (port_run alloc release reserve xs s) n = Some p)"
    using assms
  proof (induction xs arbitrary: s)
    case (Cons x xs)
    from step_keeps [OF Cons.prems, of x n p] Cons.IH [of "port_step alloc release reserve x s"]
    show ?case by (auto simp: port_run_def)
  qed (simp add: port_run_def)
  then show "inv (port_run alloc release reserve xs s)"
    and "Release n \<notin> set xs \<Longrightarrow> owner s n = Some p \<Longrightarrow> owner (port_run alloc release reserve xs s) n = Some p"
    by simp_all
qed

lemma run_exclusive:
  assumes "inv s" and "owner (port_run alloc release reserve xs s) n = Some p"
  shows "lo \<le> p \<and> p \<le> hi \<and> (owner (port_run alloc release reserve xs s) m = Some p \<longrightarrow> m = n)"
  using owner_inj owner_range run_keeps(1) [OF assms(1)] assms(2) by blast

end

section \<open>The default manager meets the contract\<close>

definition port_inv :: "DefaultPortManager \<Rightarrow> bool" where
  "port_inv pm \<longleftrightarrow> (minPort pm, maxPort pm) = getServicePortRange
     \<and> (\<forall>n p. instanceToPorts pm n = Some p \<longleftrightarrow> portToInstances pm p = Some n)
     \<and> (\<forall>p. allocatedPorts pm p = (if portToInstances pm p = None then None else Some True))
     \<and> (\<forall>p n. portToInstances pm p = Some n \<longrightarrow> minPort pm \<le> p \<and> p \<le> maxPort pm)"

lemma port_inv_new: "port_inv newDefaultPortManager"
  by (simp add: port_inv_def newDefaultPortManager_def getServicePortRange_def)

lemma port_inv_inverse:
  "port_inv pm \<Longrightarrow> instanceToPorts pm n = Some p \<longleftrightarrow> portToInstances pm p = Some n"
  by (simp add: port_inv_def)

lemma instanceToPorts_store [simp]:
  "instanceToPorts (store_port n p pm) = (instanceToPorts pm)(n \<mapsto> p)"
  by (simp add: store_port_def)

lemma candidate_in_range:
  assumes "port_inv pm"
  shows "minPort pm \<le> candidate_port a pm \<and> candidate_port a pm \<le> maxPort pm"
proof -
  have r: "minPort pm = 20000" "maxPort pm = 32767"
    using assms by (simp_all add: port_inv_def getServicePortRange_def)
  have "at_rand a mod 12768 < 12768" by simp
  then have "unat (20000 + of_nat (at_rand a mod 12768) :: u16) = 20000 + at_rand a mod 12768"
    by (simp add: unat_word_ariths unsigned_of_nat take_bit_nat_eq_self)
  then show ?thesis
    by (simp add: r candidate_port_def rand_IntN_def word_le_nat_alt)
qed

lemma port_inv_store:
  assumes "port_inv pm" and "instanceToPorts pm n = None" and "portToInstances pm p = None"
    and "minPort pm \<le> p" and "p \<le> maxPort pm"
  shows "port_inv (store_port n p pm)"
proof -
  have "instanceToPorts pm m \<noteq> Some p" "portToInstances pm q \<noteq> Some n" for m q
    using assms(1-3) unfolding port_inv_def by (metis option.distinct(1))+
  with assms show ?thesis by (auto simp: port_inv_def store_port_def)
qed

text \<open>An attempt that ends the loop with a port.\<close>

definition usable :: "DefaultPortManager \<Rightarrow> port_attempt \<Rightarrow> bool" where
  "usable pm a \<longleftrightarrow> at_ctx_err a = None \<and> at_listen_err a = None
     \<and> allocatedPorts pm (candidate_port a pm) \<noteq> Some True"

lemma alloc_loop_result:
  "if \<exists>i < k. usable pm (att i) \<and> (\<forall>j < i. at_ctx_err (att j) = None)
   then \<exists>i < k. usable pm (att i) \<and> alloc_loop k att n pm =
          ((candidate_port (att i) pm, None), store_port n (candidate_port (att i) pm) pm)
   else \<exists>e. alloc_loop k att n pm = ((0, Some e), pm)"
proof (induction k arbitrary: att)
  case (Suc k)
  let ?att = "\<lambda>i. att (Suc i)"
  have ex: "(\<exists>i < Suc k. usable pm (att i) \<and> (\<forall>j < i. at_ctx_err (att j) = None))
      \<longleftrightarrow> usable pm (att 0) \<or> at_ctx_err (att 0) = None
          \<and> (\<exists>i < k. usable pm (?att i) \<and> (\<forall>j < i. at_ctx_err (?att j) = None))"
    by (subst Ex_less_Suc2) (auto simp: All_less_Suc2)
  show ?case
  proof (cases "at_ctx_err (att 0)")
    case (Some e)
    then have "\<not> usable pm (att 0)" by (simp add: usable_def)
    with Some ex show ?thesis by simp
  next
    case None
    show ?thesis
    proof (cases "usable pm (att 0)")
      case True
      with None ex show ?thesis by (auto simp: usable_def Let_def intro!: exI [of _ 0])
    next
      case False
      with None have "alloc_loop (Suc k) att n pm = alloc_loop k ?att n pm"
        by (auto simp: usable_def Let_def)
      with False None ex Suc.IH [of ?att] show ?thesis
        by (auto split: if_splits)
    qed
  qed
qed simp

lemma AllocatePort_result:
  assumes "port_inv pm" and "instanceToPorts pm n = None"
  shows "if \<exists>i < maxRetries. usable pm (att i) \<and> (\<forall>j < i. at_ctx_err (att j) = None)
   then \<exists>p. AllocatePort att n pm = ((p, None), store_port n p pm) \<and> portToInstances pm p = None
          \<and> minPort pm \<le> p \<and> p \<le> maxPort pm
   else \<exists>e. AllocatePort att n pm = ((0, Some e), pm)"
proof -
  have free: "usable pm a \<Longrightarrow> portToInstances pm (candidate_port a pm) = None" for a
    using assms(1) by (auto simp: usable_def port_inv_def split: if_splits)
  show ?thesis
    using alloc_loop_result [of maxRetries pm att n] assms free candidate_in_range
    by (auto simp: AllocatePort_def split: if_splits)
qed

lemma AllocatePort_ok:
  assumes "port_inv pm" and "AllocatePort att n pm = ((p, None), pm')"
  shows "port_inv pm'" and "instanceToPorts pm n \<in> {None, Some p}"
    and "instanceToPorts pm' = (instanceToPorts pm)(n \<mapsto> p)"
proof (atomize (full), cases "instanceToPorts pm n")
  case None
  with AllocatePort_result [OF assms(1) None, of att] assms(2)
  show "port_inv pm' \<and> instanceToPorts pm n \<in> {None, Some p} \<and> instanceToPorts pm' = (instanceToPorts pm)(n \<mapsto> p)"
    by (auto intro: port_inv_store [OF assms(1)] split: if_splits)
next
  case (Some q)
  with assms show "port_inv pm' \<and> instanceToPorts pm n \<in> {None, Some p} \<and> instanceToPorts pm' = (instanceToPorts pm)(n \<mapsto> p)"
    by (auto simp: AllocatePort_def)
qed

lemma AllocatePort_err:
  assumes "port_inv pm" and "AllocatePort att n pm = ((p, Some e), pm')"
  shows "pm' = pm \<and> instanceToPorts pm n = None"
proof (cases "instanceToPorts pm n")
  case None
  with AllocatePort_result [OF assms(1) None, of att] assms(2) show ?thesis by (auto split: if_splits)
next
  case (Some q)
  with assms(2) show ?thesis by (simp add: AllocatePort_def)
qed

lemma ReleasePort_ok:
  assumes "port_inv pm" and "ReleasePort n pm = (None, pm')"
  shows "port_inv pm' \<and> instanceToPorts pm n \<noteq> None \<and> instanceToPorts pm' = (instanceToPorts pm)(n := None)"
proof -
  obtain p where p: "instanceToPorts pm n = Some p"
    "pm' = pm\<lparr>instanceToPorts := (instanceToPorts pm)(n := None), portToInstances := (portToInstances pm)(p := None),
        allocatedPorts := (allocatedPorts pm)(p := None)\<rparr>"
    using assms(2) by (auto simp: ReleasePort_def split: option.splits)
  have m: "instanceToPorts pm m = Some p \<Longrightarrow> m = n" for m
    using port_inv_inverse [OF assms(1)] p(1) by (metis option.inject)
  have q: "portToInstances pm q = Some n \<Longrightarrow> q = p" for q
    using port_inv_inverse [OF assms(1)] p(1) by (metis option.inject)
  have "port_inv pm'"
    unfolding port_inv_def p(2)
    using assms(1) m q by (auto simp: port_inv_def)
  with p show ?thesis by simp
qed

lemma ReservePort_ok:
  assumes "port_inv pm" and "ReservePort le ce n p pm = (None, pm')"
  shows "port_inv pm' \<and> instanceToPorts pm n \<in> {None, Some p} \<and> instanceToPorts pm' = (instanceToPorts pm)(n \<mapsto> p)"
proof (cases "portToInstances pm p")
  case None
  then have "instanceToPorts pm n \<noteq> Some p" using assms(1) by (simp add: port_inv_def)
  with None assms(2) have "pm' = store_port n p pm" "instanceToPorts pm n = None"
    "minPort pm \<le> p" "p \<le> maxPort pm"
    by (auto simp: ReservePort_def split: if_splits option.splits)
  then show ?thesis using port_inv_store [OF assms(1)] None by simp
next
  case (Some m)
  then have "m = n" "pm' = pm" using assms(2) by (auto simp: ReservePort_def split: if_splits)
  then show ?thesis using Some assms(1) by (auto simp: port_inv_def)
qed

interpretation ports: port_contract port_inv instanceToPorts 20000 32767
  AllocatePort ReleasePort "\<lambda>r. ReservePort (fst r) (snd r)"
proof (unfold_locales, goal_cases)
  case (1 s n p m)
  then show ?case unfolding port_inv_def by (metis option.inject)
next
  case (2 s n p)
  then have "minPort s \<le> p \<and> p \<le> maxPort s" unfolding port_inv_def by metis
  with 2 show ?case by (simp add: port_inv_def getServicePortRange_def)
next
  case (3 s e n p s')
  from AllocatePort_ok [OF this] show ?case by simp
next
  case (4 s e n p er s')
  from AllocatePort_err [OF this] show ?case .
next
  case (5 s n s')
  from ReleasePort_ok [OF this] show ?case .
next
  case (6 s n er s')
  then show ?case by (auto simp: ReleasePort_def split: option.splits)
next
  case (7 s r n p s')
  from ReservePort_ok [OF this] show ?case .
next
  case (8 s r n p er s')
  then show ?case by (auto simp: ReservePort_def split: option.splits if_splits)
qed

section \<open>PreReconcile\<close>

lemma pre_reconcile_loop_result:
  assumes "port_inv pm" and "pre_reconcile_loop att names errs pm = (errs', pm')"
  shows "port_inv pm' \<and> (\<forall>n. instanceToPorts pm n \<noteq> None \<longrightarrow> instanceToPorts pm' n = instanceToPorts pm n)
     \<and> dom (instanceToPorts pm') \<subseteq> dom (instanceToPorts pm) \<union> set names
     \<and> (errs = [] \<and> errs' = [] \<longrightarrow> set names \<subseteq> dom (instanceToPorts pm'))
     \<and> prefix errs errs'"
  using assms
proof (induction att names errs pm rule: pre_reconcile_loop.induct)
  case (2 att n ns errs pm)
  show ?case
  proof (cases "instanceToPorts pm n")
    case (Some p)
    with 2 show ?thesis by fastforce
  next
    case None
    obtain p err pm1 where a: "AllocatePort (att 0) n pm = ((p, err), pm1)" by (metis prod.collapse)
    show ?thesis
    proof (cases err)
      case (Some e)
      with a AllocatePort_err [OF 2(4)] have "pm1 = pm" by blast
      with 2(3)[OF _ a [symmetric] refl Some] 2(4,5) None a Some show ?thesis
        by (fastforce simp: prefix_def)
    next
      case None': None
      note ok = AllocatePort_ok [OF 2(4) a [unfolded None']]
      show ?thesis
        using 2(2)[OF _ a [symmetric] refl None' ok(1)] 2(5) None a None' ok(3)
        by (fastforce split: if_splits)
    qed
  qed
qed auto

lemma pre_reconcile_loop_errors:
  assumes "port_inv pm" and "pre_reconcile_loop att names errs pm = (errs', pm')" and "distinct names"
  shows "length errs' = length errs + length (filter (\<lambda>n. instanceToPorts pm' n = None) names)"
  using assms
proof (induction att names errs pm rule: pre_reconcile_loop.induct)
  case (2 att n ns errs pm)
  obtain p err pm1 where a: "AllocatePort (att 0) n pm = ((p, err), pm1)" by (metis prod.collapse)
  show ?case
  proof (cases "instanceToPorts pm n")
    case (Some q)
    then have l: "pre_reconcile_loop (\<lambda>i. att (Suc i)) ns errs pm = (errs', pm')" using 2(5) by simp
    from pre_reconcile_loop_result [OF 2(4) l] Some have "instanceToPorts pm' n \<noteq> None" by simp
    with 2(1)[OF _ 2(4) l] Some 2(6) show ?thesis by simp
  next
    case None
    show ?thesis
    proof (cases err)
      case (Some e)
      with a AllocatePort_err [OF 2(4)] have pm1: "pm1 = pm" by blast
      with 2(5) None a Some obtain errs1 where
        l: "pre_reconcile_loop (\<lambda>i. att (Suc i)) ns errs1 pm = (errs', pm')"
        and e1: "errs1 = errs @ [Errorf (''failed to allocate port for instance '' @ n @ '': '') e]" by simp
      have "n \<notin> dom (instanceToPorts pm')"
        using pre_reconcile_loop_result [OF 2(4) l] None 2(6) by auto
      then have "instanceToPorts pm' n = None" by blast
      with 2(3)[OF _ a [symmetric] refl Some] 2(4,6) l e1 None pm1 show ?thesis by simp
    next
      case None': None
      note ok = AllocatePort_ok [OF 2(4) a [unfolded None']]
      from 2(5) None a None' have l: "pre_reconcile_loop (\<lambda>i. att (Suc i)) ns errs pm1 = (errs', pm')" by simp
      from pre_reconcile_loop_result [OF ok(1) l] ok(3) have "instanceToPorts pm' n \<noteq> None" by simp
      with 2(2)[OF _ a [symmetric] refl None' ok(1) l] None 2(6) show ?thesis by simp
    qed
  qed
qed simp

section \<open>One manager per process\<close>

text \<open>The once-guard has fired exactly when there is a manager, and the pointer is valid.\<close>

definition globals_inv :: "port_globals \<Rightarrow> bool" where
  "globals_inv g \<longleftrightarrow> (case defaultPortManagerInstance g of
       None \<Rightarrow> \<not> defaultPortManagerOnce g
     | Some i \<Rightarrow> defaultPortManagerOnce g \<and> i < length (pm_objects g))"

lemma globals_inv_init: "globals_inv pm_package_init"
  by (simp add: globals_inv_def pm_package_init_def)

lemma globals_inv_reset: "globals_inv g \<Longrightarrow> globals_inv (ResetDefaultPortManager g)"
  by (simp add: globals_inv_def ResetDefaultPortManager_def)

lemma NewDefaultPortManager_total:
  assumes "globals_inv g"
  shows "\<exists>i g'. NewDefaultPortManager g = (Inr i, g') \<and> globals_inv g' \<and> GetDefaultPortManager g' = Some i
     \<and> NewDefaultPortManager g' = (Inr i, g') \<and> i < length (pm_objects g')"
  using assms
  by (cases "defaultPortManagerInstance g")
    (auto simp: globals_inv_def NewDefaultPortManager_def GetDefaultPortManager_def initDefaultPortManager_def Let_def)

section \<open>Properties\<close>


text \<open>
  A port is stable. Once an instance owns a port it keeps that port through any sequence of
  calls that does not release it, including allocations and reservations for the same instance.
\<close>

theorem port_stable:
  assumes "pm = port_run AllocatePort ReleasePort (\<lambda>r. ReservePort (fst r) (snd r)) xs newDefaultPortManager"
    and "GetPort n pm = (p, True)" and "Release n \<notin> set ys"
  shows "GetPort n (port_run AllocatePort ReleasePort (\<lambda>r. ReservePort (fst r) (snd r)) ys pm) = (p, True)"
proof -
  have inv: "port_inv pm" using ports.run_keeps(1) [OF port_inv_new] assms(1) by simp
  have "instanceToPorts pm n = Some p" using assms(2) by (auto simp: GetPort_def split: option.splits)
  from ports.run_keeps(2) [OF inv assms(3) this] show ?thesis by (simp add: GetPort_def)
qed

text \<open>
  Outcome of an allocation for an instance without a port. It succeeds exactly when one of
  the five attempts draws a port that is neither allocated nor refused by the operating system
  while the context is still alive; then the instance owns a port of the range that nobody owned.
  Otherwise it returns port 0 with an error and the manager is unchanged.
\<close>

theorem allocate_outcome:
  assumes "port_inv pm" and "instanceToPorts pm n = None" and "AllocatePort att n pm = ((p, err), pm')"
  shows "(err = None \<longleftrightarrow> (\<exists>i < maxRetries. usable pm (att i) \<and> (\<forall>j < i. at_ctx_err (att j) = None)))
     \<and> (err = None \<longrightarrow> portToInstances pm p = None \<and> minPort pm \<le> p \<and> p \<le> maxPort pm
          \<and> instanceToPorts pm' = (instanceToPorts pm)(n \<mapsto> p) \<and> port_inv pm')
     \<and> (err \<noteq> None \<longrightarrow> p = 0 \<and> pm' = pm)"
  using AllocatePort_result [OF assms(1,2), of att] AllocatePort_ok [OF assms(1), of att n p pm'] assms(3)
  by (auto split: if_splits)

text \<open>
  \<^verbatim>\<open>PreReconcile\<close> on distinct names reports success exactly when every named instance owns
  a port afterwards. One failing allocation does not stop the others, the ports owned before are
  untouched, and nobody outside the list gets a port.
\<close>

theorem pre_reconcile_complete:
  assumes "port_inv pm" and "PreReconcile att names pm = (err, pm')" and "distinct names"
  shows "(err = None \<longleftrightarrow> (\<forall>n \<in> set names. instanceToPorts pm' n \<noteq> None)) \<and> port_inv pm'
     \<and> (\<forall>n. instanceToPorts pm n \<noteq> None \<longrightarrow> instanceToPorts pm' n = instanceToPorts pm n)
     \<and> dom (instanceToPorts pm') \<subseteq> dom (instanceToPorts pm) \<union> set names"
proof -
  obtain errs where l: "pre_reconcile_loop att names [] pm = (errs, pm')" and e: "err = None \<longleftrightarrow> errs = []"
    using assms(2) by (auto simp: PreReconcile_def split: prod.splits if_splits)
  from pre_reconcile_loop_errors [OF assms(1) l assms(3)]
  have "errs = [] \<longleftrightarrow> filter (\<lambda>n. instanceToPorts pm' n = None) names = []"
    by (simp flip: length_0_conv)
  then have "errs = [] \<longleftrightarrow> (\<forall>n \<in> set names. instanceToPorts pm' n \<noteq> None)"
    by (simp only: filter_empty_conv)
  with e pre_reconcile_loop_result [OF assms(1) l] show ?thesis by blast
qed

section \<open>Witnesses\<close>

lemma maxRetries_Suc: "maxRetries = Suc (Suc (Suc (Suc (Suc 0))))"
  by (simp add: maxRetries_def)

definition demo_attempt :: "nat \<Rightarrow> port_attempt" where
  "demo_attempt d = \<lparr>at_ctx_err = None, at_rand = d, at_listen_err = None\<rparr>"

definition demo_calls :: "(nat \<Rightarrow> port_attempt, goerror option \<times> goerror option) port_op list" where
  "demo_calls = [Reserve (None, None) ''b'' 20007, Allocate (\<lambda>i. demo_attempt (7 + i)) ''a'']"

lemma demo_calls_ports:
  "instanceToPorts (port_run AllocatePort ReleasePort (\<lambda>r. ReservePort (fst r) (snd r)) demo_calls newDefaultPortManager)
   = [''b'' \<mapsto> 20007, ''a'' \<mapsto> 20008]"
  by (simp add: demo_calls_def port_run_def demo_attempt_def ReservePort_def AllocatePort_def newDefaultPortManager_def
      getServicePortRange_def maxRetries_Suc candidate_port_def rand_IntN_def store_port_def Let_def)


theorem port_stable_witness:
  "GetPort ''a'' (port_run AllocatePort ReleasePort (\<lambda>r. ReservePort (fst r) (snd r))
      [Release ''b'', Allocate (\<lambda>i. demo_attempt 1) ''a'', Reserve (None, None) ''a'' 20001]
      (port_run AllocatePort ReleasePort (\<lambda>r. ReservePort (fst r) (snd r)) demo_calls newDefaultPortManager))
   = (20008, True)"
  by (rule port_stable [OF refl]) (simp_all add: GetPort_def demo_calls_ports)

theorem allocate_outcome_witness:
  "fst (AllocatePort (\<lambda>i. demo_attempt 3) ''a'' newDefaultPortManager) = (20003, None)
   \<and> portToInstances newDefaultPortManager 20003 = None
   \<and> instanceToPorts (snd (AllocatePort (\<lambda>i. demo_attempt 3) ''a'' newDefaultPortManager)) = [''a'' \<mapsto> 20003]"
proof -
  let ?r = "AllocatePort (\<lambda>i. demo_attempt 3) ''a'' newDefaultPortManager"
  have f: "instanceToPorts newDefaultPortManager = Map.empty" by (simp add: newDefaultPortManager_def getServicePortRange_def)
  have r: "fst ?r = (20003, None)"
    by (simp add: AllocatePort_def maxRetries_Suc demo_attempt_def newDefaultPortManager_def
        getServicePortRange_def candidate_port_def rand_IntN_def Let_def)
  then have "?r = ((20003, None), snd ?r)" by (metis prod.collapse)
  from allocate_outcome [OF port_inv_new _ this] f r show ?thesis by simp
qed

theorem pre_reconcile_complete_witness:
  "fst (PreReconcile (\<lambda>i k. demo_attempt i) [''a'', ''b''] newDefaultPortManager) = None
   \<and> dom (instanceToPorts (snd (PreReconcile (\<lambda>i k. demo_attempt i) [''a'', ''b''] newDefaultPortManager))) = {''a'', ''b''}"
proof -
  let ?r = "PreReconcile (\<lambda>i k. demo_attempt i) [''a'', ''b''] newDefaultPortManager"
  have f: "instanceToPorts newDefaultPortManager = Map.empty" by (simp add: newDefaultPortManager_def getServicePortRange_def)
  have e: "fst ?r = None"
    by (simp add: PreReconcile_def AllocatePort_def maxRetries_Suc demo_attempt_def
        newDefaultPortManager_def getServicePortRange_def candidate_port_def rand_IntN_def store_port_def Let_def)
  have r: "?r = (fst ?r, snd ?r)" by simp
  from pre_reconcile_complete [OF port_inv_new r] f e show ?thesis by auto
qed

end
