(* ===== verification/Ring_Buffer.thy ===== *)
theory Ring_Buffer
  imports UMH_Prelude
begin

text \<open>
  The fixed-size ring buffer between the log parser and the topic browser cache:
  \<^verbatim>\<open>umh-core/pkg/service/topicbrowser/buffer.go\<close>. The backing slice is a list of slots, a slot
  being nil or an item; positions and counts are Go \<^verbatim>\<open>int\<close>s that never leave the range of the
  slice, the sequence number is a \<open>uint64\<close>. The mutex makes \<^verbatim>\<open>Add\<close>, \<^verbatim>\<open>Len\<close> and
  \<^verbatim>\<open>GetSnapshot\<close> atomic. Items are immutable after \<^verbatim>\<open>Add\<close>, so a slot holds the value of
  the item; the write of its sequence number happens inside \<^verbatim>\<open>Add\<close>.

  The abstract view is a bounded log: the sequence of everything added so far, of which the last
  \<open>cap\<close> entries are kept.
\<close>

section \<open>Data\<close>

text \<open>Timestamps are nanoseconds; 0 is the zero value of \<^verbatim>\<open>time.Time\<close>.\<close>

record BufferItem =
  Timestamp :: nat
  Payload :: string
  SequenceNum :: u64

record Ringbuffer =
  rb_buf :: "BufferItem option list"
  rb_writePos :: int
  rb_count :: int
  rb_sequenceNum :: u64

record RingBufferSnapshot =
  Items :: "BufferItem option list"
  LastSequenceNum :: u64

definition RingBufferCapacity :: u64 where
  "RingBufferCapacity = 3"

section \<open>Operations\<close>

text \<open>
  A slice expression with a negative or too large bound panics; \<open>n\<close> is positive and less than
  the length where the slice is taken.
\<close>

definition NewestN :: "int \<Rightarrow> RingBufferSnapshot \<Rightarrow> BufferItem option list" where
  "NewestN n s =
     (if n \<le> 0 then []
      else if n \<ge> int (length (Items s)) then Items s
      else drop (nat (int (length (Items s)) - n)) (Items s))"

definition AppendNewest :: "BufferItem option \<Rightarrow> RingBufferSnapshot \<Rightarrow> RingBufferSnapshot" where
  "AppendNewest item s = s\<lparr>Items := Items s @ [item]\<rparr>"

definition NewRingbuffer :: "u64 \<Rightarrow> Ringbuffer" where
  "NewRingbuffer capacity =
     (let maxCap = 9223372036854775807;
          capacity' = (if capacity = 0 \<or> maxCap < capacity then RingBufferCapacity else capacity)
      in \<lparr>rb_buf = replicate (unat capacity') None, rb_writePos = 0, rb_count = 0, rb_sequenceNum = 0\<rparr>)"

definition NewRingbufferWithDefaultCapacity :: Ringbuffer where
  "NewRingbufferWithDefaultCapacity = NewRingbuffer RingBufferCapacity"

definition rb_Add :: "BufferItem \<Rightarrow> Ringbuffer \<Rightarrow> Ringbuffer" where
  "rb_Add item rb =
     (let sn = rb_sequenceNum rb + 1;
          item' = item\<lparr>SequenceNum := sn\<rparr>
      in rb\<lparr>rb_sequenceNum := sn,
            rb_buf := (rb_buf rb)[nat (rb_writePos rb) := Some item'],
            rb_writePos := (rb_writePos rb + 1) mod int (length (rb_buf rb)),
            rb_count := (if rb_count rb < int (length (rb_buf rb)) then rb_count rb + 1 else rb_count rb)\<rparr>)"

definition rb_Len :: "Ringbuffer \<Rightarrow> int" where
  "rb_Len rb = rb_count rb"

definition rb_Cap :: "Ringbuffer \<Rightarrow> int" where
  "rb_Cap rb = int (length (rb_buf rb))"

text \<open>The loop of \<^verbatim>\<open>GetSnapshot\<close>: \<open>k\<close> items are still to be copied, starting at \<open>idx\<close>.\<close>

primrec snapshot_loop :: "nat \<Rightarrow> Ringbuffer \<Rightarrow> int \<Rightarrow> RingBufferSnapshot \<Rightarrow> RingBufferSnapshot" where
  "snapshot_loop 0 rb idx s = s"
| "snapshot_loop (Suc k) rb idx s =
     (let s' = AppendNewest (rb_buf rb ! nat idx) s;
          idx' = idx + 1
      in snapshot_loop k rb (if idx' = int (length (rb_buf rb)) then 0 else idx') s')"

definition GetSnapshot :: "Ringbuffer \<Rightarrow> RingBufferSnapshot" where
  "GetSnapshot rb =
     (let idx = rb_writePos rb - rb_count rb
      in snapshot_loop (nat (rb_count rb)) rb (if idx < 0 then idx + int (length (rb_buf rb)) else idx)
           \<lparr>Items = [], LastSequenceNum = rb_sequenceNum rb\<rparr>)"

section \<open>The bounded log\<close>

text \<open>The items as the buffer numbers them, when \<open>n\<close> items were added before.\<close>

fun stamp :: "nat \<Rightarrow> BufferItem list \<Rightarrow> BufferItem list" where
  "stamp n [] = []"
| "stamp n (x # xs) = x\<lparr>SequenceNum := of_nat (Suc n)\<rparr> # stamp (Suc n) xs"

lemma length_stamp [simp]: "length (stamp n xs) = length xs"
  by (induction xs arbitrary: n) simp_all

lemma stamp_append: "stamp n (xs @ ys) = stamp n xs @ stamp (n + length xs) ys"
  by (induction xs arbitrary: n) simp_all

lemma SequenceNum_stamp: "i < length xs \<Longrightarrow> SequenceNum (stamp n xs ! i) = of_nat (Suc (n + i))"
  by (induction xs arbitrary: n i) (auto simp: nth_Cons split: nat.splits)

lemma Timestamp_stamp [simp]: "map Timestamp (stamp n xs) = map Timestamp xs"
  by (induction xs arbitrary: n) simp_all

text \<open>
  What a reader of snapshots relies on: the snapshot holds the last \<open>cap\<close> entries of the history,
  oldest first, and the number of the last one. \<open>h\<close> is the history a buffer \<open>b\<close> stands for.
\<close>

locale bounded_log =
  fixes stands_for :: "'b \<Rightarrow> BufferItem list \<Rightarrow> bool"
    and snap :: "'b \<Rightarrow> RingBufferSnapshot"
    and cap :: "'b \<Rightarrow> nat"
  assumes snap_items: "stands_for b h \<Longrightarrow> Items (snap b) = map Some (drop (length h - cap b) h)"
    and snap_last: "stands_for b h \<Longrightarrow> LastSequenceNum (snap b) = of_nat (length h)"
    and cap_pos: "stands_for b h \<Longrightarrow> 0 < cap b"
begin

lemma items_not_nil: "stands_for b h \<Longrightarrow> None \<notin> set (Items (snap b))"
  by (auto simp: snap_items)

lemma newest_since:
  assumes "stands_for b h" and "k < length h"
  shows "NewestN (int (length h - k)) (snap b) = map Some (drop (max k (length h - cap b)) h)"
proof (cases "cap b \<le> length h - k")
  case True
  with assms(2) have "max k (length h - cap b) = length h - cap b" by simp
  with True assms(2) snap_items [OF assms(1)] show ?thesis by (simp add: NewestN_def)
next
  case False
  then have m: "max k (length h - cap b) = k" by simp
  have "nat (int (length (Items (snap b))) - int (length h - k)) + (length h - cap b) = k"
    using False assms(2) snap_items [OF assms(1)] by simp
  with m False assms(2) snap_items [OF assms(1)] show ?thesis
    by (cases "k = 0") (auto simp: NewestN_def drop_map add.commute)
qed

lemma newest_count:
  assumes "stands_for b h" and "k < length h"
  shows "length (NewestN (int (length h - k)) (snap b)) = min (length h - k) (cap b)"
  using newest_since [OF assms] by auto

end

section \<open>The ring implements the bounded log\<close>

definition ring_rel :: "Ringbuffer \<Rightarrow> BufferItem list \<Rightarrow> bool" where
  "ring_rel rb h \<longleftrightarrow>
     (let c = length (rb_buf rb)
      in 0 < c \<and> rb_writePos rb = int (length h mod c) \<and> rb_count rb = int (min (length h) c)
         \<and> rb_sequenceNum rb = of_nat (length h)
         \<and> (\<forall>k < length h. length h \<le> k + c \<longrightarrow> rb_buf rb ! (k mod c) = Some (h ! k)))"

lemma ring_rel_new: "ring_rel (NewRingbuffer c) []"
proof -
  have "c \<noteq> 0 \<Longrightarrow> 0 < unat c" by (simp add: unat_gt_0)
  then show ?thesis by (auto simp: ring_rel_def NewRingbuffer_def Let_def RingBufferCapacity_def)
qed

lemma ring_rel_Add:
  assumes "ring_rel rb h"
  shows "ring_rel (rb_Add x rb) (h @ [x\<lparr>SequenceNum := of_nat (Suc (length h))\<rparr>])"
proof -
  let ?c = "length (rb_buf rb)" and ?n = "length h"
  let ?x = "x\<lparr>SequenceNum := of_nat (Suc ?n)\<rparr>"
  have r: "0 < ?c" "rb_writePos rb = int (?n mod ?c)" "rb_count rb = int (min ?n ?c)"
    "rb_sequenceNum rb = of_nat ?n"
    "\<And>k. k < ?n \<Longrightarrow> ?n \<le> k + ?c \<Longrightarrow> rb_buf rb ! (k mod ?c) = Some (h ! k)"
    using assms by (auto simp: ring_rel_def Let_def)
  have buf: "rb_buf (rb_Add x rb) = (rb_buf rb)[?n mod ?c := Some ?x]"
    using r by (simp add: rb_Add_def Let_def add.commute)
  have w: "rb_writePos (rb_Add x rb) = int (Suc ?n mod ?c)"
    using r by (simp add: rb_Add_def Let_def zmod_int mod_add_right_eq add.commute)
  have slot: "rb_buf (rb_Add x rb) ! (k mod ?c) = Some ((h @ [?x]) ! k)" if "k < Suc ?n" "Suc ?n \<le> k + ?c" for k
  proof (cases "k = ?n")
    case True
    with r(1) buf show ?thesis by simp
  next
    case False
    with that have "k < ?n" "?n < k + ?c" by simp_all
    with mod_neq_near [OF this] buf r(5) [of k] show ?thesis by (simp add: nth_append)
  qed
  have "rb_count (rb_Add x rb) = int (min (Suc ?n) ?c)" "rb_sequenceNum (rb_Add x rb) = of_nat (Suc ?n)"
    using r by (auto simp: rb_Add_def Let_def)
  with slot w buf r(1) show ?thesis by (simp add: ring_rel_def Let_def)
qed

lemma ring_rel_run:
  "ring_rel rb h \<Longrightarrow> ring_rel (fold rb_Add xs rb) (h @ stamp (length h) xs)"
proof (induction xs arbitrary: rb h)
  case (Cons x xs)
  from Cons.IH [OF ring_rel_Add [OF Cons.prems, of x]] show ?case by simp
qed simp

lemma snapshot_loop_items:
  assumes "ring_rel rb h" and "j + k = length h" and "length h \<le> j + length (rb_buf rb)"
  shows "Items (snapshot_loop k rb (int (j mod length (rb_buf rb))) s) = Items s @ map Some (drop j h)
     \<and> LastSequenceNum (snapshot_loop k rb (int (j mod length (rb_buf rb))) s) = LastSequenceNum s"
  using assms(2,3)
proof (induction k arbitrary: j s)
  case (Suc k)
  let ?c = "length (rb_buf rb)"
  have j: "j < length h" and c: "0 < ?c" using Suc.prems assms(1) by (auto simp: ring_rel_def Let_def)
  have slot: "rb_buf rb ! (j mod ?c) = Some (h ! j)"
    using assms(1) j Suc.prems by (auto simp: ring_rel_def Let_def)
  have nxt: "(if int (j mod ?c) + 1 = int ?c then 0 else int (j mod ?c) + 1) = int (Suc j mod ?c)"
    by (auto simp: mod_Suc)
  from Suc.IH [of "Suc j" "AppendNewest (Some (h ! j)) s"] Suc.prems
  show ?case
    by (simp add: Let_def nxt slot) (simp add: AppendNewest_def Cons_nth_drop_Suc [OF j, symmetric])
qed simp

lemma GetSnapshot_items:
  assumes "ring_rel rb h"
  shows "Items (GetSnapshot rb) = map Some (drop (length h - length (rb_buf rb)) h)
     \<and> LastSequenceNum (GetSnapshot rb) = of_nat (length h)"
proof -
  let ?c = "length (rb_buf rb)" and ?n = "length h"
  let ?j = "?n - ?c"
  have r: "0 < ?c" "rb_writePos rb = int (?n mod ?c)" "rb_count rb = int (min ?n ?c)"
    "rb_sequenceNum rb = of_nat ?n" using assms by (auto simp: ring_rel_def Let_def)
  have idx: "(if rb_writePos rb - rb_count rb < 0 then rb_writePos rb - rb_count rb + int ?c
      else rb_writePos rb - rb_count rb) = int (?j mod ?c)"
  proof (cases "?n < ?c")
    case False
    then have "?n mod ?c = ?j mod ?c" by (simp add: le_mod_geq)
    moreover have "?n mod ?c < ?c" using r(1) by simp
    ultimately show ?thesis using r False by simp
  qed (use r in simp)
  have "?j + min ?n ?c = ?n" "?n \<le> ?j + ?c" by simp_all
  from snapshot_loop_items [OF assms this, of "\<lparr>Items = [], LastSequenceNum = rb_sequenceNum rb\<rparr>"]
  show ?thesis unfolding GetSnapshot_def Let_def idx using r(3,4) by simp
qed

interpretation ring: bounded_log ring_rel GetSnapshot "\<lambda>rb. length (rb_buf rb)"
  by unfold_locales (simp_all add: GetSnapshot_items, auto simp: ring_rel_def Let_def)

section \<open>Properties\<close>

text \<open>The capacity a buffer gets for a requested one.\<close>

definition effective_capacity :: "u64 \<Rightarrow> nat" where
  "effective_capacity c = (if c = 0 \<or> 9223372036854775807 < c then unat RingBufferCapacity else unat c)"

lemma rb_Cap_run: "length (rb_buf (fold rb_Add xs (NewRingbuffer c))) = effective_capacity c"
proof -
  have "length (rb_buf (fold rb_Add xs rb)) = length (rb_buf rb)" for rb
    by (induction xs arbitrary: rb) (simp_all add: rb_Add_def Let_def)
  then show ?thesis by (simp add: NewRingbuffer_def effective_capacity_def Let_def)
qed

lemma rb_Cap_new [simp]: "length (rb_buf (NewRingbuffer c)) = effective_capacity c"
  using rb_Cap_run [of "[]" c] by simp

text \<open>
  C33: the ring buffer is a bounded log. After any items were added to a new buffer of any requested
  capacity, a snapshot holds exactly the last items that fit, oldest first, each with the number of
  its arrival, the reported last number is the number of items ever added, and the length is the
  number of items held.
\<close>

theorem ring_snapshot_exact:
  "Items (GetSnapshot (fold rb_Add xs (NewRingbuffer c)))
     = map Some (drop (length xs - effective_capacity c) (stamp 0 xs))
   \<and> LastSequenceNum (GetSnapshot (fold rb_Add xs (NewRingbuffer c))) = of_nat (length xs)
   \<and> rb_Len (fold rb_Add xs (NewRingbuffer c)) = int (min (length xs) (effective_capacity c))
   \<and> rb_Cap (fold rb_Add xs (NewRingbuffer c)) = int (effective_capacity c)"
proof -
  let ?rb = "fold rb_Add xs (NewRingbuffer c)"
  have r: "ring_rel ?rb (stamp 0 xs)" using ring_rel_run [OF ring_rel_new, of xs] by simp
  have "rb_Len ?rb = int (min (length xs) (effective_capacity c))"
    using r by (simp add: ring_rel_def Let_def rb_Len_def rb_Cap_run)
  with ring.snap_items [OF r] ring.snap_last [OF r] show ?thesis
    by (simp add: rb_Cap_run rb_Cap_def)
qed

text \<open>
  Reading only what is new. A reader that has seen the first \<open>k\<close> items gets from
  \<^verbatim>\<open>NewestN\<close>, asked for the difference of the sequence numbers, exactly the later items that are
  still held, in order; it misses items exactly when more arrived than the buffer holds.
\<close>

theorem ring_newest_since:
  assumes "k < length xs"
  shows "NewestN (int (length xs - k)) (GetSnapshot (fold rb_Add xs (NewRingbuffer c)))
       = map Some (drop (max k (length xs - effective_capacity c)) (stamp 0 xs))
     \<and> (length (NewestN (int (length xs - k)) (GetSnapshot (fold rb_Add xs (NewRingbuffer c)))) < length xs - k
        \<longleftrightarrow> effective_capacity c < length xs - k)"
proof -
  have r: "ring_rel (fold rb_Add xs (NewRingbuffer c)) (stamp 0 xs)" using ring_rel_run [OF ring_rel_new, of xs] by simp
  from assms have k: "k < length (stamp 0 xs)" by simp
  from ring.newest_since [OF r k] ring.newest_count [OF r k] show ?thesis by (auto simp: rb_Cap_run)
qed

definition demo_items :: "BufferItem list" where
  "demo_items = map (\<lambda>t. \<lparr>Timestamp = t, Payload = [], SequenceNum = 0\<rparr>) [1, 2, 3, 4, 5]"

theorem ring_newest_since_witness:
  "NewestN 2 (GetSnapshot (fold rb_Add demo_items NewRingbufferWithDefaultCapacity)) = map Some (drop 3 (stamp 0 demo_items))"
proof -
  have l: "length demo_items = 5" by (simp add: demo_items_def)
  have "effective_capacity RingBufferCapacity = 3" by (simp add: effective_capacity_def RingBufferCapacity_def)
  with ring_newest_since [of 3 demo_items RingBufferCapacity] l show ?thesis
    by (simp add: NewRingbufferWithDefaultCapacity_def)
qed

end
