(* ===== verification/Topic_Bundle.thy ===== *)
theory Topic_Bundle
  imports UMH_Prelude "HOL-Library.AList"
begin

text \<open>
  The data the topic browser exchanges: the messages of
  \<^verbatim>\<open>umh-core/pkg/communicator/models/topicbrowser/pb\<close> that the code reads, the topic hash of
  \<^verbatim>\<open>umh-core/pkg/communicator/topicbrowser/simulator.go\<close>, and the two upsert loops that the cache
  (\<^verbatim>\<open>cache.go\<close>) and the communicator (\<^verbatim>\<open>communicator.go\<close>) share. The protobuf codec and the
  hash function are outside the repository's own code: they are the fields of \<open>codec\<close>.
\<close>

section \<open>Messages\<close>

text \<open>The fields the code looks at; \<open>EventRest\<close> is the remaining content of an event.\<close>

record EventTableEntry =
  UnsTreeId :: string
  ProducedAtMs :: u64
  EventRest :: string

record TopicInfo =
  Level0 :: string
  LocationSublevels :: "string list"
  DataContract :: string
  VirtualPath :: "string option"
  TopicName :: string
  Metadata :: "(string \<times> string) list"

text \<open>The topic map of a bundle is listed in the order in which Go happens to range over it.\<close>

record UnsBundle =
  Events :: "EventTableEntry list"
  UnsMap :: "(string \<times> TopicInfo) list"

record codec =
  proto_Unmarshal :: "string \<Rightarrow> goerror + UnsBundle"
  proto_Marshal :: "UnsBundle \<Rightarrow> goerror + string"
  xxhash_hex :: "string \<Rightarrow> string"

section \<open>Topic hash\<close>

definition nul_terminated :: "string list \<Rightarrow> string" where
  "nul_terminated ss = concat (map (\<lambda>s. s @ [CHR 0x00]) ss)"

text \<open>The components in the order in which they are written to the hasher.\<close>

definition hash_components :: "TopicInfo \<Rightarrow> string list" where
  "hash_components info =
     [Level0 info] @ LocationSublevels info @ [DataContract info]
     @ (case VirtualPath info of None \<Rightarrow> [] | Some v \<Rightarrow> [v]) @ [TopicName info]"

definition HashUNSTableEntry :: "codec \<Rightarrow> TopicInfo \<Rightarrow> string" where
  "HashUNSTableEntry cd info = xxhash_hex cd (nul_terminated (hash_components info))"

section \<open>Upserts\<close>

fun upsert_events :: "EventTableEntry list \<Rightarrow> (string \<rightharpoonup> EventTableEntry) \<Rightarrow> (string \<rightharpoonup> EventTableEntry)" where
  "upsert_events [] m = m"
| "upsert_events (e # es) m =
     upsert_events es
       (case m (UnsTreeId e) of
          None \<Rightarrow> m(UnsTreeId e \<mapsto> e)
        | Some existing \<Rightarrow>
            if ProducedAtMs existing < ProducedAtMs e then m(UnsTreeId e \<mapsto> e) else m)"

text \<open>The topic map is an association list with distinct keys, since its size is reported.\<close>

fun upsert_topics :: "codec \<Rightarrow> (string \<times> TopicInfo) list \<Rightarrow> (string \<times> TopicInfo) list \<Rightarrow> (string \<times> TopicInfo) list" where
  "upsert_topics cd [] m = m"
| "upsert_topics cd ((_, info) # es) m = upsert_topics cd es (AList.update (HashUNSTableEntry cd info) info m)"

lemma upsert_topics_distinct: "distinct (map fst m) \<Longrightarrow> distinct (map fst (upsert_topics cd es m))"
  by (induction cd es m rule: upsert_topics.induct) (simp_all add: distinct_update)

lemma upsert_topics_keys:
  "fst ` set (upsert_topics cd es m) = fst ` set m \<union> (HashUNSTableEntry cd \<circ> snd) ` set es"
  by (induction cd es m rule: upsert_topics.induct) (auto simp: dom_update)

section \<open>Newest event wins\<close>

lemma upsert_events_append: "upsert_events (xs @ ys) m = upsert_events ys (upsert_events xs m)"
  by (induction xs arbitrary: m) simp_all

text \<open>All versions of an event that a key has seen: the stored one and the incoming ones.\<close>

definition versions :: "EventTableEntry list \<Rightarrow> (string \<rightharpoonup> EventTableEntry) \<Rightarrow> string \<Rightarrow> EventTableEntry set" where
  "versions es m k = set_option (m k) \<union> {e \<in> set es. UnsTreeId e = k}"

lemma upsert_events_newest:
  "(upsert_events es m k = None \<longleftrightarrow> versions es m k = {})
   \<and> (\<forall>e. upsert_events es m k = Some e \<longrightarrow>
        e \<in> versions es m k \<and> (\<forall>e' \<in> versions es m k. ProducedAtMs e' \<le> ProducedAtMs e))"
proof (induction es arbitrary: m)
  case Nil
  show ?case by (cases "m k") (simp_all add: versions_def)
next
  case (Cons x es)
  let ?m = "case m (UnsTreeId x) of None \<Rightarrow> m(UnsTreeId x \<mapsto> x)
     | Some old \<Rightarrow> if ProducedAtMs old < ProducedAtMs x then m(UnsTreeId x \<mapsto> x) else m"
  have sub: "versions es ?m k \<subseteq> versions (x # es) m k" "versions es ?m k = {} \<longleftrightarrow> versions (x # es) m k = {}"
    by (auto simp: versions_def split: option.splits if_splits)
  have dom: "\<exists>e'' \<in> versions es ?m k. ProducedAtMs e' \<le> ProducedAtMs e''" if "e' \<in> versions (x # es) m k" for e'
  proof (cases "UnsTreeId x = k")
    case False
    then have "?m k = m k" by (auto split: option.splits)
    with that False show ?thesis by (auto simp: versions_def)
  next
    case True
    have "\<exists>y. ?m k = Some y \<and> ProducedAtMs x \<le> ProducedAtMs y
        \<and> (\<forall>old. m k = Some old \<longrightarrow> ProducedAtMs old \<le> ProducedAtMs y)"
    proof (cases "m k")
      case (Some a)
      with True show ?thesis
        by (cases "ProducedAtMs a < ProducedAtMs x") (simp_all add: not_less order.strict_implies_order)
    qed (use True in simp)
    then obtain y where y: "?m k = Some y" "ProducedAtMs x \<le> ProducedAtMs y"
      "\<forall>old. m k = Some old \<longrightarrow> ProducedAtMs old \<le> ProducedAtMs y" by blast
    from that True consider "e' \<in> versions es ?m k" | "e' = x" | "m k = Some e'"
      by (auto simp: versions_def)
    then show ?thesis
    proof cases
      case 1
      then show ?thesis by blast
    qed (use y in \<open>auto simp: versions_def\<close>)
  qed
  have step: "upsert_events (x # es) m k = upsert_events es ?m k" by simp
  note ih = Cons.IH [of ?m]
  show ?case
    unfolding step
  proof (intro conjI allI impI ballI)
    show "upsert_events es ?m k = None \<longleftrightarrow> versions (x # es) m k = {}" using ih sub(2) by simp
  next
    fix e
    assume e: "upsert_events es ?m k = Some e"
    with ih sub(1) show "e \<in> versions (x # es) m k" by blast
    fix e'
    assume "e' \<in> versions (x # es) m k"
    from dom [OF this] obtain e'' where "e'' \<in> versions es ?m k" "ProducedAtMs e' \<le> ProducedAtMs e''" by blast
    moreover with e ih have "ProducedAtMs e'' \<le> ProducedAtMs e" by blast
    ultimately show "ProducedAtMs e' \<le> ProducedAtMs e" by (rule_tac order_trans)
  qed
qed

lemma upsert_events_stamp:
  assumes "\<And>j. map_option ProducedAtMs (m j) = map_option ProducedAtMs (m' j)" and "set es = set es'"
  shows "map_option ProducedAtMs (upsert_events es m k) = map_option ProducedAtMs (upsert_events es' m' k)"
proof -
  have le: "map_option ProducedAtMs (upsert_events xs n k) = Some p \<Longrightarrow>
      \<exists>q \<ge> p. map_option ProducedAtMs (upsert_events ys n' k) = Some q"
    if "\<And>j. map_option ProducedAtMs (n j) = map_option ProducedAtMs (n' j)" "set xs = set ys" for xs ys n n' p
  proof -
    note same = that
    assume "map_option ProducedAtMs (upsert_events xs n k) = Some p"
    then obtain e where e: "upsert_events xs n k = Some e" "p = ProducedAtMs e" by auto
    then have "e \<in> versions xs n k" using upsert_events_newest [of xs n k] by blast
    then have "\<exists>e2 \<in> versions ys n' k. ProducedAtMs e2 = ProducedAtMs e"
      using same(1) [of k] same(2) by (cases "n k"; cases "n' k") (auto simp: versions_def)
    then obtain e2 where e2: "e2 \<in> versions ys n' k" "ProducedAtMs e2 = ProducedAtMs e" by blast
    then obtain e3 where "upsert_events ys n' k = Some e3"
      using upsert_events_newest [of ys n' k] by (cases "upsert_events ys n' k") auto
    with e e2 upsert_events_newest [of ys n' k] show ?thesis by fastforce
  qed
  show ?thesis
  proof (cases "map_option ProducedAtMs (upsert_events es m k)")
    case (Some p)
    from le [OF assms Some] obtain q where q: "q \<ge> p" "map_option ProducedAtMs (upsert_events es' m' k) = Some q" by blast
    from le [OF assms(1) [symmetric] assms(2) [symmetric] q(2)] Some q show ?thesis by auto
  next
    case None
    show ?thesis
    proof (cases "map_option ProducedAtMs (upsert_events es' m' k)")
      case (Some p)
      from le [OF assms(1) [symmetric] assms(2) [symmetric] Some] None show ?thesis by auto
    qed (use None in simp)
  qed
qed

section \<open>What the hash distinguishes\<close>

lemma nul_terminated_inj:
  assumes "\<forall>s \<in> set xs \<union> set ys. CHR 0x00 \<notin> set s" and "nul_terminated xs = nul_terminated ys"
  shows "xs = ys"
  using assms
proof (induction xs arbitrary: ys)
  case Nil
  then show ?case by (cases ys) (simp_all add: nul_terminated_def)
next
  case (Cons x xs)
  then obtain y ys' where ys: "ys = y # ys'" by (cases ys) (simp_all add: nul_terminated_def)
  let ?nz = "\<lambda>c. c \<noteq> CHR 0x00"
  have "takeWhile ?nz (z @ CHR 0x00 # r) = z \<and> dropWhile ?nz (z @ CHR 0x00 # r) = CHR 0x00 # r"
    if "CHR 0x00 \<notin> set z" for z r
    using that by (induction z) auto
  moreover have "x @ CHR 0x00 # nul_terminated xs = y @ CHR 0x00 # nul_terminated ys'"
    using Cons.prems(2) ys by (simp add: nul_terminated_def)
  ultimately have "x = y" "nul_terminated xs = nul_terminated ys'"
    using Cons.prems(1) ys by (metis Un_iff list.set_intros(1), metis Un_iff list.inject list.set_intros(1))
  with Cons ys show ?case by simp
qed

text \<open>The naming convention of the namespace: only the data contract starts with an underscore.\<close>

definition starts_underscore :: "string \<Rightarrow> bool" where
  "starts_underscore s = (case s of c # _ \<Rightarrow> c = CHR ''_'' | [] \<Rightarrow> False)"

definition contract_marked :: "TopicInfo \<Rightarrow> bool" where
  "contract_marked t \<longleftrightarrow> starts_underscore (DataContract t) \<and> list_all (\<lambda>l. \<not> starts_underscore l) (LocationSublevels t)"

definition same_topic :: "TopicInfo \<Rightarrow> TopicInfo \<Rightarrow> bool" where
  "same_topic a b \<longleftrightarrow> Level0 a = Level0 b \<and> LocationSublevels a = LocationSublevels b
     \<and> DataContract a = DataContract b \<and> VirtualPath a = VirtualPath b \<and> TopicName a = TopicName b"

lemma marked_split_unique:
  assumes "xs @ x # us = ys @ y # vs" and "P x" and "P y"
    and "list_all (\<lambda>z. \<not> P z) xs" and "list_all (\<lambda>z. \<not> P z) ys"
  shows "xs = ys \<and> x = y \<and> us = vs"
  using assms
proof (induction xs arbitrary: ys)
  case Nil
  then show ?case by (cases ys) auto
next
  case (Cons z zs)
  then show ?case by (cases ys) auto
qed

lemma hash_components_marked:
  assumes "contract_marked a" and "contract_marked b" and "hash_components a = hash_components b"
  shows "same_topic a b"
proof -
  let ?t = "\<lambda>t. (case VirtualPath t of None \<Rightarrow> [] | Some v \<Rightarrow> [v]) @ [TopicName t]"
  have "LocationSublevels a @ DataContract a # ?t a = LocationSublevels b @ DataContract b # ?t b"
    and l: "Level0 a = Level0 b"
    using assms(3) by (simp_all add: hash_components_def)
  from marked_split_unique [where P = starts_underscore, OF this(1)] assms(1,2)
  have "LocationSublevels a = LocationSublevels b" "DataContract a = DataContract b" "?t a = ?t b"
    by (simp_all add: contract_marked_def)
  with l show ?thesis by (auto simp: same_topic_def split: option.splits)
qed

section \<open>Properties\<close>

text \<open>
  What the topic hash is computed from. For components without NUL bytes two topics feed the
  hash function the same bytes exactly when their lists of components are equal, and under the
  naming convention (only data contracts start with an underscore) only when location, contract,
  virtual path and name all agree.
\<close>

theorem topic_hash_input:
  assumes "\<forall>s \<in> set (hash_components a) \<union> set (hash_components b). CHR 0x00 \<notin> set s"
  shows "(nul_terminated (hash_components a) = nul_terminated (hash_components b)
        \<longleftrightarrow> hash_components a = hash_components b)
     \<and> (contract_marked a \<and> contract_marked b
        \<and> nul_terminated (hash_components a) = nul_terminated (hash_components b) \<longrightarrow> same_topic a b)"
  using nul_terminated_inj [OF assms] hash_components_marked by metis

definition demo_topic :: TopicInfo where
  "demo_topic = \<lparr>Level0 = ''corpA'', LocationSublevels = [''plant-1''], DataContract = ''_raw'',
     VirtualPath = Some ''axis'', TopicName = ''pos'', Metadata = []\<rparr>"

theorem topic_hash_input_witness:
  "same_topic demo_topic (demo_topic\<lparr>Metadata := [(''unit'', ''mm'')]\<rparr>)"
proof -
  let ?b = "demo_topic\<lparr>Metadata := [(''unit'', ''mm'')]\<rparr>"
  have "\<forall>s \<in> set (hash_components demo_topic) \<union> set (hash_components ?b). CHR 0x00 \<notin> set s"
    by (simp add: hash_components_def demo_topic_def)
  moreover have "contract_marked demo_topic" "contract_marked ?b" "hash_components demo_topic = hash_components ?b"
    by (simp_all add: contract_marked_def starts_underscore_def demo_topic_def hash_components_def)
  ultimately show ?thesis using topic_hash_input by metis
qed

text \<open>
  The delimiters do not separate the fields. A topic without virtual path and the topic one
  location level up, whose contract and virtual path are the shifted fields, always get the same
  hash, whatever the hash function is.
\<close>

theorem topic_hash_shift_collision:
  "HashUNSTableEntry cd \<lparr>Level0 = l, LocationSublevels = ls @ [c], DataContract = v, VirtualPath = None,
      TopicName = n, Metadata = md\<rparr>
   = HashUNSTableEntry cd \<lparr>Level0 = l, LocationSublevels = ls, DataContract = c, VirtualPath = Some v,
      TopicName = n, Metadata = md'\<rparr>"
  by (simp add: HashUNSTableEntry_def hash_components_def)

end
