(* ===== verification/Topic_Cache.thy ===== *)
theory Topic_Cache
  imports Ring_Buffer Topic_Bundle
begin

text \<open>
  The topic browser cache, \<^verbatim>\<open>umh-core/pkg/communicator/topicbrowser/cache.go\<close>: it polls
  snapshots of the ring buffer, processes only what is new by sequence number, and keeps the newest
  event of every topic. Dereferencing a nil item panics; the model returns \<^const>\<open>None\<close> there, and
  the lemmas show that snapshots of the ring buffer never cause it. The maps of the cache are HOL
  maps; where the code ranges over one of them the order is an argument.
\<close>

section \<open>State\<close>

text \<open>An observed state: a nil pointer, a snapshot whose slice is nil, or a snapshot.\<close>

datatype observed = ObsNil | ObsNilItems | ObsSnapshot RingBufferSnapshot

record ProcessingResult =
  LatestTimestamp :: nat
  DebugInfo :: string
  ProcessedCount :: nat
  SkippedCount :: nat

record Cache =
  lastSentTimestamp :: nat
  lastCachedTimestamp :: nat
  eventMap :: "string \<rightharpoonup> EventTableEntry"
  unsMap :: "(string \<times> TopicInfo) list"
  lastProcessedSequenceNum :: u64

definition NewCache :: Cache where
  "NewCache = \<lparr>lastSentTimestamp = 0, lastCachedTimestamp = 0, eventMap = Map.empty, unsMap = [],
     lastProcessedSequenceNum = 0\<rparr>"

definition empty_result :: ProcessingResult where
  "empty_result = \<lparr>LatestTimestamp = 0, DebugInfo = [], ProcessedCount = 0, SkippedCount = 0\<rparr>"

section \<open>Processing\<close>

definition generateDebugInfo :: "bool \<Rightarrow> u64 \<Rightarrow> u64 \<Rightarrow> ProcessingResult \<Rightarrow> ProcessingResult" where
  "generateDebugInfo dataLost minSeq maxSeq r =
     r\<lparr>DebugInfo :=
        (if ProcessedCount r = 0 then
           (if dataLost then ''Data loss detected, processed 0 buffers, skipped '' @ itoa (SkippedCount r)
            else ''Processed 0 buffers, skipped '' @ itoa (SkippedCount r))
         else
           (if dataLost then ''Data loss detected, processed '' else ''Processed '')
           @ itoa (ProcessedCount r) @ '' buffers (sequence '' @ itoa (unat minSeq) @ '' to '' @ itoa (unat maxSeq)
           @ ''), skipped '' @ itoa (SkippedCount r))\<rparr>"

definition processBuffer :: "codec \<Rightarrow> BufferItem \<Rightarrow> Cache \<Rightarrow> goerror option \<times> Cache" where
  "processBuffer cd buf c =
     (case proto_Unmarshal cd (Payload buf) of
        Inl e \<Rightarrow> (Some e, c)
      | Inr ub \<Rightarrow>
          (None, c\<lparr>eventMap := upsert_events (Events ub) (eventMap c),
                   unsMap := upsert_topics cd (UnsMap ub) (unsMap c)\<rparr>))"

text \<open>The local variables of the loop in \<^verbatim>\<open>ProcessIncrementalUpdates\<close>.\<close>

record scan =
  sc_latest :: nat
  sc_min :: u64
  sc_max :: u64
  sc_result :: ProcessingResult

fun scan_items :: "codec \<Rightarrow> BufferItem option list \<Rightarrow> scan \<Rightarrow> Cache \<Rightarrow> (scan \<times> Cache) option" where
  "scan_items cd [] sc c = Some (sc, c)"
| "scan_items cd (None # bs) sc c = None"
| "scan_items cd (Some buf # bs) sc c =
     (let sc1 = sc\<lparr>sc_latest := (if Timestamp buf > sc_latest sc then Timestamp buf else sc_latest sc),
                   sc_min := (if sc_min sc = 0 \<or> SequenceNum buf < sc_min sc then SequenceNum buf else sc_min sc),
                   sc_max := (if SequenceNum buf > sc_max sc then SequenceNum buf else sc_max sc)\<rparr>;
          r = sc_result sc1
      in case processBuffer cd buf c of
           (Some _, c') \<Rightarrow> scan_items cd bs (sc1\<lparr>sc_result := r\<lparr>SkippedCount := SkippedCount r + 1\<rparr>\<rparr>) c'
         | (None, c') \<Rightarrow>
             scan_items cd bs
               (sc1\<lparr>sc_result := r\<lparr>ProcessedCount := ProcessedCount r + 1,
                  LatestTimestamp := (if Timestamp buf > LatestTimestamp r then Timestamp buf else LatestTimestamp r)\<rparr>\<rparr>) c')"

definition ProcessIncrementalUpdates :: "codec \<Rightarrow> observed \<Rightarrow> Cache \<Rightarrow> (ProcessingResult \<times> Cache) option" where
  "ProcessIncrementalUpdates cd obs c =
     (case obs of
        ObsSnapshot snapshot \<Rightarrow>
          let lastSequenceNum = LastSequenceNum snapshot
          in if lastSequenceNum \<le> lastProcessedSequenceNum c
             then Some (empty_result\<lparr>DebugInfo := ''No new buffers to process (last processed sequence: ''
                     @ itoa (unat (lastProcessedSequenceNum c)) @ '', current: '' @ itoa (unat lastSequenceNum) @ '')''\<rparr>, c)
             else
               let newItemCount = lastSequenceNum - lastProcessedSequenceNum c;
                   itemsToProcess = NewestN (sint newItemCount) snapshot;
                   dataLost = (of_nat (length itemsToProcess) < newItemCount)
               in case scan_items cd itemsToProcess
                         \<lparr>sc_latest = 0, sc_min = 0, sc_max = 0, sc_result = empty_result\<rparr> c of
                    None \<Rightarrow> None
                  | Some (sc, c') \<Rightarrow>
                      Some (generateDebugInfo dataLost (sc_min sc) (sc_max sc) (sc_result sc),
                            c'\<lparr>lastProcessedSequenceNum := lastSequenceNum,
                               lastCachedTimestamp := (if sc_latest sc \<noteq> 0 then sc_latest sc else lastCachedTimestamp c')\<rparr>)
      | _ \<Rightarrow> Some (empty_result\<lparr>DebugInfo := ''No observed state or buffer provided''\<rparr>, c))"

section \<open>Reading\<close>

definition GetPendingBuffers :: "observed \<Rightarrow> nat \<Rightarrow> BufferItem list option" where
  "GetPendingBuffers obs threshold =
     (case obs of
        ObsSnapshot snapshot \<Rightarrow>
          if None \<in> set (Items snapshot) then None
          else Some (filter (\<lambda>b. Timestamp b > threshold) (map the (Items snapshot)))
      | _ \<Rightarrow> Some [])"

text \<open>\<open>eks\<close> and \<open>uks\<close> are the keys of the two maps in the order in which they are ranged over.\<close>

definition ToUnsBundleProto :: "codec \<Rightarrow> string list \<Rightarrow> string list \<Rightarrow> Cache \<Rightarrow> string option" where
  "ToUnsBundleProto cd eks uks c =
     (let ub = \<lparr>Events = List.map_filter (eventMap c) eks,
                UnsMap = map (\<lambda>info. (HashUNSTableEntry cd info, info)) (List.map_filter (map_of (unsMap c)) uks)\<rparr>
      in case proto_Marshal cd ub of Inl _ \<Rightarrow> None | Inr s \<Rightarrow> Some s)"

definition GetKeys :: "Cache \<Rightarrow> string set" where
  "GetKeys c = dom (eventMap c)"

definition Size :: "Cache \<Rightarrow> nat" where
  "Size c = length (unsMap c)"

definition GetLastProcessedSequenceNum :: "Cache \<Rightarrow> u64" where
  "GetLastProcessedSequenceNum c = lastProcessedSequenceNum c"

definition GetLastSentTimestamp :: "Cache \<Rightarrow> nat" where
  "GetLastSentTimestamp c = lastSentTimestamp c"

definition SetLastSentTimestamp :: "nat \<Rightarrow> Cache \<Rightarrow> Cache" where
  "SetLastSentTimestamp t c = c\<lparr>lastSentTimestamp := t\<rparr>"

definition GetLastCachedTimestamp :: "Cache \<Rightarrow> nat" where
  "GetLastCachedTimestamp c = lastCachedTimestamp c"

section \<open>What a scan does\<close>

definition decodes :: "codec \<Rightarrow> BufferItem \<Rightarrow> bool" where
  "decodes cd b = (case proto_Unmarshal cd (Payload b) of Inl _ \<Rightarrow> False | Inr _ \<Rightarrow> True)"

definition bundle_events :: "codec \<Rightarrow> BufferItem \<Rightarrow> EventTableEntry list" where
  "bundle_events cd b = (case proto_Unmarshal cd (Payload b) of Inl _ \<Rightarrow> [] | Inr ub \<Rightarrow> Events ub)"

definition bundle_topics :: "codec \<Rightarrow> BufferItem \<Rightarrow> (string \<times> TopicInfo) list" where
  "bundle_topics cd b = (case proto_Unmarshal cd (Payload b) of Inl _ \<Rightarrow> [] | Inr ub \<Rightarrow> UnsMap ub)"

definition all_events :: "codec \<Rightarrow> BufferItem list \<Rightarrow> EventTableEntry list" where
  "all_events cd bs = concat (map (bundle_events cd) bs)"

definition all_topics :: "codec \<Rightarrow> BufferItem list \<Rightarrow> (string \<times> TopicInfo) list" where
  "all_topics cd bs = concat (map (bundle_topics cd) bs)"

lemma upsert_topics_append: "upsert_topics cd (xs @ ys) m = upsert_topics cd ys (upsert_topics cd xs m)"
  by (induction xs arbitrary: m) auto

lemma all_append [simp]:
  "all_events cd (xs @ ys) = all_events cd xs @ all_events cd ys"
  "all_topics cd (xs @ ys) = all_topics cd xs @ all_topics cd ys"
  "all_events cd [] = []" "all_topics cd [] = []"
  by (simp_all add: all_events_def all_topics_def)

lemma stamp_payloads [simp]:
  "all_events cd (stamp n xs) = all_events cd xs" "all_topics cd (stamp n xs) = all_topics cd xs"
  by (induction xs arbitrary: n)
    (simp_all add: all_events_def all_topics_def bundle_events_def bundle_topics_def)

text \<open>The effect of processing the items \<open>bs\<close> on the cached maps.\<close>

definition absorbed :: "codec \<Rightarrow> BufferItem list \<Rightarrow> Cache \<Rightarrow> Cache \<Rightarrow> bool" where
  "absorbed cd bs c c' \<longleftrightarrow> eventMap c' = upsert_events (all_events cd bs) (eventMap c)
     \<and> unsMap c' = upsert_topics cd (all_topics cd bs) (unsMap c)"

lemma absorbed_Nil [simp]: "absorbed cd [] c c"
  by (simp add: absorbed_def all_events_def all_topics_def)

lemma absorbed_append: "absorbed cd xs a b \<Longrightarrow> absorbed cd ys b c \<Longrightarrow> absorbed cd (xs @ ys) a c"
  by (simp add: absorbed_def upsert_events_append upsert_topics_append)

lemma processBuffer_cases:
  "fst (processBuffer cd b c) = None \<longleftrightarrow> decodes cd b"
  "absorbed cd [b] c (snd (processBuffer cd b c))"
  "lastProcessedSequenceNum (snd (processBuffer cd b c)) = lastProcessedSequenceNum c"
  by (auto simp: processBuffer_def decodes_def absorbed_def all_events_def all_topics_def bundle_events_def
      bundle_topics_def split: sum.splits)

lemma scan_items_result:
  "\<exists>sc' c'. scan_items cd (map Some bs) sc c = Some (sc', c') \<and> absorbed cd bs c c'
     \<and> lastProcessedSequenceNum c' = lastProcessedSequenceNum c
     \<and> ProcessedCount (sc_result sc') = ProcessedCount (sc_result sc) + length (filter (decodes cd) bs)
     \<and> SkippedCount (sc_result sc') = SkippedCount (sc_result sc) + length (filter (\<lambda>b. \<not> decodes cd b) bs)"
proof (induction bs arbitrary: sc c)
  case (Cons b bs)
  obtain err c1 where p: "processBuffer cd b c = (err, c1)" by fastforce
  have p': "(err = None) = decodes cd b" "absorbed cd [b] c c1"
    "lastProcessedSequenceNum c1 = lastProcessedSequenceNum c"
    using processBuffer_cases [of cd b c] p by simp_all
  have step: "absorbed cd bs c1 c' \<Longrightarrow> absorbed cd (b # bs) c c'" for c'
    using absorbed_append [OF p'(2), of bs c'] by simp
  obtain sc1 where sc1: "scan_items cd (map Some (b # bs)) sc c = scan_items cd (map Some bs) sc1 c1"
    "ProcessedCount (sc_result sc1) = ProcessedCount (sc_result sc) + (if decodes cd b then 1 else 0)"
    "SkippedCount (sc_result sc1) = SkippedCount (sc_result sc) + (if decodes cd b then 0 else 1)"
    using p p'(1) by (cases err) (force simp: Let_def)+
  from Cons.IH [of sc1 c1] obtain sc' c' where ih: "scan_items cd (map Some bs) sc1 c1 = Some (sc', c')"
    "absorbed cd bs c1 c'" "lastProcessedSequenceNum c' = lastProcessedSequenceNum c1"
    "ProcessedCount (sc_result sc') = ProcessedCount (sc_result sc1) + length (filter (decodes cd) bs)"
    "SkippedCount (sc_result sc') = SkippedCount (sc_result sc1) + length (filter (\<lambda>b. \<not> decodes cd b) bs)"
    by blast
  show ?case
    unfolding sc1(1) by (intro exI conjI, rule ih(1)) (use ih sc1 p' step in auto)
qed simp

lemma sint_of_nat_small: "n < 2 ^ 63 \<Longrightarrow> sint (of_nat n :: u64) = int n"
  by (simp add: signed_of_nat signed_take_bit_int_eq_self)

lemma u64_of_nat_less: "m < 2 ^ 64 \<Longrightarrow> n < 2 ^ 64 \<Longrightarrow> (of_nat m :: u64) < of_nat n \<longleftrightarrow> m < n"
  by (simp add: word_less_nat_alt unat_of_nat)

section \<open>Polling a bounded log\<close>

definition poll_skips :: "nat \<Rightarrow> nat \<Rightarrow> nat \<Rightarrow> nat" where
  "poll_skips k n capacity = max k (n - capacity)"

context bounded_log
begin

text \<open>
  One poll by a cache that has seen the first \<open>k\<close> items: it never panics, absorbs exactly the
  later items that are still held, and counts them.
\<close>

lemma poll:
  assumes "stands_for b h" and "length h < 2 ^ 63" and "k \<le> length h"
    and "lastProcessedSequenceNum c = of_nat k"
  shows "\<exists>r c'. ProcessIncrementalUpdates cd (ObsSnapshot (snap b)) c = Some (r, c')
     \<and> lastProcessedSequenceNum c' = of_nat (length h)
     \<and> absorbed cd (drop (poll_skips k (length h) (cap b)) h) c c'
     \<and> ProcessedCount r + SkippedCount r = min (length h - k) (cap b)"
proof (cases "k = length h")
  case True
  with assms snap_last [OF assms(1)] show ?thesis
    by (simp add: ProcessIncrementalUpdates_def Let_def empty_result_def poll_skips_def)
next
  case False
  then have k: "k < length h" using assms(3) by simp
  let ?n = "of_nat (length h - k) :: u64"
  have gt: "\<not> LastSequenceNum (snap b) \<le> lastProcessedSequenceNum c"
    using k assms(2,4) snap_last [OF assms(1)] by (simp add: not_le u64_of_nat_less)
  have cnt: "LastSequenceNum (snap b) - lastProcessedSequenceNum c = ?n"
    using k assms(4) snap_last [OF assms(1)] by (simp add: of_nat_diff)
  have "sint ?n = int (length h - k)" using assms(2) by (intro sint_of_nat_small) simp
  then have items: "NewestN (sint ?n) (snap b) = map Some (drop (poll_skips k (length h) (cap b)) h)"
    using newest_since [OF assms(1) k] by (simp add: poll_skips_def)
  let ?bs = "drop (poll_skips k (length h) (cap b)) h"
  from scan_items_result [of cd ?bs "\<lparr>sc_latest = 0, sc_min = 0, sc_max = 0, sc_result = empty_result\<rparr>" c]
  obtain sc' c' where sc: "scan_items cd (map Some ?bs) \<lparr>sc_latest = 0, sc_min = 0, sc_max = 0,
        sc_result = empty_result\<rparr> c = Some (sc', c')" "absorbed cd ?bs c c'"
    "ProcessedCount (sc_result sc') = length (filter (decodes cd) ?bs)"
    "SkippedCount (sc_result sc') = length (filter (\<lambda>b. \<not> decodes cd b) ?bs)"
    by (auto simp: empty_result_def)
  have "length (filter (decodes cd) ?bs) + length (filter (\<lambda>b. \<not> decodes cd b) ?bs) = min (length h - k) (cap b)"
    unfolding sum_length_filter_compl using k by (auto simp: poll_skips_def)
  with sc gt cnt items snap_last [OF assms(1)] show ?thesis
    by (simp add: ProcessIncrementalUpdates_def Let_def generateDebugInfo_def absorbed_def)
qed

end

text \<open>Batches of items are added to the buffer and the cache polls after each batch.\<close>

fun poll_batches :: "codec \<Rightarrow> BufferItem list list \<Rightarrow> Ringbuffer \<Rightarrow> Cache \<Rightarrow> (Ringbuffer \<times> Cache) option" where
  "poll_batches cd [] rb c = Some (rb, c)"
| "poll_batches cd (xs # xss) rb c =
     (let rb' = fold rb_Add xs rb
      in case ProcessIncrementalUpdates cd (ObsSnapshot (GetSnapshot rb')) c of
           None \<Rightarrow> None
         | Some (_, c') \<Rightarrow> poll_batches cd xss rb' c')"

lemma length_rb_buf_fold [simp]: "length (rb_buf (fold rb_Add xs rb)) = length (rb_buf rb)"
  by (induction xs arbitrary: rb) (simp_all add: rb_Add_def Let_def)

lemma poll_batches_lossless:
  assumes "ring_rel rb h" and "lastProcessedSequenceNum c = of_nat (length h)"
    and "\<forall>xs \<in> set xss. length xs \<le> length (rb_buf rb)"
    and "length h + length (concat xss) < 2 ^ 63"
  shows "\<exists>rb' c'. poll_batches cd xss rb c = Some (rb', c')
     \<and> lastProcessedSequenceNum c' = of_nat (length h + length (concat xss))
     \<and> absorbed cd (concat xss) c c'"
  using assms
proof (induction xss arbitrary: rb c h)
  case (Cons xs xss)
  let ?rb = "fold rb_Add xs rb" and ?h = "h @ stamp (length h) xs"
  have r: "ring_rel ?rb ?h" by (rule ring_rel_run [OF Cons.prems(1)])
  from ring.poll [OF r _ _ Cons.prems(2), of cd] Cons.prems(4)
  obtain res c1 where c1: "ProcessIncrementalUpdates cd (ObsSnapshot (GetSnapshot ?rb)) c = Some (res, c1)"
    "lastProcessedSequenceNum c1 = of_nat (length ?h)"
    "absorbed cd (drop (poll_skips (length h) (length ?h) (length (rb_buf ?rb))) ?h) c c1" by auto
  have "poll_skips (length h) (length ?h) (length (rb_buf ?rb)) = length h"
    using Cons.prems(3) by (auto simp: poll_skips_def max_def)
  with c1(3) have a: "absorbed cd xs c c1" by (simp add: absorbed_def)
  have "\<exists>rb' c'. poll_batches cd xss ?rb c1 = Some (rb', c')
     \<and> lastProcessedSequenceNum c' = of_nat (length ?h + length (concat xss)) \<and> absorbed cd (concat xss) c1 c'"
    using Cons.prems(3,4) c1(2) by (intro Cons.IH [OF r]) simp_all
  then show ?case using c1(1) absorbed_append [OF a] by (auto simp: add.assoc)
qed simp

section \<open>Properties\<close>

text \<open>
  An incremental update is exact. A cache that has processed the first \<open>k\<close> of the items ever
  added never panics on the buffer's snapshot; it absorbs exactly the later items that the buffer
  still holds, in order, counts each of them as processed or skipped, and is then up to date.
\<close>

theorem cache_poll_exact:
  assumes "length xs < 2 ^ 63" and "k \<le> length xs" and "lastProcessedSequenceNum c = of_nat k"
  shows "\<exists>r c'. ProcessIncrementalUpdates cd (ObsSnapshot (GetSnapshot (fold rb_Add xs (NewRingbuffer cp)))) c = Some (r, c')
     \<and> lastProcessedSequenceNum c' = of_nat (length xs)
     \<and> absorbed cd (drop (max k (length xs - effective_capacity cp)) (stamp 0 xs)) c c'
     \<and> ProcessedCount r + SkippedCount r = min (length xs - k) (effective_capacity cp)"
proof -
  have "ring_rel (fold rb_Add xs (NewRingbuffer cp)) (stamp 0 xs)" using ring_rel_run [OF ring_rel_new, of xs] by simp
  from ring.poll [OF this _ _ assms(3), of cd] assms(1,2) show ?thesis
    by (simp only: length_stamp rb_Cap_run poll_skips_def)
qed

text \<open>
  C35: the pipeline is loss-free while the reader keeps up. If at most as many items arrive between
  two polls as the buffer holds, then after any number of polls the cache knows a topic exactly when
  some decodable payload ever carried an event for it, and the event it keeps is one with the
  greatest production time of all events ever received for that topic.
\<close>

theorem cache_lossless:
  assumes "\<forall>xs \<in> set xss. length xs \<le> effective_capacity cp" and "length (concat xss) < 2 ^ 63"
  shows "\<exists>rb c. poll_batches cd xss (NewRingbuffer cp) NewCache = Some (rb, c)
     \<and> lastProcessedSequenceNum c = of_nat (length (concat xss))
     \<and> (\<forall>k. k \<in> GetKeys c \<longleftrightarrow> k \<in> UnsTreeId ` set (all_events cd (concat xss)))
     \<and> (\<forall>k e. eventMap c k = Some e \<longrightarrow> e \<in> set (all_events cd (concat xss)) \<and> UnsTreeId e = k
          \<and> (\<forall>e' \<in> set (all_events cd (concat xss)). UnsTreeId e' = k \<longrightarrow> ProducedAtMs e' \<le> ProducedAtMs e))"
proof -
  have "length (rb_buf (NewRingbuffer cp)) = effective_capacity cp" using rb_Cap_run [of "[]" cp] by simp
  with poll_batches_lossless [OF ring_rel_new, of NewCache xss cp cd] assms obtain rb c where
    p: "poll_batches cd xss (NewRingbuffer cp) NewCache = Some (rb, c)"
    and l: "lastProcessedSequenceNum c = of_nat (length (concat xss))"
    and a: "absorbed cd (concat xss) NewCache c"
    by (auto simp: NewCache_def)
  have v: "versions (all_events cd (concat xss)) (eventMap NewCache) k
      = {e \<in> set (all_events cd (concat xss)). UnsTreeId e = k}" for k
    by (simp add: versions_def NewCache_def)
  note nw = upsert_events_newest [of "all_events cd (concat xss)" "eventMap NewCache", unfolded v]
  have keys: "k \<in> GetKeys c \<longleftrightarrow> k \<in> UnsTreeId ` set (all_events cd (concat xss))" for k
    using a nw [of k] by (auto simp: GetKeys_def absorbed_def)
  have best: "eventMap c k = Some e \<longrightarrow> e \<in> set (all_events cd (concat xss)) \<and> UnsTreeId e = k
      \<and> (\<forall>e' \<in> set (all_events cd (concat xss)). UnsTreeId e' = k \<longrightarrow> ProducedAtMs e' \<le> ProducedAtMs e)" for k e
    using a nw [of k] by (simp add: absorbed_def)
  from p l keys best show ?thesis by blast
qed

section \<open>Witnesses\<close>

text \<open>A codec whose payloads are topic names: each carries one event of that topic.\<close>

definition demo_codec :: codec where
  "demo_codec = \<lparr>proto_Unmarshal = (\<lambda>p. if p = [] then Inl (ErrorNew 50 ''bad'')
        else Inr \<lparr>Events = [\<lparr>UnsTreeId = p, ProducedAtMs = of_nat (length p), EventRest = []\<rparr>], UnsMap = []\<rparr>),
     proto_Marshal = (\<lambda>ub. Inr []), xxhash_hex = (\<lambda>s. s)\<rparr>"

definition demo_payloads :: "string list \<Rightarrow> BufferItem list" where
  "demo_payloads ps = map (\<lambda>p. \<lparr>Timestamp = 1, Payload = p, SequenceNum = 0\<rparr>) ps"

theorem cache_poll_exact_witness:
  "\<exists>r c'. ProcessIncrementalUpdates demo_codec
      (ObsSnapshot (GetSnapshot (fold rb_Add (demo_payloads [''a'', [], ''b'']) (NewRingbuffer 2)))) NewCache = Some (r, c')
     \<and> lastProcessedSequenceNum c' = 3 \<and> ProcessedCount r + SkippedCount r = 2"
proof -
  have "effective_capacity 2 = 2" by (simp add: effective_capacity_def)
  moreover have "length (demo_payloads [''a'', [], ''b'']) = 3" by (simp add: demo_payloads_def)
  ultimately show ?thesis
    using cache_poll_exact [of "demo_payloads [''a'', [], ''b'']" 0 NewCache demo_codec 2]
    by (auto simp: NewCache_def)
qed

theorem cache_lossless_witness:
  "\<exists>rb c. poll_batches demo_codec [demo_payloads [''a'', ''b''], demo_payloads [''a'']] (NewRingbuffer 2) NewCache = Some (rb, c)
     \<and> ''b'' \<in> GetKeys c \<and> ''c'' \<notin> GetKeys c"
proof -
  let ?b = "[demo_payloads [''a'', ''b''], demo_payloads [''a'']]"
  have e: "set (all_events demo_codec (concat ?b)) = {\<lparr>UnsTreeId = ''a'', ProducedAtMs = 1, EventRest = []\<rparr>,
      \<lparr>UnsTreeId = ''b'', ProducedAtMs = 1, EventRest = []\<rparr>}"
    by (auto simp: all_events_def bundle_events_def demo_codec_def demo_payloads_def)
  have "\<forall>xs \<in> set ?b. length xs \<le> effective_capacity 2" "length (concat ?b) < 2 ^ 63"
    by (simp_all add: effective_capacity_def demo_payloads_def)
  from cache_lossless [OF this, of demo_codec] show ?thesis unfolding e by (elim exE conjE) simp
qed

end
