(* ===== verification/Topic_Communicator.thy ===== *)
theory Topic_Communicator
  imports Topic_Cache
begin

text \<open>
  The topic browser communicator, \<^verbatim>\<open>umh-core/pkg/communicator/topicbrowser/communicator.go\<close>, and
  the simulator that can feed it, \<^verbatim>\<open>simulator.go\<close>. The communicator ingests snapshots of the ring
  buffer, keeps the newest event of every topic, queues a re-encoded bundle per item, and hands the
  bundles above a watermark to subscribers. Its mutex makes every operation atomic. As in the cache,
  \<^const>\<open>None\<close> is the panic on a nil item, and timestamps are numbers with 0 the zero time.
\<close>

section \<open>State\<close>

datatype ProcessingSource = ProcessingSourceFSM | ProcessingSourceSimulator

fun source_String :: "ProcessingSource \<Rightarrow> string" where
  "source_String ProcessingSourceFSM = ''FSM''"
| "source_String ProcessingSourceSimulator = ''simulator''"

record queuedBundle =
  qb_Timestamp :: nat
  qb_Payload :: string

record SubscriberData =
  sd_LatestTimestamp :: nat
  UnsBundles :: "nat \<rightharpoonup> string"
  Summary :: string
  TopicCount :: nat

record Simulator =
  simObservedState :: RingBufferSnapshot
  sim_topics :: "string \<rightharpoonup> TopicInfo"
  sim_ticker :: int
  sim_simulatorEnabled :: bool

record TopicBrowserCommunicator =
  sentWatermark :: nat
  pendingWatermark :: nat
  tbc_eventMap :: "string \<rightharpoonup> EventTableEntry"
  tbc_unsMap :: "(string \<times> TopicInfo) list"
  tbc_simulator :: "Simulator option"
  pendingToSend :: "queuedBundle list"
  lastProcessedSequence :: u64
  maxPendingBuffers :: nat
  simulatorEnabled :: bool

definition MaxBundleSize :: int where "MaxBundleSize = 50 * 1024 * 1024"
definition MaxBufferSize :: int where "MaxBufferSize = 200 * 1024 * 1024"

definition NewTopicBrowserCommunicator :: TopicBrowserCommunicator where
  "NewTopicBrowserCommunicator = \<lparr>sentWatermark = 0, pendingWatermark = 0, tbc_eventMap = Map.empty,
     tbc_unsMap = [], tbc_simulator = None, pendingToSend = [], lastProcessedSequence = 0,
     maxPendingBuffers = 100, simulatorEnabled = False\<rparr>"

section \<open>Simulator\<close>

definition NewSimulator :: Simulator where
  "NewSimulator = \<lparr>simObservedState = \<lparr>Items = [], LastSequenceNum = 0\<rparr>, sim_topics = Map.empty, sim_ticker = 0,
     sim_simulatorEnabled = False\<rparr>"

definition sim_topic :: "string \<Rightarrow> string \<Rightarrow> TopicInfo" where
  "sim_topic name pump = \<lparr>Level0 = ''corpA'', LocationSublevels = [''plant-1'', ''line-4'', pump],
     DataContract = name, VirtualPath = None, TopicName = name, Metadata = []\<rparr>"

definition InitializeSimulator :: "codec \<Rightarrow> Simulator \<Rightarrow> Simulator" where
  "InitializeSimulator cd s =
     (let t1 = sim_topic ''uns.topic1'' ''pump-41'';
          t2 = sim_topic ''uns.topic2'' ''pump-42''
      in s\<lparr>sim_simulatorEnabled := True,
           sim_topics := [HashUNSTableEntry cd t1 \<mapsto> t1, HashUNSTableEntry cd t2 \<mapsto> t2]\<rparr>)"

text \<open>
  What a tick takes from its surroundings: the clock (as bundle time and in milliseconds), the order
  of the topics, and the random content of each event.
\<close>

record sim_env =
  se_now :: nat
  se_now_ms :: u64
  se_keys :: "string list"
  se_rest :: "string \<Rightarrow> string"

definition GenerateNewUnsBundle :: "codec \<Rightarrow> sim_env \<Rightarrow> Simulator \<Rightarrow> string" where
  "GenerateNewUnsBundle cd se s =
     (let ks = filter (\<lambda>k. sim_topics s k \<noteq> None) (se_keys se);
          entries = map (\<lambda>k. \<lparr>UnsTreeId = k, ProducedAtMs = se_now_ms se, EventRest = se_rest se k\<rparr>) ks
      in case proto_Marshal cd \<lparr>Events = entries, UnsMap = map (\<lambda>k. (k, the (sim_topics s k))) ks\<rparr> of
           Inl _ \<Rightarrow> []
         | Inr marshaled \<Rightarrow> marshaled)"

definition AddUnsBundleToSimObservedState :: "nat \<Rightarrow> string \<Rightarrow> Simulator \<Rightarrow> Simulator" where
  "AddUnsBundleToSimObservedState now bundle s =
     (let snap = simObservedState s;
          newItem = \<lparr>Timestamp = now, Payload = bundle, SequenceNum = of_nat (length (Items snap) + 1)\<rparr>;
          snap1 = (AppendNewest (Some newItem) snap)\<lparr>LastSequenceNum := SequenceNum newItem\<rparr>;
          snap2 = (if length (Items snap1) > 100 then snap1\<lparr>Items := tl (Items snap1)\<rparr> else snap1)
      in s\<lparr>simObservedState := snap2\<rparr>)"

definition Tick :: "codec \<Rightarrow> sim_env \<Rightarrow> Simulator \<Rightarrow> Simulator" where
  "Tick cd se s =
     (if \<not> sim_simulatorEnabled s then s
      else let s1 = s\<lparr>sim_ticker := sim_ticker s + 1\<rparr>
           in AddUnsBundleToSimObservedState (se_now se) (GenerateNewUnsBundle cd se s1) s1)"

definition NewTopicBrowserCommunicatorWithSimulator :: "codec \<Rightarrow> TopicBrowserCommunicator" where
  "NewTopicBrowserCommunicatorWithSimulator cd =
     NewTopicBrowserCommunicator\<lparr>tbc_simulator := Some (InitializeSimulator cd NewSimulator), simulatorEnabled := True\<rparr>"

section \<open>Ingesting snapshots\<close>

text \<open>None: a nil item; Some None: sizes are fine; Some (Some e): refused.\<close>

fun validate_items :: "BufferItem option list \<Rightarrow> int \<Rightarrow> goerror option option" where
  "validate_items [] totalSize =
     Some (if totalSize > MaxBufferSize
           then Some (ErrorNew 61 (''total buffer size '' @ itoa (nat totalSize) @ '' bytes exceeds maximum limit of ''
                  @ itoa (nat MaxBufferSize) @ '' bytes''))
           else None)"
| "validate_items (None # bs) totalSize = None"
| "validate_items (Some buf # bs) totalSize =
     (let bundleSize = int (length (Payload buf))
      in if bundleSize > MaxBundleSize
         then Some (Some (ErrorNew 60 (''bundle size '' @ itoa (nat bundleSize) @ '' bytes exceeds maximum limit of ''
                @ itoa (nat MaxBundleSize) @ '' bytes'')))
         else validate_items bs (totalSize + bundleSize))"

definition validateBufferSizeFromSnapshot :: "RingBufferSnapshot \<Rightarrow> goerror option option" where
  "validateBufferSizeFromSnapshot snapshot = validate_items (Items snapshot) 0"

definition removeMetadata :: "UnsBundle \<Rightarrow> UnsBundle" where
  "removeMetadata ub = ub\<lparr>UnsMap := map (\<lambda>(k, info). (k, info\<lparr>Metadata := []\<rparr>)) (UnsMap ub)\<rparr>"

definition ingestBuffer ::
  "codec \<Rightarrow> BufferItem \<Rightarrow> TopicBrowserCommunicator \<Rightarrow> (goerror + queuedBundle) \<times> TopicBrowserCommunicator"
where
  "ingestBuffer cd buf t =
     (case proto_Unmarshal cd (Payload buf) of
        Inl e \<Rightarrow> (Inl (Errorf ''failed to unmarshal protobuf: '' e), t)
      | Inr ub \<Rightarrow>
          let t1 = t\<lparr>tbc_eventMap := upsert_events (Events ub) (tbc_eventMap t)\<rparr>;
              ub' = removeMetadata ub;
              t2 = t1\<lparr>tbc_unsMap := upsert_topics cd (UnsMap ub') (tbc_unsMap t1)\<rparr>
          in case proto_Marshal cd ub' of
               Inl e \<Rightarrow> (Inl (Errorf ''failed to marshal stripped protobuf: '' e), t2)
             | Inr stripped \<Rightarrow> (Inr \<lparr>qb_Timestamp = Timestamp buf, qb_Payload = stripped\<rparr>, t2))"

text \<open>
  The loop that both \<^verbatim>\<open>processAllBuffers\<close> and \<^verbatim>\<open>processIncrementalBuffers\<close> run, with the first
  and the last sequence number that was ingested.
\<close>

fun ingest_items ::
  "codec \<Rightarrow> BufferItem option list \<Rightarrow> ProcessingResult \<Rightarrow> u64 \<Rightarrow> u64 \<Rightarrow> TopicBrowserCommunicator
   \<Rightarrow> (ProcessingResult \<times> u64 \<times> u64 \<times> TopicBrowserCommunicator) option"
where
  "ingest_items cd [] r mn mx t = Some (r, mn, mx, t)"
| "ingest_items cd (None # bs) r mn mx t = None"
| "ingest_items cd (Some buf # bs) r mn mx t =
     (case ingestBuffer cd buf t of
        (Inl _, t') \<Rightarrow> ingest_items cd bs (r\<lparr>SkippedCount := SkippedCount r + 1\<rparr>) mn mx t'
      | (Inr bundle, t') \<Rightarrow>
          let r1 = r\<lparr>ProcessedCount := ProcessedCount r + 1,
                     LatestTimestamp := (if Timestamp buf > LatestTimestamp r then Timestamp buf else LatestTimestamp r)\<rparr>
          in ingest_items cd bs r1 (if ProcessedCount r1 = 1 then SequenceNum buf else mn) (SequenceNum buf)
               (t'\<lparr>pendingToSend := pendingToSend t' @ [bundle]\<rparr>))"

definition processAllBuffers ::
  "codec \<Rightarrow> BufferItem option list \<Rightarrow> ProcessingSource \<Rightarrow> TopicBrowserCommunicator
   \<Rightarrow> (ProcessingResult \<times> TopicBrowserCommunicator) option"
where
  "processAllBuffers cd bs src t =
     (case ingest_items cd bs empty_result 0 0 t of
        None \<Rightarrow> None
      | Some (r, _, newestSeq, t') \<Rightarrow>
          Some (r\<lparr>DebugInfo := ''Processed ALL '' @ itoa (ProcessedCount r) @ '' buffers from '' @ source_String src
                  @ '' after overwrite (seq up to '' @ itoa (unat newestSeq) @ ''), '' @ itoa (SkippedCount r) @ '' errors''\<rparr>, t'))"

definition processIncrementalBuffers ::
  "codec \<Rightarrow> BufferItem option list \<Rightarrow> ProcessingSource \<Rightarrow> TopicBrowserCommunicator
   \<Rightarrow> (ProcessingResult \<times> TopicBrowserCommunicator) option"
where
  "processIncrementalBuffers cd bs src t =
     (case ingest_items cd bs empty_result 0 0 t of
        None \<Rightarrow> None
      | Some (r, minSeq, maxSeq, t') \<Rightarrow>
          Some (r\<lparr>DebugInfo := ''Processed '' @ itoa (ProcessedCount r) @ '' incremental buffers from '' @ source_String src
                  @ (if ProcessedCount r > 0
                     then if minSeq = maxSeq then '' (seq '' @ itoa (unat minSeq) @ '')''
                          else '' (seq '' @ itoa (unat minSeq) @ ''-'' @ itoa (unat maxSeq) @ '')''
                     else [])
                  @ '', '' @ itoa (SkippedCount r) @ '' errors''\<rparr>, t'))"

definition processNewBuffers ::
  "codec \<Rightarrow> observed \<Rightarrow> ProcessingSource \<Rightarrow> TopicBrowserCommunicator
   \<Rightarrow> ((goerror + ProcessingResult) \<times> TopicBrowserCommunicator) option"
where
  "processNewBuffers cd obs src t =
     (case obs of
        ObsNil \<Rightarrow> Some (Inr (empty_result\<lparr>DebugInfo := ''No observed state provided''\<rparr>), t)
      | ObsNilItems \<Rightarrow> Some (Inr (empty_result\<lparr>DebugInfo := ''No buffers in snapshot''\<rparr>), t)
      | ObsSnapshot snapshot \<Rightarrow>
          if LastSequenceNum snapshot = 0 \<or> length (Items snapshot) = 0
          then Some (Inr (empty_result\<lparr>DebugInfo := ''No buffers in snapshot''\<rparr>), t)
          else (case validateBufferSizeFromSnapshot snapshot of
                  None \<Rightarrow> None
                | Some (Some e) \<Rightarrow> Some (Inl (Errorf ''buffer size validation failed: '' e), t)
                | Some None \<Rightarrow>
                    (case (if lastProcessedSequence t = 0 then processAllBuffers cd (Items snapshot) src t
                           else let newBufferCount = LastSequenceNum snapshot - lastProcessedSequence t
                                in processIncrementalBuffers cd (NewestN (sint newBufferCount) snapshot) src t) of
                       None \<Rightarrow> None
                     | Some (r, t') \<Rightarrow> Some (Inr r, t'\<lparr>lastProcessedSequence := LastSequenceNum snapshot\<rparr>))))"

definition ProcessRealData ::
  "codec \<Rightarrow> observed \<Rightarrow> TopicBrowserCommunicator \<Rightarrow> ((goerror + ProcessingResult) \<times> TopicBrowserCommunicator) option"
where
  "ProcessRealData cd obs t =
     (if simulatorEnabled t
      then Some (Inl (ErrorNew 62 ''communicator is in simulator mode, cannot process real data''), t)
      else processNewBuffers cd obs ProcessingSourceFSM t)"

text \<open>The simulator's snapshot is never nil after a tick; a missing simulator is a nil dereference.\<close>

definition ProcessSimulatedData ::
  "codec \<Rightarrow> sim_env \<Rightarrow> TopicBrowserCommunicator \<Rightarrow> ((goerror + ProcessingResult) \<times> TopicBrowserCommunicator) option"
where
  "ProcessSimulatedData cd se t =
     (if \<not> simulatorEnabled t then Some (Inl (ErrorNew 63 ''simulator not enabled on this communicator''), t)
      else case tbc_simulator t of
             None \<Rightarrow> None
           | Some s \<Rightarrow>
               let s' = Tick cd se s
               in processNewBuffers cd (ObsSnapshot (simObservedState s')) ProcessingSourceSimulator
                    (t\<lparr>tbc_simulator := Some s'\<rparr>))"

section \<open>Serving subscribers\<close>

definition getUnsentBundles :: "TopicBrowserCommunicator \<Rightarrow> queuedBundle list" where
  "getUnsentBundles t = filter (\<lambda>b. qb_Timestamp b > sentWatermark t) (pendingToSend t)"

text \<open>\<open>eks\<close> and \<open>uks\<close>: the keys of the two maps in the order in which they are ranged over.\<close>

definition getCacheBundle :: "codec \<Rightarrow> string list \<Rightarrow> string list \<Rightarrow> TopicBrowserCommunicator \<Rightarrow> string option" where
  "getCacheBundle cd eks uks t =
     (let ub = \<lparr>Events = List.map_filter (tbc_eventMap t) eks,
                UnsMap = List.map_filter (\<lambda>h. map_option (\<lambda>info. (h, info)) (map_of (tbc_unsMap t) h)) uks\<rparr>
      in case proto_Marshal cd ub of Inl _ \<Rightarrow> None | Inr s \<Rightarrow> Some s)"

fun put_bundles :: "queuedBundle list \<Rightarrow> nat \<Rightarrow> SubscriberData \<Rightarrow> SubscriberData" where
  "put_bundles [] index d = d"
| "put_bundles (b # bs) index d =
     put_bundles bs (index + 1)
       (d\<lparr>UnsBundles := (UnsBundles d)(index \<mapsto> qb_Payload b),
          sd_LatestTimestamp := (if qb_Timestamp b > sd_LatestTimestamp d then qb_Timestamp b else sd_LatestTimestamp d)\<rparr>)"

definition GetSubscriberData ::
  "codec \<Rightarrow> string list \<Rightarrow> string list \<Rightarrow> bool \<Rightarrow> TopicBrowserCommunicator \<Rightarrow> SubscriberData \<times> TopicBrowserCommunicator"
where
  "GetSubscriberData cd eks uks isBootstrapped t =
     (let data0 = \<lparr>sd_LatestTimestamp = 0, UnsBundles = Map.empty, Summary = [], TopicCount = length (tbc_unsMap t)\<rparr>;
          (data1, index) =
            (if isBootstrapped then (data0, 0)
             else (case getCacheBundle cd eks uks t of
                     None \<Rightarrow> (data0\<lparr>Summary := ''Prepared cache bundle + ''\<rparr>, 0)
                   | Some cb \<Rightarrow> (data0\<lparr>UnsBundles := [0 \<mapsto> cb], Summary := ''Prepared cache bundle + ''\<rparr>, 1)));
          unsent = getUnsentBundles t;
          data2 = put_bundles unsent index data1;
          t' = (if sd_LatestTimestamp data2 > pendingWatermark t then t\<lparr>pendingWatermark := sd_LatestTimestamp data2\<rparr> else t)
      in (data2\<lparr>Summary := Summary data2 @ itoa (length unsent) @ '' incremental buffers''\<rparr>, t'))"

definition cleanupOldPendingBuffers :: "TopicBrowserCommunicator \<Rightarrow> TopicBrowserCommunicator" where
  "cleanupOldPendingBuffers t =
     (if length (pendingToSend t) \<le> maxPendingBuffers t then t
      else t\<lparr>pendingToSend := filter (\<lambda>b. qb_Timestamp b > sentWatermark t) (pendingToSend t)\<rparr>)"

definition MarkDataAsSent :: "TopicBrowserCommunicator \<Rightarrow> TopicBrowserCommunicator" where
  "MarkDataAsSent t =
     cleanupOldPendingBuffers
       (if pendingWatermark t > sentWatermark t then t\<lparr>sentWatermark := pendingWatermark t\<rparr> else t)"

definition GetTopicCount :: "TopicBrowserCommunicator \<Rightarrow> nat" where
  "GetTopicCount t = length (tbc_unsMap t)"

section \<open>What ingesting does\<close>

definition bundle_of :: "codec \<Rightarrow> BufferItem \<Rightarrow> queuedBundle option" where
  "bundle_of cd b =
     (case proto_Unmarshal cd (Payload b) of
        Inl _ \<Rightarrow> None
      | Inr ub \<Rightarrow> (case proto_Marshal cd (removeMetadata ub) of
                     Inl _ \<Rightarrow> None | Inr s \<Rightarrow> Some \<lparr>qb_Timestamp = Timestamp b, qb_Payload = s\<rparr>))"

text \<open>Everything but the queue and the two maps is as before.\<close>

definition same_marks :: "TopicBrowserCommunicator \<Rightarrow> TopicBrowserCommunicator \<Rightarrow> bool" where
  "same_marks t t' \<longleftrightarrow> sentWatermark t' = sentWatermark t \<and> pendingWatermark t' = pendingWatermark t
     \<and> maxPendingBuffers t' = maxPendingBuffers t \<and> simulatorEnabled t' = simulatorEnabled t
     \<and> tbc_simulator t' = tbc_simulator t"

lemma ingestBuffer_result:
  assumes "ingestBuffer cd b t = (res, t')"
  shows "res = (case bundle_of cd b of None \<Rightarrow> Inl (projl res) | Some q \<Rightarrow> Inr q) \<and> same_marks t t'
     \<and> pendingToSend t' = pendingToSend t \<and> lastProcessedSequence t' = lastProcessedSequence t
     \<and> tbc_eventMap t' = upsert_events (bundle_events cd b) (tbc_eventMap t)"
  using assms
  by (auto simp: ingestBuffer_def bundle_of_def bundle_events_def same_marks_def Let_def split: sum.splits)

lemma ingest_items_result:
  "\<exists>r' mn' mx' t'. ingest_items cd (map Some bs) r mn mx t = Some (r', mn', mx', t') \<and> same_marks t t'
     \<and> pendingToSend t' = pendingToSend t @ List.map_filter (bundle_of cd) bs
     \<and> lastProcessedSequence t' = lastProcessedSequence t
     \<and> tbc_eventMap t' = upsert_events (all_events cd bs) (tbc_eventMap t)
     \<and> ProcessedCount r' = ProcessedCount r + length (List.map_filter (bundle_of cd) bs)
     \<and> ProcessedCount r' + SkippedCount r' = ProcessedCount r + SkippedCount r + length bs"
proof (induction bs arbitrary: r mn mx t)
  case Nil
  show ?case by (simp add: same_marks_def List.map_filter_def)
next
  case (Cons b bs)
  obtain res t1 where i: "ingestBuffer cd b t = (res, t1)" by fastforce
  note i' = ingestBuffer_result [OF i]
  have ev: "upsert_events (all_events cd (b # bs)) m = upsert_events (all_events cd bs) (upsert_events (bundle_events cd b) m)" for m
    by (simp add: all_events_def upsert_events_append)
  show ?case
  proof (cases "bundle_of cd b")
    case None
    then obtain e where "res = Inl e" using i' by auto
    with i have "ingest_items cd (map Some (b # bs)) r mn mx t
        = ingest_items cd (map Some bs) (r\<lparr>SkippedCount := SkippedCount r + 1\<rparr>) mn mx t1" by simp
    with Cons.IH [of "r\<lparr>SkippedCount := SkippedCount r + 1\<rparr>" mn mx t1] i' None ev show ?thesis
      by (auto simp: List.map_filter_def same_marks_def)
  next
    case (Some q)
    then have "res = Inr q" using i' by auto
    with i obtain r1 mn1 mx1 where "ingest_items cd (map Some (b # bs)) r mn mx t
        = ingest_items cd (map Some bs) r1 mn1 mx1 (t1\<lparr>pendingToSend := pendingToSend t1 @ [q]\<rparr>)"
      "ProcessedCount r1 = ProcessedCount r + 1" "SkippedCount r1 = SkippedCount r" by (auto simp: Let_def)
    with Cons.IH [of r1 mn1 mx1 "t1\<lparr>pendingToSend := pendingToSend t1 @ [q]\<rparr>"] i' Some ev show ?thesis
      by (auto simp: List.map_filter_def same_marks_def)
  qed
qed

lemma validate_items_not_nil: "validate_items bs n = Some None \<Longrightarrow> \<exists>xs. bs = map Some xs"
proof (induction bs n rule: validate_items.induct)
  case (3 buf bs n)
  then obtain xs where "bs = map Some xs" by (auto simp: Let_def split: if_splits)
  then show ?case by (intro exI [of _ "buf # xs"]) simp
qed simp_all

lemma NewestN_map_Some: "Items s = map Some xs \<Longrightarrow> \<exists>ys. NewestN n s = map Some ys"
  by (auto simp: NewestN_def drop_map intro: exI [of _ "[]"])

text \<open>Whatever is observed, a poll only appends to the queue and leaves the watermarks alone.\<close>

lemma processNewBuffers_appends:
  assumes "processNewBuffers cd obs src t = Some (res, t')"
  shows "same_marks t t' \<and> (\<exists>new. pendingToSend t' = pendingToSend t @ new)"
proof -
  have run: "same_marks t t1 \<and> (\<exists>new. pendingToSend t1 = pendingToSend t @ new)"
    if "ingest_items cd (map Some xs) r mn mx t = Some (r', mn', mx', t1)" for xs r mn mx r' mn' mx' t1
    using ingest_items_result [of cd xs r mn mx t] that by auto
  have self: "same_marks t t" "\<exists>new. pendingToSend t = pendingToSend t @ new" by (simp_all add: same_marks_def)
  show ?thesis
  proof (cases obs)
    case (ObsSnapshot s)
    show ?thesis
    proof (cases "(LastSequenceNum s = 0 \<or> length (Items s) = 0) \<or> validateBufferSizeFromSnapshot s \<noteq> Some None")
      case True
      then show ?thesis
        using assms ObsSnapshot self by (auto simp: processNewBuffers_def split: if_splits option.splits)
    next
      case False
      then obtain xs where xs: "Items s = map Some xs"
        using validate_items_not_nil by (auto simp: validateBufferSizeFromSnapshot_def)
      obtain ys where ys: "NewestN (sint (LastSequenceNum s - lastProcessedSequence t)) s = map Some ys"
        using NewestN_map_Some [OF xs] by blast
      show ?thesis
        using assms ObsSnapshot False run xs ys
        by (fastforce simp: processNewBuffers_def processAllBuffers_def processIncrementalBuffers_def same_marks_def
            split: if_splits option.splits)
    qed
  qed (use assms self in \<open>auto simp: processNewBuffers_def\<close>)
qed

section \<open>Polling a bounded log\<close>

context bounded_log
begin

lemma communicator_poll:
  assumes "stands_for b h" and "length h < 2 ^ 63" and "k \<le> length h" and "h \<noteq> []"
    and "lastProcessedSequence t = of_nat k" and "validateBufferSizeFromSnapshot (snap b) = Some None"
  shows "\<exists>r t'. processNewBuffers cd (ObsSnapshot (snap b)) src t = Some (Inr r, t')
     \<and> lastProcessedSequence t' = of_nat (length h) \<and> same_marks t t'
     \<and> pendingToSend t' = pendingToSend t @ List.map_filter (bundle_of cd) (drop (poll_skips k (length h) (cap b)) h)
     \<and> tbc_eventMap t' = upsert_events (all_events cd (drop (poll_skips k (length h) (cap b)) h)) (tbc_eventMap t)"
proof -
  let ?bs = "drop (poll_skips k (length h) (cap b)) h"
  have "length h - cap b < length h" using assms(4) cap_pos [OF assms(1)] by (cases h) simp_all
  then have nz: "LastSequenceNum (snap b) \<noteq> 0" "Items (snap b) \<noteq> []"
    using assms(2,4) snap_last [OF assms(1)] snap_items [OF assms(1)]
    by (simp_all add: word_unat_eq_iff unat_of_nat)
  from ingest_items_result [of cd ?bs empty_result 0 0 t] obtain r' mn' mx' t' where
    i: "ingest_items cd (map Some ?bs) empty_result 0 0 t = Some (r', mn', mx', t')" "same_marks t t'"
    "pendingToSend t' = pendingToSend t @ List.map_filter (bundle_of cd) ?bs"
    "tbc_eventMap t' = upsert_events (all_events cd ?bs) (tbc_eventMap t)" by blast
  show ?thesis
  proof (cases "k = 0")
    case True
    with assms(5) snap_items [OF assms(1)] nz i assms(6) snap_last [OF assms(1)] show ?thesis
      by (simp add: processNewBuffers_def processAllBuffers_def poll_skips_def same_marks_def)
  next
    case False
    have k0: "lastProcessedSequence t \<noteq> 0"
      using False assms(2,3,5) by (simp add: word_unat_eq_iff unat_of_nat)
    have cnt: "LastSequenceNum (snap b) - lastProcessedSequence t = of_nat (length h - k)"
      using assms(3,5) snap_last [OF assms(1)] by (simp add: of_nat_diff)
    have sn: "sint (of_nat (length h - k) :: u64) = int (length h - k)"
      using assms(2) by (intro sint_of_nat_small) simp
    have "NewestN (int (length h - k)) (snap b) = map Some ?bs"
    proof (cases "k = length h")
      case True
      then show ?thesis by (simp add: NewestN_def poll_skips_def)
    next
      case False
      then show ?thesis using newest_since [OF assms(1), of k] assms(3) by (simp add: poll_skips_def)
    qed
    with sn cnt k0 nz i assms(6) snap_last [OF assms(1)] show ?thesis
      by (simp add: processNewBuffers_def processIncrementalBuffers_def Let_def same_marks_def)
  qed
qed

end

section \<open>Messages to subscribers\<close>

lemma put_bundles_result:
  "UnsBundles (put_bundles bs i d) n =
     (if i \<le> n \<and> n < i + length bs then Some (qb_Payload (bs ! (n - i))) else UnsBundles d n)
   \<and> sd_LatestTimestamp d \<le> sd_LatestTimestamp (put_bundles bs i d)
   \<and> (\<forall>b \<in> set bs. qb_Timestamp b \<le> sd_LatestTimestamp (put_bundles bs i d))
   \<and> sd_LatestTimestamp (put_bundles bs i d) \<in> insert (sd_LatestTimestamp d) (qb_Timestamp ` set bs)"
proof (induction bs arbitrary: i d)
  case (Cons b bs)
  let ?d = "d\<lparr>UnsBundles := (UnsBundles d)(i \<mapsto> qb_Payload b),
      sd_LatestTimestamp := (if qb_Timestamp b > sd_LatestTimestamp d then qb_Timestamp b else sd_LatestTimestamp d)\<rparr>"
  from Cons.IH [of "Suc i" ?d] show ?case
    by (auto simp: nth_Cons' split: if_splits)
qed auto

lemma GetSubscriberData_marks:
  assumes "GetSubscriberData cd eks uks boot t = (d, t')"
  shows "sentWatermark t' = sentWatermark t \<and> pendingToSend t' = pendingToSend t
     \<and> maxPendingBuffers t' = maxPendingBuffers t \<and> pendingWatermark t \<le> pendingWatermark t'
     \<and> (\<forall>b \<in> set (getUnsentBundles t). qb_Timestamp b \<le> pendingWatermark t')
     \<and> pendingWatermark t' \<in> insert (pendingWatermark t) (qb_Timestamp ` set (getUnsentBundles t))"
proof -
  obtain i d1 where d1: "sd_LatestTimestamp d1 = 0" and
    t': "t' = (let d2 = put_bundles (getUnsentBundles t) i d1
         in if sd_LatestTimestamp d2 > pendingWatermark t then t\<lparr>pendingWatermark := sd_LatestTimestamp d2\<rparr> else t)"
    using assms
    by (cases boot; cases "getCacheBundle cd eks uks t") (force simp: GetSubscriberData_def Let_def)+
  let ?l = "sd_LatestTimestamp (put_bundles (getUnsentBundles t) i d1)"
  have l: "\<forall>b \<in> set (getUnsentBundles t). qb_Timestamp b \<le> ?l" "?l \<in> insert 0 (qb_Timestamp ` set (getUnsentBundles t))"
    using put_bundles_result [of "getUnsentBundles t" i d1 0, unfolded d1] by blast+
  show ?thesis
  proof (cases "pendingWatermark t < ?l")
    case True
    with l t' show ?thesis by (auto simp: Let_def)
  next
    case False
    with l t' show ?thesis by (auto simp: Let_def not_less intro: order_trans)
  qed
qed

lemma MarkDataAsSent_marks:
  assumes "sentWatermark t \<le> pendingWatermark t"
  shows "sentWatermark (MarkDataAsSent t) = pendingWatermark t" "pendingWatermark (MarkDataAsSent t) = pendingWatermark t"
    and "pendingToSend (MarkDataAsSent t)
      = (if length (pendingToSend t) \<le> maxPendingBuffers t then pendingToSend t
         else filter (\<lambda>b. qb_Timestamp b > pendingWatermark t) (pendingToSend t))"
    and "getUnsentBundles (MarkDataAsSent t) = filter (\<lambda>b. qb_Timestamp b > pendingWatermark t) (pendingToSend t)"
  using assms by (auto simp: MarkDataAsSent_def cleanupOldPendingBuffers_def getUnsentBundles_def)

section \<open>Delivery\<close>

text \<open>
  The calls of the status loop: poll the buffer, build a message, promote the watermark. The run
  records the bundles queued so far and the bundles put into messages so far.
\<close>

datatype tbc_op = Poll observed | Send bool "string list" "string list" | Mark

fun tbc_run ::
  "codec \<Rightarrow> tbc_op list \<Rightarrow> queuedBundle list \<times> queuedBundle list \<times> TopicBrowserCommunicator
   \<Rightarrow> (queuedBundle list \<times> queuedBundle list \<times> TopicBrowserCommunicator) option"
where
  "tbc_run cd [] st = Some st"
| "tbc_run cd (Poll obs # ops) (ing, sent, t) =
     (case ProcessRealData cd obs t of
        None \<Rightarrow> None
      | Some (_, t') \<Rightarrow> tbc_run cd ops (ing @ drop (length (pendingToSend t)) (pendingToSend t'), sent, t'))"
| "tbc_run cd (Send boot eks uks # ops) (ing, sent, t) =
     tbc_run cd ops (ing, sent @ getUnsentBundles t, snd (GetSubscriberData cd eks uks boot t))"
| "tbc_run cd (Mark # ops) (ing, sent, t) = tbc_run cd ops (ing, sent, MarkDataAsSent t)"

definition delivery_inv :: "queuedBundle list \<times> queuedBundle list \<times> TopicBrowserCommunicator \<Rightarrow> bool" where
  "delivery_inv st =
     (case st of (ing, sent, t) \<Rightarrow>
        sentWatermark t \<le> pendingWatermark t \<and> set (pendingToSend t) \<subseteq> set ing \<and> set sent \<subseteq> set ing
        \<and> pendingWatermark t \<in> insert 0 (qb_Timestamp ` set ing)
        \<and> (\<forall>b \<in> set ing - set sent. b \<in> set (pendingToSend t) \<and> pendingWatermark t < qb_Timestamp b))"

lemma ProcessRealData_appends:
  assumes "ProcessRealData cd obs t = Some (res, t')"
  shows "same_marks t t' \<and> (\<exists>new. pendingToSend t' = pendingToSend t @ new)"
  using assms processNewBuffers_appends [of cd obs ProcessingSourceFSM t res t']
  by (auto simp: ProcessRealData_def same_marks_def split: if_splits)

lemma tbc_run_extends:
  "tbc_run cd ops (ing, sent, t) = Some (ing', sent', t') \<Longrightarrow> \<exists>more. ing' = ing @ more"
proof (induction ops arbitrary: ing sent t)
  case (Cons op ops)
  then show ?case by (cases op) (fastforce split: option.splits)+
qed simp

lemma delivery_inv_poll:
  assumes "delivery_inv (ing, sent, t)" and "ProcessRealData cd obs t = Some (res, t')"
    and "pendingToSend t' = pendingToSend t @ new" and "sorted_wrt (<) (0 # map qb_Timestamp (ing @ new))"
  shows "delivery_inv (ing @ new, sent, t')"
proof -
  have m: "same_marks t t'" using ProcessRealData_appends [OF assms(2)] by simp
  have "pendingWatermark t < qb_Timestamp b" if "b \<in> set new" for b
    using assms(1,4) that by (auto simp: delivery_inv_def sorted_wrt_append)
  with assms(1,3) m show ?thesis by (auto simp: delivery_inv_def same_marks_def)
qed

lemma delivery_inv_send:
  assumes "delivery_inv (ing, sent, t)"
  shows "delivery_inv (ing, sent @ getUnsentBundles t, snd (GetSubscriberData cd eks uks boot t))"
proof -
  obtain d t' where g: "GetSubscriberData cd eks uks boot t = (d, t')" by fastforce
  have sub: "set (getUnsentBundles t) \<subseteq> set ing" using assms by (auto simp: delivery_inv_def getUnsentBundles_def)
  have inv: "sentWatermark t \<le> pendingWatermark t"
    "\<And>b. b \<in> set ing - set sent \<Longrightarrow> b \<in> set (pendingToSend t) \<and> pendingWatermark t < qb_Timestamp b"
    using assms by (simp_all add: delivery_inv_def)
  have "b \<in> set (getUnsentBundles t)" if "b \<in> set ing - set sent" for b
    using inv(2) [OF that] le_less_trans [OF inv(1)] by (simp add: getUnsentBundles_def)
  then have all: "set ing - set (sent @ getUnsentBundles t) = {}" by auto
  note m = GetSubscriberData_marks [OF g]
  have w: "pendingWatermark t' \<in> insert 0 (qb_Timestamp ` set ing)"
  proof (cases "pendingWatermark t' = pendingWatermark t")
    case True
    with assms show ?thesis by (simp add: delivery_inv_def)
  next
    case False
    with m have "pendingWatermark t' \<in> qb_Timestamp ` set (getUnsentBundles t)" by blast
    with sub show ?thesis by blast
  qed
  have "sentWatermark t' \<le> pendingWatermark t'" "pendingToSend t' = pendingToSend t"
    using m assms by (simp_all add: delivery_inv_def)
  with w sub assms have "delivery_inv (ing, sent @ getUnsentBundles t, t')"
    unfolding delivery_inv_def prod.case all by simp
  with g show ?thesis by simp
qed

lemma delivery_inv_mark:
  assumes "delivery_inv (ing, sent, t)"
  shows "delivery_inv (ing, sent, MarkDataAsSent t)"
  using assms MarkDataAsSent_marks [of t] by (auto simp: delivery_inv_def)

lemma delivery_inv_run:
  assumes "delivery_inv (ing, sent, t)" and "tbc_run cd ops (ing, sent, t) = Some (ing', sent', t')"
    and "sorted_wrt (<) (0 # map qb_Timestamp ing')"
  shows "delivery_inv (ing', sent', t')"
  using assms(1,2)
proof (induction ops arbitrary: ing sent t)
  case (Cons op ops)
  show ?case
  proof (cases op)
    case (Poll obs)
    then obtain res t1 where p: "ProcessRealData cd obs t = Some (res, t1)" using Cons.prems by (auto split: option.splits)
    then obtain new where new: "pendingToSend t1 = pendingToSend t @ new" using ProcessRealData_appends by blast
    have r: "tbc_run cd ops (ing @ new, sent, t1) = Some (ing', sent', t')" using Cons.prems Poll p new by simp
    from tbc_run_extends [OF this] obtain more where "ing' = (ing @ new) @ more" by blast
    with assms(3) have "sorted_wrt (<) (0 # map qb_Timestamp (ing @ new))"
      by (auto simp: sorted_wrt_append)
    from Cons.IH [OF delivery_inv_poll [OF Cons.prems(1) p new this] r] show ?thesis .
  next
    case (Send boot eks uks)
    with Cons.IH [OF delivery_inv_send [OF Cons.prems(1)]] Cons.prems(2) show ?thesis by simp
  next
    case Mark
    with Cons.IH [OF delivery_inv_mark [OF Cons.prems(1)]] Cons.prems(2) show ?thesis by simp
  qed
qed simp

section \<open>The watermark\<close>

lemma tbc_run_above_watermark:
  assumes "tbc_run cd ops (ing, sent, t) = Some (ing', sent', t')" and "w \<le> sentWatermark t"
    and "\<forall>b \<in> set sent. w < qb_Timestamp b"
  shows "\<forall>b \<in> set sent'. w < qb_Timestamp b"
  using assms
proof (induction ops arbitrary: ing sent t)
  case (Cons op ops)
  show ?case
  proof (cases op)
    case (Poll obs)
    with Cons.prems(1) obtain res t1 where p: "ProcessRealData cd obs t = Some (res, t1)"
      "tbc_run cd ops (ing @ drop (length (pendingToSend t)) (pendingToSend t1), sent, t1) = Some (ing', sent', t')"
      by (auto split: option.splits)
    have "w \<le> sentWatermark t1" using ProcessRealData_appends [OF p(1)] Cons.prems(2) by (simp add: same_marks_def)
    from Cons.IH [OF p(2) this Cons.prems(3)] show ?thesis .
  next
    case (Send boot eks uks)
    obtain d t1 where g: "GetSubscriberData cd eks uks boot t = (d, t1)" by fastforce
    have "w \<le> sentWatermark t1" using GetSubscriberData_marks [OF g] Cons.prems(2) by simp
    moreover have "\<forall>b \<in> set (sent @ getUnsentBundles t). w < qb_Timestamp b"
      using Cons.prems(2,3) by (auto simp: getUnsentBundles_def)
    ultimately show ?thesis using Cons.IH [of ing "sent @ getUnsentBundles t" t1] Cons.prems(1) Send g by simp
  next
    case Mark
    have "w \<le> sentWatermark (MarkDataAsSent t)"
      using Cons.prems(2) by (simp add: MarkDataAsSent_def cleanupOldPendingBuffers_def)
    with Cons.IH [of ing sent "MarkDataAsSent t"] Cons.prems Mark show ?thesis by simp
  qed
qed simp

section \<open>The simulated buffer\<close>

definition sim_adds :: "(nat \<times> string) list \<Rightarrow> Simulator \<Rightarrow> Simulator" where
  "sim_adds xs s = fold (\<lambda>(now, bundle). AddUnsBundleToSimObservedState now bundle) xs s"

lemma sim_add_state:
  assumes "length (Items (simObservedState s)) = min n 100" and "LastSequenceNum (simObservedState s) = of_nat (min n 101)"
  shows "length (Items (simObservedState (AddUnsBundleToSimObservedState now b s))) = min (Suc n) 100
     \<and> LastSequenceNum (simObservedState (AddUnsBundleToSimObservedState now b s)) = of_nat (min (Suc n) 101)"
  using assms by (auto simp: AddUnsBundleToSimObservedState_def AppendNewest_def Let_def min_def)

lemma sim_adds_enabled: "sim_simulatorEnabled (sim_adds xs s) = sim_simulatorEnabled s"
  by (induction xs arbitrary: s) (simp_all add: sim_adds_def split_beta AddUnsBundleToSimObservedState_def Let_def)

lemma sim_adds_state:
  assumes "length (Items (simObservedState s)) = min n 100" and "LastSequenceNum (simObservedState s) = of_nat (min n 101)"
  shows "length (Items (simObservedState (sim_adds xs s))) = min (n + length xs) 100
     \<and> LastSequenceNum (simObservedState (sim_adds xs s)) = of_nat (min (n + length xs) 101)"
  using assms
proof (induction xs arbitrary: s n)
  case (Cons x xs)
  obtain now b where x: "x = (now, b)" by fastforce
  from sim_add_state [OF Cons.prems, of now b]
    Cons.IH [of "AddUnsBundleToSimObservedState now b s" "Suc n"] show ?case
    by (simp add: sim_adds_def x)
qed (simp add: sim_adds_def)

lemma validate_items_total: "\<exists>v. validate_items (map Some xs) n = Some v"
  by (induction xs arbitrary: n) (simp_all add: Let_def)

text \<open>A snapshot without nil items never makes a poll panic.\<close>

lemma processNewBuffers_total:
  assumes "Items s = map Some xs"
  shows "\<exists>res t'. processNewBuffers cd (ObsSnapshot s) src t = Some (res, t')"
proof -
  obtain v where v: "validate_items (map Some xs) 0 = Some v" using validate_items_total by blast
  obtain ys where ys: "NewestN (sint (LastSequenceNum s - lastProcessedSequence t)) s = map Some ys"
    using NewestN_map_Some [OF assms] by blast
  have i: "\<exists>r mn mx t'. ingest_items cd (map Some zs) empty_result 0 0 t = Some (r, mn, mx, t')" for zs
    using ingest_items_result by blast
  from i [of xs] i [of ys] v ys assms show ?thesis
    by (cases v) (auto simp: processNewBuffers_def validateBufferSizeFromSnapshot_def processAllBuffers_def
        processIncrementalBuffers_def Let_def)
qed

lemma sim_adds_items:
  assumes "Items (simObservedState s) = map Some ys"
  shows "\<exists>zs. Items (simObservedState (sim_adds xs s)) = map Some zs"
  using assms
proof (induction xs arbitrary: s ys)
  case (Cons x xs)
  obtain now b where x: "x = (now, b)" by fastforce
  let ?n = "\<lparr>Timestamp = now, Payload = b, SequenceNum = of_nat (length (Items (simObservedState s)) + 1)\<rparr>"
  have "Items (simObservedState (AddUnsBundleToSimObservedState now b s)) = map Some (ys @ [?n])
      \<or> Items (simObservedState (AddUnsBundleToSimObservedState now b s)) = map Some (tl (ys @ [?n]))"
    using Cons.prems by (simp add: AddUnsBundleToSimObservedState_def AppendNewest_def Let_def map_tl)
  then obtain us where "Items (simObservedState (AddUnsBundleToSimObservedState now b s)) = map Some us" by blast
  from Cons.IH [OF this] show ?case by (simp add: sim_adds_def x)
qed (auto simp: sim_adds_def)

lemma processNewBuffers_no_news:
  assumes "processNewBuffers cd (ObsSnapshot s) src t = Some (res, t')"
    and "LastSequenceNum s = lastProcessedSequence t" and "lastProcessedSequence t \<noteq> 0"
  shows "t' = t"
  using assms
  by (auto simp: processNewBuffers_def processIncrementalBuffers_def NewestN_def Let_def split: if_splits option.splits)

lemma sint_word_of_int_small: "- (2 ^ 63) \<le> k \<Longrightarrow> k < 2 ^ 63 \<Longrightarrow> sint (word_of_int k :: u64) = k"
  by (simp add: signed_of_int signed_take_bit_int_eq_self)

lemma sint_negative_difference:
  fixes a b :: u64
  assumes "unat a < unat b" and "unat b < 2 ^ 63"
  shows "sint (a - b) < 0"
proof -
  have "int (unat b) < int (2 ^ 63)" using assms(2) by (simp only: of_nat_less_iff)
  moreover have "int (2 ^ 63) = 2 ^ 63" by simp
  ultimately have ab: "uint a < uint b" "uint b < 2 ^ 63"
    using assms(1) by (simp_all only: uint_nat of_nat_less_iff)
  define k where "k = uint a - uint b"
  have k: "- (2 ^ 63) \<le> k" "k < 0" using ab unsigned_greater_eq [of a, where 'a = int] unfolding k_def by linarith+
  have "a - b = word_of_int k" unfolding k_def by (simp add: of_int_diff)
  moreover have "sint (word_of_int k :: u64) = k" using k by (intro sint_word_of_int_small) simp_all
  ultimately show ?thesis using k by simp
qed

section \<open>Properties\<close>


text \<open>
  The watermark is final. Whatever arrives later, no message ever contains a bundle whose
  timestamp is not above the watermark, so a bundle that is queued late with an equal or older
  timestamp is never delivered.
\<close>

theorem late_bundle_never_sent:
  assumes "tbc_run cd ops (ing, [], t) = Some (ing', sent, t')" and "qb_Timestamp b \<le> sentWatermark t"
  shows "b \<notin> set sent"
  using tbc_run_above_watermark [OF assms(1) order.refl] assms(2) by fastforce

text \<open>
  Content of a message. A subscriber that is not yet bootstrapped gets the whole cache at
  position 0 when it can be encoded; the unsent bundles follow in order of arrival without gaps.
  After the watermark is promoted none of them is selected again.
\<close>

theorem subscriber_message:
  assumes "GetSubscriberData cd eks uks boot t = (d, t')" and "sentWatermark t \<le> pendingWatermark t"
    and "off = (if \<not> boot \<and> getCacheBundle cd eks uks t \<noteq> None then 1 else 0)"
  shows "UnsBundles d n = (if n < off then getCacheBundle cd eks uks t
            else if n < off + length (getUnsentBundles t) then Some (qb_Payload (getUnsentBundles t ! (n - off))) else None)
     \<and> TopicCount d = GetTopicCount t \<and> getUnsentBundles (MarkDataAsSent t') = []"
proof -
  obtain d1 where d: "UnsBundles d = UnsBundles (put_bundles (getUnsentBundles t) off d1)"
    and d1: "UnsBundles d1 n = (if n < off then getCacheBundle cd eks uks t else None)" "TopicCount d = GetTopicCount t"
  proof -
    have tc: "TopicCount (put_bundles bs i x) = TopicCount x" for bs i x
      by (induction bs arbitrary: i x) simp_all
    show thesis
      using assms(1,3) that
      by (cases boot; cases "getCacheBundle cd eks uks t")
        (force simp: GetSubscriberData_def Let_def GetTopicCount_def tc)+
  qed
  note m = GetSubscriberData_marks [OF assms(1)]
  have le: "sentWatermark t' \<le> pendingWatermark t'" using m assms(2) by simp
  have "qb_Timestamp b \<le> pendingWatermark t'" if "b \<in> set (pendingToSend t)" for b
  proof (cases "sentWatermark t < qb_Timestamp b")
    case True
    with m that show ?thesis by (simp add: getUnsentBundles_def)
  next
    case False
    with m le show ?thesis by simp
  qed
  then have "getUnsentBundles (MarkDataAsSent t') = []"
    using MarkDataAsSent_marks(4) [OF le] m by (auto simp: filter_empty_conv not_less)
  with d d1 put_bundles_result [of "getUnsentBundles t" off d1 n] show ?thesis by simp
qed

text \<open>
  Polling the ring buffer. From any number of items already processed, one poll appends to the
  queue exactly the re-encoded bundles of the new items still held, in order, updates the cache from
  the same items and is then up to date.
\<close>

theorem communicator_poll_exact:
  assumes "xs \<noteq> []" and "length xs < 2 ^ 63" and "k \<le> length xs" and "lastProcessedSequence t = of_nat k"
    and "rb = fold rb_Add xs (NewRingbuffer cp)" and "validateBufferSizeFromSnapshot (GetSnapshot rb) = Some None"
    and "new = drop (max k (length xs - effective_capacity cp)) (stamp 0 xs)"
  shows "\<exists>r t'. processNewBuffers cd (ObsSnapshot (GetSnapshot rb)) src t = Some (Inr r, t')
     \<and> lastProcessedSequence t' = of_nat (length xs)
     \<and> pendingToSend t' = pendingToSend t @ List.map_filter (bundle_of cd) new
     \<and> tbc_eventMap t' = upsert_events (all_events cd new) (tbc_eventMap t)"
proof -
  have r: "ring_rel rb (stamp 0 xs)" using ring_rel_run [OF ring_rel_new, of xs] assms(5) by simp
  have "stamp 0 xs \<noteq> []" using assms(1) by (cases xs) simp_all
  from ring.communicator_poll [OF r _ _ this assms(4,6), of cd src] assms(2,3,5,7) show ?thesis
    by (auto simp: rb_Cap_run poll_skips_def)
qed

text \<open>
  After a restart of the buffer. When the sequence numbers start again below the last processed
  one, the poll ingests none of the items of that snapshot and only adopts the new number: the
  unsigned difference wraps around and becomes a negative count.
\<close>

theorem sequence_regression_skips:
  assumes "unat (LastSequenceNum s) < unat (lastProcessedSequence t)" and "unat (lastProcessedSequence t) < 2 ^ 63"
    and "LastSequenceNum s \<noteq> 0" and "Items s \<noteq> []" and "validateBufferSizeFromSnapshot s = Some None"
  shows "\<exists>r. processNewBuffers cd (ObsSnapshot s) src t = Some (Inr r, t\<lparr>lastProcessedSequence := LastSequenceNum s\<rparr>)
     \<and> ProcessedCount r = 0 \<and> SkippedCount r = 0"
proof -
  have "lastProcessedSequence t \<noteq> 0" using assms(1) by auto
  with sint_negative_difference [OF assms(1,2)] assms(3-5) show ?thesis
    by (simp add: processNewBuffers_def processIncrementalBuffers_def NewestN_def empty_result_def Let_def)
qed

text \<open>
  The simulated buffer stalls. The simulator numbers an item by the current length of its list,
  which is capped at 100, so from the 101st bundle on every snapshot reports 101 as its last number
  and a communicator that has seen it never ingests simulated data again.
\<close>

theorem simulator_stalls:
  assumes "101 \<le> length xs" and "s = sim_adds xs (InitializeSimulator cd NewSimulator)"
    and "tbc_simulator t = Some s" and "simulatorEnabled t" and "lastProcessedSequence t = 101"
    and "ProcessSimulatedData cd se t = Some (res, t')"
  shows "LastSequenceNum (simObservedState s) = 101 \<and> tbc_simulator t' = Some (Tick cd se s)
     \<and> LastSequenceNum (simObservedState (Tick cd se s)) = 101
     \<and> lastProcessedSequence t' = 101 \<and> pendingToSend t' = pendingToSend t \<and> tbc_eventMap t' = tbc_eventMap t"
proof -
  have i: "length (Items (simObservedState (InitializeSimulator cd NewSimulator))) = min 0 100"
    "LastSequenceNum (simObservedState (InitializeSimulator cd NewSimulator)) = of_nat (min 0 101)"
    by (simp_all add: InitializeSimulator_def NewSimulator_def Let_def)
  have s: "length (Items (simObservedState s)) = min (length xs) 100" "LastSequenceNum (simObservedState s) = of_nat (min (length xs) 101)"
    using sim_adds_state [OF i, of xs] assms(2) by simp_all
  have "sim_simulatorEnabled s" using assms(2) by (simp add: sim_adds_enabled InitializeSimulator_def Let_def)
  define s1 where "s1 = s\<lparr>sim_ticker := sim_ticker s + 1\<rparr>"
  have tk: "Tick cd se s = AddUnsBundleToSimObservedState (se_now se) (GenerateNewUnsBundle cd se s1) s1"
    and s1: "simObservedState s1 = simObservedState s"
    using \<open>sim_simulatorEnabled s\<close> by (simp_all add: Tick_def Let_def s1_def)
  have l: "LastSequenceNum (simObservedState (Tick cd se s)) = 101"
    unfolding tk using sim_add_state [of s1 "length xs"] s s1 assms(1) by simp
  have p: "processNewBuffers cd (ObsSnapshot (simObservedState (Tick cd se s))) ProcessingSourceSimulator
      (t\<lparr>tbc_simulator := Some (Tick cd se s)\<rparr>) = Some (res, t')"
    using assms(3,4,6) by (simp add: ProcessSimulatedData_def Let_def)
  have "t' = t\<lparr>tbc_simulator := Some (Tick cd se s)\<rparr>"
    using processNewBuffers_no_news [OF p] l assms(5) by simp
  with l s(2) assms(1,5) show ?thesis by simp
qed

section \<open>Witnesses\<close>

definition demo_obs :: "nat \<Rightarrow> observed" where
  "demo_obs k = ObsSnapshot \<lparr>Items = map (\<lambda>i. Some \<lparr>Timestamp = Suc i, Payload = ''a'', SequenceNum = of_nat (Suc i)\<rparr>) [0..<k],
     LastSequenceNum = of_nat k\<rparr>"

definition demo_ops :: "tbc_op list" where
  "demo_ops = [Poll (demo_obs 1), Send False [] [], Mark, Poll (demo_obs 2)]"

lemma map_option_forget_last:
  "map_option (\<lambda>(a, b, c). (a, b)) x = Some (p, q) \<Longrightarrow> \<exists>c. x = Some (p, q, c)"
  by (cases x) auto

lemma demo_ops_run:
  "map_option (\<lambda>(ing, sent, t). (ing, sent)) (tbc_run demo_codec demo_ops ([], [], NewTopicBrowserCommunicator))
     = Some ([\<lparr>qb_Timestamp = 1, qb_Payload = []\<rparr>, \<lparr>qb_Timestamp = 2, qb_Payload = []\<rparr>],
             [\<lparr>qb_Timestamp = 1, qb_Payload = []\<rparr>])"
  by code_simp


theorem late_bundle_never_sent_witness:
  "\<exists>ing sent t. tbc_run demo_codec [Poll (demo_obs 1), Send True [] []]
      ([], [], NewTopicBrowserCommunicator\<lparr>sentWatermark := 1, pendingWatermark := 1\<rparr>) = Some (ing, sent, t)
    \<and> \<lparr>qb_Timestamp = 1, qb_Payload = []\<rparr> \<in> set ing \<and> \<lparr>qb_Timestamp = 1, qb_Payload = []\<rparr> \<notin> set sent"
proof -
  let ?t = "NewTopicBrowserCommunicator\<lparr>sentWatermark := 1, pendingWatermark := 1\<rparr>"
  have "\<exists>sent t. tbc_run demo_codec [Poll (demo_obs 1), Send True [] []] ([], [], ?t)
      = Some ([\<lparr>qb_Timestamp = 1, qb_Payload = []\<rparr>], sent, t)"
    by (simp add: demo_obs_def NewTopicBrowserCommunicator_def ProcessRealData_def processNewBuffers_def
      validateBufferSizeFromSnapshot_def MaxBundleSize_def MaxBufferSize_def processAllBuffers_def
      ingestBuffer_def demo_codec_def empty_result_def Let_def)
  then obtain sent t where r: "tbc_run demo_codec [Poll (demo_obs 1), Send True [] []] ([], [], ?t)
      = Some ([\<lparr>qb_Timestamp = 1, qb_Payload = []\<rparr>], sent, t)" by blast
  from late_bundle_never_sent [OF r, of "\<lparr>qb_Timestamp = 1, qb_Payload = []\<rparr>"] r show ?thesis by auto
qed

theorem subscriber_message_witness:
  "UnsBundles (fst (GetSubscriberData demo_codec [] [] True
     (NewTopicBrowserCommunicator\<lparr>pendingToSend := [\<lparr>qb_Timestamp = 4, qb_Payload = ''p''\<rparr>]\<rparr>))) 0 = Some ''p''"
proof -
  let ?t = "NewTopicBrowserCommunicator\<lparr>pendingToSend := [\<lparr>qb_Timestamp = 4, qb_Payload = ''p''\<rparr>]\<rparr>"
  have g: "GetSubscriberData demo_codec [] [] True ?t
      = (fst (GetSubscriberData demo_codec [] [] True ?t), snd (GetSubscriberData demo_codec [] [] True ?t))" by simp
  from subscriber_message [OF g _ refl, of 0] show ?thesis
    by (simp add: NewTopicBrowserCommunicator_def getUnsentBundles_def)
qed

theorem communicator_poll_exact_witness:
  "\<exists>r t'. processNewBuffers demo_codec (ObsSnapshot (GetSnapshot (fold rb_Add (demo_payloads [''a'', ''b''])
      (NewRingbuffer 2)))) ProcessingSourceFSM NewTopicBrowserCommunicator = Some (Inr r, t') \<and> lastProcessedSequence t' = 2"
proof -
  let ?rb = "fold rb_Add (demo_payloads [''a'', ''b'']) (NewRingbuffer 2)"
  have "length (demo_payloads [''a'', ''b'']) = 2" by (simp add: demo_payloads_def)
  then have "Items (GetSnapshot ?rb) = map Some (stamp 0 (demo_payloads [''a'', ''b'']))"
    using ring.snap_items [OF ring_rel_run [OF ring_rel_new], of "demo_payloads [''a'', ''b'']" 2]
    by (simp add: effective_capacity_def)
  then have "validateBufferSizeFromSnapshot (GetSnapshot ?rb) = Some None"
    by (simp add: validateBufferSizeFromSnapshot_def demo_payloads_def MaxBundleSize_def MaxBufferSize_def Let_def)
  from communicator_poll_exact [OF _ _ _ _ refl this refl, of 0 NewTopicBrowserCommunicator demo_codec ProcessingSourceFSM]
  show ?thesis by (auto simp: NewTopicBrowserCommunicator_def demo_payloads_def)
qed

theorem sequence_regression_skips_witness:
  "\<exists>r. processNewBuffers demo_codec (demo_obs 2) ProcessingSourceFSM (NewTopicBrowserCommunicator\<lparr>lastProcessedSequence := 5\<rparr>)
     = Some (Inr r, NewTopicBrowserCommunicator\<lparr>lastProcessedSequence := 2\<rparr>) \<and> ProcessedCount r = 0 \<and> SkippedCount r = 0"
proof -
  let ?s = "\<lparr>Items = map (\<lambda>i. Some \<lparr>Timestamp = Suc i, Payload = ''a'', SequenceNum = of_nat (Suc i)\<rparr>) [0..<2],
     LastSequenceNum = of_nat 2\<rparr> :: RingBufferSnapshot"
  have "validateBufferSizeFromSnapshot ?s = Some None"
    by (simp add: validateBufferSizeFromSnapshot_def MaxBundleSize_def MaxBufferSize_def Let_def upt_rec)
  from sequence_regression_skips [OF _ _ _ _ this, of "NewTopicBrowserCommunicator\<lparr>lastProcessedSequence := 5\<rparr>"]
  show ?thesis by (simp add: demo_obs_def NewTopicBrowserCommunicator_def)
qed

theorem simulator_stalls_witness:
  "\<exists>t t' res. tbc_simulator t = Some (sim_adds (replicate 101 (1, ''a'')) (InitializeSimulator demo_codec NewSimulator))
     \<and> ProcessSimulatedData demo_codec \<lparr>se_now = 2, se_now_ms = 2, se_keys = [], se_rest = (\<lambda>_. [])\<rparr> t = Some (res, t')
     \<and> pendingToSend t' = pendingToSend t \<and> lastProcessedSequence t' = 101"
proof -
  define s where "s = sim_adds (replicate 101 (1, ''a'')) (InitializeSimulator demo_codec NewSimulator)"
  define t where "t = NewTopicBrowserCommunicator\<lparr>tbc_simulator := Some s, simulatorEnabled := True, lastProcessedSequence := 101\<rparr>"
  let ?se = "\<lparr>se_now = 2, se_now_ms = 2, se_keys = [], se_rest = (\<lambda>_. [])\<rparr> :: sim_env"
  have t: "tbc_simulator t = Some s" "simulatorEnabled t" "lastProcessedSequence t = 101" by (simp_all add: t_def)
  have "\<exists>zs. Items (simObservedState s) = map Some zs"
    unfolding s_def by (rule sim_adds_items [of _ "[]"]) (simp add: InitializeSimulator_def NewSimulator_def Let_def)
  then obtain zs where zs: "Items (simObservedState s) = map Some zs" ..
  have "sim_simulatorEnabled s" by (simp add: s_def sim_adds_enabled InitializeSimulator_def Let_def)
  then have "Tick demo_codec ?se s = sim_adds [(2, GenerateNewUnsBundle demo_codec ?se (s\<lparr>sim_ticker := sim_ticker s + 1\<rparr>))]
      (s\<lparr>sim_ticker := sim_ticker s + 1\<rparr>)"
    by (simp add: Tick_def sim_adds_def Let_def)
  then have "\<exists>zs. Items (simObservedState (Tick demo_codec ?se s)) = map Some zs"
    using sim_adds_items [of "s\<lparr>sim_ticker := sim_ticker s + 1\<rparr>" zs] zs by simp
  then obtain us where "Items (simObservedState (Tick demo_codec ?se s)) = map Some us" ..
  from processNewBuffers_total [OF this] have "\<exists>res t'. ProcessSimulatedData demo_codec ?se t = Some (res, t')"
    using t(1,2) by (simp add: ProcessSimulatedData_def Let_def)
  then obtain res t' where p: "ProcessSimulatedData demo_codec ?se t = Some (res, t')" by blast
  from simulator_stalls [OF _ s_def t p] t p show ?thesis by (auto simp: s_def)
qed

end
