(* ===== verification/Data_Model.thy ===== *)
theory Data_Model
  imports UMH_Prelude
begin

text \<open>
  The validator of user-defined data models, \<^verbatim>\<open>umh-core/pkg/datamodel/validator.go\<close>, over the
  configuration types of \<^verbatim>\<open>umh-core/pkg/config/config.go\<close>. A Go map that is ranged over is an
  association list in the order of the range; a nil map of subfields (a leaf) is \<^const>\<open>None\<close> and
  differs from an empty one. The context is polled at the points where the code polls it: \<open>ctx i\<close> is
  the error of the i-th poll, and the counter of polls is threaded through with the error list.
\<close>

section \<open>Configuration types\<close>

record ModelRef =
  ref_Name :: string
  ref_Version :: string

datatype PayloadField = PayloadField (pf_Subfields: "(string \<times> PayloadField) list") (pf_Type: string)

record PayloadShape =
  ps_Fields :: "(string \<times> PayloadField) list"
  ps_Description :: string

datatype Field = Field (fld_ModelRef: "ModelRef option") (fld_Relational: "PayloadShape option")
  (fld_Subfields: "(string \<times> Field) list option") (fld_PayloadShape: string)

type_synonym field_map = "(string \<times> Field) list"

record DataModelVersion =
  Structure :: field_map

record DataModelsConfig =
  Versions :: "string \<rightharpoonup> DataModelVersion"
  dm_Name :: string
  dm_Description :: string

record ValidationError =
  ve_Path :: string
  ve_Message :: string

type_synonym ctx_polls = "nat \<Rightarrow> goerror option"
type_synonym report = "nat \<times> ValidationError list"

abbreviation quote :: "string \<Rightarrow> string" where
  "quote s \<equiv> CHR 0x27 # s @ [CHR 0x27]"

definition ve_Error :: "ValidationError \<Rightarrow> string" where
  "ve_Error e = ''validation error at path '' @ quote (ve_Path e) @ '': '' @ ve_Message e"

definition add_error :: "string \<Rightarrow> string \<Rightarrow> report \<Rightarrow> report" where
  "add_error path msg rp = (fst rp, snd rp @ [\<lparr>ve_Path = path, ve_Message = msg\<rparr>])"

text \<open>
  The poll at the head of a function: with an expired context the cancellation is reported and the
  function returns, otherwise it goes on.
\<close>

definition polled :: "ctx_polls \<Rightarrow> string \<Rightarrow> report \<Rightarrow> (report \<Rightarrow> report) \<Rightarrow> report" where
  "polled ctx path rp k =
     (case ctx (fst rp) of
        Some e \<Rightarrow> add_error path (''validation cancelled: '' @ error_text e) (Suc (fst rp), snd rp)
      | None \<Rightarrow> k (Suc (fst rp), snd rp))"

definition join_path :: "string \<Rightarrow> string \<Rightarrow> string" where
  "join_path path name = (if path = [] then name else path @ ''.'' @ name)"

section \<open>Default payload shapes\<close>

definition timeseries_shape :: "string \<Rightarrow> PayloadShape" where
  "timeseries_shape ty = \<lparr>ps_Fields = [(''timestamp_ms'', PayloadField [] ''number''), (''value'', PayloadField [] ty)],
     ps_Description = []\<rparr>"

definition inject_default :: "string \<Rightarrow> PayloadShape \<Rightarrow> (string \<rightharpoonup> PayloadShape) \<Rightarrow> (string \<rightharpoonup> PayloadShape)" where
  "inject_default name shape m = (case m name of None \<Rightarrow> m(name \<mapsto> shape) | Some _ \<Rightarrow> m)"

definition ensureDefaultPayloadShapes :: "(string \<rightharpoonup> PayloadShape) \<Rightarrow> (string \<rightharpoonup> PayloadShape)" where
  "ensureDefaultPayloadShapes payloadShapes =
     inject_default ''timeseries-boolean'' (timeseries_shape ''boolean'')
       (inject_default ''timeseries-string'' (timeseries_shape ''string'')
         (inject_default ''timeseries-number'' (timeseries_shape ''number'') payloadShapes))"

section \<open>Structure\<close>

definition name_char :: "char \<Rightarrow> bool" where
  "name_char c =
     (let n = of_char c :: nat
      in (97 \<le> n \<and> n \<le> 122) \<or> (65 \<le> n \<and> n \<le> 90) \<or> (48 \<le> n \<and> n \<le> 57) \<or> c = CHR ''-'' \<or> c = CHR ''_'')"

definition validateFieldNameWithPath :: "string \<Rightarrow> string \<Rightarrow> report \<Rightarrow> report" where
  "validateFieldNameWithPath fieldName path rp =
     (if fieldName = [] then add_error path ''field name cannot be empty'' rp
      else
        let rp1 = (if str_contains fieldName ''.'' then add_error path ''field name cannot contain dots'' rp else rp)
        in if list_all name_char fieldName then rp1
           else add_error path ''field name can only contain letters, numbers, dashes, and underscores'' rp1)"

definition version_pattern :: "string \<Rightarrow> bool" where
  "version_pattern s = (case s of c # ds \<Rightarrow> c = CHR ''v'' \<and> ds \<noteq> []
      \<and> list_all (\<lambda>d. 48 \<le> (of_char d :: nat) \<and> (of_char d :: nat) \<le> 57) ds | [] \<Rightarrow> False)"

definition validateRefModelFormat :: "ModelRef \<Rightarrow> string \<Rightarrow> report \<Rightarrow> report" where
  "validateRefModelFormat r path rp =
     (let rp1 = (if ref_Name r = [] then add_error path ''_refModel must have a model name specified'' rp else rp)
      in if ref_Version r = [] then add_error path ''_refModel must have a version specified'' rp1
         else if \<not> version_pattern (ref_Version r)
         then add_error path (''version '' @ quote (ref_Version r) @ '' does not match pattern ^v'' @ [CHR 0x5C] @ ''d+$'') rp1
         else if ref_Version r = ''v0'' then add_error path ''version must start at v1, v0 is not allowed'' rp1
         else rp1)"

definition add_error_if :: "bool \<Rightarrow> string \<Rightarrow> string \<Rightarrow> report \<Rightarrow> report" where
  "add_error_if b path msg rp = (if b then add_error path msg rp else rp)"

definition validateFieldCombinations :: "Field \<Rightarrow> string \<Rightarrow> report \<Rightarrow> report" where
  "validateFieldCombinations f path rp =
     (let hasPayloadShape = (fld_PayloadShape f \<noteq> []);
          hasRefModel = (fld_ModelRef f \<noteq> None);
          hasSubfields = (case fld_Subfields f of None \<Rightarrow> False | Some fs \<Rightarrow> length fs > 0);
          hasRelational = (fld_Relational f \<noteq> None);
          rp1 = add_error_if (hasPayloadShape \<and> hasRefModel) path ''field cannot have both _payloadshape and _refModel'' rp;
          rp2 = add_error_if (hasSubfields \<and> hasRefModel) path ''field cannot have both subfields and _refModel'' rp1;
          rp3 = add_error_if (hasRelational \<and> hasPayloadShape) path ''field cannot have both _relational and _payloadshape'' rp2;
          rp4 = add_error_if (hasRelational \<and> hasRefModel) path ''field cannot have both _relational and _refModel'' rp3
      in add_error_if (hasRelational \<and> hasSubfields) path ''field with _relational cannot have subfields'' rp4)"

definition validateLeafNode :: "Field \<Rightarrow> string \<Rightarrow> report \<Rightarrow> report" where
  "validateLeafNode f path rp =
     (let hasPayloadShape = (fld_PayloadShape f \<noteq> []);
          hasRefModel = (fld_ModelRef f \<noteq> None);
          hasRelational = (fld_Relational f \<noteq> None)
      in if hasRefModel \<and> \<not> hasPayloadShape \<and> \<not> hasRelational then rp
         else if hasPayloadShape \<and> \<not> hasRefModel \<and> \<not> hasRelational then rp
         else if hasRelational \<and> \<not> hasPayloadShape \<and> \<not> hasRefModel
         then add_error_if (case fld_Relational f of None \<Rightarrow> False | Some s \<Rightarrow> length (ps_Fields s) = 0) path ''_relational must have at least one field'' rp
         else add_error_if (\<not> hasPayloadShape \<and> \<not> hasRefModel \<and> \<not> hasRelational) path
                ''leaf nodes must contain _payloadshape, _relational, or _refModel'' rp)"

function validateStructure :: "ctx_polls \<Rightarrow> field_map \<Rightarrow> string \<Rightarrow> report \<Rightarrow> report"
and validate_fields :: "ctx_polls \<Rightarrow> field_map \<Rightarrow> string \<Rightarrow> report \<Rightarrow> report"
and validateField :: "ctx_polls \<Rightarrow> Field \<Rightarrow> string \<Rightarrow> report \<Rightarrow> report"
where
  "validateStructure ctx st path rp = polled ctx path rp (\<lambda>rp. validate_fields ctx st path rp)"
| "validate_fields ctx [] path rp = rp"
| "validate_fields ctx ((fieldName, field) # fs) path rp =
     (let currentPath = join_path path fieldName
      in validate_fields ctx fs path
           (validateField ctx field currentPath (validateFieldNameWithPath fieldName currentPath rp)))"
| "validateField ctx (Field ref rel subs ps) path rp =
     polled ctx path rp (\<lambda>rp.
       let f = Field ref rel subs ps;
           rp1 = (case ref of None \<Rightarrow> rp | Some r \<Rightarrow> validateRefModelFormat r path rp);
           rp2 = validateFieldCombinations f path rp1
       in case subs of
            None \<Rightarrow> validateLeafNode f path rp2
          | Some fs \<Rightarrow>
              validateStructure ctx fs path
                (add_error_if (ps \<noteq> []) path ''non-leaf nodes (folders) cannot have _payloadshape'' rp2))"
  by pat_completeness auto

termination
  by (relation "measure (\<lambda>x. case x of Inl (_, st, _, _) \<Rightarrow> Suc (2 * size_list (size_prod (\<lambda>_. 0) size) st)
      | Inr y \<Rightarrow> (case y of Inl (_, st, _, _) \<Rightarrow> 2 * size_list (size_prod (\<lambda>_. 0) size) st
                  | Inr (_, f, _, _) \<Rightarrow> Suc (2 * size f)))") auto

definition failure_text :: "string \<Rightarrow> ValidationError list \<Rightarrow> string" where
  "failure_text title errs = title @ concat (map (\<lambda>e. [CHR 0x0A] @ ''  - '' @ ve_Error e) errs)"

text \<open>
  The three top-level passes have the same frame: poll the context, run the recursive part with an
  empty error list, and return one error listing everything found. The result carries the counter.
\<close>

definition run_pass :: "ctx_polls \<Rightarrow> string \<Rightarrow> (report \<Rightarrow> report) \<Rightarrow> nat \<Rightarrow> goerror option \<times> nat" where
  "run_pass ctx title body n =
     (case ctx n of
        Some e \<Rightarrow> (Some e, Suc n)
      | None \<Rightarrow>
          (case body (Suc n, []) of
             (n', []) \<Rightarrow> (None, n')
           | (n', errs) \<Rightarrow> (Some (ErrorNew 70 (failure_text title errs)), n')))"

definition validateDataModel :: "ctx_polls \<Rightarrow> DataModelVersion \<Rightarrow> nat \<Rightarrow> goerror option \<times> nat" where
  "validateDataModel ctx dm n =
     run_pass ctx ''data model structure validation failed:'' (validateStructure ctx (Structure dm) []) n"

definition ValidateStructureOnly :: "ctx_polls \<Rightarrow> DataModelVersion \<Rightarrow> nat \<Rightarrow> goerror option \<times> nat" where
  "ValidateStructureOnly ctx dm n = validateDataModel ctx dm n"

section \<open>Payload shapes\<close>

definition validateSinglePayloadShape :: "string \<Rightarrow> string \<Rightarrow> (string \<rightharpoonup> PayloadShape) \<Rightarrow> report \<Rightarrow> report" where
  "validateSinglePayloadShape shape path shapes rp =
     add_error_if (shapes shape = None) path (''referenced payload shape '' @ quote shape @ '' does not exist'') rp"

function validateStructurePayloadShapes ::
  "ctx_polls \<Rightarrow> (string \<rightharpoonup> PayloadShape) \<Rightarrow> field_map \<Rightarrow> string \<Rightarrow> report \<Rightarrow> report"
and shape_fields :: "ctx_polls \<Rightarrow> (string \<rightharpoonup> PayloadShape) \<Rightarrow> field_map \<Rightarrow> string \<Rightarrow> report \<Rightarrow> report"
where
  "validateStructurePayloadShapes ctx shapes st path rp = polled ctx path rp (\<lambda>rp. shape_fields ctx shapes st path rp)"
| "shape_fields ctx shapes [] path rp = rp"
| "shape_fields ctx shapes ((fieldName, Field ref rel subs ps) # fs) path rp =
     (let currentPath = join_path path fieldName;
          rp1 = (if ps \<noteq> [] then validateSinglePayloadShape ps currentPath shapes rp else rp);
          rp2 = (case subs of None \<Rightarrow> rp1 | Some sfs \<Rightarrow> validateStructurePayloadShapes ctx shapes sfs currentPath rp1)
      in shape_fields ctx shapes fs path rp2)"
  by pat_completeness auto

termination
  by (relation "measure (\<lambda>x. case x of Inl (_, _, st, _, _) \<Rightarrow> Suc (2 * size_list (size_prod (\<lambda>_. 0) size) st)
      | Inr (_, _, st, _, _) \<Rightarrow> 2 * size_list (size_prod (\<lambda>_. 0) size) st)") auto

definition validatePayloadShapes ::
  "ctx_polls \<Rightarrow> DataModelVersion \<Rightarrow> (string \<rightharpoonup> PayloadShape) \<Rightarrow> nat \<Rightarrow> goerror option \<times> nat"
where
  "validatePayloadShapes ctx dm shapes n =
     run_pass ctx ''data model payload shape validation failed:'' (validateStructurePayloadShapes ctx shapes (Structure dm) []) n"

section \<open>References\<close>

definition reference_key :: "ModelRef \<Rightarrow> string" where
  "reference_key r = ref_Name r @ '':'' @ ref_Version r"

definition ref_depth_limit :: nat where
  "ref_depth_limit = 10"

function validateStructureReferences ::
  "ctx_polls \<Rightarrow> (string \<rightharpoonup> DataModelsConfig) \<Rightarrow> string set \<Rightarrow> nat \<Rightarrow> field_map \<Rightarrow> string \<Rightarrow> report \<Rightarrow> report"
and reference_fields ::
  "ctx_polls \<Rightarrow> (string \<rightharpoonup> DataModelsConfig) \<Rightarrow> string set \<Rightarrow> nat \<Rightarrow> field_map \<Rightarrow> string \<Rightarrow> report \<Rightarrow> report"
and validateSingleReference ::
  "ctx_polls \<Rightarrow> (string \<rightharpoonup> DataModelsConfig) \<Rightarrow> string set \<Rightarrow> nat \<Rightarrow> ModelRef \<Rightarrow> string \<Rightarrow> report \<Rightarrow> report"
where
  "validateStructureReferences ctx models visited depth st path rp =
     polled ctx path rp (\<lambda>rp. reference_fields ctx models visited depth st path rp)"
| "reference_fields ctx models visited depth [] path rp = rp"
| "reference_fields ctx models visited depth ((fieldName, Field ref rel subs ps) # fs) path rp =
     (let currentPath = join_path path fieldName;
          rp1 = (case ref of None \<Rightarrow> rp
                 | Some r \<Rightarrow> validateSingleReference ctx models visited depth r currentPath rp);
          rp2 = (case subs of None \<Rightarrow> rp1
                 | Some sfs \<Rightarrow> validateStructureReferences ctx models visited depth sfs currentPath rp1)
      in reference_fields ctx models visited depth fs path rp2)"
| "validateSingleReference ctx models visited depth r path rp =
     polled ctx path rp (\<lambda>rp.
       if ref_depth_limit \<le> depth
       then add_error path ''reference validation depth limit exceeded (10 levels) - possible deep nesting or circular reference'' rp
       else if reference_key r \<in> visited
       then add_error path (''circular reference detected: '' @ reference_key r) rp
       else case models (ref_Name r) of
              None \<Rightarrow> add_error path (''referenced model '' @ quote (ref_Name r) @ '' does not exist'') rp
            | Some m \<Rightarrow>
                (case Versions m (ref_Version r) of
                   None \<Rightarrow> add_error path (''referenced model '' @ quote (ref_Name r) @ '' version '' @ quote (ref_Version r)
                             @ '' does not exist'') rp
                 | Some v \<Rightarrow>
                     validateStructureReferences ctx models (insert (reference_key r) visited) (Suc depth) (Structure v)
                       (path @ ''.'' @ reference_key r) rp))"
  by pat_completeness auto

termination
  by (relation "measures [
      \<lambda>x. case x of Inl (_, _, _, d, _) \<Rightarrow> ref_depth_limit - d
        | Inr y \<Rightarrow> (case y of Inl (_, _, _, d, _) \<Rightarrow> ref_depth_limit - d | Inr (_, _, _, d, _) \<Rightarrow> ref_depth_limit - d),
      \<lambda>x. case x of Inl (_, _, _, _, st, _) \<Rightarrow> Suc (2 * size_list (size_prod (\<lambda>_. 0) size) st)
        | Inr y \<Rightarrow> (case y of Inl (_, _, _, _, st, _) \<Rightarrow> 2 * size_list (size_prod (\<lambda>_. 0) size) st | Inr _ \<Rightarrow> 0)]") auto

definition validateReferences ::
  "ctx_polls \<Rightarrow> DataModelVersion \<Rightarrow> (string \<rightharpoonup> DataModelsConfig) \<Rightarrow> string set \<Rightarrow> nat \<Rightarrow> nat \<Rightarrow> goerror option \<times> nat"
where
  "validateReferences ctx dm models visited depth n =
     run_pass ctx ''data model reference validation failed:''
       (validateStructureReferences ctx models visited depth (Structure dm) []) n"

definition ValidateWithReferences ::
  "ctx_polls \<Rightarrow> DataModelVersion \<Rightarrow> (string \<rightharpoonup> DataModelsConfig) \<Rightarrow> (string \<rightharpoonup> PayloadShape) \<Rightarrow> nat \<Rightarrow> goerror option \<times> nat"
where
  "ValidateWithReferences ctx dm models payloadShapes n =
     (let shapes = ensureDefaultPayloadShapes payloadShapes
      in case ValidateStructureOnly ctx dm n of
           (Some e, n1) \<Rightarrow> (Some e, n1)
         | (None, n1) \<Rightarrow>
             (case validatePayloadShapes ctx dm shapes n1 of
                (Some e, n2) \<Rightarrow> (Some e, n2)
              | (None, n2) \<Rightarrow> validateReferences ctx dm models {} 0 n2))"

section \<open>Reports only grow\<close>

definition grows :: "report \<Rightarrow> report \<Rightarrow> bool" where
  "grows rp rp' \<longleftrightarrow> prefix (snd rp) (snd rp')"

text \<open>No error was added.\<close>

definition silent :: "report \<Rightarrow> report \<Rightarrow> bool" where
  "silent rp rp' \<longleftrightarrow> snd rp' = snd rp"

lemma grows_refl [simp]: "grows rp rp" and silent_refl [simp]: "silent rp rp"
  by (simp_all add: grows_def silent_def)

lemma grows_trans: "grows a b \<Longrightarrow> grows b c \<Longrightarrow> grows a c"
  by (auto simp: grows_def intro: prefix_order.trans)

lemma silent_chain:
  assumes "grows a b" and "grows b c"
  shows "silent a c \<longleftrightarrow> silent a b \<and> silent b c"
  using assms by (auto simp: grows_def silent_def dest: prefix_order.antisym)

lemma grows_add_error [simp]: "grows rp (add_error p m rp)"
  and not_silent_add_error [simp]: "\<not> silent rp (add_error p m rp)"
  by (simp_all add: grows_def silent_def add_error_def)

lemma grows_add_error_if [simp]: "grows rp (add_error_if b p m rp)"
  and silent_add_error_if [simp]: "silent rp (add_error_if b p m rp) \<longleftrightarrow> \<not> b"
  by (simp_all add: add_error_if_def)

lemma polled_grows:
  assumes "\<And>rp'. snd rp' = snd rp \<Longrightarrow> grows rp' (k rp')"
  shows "grows rp (polled ctx path rp k)"
  using assms [of "(Suc (fst rp), snd rp)"]
  by (auto simp: polled_def grows_def add_error_def split: option.splits)

lemma polled_silent:
  "silent rp (polled ctx path rp k)
   \<longleftrightarrow> ctx (fst rp) = None \<and> silent (Suc (fst rp), snd rp) (k (Suc (fst rp), snd rp))"
  by (auto simp: polled_def silent_def add_error_def split: option.splits)

section \<open>Well-formed structures\<close>

definition valid_name :: "string \<Rightarrow> bool" where
  "valid_name s \<longleftrightarrow> s \<noteq> [] \<and> list_all name_char s"

definition valid_ref :: "ModelRef \<Rightarrow> bool" where
  "valid_ref r \<longleftrightarrow> ref_Name r \<noteq> [] \<and> version_pattern (ref_Version r) \<and> ref_Version r \<noteq> ''v0''"

text \<open>The shapes of a field that the rules allow.\<close>

inductive wf_field :: "Field \<Rightarrow> bool" where
  timeseries_leaf: "ps \<noteq> [] \<Longrightarrow> wf_field (Field None None None ps)"
| submodel_leaf: "valid_ref r \<Longrightarrow> wf_field (Field (Some r) None None [])"
| relational_leaf: "ps_Fields s \<noteq> [] \<Longrightarrow> wf_field (Field None (Some s) None [])"
| folder: "\<forall>x \<in> set fs. valid_name (fst x) \<and> wf_field (snd x) \<Longrightarrow> wf_field (Field None None (Some fs) [])"
| empty_folder_submodel: "valid_ref r \<Longrightarrow> wf_field (Field (Some r) None (Some []) [])"
| empty_folder_relational: "wf_field (Field None (Some s) (Some []) [])"

inductive_simps wf_field_simps: "wf_field (Field ref rel subs ps)"

definition wf_fields :: "field_map \<Rightarrow> bool" where
  "wf_fields fs \<longleftrightarrow> (\<forall>x \<in> set fs. valid_name (fst x) \<and> wf_field (snd x))"

lemma validateFieldNameWithPath_silent:
  "grows rp (validateFieldNameWithPath n path rp)"
  "silent rp (validateFieldNameWithPath n path rp) \<longleftrightarrow> valid_name n"
proof -
  let ?r1 = "if str_contains n ''.'' then add_error path ''field name cannot contain dots'' rp else rp"
  let ?r2 = "if list_all name_char n then ?r1
     else add_error path ''field name can only contain letters, numbers, dashes, and underscores'' ?r1"
  have dot: "\<not> name_char CHR ''.''" by (simp add: name_char_def Let_def)
  have "str_contains n ''.'' \<longleftrightarrow> CHR ''.'' \<in> set n"
    by (auto simp: str_contains_iff_sublist sublist_def in_set_conv_decomp)
  then have nd: "list_all name_char n \<Longrightarrow> \<not> str_contains n ''.''" using dot by (auto simp: list_all_iff)
  have g: "grows rp ?r1" "grows ?r1 ?r2" by simp_all
  have v: "validateFieldNameWithPath n path rp = (if n = [] then add_error path ''field name cannot be empty'' rp else ?r2)"
    by (simp only: validateFieldNameWithPath_def Let_def)
  show "grows rp (validateFieldNameWithPath n path rp)"
    unfolding v using grows_trans [OF g] by simp
  show "silent rp (validateFieldNameWithPath n path rp) \<longleftrightarrow> valid_name n"
    unfolding v valid_name_def using silent_chain [OF g] nd by (simp split: if_split_asm)
qed

lemma validateRefModelFormat_silent:
  "grows rp (validateRefModelFormat r path rp)"
  "silent rp (validateRefModelFormat r path rp) \<longleftrightarrow> valid_ref r"
proof -
  have "\<not> version_pattern []" by (simp add: version_pattern_def)
  moreover have "grows rp (add_error p m (add_error p' m' rp))" "\<not> silent rp (add_error p m (add_error p' m' rp))" for p m p' m'
    by (simp_all add: grows_def silent_def add_error_def)
  ultimately show "grows rp (validateRefModelFormat r path rp)"
    "silent rp (validateRefModelFormat r path rp) \<longleftrightarrow> valid_ref r"
    unfolding validateRefModelFormat_def valid_ref_def Let_def by auto
qed

text \<open>The combinations that \<^verbatim>\<open>validateFieldCombinations\<close> accepts.\<close>

definition combos_ok :: "Field \<Rightarrow> bool" where
  "combos_ok f \<longleftrightarrow>
     (let sub = (case fld_Subfields f of None \<Rightarrow> False | Some fs \<Rightarrow> fs \<noteq> [])
      in \<not> (fld_PayloadShape f \<noteq> [] \<and> fld_ModelRef f \<noteq> None) \<and> \<not> (sub \<and> fld_ModelRef f \<noteq> None)
         \<and> \<not> (fld_Relational f \<noteq> None \<and> fld_PayloadShape f \<noteq> []) \<and> \<not> (fld_Relational f \<noteq> None \<and> fld_ModelRef f \<noteq> None)
         \<and> \<not> (fld_Relational f \<noteq> None \<and> sub))"

lemma add_error_if_chain:
  assumes "grows rp0 rp"
  shows "grows rp0 (add_error_if b p m rp)"
    and "silent rp0 (add_error_if b p m rp) \<longleftrightarrow> silent rp0 rp \<and> \<not> b"
  using grows_trans [OF assms grows_add_error_if] silent_chain [OF assms grows_add_error_if] by simp_all

lemma validateFieldCombinations_silent:
  "grows rp (validateFieldCombinations f path rp)"
  "silent rp (validateFieldCombinations f path rp) \<longleftrightarrow> combos_ok f"
  by (auto simp: validateFieldCombinations_def combos_ok_def Let_def add_error_if_chain split: option.splits)

lemma validateLeafNode_silent:
  "grows rp (validateLeafNode f path rp)"
  "combos_ok f \<Longrightarrow> fld_Subfields f = None \<Longrightarrow> silent rp (validateLeafNode f path rp)
     \<longleftrightarrow> (fld_ModelRef f \<noteq> None \<and> fld_Relational f = None \<and> fld_PayloadShape f = []
        \<or> fld_ModelRef f = None \<and> fld_Relational f = None \<and> fld_PayloadShape f \<noteq> []
        \<or> fld_ModelRef f = None \<and> fld_PayloadShape f = [] \<and> (\<exists>s. fld_Relational f = Some s \<and> ps_Fields s \<noteq> []))"
  by (auto simp: validateLeafNode_def combos_ok_def Let_def split: option.splits)

text \<open>What each of the recursive functions guarantees about a subject that is \<open>ok\<close> or not.\<close>

definition decides :: "ctx_polls \<Rightarrow> bool \<Rightarrow> report \<Rightarrow> report \<Rightarrow> bool" where
  "decides ctx ok rp rp' \<longleftrightarrow> grows rp rp' \<and> (silent rp rp' \<longrightarrow> ok) \<and> ((\<forall>i. ctx i = None) \<longrightarrow> ok \<longrightarrow> silent rp rp')"

lemma decides_chain:
  "decides ctx a rp rp1 \<Longrightarrow> decides ctx b rp1 rp2 \<Longrightarrow> decides ctx (a \<and> b) rp rp2"
  unfolding decides_def by (metis grows_trans silent_chain)

lemma decides_polled:
  assumes "\<And>rp'. decides ctx ok rp' (k rp')"
  shows "decides ctx ok rp (polled ctx path rp k)"
proof -
  have "grows rp (polled ctx path rp k)" by (rule polled_grows) (use assms in \<open>simp add: decides_def\<close>)
  then show ?thesis
    using assms [of "(Suc (fst rp), snd rp)"] unfolding decides_def polled_silent by blast
qed

lemma decides_exact: "grows rp rp' \<Longrightarrow> (silent rp rp' \<longleftrightarrow> ok) \<Longrightarrow> decides ctx ok rp rp'"
  by (simp add: decides_def)

lemma decides_refl [simp]: "decides ctx ok rp rp \<longleftrightarrow> ok"
  by (auto simp: decides_def)

text \<open>The part of a field that is checked before its subfields.\<close>

definition head_ok :: "Field \<Rightarrow> bool" where
  "head_ok f \<longleftrightarrow> (case fld_ModelRef f of None \<Rightarrow> True | Some r \<Rightarrow> valid_ref r) \<and> combos_ok f"

lemma decides_head:
  "decides ctx (head_ok f) rp (validateFieldCombinations f path
     (case fld_ModelRef f of None \<Rightarrow> rp | Some r \<Rightarrow> validateRefModelFormat r path rp))"
proof -
  have "decides ctx (case fld_ModelRef f of None \<Rightarrow> True | Some r \<Rightarrow> valid_ref r) rp
      (case fld_ModelRef f of None \<Rightarrow> rp | Some r \<Rightarrow> validateRefModelFormat r path rp)"
    by (cases "fld_ModelRef f") (simp_all add: decides_exact validateRefModelFormat_silent)
  from decides_chain [OF this decides_exact [OF validateFieldCombinations_silent]]
  show ?thesis unfolding head_ok_def .
qed

lemma wf_field_leaf:
  assumes "fld_Subfields f = None"
  shows "wf_field f \<longleftrightarrow> head_ok f \<and> silent rp (validateLeafNode f path rp)"
  using assms validateLeafNode_silent(2) [of f rp path]
  by (cases f; cases "combos_ok f")
    (auto simp: wf_field_simps head_ok_def combos_ok_def split: option.splits)

lemma wf_field_folder:
  "wf_field (Field ref rel (Some fs) ps) \<longleftrightarrow> head_ok (Field ref rel (Some fs) ps) \<and> ps = [] \<and> wf_fields fs"
  by (cases ref; cases rel; cases fs)
    (auto simp: wf_field_simps head_ok_def combos_ok_def wf_fields_def Let_def)

lemma structure_decides:
  "decides ctx (wf_fields st) rp (validateStructure ctx st path rp)"
  "decides ctx (wf_fields st) rp (validate_fields ctx st path rp)"
  "decides ctx (wf_field f) rp (validateField ctx f path rp)"
proof (induction ctx st path rp and ctx st path rp and ctx f path rp
    rule: validateStructure_validate_fields_validateField.induct)
  case (1 ctx st path rp)
  then show ?case by (auto intro: decides_polled)
next
  case (2 ctx path rp)
  show ?case by (simp add: wf_fields_def)
next
  case (3 ctx n f fs path rp)
  let ?p = "join_path path n"
  let ?r1 = "validateFieldNameWithPath n ?p rp"
  have "decides ctx (valid_name n) rp ?r1"
    by (rule decides_exact) (simp_all add: validateFieldNameWithPath_silent)
  from decides_chain [OF decides_chain [OF this 3(1) [OF refl]] 3(2) [OF refl]] show ?case
    by (simp add: wf_fields_def conj_assoc Let_def)
next
  case (4 ctx ref rel subs ps path rp)
  let ?f = "Field ref rel subs ps"
  have head: "decides ctx (head_ok ?f) rp (validateFieldCombinations ?f path
      (case ref of None \<Rightarrow> rp | Some r \<Rightarrow> validateRefModelFormat r path rp))" for rp
    using decides_head [of ctx ?f rp path] by simp
  show ?case
  proof (cases subs)
    case None
    have "decides ctx (head_ok ?f \<and> silent rp2 (validateLeafNode ?f path rp2)) rp (validateLeafNode ?f path rp2)"
      if "rp2 = validateFieldCombinations ?f path (case ref of None \<Rightarrow> rp | Some r \<Rightarrow> validateRefModelFormat r path rp)" for rp rp2
      unfolding that
      by (rule decides_chain [OF head]) (simp add: decides_exact validateLeafNode_silent(1))
    then have "decides ctx (wf_field ?f) rp (validateLeafNode ?f path (validateFieldCombinations ?f path
        (case ref of None \<Rightarrow> rp | Some r \<Rightarrow> validateRefModelFormat r path rp)))" for rp
      using wf_field_leaf [of ?f] None by simp
    then show ?thesis by (simp add: None Let_def decides_polled)
  next
    case (Some fs)
    have nl: "decides ctx (ps = []) rp (add_error_if (ps \<noteq> []) path m rp)" for rp m
      by (rule decides_exact) simp_all
    have ih: "decides ctx (wf_fields fs)
        (add_error_if (ps \<noteq> []) path ''non-leaf nodes (folders) cannot have _payloadshape'' (validateFieldCombinations ?f path
          (case ref of None \<Rightarrow> rp | Some r \<Rightarrow> validateRefModelFormat r path rp)))
        (validateStructure ctx fs path
          (add_error_if (ps \<noteq> []) path ''non-leaf nodes (folders) cannot have _payloadshape'' (validateFieldCombinations ?f path
            (case ref of None \<Rightarrow> rp | Some r \<Rightarrow> validateRefModelFormat r path rp))))" for rp
      by (rule 4) (simp_all add: Some)
    have "decides ctx (wf_field ?f) rp (validateStructure ctx fs path
        (add_error_if (ps \<noteq> []) path ''non-leaf nodes (folders) cannot have _payloadshape'' (validateFieldCombinations ?f path
        (case ref of None \<Rightarrow> rp | Some r \<Rightarrow> validateRefModelFormat r path rp))))" for rp
      using decides_chain [OF decides_chain [OF head nl] ih] Some by (simp add: wf_field_folder conj_assoc)
    then show ?thesis by (simp add: Some Let_def decides_polled)
  qed
qed

section \<open>Payload shapes in use\<close>

inductive uses_shape :: "field_map \<Rightarrow> string \<Rightarrow> bool" where
  shape_here: "(n, Field ref rel subs ps) \<in> set fs \<Longrightarrow> ps \<noteq> [] \<Longrightarrow> uses_shape fs ps"
| shape_below: "(n, Field ref rel (Some sub) ps) \<in> set fs \<Longrightarrow> uses_shape sub s \<Longrightarrow> uses_shape fs s"

lemma uses_shape_Nil [simp]: "\<not> uses_shape [] s"
  by (auto elim: uses_shape.cases)

lemma uses_shape_Cons:
  "uses_shape ((n, Field ref rel subs ps) # fs) s
   \<longleftrightarrow> ps \<noteq> [] \<and> s = ps \<or> (\<exists>sub. subs = Some sub \<and> uses_shape sub s) \<or> uses_shape fs s" (is "?l \<longleftrightarrow> ?r")
proof
  assume ?l
  then show ?r by (cases rule: uses_shape.cases) (auto intro: uses_shape.intros)
next
  assume ?r
  then consider "ps \<noteq> []" "s = ps" | sub where "subs = Some sub" "uses_shape sub s" | "uses_shape fs s" by blast
  then show ?l
  proof cases
    case 3
    then show ?thesis by (cases rule: uses_shape.cases) (auto intro: uses_shape.intros)
  qed (auto intro: uses_shape.intros)
qed

definition shapes_known :: "(string \<rightharpoonup> PayloadShape) \<Rightarrow> field_map \<Rightarrow> bool" where
  "shapes_known shapes fs \<longleftrightarrow> (\<forall>s. uses_shape fs s \<longrightarrow> s \<in> dom shapes)"

lemma shapes_decides:
  "decides ctx (shapes_known shapes st) rp (validateStructurePayloadShapes ctx shapes st path rp)"
  "decides ctx (shapes_known shapes st) rp (shape_fields ctx shapes st path rp)"
proof (induction ctx shapes st path rp and ctx shapes st path rp
    rule: validateStructurePayloadShapes_shape_fields.induct)
  case (1 ctx shapes st path rp)
  then show ?case by (auto intro: decides_polled)
next
  case (2 ctx shapes path rp)
  show ?case by (simp add: shapes_known_def)
next
  case (3 ctx shapes n ref rel subs ps fs path rp)
  let ?p = "join_path path n"
  let ?r1 = "if ps \<noteq> [] then validateSinglePayloadShape ps ?p shapes rp else rp"
  let ?r2 = "case subs of None \<Rightarrow> ?r1 | Some sfs \<Rightarrow> validateStructurePayloadShapes ctx shapes sfs ?p ?r1"
  have d1: "decides ctx (ps \<noteq> [] \<longrightarrow> ps \<in> dom shapes) rp ?r1"
    by (auto intro!: decides_exact simp: validateSinglePayloadShape_def)
  have d2: "decides ctx (case subs of None \<Rightarrow> True | Some sfs \<Rightarrow> shapes_known shapes sfs) ?r1 ?r2"
    using 3(1) by (cases subs) simp_all
  have "shapes_known shapes ((n, Field ref rel subs ps) # fs) \<longleftrightarrow>
      ((ps \<noteq> [] \<longrightarrow> ps \<in> dom shapes) \<and> (case subs of None \<Rightarrow> True | Some sfs \<Rightarrow> shapes_known shapes sfs)) \<and> shapes_known shapes fs"
    by (auto simp: shapes_known_def uses_shape_Cons split: option.splits)
  with decides_chain [OF decides_chain [OF d1 d2] 3(2) [OF refl refl refl]] show ?case
    by (simp add: Let_def)
qed

lemma inject_default_keeps: "m n = Some s \<Longrightarrow> inject_default k sh m n = Some s"
  by (auto simp: inject_default_def split: option.splits)

lemma ensureDefaultPayloadShapes_keeps: "m n = Some s \<Longrightarrow> ensureDefaultPayloadShapes m n = Some s"
  unfolding ensureDefaultPayloadShapes_def by (intro inject_default_keeps)

lemma ensureDefaultPayloadShapes_dom:
  "dom (ensureDefaultPayloadShapes m) = dom m \<union> {''timeseries-number'', ''timeseries-string'', ''timeseries-boolean''}"
proof -
  have d: "dom (inject_default n s m) = insert n (dom m)" for n s m
    by (auto simp: inject_default_def split: option.splits)
  have i: "insert a (insert b (insert c D)) = D \<union> {c, b, a}" for a b c :: string and D by blast
  show ?thesis unfolding ensureDefaultPayloadShapes_def d by (rule i)
qed

section \<open>References in use\<close>

inductive uses_ref :: "field_map \<Rightarrow> ModelRef \<Rightarrow> bool" where
  ref_here: "(n, Field (Some r) rel subs ps) \<in> set fs \<Longrightarrow> uses_ref fs r"
| ref_below: "(n, Field ref rel (Some sub) ps) \<in> set fs \<Longrightarrow> uses_ref sub r \<Longrightarrow> uses_ref fs r"

lemma uses_ref_Nil [simp]: "\<not> uses_ref [] r"
  by (auto elim: uses_ref.cases)

lemma uses_ref_Cons:
  "uses_ref ((n, Field ref rel subs ps) # fs) r
   \<longleftrightarrow> ref = Some r \<or> (\<exists>sub. subs = Some sub \<and> uses_ref sub r) \<or> uses_ref fs r" (is "?l \<longleftrightarrow> ?r")
proof
  assume ?l
  then show ?r by (cases rule: uses_ref.cases) (auto intro: uses_ref.intros)
next
  assume ?r
  then consider "ref = Some r" | sub where "subs = Some sub" "uses_ref sub r" | "uses_ref fs r" by blast
  then show ?l
  proof cases
    case 3
    then show ?thesis by (cases rule: uses_ref.cases) (auto intro: uses_ref.intros)
  qed (auto intro: uses_ref.intros)
qed

definition lookup_model :: "(string \<rightharpoonup> DataModelsConfig) \<Rightarrow> ModelRef \<Rightarrow> field_map option" where
  "lookup_model models r =
     (case models (ref_Name r) of None \<Rightarrow> None | Some m \<Rightarrow> map_option Structure (Versions m (ref_Version r)))"

text \<open>At most \<open>k\<close> further levels of references may follow, and none may lead into \<open>visited\<close>.\<close>

primrec refs_ok :: "nat \<Rightarrow> (string \<rightharpoonup> DataModelsConfig) \<Rightarrow> string set \<Rightarrow> field_map \<Rightarrow> bool" where
  "refs_ok 0 models visited st = (\<forall>r. \<not> uses_ref st r)"
| "refs_ok (Suc k) models visited st =
     (\<forall>r. uses_ref st r \<longrightarrow> reference_key r \<notin> visited
        \<and> (\<exists>st'. lookup_model models r = Some st' \<and> refs_ok k models (insert (reference_key r) visited) st'))"

definition ref_ok :: "nat \<Rightarrow> (string \<rightharpoonup> DataModelsConfig) \<Rightarrow> string set \<Rightarrow> ModelRef \<Rightarrow> bool" where
  "ref_ok k models visited r \<longleftrightarrow> (case k of 0 \<Rightarrow> False | Suc k' \<Rightarrow> reference_key r \<notin> visited
     \<and> (\<exists>st'. lookup_model models r = Some st' \<and> refs_ok k' models (insert (reference_key r) visited) st'))"

lemma refs_ok_iff: "refs_ok k models visited st \<longleftrightarrow> (\<forall>r. uses_ref st r \<longrightarrow> ref_ok k models visited r)"
  by (cases k) (simp_all add: ref_ok_def)

lemma references_decides:
  "decides ctx (refs_ok (ref_depth_limit - depth) models visited st) rp
     (validateStructureReferences ctx models visited depth st path rp)"
  "decides ctx (refs_ok (ref_depth_limit - depth) models visited st) rp
     (reference_fields ctx models visited depth st path rp)"
  "decides ctx (ref_ok (ref_depth_limit - depth) models visited r) rp
     (validateSingleReference ctx models visited depth r path rp)"
proof (induction ctx models visited depth st path rp and ctx models visited depth st path rp
    and ctx models visited depth r path rp
    rule: validateStructureReferences_reference_fields_validateSingleReference.induct)
  case (1 ctx models visited depth st path rp)
  then show ?case by (auto intro: decides_polled)
next
  case (2 ctx models visited depth path rp)
  show ?case by (simp add: refs_ok_iff)
next
  case (3 ctx models visited depth n ref rel subs ps fs path rp)
  let ?p = "join_path path n" and ?k = "ref_depth_limit - depth"
  let ?r1 = "case ref of None \<Rightarrow> rp | Some r \<Rightarrow> validateSingleReference ctx models visited depth r ?p rp"
  let ?r2 = "case subs of None \<Rightarrow> ?r1 | Some sfs \<Rightarrow> validateStructureReferences ctx models visited depth sfs ?p ?r1"
  have d1: "decides ctx (case ref of None \<Rightarrow> True | Some r \<Rightarrow> ref_ok ?k models visited r) rp ?r1"
    using 3(1) by (cases ref) simp_all
  have d2: "decides ctx (case subs of None \<Rightarrow> True | Some sfs \<Rightarrow> refs_ok ?k models visited sfs) ?r1 ?r2"
    using 3(2) by (cases subs) simp_all
  have "refs_ok ?k models visited ((n, Field ref rel subs ps) # fs) \<longleftrightarrow>
      ((case ref of None \<Rightarrow> True | Some r \<Rightarrow> ref_ok ?k models visited r)
        \<and> (case subs of None \<Rightarrow> True | Some sfs \<Rightarrow> refs_ok ?k models visited sfs)) \<and> refs_ok ?k models visited fs"
    by (auto simp: refs_ok_iff uses_ref_Cons split: option.splits)
  with decides_chain [OF decides_chain [OF d1 d2] 3(3) [OF refl refl refl]] show ?case
    by (simp add: Let_def)
next
  case (4 ctx models visited depth r path rp)
  have "decides ctx (ref_ok (ref_depth_limit - depth) models visited r) rp
     (if ref_depth_limit \<le> depth
       then add_error path ''reference validation depth limit exceeded (10 levels) - possible deep nesting or circular reference'' rp
       else if reference_key r \<in> visited
       then add_error path (''circular reference detected: '' @ reference_key r) rp
       else case models (ref_Name r) of
              None \<Rightarrow> add_error path (''referenced model '' @ quote (ref_Name r) @ '' does not exist'') rp
            | Some m \<Rightarrow>
                (case Versions m (ref_Version r) of
                   None \<Rightarrow> add_error path (''referenced model '' @ quote (ref_Name r) @ '' version '' @ quote (ref_Version r)
                             @ '' does not exist'') rp
                 | Some v \<Rightarrow>
                     validateStructureReferences ctx models (insert (reference_key r) visited) (Suc depth) (Structure v)
                       (path @ ''.'' @ reference_key r) rp))" for rp
  proof -
    have no: "decides ctx ok rp (add_error p m rp) \<longleftrightarrow> ((\<forall>i. ctx i = None) \<longrightarrow> \<not> ok)" for ok p m
      by (auto simp: decides_def)
    show ?thesis
    proof (cases "ref_depth_limit \<le> depth \<or> reference_key r \<in> visited \<or> lookup_model models r = None")
      case True
      then have "\<not> ref_ok (ref_depth_limit - depth) models visited r"
        by (auto simp: ref_ok_def split: nat.splits)
      with True show ?thesis
        by (auto simp del: append.simps simp: no lookup_model_def split: option.splits)
    next
      case False
      then obtain m v where mv: "models (ref_Name r) = Some m" "Versions m (ref_Version r) = Some v"
        by (auto simp: lookup_model_def split: option.splits)
      obtain k where k: "ref_depth_limit - depth = Suc k" "ref_depth_limit - Suc depth = k"
        using False by (cases "ref_depth_limit - depth") auto
      have "ref_ok (ref_depth_limit - depth) models visited r
          \<longleftrightarrow> refs_ok (ref_depth_limit - Suc depth) models (insert (reference_key r) visited) (Structure v)"
        using False mv k by (simp add: ref_ok_def lookup_model_def)
      with 4 [of m v rp] False mv show ?thesis by simp
    qed
  qed
  then show ?case by (simp only: validateSingleReference.simps decides_polled)
qed

text \<open>Chains of references that start in a structure; the last one need not be resolvable.\<close>

inductive ref_path :: "(string \<rightharpoonup> DataModelsConfig) \<Rightarrow> field_map \<Rightarrow> ModelRef list \<Rightarrow> bool" where
  no_ref: "ref_path models st []"
| last_ref: "uses_ref st r \<Longrightarrow> ref_path models st [r]"
| next_ref: "uses_ref st r \<Longrightarrow> lookup_model models r = Some st' \<Longrightarrow> ref_path models st' rs \<Longrightarrow> ref_path models st (r # rs)"

inductive_cases ref_path_Cons: "ref_path models st (r # rs)"

definition path_ok :: "nat \<Rightarrow> (string \<rightharpoonup> DataModelsConfig) \<Rightarrow> string set \<Rightarrow> ModelRef list \<Rightarrow> bool" where
  "path_ok k models visited rs \<longleftrightarrow> length rs \<le> k \<and> distinct (map reference_key rs)
     \<and> reference_key ` set rs \<inter> visited = {} \<and> (\<forall>r \<in> set rs. lookup_model models r \<noteq> None)"

lemma path_ok_Cons:
  "path_ok (Suc k) models visited (r # rs) \<longleftrightarrow> reference_key r \<notin> visited \<and> lookup_model models r \<noteq> None
     \<and> path_ok k models (insert (reference_key r) visited) rs"
  by (auto simp: path_ok_def)

lemma refs_ok_paths:
  "refs_ok k models visited st \<longleftrightarrow> (\<forall>rs. ref_path models st rs \<longrightarrow> path_ok k models visited rs)"
proof (induction k arbitrary: visited st)
  case 0
  have e: "rs = []" if "ref_path models st rs" "\<forall>r. \<not> uses_ref st r" for rs
    using that by (cases rule: ref_path.cases) auto
  have n: "\<not> path_ok 0 models visited [r]" "path_ok 0 models visited []" for r by (simp_all add: path_ok_def)
  show ?case
    using e n last_ref [of st _ models] unfolding refs_ok.simps by blast
next
  case (Suc k)
  show ?case
  proof
    assume ok: "refs_ok (Suc k) models visited st"
    show "\<forall>rs. ref_path models st rs \<longrightarrow> path_ok (Suc k) models visited rs"
    proof (intro allI impI)
      fix rs
      assume p: "ref_path models st rs"
      show "path_ok (Suc k) models visited rs"
      proof (cases rs)
        case (Cons r rs')
        with p have u: "uses_ref st r" by (auto elim: ref_path_Cons)
        with ok obtain st' where st': "reference_key r \<notin> visited" "lookup_model models r = Some st'"
          "refs_ok k models (insert (reference_key r) visited) st'" by auto
        have "ref_path models st' rs'"
          using p Cons st'(2) by (auto elim!: ref_path_Cons intro: no_ref)
        with Suc.IH st'(3) have "path_ok k models (insert (reference_key r) visited) rs'" by blast
        with Cons st' show ?thesis by (simp add: path_ok_Cons)
      qed (simp add: path_ok_def)
    qed
  next
    assume paths: "\<forall>rs. ref_path models st rs \<longrightarrow> path_ok (Suc k) models visited rs"
    show "refs_ok (Suc k) models visited st"
      unfolding refs_ok.simps
    proof (intro allI impI)
      fix r
      assume u: "uses_ref st r"
      from paths last_ref [OF u] have "path_ok (Suc k) models visited [r]" by blast
      then have one: "reference_key r \<notin> visited" "lookup_model models r \<noteq> None"
        by (simp_all add: path_ok_Cons)
      then obtain st' where st': "lookup_model models r = Some st'" by blast
      have "path_ok k models (insert (reference_key r) visited) rs" if "ref_path models st' rs" for rs
        using paths [rule_format, OF next_ref [OF u st' that]] by (simp add: path_ok_Cons)
      with Suc.IH one st' show "reference_key r \<notin> visited
        \<and> (\<exists>st'. lookup_model models r = Some st' \<and> refs_ok k models (insert (reference_key r) visited) st')" by blast
    qed
  qed
qed

section \<open>The passes\<close>

lemma run_pass_decides:
  assumes "\<And>rp. decides ctx ok rp (body rp)"
  shows "fst (run_pass ctx title body n) = None \<Longrightarrow> ok"
    and "\<forall>i. ctx i = None \<Longrightarrow> ok \<Longrightarrow> fst (run_pass ctx title body n) = None"
proof -
  obtain n' errs where b: "body (Suc n, []) = (n', errs)" by fastforce
  have d: "silent (Suc n, []) (n', errs) \<longleftrightarrow> errs = []" by (auto simp: silent_def)
  from assms [of "(Suc n, [])"] show "fst (run_pass ctx title body n) = None \<Longrightarrow> ok"
    using b d by (auto simp: run_pass_def decides_def split: option.splits list.splits)
  from assms [of "(Suc n, [])"] show "\<forall>i. ctx i = None \<Longrightarrow> ok \<Longrightarrow> fst (run_pass ctx title body n) = None"
    using b d by (auto simp: run_pass_def decides_def split: list.splits)
qed

lemma structure_pass:
  "fst (run_pass ctx title (validateStructure ctx st path) n) = None \<Longrightarrow> wf_fields st"
  "\<forall>i. ctx i = None \<Longrightarrow> wf_fields st \<Longrightarrow> fst (run_pass ctx title (validateStructure ctx st path) n) = None"
  using run_pass_decides [of ctx "wf_fields st" "validateStructure ctx st path"] structure_decides(1) by blast+

lemma shapes_pass:
  "fst (run_pass ctx title (validateStructurePayloadShapes ctx shapes st path) n) = None \<Longrightarrow> shapes_known shapes st"
  "\<forall>i. ctx i = None \<Longrightarrow> shapes_known shapes st
     \<Longrightarrow> fst (run_pass ctx title (validateStructurePayloadShapes ctx shapes st path) n) = None"
  using run_pass_decides [of ctx "shapes_known shapes st" "validateStructurePayloadShapes ctx shapes st path"]
    shapes_decides(1) by blast+

lemma references_pass:
  "fst (run_pass ctx title (validateStructureReferences ctx models V d st path) n) = None
     \<Longrightarrow> refs_ok (ref_depth_limit - d) models V st"
  "\<forall>i. ctx i = None \<Longrightarrow> refs_ok (ref_depth_limit - d) models V st
     \<Longrightarrow> fst (run_pass ctx title (validateStructureReferences ctx models V d st path) n) = None"
  using run_pass_decides [of ctx "refs_ok (ref_depth_limit - d) models V st" "validateStructureReferences ctx models V d st path"]
    references_decides(1) by blast+

text \<open>A model that is well-formed, uses known shapes and whose reference chains are all fine.\<close>

definition model_ok :: "DataModelVersion \<Rightarrow> (string \<rightharpoonup> DataModelsConfig) \<Rightarrow> (string \<rightharpoonup> PayloadShape) \<Rightarrow> bool" where
  "model_ok dm models shapes \<longleftrightarrow> wf_fields (Structure dm)
     \<and> shapes_known (ensureDefaultPayloadShapes shapes) (Structure dm)
     \<and> (\<forall>rs. ref_path models (Structure dm) rs \<longrightarrow> path_ok ref_depth_limit models {} rs)"

lemma ValidateWithReferences_parts:
  "fst (ValidateWithReferences ctx dm models shapes n) = None \<longleftrightarrow>
     (let (e1, n1) = ValidateStructureOnly ctx dm n;
          (e2, n2) = validatePayloadShapes ctx dm (ensureDefaultPayloadShapes shapes) n1
      in e1 = None \<and> e2 = None \<and> fst (validateReferences ctx dm models {} 0 n2) = None)"
  by (simp add: ValidateWithReferences_def Let_def split: prod.splits option.splits)

section \<open>Properties\<close>

text \<open>
  Structure validation is sound and complete. Whatever the context does, a nil result means
  that every field of the model has one of the allowed shapes and a valid name; when the context
  never expires, every such model is accepted.
\<close>

theorem structure_validation_exact:
  "(fst (ValidateStructureOnly ctx dm n) = None \<longrightarrow> wf_fields (Structure dm))
   \<and> ((\<forall>i. ctx i = None) \<longrightarrow> wf_fields (Structure dm) \<longrightarrow> fst (ValidateStructureOnly ctx dm n) = None)"
  unfolding ValidateStructureOnly_def validateDataModel_def using structure_pass by blast

text \<open>
  C21: validation with references is sound and complete. A nil result, whatever the context does,
  means: well-formed structure, only known payload shapes, and every chain of references that starts
  in the model is at most ten long, resolves completely and never visits the same model version
  twice. When the context never expires, every such model is accepted.
\<close>

theorem reference_validation_exact:
  "(fst (ValidateWithReferences ctx dm models shapes n) = None \<longrightarrow> model_ok dm models shapes)
   \<and> ((\<forall>i. ctx i = None) \<longrightarrow> model_ok dm models shapes \<longrightarrow> fst (ValidateWithReferences ctx dm models shapes n) = None)"
proof -
  obtain e1 n1 where 1: "ValidateStructureOnly ctx dm n = (e1, n1)" by fastforce
  obtain e2 n2 where 2: "validatePayloadShapes ctx dm (ensureDefaultPayloadShapes shapes) n1 = (e2, n2)" by fastforce
  obtain e3 n3 where 3: "validateReferences ctx dm models {} 0 n2 = (e3, n3)" by fastforce
  note p1 = structure_pass [where title = "''data model structure validation failed:''" and st = "Structure dm"
      and path = "[]" and n = n and ctx = ctx]
  note p2 = shapes_pass [where title = "''data model payload shape validation failed:''" and st = "Structure dm"
      and shapes = "ensureDefaultPayloadShapes shapes" and path = "[]" and n = n1 and ctx = ctx]
  note p3 = references_pass [where title = "''data model reference validation failed:''" and st = "Structure dm"
      and models = models and V = "{}" and d = 0 and path = "[]" and n = n2 and ctx = ctx]
  have f: "fst (ValidateWithReferences ctx dm models shapes n) = None \<longleftrightarrow> e1 = None \<and> e2 = None \<and> e3 = None"
    by (simp add: ValidateWithReferences_parts 1 2 3)
  show ?thesis
    unfolding f model_ok_def refs_ok_paths [symmetric]
    using p1 p2 p3 1 2 3 unfolding ValidateStructureOnly_def validateDataModel_def validatePayloadShapes_def validateReferences_def
    by (simp only: fst_conv diff_zero) blast
qed

section \<open>Witnesses\<close>

text \<open>A pump with a motor submodel and a relational leaf; the motor has two time series.\<close>

definition demo_motor :: DataModelVersion where
  "demo_motor = \<lparr>Structure = [(''current'', Field None None None ''timeseries-number''),
     (''diag'', Field None None (Some [(''status'', Field None None None ''timeseries-string'')]) [])]\<rparr>"

definition demo_models :: "string \<rightharpoonup> DataModelsConfig" where
  "demo_models = [''motor'' \<mapsto> \<lparr>Versions = [''v1'' \<mapsto> demo_motor], dm_Name = ''motor'', dm_Description = []\<rparr>]"

definition demo_pump :: DataModelVersion where
  "demo_pump = \<lparr>Structure = [(''pressure'', Field None None None ''timeseries-number''),
     (''drive'', Field (Some \<lparr>ref_Name = ''motor'', ref_Version = ''v1''\<rparr>) None None []),
     (''order'', Field None (Some \<lparr>ps_Fields = [(''id'', PayloadField [] ''string'')], ps_Description = []\<rparr>) None [])]\<rparr>"

theorem structure_validation_exact_witness: "wf_fields (Structure demo_pump)"
proof -
  have "fst (ValidateStructureOnly (\<lambda>_. None) demo_pump 0) = None" by code_simp
  with structure_validation_exact [of "\<lambda>_. None" demo_pump 0] show ?thesis by blast
qed

theorem reference_validation_exact_witness: "model_ok demo_pump demo_models Map.empty"
proof -
  have "fst (ValidateWithReferences (\<lambda>_. None) demo_pump demo_models Map.empty 0) = None" by code_simp
  with reference_validation_exact [of "\<lambda>_. None" demo_pump demo_models Map.empty 0] show ?thesis by blast
qed

end
