(* ===== verification/Go_Value.thy ===== *)
theory Go_Value
  imports S6_Time "HOL-Library.Finite_Map"
begin

text \<open>
  The dynamically typed values that documents hold (\<^verbatim>\<open>map[string]interface{}\<close>), what a
  round trip through \<^verbatim>\<open>encoding/json\<close> makes of them, signed 64-bit counters, contexts, and
  the order in which \<^verbatim>\<open>range\<close> visits a map.
\<close>

section \<open>Signed 64-bit integers\<close>

definition max_int64 :: int where "max_int64 = 2 ^ 63 - 1"

definition wrap_int64 :: "int \<Rightarrow> int" where
  "wrap_int64 x = (x + 2 ^ 63) mod 2 ^ 64 - 2 ^ 63"

text \<open>\<^verbatim>\<open>strconv.FormatInt(i, 10)\<close>.\<close>

definition FormatInt :: "int \<Rightarrow> string" where
  "FormatInt i = (if i < 0 then ''-'' @ itoa (nat (- i)) else itoa (nat i))"

text \<open>\<^verbatim>\<open>strconv.Atoi\<close>.\<close>

definition is_digit :: "char \<Rightarrow> bool" where
  "is_digit ch \<longleftrightarrow> of_char ch \<ge> (48 :: nat) \<and> of_char ch \<le> (57 :: nat)"

definition Atoi :: "string \<Rightarrow> int option" where
  "Atoi s =
     (let ds = (if s \<noteq> [] \<and> (hd s = CHR ''-'' \<or> hd s = CHR ''+'') then tl s else s);
          v = (if s \<noteq> [] \<and> hd s = CHR ''-'' then - dec_value ds else dec_value ds)
      in if ds = [] \<or> \<not> list_all is_digit ds \<or> v < - max_int64 - 1 \<or> v > max_int64 then None else Some v)"

section \<open>Values\<close>

text \<open>
  The dynamic types that occur in documents: nil, bool, int64, float64 (a finite one, as its exact
  value), string, \<^verbatim>\<open>time.Time\<close> (nanoseconds since the epoch, UTC), slices and maps. A string
  that \<^verbatim>\<open>json.Marshal\<close> produced is \<open>VJSON v\<close>, where \<open>v\<close> is what \<^verbatim>\<open>json.Unmarshal\<close>
  reads from it. \<^verbatim>\<open>reflect.DeepEqual\<close> on these values is equality.
\<close>

datatype gval =
    VNil
  | VBool bool
  | VInt64 int
  | VFloat64 rat
  | VString string
  | VTime int
  | VList "gval list"
  | VMap "(string, gval) fmap"
  | VJSON gval

type_synonym document = "(string, gval) fmap"

text \<open>\<^verbatim>\<open>m[k]\<close> on a \<^verbatim>\<open>map[string]interface{}\<close>: nil for a missing key.\<close>

definition field :: "document \<Rightarrow> string \<Rightarrow> gval" where
  "field d k = (case fmlookup d k of None \<Rightarrow> VNil | Some v \<Rightarrow> v)"

text \<open>The assertion \<^verbatim>\<open>s, ok := d[k].(string)\<close>; the text of a JSON value is never looked into.\<close>

definition str_field :: "document \<Rightarrow> string \<Rightarrow> string option" where
  "str_field d k = (case field d k of VString s \<Rightarrow> Some s | _ \<Rightarrow> None)"

text \<open>\<^verbatim>\<open>int64(f)\<close> cuts the fraction off; a value that does not fit gives the least integer.\<close>

definition int64_of_float :: "rat \<Rightarrow> int" where
  "int64_of_float q =
     (let n = (if 0 \<le> q then \<lfloor>q\<rfloor> else \<lceil>q\<rceil>)
      in if - (2 ^ 63) \<le> n \<and> n < 2 ^ 63 then n else - (2 ^ 63))"

text \<open>An integer that may have become a float64 in a JSON round trip.\<close>

fun int_value :: "gval \<Rightarrow> int option" where
  "int_value (VInt64 i) = Some i"
| "int_value (VFloat64 q) = Some (int64_of_float q)"
| "int_value _ = None"

section \<open>JSON\<close>

text \<open>
  The float64 nearest to an integer, ties to the even mantissa: an integer of more than 53 bits
  loses its low bits.
\<close>

fun excess_bits :: "nat \<Rightarrow> nat" where
  "excess_bits m = (if m < 2 ^ 53 then 0 else Suc (excess_bits (m div 2)))"

declare excess_bits.simps [simp del]

definition round53 :: "nat \<Rightarrow> nat" where
  "round53 m =
     (let e = excess_bits m; q = m div 2 ^ e; r = m mod 2 ^ e
      in if 0 < e \<and> (2 ^ (e - 1) < r \<or> r = 2 ^ (e - 1) \<and> odd q) then (q + 1) * 2 ^ e else q * 2 ^ e)"

definition float64_of_int :: "int \<Rightarrow> rat" where
  "float64_of_int i = (if i < 0 then - of_nat (round53 (nat (- i))) else of_nat (round53 (nat i)))"

text \<open>
  \<^verbatim>\<open>time.Time.MarshalJSON\<close>: \<^verbatim>\<open>RFC3339Nano\<close> of a UTC instant, with the fraction's trailing
  zeros dropped. The date is that of the proleptic Gregorian calendar, counted in eras of 400 years
  that start on the first of March.
\<close>

definition civil_date :: "int \<Rightarrow> int \<times> int \<times> int" where
  "civil_date days =
     (let z = days + 719468; era = z div 146097; doe = z mod 146097;
          yoe = (doe - doe div 1460 + doe div 36524 - doe div 146096) div 365;
          doy = doe - (365 * yoe + yoe div 4 - yoe div 100);
          mp = (5 * doy + 2) div 153;
          d = doy - (153 * mp + 2) div 5 + 1;
          m = (if mp < 10 then mp + 3 else mp - 9);
          y = yoe + era * 400 + (if m \<le> 2 then 1 else 0)
      in (y, m, d))"

definition fraction_text :: "nat \<Rightarrow> string" where
  "fraction_text ns = (if ns = 0 then [] else ''.'' @ rev (dropWhile (\<lambda>c. c = CHR ''0'') (rev (pad 9 ns))))"

definition rfc3339nano :: "int \<Rightarrow> string" where
  "rfc3339nano t =
     (case civil_date (t div 86400000000000) of (y, m, d) \<Rightarrow>
        let r = nat (t mod 86400000000000); sec = r div 1000000000
        in pad 4 (nat y) @ ''-'' @ pad 2 (nat m) @ ''-'' @ pad 2 (nat d) @ ''T''
           @ pad 2 (sec div 3600) @ '':'' @ pad 2 (sec div 60 mod 60) @ '':'' @ pad 2 (sec mod 60)
           @ fraction_text (r mod 1000000000) @ ''Z'')"

text \<open>
  What \<^verbatim>\<open>json.Unmarshal\<close> into an \<^verbatim>\<open>interface{}\<close> gives for the text that
  \<^verbatim>\<open>json.Marshal\<close> writes: numbers become float64 and instants become strings.
\<close>

primrec json_norm :: "gval \<Rightarrow> gval" where
  "json_norm VNil = VNil"
| "json_norm (VBool b) = VBool b"
| "json_norm (VInt64 i) = VFloat64 (float64_of_int i)"
| "json_norm (VFloat64 q) = VFloat64 q"
| "json_norm (VString s) = VString s"
| "json_norm (VTime t) = VString (rfc3339nano t)"
| "json_norm (VList vs) = VList (map json_norm vs)"
| "json_norm (VMap m) = VMap (fmmap json_norm m)"
| "json_norm (VJSON v) = VJSON v"

section \<open>Contexts and the order of map iteration\<close>

text \<open>
  A context is nil or answers \<^verbatim>\<open>ctx.Err()\<close>; the answer may differ from one question to the
  next within an operation, which asks its \<open>i\<close>-th question with \<open>i\<close>.
\<close>

type_synonym gctx = "nat \<Rightarrow> goerror option"
type_synonym gcontext = "gctx option"

definition background :: gcontext where "background = Some (\<lambda>_. None)"

text \<open>
  \<^verbatim>\<open>range\<close> over a map visits every key once, in an order that is not specified. A function
  from the set of keys to the order stands for the order taken.
\<close>

type_synonym map_order = "string fset \<Rightarrow> string list"

definition range_order :: "map_order \<Rightarrow> bool" where
  "range_order ord \<longleftrightarrow> (\<forall>A. distinct (ord A) \<and> set (ord A) = fset A)"

definition range_values :: "map_order \<Rightarrow> (string, 'v) fmap \<Rightarrow> 'v list" where
  "range_values ord m = map (\<lambda>k. the (fmlookup m k)) (ord (fmdom m))"

section \<open>Lemmas\<close>

lemma wrap_int64_id [simp]: "- (2 ^ 63) \<le> x \<Longrightarrow> x \<le> max_int64 \<Longrightarrow> wrap_int64 x = x"
  by (simp add: wrap_int64_def max_int64_def)

lemma itoa_chars: "set (itoa n) \<subseteq> digit_char ` {..<10}"
proof (induction n rule: itoa.induct)
  case (1 n)
  then show ?case
    by (cases "n < 10") (auto simp: itoa.simps [of n])
qed

lemma itoa_inj: "itoa m = itoa n \<Longrightarrow> m = n"
proof (induction m arbitrary: n rule: itoa.induct)
  case (1 m)
  have digit: "digit_char a = digit_char b \<Longrightarrow> a < 10 \<Longrightarrow> b < 10 \<Longrightarrow> a = b" for a b
    using digit_char_less [of a b] digit_char_less [of b a] by (cases a b rule: linorder_cases) auto
  show ?case
  proof (cases "m < 10")
    case True
    show ?thesis
    proof (cases "n < 10")
      case True
      then show ?thesis using 1(2) \<open>m < 10\<close> digit [of m n] by (simp add: itoa.simps)
    next
      case False
      have "length (itoa n) = length (itoa m)" using 1(2) by simp
      then show ?thesis using False True by (simp add: itoa.simps [of n] itoa.simps [of m])
    qed
  next
    case False
    then have mm: "itoa m = itoa (m div 10) @ [digit_char (m mod 10)]" by (simp add: itoa.simps [of m])
    have "\<not> n < 10"
    proof
      assume "n < 10"
      then have "length (itoa n) = 1" by (simp add: itoa.simps [of n])
      moreover have "length (itoa m) = Suc (length (itoa (m div 10)))" unfolding mm by simp
      ultimately have "itoa (m div 10) = []" using 1(2) by simp
      then show False by simp
    qed
    then have nn: "itoa n = itoa (n div 10) @ [digit_char (n mod 10)]" by (simp add: itoa.simps [of n])
    have "m div 10 = n div 10" "m mod 10 = n mod 10"
      using 1 False mm nn digit [of "m mod 10" "n mod 10"] by auto
    then show ?thesis by (metis div_mult_mod_eq)
  qed
qed

lemma itoa_not_minus: "itoa m \<noteq> CHR ''-'' # s"
proof
  assume eq: "itoa m = CHR ''-'' # s"
  have "hd (itoa m) \<in> digit_char ` {..<10}" using itoa_chars [of m] by (cases "itoa m") auto
  then have "CHR ''-'' \<in> digit_char ` {..<10}" unfolding eq by simp
  then obtain d :: nat where "d < 10" "CHR ''-'' = digit_char d" by auto
  then have "of_char (CHR ''-'') = 48 + d" unfolding digit_char_def by simp
  then show False by simp
qed

lemma FormatInt_inj [simp]: "FormatInt i = FormatInt j \<longleftrightarrow> i = j"
  using itoa_inj [of "nat (- i)" "nat (- j)"] itoa_inj [of "nat i" "nat j"]
    itoa_not_minus [of "nat i" "itoa (nat (- j))"] itoa_not_minus [of "nat j" "itoa (nat (- i))"]
  by (auto simp: FormatInt_def split: if_splits)

lemma FormatInt_nonempty [simp]: "FormatInt i \<noteq> []"
  by (simp add: FormatInt_def)

lemma range_order_set: "range_order ord \<Longrightarrow> set (ord A) = fset A"
  and range_order_distinct: "range_order ord \<Longrightarrow> distinct (ord A)"
  by (auto simp: range_order_def)

lemma set_range_values: "range_order ord \<Longrightarrow> set (range_values ord m) = fmran' m"
  by (force simp: range_values_def range_order_set fmlookup_ran'_iff fmlookup_dom_iff)

lemma field_upd: "field (fmupd k v d) j = (if k = j then v else field d j)"
  by (simp add: field_def)

lemma field_drop: "field (fmdrop k d) j = (if k = j then VNil else field d j)"
  by (simp add: field_def)

end
