(* ===== verification/Data_Translator.thy ===== *)
theory Data_Translator
  imports Data_Model Go_Value "HOL-Library.Multiset"
begin

text \<open>
  The translator of data models to JSON schemas, \<^verbatim>\<open>umh-core/pkg/datamodel/translator.go\<close>, over the
  validator of \<open>Data_Model\<close>. A recursive call threads the number of context polls and the map of payload
  shapes, which the code extends in place with an anonymous shape for every relational leaf. The order
  in which a map of results is ranged over is an argument. The lemmas compare the extraction, which
  groups, merges and sorts level by level, with the plain list of leaves of the resolved model.
\<close>

section \<open>Types\<close>

type_synonym paths_by_shape = "(string, string list) fmap"
type_synonym JSONSchema = document

record SchemaTranslationResult =
  Schemas :: "(string, JSONSchema) fmap"
  PayloadShapeUsage :: paths_by_shape

text \<open>The polls made so far and the payload shapes collected so far.\<close>

type_synonym tstate = "nat \<times> (string \<rightharpoonup> PayloadShape)"
type_synonym extraction = "(goerror + paths_by_shape) \<times> tstate"

abbreviation translator_error :: "string \<Rightarrow> goerror" where
  "translator_error msg \<equiv> ErrorNew 340 msg"

section \<open>Grouping paths by shape\<close>

definition paths_at :: "paths_by_shape \<Rightarrow> string \<Rightarrow> string list" where
  "paths_at m shape = (case fmlookup m shape of None \<Rightarrow> [] | Some ps \<Rightarrow> ps)"

definition add_path :: "string \<Rightarrow> string \<Rightarrow> paths_by_shape \<Rightarrow> paths_by_shape" where
  "add_path shape path m = fmupd shape (paths_at m shape @ [path]) m"

text \<open>Every shape of the source is visited once and only its own entry changes, so the order does not matter.\<close>

definition mergePathsByShape :: "paths_by_shape \<Rightarrow> paths_by_shape \<Rightarrow> paths_by_shape" where
  "mergePathsByShape dest src = dest ++\<^sub>f fmmap_keys (\<lambda>shape paths. paths_at dest shape @ paths) src"

definition sort_paths :: "paths_by_shape \<Rightarrow> paths_by_shape" where
  "sort_paths m = fmmap sort m"

definition relational_name :: "string \<Rightarrow> string" where
  "relational_name fieldPath = ''__relational_'' @ fieldPath @ ''__''"

section \<open>Extraction\<close>

definition poll_then :: "ctx_polls \<Rightarrow> tstate \<Rightarrow> (tstate \<Rightarrow> (goerror + 'a) \<times> tstate) \<Rightarrow> (goerror + 'a) \<times> tstate" where
  "poll_then ctx s k = (case ctx (fst s) of Some e \<Rightarrow> (Inl e, (Suc (fst s), snd s)) | None \<Rightarrow> k (Suc (fst s), snd s))"

definition sorted_result :: "extraction \<Rightarrow> extraction" where
  "sorted_result x = (case x of (Inl e, s) \<Rightarrow> (Inl e, s) | (Inr m, s) \<Rightarrow> (Inr (sort_paths m), s))"

text \<open>Go on with the merged result of a recursive call, or return its error.\<close>

definition merge_then :: "paths_by_shape \<Rightarrow> extraction \<Rightarrow> (paths_by_shape \<Rightarrow> tstate \<Rightarrow> extraction) \<Rightarrow> extraction" where
  "merge_then acc x k = (case x of (Inl e, s) \<Rightarrow> (Inl e, s) | (Inr sub, s) \<Rightarrow> k (mergePathsByShape acc sub) s)"

lemma merge_then_cong [fundef_cong]:
  "x = x' \<Longrightarrow> (\<And>m s. k m s = k' m s) \<Longrightarrow> merge_then acc x k = merge_then acc x' k'"
  by (simp add: merge_then_def split: prod.splits sum.splits)

lemma poll_then_cong [fundef_cong]:
  "s = s' \<Longrightarrow> (\<And>s. k s = k' s) \<Longrightarrow> poll_then ctx s k = poll_then ctx s' k'"
  by (simp add: poll_then_def split: option.splits)

function extractVirtualPaths :: "ctx_polls \<Rightarrow> field_map \<Rightarrow> string \<Rightarrow> tstate \<Rightarrow> extraction"
and extract_fields :: "ctx_polls \<Rightarrow> field_map \<Rightarrow> string \<Rightarrow> paths_by_shape \<Rightarrow> tstate \<Rightarrow> extraction"
where
  "extractVirtualPaths ctx st currentPath s =
     poll_then ctx s (\<lambda>s. sorted_result (extract_fields ctx st currentPath fmempty s))"
| "extract_fields ctx [] currentPath acc s = (Inr acc, s)"
| "extract_fields ctx ((fieldName, Field ref rel subs ps) # fs) currentPath acc s =
     (let fieldPath = join_path currentPath fieldName
      in if ps \<noteq> [] then extract_fields ctx fs currentPath (add_path ps fieldPath acc) s
         else case rel of
           Some shape \<Rightarrow>
             (let syntheticName = relational_name fieldPath
              in extract_fields ctx fs currentPath (add_path syntheticName fieldPath acc) (fst s, (snd s)(syntheticName \<mapsto> shape)))
         | None \<Rightarrow>
             (case subs of
                None \<Rightarrow> extract_fields ctx fs currentPath acc s
              | Some sfs \<Rightarrow>
                  merge_then acc (extractVirtualPaths ctx sfs fieldPath s)
                    (\<lambda>acc s. extract_fields ctx fs currentPath acc s)))"
  by pat_completeness auto

termination
  by (relation "measure (\<lambda>x. case x of Inl (_, st, _, _) \<Rightarrow> Suc (2 * size_list (size_prod (\<lambda>_. 0) size) st)
      | Inr (_, st, _, _, _) \<Rightarrow> 2 * size_list (size_prod (\<lambda>_. 0) size) st)") auto

text \<open>The limit of ten levels is checked when a structure is entered, not when a reference is met.\<close>

function extractVirtualPathsWithReferences ::
  "ctx_polls \<Rightarrow> (string \<rightharpoonup> DataModelsConfig) \<Rightarrow> string set \<Rightarrow> nat \<Rightarrow> field_map \<Rightarrow> string \<Rightarrow> tstate \<Rightarrow> extraction"
and extract_ref_fields ::
  "ctx_polls \<Rightarrow> (string \<rightharpoonup> DataModelsConfig) \<Rightarrow> string set \<Rightarrow> nat \<Rightarrow> field_map \<Rightarrow> string \<Rightarrow> paths_by_shape \<Rightarrow> tstate \<Rightarrow> extraction"
and resolveModelReference ::
  "ctx_polls \<Rightarrow> (string \<rightharpoonup> DataModelsConfig) \<Rightarrow> string set \<Rightarrow> nat \<Rightarrow> ModelRef \<Rightarrow> string \<Rightarrow> tstate \<Rightarrow> extraction"
where
  "extractVirtualPathsWithReferences ctx models visited depth st currentPath s =
     poll_then ctx s (\<lambda>s.
       if 10 \<le> depth then (Inl (translator_error (''reference resolution depth limit exceeded at path '' @ quote currentPath)), s)
       else sorted_result (extract_ref_fields ctx models visited depth st currentPath fmempty s))"
| "extract_ref_fields ctx models visited depth [] currentPath acc s = (Inr acc, s)"
| "extract_ref_fields ctx models visited depth ((fieldName, Field ref rel subs ps) # fs) currentPath acc s =
     (let fieldPath = join_path currentPath fieldName
      in if ps \<noteq> [] then extract_ref_fields ctx models visited depth fs currentPath (add_path ps fieldPath acc) s
         else case rel of
           Some shape \<Rightarrow>
             (let syntheticName = relational_name fieldPath
              in extract_ref_fields ctx models visited depth fs currentPath (add_path syntheticName fieldPath acc)
                   (fst s, (snd s)(syntheticName \<mapsto> shape)))
         | None \<Rightarrow>
             merge_then acc
               (case subs of None \<Rightarrow> (Inr fmempty, s)
                | Some sfs \<Rightarrow> extractVirtualPathsWithReferences ctx models visited depth sfs fieldPath s)
               (\<lambda>acc s.
                  merge_then acc
                    (case ref of None \<Rightarrow> (Inr fmempty, s)
                     | Some r \<Rightarrow> resolveModelReference ctx models visited depth r fieldPath s)
                    (\<lambda>acc s. extract_ref_fields ctx models visited depth fs currentPath acc s)))"
| "resolveModelReference ctx models visited depth r currentPath s =
     (if reference_key r \<in> visited
      then (Inl (translator_error (''circular reference detected: '' @ reference_key r @ '' at path '' @ quote currentPath)), s)
      else case models (ref_Name r) of
             None \<Rightarrow> (Inl (translator_error (''referenced model '' @ quote (ref_Name r) @ '' does not exist at path '' @ quote currentPath)), s)
           | Some m \<Rightarrow>
               (case Versions m (ref_Version r) of
                  None \<Rightarrow> (Inl (translator_error (''referenced model '' @ quote (ref_Name r) @ '' version '' @ quote (ref_Version r)
                            @ '' does not exist at path '' @ quote currentPath)), s)
                | Some v \<Rightarrow>
                    extractVirtualPathsWithReferences ctx models (insert (reference_key r) visited) (Suc depth) (Structure v)
                      currentPath s))"
  by pat_completeness auto

termination
  by (relation "measures [
      \<lambda>x. case x of Inl (_, _, _, d, _) \<Rightarrow> 10 - d
        | Inr y \<Rightarrow> (case y of Inl (_, _, _, d, _) \<Rightarrow> 10 - d | Inr (_, _, _, d, _) \<Rightarrow> 10 - d),
      \<lambda>x. case x of Inl (_, _, _, d, st, _) \<Rightarrow> (if 10 \<le> d then 0 else Suc (2 * size_list (size_prod (\<lambda>_. 0) size) st))
        | Inr y \<Rightarrow> (case y of Inl (_, _, _, _, st, _) \<Rightarrow> 2 * size_list (size_prod (\<lambda>_. 0) size) st | Inr _ \<Rightarrow> 1)]") auto

section \<open>Schemas\<close>

definition convertTypeToJSONSchema :: "string \<Rightarrow> goerror + string" where
  "convertTypeToJSONSchema umhType =
     (if umhType = ''number'' then Inr ''number''
      else if umhType = ''string'' then Inr ''string''
      else if umhType = ''boolean'' then Inr ''boolean''
      else if umhType = ''integer'' then Inr ''integer''
      else Inl (translator_error (''unsupported UMH type: '' @ umhType)))"

fun field_properties :: "(string \<times> PayloadField) list \<Rightarrow> document \<Rightarrow> string list \<Rightarrow> goerror + document \<times> string list" where
  "field_properties [] properties required = Inr (properties, required)"
| "field_properties ((fieldName, f) # fs) properties required =
     (case convertTypeToJSONSchema (pf_Type f) of
        Inl e \<Rightarrow> Inl (Errorf (''failed to convert type for field '' @ quote fieldName @ '': '') e)
      | Inr jsonType \<Rightarrow>
          field_properties fs (fmupd fieldName (VMap (fmap_of_list [(''type'', VString jsonType)])) properties)
            (required @ [fieldName]))"

definition strings :: "string list \<Rightarrow> gval" where
  "strings xs = VList (map VString xs)"

definition generateFieldsSchema :: "PayloadShape \<Rightarrow> goerror + document" where
  "generateFieldsSchema payloadShape =
     (case field_properties (ps_Fields payloadShape) fmempty [] of
        Inl e \<Rightarrow> Inl e
      | Inr (properties, required) \<Rightarrow>
          Inr (fmap_of_list [(''type'', VString ''object''), (''properties'', VMap properties),
            (''required'', strings (sort required)), (''additionalProperties'', VBool False)]))"

definition schema_document :: "string list \<Rightarrow> document \<Rightarrow> JSONSchema" where
  "schema_document virtualPaths fieldsSchema =
     fmap_of_list [(''type'', VString ''object''),
       (''properties'', VMap (fmap_of_list
          [(''virtual_path'', VMap (fmap_of_list [(''type'', VString ''string''), (''enum'', strings virtualPaths)])),
           (''fields'', VMap fieldsSchema)])),
       (''required'', strings [''virtual_path'', ''fields'']), (''additionalProperties'', VBool False)]"

definition generateJSONSchema :: "ctx_polls \<Rightarrow> string list \<Rightarrow> PayloadShape \<Rightarrow> tstate \<Rightarrow> (goerror + JSONSchema) \<times> tstate" where
  "generateJSONSchema ctx virtualPaths payloadShape s =
     poll_then ctx s (\<lambda>s.
       case generateFieldsSchema payloadShape of
         Inl e \<Rightarrow> (Inl (Errorf ''failed to generate fields schema: '' e), s)
       | Inr fieldsSchema \<Rightarrow> (Inr (schema_document virtualPaths fieldsSchema), s))"

definition generateSubjectName :: "string \<Rightarrow> string \<Rightarrow> string \<Rightarrow> string" where
  "generateSubjectName contractName version payloadShape =
     (let contractName = (if prefix ''_'' contractName then contractName else ''_'' @ contractName)
      in if str_contains contractName ''_v'' then contractName @ ''-'' @ payloadShape
         else contractName @ ''_'' @ (if prefix ''v'' version then version else ''v'' @ version) @ ''-'' @ payloadShape)"

text \<open>The loop over the shapes found; it polls the context before each.\<close>

fun generate_schemas ::
  "ctx_polls \<Rightarrow> string \<Rightarrow> string \<Rightarrow> paths_by_shape \<Rightarrow> string list \<Rightarrow> (string, JSONSchema) fmap \<Rightarrow> tstate
     \<Rightarrow> (goerror + (string, JSONSchema) fmap) \<times> tstate"
where
  "generate_schemas ctx contractName version pathsByShape [] schemas s = (Inr schemas, s)"
| "generate_schemas ctx contractName version pathsByShape (payloadShape # rest) schemas s =
     poll_then ctx s (\<lambda>s.
       case snd s payloadShape of
         None \<Rightarrow> (Inl (translator_error (''payload shape '' @ quote payloadShape @ '' not found in configuration'')), s)
       | Some shapeConfig \<Rightarrow>
           (case generateJSONSchema ctx (paths_at pathsByShape payloadShape) shapeConfig s of
              (Inl e, s) \<Rightarrow> (Inl (Errorf (''failed to generate JSON schema for payload shape '' @ quote payloadShape @ '': '') e), s)
            | (Inr schema, s) \<Rightarrow>
                generate_schemas ctx contractName version pathsByShape rest
                  (fmupd (generateSubjectName contractName version payloadShape) schema schemas) s))"

section \<open>Translation\<close>

text \<open>
  The validator polls the same context; its answer carries the counter on.
\<close>

definition wrap_failure :: "string \<Rightarrow> (goerror + 'a) \<times> tstate \<Rightarrow> (goerror + 'a) \<times> tstate" where
  "wrap_failure p x = (case fst x of Inl e \<Rightarrow> (Inl (Errorf p e), snd x) | Inr _ \<Rightarrow> x)"

definition extract_validated ::
  "ctx_polls \<Rightarrow> DataModelVersion \<Rightarrow> (string, DataModelsConfig) fmap \<Rightarrow> tstate \<Rightarrow> extraction"
where
  "extract_validated ctx dataModel allDataModels s =
     (if fmdom allDataModels \<noteq> {||}
      then case ValidateWithReferences ctx dataModel (fmlookup allDataModels) (snd s) (fst s) of
             (Some e, n) \<Rightarrow> (Inl (Errorf ''data model reference validation failed: '' e), (n, snd s))
           | (None, n) \<Rightarrow>
               wrap_failure ''failed to resolve virtual paths with references: ''
                 (extractVirtualPathsWithReferences ctx (fmlookup allDataModels) {} 0 (Structure dataModel) [] (n, snd s))
      else case ValidateStructureOnly ctx dataModel (fst s) of
             (Some e, n) \<Rightarrow> (Inl (Errorf ''data model validation failed: '' e), (n, snd s))
           | (None, n) \<Rightarrow>
               wrap_failure ''failed to extract virtual paths: '' (extractVirtualPaths ctx (Structure dataModel) [] (n, snd s)))"

definition TranslateDataModel ::
  "ctx_polls \<Rightarrow> map_order \<Rightarrow> string \<Rightarrow> string \<Rightarrow> DataModelVersion \<Rightarrow> (string \<rightharpoonup> PayloadShape)
     \<Rightarrow> (string, DataModelsConfig) fmap \<Rightarrow> nat \<Rightarrow> (goerror + SchemaTranslationResult) \<times> nat"
where
  "TranslateDataModel ctx ord contractName version dataModel payloadShapes allDataModels n =
     (case poll_then ctx (n, ensureDefaultPayloadShapes payloadShapes) (\<lambda>s.
        case extract_validated ctx dataModel allDataModels s of
          (Inl e, s) \<Rightarrow> (Inl e, s)
        | (Inr pathsByShape, s) \<Rightarrow>
            (case generate_schemas ctx contractName version pathsByShape (ord (fmdom pathsByShape)) fmempty s of
               (Inl e, s) \<Rightarrow> (Inl e, s)
             | (Inr schemas, s) \<Rightarrow> (Inr \<lparr>Schemas = schemas, PayloadShapeUsage = pathsByShape\<rparr>, s)))
      of (r, s) \<Rightarrow> (r, fst s))"

text \<open>\<^verbatim>\<open>json.Marshal\<close> never fails on a schema: it holds strings, booleans, slices and maps only.\<close>

definition GetSchemaAsJSON :: "SchemaTranslationResult \<Rightarrow> string \<Rightarrow> goerror + gval" where
  "GetSchemaAsJSON result subjectName =
     (case fmlookup (Schemas result) subjectName of
        None \<Rightarrow> Inl (translator_error (''schema not found for subject '' @ quote subjectName))
      | Some schema \<Rightarrow> Inr (VJSON (json_norm (VMap schema))))"

definition GetAllSubjectNames :: "map_order \<Rightarrow> SchemaTranslationResult \<Rightarrow> string list" where
  "GetAllSubjectNames ord result = sort (ord (fmdom (Schemas result)))"

section \<open>The leaves of a resolved model\<close>

text \<open>
  A leaf is its virtual path, the name of its shape and, for a relational leaf, the shape itself.
  References are followed for at most \<open>k\<close> levels; one that cannot be resolved contributes nothing.
\<close>

type_synonym leaf = "string \<times> string \<times> PayloadShape option"

function model_leaves :: "nat \<Rightarrow> (string \<rightharpoonup> DataModelsConfig) \<Rightarrow> string \<Rightarrow> field_map \<Rightarrow> leaf list" where
  "model_leaves k models path [] = []"
| "model_leaves k models path ((name, Field ref rel subs ps) # fs) =
     (let p = join_path path name
      in if ps \<noteq> [] then [(p, ps, None)]
         else case rel of
           Some shape \<Rightarrow> [(p, relational_name p, Some shape)]
         | None \<Rightarrow>
             (case subs of None \<Rightarrow> [] | Some sfs \<Rightarrow> model_leaves k models p sfs)
             @ (case ref of None \<Rightarrow> [] | Some r \<Rightarrow>
                  (case k of 0 \<Rightarrow> [] | Suc k' \<Rightarrow>
                     (case lookup_model models r of None \<Rightarrow> [] | Some st \<Rightarrow> model_leaves k' models p st))))
     @ model_leaves k models path fs"
  by pat_completeness auto

termination
  by (relation "measures [\<lambda>(k, _). k, \<lambda>(_, _, _, st). size_list (size_prod (\<lambda>_. 0) size) st]") auto

definition shapes_of :: "leaf list \<Rightarrow> string set" where
  "shapes_of ls = (\<lambda>l. fst (snd l)) ` set ls"

definition paths_of :: "string \<Rightarrow> leaf list \<Rightarrow> string list" where
  "paths_of s ls = map fst (filter (\<lambda>l. fst (snd l) = s) ls)"

text \<open>For each shape the sorted virtual paths of its leaves.\<close>

definition grouped :: "leaf list \<Rightarrow> paths_by_shape" where
  "grouped ls = fmap_of_list (map (\<lambda>l. (fst (snd l), sort (paths_of (fst (snd l)) ls))) ls)"

text \<open>The payload shapes, extended by those of the relational leaves.\<close>

definition with_inline :: "leaf list \<Rightarrow> (string \<rightharpoonup> PayloadShape) \<Rightarrow> (string \<rightharpoonup> PayloadShape)" where
  "with_inline ls shapes = foldl (\<lambda>m l. case snd (snd l) of None \<Rightarrow> m | Some sh \<Rightarrow> m(fst (snd l) \<mapsto> sh)) shapes ls"

lemma shapes_of_simps [simp]: "shapes_of [] = {}" "shapes_of (l # ls) = insert (fst (snd l)) (shapes_of ls)"
  "shapes_of (ls @ ls') = shapes_of ls \<union> shapes_of ls'"
  by (auto simp: shapes_of_def)

lemma paths_of_simps [simp]: "paths_of s [] = []" "paths_of s (ls @ ls') = paths_of s ls @ paths_of s ls'"
  "paths_of s (l # ls) = (if fst (snd l) = s then [fst l] else []) @ paths_of s ls"
  by (simp_all add: paths_of_def)

lemma with_inline_simps [simp]: "with_inline [] m = m" "with_inline (ls @ ls') m = with_inline ls' (with_inline ls m)"
  "with_inline [(p, s, None)] m = m" "with_inline [(p, s, Some sh)] m = m(s \<mapsto> sh)"
  by (simp_all add: with_inline_def)

section \<open>Extraction finds the leaves\<close>

definition groups :: "paths_by_shape \<Rightarrow> leaf list \<Rightarrow> bool" where
  "groups m ls \<longleftrightarrow> (\<forall>s. (fmlookup m s = None \<longleftrightarrow> s \<notin> shapes_of ls) \<and> mset (paths_at m s) = mset (paths_of s ls))"

lemma groups_empty [simp]: "groups fmempty []"
  by (simp add: groups_def paths_at_def)

lemma groups_add: "groups m ls \<Longrightarrow> groups (add_path s p m) (ls @ [(p, s, sh)])"
  by (auto simp: groups_def add_path_def paths_at_def)

lemma merge_lookup:
  "fmlookup (mergePathsByShape m m') s =
     (case fmlookup m' s of None \<Rightarrow> fmlookup m s | Some ps \<Rightarrow> Some (paths_at m s @ ps))"
  by (auto simp: mergePathsByShape_def map_add_def split: option.splits)

lemma groups_merge: "groups m ls \<Longrightarrow> groups m' ls' \<Longrightarrow> groups (mergePathsByShape m m') (ls @ ls')"
  unfolding groups_def paths_at_def merge_lookup
  by (auto simp: paths_at_def split: option.splits)

lemma groups_sort: "groups m ls \<Longrightarrow> groups (sort_paths m) ls"
  by (auto simp: groups_def sort_paths_def paths_at_def split: option.splits)

lemma grouped_lookup: "fmlookup (grouped ls) s = (if s \<in> shapes_of ls then Some (sort (paths_of s ls)) else None)"
proof -
  have "map_of (map (\<lambda>l. (fst (snd l), f (fst (snd l)))) xs) s = (if s \<in> shapes_of xs then Some (f s) else None)"
    for f :: "string \<Rightarrow> string list" and xs :: "leaf list"
    by (induction xs) auto
  from this [of "\<lambda>s. sort (paths_of s ls)" ls] show ?thesis by (simp add: grouped_def fmap_of_list.rep_eq)
qed

lemma groups_grouped:
  assumes "groups m ls"
  shows "sort_paths m = grouped ls"
proof (rule fmap_ext)
  fix s
  have "sort ps = sort (paths_of s ls)" if "fmlookup m s = Some ps" for ps
    using assms that by (intro properties_for_sort) (auto simp: groups_def paths_at_def dest: spec [of _ s])
  moreover have "fmlookup m s = None \<longleftrightarrow> s \<notin> shapes_of ls" using assms by (simp add: groups_def)
  ultimately show "fmlookup (sort_paths m) s = fmlookup (grouped ls) s"
    unfolding grouped_lookup by (cases "fmlookup m s") (auto simp: sort_paths_def)
qed

text \<open>A call that returns has added exactly the given leaves to what it started from.\<close>

definition collects :: "leaf list \<Rightarrow> leaf list \<Rightarrow> tstate \<Rightarrow> extraction \<Rightarrow> bool" where
  "collects before ls s x \<longleftrightarrow>
     (\<forall>m s'. x = (Inr m, s') \<longrightarrow> groups m (before @ ls) \<and> snd s' = with_inline ls (snd s))"

lemma collectsD: "collects b ls s (Inr m, s') \<Longrightarrow> groups m (b @ ls) \<and> snd s' = with_inline ls (snd s)"
  by (cases s') (simp add: collects_def)

lemma collects_sorted: "collects [] ls s x \<Longrightarrow> collects [] ls s (sorted_result x)"
  by (auto simp: collects_def sorted_result_def groups_sort split: prod.splits sum.splits)

lemma collects_poll:
  assumes "\<And>n. collects b ls (n, snd s) (k (n, snd s))"
  shows "collects b ls s (poll_then ctx s k)"
  using assms [of "Suc (fst s)"] by (auto simp: collects_def poll_then_def split: option.splits)

lemma collects_merge:
  assumes "groups acc before" and "collects [] ls s x"
    and "\<And>m s'. groups m (before @ ls) \<Longrightarrow> collects (before @ ls) ls' s' (k m s')"
  shows "collects before (ls @ ls') s (merge_then acc x k)"
proof -
  obtain r s' where Pair: "x = (r, s')" by (rule prod.exhaust)
  show ?thesis
  proof (cases r)
    case (Inr m)
    have "groups m ls" "snd s' = with_inline ls (snd s)"
      using collectsD [OF assms(2) [unfolded Pair Inr]] by simp_all
    with assms(3) [OF groups_merge [OF assms(1)], of m s'] Pair Inr show ?thesis
      by (simp add: collects_def merge_then_def)
  qed (simp add: Pair collects_def merge_then_def)
qed

lemma collects_error [simp]: "collects b ls s (Inl e, s')"
  and collects_done [simp]: "groups m b \<Longrightarrow> collects b [] s (Inr m, s)"
  by (simp_all add: collects_def)

lemma collects_leaf:
  assumes "collects (before @ [l]) ls s' x" and "snd s' = with_inline [l] (snd s)"
  shows "collects before (l # ls) s x"
  using assms with_inline_simps(2) [of "[l]" ls] by (simp add: collects_def)

lemma extract_collects:
  "collects [] (model_leaves k Map.empty path st) s (extractVirtualPaths ctx st path s)"
  "groups acc before \<Longrightarrow> collects before (model_leaves k Map.empty path st) s (extract_fields ctx st path acc s)"
proof (induction ctx st path s and ctx st path acc s arbitrary: and before
    rule: extractVirtualPaths_extract_fields.induct)
  case (1 ctx st path s)
  show ?case
    unfolding extractVirtualPaths.simps
    by (intro collects_poll collects_sorted 1) simp
next
  case (2 ctx path acc s)
  then show ?case by simp
next
  case (3 ctx name ref rel subs ps fs path acc s)
  let ?p = "join_path path name"
  have none [simp]: "(case ref of None \<Rightarrow> [] | Some r \<Rightarrow> (case k of 0 \<Rightarrow> [] | Suc k' \<Rightarrow>
      (case lookup_model Map.empty r of None \<Rightarrow> [] | Some st \<Rightarrow> model_leaves k' Map.empty ?p st))) = []"
    by (simp add: lookup_model_def split: option.split nat.split)
  consider "ps \<noteq> []" | sh where "ps = []" "rel = Some sh" | "ps = []" "rel = None" "subs = None"
    | sfs where "ps = []" "rel = None" "subs = Some sfs" by (cases "ps = []"; cases rel; cases subs) auto
  then show ?case
  proof cases
    case 1
    have "collects (before @ [(?p, ps, None)]) (model_leaves k Map.empty path fs) s
        (extract_fields ctx fs path (add_path ps ?p acc) s)"
      using "3.IH"(1) [OF refl 1 groups_add [OF "3.prems"]] .
    from collects_leaf [OF this] 1 show ?thesis by (simp add: Let_def)
  next
    case (2 sh)
    have "collects (before @ [(?p, relational_name ?p, Some sh)]) (model_leaves k Map.empty path fs)
        (fst s, (snd s)(relational_name ?p \<mapsto> sh))
        (extract_fields ctx fs path (add_path (relational_name ?p) ?p acc) (fst s, (snd s)(relational_name ?p \<mapsto> sh)))"
      using "3.IH"(5) [OF refl _ 2(2) refl groups_add [OF "3.prems"]] 2(1) by simp
    from collects_leaf [OF this, of s] 2 show ?thesis by (simp add: Let_def)
  next
    case 3
    with "3.IH"(2) [OF refl _ 3(2) 3(3) "3.prems"] show ?thesis by (simp add: Let_def)
  next
    case (4 sfs)
    have "collects before (model_leaves k Map.empty ?p sfs @ model_leaves k Map.empty path fs) s
       (merge_then acc (extractVirtualPaths ctx sfs ?p s) (\<lambda>acc s. extract_fields ctx fs path acc s))"
      using "3.IH"(3,4) [OF refl _ 4(2,3)] 4(1) by (intro collects_merge "3.prems") auto
    with 4 show ?thesis by (simp add: Let_def)
  qed
qed

lemma extract_ref_collects:
  "collects [] (model_leaves (9 - depth) models path st) s
     (extractVirtualPathsWithReferences ctx models visited depth st path s)"
  "depth < 10 \<Longrightarrow> groups acc before \<Longrightarrow> collects before (model_leaves (9 - depth) models path st) s
     (extract_ref_fields ctx models visited depth st path acc s)"
  "depth < 10 \<Longrightarrow> collects [] (case 9 - depth of 0 \<Rightarrow> [] | Suc k' \<Rightarrow>
       (case lookup_model models r of None \<Rightarrow> [] | Some st \<Rightarrow> model_leaves k' models path st)) s
     (resolveModelReference ctx models visited depth r path s)"
proof (induction ctx models visited depth st path s and ctx models visited depth st path acc s
    and ctx models visited depth r path s arbitrary: and before
    rule: extractVirtualPathsWithReferences_extract_ref_fields_resolveModelReference.induct)
  case (1 ctx models visited depth st path s)
  have "collects [] (model_leaves (9 - depth) models path st) s'
     (if 10 \<le> depth then (Inl (translator_error (''reference resolution depth limit exceeded at path '' @ quote path)), s')
      else sorted_result (extract_ref_fields ctx models visited depth st path fmempty s'))" for s'
    using "1.IH" by (simp add: collects_sorted)
  then show ?case
    unfolding extractVirtualPathsWithReferences.simps by (rule collects_poll)
next
  case (2 ctx models visited depth path acc s)
  then show ?case by simp
next
  case (3 ctx models visited depth name ref rel subs ps fs path acc s)
  let ?p = "join_path path name" and ?k = "9 - depth"
  let ?sub = "case subs of None \<Rightarrow> [] | Some sfs \<Rightarrow> model_leaves ?k models ?p sfs"
  let ?ref = "case ref of None \<Rightarrow> [] | Some r \<Rightarrow> (case ?k of 0 \<Rightarrow> [] | Suc k' \<Rightarrow>
      (case lookup_model models r of None \<Rightarrow> [] | Some st \<Rightarrow> model_leaves k' models ?p st))"
  consider "ps \<noteq> []" | sh where "ps = []" "rel = Some sh" | "ps = []" "rel = None" by (cases "ps = []"; cases rel) auto
  then show ?case
  proof cases
    case 1
    from collects_leaf [OF "3.IH"(1) [OF refl 1 "3.prems"(1) groups_add [OF "3.prems"(2)]]] 1 show ?thesis
      by (simp add: Let_def)
  next
    case (2 sh)
    have "collects (before @ [(?p, relational_name ?p, Some sh)]) (model_leaves ?k models path fs)
        (fst s, (snd s)(relational_name ?p \<mapsto> sh))
        (extract_ref_fields ctx models visited depth fs path (add_path (relational_name ?p) ?p acc)
          (fst s, (snd s)(relational_name ?p \<mapsto> sh)))"
      using "3.IH"(5) [OF refl _ 2(2) refl "3.prems"(1) groups_add [OF "3.prems"(2)]] 2(1) by simp
    from collects_leaf [OF this, of s] 2 show ?thesis by (simp add: Let_def)
  next
    case 3
    let ?x1 = "case subs of None \<Rightarrow> (Inr fmempty, s)
      | Some sfs \<Rightarrow> extractVirtualPathsWithReferences ctx models visited depth sfs ?p s"
    let ?x2 = "\<lambda>s. case ref of None \<Rightarrow> (Inr fmempty, s) | Some r \<Rightarrow> resolveModelReference ctx models visited depth r ?p s"
    have x1: "collects [] ?sub s ?x1"
      using "3.IH"(2) [OF refl _ 3(2)] 3(1) by (cases subs) simp_all
    have x2: "collects [] ?ref s' (?x2 s')" for s'
      using "3.IH"(3) [OF refl _ 3(2) _ "3.prems"(1)] 3(1) by (cases ref) simp_all
    have "collects before (?sub @ ?ref @ model_leaves ?k models path fs) s
      (merge_then acc ?x1 (\<lambda>acc s. merge_then acc (?x2 s)
          (\<lambda>acc s. extract_ref_fields ctx models visited depth fs path acc s)))"
      using "3.IH"(4) [OF refl _ 3(2) "3.prems"(1)] 3(1)
      by (intro collects_merge x1 x2 "3.prems"(2)) (auto simp: append_assoc)
    with 3 show ?thesis by (simp add: Let_def)
  qed
next
  case (4 ctx models visited depth r path s)
  show ?case
  proof (cases "\<exists>m v. models (ref_Name r) = Some m \<and> Versions m (ref_Version r) = Some v \<and> reference_key r \<notin> visited")
    case True
    then obtain m v where mv: "models (ref_Name r) = Some m" "Versions m (ref_Version r) = Some v" "reference_key r \<notin> visited" by blast
    show ?thesis
    proof (cases "9 - depth")
      case 0
      with mv 4(2) show ?thesis by (auto simp: poll_then_def lookup_model_def split: option.splits)
    next
      case (Suc k')
      then have "9 - Suc depth = k'" by simp
      with "4.IH" [OF mv(3,1,2)] mv Suc show ?thesis
        by (simp add: lookup_model_def del: extractVirtualPathsWithReferences.simps)
    qed
  next
    case False
    then show ?thesis by (auto simp del: append.simps split: option.splits)
  qed
qed

definition never_expires :: "ctx_polls \<Rightarrow> bool" where
  "never_expires ctx \<longleftrightarrow> (\<forall>i. ctx i = None)"

lemma extract_complete:
  assumes "never_expires ctx"
  shows "\<exists>m s'. extractVirtualPaths ctx st path s = (Inr m, s')"
    "\<exists>m s'. extract_fields ctx st path acc s = (Inr m, s')"
  using assms
proof (induction ctx st path s and ctx st path acc s rule: extractVirtualPaths_extract_fields.induct)
  case (1 ctx st path s)
  obtain m s' where "extract_fields ctx st path fmempty (Suc (fst s), snd s) = (Inr m, s')"
    using "1.IH" [OF "1.prems"] by blast
  moreover have "ctx (fst s) = None" using "1.prems" by (simp add: never_expires_def)
  ultimately show ?case by (simp add: poll_then_def sorted_result_def)
next
  case (2 ctx path acc s)
  show ?case by simp
next
  case (3 ctx name ref rel subs ps fs path acc s)
  note ih = "3.IH" [OF refl]
  consider "ps \<noteq> []" | sh where "ps = []" "rel = Some sh" | "ps = []" "rel = None" "subs = None"
    | sfs where "ps = []" "rel = None" "subs = Some sfs" by (cases "ps = []"; cases rel; cases subs) auto
  then show ?case
  proof cases
    case (4 sfs)
    then obtain m s' where "extractVirtualPaths ctx sfs (join_path path name) s = (Inr m, s')"
      using ih(3) [OF _ 4(2,3)] "3.prems" by blast
    with 4 ih(4) [OF _ 4(2,3)] "3.prems" show ?thesis by (simp add: Let_def merge_then_def)
  qed (use ih(1,2,5) "3.prems" in \<open>simp_all add: Let_def\<close>)
qed

text \<open>Extraction with references returns when every chain of references below is shorter than the limit.\<close>

lemma extract_ref_complete:
  assumes "never_expires ctx" and "depth < 10"
  shows "refs_ok (9 - depth) models visited st \<Longrightarrow>
      \<exists>m s'. extractVirtualPathsWithReferences ctx models visited depth st path s = (Inr m, s')"
    "refs_ok (9 - depth) models visited st \<Longrightarrow>
      \<exists>m s'. extract_ref_fields ctx models visited depth st path acc s = (Inr m, s')"
    "ref_ok (9 - depth) models visited r \<Longrightarrow>
      \<exists>m s'. resolveModelReference ctx models visited depth r path s = (Inr m, s')"
  using assms
proof (induction ctx models visited depth st path s and ctx models visited depth st path acc s
    and ctx models visited depth r path s
    rule: extractVirtualPathsWithReferences_extract_ref_fields_resolveModelReference.induct)
  case (1 ctx models visited depth st path s)
  obtain m s' where "extract_ref_fields ctx models visited depth st path fmempty (Suc (fst s), snd s) = (Inr m, s')"
    using "1.IH" "1.prems" by fastforce
  moreover have "ctx (fst s) = None" using "1.prems"(2) by (simp add: never_expires_def)
  ultimately show ?case using "1.prems"(3) by (simp add: poll_then_def sorted_result_def)
next
  case (2 ctx models visited depth path acc s)
  show ?case by simp
next
  case (3 ctx models visited depth name ref rel subs ps fs path acc s)
  note ih = "3.IH" [OF refl]
  have rest: "refs_ok (9 - depth) models visited fs"
    and here: "\<And>r. ref = Some r \<Longrightarrow> ref_ok (9 - depth) models visited r"
    and below: "\<And>sfs. subs = Some sfs \<Longrightarrow> refs_ok (9 - depth) models visited sfs"
    using "3.prems"(1) by (auto simp: refs_ok_iff uses_ref_Cons)
  consider "ps \<noteq> []" | sh where "ps = []" "rel = Some sh" | "ps = []" "rel = None" by (cases "ps = []"; cases rel) auto
  then show ?case
  proof cases
    case 3
    let ?p = "join_path path name"
    obtain m1 s1 where 1: "(case subs of None \<Rightarrow> (Inr fmempty, s)
        | Some sfs \<Rightarrow> extractVirtualPathsWithReferences ctx models visited depth sfs ?p s) = (Inr m1, s1)"
      using ih(2) [OF _ 3(2)] below 3(1) "3.prems"(2,3) by (cases subs) (auto simp del: extractVirtualPathsWithReferences.simps)
    obtain m2 s2 where 2: "(case ref of None \<Rightarrow> (Inr fmempty, s1)
        | Some r \<Rightarrow> resolveModelReference ctx models visited depth r ?p s1) = (Inr m2, s2)"
      using ih(3) [OF _ 3(2) _ here "3.prems"(2,3), of _ s1] 3(1)
      by (cases ref) (auto simp del: resolveModelReference.simps)
    from 3 1 2 ih(4) [OF _ 3(2) rest "3.prems"(2,3)] show ?thesis by (simp add: Let_def merge_then_def)
  qed (use ih(1,5) rest "3.prems" in \<open>simp_all add: Let_def\<close>)
next
  case (4 ctx models visited depth r path s)
  obtain k where k: "9 - depth = Suc k" "9 - Suc depth = k" "Suc depth < 10"
    using "4.prems"(1) by (cases "9 - depth") (auto simp: ref_ok_def)
  with "4.prems"(1) obtain m v where mv: "models (ref_Name r) = Some m" "Versions m (ref_Version r) = Some v"
      "reference_key r \<notin> visited" "refs_ok k models (insert (reference_key r) visited) (Structure v)"
    by (auto simp: ref_ok_def lookup_model_def split: option.splits)
  with "4.IH" [OF mv(3,1,2)] "4.prems"(2) k show ?case
    by (simp del: extractVirtualPathsWithReferences.simps)
qed

section \<open>The schemas of the groups\<close>

lemma subject_inj: "generateSubjectName c v s = generateSubjectName c v s' \<longleftrightarrow> s = s'"
  by (simp add: generateSubjectName_def Let_def)

text \<open>What the loop needs of one shape, and what it stores for it.\<close>

definition schema_for :: "paths_by_shape \<Rightarrow> (string \<rightharpoonup> PayloadShape) \<Rightarrow> string \<Rightarrow> JSONSchema option" where
  "schema_for m shapes s =
     (case shapes s of None \<Rightarrow> None | Some sh \<Rightarrow>
        (case generateFieldsSchema sh of Inl e \<Rightarrow> None | Inr f \<Rightarrow> Some (schema_document (paths_at m s) f)))"

lemma generate_schemas_sound:
  assumes "generate_schemas ctx c v m keys acc s = (Inr S, s')" and "distinct keys"
  shows "(\<forall>k \<in> set keys. schema_for m (snd s) k \<noteq> None
      \<and> fmlookup S (generateSubjectName c v k) = schema_for m (snd s) k)
    \<and> (\<forall>subj. subj \<notin> generateSubjectName c v ` set keys \<longrightarrow> fmlookup S subj = fmlookup acc subj)"
  using assms
proof (induction keys arbitrary: acc s)
  case Nil
  then show ?case by simp
next
  case (Cons k keys)
  let ?s = "(Suc (fst s), snd s)" and ?s2 = "(Suc (Suc (fst s)), snd s)" and ?subj = "generateSubjectName c v"
  from Cons.prems(1) obtain sh f where sh: "snd s k = Some sh" "generateFieldsSchema sh = Inr f"
    and rest: "generate_schemas ctx c v m keys (fmupd (?subj k) (schema_document (paths_at m k) f) acc) ?s2 = (Inr S, s')"
    by (auto simp: poll_then_def generateJSONSchema_def split: option.splits sum.splits prod.splits)
  note ih = Cons.IH [OF rest] Cons.prems(2)
  have k: "schema_for m (snd s) k = Some (schema_document (paths_at m k) f)" by (simp add: schema_for_def sh)
  have "?subj k \<notin> ?subj ` set keys" using Cons.prems(2) by (auto simp: subject_inj)
  with ih k show ?case by auto
qed

lemma generate_schemas_complete:
  assumes "never_expires ctx" and "\<forall>k \<in> set keys. schema_for m (snd s) k \<noteq> None"
  shows "\<exists>S s'. generate_schemas ctx c v m keys acc s = (Inr S, s')"
  using assms(2)
proof (induction keys arbitrary: acc s)
  case Nil
  then show ?case by simp
next
  case (Cons k keys)
  have live: "ctx i = None" for i using assms(1) by (simp add: never_expires_def)
  obtain sh f where "snd s k = Some sh" "generateFieldsSchema sh = Inr f"
    using Cons.prems by (auto simp: schema_for_def split: option.splits sum.splits)
  with Cons.IH [of "(Suc (Suc (fst s)), snd s)"] Cons.prems show ?case
    by (simp add: poll_then_def generateJSONSchema_def live)
qed

definition supported_types :: "PayloadShape \<Rightarrow> bool" where
  "supported_types sh \<longleftrightarrow>
     (\<forall>x \<in> set (ps_Fields sh). pf_Type (snd x) \<in> {''number'', ''string'', ''boolean'', ''integer''})"

lemma convertType_ok: "(\<exists>t. convertTypeToJSONSchema ty = Inr t) \<longleftrightarrow> ty \<in> {''number'', ''string'', ''boolean'', ''integer''}"
  unfolding convertTypeToJSONSchema_def by simp

lemma field_properties_ok:
  "(\<exists>r. field_properties fs props req = Inr r) \<longleftrightarrow> (\<forall>x \<in> set fs. \<exists>t. convertTypeToJSONSchema (pf_Type (snd x)) = Inr t)"
  by (induction fs props req rule: field_properties.induct) (auto split: sum.splits)

lemma generateFieldsSchema_ok: "(\<exists>f. generateFieldsSchema sh = Inr f) \<longleftrightarrow> supported_types sh"
  unfolding supported_types_def convertType_ok [symmetric] field_properties_ok [of _ fmempty "[]", symmetric]
  by (auto simp: generateFieldsSchema_def split: sum.splits)

section \<open>The whole translation\<close>

abbreviation leaves_of :: "(string, DataModelsConfig) fmap \<Rightarrow> DataModelVersion \<Rightarrow> leaf list" where
  "leaves_of models dm \<equiv> model_leaves 9 (fmlookup models) [] (Structure dm)"

lemma sorted_result_sorted: "sorted_result x = (Inr m, s') \<Longrightarrow> sort_paths m = m"
proof -
  have "fmmap sort (fmmap sort m) = fmmap sort m" for m :: paths_by_shape
    by (rule fmap_ext) (simp add: option.map_comp comp_def sorted_sort_id)
  then show "sorted_result x = (Inr m, s') \<Longrightarrow> sort_paths m = m"
    by (auto simp: sorted_result_def sort_paths_def split: prod.splits sum.splits)
qed

lemma extracted_sorted:
  "extractVirtualPaths ctx st path s = (Inr m, s') \<Longrightarrow> sort_paths m = m"
  "extractVirtualPathsWithReferences ctx models V d st path s = (Inr m, s') \<Longrightarrow> sort_paths m = m"
  by (auto simp: poll_then_def split: option.splits if_splits dest: sorted_result_sorted)

lemma wrap_failure_Inr [simp]: "wrap_failure p x = (Inr m, s') \<longleftrightarrow> x = (Inr m, s')"
  by (cases x) (auto simp: wrap_failure_def split: sum.splits)

lemma extract_validated_Inr:
  "extract_validated ctx dm models s = (Inr m, s') \<Longrightarrow>
     if fmdom models = {||}
     then \<exists>n. extractVirtualPaths ctx (Structure dm) [] (n, snd s) = (Inr m, s')
     else \<exists>n. extractVirtualPathsWithReferences ctx (fmlookup models) {} 0 (Structure dm) [] (n, snd s) = (Inr m, s')"
  unfolding extract_validated_def
  by (auto simp del: extractVirtualPaths.simps extractVirtualPathsWithReferences.simps
      split: prod.splits option.splits if_splits)

lemma extract_validated_leaves:
  assumes "extract_validated ctx dm models s = (Inr m, s')"
  shows "m = grouped (leaves_of models dm) \<and> snd s' = with_inline (leaves_of models dm) (snd s)"
proof -
  have conclude: ?thesis
    if "collects [] (leaves_of models dm) (n, snd s) (Inr m, s')" "sort_paths m = m" for n
    using collectsD [OF that(1)] that(2) groups_grouped [of m "leaves_of models dm"] by simp
  show ?thesis
  proof (cases "fmdom models = {||}")
    case True
    have e: "fmlookup models = Map.empty"
      using True by (intro ext) (simp add: fmdom_notD)
    obtain n where x: "extractVirtualPaths ctx (Structure dm) [] (n, snd s) = (Inr m, s')"
      using extract_validated_Inr [OF assms] True by (auto simp del: extractVirtualPaths.simps)
    show ?thesis
      by (rule conclude [OF extract_collects(1) [of 9 "[]" "Structure dm" "(n, snd s)" ctx, unfolded x, folded e] extracted_sorted(1) [OF x]])
  next
    case False
    obtain n where
      x: "extractVirtualPathsWithReferences ctx (fmlookup models) {} 0 (Structure dm) [] (n, snd s) = (Inr m, s')"
      using extract_validated_Inr [OF assms] False by (auto simp del: extractVirtualPathsWithReferences.simps)
    show ?thesis
      using conclude [OF _ extracted_sorted(2) [OF x]] x extract_ref_collects(1) [of 0 "fmlookup models" "[]" "Structure dm" "(n, snd s)" ctx "{}"]
      by (simp del: extractVirtualPathsWithReferences.simps)
  qed
qed

lemma grouped_dom: "fset (fmdom (grouped ls)) = shapes_of ls"
  by (auto simp: fmlookup_dom_iff grouped_lookup split: if_splits)

lemma grouped_at: "s \<in> shapes_of ls \<Longrightarrow> paths_at (grouped ls) s = sort (paths_of s ls)"
  by (simp add: paths_at_def grouped_lookup)

lemma model_ok_enriched: "model_ok dm models (ensureDefaultPayloadShapes shapes) \<longleftrightarrow> model_ok dm models shapes"
  unfolding model_ok_def shapes_known_def ensureDefaultPayloadShapes_dom by blast

text \<open>The validator's answers when the context never expires.\<close>

lemma validated:
  assumes "never_expires ctx"
  shows "wf_fields (Structure dm) \<Longrightarrow> fst (ValidateStructureOnly ctx dm n) = None"
    and "model_ok dm models shapes \<Longrightarrow> fst (ValidateWithReferences ctx dm models shapes n) = None"
proof -
  have live: "\<forall>i. ctx i = None" using assms by (simp add: never_expires_def)
  have 1: "fst (ValidateStructureOnly ctx dm n) = None" if "wf_fields (Structure dm)" for n
    using structure_pass(2) [OF live that] unfolding ValidateStructureOnly_def validateDataModel_def .
  show "wf_fields (Structure dm) \<Longrightarrow> fst (ValidateStructureOnly ctx dm n) = None" by (rule 1)
  assume "model_ok dm models shapes"
  then have ok: "wf_fields (Structure dm)" "shapes_known (ensureDefaultPayloadShapes shapes) (Structure dm)"
      "refs_ok (ref_depth_limit - 0) models {} (Structure dm)"
    by (simp_all add: model_ok_def refs_ok_paths)
  have 2: "fst (validatePayloadShapes ctx dm (ensureDefaultPayloadShapes shapes) n) = None" for n
    using shapes_pass(2) [OF live ok(2)] unfolding validatePayloadShapes_def .
  have 3: "fst (validateReferences ctx dm models {} 0 n) = None" for n
    using references_pass(2) [OF live ok(3)] unfolding validateReferences_def .
  show "fst (ValidateWithReferences ctx dm models shapes n) = None"
    unfolding ValidateWithReferences_parts Let_def
    using 1 [OF ok(1), of n] 2 3 by (auto split: prod.split) (metis fst_conv)+
qed

lemma extract_validated_complete:
  assumes "never_expires ctx"
    and "fmdom models = {||} \<Longrightarrow> wf_fields (Structure dm)"
    and "fmdom models \<noteq> {||} \<Longrightarrow> model_ok dm (fmlookup models) (snd s)"
    and "\<And>rs. ref_path (fmlookup models) (Structure dm) rs \<Longrightarrow> length rs \<le> 9"
  shows "\<exists>m s'. extract_validated ctx dm models s = (Inr m, s')"
proof (cases "fmdom models = {||}")
  case True
  obtain n where v: "ValidateStructureOnly ctx dm (fst s) = (None, n)"
    using validated(1) [OF assms(1) assms(2) [OF True], of "fst s"] by (metis prod.collapse)
  obtain m s' where "extractVirtualPaths ctx (Structure dm) [] (n, snd s) = (Inr m, s')"
    using extract_complete(1) [OF assms(1)] by blast
  with True v show ?thesis by (simp add: extract_validated_def wrap_failure_def del: extractVirtualPaths.simps)
next
  case False
  note ok = assms(3) [OF False]
  obtain n where v: "ValidateWithReferences ctx dm (fmlookup models) (snd s) (fst s) = (None, n)"
    using validated(2) [OF assms(1) ok, of "fst s"] by (metis prod.collapse)
  have "path_ok 9 (fmlookup models) {} rs" if "ref_path (fmlookup models) (Structure dm) rs" for rs
    using ok that assms(4) [OF that] by (simp add: model_ok_def path_ok_def)
  then have "refs_ok (9 - 0) (fmlookup models) {} (Structure dm)" by (simp add: refs_ok_paths)
  from extract_ref_complete(1) [OF assms(1) _ this] obtain m s'
    where "extractVirtualPathsWithReferences ctx (fmlookup models) {} 0 (Structure dm) [] (n, snd s) = (Inr m, s')"
    by fastforce
  with False v show ?thesis
    by (simp add: extract_validated_def wrap_failure_def del: extractVirtualPathsWithReferences.simps)
qed

section \<open>Properties\<close>

text \<open>
  C23: what the translator returns is exact. The usage map groups the leaves of the model, with all
  references resolved, by payload shape, each group sorted; there is one schema per shape in use and no
  other, under the subject name of the shape; it lists exactly the paths of the group and is built from the
  shape's definition, for a relational leaf the one given in the leaf itself.
\<close>

theorem translation_exact:
  assumes "range_order ord"
    and "fst (TranslateDataModel ctx ord contractName version dm shapes models n) = Inr res"
  shows "PayloadShapeUsage res = grouped (leaves_of models dm)
    \<and> fset (fmdom (Schemas res)) = generateSubjectName contractName version ` shapes_of (leaves_of models dm)
    \<and> (\<forall>s \<in> shapes_of (leaves_of models dm). \<exists>sh fieldsSchema.
         with_inline (leaves_of models dm) (ensureDefaultPayloadShapes shapes) s = Some sh
         \<and> generateFieldsSchema sh = Inr fieldsSchema
         \<and> fmlookup (Schemas res) (generateSubjectName contractName version s)
             = Some (schema_document (sort (paths_of s (leaves_of models dm))) fieldsSchema))"
proof -
  let ?ls = "leaves_of models dm" and ?subj = "generateSubjectName contractName version"
  obtain s m s1 S s2 where x: "extract_validated ctx dm models s = (Inr m, s1)" "snd s = ensureDefaultPayloadShapes shapes"
    and g: "generate_schemas ctx contractName version m (ord (fmdom m)) fmempty s1 = (Inr S, s2)"
    and r: "res = \<lparr>Schemas = S, PayloadShapeUsage = m\<rparr>"
    using assms(2) by (auto simp: TranslateDataModel_def poll_then_def split: option.splits prod.splits sum.splits)
  have m: "m = grouped ?ls" "snd s1 = with_inline ?ls (snd s)" using extract_validated_leaves [OF x(1)] by simp_all
  have keys: "distinct (ord (fmdom m))" "set (ord (fmdom m)) = shapes_of ?ls"
    using assms(1) m(1) grouped_dom [of ?ls] by (simp_all add: range_order_def)
  note S = generate_schemas_sound [OF g keys(1), unfolded keys(2)]
  have schema: "\<exists>sh f. with_inline ?ls (snd s) k = Some sh \<and> generateFieldsSchema sh = Inr f
      \<and> fmlookup S (?subj k) = Some (schema_document (sort (paths_of k ?ls)) f)" if "k \<in> shapes_of ?ls" for k
    using S that m by (auto simp: schema_for_def grouped_at split: option.splits sum.splits)
  have "fset (fmdom S) = ?subj ` shapes_of ?ls"
    proof (intro set_eqI iffI)
    fix subj
    assume "subj \<in> fset (fmdom S)"
    then show "subj \<in> ?subj ` shapes_of ?ls" using S by (cases "subj \<in> ?subj ` shapes_of ?ls") (auto simp: fmlookup_dom_iff)
  next
    fix subj
    assume "subj \<in> ?subj ` shapes_of ?ls"
    then show "subj \<in> fset (fmdom S)" using schema by (auto intro: fmdomI)
  qed
  with schema m(1) r x(2) show ?thesis by simp
qed

text \<open>
  C24: translation succeeds. When the context never expires, the model passes validation (with or without
  other models to refer to), no chain of references is longer than nine, and every leaf's shape is
  defined with supported types, a result is returned.
\<close>

theorem translation_succeeds:
  assumes "never_expires ctx"
    and "fmdom models = {||} \<Longrightarrow> wf_fields (Structure dm)"
    and "fmdom models \<noteq> {||} \<Longrightarrow> model_ok dm (fmlookup models) shapes"
    and "\<And>rs. ref_path (fmlookup models) (Structure dm) rs \<Longrightarrow> length rs \<le> 9"
    and "\<And>s. s \<in> shapes_of (leaves_of models dm) \<Longrightarrow>
      \<exists>sh. with_inline (leaves_of models dm) (ensureDefaultPayloadShapes shapes) s = Some sh \<and> supported_types sh"
    and "range_order ord"
  shows "\<exists>res. fst (TranslateDataModel ctx ord contractName version dm shapes models n) = Inr res"
proof -
  let ?s = "(Suc n, ensureDefaultPayloadShapes shapes)" and ?ls = "leaves_of models dm"
  obtain m s1 where x: "extract_validated ctx dm models ?s = (Inr m, s1)"
    using extract_validated_complete [of ctx models dm ?s, OF assms(1,2) _ assms(4)] assms(3)
    by (auto simp: model_ok_enriched)
  have m: "m = grouped ?ls" "snd s1 = with_inline ?ls (ensureDefaultPayloadShapes shapes)"
    using extract_validated_leaves [OF x] by simp_all
  have "schema_for m (snd s1) k \<noteq> None" if "k \<in> set (ord (fmdom m))" for k
  proof -
    have "k \<in> shapes_of ?ls" using that assms(6) m(1) grouped_dom [of ?ls] by (simp add: range_order_def)
    then obtain sh f where "snd s1 k = Some sh" "generateFieldsSchema sh = Inr f"
      using assms(5) m(2) generateFieldsSchema_ok by metis
    then show ?thesis by (simp add: schema_for_def)
  qed
  then obtain S s2 where "generate_schemas ctx contractName version m (ord (fmdom m)) fmempty s1 = (Inr S, s2)"
    using generate_schemas_complete [OF assms(1)] by blast
  moreover have "ctx n = None" using assms(1) by (simp add: never_expires_def)
  ultimately show ?thesis using x by (simp add: TranslateDataModel_def poll_then_def)
qed

text \<open>A chain of models, each of which refers to the next; the last has one leaf.\<close>

definition link :: "nat \<Rightarrow> Field" where
  "link i = Field (Some \<lparr>ref_Name = ''m'' @ itoa i, ref_Version = ''v1''\<rparr>) None None []"

definition chain_models :: "nat \<Rightarrow> (string, DataModelsConfig) fmap" where
  "chain_models k = fmap_of_list (map (\<lambda>i. (''m'' @ itoa i,
     \<lparr>Versions = [''v1'' \<mapsto> \<lparr>Structure = [(''x'', if i < k then link (Suc i) else Field None None None ''timeseries-number'')]\<rparr>],
      dm_Name = ''m'' @ itoa i, dm_Description = []\<rparr>)) [1..<Suc k])"

definition chain_start :: DataModelVersion where
  "chain_start = \<lparr>Structure = [(''x'', link 1)]\<rparr>"

definition sorted_range :: map_order where
  "sorted_range A = sorted_list_of_fset A"

lemma not_isl: "\<not> isl x \<Longrightarrow> \<exists>y. x = Inr y"
  by (cases x) simp_all

lemma range_sorted_range [simp]: "range_order sorted_range"
  by (simp add: range_order_def sorted_range_def sorted_list_of_fset.rep_eq)


section \<open>Witnesses\<close>

definition demo_all_models :: "(string, DataModelsConfig) fmap" where
  "demo_all_models = fmap_of_list [(''motor'', \<lparr>Versions = [''v1'' \<mapsto> demo_motor], dm_Name = ''motor'', dm_Description = []\<rparr>)]"


theorem translation_exact_witness:
  "\<exists>res :: SchemaTranslationResult. fmlookup (PayloadShapeUsage res) ''timeseries-number'' = Some [''drive.current'', ''pressure'']
     \<and> fset (fmdom (Schemas res)) = {''_pump_v1-timeseries-number'', ''_pump_v1-timeseries-string'', ''_pump_v1-__relational_order__''}"
proof -
  have "\<not> isl (fst (TranslateDataModel (\<lambda>_. None) sorted_range ''pump'' ''1'' demo_pump Map.empty demo_all_models 0))"
    by code_simp
  then obtain res where "fst (TranslateDataModel (\<lambda>_. None) sorted_range ''pump'' ''1'' demo_pump Map.empty demo_all_models 0) = Inr res"
    using not_isl by blast
  from translation_exact [OF range_sorted_range this] have
    u: "PayloadShapeUsage res = grouped (leaves_of demo_all_models demo_pump)" and
    d: "fset (fmdom (Schemas res)) = generateSubjectName ''pump'' ''1'' ` shapes_of (leaves_of demo_all_models demo_pump)"
    by simp_all
  have paths: "fmlookup (grouped (leaves_of demo_all_models demo_pump)) ''timeseries-number'' = Some [''drive.current'', ''pressure'']"
    by code_simp
  have subjects: "generateSubjectName ''pump'' ''1'' ` shapes_of (leaves_of demo_all_models demo_pump)
     = {''_pump_v1-timeseries-number'', ''_pump_v1-timeseries-string'', ''_pump_v1-__relational_order__''}"
    by code_simp
  show ?thesis by (rule exI [of _ res]) (simp only: u d paths subjects simp_thms)
qed

lemma demo_model_ok:
  "model_ok demo_pump (fmlookup demo_all_models) Map.empty"
  "ref_path (fmlookup demo_all_models) (Structure demo_pump) rs \<Longrightarrow> length rs \<le> 9"
proof -
  have 1: "wf_fields (Structure demo_pump)"
    by (rule structure_pass(1) [of "\<lambda>_. None" "[]" _ "[]" 0]) code_simp
  have 2: "shapes_known (ensureDefaultPayloadShapes Map.empty) (Structure demo_pump)"
    by (rule shapes_pass(1) [of "\<lambda>_. None" "[]" _ _ "[]" 0]) code_simp
  have "refs_ok (ref_depth_limit - 1) (fmlookup demo_all_models) {} (Structure demo_pump)"
    by (rule references_pass(1) [of "\<lambda>_. None" "[]" _ "{}" 1 _ "[]" 0]) code_simp
  then have 3: "ref_path (fmlookup demo_all_models) (Structure demo_pump) rs \<Longrightarrow> path_ok 9 (fmlookup demo_all_models) {} rs" for rs
    by (simp add: refs_ok_paths ref_depth_limit_def)
  then show "ref_path (fmlookup demo_all_models) (Structure demo_pump) rs \<Longrightarrow> length rs \<le> 9"
    by (simp add: path_ok_def)
  show "model_ok demo_pump (fmlookup demo_all_models) Map.empty"
    using 1 2 3 by (fastforce simp: model_ok_def path_ok_def ref_depth_limit_def)
qed

theorem translation_succeeds_witness:
  "\<exists>res. fst (TranslateDataModel (\<lambda>_. None) sorted_range ''pump'' ''1'' demo_pump Map.empty demo_all_models 0) = Inr res"
proof (rule translation_succeeds)
  have live: "fmdom demo_all_models \<noteq> {||}" by code_simp
  show "wf_fields (Structure demo_pump)" if "fmdom demo_all_models = {||}" using live that by blast
  show "\<exists>sh. with_inline (leaves_of demo_all_models demo_pump) (ensureDefaultPayloadShapes Map.empty) s = Some sh \<and> supported_types sh"
    if "s \<in> shapes_of (leaves_of demo_all_models demo_pump)" for s
  proof -
    have "\<forall>s \<in> shapes_of (leaves_of demo_all_models demo_pump).
        case with_inline (leaves_of demo_all_models demo_pump) (ensureDefaultPayloadShapes Map.empty) s of
          None \<Rightarrow> False | Some sh \<Rightarrow> supported_types sh"
      by code_simp
    with that show ?thesis by (fastforce split: option.splits)
  qed
qed (simp_all add: never_expires_def demo_model_ok)

end
