(* ===== verification/Config_Types.thy ===== *)
theory Config_Types
  imports Go_Calls Go_Value Data_Model
begin

text \<open>
  The configuration as the program holds it (\<^verbatim>\<open>pkg/config/config.go\<close> and
  \<^verbatim>\<open>pkg/config/*serviceconfig\<close>). A nil map or slice is an empty one; \<open>fc_Alloc\<close> says whether some
  map or slice of a configuration is allocated, which \<^verbatim>\<open>reflect.DeepEqual\<close> tells from nil. Parts of a component's
  configuration that the configuration manager only carries along are kept as untyped values; the
  zero value of such a part is \<^const>\<open>VNil\<close>. \<^verbatim>\<open>Clone\<close> copies through a deep-copy library; a copy of
  a value is the value.
\<close>

section \<open>Components that can use a template\<close>

text \<open>
  Protocol converters and stream processors share what templates need: a name, the name of the
  template they refer to, the configuration itself, the user's variables and a location.
  \<open>ti_Other\<close> stands for the remaining fields.
\<close>

record 't templated =
  ti_Name :: string
  ti_DesiredFSMState :: string
  ti_TemplateRef :: string
  ti_Config :: 't
  ti_User :: document
  ti_Location :: "(string, string) fmap"
  ti_Other :: gval

record pc_template =
  pct_ConnectionServiceConfig :: gval
  pct_DataflowComponentReadServiceConfig :: gval
  pct_DataflowComponentWriteServiceConfig :: gval

record sp_template =
  spt_Model :: gval
  spt_Sources :: gval
  spt_Mapping :: gval

type_synonym protocol_converter = "pc_template templated"
type_synonym stream_processor = "sp_template templated"

definition zero_pc_template :: pc_template where
  "zero_pc_template = \<lparr>pct_ConnectionServiceConfig = VNil, pct_DataflowComponentReadServiceConfig = VNil,
     pct_DataflowComponentWriteServiceConfig = VNil\<rparr>"

definition zero_sp_template :: sp_template where
  "zero_sp_template = \<lparr>spt_Model = VNil, spt_Sources = VNil, spt_Mapping = VNil\<rparr>"

section \<open>The other sections\<close>

record data_flow =
  df_Name :: string
  df_DesiredFSMState :: string
  df_ServiceConfig :: gval
  df_DebugLevel :: bool
  df_hasAnchors :: bool

text \<open>A data model whose map of versions may be nil.\<close>

record data_model =
  cdm_Name :: string
  cdm_Description :: string
  cdm_Versions :: "(string, DataModelVersion) fmap option"

record data_contract =
  dct_Name :: string
  dct_Model :: "ModelRef option"
  dct_DefaultBridges :: gval

record historian_config =
  hc_Password :: string
  hc_Other :: gval

record agent_config =
  ag_Location :: "(int, string) fmap"
  ag_ReleaseChannel :: string
  ag_APIURL :: string
  ag_AuthToken :: string
  ag_AllowInsecureTLS :: bool
  ag_MetricsPort :: int
  ag_EnableResourceLimitBlocking :: bool
  ag_Other :: gval

record internal_config =
  ic_RedpandaDesiredFSMState :: string
  ic_TopicCleanupPolicy :: string
  ic_TopicRetentionMs :: int
  ic_TopicBrowserDesiredFSMState :: string
  ic_Other :: gval

text \<open>A template in the file is any value; the program also puts its own struct there.\<close>

datatype 't content = Any gval | Struct 't

record full_config =
  fc_PCTemplates :: "(string, pc_template content) fmap"
  fc_SPTemplates :: "(string, sp_template content) fmap"
  fc_PayloadShapes :: "(string, PayloadShape) fmap"
  fc_Historian :: "historian_config option"
  fc_DataModels :: "data_model list"
  fc_DataContracts :: "data_contract list"
  fc_DataFlow :: "data_flow list"
  fc_ProtocolConverter :: "protocol_converter list"
  fc_StreamProcessor :: "stream_processor list"
  fc_Internal :: internal_config
  fc_Agent :: agent_config
  fc_Alloc :: bool

definition zero_agent :: agent_config where
  "zero_agent = \<lparr>ag_Location = fmempty, ag_ReleaseChannel = [], ag_APIURL = [], ag_AuthToken = [], ag_AllowInsecureTLS = False,
     ag_MetricsPort = 0, ag_EnableResourceLimitBlocking = False, ag_Other = VNil\<rparr>"

definition zero_internal :: internal_config where
  "zero_internal = \<lparr>ic_RedpandaDesiredFSMState = [], ic_TopicCleanupPolicy = [], ic_TopicRetentionMs = 0,
     ic_TopicBrowserDesiredFSMState = [], ic_Other = VNil\<rparr>"

definition zero_config :: full_config where
  "zero_config = \<lparr>fc_PCTemplates = fmempty, fc_SPTemplates = fmempty, fc_PayloadShapes = fmempty, fc_Historian = None,
     fc_DataModels = [], fc_DataContracts = [], fc_DataFlow = [], fc_ProtocolConverter = [], fc_StreamProcessor = [],
     fc_Internal = zero_internal, fc_Agent = zero_agent, fc_Alloc = False\<rparr>"

definition DefaultEnableResourceLimitBlocking :: bool where
  "DefaultEnableResourceLimitBlocking = True"

definition configWithDefaults :: full_config where
  "configWithDefaults = zero_config\<lparr>fc_Agent := zero_agent\<lparr>ag_EnableResourceLimitBlocking := DefaultEnableResourceLimitBlocking\<rparr>\<rparr>"

definition isEmptyConfig :: "full_config \<Rightarrow> bool" where
  "isEmptyConfig c \<longleftrightarrow> c = zero_config \<or> c = configWithDefaults"

end
