(* ===== verification/Schema_Registry.thy ===== *)
theory Schema_Registry
  imports Data_Translator Config_Types
begin

text \<open>
  The schema registry client of \<^verbatim>\<open>umh-core/pkg/service/redpanda/schema_registry.go\<close>: the translation of
  all data contracts, the comparison with what the registry has, and the state machine that deletes and
  adds one subject at a time. The registry behind \<^verbatim>\<open>http.Client.Do\<close> is an argument: a function from a request and
  a state of the outside world to the outcome and the next state. The text of an error of \<^verbatim>\<open>net/http\<close> or
  \<^verbatim>\<open>encoding/json\<close> is an argument too. Every call that is made under the mutex is one step.
\<close>

section \<open>Requests and responses\<close>

datatype http_method = GET | POST | DELETE

text \<open>The bytes of a body: the JSON text of a value as a decoder sees it, or anything else.\<close>

datatype http_body = JSON gval | Text string

record http_request =
  rq_Method :: http_method
  rq_URL :: string
  rq_Body :: http_body

text \<open>The body of a response comes with the error of reading it, if there is one.\<close>

record http_response =
  rs_StatusCode :: nat
  rs_Body :: "goerror + http_body"

type_synonym 'w http_do = "http_request \<Rightarrow> 'w \<Rightarrow> (goerror + http_response option) \<times> 'w"

text \<open>\<^verbatim>\<open>json.Unmarshal\<close> into a \<^verbatim>\<open>[]string\<close>: null is the nil slice, a null element the empty string.\<close>

fun string_elem :: "gval \<Rightarrow> string option" where
  "string_elem (VString s) = Some s"
| "string_elem VNil = Some []"
| "string_elem _ = None"

fun string_slice :: "http_body \<Rightarrow> string list option" where
  "string_slice (JSON VNil) = Some []"
| "string_slice (JSON (VList vs)) = (if list_all (\<lambda>v. string_elem v \<noteq> None) vs then Some (map (the \<circ> string_elem) vs) else None)"
| "string_slice _ = None"

text \<open>\<^verbatim>\<open>json.Unmarshal\<close> into a \<^verbatim>\<open>map[string]interface{}\<close>.\<close>

fun string_map :: "http_body \<Rightarrow> document option" where
  "string_map (JSON VNil) = Some fmempty"
| "string_map (JSON (VMap m)) = Some m"
| "string_map _ = None"

section \<open>State\<close>

datatype SchemaRegistryPhase = PhaseLookup | PhaseDecode | PhaseCompare | PhaseRemoveUnknown | PhaseAddNew | OtherPhase string

type_synonym schemas = "(string, gval) fmap"

record SchemaRegistry =
  missingInRegistry :: schemas
  inRegistryButUnknownLocally :: "string fset"
  skipPrefixes :: "string list"
  currentPhase :: SchemaRegistryPhase
  currentOperationSubject :: string
  lastError :: string
  schemaRegistryAddress :: string
  rawSubjectsData :: http_body
  registrySubjects :: "string list"
  totalReconciliations :: int
  successfulOperations :: int
  failedOperations :: int
  lastOperationTime :: int

record SchemaRegistryMetrics =
  mt_LastOperationTime :: int
  mt_CurrentPhase :: SchemaRegistryPhase
  mt_LastError :: string
  mt_TotalReconciliations :: int
  mt_SuccessfulOperations :: int
  mt_FailedOperations :: int
  mt_SubjectsToAdd :: nat
  mt_SubjectsToRemove :: nat

definition DefaultSchemaRegistryAddress :: string where
  "DefaultSchemaRegistryAddress = ''http://localhost:8081''"

definition NewSchemaRegistry :: "(SchemaRegistry \<Rightarrow> SchemaRegistry) list \<Rightarrow> SchemaRegistry" where
  "NewSchemaRegistry opts =
     foldl (\<lambda>s opt. opt s) \<lparr>missingInRegistry = fmempty, inRegistryButUnknownLocally = {||}, skipPrefixes = [],
       currentPhase = PhaseLookup, currentOperationSubject = [], lastError = [],
       schemaRegistryAddress = DefaultSchemaRegistryAddress, rawSubjectsData = Text [], registrySubjects = [],
       totalReconciliations = 0, successfulOperations = 0, failedOperations = 0, lastOperationTime = 0\<rparr> opts"

definition WithSchemaRegistryAddress :: "string \<Rightarrow> SchemaRegistry \<Rightarrow> SchemaRegistry" where
  "WithSchemaRegistryAddress addr s = s\<lparr>schemaRegistryAddress := addr\<rparr>"

definition GetMetrics :: "SchemaRegistry \<Rightarrow> SchemaRegistryMetrics" where
  "GetMetrics s = \<lparr>mt_LastOperationTime = lastOperationTime s, mt_CurrentPhase = currentPhase s, mt_LastError = lastError s,
     mt_TotalReconciliations = totalReconciliations s, mt_SuccessfulOperations = successfulOperations s,
     mt_FailedOperations = failedOperations s, mt_SubjectsToAdd = fcard (fmdom (missingInRegistry s)),
     mt_SubjectsToRemove = fcard (inRegistryButUnknownLocally s)\<rparr>"

definition subjectsURL :: "string \<Rightarrow> string" where
  "subjectsURL baseURL = baseURL @ ''/subjects''"

definition subjectURL :: "string \<Rightarrow> string \<Rightarrow> string" where
  "subjectURL baseURL subject = baseURL @ ''/subjects/'' @ subject"

definition subjectVersionsURL :: "string \<Rightarrow> string \<Rightarrow> string" where
  "subjectVersionsURL baseURL subject = baseURL @ ''/subjects/'' @ subject @ ''/versions''"

text \<open>
  What one call meets: the client, the error of \<^verbatim>\<open>http.NewRequestWithContext\<close> for a URL, the errors of the JSON decoder,
  what \<^verbatim>\<open>%s\<close> prints for a decoded value, and the order of map iteration.
\<close>

record 'w reg_env =
  re_do :: "'w http_do"
  re_new_request :: "string \<Rightarrow> goerror option"
  re_json_error :: "http_body \<Rightarrow> goerror"
  re_sprint :: "gval \<Rightarrow> string"
  re_order :: map_order

text \<open>
  The context: the polls of the translator, then in round \<open>i\<close> of the loop \<^verbatim>\<open>ctx.Err()\<close> and the time
  until the deadline, if there is one.
\<close>

record reg_ctx =
  rc_polls :: ctx_polls
  rc_err :: "nat \<Rightarrow> goerror option"
  rc_remaining :: "nat \<Rightarrow> int option"

section \<open>Phases\<close>

definition MinimumLookupTime :: int where "MinimumLookupTime = 25 * 1000000"
definition MinimumDecodeTime :: int where "MinimumDecodeTime = 5 * 1000000"
definition MinimumCompareTime :: int where "MinimumCompareTime = 5 * 1000000"
definition MinimumRemoveTime :: int where "MinimumRemoveTime = 30 * 1000000"
definition MinimumAddTime :: int where "MinimumAddTime = 35 * 1000000"

abbreviation registry_error :: "string \<Rightarrow> goerror" where
  "registry_error msg \<equiv> ErrorNew 350 msg"

definition time_error :: "reg_ctx \<Rightarrow> nat \<Rightarrow> int \<Rightarrow> goerror option" where
  "time_error ctx i minTime =
     (case rc_remaining ctx i of
        None \<Rightarrow> None
      | Some remaining \<Rightarrow>
          if remaining \<le> 0 then Some (registry_error ''context deadline already passed'')
          else if remaining < minTime
          then Some (registry_error (''insufficient time remaining in context (< '' @ FormatInt (minTime div 1000000) @ ''ms)''))
          else None)"

definition getNextPhase :: "SchemaRegistry \<Rightarrow> SchemaRegistryPhase \<Rightarrow> bool \<Rightarrow> SchemaRegistryPhase" where
  "getNextPhase s phase changePhase =
     (if \<not> changePhase then phase
      else case phase of
        PhaseLookup \<Rightarrow> PhaseDecode
      | PhaseDecode \<Rightarrow> PhaseCompare
      | PhaseCompare \<Rightarrow>
          if inRegistryButUnknownLocally s \<noteq> {||} then PhaseRemoveUnknown
          else if fmdom (missingInRegistry s) \<noteq> {||} then PhaseAddNew else PhaseLookup
      | PhaseRemoveUnknown \<Rightarrow> if inRegistryButUnknownLocally s \<noteq> {||} then PhaseRemoveUnknown else PhaseAddNew
      | PhaseAddNew \<Rightarrow> if fmdom (missingInRegistry s) \<noteq> {||} then PhaseAddNew else PhaseLookup
      | OtherPhase _ \<Rightarrow> PhaseLookup)"

type_synonym 'w phase_result = "(goerror option \<times> bool) \<times> SchemaRegistry \<times> 'w"

definition extractResponseBody :: "http_response \<Rightarrow> goerror + http_body" where
  "extractResponseBody resp = (case rs_Body resp of Inl e \<Rightarrow> Inl (Errorf ''failed to read response body: '' e) | Inr b \<Rightarrow> Inr b)"

text \<open>
  The frame of the three phases that send a request: build it, send it, and go on with the response;
  \<open>failed\<close> wraps the error of \<^verbatim>\<open>Do\<close> and \<open>what\<close> names the request in the error for a nil response.
\<close>

definition send ::
  "'w reg_env \<Rightarrow> http_request \<Rightarrow> (goerror \<Rightarrow> goerror) \<Rightarrow> string \<Rightarrow> SchemaRegistry \<Rightarrow> 'w
     \<Rightarrow> (http_response \<Rightarrow> (goerror option \<times> bool) \<times> SchemaRegistry) \<Rightarrow> 'w phase_result"
where
  "send E req failed what s w k =
     (case re_new_request E (rq_URL req) of
        Some e \<Rightarrow> ((Some e, False), s, w)
      | None \<Rightarrow>
          (case re_do E req w of
             (Inl e, w) \<Rightarrow> ((Some (failed e), False), s, w)
           | (Inr None, w) \<Rightarrow> ((Some (registry_error (''received nil response from schema registry'' @ what)), False), s, w)
           | (Inr (Some resp), w) \<Rightarrow> (case k resp of (r, s) \<Rightarrow> (r, s, w))))"

definition lookup :: "'w reg_env \<Rightarrow> reg_ctx \<Rightarrow> nat \<Rightarrow> SchemaRegistry \<Rightarrow> 'w \<Rightarrow> 'w phase_result" where
  "lookup E ctx i s w =
     (case time_error ctx i MinimumLookupTime of
        Some e \<Rightarrow> ((Some e, False), s, w)
      | None \<Rightarrow>
          send E \<lparr>rq_Method = GET, rq_URL = subjectsURL (schemaRegistryAddress s), rq_Body = Text []\<rparr> id [] s w (\<lambda>resp.
            if rs_StatusCode resp \<noteq> 200
            then ((Some (registry_error (''schema registry lookup failed with status '' @ itoa (rs_StatusCode resp))), False), s)
            else case extractResponseBody resp of
                   Inl e \<Rightarrow> ((Some (Errorf ''failed to extract response body: '' e), False), s)
                 | Inr b \<Rightarrow> ((None, True), s\<lparr>rawSubjectsData := b\<rparr>)))"

definition decode :: "'w reg_env \<Rightarrow> reg_ctx \<Rightarrow> nat \<Rightarrow> SchemaRegistry \<Rightarrow> (goerror option \<times> bool) \<times> SchemaRegistry" where
  "decode E ctx i s =
     (case time_error ctx i MinimumDecodeTime of
        Some e \<Rightarrow> ((Some e, False), s)
      | None \<Rightarrow>
          (case string_slice (rawSubjectsData s) of
             None \<Rightarrow> ((Some (Errorf ''failed to decode subjects: '' (re_json_error E (rawSubjectsData s))), False), s)
           | Some subjects \<Rightarrow> ((None, True), s\<lparr>registrySubjects := subjects, rawSubjectsData := Text []\<rparr>)))"

definition isSkippedSubject :: "string list \<Rightarrow> string \<Rightarrow> bool" where
  "isSkippedSubject skips subject = list_ex (\<lambda>p. prefix p subject) skips"

definition compare :: "reg_ctx \<Rightarrow> nat \<Rightarrow> schemas \<Rightarrow> SchemaRegistry \<Rightarrow> (goerror option \<times> bool) \<times> SchemaRegistry" where
  "compare ctx i expectedSubjects s =
     (case time_error ctx i MinimumCompareTime of
        Some e \<Rightarrow> ((Some e, False), s)
      | None \<Rightarrow>
          ((None, True), s\<lparr>
             missingInRegistry := fmfilter (\<lambda>subject. subject \<notin> set (registrySubjects s)) expectedSubjects,
             inRegistryButUnknownLocally := fset_of_list (filter (\<lambda>subject. fmlookup expectedSubjects subject = None
               \<and> \<not> isSkippedSubject (skipPrefixes s) subject) (registrySubjects s))\<rparr>))"

text \<open>\<^verbatim>\<open>for k := range m { ...; break }\<close>.\<close>

definition first_key :: "'w reg_env \<Rightarrow> string fset \<Rightarrow> string" where
  "first_key E A = hd (re_order E A)"

text \<open>The number under \<^verbatim>\<open>error_code\<close> in the body of an error response.\<close>

definition error_code :: "document \<Rightarrow> int option" where
  "error_code m = (case field m ''error_code'' of VFloat64 q \<Rightarrow> Some (int64_of_float q) | _ \<Rightarrow> None)"

definition delete_error :: "string \<Rightarrow> http_response \<Rightarrow> goerror option" where
  "delete_error subject resp =
     (let status = rs_StatusCode resp;
          client = Some (registry_error (''delete subject '' @ subject @ '' returned client error status '' @ itoa status))
      in if status \<in> {200, 204, 404} then None
         else if 400 \<le> status \<and> status < 500
         then case extractResponseBody resp of
                Inl _ \<Rightarrow> client
              | Inr b \<Rightarrow>
                  (case string_map b of
                     None \<Rightarrow> client
                   | Some m \<Rightarrow>
                       (case error_code m of
                          None \<Rightarrow> client
                        | Some code \<Rightarrow>
                            if code = 40401 \<or> code = 40406 then None
                            else if code = 42206
                            then Some (registry_error (''cannot delete subject '' @ subject @ '': schema has references (error 42206)''))
                            else Some (registry_error (''delete subject '' @ subject @ '' failed with custom error '' @ FormatInt code))))
         else Some (registry_error (''delete subject '' @ subject @ '' returned status '' @ itoa status)))"

definition removeUnknown :: "'w reg_env \<Rightarrow> reg_ctx \<Rightarrow> nat \<Rightarrow> SchemaRegistry \<Rightarrow> 'w \<Rightarrow> 'w phase_result" where
  "removeUnknown E ctx i s w =
     (case time_error ctx i MinimumRemoveTime of
        Some e \<Rightarrow> ((Some e, False), s, w)
      | None \<Rightarrow>
          if inRegistryButUnknownLocally s = {||} then ((None, True), s, w)
          else
            let subject = first_key E (inRegistryButUnknownLocally s);
                s = s\<lparr>currentOperationSubject := subject\<rparr>
            in send E \<lparr>rq_Method = DELETE, rq_URL = subjectURL (schemaRegistryAddress s) subject, rq_Body = Text []\<rparr>
                 (Errorf (''failed to delete subject '' @ subject @ '': '')) ('' for DELETE '' @ subject) s w (\<lambda>resp.
                 case delete_error subject resp of
                   Some e \<Rightarrow> ((Some e, False), s)
                 | None \<Rightarrow>
                     let left = inRegistryButUnknownLocally s |-| {|subject|}
                     in ((None, left = {||}), s\<lparr>inRegistryButUnknownLocally := left\<rparr>)))"

definition add_error_code :: "'w reg_env \<Rightarrow> string \<Rightarrow> http_response \<Rightarrow> goerror option" where
  "add_error_code E subject resp =
     (case extractResponseBody resp of
        Inl _ \<Rightarrow> None
      | Inr b \<Rightarrow>
          (case string_map b of
             None \<Rightarrow> None
           | Some m \<Rightarrow>
               (case error_code m of
                  None \<Rightarrow> None
                | Some code \<Rightarrow> Some (registry_error (''add subject '' @ subject @ '' failed with custom error '' @ FormatInt code
                    @ '': '' @ re_sprint E (field m ''message''))))))"

definition add_failure :: "'w reg_env \<Rightarrow> string \<Rightarrow> http_response \<Rightarrow> goerror option" where
  "add_failure E subject resp =
     (let status = rs_StatusCode resp
      in if status \<in> {201, 200, 409} then None
         else if 400 \<le> status \<and> status < 500
         then case add_error_code E subject resp of
                Some e \<Rightarrow> Some e
              | None \<Rightarrow> Some (registry_error (''add subject '' @ subject @
                  (if status = 400 then '' failed: bad request (400)''
                   else if status = 401 then '' failed: unauthorized (401)''
                   else if status = 403 then '' failed: forbidden (403)''
                   else if status = 422 then '' failed: schema validation error (422)''
                   else '' failed with client error status '' @ itoa status)))
         else Some (registry_error (''add subject '' @ subject @ '' returned status '' @ itoa status)))"

definition add_payload :: "gval \<Rightarrow> gval" where
  "add_payload schema = VMap (fmap_of_list [(''schema'', schema), (''schemaType'', VString ''JSON'')])"

definition addNew :: "'w reg_env \<Rightarrow> reg_ctx \<Rightarrow> nat \<Rightarrow> SchemaRegistry \<Rightarrow> 'w \<Rightarrow> 'w phase_result" where
  "addNew E ctx i s w =
     (case time_error ctx i MinimumAddTime of
        Some e \<Rightarrow> ((Some e, False), s, w)
      | None \<Rightarrow>
          if fmdom (missingInRegistry s) = {||} then ((None, True), s, w)
          else
            let subject = first_key E (fmdom (missingInRegistry s));
                schema = the (fmlookup (missingInRegistry s) subject);
                s = s\<lparr>currentOperationSubject := subject\<rparr>
            in send E \<lparr>rq_Method = POST, rq_URL = subjectVersionsURL (schemaRegistryAddress s) subject, rq_Body = JSON (add_payload schema)\<rparr>
                 (Errorf (''failed to add subject '' @ subject @ '': '')) ('' for POST '' @ subject) s w (\<lambda>resp.
                 case add_failure E subject resp of
                   Some e \<Rightarrow> ((Some e, False), s)
                 | None \<Rightarrow>
                     let left = fmdrop subject (missingInRegistry s)
                     in ((None, fmdom left = {||}), s\<lparr>missingInRegistry := left\<rparr>)))"

section \<open>The loop\<close>

text \<open>One phase; an unknown phase gives nothing.\<close>

definition run_phase :: "'w reg_env \<Rightarrow> reg_ctx \<Rightarrow> schemas \<Rightarrow> nat \<Rightarrow> SchemaRegistry \<Rightarrow> 'w \<Rightarrow> 'w phase_result option" where
  "run_phase E ctx expectedSubjects i s w =
     (case currentPhase s of
        PhaseLookup \<Rightarrow> Some (lookup E ctx i s w)
      | PhaseDecode \<Rightarrow> Some (case decode E ctx i s of (r, s) \<Rightarrow> (r, s, w))
      | PhaseCompare \<Rightarrow> Some (case compare ctx i expectedSubjects s of (r, s) \<Rightarrow> (r, s, w))
      | PhaseRemoveUnknown \<Rightarrow> Some (removeUnknown E ctx i s w)
      | PhaseAddNew \<Rightarrow> Some (addNew E ctx i s w)
      | OtherPhase p \<Rightarrow> None)"

definition advance :: "bool \<Rightarrow> SchemaRegistry \<Rightarrow> SchemaRegistry" where
  "advance changePhase s = (if changePhase then s\<lparr>currentPhase := getNextPhase s (currentPhase s) changePhase\<rparr> else s)"

definition in_sync :: "SchemaRegistry \<Rightarrow> bool" where
  "in_sync s \<longleftrightarrow> currentPhase s = PhaseLookup \<and> fmdom (missingInRegistry s) = {||} \<and> inRegistryButUnknownLocally s = {||}"

text \<open>One round of the loop: it returns, or it goes round again.\<close>

definition loop_round ::
  "'w reg_env \<Rightarrow> reg_ctx \<Rightarrow> schemas \<Rightarrow> nat \<Rightarrow> SchemaRegistry \<Rightarrow> 'w
     \<Rightarrow> (goerror option \<times> SchemaRegistry \<times> 'w) + (SchemaRegistry \<times> 'w)"
where
  "loop_round E ctx expectedSubjects i s w =
     (case rc_err ctx i of
        Some e \<Rightarrow> Inl (Some e, s, w)
      | None \<Rightarrow>
          (case run_phase E ctx expectedSubjects i s w of
             None \<Rightarrow> Inl (Some (registry_error (''unknown phase: '' @ (case currentPhase s of OtherPhase p \<Rightarrow> p | _ \<Rightarrow> []))), s, w)
           | Some ((Some e, changePhase), s, w) \<Rightarrow> Inl (Some e, advance changePhase s, w)
           | Some ((None, changePhase), s, w) \<Rightarrow>
               let s = advance changePhase s
               in if changePhase \<and> in_sync s then Inl (None, s, w) else Inr (s, w)))"

partial_function (option) reconcileInternal ::
  "'w reg_env \<Rightarrow> reg_ctx \<Rightarrow> schemas \<Rightarrow> nat \<Rightarrow> SchemaRegistry \<Rightarrow> 'w \<Rightarrow> (goerror option \<times> SchemaRegistry \<times> 'w) option"
where
  "reconcileInternal E ctx expectedSubjects i s w =
     (case loop_round E ctx expectedSubjects i s w of
        Inl r \<Rightarrow> Some r
      | Inr (s, w) \<Rightarrow> reconcileInternal E ctx expectedSubjects (Suc i) s w)"

definition ReconcileWithSchemas ::
  "'w reg_env \<Rightarrow> reg_ctx \<Rightarrow> schemas \<Rightarrow> int \<Rightarrow> SchemaRegistry \<Rightarrow> 'w \<Rightarrow> (goerror option \<times> SchemaRegistry \<times> 'w) option"
where
  "ReconcileWithSchemas E ctx schemas now s w =
     map_option (\<lambda>(err, s, w).
        (err, (case err of
                 Some e \<Rightarrow> s\<lparr>lastOperationTime := now, failedOperations := wrap_int64 (failedOperations s + 1), lastError := error_text e\<rparr>
               | None \<Rightarrow> s\<lparr>lastOperationTime := now, successfulOperations := wrap_int64 (successfulOperations s + 1), lastError := []\<rparr>), w))
       (reconcileInternal E ctx schemas 0 (s\<lparr>totalReconciliations := wrap_int64 (totalReconciliations s + 1)\<rparr>) w)"

section \<open>Translation of the contracts\<close>

text \<open>\<^verbatim>\<open>json.Marshal\<close> never fails on a schema, and the translator never returns nil without an error.\<close>

definition schema_text :: "JSONSchema \<Rightarrow> gval" where
  "schema_text schema = VJSON (json_norm (VMap schema))"

fun translate_contracts ::
  "ctx_polls \<Rightarrow> map_order \<Rightarrow> (string, DataModelsConfig) fmap \<Rightarrow> (string \<rightharpoonup> PayloadShape) \<Rightarrow> data_contract list
     \<Rightarrow> schemas \<Rightarrow> goerror list \<Rightarrow> string list \<Rightarrow> nat \<Rightarrow> goerror + schemas \<times> goerror list \<times> string list"
where
  "translate_contracts ctx ord allDataModels payloadShapes [] expected skipErrs skips n = Inr (expected, skipErrs, skips)"
| "translate_contracts ctx ord allDataModels payloadShapes (contract # rest) expected skipErrs skips n =
     (case ctx n of
        Some e \<Rightarrow> Inl e
      | None \<Rightarrow>
          (let skip = (\<lambda>e n. translate_contracts ctx ord allDataModels payloadShapes rest expected (skipErrs @ [e])
                         (skips @ [dct_Name contract @ ''-'']) n)
           in case dct_Model contract of
                None \<Rightarrow> translate_contracts ctx ord allDataModels payloadShapes rest expected skipErrs skips (Suc n)
              | Some r \<Rightarrow>
                  (case fmlookup allDataModels (ref_Name r) of
                     None \<Rightarrow> skip (registry_error (''data contract '' @ quote (dct_Name contract) @ '' references unknown model ''
                               @ quote (ref_Name r))) (Suc n)
                   | Some m \<Rightarrow>
                       (case Versions m (ref_Version r) of
                          None \<Rightarrow> skip (registry_error (''data contract '' @ quote (dct_Name contract) @ '' references unknown version ''
                                    @ quote (ref_Version r) @ '' of model '' @ quote (ref_Name r))) (Suc n)
                        | Some v \<Rightarrow>
                            (case TranslateDataModel ctx ord (dct_Name contract) (ref_Version r) v payloadShapes allDataModels (Suc n) of
                               (Inl e, n) \<Rightarrow> skip (Errorf (''failed to translate data contract '' @ quote (dct_Name contract) @ '': '') e) n
                             | (Inr res, n) \<Rightarrow>
                                 translate_contracts ctx ord allDataModels payloadShapes rest
                                   (expected ++\<^sub>f fmmap schema_text (Schemas res)) skipErrs skips n)))))"

definition translateToSchemas ::
  "ctx_polls \<Rightarrow> map_order \<Rightarrow> DataModelsConfig list \<Rightarrow> data_contract list \<Rightarrow> (string \<rightharpoonup> PayloadShape)
     \<Rightarrow> schemas option \<times> string list \<times> goerror option"
where
  "translateToSchemas ctx ord dataModels dataContracts payloadShapes =
     (let allDataModels = foldl (\<lambda>m model. fmupd (dm_Name model) model m) fmempty dataModels
      in case translate_contracts ctx ord allDataModels payloadShapes dataContracts fmempty [] [] 0 of
           Inl e \<Rightarrow> (None, [], Some e)
         | Inr (expected, skipErrs, skips) \<Rightarrow>
             (Some expected, skips, if skipErrs = [] then None else Some (ErrorJoin skipErrs)))"

definition reg_Reconcile ::
  "'w reg_env \<Rightarrow> reg_ctx \<Rightarrow> DataModelsConfig list \<Rightarrow> data_contract list \<Rightarrow> (string \<rightharpoonup> PayloadShape) \<Rightarrow> int \<Rightarrow> SchemaRegistry \<Rightarrow> 'w
     \<Rightarrow> (goerror option \<times> SchemaRegistry \<times> 'w) option"
where
  "reg_Reconcile E ctx dataModels dataContracts payloadShapes now s w =
     (case translateToSchemas (rc_polls ctx) (re_order E) dataModels dataContracts payloadShapes of
        (None, skips, err) \<Rightarrow>
          Some (map_option (Errorf ''failed to translate data models to schemas: '') err,
            s\<lparr>totalReconciliations := wrap_int64 (totalReconciliations s + 1),
              lastError := (case err of None \<Rightarrow> [] | Some e \<Rightarrow> error_text e),
              failedOperations := wrap_int64 (failedOperations s + 1), lastOperationTime := now\<rparr>, w)
      | (Some expected, skips, err) \<Rightarrow>
          map_option (\<lambda>(reconcileErr, s, w).
             (case err of
                None \<Rightarrow> reconcileErr
              | Some e \<Rightarrow> Some (Errorf ''some data contracts could not be translated to schemas: ''
                  (ErrorJoin (e # (case reconcileErr of None \<Rightarrow> [] | Some e' \<Rightarrow> [e'])))), s, w))
            (ReconcileWithSchemas E ctx expected now (s\<lparr>skipPrefixes := skips\<rparr>) w))"

end
