(* ===== verification/Mock_Registry.thy ===== *)
theory Mock_Registry
  imports Schema_Registry Go_Path
begin

text \<open>
  The registry server of \<^verbatim>\<open>umh-core/pkg/service/redpanda/schema_registry_mock.go\<close>, which answers the requests of the
  client the way Redpanda's schema registry does: subjects with numbered versions of schemas. The
  handlers get the request with its decoded path, as \<^verbatim>\<open>net/http\<close> hands it over. The contract
  \<open>schema_server\<close> says what the client relies on; it is interpreted on this server.
\<close>

section \<open>State\<close>

record MockSchemaVersion =
  msv_ID :: int
  msv_Version :: int
  msv_Schema :: gval
  msv_Subject :: string

type_synonym mock_versions = "(int, MockSchemaVersion) fmap"

text \<open>\<open>broken\<close> says that the handlers have been replaced by one that always fails.\<close>

record MockSchemaRegistry =
  schemas :: "(string, mock_versions) fmap"
  broken :: bool

definition NewMockSchemaRegistry :: MockSchemaRegistry where
  "NewMockSchemaRegistry = \<lparr>schemas = fmempty, broken = False\<rparr>"

definition versions_of :: "MockSchemaRegistry \<Rightarrow> string \<Rightarrow> mock_versions" where
  "versions_of m subject = (case fmlookup (schemas m) subject of None \<Rightarrow> fmempty | Some vs \<Rightarrow> vs)"

definition AddSchema :: "string \<Rightarrow> int \<Rightarrow> gval \<Rightarrow> MockSchemaRegistry \<Rightarrow> MockSchemaRegistry" where
  "AddSchema subject version schema m =
     (let known = fmupd subject (versions_of m subject) (schemas m);
          id = wrap_int64 (int (fcard (fmdom known)) + version * 1000)
      in m\<lparr>schemas := fmupd subject (fmupd version
           \<lparr>msv_ID = id, msv_Version = version, msv_Schema = schema, msv_Subject = subject\<rparr> (versions_of m subject)) known\<rparr>)"

definition RemoveSchema :: "string \<Rightarrow> int \<Rightarrow> MockSchemaRegistry \<Rightarrow> MockSchemaRegistry" where
  "RemoveSchema subject version m =
     (case fmlookup (schemas m) subject of
        None \<Rightarrow> m
      | Some vs \<Rightarrow>
          let left = fmdrop version vs
          in if fmdom left = {||} then m\<lparr>schemas := fmdrop subject (schemas m)\<rparr>
             else m\<lparr>schemas := fmupd subject left (schemas m)\<rparr>)"

definition GetSchema :: "string \<Rightarrow> int \<Rightarrow> MockSchemaRegistry \<Rightarrow> MockSchemaVersion option" where
  "GetSchema subject version m =
     (case fmlookup (schemas m) subject of None \<Rightarrow> None | Some vs \<Rightarrow> fmlookup vs version)"

definition ClearSchemas :: "MockSchemaRegistry \<Rightarrow> MockSchemaRegistry" where
  "ClearSchemas m = m\<lparr>schemas := fmempty\<rparr>"

definition SimulateNetworkError :: "bool \<Rightarrow> MockSchemaRegistry \<Rightarrow> MockSchemaRegistry" where
  "SimulateNetworkError enable m = m\<lparr>broken := enable\<rparr>"

definition GetRegisteredSubjects :: "map_order \<Rightarrow> MockSchemaRegistry \<Rightarrow> string list" where
  "GetRegisteredSubjects ord m = ord (fmdom (schemas m))"

type_synonym version_order = "int fset \<Rightarrow> int list"

definition version_range :: "version_order \<Rightarrow> bool" where
  "version_range vord \<longleftrightarrow> (\<forall>A. distinct (vord A) \<and> set (vord A) = fset A)"

definition GetVersionsForSubject :: "version_order \<Rightarrow> string \<Rightarrow> MockSchemaRegistry \<Rightarrow> int list" where
  "GetVersionsForSubject vord subject m = vord (fmdom (versions_of m subject))"

section \<open>Handlers\<close>

definition respond :: "nat \<Rightarrow> http_body \<Rightarrow> http_response" where
  "respond status b = \<lparr>rs_StatusCode = status, rs_Body = Inr b\<rparr>"

text \<open>\<^verbatim>\<open>http.Error\<close> ends the text with a newline.\<close>

definition http_Error :: "string \<Rightarrow> nat \<Rightarrow> http_response" where
  "http_Error msg status = respond status (Text (msg @ [CHR 0x0A]))"

text \<open>
  A JSON text with an error code and a message that quotes the subject. It is not JSON when the subject
  has a character that would have to be escaped.
\<close>

definition json_safe :: "string \<Rightarrow> bool" where
  "json_safe s = list_all (\<lambda>c. 32 \<le> (of_char c :: nat) \<and> c \<noteq> CHR 0x22 \<and> c \<noteq> CHR 0x5C) s"

definition error_body :: "string \<Rightarrow> int \<Rightarrow> string \<Rightarrow> http_body" where
  "error_body subject code msg =
     (if json_safe subject
      then JSON (VMap (fmap_of_list [(''error_code'', VFloat64 (of_int code)), (''message'', VString msg)]))
      else Text (''{'' @ [CHR 0x22] @ ''error_code'' @ [CHR 0x22] @ '':'' @ FormatInt code @ '','' @ [CHR 0x22] @ ''message''
        @ [CHR 0x22] @ '':'' @ [CHR 0x22] @ msg @ [CHR 0x22] @ ''}''))"

definition handleSubjects :: "map_order \<Rightarrow> http_request \<Rightarrow> MockSchemaRegistry \<Rightarrow> http_response" where
  "handleSubjects ord r m =
     (if rq_Method r \<noteq> GET then http_Error ''Method not allowed'' 405
      else respond 200 (JSON (if fmdom (schemas m) = {||} then VNil else VList (map VString (ord (fmdom (schemas m)))))))"

definition handleDeleteSubject :: "string \<Rightarrow> MockSchemaRegistry \<Rightarrow> http_response \<times> MockSchemaRegistry" where
  "handleDeleteSubject subject m =
     (if fmlookup (schemas m) subject = None then (respond 404 (error_body subject 40401 (''Subject '' @ quote subject @ '' not found.'')), m)
      else (respond 200 (JSON (VList [VFloat64 1])), m\<lparr>schemas := fmdrop subject (schemas m)\<rparr>))"

text \<open>
  The decoder reads the first JSON value of the body into a struct: a missing or null field stays
  empty, a field that is not a string is an error.
\<close>

definition string_member :: "document \<Rightarrow> string \<Rightarrow> gval option" where
  "string_member m k =
     (case field m k of VNil \<Rightarrow> Some (VString []) | VString s \<Rightarrow> Some (VString s) | VJSON v \<Rightarrow> Some (VJSON v) | _ \<Rightarrow> None)"

definition posted_schema :: "http_body \<Rightarrow> gval option" where
  "posted_schema b =
     (case string_map b of
        None \<Rightarrow> None
      | Some m \<Rightarrow> if string_member m ''schemaType'' = None then None else string_member m ''schema'')"

definition post_version :: "version_order \<Rightarrow> mock_versions \<Rightarrow> int" where
  "post_version vord vs = foldl (\<lambda>version v. if version \<le> v then wrap_int64 (v + 1) else version) 1 (vord (fmdom vs))"

definition id_body :: "int \<Rightarrow> http_body" where
  "id_body i = JSON (VMap (fmap_of_list [(''id'', VFloat64 (of_int i))]))"

definition handlePostSubjectVersion ::
  "version_order \<Rightarrow> http_request \<Rightarrow> string \<Rightarrow> MockSchemaRegistry \<Rightarrow> http_response \<times> MockSchemaRegistry"
where
  "handlePostSubjectVersion vord r subject m =
     (case posted_schema (rq_Body r) of
        None \<Rightarrow> (respond 400 (JSON (VMap (fmap_of_list [(''error_code'', VFloat64 42201), (''message'', VString ''Invalid JSON'')]))), m)
      | Some schema \<Rightarrow>
          let vs = versions_of m subject
          in case find (\<lambda>v. msv_Schema (the (fmlookup vs v)) = schema) (vord (fmdom vs)) of
               Some v \<Rightarrow> (respond 409 (id_body (msv_ID (the (fmlookup vs v)))), m)
             | None \<Rightarrow>
                 let version = post_version vord vs;
                     known = fmupd subject vs (schemas m);
                     id = wrap_int64 (int (fcard (fmdom known)) * 1000 + version)
                 in (respond 201 (id_body id),
                     m\<lparr>schemas := fmupd subject (fmupd version
                        \<lparr>msv_ID = id, msv_Version = version, msv_Schema = schema, msv_Subject = subject\<rparr> vs) known\<rparr>))"

definition version_body :: "MockSchemaVersion \<Rightarrow> http_body" where
  "version_body v = JSON (VMap (fmap_of_list [(''schema'', msv_Schema v), (''subject'', VString (msv_Subject v)),
     (''id'', VFloat64 (float64_of_int (msv_ID v))), (''version'', VFloat64 (float64_of_int (msv_Version v)))]))"

definition latest :: "version_order \<Rightarrow> mock_versions \<Rightarrow> int \<times> MockSchemaVersion option" where
  "latest vord vs = foldl (\<lambda>(lv, ls) v. if lv < v then (v, fmlookup vs v) else (lv, ls)) (0, None) (vord (fmdom vs))"

definition handleLatestVersion :: "version_order \<Rightarrow> string \<Rightarrow> MockSchemaRegistry \<Rightarrow> http_response" where
  "handleLatestVersion vord subject m =
     (case fmlookup (schemas m) subject of
        None \<Rightarrow> respond 404 (error_body subject 40401 (''Subject '' @ quote subject @ '' not found.''))
      | Some vs \<Rightarrow>
          (case snd (latest vord vs) of
             None \<Rightarrow> respond 404 (error_body subject 40402 (''No versions found for subject '' @ quote subject @ ''.''))
           | Some v \<Rightarrow> respond 200 (version_body v)))"

definition handleGetSubjectVersions :: "version_order \<Rightarrow> string \<Rightarrow> string list \<Rightarrow> MockSchemaRegistry \<Rightarrow> http_response" where
  "handleGetSubjectVersions vord subject parts m =
     (if length parts < 3 \<or> parts ! 1 \<noteq> ''versions'' then http_Error ''Invalid path'' 400
      else if parts ! 2 = ''latest'' then handleLatestVersion vord subject m
      else case Atoi (parts ! 2) of
             None \<Rightarrow> http_Error ''Invalid version format'' 400
           | Some version \<Rightarrow>
               (case fmlookup (schemas m) subject of
                  None \<Rightarrow> respond 404 (error_body subject 40401 (''Subject '' @ quote subject @ '' not found.''))
                | Some vs \<Rightarrow>
                    (case fmlookup vs version of
                       None \<Rightarrow> respond 404 (error_body subject 40402 (''Version '' @ FormatInt version @ '' not found for subject ''
                                 @ quote subject @ ''.''))
                     | Some v \<Rightarrow> respond 200 (version_body v))))"

definition handleSubjectOperations ::
  "version_order \<Rightarrow> http_request \<Rightarrow> string \<Rightarrow> MockSchemaRegistry \<Rightarrow> http_response \<times> MockSchemaRegistry"
where
  "handleSubjectOperations vord r path m =
     (let parts = split_slash (drop (length ''/subjects/'') path); subject = hd parts
      in if subject = [] then (http_Error ''Invalid path'' 400, m)
         else case rq_Method r of
                DELETE \<Rightarrow> if length parts = 1 then handleDeleteSubject subject m else (http_Error ''Method not allowed'' 405, m)
              | POST \<Rightarrow> if length parts = 2 \<and> parts ! 1 = ''versions'' then handlePostSubjectVersion vord r subject m
                  else (http_Error ''Method not allowed'' 405, m)
              | GET \<Rightarrow> (handleGetSubjectVersions vord subject parts m, m))"

text \<open>
  The path of a URL of the server: what follows the address, up to a query or a fragment, with the
  percent escapes decoded.
\<close>

definition url_hex :: "char \<Rightarrow> nat" where
  "url_hex c = (let n = of_char c in if 97 \<le> n then n - 87 else if 65 \<le> n then n - 55 else n - 48)"

fun unescape :: "string \<Rightarrow> string" where
  "unescape (c # a # b # cs) =
     (if c = CHR ''%'' then char_of (16 * url_hex a + url_hex b) # unescape cs else c # unescape (a # b # cs))"
| "unescape cs = cs"

definition url_path :: "string \<Rightarrow> string \<Rightarrow> string" where
  "url_path baseURL url = unescape (takeWhile (\<lambda>c. c \<noteq> CHR ''?'' \<and> c \<noteq> CHR ''#'') (drop (length baseURL) url))"

text \<open>The multiplexer that the constructor and \<^verbatim>\<open>SimulateNetworkError\<close> install.\<close>

definition mock_route ::
  "map_order \<Rightarrow> version_order \<Rightarrow> http_request \<Rightarrow> string \<Rightarrow> MockSchemaRegistry \<Rightarrow> http_response \<times> MockSchemaRegistry"
where
  "mock_route ord vord r path m =
     (if broken m then (http_Error ''Internal Server Error'' 500, m)
      else if path = ''/subjects'' then (handleSubjects ord r m, m)
      else if prefix ''/subjects/'' path then handleSubjectOperations vord r path m
      else (http_Error ''404 page not found'' 404, m))"

text \<open>The server as the outside world of the client, with the orders in which it ranges over its maps.\<close>

record mock_world =
  mw_server :: MockSchemaRegistry
  mw_order :: map_order
  mw_versions :: version_order

definition mock_do :: "string \<Rightarrow> mock_world http_do" where
  "mock_do baseURL r w =
     (case mock_route (mw_order w) (mw_versions w) r (url_path baseURL (rq_URL r)) (mw_server w) of
        (resp, m) \<Rightarrow> (Inr (Some resp), w\<lparr>mw_server := m\<rparr>))"

text \<open>The registry that the tests of other components use.\<close>

definition noop_Reconcile :: "SchemaRegistry \<Rightarrow> goerror option" where
  "noop_Reconcile s = None"

section \<open>The contract of a registry\<close>

text \<open>Subject names that a URL carries unchanged.\<close>

definition plain_subject :: "string \<Rightarrow> bool" where
  "plain_subject x \<longleftrightarrow> list_all (\<lambda>c. name_char c \<or> c = CHR ''.'') x \<and> list_ex name_char x"

text \<open>
  What the client relies on while the server is up: the list of subjects is the list of those that have
  a schema, a deleted subject has none, and a schema posted for a subject without one is the one it has then.
\<close>

locale schema_server =
  fixes serve :: "'w http_do"
    and base :: string
    and stored :: "'w \<Rightarrow> string \<Rightarrow> gval set"
    and up :: "'w \<Rightarrow> bool"
  assumes list_subjects: "up w \<Longrightarrow>
      \<exists>b names. serve \<lparr>rq_Method = GET, rq_URL = subjectsURL base, rq_Body = Text []\<rparr> w
          = (Inr (Some \<lparr>rs_StatusCode = 200, rs_Body = Inr b\<rparr>), w)
        \<and> string_slice b = Some names \<and> set names = {x. stored w x \<noteq> {}}"
    and delete_subject: "up w \<Longrightarrow> plain_subject x \<Longrightarrow>
      \<exists>resp w'. serve \<lparr>rq_Method = DELETE, rq_URL = subjectURL base x, rq_Body = Text []\<rparr> w = (Inr (Some resp), w')
        \<and> rs_StatusCode resp \<in> {200, 204, 404} \<and> up w' \<and> stored w' = (stored w)(x := {})"
    and post_schema: "up w \<Longrightarrow> plain_subject x \<Longrightarrow> stored w x = {} \<Longrightarrow>
      \<exists>resp w'. serve \<lparr>rq_Method = POST, rq_URL = subjectVersionsURL base x, rq_Body = JSON (add_payload (VJSON v))\<rparr> w
          = (Inr (Some resp), w')
        \<and> rs_StatusCode resp \<in> {201, 200, 409} \<and> up w' \<and> stored w' = (stored w)(x := {VJSON v})"

section \<open>The mock server keeps the contract\<close>

definition mock_stored :: "mock_world \<Rightarrow> string \<Rightarrow> gval set" where
  "mock_stored w x = msv_Schema ` fmran' (versions_of (mw_server w) x)"

text \<open>The handlers are in place, no subject is left without a version, and the orders are orders.\<close>

definition mock_up :: "mock_world \<Rightarrow> bool" where
  "mock_up w \<longleftrightarrow> \<not> broken (mw_server w) \<and> fmempty \<notin> fmran' (schemas (mw_server w))
     \<and> range_order (mw_order w) \<and> version_range (mw_versions w)"

lemma unescape_plain: "CHR ''%'' \<notin> set cs \<Longrightarrow> unescape cs = cs"
  by (induction cs rule: unescape.induct) auto

lemma url_path_plain:
  assumes "CHR ''%'' \<notin> set p" "CHR ''?'' \<notin> set p" "CHR ''#'' \<notin> set p"
  shows "url_path base (base @ p) = p"
proof -
  have "takeWhile (\<lambda>c. c \<noteq> CHR ''?'' \<and> c \<noteq> CHR ''#'') p = p" using assms by (auto simp: takeWhile_eq_all_conv)
  with unescape_plain [OF assms(1)] show ?thesis by (simp add: url_path_def del: takeWhile_eq_all_conv)
qed

lemma plain_subject_chars:
  assumes "plain_subject x"
  shows "CHR ''%'' \<notin> set x" "CHR ''?'' \<notin> set x" "CHR ''#'' \<notin> set x" "CHR ''/'' \<notin> set x" "x \<noteq> []"
  using assms by (auto simp: plain_subject_def list_all_iff list_ex_iff name_char_def Let_def)

lemma subject_path:
  assumes "plain_subject x"
  shows "url_path base (subjectURL base x) = ''/subjects/'' @ x"
    and "url_path base (subjectVersionsURL base x) = ''/subjects/'' @ x @ ''/versions''"
  unfolding subjectURL_def subjectVersionsURL_def
  by (rule url_path_plain; use plain_subject_chars [OF assms] in simp)+

lemma mock_stored_eq: "mock_stored w x = {y. \<exists>vs k v. fmlookup (schemas (mw_server w)) x = Some vs \<and> fmlookup vs k = Some v \<and> y = msv_Schema v}"
  by (auto simp: mock_stored_def versions_of_def fmran'_def split: option.splits)

lemma stored_iff:
  assumes "mock_up w"
  shows "mock_stored w x \<noteq> {} \<longleftrightarrow> x |\<in>| fmdom (schemas (mw_server w))"
proof (cases "fmlookup (schemas (mw_server w)) x")
  case None
  then show ?thesis by (simp add: mock_stored_eq fmdom_notI)
next
  case (Some vs)
  with assms have "vs \<noteq> fmempty" by (auto simp: mock_up_def fmran'_def)
  then obtain k v where "fmlookup vs k = Some v" by (metis fmap_ext fmempty_lookup not_Some_eq)
  with Some show ?thesis by (auto simp: mock_stored_eq intro: fmdomI)
qed

lemma mock_list:
  assumes "mock_up w"
  shows "\<exists>b names. mock_do base \<lparr>rq_Method = GET, rq_URL = subjectsURL base, rq_Body = Text []\<rparr> w
      = (Inr (Some \<lparr>rs_StatusCode = 200, rs_Body = Inr b\<rparr>), w)
    \<and> string_slice b = Some names \<and> set names = {x. mock_stored w x \<noteq> {}}"
proof -
  let ?dom = "fmdom (schemas (mw_server w))" and ?ord = "mw_order w"
  let ?b = "JSON (if ?dom = {||} then VNil else VList (map VString (?ord ?dom)))"
  have "url_path base (subjectsURL base) = ''/subjects''"
    unfolding subjectsURL_def by (rule url_path_plain) simp_all
  with assms have "mock_do base \<lparr>rq_Method = GET, rq_URL = subjectsURL base, rq_Body = Text []\<rparr> w
      = (Inr (Some \<lparr>rs_StatusCode = 200, rs_Body = Inr ?b\<rparr>), w)"
    by (simp add: mock_do_def mock_route_def mock_up_def handleSubjects_def respond_def)
  moreover have ord: "set (?ord A) = fset A" for A using assms by (simp add: mock_up_def range_order_def)
  then have "?ord {||} = []" by (metis bot_fset.rep_eq set_empty2)
  then have "string_slice ?b = Some (?ord ?dom)" by (simp add: list_all_iff comp_def)
  moreover have "set (?ord ?dom) = {x. mock_stored w x \<noteq> {}}" using stored_iff [OF assms] ord by blast
  ultimately show ?thesis by blast
qed

lemma up_drop: "fmempty \<notin> fmran' m \<Longrightarrow> fmempty \<notin> fmran' (fmdrop x m)"
  by (auto simp: fmran'_def split: if_splits)

lemma mock_delete:
  assumes "mock_up w" and "plain_subject x"
  shows "\<exists>resp w'. mock_do base \<lparr>rq_Method = DELETE, rq_URL = subjectURL base x, rq_Body = Text []\<rparr> w = (Inr (Some resp), w')
    \<and> rs_StatusCode resp \<in> {200, 204, 404} \<and> mock_up w' \<and> mock_stored w' = (mock_stored w)(x := {})"
proof -
  let ?m = "mw_server w"
  obtain resp m' where d: "handleDeleteSubject x ?m = (resp, m')" by fastforce
  have "split_slash x = [x]" using plain_subject_chars(4) [OF assms(2)] by (rule split_slash_plain)
  then have "mock_do base \<lparr>rq_Method = DELETE, rq_URL = subjectURL base x, rq_Body = Text []\<rparr> w
      = (Inr (Some resp), w\<lparr>mw_server := m'\<rparr>)"
    using assms(1) plain_subject_chars(5) [OF assms(2)] d
    by (simp add: mock_do_def mock_route_def mock_up_def subject_path [OF assms(2)] handleSubjectOperations_def)
  moreover have "rs_StatusCode resp \<in> {200, 204, 404}" "mock_up (w\<lparr>mw_server := m'\<rparr>)"
    using d assms(1) by (auto simp: handleDeleteSubject_def respond_def mock_up_def up_drop split: if_splits)
  moreover have "mock_stored (w\<lparr>mw_server := m'\<rparr>) = (mock_stored w)(x := {})"
    using d by (auto simp: handleDeleteSubject_def mock_stored_eq fun_eq_iff split: if_splits) blast+
  ultimately show ?thesis by blast
qed

lemma mock_post:
  assumes "mock_up w" and "plain_subject x" and "mock_stored w x = {}"
  shows "\<exists>resp w'. mock_do base \<lparr>rq_Method = POST, rq_URL = subjectVersionsURL base x, rq_Body = JSON (add_payload (VJSON v))\<rparr> w
      = (Inr (Some resp), w')
    \<and> rs_StatusCode resp \<in> {201, 200, 409} \<and> mock_up w' \<and> mock_stored w' = (mock_stored w)(x := {VJSON v})"
proof -
  let ?m = "mw_server w" and ?r = "\<lparr>rq_Method = POST, rq_URL = subjectVersionsURL base x, rq_Body = JSON (add_payload (VJSON v))\<rparr>"
  obtain resp m' where d: "handlePostSubjectVersion (mw_versions w) ?r x ?m = (resp, m')" by fastforce
  have "split_slash (x @ ''/versions'') = [x, ''versions'']"
    using plain_subject_chars(4) [OF assms(2)] split_slash_append [of x "''versions''"] split_slash_plain [of x]
    by (simp add: split_slash_plain)
  then have call: "mock_do base ?r w = (Inr (Some resp), w\<lparr>mw_server := m'\<rparr>)"
    using assms(1) plain_subject_chars(5) [OF assms(2)] d
    by (simp add: mock_do_def mock_route_def mock_up_def subject_path [OF assms(2)] handleSubjectOperations_def)
  have none: "fmlookup (schemas ?m) x = None" using stored_iff [OF assms(1), of x] assms(3) by (auto intro: fmdom_notD)
  have "posted_schema (rq_Body ?r) = Some (VJSON v)"
    by (simp add: posted_schema_def add_payload_def string_member_def field_def fmap_of_list.rep_eq)
  moreover have "mw_versions w {||} = []" using assms(1) unfolding mock_up_def version_range_def by (metis bot_fset.rep_eq set_empty2)
  ultimately have new: "rs_StatusCode resp = 201" "\<exists>i. m' = ?m\<lparr>schemas := fmupd x (fmupd 1 \<lparr>msv_ID = i, msv_Version = 1,
      msv_Schema = VJSON v, msv_Subject = x\<rparr> fmempty) (schemas ?m)\<rparr>"
    using d none by (auto simp: handlePostSubjectVersion_def versions_of_def post_version_def respond_def Let_def)
  then have "mock_up (w\<lparr>mw_server := m'\<rparr>)" "mock_stored (w\<lparr>mw_server := m'\<rparr>) = (mock_stored w)(x := {VJSON v})"
    using assms(1) by (auto simp: mock_up_def mock_stored_eq fmran'_def fun_eq_iff split: if_splits) blast+
  with call new show ?thesis by auto
qed

interpretation mock: schema_server "mock_do base" base mock_stored mock_up
  by unfold_locales (fact mock_list mock_delete mock_post)+

end
