(* ===== verification/Schema_Props.thy ===== *)
theory Schema_Props
  imports Mock_Registry
begin

text \<open>
  What the schema registry client guarantees: every call returns, only requests that the last comparison
  justifies are sent, and with a registry that keeps \<open>schema_server\<close> one call brings the registry in line with the
  contracts. Two theorems show where it does less than it says: queues that outlive the comparison they
  came from, and the protection of the schemas of broken contracts.
\<close>

section \<open>The outcome of a phase\<close>

lemma send_None:
  "send E req failed what s w k = ((None, c), s', w') \<Longrightarrow>
     \<exists>resp. re_do E req w = (Inr (Some resp), w') \<and> k resp = ((None, c), s')"
  by (auto simp: send_def split: option.splits prod.splits sum.splits)

lemma lookup_None:
  "lookup E ctx i s w = ((None, c), s', w') \<Longrightarrow> c \<and> (\<exists>b. s' = s\<lparr>rawSubjectsData := b\<rparr>)"
  by (auto simp: lookup_def split: option.splits if_splits sum.splits dest!: send_None)

lemma decode_None:
  "decode E ctx i s = ((None, c), s') \<Longrightarrow> c \<and> (\<exists>subjects. s' = s\<lparr>registrySubjects := subjects, rawSubjectsData := Text []\<rparr>)"
  by (auto simp: decode_def split: option.splits)

lemma compare_None:
  "compare ctx i expected s = ((None, c), s') \<Longrightarrow> c \<and> s' = s\<lparr>
     missingInRegistry := fmfilter (\<lambda>x. x \<notin> set (registrySubjects s)) expected,
     inRegistryButUnknownLocally := fset_of_list (filter (\<lambda>x. fmlookup expected x = None
       \<and> \<not> isSkippedSubject (skipPrefixes s) x) (registrySubjects s))\<rparr>"
  by (auto simp: compare_def split: option.splits)

lemma removeUnknown_None:
  assumes "removeUnknown E ctx i s w = ((None, c), s', w')" and "inRegistryButUnknownLocally s \<noteq> {||}"
  shows "\<exists>left. left = inRegistryButUnknownLocally s |-| {|first_key E (inRegistryButUnknownLocally s)|} \<and> c = (left = {||})
    \<and> s' = s\<lparr>currentOperationSubject := first_key E (inRegistryButUnknownLocally s), inRegistryButUnknownLocally := left\<rparr>"
  using assms by (auto simp: removeUnknown_def Let_def split: option.splits if_splits dest!: send_None)

lemma addNew_None:
  assumes "addNew E ctx i s w = ((None, c), s', w')" and "fmdom (missingInRegistry s) \<noteq> {||}"
  shows "\<exists>left. left = fmdrop (first_key E (fmdom (missingInRegistry s))) (missingInRegistry s) \<and> c = (fmdom left = {||})
    \<and> s' = s\<lparr>currentOperationSubject := first_key E (fmdom (missingInRegistry s)), missingInRegistry := left\<rparr>"
  using assms by (auto simp: addNew_def Let_def split: option.splits if_splits dest!: send_None)

lemma nothing_to_do:
  "inRegistryButUnknownLocally s = {||} \<Longrightarrow> removeUnknown E ctx i s w = ((None, c), s', w') \<Longrightarrow> c \<and> s' = s \<and> w' = w"
  "fmdom (missingInRegistry s) = {||} \<Longrightarrow> addNew E ctx i s w = ((None, c), s', w') \<Longrightarrow> c \<and> s' = s \<and> w' = w"
  by (auto simp: removeUnknown_def addNew_def split: option.splits)

lemma first_key_in: "range_order (re_order E) \<Longrightarrow> A \<noteq> {||} \<Longrightarrow> first_key E A |\<in>| A"
  unfolding first_key_def range_order_def by (metis bot_fset.rep_eq fset_inject list.set_sel(1) set_empty2)

section \<open>The loop ends\<close>

text \<open>
  Each round takes a subject off a queue or moves on; a round that could start over with a pending
  queue of subjects to delete comes first, and none leads back to it.
\<close>

definition phase_rank :: "SchemaRegistry \<Rightarrow> nat" where
  "phase_rank s =
     (case currentPhase s of PhaseAddNew \<Rightarrow> if inRegistryButUnknownLocally s = {||} then 1 else 6
      | PhaseLookup \<Rightarrow> 5 | PhaseDecode \<Rightarrow> 4 | PhaseCompare \<Rightarrow> 3 | PhaseRemoveUnknown \<Rightarrow> 2 | OtherPhase _ \<Rightarrow> 0)"

definition queue_length :: "SchemaRegistry \<Rightarrow> nat" where
  "queue_length s =
     (case currentPhase s of PhaseRemoveUnknown \<Rightarrow> fcard (inRegistryButUnknownLocally s)
      | PhaseAddNew \<Rightarrow> fcard (fmdom (missingInRegistry s)) | _ \<Rightarrow> 0)"

lemma round_Inr:
  assumes "loop_round E ctx expected i s w = Inr (s', w')"
  shows "\<exists>c s1. run_phase E ctx expected i s w = Some ((None, c), s1, w') \<and> s' = advance c s1 \<and> \<not> (c \<and> in_sync s')"
  using assms by (auto simp: loop_round_def Let_def split: option.splits if_splits)

lemma round_decreases:
  assumes ord: "range_order (re_order E)" and "loop_round E ctx expected i s w = Inr (s', w')"
  shows "(s', s) \<in> measures [phase_rank, queue_length]"
proof -
  obtain c s1 where run: "run_phase E ctx expected i s w = Some ((None, c), s1, w')"
    and s': "s' = advance c s1" and go: "\<not> (c \<and> in_sync s')"
    using round_Inr [OF assms(2)] by blast
  have shrink: "fcard (A |-| {|first_key E A|}) < fcard A" if "A \<noteq> {||}" for A
    using first_key_in [OF ord that] by (rule fcard_fminus1_less)
  show ?thesis
  proof (cases "currentPhase s")
    case PhaseLookup
    with run have "lookup E ctx i s w = ((None, c), s1, w')" by (simp add: run_phase_def)
    from lookup_None [OF this] PhaseLookup s' show ?thesis
      by (auto simp: advance_def getNextPhase_def phase_rank_def)
  next
    case PhaseDecode
    with run have "decode E ctx i s = ((None, c), s1)" by (simp add: run_phase_def split: prod.splits)
    from decode_None [OF this] PhaseDecode s' show ?thesis
      by (auto simp: advance_def getNextPhase_def phase_rank_def)
  next
    case PhaseCompare
    with run have "compare ctx i expected s = ((None, c), s1)" by (simp add: run_phase_def split: prod.splits)
    note c = compare_None [OF this]
    with PhaseCompare have "currentPhase s1 = PhaseCompare" by simp
    with c PhaseCompare s' go show ?thesis
      by (simp add: advance_def getNextPhase_def phase_rank_def in_sync_def split: if_splits)
  next
    case PhaseRemoveUnknown
    with run have r: "removeUnknown E ctx i s w = ((None, c), s1, w')" by (simp add: run_phase_def)
    show ?thesis
    proof (cases "inRegistryButUnknownLocally s = {||}")
      case True
      from nothing_to_do(1) [OF True r] PhaseRemoveUnknown True s' show ?thesis
        by (simp add: advance_def getNextPhase_def phase_rank_def)
    next
      case False
      from removeUnknown_None [OF r False] shrink [OF False] PhaseRemoveUnknown s' show ?thesis
        by (auto simp: advance_def getNextPhase_def phase_rank_def queue_length_def)
    qed
  next
    case PhaseAddNew
    with run have r: "addNew E ctx i s w = ((None, c), s1, w')" by (simp add: run_phase_def)
    show ?thesis
    proof (cases "fmdom (missingInRegistry s) = {||}")
      case True
      from nothing_to_do(2) [OF True r] PhaseAddNew True s' go show ?thesis
        by (auto simp: advance_def getNextPhase_def phase_rank_def in_sync_def)
    next
      case False
      from addNew_None [OF r False] shrink [OF False] PhaseAddNew s' go show ?thesis
        by (auto simp: advance_def getNextPhase_def phase_rank_def queue_length_def in_sync_def)
    qed
  next
    case (OtherPhase p)
    with run show ?thesis by (simp add: run_phase_def)
  qed
qed

lemma loop_returns:
  assumes "range_order (re_order E)"
  shows "\<exists>r. reconcileInternal E ctx expected i s w = Some r"
proof -
  have "wf (measures [phase_rank, queue_length])" by simp
  then show ?thesis
  proof (induction s arbitrary: i w rule: wf_induct_rule)
    case (less s)
    show ?case
    proof (cases "loop_round E ctx expected i s w")
      case (Inl r)
      then show ?thesis by (cases r) (simp add: reconcileInternal.simps)
    next
      case (Inr p)
      obtain s' w' where p: "p = (s', w')" by fastforce
      from less [OF round_decreases [OF assms, of ctx expected i s w s' w'], of "Suc i" w'] Inr p show ?thesis
        by (simp add: reconcileInternal.simps [of E ctx expected i])
    qed
  qed
qed

section \<open>Requests\<close>

text \<open>What a comparison with \<open>expected\<close> may have left in the queues.\<close>

definition queues_ok :: "schemas \<Rightarrow> SchemaRegistry \<Rightarrow> bool" where
  "queues_ok expected s \<longleftrightarrow>
     (\<forall>x. x |\<in>| inRegistryButUnknownLocally s \<longrightarrow> fmlookup expected x = None \<and> \<not> isSkippedSubject (skipPrefixes s) x)
     \<and> (\<forall>x v. fmlookup (missingInRegistry s) x = Some v \<longrightarrow> fmlookup expected x = Some v)"

text \<open>
  A request for the list; the deletion of a subject that is neither expected nor protected; the
  addition of an expected subject with its schema.
\<close>

definition justified :: "schemas \<Rightarrow> string list \<Rightarrow> string \<Rightarrow> http_request \<Rightarrow> bool" where
  "justified expected skips base r \<longleftrightarrow>
     (case rq_Method r of
        GET \<Rightarrow> rq_URL r = subjectsURL base
      | DELETE \<Rightarrow> \<exists>x. rq_URL r = subjectURL base x \<and> fmlookup expected x = None \<and> \<not> isSkippedSubject skips x
      | POST \<Rightarrow> \<exists>x v. rq_URL r = subjectVersionsURL base x \<and> rq_Body r = JSON (add_payload v) \<and> fmlookup expected x = Some v)"

text \<open>An observation of the outside world that lists the requests sent so far.\<close>

definition records :: "'w reg_env \<Rightarrow> ('w \<Rightarrow> http_request list) \<Rightarrow> bool" where
  "records E sent \<longleftrightarrow> (\<forall>r w. sent (snd (re_do E r w)) = sent w @ [r])"

definition frame :: "schemas \<Rightarrow> SchemaRegistry \<Rightarrow> SchemaRegistry \<Rightarrow> bool" where
  "frame expected s s' \<longleftrightarrow> queues_ok expected s' \<and> skipPrefixes s' = skipPrefixes s
     \<and> schemaRegistryAddress s' = schemaRegistryAddress s"

definition lawful :: "schemas \<Rightarrow> ('w \<Rightarrow> http_request list) \<Rightarrow> SchemaRegistry \<Rightarrow> 'w \<Rightarrow> SchemaRegistry \<Rightarrow> 'w \<Rightarrow> bool" where
  "lawful expected sent s w s' w' \<longleftrightarrow> frame expected s s'
     \<and> (\<exists>rs. sent w' = sent w @ rs \<and> list_all (justified expected (skipPrefixes s) (schemaRegistryAddress s)) rs)"

lemma lawful_same: "frame expected s s' \<Longrightarrow> lawful expected sent s w s' w"
  by (simp add: lawful_def)

lemma lawful_trans:
  assumes "lawful expected sent s w s1 w1" and "lawful expected sent s1 w1 s2 w2"
  shows "lawful expected sent s w s2 w2"
proof -
  obtain rs rs' where "sent w1 = sent w @ rs" "list_all (justified expected (skipPrefixes s) (schemaRegistryAddress s)) rs"
    "sent w2 = sent w1 @ rs'" "list_all (justified expected (skipPrefixes s1) (schemaRegistryAddress s1)) rs'"
    using assms by (auto simp: lawful_def)
  with assms have "sent w2 = sent w @ rs @ rs'" "list_all (justified expected (skipPrefixes s) (schemaRegistryAddress s)) (rs @ rs')"
    by (simp_all add: lawful_def frame_def)
  with assms show ?thesis by (auto simp: lawful_def frame_def)
qed

lemma frame_refl: "queues_ok expected s \<Longrightarrow> frame expected s s"
  by (simp add: frame_def)

lemma send_lawful:
  assumes "records E sent" and "queues_ok expected s"
    and "justified expected (skipPrefixes s) (schemaRegistryAddress s) req" and "\<And>resp. frame expected s (snd (k resp))"
    and "send E req failed what s w k = (r, s', w')"
  shows "lawful expected sent s w s' w'"
proof (cases "re_new_request E (rq_URL req)")
  case None
  obtain x w1 where d: "re_do E req w = (x, w1)" by fastforce
  with assms(1) have "sent w1 = sent w @ [req]" unfolding records_def by (metis snd_conv)
  moreover have "w' = w1" "frame expected s s'"
    using assms(5) None d frame_refl [OF assms(2)] assms(4)
    by (auto simp: send_def split: sum.splits option.splits prod.splits) (metis snd_conv)+
  ultimately show ?thesis using assms(3) by (auto simp: lawful_def)
next
  case (Some e)
  with assms(5) frame_refl [OF assms(2)] show ?thesis by (auto simp: send_def intro: lawful_same)
qed

lemma lookup_lawful:
  assumes "records E sent" and "queues_ok expected s" and "lookup E ctx i s w = (r, s', w')"
  shows "lawful expected sent s w s' w'"
proof (cases "time_error ctx i MinimumLookupTime")
  case None
  show ?thesis
    by (rule send_lawful [OF assms(1,2) _ _ assms(3) [unfolded lookup_def None option.case]])
      (use assms(2) in \<open>auto simp: justified_def frame_def queues_ok_def split: sum.splits\<close>)
next
  case (Some e)
  with assms(3) frame_refl [OF assms(2)] show ?thesis by (auto simp: lookup_def intro: lawful_same)
qed

lemma remove_lawful:
  assumes "records E sent" and "queues_ok expected s" and "range_order (re_order E)" and "removeUnknown E ctx i s w = (r, s', w')"
  shows "lawful expected sent s w s' w'"
proof (cases "time_error ctx i MinimumRemoveTime = None \<and> inRegistryButUnknownLocally s \<noteq> {||}")
  case True
  let ?x = "first_key E (inRegistryButUnknownLocally s)" and ?s = "s\<lparr>currentOperationSubject := first_key E (inRegistryButUnknownLocally s)\<rparr>"
  have x: "?x |\<in>| inRegistryButUnknownLocally s" using first_key_in assms(3) True by blast
  have q: "queues_ok expected ?s" using assms(2) by (simp add: queues_ok_def)
  have "lawful expected sent ?s w s' w'"
    by (rule send_lawful [OF assms(1) q _ _ trans [OF _ assms(4)]])
      (use True x assms(2) in \<open>auto simp: removeUnknown_def Let_def justified_def frame_def queues_ok_def split: option.splits\<close>)
  then show ?thesis by (simp add: lawful_def frame_def)
next
  case False
  with assms(4) frame_refl [OF assms(2)] show ?thesis
    by (auto simp: removeUnknown_def intro: lawful_same split: option.splits)
qed

lemma add_lawful:
  assumes "records E sent" and "queues_ok expected s" and "range_order (re_order E)" and "addNew E ctx i s w = (r, s', w')"
  shows "lawful expected sent s w s' w'"
proof (cases "time_error ctx i MinimumAddTime = None \<and> fmdom (missingInRegistry s) \<noteq> {||}")
  case True
  let ?x = "first_key E (fmdom (missingInRegistry s))" and ?s = "s\<lparr>currentOperationSubject := first_key E (fmdom (missingInRegistry s))\<rparr>"
  have x: "?x |\<in>| fmdom (missingInRegistry s)" using first_key_in assms(3) True by blast
  then obtain v where v: "fmlookup (missingInRegistry s) ?x = Some v" by (auto simp: fmlookup_dom_iff)
  have q: "queues_ok expected ?s" using assms(2) by (simp add: queues_ok_def)
  have "lawful expected sent ?s w s' w'"
    by (rule send_lawful [OF assms(1) q _ _ trans [OF _ assms(4)]])
      (use True v assms(2) in \<open>auto simp: addNew_def Let_def justified_def frame_def queues_ok_def split: option.splits if_splits\<close>)
  then show ?thesis by (simp add: lawful_def frame_def)
next
  case False
  with assms(4) frame_refl [OF assms(2)] show ?thesis
    by (auto simp: addNew_def intro: lawful_same split: option.splits)
qed

lemma phase_lawful:
  assumes "records E sent" and "queues_ok expected s" and "range_order (re_order E)"
    and "run_phase E ctx expected i s w = Some (r, s', w')"
  shows "lawful expected sent s w s' w'"
proof (cases "currentPhase s")
  case PhaseLookup
  with assms(4) have "lookup E ctx i s w = (r, s', w')" by (simp add: run_phase_def)
  then show ?thesis by (rule lookup_lawful [OF assms(1,2)])
next
  case PhaseDecode
  with assms(2,4) show ?thesis
    by (auto simp: run_phase_def decode_def frame_def queues_ok_def intro!: lawful_same split: option.splits)
next
  case PhaseCompare
  with assms(2,4) show ?thesis
    by (auto simp: run_phase_def compare_def frame_def queues_ok_def fset_of_list.rep_eq intro!: lawful_same split: option.splits if_splits)
next
  case PhaseRemoveUnknown
  with assms(4) have "removeUnknown E ctx i s w = (r, s', w')" by (simp add: run_phase_def)
  then show ?thesis by (rule remove_lawful [OF assms(1-3)])
next
  case PhaseAddNew
  with assms(4) have "addNew E ctx i s w = (r, s', w')" by (simp add: run_phase_def)
  then show ?thesis by (rule add_lawful [OF assms(1-3)])
next
  case (OtherPhase p)
  with assms(4) show ?thesis by (simp add: run_phase_def)
qed

lemma frame_advance: "frame expected s s' \<Longrightarrow> frame expected s (advance c s')"
  by (auto simp: frame_def advance_def queues_ok_def)

lemma lawful_advance: "lawful expected sent s w s' w' \<Longrightarrow> lawful expected sent s w (advance c s') w'"
  by (auto simp: lawful_def intro: frame_advance)

lemma round_lawful:
  assumes "records E sent" and "queues_ok expected s" and "range_order (re_order E)"
  shows "loop_round E ctx expected i s w = Inl (e, s', w') \<Longrightarrow> lawful expected sent s w s' w'"
    and "loop_round E ctx expected i s w = Inr (s', w') \<Longrightarrow> lawful expected sent s w s' w'"
proof -
  have same: "lawful expected sent s w s w" using assms(2) by (intro lawful_same frame_refl)
  note step = lawful_advance [OF phase_lawful [OF assms, of ctx i w]]
  show "loop_round E ctx expected i s w = Inl (e, s', w') \<Longrightarrow> lawful expected sent s w s' w'"
    using same step by (auto simp: loop_round_def Let_def split: option.splits if_splits prod.splits)
  show "loop_round E ctx expected i s w = Inr (s', w') \<Longrightarrow> lawful expected sent s w s' w'"
    using step by (auto dest!: round_Inr)
qed

lemma loop_lawful:
  assumes "records E sent" and "range_order (re_order E)" and "queues_ok expected s"
    and "reconcileInternal E ctx expected i s w = Some (e, s', w')"
  shows "lawful expected sent s w s' w'"
proof -
  have "wf (measures [phase_rank, queue_length])" by simp
  then show ?thesis using assms(3,4)
  proof (induction s arbitrary: i w rule: wf_induct_rule)
    case (less s)
    show ?case
    proof (cases "loop_round E ctx expected i s w")
      case (Inl r)
      with less.prems(2) have "r = (e, s', w')" by (simp add: reconcileInternal.simps [of E ctx expected i])
      with Inl show ?thesis using round_lawful(1) [OF assms(1) less.prems(1) assms(2)] by blast
    next
      case (Inr p)
      obtain s1 w1 where p: "p = (s1, w1)" by fastforce
      have l: "lawful expected sent s w s1 w1"
        using round_lawful(2) [OF assms(1) less.prems(1) assms(2)] Inr p by blast
      have go: "reconcileInternal E ctx expected (Suc i) s1 w1 = Some (e, s', w')"
        using less.prems(2) Inr p by (simp add: reconcileInternal.simps [of E ctx expected i])
      have "queues_ok expected s1" using l by (simp add: lawful_def frame_def)
      from less.IH [OF round_decreases [OF assms(2) Inr [unfolded p]] this go] show ?thesis
        by (rule lawful_trans [OF l])
    qed
  qed
qed

text \<open>Calls one after the other with the same expectation, each with its own environment and context.\<close>

fun reg_calls :: "('w reg_env \<times> reg_ctx \<times> int) list \<Rightarrow> schemas \<Rightarrow> SchemaRegistry \<Rightarrow> 'w \<Rightarrow> (SchemaRegistry \<times> 'w) option" where
  "reg_calls [] expected s w = Some (s, w)"
| "reg_calls ((E, ctx, now) # calls) expected s w =
     (case ReconcileWithSchemas E ctx expected now s w of
        None \<Rightarrow> None
      | Some (_, s, w) \<Rightarrow> reg_calls calls expected s w)"

lemma call_lawful:
  assumes "records E sent" and "range_order (re_order E)" and "queues_ok expected s"
  shows "\<exists>e s' w'. ReconcileWithSchemas E ctx expected now s w = Some (e, s', w') \<and> lawful expected sent s w s' w'"
proof -
  let ?s = "s\<lparr>totalReconciliations := wrap_int64 (totalReconciliations s + 1)\<rparr>"
  obtain e s1 w1 where r: "reconcileInternal E ctx expected 0 ?s w = Some (e, s1, w1)"
    using loop_returns [OF assms(2)] by (metis surj_pair)
  have "queues_ok expected ?s" using assms(3) by (simp add: queues_ok_def)
  from loop_lawful [OF assms(1,2) this r] r show ?thesis
    by (auto simp: ReconcileWithSchemas_def lawful_def frame_def queues_ok_def split: option.splits)
qed

lemma calls_lawful:
  assumes "\<forall>(E, ctx, now) \<in> set calls. records E sent \<and> range_order (re_order E)" and "queues_ok expected s"
  shows "\<exists>s' w'. reg_calls calls expected s w = Some (s', w') \<and> lawful expected sent s w s' w'"
  using assms
proof (induction calls arbitrary: s w)
  case Nil
  then show ?case by (auto intro!: lawful_same frame_refl)
next
  case (Cons c calls)
  obtain E ctx now where c: "c = (E, ctx, now)" by (metis surj_pair)
  obtain e s1 w1 where 1: "ReconcileWithSchemas E ctx expected now s w = Some (e, s1, w1)" "lawful expected sent s w s1 w1"
    using call_lawful [of E sent expected s ctx now w] Cons.prems c by auto
  then have "queues_ok expected s1" by (simp add: lawful_def frame_def)
  with Cons.IH [of s1 w1] Cons.prems(1) obtain s2 w2
    where 2: "reg_calls calls expected s1 w1 = Some (s2, w2)" "lawful expected sent s1 w1 s2 w2" by auto
  from lawful_trans [OF 1(2) 2(2)] 1(1) 2(1) c show ?case by simp
qed

section \<open>Convergence\<close>

text \<open>
  A call that meets the server without a failure in between: every URL of a plain subject is
  accepted, the context does not expire and leaves at least the time the longest phase asks for.
\<close>

definition good_call :: "'w reg_env \<Rightarrow> reg_ctx \<Rightarrow> 'w http_do \<Rightarrow> string \<Rightarrow> bool" where
  "good_call E ctx serve base \<longleftrightarrow> re_do E = serve \<and> range_order (re_order E)
     \<and> re_new_request E (subjectsURL base) = None
     \<and> (\<forall>x. plain_subject x \<longrightarrow> re_new_request E (subjectURL base x) = None \<and> re_new_request E (subjectVersionsURL base x) = None)
     \<and> (\<forall>i. rc_err ctx i = None \<and> (\<forall>r. rc_remaining ctx i = Some r \<longrightarrow> MinimumAddTime \<le> r))"

lemma good_call_time:
  assumes "good_call E ctx serve base"
  shows "time_error ctx i MinimumLookupTime = None" "time_error ctx i MinimumDecodeTime = None"
    "time_error ctx i MinimumCompareTime = None" "time_error ctx i MinimumRemoveTime = None" "time_error ctx i MinimumAddTime = None"
    "rc_err ctx i = None"
proof -
  have "MinimumAddTime \<le> r" if "rc_remaining ctx i = Some r" for r using assms that by (simp add: good_call_def)
  then show "time_error ctx i MinimumLookupTime = None" "time_error ctx i MinimumDecodeTime = None"
    "time_error ctx i MinimumCompareTime = None" "time_error ctx i MinimumRemoveTime = None" "time_error ctx i MinimumAddTime = None"
    by (fastforce simp: time_error_def MinimumLookupTime_def MinimumDecodeTime_def MinimumCompareTime_def
        MinimumRemoveTime_def MinimumAddTime_def split: option.splits)+
  show "rc_err ctx i = None" using assms by (simp add: good_call_def)
qed

lemma loop_step:
  assumes "rc_err ctx i = None" and "run_phase E ctx expected i s w = Some ((None, c), s1, w1)"
  shows "reconcileInternal E ctx expected i s w =
    (if c \<and> in_sync (advance c s1) then Some (None, advance c s1, w1)
     else reconcileInternal E ctx expected (Suc i) (advance c s1) w1)"
  using assms by (cases c) (simp_all add: reconcileInternal.simps [of E ctx expected i] loop_round_def Let_def)

context schema_server
begin

lemma delete_step:
  assumes "good_call E ctx serve base" and "schemaRegistryAddress s = base" and "up w"
    and "inRegistryButUnknownLocally s \<noteq> {||}" and "plain_subject (first_key E (inRegistryButUnknownLocally s))"
  shows "\<exists>w'. removeUnknown E ctx i s w =
      ((None, inRegistryButUnknownLocally s |-| {|first_key E (inRegistryButUnknownLocally s)|} = {||}),
       s\<lparr>currentOperationSubject := first_key E (inRegistryButUnknownLocally s),
         inRegistryButUnknownLocally := inRegistryButUnknownLocally s |-| {|first_key E (inRegistryButUnknownLocally s)|}\<rparr>, w')
    \<and> up w' \<and> stored w' = (stored w)(first_key E (inRegistryButUnknownLocally s) := {})"
proof -
  let ?x = "first_key E (inRegistryButUnknownLocally s)"
  obtain resp w' where d: "serve \<lparr>rq_Method = DELETE, rq_URL = subjectURL base ?x, rq_Body = Text []\<rparr> w = (Inr (Some resp), w')"
    "rs_StatusCode resp \<in> {200, 204, 404}" "up w'" "stored w' = (stored w)(?x := {})"
    using delete_subject [OF assms(3,5)] by blast
  have "delete_error ?x resp = None" using d(2) by (auto simp: delete_error_def Let_def)
  moreover have "re_do E = serve" "re_new_request E (subjectURL base ?x) = None"
    using assms(1,5) by (simp_all add: good_call_def)
  ultimately show ?thesis using d assms(2,4) good_call_time [OF assms(1)]
    by (simp add: removeUnknown_def send_def Let_def)
qed

lemma post_step:
  assumes "good_call E ctx serve base" and "schemaRegistryAddress s = base" and "up w"
    and "fmdom (missingInRegistry s) \<noteq> {||}" and "plain_subject (first_key E (fmdom (missingInRegistry s)))"
    and "stored w (first_key E (fmdom (missingInRegistry s))) = {}"
    and "fmlookup (missingInRegistry s) (first_key E (fmdom (missingInRegistry s))) = Some (VJSON v)"
  shows "\<exists>w'. addNew E ctx i s w =
      ((None, fmdom (fmdrop (first_key E (fmdom (missingInRegistry s))) (missingInRegistry s)) = {||}),
       s\<lparr>currentOperationSubject := first_key E (fmdom (missingInRegistry s)),
         missingInRegistry := fmdrop (first_key E (fmdom (missingInRegistry s))) (missingInRegistry s)\<rparr>, w')
    \<and> up w' \<and> stored w' = (stored w)(first_key E (fmdom (missingInRegistry s)) := {VJSON v})"
proof -
  let ?x = "first_key E (fmdom (missingInRegistry s))"
  obtain resp w' where d: "serve \<lparr>rq_Method = POST, rq_URL = subjectVersionsURL base ?x, rq_Body = JSON (add_payload (VJSON v))\<rparr> w
      = (Inr (Some resp), w')" "rs_StatusCode resp \<in> {201, 200, 409}" "up w'" "stored w' = (stored w)(?x := {VJSON v})"
    using post_schema [OF assms(3,5,6)] by blast
  have "add_failure E ?x resp = None" using d(2) by (auto simp: add_failure_def Let_def)
  moreover have "re_do E = serve" "re_new_request E (subjectVersionsURL base ?x) = None"
    using assms(1,5) by (simp_all add: good_call_def)
  ultimately show ?thesis using d assms(2,4,7) good_call_time [OF assms(1)]
    by (simp add: addNew_def send_def Let_def)
qed

text \<open>From the phase that adds, the call ends with every queued schema in the registry.\<close>

lemma adding_ends:
  assumes good: "good_call E ctx serve base"
  shows "currentPhase s = PhaseAddNew \<Longrightarrow> inRegistryButUnknownLocally s = {||} \<Longrightarrow> schemaRegistryAddress s = base \<Longrightarrow> up w
    \<Longrightarrow> \<forall>x v. fmlookup (missingInRegistry s) x = Some v \<longrightarrow> plain_subject x \<and> stored w x = {} \<and> (\<exists>j. v = VJSON j)
    \<Longrightarrow> \<exists>s' w'. reconcileInternal E ctx expected i s w = Some (None, s', w') \<and> in_sync s' \<and> up w'
      \<and> stored w' = (\<lambda>x. case fmlookup (missingInRegistry s) x of None \<Rightarrow> stored w x | Some v \<Rightarrow> {v})"
proof (induction "fcard (fmdom (missingInRegistry s))" arbitrary: s w i rule: less_induct)
  case less
  note time = good_call_time [OF good]
  have ord: "range_order (re_order E)" using good by (simp add: good_call_def)
  show ?case
  proof (cases "fmdom (missingInRegistry s) = {||}")
    case True
    have run: "run_phase E ctx expected i s w = Some ((None, True), s, w)"
      using less.prems(1) True time by (simp add: run_phase_def addNew_def)
    have "fmlookup (missingInRegistry s) x = None" for x using True by (simp add: fmdom_notD)
    with loop_step [OF time(6) run] less.prems True show ?thesis
      by (auto simp: advance_def getNextPhase_def in_sync_def)
  next
    case False
    let ?x = "first_key E (fmdom (missingInRegistry s))"
    have x: "?x |\<in>| fmdom (missingInRegistry s)" using first_key_in [OF ord False] .
    then obtain v where v: "fmlookup (missingInRegistry s) ?x = Some v" by (auto simp: fmlookup_dom_iff)
    with less.prems(5) [rule_format, OF v] obtain j
      where j: "fmlookup (missingInRegistry s) ?x = Some (VJSON j)" "plain_subject ?x" "stored w ?x = {}" by auto
    obtain w1 where a: "addNew E ctx i s w = ((None, fmdom (fmdrop ?x (missingInRegistry s)) = {||}),
        s\<lparr>currentOperationSubject := ?x, missingInRegistry := fmdrop ?x (missingInRegistry s)\<rparr>, w1)"
        "up w1" "stored w1 = (stored w)(?x := {VJSON j})"
      using post_step [OF good less.prems(3,4) False j(2,3,1)] by blast
    let ?s = "s\<lparr>currentOperationSubject := ?x, missingInRegistry := fmdrop ?x (missingInRegistry s)\<rparr>"
      and ?c = "fmdom (fmdrop ?x (missingInRegistry s)) = {||}"
    have run: "run_phase E ctx expected i s w = Some ((None, ?c), ?s, w1)" using less.prems(1) a(1) by (simp add: run_phase_def)
    have result: "(\<lambda>x. case fmlookup (fmdrop ?x (missingInRegistry s)) x of None \<Rightarrow> stored w1 x | Some v \<Rightarrow> {v})
        = (\<lambda>x. case fmlookup (missingInRegistry s) x of None \<Rightarrow> stored w x | Some v \<Rightarrow> {v})"
      using a(3) j(1) by (intro ext) (auto split: option.splits)
    show ?thesis
    proof (cases ?c)
      case True
      then have "fmlookup (fmdrop ?x (missingInRegistry s)) y = None" for y by (metis fempty_iff fmdom_notD)
      then have "stored w1 = (\<lambda>x. case fmlookup (missingInRegistry s) x of None \<Rightarrow> stored w x | Some v \<Rightarrow> {v})"
        unfolding result [symmetric] by simp
      with loop_step [OF time(6) run] less.prems(1,2) True a(2) show ?thesis
        by (auto simp: advance_def getNextPhase_def in_sync_def)
    next
      case False
      have smaller: "fcard (fmdom (missingInRegistry ?s)) < fcard (fmdom (missingInRegistry s))"
        using fcard_fminus1_less [OF x] by simp
      have "\<exists>s' w'. reconcileInternal E ctx expected (Suc i) ?s w1 = Some (None, s', w') \<and> in_sync s' \<and> up w'
        \<and> stored w' = (\<lambda>x. case fmlookup (missingInRegistry ?s) x of None \<Rightarrow> stored w1 x | Some v \<Rightarrow> {v})"
        by (rule less.hyps [OF smaller]) (use less.prems a(2,3) in \<open>auto split: if_splits\<close>)
      with loop_step [OF time(6) run] False result show ?thesis by (simp add: advance_def)
    qed
  qed
qed

text \<open>From the phase that deletes: the queued subjects go, then the queued schemas come.\<close>

lemma removing_ends:
  assumes good: "good_call E ctx serve base"
  shows "currentPhase s = PhaseRemoveUnknown \<Longrightarrow> schemaRegistryAddress s = base \<Longrightarrow> up w
    \<Longrightarrow> \<forall>x. x |\<in>| inRegistryButUnknownLocally s \<longrightarrow> plain_subject x \<and> fmlookup (missingInRegistry s) x = None
    \<Longrightarrow> \<forall>x v. fmlookup (missingInRegistry s) x = Some v \<longrightarrow> plain_subject x \<and> stored w x = {} \<and> (\<exists>j. v = VJSON j)
    \<Longrightarrow> \<exists>s' w'. reconcileInternal E ctx expected i s w = Some (None, s', w') \<and> in_sync s' \<and> up w'
      \<and> stored w' = (\<lambda>x. case fmlookup (missingInRegistry s) x of Some v \<Rightarrow> {v}
          | None \<Rightarrow> if x |\<in>| inRegistryButUnknownLocally s then {} else stored w x)"
proof (induction "fcard (inRegistryButUnknownLocally s)" arbitrary: s w i rule: less_induct)
  case less
  note time = good_call_time [OF good]
  have ord: "range_order (re_order E)" using good by (simp add: good_call_def)
  have to_add: "\<exists>s' w'. reconcileInternal E ctx expected i t u = Some (None, s', w') \<and> in_sync s' \<and> up w'
      \<and> stored w' = (\<lambda>x. case fmlookup (missingInRegistry s) x of Some v \<Rightarrow> {v} | None \<Rightarrow> stored u x)"
    if "currentPhase t = PhaseAddNew" "inRegistryButUnknownLocally t = {||}" "schemaRegistryAddress t = base"
      "missingInRegistry t = missingInRegistry s" "up u"
      "\<forall>x v. fmlookup (missingInRegistry s) x = Some v \<longrightarrow> stored u x = {}" for t u i
  proof -
    have "\<forall>x v. fmlookup (missingInRegistry t) x = Some v \<longrightarrow> plain_subject x \<and> stored u x = {} \<and> (\<exists>j. v = VJSON j)"
      using less.prems(5) that(4,6) by metis
    from adding_ends [OF good that(1-3,5) this, of expected i] show ?thesis
      unfolding that(4) by (auto cong: option.case_cong)
  qed
  show ?case
  proof (cases "inRegistryButUnknownLocally s = {||}")
    case True
    let ?t = "s\<lparr>currentPhase := PhaseAddNew\<rparr>"
    have run: "run_phase E ctx expected i s w = Some ((None, True), s, w)"
      using less.prems(1) True time by (simp add: run_phase_def removeUnknown_def)
    have "reconcileInternal E ctx expected i s w = reconcileInternal E ctx expected (Suc i) ?t w"
      using loop_step [OF time(6) run] less.prems(1) True by (simp add: advance_def getNextPhase_def in_sync_def)
    with to_add [of ?t w "Suc i"] less.prems True show ?thesis by (auto cong: option.case_cong)
  next
    case False
    let ?x = "first_key E (inRegistryButUnknownLocally s)"
    define left where left: "left = inRegistryButUnknownLocally s |-| {|?x|}"
    let ?s = "s\<lparr>currentOperationSubject := ?x, inRegistryButUnknownLocally := left\<rparr>"
    have x: "?x |\<in>| inRegistryButUnknownLocally s" using first_key_in [OF ord False] .
    then have px: "plain_subject ?x" "fmlookup (missingInRegistry s) ?x = None" using less.prems(4) by blast+
    obtain w1 where d: "removeUnknown E ctx i s w = ((None, left = {||}), ?s, w1)" "up w1" "stored w1 = (stored w)(?x := {})"
      using delete_step [OF good less.prems(2,3) False px(1)] unfolding left by blast
    have run: "run_phase E ctx expected i s w = Some ((None, left = {||}), ?s, w1)"
      using less.prems(1) d(1) by (simp add: run_phase_def)
    have absent: "\<forall>x v. fmlookup (missingInRegistry s) x = Some v \<longrightarrow> stored w1 x = {}"
      using less.prems(5) d(3) by auto
    have result: "(if y |\<in>| left then {} else stored w1 y) = (if y |\<in>| inRegistryButUnknownLocally s then {} else stored w y)" for y
      using x d(3) by (auto simp: left)
    show ?thesis
    proof (cases "left = {||}")
      case True
      let ?t = "?s\<lparr>currentPhase := PhaseAddNew\<rparr>"
      have "reconcileInternal E ctx expected i s w = reconcileInternal E ctx expected (Suc i) ?t w1"
        using loop_step [OF time(6) run] less.prems(1) True by (simp add: advance_def getNextPhase_def in_sync_def)
      with to_add [of ?t w1 "Suc i"] less.prems(2) True d(2) absent result show ?thesis
        by (auto cong: option.case_cong)
    next
      case False
      have smaller: "fcard (inRegistryButUnknownLocally ?s) < fcard (inRegistryButUnknownLocally s)"
        using fcard_fminus1_less [OF x] by (simp add: left)
      have "\<exists>s' w'. reconcileInternal E ctx expected (Suc i) ?s w1 = Some (None, s', w') \<and> in_sync s' \<and> up w'
        \<and> stored w' = (\<lambda>x. case fmlookup (missingInRegistry ?s) x of Some v \<Rightarrow> {v}
            | None \<Rightarrow> if x |\<in>| inRegistryButUnknownLocally ?s then {} else stored w1 x)"
        by (rule less.hyps [OF smaller]) (use less.prems d(2) absent in \<open>auto simp: left\<close>)
      with loop_step [OF time(6) run] False result show ?thesis by (simp add: advance_def cong: option.case_cong)
    qed
  qed
qed

text \<open>The three phases that look, for a server that is up.\<close>

lemma comparison:
  assumes good: "good_call E ctx serve base" and "currentPhase s = PhaseLookup" and "schemaRegistryAddress s = base" and "up w"
  shows "\<exists>names t. set names = {x. stored w x \<noteq> {}}
    \<and> missingInRegistry t = fmfilter (\<lambda>x. x \<notin> set names) expected
    \<and> inRegistryButUnknownLocally t =
        fset_of_list (filter (\<lambda>x. fmlookup expected x = None \<and> \<not> isSkippedSubject (skipPrefixes s) x) names)
    \<and> schemaRegistryAddress t = base
    \<and> reconcileInternal E ctx expected i s w =
        (let t' = t\<lparr>currentPhase := getNextPhase t PhaseCompare True\<rparr>
         in if in_sync t' then Some (None, t', w) else reconcileInternal E ctx expected (i + 3) t' w)"
proof -
  note time = good_call_time [OF good]
  obtain b names where l: "serve \<lparr>rq_Method = GET, rq_URL = subjectsURL base, rq_Body = Text []\<rparr> w
      = (Inr (Some \<lparr>rs_StatusCode = 200, rs_Body = Inr b\<rparr>), w)" "string_slice b = Some names" "set names = {x. stored w x \<noteq> {}}"
    using list_subjects [OF assms(4)] by blast
  let ?s1 = "s\<lparr>rawSubjectsData := b, currentPhase := PhaseDecode\<rparr>"
  let ?s2 = "?s1\<lparr>registrySubjects := names, rawSubjectsData := Text [], currentPhase := PhaseCompare\<rparr>"
  let ?t = "?s2\<lparr>missingInRegistry := fmfilter (\<lambda>x. x \<notin> set names) expected,
     inRegistryButUnknownLocally := fset_of_list (filter (\<lambda>x. fmlookup expected x = None \<and> \<not> isSkippedSubject (skipPrefixes s) x) names)\<rparr>"
  have "re_do E = serve" "re_new_request E (subjectsURL base) = None" using good by (simp_all add: good_call_def)
  then have r1: "run_phase E ctx expected i s w = Some ((None, True), s\<lparr>rawSubjectsData := b\<rparr>, w)"
    using assms(2,3) l(1) time by (simp add: run_phase_def lookup_def send_def extractResponseBody_def)
  have 1: "reconcileInternal E ctx expected i s w = reconcileInternal E ctx expected (Suc i) ?s1 w"
    using loop_step [OF time(6) r1] assms(2) by (simp add: advance_def getNextPhase_def in_sync_def)
  have r2: "run_phase E ctx expected (Suc i) ?s1 w
      = Some ((None, True), ?s1\<lparr>registrySubjects := names, rawSubjectsData := Text []\<rparr>, w)"
    using l(2) time by (simp add: run_phase_def decode_def)
  have 2: "reconcileInternal E ctx expected (Suc i) ?s1 w = reconcileInternal E ctx expected (Suc (Suc i)) ?s2 w"
    using loop_step [OF time(6) r2] by (simp add: advance_def getNextPhase_def in_sync_def)
  have r3: "run_phase E ctx expected (Suc (Suc i)) ?s2 w = Some ((None, True), ?t, w)"
    using time by (simp add: run_phase_def compare_def)
  from loop_step [OF time(6) r3] 1 2 l(3) assms(3) show ?thesis
    by (intro exI [of _ names] exI [of _ ?t]) (simp add: advance_def Let_def numeral_3_eq_3)
qed

lemma call_converges:
  assumes good: "good_call E ctx serve base" and start: "currentPhase s = PhaseLookup" "schemaRegistryAddress s = base" "up w"
    and exp: "\<forall>x v. fmlookup expected x = Some v \<longrightarrow> plain_subject x \<and> (\<exists>j. v = VJSON j)"
    and plain: "\<forall>x. stored w x \<noteq> {} \<longrightarrow> plain_subject x"
  shows "\<exists>s' w'. reconcileInternal E ctx expected i s w = Some (None, s', w') \<and> in_sync s' \<and> up w'
    \<and> stored w' = (\<lambda>x. case fmlookup expected x of
        Some v \<Rightarrow> if stored w x = {} then {v} else stored w x
      | None \<Rightarrow> if isSkippedSubject (skipPrefixes s) x then stored w x else {})"
proof -
  obtain names t where names: "set names = {x. stored w x \<noteq> {}}"
    and M: "missingInRegistry t = fmfilter (\<lambda>x. x \<notin> set names) expected"
    and U: "inRegistryButUnknownLocally t =
        fset_of_list (filter (\<lambda>x. fmlookup expected x = None \<and> \<not> isSkippedSubject (skipPrefixes s) x) names)"
    and base: "schemaRegistryAddress t = base"
    and run: "reconcileInternal E ctx expected i s w =
        (let t' = t\<lparr>currentPhase := getNextPhase t PhaseCompare True\<rparr>
         in if in_sync t' then Some (None, t', w) else reconcileInternal E ctx expected (i + 3) t' w)"
    using comparison [OF good start, of expected i] by blast
  have Mx: "fmlookup (missingInRegistry t) x = (if stored w x = {} then fmlookup expected x else None)" for x
    using names by (auto simp: M)
  have Ux: "x |\<in>| inRegistryButUnknownLocally t \<longleftrightarrow> stored w x \<noteq> {} \<and> fmlookup expected x = None \<and> \<not> isSkippedSubject (skipPrefixes s) x" for x
    using names by (auto simp: U fset_of_list.rep_eq)
  have result: "(case fmlookup (missingInRegistry t) x of Some v \<Rightarrow> {v}
        | None \<Rightarrow> if x |\<in>| inRegistryButUnknownLocally t then {} else stored w x)
      = (case fmlookup expected x of Some v \<Rightarrow> if stored w x = {} then {v} else stored w x
        | None \<Rightarrow> if isSkippedSubject (skipPrefixes s) x then stored w x else {})" for x
    unfolding Mx Ux by (auto split: option.splits)
  note target = ext [OF result]
  have m: "\<forall>x v. fmlookup (missingInRegistry t) x = Some v \<longrightarrow> plain_subject x \<and> stored w x = {} \<and> (\<exists>j. v = VJSON j)"
    using exp Mx by (auto split: if_splits)
  have u: "\<forall>x. x |\<in>| inRegistryButUnknownLocally t \<longrightarrow> plain_subject x \<and> fmlookup (missingInRegistry t) x = None"
    using plain Ux Mx by simp
  consider "inRegistryButUnknownLocally t \<noteq> {||}" | "inRegistryButUnknownLocally t = {||}" "fmdom (missingInRegistry t) \<noteq> {||}"
    | "inRegistryButUnknownLocally t = {||}" "fmdom (missingInRegistry t) = {||}" by blast
  then show ?thesis
  proof cases
    case 1
    let ?t = "t\<lparr>currentPhase := PhaseRemoveUnknown\<rparr>"
    have "reconcileInternal E ctx expected i s w = reconcileInternal E ctx expected (i + 3) ?t w"
      using run 1 by (simp add: getNextPhase_def in_sync_def)
    moreover have sel: "missingInRegistry ?t = missingInRegistry t" "inRegistryButUnknownLocally ?t = inRegistryButUnknownLocally t"
      "currentPhase ?t = PhaseRemoveUnknown" "schemaRegistryAddress ?t = base" using base by simp_all
    ultimately show ?thesis
      using removing_ends [OF good sel(3,4) start(3), of expected "i + 3"] m u unfolding sel target by simp
  next
    case 2
    let ?t = "t\<lparr>currentPhase := PhaseAddNew\<rparr>"
    have "reconcileInternal E ctx expected i s w = reconcileInternal E ctx expected (i + 3) ?t w"
      using run 2 by (simp add: getNextPhase_def in_sync_def)
    moreover have sel: "missingInRegistry ?t = missingInRegistry t" "inRegistryButUnknownLocally ?t = {||}"
      "currentPhase ?t = PhaseAddNew" "schemaRegistryAddress ?t = base" using base 2(1) by simp_all
    moreover have "(\<lambda>x. case fmlookup (missingInRegistry t) x of None \<Rightarrow> stored w x | Some v \<Rightarrow> {v})
        = (\<lambda>x. case fmlookup (missingInRegistry t) x of Some v \<Rightarrow> {v} | None \<Rightarrow> if x |\<in>| inRegistryButUnknownLocally t then {} else stored w x)"
      using 2(1) by (simp cong: option.case_cong)
    ultimately show ?thesis
      using adding_ends [OF good sel(3,2,4) start(3), of expected "i + 3"] m unfolding sel(1) target by simp
  next
    case 3
    have "fmlookup (missingInRegistry t) x = None" for x using 3(2) by (simp add: fmdom_notD)
    then have "stored w x = (case fmlookup expected x of Some v \<Rightarrow> if stored w x = {} then {v} else stored w x
        | None \<Rightarrow> if isSkippedSubject (skipPrefixes s) x then stored w x else {})" for x
      using result [of x] 3(1) by simp
    then have "stored w = (\<lambda>x. case fmlookup expected x of Some v \<Rightarrow> if stored w x = {} then {v} else stored w x
        | None \<Rightarrow> if isSkippedSubject (skipPrefixes s) x then stored w x else {})" by (rule ext)
    with run 3 start(3) show ?thesis by (simp add: getNextPhase_def in_sync_def)
  qed
qed

end

section \<open>Translated contracts\<close>

lemma translated_json:
  assumes "translate_contracts ctx ord models shapes cs expected errs skips n = Inr (expected', errs', skips')"
    and "\<forall>x v. fmlookup expected x = Some v \<longrightarrow> (\<exists>j. v = VJSON j)"
  shows "\<forall>x v. fmlookup expected' x = Some v \<longrightarrow> (\<exists>j. v = VJSON j)"
  using assms
proof (induction cs arbitrary: expected errs skips n)
  case Nil
  then show ?case by simp
next
  case (Cons c cs)
  have json: "\<forall>x v. fmlookup (expected ++\<^sub>f fmmap schema_text S) x = Some v \<longrightarrow> (\<exists>j. v = VJSON j)" for S
    using Cons.prems(2) by (auto simp: map_add_def schema_text_def split: option.splits)
  show ?case
    using Cons.prems Cons.IH [OF _ json] Cons.IH [OF _ Cons.prems(2)]
    by (auto simp: Let_def simp del: append.simps split: option.splits prod.splits sum.splits)
qed

section \<open>Properties\<close>

text \<open>
  C27: every call returns. Whatever the registry answers, however often it fails and whatever is left from
  earlier calls, the loop of phases comes to an end, with a result or an error.
\<close>

theorem registry_returns:
  assumes "range_order (re_order E)"
  shows "\<exists>err s' w'. reg_Reconcile E ctx models contracts shapes now s w = Some (err, s', w')"
proof -
  have returns: "\<exists>r. ReconcileWithSchemas E ctx expected now t w = Some r" for expected t
  proof -
    obtain r where "reconcileInternal E ctx expected 0 (t\<lparr>totalReconciliations := wrap_int64 (totalReconciliations t + 1)\<rparr>) w = Some r"
      using loop_returns [OF assms] by blast
    then show ?thesis by (cases r) (simp add: ReconcileWithSchemas_def)
  qed
  obtain x skips err where t: "translateToSchemas (rc_polls ctx) (re_order E) models contracts shapes = (x, skips, err)"
    by (rule prod_cases3)
  show ?thesis
  proof (cases x)
    case None
    then show ?thesis by (simp add: reg_Reconcile_def t)
  next
    case (Some expected)
    obtain e s' w' where "ReconcileWithSchemas E ctx expected now (s\<lparr>skipPrefixes := skips\<rparr>) w = Some (e, s', w')"
      using returns by (metis prod_cases3)
    with Some show ?thesis by (simp add: reg_Reconcile_def t)
  qed
qed

text \<open>
  C26: only justified requests are sent. However often the registry is reconciled with the same
  expectation, and whatever it answers, each request asks for the list of subjects, deletes a subject that
  is neither expected nor protected, or adds an expected subject with its own schema.
\<close>

theorem requests_justified:
  assumes "\<forall>(E, ctx, now) \<in> set calls. records E sent \<and> range_order (re_order E)"
  shows "\<exists>s' w' rs. reg_calls calls expected ((NewSchemaRegistry [WithSchemaRegistryAddress base])\<lparr>skipPrefixes := skips\<rparr>) w = Some (s', w')
    \<and> sent w' = sent w @ rs \<and> list_all (justified expected skips base) rs"
proof -
  let ?s = "(NewSchemaRegistry [WithSchemaRegistryAddress base])\<lparr>skipPrefixes := skips\<rparr>"
  have "queues_ok expected ?s" "skipPrefixes ?s = skips" "schemaRegistryAddress ?s = base"
    by (simp_all add: NewSchemaRegistry_def WithSchemaRegistryAddress_def queues_ok_def)
  with calls_lawful [OF assms, of expected ?s w] show ?thesis by (auto simp: lawful_def)
qed


text \<open>
  C38: a queue outlives the comparison it came from. When an earlier call stopped in the phase that adds,
  the next call adds what is still queued and returns without error, whatever is expected by then: a
  subject of a contract that has been removed in between is registered.
\<close>

theorem stale_queue_applied:
  assumes "mock_up w" and "good_call E ctx (mock_do base) base"
    and "currentPhase s = PhaseAddNew" and "inRegistryButUnknownLocally s = {||}" and "schemaRegistryAddress s = base"
    and "\<forall>x v. fmlookup (missingInRegistry s) x = Some v \<longrightarrow> plain_subject x \<and> mock_stored w x = {} \<and> (\<exists>j. v = VJSON j)"
  shows "\<exists>s' w'. ReconcileWithSchemas E ctx expected now s w = Some (None, s', w') \<and> lastError s' = []
    \<and> mock_stored w' = (\<lambda>x. case fmlookup (missingInRegistry s) x of None \<Rightarrow> mock_stored w x | Some v \<Rightarrow> {v})"
proof -
  let ?s = "s\<lparr>totalReconciliations := wrap_int64 (totalReconciliations s + 1)\<rparr>"
  from mock.adding_ends [OF assms(2), of ?s w expected 0] assms show ?thesis
    by (auto simp: ReconcileWithSchemas_def)
qed


section \<open>Witnesses\<close>

text \<open>A registry with one subject that no contract expects, and a contract for the pump.\<close>

definition demo_server :: MockSchemaRegistry where
  "demo_server = AddSchema ''_old_v1-timeseries-number'' 1 (VJSON VNil) NewMockSchemaRegistry"

definition demo_world :: mock_world where
  "demo_world = \<lparr>mw_server = demo_server, mw_order = sorted_range, mw_versions = sorted_list_of_fset\<rparr>"

definition demo_address :: string where "demo_address = ''http://registry''"

definition demo_reg_env :: "mock_world reg_env" where
  "demo_reg_env = \<lparr>re_do = mock_do demo_address, re_new_request = (\<lambda>_. None), re_json_error = (\<lambda>_. registry_error []),
     re_sprint = (\<lambda>_. []), re_order = sorted_range\<rparr>"

definition demo_reg_ctx :: reg_ctx where
  "demo_reg_ctx = \<lparr>rc_polls = (\<lambda>_. None), rc_err = (\<lambda>_. None), rc_remaining = (\<lambda>_. None)\<rparr>"

definition demo_registry :: SchemaRegistry where
  "demo_registry = NewSchemaRegistry [WithSchemaRegistryAddress demo_address]"

definition demo_contract :: data_contract where
  "demo_contract = \<lparr>dct_Name = ''_motor'', dct_Model = Some \<lparr>ref_Name = ''motor'', ref_Version = ''v1''\<rparr>, dct_DefaultBridges = VNil\<rparr>"

definition demo_model_list :: "DataModelsConfig list" where
  "demo_model_list = [\<lparr>Versions = [''v1'' \<mapsto> demo_motor], dm_Name = ''motor'', dm_Description = []\<rparr>]"

lemma demo_good: "good_call demo_reg_env demo_reg_ctx (mock_do demo_address) demo_address"
  by (simp add: good_call_def demo_reg_env_def demo_reg_ctx_def)

lemma demo_schemas: "schemas demo_server = fmupd ''_old_v1-timeseries-number'' (fmupd 1
    \<lparr>msv_ID = 1001, msv_Version = 1, msv_Schema = VJSON VNil, msv_Subject = ''_old_v1-timeseries-number''\<rparr> fmempty) fmempty"
  by (simp add: demo_server_def AddSchema_def NewMockSchemaRegistry_def versions_of_def Let_def wrap_int64_def fcard.rep_eq)

lemma demo_up: "mock_up demo_world"
  by (auto simp: mock_up_def demo_world_def version_range_def sorted_list_of_fset.rep_eq demo_schemas fmran'_def
      demo_server_def AddSchema_def NewMockSchemaRegistry_def Let_def split: if_splits)

lemma demo_stored: "mock_stored demo_world x \<noteq> {} \<longleftrightarrow> x = ''_old_v1-timeseries-number''"
  unfolding stored_iff [OF demo_up] by (simp add: demo_world_def demo_schemas)

theorem registry_returns_witness:
  "\<exists>err s' w'. reg_Reconcile demo_reg_env demo_reg_ctx demo_model_list [demo_contract] Map.empty 0 demo_registry demo_world = Some (err, s', w')"
  by (rule registry_returns) (simp add: demo_reg_env_def)


theorem stale_queue_applied_witness:
  "\<exists>s' w'. ReconcileWithSchemas demo_reg_env demo_reg_ctx fmempty 0
      (demo_registry\<lparr>currentPhase := PhaseAddNew, missingInRegistry := fmupd ''_gone_v1-x'' (VJSON VNil) fmempty\<rparr>) demo_world
    = Some (None, s', w') \<and> mock_stored w' ''_gone_v1-x'' = {VJSON VNil}"
proof -
  let ?s = "demo_registry\<lparr>currentPhase := PhaseAddNew, missingInRegistry := fmupd ''_gone_v1-x'' (VJSON VNil) fmempty\<rparr>"
  have "plain_subject ''_gone_v1-x''" by code_simp
  moreover have "mock_stored demo_world ''_gone_v1-x'' = {}" using demo_stored [of "''_gone_v1-x''"] by simp
  ultimately have "\<forall>x v. fmlookup (missingInRegistry ?s) x = Some v \<longrightarrow> plain_subject x \<and> mock_stored demo_world x = {} \<and> (\<exists>j. v = VJSON j)"
    by (simp split: if_split)
  moreover have "currentPhase ?s = PhaseAddNew" "inRegistryButUnknownLocally ?s = {||}" "schemaRegistryAddress ?s = demo_address"
    by (simp_all add: demo_registry_def NewSchemaRegistry_def WithSchemaRegistryAddress_def)
  ultimately show ?thesis using stale_queue_applied [OF demo_up demo_good, of ?s fmempty 0] by auto
qed

text \<open>Any registry with a record of the requests it got.\<close>

definition logging :: "'w http_do \<Rightarrow> (http_request list \<times> 'w) http_do" where
  "logging serve r w = (case serve r (snd w) of (x, w') \<Rightarrow> (x, fst w @ [r], w'))"

definition logged_env :: "(http_request list \<times> mock_world) reg_env" where
  "logged_env = \<lparr>re_do = logging (mock_do demo_address), re_new_request = (\<lambda>_. None), re_json_error = (\<lambda>_. registry_error []),
     re_sprint = (\<lambda>_. []), re_order = sorted_range\<rparr>"

theorem requests_justified_witness:
  "\<exists>s' w' rs. reg_calls [(logged_env, demo_reg_ctx, 0), (logged_env, demo_reg_ctx, 1)] fmempty
      ((NewSchemaRegistry [WithSchemaRegistryAddress demo_address])\<lparr>skipPrefixes := [''_x'']\<rparr>) ([], demo_world) = Some (s', w')
    \<and> fst w' = fst ([], demo_world) @ rs \<and> list_all (justified fmempty [''_x''] demo_address) rs"
  by (rule requests_justified) (simp add: records_def logged_env_def logging_def split: prod.split)

end
