(* ===== verification/Persistence.thy ===== *)
theory Persistence
  imports Go_Calls Go_Value
begin

text \<open>
  The document store interface of \<^verbatim>\<open>fsmv2/persistence\<close>: its errors, the query builder, the
  operations a store and its transactions offer, what clients may rely on (the locale
  \<open>document_store\<close>), and the transaction helpers \<^verbatim>\<open>WithTransaction\<close> and
  \<^verbatim>\<open>WithRetry\<close> on top of it.
\<close>

section \<open>Errors and documents\<close>

definition ErrNotFound :: goerror where
  "ErrNotFound = ErrorNew 201 ''document not found''"

definition ErrConflict :: goerror where
  "ErrConflict = ErrorNew 202 ''document conflict''"

text \<open>\<^verbatim>\<open>id, ok := doc["id"].(string); if !ok || id == ""\<close>.\<close>

definition doc_id :: "document \<Rightarrow> string option" where
  "doc_id d = (case str_field d ''id'' of Some i \<Rightarrow> if i = [] then None else Some i | None \<Rightarrow> None)"

section \<open>The query builder\<close>

datatype operator = Eq | Ne | Gt | Gte | Lt | Lte | In | Nin

datatype sort_order = Asc | Desc

record filter_condition =
  fc_Field :: string
  fc_Op :: operator
  fc_Value :: gval

record sort_field =
  sf_Field :: string
  sf_Order :: sort_order

record query =
  q_Filters :: "filter_condition list"
  q_SortBy :: "sort_field list"
  q_LimitCount :: int
  q_SkipCount :: int
  q_MaxFindLimit :: int

definition NewQuery :: query where
  "NewQuery = \<lparr>q_Filters = [], q_SortBy = [], q_LimitCount = 0, q_SkipCount = 0, q_MaxFindLimit = 0\<rparr>"

definition Filter :: "string \<Rightarrow> operator \<Rightarrow> gval \<Rightarrow> query \<Rightarrow> query" where
  "Filter f op v q = q\<lparr>q_Filters := q_Filters q @ [\<lparr>fc_Field = f, fc_Op = op, fc_Value = v\<rparr>]\<rparr>"

definition Sort :: "string \<Rightarrow> sort_order \<Rightarrow> query \<Rightarrow> query" where
  "Sort f order q = q\<lparr>q_SortBy := q_SortBy q @ [\<lparr>sf_Field = f, sf_Order = order\<rparr>]\<rparr>"

definition Limit :: "int \<Rightarrow> query \<Rightarrow> query" where
  "Limit count q = (let count' = (if count < 0 then 0 else count) in q\<lparr>q_LimitCount := count'\<rparr>)"

definition Skip :: "int \<Rightarrow> query \<Rightarrow> query" where
  "Skip count q = (let count' = (if count < 0 then 0 else count) in q\<lparr>q_SkipCount := count'\<rparr>)"

definition WithMaxFindLimit :: "int \<Rightarrow> query \<Rightarrow> query" where
  "WithMaxFindLimit limit q = (let limit' = (if limit < 0 then 0 else limit) in q\<lparr>q_MaxFindLimit := limit'\<rparr>)"

section \<open>Stores and transactions\<close>

text \<open>
  The methods of \<^verbatim>\<open>Store\<close> and \<^verbatim>\<open>Tx\<close> that the code above this layer calls. A store is
  a value of type \<open>'s\<close>; a transaction \<open>'t\<close> is an object beside the store it was begun on.
\<close>

record ('s, 't) store_ops =
  st_Get :: "gcontext \<Rightarrow> string \<Rightarrow> string \<Rightarrow> ('s, document) act"
  st_Insert :: "gcontext \<Rightarrow> string \<Rightarrow> document \<Rightarrow> ('s, string) act"
  st_Update :: "gcontext \<Rightarrow> string \<Rightarrow> string \<Rightarrow> document \<Rightarrow> ('s, unit) act"
  st_Delete :: "gcontext \<Rightarrow> string \<Rightarrow> string \<Rightarrow> ('s, unit) act"
  st_Find :: "map_order \<Rightarrow> gcontext \<Rightarrow> string \<Rightarrow> query \<Rightarrow> ('s, document list) act"
  st_BeginTx :: "gcontext \<Rightarrow> ('s, 't) act"
  st_Close :: "gcontext \<Rightarrow> ('s, unit) act"
  tx_Get :: "gcontext \<Rightarrow> string \<Rightarrow> string \<Rightarrow> ('t \<times> 's, document) act"
  tx_Update :: "gcontext \<Rightarrow> string \<Rightarrow> string \<Rightarrow> document \<Rightarrow> ('t \<times> 's, unit) act"
  tx_Commit :: "('t \<times> 's, unit) act"
  tx_Rollback :: "('t \<times> 's, unit) act"

section \<open>WithTransaction and WithRetry\<close>

text \<open>What a function that works on a transaction does: return nil, return an error, or panic.\<close>

datatype fn_outcome = FnOk | FnErr goerror | FnPanic string

definition WithTransaction ::
  "('s, 't) store_ops \<Rightarrow> gctx \<Rightarrow> ('t \<times> 's \<Rightarrow> fn_outcome \<times> 't \<times> 's) \<Rightarrow> 's \<Rightarrow> fn_outcome \<times> 's" where
  "WithTransaction P ctx fn s =
     (case ctx 0 of
        Some e \<Rightarrow> (FnErr e, s)
      | None \<Rightarrow>
          (case st_BeginTx P (Some ctx) s of
             (Inl e, s1) \<Rightarrow> (FnErr e, s1)
           | (Inr tx, s1) \<Rightarrow>
               (case fn (tx, s1) of
                  (FnPanic p, w) \<Rightarrow> (FnPanic p, snd (snd (tx_Rollback P w)))
                | (FnErr e, w) \<Rightarrow> (FnErr e, snd (snd (tx_Rollback P w)))
                | (FnOk, w) \<Rightarrow>
                    (case ctx 1 of
                       Some e \<Rightarrow> (FnErr e, snd (snd (tx_Rollback P w)))
                     | None \<Rightarrow>
                         (case tx_Commit P w of
                            (Inl e, w') \<Rightarrow> (FnErr e, snd w')
                          | (Inr _, w') \<Rightarrow> (FnOk, snd w'))))))"

text \<open>
  The loop of \<^verbatim>\<open>WithRetry\<close> from an attempt on, with the delays it waits for. Attempt \<open>k\<close> asks
  \<open>ctxs k\<close>, whose question 2 is the \<^verbatim>\<open>select\<close> before it: an error when \<^verbatim>\<open>ctx.Done()\<close> was
  taken and not the timer.
\<close>

function retry_loop ::
  "('s, 't) store_ops \<Rightarrow> (nat \<Rightarrow> gctx) \<Rightarrow> int \<Rightarrow> ('t \<times> 's \<Rightarrow> fn_outcome \<times> 't \<times> 's)
    \<Rightarrow> int \<Rightarrow> int \<Rightarrow> goerror option \<Rightarrow> 's \<Rightarrow> fn_outcome \<times> int list \<times> 's" where
  "retry_loop P ctxs maxRetries fn att backoff lastErr s =
     (if att \<le> maxRetries
      then case (if att > 0 then ctxs (nat att) 2 else None) of
             Some e \<Rightarrow> (FnErr e, [], s)
           | None \<Rightarrow>
               (let waits = (if att > 0 then [backoff] else []);
                    backoff' = (if att > 0 then wrap_int64 (backoff * 2) else backoff)
                in case WithTransaction P (ctxs (nat att)) fn s of
                     (FnOk, s1) \<Rightarrow> (FnOk, waits, s1)
                   | (FnPanic p, s1) \<Rightarrow> (FnPanic p, waits, s1)
                   | (FnErr e, s1) \<Rightarrow>
                       (if \<not> errors_is e ErrConflict then (FnErr e, waits, s1)
                        else case retry_loop P ctxs maxRetries fn (att + 1) backoff' (Some e) s1 of
                               (r, later, s2) \<Rightarrow> (r, waits @ later, s2)))
      else (FnErr (wrapf (''transaction failed after '' @ FormatInt maxRetries @ '' retries: '') lastErr), [], s))"
  by pat_completeness auto
termination
  by (relation "measure (\<lambda>(P, ctxs, maxRetries, fn, att, backoff, lastErr, s). nat (maxRetries + 1 - att))") auto

declare retry_loop.simps [simp del]

definition WithRetry ::
  "('s, 't) store_ops \<Rightarrow> (nat \<Rightarrow> gctx) \<Rightarrow> int \<Rightarrow> ('t \<times> 's \<Rightarrow> fn_outcome \<times> 't \<times> 's)
    \<Rightarrow> 's \<Rightarrow> fn_outcome \<times> int list \<times> 's" where
  "WithRetry P ctxs maxRetries fn s =
     (if maxRetries < 0
      then (FnErr (ErrorNew 203 (''maxRetries must be >= 0, got '' @ FormatInt maxRetries)), [], s)
      else retry_loop P ctxs maxRetries fn 0 10000000 None s)"

section \<open>What a store promises\<close>

text \<open>One document of a store replaced or removed.\<close>

type_synonym docs_view = "string \<Rightarrow> string \<Rightarrow> document option"

definition set_doc :: "docs_view \<Rightarrow> string \<Rightarrow> string \<Rightarrow> document option \<Rightarrow> docs_view" where
  "set_doc D c i v = D(c := (D c)(i := v))"

lemma set_doc_apply: "set_doc D c i v c' i' = (if c' = c \<and> i' = i then v else D c' i')"
  by (simp add: set_doc_def)

lemma set_doc_same [simp]: "set_doc D c i v c i = v"
  and set_doc_other [simp]: "c' \<noteq> c \<Longrightarrow> set_doc D c i v c' = D c'"
  by (simp_all add: set_doc_def)

text \<open>
  A store shows, per collection and identifier, a document; a transaction shows its own view until
  it commits.
\<close>

definition found :: "document option \<Rightarrow> goerror + document" where
  "found r = (case r of None \<Rightarrow> Inl ErrNotFound | Some d \<Rightarrow> Inr d)"

locale document_store =
  fixes P :: "('s, 't) store_ops"
    and docs :: "'s \<Rightarrow> docs_view"
    and tdocs :: "'t \<times> 's \<Rightarrow> docs_view"
    and active :: "'t \<Rightarrow> bool"
  assumes Get: "st_Get P (Some cx) c i s = (found (docs s c i), s)"
    and Insert_new: "doc_id d = Some i \<Longrightarrow> docs s c i = None \<Longrightarrow>
      \<exists>s'. st_Insert P (Some cx) c d s = (Inr i, s') \<and> docs s' = set_doc (docs s) c i (Some d)"
    and Insert_taken: "doc_id d = Some i \<Longrightarrow> docs s c i \<noteq> None \<Longrightarrow>
      \<exists>s'. st_Insert P (Some cx) c d s = (Inl ErrConflict, s') \<and> docs s' = docs s"
    and Update_present: "docs s c i \<noteq> None \<Longrightarrow>
      \<exists>s'. st_Update P (Some cx) c i d s = (Inr (), s') \<and> docs s' = set_doc (docs s) c i (Some d)"
    and Update_missing: "docs s c i = None \<Longrightarrow>
      \<exists>s'. st_Update P (Some cx) c i d s = (Inl ErrNotFound, s') \<and> docs s' = docs s"
    and Delete_present: "docs s c i \<noteq> None \<Longrightarrow>
      \<exists>s'. st_Delete P (Some cx) c i s = (Inr (), s') \<and> docs s' = set_doc (docs s) c i None"
    and Delete_missing: "docs s c i = None \<Longrightarrow>
      \<exists>s'. st_Delete P (Some cx) c i s = (Inl ErrNotFound, s') \<and> docs s' = docs s"
    and Find: "range_order ord \<Longrightarrow>
      (\<exists>is. distinct is \<and> set is = dom (docs s c) \<and> st_Find P ord (Some cx) c NewQuery s = (Inr (map (\<lambda>i. the (docs s c i)) is), s))
      \<or> docs s c = Map.empty \<and> st_Find P ord (Some cx) c NewQuery s = (Inl ErrNotFound, s)"
    and BeginTx: "\<exists>t. st_BeginTx P (Some cx) s = (Inr t, s) \<and> active t \<and> tdocs (t, s) = docs s"
    and tx_Get: "active t \<Longrightarrow> tx_Get P (Some cx) c i (t, s) = (found (tdocs (t, s) c i), (t, s))"
    and tx_Update: "active t \<Longrightarrow> tdocs (t, s) c i \<noteq> None \<Longrightarrow>
      \<exists>t'. tx_Update P (Some cx) c i d (t, s) = (Inr (), (t', s)) \<and> active t'
         \<and> tdocs (t', s) = set_doc (tdocs (t, s)) c i (Some d)"
    and tx_Commit: "active t \<Longrightarrow> \<exists>t' s'. tx_Commit P (t, s) = (Inr (), (t', s')) \<and> docs s' = tdocs (t, s)"
    and tx_Rollback: "snd (snd (tx_Rollback P (t, s))) = s"
begin

text \<open>
  \<^verbatim>\<open>WithTransaction\<close> with a function that works on the transaction only: all of the
  transaction's view or nothing of it reaches the store.
\<close>

lemma WithTransaction_atomic:
  assumes tx_only: "\<And>t s. active t \<Longrightarrow> snd (snd (fn (t, s))) = s \<and> (fst (fn (t, s)) = FnOk \<longrightarrow> active (fst (snd (fn (t, s)))))"
    and run: "WithTransaction P ctx fn s = (r, s')"
  shows "(r \<noteq> FnOk \<and> docs s' = docs s)
    \<or> (\<exists>t t'. r = FnOk \<and> tdocs (t, s) = docs s \<and> fn (t, s) = (FnOk, (t', s)) \<and> docs s' = tdocs (t', s))"
proof (cases "ctx 0")
  case (Some e)
  then show ?thesis using run by (auto simp: WithTransaction_def)
next
  case None
  obtain t where t: "st_BeginTx P (Some ctx) s = (Inr t, s)" "active t" "tdocs (t, s) = docs s"
    using BeginTx by blast
  obtain o' t' where f: "fn (t, s) = (o', (t', s))" and act: "o' = FnOk \<Longrightarrow> active t'"
    using tx_only [OF t(2), of s] by (cases "fn (t, s)") auto
  show ?thesis
  proof (cases "o' = FnOk \<and> ctx 1 = None")
    case True
    obtain t2 s2 where c: "tx_Commit P (t', s) = (Inr (), (t2, s2))" "docs s2 = tdocs (t', s)"
      using tx_Commit [of t' s] act True by blast
    show ?thesis using run True t f c by (auto simp: WithTransaction_def None)
  next
    case False
    then have "r \<noteq> FnOk \<and> s' = s"
      using run t f tx_Rollback [of t' s] None by (auto simp: WithTransaction_def split: fn_outcome.splits option.splits)
    then show ?thesis by blast
  qed
qed

end

section \<open>The attempts of WithRetry\<close>

text \<open>The outcome of attempt \<open>k\<close> when every attempt before it was made and failed.\<close>

primrec attempt_at ::
  "('s, 't) store_ops \<Rightarrow> (nat \<Rightarrow> gctx) \<Rightarrow> ('t \<times> 's \<Rightarrow> fn_outcome \<times> 't \<times> 's) \<Rightarrow> 's \<Rightarrow> nat \<Rightarrow> fn_outcome \<times> 's" where
  "attempt_at P ctxs fn s 0 = WithTransaction P (ctxs 0) fn s"
| "attempt_at P ctxs fn s (Suc k) = WithTransaction P (ctxs (Suc k)) fn (snd (attempt_at P ctxs fn s k))"

definition state_before ::
  "('s, 't) store_ops \<Rightarrow> (nat \<Rightarrow> gctx) \<Rightarrow> ('t \<times> 's \<Rightarrow> fn_outcome \<times> 't \<times> 's) \<Rightarrow> 's \<Rightarrow> nat \<Rightarrow> 's" where
  "state_before P ctxs fn s k = (case k of 0 \<Rightarrow> s | Suc j \<Rightarrow> snd (attempt_at P ctxs fn s j))"

definition cancelled :: "(nat \<Rightarrow> gctx) \<Rightarrow> nat \<Rightarrow> bool" where
  "cancelled ctxs k \<longleftrightarrow> 0 < k \<and> ctxs k 2 \<noteq> None"

fun is_conflict :: "fn_outcome \<Rightarrow> bool" where
  "is_conflict (FnErr e) = errors_is e ErrConflict"
| "is_conflict _ = False"

fun outcome_error :: "fn_outcome \<Rightarrow> goerror option" where
  "outcome_error (FnErr e) = Some e"
| "outcome_error _ = None"

definition retried ::
  "('s, 't) store_ops \<Rightarrow> (nat \<Rightarrow> gctx) \<Rightarrow> ('t \<times> 's \<Rightarrow> fn_outcome \<times> 't \<times> 's) \<Rightarrow> 's \<Rightarrow> nat \<Rightarrow> bool" where
  "retried P ctxs fn s k \<longleftrightarrow> \<not> cancelled ctxs k \<and> is_conflict (fst (attempt_at P ctxs fn s k))"

text \<open>The \<open>k\<close>-th delay: 10 ms doubled \<open>k\<close> times, in 64 bits.\<close>

definition retry_delay :: "nat \<Rightarrow> int" where
  "retry_delay k = wrap_int64 (10000000 * 2 ^ k)"

lemma wrap_int64_double: "wrap_int64 (wrap_int64 x * 2) = wrap_int64 (x * 2)"
proof -
  define y where "y = (x + 2 ^ 63) mod 2 ^ 64"
  have "x + 2 ^ 63 = 2 ^ 64 * ((x + 2 ^ 63) div 2 ^ 64) + y" unfolding y_def by simp
  then have "(y - 2 ^ 63) * 2 + 2 ^ 63 = (x * 2 + 2 ^ 63) + 2 ^ 64 * (- 2 * ((x + 2 ^ 63) div 2 ^ 64))" by algebra
  then have "((y - 2 ^ 63) * 2 + 2 ^ 63) mod 2 ^ 64 = (x * 2 + 2 ^ 63) mod 2 ^ 64" by (simp only: mod_mult_self2)
  then show ?thesis by (simp add: wrap_int64_def y_def)
qed

lemma retry_delay_Suc: "wrap_int64 (retry_delay k * 2) = retry_delay (Suc k)"
  unfolding retry_delay_def wrap_int64_double by (simp add: mult.commute)

lemma retry_delay_0: "retry_delay 0 = 10000000"
  by (simp add: retry_delay_def wrap_int64_def)

lemma retry_delays_snoc: "0 < k \<Longrightarrow> map retry_delay [0..<k - Suc 0] @ [retry_delay (k - Suc 0)] = map retry_delay [0..<k]"
  by (cases k) simp_all

lemma attempt_at_state: "attempt_at P ctxs fn s k = WithTransaction P (ctxs k) fn (state_before P ctxs fn s k)"
  by (cases k) (simp_all add: state_before_def)

lemma state_before_Suc: "state_before P ctxs fn s (Suc k) = snd (attempt_at P ctxs fn s k)"
  by (simp add: state_before_def)

lemma retry_loop_go_on:
  assumes "retried P ctxs fn s k" "int k \<le> n"
  shows "retry_loop P ctxs n fn (int k) (retry_delay (k - 1)) le (state_before P ctxs fn s k) =
    (case retry_loop P ctxs n fn (int (Suc k)) (retry_delay k) (outcome_error (fst (attempt_at P ctxs fn s k))) (state_before P ctxs fn s (Suc k)) of
       (r, later, s2) \<Rightarrow> (r, (if k = 0 then [] else [retry_delay (k - 1)]) @ later, s2))"
proof -
  obtain e s1 where a: "attempt_at P ctxs fn s k = (FnErr e, s1)" "errors_is e ErrConflict"
    using assms(1) by (cases "attempt_at P ctxs fn s k") (auto simp: retried_def elim: is_conflict.elims)
  have c: "(if 0 < k then ctxs k 2 else None) = None" using assms(1) by (auto simp: retried_def cancelled_def)
  have d: "(if 0 < int k then wrap_int64 (retry_delay (k - 1) * 2) else retry_delay (k - 1)) = retry_delay k"
    by (cases k) (simp_all add: retry_delay_Suc)
  have w: "WithTransaction P (ctxs k) fn (state_before P ctxs fn s k) = (FnErr e, s1)"
    using a(1) by (simp only: attempt_at_state)
  have l: "retry_loop P ctxs n fn (int k) (retry_delay (k - 1)) le (state_before P ctxs fn s k) =
    (case retry_loop P ctxs n fn (int k + 1) (retry_delay k) (Some e) s1 of
       (r, later, s2) \<Rightarrow> (r, (if 0 < int k then [retry_delay (k - 1)] else []) @ later, s2))"
    unfolding retry_loop.simps [of P ctxs n fn "int k"] d Let_def using assms(2) a(2) c w by (cases "k = 0") simp_all
  have r: "retry_loop P ctxs n fn (int (Suc k)) (retry_delay k) (outcome_error (fst (attempt_at P ctxs fn s k))) (state_before P ctxs fn s (Suc k))
    = retry_loop P ctxs n fn (int k + 1) (retry_delay k) (Some e) s1"
    by (simp add: state_before_Suc a(1) add.commute del: attempt_at.simps)
  show ?thesis unfolding l r by (simp split: prod.split)
qed

lemma retry_loop_reach:
  assumes "\<forall>j<k. retried P ctxs fn s j" "int k \<le> n + 1"
  shows "retry_loop P ctxs n fn 0 10000000 None s =
    (case retry_loop P ctxs n fn (int k) (retry_delay (k - 1))
            (if k = 0 then None else outcome_error (fst (attempt_at P ctxs fn s (k - 1)))) (state_before P ctxs fn s k) of
       (r, later, s2) \<Rightarrow> (r, map retry_delay [0..<k - 1] @ later, s2))"
  using assms
proof (induction k)
  case 0
  then show ?case by (simp add: retry_delay_0 state_before_def)
next
  case (Suc k)
  have go: "retried P ctxs fn s k" "int k \<le> n" using Suc.prems by auto
  have ih: "retry_loop P ctxs n fn 0 10000000 None s =
    (case retry_loop P ctxs n fn (int k) (retry_delay (k - 1))
            (if k = 0 then None else outcome_error (fst (attempt_at P ctxs fn s (k - 1)))) (state_before P ctxs fn s k) of
       (r, later, s2) \<Rightarrow> (r, map retry_delay [0..<k - 1] @ later, s2))"
    using Suc by simp
  show ?case
    unfolding ih retry_loop_go_on [OF go] by (auto simp: retry_delays_snoc split: prod.split)
qed

lemma retry_loop_stop:
  assumes "\<not> retried P ctxs fn s k" "int k \<le> n"
  shows "retry_loop P ctxs n fn (int k) b le (state_before P ctxs fn s k) =
    (if cancelled ctxs k then (FnErr (the (ctxs k 2)), [], state_before P ctxs fn s k)
     else (fst (attempt_at P ctxs fn s k), if k = 0 then [] else [b], snd (attempt_at P ctxs fn s k)))"
proof (cases "cancelled ctxs k")
  case True
  then show ?thesis using assms(2) by (auto simp: retry_loop.simps [of P ctxs n fn "int k"] cancelled_def)
next
  case False
  then have c: "(if 0 < k then ctxs k 2 else None) = None" by (auto simp: cancelled_def)
  have nc: "\<not> is_conflict (fst (WithTransaction P (ctxs k) fn (state_before P ctxs fn s k)))"
    using False assms(1) by (simp add: retried_def attempt_at_state)
  obtain r s1 where w: "WithTransaction P (ctxs k) fn (state_before P ctxs fn s k) = (r, s1)" by force
  show ?thesis
    unfolding retry_loop.simps [of P ctxs n fn "int k"] using False assms(2) c nc w
    by (cases r; cases "k = 0") (simp_all add: attempt_at_state)
qed

text \<open>
  \<^verbatim>\<open>WithRetry\<close> ends after at most \<^verbatim>\<open>maxRetries + 1\<close> attempts, and which attempt ends it
  is exact. Let \<open>k\<close> be the first attempt that is not followed by another one: every attempt
  before it ran and failed with \<^verbatim>\<open>ErrConflict\<close>. If there is none up to \<^verbatim>\<open>maxRetries\<close>, the
  result wraps the last conflict; if the context was cancelled in the wait before \<open>k\<close>, the
  result is the context's error and attempt \<open>k\<close> is not made; otherwise the result and the state
  are those of attempt \<open>k\<close>. The waits before the attempts are 10 ms, 20 ms, 40 ms and so on.
\<close>

theorem retry_exact:
  assumes "0 \<le> n"
  shows "\<exists>k \<le> Suc (nat n). (\<forall>j<k. retried P ctxs fn s j) \<and> (k \<le> nat n \<longrightarrow> \<not> retried P ctxs fn s k) \<and>
    WithRetry P ctxs n fn s =
      (if k = Suc (nat n)
       then (FnErr (wrapf (''transaction failed after '' @ FormatInt n @ '' retries: '') (outcome_error (fst (attempt_at P ctxs fn s (nat n))))),
             map retry_delay [0..<nat n], snd (attempt_at P ctxs fn s (nat n)))
       else if cancelled ctxs k
       then (FnErr (the (ctxs k 2)), map retry_delay [0..<k - 1], state_before P ctxs fn s k)
       else (fst (attempt_at P ctxs fn s k), map retry_delay [0..<k], snd (attempt_at P ctxs fn s k)))"
proof -
  let ?stop = "\<lambda>k. k = Suc (nat n) \<or> \<not> retried P ctxs fn s k"
  define k where "k = (LEAST k. ?stop k)"
  have stop: "?stop k" unfolding k_def by (rule LeastI [of ?stop "Suc (nat n)"]) simp
  have before: "\<forall>j<k. retried P ctxs fn s j" unfolding k_def using not_less_Least by blast
  have le: "k \<le> Suc (nat n)" unfolding k_def by (rule Least_le) simp
  have run: "WithRetry P ctxs n fn s =
    (case retry_loop P ctxs n fn (int k) (retry_delay (k - 1))
            (if k = 0 then None else outcome_error (fst (attempt_at P ctxs fn s (k - 1)))) (state_before P ctxs fn s k) of
       (r, later, s2) \<Rightarrow> (r, map retry_delay [0..<k - 1] @ later, s2))"
    using assms le retry_loop_reach [OF before, of n] by (simp add: WithRetry_def)
  show ?thesis
  proof (cases "k = Suc (nat n)")
    case True
    have "retry_loop P ctxs n fn (int (Suc (nat n))) b le (snd (attempt_at P ctxs fn s (nat n))) =
      (FnErr (wrapf (''transaction failed after '' @ FormatInt n @ '' retries: '') le), [], snd (attempt_at P ctxs fn s (nat n)))" for b le
      using assms by (simp add: retry_loop.simps [of P ctxs n fn])
    then show ?thesis
      using before le run True by (intro exI [of _ k]) (simp add: state_before_Suc)
  next
    case False
    then have nr: "\<not> retried P ctxs fn s k" and kn: "int k \<le> n" using stop le assms by auto
    show ?thesis
      using before le False nr unfolding run retry_loop_stop [OF nr kn]
      by (intro exI [of _ k]) (auto simp: retry_delays_snoc)
  qed
qed

text \<open>A store whose transactions cannot be begun: the first attempt fails, with no conflict.\<close>

definition broken_store :: "(unit, unit) store_ops" where
  "broken_store = \<lparr>st_Get = \<lambda>_ _ _ s. (Inl ErrNotFound, s), st_Insert = \<lambda>_ _ _ s. (Inl ErrConflict, s),
     st_Update = \<lambda>_ _ _ _ s. (Inl ErrNotFound, s), st_Delete = \<lambda>_ _ _ s. (Inl ErrNotFound, s),
     st_Find = \<lambda>_ _ _ _ s. (Inl ErrNotFound, s), st_BeginTx = \<lambda>_ s. (Inl ErrNotFound, s), st_Close = \<lambda>_ s. (Inr (), s),
     tx_Get = \<lambda>_ _ _ w. (Inl ErrNotFound, w), tx_Update = \<lambda>_ _ _ _ w. (Inl ErrNotFound, w),
     tx_Commit = \<lambda>w. (Inr (), w), tx_Rollback = \<lambda>w. (Inr (), w)\<rparr>"

theorem retry_exact_witness:
  "WithRetry broken_store (\<lambda>_ _. None) 3 (\<lambda>w. (FnOk, w)) () = (FnErr ErrNotFound, [], ())"
proof -
  let ?P = broken_store and ?c = "\<lambda>_ _. None" and ?f = "\<lambda>w. (FnOk, w)"
  have at: "attempt_at ?P ?c ?f () k = (FnErr ErrNotFound, ())" for k
    by (cases k) (simp_all add: WithTransaction_def broken_store_def)
  have nr: "\<not> retried ?P ?c ?f () k" for k
    by (simp add: retried_def at ErrNotFound_def ErrConflict_def del: attempt_at.simps)
  obtain k where "\<forall>j<k. retried ?P ?c ?f () j" and run: "WithRetry ?P ?c 3 ?f () =
      (if k = Suc (nat 3)
       then (FnErr (wrapf (''transaction failed after '' @ FormatInt 3 @ '' retries: '') (outcome_error (fst (attempt_at ?P ?c ?f () (nat 3))))),
             map retry_delay [0..<nat 3], snd (attempt_at ?P ?c ?f () (nat 3)))
       else if cancelled ?c k then (FnErr (the (?c k 2)), map retry_delay [0..<k - 1], state_before ?P ?c ?f () k)
       else (fst (attempt_at ?P ?c ?f () k), map retry_delay [0..<k], snd (attempt_at ?P ?c ?f () k)))"
    using retry_exact [of 3 ?P ?c ?f "()"] by (auto simp del: attempt_at.simps)
  then have k: "k = 0" using nr by (cases k) auto
  show ?thesis unfolding run k at by (simp add: cancelled_def)
qed

end
