(* ===== verification/Memory_Store.thy ===== *)
theory Memory_Store
  imports Persistence
begin

text \<open>
  The in-memory document store (\<^verbatim>\<open>persistence/memory/memory.go\<close>): collections of documents,
  and transactions that buffer their writes until they commit. Documents are values, so the copies
  the code makes on reads and writes are the values themselves; the copies are one level deep, and
  changes that a caller makes inside a nested map or slice of a stored document are outside the
  model. Each operation holds its lock from start to end and is one step.
\<close>

section \<open>The store\<close>

type_synonym collection = "(string, document) fmap"

record mem_store =
  collections :: "(string, collection) fmap"

definition validateContext :: "gcontext \<Rightarrow> goerror option" where
  "validateContext ctx = (if ctx = None then Some (ErrorNew 210 ''context cannot be nil'') else None)"

definition NewInMemoryStore :: mem_store where
  "NewInMemoryStore = \<lparr>collections = fmempty\<rparr>"

text \<open>The verb \<^verbatim>\<open>%q\<close> for a name without characters to escape.\<close>

definition quoted :: "string \<Rightarrow> string" where
  "quoted s = CHR 0x22 # s @ [CHR 0x22]"

text \<open>A method body behind the check of its context.\<close>

definition checking_context :: "gcontext \<Rightarrow> ('s, 'a) act \<Rightarrow> ('s, 'a) act" where
  "checking_context ctx m s = (case validateContext ctx of Some e \<Rightarrow> (Inl e, s) | None \<Rightarrow> m s)"

definition err_no_id :: goerror where
  "err_no_id = ErrorNew 211 ''document must have non-empty 'id' field''"

text \<open>\<^verbatim>\<open>coll, exists := s.collections[c]; if !exists { s.collections[c] = make(...) }\<close>.\<close>

definition ensure_collection :: "string \<Rightarrow> (string, collection) fmap \<Rightarrow> (string, collection) fmap" where
  "ensure_collection c m = (case fmlookup m c of None \<Rightarrow> fmupd c fmempty m | Some _ \<Rightarrow> m)"

definition coll_of :: "(string, collection) fmap \<Rightarrow> string \<Rightarrow> collection" where
  "coll_of m c = (case fmlookup m c of None \<Rightarrow> fmempty | Some x \<Rightarrow> x)"

definition CreateCollection :: "gcontext \<Rightarrow> string \<Rightarrow> (mem_store, unit) act" where
  "CreateCollection ctx name = checking_context ctx (\<lambda>s.
     if fmlookup (collections s) name \<noteq> None
     then (Inl (ErrorNew 212 (''collection '' @ quoted name @ '' already exists'')), s)
     else (Inr (), s\<lparr>collections := fmupd name fmempty (collections s)\<rparr>))"

definition DropCollection :: "gcontext \<Rightarrow> string \<Rightarrow> (mem_store, unit) act" where
  "DropCollection ctx name = checking_context ctx (\<lambda>s.
     if fmlookup (collections s) name = None
     then (Inl (ErrorNew 213 (''collection '' @ quoted name @ '' does not exist'')), s)
     else (Inr (), s\<lparr>collections := fmdrop name (collections s)\<rparr>))"

definition mem_Insert :: "gcontext \<Rightarrow> string \<Rightarrow> document \<Rightarrow> (mem_store, string) act" where
  "mem_Insert ctx c doc = checking_context ctx (\<lambda>s.
     case doc_id doc of
       None \<Rightarrow> (Inl err_no_id, s)
     | Some i \<Rightarrow>
         (let m = ensure_collection c (collections s); coll = coll_of m c; s' = s\<lparr>collections := m\<rparr>
          in if fmlookup coll i \<noteq> None then (Inl ErrConflict, s')
             else (Inr i, s'\<lparr>collections := fmupd c (fmupd i doc coll) m\<rparr>)))"

definition mem_Get :: "gcontext \<Rightarrow> string \<Rightarrow> string \<Rightarrow> (mem_store, document) act" where
  "mem_Get ctx c i = checking_context ctx (\<lambda>s.
     case fmlookup (collections s) c of
       None \<Rightarrow> (Inl ErrNotFound, s)
     | Some coll \<Rightarrow> (case fmlookup coll i of None \<Rightarrow> (Inl ErrNotFound, s) | Some doc \<Rightarrow> (Inr doc, s)))"

definition mem_Update :: "gcontext \<Rightarrow> string \<Rightarrow> string \<Rightarrow> document \<Rightarrow> (mem_store, unit) act" where
  "mem_Update ctx c i doc = checking_context ctx (\<lambda>s.
     let m = ensure_collection c (collections s); coll = coll_of m c; s' = s\<lparr>collections := m\<rparr>
     in if fmlookup coll i = None then (Inl ErrNotFound, s')
        else (Inr (), s'\<lparr>collections := fmupd c (fmupd i doc coll) m\<rparr>))"

definition mem_Delete :: "gcontext \<Rightarrow> string \<Rightarrow> string \<Rightarrow> (mem_store, unit) act" where
  "mem_Delete ctx c i = checking_context ctx (\<lambda>s.
     let m = ensure_collection c (collections s); coll = coll_of m c; s' = s\<lparr>collections := m\<rparr>
     in if fmlookup coll i = None then (Inl ErrNotFound, s')
        else (Inr (), s'\<lparr>collections := fmupd c (fmdrop i coll) m\<rparr>))"

text \<open>The query is not looked at.\<close>

definition mem_Find :: "map_order \<Rightarrow> gcontext \<Rightarrow> string \<Rightarrow> query \<Rightarrow> (mem_store, document list) act" where
  "mem_Find ord ctx c q = checking_context ctx (\<lambda>s.
     case fmlookup (collections s) c of
       None \<Rightarrow> (Inl ErrNotFound, s)
     | Some coll \<Rightarrow> (Inr (range_values ord coll), s))"

definition mem_Maintenance :: "gcontext \<Rightarrow> (mem_store, unit) act" where
  "mem_Maintenance ctx s = (Inr (), s)"

definition mem_Close :: "gcontext \<Rightarrow> (mem_store, unit) act" where
  "mem_Close ctx s = (Inr (), s\<lparr>collections := fmempty\<rparr>)"

section \<open>Transactions\<close>

record mem_tx =
  changes :: "(string, collection) fmap"
  deletes :: "(string, (string, bool) fmap) fmap"
  committed :: bool
  rolledBack :: bool

definition mem_BeginTx :: "gcontext \<Rightarrow> (mem_store, mem_tx) act" where
  "mem_BeginTx ctx = checking_context ctx (\<lambda>s.
     (Inr \<lparr>changes = fmempty, deletes = fmempty, committed = False, rolledBack = False\<rparr>, s))"

definition tx_completed :: "mem_tx \<Rightarrow> bool" where
  "tx_completed tx = (committed tx \<or> rolledBack tx)"

definition err_tx_completed :: goerror where
  "err_tx_completed = ErrorNew 214 ''transaction already completed''"

text \<open>\<^verbatim>\<open>tx.deletes[c] != nil && tx.deletes[c][i]\<close>.\<close>

definition tx_deleted :: "mem_tx \<Rightarrow> string \<Rightarrow> string \<Rightarrow> bool" where
  "tx_deleted tx c i = (case fmlookup (deletes tx) c of None \<Rightarrow> False | Some m \<Rightarrow> fmlookup m i = Some True)"

definition mtx_CreateCollection :: "gcontext \<Rightarrow> string \<Rightarrow> (mem_tx \<times> mem_store, unit) act" where
  "mtx_CreateCollection ctx name w = (case CreateCollection ctx name (snd w) of (r, s) \<Rightarrow> (r, (fst w, s)))"

definition mtx_DropCollection :: "gcontext \<Rightarrow> string \<Rightarrow> (mem_tx \<times> mem_store, unit) act" where
  "mtx_DropCollection ctx name w = (case DropCollection ctx name (snd w) of (r, s) \<Rightarrow> (r, (fst w, s)))"

definition mtx_Insert :: "gcontext \<Rightarrow> string \<Rightarrow> document \<Rightarrow> (mem_tx \<times> mem_store, string) act" where
  "mtx_Insert ctx c doc w = (case w of (tx, s) \<Rightarrow>
     if tx_completed tx then (Inl err_tx_completed, w)
     else case doc_id doc of
       None \<Rightarrow> (Inl err_no_id, w)
     | Some i \<Rightarrow>
         (let m = ensure_collection c (changes tx); tx' = tx\<lparr>changes := m\<rparr>
          in if tx_deleted tx c i then (Inl (ErrorNew 215 ''document was deleted in this transaction''), (tx', s))
             else if fmlookup (coll_of m c) i \<noteq> None then (Inl ErrConflict, (tx', s))
             else (Inr i, (tx'\<lparr>changes := fmupd c (fmupd i doc (coll_of m c)) m\<rparr>, s))))"

definition mtx_Get :: "gcontext \<Rightarrow> string \<Rightarrow> string \<Rightarrow> (mem_tx \<times> mem_store, document) act" where
  "mtx_Get ctx c i w = (case w of (tx, s) \<Rightarrow>
     if tx_completed tx then (Inl err_tx_completed, w)
     else if tx_deleted tx c i then (Inl ErrNotFound, w)
     else case fmlookup (coll_of (changes tx) c) i of
       Some doc \<Rightarrow> (Inr doc, w)
     | None \<Rightarrow> (case mem_Get ctx c i s of (r, s') \<Rightarrow> (r, (tx, s'))))"

definition mtx_Update :: "gcontext \<Rightarrow> string \<Rightarrow> string \<Rightarrow> document \<Rightarrow> (mem_tx \<times> mem_store, unit) act" where
  "mtx_Update ctx c i doc w = (case w of (tx, s) \<Rightarrow>
     if tx_completed tx then (Inl err_tx_completed, w)
     else if tx_deleted tx c i then (Inl ErrNotFound, w)
     else (let m = ensure_collection c (changes tx)
           in (Inr (), (tx\<lparr>changes := fmupd c (fmupd i doc (coll_of m c)) m\<rparr>, s))))"

definition mtx_Delete :: "gcontext \<Rightarrow> string \<Rightarrow> string \<Rightarrow> (mem_tx \<times> mem_store, unit) act" where
  "mtx_Delete ctx c i w = (case w of (tx, s) \<Rightarrow>
     if tx_completed tx then (Inl err_tx_completed, w)
     else (let d = (case fmlookup (deletes tx) c of None \<Rightarrow> fmempty | Some m \<Rightarrow> m);
               tx' = tx\<lparr>deletes := fmupd c (fmupd i True d) (deletes tx)\<rparr>
           in (Inr (), (case fmlookup (changes tx) c of
                          None \<Rightarrow> tx'
                        | Some m \<Rightarrow> tx'\<lparr>changes := fmupd c (fmdrop i m) (changes tx)\<rparr>, s))))"

definition mtx_Find :: "map_order \<Rightarrow> gcontext \<Rightarrow> string \<Rightarrow> query \<Rightarrow> (mem_tx \<times> mem_store, document list) act" where
  "mtx_Find ord ctx c q w = (case mem_Find ord ctx c q (snd w) of (r, s) \<Rightarrow> (r, (fst w, s)))"

definition mtx_Maintenance :: "gcontext \<Rightarrow> (mem_tx \<times> mem_store, unit) act" where
  "mtx_Maintenance ctx w = (Inr (), w)"

definition mtx_BeginTx :: "gcontext \<Rightarrow> (mem_tx \<times> mem_store, mem_tx) act" where
  "mtx_BeginTx ctx w = (Inl (ErrorNew 216 ''nested transactions not supported''), w)"

definition mtx_Close :: "gcontext \<Rightarrow> (mem_tx \<times> mem_store, unit) act" where
  "mtx_Close ctx w = (Inl (ErrorNew 217 ''cannot close transaction''), w)"

text \<open>The two loops of \<^verbatim>\<open>Commit\<close>, in a given order of iteration.\<close>

definition put_docs :: "map_order \<Rightarrow> string \<Rightarrow> collection \<Rightarrow> (string, collection) fmap \<Rightarrow> (string, collection) fmap" where
  "put_docs ord c chg m =
     fold (\<lambda>i m. fmupd c (fmupd i (the (fmlookup chg i)) (coll_of m c)) m) (ord (fmdom chg)) (ensure_collection c m)"

definition drop_docs :: "map_order \<Rightarrow> string \<Rightarrow> (string, bool) fmap \<Rightarrow> (string, collection) fmap \<Rightarrow> (string, collection) fmap" where
  "drop_docs ord c del m =
     fold (\<lambda>i m. fmupd c (fmdrop i (coll_of m c)) m) (ord (fmdom del)) (ensure_collection c m)"

definition apply_tx :: "map_order \<Rightarrow> mem_tx \<Rightarrow> (string, collection) fmap \<Rightarrow> (string, collection) fmap" where
  "apply_tx ord tx m =
     fold (\<lambda>c. drop_docs ord c (the (fmlookup (deletes tx) c))) (ord (fmdom (deletes tx)))
       (fold (\<lambda>c. put_docs ord c (the (fmlookup (changes tx) c))) (ord (fmdom (changes tx))) m)"

definition commit_in :: "map_order \<Rightarrow> (mem_tx \<times> mem_store, unit) act" where
  "commit_in ord w = (case w of (tx, s) \<Rightarrow>
     if committed tx then (Inr (), w)
     else if rolledBack tx then (Inl (ErrorNew 218 ''transaction was rolled back''), w)
     else (Inr (), (tx\<lparr>committed := True\<rparr>, s\<lparr>collections := apply_tx ord tx (collections s)\<rparr>)))"

text \<open>The order does not matter (below), so \<^verbatim>\<open>Commit\<close> is given by one order.\<close>

definition key_order :: map_order where
  "key_order A = sorted_list_of_fset A"

definition mtx_Commit :: "(mem_tx \<times> mem_store, unit) act" where
  "mtx_Commit = commit_in key_order"

definition mtx_Rollback :: "(mem_tx \<times> mem_store, unit) act" where
  "mtx_Rollback w = (case w of (tx, s) \<Rightarrow>
     if rolledBack tx \<or> committed tx then (Inr (), w)
     else (Inr (), (tx\<lparr>rolledBack := True, changes := fmempty, deletes := fmempty\<rparr>, s)))"

definition mem_ops :: "(mem_store, mem_tx) store_ops" where
  "mem_ops = \<lparr>st_Get = mem_Get, st_Insert = mem_Insert, st_Update = mem_Update, st_Delete = mem_Delete,
     st_Find = mem_Find, st_BeginTx = mem_BeginTx, st_Close = mem_Close, tx_Get = mtx_Get, tx_Update = mtx_Update,
     tx_Commit = mtx_Commit, tx_Rollback = mtx_Rollback\<rparr>"

section \<open>What commit writes\<close>

lemma ensure_collection_eq: "ensure_collection c m = fmupd c (coll_of m c) m"
  by (rule fmap_ext) (simp add: ensure_collection_def coll_of_def split: option.split)

lemma coll_of_upd [simp]: "coll_of (fmupd c k m) c' = (if c = c' then k else coll_of m c')"
  by (simp add: coll_of_def)

lemma coll_of_empty [simp]: "coll_of fmempty c = fmempty"
  by (simp add: coll_of_def)

lemma coll_of_ensure [simp]: "coll_of (ensure_collection c m) c' = coll_of m c'"
  by (simp add: ensure_collection_eq)

lemma fold_coll: "fold (\<lambda>i m. fmupd c (f i (coll_of m c)) m) xs (fmupd c k m) = fmupd c (fold f xs k) m"
  by (induction xs arbitrary: k) simp_all

lemma fold_fmupd_lookup: "fmlookup (fold (\<lambda>i. fmupd i (g i)) xs k) j = (if j \<in> set xs then Some (g j) else fmlookup k j)"
  by (induction xs arbitrary: k) auto

lemma fold_fmdrop_lookup: "fmlookup (fold fmdrop xs k) j = (if j \<in> set xs then None else fmlookup k j)"
  by (induction xs arbitrary: k) auto

lemma put_docs_eq:
  assumes "range_order ord"
  shows "put_docs ord c chg m = fmupd c (coll_of m c ++\<^sub>f chg) m"
proof -
  have "fold (\<lambda>i. fmupd i (the (fmlookup chg i))) (ord (fmdom chg)) (coll_of m c) = coll_of m c ++\<^sub>f chg"
    by (rule fmap_ext) (auto simp: fold_fmupd_lookup range_order_set [OF assms] fmlookup_dom_iff)
  then show ?thesis
    using fold_coll [of c "\<lambda>i. fmupd i (the (fmlookup chg i))"] by (simp add: put_docs_def ensure_collection_eq)
qed

lemma drop_docs_eq:
  assumes "range_order ord"
  shows "drop_docs ord c del m = fmupd c (fmdrop_fset (fmdom del) (coll_of m c)) m"
proof -
  have "fold fmdrop (ord (fmdom del)) (coll_of m c) = fmdrop_fset (fmdom del) (coll_of m c)"
    by (rule fmap_ext) (auto simp: fold_fmdrop_lookup range_order_set [OF assms])
  then show ?thesis
    using fold_coll [of c fmdrop] by (simp add: drop_docs_def ensure_collection_eq)
qed

lemma fold_each_coll:
  "distinct xs \<Longrightarrow> fmlookup (fold (\<lambda>c m. fmupd c (g c (coll_of m c)) m) xs m) c =
     (if c \<in> set xs then Some (g c (coll_of m c)) else fmlookup m c)"
  by (induction xs arbitrary: m) auto

lemma apply_tx_lookup:
  assumes "range_order ord"
  shows "fmlookup (apply_tx ord tx m) c =
    (let k = (case fmlookup (changes tx) c of None \<Rightarrow> fmlookup m c | Some chg \<Rightarrow> Some (coll_of m c ++\<^sub>f chg))
     in case fmlookup (deletes tx) c of
          None \<Rightarrow> k
        | Some del \<Rightarrow> Some (fmdrop_fset (fmdom del) (case k of None \<Rightarrow> fmempty | Some x \<Rightarrow> x)))"
proof -
  define k where "k = fold (\<lambda>c m. fmupd c (coll_of m c ++\<^sub>f the (fmlookup (changes tx) c)) m) (ord (fmdom (changes tx))) m"
  note dist = range_order_distinct [OF assms] and keys = range_order_set [OF assms]
  have k: "fmlookup k c = (case fmlookup (changes tx) c of None \<Rightarrow> fmlookup m c | Some chg \<Rightarrow> Some (coll_of m c ++\<^sub>f chg))"
    using fold_each_coll [OF dist, where g = "\<lambda>c x. x ++\<^sub>f the (fmlookup (changes tx) c)"]
    by (auto simp: k_def keys fmlookup_dom_iff split: option.split)
  have ap: "apply_tx ord tx m = fold (\<lambda>c m. fmupd c (fmdrop_fset (fmdom (the (fmlookup (deletes tx) c))) (coll_of m c)) m) (ord (fmdom (deletes tx))) k"
    unfolding apply_tx_def k_def by (simp only: ext [OF put_docs_eq [OF assms]] ext [OF drop_docs_eq [OF assms]])
  have "fmlookup (apply_tx ord tx m) c =
    (case fmlookup (deletes tx) c of None \<Rightarrow> fmlookup k c | Some del \<Rightarrow> Some (fmdrop_fset (fmdom del) (coll_of k c)))"
    using fold_each_coll [OF dist, where g = "\<lambda>c. fmdrop_fset (fmdom (the (fmlookup (deletes tx) c)))"]
    by (auto simp: ap keys fmlookup_dom_iff split: option.split)
  then show ?thesis unfolding Let_def k [symmetric] by (simp add: coll_of_def split: option.split)
qed

text \<open>Any order of iteration over the buffers commits the same store.\<close>

lemma range_key_order: "range_order key_order"
  by (simp add: range_order_def key_order_def sorted_list_of_fset.rep_eq)

lemma commit_order_irrelevant:
  assumes "range_order ord"
  shows "commit_in ord = mtx_Commit"
proof -
  have "apply_tx ord tx m = apply_tx key_order tx m" for tx m
    by (rule fmap_ext) (simp only: apply_tx_lookup [OF assms] apply_tx_lookup [OF range_key_order])
  then show ?thesis by (intro ext) (simp add: commit_in_def mtx_Commit_def split: prod.split)
qed

section \<open>Views\<close>

definition mem_docs :: "mem_store \<Rightarrow> docs_view" where
  "mem_docs s c i = fmlookup (coll_of (collections s) c) i"

definition tx_view :: "mem_tx \<times> mem_store \<Rightarrow> docs_view" where
  "tx_view w c i = (case w of (tx, s) \<Rightarrow>
     if tx_deleted tx c i then None
     else case fmlookup (coll_of (changes tx) c) i of Some d \<Rightarrow> Some d | None \<Rightarrow> mem_docs s c i)"

definition tx_active :: "mem_tx \<Rightarrow> bool" where
  "tx_active tx \<longleftrightarrow> \<not> tx_completed tx \<and> fmpred (\<lambda>c del. fmpred (\<lambda>i b. b) del) (deletes tx)"

lemma tx_deleted_iff: "tx_active tx \<Longrightarrow> tx_deleted tx c i \<longleftrightarrow> (\<exists>del. fmlookup (deletes tx) c = Some del \<and> i |\<in>| fmdom del)"
  by (force simp: tx_deleted_def tx_active_def fmpred_iff fmlookup_dom_iff split: option.splits)

lemma apply_tx_view:
  assumes "tx_active tx"
  shows "mem_docs (s\<lparr>collections := apply_tx key_order tx (collections s)\<rparr>) = tx_view (tx, s)"
proof (intro ext)
  fix c i
  show "mem_docs (s\<lparr>collections := apply_tx key_order tx (collections s)\<rparr>) c i = tx_view (tx, s) c i"
    using tx_deleted_iff [OF assms, of c i]
    by (auto simp: mem_docs_def tx_view_def coll_of_def apply_tx_lookup [OF range_key_order] Let_def
        split: option.splits)
qed

lemma mem_Get_docs: "mem_Get (Some cx) c i s = (found (mem_docs s c i), s)"
  by (simp add: mem_Get_def checking_context_def validateContext_def found_def mem_docs_def coll_of_def split: option.split)

lemma mem_docs_upd:
  "mem_docs (s\<lparr>collections := fmupd c (fmupd i d (coll_of (collections s) c)) m\<rparr>) = set_doc (mem_docs (s\<lparr>collections := m\<rparr>)) c i (Some d)"
  if "coll_of m c = coll_of (collections s) c"
  using that by (intro ext) (auto simp: mem_docs_def set_doc_apply)

lemma mem_docs_drop:
  "mem_docs (s\<lparr>collections := fmupd c (fmdrop i (coll_of (collections s) c)) m\<rparr>) = set_doc (mem_docs (s\<lparr>collections := m\<rparr>)) c i None"
  if "coll_of m c = coll_of (collections s) c"
  using that by (intro ext) (auto simp: mem_docs_def set_doc_apply)

lemma mem_docs_ensure [simp]: "mem_docs (s\<lparr>collections := ensure_collection c (collections s)\<rparr>) = mem_docs s"
  by (intro ext) (simp add: mem_docs_def)

interpretation mem: document_store mem_ops mem_docs tx_view tx_active
proof unfold_locales
  fix cx c i s
  show "st_Get mem_ops (Some cx) c i s = (found (mem_docs s c i), s)"
    by (simp add: mem_ops_def mem_Get_docs)
next
  fix d i s c cx
  assume "doc_id d = Some i" "mem_docs s c i = None"
  moreover from this have "fmlookup (coll_of (collections s) c) i = None" by (simp add: mem_docs_def)
  ultimately show "\<exists>s'. st_Insert mem_ops (Some cx) c d s = (Inr i, s') \<and> mem_docs s' = set_doc (mem_docs s) c i (Some d)"
    by (simp add: mem_ops_def mem_Insert_def checking_context_def validateContext_def mem_docs_upd)
next
  fix d i s c cx
  assume "doc_id d = Some i" "mem_docs s c i \<noteq> None"
  then show "\<exists>s'. st_Insert mem_ops (Some cx) c d s = (Inl ErrConflict, s') \<and> mem_docs s' = mem_docs s"
    by (auto simp: mem_ops_def mem_Insert_def checking_context_def validateContext_def mem_docs_def)
next
  fix s c i cx d
  assume "mem_docs s c i \<noteq> None"
  then have "fmlookup (coll_of (collections s) c) i \<noteq> None" by (simp add: mem_docs_def)
  then show "\<exists>s'. st_Update mem_ops (Some cx) c i d s = (Inr (), s') \<and> mem_docs s' = set_doc (mem_docs s) c i (Some d)"
    by (simp add: mem_ops_def mem_Update_def checking_context_def validateContext_def Let_def mem_docs_upd)
next
  fix s c i cx d
  assume "mem_docs s c i = None"
  then show "\<exists>s'. st_Update mem_ops (Some cx) c i d s = (Inl ErrNotFound, s') \<and> mem_docs s' = mem_docs s"
    by (auto simp: mem_ops_def mem_Update_def checking_context_def validateContext_def mem_docs_def)
next
  fix s c i cx
  assume "mem_docs s c i \<noteq> None"
  then have "fmlookup (coll_of (collections s) c) i \<noteq> None" by (simp add: mem_docs_def)
  then show "\<exists>s'. st_Delete mem_ops (Some cx) c i s = (Inr (), s') \<and> mem_docs s' = set_doc (mem_docs s) c i None"
    by (simp add: mem_ops_def mem_Delete_def checking_context_def validateContext_def Let_def mem_docs_drop)
next
  fix s c i cx
  assume "mem_docs s c i = None"
  then show "\<exists>s'. st_Delete mem_ops (Some cx) c i s = (Inl ErrNotFound, s') \<and> mem_docs s' = mem_docs s"
    by (auto simp: mem_ops_def mem_Delete_def checking_context_def validateContext_def mem_docs_def)
next
  fix ord s c cx
  assume o: "range_order ord"
  show "(\<exists>is. distinct is \<and> set is = dom (mem_docs s c) \<and> st_Find mem_ops ord (Some cx) c NewQuery s = (Inr (map (\<lambda>i. the (mem_docs s c i)) is), s))
      \<or> mem_docs s c = Map.empty \<and> st_Find mem_ops ord (Some cx) c NewQuery s = (Inl ErrNotFound, s)"
  proof (cases "fmlookup (collections s) c")
    case None
    then show ?thesis
      by (auto simp: mem_ops_def mem_Find_def checking_context_def validateContext_def mem_docs_def coll_of_def fun_eq_iff)
  next
    case (Some coll)
    then have k: "mem_docs s c = fmlookup coll" by (intro ext) (simp add: mem_docs_def coll_of_def)
    show ?thesis
      using Some range_order_distinct [OF o] range_order_set [OF o]
      by (intro disjI1 exI [of _ "ord (fmdom coll)"])
        (simp add: k mem_ops_def mem_Find_def checking_context_def validateContext_def range_values_def fmdom'_alt_def)
  qed
next
  fix cx s
  show "\<exists>t. st_BeginTx mem_ops (Some cx) s = (Inr t, s) \<and> tx_active t \<and> tx_view (t, s) = mem_docs s"
    by (auto simp: mem_ops_def mem_BeginTx_def checking_context_def validateContext_def tx_active_def tx_completed_def
        tx_view_def tx_deleted_def fun_eq_iff)
next
  fix t cx c i s
  assume "tx_active t"
  then show "store_ops.tx_Get mem_ops (Some cx) c i (t, s) = (found (tx_view (t, s) c i), (t, s))"
    by (auto simp: mem_ops_def mtx_Get_def tx_active_def tx_view_def mem_Get_docs found_def split: option.splits)
next
  fix t s c i cx d
  assume "tx_active t" "tx_view (t, s) c i \<noteq> None"
  then show "\<exists>t'. store_ops.tx_Update mem_ops (Some cx) c i d (t, s) = (Inr (), (t', s)) \<and> tx_active t'
      \<and> tx_view (t', s) = set_doc (tx_view (t, s)) c i (Some d)"
    by (auto simp: mem_ops_def mtx_Update_def tx_active_def tx_completed_def tx_view_def tx_deleted_def fun_eq_iff set_doc_apply
        split: if_splits)
next
  fix t s
  assume "tx_active t"
  then show "\<exists>t' s'. store_ops.tx_Commit mem_ops (t, s) = (Inr (), (t', s')) \<and> mem_docs s' = tx_view (t, s)"
    by (auto simp: mem_ops_def mtx_Commit_def commit_in_def apply_tx_view tx_active_def tx_completed_def)
next
  fix t s
  show "snd (snd (store_ops.tx_Rollback mem_ops (t, s))) = s"
    by (simp add: mem_ops_def mtx_Rollback_def)
qed

section \<open>Transactions as sequences of writes\<close>

datatype tx_op = OpInsert string document | OpUpdate string string document | OpDelete string string

text \<open>One call on the transaction, and whether it returned without an error.\<close>

fun tx_do :: "gcontext \<Rightarrow> tx_op \<Rightarrow> mem_tx \<times> mem_store \<Rightarrow> bool \<times> mem_tx \<times> mem_store" where
  "tx_do ctx (OpInsert c d) w = (case mtx_Insert ctx c d w of (r, w') \<Rightarrow> (r \<in> range Inr, w'))"
| "tx_do ctx (OpUpdate c i d) w = (case mtx_Update ctx c i d w of (r, w') \<Rightarrow> (r = Inr (), w'))"
| "tx_do ctx (OpDelete c i) w = (case mtx_Delete ctx c i w of (r, w') \<Rightarrow> (r = Inr (), w'))"

text \<open>The calls of a list that returned without an error, and the state after all of them.\<close>

fun tx_run :: "gcontext \<Rightarrow> tx_op list \<Rightarrow> mem_tx \<times> mem_store \<Rightarrow> tx_op list \<times> mem_tx \<times> mem_store" where
  "tx_run ctx [] w = ([], w)"
| "tx_run ctx (op # ops) w =
     (case tx_do ctx op w of (ok, w1) \<Rightarrow>
        case tx_run ctx ops w1 of (ok_ops, w2) \<Rightarrow> (if ok then op # ok_ops else ok_ops, w2))"

text \<open>The writes themselves, on plain documents.\<close>

fun apply_op :: "tx_op \<Rightarrow> docs_view \<Rightarrow> docs_view" where
  "apply_op (OpInsert c d) D = (case doc_id d of None \<Rightarrow> D | Some i \<Rightarrow> set_doc D c i (Some d))"
| "apply_op (OpUpdate c i d) D = set_doc D c i (Some d)"
| "apply_op (OpDelete c i) D = set_doc D c i None"

lemma isr_iff: "(r :: 'a + 'b) \<in> range Inr \<longleftrightarrow> (\<exists>x. r = Inr x)"
  by auto

lemma tx_view_ensure:
  "tx_view (tx\<lparr>changes := ensure_collection c (changes tx)\<rparr>, s) = tx_view (tx, s)"
  by (intro ext) (simp add: tx_view_def tx_deleted_def)

lemma tx_view_put:
  "\<not> tx_deleted tx c i \<Longrightarrow>
   tx_view (tx\<lparr>changes := fmupd c (fmupd i d (coll_of (changes tx) c)) (ensure_collection c (changes tx))\<rparr>, s)
     = set_doc (tx_view (tx, s)) c i (Some d)"
  by (intro ext) (auto simp: tx_view_def tx_deleted_def set_doc_apply)

lemma tx_active_changes [simp]: "tx_active (tx\<lparr>changes := m\<rparr>) = tx_active tx"
  by (simp add: tx_active_def tx_completed_def)

lemma mtx_Delete_view:
  assumes "mtx_Delete ctx c i (tx, s0) = (r, (tx', s1))" "tx_active tx"
  shows "r = Inr () \<and> s1 = s0 \<and> tx_active tx' \<and> tx_view (tx', s) = set_doc (tx_view (tx, s)) c i None"
proof -
  define del where "del = (case fmlookup (deletes tx) c of None \<Rightarrow> fmempty | Some m \<Rightarrow> m)"
  have nc: "\<not> tx_completed tx" and old: "fmpred (\<lambda>c. fmpred (\<lambda>i b. b)) (deletes tx)"
    using assms(2) by (simp_all add: tx_active_def)
  have rs: "r = Inr ()" "s1 = s0" and del': "deletes tx' = fmupd c (fmupd i True del) (deletes tx)"
    and cc: "committed tx' = committed tx" "rolledBack tx' = rolledBack tx"
    and chg: "fmlookup (coll_of (changes tx') c') j = (if c' = c \<and> j = i then None else fmlookup (coll_of (changes tx) c') j)" for c' j
    using assms(1) nc by (cases "fmlookup (changes tx) c"; auto simp: mtx_Delete_def del_def Let_def coll_of_def)+
  have "fmpred (\<lambda>i b. b) del" using old by (auto simp: del_def split: option.split)
  then have "tx_active tx'" using nc cc old by (auto simp: tx_active_def tx_completed_def del')
  moreover have dd: "tx_deleted tx' c' j \<longleftrightarrow> c' = c \<and> j = i \<or> tx_deleted tx c' j" for c' j
    by (auto simp: tx_deleted_def del' del_def split: option.splits)
  moreover have "tx_view (tx', s) = set_doc (tx_view (tx, s)) c i None"
    by (intro ext) (simp add: tx_view_def dd chg set_doc_apply)
  ultimately show ?thesis using rs by simp
qed

lemma tx_do_view:
  assumes "tx_active tx" "tx_do ctx op (tx, s0) = (ok, (tx', s1))"
  shows "s1 = s0 \<and> tx_active tx' \<and> (\<forall>s. tx_view (tx', s) = (if ok then apply_op op (tx_view (tx, s)) else tx_view (tx, s)))"
proof -
  have nc: "\<not> tx_completed tx" using assms(1) by (simp add: tx_active_def)
  show ?thesis
  proof (cases op)
    case (OpInsert c d)
    then show ?thesis using assms nc
      by (auto simp: mtx_Insert_def Let_def isr_iff tx_view_ensure tx_view_put split: option.splits if_splits)
  next
    case (OpUpdate c i d)
    then show ?thesis using assms nc
      by (auto simp: mtx_Update_def Let_def tx_view_put split: if_splits)
  next
    case (OpDelete c i)
    then obtain r where d: "mtx_Delete ctx c i (tx, s0) = (r, (tx', s1))" "ok = (r = Inr ())"
      using assms by (auto split: prod.splits)
    then show ?thesis
      using mtx_Delete_view [OF d(1) assms(1)] OpDelete by simp
  qed
qed

lemma tx_run_view:
  assumes "tx_active tx" "tx_run ctx ops (tx, s0) = (ok_ops, (tx', s1))"
  shows "s1 = s0 \<and> tx_active tx' \<and> (\<forall>s. tx_view (tx', s) = fold apply_op ok_ops (tx_view (tx, s)))"
  using assms
proof (induction ops arbitrary: tx ok_ops)
  case (Cons op ops)
  obtain ok tx1 s2 where d: "tx_do ctx op (tx, s0) = (ok, (tx1, s2))" by (metis prod.exhaust)
  note v = tx_do_view [OF Cons.prems(1) d]
  obtain ok_ops1 where r: "tx_run ctx ops (tx1, s0) = (ok_ops1, (tx', s1))" "ok_ops = (if ok then op # ok_ops1 else ok_ops1)"
    using Cons.prems(2) d v by (auto split: prod.splits)
  then show ?case using Cons.IH [OF _ r(1)] v by simp
qed simp

text \<open>
  C14: a transaction is a sequence of writes that happen together or not at all. Run any calls on a
  fresh transaction. No call changes the store. Let \<open>ok_ops\<close> be the calls that returned without an
  error. Whatever other users have made of the store by then, a read through the transaction shows
  the current store with the writes of \<open>ok_ops\<close> applied in order, \<^verbatim>\<open>Commit\<close> succeeds and leaves
  exactly that, in whatever order it iterates over its buffers, and \<^verbatim>\<open>Rollback\<close> leaves the
  store as it is.
\<close>

theorem transaction_serial:
  assumes "mem_BeginTx ctx s0 = (Inr tx, s0)" "tx_run ctx ops (tx, s0) = (ok_ops, (tx', s1))" "range_order ord"
  shows "s1 = s0
    \<and> fst (mtx_Get ctx c i (tx', s)) = found (fold apply_op ok_ops (mem_docs s) c i)
    \<and> fst (commit_in ord (tx', s)) = Inr ()
    \<and> mem_docs (snd (snd (commit_in ord (tx', s)))) = fold apply_op ok_ops (mem_docs s)
    \<and> snd (snd (mtx_Rollback (tx', s))) = s"
proof -
  obtain cx where cx: "ctx = Some cx"
    using assms(1) by (cases ctx) (auto simp: mem_BeginTx_def checking_context_def validateContext_def)
  have fresh: "tx_active tx" "tx_view (tx, s) = mem_docs s" for s
    using assms(1) mem.BeginTx [of cx s]
    by (auto simp: cx mem_ops_def mem_BeginTx_def checking_context_def validateContext_def)
  have run: "s1 = s0" "tx_active tx'" "tx_view (tx', s) = fold apply_op ok_ops (mem_docs s)"
    using tx_run_view [OF fresh(1) assms(2)] fresh(2) by auto
  have "mtx_Get ctx c i (tx', s) = (found (tx_view (tx', s) c i), (tx', s))"
    using mem.tx_Get [OF run(2), of cx c i s] by (simp add: cx mem_ops_def)
  moreover obtain t'' s'' where "mtx_Commit (tx', s) = (Inr (), (t'', s''))" "mem_docs s'' = tx_view (tx', s)"
    using mem.tx_Commit [OF run(2), of s] by (auto simp: mem_ops_def)
  ultimately show ?thesis
    using run mem.tx_Rollback [of tx' s] by (simp add: commit_order_irrelevant [OF assms(3)]) (simp add: mem_ops_def)
qed

definition demo_doc :: document where
  "demo_doc = fmupd ''n'' (VInt64 1) (fmupd ''id'' (VString ''a'') fmempty)"

definition fresh_tx :: mem_tx where
  "fresh_tx = \<lparr>changes = fmempty, deletes = fmempty, committed = False, rolledBack = False\<rparr>"

lemma mem_BeginTx_fresh: "mem_BeginTx (Some cx) s = (Inr fresh_tx, s)"
  by (simp add: mem_BeginTx_def checking_context_def validateContext_def fresh_tx_def)

lemma demo_doc_id: "doc_id demo_doc = Some ''a''"
  by (simp add: doc_id_def demo_doc_def str_field_def field_def)

theorem transaction_serial_witness:
  "fst (mtx_Get background ''w'' ''a'' (fst (snd (tx_run background [OpInsert ''w'' demo_doc] (fresh_tx, NewInMemoryStore))), NewInMemoryStore)) = Inr demo_doc"
proof -
  obtain tx' s1 where r: "tx_run background [OpInsert ''w'' demo_doc] (fresh_tx, NewInMemoryStore) = ([OpInsert ''w'' demo_doc], (tx', s1))"
    by (simp add: mtx_Insert_def fresh_tx_def tx_completed_def tx_deleted_def demo_doc_id)
  have b: "mem_BeginTx background NewInMemoryStore = (Inr fresh_tx, NewInMemoryStore)"
    by (simp add: background_def mem_BeginTx_fresh)
  show ?thesis
    using transaction_serial [OF b r range_key_order, of "''w''" "''a''" NewInMemoryStore] r
    by (simp add: demo_doc_id found_def)
qed

text \<open>
  \<^verbatim>\<open>WithTransaction\<close> on the in-memory store, for a function that makes any calls on the
  transaction and then returns nil, returns an error, or panics. The result is nil exactly when the
  function returned nil and the context was live both before the transaction and before the commit;
  then the store has all writes of the calls that succeeded, in order. In every other case, a panic
  included, no document of the store has changed.
\<close>

theorem with_transaction_atomic:
  "case WithTransaction mem_ops ctx (\<lambda>w. (out, snd (tx_run (Some ctx) ops w))) s of (r, s') \<Rightarrow>
     (r = FnOk \<longleftrightarrow> out = FnOk \<and> ctx 0 = None \<and> ctx 1 = None)
   \<and> mem_docs s' = (if r = FnOk then fold apply_op (fst (tx_run (Some ctx) ops (fresh_tx, s))) (mem_docs s) else mem_docs s)"
proof -
  have begin': "st_BeginTx mem_ops (Some ctx) s = (Inr fresh_tx, s)" by (simp add: mem_ops_def mem_BeginTx_fresh)
  have fresh: "tx_active fresh_tx" "tx_view (fresh_tx, s) = mem_docs s" using mem.BeginTx [of ctx s] begin' by auto
  obtain ok_ops tx' s1 where run: "tx_run (Some ctx) ops (fresh_tx, s) = (ok_ops, (tx', s1))" by (metis prod.exhaust)
  have v: "s1 = s" "tx_active tx'" "tx_view (tx', s) = fold apply_op ok_ops (mem_docs s)"
    using tx_run_view [OF fresh(1) run] fresh(2) by auto
  obtain t2 s2 where "store_ops.tx_Commit mem_ops (tx', s) = (Inr (), (t2, s2))" "mem_docs s2 = tx_view (tx', s)"
    using mem.tx_Commit [OF v(2)] by blast
  then show ?thesis
    using begin' run v mem.tx_Rollback [of tx' s]
    by (simp add: WithTransaction_def split: option.split fn_outcome.split)
qed

text \<open>\<^verbatim>\<open>Insert\<close> in a transaction does not look at the store, and neither does the commit.\<close>

lemma tx_insert_overwrites:
  assumes "doc_id d = Some i"
  shows "\<exists>tx. mtx_Insert (Some cx) c d (fresh_tx, s) = (Inr i, (tx, s)) \<and> mem_docs (snd (snd (mtx_Commit (tx, s)))) c i = Some d"
proof -
  obtain tx where tx: "mtx_Insert (Some cx) c d (fresh_tx, s) = (Inr i, (tx, s))"
    using assms by (simp add: mtx_Insert_def fresh_tx_def tx_completed_def tx_deleted_def)
  have act: "tx_active fresh_tx" by (simp add: tx_active_def fresh_tx_def tx_completed_def)
  have d: "tx_do (Some cx) (OpInsert c d) (fresh_tx, s) = (True, (tx, s))" using tx by simp
  have "tx_active tx" "tx_view (tx, s) c i = Some d"
    using tx_do_view [OF act d] assms by simp_all
  then show ?thesis using tx mem.tx_Commit [of tx s] by (auto simp: mem_ops_def)
qed

end
