(* ===== verification/Delta_Store.thy ===== *)
theory Delta_Store
  imports Memory_Store
begin

text \<open>
  Field-level differences between documents and the log of deltas that records them
  (\<^verbatim>\<open>cse/storage/diff.go\<close> and \<^verbatim>\<open>delta_store.go\<close>).
\<close>

section \<open>Differences\<close>

record modified_field =
  mf_Old :: gval
  mf_New :: gval

record diff =
  Added :: document
  Modified :: "(string, modified_field) fmap"
  Removed :: "string list"

definition IsEmpty :: "diff option \<Rightarrow> bool" where
  "IsEmpty d = (case d of None \<Rightarrow> True | Some d \<Rightarrow> Added d = fmempty \<and> Modified d = fmempty \<and> Removed d = [])"

text \<open>The removed keys come in the order in which \<^verbatim>\<open>range oldDoc\<close> visits them.\<close>

definition computeDiff :: "map_order \<Rightarrow> document \<Rightarrow> document \<Rightarrow> diff option" where
  "computeDiff ord oldDoc newDoc =
     (let d = \<lparr>Added = fmfilter (\<lambda>k. fmlookup oldDoc k = None) newDoc,
               Modified = fmmap_keys (\<lambda>k v. \<lparr>mf_Old = field oldDoc k, mf_New = v\<rparr>)
                 (fmfilter (\<lambda>k. fmlookup oldDoc k \<noteq> None \<and> fmlookup oldDoc k \<noteq> fmlookup newDoc k) newDoc),
               Removed = filter (\<lambda>k. fmlookup newDoc k = None) (ord (fmdom oldDoc))\<rparr>
      in if IsEmpty (Some d) then None else Some d)"

section \<open>Differences as JSON\<close>

text \<open>
  The tree that \<^verbatim>\<open>json.Marshal\<close> writes for a \<^verbatim>\<open>Diff\<close>, and how \<^verbatim>\<open>json.Unmarshal\<close>
  fills a \<^verbatim>\<open>Diff\<close> from one: a null leaves the zero value, another type is an error.
\<close>

definition diff_json :: "diff \<Rightarrow> gval" where
  "diff_json d = VMap (fmap_of_list
     [(''Added'', VMap (Added d)),
      (''Modified'', VMap (fmmap (\<lambda>m. VMap (fmap_of_list [(''Old'', mf_Old m), (''New'', mf_New m)])) (Modified d))),
      (''Removed'', VList (map VString (Removed d)))])"

fun json_object :: "gval \<Rightarrow> document option" where
  "json_object (VMap m) = Some m"
| "json_object VNil = Some fmempty"
| "json_object _ = None"

fun json_strings :: "gval list \<Rightarrow> string list option" where
  "json_strings [] = Some []"
| "json_strings (VString s # vs) = map_option ((#) s) (json_strings vs)"
| "json_strings (VNil # vs) = map_option ((#) []) (json_strings vs)"
| "json_strings _ = None"

fun json_string_list :: "gval \<Rightarrow> string list option" where
  "json_string_list (VList vs) = json_strings vs"
| "json_string_list VNil = Some []"
| "json_string_list _ = None"

definition json_modified :: "gval \<Rightarrow> (string, modified_field) fmap option" where
  "json_modified v = (case json_object v of
       None \<Rightarrow> None
     | Some m \<Rightarrow>
         (if fBall (fmran m) (\<lambda>x. json_object x \<noteq> None)
          then Some (fmmap (\<lambda>x. \<lparr>mf_Old = field (the (json_object x)) ''Old'', mf_New = field (the (json_object x)) ''New''\<rparr>) m)
          else None))"

definition unmarshal_diff :: "gval \<Rightarrow> diff option" where
  "unmarshal_diff v = (case json_object v of
       None \<Rightarrow> None
     | Some m \<Rightarrow>
         (case (json_object (field m ''Added''), json_modified (field m ''Modified''), json_string_list (field m ''Removed'')) of
            (Some a, Some b, Some c) \<Rightarrow> Some \<lparr>Added = a, Modified = b, Removed = c\<rparr>
          | _ \<Rightarrow> None))"

text \<open>A difference whose values have been through JSON.\<close>

definition norm_diff :: "diff \<Rightarrow> diff" where
  "norm_diff d = \<lparr>Added = fmmap json_norm (Added d),
     Modified = fmmap (\<lambda>m. \<lparr>mf_Old = json_norm (mf_Old m), mf_New = json_norm (mf_New m)\<rparr>) (Modified d),
     Removed = Removed d\<rparr>"

section \<open>The log of deltas\<close>

record delta_entry =
  de_SyncID :: int
  de_WorkerType :: string
  de_ID :: string
  de_Role :: string
  de_Changes :: "diff option"
  de_Timestamp :: int

definition DeltaCollectionName :: string where
  "DeltaCollectionName = ''_deltas''"

definition UnixMilli :: "int \<Rightarrow> int" where
  "UnixMilli t = t div 1000000"

definition time_UnixMilli :: "int \<Rightarrow> int" where
  "time_UnixMilli ms = ms * 1000000"

text \<open>The document of an entry. \<^verbatim>\<open>json.Marshal\<close> does not fail on the values of documents.\<close>

definition entry_doc :: "delta_entry \<Rightarrow> document" where
  "entry_doc e =
     (let doc = fmap_of_list
        [(''id'', VString (FormatInt (de_SyncID e))),
         (''sync_id'', VInt64 (de_SyncID e)),
         (''worker_type'', VString (de_WorkerType e)),
         (''worker_id'', VString (de_ID e)),
         (''role'', VString (de_Role e)),
         (''timestamp'', VInt64 (UnixMilli (de_Timestamp e)))]
      in case de_Changes e of
           None \<Rightarrow> doc
         | Some d \<Rightarrow> fmupd ''changes'' (VJSON (json_norm (diff_json d))) doc)"

definition Append :: "('s, 't) store_ops \<Rightarrow> gcontext \<Rightarrow> delta_entry \<Rightarrow> ('s, unit) act" where
  "Append P ctx e = unit_of (wrapped ''failed to insert delta: '' (st_Insert P ctx DeltaCollectionName (entry_doc e)))"

text \<open>An int64 field, also when it has become a float64.\<close>

definition extractSyncID :: "document \<Rightarrow> int" where
  "extractSyncID doc = (case int_value (field doc ''sync_id'') of Some i \<Rightarrow> i | None \<Rightarrow> 0)"

definition default_of :: "'a option \<Rightarrow> 'a \<Rightarrow> 'a" where
  "default_of r z = (case r of None \<Rightarrow> z | Some x \<Rightarrow> x)"

definition zero_time :: int where
  "zero_time = - 62135596800 * 1000000000"

definition documentToEntry :: "document \<Rightarrow> delta_entry" where
  "documentToEntry doc =
     \<lparr>de_SyncID = default_of (int_value (field doc ''sync_id'')) 0,
      de_WorkerType = default_of (str_field doc ''worker_type'') [],
      de_ID = default_of (str_field doc ''worker_id'') [],
      de_Role = default_of (str_field doc ''role'') [],
      de_Changes = (case field doc ''changes'' of VJSON v \<Rightarrow> unmarshal_diff v | _ \<Rightarrow> None),
      de_Timestamp = (case int_value (field doc ''timestamp'') of Some ms \<Rightarrow> time_UnixMilli ms | None \<Rightarrow> zero_time)\<rparr>"

definition sortEntriesBySyncID :: "delta_entry list \<Rightarrow> delta_entry list" where
  "sortEntriesBySyncID = sort_key de_SyncID"

text \<open>The first entries when the limit is positive and there are more.\<close>

definition limited :: "nat \<Rightarrow> 'a list \<Rightarrow> 'a list" where
  "limited limit xs = (if 0 < limit \<and> limit < length xs then take limit xs else xs)"

definition GetSince ::
  "('s, 't) store_ops \<Rightarrow> map_order \<Rightarrow> gcontext \<Rightarrow> string \<Rightarrow> string \<Rightarrow> int \<Rightarrow> nat \<Rightarrow> ('s, delta_entry list) act" where
  "GetSince P ord ctx workerType role sinceSyncID limit =
     call (wrapped ''failed to list deltas: '' (st_Find P ord ctx DeltaCollectionName NewQuery)) (\<lambda>docs.
     ret (limited limit (sortEntriesBySyncID (map documentToEntry (filter (\<lambda>doc.
       str_field doc ''worker_type'' = Some workerType \<and> str_field doc ''role'' = Some role
       \<and> sinceSyncID < extractSyncID doc) docs)))))"

definition GetAllSince ::
  "('s, 't) store_ops \<Rightarrow> map_order \<Rightarrow> gcontext \<Rightarrow> int \<Rightarrow> nat \<Rightarrow> ('s, delta_entry list) act" where
  "GetAllSince P ord ctx sinceSyncID limit =
     call (wrapped ''failed to query deltas: '' (st_Find P ord ctx DeltaCollectionName NewQuery)) (\<lambda>docs.
     ret (limited limit (sortEntriesBySyncID (map documentToEntry (filter (\<lambda>doc. sinceSyncID < extractSyncID doc) docs)))))"

text \<open>The loop of \<^verbatim>\<open>DeleteBefore\<close>; a document without a string identifier is passed over.\<close>

fun delete_before ::
  "('s, 't) store_ops \<Rightarrow> gcontext \<Rightarrow> string \<Rightarrow> string \<Rightarrow> int \<Rightarrow> document list \<Rightarrow> ('s, unit) act" where
  "delete_before P ctx workerType role before [] = ret ()"
| "delete_before P ctx workerType role before (doc # docs) =
     (let next = delete_before P ctx workerType role before docs
      in if workerType \<noteq> [] \<and> str_field doc ''worker_type'' \<noteq> Some workerType then next
         else if role \<noteq> [] \<and> str_field doc ''role'' \<noteq> Some role then next
         else if extractSyncID doc < before
         then case str_field doc ''id'' of
                None \<Rightarrow> next
              | Some i \<Rightarrow> call (wrapped (''failed to delete delta '' @ i @ '': '') (st_Delete P ctx DeltaCollectionName i)) (\<lambda>_. next)
         else next)"

definition DeleteBefore ::
  "('s, 't) store_ops \<Rightarrow> map_order \<Rightarrow> gcontext \<Rightarrow> string \<Rightarrow> string \<Rightarrow> int \<Rightarrow> ('s, unit) act" where
  "DeleteBefore P ord ctx workerType role before =
     call (wrapped ''failed to list deltas for deletion: '' (st_Find P ord ctx DeltaCollectionName NewQuery))
       (delete_before P ctx workerType role before)"

section \<open>Differences describe the change\<close>

text \<open>What a client does with a difference: set the added and the modified fields, drop the removed ones.\<close>

definition patch :: "diff \<Rightarrow> document \<Rightarrow> document" where
  "patch d m = fmdrop_fset (fset_of_list (Removed d)) (m ++\<^sub>f Added d ++\<^sub>f fmmap mf_New (Modified d))"

definition patch_opt :: "diff option \<Rightarrow> document \<Rightarrow> document" where
  "patch_opt d m = (case d of None \<Rightarrow> m | Some d \<Rightarrow> patch d m)"

lemma fmlookup_modified:
  "fmlookup (fmmap mf_New (fmmap_keys (\<lambda>k v. \<lparr>mf_Old = f k, mf_New = v\<rparr>) m)) k = fmlookup m k"
  by (cases "fmlookup m k") simp_all

lemma computeDiff_patch_raw:
  assumes "range_order ord"
  shows "patch \<lparr>Added = fmfilter (\<lambda>k. fmlookup oldDoc k = None) newDoc,
               Modified = fmmap_keys (\<lambda>k v. \<lparr>mf_Old = field oldDoc k, mf_New = v\<rparr>)
                 (fmfilter (\<lambda>k. fmlookup oldDoc k \<noteq> None \<and> fmlookup oldDoc k \<noteq> fmlookup newDoc k) newDoc),
               Removed = filter (\<lambda>k. fmlookup newDoc k = None) (ord (fmdom oldDoc))\<rparr> oldDoc = newDoc"
  by (rule fmap_ext)
    (auto simp: patch_def fmlookup_modified fset_of_list.rep_eq range_order_set [OF assms] fmlookup_dom_iff
      split: option.splits)

lemma computeDiff_patch:
  assumes "range_order ord"
  shows "patch_opt (computeDiff ord oldDoc newDoc) oldDoc = newDoc"
proof (cases "computeDiff ord oldDoc newDoc")
  case (Some d)
  then show ?thesis using computeDiff_patch_raw [OF assms, of oldDoc newDoc]
    by (auto simp: patch_opt_def computeDiff_def Let_def split: if_splits)
next
  case None
  have "patch \<lparr>Added = fmempty, Modified = fmempty, Removed = []\<rparr> m = m" for m
    by (rule fmap_ext) (simp add: patch_def)
  then show ?thesis using None computeDiff_patch_raw [OF assms, of oldDoc newDoc]
    by (simp add: patch_opt_def computeDiff_def IsEmpty_def Let_def split: if_splits)
qed

section \<open>The round trip of an entry\<close>

lemma json_strings_map: "json_strings (map VString xs) = Some xs"
  by (induction xs) simp_all

lemma map_json_norm_strings: "map json_norm (map VString xs) = map VString xs"
  by simp

lemma json_modified_norm:
  "json_modified (json_norm (VMap (fmmap (\<lambda>m. VMap (fmap_of_list [(''Old'', mf_Old m), (''New'', mf_New m)])) M)))
   = Some (fmmap (\<lambda>m. \<lparr>mf_Old = json_norm (mf_Old m), mf_New = json_norm (mf_New m)\<rparr>) M)"
proof -
  have ran: "json_object x \<noteq> None"
    if "x |\<in>| fmran (fmmap json_norm (fmmap (\<lambda>m. VMap (fmap_of_list [(''Old'', mf_Old m), (''New'', mf_New m)])) M))" for x
    using that by (auto simp: fmlookup_ran_iff)
  then show ?thesis
    by (simp add: json_modified_def fmap.map_comp comp_def field_def)
qed

lemma unmarshal_diff_json: "unmarshal_diff (json_norm (diff_json d)) = Some (norm_diff d)"
  unfolding unmarshal_diff_def diff_json_def
  using json_modified_norm [of "Modified d"]
  by (simp add: field_def json_strings_map norm_diff_def comp_def)

lemma patch_norm: "patch (norm_diff d) (fmmap json_norm m) = fmmap json_norm (patch d m)"
  by (rule fmap_ext) (auto simp: patch_def norm_diff_def fmap.map_comp comp_def split: option.split)

lemma delta_entry_norm:
  "documentToEntry (entry_doc e) =
     e\<lparr>de_Changes := map_option norm_diff (de_Changes e), de_Timestamp := de_Timestamp e div 1000000 * 1000000\<rparr>"
  by (cases "de_Changes e")
    (simp_all add: documentToEntry_def entry_doc_def Let_def default_of_def str_field_def field_def UnixMilli_def
      time_UnixMilli_def unmarshal_diff_json)

text \<open>
  An entry of the delta log, read back from the document it is stored as, is the entry that was
  appended, with its instant cut to milliseconds and the values of its changes as JSON renders them
  (numbers as float64, instants as text).
\<close>

theorem delta_entry_roundtrip:
  "documentToEntry (entry_doc e) =
     e\<lparr>de_Changes := map_option norm_diff (de_Changes e), de_Timestamp := de_Timestamp e div 1000000 * 1000000\<rparr>"
  by (rule delta_entry_norm)

end
