(* ===== verification/Triangular_Store.thy ===== *)
theory Triangular_Store
  imports Delta_Store
begin

text \<open>
  The triangular store (\<^verbatim>\<open>cse/storage/triangular.go\<close>, \<^verbatim>\<open>save.go\<close>, \<^verbatim>\<open>tombstone.go\<close>,
  \<^verbatim>\<open>constants.go\<close>): three documents per worker, one sync counter for all writes, a log of
  deltas, and a cache of snapshots. All definitions are over the operations of an arbitrary document
  store. Saves and tombstones run one at a time under \<^verbatim>\<open>documentWriteMu\<close>, so each is one step;
  \<^verbatim>\<open>LoadSnapshot\<close> takes no such lock and is also given by its two halves. Log output is not
  modelled, the reads that are made for it are. A save writes its metadata into the map the caller
  passes; callers hand the map over and do not use it again. \<^verbatim>\<open>clock.Now()\<close> is a function from
  the number of the call within an operation to the instant.
\<close>

section \<open>Constants\<close>

definition FieldSyncID :: string where "FieldSyncID = ''_sync_id''"
definition FieldVersion :: string where "FieldVersion = ''_version''"
definition FieldCreatedAt :: string where "FieldCreatedAt = ''_created_at''"
definition FieldUpdatedAt :: string where "FieldUpdatedAt = ''_updated_at''"
definition FieldDeletedAt :: string where "FieldDeletedAt = ''_deleted_at''"
definition FieldDeletedBy :: string where "FieldDeletedBy = ''_deleted_by''"

datatype role = RoleIdentity | RoleDesired | RoleObserved

fun role_name :: "role \<Rightarrow> string" where
  "role_name RoleIdentity = ''identity''"
| "role_name RoleDesired = ''desired''"
| "role_name RoleObserved = ''observed''"

definition IdentityCSEFields :: "string list" where
  "IdentityCSEFields = [FieldSyncID, FieldVersion, FieldCreatedAt, FieldDeletedAt, FieldDeletedBy]"

definition DesiredCSEFields :: "string list" where
  "DesiredCSEFields = [FieldSyncID, FieldVersion, FieldCreatedAt, FieldUpdatedAt, FieldDeletedAt, FieldDeletedBy]"

definition ObservedCSEFields :: "string list" where
  "ObservedCSEFields = [FieldSyncID, FieldVersion, FieldCreatedAt, FieldUpdatedAt, FieldDeletedAt, FieldDeletedBy]"

fun getCSEFields :: "role \<Rightarrow> string list" where
  "getCSEFields RoleIdentity = IdentityCSEFields"
| "getCSEFields RoleDesired = DesiredCSEFields"
| "getCSEFields RoleObserved = ObservedCSEFields"

definition allRoles :: "role list" where
  "allRoles = [RoleIdentity, RoleDesired, RoleObserved]"

definition role_collection :: "string \<Rightarrow> role \<Rightarrow> string" where
  "role_collection workerType r = workerType @ ''_'' @ role_name r"

section \<open>State\<close>

record snapshot =
  sn_Identity :: document
  sn_Desired :: "document option"
  sn_Observed :: "document option"

record cached_snapshot =
  cs_snapshot :: snapshot
  cs_syncID :: int

record 's tri_store =
  ts_store :: 's
  ts_syncID :: int
  ts_cache :: "(string, cached_snapshot) fmap"
  ts_known :: "string fset"

definition NewTriangularStore :: "'s \<Rightarrow> 's tri_store" where
  "NewTriangularStore s = \<lparr>ts_store = s, ts_syncID = 0, ts_cache = fmempty, ts_known = {||}\<rparr>"

definition on_store :: "('s, 'a) act \<Rightarrow> ('s tri_store, 'a) act" where
  "on_store m ts = (case m (ts_store ts) of (r, s) \<Rightarrow> (r, ts\<lparr>ts_store := s\<rparr>))"

text \<open>\<^verbatim>\<open>ts.syncID.Add(1)\<close>.\<close>

definition next_sync :: "'s tri_store \<Rightarrow> 's tri_store" where
  "next_sync ts = ts\<lparr>ts_syncID := wrap_int64 (ts_syncID ts + 1)\<rparr>"

definition registerWorkerType :: "string \<Rightarrow> 's tri_store \<Rightarrow> 's tri_store" where
  "registerWorkerType workerType ts = ts\<lparr>ts_known := finsert workerType (ts_known ts)\<rparr>"

definition cache_key :: "string \<Rightarrow> string \<Rightarrow> string" where
  "cache_key workerType i = workerType @ ''_'' @ i"

definition invalidateSnapshot :: "string \<Rightarrow> string \<Rightarrow> 's tri_store \<Rightarrow> 's tri_store" where
  "invalidateSnapshot workerType i ts = ts\<lparr>ts_cache := fmdrop (cache_key workerType i) (ts_cache ts)\<rparr>"

section \<open>Change detection\<close>

definition diffExcludedFields :: "string list" where
  "diffExcludedFields = [''Dependencies'']"

definition filterCSEFields :: "document \<Rightarrow> string list \<Rightarrow> document" where
  "filterCSEFields doc cse = fmfilter (\<lambda>k. k \<notin> set cse) doc"

text \<open>
  The fields that changed, each with the kind of the change; the values that the code adds for the
  log are left out. Fields that are missing from the new document do not count.
\<close>

datatype change_type = ChangeAdded | ChangeModified

definition getChangedFields :: "map_order \<Rightarrow> document \<Rightarrow> document \<Rightarrow> (string \<times> change_type) list" where
  "getChangedFields ord current new =
     List.map_filter (\<lambda>k.
       if k \<in> set diffExcludedFields then None
       else case fmlookup current k of
              None \<Rightarrow> Some (k, ChangeAdded)
            | Some v \<Rightarrow> if fmlookup new k \<noteq> Some v then Some (k, ChangeModified) else None)
       (ord (fmdom new))"

definition business :: "role \<Rightarrow> document \<Rightarrow> document" where
  "business r doc = fmdrop FieldVersion (fmdrop ''id'' (filterCSEFields doc (getCSEFields r)))"

definition performDeltaCheck ::
  "map_order \<Rightarrow> document option \<Rightarrow> document \<Rightarrow> role \<Rightarrow> bool \<times> (string \<times> change_type) list \<times> diff option" where
  "performDeltaCheck ord currentDoc newDoc r =
     (case currentDoc of
        None \<Rightarrow> (True, [], None)
      | Some cur \<Rightarrow>
          (let currentFiltered = business r cur; newFiltered = business r newDoc;
               chgs = getChangedFields ord currentFiltered newFiltered; hasChanges = (chgs \<noteq> [])
           in (hasChanges, chgs, if hasChanges then computeDiff ord currentFiltered newFiltered else None)))"

definition computeCreatedDiff :: "document \<Rightarrow> role \<Rightarrow> diff option" where
  "computeCreatedDiff doc r =
     (let added = fmfilter (\<lambda>k. k \<notin> set (getCSEFields r) \<and> k \<noteq> ''id'') doc
      in if added = fmempty then None else Some \<lparr>Added = added, Modified = fmempty, Removed = []\<rparr>)"

section \<open>Saving\<close>

record save_options =
  so_Role :: role
  so_IncrementVersion :: bool
  so_SkipDeltaCheck :: bool
  so_UpdateTimestampOnNoChange :: bool

definition IdentitySaveOptions :: save_options where
  "IdentitySaveOptions = \<lparr>so_Role = RoleIdentity, so_IncrementVersion = False, so_SkipDeltaCheck = False, so_UpdateTimestampOnNoChange = False\<rparr>"

definition DesiredSaveOptions :: save_options where
  "DesiredSaveOptions = \<lparr>so_Role = RoleDesired, so_IncrementVersion = True, so_SkipDeltaCheck = False, so_UpdateTimestampOnNoChange = False\<rparr>"

definition ObservedSaveOptions :: save_options where
  "ObservedSaveOptions = \<lparr>so_Role = RoleObserved, so_IncrementVersion = False, so_SkipDeltaCheck = False, so_UpdateTimestampOnNoChange = True\<rparr>"

record save_result =
  sr_isNew :: bool
  sr_changed :: bool
  sr_changes :: "(string \<times> change_type) list"
  sr_diff :: "diff option"

definition no_save :: save_result where
  "no_save = \<lparr>sr_isNew = False, sr_changed = False, sr_changes = [], sr_diff = None\<rparr>"

definition hasTombstone :: "document \<Rightarrow> bool" where
  "hasTombstone doc \<longleftrightarrow> field doc FieldDeletedAt \<noteq> VNil"

definition injectMetadataWithOptions :: "document \<Rightarrow> save_options \<Rightarrow> bool \<Rightarrow> int \<Rightarrow> document" where
  "injectMetadataWithOptions doc opts isNew now =
     (if isNew then fmupd FieldVersion (VInt64 1) (fmupd FieldCreatedAt (VTime now) doc)
      else let doc1 = fmupd FieldUpdatedAt (VTime now) doc
           in if so_IncrementVersion opts
              then fmupd FieldVersion (VInt64 (wrap_int64 (default_of (int_value (field doc1 FieldVersion)) 0 + 1))) doc1
              else doc1)"

definition LoadIdentity :: "('s, 't) store_ops \<Rightarrow> gcontext \<Rightarrow> string \<Rightarrow> string \<Rightarrow> ('s tri_store, document) act" where
  "LoadIdentity P ctx workerType i = on_store (st_Get P ctx (workerType @ ''_identity'') i)"

definition hierarchyPath :: "('s, 't) store_ops \<Rightarrow> gcontext \<Rightarrow> string \<Rightarrow> string \<Rightarrow> 's tri_store \<Rightarrow> string \<times> 's tri_store" where
  "hierarchyPath P ctx workerType i ts =
     (case LoadIdentity P ctx workerType i ts of
        (Inr identity, ts') \<Rightarrow> (default_of (str_field identity ''hierarchy_path'') [], ts')
      | (Inl _, ts') \<Rightarrow> ([], ts'))"

definition appendDeltaOrWarn :: "('s, 't) store_ops \<Rightarrow> gcontext \<Rightarrow> delta_entry \<Rightarrow> 's tri_store \<Rightarrow> 's tri_store" where
  "appendDeltaOrWarn P ctx e ts =
     (case on_store (Append P ctx e) ts of
        (Inr _, ts') \<Rightarrow> ts'
      | (Inl _, ts') \<Rightarrow> snd (hierarchyPath P ctx (de_WorkerType e) (de_ID e) ts'))"

text \<open>The document that is written: the caller's, with the stored tombstone and its metadata.\<close>

definition merged_document :: "document option \<Rightarrow> document \<Rightarrow> save_options \<Rightarrow> document" where
  "merged_document existing doc opts =
     (let doc1 = fmdrop FieldDeletedBy (fmdrop FieldDeletedAt doc)
      in case existing of
           None \<Rightarrow> doc1
         | Some old \<Rightarrow>
             (let doc2 = (if hasTombstone old
                          then fmupd FieldDeletedBy (field old FieldDeletedBy) (fmupd FieldDeletedAt (field old FieldDeletedAt) doc1)
                          else doc1)
              in if \<not> so_IncrementVersion opts
                 then case fmlookup old FieldVersion of None \<Rightarrow> doc2 | Some v \<Rightarrow> fmupd FieldVersion v doc2
                 else doc2))"

definition write_new_version ::
  "('s, 't) store_ops \<Rightarrow> gcontext \<Rightarrow> (nat \<Rightarrow> int) \<Rightarrow> string \<Rightarrow> string \<Rightarrow> document \<Rightarrow> save_options
    \<Rightarrow> document option \<Rightarrow> (string \<times> change_type) list \<Rightarrow> diff option \<Rightarrow> ('s tri_store, save_result) act" where
  "write_new_version P ctx now workerType i doc opts existing chgs d ts =
     (let c = role_collection workerType (so_Role opts); isNew = (existing = None);
          ts1 = next_sync ts; syncID = ts_syncID ts1;
          doc' = injectMetadataWithOptions (fmupd FieldSyncID (VInt64 syncID) (merged_document existing doc opts)) opts isNew (now 0)
      in case on_store (if isNew then unit_of (st_Insert P ctx c doc') else st_Update P ctx c i doc') ts1 of
           (Inl e, ts2) \<Rightarrow>
             (Inl (Errorf (''failed to save '' @ role_name (so_Role opts) @ '' for '' @ workerType @ ''/'' @ i @ '': '') e), ts2)
         | (Inr _, ts2) \<Rightarrow>
             (let ts3 = (if d \<noteq> None
                         then appendDeltaOrWarn P ctx
                                \<lparr>de_SyncID = syncID, de_WorkerType = workerType, de_ID = i, de_Role = role_name (so_Role opts),
                                 de_Changes = d, de_Timestamp = now 1\<rparr> ts2
                         else ts2)
              in (Inr \<lparr>sr_isNew = isNew, sr_changed = True, sr_changes = chgs, sr_diff = d\<rparr>,
                  invalidateSnapshot workerType i ts3)))"

definition touch_unchanged ::
  "('s, 't) store_ops \<Rightarrow> gcontext \<Rightarrow> (nat \<Rightarrow> int) \<Rightarrow> string \<Rightarrow> string \<Rightarrow> save_options \<Rightarrow> document \<Rightarrow> ('s tri_store, save_result) act" where
  "touch_unchanged P ctx now workerType i opts old ts =
     (if so_UpdateTimestampOnNoChange opts
      then case on_store (st_Update P ctx (role_collection workerType (so_Role opts)) i (fmupd FieldUpdatedAt (VTime (now 0)) old)) ts of
             (Inl e, ts1) \<Rightarrow> (Inl (Errorf (''failed to update timestamp for '' @ workerType @ ''/'' @ i @ '': '') e), ts1)
           | (Inr _, ts1) \<Rightarrow> (Inr no_save, invalidateSnapshot workerType i ts1)
      else (Inr no_save, ts))"

definition writeDocument ::
  "('s, 't) store_ops \<Rightarrow> map_order \<Rightarrow> gcontext \<Rightarrow> (nat \<Rightarrow> int) \<Rightarrow> string \<Rightarrow> string \<Rightarrow> document \<Rightarrow> save_options
    \<Rightarrow> ('s tri_store, save_result) act" where
  "writeDocument P ord ctx now workerType i doc opts ts =
     (case on_store (st_Get P ctx (role_collection workerType (so_Role opts)) i) ts of
        (Inl e, ts0) \<Rightarrow>
          (if \<not> errors_is e ErrNotFound
           then (Inl (Errorf (''failed to load existing '' @ role_name (so_Role opts) @ '' for '' @ workerType @ ''/'' @ i @ '': '') e), ts0)
           else write_new_version P ctx now workerType i doc opts None []
                  (if so_SkipDeltaCheck opts then None else computeCreatedDiff doc (so_Role opts)) ts0)
      | (Inr old, ts0) \<Rightarrow>
          (if so_SkipDeltaCheck opts then write_new_version P ctx now workerType i doc opts (Some old) [] None ts0
           else case performDeltaCheck ord (Some old) doc (so_Role opts) of (hasChanges, chgs, d) \<Rightarrow>
             if \<not> hasChanges then touch_unchanged P ctx now workerType i opts old ts0
             else write_new_version P ctx now workerType i doc opts (Some old) chgs d ts0))"

definition saveWithDelta ::
  "('s, 't) store_ops \<Rightarrow> map_order \<Rightarrow> gcontext \<Rightarrow> (nat \<Rightarrow> int) \<Rightarrow> string \<Rightarrow> string \<Rightarrow> document option \<Rightarrow> save_options
    \<Rightarrow> ('s tri_store, bool \<times> diff option) act" where
  "saveWithDelta P ord ctx now workerType i doc opts ts =
     (case doc of
        None \<Rightarrow> (Inl (ErrorNew 220 ''document cannot be nil''), ts)
      | Some doc \<Rightarrow>
          (case doc_id doc of
             None \<Rightarrow> (Inl (ErrorNew 221 ''document must have non-empty string 'id' field''), ts)
           | Some docID \<Rightarrow>
               (if docID \<noteq> i
                then (Inl (ErrorNew 222 (''document id '' @ quoted docID @ '' does not match parameter id '' @ quoted i)), ts)
                else case writeDocument P ord ctx now workerType i doc opts ts of
                       (Inl e, ts1) \<Rightarrow> (Inl e, ts1)
                     | (Inr res, ts1) \<Rightarrow>
                         (let ts2 = (if \<not> so_SkipDeltaCheck opts \<and> (sr_isNew res \<or> sr_changed res)
                                     then snd (hierarchyPath P ctx workerType i ts1) else ts1)
                          in (Inr (sr_changed res, sr_diff res), ts2)))))"

definition SaveIdentity ::
  "('s, 't) store_ops \<Rightarrow> map_order \<Rightarrow> gcontext \<Rightarrow> (nat \<Rightarrow> int) \<Rightarrow> string \<Rightarrow> string \<Rightarrow> document option \<Rightarrow> ('s tri_store, unit) act" where
  "SaveIdentity P ord ctx now workerType i identity ts =
     unit_of (saveWithDelta P ord ctx now workerType i identity IdentitySaveOptions) (registerWorkerType workerType ts)"

definition SaveDesired ::
  "('s, 't) store_ops \<Rightarrow> map_order \<Rightarrow> gcontext \<Rightarrow> (nat \<Rightarrow> int) \<Rightarrow> string \<Rightarrow> string \<Rightarrow> document option \<Rightarrow> ('s tri_store, bool) act" where
  "SaveDesired P ord ctx now workerType i desired =
     call (saveWithDelta P ord ctx now workerType i desired DesiredSaveOptions) (\<lambda>r. ret (fst r))"

definition LoadDesired :: "('s, 't) store_ops \<Rightarrow> gcontext \<Rightarrow> string \<Rightarrow> string \<Rightarrow> ('s tri_store, document) act" where
  "LoadDesired P ctx workerType i = on_store (st_Get P ctx (workerType @ ''_desired'') i)"

definition LoadObserved :: "('s, 't) store_ops \<Rightarrow> gcontext \<Rightarrow> string \<Rightarrow> string \<Rightarrow> ('s tri_store, document) act" where
  "LoadObserved P ctx workerType i = on_store (st_Get P ctx (workerType @ ''_observed'') i)"

text \<open>
  The value a caller passes as an observed state: nil, a \<^verbatim>\<open>Document\<close> or map (which may be a nil
  map), or any other value, a struct being given by the map of its exported fields.
\<close>

datatype any_value = AnyNil | AnyDoc "document option" | AnyValue gval

definition toDocument :: "any_value \<Rightarrow> goerror + document option" where
  "toDocument v = (case v of
       AnyNil \<Rightarrow> Inl (ErrorNew 223 ''cannot convert nil to document'')
     | AnyDoc d \<Rightarrow> Inr d
     | AnyValue x \<Rightarrow>
         (case json_norm x of
            VMap m \<Rightarrow> Inr (Some m)
          | VNil \<Rightarrow> Inl (ErrorNew 224 ''unmarshaled document is nil'')
          | _ \<Rightarrow> Inl (ErrorNew 225 ''failed to unmarshal JSON to document'')))"

text \<open>Setting the identifier in a nil map panics.\<close>

definition nil_map_panic :: goerror where
  "nil_map_panic = ErrorNew 226 ''panic: assignment to entry in nil map''"

definition SaveObserved ::
  "('s, 't) store_ops \<Rightarrow> map_order \<Rightarrow> gcontext \<Rightarrow> (nat \<Rightarrow> int) \<Rightarrow> string \<Rightarrow> string \<Rightarrow> any_value \<Rightarrow> ('s tri_store, bool) act" where
  "SaveObserved P ord ctx now workerType i observed ts =
     (case toDocument observed of
        Inl e \<Rightarrow> (Inl (Errorf ''failed to convert observed to document: '' e), ts)
      | Inr None \<Rightarrow> (Inl nil_map_panic, ts)
      | Inr (Some doc) \<Rightarrow>
          call (saveWithDelta P ord ctx now workerType i (Some (fmupd ''id'' (VString i) doc)) ObservedSaveOptions) (\<lambda>r. ret (fst r)) ts)"

section \<open>Tombstones\<close>

definition on_tx :: "('t \<times> 's, 'a) act \<Rightarrow> ('t \<times> 's tri_store, 'a) act" where
  "on_tx m w = (case m (fst w, ts_store (snd w)) of (r, (t, s)) \<Rightarrow> (r, (t, (snd w)\<lparr>ts_store := s\<rparr>)))"

text \<open>\<^verbatim>\<open>defer func() { _ = tx.Rollback() }()\<close>: what is left when the function returns.\<close>

definition after_rollback :: "('s, 't) store_ops \<Rightarrow> 't \<times> 's tri_store \<Rightarrow> 's tri_store" where
  "after_rollback P w = snd (snd (on_tx (tx_Rollback P) w))"

text \<open>The loop over the roles; an edit returns the changed document with its difference, or nothing.\<close>

fun edit_roles ::
  "('s, 't) store_ops \<Rightarrow> gcontext \<Rightarrow> string \<Rightarrow> string \<Rightarrow> (document \<Rightarrow> (document \<times> diff) option) \<Rightarrow> role list
    \<Rightarrow> ('t \<times> 's tri_store, (role \<times> int \<times> diff) list) act" where
  "edit_roles P ctx workerType i edit [] w = (Inr [], w)"
| "edit_roles P ctx workerType i edit (r # rs) w =
     (case on_tx (tx_Get P ctx (role_collection workerType r) i) w of
        (Inl e, w1) \<Rightarrow>
          (if errors_is e ErrNotFound then edit_roles P ctx workerType i edit rs w1
           else (Inl (Errorf (''failed to load '' @ role_name r @ '': '') e), w1))
      | (Inr doc, w1) \<Rightarrow>
          (case edit doc of
             None \<Rightarrow> edit_roles P ctx workerType i edit rs w1
           | Some (doc', d) \<Rightarrow>
               (let ts1 = next_sync (snd w1); syncID = ts_syncID ts1
                in case on_tx (tx_Update P ctx (role_collection workerType r) i (fmupd FieldSyncID (VInt64 syncID) doc')) (fst w1, ts1) of
                     (Inl e, w2) \<Rightarrow> (Inl (Errorf (''failed to update '' @ role_name r @ '': '') e), w2)
                   | (Inr _, w2) \<Rightarrow>
                       (case edit_roles P ctx workerType i edit rs w2 of
                          (Inl e, w3) \<Rightarrow> (Inl e, w3)
                        | (Inr written, w3) \<Rightarrow> (Inr ((r, syncID, d) # written), w3)))))"

definition role_entry :: "string \<Rightarrow> string \<Rightarrow> int \<Rightarrow> role \<times> int \<times> diff \<Rightarrow> delta_entry" where
  "role_entry workerType i at wr = (case wr of (r, syncID, d) \<Rightarrow>
     \<lparr>de_SyncID = syncID, de_WorkerType = workerType, de_ID = i, de_Role = role_name r, de_Changes = Some d, de_Timestamp = at\<rparr>)"

definition editRoleDocuments ::
  "('s, 't) store_ops \<Rightarrow> gcontext \<Rightarrow> int \<Rightarrow> string \<Rightarrow> string \<Rightarrow> (document \<Rightarrow> (document \<times> diff) option) \<Rightarrow> ('s tri_store, unit) act" where
  "editRoleDocuments P ctx at workerType i edit ts =
     (case on_store (st_BeginTx P ctx) ts of
        (Inl e, ts1) \<Rightarrow> (Inl (Errorf ''failed to begin transaction: '' e), ts1)
      | (Inr tx, ts1) \<Rightarrow>
          (case edit_roles P ctx workerType i edit allRoles (tx, ts1) of
             (Inl e, w) \<Rightarrow> (Inl e, after_rollback P w)
           | (Inr written, w) \<Rightarrow>
               (case on_tx (tx_Commit P) w of
                  (Inl e, w1) \<Rightarrow> (Inl (Errorf ''failed to commit transaction: '' e), after_rollback P w1)
                | (Inr _, (tx1, ts2)) \<Rightarrow>
                    (let ts3 = fold (\<lambda>wr. appendDeltaOrWarn P ctx (role_entry workerType i at wr)) written ts2
                     in (Inr (), after_rollback P (tx1, invalidateSnapshot workerType i ts3))))))"

definition tombstone_edit :: "int \<Rightarrow> string \<Rightarrow> document \<Rightarrow> (document \<times> diff) option" where
  "tombstone_edit at deletedBy doc =
     (if hasTombstone doc then None
      else Some (fmupd FieldDeletedBy (VString deletedBy) (fmupd FieldDeletedAt (VTime at) doc),
             \<lparr>Added = fmap_of_list [(FieldDeletedAt, VTime at), (FieldDeletedBy, VString deletedBy)], Modified = fmempty, Removed = []\<rparr>))"

definition clear_edit :: "document \<Rightarrow> (document \<times> diff) option" where
  "clear_edit doc =
     (if \<not> hasTombstone doc then None
      else Some (fmdrop FieldDeletedBy (fmdrop FieldDeletedAt doc),
             \<lparr>Added = fmempty, Modified = fmempty, Removed = [FieldDeletedAt, FieldDeletedBy]\<rparr>))"

definition Tombstone ::
  "('s, 't) store_ops \<Rightarrow> gcontext \<Rightarrow> (nat \<Rightarrow> int) \<Rightarrow> string \<Rightarrow> string \<Rightarrow> string \<Rightarrow> ('s tri_store, unit) act" where
  "Tombstone P ctx now workerType i deletedBy =
     wrapped (''failed to tombstone '' @ workerType @ ''/'' @ i @ '': '')
       (editRoleDocuments P ctx (now 0) workerType i (tombstone_edit (now 0) deletedBy))"

definition ClearTombstone ::
  "('s, 't) store_ops \<Rightarrow> gcontext \<Rightarrow> (nat \<Rightarrow> int) \<Rightarrow> string \<Rightarrow> string \<Rightarrow> ('s tri_store, unit) act" where
  "ClearTombstone P ctx now workerType i =
     wrapped (''failed to clear tombstone of '' @ workerType @ ''/'' @ i @ '': '')
       (editRoleDocuments P ctx (now 0) workerType i clear_edit)"

section \<open>Snapshots\<close>

definition deepCopyDocument :: "document \<Rightarrow> document" where
  "deepCopyDocument doc = fmmap json_norm doc"

definition cloneSnapshot :: "snapshot \<Rightarrow> snapshot" where
  "cloneSnapshot s = \<lparr>sn_Identity = deepCopyDocument (sn_Identity s),
     sn_Desired = map_option deepCopyDocument (sn_Desired s), sn_Observed = map_option deepCopyDocument (sn_Observed s)\<rparr>"

text \<open>A role that may be missing.\<close>

definition tx_get_optional ::
  "('s, 't) store_ops \<Rightarrow> gcontext \<Rightarrow> string \<Rightarrow> string \<Rightarrow> string \<Rightarrow> ('t \<times> 's tri_store, document option) act" where
  "tx_get_optional P ctx msg c i w =
     (case on_tx (tx_Get P ctx c i) w of
        (Inr doc, w1) \<Rightarrow> (Inr (Some doc), w1)
      | (Inl e, w1) \<Rightarrow> (if errors_is e ErrNotFound then (Inr None, w1) else (Inl (Errorf msg e), w1)))"

definition load_roles :: "('s, 't) store_ops \<Rightarrow> gcontext \<Rightarrow> string \<Rightarrow> string \<Rightarrow> ('t \<times> 's tri_store, snapshot) act" where
  "load_roles P ctx workerType i =
     call (wrapped ''failed to load identity: '' (on_tx (tx_Get P ctx (workerType @ ''_identity'') i))) (\<lambda>identity.
     call (tx_get_optional P ctx ''failed to load desired: '' (workerType @ ''_desired'') i) (\<lambda>desired.
     call (tx_get_optional P ctx ''failed to load observed: '' (workerType @ ''_observed'') i) (\<lambda>observed.
     call (wrapped ''failed to commit transaction: '' (on_tx (tx_Commit P))) (\<lambda>_.
     ret \<lparr>sn_Identity = identity, sn_Desired = desired, sn_Observed = observed\<rparr>))))"

text \<open>
  The two halves of \<^verbatim>\<open>LoadSnapshot\<close>: it reads the documents, and then enters them into the cache
  under the sync counter that it finds at that moment. Other calls may run in between.
\<close>

definition snapshot_read :: "('s, 't) store_ops \<Rightarrow> gcontext \<Rightarrow> string \<Rightarrow> string \<Rightarrow> ('s tri_store, snapshot) act" where
  "snapshot_read P ctx workerType i ts =
     (case on_store (st_BeginTx P ctx) ts of
        (Inl e, ts1) \<Rightarrow> (Inl (Errorf ''failed to begin transaction: '' e), ts1)
      | (Inr tx, ts1) \<Rightarrow> (case load_roles P ctx workerType i (tx, ts1) of (r, w) \<Rightarrow> (r, after_rollback P w)))"

definition snapshot_cache :: "string \<Rightarrow> string \<Rightarrow> snapshot \<Rightarrow> 's tri_store \<Rightarrow> 's tri_store" where
  "snapshot_cache workerType i sn ts =
     ts\<lparr>ts_cache := fmupd (cache_key workerType i) \<lparr>cs_snapshot = sn, cs_syncID = ts_syncID ts\<rparr> (ts_cache ts)\<rparr>"

definition cached_snapshot_of :: "string \<Rightarrow> string \<Rightarrow> 's tri_store \<Rightarrow> snapshot option" where
  "cached_snapshot_of workerType i ts =
     (case fmlookup (ts_cache ts) (cache_key workerType i) of
        None \<Rightarrow> None
      | Some c \<Rightarrow> if cs_syncID c = ts_syncID ts then Some (cs_snapshot c) else None)"

definition LoadSnapshot :: "('s, 't) store_ops \<Rightarrow> gcontext \<Rightarrow> string \<Rightarrow> string \<Rightarrow> ('s tri_store, snapshot) act" where
  "LoadSnapshot P ctx workerType i ts =
     (case cached_snapshot_of workerType i ts of
        Some sn \<Rightarrow> (Inr (cloneSnapshot sn), ts)
      | None \<Rightarrow>
          (case snapshot_read P ctx workerType i ts of
             (Inl e, ts1) \<Rightarrow> (Inl e, ts1)
           | (Inr sn, ts1) \<Rightarrow> (Inr (cloneSnapshot sn), snapshot_cache workerType i sn ts1)))"

definition GetLatestSyncID :: "'s tri_store \<Rightarrow> int" where
  "GetLatestSyncID ts = ts_syncID ts"

definition IncrementSyncID :: "('s tri_store, int) act" where
  "IncrementSyncID ts = (let ts1 = next_sync ts in (Inr (ts_syncID ts1), ts1))"

definition tri_Maintenance :: "('s tri_store, unit) act" where
  "tri_Maintenance ts = (Inr (), ts\<lparr>ts_cache := fmempty\<rparr>)"

definition tri_Close :: "('s, 't) store_ops \<Rightarrow> ('s tri_store, unit) act" where
  "tri_Close P = on_store (st_Close P background)"

end
