(* ===== verification/Triangular_Laws.thy ===== *)
theory Triangular_Laws
  imports Triangular_Store
begin

text \<open>
  What the operations of the triangular store do to the documents, the sync counter, the log of
  deltas and the cache, for every document store that keeps its promises.
\<close>

section \<open>Names\<close>

lemmas field_names = FieldSyncID_def FieldVersion_def FieldCreatedAt_def FieldUpdatedAt_def FieldDeletedAt_def FieldDeletedBy_def

lemma role_collection_not_deltas [simp]: "role_collection workerType r \<noteq> DeltaCollectionName"
proof
  assume "role_collection workerType r = DeltaCollectionName"
  then have "last (role_collection workerType r) = last DeltaCollectionName" by simp
  then show False by (cases r) (simp_all add: role_collection_def DeltaCollectionName_def)
qed

lemma role_collection_inj [simp]: "role_collection v q = role_collection w r \<longleftrightarrow> v = w \<and> q = r"
proof
  assume eq: "role_collection v q = role_collection w r"
  then have "rev (role_collection v q) = rev (role_collection w r)" by simp
  then show "v = w \<and> q = r" by (cases q; cases r) (simp_all add: role_collection_def)
qed simp

lemma role_names:
  "workerType @ ''_identity'' = role_collection workerType RoleIdentity"
  "workerType @ ''_desired'' = role_collection workerType RoleDesired"
  "workerType @ ''_observed'' = role_collection workerType RoleObserved"
  by (simp_all add: role_collection_def)

fun role_of_name :: "string \<Rightarrow> role option" where
  "role_of_name n = (if n = role_name RoleIdentity then Some RoleIdentity
     else if n = role_name RoleDesired then Some RoleDesired
     else if n = role_name RoleObserved then Some RoleObserved else None)"

lemma role_of_name_role [simp]: "role_of_name (role_name r) = Some r"
  by (cases r) simp_all

text \<open>Worker types as the interface asks for them: no underscore.\<close>

definition plain_type :: "string \<Rightarrow> bool" where
  "plain_type w \<longleftrightarrow> CHR ''_'' \<notin> set w"

lemma split_at_char: "c \<notin> set xs \<Longrightarrow> c \<notin> set ys \<Longrightarrow> xs @ c # us = ys @ c # vs \<Longrightarrow> xs = ys \<and> us = vs"
proof (induction xs arbitrary: ys)
  case Nil
  then show ?case by (cases ys) auto
next
  case (Cons x xs)
  then show ?case by (cases ys) auto
qed

lemma cache_key_inj: "plain_type v \<Longrightarrow> plain_type w \<Longrightarrow> cache_key v i = cache_key w j \<longleftrightarrow> v = w \<and> i = j"
  unfolding plain_type_def cache_key_def using split_at_char [of "CHR ''_''" v w i j] by auto

section \<open>What clients see\<close>

text \<open>The fields of a document that deltas speak of, and the document as JSON renders them.\<close>

definition hidden_fields :: "string list" where
  "hidden_fields = [''id'', FieldSyncID, FieldVersion, FieldCreatedAt, FieldUpdatedAt]"

definition visible :: "document \<Rightarrow> document" where
  "visible d = fmfilter (\<lambda>k. k \<notin> set hidden_fields) d"

type_synonym client_view = "string \<Rightarrow> string \<Rightarrow> role \<Rightarrow> document"

definition view_of :: "docs_view \<Rightarrow> client_view" where
  "view_of D w i r = (case D (role_collection w r) i of None \<Rightarrow> fmempty | Some d \<Rightarrow> fmmap json_norm (visible d))"

definition set_view :: "client_view \<Rightarrow> string \<Rightarrow> string \<Rightarrow> role \<Rightarrow> document \<Rightarrow> client_view" where
  "set_view M w i r d = M(w := (M w)(i := (M w i)(r := d)))"

text \<open>A client that applies one entry of the log to its copy.\<close>

definition apply_entry :: "delta_entry \<Rightarrow> client_view \<Rightarrow> client_view" where
  "apply_entry e M = (case role_of_name (de_Role e) of
       None \<Rightarrow> M
     | Some r \<Rightarrow> set_view M (de_WorkerType e) (de_ID e) r (visible (patch_opt (de_Changes e) (M (de_WorkerType e) (de_ID e) r))))"

definition read_back :: "delta_entry \<Rightarrow> delta_entry" where
  "read_back e = documentToEntry (entry_doc e)"

text \<open>
  The entries \<open>es\<close> were appended between two states, and they say what changed. States are the
  documents of the store with the sync counter.
\<close>

definition logged :: "docs_view \<Rightarrow> int \<Rightarrow> delta_entry list \<Rightarrow> docs_view \<Rightarrow> int \<Rightarrow> bool" where
  "logged D n es D' n' \<longleftrightarrow>
     n \<le> n' \<and> sorted_wrt (<) (map de_SyncID es) \<and> (\<forall>e \<in> set es. n < de_SyncID e \<and> de_SyncID e \<le> n')
     \<and> (\<forall>k. D' DeltaCollectionName k =
          (case find (\<lambda>e. FormatInt (de_SyncID e) = k) es of Some e \<Rightarrow> Some (entry_doc e) | None \<Rightarrow> D DeltaCollectionName k))
     \<and> view_of D' = fold apply_entry (map read_back es) (view_of D)"

text \<open>The log holds entries under their own sync number, none beyond the counter.\<close>

definition log_ok :: "docs_view \<Rightarrow> int \<Rightarrow> bool" where
  "log_ok D n \<longleftrightarrow> 0 \<le> n \<and> (\<forall>m>n. D DeltaCollectionName (FormatInt m) = None)
     \<and> (\<forall>k d. D DeltaCollectionName k = Some d \<longrightarrow> (\<exists>e. d = entry_doc e \<and> k = FormatInt (de_SyncID e)))"

lemma view_of_set_role:
  "view_of (set_doc D (role_collection w r) i (Some d)) = set_view (view_of D) w i r (fmmap json_norm (visible d))"
  by (intro ext) (auto simp: view_of_def set_doc_apply set_view_def)

lemma view_of_set_delta [simp]: "view_of (set_doc D DeltaCollectionName k v) = view_of D"
  by (intro ext) (simp add: view_of_def)

lemma logged_refl: "logged D n [] D n"
  by (simp add: logged_def)

lemma logged_same: "n \<le> n' \<Longrightarrow> D' DeltaCollectionName = D DeltaCollectionName \<Longrightarrow> view_of D' = view_of D \<Longrightarrow> logged D n [] D' n'"
  by (simp add: logged_def)

lemma find_append: "find p (xs @ ys) = (case find p xs of Some x \<Rightarrow> Some x | None \<Rightarrow> find p ys)"
  by (induction xs) auto

lemma logged_find_None:
  "logged D n es D' n' \<Longrightarrow> m \<le> n \<or> n' < m \<Longrightarrow> find (\<lambda>e. FormatInt (de_SyncID e) = FormatInt m) es = None"
  by (force simp: logged_def find_None_iff)

lemma logged_trans:
  assumes a: "logged D n es D' n'" and b: "logged D' n' fs D'' n''"
  shows "logged D n (es @ fs) D'' n''"
proof -
  have "find (\<lambda>e. FormatInt (de_SyncID e) = k) fs = None" if "find (\<lambda>e. FormatInt (de_SyncID e) = k) es = Some e" for k e
  proof -
    have "e \<in> set es" "k = FormatInt (de_SyncID e)" using that by (auto simp: find_Some_iff in_set_conv_nth)
    then show ?thesis using logged_find_None [OF b, of "de_SyncID e"] a by (auto simp: logged_def)
  qed
  then have "D'' DeltaCollectionName k = (case find (\<lambda>e. FormatInt (de_SyncID e) = k) (es @ fs) of
      Some e \<Rightarrow> Some (entry_doc e) | None \<Rightarrow> D DeltaCollectionName k)" for k
    using a b by (cases "find (\<lambda>e. FormatInt (de_SyncID e) = k) es"; cases "find (\<lambda>e. FormatInt (de_SyncID e) = k) fs")
      (auto simp: logged_def find_append)
  moreover have "sorted_wrt (<) (map de_SyncID (es @ fs))"
    using a b unfolding logged_def by (fastforce simp: sorted_wrt_append)
  ultimately show ?thesis
    using a b unfolding logged_def by fastforce
qed

lemma log_ok_logged: "log_ok D n \<Longrightarrow> logged D n es D' n' \<Longrightarrow> log_ok D' n'"
  using logged_find_None [of D n es D' n']
  by (auto simp: log_ok_def logged_def find_Some_iff split: option.splits)

section \<open>A save changes what its delta says\<close>

text \<open>A stored document has both tombstone fields or neither.\<close>

definition tomb_ok :: "document \<Rightarrow> bool" where
  "tomb_ok d \<longleftrightarrow> (if hasTombstone d then fmlookup d FieldDeletedBy \<noteq> None
     else fmlookup d FieldDeletedAt = None \<and> fmlookup d FieldDeletedBy = None)"

definition written_doc :: "document option \<Rightarrow> document \<Rightarrow> save_options \<Rightarrow> int \<Rightarrow> int \<Rightarrow> document" where
  "written_doc existing doc opts syncID now =
     injectMetadataWithOptions (fmupd FieldSyncID (VInt64 syncID) (merged_document existing doc opts)) opts (existing = None) now"

definition save_diff :: "map_order \<Rightarrow> document option \<Rightarrow> document \<Rightarrow> role \<Rightarrow> diff option" where
  "save_diff ord existing doc r = (case existing of
       None \<Rightarrow> computeCreatedDiff doc r
     | Some old \<Rightarrow> computeDiff ord (business r old) (business r doc))"

definition base_of :: "document option \<Rightarrow> document" where
  "base_of existing = (case existing of None \<Rightarrow> fmempty | Some d \<Rightarrow> visible d)"

definition is_tomb_field :: "string \<Rightarrow> bool" where
  "is_tomb_field k \<longleftrightarrow> k = FieldDeletedAt \<or> k = FieldDeletedBy"

lemma tomb_not_hidden: "is_tomb_field k \<Longrightarrow> k \<notin> set hidden_fields"
  by (auto simp: is_tomb_field_def hidden_fields_def field_names)

lemma cse_fields: "set (getCSEFields r) \<subseteq> set hidden_fields \<union> {FieldDeletedAt, FieldDeletedBy}"
    "{FieldDeletedAt, FieldDeletedBy} \<subseteq> set (getCSEFields r)"
  by (cases r; auto simp: IdentityCSEFields_def DesiredCSEFields_def ObservedCSEFields_def hidden_fields_def)+

lemma business_lookup:
  "k \<notin> set hidden_fields \<Longrightarrow> fmlookup (business r d) k = (if is_tomb_field k then None else fmlookup d k)"
  using cse_fields [of r] by (auto simp: business_def filterCSEFields_def is_tomb_field_def hidden_fields_def)

lemma inject_lookup:
  "k \<notin> set hidden_fields \<Longrightarrow> fmlookup (injectMetadataWithOptions d opts new now) k = fmlookup d k"
  by (auto simp: injectMetadataWithOptions_def hidden_fields_def Let_def)

lemma merged_lookup:
  "k \<notin> set hidden_fields \<Longrightarrow> fmlookup (merged_document existing doc opts) k =
    (if is_tomb_field k
     then case existing of None \<Rightarrow> None | Some old \<Rightarrow> if hasTombstone old then Some (field old k) else None
     else fmlookup doc k)"
  by (auto simp: merged_document_def Let_def is_tomb_field_def hidden_fields_def field_names split: option.split)

lemma written_lookup:
  "k \<notin> set hidden_fields \<Longrightarrow> fmlookup (written_doc existing doc opts n now) k = fmlookup (merged_document existing doc opts) k"
  by (auto simp: written_doc_def inject_lookup hidden_fields_def)

lemma tomb_ok_lookup:
  "tomb_ok d \<Longrightarrow> is_tomb_field k \<Longrightarrow> (if hasTombstone d then Some (field d k) else None) = fmlookup d k"
  by (auto simp: tomb_ok_def is_tomb_field_def hasTombstone_def field_def split: option.splits if_splits)

lemma written_tomb_ok: "(\<And>d. existing = Some d \<Longrightarrow> tomb_ok d) \<Longrightarrow> tomb_ok (written_doc existing doc opts n now)"
proof -
  assume ok: "\<And>d. existing = Some d \<Longrightarrow> tomb_ok d"
  have "fmlookup (written_doc existing doc opts n now) k = (case existing of None \<Rightarrow> None | Some old \<Rightarrow> fmlookup old k)"
    if "is_tomb_field k" for k
    using that written_lookup [OF tomb_not_hidden [OF that]] merged_lookup [OF tomb_not_hidden [OF that]] tomb_ok_lookup [OF ok that]
    by (auto split: option.split)
  then have "fmlookup (written_doc existing doc opts n now) FieldDeletedAt = (case existing of None \<Rightarrow> None | Some old \<Rightarrow> fmlookup old FieldDeletedAt)"
      "fmlookup (written_doc existing doc opts n now) FieldDeletedBy = (case existing of None \<Rightarrow> None | Some old \<Rightarrow> fmlookup old FieldDeletedBy)"
    by (simp_all add: is_tomb_field_def)
  then show ?thesis
    using ok by (cases existing) (auto simp: tomb_ok_def hasTombstone_def field_def)
qed

lemma patch_local: "fmlookup m k = fmlookup m' k \<Longrightarrow> fmlookup (patch_opt d m) k = fmlookup (patch_opt d m') k"
  by (cases d) (simp_all add: patch_opt_def patch_def)

lemma computeDiff_untouched:
  "range_order ord \<Longrightarrow> fmlookup a k = None \<Longrightarrow> fmlookup b k = None \<Longrightarrow> fmlookup (patch_opt (computeDiff ord a b) m) k = fmlookup m k"
  by (auto simp: patch_opt_def patch_def computeDiff_def Let_def fset_of_list.rep_eq range_order_set fmlookup_dom_iff
      split: option.splits)

lemma visible_lookup [simp]: "fmlookup (visible d) k = (if k \<in> set hidden_fields then None else fmlookup d k)"
  by (simp add: visible_def)

lemma created_patch:
  "k \<notin> set hidden_fields \<Longrightarrow> fmlookup (patch_opt (computeCreatedDiff doc r) fmempty) k = (if is_tomb_field k then None else fmlookup doc k)"
proof -
  assume k: "k \<notin> set hidden_fields"
  let ?a = "fmfilter (\<lambda>k. k \<notin> set (getCSEFields r) \<and> k \<noteq> ''id'') doc"
  have "patch_opt (computeCreatedDiff doc r) fmempty = ?a"
    by (auto simp: computeCreatedDiff_def patch_opt_def patch_def Let_def intro!: fmap_ext)
  then show ?thesis
    using k cse_fields [of r] by (auto simp: is_tomb_field_def hidden_fields_def)
qed

lemma save_diff_exact:
  assumes ord: "range_order ord" and ok: "\<And>d. existing = Some d \<Longrightarrow> tomb_ok d"
  shows "visible (patch_opt (save_diff ord existing doc r) (base_of existing)) = visible (written_doc existing doc opts n now)"
proof (rule fmap_ext)
  fix k
  have "fmlookup (patch_opt (save_diff ord existing doc r) (base_of existing)) k = fmlookup (merged_document existing doc opts) k"
    if k: "k \<notin> set hidden_fields"
  proof (cases existing)
    case None
    then show ?thesis using k created_patch [OF k] merged_lookup [OF k, of None] by (simp add: save_diff_def base_of_def)
  next
    case (Some old)
    let ?a = "business r old" and ?b = "business r doc"
    show ?thesis
    proof (cases "is_tomb_field k")
      case True
      then have "fmlookup (patch_opt (computeDiff ord ?a ?b) (visible old)) k = fmlookup old k"
        using computeDiff_untouched [OF ord, of ?a k ?b] business_lookup [OF k] k by simp
      then show ?thesis using True Some ok [OF Some] merged_lookup [OF k, of existing] tomb_ok_lookup [of old k]
        by (simp add: save_diff_def base_of_def)
    next
      case False
      have "fmlookup (patch_opt (computeDiff ord ?a ?b) (visible old)) k = fmlookup (patch_opt (computeDiff ord ?a ?b) ?a) k"
        using k False business_lookup [OF k, of r old] by (intro patch_local) simp
      then show ?thesis
        using False Some k merged_lookup [OF k, of existing] business_lookup [OF k, of r doc]
        by (simp add: save_diff_def base_of_def computeDiff_patch [OF ord])
    qed
  qed
  then show "fmlookup (visible (patch_opt (save_diff ord existing doc r) (base_of existing))) k = fmlookup (visible (written_doc existing doc opts n now)) k"
    by (simp add: written_lookup)
qed

section \<open>Writes with their log entries\<close>

definition docs_ok :: "docs_view \<Rightarrow> bool" where
  "docs_ok D \<longleftrightarrow> (\<forall>w r i d. D (role_collection w r) i = Some d \<longrightarrow> tomb_ok d)"

lemma docs_ok_set_role: "docs_ok D \<Longrightarrow> tomb_ok d \<Longrightarrow> docs_ok (set_doc D (role_collection w r) i (Some d))"
  by (auto simp: docs_ok_def set_doc_apply split: if_splits)

lemma docs_ok_set_delta [simp]: "docs_ok (set_doc D DeltaCollectionName k v) = docs_ok D"
  by (simp add: docs_ok_def)

lemma view_of_base: "view_of D w i r = fmmap json_norm (base_of (D (role_collection w r) i))"
  by (cases "D (role_collection w r) i") (auto simp: view_of_def base_of_def intro!: fmap_ext)

lemma visible_norm: "visible (fmmap json_norm d) = fmmap json_norm (visible d)"
  by (rule fmap_ext) simp

lemma patch_opt_norm: "patch_opt (map_option norm_diff d) (fmmap json_norm m) = fmmap json_norm (patch_opt d m)"
  by (cases d) (simp_all add: patch_opt_def patch_norm)

lemma apply_read_back:
  assumes "de_Role e = role_name r" "visible doc = visible (patch_opt (de_Changes e) (base_of (D (role_collection (de_WorkerType e) r) (de_ID e))))"
  shows "apply_entry (read_back e) (view_of D) = view_of (set_doc D (role_collection (de_WorkerType e) r) (de_ID e) (Some doc))"
  using assms
  by (simp add: apply_entry_def read_back_def delta_entry_norm view_of_set_role view_of_base patch_opt_norm visible_norm
      del: role_of_name.simps)

lemma logged_entry:
  assumes "de_SyncID e = n + 1" "de_Role e = role_name r"
    "visible doc = visible (patch_opt (de_Changes e) (base_of (D (role_collection (de_WorkerType e) r) (de_ID e))))"
  shows "logged D n [e] (set_doc (set_doc D (role_collection (de_WorkerType e) r) (de_ID e) (Some doc))
      DeltaCollectionName (FormatInt (n + 1)) (Some (entry_doc e))) (n + 1)"
proof -
  note ap = apply_read_back [of e r doc D, OF assms(2), OF assms(3)]
  show ?thesis using assms(1) by (auto simp: logged_def ap set_doc_apply not_sym [OF role_collection_not_deltas])
qed

lemma logged_silent:
  assumes "n \<le> n'" "visible doc = base_of (D (role_collection w r) i)"
  shows "logged D n [] (set_doc D (role_collection w r) i (Some doc)) n'"
proof -
  have "view_of (set_doc D (role_collection w r) i (Some doc)) = view_of D"
    unfolding view_of_set_role by (intro ext) (auto simp: assms(2) view_of_base set_view_def)
  then show ?thesis
    using assms(1) by (intro logged_same) (auto simp: not_sym [OF role_collection_not_deltas])
qed

text \<open>The edits of a worker's documents, on documents.\<close>

fun edit_abs ::
  "string \<Rightarrow> string \<Rightarrow> (document \<Rightarrow> (document \<times> diff) option) \<Rightarrow> role list \<Rightarrow> docs_view \<Rightarrow> int
    \<Rightarrow> docs_view \<times> (role \<times> int \<times> diff) list" where
  "edit_abs w i edit [] V n = (V, [])"
| "edit_abs w i edit (r # rs) V n =
     (case Option.bind (V (role_collection w r) i) edit of
        None \<Rightarrow> edit_abs w i edit rs V n
      | Some (doc, d) \<Rightarrow>
          (case edit_abs w i edit rs (set_doc V (role_collection w r) i (Some (fmupd FieldSyncID (VInt64 (n + 1)) doc))) (n + 1) of
             (V', written) \<Rightarrow> (V', (r, n + 1, d) # written)))"

definition add_deltas :: "delta_entry list \<Rightarrow> docs_view \<Rightarrow> docs_view" where
  "add_deltas = fold (\<lambda>e V. set_doc V DeltaCollectionName (FormatInt (de_SyncID e)) (Some (entry_doc e)))"

definition edit_ok :: "(document \<Rightarrow> (document \<times> diff) option) \<Rightarrow> bool" where
  "edit_ok edit \<longleftrightarrow> (\<forall>old doc d. tomb_ok old \<longrightarrow> edit old = Some (doc, d) \<longrightarrow> tomb_ok doc \<and> visible doc = visible (patch d (visible old)))"

lemma tomb_ok_sync [simp]: "tomb_ok (fmupd FieldSyncID v d) = tomb_ok d"
  by (simp add: tomb_ok_def hasTombstone_def field_def field_names)

lemma visible_sync [simp]: "visible (fmupd FieldSyncID v d) = visible d"
  by (rule fmap_ext) (simp add: hidden_fields_def)

lemma edit_abs_delta:
  "edit_abs w i edit rs (set_doc V DeltaCollectionName k v) n = (case edit_abs w i edit rs V n of (V', wr) \<Rightarrow> (set_doc V' DeltaCollectionName k v, wr))"
proof (induction rs arbitrary: V n)
  case (Cons r rs)
  have swap: "set_doc (set_doc V DeltaCollectionName k v) (role_collection w r) i x = set_doc (set_doc V (role_collection w r) i x) DeltaCollectionName k v" for x
    by (intro ext) (auto simp: set_doc_apply)
  show ?case by (simp add: Cons swap split: option.split prod.split)
qed simp

lemma edit_abs_length: "edit_abs w i edit rs V n = (V', wr) \<Longrightarrow> length wr \<le> length rs"
  by (induction rs arbitrary: V n V' wr) (auto split: option.splits prod.splits, force+)

lemma edit_abs_logged:
  assumes "edit_ok edit" "docs_ok V" "edit_abs w i edit rs V n = (V', wr)"
  shows "logged V n (map (role_entry w i at) wr) (add_deltas (map (role_entry w i at) wr) V') (n + int (length wr)) \<and> docs_ok V'"
  using assms(2,3)
proof (induction rs arbitrary: V n V' wr)
  case Nil
  then show ?case by (simp add: logged_refl add_deltas_def)
next
  case (Cons r rs)
  let ?c = "role_collection w r"
  show ?case
  proof (cases "Option.bind (V ?c i) edit")
    case None
    then show ?thesis using Cons by simp
  next
    case (Some p)
    obtain doc d where p: "p = (doc, d)" by force
    obtain old where old: "V ?c i = Some old" "edit old = Some (doc, d)" using Some p by (auto simp: bind_eq_Some_conv)
    have t: "tomb_ok old" using Cons.prems(1) old(1) by (auto simp: docs_ok_def)
    note e = assms(1) [unfolded edit_ok_def, rule_format, OF t old(2)]
    define doc' where "doc' = fmupd FieldSyncID (VInt64 (n + 1)) doc"
    obtain wr1 where rec: "edit_abs w i edit rs (set_doc V ?c i (Some doc')) (n + 1) = (V', wr1)" and wr: "wr = (r, n + 1, d) # wr1"
      using Cons.prems(2) Some p by (auto simp: doc'_def split: prod.splits)
    define e1 where "e1 = role_entry w i at (r, n + 1, d)"
    have e1: "de_SyncID e1 = n + 1" "de_WorkerType e1 = w" "de_ID e1 = i" "de_Role e1 = role_name r" "de_Changes e1 = Some d"
      by (simp_all add: e1_def role_entry_def)
    define D1 where "D1 = set_doc (set_doc V ?c i (Some doc')) DeltaCollectionName (FormatInt (n + 1)) (Some (entry_doc e1))"
    have l1: "logged V n [e1] D1 (n + 1)"
      using logged_entry [OF e1(1,4), of doc' V] e1 e old(1) by (simp add: D1_def doc'_def patch_opt_def base_of_def)
    have ok1: "docs_ok D1" using Cons.prems(1) e by (simp add: D1_def doc'_def docs_ok_set_role)
    have rec1: "edit_abs w i edit rs D1 (n + 1) = (set_doc V' DeltaCollectionName (FormatInt (n + 1)) (Some (entry_doc e1)), wr1)"
      unfolding D1_def by (simp add: edit_abs_delta rec)
    note ih = Cons.IH [OF ok1 rec1]
    have "add_deltas (map (role_entry w i at) wr) V'
        = add_deltas (map (role_entry w i at) wr1) (set_doc V' DeltaCollectionName (FormatInt (n + 1)) (Some (entry_doc e1)))"
      by (simp add: add_deltas_def wr e1_def [symmetric] e1)
    then show ?thesis using ih logged_trans [OF l1 conjunct1 [OF ih]] by (simp add: wr e1_def [symmetric] add.assoc)
  qed
qed

section \<open>The operations on a store that keeps its promises\<close>

text \<open>
  One operation turned state \<open>ts\<close> into \<open>ts'\<close>: the entries \<open>es\<close> were appended, the documents stay
  well formed, the counter moved by at most three, and a cache entry that is still there was there
  before.
\<close>

definition evolves :: "('s \<Rightarrow> docs_view) \<Rightarrow> 's tri_store \<Rightarrow> delta_entry list \<Rightarrow> 's tri_store \<Rightarrow> bool" where
  "evolves docs ts es ts' \<longleftrightarrow>
     logged (docs (ts_store ts)) (ts_syncID ts) es (docs (ts_store ts')) (ts_syncID ts')
     \<and> docs_ok (docs (ts_store ts')) \<and> ts_syncID ts' \<le> ts_syncID ts + 3"

definition store_ok :: "('s \<Rightarrow> docs_view) \<Rightarrow> 's tri_store \<Rightarrow> bool" where
  "store_ok docs ts \<longleftrightarrow> log_ok (docs (ts_store ts)) (ts_syncID ts) \<and> docs_ok (docs (ts_store ts))"

lemma store_ok_evolves: "store_ok docs ts \<Longrightarrow> evolves docs ts es ts' \<Longrightarrow> store_ok docs ts'"
  by (auto simp: store_ok_def evolves_def intro: log_ok_logged)

lemma evolves_refl: "docs_ok (docs (ts_store ts)) \<Longrightarrow> ts_store ts' = ts_store ts \<Longrightarrow> ts_syncID ts' = ts_syncID ts \<Longrightarrow> evolves docs ts [] ts'"
  by (simp add: evolves_def logged_refl)

lemma doc_id_entry [simp]: "doc_id (entry_doc e) = Some (FormatInt (de_SyncID e))"
  by (simp add: doc_id_def entry_doc_def Let_def str_field_def field_def split: option.split)

lemma doc_id_written: "doc_id (written_doc existing doc opts n now) = doc_id doc"
proof -
  have "fmlookup (written_doc existing doc opts n now) ''id'' = fmlookup doc ''id''"
    by (auto simp: written_doc_def injectMetadataWithOptions_def merged_document_def Let_def field_names split: option.split)
  then show ?thesis by (simp add: doc_id_def str_field_def field_def)
qed

lemma next_sync_eq: "0 \<le> ts_syncID ts \<Longrightarrow> ts_syncID ts < max_int64 \<Longrightarrow> next_sync ts = ts\<lparr>ts_syncID := ts_syncID ts + 1\<rparr>"
  by (simp add: next_sync_def)

text \<open>The state after a save that wrote a new version.\<close>

definition saved_docs ::
  "docs_view \<Rightarrow> int \<Rightarrow> string \<Rightarrow> string \<Rightarrow> role \<Rightarrow> document \<Rightarrow> diff option \<Rightarrow> int \<Rightarrow> docs_view" where
  "saved_docs D n w i r doc d at =
     (let D1 = set_doc D (role_collection w r) i (Some doc)
      in case d of
           None \<Rightarrow> D1
         | Some _ \<Rightarrow> set_doc D1 DeltaCollectionName (FormatInt n)
             (Some (entry_doc \<lparr>de_SyncID = n, de_WorkerType = w, de_ID = i, de_Role = role_name r, de_Changes = d, de_Timestamp = at\<rparr>)))"

lemma edit_abs_deltas: "edit_abs w i edit rs V n = (V', wr) \<Longrightarrow> V' DeltaCollectionName = V DeltaCollectionName"
proof (induction rs arbitrary: V n V' wr)
  case (Cons r rs)
  then show ?case
    by (fastforce simp: not_sym [OF role_collection_not_deltas] split: option.splits prod.splits)
qed simp

lemma edit_ok_tombstone: "edit_ok (tombstone_edit at deletedBy)"
proof -
  have "visible (fmupd FieldDeletedBy (VString deletedBy) (fmupd FieldDeletedAt (VTime at) old)) =
      visible (patch \<lparr>Added = fmap_of_list [(FieldDeletedAt, VTime at), (FieldDeletedBy, VString deletedBy)], Modified = fmempty, Removed = []\<rparr> (visible old))" for old
    by (rule fmap_ext) (auto simp: patch_def field_names)
  then show ?thesis
    by (auto simp: edit_ok_def tombstone_edit_def tomb_ok_def hasTombstone_def field_def split: if_splits)
qed

lemma edit_ok_clear: "edit_ok clear_edit"
proof -
  have "visible (fmdrop FieldDeletedBy (fmdrop FieldDeletedAt old)) =
      visible (patch \<lparr>Added = fmempty, Modified = fmempty, Removed = [FieldDeletedAt, FieldDeletedBy]\<rparr> (visible old))" for old
    by (rule fmap_ext) (auto simp: patch_def fset_of_list.rep_eq)
  then show ?thesis
    by (auto simp: edit_ok_def clear_edit_def tomb_ok_def hasTombstone_def field_def split: if_splits)
qed

text \<open>The snapshot that the stored documents of a worker make.\<close>

definition snapshot_of :: "docs_view \<Rightarrow> string \<Rightarrow> string \<Rightarrow> snapshot option" where
  "snapshot_of D w i = (case D (role_collection w RoleIdentity) i of
       None \<Rightarrow> None
     | Some d \<Rightarrow> Some \<lparr>sn_Identity = d, sn_Desired = D (role_collection w RoleDesired) i, sn_Observed = D (role_collection w RoleObserved) i\<rparr>)"

context document_store
begin

lemma on_store_Get: "on_store (st_Get P (Some cx) c i) ts = (found (docs (ts_store ts) c i), ts)"
  by (simp add: on_store_def Get)

lemma hierarchyPath_state: "snd (hierarchyPath P (Some cx) w i ts) = ts"
  by (simp add: hierarchyPath_def LoadIdentity_def on_store_Get split: sum.split)

lemma append_effect:
  assumes "docs (ts_store ts) DeltaCollectionName (FormatInt (de_SyncID e)) = None"
  shows "\<exists>s. appendDeltaOrWarn P (Some cx) e ts = ts\<lparr>ts_store := s\<rparr>
    \<and> docs s = set_doc (docs (ts_store ts)) DeltaCollectionName (FormatInt (de_SyncID e)) (Some (entry_doc e))"
  using Insert_new [OF doc_id_entry assms, of cx]
  by (auto simp: appendDeltaOrWarn_def on_store_def Append_def unit_of_def call_def wrapped_def ret_def)

lemma role_write_effect:
  assumes "existing = docs s c i" "doc_id doc = Some i"
  shows "\<exists>s'. (if existing = None then unit_of (st_Insert P (Some cx) c doc) else st_Update P (Some cx) c i doc) s = (Inr (), s')
    \<and> docs s' = set_doc (docs s) c i (Some doc)"
  using Insert_new [OF assms(2), of s c cx] Update_present [of s c i cx doc] assms(1)
  by (auto simp: unit_of_def call_def ret_def)

lemma write_new_version_effect:
  assumes "log_ok (docs (ts_store ts)) (ts_syncID ts)" "ts_syncID ts < max_int64" "doc_id doc = Some i"
    and ex: "existing = docs (ts_store ts) (role_collection w (so_Role opts)) i"
  shows "\<exists>s. write_new_version P (Some cx) now w i doc opts existing chgs d ts =
      (Inr \<lparr>sr_isNew = (existing = None), sr_changed = True, sr_changes = chgs, sr_diff = d\<rparr>,
       ts\<lparr>ts_store := s, ts_syncID := ts_syncID ts + 1, ts_cache := fmdrop (cache_key w i) (ts_cache ts)\<rparr>)
    \<and> docs s = saved_docs (docs (ts_store ts)) (ts_syncID ts + 1) w i (so_Role opts)
        (written_doc existing doc opts (ts_syncID ts + 1) (now 0)) d (now 1)"
proof -
  let ?n = "ts_syncID ts + 1" and ?c = "role_collection w (so_Role opts)"
  define doc' where "doc' = written_doc existing doc opts ?n (now 0)"
  define e where "e = \<lparr>de_SyncID = ?n, de_WorkerType = w, de_ID = i, de_Role = role_name (so_Role opts), de_Changes = d, de_Timestamp = now 1\<rparr>"
  have nx: "next_sync ts = ts\<lparr>ts_syncID := ?n\<rparr>" using assms(1,2) by (simp add: log_ok_def next_sync_eq)
  have "doc_id doc' = Some i" using assms(3) by (simp add: doc'_def doc_id_written)
  moreover define m where "m = (if existing = None then unit_of (st_Insert P (Some cx) ?c doc') else st_Update P (Some cx) ?c i doc')"
  ultimately obtain s1 where w: "m (ts_store ts) = (Inr (), s1)" "docs s1 = set_doc (docs (ts_store ts)) ?c i (Some doc')"
    using role_write_effect [OF ex, of doc' cx] by blast
  let ?ts2 = "ts\<lparr>ts_store := s1, ts_syncID := ?n\<rparr>"
  have step: "on_store m (ts\<lparr>ts_syncID := ?n\<rparr>) = (Inr (), ?ts2)" by (simp add: on_store_def w(1))
  have fresh: "docs (ts_store ?ts2) DeltaCollectionName (FormatInt (de_SyncID e)) = None"
    using assms(1) w(2) by (simp add: e_def log_ok_def not_sym [OF role_collection_not_deltas])
  obtain s where ap: "(if d \<noteq> None then appendDeltaOrWarn P (Some cx) e ?ts2 else ?ts2) = ?ts2\<lparr>ts_store := s\<rparr>"
      and ds: "docs s = saved_docs (docs (ts_store ts)) ?n w i (so_Role opts) doc' d (now 1)"
  proof (cases d)
    case None
    then show thesis using that [of s1] w(2) by (simp add: saved_docs_def)
  next
    case (Some x)
    then show thesis using append_effect [OF fresh, of cx] that w(2) by (auto simp: saved_docs_def e_def)
  qed
  have n: "ts_syncID (ts\<lparr>ts_syncID := ?n\<rparr>) = ?n" by simp
  have "write_new_version P (Some cx) now w i doc opts existing chgs d ts =
      (Inr \<lparr>sr_isNew = (existing = None), sr_changed = True, sr_changes = chgs, sr_diff = d\<rparr>, invalidateSnapshot w i (?ts2\<lparr>ts_store := s\<rparr>))"
    unfolding write_new_version_def Let_def nx n written_doc_def [symmetric] doc'_def [symmetric] m_def [symmetric] step e_def [symmetric]
    by (simp only: prod.case sum.case ap)
  then show ?thesis using ds by (intro exI [of _ s]) (simp add: invalidateSnapshot_def doc'_def)
qed

text \<open>The three ways a save can end.\<close>

definition save_unchanged :: "map_order \<Rightarrow> (nat \<Rightarrow> int) \<Rightarrow> string \<Rightarrow> string \<Rightarrow> document \<Rightarrow> save_options \<Rightarrow> 's tri_store \<Rightarrow> 's tri_store \<Rightarrow> bool" where
  "save_unchanged ord now w i doc opts ts ts' \<longleftrightarrow>
     (\<exists>old. docs (ts_store ts) (role_collection w (so_Role opts)) i = Some old
        \<and> getChangedFields ord (business (so_Role opts) old) (business (so_Role opts) doc) = []
        \<and> (if so_UpdateTimestampOnNoChange opts
           then \<exists>s. ts' = ts\<lparr>ts_store := s, ts_cache := fmdrop (cache_key w i) (ts_cache ts)\<rparr>
             \<and> docs s = set_doc (docs (ts_store ts)) (role_collection w (so_Role opts)) i (Some (fmupd FieldUpdatedAt (VTime (now 0)) old))
           else ts' = ts))"

definition save_written :: "map_order \<Rightarrow> (nat \<Rightarrow> int) \<Rightarrow> string \<Rightarrow> string \<Rightarrow> document \<Rightarrow> save_options \<Rightarrow> 's tri_store \<Rightarrow> diff option \<Rightarrow> 's tri_store \<Rightarrow> bool" where
  "save_written ord now w i doc opts ts d ts' \<longleftrightarrow>
     (let existing = docs (ts_store ts) (role_collection w (so_Role opts)) i; n = ts_syncID ts + 1
      in (\<forall>old. existing = Some old \<longrightarrow> getChangedFields ord (business (so_Role opts) old) (business (so_Role opts) doc) \<noteq> [])
        \<and> d = save_diff ord existing doc (so_Role opts)
        \<and> (\<exists>s. ts' = ts\<lparr>ts_store := s, ts_syncID := n, ts_cache := fmdrop (cache_key w i) (ts_cache ts)\<rparr>
             \<and> docs s = saved_docs (docs (ts_store ts)) n w i (so_Role opts) (written_doc existing doc opts n (now 0)) d (now 1)))"

lemma writeDocument_effect:
  assumes "log_ok (docs (ts_store ts)) (ts_syncID ts)" "ts_syncID ts < max_int64" "doc_id doc = Some i" "\<not> so_SkipDeltaCheck opts"
  obtains ts' where "writeDocument P ord (Some cx) now w i doc opts ts = (Inr no_save, ts')" "save_unchanged ord now w i doc opts ts ts'"
  | ts' new chgs d where "writeDocument P ord (Some cx) now w i doc opts ts =
        (Inr \<lparr>sr_isNew = new, sr_changed = True, sr_changes = chgs, sr_diff = d\<rparr>, ts')"
      "save_written ord now w i doc opts ts d ts'"
proof (cases "docs (ts_store ts) (role_collection w (so_Role opts)) i")
  case None
  have e: "errors_is ErrNotFound ErrNotFound" by (simp add: ErrNotFound_def)
  obtain s where wr: "write_new_version P (Some cx) now w i doc opts None [] (computeCreatedDiff doc (so_Role opts)) ts =
      (Inr \<lparr>sr_isNew = True, sr_changed = True, sr_changes = [], sr_diff = computeCreatedDiff doc (so_Role opts)\<rparr>,
       ts\<lparr>ts_store := s, ts_syncID := ts_syncID ts + 1, ts_cache := fmdrop (cache_key w i) (ts_cache ts)\<rparr>)"
    and ds: "docs s = saved_docs (docs (ts_store ts)) (ts_syncID ts + 1) w i (so_Role opts)
        (written_doc None doc opts (ts_syncID ts + 1) (now 0)) (computeCreatedDiff doc (so_Role opts)) (now 1)"
    using write_new_version_effect [OF assms(1-3) None [symmetric], of cx now "[]" "computeCreatedDiff doc (so_Role opts)"] by auto
  show thesis
  proof (rule that(2))
    show "writeDocument P ord (Some cx) now w i doc opts ts =
      (Inr \<lparr>sr_isNew = True, sr_changed = True, sr_changes = [], sr_diff = computeCreatedDiff doc (so_Role opts)\<rparr>,
       ts\<lparr>ts_store := s, ts_syncID := ts_syncID ts + 1, ts_cache := fmdrop (cache_key w i) (ts_cache ts)\<rparr>)"
      using wr None assms(4) e by (simp add: writeDocument_def on_store_Get found_def)
    show "save_written ord now w i doc opts ts (computeCreatedDiff doc (so_Role opts))
       (ts\<lparr>ts_store := s, ts_syncID := ts_syncID ts + 1, ts_cache := fmdrop (cache_key w i) (ts_cache ts)\<rparr>)"
      unfolding save_written_def Let_def None save_diff_def using ds by auto
  qed
next
  case (Some old)
  let ?b = "business (so_Role opts)"
  show thesis
  proof (cases "getChangedFields ord (?b old) (?b doc) = []")
    case True
    obtain s where "so_UpdateTimestampOnNoChange opts \<Longrightarrow> st_Update P (Some cx) (role_collection w (so_Role opts)) i (fmupd FieldUpdatedAt (VTime (now 0)) old) (ts_store ts) = (Inr (), s)"
        "so_UpdateTimestampOnNoChange opts \<Longrightarrow> docs s = set_doc (docs (ts_store ts)) (role_collection w (so_Role opts)) i (Some (fmupd FieldUpdatedAt (VTime (now 0)) old))"
      using Update_present [of "ts_store ts" "role_collection w (so_Role opts)" i cx "fmupd FieldUpdatedAt (VTime (now 0)) old"] Some by auto
    then show thesis
      using True Some assms(4)
      by (intro that(1) [of "if so_UpdateTimestampOnNoChange opts then ts\<lparr>ts_store := s, ts_cache := fmdrop (cache_key w i) (ts_cache ts)\<rparr> else ts"])
        (auto simp: writeDocument_def Get found_def performDeltaCheck_def Let_def touch_unchanged_def save_unchanged_def
          on_store_def invalidateSnapshot_def)
  next
    case False
    let ?chgs = "getChangedFields ord (?b old) (?b doc)" and ?d = "computeDiff ord (?b old) (?b doc)"
    obtain s where wr: "write_new_version P (Some cx) now w i doc opts (Some old) ?chgs ?d ts =
        (Inr \<lparr>sr_isNew = False, sr_changed = True, sr_changes = ?chgs, sr_diff = ?d\<rparr>,
         ts\<lparr>ts_store := s, ts_syncID := ts_syncID ts + 1, ts_cache := fmdrop (cache_key w i) (ts_cache ts)\<rparr>)"
      and ds: "docs s = saved_docs (docs (ts_store ts)) (ts_syncID ts + 1) w i (so_Role opts)
          (written_doc (Some old) doc opts (ts_syncID ts + 1) (now 0)) ?d (now 1)"
      using write_new_version_effect [OF assms(1-3) Some [symmetric], of cx now ?chgs ?d] by auto
    show thesis
    proof (rule that(2))
      show "writeDocument P ord (Some cx) now w i doc opts ts =
        (Inr \<lparr>sr_isNew = False, sr_changed = True, sr_changes = ?chgs, sr_diff = ?d\<rparr>,
         ts\<lparr>ts_store := s, ts_syncID := ts_syncID ts + 1, ts_cache := fmdrop (cache_key w i) (ts_cache ts)\<rparr>)"
        using wr Some assms(4) False by (simp add: writeDocument_def on_store_Get found_def performDeltaCheck_def Let_def)
      show "save_written ord now w i doc opts ts ?d
         (ts\<lparr>ts_store := s, ts_syncID := ts_syncID ts + 1, ts_cache := fmdrop (cache_key w i) (ts_cache ts)\<rparr>)"
        unfolding save_written_def Let_def Some save_diff_def using ds False by auto
    qed
  qed
qed

lemma saveWithDelta_effect:
  assumes "log_ok (docs (ts_store ts)) (ts_syncID ts)" "ts_syncID ts < max_int64" "\<not> so_SkipDeltaCheck opts"
    and run: "saveWithDelta P ord (Some cx) now w i doc0 opts ts = (res, ts')"
  obtains (rejected) e where "res = Inl e" "ts' = ts" "\<nexists>doc. doc0 = Some doc \<and> doc_id doc = Some i"
  | (unchanged) doc where "doc0 = Some doc" "doc_id doc = Some i" "res = Inr (False, None)" "save_unchanged ord now w i doc opts ts ts'"
  | (written) doc d where "doc0 = Some doc" "doc_id doc = Some i" "res = Inr (True, d)" "save_written ord now w i doc opts ts d ts'"
proof (cases "\<exists>doc. doc0 = Some doc \<and> doc_id doc = Some i")
  case False
  then have "\<exists>e. saveWithDelta P ord (Some cx) now w i doc0 opts ts = (Inl e, ts)"
    by (auto simp: saveWithDelta_def split: option.split)
  then show thesis using run rejected False by auto
next
  case True
  then obtain doc where doc: "doc0 = Some doc" "doc_id doc = Some i" by blast
  show thesis
  proof (rule writeDocument_effect [OF assms(1,2) doc(2) assms(3)])
    fix ts1
    assume "writeDocument P ord (Some cx) now w i doc opts ts = (Inr no_save, ts1)" "save_unchanged ord now w i doc opts ts ts1"
    then show thesis
      using run doc by (intro unchanged [OF doc]) (auto simp: saveWithDelta_def no_save_def hierarchyPath_state Let_def)
  next
    fix ts1 new chgs d
    assume "writeDocument P ord (Some cx) now w i doc opts ts = (Inr \<lparr>sr_isNew = new, sr_changed = True, sr_changes = chgs, sr_diff = d\<rparr>, ts1)"
      "save_written ord now w i doc opts ts d ts1"
    then show thesis
      using run doc by (intro written [OF doc]) (auto simp: saveWithDelta_def hierarchyPath_state Let_def)
  qed
qed

lemma after_rollback_state: "after_rollback P (t, ts) = ts"
  using tx_Rollback [of t "ts_store ts"] by (auto simp: after_rollback_def on_tx_def split: prod.split)

lemma on_tx_Get: "active t \<Longrightarrow> on_tx (tx_Get P (Some cx) c i) (t, ts) = (found (tdocs (t, ts_store ts) c i), (t, ts))"
  by (simp add: on_tx_def tx_Get)

lemma edit_roles_effect:
  assumes "active t" "0 \<le> ts_syncID ts" "ts_syncID ts + int (length rs) \<le> max_int64"
    "edit_abs w i edit rs (tdocs (t, ts_store ts)) (ts_syncID ts) = (V', wr)"
  shows "\<exists>t'. edit_roles P (Some cx) w i edit rs (t, ts) = (Inr wr, (t', ts\<lparr>ts_syncID := ts_syncID ts + int (length wr)\<rparr>))
    \<and> active t' \<and> tdocs (t', ts_store ts) = V'"
  using assms
proof (induction rs arbitrary: t ts wr)
  case (Cons r rs)
  let ?c = "role_collection w r" and ?n = "ts_syncID ts + 1"
  have e: "errors_is ErrNotFound ErrNotFound" by (simp add: ErrNotFound_def)
  have b: "ts_syncID ts + int (length rs) \<le> max_int64" using Cons.prems(3) by simp
  show ?case
  proof (cases "Option.bind (tdocs (t, ts_store ts) ?c i) edit")
    case None
    then have "edit_abs w i edit rs (tdocs (t, ts_store ts)) (ts_syncID ts) = (V', wr)" using Cons.prems(4) by simp
    from Cons.IH [OF Cons.prems(1,2) b this] show ?thesis
      using None Cons.prems(1) e by (auto simp: on_tx_Get found_def bind_eq_None_conv split: option.splits)
  next
    case (Some p)
    obtain doc d where p: "p = (doc, d)" by force
    obtain old where old: "tdocs (t, ts_store ts) ?c i = Some old" "edit old = Some (doc, d)" using Some p by (auto simp: bind_eq_Some_conv)
    define doc' where "doc' = fmupd FieldSyncID (VInt64 ?n) doc"
    obtain wr1 where rec: "edit_abs w i edit rs (set_doc (tdocs (t, ts_store ts)) ?c i (Some doc')) ?n = (V', wr1)" and wr: "wr = (r, ?n, d) # wr1"
      using Cons.prems(4) Some p by (auto simp: doc'_def split: prod.splits)
    let ?ts1 = "ts\<lparr>ts_syncID := ?n\<rparr>"
    have nx: "next_sync ts = ?ts1" using Cons.prems(2,3) by (intro next_sync_eq) auto
    obtain t1 where u: "tx_Update P (Some cx) ?c i doc' (t, ts_store ts) = (Inr (), (t1, ts_store ts))" "active t1"
        "tdocs (t1, ts_store ts) = set_doc (tdocs (t, ts_store ts)) ?c i (Some doc')"
      using tx_Update [OF Cons.prems(1)] old(1) by blast
    have on_u: "on_tx (tx_Update P (Some cx) ?c i doc') (t, ?ts1) = (Inr (), (t1, ?ts1))" using u(1) by (simp add: on_tx_def)
    have ih: "\<exists>t'. edit_roles P (Some cx) w i edit rs (t1, ?ts1) = (Inr wr1, (t', ?ts1\<lparr>ts_syncID := ts_syncID ?ts1 + int (length wr1)\<rparr>))
        \<and> active t' \<and> tdocs (t', ts_store ?ts1) = V'"
      using Cons.prems(2,3) rec u by (intro Cons.IH) simp_all
    then show ?thesis
      using old Cons.prems(1) on_u by (auto simp: on_tx_Get found_def nx wr doc'_def Let_def add.assoc)
  qed
qed auto

lemma appends_effect:
  "distinct (map de_SyncID es) \<Longrightarrow> (\<And>e. e \<in> set es \<Longrightarrow> docs (ts_store ts) DeltaCollectionName (FormatInt (de_SyncID e)) = None) \<Longrightarrow>
   \<exists>s. fold (appendDeltaOrWarn P (Some cx)) es ts = ts\<lparr>ts_store := s\<rparr> \<and> docs s = add_deltas es (docs (ts_store ts))"
proof (induction es arbitrary: ts)
  case Nil
  then show ?case by (auto simp: add_deltas_def intro: exI [of _ "ts_store ts"])
next
  case (Cons e es)
  obtain s1 where a: "appendDeltaOrWarn P (Some cx) e ts = ts\<lparr>ts_store := s1\<rparr>"
      "docs s1 = set_doc (docs (ts_store ts)) DeltaCollectionName (FormatInt (de_SyncID e)) (Some (entry_doc e))"
    using append_effect [of ts e cx] Cons.prems(2) by auto
  have "\<exists>s. fold (appendDeltaOrWarn P (Some cx)) es (ts\<lparr>ts_store := s1\<rparr>) = ts\<lparr>ts_store := s1\<rparr>\<lparr>ts_store := s\<rparr>
      \<and> docs s = add_deltas es (docs (ts_store (ts\<lparr>ts_store := s1\<rparr>)))"
    using Cons.prems by (intro Cons.IH) (auto simp: a(2) set_doc_apply intro: rev_image_eqI)
  then show ?case using a by (auto simp: add_deltas_def)
qed

lemma editRoleDocuments_effect:
  assumes ok: "store_ok docs ts" and b: "ts_syncID ts + 3 \<le> max_int64" and e: "edit_ok edit"
  obtains s V' wr where "editRoleDocuments P (Some cx) at w i edit ts =
      (Inr (), ts\<lparr>ts_store := s, ts_syncID := ts_syncID ts + int (length wr), ts_cache := fmdrop (cache_key w i) (ts_cache ts)\<rparr>)"
    "edit_abs w i edit allRoles (docs (ts_store ts)) (ts_syncID ts) = (V', wr)"
    "docs s = add_deltas (map (role_entry w i at) wr) V'"
proof -
  let ?n = "ts_syncID ts"
  obtain t where t: "st_BeginTx P (Some cx) (ts_store ts) = (Inr t, ts_store ts)" "active t" "tdocs (t, ts_store ts) = docs (ts_store ts)"
    using BeginTx by blast
  obtain V' wr where abs: "edit_abs w i edit allRoles (docs (ts_store ts)) ?n = (V', wr)" by force
  let ?es = "map (role_entry w i at) wr"
  have log: "logged (docs (ts_store ts)) ?n ?es (add_deltas ?es V') (?n + int (length wr))"
    using edit_abs_logged [OF e _ abs] ok by (simp add: store_ok_def)
  let ?ts1 = "ts\<lparr>ts_syncID := ?n + int (length wr)\<rparr>"
  obtain t1 where ed: "edit_roles P (Some cx) w i edit allRoles (t, ts) = (Inr wr, (t1, ?ts1))" "active t1" "tdocs (t1, ts_store ts) = V'"
    using edit_roles_effect [OF t(2), of ts allRoles w i edit V' wr cx] ok b abs t(3) by (auto simp: store_ok_def log_ok_def allRoles_def)
  obtain t2 s2 where c: "tx_Commit P (t1, ts_store ts) = (Inr (), (t2, s2))" "docs s2 = V'"
    using tx_Commit [OF ed(2), of "ts_store ts"] ed(3) by auto
  have on_c: "on_tx (tx_Commit P) (t1, ?ts1) = (Inr (), (t2, ?ts1\<lparr>ts_store := s2\<rparr>))" using c(1) by (simp add: on_tx_def)
  have "distinct (map de_SyncID ?es)" using log by (auto simp: logged_def strict_sorted_iff)
  moreover have "docs (ts_store (?ts1\<lparr>ts_store := s2\<rparr>)) DeltaCollectionName (FormatInt (de_SyncID x)) = None" if "x \<in> set ?es" for x
    using that log ok edit_abs_deltas [OF abs] c(2) by (auto simp: logged_def store_ok_def log_ok_def)
  ultimately obtain s where ap: "fold (appendDeltaOrWarn P (Some cx)) ?es (?ts1\<lparr>ts_store := s2\<rparr>) = ?ts1\<lparr>ts_store := s2\<rparr>\<lparr>ts_store := s\<rparr>"
      "docs s = add_deltas ?es V'"
    using appends_effect [of ?es "?ts1\<lparr>ts_store := s2\<rparr>" cx] c(2) by auto
  have "editRoleDocuments P (Some cx) at w i edit ts = (Inr (), invalidateSnapshot w i (?ts1\<lparr>ts_store := s2\<rparr>\<lparr>ts_store := s\<rparr>))"
    using t(1) ed(1) on_c ap(1) by (simp add: editRoleDocuments_def on_store_def after_rollback_state fold_map comp_def)
  then show thesis using that [OF _ abs ap(2)] by (simp add: invalidateSnapshot_def)
qed

lemma snapshot_read_effect:
  "\<exists>s. snapshot_read P (Some cx) w i ts =
     ((case snapshot_of (docs (ts_store ts)) w i of
         Some sn \<Rightarrow> Inr sn | None \<Rightarrow> Inl (Errorf ''failed to load identity: '' ErrNotFound)), ts\<lparr>ts_store := s\<rparr>)
     \<and> docs s = docs (ts_store ts)"
proof -
  obtain t where t: "st_BeginTx P (Some cx) (ts_store ts) = (Inr t, ts_store ts)" "active t" "tdocs (t, ts_store ts) = docs (ts_store ts)"
    using BeginTx by blast
  obtain t2 s2 where c: "tx_Commit P (t, ts_store ts) = (Inr (), (t2, s2))" "docs s2 = docs (ts_store ts)"
    using tx_Commit [OF t(2), of "ts_store ts"] t(3) by auto
  have e: "errors_is ErrNotFound ErrNotFound" by (simp add: ErrNotFound_def)
  have opt: "tx_get_optional P (Some cx) msg cl i (t, ts) = (Inr (docs (ts_store ts) cl i), (t, ts))" for msg cl
    by (cases "docs (ts_store ts) cl i") (simp_all add: tx_get_optional_def on_tx_Get [OF t(2)] t(3) found_def e)
  have on_c: "on_tx (tx_Commit P) (t, ts) = (Inr (), (t2, ts\<lparr>ts_store := s2\<rparr>))" using c(1) by (simp add: on_tx_def)
  show ?thesis
  proof (cases "docs (ts_store ts) (role_collection w RoleIdentity) i")
    case None
    then show ?thesis
      by (intro exI [of _ "ts_store ts"])
        (simp add: snapshot_read_def on_store_def t(1) load_roles_def role_names call_def wrapped_def on_tx_Get [OF t(2)] t(3) found_def
          snapshot_of_def after_rollback_state)
  next
    case (Some d)
    then show ?thesis
      by (intro exI [of _ s2])
        (simp add: snapshot_read_def on_store_def t(1) load_roles_def role_names call_def wrapped_def on_tx_Get [OF t(2)] t(3) found_def
          snapshot_of_def after_rollback_state opt on_c ret_def c(2))
  qed
qed

end

end
