(* ===== verification/Triangular_Runs.thy ===== *)
theory Triangular_Runs
  imports Triangular_Laws "HOL-Library.Multiset"
begin

text \<open>
  Sequences of calls on the triangular store, the invariants they keep, and what clients of the
  delta log and of the snapshot cache get.
\<close>

section \<open>Calls\<close>

datatype tri_op =
    CallSaveIdentity string string "document option"
  | CallSaveDesired string string "document option"
  | CallSaveObserved string string any_value
  | CallTombstone string string string
  | CallClearTombstone string string
  | CallLoadSnapshot string string
  | CallIncrementSyncID
  | CallMaintenance

text \<open>A call with the order in which its map iterations run and the instants its clock shows.\<close>

record tri_call =
  tc_op :: tri_op
  tc_order :: map_order
  tc_now :: "nat \<Rightarrow> int"

definition tri_exec :: "('s, 't) store_ops \<Rightarrow> gctx \<Rightarrow> tri_call \<Rightarrow> 's tri_store \<Rightarrow> 's tri_store" where
  "tri_exec P cx c ts = (case tc_op c of
       CallSaveIdentity w i d \<Rightarrow> snd (SaveIdentity P (tc_order c) (Some cx) (tc_now c) w i d ts)
     | CallSaveDesired w i d \<Rightarrow> snd (SaveDesired P (tc_order c) (Some cx) (tc_now c) w i d ts)
     | CallSaveObserved w i v \<Rightarrow> snd (SaveObserved P (tc_order c) (Some cx) (tc_now c) w i v ts)
     | CallTombstone w i by' \<Rightarrow> snd (Tombstone P (Some cx) (tc_now c) w i by' ts)
     | CallClearTombstone w i \<Rightarrow> snd (ClearTombstone P (Some cx) (tc_now c) w i ts)
     | CallLoadSnapshot w i \<Rightarrow> snd (LoadSnapshot P (Some cx) w i ts)
     | CallIncrementSyncID \<Rightarrow> snd (IncrementSyncID ts)
     | CallMaintenance \<Rightarrow> snd (tri_Maintenance ts))"

definition tri_run :: "('s, 't) store_ops \<Rightarrow> gctx \<Rightarrow> tri_call list \<Rightarrow> 's tri_store \<Rightarrow> 's tri_store" where
  "tri_run P cx = fold (tri_exec P cx)"

fun op_type :: "tri_op \<Rightarrow> string option" where
  "op_type (CallSaveIdentity w i d) = Some w"
| "op_type (CallSaveDesired w i d) = Some w"
| "op_type (CallSaveObserved w i v) = Some w"
| "op_type (CallTombstone w i b) = Some w"
| "op_type (CallClearTombstone w i) = Some w"
| "op_type (CallLoadSnapshot w i) = Some w"
| "op_type CallIncrementSyncID = None"
| "op_type CallMaintenance = None"

section \<open>Cache entries\<close>

definition cache_ok :: "docs_view \<Rightarrow> int \<Rightarrow> (string, cached_snapshot) fmap \<Rightarrow> bool" where
  "cache_ok D n C \<longleftrightarrow> (\<forall>k c. fmlookup C k = Some c \<longrightarrow> cs_syncID c \<le> n)
     \<and> (\<forall>w i c. plain_type w \<longrightarrow> fmlookup C (cache_key w i) = Some c \<longrightarrow> cs_syncID c = n \<longrightarrow> snapshot_of D w i = Some (cs_snapshot c))"

lemma cache_ok_bump: "cache_ok D n C \<Longrightarrow> n < n' \<Longrightarrow> cache_ok D' n' (fmdrop k C)"
  by (fastforce simp: cache_ok_def split: if_splits)

lemma cache_ok_bump_same: "cache_ok D n C \<Longrightarrow> n < n' \<Longrightarrow> cache_ok D' n' C"
  by (fastforce simp: cache_ok_def)

lemma cache_ok_empty [simp]: "cache_ok D n fmempty"
  by (simp add: cache_ok_def)

text \<open>A write of one worker's document, with its entry dropped, leaves the other workers' entries right.\<close>

lemma cache_ok_drop:
  assumes "cache_ok D n C" "plain_type w" "\<And>v j. (v, j) \<noteq> (w, i) \<Longrightarrow> snapshot_of D' v j = snapshot_of D v j"
  shows "cache_ok D' n (fmdrop (cache_key w i) C)"
proof -
  have "snapshot_of D' v j = Some (cs_snapshot c)"
    if "plain_type v" "fmlookup (fmdrop (cache_key w i) C) (cache_key v j) = Some c" "cs_syncID c = n" for v j c
    using that assms(1,2) assms(3) [of v j] cache_key_inj [OF that(1) assms(2), of j i]
    by (cases "(v, j) = (w, i)") (auto simp: cache_ok_def split: if_splits)
  then show ?thesis using assms(1) by (auto simp: cache_ok_def split: if_splits)
qed

lemma tomb_ok_updated [simp]: "tomb_ok (fmupd FieldUpdatedAt v d) = tomb_ok d"
  by (simp add: tomb_ok_def hasTombstone_def field_def field_names)

lemma snapshot_of_set_role: "(v, j) \<noteq> (w, i) \<Longrightarrow> snapshot_of (set_doc D (role_collection w r) i d) v j = snapshot_of D v j"
  by (auto simp: snapshot_of_def set_doc_apply split: option.split)

lemma snapshot_of_set_delta [simp]: "snapshot_of (set_doc D DeltaCollectionName k d) v j = snapshot_of D v j"
  by (simp add: snapshot_of_def split: option.split)

section \<open>Every call keeps the log and the cache\<close>

lemma logged_saved:
  assumes "range_order ord" "docs_ok D" "existing = D (role_collection w r) i" "d = save_diff ord existing doc r"
  shows "\<exists>es. logged D n es (saved_docs D (n + 1) w i r (written_doc existing doc opts (n + 1) t) d at) (n + 1)
    \<and> docs_ok (saved_docs D (n + 1) w i r (written_doc existing doc opts (n + 1) t) d at)"
proof -
  have tok: "\<And>x. existing = Some x \<Longrightarrow> tomb_ok x" using assms(2,3) by (auto simp: docs_ok_def)
  let ?doc = "written_doc existing doc opts (n + 1) t"
  have ex: "visible (patch_opt (save_diff ord existing doc r) (base_of existing)) = visible ?doc"
    using save_diff_exact [OF assms(1)] tok by blast
  have idem: "visible (base_of x) = base_of x" for x
    by (cases x) (auto simp: base_of_def intro!: fmap_ext)
  have ok: "docs_ok (set_doc D (role_collection w r) i (Some ?doc))"
    using assms(2) written_tomb_ok [of existing doc opts "n + 1" t, OF tok] by (intro docs_ok_set_role)
  show ?thesis
  proof (cases d)
    case None
    have "visible ?doc = base_of (D (role_collection w r) i)"
      using ex None assms(3,4) by (simp add: patch_opt_def idem)
    then show ?thesis using ok None by (auto simp: saved_docs_def intro!: exI [of _ "[]"] logged_silent)
  next
    case (Some x)
    let ?e = "\<lparr>de_SyncID = n + 1, de_WorkerType = w, de_ID = i, de_Role = role_name r, de_Changes = d, de_Timestamp = at\<rparr>"
    have "logged D n [?e] (saved_docs D (n + 1) w i r ?doc d at) (n + 1)"
    proof -
      have "visible ?doc = visible (patch_opt d (base_of (D (role_collection w r) i)))" using ex assms(3,4) by simp
      then show ?thesis using logged_entry [of ?e n r ?doc D] unfolding saved_docs_def Let_def Some by simp
    qed
    then show ?thesis using ok Some by (auto simp: saved_docs_def)
  qed
qed

text \<open>Two lists that are sorted by distinct keys and have the same elements are equal.\<close>

lemma strict_key_unique:
  fixes f :: "'a \<Rightarrow> 'b :: linorder"
  assumes "sorted_wrt (<) (map f xs)" "sorted_wrt (<) (map f ys)" "set xs = set ys"
  shows "xs = ys"
proof -
  have d: "distinct (map f xs)" "distinct (map f ys)" "sorted (map f xs)" "sorted (map f ys)"
    using assms(1,2) by (auto simp: strict_sorted_iff)
  then have "mset xs = mset ys" using assms(3) by (metis distinct_map set_eq_iff_mset_eq_distinct)
  moreover have "inj_on f (set xs)" using d(1) by (simp add: distinct_map)
  ultimately have "sort_key f xs = ys" "sort_key f xs = xs" using sort_key_inj_key_eq d by blast+
  then show ?thesis by simp
qed

lemma sort_key_strict:
  fixes f :: "'a \<Rightarrow> 'b :: linorder"
  shows "distinct (map f xs) \<Longrightarrow> sorted_wrt (<) (map f (sort_key f xs))"
  by (simp add: strict_sorted_iff) (metis distinct_map distinct_sort set_sort)

lemma extract_entry: "extractSyncID (entry_doc e) = de_SyncID e"
  by (simp add: extractSyncID_def entry_doc_def Let_def field_def split: option.split)

lemma read_back_SyncID [simp]: "de_SyncID (read_back e) = de_SyncID e"
  by (simp add: read_back_def delta_entry_norm)

lemma logged_lookup:
  assumes "logged D n es D' n'" "e \<in> set es"
  shows "D' DeltaCollectionName (FormatInt (de_SyncID e)) = Some (entry_doc e)"
proof -
  have "find (\<lambda>x. FormatInt (de_SyncID x) = FormatInt (de_SyncID e)) es \<noteq> None"
    using assms(2) by (auto simp: find_None_iff)
  then obtain x where x: "find (\<lambda>x. FormatInt (de_SyncID x) = FormatInt (de_SyncID e)) es = Some x" by blast
  then have "x \<in> set es" "de_SyncID x = de_SyncID e" by (auto simp: find_Some_iff)
  moreover have "inj_on de_SyncID (set es)"
    using assms(1) by (auto simp: logged_def strict_sorted_iff distinct_map)
  ultimately have "x = e" using assms(2) by (auto dest: inj_onD)
  then show ?thesis using assms(1) x by (simp add: logged_def)
qed

lemma new_entries:
  assumes "log_ok D n" "logged D n es D' n'"
  shows "{documentToEntry d | k d. D' DeltaCollectionName k = Some d \<and> n < extractSyncID d} = read_back ` set es"
proof (intro set_eqI iffI)
  fix x
  assume "x \<in> {documentToEntry d | k d. D' DeltaCollectionName k = Some d \<and> n < extractSyncID d}"
  then obtain k d where d: "D' DeltaCollectionName k = Some d" "n < extractSyncID d" "x = documentToEntry d" by blast
  show "x \<in> read_back ` set es"
  proof (cases "find (\<lambda>e. FormatInt (de_SyncID e) = k) es")
    case None
    then have old: "D DeltaCollectionName k = Some d" using assms(2) d(1) by (simp add: logged_def)
    then obtain e where "d = entry_doc e" "k = FormatInt (de_SyncID e)" using assms(1) unfolding log_ok_def by meson
    then show ?thesis using old assms(1) d(2) by (auto simp: log_ok_def extract_entry)
  next
    case (Some e)
    then have "e \<in> set es" by (auto simp: find_Some_iff)
    moreover have "d = entry_doc e" using Some assms(2) d(1) by (simp add: logged_def)
    ultimately show ?thesis using d(3) by (simp add: read_back_def)
  qed
next
  fix x
  assume "x \<in> read_back ` set es"
  then obtain e where e: "e \<in> set es" "x = read_back e" by blast
  have "n < extractSyncID (entry_doc e)" using assms(2) e(1) by (simp add: extract_entry logged_def)
  then show "x \<in> {documentToEntry d | k d. D' DeltaCollectionName k = Some d \<and> n < extractSyncID d}"
    using logged_lookup [OF assms(2) e(1)] e(2) unfolding read_back_def by blast
qed

context document_store
begin

lemma save_evolves:
  assumes ok: "store_ok docs ts" "ts_syncID ts + 3 \<le> max_int64" "range_order ord" "\<not> so_SkipDeltaCheck opts"
    and run: "saveWithDelta P ord (Some cx) now w i doc0 opts ts = (res, ts')"
  shows "(\<exists>es. evolves docs ts es ts')
    \<and> (cache_ok (docs (ts_store ts)) (ts_syncID ts) (ts_cache ts) \<longrightarrow> plain_type w \<longrightarrow> cache_ok (docs (ts_store ts')) (ts_syncID ts') (ts_cache ts'))"
proof -
  have log: "log_ok (docs (ts_store ts)) (ts_syncID ts)" "docs_ok (docs (ts_store ts))" "ts_syncID ts < max_int64"
    using ok by (auto simp: store_ok_def)
  from log(1,3) ok(4) run show ?thesis
  proof (cases rule: saveWithDelta_effect)
    case (rejected e)
    then show ?thesis using log(2) by (auto intro!: exI [of _ "[]"] evolves_refl)
  next
    case (unchanged doc)
    let ?c = "role_collection w (so_Role opts)"
    obtain old where old: "docs (ts_store ts) ?c i = Some old" using unchanged(4) by (auto simp: save_unchanged_def)
    have vis: "visible (fmupd FieldUpdatedAt (VTime (now 0)) old) = base_of (docs (ts_store ts) ?c i)"
      using old by (auto simp: base_of_def hidden_fields_def intro!: fmap_ext)
    have tok: "tomb_ok (fmupd FieldUpdatedAt (VTime (now 0)) old)"
      using log(2) old by (auto simp: docs_ok_def)
    show ?thesis
    proof (cases "so_UpdateTimestampOnNoChange opts")
      case True
      then obtain s where s: "ts' = ts\<lparr>ts_store := s, ts_cache := fmdrop (cache_key w i) (ts_cache ts)\<rparr>"
          "docs s = set_doc (docs (ts_store ts)) ?c i (Some (fmupd FieldUpdatedAt (VTime (now 0)) old))"
        using unchanged(4) old by (auto simp: save_unchanged_def)
      have "evolves docs ts [] ts'"
        using s log(2) tok vis
          logged_silent [of "ts_syncID ts" "ts_syncID ts" "fmupd FieldUpdatedAt (VTime (now 0)) old" "docs (ts_store ts)" w "so_Role opts" i] by (simp add: evolves_def docs_ok_set_role)
      then show ?thesis using s by (auto intro!: cache_ok_drop snapshot_of_set_role)
    next
      case False
      then show ?thesis using unchanged(4) log(2) by (auto simp: save_unchanged_def intro!: exI [of _ "[]"] evolves_refl)
    qed
  next
    case (written doc d)
    let ?D = "docs (ts_store ts)" and ?n = "ts_syncID ts" and ?ex = "docs (ts_store ts) (role_collection w (so_Role opts)) i"
    obtain s where s: "ts' = ts\<lparr>ts_store := s, ts_syncID := ?n + 1, ts_cache := fmdrop (cache_key w i) (ts_cache ts)\<rparr>"
        "docs s = saved_docs ?D (?n + 1) w i (so_Role opts) (written_doc ?ex doc opts (?n + 1) (now 0)) d (now 1)"
        "d = save_diff ord ?ex doc (so_Role opts)"
      using written(4) by (auto simp: save_written_def Let_def)
    obtain es where "logged ?D ?n es (docs s) (?n + 1)" "docs_ok (docs s)"
      using logged_saved [OF ok(3) log(2) refl s(3), of ?n opts "now 0" "now 1"] s(2) by auto
    then have "evolves docs ts es ts'" using s(1) by (simp add: evolves_def)
    then show ?thesis using s(1) by (auto intro!: cache_ok_bump)
  qed
qed

lemma edit_evolves:
  assumes ok: "store_ok docs ts" "ts_syncID ts + 3 \<le> max_int64" "edit_ok edit"
    and run: "editRoleDocuments P (Some cx) at w i edit ts = (res, ts')"
  shows "(\<exists>es. evolves docs ts es ts')
    \<and> (cache_ok (docs (ts_store ts)) (ts_syncID ts) (ts_cache ts) \<longrightarrow> plain_type w \<longrightarrow> cache_ok (docs (ts_store ts')) (ts_syncID ts') (ts_cache ts'))"
proof -
  obtain s V' wr where e: "editRoleDocuments P (Some cx) at w i edit ts =
      (Inr (), ts\<lparr>ts_store := s, ts_syncID := ts_syncID ts + int (length wr), ts_cache := fmdrop (cache_key w i) (ts_cache ts)\<rparr>)"
    and abs: "edit_abs w i edit allRoles (docs (ts_store ts)) (ts_syncID ts) = (V', wr)"
    and ds: "docs s = add_deltas (map (role_entry w i at) wr) V'"
    using editRoleDocuments_effect [OF ok] by blast
  have ts': "ts' = ts\<lparr>ts_store := s, ts_syncID := ts_syncID ts + int (length wr), ts_cache := fmdrop (cache_key w i) (ts_cache ts)\<rparr>"
    using run e by simp
  have log: "logged (docs (ts_store ts)) (ts_syncID ts) (map (role_entry w i at) wr) (docs s) (ts_syncID ts + int (length wr))" "docs_ok V'"
    using edit_abs_logged [OF ok(3) _ abs, of at] ok(1) ds by (auto simp: store_ok_def)
  have "docs_ok (add_deltas es D) = docs_ok D" for es D by (induction es arbitrary: D) (simp_all add: add_deltas_def)
  then have "evolves docs ts (map (role_entry w i at) wr) ts'"
    using log ts' edit_abs_length [OF abs] ds by (simp add: evolves_def allRoles_def)
  moreover have "cache_ok (docs (ts_store ts')) (ts_syncID ts') (ts_cache ts')"
    if "cache_ok (docs (ts_store ts)) (ts_syncID ts) (ts_cache ts)" "plain_type w"
  proof (cases wr)
    case Nil
    have "V' = docs (ts_store ts)" if "edit_abs w i edit rs (docs (ts_store ts)) n = (V', [])" for rs n
      using that by (induction rs) (auto split: option.splits prod.splits)
    then have "V' = docs (ts_store ts)" using abs Nil by blast
    then show ?thesis using that Nil ts' ds by (auto simp: add_deltas_def intro: cache_ok_drop)
  next
    case (Cons x xs)
    then show ?thesis using that ts' by (auto intro!: cache_ok_bump)
  qed
  ultimately show ?thesis by blast
qed

lemma load_evolves:
  assumes "docs_ok (docs (ts_store ts))"
    and run: "LoadSnapshot P (Some cx) w i ts = (res, ts')"
  shows "evolves docs ts [] ts'
    \<and> (cache_ok (docs (ts_store ts)) (ts_syncID ts) (ts_cache ts) \<longrightarrow> plain_type w \<longrightarrow>
        cache_ok (docs (ts_store ts')) (ts_syncID ts') (ts_cache ts')
        \<and> res = (case snapshot_of (docs (ts_store ts)) w i of
             Some sn \<Rightarrow> Inr (cloneSnapshot sn) | None \<Rightarrow> Inl (Errorf ''failed to load identity: '' ErrNotFound)))"
proof -
  let ?D = "docs (ts_store ts)" and ?n = "ts_syncID ts"
  obtain s where rd: "snapshot_read P (Some cx) w i ts =
      ((case snapshot_of ?D w i of Some sn \<Rightarrow> Inr sn | None \<Rightarrow> Inl (Errorf ''failed to load identity: '' ErrNotFound)), ts\<lparr>ts_store := s\<rparr>)"
      "docs s = ?D"
    using snapshot_read_effect by blast
  show ?thesis
  proof (cases "cached_snapshot_of w i ts")
    case (Some sn)
    then have eq: "ts' = ts" "res = Inr (cloneSnapshot sn)" using run by (auto simp: LoadSnapshot_def)
    have "snapshot_of ?D w i = Some sn" if "cache_ok ?D ?n (ts_cache ts)" "plain_type w"
      using that Some by (auto simp: cached_snapshot_of_def cache_ok_def split: option.splits if_splits)
    then show ?thesis using eq assms(1) by (auto intro: evolves_refl)
  next
    case None
    show ?thesis
    proof (cases "snapshot_of ?D w i")
      case sn: None
      then have "ts' = ts\<lparr>ts_store := s\<rparr>" "res = Inl (Errorf ''failed to load identity: '' ErrNotFound)"
        using run None rd by (simp_all add: LoadSnapshot_def)
      then show ?thesis using rd(2) assms(1) sn by (auto simp: evolves_def logged_refl)
    next
      case sn: (Some sn)
      then have eq: "ts' = snapshot_cache w i sn (ts\<lparr>ts_store := s\<rparr>)" "res = Inr (cloneSnapshot sn)"
        using run None rd by (simp_all add: LoadSnapshot_def)
      have "cache_ok ?D ?n (fmupd (cache_key w i) \<lparr>cs_snapshot = sn, cs_syncID = ?n\<rparr> (ts_cache ts))"
        if c: "cache_ok ?D ?n (ts_cache ts)" and p: "plain_type w"
        using c sn cache_key_inj [OF p] by (auto simp: cache_ok_def)
      then show ?thesis using eq rd(2) assms(1) sn by (auto simp: snapshot_cache_def evolves_def logged_refl)
    qed
  qed
qed

lemma exec_evolves:
  assumes ok: "store_ok docs ts" "ts_syncID ts + 3 \<le> max_int64" "range_order (tc_order c)"
  shows "(\<exists>es. evolves docs ts es (tri_exec P cx c ts))
    \<and> (cache_ok (docs (ts_store ts)) (ts_syncID ts) (ts_cache ts) \<longrightarrow> pred_option plain_type (op_type (tc_op c)) \<longrightarrow>
        cache_ok (docs (ts_store (tri_exec P cx c ts))) (ts_syncID (tri_exec P cx c ts)) (ts_cache (tri_exec P cx c ts)))"
proof -
  have dok: "docs_ok (docs (ts_store ts))" using ok(1) by (simp add: store_ok_def)
  have skip: "\<not> so_SkipDeltaCheck IdentitySaveOptions" "\<not> so_SkipDeltaCheck DesiredSaveOptions" "\<not> so_SkipDeltaCheck ObservedSaveOptions"
    by (simp_all add: IdentitySaveOptions_def DesiredSaveOptions_def ObservedSaveOptions_def)
  have none: "\<exists>es. evolves docs ts es ts" using evolves_refl [of docs ts ts] dok by blast
  show ?thesis
  proof (cases "tc_op c")
    case (CallSaveIdentity w i d)
    let ?ts0 = "registerWorkerType w ts"
    obtain res ts' where r: "saveWithDelta P (tc_order c) (Some cx) (tc_now c) w i d IdentitySaveOptions ?ts0 = (res, ts')" by force
    have ok0: "store_ok docs ?ts0" "ts_syncID ?ts0 + 3 \<le> max_int64" using ok by (simp_all add: registerWorkerType_def store_ok_def)
    have "tri_exec P cx c ts = ts'" using r CallSaveIdentity by (simp add: tri_exec_def SaveIdentity_def unit_of_def call_def ret_def split: sum.split)
    then show ?thesis
      using save_evolves [OF ok0 ok(3) skip(1) r] CallSaveIdentity by (simp add: registerWorkerType_def evolves_def)
  next
    case (CallSaveDesired w i d)
    obtain res ts' where r: "saveWithDelta P (tc_order c) (Some cx) (tc_now c) w i d DesiredSaveOptions ts = (res, ts')" by force
    have "tri_exec P cx c ts = ts'" using r CallSaveDesired by (simp add: tri_exec_def SaveDesired_def call_def ret_def split: sum.split)
    then show ?thesis using save_evolves [OF ok skip(2) r] CallSaveDesired by simp
  next
    case (CallSaveObserved w i v)
    show ?thesis
    proof (cases "toDocument v")
      case (Inl e)
      then have "tri_exec P cx c ts = ts" using CallSaveObserved by (simp add: tri_exec_def SaveObserved_def)
      then show ?thesis using none by simp
    next
      case (Inr d)
      show ?thesis
      proof (cases d)
        case None
        then have "tri_exec P cx c ts = ts" using CallSaveObserved Inr by (simp add: tri_exec_def SaveObserved_def)
        then show ?thesis using none by simp
      next
        case (Some doc)
        obtain res ts' where r: "saveWithDelta P (tc_order c) (Some cx) (tc_now c) w i (Some (fmupd ''id'' (VString i) doc)) ObservedSaveOptions ts = (res, ts')" by force
        have "tri_exec P cx c ts = ts'" using r CallSaveObserved Inr Some by (simp add: tri_exec_def SaveObserved_def call_def ret_def split: sum.split)
        then show ?thesis using save_evolves [OF ok skip(3) r] CallSaveObserved by simp
      qed
    qed
  next
    case (CallTombstone w i b)
    obtain res ts' where r: "editRoleDocuments P (Some cx) (tc_now c 0) w i (tombstone_edit (tc_now c 0) b) ts = (res, ts')" by force
    have "tri_exec P cx c ts = ts'" using r CallTombstone by (simp add: tri_exec_def Tombstone_def wrapped_def split: sum.split)
    then show ?thesis using edit_evolves [OF ok(1,2) edit_ok_tombstone r] CallTombstone by simp
  next
    case (CallClearTombstone w i)
    obtain res ts' where r: "editRoleDocuments P (Some cx) (tc_now c 0) w i clear_edit ts = (res, ts')" by force
    have "tri_exec P cx c ts = ts'" using r CallClearTombstone by (simp add: tri_exec_def ClearTombstone_def wrapped_def split: sum.split)
    then show ?thesis using edit_evolves [OF ok(1,2) edit_ok_clear r] CallClearTombstone by simp
  next
    case (CallLoadSnapshot w i)
    obtain res ts' where r: "LoadSnapshot P (Some cx) w i ts = (res, ts')" by force
    then have "tri_exec P cx c ts = ts'" using CallLoadSnapshot by (simp add: tri_exec_def)
    then show ?thesis using load_evolves [OF dok r] CallLoadSnapshot by auto
  next
    case CallIncrementSyncID
    then have "tri_exec P cx c ts = ts\<lparr>ts_syncID := ts_syncID ts + 1\<rparr>"
      using ok by (simp add: tri_exec_def IncrementSyncID_def next_sync_eq store_ok_def log_ok_def Let_def)
    moreover have "evolves docs ts [] (ts\<lparr>ts_syncID := ts_syncID ts + 1\<rparr>)" using dok by (simp add: evolves_def logged_same)
    ultimately show ?thesis using cache_ok_bump_same by auto
  next
    case CallMaintenance
    then have "tri_exec P cx c ts = ts\<lparr>ts_cache := fmempty\<rparr>" by (simp add: tri_exec_def tri_Maintenance_def)
    then show ?thesis using dok by (auto intro!: exI [of _ "[]"] evolves_refl)
  qed
qed

lemma run_evolves:
  assumes "store_ok docs ts" "ts_syncID ts + 3 * int (length calls) \<le> max_int64" "\<forall>c \<in> set calls. range_order (tc_order c)"
  shows "\<exists>es. logged (docs (ts_store ts)) (ts_syncID ts) es (docs (ts_store (tri_run P cx calls ts))) (ts_syncID (tri_run P cx calls ts))
    \<and> store_ok docs (tri_run P cx calls ts) \<and> ts_syncID (tri_run P cx calls ts) \<le> ts_syncID ts + 3 * int (length calls)
    \<and> (cache_ok (docs (ts_store ts)) (ts_syncID ts) (ts_cache ts) \<longrightarrow> (\<forall>c \<in> set calls. pred_option plain_type (op_type (tc_op c))) \<longrightarrow>
        cache_ok (docs (ts_store (tri_run P cx calls ts))) (ts_syncID (tri_run P cx calls ts)) (ts_cache (tri_run P cx calls ts)))"
  using assms
proof (induction calls arbitrary: ts)
  case Nil
  then show ?case by (auto simp: tri_run_def intro: exI [of _ "[]"] logged_refl)
next
  case (Cons c calls)
  let ?ts1 = "tri_exec P cx c ts"
  obtain es where es: "evolves docs ts es ?ts1"
    and ca: "cache_ok (docs (ts_store ts)) (ts_syncID ts) (ts_cache ts) \<Longrightarrow> pred_option plain_type (op_type (tc_op c)) \<Longrightarrow>
        cache_ok (docs (ts_store ?ts1)) (ts_syncID ?ts1) (ts_cache ?ts1)"
    using exec_evolves [OF Cons.prems(1), of c cx] Cons.prems(2,3) by auto
  have ok1: "store_ok docs ?ts1" by (rule store_ok_evolves [OF Cons.prems(1) es])
  have "ts_syncID ?ts1 + 3 * int (length calls) \<le> max_int64" using es Cons.prems(2) by (auto simp: evolves_def)
  from Cons.IH [OF ok1 this] Cons.prems(3) obtain fs where
    "logged (docs (ts_store ?ts1)) (ts_syncID ?ts1) fs (docs (ts_store (tri_run P cx calls ?ts1))) (ts_syncID (tri_run P cx calls ?ts1))"
    "store_ok docs (tri_run P cx calls ?ts1)" "ts_syncID (tri_run P cx calls ?ts1) \<le> ts_syncID ?ts1 + 3 * int (length calls)"
    "cache_ok (docs (ts_store ?ts1)) (ts_syncID ?ts1) (ts_cache ?ts1) \<Longrightarrow> \<forall>c \<in> set calls. pred_option plain_type (op_type (tc_op c)) \<Longrightarrow>
        cache_ok (docs (ts_store (tri_run P cx calls ?ts1))) (ts_syncID (tri_run P cx calls ?ts1)) (ts_cache (tri_run P cx calls ?ts1))"
    by auto
  moreover have "tri_run P cx (c # calls) ts = tri_run P cx calls ?ts1" by (simp add: tri_run_def)
  moreover have "logged (docs (ts_store ts)) (ts_syncID ts) es (docs (ts_store ?ts1)) (ts_syncID ?ts1)" "ts_syncID ?ts1 \<le> ts_syncID ts + 3"
    using es by (auto simp: evolves_def)
  ultimately show ?case using ca by (auto intro!: exI [of _ "es @ fs"] logged_trans)
qed

text \<open>What \<^verbatim>\<open>GetAllSince\<close> returns: the entries of the log beyond a position, in order, at most \<open>limit\<close>.\<close>

lemma GetAllSince_effect:
  assumes "log_ok (docs s) n" "range_order ord"
  obtains es where "sorted_wrt (<) (map de_SyncID es)"
    "set es = {documentToEntry d | k d. docs s DeltaCollectionName k = Some d \<and> since < extractSyncID d}"
    "GetAllSince P ord (Some cx) since limit s = (Inr (limited limit es), s)
      \<or> es = [] \<and> GetAllSince P ord (Some cx) since limit s = (Inl (Errorf ''failed to query deltas: '' ErrNotFound), s)"
proof -
  let ?L = "docs s DeltaCollectionName"
  from Find [OF assms(2), of s DeltaCollectionName cx] consider
    (found) "is" where "distinct is" "set is = dom ?L" "st_Find P ord (Some cx) DeltaCollectionName NewQuery s = (Inr (map (\<lambda>i. the (?L i)) is), s)"
    | (empty) "?L = Map.empty" "st_Find P ord (Some cx) DeltaCollectionName NewQuery s = (Inl ErrNotFound, s)"
    by blast
  then show thesis
  proof cases
    case found
    define js where "js = filter (\<lambda>i. since < extractSyncID (the (?L i))) is"
    define xs where "xs = map (\<lambda>i. documentToEntry (the (?L i))) js"
    have key: "FormatInt (de_SyncID (documentToEntry (the (?L i)))) = i" if "i \<in> set is" for i
      using that found(2) assms(1) by (force simp: log_ok_def read_back_def [symmetric])
    have "map (\<lambda>e. FormatInt (de_SyncID e)) xs = js"
      unfolding xs_def by (auto simp: js_def key intro!: map_idI)
    then have "distinct (map (\<lambda>e. FormatInt (de_SyncID e)) xs)" using found(1) by (simp add: js_def)
    then have dist: "distinct (map de_SyncID xs)" by (auto simp: distinct_map inj_on_def)
    have "set xs = {documentToEntry d | k d. ?L k = Some d \<and> since < extractSyncID d}"
      by (force simp: xs_def js_def found(2) image_def)
    moreover have "GetAllSince P ord (Some cx) since limit s = (Inr (limited limit (sort_key de_SyncID xs)), s)"
      using found(3) by (simp add: GetAllSince_def call_def wrapped_def ret_def sortEntriesBySyncID_def xs_def js_def filter_map comp_def)
    ultimately show thesis using sort_key_strict [OF dist] by (intro that) auto
  next
    case empty
    then show thesis by (intro that [of "[]"]) (auto simp: GetAllSince_def call_def wrapped_def)
  qed
qed

text \<open>The entries appended since a state are exactly those a query from its counter returns.\<close>

lemma GetAllSince_logged:
  assumes "log_ok D n" "logged D n es (docs s) n'" "range_order ord"
  shows "GetAllSince P ord (Some cx) n limit s = (Inr (limited limit (map read_back es)), s)
    \<or> es = [] \<and> GetAllSince P ord (Some cx) n limit s = (Inl (Errorf ''failed to query deltas: '' ErrNotFound), s)"
proof -
  have ok: "log_ok (docs s) n'" by (rule log_ok_logged [OF assms(1,2)])
  obtain fs where fs: "sorted_wrt (<) (map de_SyncID fs)"
    "set fs = {documentToEntry d | k d. docs s DeltaCollectionName k = Some d \<and> n < extractSyncID d}"
    "GetAllSince P ord (Some cx) n limit s = (Inr (limited limit fs), s)
      \<or> fs = [] \<and> GetAllSince P ord (Some cx) n limit s = (Inl (Errorf ''failed to query deltas: '' ErrNotFound), s)"
    by (rule GetAllSince_effect [OF ok assms(3), of n cx limit])
  have "fs = map read_back es"
  proof (rule strict_key_unique [OF fs(1)])
    show "sorted_wrt (<) (map de_SyncID (map read_back es))" using assms(2) by (simp add: logged_def comp_def)
    show "set fs = set (map read_back es)"
      unfolding fs(2) using new_entries [OF assms(1,2)] by simp
  qed
  then show ?thesis using fs(3) by auto
qed

end

end
