(* ===== verification/Triangular_Props.thy ===== *)
theory Triangular_Props
  imports Triangular_Runs
begin

text \<open>
  What the triangular store promises its users, on the in-memory store: the delta log says
  everything that changed, snapshots are current when calls do not overlap, tombstones stay, and a
  save writes exactly when a field was added or modified.
\<close>

section \<open>Fresh stores\<close>

lemma fresh_store_ok: "store_ok mem_docs (NewTriangularStore NewInMemoryStore)"
  by (simp add: store_ok_def NewTriangularStore_def NewInMemoryStore_def log_ok_def docs_ok_def mem_docs_def)

lemma fresh_cache_ok: "cache_ok D n (ts_cache (NewTriangularStore s))"
  by (simp add: NewTriangularStore_def)

definition tri_start :: "gctx \<Rightarrow> tri_call list \<Rightarrow> mem_store tri_store" where
  "tri_start cx calls = tri_run mem_ops cx calls (NewTriangularStore NewInMemoryStore)"

lemma tri_start_ok:
  assumes "3 * int (length calls) \<le> max_int64" "\<forall>c \<in> set calls. range_order (tc_order c)"
  shows "store_ok mem_docs (tri_start cx calls)" "ts_syncID (tri_start cx calls) \<le> 3 * int (length calls)"
    "\<forall>c \<in> set calls. pred_option plain_type (op_type (tc_op c)) \<Longrightarrow>
      cache_ok (mem_docs (ts_store (tri_start cx calls))) (ts_syncID (tri_start cx calls)) (ts_cache (tri_start cx calls))"
proof -
  have "ts_syncID (NewTriangularStore NewInMemoryStore) = 0" by (simp add: NewTriangularStore_def)
  then show "store_ok mem_docs (tri_start cx calls)" "ts_syncID (tri_start cx calls) \<le> 3 * int (length calls)"
    "\<forall>c \<in> set calls. pred_option plain_type (op_type (tc_op c)) \<Longrightarrow>
      cache_ok (mem_docs (ts_store (tri_start cx calls))) (ts_syncID (tri_start cx calls)) (ts_cache (tri_start cx calls))"
    using mem.run_evolves [OF fresh_store_ok, of calls cx] assms by (auto simp: tri_start_def fresh_cache_ok)
qed

section \<open>The delta log\<close>

definition entries_of :: "goerror + 'a list \<Rightarrow> 'a list" where
  "entries_of r = (case r of Inl _ \<Rightarrow> [] | Inr es \<Rightarrow> es)"


section \<open>Snapshots\<close>

text \<open>
  C16: when calls do not overlap, \<^verbatim>\<open>LoadSnapshot\<close> always returns the documents that are stored at
  that moment, from the cache or not; and it fails exactly when the worker has no identity. Worker
  types without an underscore, as the interface asks for, are assumed.
\<close>

theorem snapshot_current:
  assumes "\<forall>c \<in> set calls. range_order (tc_order c) \<and> pred_option plain_type (op_type (tc_op c))"
    and "3 * int (length calls) \<le> max_int64" "plain_type w"
  shows "fst (LoadSnapshot mem_ops (Some cx) w i (tri_start cx calls)) =
    (case snapshot_of (mem_docs (ts_store (tri_start cx calls))) w i of
       Some sn \<Rightarrow> Inr (cloneSnapshot sn) | None \<Rightarrow> Inl (Errorf ''failed to load identity: '' ErrNotFound))"
proof -
  have "store_ok mem_docs (tri_start cx calls)"
      "cache_ok (mem_docs (ts_store (tri_start cx calls))) (ts_syncID (tri_start cx calls)) (ts_cache (tri_start cx calls))"
    using tri_start_ok [OF assms(2), of cx] assms(1) by auto
  then show ?thesis
    using mem.load_evolves [of "tri_start cx calls" cx w i] assms(3)
    by (cases "LoadSnapshot mem_ops (Some cx) w i (tri_start cx calls)") (auto simp: store_ok_def)
qed

lemma map_filter_nonempty: "List.map_filter f xs \<noteq> [] \<longleftrightarrow> (\<exists>x \<in> set xs. f x \<noteq> None)"
  by (induction xs) (auto simp: List.map_filter_simps split: option.split)

lemma getChangedFields_nonempty:
  assumes "range_order ord"
  shows "getChangedFields ord current new \<noteq> [] \<longleftrightarrow>
    (\<exists>k v. fmlookup new k = Some v \<and> k \<notin> set diffExcludedFields \<and> fmlookup current k \<noteq> Some v)"
proof -
  have "getChangedFields ord current new \<noteq> [] \<longleftrightarrow>
      (\<exists>k. k |\<in>| fmdom new \<and> k \<notin> set diffExcludedFields \<and> fmlookup current k \<noteq> fmlookup new k)"
    unfolding getChangedFields_def map_filter_nonempty range_order_set [OF assms] Bex_def
    by (rule ex_cong1) (auto simp: fmlookup_dom_iff split: option.split)
  also have "\<dots> \<longleftrightarrow> (\<exists>k v. fmlookup new k = Some v \<and> k \<notin> set diffExcludedFields \<and> fmlookup current k \<noteq> Some v)"
    by (rule ex_cong1) (auto simp: fmlookup_dom_iff)
  finally show ?thesis .
qed

section \<open>Saves\<close>

text \<open>A field of the new document that the stored one does not have, or has with another value.\<close>

definition field_changed :: "role \<Rightarrow> document \<Rightarrow> document \<Rightarrow> string \<Rightarrow> bool" where
  "field_changed r old new k \<longleftrightarrow> k \<in> fmdom' (business r new) \<and> k \<notin> set diffExcludedFields
     \<and> fmlookup (business r old) k \<noteq> fmlookup (business r new) k"

lemma changed_iff:
  "range_order ord \<Longrightarrow> getChangedFields ord (business r old) (business r new) \<noteq> [] \<longleftrightarrow> (\<exists>k. field_changed r old new k)"
  unfolding field_changed_def by (subst getChangedFields_nonempty, assumption, rule ex_cong1) (auto simp: fmlookup_dom'_iff)

text \<open>
  \<^verbatim>\<open>SaveDesired\<close> writes exactly when it has to. On any state that calls can reach, with a document
  that carries the identifier it is saved under: if there is no such document yet, or a field of the
  new one was added or modified (the metadata, the identifier and \<^verbatim>\<open>Dependencies\<close> do not count), the
  call returns true, takes the next sync number and stores the new document with its metadata;
  otherwise it returns false and changes nothing.
\<close>

theorem save_writes_iff_changed:
  assumes "\<forall>c \<in> set calls. range_order (tc_order c)" "3 * int (length calls) < max_int64" "range_order ord" "doc_id doc = Some i"
  shows "let ts = tri_start cx calls; c = role_collection w RoleDesired; existing = mem_docs (ts_store ts) c i;
             changed = (case existing of None \<Rightarrow> True | Some old \<Rightarrow> \<exists>k. field_changed RoleDesired old doc k)
         in case SaveDesired mem_ops ord (Some cx) now w i (Some doc) ts of (res, ts') \<Rightarrow>
              res = Inr changed
              \<and> (if changed
                 then ts_syncID ts' = ts_syncID ts + 1
                   \<and> mem_docs (ts_store ts') c i = Some (written_doc existing doc DesiredSaveOptions (ts_syncID ts + 1) (now 0))
                 else ts' = ts)"
proof -
  let ?ts = "tri_start cx calls"
  have ok: "log_ok (mem_docs (ts_store ?ts)) (ts_syncID ?ts)" "ts_syncID ?ts < max_int64"
    using tri_start_ok [of calls cx] assms(1,2) by (auto simp: store_ok_def)
  have o: "\<not> so_SkipDeltaCheck DesiredSaveOptions" "so_Role DesiredSaveOptions = RoleDesired" "\<not> so_UpdateTimestampOnNoChange DesiredSaveOptions"
    by (simp_all add: DesiredSaveOptions_def)
  obtain res ts' where r: "saveWithDelta mem_ops ord (Some cx) now w i (Some doc) DesiredSaveOptions ?ts = (res, ts')" by force
  have sd: "SaveDesired mem_ops ord (Some cx) now w i (Some doc) ?ts = (map_sum id fst res, ts')"
    using r by (cases res) (simp_all add: SaveDesired_def call_def ret_def)
  from ok o(1) r show ?thesis
  proof (cases rule: mem.saveWithDelta_effect)
    case (rejected e)
    then show ?thesis using assms(4) by blast
  next
    case (unchanged d)
    then obtain old where old: "mem_docs (ts_store ?ts) (role_collection w RoleDesired) i = Some old"
        "getChangedFields ord (business RoleDesired old) (business RoleDesired doc) = []" "ts' = ?ts"
      by (auto simp: mem.save_unchanged_def o)
    then show ?thesis
      using changed_iff [OF assms(3), of RoleDesired old doc] unchanged(3) sd by (simp add: Let_def)
  next
    case (written doc' d)
    then have ch: "\<And>old. mem_docs (ts_store ?ts) (role_collection w RoleDesired) i = Some old \<Longrightarrow> \<exists>k. field_changed RoleDesired old doc k"
        "ts_syncID ts' = ts_syncID ?ts + 1"
        "mem_docs (ts_store ts') (role_collection w RoleDesired) i = Some (written_doc (mem_docs (ts_store ?ts) (role_collection w RoleDesired) i) doc DesiredSaveOptions (ts_syncID ?ts + 1) (now 0))"
      using changed_iff [OF assms(3), of RoleDesired _ doc]
      by (auto simp: mem.save_written_def Let_def o saved_docs_def split: option.split)
    then show ?thesis
      using written(3) sd by (auto simp: Let_def split: option.split)
  qed
qed

text \<open>What the stored document has of the metadata: nothing of the old one's creation time, and a version counted from the caller's.\<close>

lemma written_created_at: "fmlookup doc FieldCreatedAt = None \<Longrightarrow> fmlookup (written_doc (Some old) doc opts n now) FieldCreatedAt = None"
  by (auto simp: written_doc_def injectMetadataWithOptions_def merged_document_def Let_def field_names split: option.split)

lemma written_version:
  "fmlookup doc FieldVersion = None \<Longrightarrow> fmlookup (written_doc (Some old) doc DesiredSaveOptions n now) FieldVersion = Some (VInt64 1)"
  by (simp add: written_doc_def injectMetadataWithOptions_def merged_document_def DesiredSaveOptions_def Let_def field_names field_def
      default_of_def wrap_int64_def)

text \<open>A field that the caller leaves out is gone.\<close>

lemma written_omits: "k \<notin> set hidden_fields \<Longrightarrow> \<not> is_tomb_field k \<Longrightarrow> fmlookup doc k = None \<Longrightarrow> fmlookup (written_doc ex doc opts n now) k = None"
  by (simp add: written_lookup merged_lookup)

section \<open>Overlapping calls\<close>

lemma changed_save_differs:
  assumes "range_order ord" "field_changed r old doc k"
  shows "fmlookup (written_doc (Some old) doc opts n now) k \<noteq> fmlookup old k \<or> k = FieldUpdatedAt"
proof (cases "k \<in> set hidden_fields")
  case True
  then show ?thesis using assms(2)
    by (cases r) (auto simp: field_changed_def business_def filterCSEFields_def hidden_fields_def IdentityCSEFields_def
        DesiredCSEFields_def ObservedCSEFields_def fmlookup_dom'_iff split: if_splits)
next
  case False
  then show ?thesis
    using assms(2) by (auto simp: field_changed_def written_lookup merged_lookup business_lookup fmlookup_dom'_iff split: if_splits)
qed

text \<open>
  \<^verbatim>\<open>LoadSnapshot\<close> reads the sync counter after it has read the documents. If a save of another
  document version completes in between, the old documents enter the cache under the new counter:
  from then on \<^verbatim>\<open>LoadSnapshot\<close> answers with the desired document from before the save, although the
  save has returned, and since it leaves the state as it is, every further call does so too.
\<close>

theorem snapshot_race_stale:
  assumes "\<forall>c \<in> set calls. range_order (tc_order c)" "3 * int (length calls) < max_int64" "range_order ord"
    and read: "snapshot_read mem_ops (Some cx) w i (tri_start cx calls) = (Inr sn, ts1)"
    and save: "SaveDesired mem_ops ord (Some cx) now w i (Some doc) ts1 = (Inr True, ts2)"
  shows "LoadSnapshot mem_ops (Some cx) w i (snapshot_cache w i sn ts2) = (Inr (cloneSnapshot sn), snapshot_cache w i sn ts2)
    \<and> mem_docs (ts_store (snapshot_cache w i sn ts2)) (role_collection w RoleDesired) i \<noteq> sn_Desired sn"
proof -
  let ?ts = "tri_start cx calls" and ?c = "role_collection w RoleDesired"
  obtain s where rd: "snapshot_of (mem_docs (ts_store ?ts)) w i = Some sn" "ts1 = ?ts\<lparr>ts_store := s\<rparr>" "mem_docs s = mem_docs (ts_store ?ts)"
    using mem.snapshot_read_effect [of cx w i ?ts] read by (auto split: option.splits)
  have sn: "sn_Desired sn = mem_docs (ts_store ts1) ?c i" using rd by (auto simp: snapshot_of_def split: option.splits)
  have ok: "log_ok (mem_docs (ts_store ts1)) (ts_syncID ts1)" "ts_syncID ts1 < max_int64"
    using tri_start_ok [of calls cx] assms(1,2) rd by (auto simp: store_ok_def)
  have o: "\<not> so_SkipDeltaCheck DesiredSaveOptions" "so_Role DesiredSaveOptions = RoleDesired" by (simp_all add: DesiredSaveOptions_def)
  obtain res ts' where r: "saveWithDelta mem_ops ord (Some cx) now w i (Some doc) DesiredSaveOptions ts1 = (res, ts')" by force
  have "ts' = ts2" "\<exists>d. res = Inr (True, d)"
    using r save by (cases res; auto simp: SaveDesired_def call_def ret_def)+
  with ok o(1) r have "mem_docs (ts_store ts2) ?c i \<noteq> mem_docs (ts_store ts1) ?c i"
  proof (cases rule: mem.saveWithDelta_effect)
    case (written doc' d)
    then have w: "mem_docs (ts_store ts2) ?c i = Some (written_doc (mem_docs (ts_store ts1) ?c i) doc DesiredSaveOptions (ts_syncID ts1 + 1) (now 0))"
        "\<And>old. mem_docs (ts_store ts1) ?c i = Some old \<Longrightarrow> \<exists>k. field_changed RoleDesired old doc k"
      using \<open>ts' = ts2\<close> changed_iff [OF assms(3), of RoleDesired _ doc]
      by (auto simp: mem.save_written_def Let_def o saved_docs_def split: option.split)
    show ?thesis
    proof (cases "mem_docs (ts_store ts1) ?c i")
      case (Some old)
      then obtain k where k: "field_changed RoleDesired old doc k" using w(2) by blast
      then have "k \<noteq> FieldUpdatedAt"
        by (auto simp: field_changed_def business_def filterCSEFields_def DesiredCSEFields_def fmlookup_dom'_iff split: if_splits)
      then show ?thesis
        using w(1) Some changed_save_differs [OF assms(3) k, of DesiredSaveOptions "ts_syncID ts1 + 1" "now 0"] by auto
    qed (simp add: w(1))
  qed auto
  then show ?thesis
    using sn by (simp add: LoadSnapshot_def cached_snapshot_of_def snapshot_cache_def)
qed

text \<open>Two workers whose type and identifier make the same cache key share an entry.\<close>

lemma snapshot_collision:
  "LoadSnapshot P ctx ''a'' ''b_c'' (snapshot_cache ''a_b'' ''c'' sn ts) = (Inr (cloneSnapshot sn), snapshot_cache ''a_b'' ''c'' sn ts)"
  by (simp add: LoadSnapshot_def cached_snapshot_of_def snapshot_cache_def cache_key_def)

section \<open>Tombstones\<close>

text \<open>The stored document carries this tombstone.\<close>

definition tombstoned :: "docs_view \<Rightarrow> string \<Rightarrow> string \<Rightarrow> gval \<Rightarrow> gval \<Rightarrow> bool" where
  "tombstoned D c i at deletedBy \<longleftrightarrow> at \<noteq> VNil \<and> (\<exists>d. D c i = Some d \<and> fmlookup d FieldDeletedAt = Some at \<and> fmlookup d FieldDeletedBy = Some deletedBy)"

lemma tombstoned_set: "tombstoned D c i at b \<Longrightarrow>
   (c' = c \<Longrightarrow> i' = i \<Longrightarrow> fmlookup d FieldDeletedAt = Some at \<and> fmlookup d FieldDeletedBy = Some b) \<Longrightarrow>
   tombstoned (set_doc D c' i' (Some d)) c i at b"
  by (auto simp: tombstoned_def set_doc_apply)

lemma tombstoned_delta: "c \<noteq> DeltaCollectionName \<Longrightarrow> tombstoned (set_doc D DeltaCollectionName k v) c i at b = tombstoned D c i at b"
  by (simp add: tombstoned_def)

lemma tombstoned_deltas: "c \<noteq> DeltaCollectionName \<Longrightarrow> tombstoned (add_deltas es D) c i at b = tombstoned D c i at b"
  by (induction es arbitrary: D) (simp_all add: add_deltas_def tombstoned_delta)

lemma tombstoned_written:
  assumes "tombstoned D (role_collection v q) i at b"
  shows "tombstoned (set_doc D (role_collection w r) j (Some (written_doc (D (role_collection w r) j) doc opts n now))) (role_collection v q) i at b"
proof (rule tombstoned_set [OF assms])
  assume "role_collection w r = role_collection v q" "j = i"
  then obtain d where d: "D (role_collection w r) j = Some d" "fmlookup d FieldDeletedAt = Some at" "fmlookup d FieldDeletedBy = Some b" "at \<noteq> VNil"
    using assms by (auto simp: tombstoned_def)
  have "hasTombstone d" using d by (simp add: hasTombstone_def field_def)
  moreover have "is_tomb_field FieldDeletedAt" "is_tomb_field FieldDeletedBy" by (simp_all add: is_tomb_field_def)
  ultimately show "fmlookup (written_doc (D (role_collection w r) j) doc opts n now) FieldDeletedAt = Some at
      \<and> fmlookup (written_doc (D (role_collection w r) j) doc opts n now) FieldDeletedBy = Some b"
    using d by (simp add: written_lookup merged_lookup tomb_not_hidden field_def)
qed

lemma edit_abs_keeps:
  assumes "edit_abs w j edit rs V n = (V', wr)" "tombstoned V c i at b"
    and "\<And>r d. c = role_collection w r \<Longrightarrow> i = j \<Longrightarrow> hasTombstone d \<Longrightarrow> edit d = None"
  shows "tombstoned V' c i at b"
  using assms(1,2)
proof (induction rs arbitrary: V n wr)
  case (Cons r rs)
  show ?case
  proof (cases "Option.bind (V (role_collection w r) j) edit")
    case None
    then show ?thesis using Cons by simp
  next
    case (Some p)
    obtain doc d where p: "p = (doc, d)" by force
    have other: "\<not> (role_collection w r = c \<and> j = i)"
    proof
      assume same: "role_collection w r = c \<and> j = i"
      then obtain old where "V c i = Some old" "hasTombstone old" using Cons.prems(2) by (auto simp: tombstoned_def hasTombstone_def field_def)
      then show False using same Some assms(3) [of r old] by auto
    qed
    then have "tombstoned (set_doc V (role_collection w r) j (Some (fmupd FieldSyncID (VInt64 (n + 1)) doc))) c i at b"
      using Cons.prems(2) by (intro tombstoned_set) auto
    then show ?thesis using Cons.IH Cons.prems(1) Some p by (auto split: prod.splits)
  qed
qed simp

lemma edit_abs_marks:
  assumes "edit_abs w i (tombstone_edit t b) rs V n = (V', wr)" "r \<in> set rs" "V (role_collection w r) i = Some d" "tomb_ok d"
  shows "tombstoned V' (role_collection w r) i (if hasTombstone d then field d FieldDeletedAt else VTime t)
    (if hasTombstone d then field d FieldDeletedBy else VString b)"
proof (cases "hasTombstone d")
  case True
  then have "tombstoned V (role_collection w r) i (field d FieldDeletedAt) (field d FieldDeletedBy)"
    using assms(3,4) by (auto simp: tombstoned_def tomb_ok_def hasTombstone_def field_def split: option.splits)
  then show ?thesis using True edit_abs_keeps [OF assms(1)] by (simp add: tombstone_edit_def)
next
  case False
  obtain x where ed: "tombstone_edit t b d = Some (fmupd FieldDeletedBy (VString b) (fmupd FieldDeletedAt (VTime t) d), x)"
    using False by (auto simp: tombstone_edit_def)
  from assms(1-3) have "tombstoned V' (role_collection w r) i (VTime t) (VString b)"
  proof (induction rs arbitrary: V n wr)
    case (Cons q rs)
    show ?case
    proof (cases "q = r")
      case True
      let ?V1 = "set_doc V (role_collection w r) i (Some (fmupd FieldSyncID (VInt64 (n + 1)) (fmupd FieldDeletedBy (VString b) (fmupd FieldDeletedAt (VTime t) d))))"
      have "tombstoned ?V1 (role_collection w r) i (VTime t) (VString b)" by (simp add: tombstoned_def field_names)
      moreover obtain wr1 where "edit_abs w i (tombstone_edit t b) rs ?V1 (n + 1) = (V', wr1)"
        using Cons.prems(1,3) True ed by (auto split: prod.splits)
      ultimately show ?thesis using edit_abs_keeps by (metis tombstone_edit_def)
    next
      case False
      then have r: "r \<in> set rs" using Cons.prems(2) by simp
      show ?thesis
      proof (cases "Option.bind (V (role_collection w q) i) (tombstone_edit t b)")
        case None
        then have rec: "edit_abs w i (tombstone_edit t b) rs V n = (V', wr)" using Cons.prems(1) by simp
        show ?thesis by (rule Cons.IH [OF rec, OF r, OF Cons.prems(3)])
      next
        case (Some p)
        obtain doc x where p: "p = (doc, x)" by force
        let ?V1 = "set_doc V (role_collection w q) i (Some (fmupd FieldSyncID (VInt64 (n + 1)) doc))"
        obtain wr1 where rec: "edit_abs w i (tombstone_edit t b) rs ?V1 (n + 1) = (V', wr1)"
          using Cons.prems(1) Some p by (auto split: prod.splits)
        have "?V1 (role_collection w r) i = Some d" using Cons.prems(3) False by simp
        from Cons.IH [OF rec, OF r, OF this] show ?thesis .
      qed
    qed
  qed simp
  then show ?thesis using False by simp
qed

context document_store
begin

lemma save_keeps_tombstone:
  assumes "log_ok (docs (ts_store ts)) (ts_syncID ts)" "ts_syncID ts < max_int64" "\<not> so_SkipDeltaCheck opts"
    and "saveWithDelta P ord (Some cx) now w j doc0 opts ts = (res, ts')"
    and t: "tombstoned (docs (ts_store ts)) (role_collection v q) i at b"
  shows "tombstoned (docs (ts_store ts')) (role_collection v q) i at b"
  using assms(1-4)
proof (cases rule: saveWithDelta_effect)
  case (unchanged doc)
  then obtain old where old: "docs (ts_store ts) (role_collection w (so_Role opts)) j = Some old"
      "ts' = ts \<or> docs (ts_store ts') = set_doc (docs (ts_store ts)) (role_collection w (so_Role opts)) j (Some (fmupd FieldUpdatedAt (VTime (now 0)) old))"
    by (auto simp: save_unchanged_def split: if_splits)
  have "tombstoned (set_doc (docs (ts_store ts)) (role_collection w (so_Role opts)) j (Some (fmupd FieldUpdatedAt (VTime (now 0)) old))) (role_collection v q) i at b"
    by (rule tombstoned_set [OF t]) (use t old(1) in \<open>auto simp: tombstoned_def field_names\<close>)
  then show ?thesis using old(2) t by auto
next
  case (written doc d)
  then show ?thesis
    using tombstoned_written [OF t, of w "so_Role opts" j]
    by (auto simp: save_written_def Let_def saved_docs_def tombstoned_delta split: option.split)
qed (simp add: t)

lemma edit_keeps_tombstone:
  assumes "store_ok docs ts" "ts_syncID ts + 3 \<le> max_int64" "edit_ok edit"
    and "editRoleDocuments P (Some cx) t w j edit ts = (res, ts')"
    and "tombstoned (docs (ts_store ts)) (role_collection v q) i at b"
    and "\<And>d. w = v \<Longrightarrow> j = i \<Longrightarrow> hasTombstone d \<Longrightarrow> edit d = None"
  shows "tombstoned (docs (ts_store ts')) (role_collection v q) i at b"
proof -
  obtain s V' wr where "editRoleDocuments P (Some cx) t w j edit ts =
      (Inr (), ts\<lparr>ts_store := s, ts_syncID := ts_syncID ts + int (length wr), ts_cache := fmdrop (cache_key w j) (ts_cache ts)\<rparr>)"
    and abs: "edit_abs w j edit allRoles (docs (ts_store ts)) (ts_syncID ts) = (V', wr)"
    and ds: "docs s = add_deltas (map (role_entry w j t) wr) V'"
    by (rule editRoleDocuments_effect [OF assms(1-3)])
  then have "docs (ts_store ts') = add_deltas (map (role_entry w j t) wr) V'" using assms(4) by auto
  moreover have "tombstoned V' (role_collection v q) i at b"
    by (rule edit_abs_keeps [OF abs assms(5)]) (auto simp: assms(6))
  ultimately show ?thesis by (simp add: tombstoned_deltas)
qed

lemma exec_keeps_tombstone:
  assumes ok: "store_ok docs ts" "ts_syncID ts + 3 \<le> max_int64" "range_order (tc_order c)"
    and t: "tombstoned (docs (ts_store ts)) (role_collection v q) i at b"
    and op: "tc_op c \<noteq> CallClearTombstone v i"
  shows "tombstoned (docs (ts_store (tri_exec P cx c ts))) (role_collection v q) i at b"
proof -
  have log: "log_ok (docs (ts_store ts)) (ts_syncID ts)" "ts_syncID ts < max_int64" "docs_ok (docs (ts_store ts))"
    using ok by (auto simp: store_ok_def)
  have skip: "\<not> so_SkipDeltaCheck IdentitySaveOptions" "\<not> so_SkipDeltaCheck DesiredSaveOptions" "\<not> so_SkipDeltaCheck ObservedSaveOptions"
    by (simp_all add: IdentitySaveOptions_def DesiredSaveOptions_def ObservedSaveOptions_def)
  show ?thesis
  proof (cases "tc_op c")
    case (CallSaveIdentity w j d)
    let ?ts0 = "registerWorkerType w ts"
    have log0: "log_ok (docs (ts_store ?ts0)) (ts_syncID ?ts0)" "ts_syncID ?ts0 < max_int64" "tombstoned (docs (ts_store ?ts0)) (role_collection v q) i at b"
      using log t by (simp_all add: registerWorkerType_def)
    obtain res ts' where r: "saveWithDelta P (tc_order c) (Some cx) (tc_now c) w j d IdentitySaveOptions ?ts0 = (res, ts')" by force
    then have "tri_exec P cx c ts = ts'" using CallSaveIdentity by (simp add: tri_exec_def SaveIdentity_def unit_of_def call_def ret_def split: sum.split)
    then show ?thesis using save_keeps_tombstone [OF log0(1,2) skip(1) r log0(3)] by simp
  next
    case (CallSaveDesired w j d)
    obtain res ts' where r: "saveWithDelta P (tc_order c) (Some cx) (tc_now c) w j d DesiredSaveOptions ts = (res, ts')" by force
    then have "tri_exec P cx c ts = ts'" using CallSaveDesired by (simp add: tri_exec_def SaveDesired_def call_def ret_def split: sum.split)
    then show ?thesis using save_keeps_tombstone [OF log(1,2) skip(2) r t] by simp
  next
    case (CallSaveObserved w j x)
    show ?thesis
    proof (cases "\<exists>doc. toDocument x = Inr (Some doc)")
      case False
      then have "tri_exec P cx c ts = ts"
        using CallSaveObserved by (auto simp: tri_exec_def SaveObserved_def split: sum.split option.split)
      then show ?thesis using t by simp
    next
      case True
      then obtain doc where doc: "toDocument x = Inr (Some doc)" by blast
      obtain res ts' where r: "saveWithDelta P (tc_order c) (Some cx) (tc_now c) w j (Some (fmupd ''id'' (VString j) doc)) ObservedSaveOptions ts = (res, ts')" by force
      then have "tri_exec P cx c ts = ts'" using CallSaveObserved doc by (simp add: tri_exec_def SaveObserved_def call_def ret_def split: sum.split)
      then show ?thesis using save_keeps_tombstone [OF log(1,2) skip(3) r t] by simp
    qed
  next
    case (CallTombstone w j x)
    obtain res ts' where r: "editRoleDocuments P (Some cx) (tc_now c 0) w j (tombstone_edit (tc_now c 0) x) ts = (res, ts')" by force
    then have "tri_exec P cx c ts = ts'" using CallTombstone by (simp add: tri_exec_def Tombstone_def wrapped_def split: sum.split)
    then show ?thesis using edit_keeps_tombstone [OF ok(1,2) edit_ok_tombstone r t] by (simp add: tombstone_edit_def)
  next
    case (CallClearTombstone w j)
    obtain res ts' where r: "editRoleDocuments P (Some cx) (tc_now c 0) w j clear_edit ts = (res, ts')" by force
    then have "tri_exec P cx c ts = ts'" using CallClearTombstone by (simp add: tri_exec_def ClearTombstone_def wrapped_def split: sum.split)
    then show ?thesis using edit_keeps_tombstone [OF ok(1,2) edit_ok_clear r t] op CallClearTombstone by auto
  next
    case (CallLoadSnapshot w j)
    obtain s where "snapshot_read P (Some cx) w j ts =
        ((case snapshot_of (docs (ts_store ts)) w j of Some sn \<Rightarrow> Inr sn | None \<Rightarrow> Inl (Errorf ''failed to load identity: '' ErrNotFound)), ts\<lparr>ts_store := s\<rparr>)"
      "docs s = docs (ts_store ts)" using snapshot_read_effect by blast
    then have "docs (ts_store (tri_exec P cx c ts)) = docs (ts_store ts)"
      using CallLoadSnapshot by (auto simp: tri_exec_def LoadSnapshot_def snapshot_cache_def split: option.split)
    then show ?thesis using t by simp
  qed (use t in \<open>simp_all add: tri_exec_def IncrementSyncID_def next_sync_def tri_Maintenance_def Let_def\<close>)
qed

lemma run_keeps_tombstone:
  assumes "store_ok docs ts" "ts_syncID ts + 3 * int (length calls) \<le> max_int64"
    "\<forall>c \<in> set calls. range_order (tc_order c) \<and> tc_op c \<noteq> CallClearTombstone v i"
    "tombstoned (docs (ts_store ts)) (role_collection v q) i at b"
  shows "tombstoned (docs (ts_store (tri_run P cx calls ts))) (role_collection v q) i at b"
  using assms
proof (induction calls arbitrary: ts)
  case Nil
  then show ?case by (simp add: tri_run_def)
next
  case (Cons c calls)
  let ?ts1 = "tri_exec P cx c ts"
  have b: "ts_syncID ts + 3 \<le> max_int64" "range_order (tc_order c)" using Cons.prems(2,3) by auto
  obtain es where es: "evolves docs ts es ?ts1" using exec_evolves [OF Cons.prems(1) b] by blast
  have "tombstoned (docs (ts_store (tri_run P cx calls ?ts1))) (role_collection v q) i at b"
    using Cons.prems es store_ok_evolves [OF Cons.prems(1) es] exec_keeps_tombstone [OF Cons.prems(1) b Cons.prems(4)]
    by (intro Cons.IH) (auto simp: evolves_def)
  then show ?case by (simp add: tri_run_def)
qed

lemma Tombstone_effect:
  assumes ok: "store_ok docs ts" "ts_syncID ts + 3 \<le> max_int64" and d: "docs (ts_store ts) (role_collection w r) i = Some d"
  obtains ts' es where "Tombstone P (Some cx) now w i b ts = (Inr (), ts')" "evolves docs ts es ts'"
    "tombstoned (docs (ts_store ts')) (role_collection w r) i (if hasTombstone d then field d FieldDeletedAt else VTime (now 0))
      (if hasTombstone d then field d FieldDeletedBy else VString b)"
proof -
  let ?edit = "tombstone_edit (now 0) b"
  obtain s V' wr where e: "editRoleDocuments P (Some cx) (now 0) w i ?edit ts =
      (Inr (), ts\<lparr>ts_store := s, ts_syncID := ts_syncID ts + int (length wr), ts_cache := fmdrop (cache_key w i) (ts_cache ts)\<rparr>)"
    and abs: "edit_abs w i ?edit allRoles (docs (ts_store ts)) (ts_syncID ts) = (V', wr)"
    and ds: "docs s = add_deltas (map (role_entry w i (now 0)) wr) V'"
    by (rule editRoleDocuments_effect [OF ok edit_ok_tombstone])
  obtain es where "evolves docs ts es (ts\<lparr>ts_store := s, ts_syncID := ts_syncID ts + int (length wr), ts_cache := fmdrop (cache_key w i) (ts_cache ts)\<rparr>)"
    using edit_evolves [OF ok edit_ok_tombstone e] by blast
  moreover have "r \<in> set allRoles" "tomb_ok d" using ok(1) d by (cases r; auto simp: allRoles_def store_ok_def docs_ok_def)+
  ultimately show thesis
    using that e edit_abs_marks [OF abs _ d] ds by (auto simp: Tombstone_def wrapped_def tombstoned_deltas)
qed

end

text \<open>
  C13: a removed worker stays removed. \<^verbatim>\<open>Tombstone\<close> succeeds and marks every document the worker has
  with the instant and the name it was given, or keeps the mark that is already there; and whatever
  is called afterwards, saves of that very document by a collector that is still running included,
  the mark stays as it is until \<^verbatim>\<open>ClearTombstone\<close> is called for the worker.
\<close>

theorem tombstone_sticky:
  assumes "\<forall>c \<in> set (before @ later). range_order (tc_order c)" "\<forall>c \<in> set later. tc_op c \<noteq> CallClearTombstone w i"
    and "3 * int (length before + length later + 1) \<le> max_int64"
    and "mem_docs (ts_store (tri_start cx before)) (role_collection w r) i = Some d"
  shows "case Tombstone mem_ops (Some cx) now w i b (tri_start cx before) of (res, ts1) \<Rightarrow>
    res = Inr () \<and> tombstoned (mem_docs (ts_store (tri_run mem_ops cx later ts1))) (role_collection w r) i
      (if hasTombstone d then field d FieldDeletedAt else VTime (now 0)) (if hasTombstone d then field d FieldDeletedBy else VString b)"
proof -
  have ok: "store_ok mem_docs (tri_start cx before)" "ts_syncID (tri_start cx before) \<le> 3 * int (length before)"
    using tri_start_ok [of before cx] assms by auto
  have b: "ts_syncID (tri_start cx before) + 3 \<le> max_int64" using ok(2) assms(3) by simp
  obtain ts' es where t: "Tombstone mem_ops (Some cx) now w i b (tri_start cx before) = (Inr (), ts')"
    "evolves mem_docs (tri_start cx before) es ts'"
    "tombstoned (mem_docs (ts_store ts')) (role_collection w r) i (if hasTombstone d then field d FieldDeletedAt else VTime (now 0))
      (if hasTombstone d then field d FieldDeletedBy else VString b)"
    by (rule mem.Tombstone_effect [OF ok(1) b assms(4)])
  have "ts_syncID ts' + 3 * int (length later) \<le> max_int64" using t(2) ok(2) assms(3) by (simp add: evolves_def)
  then show ?thesis
    using t(1) mem.run_keeps_tombstone [OF store_ok_evolves [OF ok(1) t(2)] _ _ t(3), of later cx] assms(1,2) by simp
qed

section \<open>The properties at work\<close>

lemma first_save:
  assumes "log_ok (mem_docs (ts_store ts)) (ts_syncID ts)" "ts_syncID ts < max_int64" "\<not> so_SkipDeltaCheck opts"
    and "mem_docs (ts_store ts) (role_collection w (so_Role opts)) i = None" "doc_id doc = Some i"
  shows "\<exists>d ts'. saveWithDelta mem_ops ord (Some cx) now w i (Some doc) opts ts = (Inr (True, d), ts')
    \<and> mem_docs (ts_store ts') (role_collection w (so_Role opts)) i \<noteq> None
    \<and> (\<forall>r. r \<noteq> so_Role opts \<longrightarrow> mem_docs (ts_store ts') (role_collection w r) = mem_docs (ts_store ts) (role_collection w r))"
proof -
  obtain res ts' where r: "saveWithDelta mem_ops ord (Some cx) now w i (Some doc) opts ts = (res, ts')" by force
  from assms(1-3) r show ?thesis
  proof (cases rule: mem.saveWithDelta_effect)
    case (rejected e)
    then show ?thesis using assms(5) by blast
  next
    case (unchanged d)
    then show ?thesis using assms(4) by (simp add: mem.save_unchanged_def)
  next
    case (written doc' d)
    then show ?thesis using r by (auto simp: mem.save_written_def Let_def saved_docs_def split: option.splits)
  qed
qed

definition demo_ctx :: gctx where "demo_ctx = (\<lambda>_. None)"

definition demo_identity :: tri_call where
  "demo_identity = \<lparr>tc_op = CallSaveIdentity ''w'' ''a'' (Some demo_doc), tc_order = key_order, tc_now = (\<lambda>_. 0)\<rparr>"

definition demo_observed :: tri_call where
  "demo_observed = \<lparr>tc_op = CallSaveObserved ''w'' ''a'' (AnyDoc (Some demo_doc)), tc_order = key_order, tc_now = (\<lambda>_. 1)\<rparr>"

lemma demo_calls:
  "\<forall>c \<in> set ([demo_identity] @ [demo_observed]). range_order (tc_order c)" "\<forall>c \<in> set [demo_identity]. range_order (tc_order c)"
  "\<forall>c \<in> set [demo_identity]. range_order (tc_order c) \<and> pred_option plain_type (op_type (tc_op c))"
  "\<forall>c \<in> set [demo_observed]. tc_op c \<noteq> CallClearTombstone ''w'' ''a''" "plain_type ''w''"
  by (simp_all add: demo_identity_def demo_observed_def range_key_order plain_type_def)

lemma demo_started:
  "mem_docs (ts_store (tri_start demo_ctx [demo_identity])) (role_collection ''w'' RoleIdentity) ''a'' \<noteq> None"
  "mem_docs (ts_store (tri_start demo_ctx [demo_identity])) (role_collection ''w'' RoleDesired) ''a'' = None"
proof -
  let ?ts0 = "registerWorkerType ''w'' (NewTriangularStore NewInMemoryStore)"
  have e: "mem_docs (ts_store ?ts0) = (\<lambda>_ _. None)" "ts_syncID ?ts0 = 0"
    by (auto simp: registerWorkerType_def NewTriangularStore_def NewInMemoryStore_def mem_docs_def fun_eq_iff)
  have o: "\<not> so_SkipDeltaCheck IdentitySaveOptions" "so_Role IdentitySaveOptions = RoleIdentity" by (simp_all add: IdentitySaveOptions_def)
  have l: "log_ok (mem_docs (ts_store ?ts0)) (ts_syncID ?ts0)" "ts_syncID ?ts0 < max_int64"
    by (simp_all add: e log_ok_def max_int64_def)
  obtain d ts' where s: "saveWithDelta mem_ops key_order (Some demo_ctx) (\<lambda>_. 0) ''w'' ''a'' (Some demo_doc) IdentitySaveOptions ?ts0 = (Inr (True, d), ts')"
      "mem_docs (ts_store ts') (role_collection ''w'' RoleIdentity) ''a'' \<noteq> None"
      "mem_docs (ts_store ts') (role_collection ''w'' RoleDesired) = mem_docs (ts_store ?ts0) (role_collection ''w'' RoleDesired)"
    using first_save [OF l o(1), of "''w''" "''a''" demo_doc key_order demo_ctx "\<lambda>_. 0"] by (auto simp: e(1) o(2) demo_doc_id)
  have "tri_start demo_ctx [demo_identity] = ts'"
    using s(1) by (simp add: tri_start_def tri_run_def tri_exec_def demo_identity_def SaveIdentity_def unit_of_def call_def ret_def)
  then show "mem_docs (ts_store (tri_start demo_ctx [demo_identity])) (role_collection ''w'' RoleIdentity) ''a'' \<noteq> None"
      "mem_docs (ts_store (tri_start demo_ctx [demo_identity])) (role_collection ''w'' RoleDesired) ''a'' = None"
    using s(2,3) e(1) by simp_all
qed


theorem snapshot_current_witness:
  "\<exists>sn. fst (LoadSnapshot mem_ops (Some demo_ctx) ''w'' ''a'' (tri_start demo_ctx [demo_identity])) = Inr (cloneSnapshot sn)
    \<and> snapshot_of (mem_docs (ts_store (tri_start demo_ctx [demo_identity]))) ''w'' ''a'' = Some sn"
  using snapshot_current [OF demo_calls(3) _ demo_calls(5), of demo_ctx "''a''"] demo_started(1)
  by (auto simp: max_int64_def snapshot_of_def)

theorem save_writes_iff_changed_witness:
  "fst (SaveDesired mem_ops key_order (Some demo_ctx) (\<lambda>_. 0) ''w'' ''a'' (Some demo_doc) (tri_start demo_ctx [demo_identity])) = Inr True"
  using save_writes_iff_changed [OF demo_calls(2) _ range_key_order demo_doc_id, of demo_ctx "''w''" "\<lambda>_. 0"] demo_started(2)
  by (simp add: max_int64_def Let_def split: prod.splits)

theorem snapshot_race_stale_witness:
  "\<exists>sn ts1 ts2. snapshot_read mem_ops (Some demo_ctx) ''w'' ''a'' (tri_start demo_ctx [demo_identity]) = (Inr sn, ts1)
    \<and> SaveDesired mem_ops key_order (Some demo_ctx) (\<lambda>_. 0) ''w'' ''a'' (Some demo_doc) ts1 = (Inr True, ts2)
    \<and> fst (LoadSnapshot mem_ops (Some demo_ctx) ''w'' ''a'' (snapshot_cache ''w'' ''a'' sn ts2)) = Inr (cloneSnapshot sn)
    \<and> mem_docs (ts_store (snapshot_cache ''w'' ''a'' sn ts2)) (role_collection ''w'' RoleDesired) ''a'' \<noteq> sn_Desired sn"
proof -
  let ?ts = "tri_start demo_ctx [demo_identity]"
  have ok: "store_ok mem_docs ?ts" "ts_syncID ?ts < max_int64"
    using tri_start_ok [of "[demo_identity]" demo_ctx] demo_calls(2) by (auto simp: max_int64_def)
  obtain sn s where rd: "snapshot_read mem_ops (Some demo_ctx) ''w'' ''a'' ?ts = (Inr sn, ?ts\<lparr>ts_store := s\<rparr>)" "mem_docs s = mem_docs (ts_store ?ts)"
    using mem.snapshot_read_effect [of demo_ctx "''w''" "''a''" ?ts] demo_started(1) by (auto simp: snapshot_of_def)
  have o: "\<not> so_SkipDeltaCheck DesiredSaveOptions" "so_Role DesiredSaveOptions = RoleDesired" by (simp_all add: DesiredSaveOptions_def)
  have l: "log_ok (mem_docs (ts_store (?ts\<lparr>ts_store := s\<rparr>))) (ts_syncID (?ts\<lparr>ts_store := s\<rparr>))" "ts_syncID (?ts\<lparr>ts_store := s\<rparr>) < max_int64"
    using ok rd(2) by (simp_all add: store_ok_def)
  obtain ts2 where sv: "SaveDesired mem_ops key_order (Some demo_ctx) (\<lambda>_. 0) ''w'' ''a'' (Some demo_doc) (?ts\<lparr>ts_store := s\<rparr>) = (Inr True, ts2)"
    using first_save [OF l o(1), of "''w''" "''a''" demo_doc key_order demo_ctx "\<lambda>_. 0"] rd(2) demo_started(2)
    by (auto simp: o(2) demo_doc_id SaveDesired_def call_def ret_def)
  have "3 * int (length [demo_identity]) < max_int64" by (simp add: max_int64_def)
  from snapshot_race_stale [OF demo_calls(2) this range_key_order rd(1) sv] rd(1) sv show ?thesis by auto
qed

theorem tombstone_sticky_witness:
  "\<exists>at b'. tombstoned (mem_docs (ts_store (tri_run mem_ops demo_ctx [demo_observed]
     (snd (Tombstone mem_ops (Some demo_ctx) (\<lambda>_. 7) ''w'' ''a'' ''operator'' (tri_start demo_ctx [demo_identity]))))))
     (role_collection ''w'' RoleIdentity) ''a'' at b'"
proof -
  obtain d where d: "mem_docs (ts_store (tri_start demo_ctx [demo_identity])) (role_collection ''w'' RoleIdentity) ''a'' = Some d"
    using demo_started(1) by blast
  have b: "3 * int (length [demo_identity] + length [demo_observed] + 1) \<le> max_int64" by (simp add: max_int64_def)
  show ?thesis
    using tombstone_sticky [OF demo_calls(1,4) b d, of "\<lambda>_. 7" "''operator''"] by (auto split: prod.splits)
qed

end
