(* ===== verification/Delta_Sync.thy ===== *)
theory Delta_Sync
  imports Triangular_Props "HOL-Library.Product_Lexorder"
begin

text \<open>
  What sync clients call: \<^verbatim>\<open>GetDeltas\<close> with its fallback to a bootstrap, \<^verbatim>\<open>CompactDeltas\<close>, and
  the loop of \<^verbatim>\<open>DumpScenario\<close> (\<^verbatim>\<open>scenariorunner/dump.go\<close>) that pages through all deltas.
\<close>

section \<open>Deltas for clients\<close>

record delta =
  dl_SyncID :: int
  dl_WorkerType :: string
  dl_WorkerID :: string
  dl_Role :: string
  dl_Changes :: "diff option"
  dl_TimestampMs :: int

record worker_snapshot =
  ws_WorkerType :: string
  ws_WorkerID :: string
  ws_Identity :: document
  ws_Desired :: "document option"
  ws_Observed :: "document option"

record bootstrap_data =
  bd_Workers :: "worker_snapshot list"
  bd_AtSyncID :: int
  bd_TimestampMs :: int

record deltas_response =
  dr_Deltas :: "delta list"
  dr_Bootstrap :: "bootstrap_data option"
  dr_LatestSyncID :: int
  dr_RequiresBootstrap :: bool
  dr_HasMore :: bool

text \<open>The workers of one type; documents without an identifier and workers that fail to load are passed over.\<close>

fun bootstrap_type ::
  "('s, 't) store_ops \<Rightarrow> gcontext \<Rightarrow> string \<Rightarrow> document list \<Rightarrow> 's tri_store \<Rightarrow> worker_snapshot list \<times> 's tri_store" where
  "bootstrap_type P ctx w [] ts = ([], ts)"
| "bootstrap_type P ctx w (doc # docs) ts =
     (case str_field doc ''id'' of
        None \<Rightarrow> bootstrap_type P ctx w docs ts
      | Some i \<Rightarrow>
          (case LoadSnapshot P ctx w i ts of
             (Inl _, ts1) \<Rightarrow> bootstrap_type P ctx w docs ts1
           | (Inr sn, ts1) \<Rightarrow>
               (case bootstrap_type P ctx w docs ts1 of (ws, ts2) \<Rightarrow>
                  (\<lparr>ws_WorkerType = w, ws_WorkerID = i, ws_Identity = sn_Identity sn, ws_Desired = sn_Desired sn, ws_Observed = sn_Observed sn\<rparr> # ws, ts2))))"

fun bootstrap_types ::
  "('s, 't) store_ops \<Rightarrow> map_order \<Rightarrow> gcontext \<Rightarrow> string list \<Rightarrow> 's tri_store \<Rightarrow> worker_snapshot list \<times> 's tri_store" where
  "bootstrap_types P ord ctx [] ts = ([], ts)"
| "bootstrap_types P ord ctx (w # wts) ts =
     (case on_store (st_Find P ord ctx (w @ ''_identity'') NewQuery) ts of
        (Inl _, ts1) \<Rightarrow> bootstrap_types P ord ctx wts ts1
      | (Inr docs, ts1) \<Rightarrow>
          (case bootstrap_type P ctx w docs ts1 of (ws, ts2) \<Rightarrow>
             (case bootstrap_types P ord ctx wts ts2 of (rest, ts3) \<Rightarrow> (ws @ rest, ts3))))"

definition buildBootstrap ::
  "('s, 't) store_ops \<Rightarrow> map_order \<Rightarrow> gcontext \<Rightarrow> int \<Rightarrow> int \<Rightarrow> 's tri_store \<Rightarrow> bootstrap_data \<times> 's tri_store" where
  "buildBootstrap P ord ctx now atSyncID ts =
     (case bootstrap_types P ord ctx (ord (ts_known ts)) ts of (workers, ts1) \<Rightarrow>
        (\<lparr>bd_Workers = workers, bd_AtSyncID = atSyncID, bd_TimestampMs = UnixMilli now\<rparr>, ts1))"

definition deltaLimit :: nat where "deltaLimit = 100"

definition to_delta :: "delta_entry \<Rightarrow> delta" where
  "to_delta e = \<lparr>dl_SyncID = de_SyncID e, dl_WorkerType = de_WorkerType e, dl_WorkerID = de_ID e, dl_Role = de_Role e,
     dl_Changes = de_Changes e, dl_TimestampMs = UnixMilli (de_Timestamp e)\<rparr>"

definition GetDeltas ::
  "('s, 't) store_ops \<Rightarrow> map_order \<Rightarrow> gcontext \<Rightarrow> int \<Rightarrow> int \<Rightarrow> 's tri_store \<Rightarrow> deltas_response \<times> 's tri_store" where
  "GetDeltas P ord ctx now lastSyncID ts =
     (let currentSyncID = ts_syncID ts
      in if currentSyncID \<le> lastSyncID
         then (\<lparr>dr_Deltas = [], dr_Bootstrap = None, dr_LatestSyncID = currentSyncID, dr_RequiresBootstrap = False, dr_HasMore = False\<rparr>, ts)
         else case on_store (GetAllSince P ord ctx lastSyncID deltaLimit) ts of (r, ts1) \<Rightarrow>
           (let entries = entries_of r
            in if entries \<noteq> []
               then (\<lparr>dr_Deltas = map to_delta entries, dr_Bootstrap = None, dr_LatestSyncID = currentSyncID,
                      dr_RequiresBootstrap = False, dr_HasMore = deltaLimit \<le> length entries\<rparr>, ts1)
               else case buildBootstrap P ord ctx now currentSyncID ts1 of (b, ts2) \<Rightarrow>
                      (\<lparr>dr_Deltas = [], dr_Bootstrap = Some b, dr_LatestSyncID = currentSyncID,
                        dr_RequiresBootstrap = True, dr_HasMore = False\<rparr>, ts2)))"

section \<open>Compaction\<close>

definition extractTimestampMs :: "document \<Rightarrow> int option" where
  "extractTimestampMs doc = int_value (field doc ''timestamp'')"

definition extractDocKeys :: "document \<Rightarrow> string list" where
  "extractDocKeys doc = sorted_list_of_fset (fmdom doc)"

definition ErrMalformedDelta :: goerror where
  "ErrMalformedDelta = ErrorNew 230 ''malformed delta document''"

record compaction =
  cp_deleted :: int
  cp_skippedNoTimestamp :: int
  cp_skippedNoID :: int
  cp_first :: "(string list \<times> string) option"

definition first_malformed :: "document \<Rightarrow> string \<Rightarrow> compaction \<Rightarrow> compaction" where
  "first_malformed doc reason c = (if cp_first c = None then c\<lparr>cp_first := Some (extractDocKeys doc, reason)\<rparr> else c)"

text \<open>The loop over the deltas. Question \<open>k\<close> to the context is the \<^verbatim>\<open>select\<close> of iteration \<open>k\<close>.\<close>

fun compact_loop ::
  "('s, 't) store_ops \<Rightarrow> gctx \<Rightarrow> int \<Rightarrow> nat \<Rightarrow> document list \<Rightarrow> compaction \<Rightarrow> 's tri_store
    \<Rightarrow> compaction \<times> goerror option \<times> 's tri_store" where
  "compact_loop P cx cutoffMs k [] c ts = (c, None, ts)"
| "compact_loop P cx cutoffMs k (doc # docs) c ts =
     (case cx k of
        Some e \<Rightarrow> (c, Some e, ts)
      | None \<Rightarrow>
          (case extractTimestampMs doc of
             None \<Rightarrow> compact_loop P cx cutoffMs (Suc k) docs
                (first_malformed doc ''missing_timestamp'' (c\<lparr>cp_skippedNoTimestamp := cp_skippedNoTimestamp c + 1\<rparr>)) ts
           | Some ms \<Rightarrow>
               (if ms < cutoffMs
                then case str_field doc ''id'' of
                       None \<Rightarrow> compact_loop P cx cutoffMs (Suc k) docs
                          (first_malformed doc ''missing_or_invalid_id'' (c\<lparr>cp_skippedNoID := cp_skippedNoID c + 1\<rparr>)) ts
                     | Some i \<Rightarrow>
                         (case on_store (st_Delete P (Some cx) DeltaCollectionName i) ts of
                            (Inl e, ts1) \<Rightarrow> (c, Some (Errorf (''failed to delete delta '' @ i @ '': '') e), ts1)
                          | (Inr _, ts1) \<Rightarrow> compact_loop P cx cutoffMs (Suc k) docs (c\<lparr>cp_deleted := cp_deleted c + 1\<rparr>) ts1)
                else compact_loop P cx cutoffMs (Suc k) docs c ts)))"

text \<open>The text of the final error is abridged: the wrapped error and the number of documents skipped.\<close>

definition CompactDeltas ::
  "('s, 't) store_ops \<Rightarrow> map_order \<Rightarrow> gctx \<Rightarrow> int \<Rightarrow> int \<Rightarrow> 's tri_store \<Rightarrow> int \<times> goerror option \<times> 's tri_store" where
  "CompactDeltas P ord cx now retentionWindow ts =
     (let cutoffMs = UnixMilli (now - retentionWindow)
      in case on_store (st_Find P ord (Some cx) DeltaCollectionName NewQuery) ts of
           (Inl e, ts1) \<Rightarrow> (0, if errors_is e ErrNotFound then None else Some (Errorf ''failed to query deltas for compaction: '' e), ts1)
         | (Inr docs, ts1) \<Rightarrow>
             (case compact_loop P cx cutoffMs 0 docs \<lparr>cp_deleted = 0, cp_skippedNoTimestamp = 0, cp_skippedNoID = 0, cp_first = None\<rparr> ts1 of
                (c, Some e, ts2) \<Rightarrow> (cp_deleted c, Some e, ts2)
              | (c, None, ts2) \<Rightarrow>
                  (let skipped = cp_skippedNoTimestamp c + cp_skippedNoID c
                   in (cp_deleted c,
                       if 0 < skipped then Some (Errorf (''skipped '' @ FormatInt skipped @ '' malformed documents during compaction: '') ErrMalformedDelta)
                       else None, ts2))))"

section \<open>Dumping a scenario\<close>

text \<open>
  The loop of \<^verbatim>\<open>DumpScenario\<close>: its deltas and the last response. It may go on for ever if the pages
  do not advance. \<^verbatim>\<open>GetDeltas\<close> of the triangular store returns no error.
\<close>

partial_function (option) dump_loop ::
  "('s, 't) store_ops \<Rightarrow> map_order \<Rightarrow> gcontext \<Rightarrow> int \<Rightarrow> int \<Rightarrow> delta list \<Rightarrow> 's tri_store
    \<Rightarrow> (delta list \<times> deltas_response \<times> 's tri_store) option" where
  "dump_loop P ord ctx now syncID acc ts =
     (case GetDeltas P ord ctx now syncID ts of (resp, ts1) \<Rightarrow>
        let all = acc @ dr_Deltas resp
        in if dr_RequiresBootstrap resp \<and> dr_Bootstrap resp \<noteq> None then Some (all, resp, ts1)
           else if \<not> dr_HasMore resp then Some (all, resp, ts1)
           else if dr_Deltas resp = [] then Some (all, resp, ts1)
           else dump_loop P ord ctx now (dl_SyncID (last (dr_Deltas resp))) all ts1)"

fun load_workers ::
  "('s, 't) store_ops \<Rightarrow> gcontext \<Rightarrow> string list \<Rightarrow> delta list \<Rightarrow> 's tri_store \<Rightarrow> worker_snapshot list \<times> 's tri_store" where
  "load_workers P ctx seen [] ts = ([], ts)"
| "load_workers P ctx seen (d # ds) ts =
     (let key = dl_WorkerType d @ ''/'' @ dl_WorkerID d
      in if key \<in> set seen then load_workers P ctx seen ds ts
         else case LoadSnapshot P ctx (dl_WorkerType d) (dl_WorkerID d) ts of
                (Inl _, ts1) \<Rightarrow> load_workers P ctx (key # seen) ds ts1
              | (Inr sn, ts1) \<Rightarrow>
                  (case load_workers P ctx (key # seen) ds ts1 of (ws, ts2) \<Rightarrow>
                     (\<lparr>ws_WorkerType = dl_WorkerType d, ws_WorkerID = dl_WorkerID d, ws_Identity = sn_Identity sn,
                       ws_Desired = sn_Desired sn, ws_Observed = sn_Observed sn\<rparr> # ws, ts2)))"

record scenario_dump =
  sd_StartSyncID :: int
  sd_EndSyncID :: int
  sd_Deltas :: "delta list"
  sd_Workers :: "worker_snapshot list"

definition DumpScenario ::
  "('s, 't) store_ops \<Rightarrow> map_order \<Rightarrow> gcontext \<Rightarrow> int \<Rightarrow> int \<Rightarrow> 's tri_store \<Rightarrow> (scenario_dump \<times> 's tri_store) option" where
  "DumpScenario P ord ctx now startSyncID ts =
     map_option (\<lambda>(all, resp, ts1).
       case (case dr_Bootstrap resp of
               Some b \<Rightarrow> (bd_Workers b, ts1)
             | None \<Rightarrow> (case load_workers P ctx [] all ts1 of (ws, ts2) \<Rightarrow> (sort_key (\<lambda>w. (ws_WorkerType w, ws_WorkerID w)) ws, ts2))) of
         (workers, ts2) \<Rightarrow>
           (\<lparr>sd_StartSyncID = startSyncID, sd_EndSyncID = dr_LatestSyncID resp, sd_Deltas = all, sd_Workers = workers\<rparr>, ts2))
       (dump_loop P ord ctx now startSyncID [] ts)"

section \<open>Paging\<close>

lemma filter_after_last:
  fixes f :: "'a \<Rightarrow> 'b :: linorder"
  assumes "sorted_wrt (<) (map f xs)" "0 < k" "xs \<noteq> []"
  shows "filter (\<lambda>x. f (last (take k xs)) < f x) xs = drop k xs"
proof -
  let ?a = "take k xs" and ?b = "drop k xs"
  have ne: "?a \<noteq> []" using assms(2,3) by simp
  have s: "sorted_wrt (<) (map f ?a @ map f ?b)" using assms(1) by (metis append_take_drop_id map_append)
  have "\<forall>x \<in> set ?b. f (last ?a) < f x" using s last_in_set [OF ne] unfolding sorted_wrt_append by auto
  moreover have "\<not> f (last ?a) < f x" if "x \<in> set ?a" for x
  proof -
    have "?a = butlast ?a @ [last ?a]" using ne by simp
    then have "sorted_wrt (<) (map f (butlast ?a) @ [f (last ?a)])" using s
      by (metis list.map map_append sorted_wrt_append)
    moreover have "x \<in> set (butlast ?a) \<or> x = last ?a" using that by (metis append_butlast_last_id in_set_butlastD ne Un_iff set_append set_ConsD list.set(1) empty_iff)
    ultimately show ?thesis by (auto simp: sorted_wrt_append)
  qed
  ultimately have "filter (\<lambda>x. f (last ?a) < f x) (?a @ ?b) = ?b"
    by (simp only: filter_append) (simp add: filter_empty_conv filter_id_conv)
  then show ?thesis by simp
qed

context document_store
begin

lemma GetAllSince_filter:
  assumes "log_ok (docs s) n" "range_order ord" "sorted_wrt (<) (map de_SyncID E)" "m0 \<le> m"
    and "set E = {documentToEntry d | k d. docs s DeltaCollectionName k = Some d \<and> m0 < extractSyncID d}"
  shows "entries_of (fst (GetAllSince P ord (Some cx) m limit s)) = limited limit (filter (\<lambda>e. m < de_SyncID e) E)
    \<and> snd (GetAllSince P ord (Some cx) m limit s) = s"
proof -
  have id: "de_SyncID (documentToEntry d) = extractSyncID d" for d
    by (simp add: documentToEntry_def extractSyncID_def default_of_def)
  obtain es where es: "sorted_wrt (<) (map de_SyncID es)"
    "set es = {documentToEntry d | k d. docs s DeltaCollectionName k = Some d \<and> m < extractSyncID d}"
    "GetAllSince P ord (Some cx) m limit s = (Inr (limited limit es), s)
      \<or> es = [] \<and> GetAllSince P ord (Some cx) m limit s = (Inl (Errorf ''failed to query deltas: '' ErrNotFound), s)"
    by (rule GetAllSince_effect [OF assms(1,2), of m cx limit])
  have "es = filter (\<lambda>e. m < de_SyncID e) E"
  proof (rule strict_key_unique [OF es(1)])
    show "sorted_wrt (<) (map de_SyncID (filter (\<lambda>e. m < de_SyncID e) E))"
      using assms(3) by (simp add: sorted_wrt_map sorted_wrt_filter)
    show "set es = set (filter (\<lambda>e. m < de_SyncID e) E)"
      using assms(4) unfolding set_filter es(2) assms(5) by (auto simp: id intro: order.strict_trans1) (blast intro: order.strict_trans1)
  qed
  then show ?thesis using es(3) by (auto simp: entries_of_def limited_def)
qed

lemma dump_loop_complete:
  assumes "log_ok (docs (ts_store ts)) (ts_syncID ts)" "range_order ord" "sorted_wrt (<) (map de_SyncID E)" "m0 \<le> m"
    and "set E = {documentToEntry d | k d. docs (ts_store ts) DeltaCollectionName k = Some d \<and> m0 < extractSyncID d}"
  shows "\<exists>resp ts'. dump_loop P ord (Some cx) now m acc ts = Some (acc @ map to_delta (filter (\<lambda>e. m < de_SyncID e) E), resp, ts')"
  using assms(4)
proof (induction "length (filter (\<lambda>e. m < de_SyncID e) E)" arbitrary: m acc rule: less_induct)
  case less
  let ?F = "filter (\<lambda>e. m < de_SyncID e) E"
  have sF: "sorted_wrt (<) (map de_SyncID ?F)" using assms(3) by (simp add: sorted_wrt_map sorted_wrt_filter)
  have le: "de_SyncID e \<le> ts_syncID ts" if "e \<in> set E" for e
  proof -
    obtain k d where kd: "docs (ts_store ts) DeltaCollectionName k = Some d" "e = documentToEntry d" using \<open>e \<in> set E\<close> assms(5) by auto
    then obtain x where x: "d = entry_doc x" "k = FormatInt (de_SyncID x)" using assms(1) unfolding log_ok_def by meson
    then have "de_SyncID e = de_SyncID x" using kd(2) read_back_SyncID [of x] by (simp add: read_back_def)
    moreover have "\<not> ts_syncID ts < de_SyncID x" using kd(1) x(2) assms(1) by (auto simp: log_ok_def)
    ultimately show ?thesis by simp
  qed
  note g = GetAllSince_filter [OF assms(1,2,3) less.prems assms(5), of cx deltaLimit]
  have on: "on_store (GetAllSince P ord (Some cx) m deltaLimit) ts = (fst (GetAllSince P ord (Some cx) m deltaLimit (ts_store ts)), ts)"
    using g by (auto simp: on_store_def split: prod.split)
  show ?case
  proof (cases "ts_syncID ts \<le> m")
    case True
    then have "?F = []" using le by (force simp: filter_empty_conv)
    then show ?thesis using True by (subst dump_loop.simps) (simp add: GetDeltas_def)
  next
    case gt: False
    show ?thesis
    proof (cases "?F = []")
      case True
      then have "entries_of (fst (GetAllSince P ord (Some cx) m deltaLimit (ts_store ts))) = []" using g by (simp add: limited_def)
      then show ?thesis using gt True on
        by (subst dump_loop.simps) (auto simp: GetDeltas_def Let_def split: prod.split)
    next
      case ne: False
      have ents: "entries_of (fst (GetAllSince P ord (Some cx) m deltaLimit (ts_store ts))) = take deltaLimit ?F"
        using g by (simp add: limited_def deltaLimit_def)
      define resp where "resp = \<lparr>dr_Deltas = map to_delta (take deltaLimit ?F), dr_Bootstrap = None, dr_LatestSyncID = ts_syncID ts,
          dr_RequiresBootstrap = False, dr_HasMore = deltaLimit \<le> length (take deltaLimit ?F)\<rparr>"
      have tne: "take deltaLimit ?F \<noteq> []" using ne by (simp add: deltaLimit_def)
      have gd: "GetDeltas P ord (Some cx) now m ts = (resp, ts)"
        unfolding GetDeltas_def Let_def on using gt tne by (simp add: ents resp_def)
      show ?thesis
      proof (cases "deltaLimit \<le> length ?F")
        case False
        then show ?thesis by (subst dump_loop.simps) (simp add: gd, simp add: resp_def)
      next
        case True
        let ?m = "de_SyncID (last (take deltaLimit ?F))"
        have "last (take deltaLimit ?F) \<in> set ?F" using last_in_set [OF tne] by (rule in_set_takeD)
        then have lm: "m < ?m" by simp
        have rest: "filter (\<lambda>e. ?m < de_SyncID e) E = drop deltaLimit ?F"
        proof -
          have "filter (\<lambda>e. ?m < de_SyncID e) E = filter (\<lambda>e. ?m < de_SyncID e) ?F"
            using lm by (auto intro!: filter_cong)
          also have "\<dots> = drop deltaLimit ?F" by (rule filter_after_last [OF sF]) (use ne in \<open>simp_all add: deltaLimit_def\<close>)
          finally show ?thesis .
        qed
        have "length (filter (\<lambda>e. ?m < de_SyncID e) E) < length ?F" unfolding rest using True ne by (simp add: deltaLimit_def)
        moreover have "m0 \<le> ?m" using less.prems lm by simp
        ultimately obtain resp' ts' where ih: "dump_loop P ord (Some cx) now ?m (acc @ map to_delta (take deltaLimit ?F)) ts
            = Some ((acc @ map to_delta (take deltaLimit ?F)) @ map to_delta (filter (\<lambda>e. ?m < de_SyncID e) E), resp', ts')"
          using less.hyps by blast
        have fl: "\<not> dr_RequiresBootstrap resp" "dr_HasMore resp" "dr_Deltas resp \<noteq> []" "dr_Deltas resp = map to_delta (take deltaLimit ?F)"
          using True tne by (simp_all add: resp_def)
        have lst: "dl_SyncID (last (dr_Deltas resp)) = ?m" using tne by (simp add: resp_def last_map to_delta_def)
        have "dump_loop P ord (Some cx) now m acc ts = dump_loop P ord (Some cx) now ?m (acc @ map to_delta (take deltaLimit ?F)) ts"
          unfolding dump_loop.simps [of P ord "Some cx" now m acc ts] gd prod.case Let_def lst using fl(1-3) by (simp add: fl(4))
        then show ?thesis unfolding ih rest by (metis append_assoc append_take_drop_id map_append)
      qed
    qed
  qed
qed

text \<open>The loop of the compaction on deltas of the log; \<open>E\<close> names the entry behind an identifier.\<close>

lemma compact_loop_effect:
  assumes "\<And>k. cx k = None" "distinct is" "\<And>i. i \<in> set is \<Longrightarrow> docs (ts_store ts) DeltaCollectionName i = Some (entry_doc (E i)) \<and> i = FormatInt (de_SyncID (E i))"
  shows "\<exists>s. compact_loop P cx cutoff k (map (\<lambda>i. entry_doc (E i)) is) c ts =
      (c\<lparr>cp_deleted := cp_deleted c + int (length (filter (\<lambda>i. UnixMilli (de_Timestamp (E i)) < cutoff) is))\<rparr>, None, ts\<lparr>ts_store := s\<rparr>)
    \<and> docs s = (\<lambda>cl j. if cl = DeltaCollectionName \<and> j \<in> set is \<and> UnixMilli (de_Timestamp (E j)) < cutoff then None else docs (ts_store ts) cl j)"
  using assms(2,3)
proof (induction "is" arbitrary: k c ts)
  case Nil
  then show ?case by (auto intro!: exI [of _ "ts_store ts"])
next
  case (Cons i "is")
  let ?old = "\<lambda>i. UnixMilli (de_Timestamp (E i)) < cutoff"
  have ck: "cx k = None" by (rule assms(1))
  have tm: "extractTimestampMs (entry_doc (E i)) = Some (UnixMilli (de_Timestamp (E i)))"
    by (simp add: extractTimestampMs_def entry_doc_def Let_def field_def split: option.split)
  have id: "str_field (entry_doc (E i)) ''id'' = Some i"
    using Cons.prems(2) [of i] by (simp add: entry_doc_def Let_def str_field_def field_def split: option.split)
  show ?case
  proof (cases "?old i")
    case False
    from Cons.IH [of ts "Suc k" c] Cons.prems obtain s where
      "compact_loop P cx cutoff (Suc k) (map (\<lambda>i. entry_doc (E i)) is) c ts =
        (c\<lparr>cp_deleted := cp_deleted c + int (length (filter ?old is))\<rparr>, None, ts\<lparr>ts_store := s\<rparr>)"
      "docs s = (\<lambda>cl j. if cl = DeltaCollectionName \<and> j \<in> set is \<and> ?old j then None else docs (ts_store ts) cl j)" by auto
    then show ?thesis using False by (auto simp: ck tm fun_eq_iff intro!: exI [of _ s])
  next
    case True
    obtain s1 where d: "st_Delete P (Some cx) DeltaCollectionName i (ts_store ts) = (Inr (), s1)" "docs s1 = set_doc (docs (ts_store ts)) DeltaCollectionName i None"
      using Delete_present [of "ts_store ts" DeltaCollectionName i cx] Cons.prems(2) [of i] by auto
    have "distinct is" "\<And>j. j \<in> set is \<Longrightarrow> docs (ts_store (ts\<lparr>ts_store := s1\<rparr>)) DeltaCollectionName j = Some (entry_doc (E j)) \<and> j = FormatInt (de_SyncID (E j))"
      using Cons.prems by (auto simp: d(2) set_doc_apply)
    from Cons.IH [of "ts\<lparr>ts_store := s1\<rparr>" "Suc k" "c\<lparr>cp_deleted := cp_deleted c + 1\<rparr>", OF this] obtain s where
      "compact_loop P cx cutoff (Suc k) (map (\<lambda>i. entry_doc (E i)) is) (c\<lparr>cp_deleted := cp_deleted c + 1\<rparr>) (ts\<lparr>ts_store := s1\<rparr>) =
        (c\<lparr>cp_deleted := cp_deleted c + 1\<rparr>\<lparr>cp_deleted := cp_deleted (c\<lparr>cp_deleted := cp_deleted c + 1\<rparr>) + int (length (filter ?old is))\<rparr>,
         None, ts\<lparr>ts_store := s1\<rparr>\<lparr>ts_store := s\<rparr>)"
      "docs s = (\<lambda>cl j. if cl = DeltaCollectionName \<and> j \<in> set is \<and> ?old j then None else docs (ts_store (ts\<lparr>ts_store := s1\<rparr>)) cl j)" by blast
    then show ?thesis using True d by (auto simp: ck tm id on_store_def fun_eq_iff set_doc_apply intro!: exI [of _ s])
  qed
qed

text \<open>The entries of the log that a compaction removes.\<close>

lemma CompactDeltas_effect:
  assumes "log_ok (docs (ts_store ts)) n" "range_order ord" "\<And>k. cx k = None"
  obtains s removed where "CompactDeltas P ord cx now window ts = (int (card removed), None, ts\<lparr>ts_store := s\<rparr>)"
    "removed = {k. \<exists>e. docs (ts_store ts) DeltaCollectionName k = Some (entry_doc e) \<and> UnixMilli (de_Timestamp e) < UnixMilli (now - window)}"
    "docs s = (\<lambda>c k. if c = DeltaCollectionName \<and> k \<in> removed then None else docs (ts_store ts) c k)"
proof -
  let ?L = "docs (ts_store ts) DeltaCollectionName" and ?cut = "UnixMilli (now - window)"
  define removed where "removed = {k. \<exists>e. ?L k = Some (entry_doc e) \<and> UnixMilli (de_Timestamp e) < ?cut}"
  have nf: "errors_is ErrNotFound ErrNotFound" by (simp add: ErrNotFound_def)
  from Find [OF assms(2), of "ts_store ts" DeltaCollectionName cx] consider
    (found) "is" where "distinct is" "set is = dom ?L" "st_Find P ord (Some cx) DeltaCollectionName NewQuery (ts_store ts) = (Inr (map (\<lambda>i. the (?L i)) is), ts_store ts)"
    | (empty) "?L = Map.empty" "st_Find P ord (Some cx) DeltaCollectionName NewQuery (ts_store ts) = (Inl ErrNotFound, ts_store ts)"
    by blast
  then show thesis
  proof cases
    case empty
    then have "removed = {}" by (simp add: removed_def)
    then show thesis using empty nf
      by (intro that [of removed "ts_store ts"]) (auto simp: CompactDeltas_def on_store_def removed_def Let_def)
  next
    case found
    define E where "E i = (SOME e. ?L i = Some (entry_doc e) \<and> i = FormatInt (de_SyncID e))" for i
    have E: "?L i = Some (entry_doc (E i)) \<and> i = FormatInt (de_SyncID (E i))" if i: "i \<in> set is" for i
    proof -
      obtain d where "?L i = Some d" using i found(2) by auto
      moreover from this obtain e where "d = entry_doc e" "i = FormatInt (de_SyncID e)" using assms(1) unfolding log_ok_def by meson
      ultimately have "\<exists>e. ?L i = Some (entry_doc e) \<and> i = FormatInt (de_SyncID e)" by auto
      then show ?thesis unfolding E_def by (rule someI_ex)
    qed
    have docs_eq: "map (\<lambda>i. the (?L i)) is = map (\<lambda>i. entry_doc (E i)) is" using E by auto
    have same: "UnixMilli (de_Timestamp a) = UnixMilli (de_Timestamp b)" if "entry_doc a = entry_doc b" for a b
    proof -
      have "fmlookup (entry_doc a) ''timestamp'' = fmlookup (entry_doc b) ''timestamp''" using that by simp
      then show ?thesis by (simp add: entry_doc_def Let_def split: option.splits)
    qed
    have rem: "removed = set (filter (\<lambda>i. UnixMilli (de_Timestamp (E i)) < ?cut) is)"
    proof (intro set_eqI iffI)
      fix k
      assume "k \<in> removed"
      then obtain e where e: "?L k = Some (entry_doc e)" "UnixMilli (de_Timestamp e) < ?cut" by (auto simp: removed_def)
      then have k: "k \<in> set is" using found(2) by auto
      then have "entry_doc e = entry_doc (E k)" using E [OF k] e(1) by simp
      then show "k \<in> set (filter (\<lambda>i. UnixMilli (de_Timestamp (E i)) < ?cut) is)" using k e(2) same [of e "E k"] by simp
    next
      fix k
      assume "k \<in> set (filter (\<lambda>i. UnixMilli (de_Timestamp (E i)) < ?cut) is)"
      then show "k \<in> removed" using E [of k] unfolding removed_def by auto
    qed
    obtain s where s: "compact_loop P cx ?cut 0 (map (\<lambda>i. entry_doc (E i)) is) \<lparr>cp_deleted = 0, cp_skippedNoTimestamp = 0, cp_skippedNoID = 0, cp_first = None\<rparr> ts =
        (\<lparr>cp_deleted = int (length (filter (\<lambda>i. UnixMilli (de_Timestamp (E i)) < ?cut) is)), cp_skippedNoTimestamp = 0, cp_skippedNoID = 0, cp_first = None\<rparr>, None, ts\<lparr>ts_store := s\<rparr>)"
      "docs s = (\<lambda>cl j. if cl = DeltaCollectionName \<and> j \<in> set is \<and> UnixMilli (de_Timestamp (E j)) < ?cut then None else docs (ts_store ts) cl j)"
      using compact_loop_effect [of cx "is" ts E ?cut 0 "\<lparr>cp_deleted = 0, cp_skippedNoTimestamp = 0, cp_skippedNoID = 0, cp_first = None\<rparr>", OF assms(3) found(1) E] by auto
    have "card removed = length (filter (\<lambda>i. UnixMilli (de_Timestamp (E i)) < ?cut) is)"
      unfolding rem using found(1) by (intro distinct_card distinct_filter)
    then have "CompactDeltas P ord cx now window ts = (int (card removed), None, ts\<lparr>ts_store := s\<rparr>)"
      using found(3) s(1) unfolding docs_eq by (simp add: CompactDeltas_def on_store_def)
    moreover have "docs s = (\<lambda>c k. if c = DeltaCollectionName \<and> k \<in> removed then None else docs (ts_store ts) c k)"
      unfolding rem s(2) by simp
    ultimately show thesis by (rule that [OF _ removed_def])
  qed
qed

end

section \<open>Properties\<close>

lemma all_since:
  assumes "log_ok (mem_docs s) n" "range_order ord"
  obtains E where "sorted_wrt (<) (map de_SyncID E)"
    "set E = {documentToEntry d | k d. mem_docs s DeltaCollectionName k = Some d \<and> m < extractSyncID d}"
    "entries_of (fst (GetAllSince mem_ops ord (Some cx) m 0 s)) = E"
proof -
  obtain E where E: "sorted_wrt (<) (map de_SyncID E)"
    "set E = {documentToEntry d | k d. mem_docs s DeltaCollectionName k = Some d \<and> m < extractSyncID d}"
    "GetAllSince mem_ops ord (Some cx) m 0 s = (Inr (limited 0 E), s)
      \<or> E = [] \<and> GetAllSince mem_ops ord (Some cx) m 0 s = (Inl (Errorf ''failed to query deltas: '' ErrNotFound), s)"
    by (rule mem.GetAllSince_effect [OF assms, of m cx 0])
  then show thesis using that [OF E(1,2)] by (auto simp: entries_of_def limited_def)
qed

text \<open>
  C15: \<^verbatim>\<open>DumpScenario\<close> ends, on every state of the store that calls can reach and from every starting
  position: no page fails to advance. The pages of at most a hundred deltas that it concatenates are
  all deltas since that position, in order, none twice.
\<close>

theorem dump_ends_complete:
  assumes "\<forall>c \<in> set calls. range_order (tc_order c)" "range_order ord" "3 * int (length calls) \<le> max_int64"
  shows "\<exists>dump ts'. DumpScenario mem_ops ord (Some cx) now start (tri_start cx calls) = Some (dump, ts')
    \<and> sd_Deltas dump = map to_delta (entries_of (fst (GetAllSince mem_ops ord (Some cx) start 0 (ts_store (tri_start cx calls)))))
    \<and> sorted_wrt (<) (map dl_SyncID (sd_Deltas dump))"
proof -
  let ?ts = "tri_start cx calls"
  have ok: "log_ok (mem_docs (ts_store ?ts)) (ts_syncID ?ts)" using tri_start_ok [OF assms(3,1), of cx] by (simp add: store_ok_def)
  obtain E where E: "sorted_wrt (<) (map de_SyncID E)"
    "set E = {documentToEntry d | k d. mem_docs (ts_store ?ts) DeltaCollectionName k = Some d \<and> start < extractSyncID d}"
    "entries_of (fst (GetAllSince mem_ops ord (Some cx) start 0 (ts_store ?ts))) = E"
    by (rule all_since [OF ok assms(2), of start cx])
  have id: "de_SyncID (documentToEntry d) = extractSyncID d" for d
    by (simp add: documentToEntry_def extractSyncID_def default_of_def)
  have all: "filter (\<lambda>e. start < de_SyncID e) E = E" using E(2) by (auto simp: filter_id_conv id)
  obtain resp ts' where "dump_loop mem_ops ord (Some cx) now start [] ?ts = Some (map to_delta E, resp, ts')"
    using mem.dump_loop_complete [OF ok assms(2) E(1) order.refl E(2), of cx now "[]"] all by auto
  then show ?thesis
    using E(1,3) by (auto simp: DumpScenario_def to_delta_def comp_def split: option.split prod.split)
qed

text \<open>
  \<^verbatim>\<open>CompactDeltas\<close> removes exactly the entries of the log whose instant lies before the
  retention window, in milliseconds, returns how many they were, and reports no error; every other
  document of the store stays as it is.
\<close>

theorem compaction_exact:
  assumes "\<forall>c \<in> set calls. range_order (tc_order c)" "range_order ord" "3 * int (length calls) \<le> max_int64" "\<forall>k. cx k = None"
  shows "let ts = tri_start cx calls;
             removed = {k. \<exists>e. mem_docs (ts_store ts) DeltaCollectionName k = Some (entry_doc e) \<and> UnixMilli (de_Timestamp e) < UnixMilli (now - window)}
         in case CompactDeltas mem_ops ord cx now window ts of (deleted, err, ts') \<Rightarrow>
              deleted = int (card removed) \<and> err = None \<and> ts_syncID ts' = ts_syncID ts
              \<and> mem_docs (ts_store ts') = (\<lambda>c k. if c = DeltaCollectionName \<and> k \<in> removed then None else mem_docs (ts_store ts) c k)"
proof -
  let ?ts = "tri_start cx calls"
  have ok: "log_ok (mem_docs (ts_store ?ts)) (ts_syncID ?ts)" using tri_start_ok [OF assms(3,1), of cx] by (simp add: store_ok_def)
  have cx: "\<And>k. cx k = None" using assms(4) by blast
  obtain s removed where "CompactDeltas mem_ops ord cx now window ?ts = (int (card removed), None, ?ts\<lparr>ts_store := s\<rparr>)"
    "removed = {k. \<exists>e. mem_docs (ts_store ?ts) DeltaCollectionName k = Some (entry_doc e) \<and> UnixMilli (de_Timestamp e) < UnixMilli (now - window)}"
    "mem_docs s = (\<lambda>c k. if c = DeltaCollectionName \<and> k \<in> removed then None else mem_docs (ts_store ?ts) c k)"
    by (rule mem.CompactDeltas_effect [OF ok assms(2), where cx = cx and now = now and window = window, OF cx])
  then show ?thesis by (simp add: Let_def)
qed

text \<open>
  After a compaction, \<^verbatim>\<open>GetDeltas\<close> does not notice that a client is too far behind. Let two
  entries lie beyond the client's position, an old one that the compaction removes and a newer one
  that it keeps. Then the client gets deltas without the removed one, and is not told to bootstrap.
\<close>

theorem compaction_gap:
  assumes "\<forall>c \<in> set calls. range_order (tc_order c)" "range_order ord" "3 * int (length calls) \<le> max_int64" "\<forall>k. cx k = None"
    and old: "mem_docs (ts_store (tri_start cx calls)) DeltaCollectionName (FormatInt (de_SyncID a)) = Some (entry_doc a)"
      "position < de_SyncID a" "UnixMilli (de_Timestamp a) < UnixMilli (now - window)"
    and young: "mem_docs (ts_store (tri_start cx calls)) DeltaCollectionName (FormatInt (de_SyncID b)) = Some (entry_doc b)"
      "position < de_SyncID b" "UnixMilli (now - window) \<le> UnixMilli (de_Timestamp b)"
  shows "case CompactDeltas mem_ops ord cx now window (tri_start cx calls) of (_, _, ts') \<Rightarrow>
    case GetDeltas mem_ops ord (Some cx) now position ts' of (resp, _) \<Rightarrow>
      dr_Deltas resp \<noteq> [] \<and> \<not> dr_RequiresBootstrap resp \<and> de_SyncID a \<notin> dl_SyncID ` set (dr_Deltas resp)"
proof -
  let ?ts = "tri_start cx calls"
  have ok: "log_ok (mem_docs (ts_store ?ts)) (ts_syncID ?ts)" using tri_start_ok [OF assms(3,1), of cx] by (simp add: store_ok_def)
  have cx: "\<And>k. cx k = None" using assms(4) by blast
  obtain s removed where c: "CompactDeltas mem_ops ord cx now window ?ts = (int (card removed), None, ?ts\<lparr>ts_store := s\<rparr>)"
    "removed = {k. \<exists>e. mem_docs (ts_store ?ts) DeltaCollectionName k = Some (entry_doc e) \<and> UnixMilli (de_Timestamp e) < UnixMilli (now - window)}"
    "mem_docs s = (\<lambda>c k. if c = DeltaCollectionName \<and> k \<in> removed then None else mem_docs (ts_store ?ts) c k)"
    by (rule mem.CompactDeltas_effect [OF ok assms(2), where cx = cx and now = now and window = window, OF cx])
  have same: "UnixMilli (de_Timestamp x) = UnixMilli (de_Timestamp y)" if "entry_doc x = entry_doc y" for x y
  proof -
    have "fmlookup (entry_doc x) ''timestamp'' = fmlookup (entry_doc y) ''timestamp''" using that by simp
    then show ?thesis by (simp add: entry_doc_def Let_def split: option.splits)
  qed
  have gone: "mem_docs s DeltaCollectionName (FormatInt (de_SyncID a)) = None" using c(2,3) old(1,3) by auto
  have kept: "mem_docs s DeltaCollectionName (FormatInt (de_SyncID b)) = Some (entry_doc b)"
  proof -
    have "FormatInt (de_SyncID b) \<notin> removed"
    proof
      assume "FormatInt (de_SyncID b) \<in> removed"
      then obtain e where "entry_doc e = entry_doc b" "UnixMilli (de_Timestamp e) < UnixMilli (now - window)" using c(2) young(1) by auto
      then show False using same [of e b] young(3) by simp
    qed
    then show ?thesis using c(3) young(1) by simp
  qed
  have ok': "log_ok (mem_docs s) (ts_syncID ?ts)" using ok unfolding log_ok_def c(3) by auto
  obtain E where E: "sorted_wrt (<) (map de_SyncID E)"
    "set E = {documentToEntry d | k d. mem_docs s DeltaCollectionName k = Some d \<and> position < extractSyncID d}"
    by (rule all_since [OF ok' assms(2), of position cx])
  note g = mem.GetAllSince_filter [OF ok' assms(2) E(1) order.refl E(2), of cx deltaLimit]
  have id: "de_SyncID (documentToEntry d) = extractSyncID d" for d
    by (simp add: documentToEntry_def extractSyncID_def default_of_def)
  have "position < extractSyncID (entry_doc b)" using young(2) by (simp add: extract_entry)
  then have "documentToEntry (entry_doc b) \<in> set E" unfolding E(2) using kept by blast
  moreover have "position < de_SyncID (documentToEntry (entry_doc b))" using young(2) id [of "entry_doc b"] by (simp add: extract_entry)
  ultimately have ne: "filter (\<lambda>e. position < de_SyncID e) E \<noteq> []" unfolding filter_empty_conv by blast
  have na: "de_SyncID e \<noteq> de_SyncID a" if e: "e \<in> set E" for e
  proof
    assume eq: "de_SyncID e = de_SyncID a"
    obtain k d where d: "mem_docs s DeltaCollectionName k = Some d" "e = documentToEntry d" using e E(2) by auto
    then obtain x where x: "d = entry_doc x" "k = FormatInt (de_SyncID x)" using ok' unfolding log_ok_def by meson
    then have "de_SyncID x = de_SyncID a" using eq d(2) id [of d] by (simp add: extract_entry)
    then show False using gone d(1) x(2) by simp
  qed
  let ?ents = "limited deltaLimit (filter (\<lambda>e. position < de_SyncID e) E)"
  have ents: "?ents \<noteq> []" "set ?ents \<subseteq> set E" using ne by (auto simp: limited_def deltaLimit_def dest: in_set_takeD)
  have lt: "\<not> ts_syncID ?ts \<le> position" using young(1,2) ok by (auto simp: log_ok_def not_less dest: order.strict_trans1)
  have on: "on_store (GetAllSince mem_ops ord (Some cx) position deltaLimit) (?ts\<lparr>ts_store := s\<rparr>) =
      (fst (GetAllSince mem_ops ord (Some cx) position deltaLimit s), ?ts\<lparr>ts_store := s\<rparr>)"
    using g [THEN conjunct2] by (cases "GetAllSince mem_ops ord (Some cx) position deltaLimit s") (simp add: on_store_def)
  have "GetDeltas mem_ops ord (Some cx) now position (?ts\<lparr>ts_store := s\<rparr>) =
     (\<lparr>dr_Deltas = map to_delta ?ents, dr_Bootstrap = None, dr_LatestSyncID = ts_syncID ?ts, dr_RequiresBootstrap = False,
       dr_HasMore = deltaLimit \<le> length ?ents\<rparr>, ?ts\<lparr>ts_store := s\<rparr>)"
    unfolding GetDeltas_def Let_def on using lt ents(1) by (simp add: g [THEN conjunct1])
  moreover have "de_SyncID a \<notin> de_SyncID ` set ?ents" unfolding image_iff Set.bex_simps using na [OF subsetD [OF ents(2)], THEN not_sym] by metis
  ultimately show ?thesis using c(1) ents(1) by (simp add: to_delta_def image_image)
qed

section \<open>The properties at work\<close>

lemma first_save_docs:
  assumes "log_ok (mem_docs (ts_store ts)) (ts_syncID ts)" "ts_syncID ts < max_int64" "\<not> so_SkipDeltaCheck opts"
    and "mem_docs (ts_store ts) (role_collection w (so_Role opts)) i = None" "doc_id doc = Some i"
    and "saveWithDelta mem_ops ord (Some cx) now w i (Some doc) opts ts = (res, ts')"
  shows "ts_syncID ts' = ts_syncID ts + 1 \<and> mem_docs (ts_store ts') =
    saved_docs (mem_docs (ts_store ts)) (ts_syncID ts + 1) w i (so_Role opts) (written_doc None doc opts (ts_syncID ts + 1) (now 0))
      (computeCreatedDiff doc (so_Role opts)) (now 1)"
  using assms(1-3,6)
proof (cases rule: mem.saveWithDelta_effect)
  case (rejected e)
  then show ?thesis using assms(5) by blast
next
  case (unchanged d)
  then show ?thesis using assms(4) by (simp add: mem.save_unchanged_def)
next
  case (written doc' d)
  then show ?thesis using assms(4) by (auto simp: mem.save_written_def Let_def save_diff_def)
qed

definition late_observed :: tri_call where
  "late_observed = \<lparr>tc_op = CallSaveObserved ''w'' ''a'' (AnyDoc (Some demo_doc)), tc_order = key_order, tc_now = (\<lambda>_. 9000000)\<rparr>"

lemma late_calls: "\<forall>c \<in> set [demo_identity, late_observed]. range_order (tc_order c)"
  by (simp add: demo_identity_def late_observed_def range_key_order)

lemma demo_created: "computeCreatedDiff demo_doc r \<noteq> None"
proof -
  have "''n'' \<notin> set (getCSEFields r)" by (cases r) (simp_all add: IdentityCSEFields_def DesiredCSEFields_def ObservedCSEFields_def field_names)
  then have "fmlookup (fmfilter (\<lambda>k. k \<notin> set (getCSEFields r) \<and> k \<noteq> ''id'') demo_doc) ''n'' \<noteq> None" by (simp add: demo_doc_def)
  then have "fmfilter (\<lambda>k. k \<notin> set (getCSEFields r) \<and> k \<noteq> ''id'') demo_doc \<noteq> fmempty" by (metis fmempty_lookup)
  then show ?thesis by (simp add: computeCreatedDiff_def Let_def)
qed

definition demo_entry :: "int \<Rightarrow> role \<Rightarrow> int \<Rightarrow> delta_entry" where
  "demo_entry n r t = \<lparr>de_SyncID = n, de_WorkerType = ''w'', de_ID = ''a'', de_Role = role_name r, de_Changes = computeCreatedDiff demo_doc r, de_Timestamp = t\<rparr>"

lemma demo_saved_delta:
  "saved_docs D n ''w'' ''a'' r doc (computeCreatedDiff demo_doc r) t DeltaCollectionName k =
    (if k = FormatInt n then Some (entry_doc (demo_entry n r t)) else D DeltaCollectionName k)"
  using demo_created [of r] role_collection_not_deltas [of "''w''" r, symmetric]
  by (auto simp: saved_docs_def demo_entry_def set_doc_apply Let_def split: option.split)

lemma demo_saved_other:
  "q \<noteq> r \<Longrightarrow> saved_docs D n w i r doc d t (role_collection v q) k = D (role_collection v q) k"
  by (simp add: saved_docs_def set_doc_apply Let_def split: option.split)

lemma late_log:
  "mem_docs (ts_store (tri_start demo_ctx [demo_identity, late_observed])) DeltaCollectionName (FormatInt 1) = Some (entry_doc (demo_entry 1 RoleIdentity 0))"
  "mem_docs (ts_store (tri_start demo_ctx [demo_identity, late_observed])) DeltaCollectionName (FormatInt 2) = Some (entry_doc (demo_entry 2 RoleObserved 9000000))"
proof -
  let ?ts0 = "registerWorkerType ''w'' (NewTriangularStore NewInMemoryStore)"
  have e: "mem_docs (ts_store ?ts0) = (\<lambda>_ _. None)" "ts_syncID ?ts0 = 0"
    by (auto simp: registerWorkerType_def NewTriangularStore_def NewInMemoryStore_def mem_docs_def fun_eq_iff)
  have o: "\<not> so_SkipDeltaCheck IdentitySaveOptions" "so_Role IdentitySaveOptions = RoleIdentity"
    "\<not> so_SkipDeltaCheck ObservedSaveOptions" "so_Role ObservedSaveOptions = RoleObserved"
    by (simp_all add: IdentitySaveOptions_def ObservedSaveOptions_def)
  obtain r1 ts1 where s1: "saveWithDelta mem_ops key_order (Some demo_ctx) (\<lambda>_. 0) ''w'' ''a'' (Some demo_doc) IdentitySaveOptions ?ts0 = (r1, ts1)" by force
  have l0: "log_ok (mem_docs (ts_store ?ts0)) (ts_syncID ?ts0)" "ts_syncID ?ts0 < max_int64" by (simp_all add: e log_ok_def max_int64_def)
  note f1 = first_save_docs [OF l0 o(1) _ demo_doc_id s1, unfolded o(2) e]
  have t1: "ts_syncID ts1 = 1" "mem_docs (ts_store ts1) (role_collection ''w'' RoleObserved) ''a'' = None"
      "mem_docs (ts_store ts1) DeltaCollectionName (FormatInt 1) = Some (entry_doc (demo_entry 1 RoleIdentity 0))"
    using f1 by (simp_all add: demo_saved_delta demo_saved_other)
  have run1: "tri_start demo_ctx [demo_identity] = ts1"
    using s1 by (cases r1) (simp_all add: tri_start_def tri_run_def tri_exec_def demo_identity_def SaveIdentity_def unit_of_def call_def ret_def)
  have l1: "log_ok (mem_docs (ts_store ts1)) (ts_syncID ts1)" "ts_syncID ts1 < max_int64"
    using tri_start_ok [of "[demo_identity]" demo_ctx] demo_calls(2) run1 t1(1) by (auto simp: max_int64_def store_ok_def)
  have dd: "fmupd ''id'' (VString ''a'') demo_doc = demo_doc" by (rule fmap_ext) (auto simp: demo_doc_def)
  obtain r2 ts2 where s2: "saveWithDelta mem_ops key_order (Some demo_ctx) (\<lambda>_. 9000000) ''w'' ''a'' (Some demo_doc) ObservedSaveOptions ts1 = (r2, ts2)" by force
  note f2 = first_save_docs [OF l1 o(3) _ demo_doc_id s2, unfolded o(4) t1(1)]
  have "tri_exec mem_ops demo_ctx late_observed ts1 = ts2"
    using s2 by (cases r2) (simp_all add: tri_exec_def late_observed_def SaveObserved_def toDocument_def dd call_def ret_def)
  then have run2: "tri_start demo_ctx [demo_identity, late_observed] = ts2" using run1 by (simp add: tri_start_def tri_run_def)
  show "mem_docs (ts_store (tri_start demo_ctx [demo_identity, late_observed])) DeltaCollectionName (FormatInt 1) = Some (entry_doc (demo_entry 1 RoleIdentity 0))"
    "mem_docs (ts_store (tri_start demo_ctx [demo_identity, late_observed])) DeltaCollectionName (FormatInt 2) = Some (entry_doc (demo_entry 2 RoleObserved 9000000))"
    unfolding run2 using f2 t1(2,3) by (simp_all add: demo_saved_delta)
qed

theorem dump_ends_complete_witness:
  "\<exists>dump ts'. DumpScenario mem_ops key_order (Some demo_ctx) 0 0 (tri_start demo_ctx [demo_identity, late_observed]) = Some (dump, ts')
    \<and> sorted_wrt (<) (map dl_SyncID (sd_Deltas dump))"
  using dump_ends_complete [OF late_calls range_key_order, of demo_ctx 0 0] by (auto simp: max_int64_def)

theorem compaction_exact_witness:
  "fst (snd (CompactDeltas mem_ops key_order demo_ctx 10000000 5000000 (tri_start demo_ctx [demo_identity, late_observed]))) = None"
  using compaction_exact [OF late_calls range_key_order, of demo_ctx 10000000 5000000]
  by (simp add: max_int64_def demo_ctx_def Let_def split: prod.splits)

theorem compaction_gap_witness:
  "case CompactDeltas mem_ops key_order demo_ctx 10000000 5000000 (tri_start demo_ctx [demo_identity, late_observed]) of (_, _, ts') \<Rightarrow>
    case GetDeltas mem_ops key_order (Some demo_ctx) 10000000 0 ts' of (resp, _) \<Rightarrow>
      dr_Deltas resp \<noteq> [] \<and> \<not> dr_RequiresBootstrap resp \<and> 1 \<notin> dl_SyncID ` set (dr_Deltas resp)"
  using compaction_gap [of "[demo_identity, late_observed]" key_order demo_ctx "demo_entry 1 RoleIdentity 0" 0 10000000 5000000 "demo_entry 2 RoleObserved 9000000"]
    late_calls range_key_order late_log
  by (simp add: max_int64_def demo_ctx_def demo_entry_def UnixMilli_def)

end
