(* ===== verification/Config_Yaml.thy ===== *)
theory Config_Yaml
  imports Config_Types "HOL-Library.List_Lexorder" "HOL-Library.Char_ord"
begin

text \<open>
  The two layouts of the configuration (\<^verbatim>\<open>pkg/config/yamlParsing.go\<close>). In the file a templated
  component only names its template, and the templates stand once in a section of their own; in
  memory every component carries its configuration. \<^verbatim>\<open>convertYamlToSpec\<close> and
  \<^verbatim>\<open>convertSpecToYaml\<close> translate. Question \<open>n\<close> to the context is the \<open>n\<close>-th look at it.
\<close>

section \<open>The YAML library\<close>

text \<open>
  \<^verbatim>\<open>gopkg.in/yaml.v3\<close> is a parameter: decoding a file onto the defaults, with or without unknown
  fields, marshalling a configuration, and the round trip a template makes.
\<close>

record yaml_lib =
  y_Decode :: "bool \<Rightarrow> string \<Rightarrow> goerror + full_config"
  y_Marshal :: "full_config \<Rightarrow> goerror + string"
  y_MarshalPC :: "pc_template content \<Rightarrow> goerror + string"
  y_UnmarshalPC :: "string \<Rightarrow> goerror + pc_template"
  y_MarshalSP :: "sp_template content \<Rightarrow> goerror + string"
  y_UnmarshalSP :: "string \<Rightarrow> goerror + sp_template"

definition ask :: "gctx \<Rightarrow> (nat, unit) act" where
  "ask cx n = (case cx n of Some e \<Rightarrow> (Inl e, Suc n) | None \<Rightarrow> (Inr (), Suc n))"

definition lift_result :: "goerror + 'a \<Rightarrow> ('s, 'a) act" where
  "lift_result r s = (r, s)"

section \<open>From the file to memory\<close>

text \<open>The templates of a section, each through the library, in the order in which \<^verbatim>\<open>range\<close> visits them.\<close>

fun load_templates ::
  "gctx \<Rightarrow> string \<Rightarrow> ('t content \<Rightarrow> goerror + string) \<Rightarrow> (string \<Rightarrow> goerror + 't) \<Rightarrow> (string, 't content) fmap \<Rightarrow> string list
    \<Rightarrow> (nat, (string, 't) fmap) act" where
  "load_templates cx kind mar unm tpls [] = ret fmempty"
| "load_templates cx kind mar unm tpls (name # names) =
     call (ask cx) (\<lambda>_.
     call (wrapped (''failed to marshal '' @ kind @ '' template '' @ name @ '': '') (lift_result (mar (the (fmlookup tpls name))))) (\<lambda>bytes.
     call (wrapped (''failed to unmarshal '' @ kind @ '' template '' @ name @ '': '') (lift_result (unm bytes))) (\<lambda>t.
     call (load_templates cx kind mar unm tpls names) (\<lambda>m.
     ret (fmupd name t m)))))"

fun resolve_refs :: "gctx \<Rightarrow> string \<Rightarrow> (string, 't) fmap \<Rightarrow> 't templated list \<Rightarrow> (nat, 't templated list) act" where
  "resolve_refs cx kind tpls [] = ret []"
| "resolve_refs cx kind tpls (pc # pcs) =
     call (ask cx) (\<lambda>_.
     if ti_TemplateRef pc \<noteq> [] then
       case fmlookup tpls (ti_TemplateRef pc) of
         None \<Rightarrow> fail (ErrorNew 301 (kind @ '' template reference '' @ ti_TemplateRef pc @ '' not found for '' @ kind @ '' '' @ ti_Name pc))
       | Some t \<Rightarrow> call (resolve_refs cx kind tpls pcs) (\<lambda>rest. ret (pc\<lparr>ti_Config := t\<rparr> # rest))
     else call (resolve_refs cx kind tpls pcs) (\<lambda>rest. ret (pc # rest)))"

definition pc_kind :: string where "pc_kind = ''protocol converter''"
definition sp_kind :: string where "sp_kind = ''stream processor''"

definition convertYamlToSpec :: "yaml_lib \<Rightarrow> map_order \<Rightarrow> gctx \<Rightarrow> full_config \<Rightarrow> (nat, full_config) act" where
  "convertYamlToSpec Y ord cx config =
     call (ask cx) (\<lambda>_.
     call (load_templates cx pc_kind (y_MarshalPC Y) (y_UnmarshalPC Y) (fc_PCTemplates config) (ord (fmdom (fc_PCTemplates config)))) (\<lambda>pcTemplates.
     call (load_templates cx sp_kind (y_MarshalSP Y) (y_UnmarshalSP Y) (fc_SPTemplates config) (ord (fmdom (fc_SPTemplates config)))) (\<lambda>spTemplates.
     call (resolve_refs cx pc_kind pcTemplates (fc_ProtocolConverter config)) (\<lambda>pcs.
     call (resolve_refs cx sp_kind spTemplates (fc_StreamProcessor config)) (\<lambda>sps.
     ret (config\<lparr>fc_ProtocolConverter := pcs, fc_StreamProcessor := sps, fc_PCTemplates := fmempty, fc_SPTemplates := fmempty\<rparr>))))))"

section \<open>From memory to the file\<close>

definition is_root :: "'t templated \<Rightarrow> bool" where
  "is_root pc \<longleftrightarrow> ti_TemplateRef pc \<noteq> [] \<and> ti_TemplateRef pc = ti_Name pc"

text \<open>What is left of a templated component: its configuration and the location variables are taken out.\<close>

definition stripped :: "'t \<Rightarrow> 't templated \<Rightarrow> 't templated" where
  "stripped zero pc = pc\<lparr>ti_Config := zero, ti_User := fmdrop ''location_path'' (fmdrop ''location'' (ti_User pc))\<rparr>"

text \<open>The walk over the components: it collects the roots and the references of the children.\<close>

fun strip_templated ::
  "gctx \<Rightarrow> string \<Rightarrow> 't \<Rightarrow> (string, 't) fmap \<Rightarrow> string fset \<Rightarrow> 't templated list
    \<Rightarrow> (nat, 't templated list \<times> (string, 't) fmap \<times> string fset) act" where
  "strip_templated cx kind zero tpls pending [] = ret ([], tpls, pending)"
| "strip_templated cx kind zero tpls pending (pc # pcs) =
     call (ask cx) (\<lambda>_.
       let tr = ti_TemplateRef pc
       in if tr = [] then
            call (strip_templated cx kind zero tpls pending pcs) (\<lambda>(rest, t, p). ret (pc # rest, t, p))
          else if tr = ti_Name pc then
            (case fmlookup tpls tr of
               Some prev \<Rightarrow>
                 if prev \<noteq> ti_Config pc
                 then fail (ErrorNew 302 (''duplicate '' @ kind @ '' root '' @ tr @ '' with different Config blocks''))
                 else call (strip_templated cx kind zero tpls pending pcs) (\<lambda>(rest, t, p). ret (stripped zero pc # rest, t, p))
             | None \<Rightarrow>
                 call (strip_templated cx kind zero (fmupd tr (ti_Config pc) tpls) pending pcs)
                   (\<lambda>(rest, t, p). ret (stripped zero pc # rest, t, p)))
          else
            call (strip_templated cx kind zero tpls (finsert tr pending) pcs) (\<lambda>(rest, t, p). ret (stripped zero pc # rest, t, p)))"

fun clear_orphans :: "gctx \<Rightarrow> string fset \<Rightarrow> stream_processor list \<Rightarrow> (nat, stream_processor list) act" where
  "clear_orphans cx orphans [] = ret []"
| "clear_orphans cx orphans (sp # sps) =
     call (ask cx) (\<lambda>_.
     call (clear_orphans cx orphans sps) (\<lambda>rest.
     ret ((if ti_TemplateRef sp \<noteq> [] \<and> ti_TemplateRef sp |\<in>| orphans then sp\<lparr>ti_TemplateRef := []\<rparr> else sp) # rest)))"

definition convertSpecToYaml :: "map_order \<Rightarrow> gctx \<Rightarrow> full_config \<Rightarrow> (nat, full_config) act" where
  "convertSpecToYaml ord cx spec =
     call (ask cx) (\<lambda>_.
     call (strip_templated cx pc_kind zero_pc_template fmempty {||} (fc_ProtocolConverter spec)) (\<lambda>(pcs, pcTpls, pcRefs).
     call (strip_templated cx sp_kind zero_sp_template fmempty {||} (fc_StreamProcessor spec)) (\<lambda>(sps, spTpls, spRefs).
     case find (\<lambda>ref. fmlookup pcTpls ref = None) (ord pcRefs) of
       Some ref \<Rightarrow> fail (ErrorNew 303 (''protocol converter references unknown template '' @ ref))
     | None \<Rightarrow>
         (let orphans = ffilter (\<lambda>ref. fmlookup spTpls ref = None) spRefs
          in call (if orphans \<noteq> {||} then clear_orphans cx orphans sps else ret sps) (\<lambda>sps'.
             ret (spec\<lparr>fc_ProtocolConverter := pcs, fc_StreamProcessor := sps',
               fc_PCTemplates := fc_PCTemplates spec ++\<^sub>f fmmap Struct pcTpls,
               fc_SPTemplates := fc_SPTemplates spec ++\<^sub>f fmmap Struct spTpls\<rparr>))))))"

section \<open>Reading and writing text\<close>

definition ParseConfig :: "yaml_lib \<Rightarrow> map_order \<Rightarrow> gctx \<Rightarrow> bool \<Rightarrow> string \<Rightarrow> (nat, full_config) act" where
  "ParseConfig Y ord cx allowUnknownFields data =
     call (wrapped ''failed to decode config: '' (lift_result (y_Decode Y allowUnknownFields data))) (\<lambda>rawConfig.
     wrapped ''failed to resolve protocol converter template references: '' (convertYamlToSpec Y ord cx rawConfig))"

section \<open>What is read back\<close>

text \<open>The configuration of the root of a template, and the components as they come back from the file.\<close>

definition root_config :: "'t templated list \<Rightarrow> string \<Rightarrow> 't option" where
  "root_config pcs name = map_option ti_Config (find (\<lambda>pc. is_root pc \<and> ti_Name pc = name) pcs)"

definition roots_agree :: "'t templated list \<Rightarrow> bool" where
  "roots_agree pcs \<longleftrightarrow> (\<forall>pc \<in> set pcs. is_root pc \<longrightarrow> root_config pcs (ti_Name pc) = Some (ti_Config pc))"

definition reread_one :: "'t templated list \<Rightarrow> 't templated \<Rightarrow> 't templated" where
  "reread_one pcs pc =
     (if ti_TemplateRef pc = [] then pc
      else (stripped (ti_Config pc) pc)\<lparr>ti_Config := the (root_config pcs (ti_TemplateRef pc))\<rparr>)"

definition reread_sp :: "stream_processor list \<Rightarrow> stream_processor \<Rightarrow> stream_processor" where
  "reread_sp sps sp =
     (if ti_TemplateRef sp \<noteq> [] \<and> root_config sps (ti_TemplateRef sp) = None
      then (stripped zero_sp_template sp)\<lparr>ti_TemplateRef := []\<rparr> else reread_one sps sp)"

definition reread :: "full_config \<Rightarrow> full_config" where
  "reread spec = spec\<lparr>fc_ProtocolConverter := map (reread_one (fc_ProtocolConverter spec)) (fc_ProtocolConverter spec),
     fc_StreamProcessor := map (reread_sp (fc_StreamProcessor spec)) (fc_StreamProcessor spec)\<rparr>"

section \<open>The round trip\<close>

definition quiet :: "gctx \<Rightarrow> bool" where
  "quiet cx \<longleftrightarrow> (\<forall>n. cx n = None)"

lemma ask_quiet: "quiet cx \<Longrightarrow> ask cx n = (Inr (), Suc n)"
  by (simp add: ask_def quiet_def)

text \<open>The templates of a configuration survive the library.\<close>

definition survives :: "('t content \<Rightarrow> goerror + string) \<Rightarrow> (string \<Rightarrow> goerror + 't) \<Rightarrow> 't \<Rightarrow> bool" where
  "survives mar unm t \<longleftrightarrow> (case mar (Struct t) of Inl _ \<Rightarrow> False | Inr s \<Rightarrow> unm s = Inr t)"

definition templates_survive :: "yaml_lib \<Rightarrow> full_config \<Rightarrow> bool" where
  "templates_survive Y spec \<longleftrightarrow>
     (\<forall>pc \<in> set (fc_ProtocolConverter spec). is_root pc \<longrightarrow> survives (y_MarshalPC Y) (y_UnmarshalPC Y) (ti_Config pc))
   \<and> (\<forall>sp \<in> set (fc_StreamProcessor spec). is_root sp \<longrightarrow> survives (y_MarshalSP Y) (y_UnmarshalSP Y) (ti_Config sp))"

lemma root_config_Nil [simp]: "root_config [] k = None"
  by (simp add: root_config_def)

lemma root_config_Cons:
  "root_config (pc # pcs) k = (if is_root pc \<and> ti_Name pc = k then Some (ti_Config pc) else root_config pcs k)"
  by (simp add: root_config_def)

lemma root_config_member:
  "root_config pcs k = Some t \<Longrightarrow> \<exists>pc \<in> set pcs. is_root pc \<and> ti_Name pc = k \<and> ti_Config pc = t"
  by (induction pcs) (auto simp: root_config_Cons split: if_splits)

lemma root_config_Some: "is_root pc \<Longrightarrow> pc \<in> set pcs \<Longrightarrow> root_config pcs (ti_Name pc) \<noteq> None"
  by (induction pcs) (auto simp: root_config_Cons)

definition with_roots :: "(string, 't) fmap \<Rightarrow> 't templated list \<Rightarrow> string \<Rightarrow> 't option" where
  "with_roots tpls pcs k = (case fmlookup tpls k of Some t \<Rightarrow> Some t | None \<Rightarrow> root_config pcs k)"

definition child_refs :: "'t templated list \<Rightarrow> string fset" where
  "child_refs pcs = fset_of_list (map ti_TemplateRef (filter (\<lambda>pc. ti_TemplateRef pc \<noteq> [] \<and> \<not> is_root pc) pcs))"

lemma child_refs_simps [simp]:
  "child_refs [] = {||}"
  "child_refs (pc # pcs) = (if ti_TemplateRef pc \<noteq> [] \<and> \<not> is_root pc then finsert (ti_TemplateRef pc) (child_refs pcs) else child_refs pcs)"
  by (simp_all add: child_refs_def)

text \<open>The walk succeeds exactly when roots of the same name agree, and then collects them.\<close>

lemma strip_templated_quiet:
  assumes "quiet cx"
  shows "if \<forall>pc \<in> set pcs. is_root pc \<longrightarrow> with_roots tpls pcs (ti_Name pc) = Some (ti_Config pc)
    then \<exists>m n'. strip_templated cx kind zero tpls pend pcs n =
           (Inr (map (\<lambda>pc. if ti_TemplateRef pc = [] then pc else stripped zero pc) pcs, m, pend |\<union>| child_refs pcs), n')
         \<and> (\<forall>k. fmlookup m k = with_roots tpls pcs k)
    else \<exists>e n'. strip_templated cx kind zero tpls pend pcs n = (Inl e, n')"
proof (induction pcs arbitrary: tpls pend n)
  case Nil
  show ?case by (auto simp: ret_def with_roots_def split: option.split)
next
  case (Cons pc pcs)
  let ?ok = "\<lambda>tpls pcs. \<forall>pc \<in> set pcs. is_root pc \<longrightarrow> with_roots tpls pcs (ti_Name pc) = Some (ti_Config pc)"
  note q = ask_quiet [OF assms]
  consider (alone) "ti_TemplateRef pc = []" | (again) t where "is_root pc" "fmlookup tpls (ti_Name pc) = Some t"
    | (first) "is_root pc" "fmlookup tpls (ti_Name pc) = None" | (child) "ti_TemplateRef pc \<noteq> []" "\<not> is_root pc"
    by (cases "fmlookup tpls (ti_Name pc)") auto
  then show ?case
  proof cases
    case alone
    then have nr: "\<not> is_root pc" by (simp add: is_root_def)
    then have w: "with_roots tpls (pc # pcs) = with_roots tpls pcs" by (intro ext) (simp add: with_roots_def root_config_Cons cong: option.case_cong)
    show ?thesis using Cons.IH [of tpls pend "Suc n"] alone nr unfolding w by (auto simp: call_def ret_def q split: if_splits)
  next
    case child
    then have w: "with_roots tpls (pc # pcs) = with_roots tpls pcs" by (intro ext) (simp add: with_roots_def root_config_Cons cong: option.case_cong)
    have tr: "ti_TemplateRef pc \<noteq> ti_Name pc" using child by (auto simp: is_root_def)
    show ?thesis using Cons.IH [of tpls "finsert (ti_TemplateRef pc) pend" "Suc n"] child tr unfolding w
      by (auto simp: call_def ret_def q Let_def split: if_splits)
  next
    case again
    then have w: "with_roots tpls (pc # pcs) = with_roots tpls pcs" by (intro ext) (auto simp: with_roots_def root_config_Cons split: option.split)
    have tr: "ti_TemplateRef pc \<noteq> []" "ti_TemplateRef pc = ti_Name pc" using again by (auto simp: is_root_def)
    have pc: "with_roots tpls pcs (ti_Name pc) = Some t" using again by (simp add: with_roots_def)
    show ?thesis using Cons.IH [of tpls pend "Suc n"] again tr pc unfolding w
      by (auto simp: call_def ret_def fail_def q Let_def split: if_splits)
  next
    case first
    have w: "with_roots tpls (pc # pcs) = with_roots (fmupd (ti_Name pc) (ti_Config pc) tpls) pcs"
      using first by (intro ext) (auto simp: with_roots_def root_config_Cons split: option.split)
    have tr: "ti_TemplateRef pc \<noteq> []" "ti_TemplateRef pc = ti_Name pc" using first by (auto simp: is_root_def)
    have pc: "with_roots (fmupd (ti_Name pc) (ti_Config pc) tpls) pcs (ti_Name pc) = Some (ti_Config pc)" by (simp add: with_roots_def)
    show ?thesis using Cons.IH [of "fmupd (ti_Name pc) (ti_Config pc) tpls" pend "Suc n"] first tr pc unfolding w
      by (auto simp: call_def ret_def q Let_def split: if_splits)
  qed
qed

lemma strip_from_empty:
  assumes "quiet cx"
  shows "if roots_agree pcs
    then \<exists>m n'. strip_templated cx kind zero fmempty {||} pcs n =
           (Inr (map (\<lambda>pc. if ti_TemplateRef pc = [] then pc else stripped zero pc) pcs, m, child_refs pcs), n')
         \<and> (\<forall>k. fmlookup m k = root_config pcs k)
    else \<exists>e n'. strip_templated cx kind zero fmempty {||} pcs n = (Inl e, n')"
proof -
  have "with_roots fmempty pcs = root_config pcs" by (intro ext) (simp add: with_roots_def)
  then show ?thesis using strip_templated_quiet [OF assms, of pcs fmempty kind zero "{||}" n] by (simp only: roots_agree_def sup_bot_left)
qed

lemma clear_orphans_quiet:
  assumes "quiet cx"
  shows "\<exists>n'. clear_orphans cx orphans sps n =
    (Inr (map (\<lambda>sp. if ti_TemplateRef sp \<noteq> [] \<and> ti_TemplateRef sp |\<in>| orphans then sp\<lparr>ti_TemplateRef := []\<rparr> else sp) sps), n')"
proof (induction sps arbitrary: n)
  case (Cons sp sps)
  obtain n' where "clear_orphans cx orphans sps (Suc n) =
      (Inr (map (\<lambda>sp. if ti_TemplateRef sp \<noteq> [] \<and> ti_TemplateRef sp |\<in>| orphans then sp\<lparr>ti_TemplateRef := []\<rparr> else sp) sps), n')"
    using Cons.IH by blast
  then show ?case by (simp add: call_def ret_def ask_quiet [OF assms])
qed (simp add: ret_def)

lemma load_templates_quiet:
  assumes "quiet cx" "\<And>k t. fmlookup m k = Some t \<Longrightarrow> survives mar unm t" "set names \<subseteq> fset (fmdom m)"
  shows "\<exists>r n'. load_templates cx kind mar unm (fmmap Struct m) names n = (Inr r, n')
    \<and> (\<forall>k. fmlookup r k = (if k \<in> set names then fmlookup m k else None))"
  using assms(3)
proof (induction names arbitrary: n)
  case (Cons name names)
  obtain t where t: "fmlookup m name = Some t" using Cons.prems by (auto simp: fmlookup_dom_iff)
  obtain s where s: "mar (Struct t) = Inr s" "unm s = Inr t" using assms(2) [OF t] by (auto simp: survives_def split: sum.splits)
  obtain r n' where "load_templates cx kind mar unm (fmmap Struct m) names (Suc n) = (Inr r, n')"
    "\<forall>k. fmlookup r k = (if k \<in> set names then fmlookup m k else None)" using Cons by force
  then show ?case using t s by (auto simp: call_def ret_def wrapped_def lift_result_def ask_quiet [OF assms(1)])
qed (simp add: ret_def)

lemma resolve_refs_quiet:
  assumes "quiet cx" "\<And>pc. pc \<in> set pcs \<Longrightarrow> ti_TemplateRef pc \<noteq> [] \<Longrightarrow> fmlookup tpls (ti_TemplateRef pc) \<noteq> None"
  shows "\<exists>n'. resolve_refs cx kind tpls pcs n =
    (Inr (map (\<lambda>pc. if ti_TemplateRef pc = [] then pc else pc\<lparr>ti_Config := the (fmlookup tpls (ti_TemplateRef pc))\<rparr>) pcs), n')"
  using assms(2)
proof (induction pcs arbitrary: n)
  case (Cons pc pcs)
  obtain n' where "resolve_refs cx kind tpls pcs (Suc n) =
    (Inr (map (\<lambda>pc. if ti_TemplateRef pc = [] then pc else pc\<lparr>ti_Config := the (fmlookup tpls (ti_TemplateRef pc))\<rparr>) pcs), n')"
    using Cons.IH [of "Suc n"] Cons.prems by auto
  then show ?case using Cons.prems [of pc] by (auto simp: call_def ret_def ask_quiet [OF assms(1)] split: option.split)
qed (simp add: ret_def)

text \<open>A configuration that can be written: roots of one name agree, and every protocol converter has its root.\<close>

definition writable :: "full_config \<Rightarrow> bool" where
  "writable spec \<longleftrightarrow> roots_agree (fc_ProtocolConverter spec) \<and> roots_agree (fc_StreamProcessor spec)
     \<and> (\<forall>pc \<in> set (fc_ProtocolConverter spec). ti_TemplateRef pc \<noteq> [] \<longrightarrow> root_config (fc_ProtocolConverter spec) (ti_TemplateRef pc) \<noteq> None)"

text \<open>The layout of the file.\<close>

definition file_layout :: "full_config \<Rightarrow> full_config" where
  "file_layout spec =
     (let pcs = fc_ProtocolConverter spec; sps = fc_StreamProcessor spec
      in spec\<lparr>fc_ProtocolConverter := map (\<lambda>pc. if ti_TemplateRef pc = [] then pc else stripped zero_pc_template pc) pcs,
           fc_StreamProcessor := map (\<lambda>sp. if ti_TemplateRef sp = [] then sp
              else if root_config sps (ti_TemplateRef sp) = None then (stripped zero_sp_template sp)\<lparr>ti_TemplateRef := []\<rparr>
              else stripped zero_sp_template sp) sps\<rparr>)"

lemma child_refs_member: "ref |\<in>| child_refs pcs \<longleftrightarrow> (\<exists>pc \<in> set pcs. ti_TemplateRef pc = ref \<and> ref \<noteq> [] \<and> \<not> is_root pc)"
  by (auto simp: child_refs_def fset_of_list_elem)

lemma convertSpecToYaml_quiet:
  assumes "quiet cx" "range_order ord"
  shows "if writable spec
    then \<exists>pcm spm n'. convertSpecToYaml ord cx spec n =
        (Inr ((file_layout spec)\<lparr>fc_PCTemplates := fc_PCTemplates spec ++\<^sub>f fmmap Struct pcm, fc_SPTemplates := fc_SPTemplates spec ++\<^sub>f fmmap Struct spm\<rparr>), n')
      \<and> (\<forall>k. fmlookup pcm k = root_config (fc_ProtocolConverter spec) k) \<and> (\<forall>k. fmlookup spm k = root_config (fc_StreamProcessor spec) k)
    else \<exists>e n'. convertSpecToYaml ord cx spec n = (Inl e, n')"
proof -
  let ?pcs = "fc_ProtocolConverter spec" and ?sps = "fc_StreamProcessor spec"
  note q = ask_quiet [OF assms(1)]
  show ?thesis
  proof (cases "roots_agree ?pcs")
    case False
    then have "\<not> writable spec" by (simp add: writable_def)
    then show ?thesis using False strip_from_empty [OF assms(1), of ?pcs pc_kind zero_pc_template "Suc n"]
      by (auto simp: convertSpecToYaml_def call_def q)
  next
    case pa: True
    obtain pcm n1 where p: "strip_templated cx pc_kind zero_pc_template fmempty {||} ?pcs (Suc n) =
        (Inr (map (\<lambda>pc. if ti_TemplateRef pc = [] then pc else stripped zero_pc_template pc) ?pcs, pcm, child_refs ?pcs), n1)"
      and pm: "\<And>k. fmlookup pcm k = root_config ?pcs k"
      using strip_from_empty [OF assms(1), of ?pcs pc_kind zero_pc_template "Suc n"] pa by auto
    show ?thesis
    proof (cases "roots_agree ?sps")
      case False
      then have "\<not> writable spec" by (simp add: writable_def)
      then show ?thesis using False p strip_from_empty [OF assms(1), of ?sps sp_kind zero_sp_template n1]
        by (auto simp: convertSpecToYaml_def call_def q)
    next
      case sa: True
      let ?s1 = "map (\<lambda>pc. if ti_TemplateRef pc = [] then pc else stripped zero_sp_template pc) ?sps"
      obtain spm n2 where sp: "strip_templated cx sp_kind zero_sp_template fmempty {||} ?sps n1 = (Inr (?s1, spm, child_refs ?sps), n2)"
        and sm: "\<And>k. fmlookup spm k = root_config ?sps k"
        using strip_from_empty [OF assms(1), of ?sps sp_kind zero_sp_template n1] sa by auto
      let ?orphans = "ffilter (\<lambda>ref. fmlookup spm ref = None) (child_refs ?sps)"
      let ?s2 = "map (\<lambda>sp. if ti_TemplateRef sp \<noteq> [] \<and> ti_TemplateRef sp |\<in>| ?orphans then sp\<lparr>ti_TemplateRef := []\<rparr> else sp) ?s1"
      have root: "root_config ?sps (ti_TemplateRef x) \<noteq> None" if "x \<in> set ?sps" "is_root x" for x
        using root_config_Some [OF that(2,1)] that(2) by (simp add: is_root_def)
      have orph: "ti_TemplateRef x |\<in>| ?orphans \<longleftrightarrow> root_config ?sps (ti_TemplateRef x) = None" if "x \<in> set ?sps" "ti_TemplateRef x \<noteq> []" for x
        using that root [of x] by (auto simp: child_refs_member sm intro!: bexI [of _ x])
      have s2: "?s2 = fc_StreamProcessor (file_layout spec)"
        using orph by (auto simp: file_layout_def Let_def stripped_def)
      have clear: "\<exists>n'. (if ?orphans \<noteq> {||} then clear_orphans cx ?orphans ?s1 else ret ?s1) n2 = (Inr ?s2, n')"
        using clear_orphans_quiet [OF assms(1), of ?orphans ?s1 n2] by (cases "?orphans = {||}") (auto simp: ret_def)
      have wr: "writable spec \<longleftrightarrow> find (\<lambda>ref. fmlookup pcm ref = None) (ord (child_refs ?pcs)) = None"
      proof -
        have "pc \<in> set ?pcs \<Longrightarrow> is_root pc \<Longrightarrow> root_config ?pcs (ti_TemplateRef pc) \<noteq> None" for pc
          using root_config_Some [of pc ?pcs] by (auto simp: is_root_def)
        then show ?thesis using pa sa by (auto simp: writable_def find_None_iff range_order_set [OF assms(2)] pm child_refs_member)
      qed
      have fl: "spec\<lparr>fc_ProtocolConverter := map (\<lambda>pc. if ti_TemplateRef pc = [] then pc else stripped zero_pc_template pc) ?pcs,
          fc_StreamProcessor := ?s2\<rparr> = file_layout spec"
        unfolding s2 by (simp add: file_layout_def Let_def)
      show ?thesis
      proof (cases "writable spec")
        case True
        obtain n3 where c: "(if ?orphans \<noteq> {||} then clear_orphans cx ?orphans ?s1 else ret ?s1) n2 = (Inr ?s2, n3)" using clear by blast
        have "convertSpecToYaml ord cx spec n =
          (Inr ((spec\<lparr>fc_ProtocolConverter := map (\<lambda>pc. if ti_TemplateRef pc = [] then pc else stripped zero_pc_template pc) ?pcs,
             fc_StreamProcessor := ?s2\<rparr>)\<lparr>fc_PCTemplates := fc_PCTemplates spec ++\<^sub>f fmmap Struct pcm, fc_SPTemplates := fc_SPTemplates spec ++\<^sub>f fmmap Struct spm\<rparr>), n3)"
          unfolding convertSpecToYaml_def call_def q using True wr
          by (simp only: prod.case sum.case p sp option.case Let_def c ret_def)
        then show ?thesis unfolding fl using True pm sm by auto
      next
        case False
        then obtain ref where "find (\<lambda>ref. fmlookup pcm ref = None) (ord (child_refs ?pcs)) = Some ref" using wr by auto
        then show ?thesis using False p sp by (auto simp: convertSpecToYaml_def call_def q fail_def)
      qed
    qed
  qed
qed

section \<open>Properties\<close>

text \<open>A configuration that a round trip leaves alone: its components agree with their roots and carry no location variables.\<close>

definition settled_one :: "'t templated list \<Rightarrow> 't templated \<Rightarrow> bool" where
  "settled_one pcs pc \<longleftrightarrow> (ti_TemplateRef pc \<noteq> [] \<longrightarrow> root_config pcs (ti_TemplateRef pc) = Some (ti_Config pc)
     \<and> fmlookup (ti_User pc) ''location'' = None \<and> fmlookup (ti_User pc) ''location_path'' = None)"

definition settled :: "full_config \<Rightarrow> bool" where
  "settled spec \<longleftrightarrow> (\<forall>pc \<in> set (fc_ProtocolConverter spec). settled_one (fc_ProtocolConverter spec) pc)
     \<and> (\<forall>sp \<in> set (fc_StreamProcessor spec). settled_one (fc_StreamProcessor spec) sp)"

lemma fmdrop_absent: "fmlookup m k = None \<Longrightarrow> fmdrop k m = m"
  by (rule fmap_ext) simp

lemma reread_one_settled: "settled_one pcs pc \<Longrightarrow> reread_one pcs pc = pc"
  by (simp add: settled_one_def reread_one_def stripped_def fmdrop_absent)

lemma reread_sp_settled: "settled_one sps sp \<Longrightarrow> reread_sp sps sp = sp"
  using reread_one_settled [of sps sp] by (auto simp: reread_sp_def settled_one_def)

lemma reread_settled: "settled spec \<Longrightarrow> reread spec = spec"
  by (simp add: reread_def settled_def reread_one_settled reread_sp_settled map_idI)

lemma convertYamlToSpec_layout:
  assumes "quiet cx" "range_order ord" "templates_survive Y spec" "writable spec"
    and "\<And>k. fmlookup pcm k = root_config (fc_ProtocolConverter spec) k" "\<And>k. fmlookup spm k = root_config (fc_StreamProcessor spec) k"
    and "fc_PCTemplates spec = fmempty" "fc_SPTemplates spec = fmempty"
  shows "fst (convertYamlToSpec Y ord cx ((file_layout spec)\<lparr>fc_PCTemplates := fmmap Struct pcm, fc_SPTemplates := fmmap Struct spm\<rparr>) n) = Inr (reread spec)"
proof -
  let ?pcs = "fc_ProtocolConverter spec" and ?sps = "fc_StreamProcessor spec"
  let ?y = "(file_layout spec)\<lparr>fc_PCTemplates := fmmap Struct pcm, fc_SPTemplates := fmmap Struct spm\<rparr>"
  note q = ask_quiet [OF assms(1)]
  have ordm: "set (ord (fmdom (fmmap Struct m))) = fset (fmdom m)" for m :: "(string, 'x) fmap" by (simp add: range_order_set [OF assms(2)])
  have pmar: "\<And>k t. fmlookup pcm k = Some t \<Longrightarrow> survives (y_MarshalPC Y) (y_UnmarshalPC Y) t"
    and smar: "\<And>k t. fmlookup spm k = Some t \<Longrightarrow> survives (y_MarshalSP Y) (y_UnmarshalSP Y) t"
    using assms(3,5,6) by (auto simp: templates_survive_def dest!: root_config_member)
  obtain pr n1 where p: "load_templates cx pc_kind (y_MarshalPC Y) (y_UnmarshalPC Y) (fmmap Struct pcm) (ord (fmdom (fmmap Struct pcm))) (Suc n) = (Inr pr, n1)"
    "\<And>k. fmlookup pr k = root_config ?pcs k"
    using load_templates_quiet [OF assms(1), of pcm "y_MarshalPC Y" "y_UnmarshalPC Y" "ord (fmdom (fmmap Struct pcm))" pc_kind "Suc n"] pmar
    unfolding ordm by (auto simp: assms(5) fmlookup_dom_iff)
  obtain sr n2 where s: "load_templates cx sp_kind (y_MarshalSP Y) (y_UnmarshalSP Y) (fmmap Struct spm) (ord (fmdom (fmmap Struct spm))) n1 = (Inr sr, n2)"
    "\<And>k. fmlookup sr k = root_config ?sps k"
    using load_templates_quiet [OF assms(1), of spm "y_MarshalSP Y" "y_UnmarshalSP Y" "ord (fmdom (fmmap Struct spm))" sp_kind n1] smar
    unfolding ordm by (auto simp: assms(6) fmlookup_dom_iff)
  have "\<And>pc. pc \<in> set (fc_ProtocolConverter ?y) \<Longrightarrow> ti_TemplateRef pc \<noteq> [] \<Longrightarrow> fmlookup pr (ti_TemplateRef pc) \<noteq> None"
    using assms(4) by (auto simp: file_layout_def Let_def p(2) writable_def stripped_def split: if_splits)
  then obtain n3 where rp: "resolve_refs cx pc_kind pr (fc_ProtocolConverter ?y) n2 = (Inr (map (\<lambda>pc. if ti_TemplateRef pc = [] then pc
      else pc\<lparr>ti_Config := the (fmlookup pr (ti_TemplateRef pc))\<rparr>) (fc_ProtocolConverter ?y)), n3)"
    using resolve_refs_quiet [OF assms(1), of "fc_ProtocolConverter ?y" pr pc_kind n2] by blast
  have "\<And>pc. pc \<in> set (fc_StreamProcessor ?y) \<Longrightarrow> ti_TemplateRef pc \<noteq> [] \<Longrightarrow> fmlookup sr (ti_TemplateRef pc) \<noteq> None"
    by (auto simp: file_layout_def Let_def s(2) stripped_def split: if_splits)
  then obtain n4 where rs: "resolve_refs cx sp_kind sr (fc_StreamProcessor ?y) n3 = (Inr (map (\<lambda>pc. if ti_TemplateRef pc = [] then pc
      else pc\<lparr>ti_Config := the (fmlookup sr (ti_TemplateRef pc))\<rparr>) (fc_StreamProcessor ?y)), n4)"
    using resolve_refs_quiet [OF assms(1), of "fc_StreamProcessor ?y" sr sp_kind n3] by blast
  have m1: "map (\<lambda>pc. if ti_TemplateRef pc = [] then pc else pc\<lparr>ti_Config := the (fmlookup pr (ti_TemplateRef pc))\<rparr>) (fc_ProtocolConverter ?y) = map (reread_one ?pcs) ?pcs"
    by (auto simp: file_layout_def Let_def reread_one_def stripped_def p(2))
  have m2: "map (\<lambda>pc. if ti_TemplateRef pc = [] then pc else pc\<lparr>ti_Config := the (fmlookup sr (ti_TemplateRef pc))\<rparr>) (fc_StreamProcessor ?y) = map (reread_sp ?sps) ?sps"
    by (auto simp: file_layout_def Let_def reread_one_def reread_sp_def stripped_def s(2))
  have "convertYamlToSpec Y ord cx ?y n =
      (Inr (?y\<lparr>fc_ProtocolConverter := map (reread_one ?pcs) ?pcs, fc_StreamProcessor := map (reread_sp ?sps) ?sps,
          fc_PCTemplates := fmempty, fc_SPTemplates := fmempty\<rparr>), n4)"
    unfolding convertYamlToSpec_def call_def q using p(1) s(1) rp rs unfolding m1 m2 by (simp add: ret_def)
  then show ?thesis using assms(7,8) by (simp add: reread_def file_layout_def Let_def)
qed


text \<open>
  Writing destroys the configuration of a stream processor whose template is not in the
  configuration. The comment of the code says that it is kept inline; it has been cleared before,
  and what comes back has neither a template nor a configuration.
\<close>

theorem orphan_config_lost:
  assumes "quiet cx" "range_order ord" "templates_survive Y spec" "fc_PCTemplates spec = fmempty" "fc_SPTemplates spec = fmempty" "writable spec"
    and "i < length (fc_StreamProcessor spec)" "fc_StreamProcessor spec ! i = sp" "ti_TemplateRef sp \<noteq> []"
    and "root_config (fc_StreamProcessor spec) (ti_TemplateRef sp) = None"
  shows "\<exists>y n' spec'. convertSpecToYaml ord cx spec n = (Inr y, n') \<and> fst (convertYamlToSpec Y ord cx y n') = Inr spec'
    \<and> ti_Config (fc_StreamProcessor spec' ! i) = zero_sp_template \<and> ti_TemplateRef (fc_StreamProcessor spec' ! i) = []"
proof -
  obtain pcm spm n' where y: "convertSpecToYaml ord cx spec n =
        (Inr ((file_layout spec)\<lparr>fc_PCTemplates := fmmap Struct pcm, fc_SPTemplates := fmmap Struct spm\<rparr>), n')"
      "\<forall>k. fmlookup pcm k = root_config (fc_ProtocolConverter spec) k" "\<forall>k. fmlookup spm k = root_config (fc_StreamProcessor spec) k"
    using convertSpecToYaml_quiet [OF assms(1,2), of spec n] assms(6) by (auto simp: assms(4,5))
  then have "fst (convertYamlToSpec Y ord cx ((file_layout spec)\<lparr>fc_PCTemplates := fmmap Struct pcm, fc_SPTemplates := fmmap Struct spm\<rparr>) n') = Inr (reread spec)"
    using convertYamlToSpec_layout [OF assms(1-3,6), of pcm spm n'] assms(4,5) by simp
  moreover have "fc_StreamProcessor (reread spec) ! i = (stripped zero_sp_template sp)\<lparr>ti_TemplateRef := []\<rparr>"
    using assms(7-10) by (simp add: reread_def reread_sp_def)
  ultimately show ?thesis using y(1) by (simp add: stripped_def)
qed


section \<open>Witnesses\<close>

definition demo_order :: map_order where
  "demo_order A = sorted_list_of_fset A"

lemma range_demo_order: "range_order demo_order"
  by (simp add: range_order_def demo_order_def sorted_list_of_fset.rep_eq)

definition demo_sp_template :: sp_template where
  "demo_sp_template = zero_sp_template\<lparr>spt_Model := VString ''pump''\<rparr>"

definition demo_component :: "string \<Rightarrow> string \<Rightarrow> 't \<Rightarrow> 't templated" where
  "demo_component name ref t = \<lparr>ti_Name = name, ti_DesiredFSMState = ''active'', ti_TemplateRef = ref, ti_Config = t,
     ti_User = fmempty, ti_Location = fmempty, ti_Other = VNil\<rparr>"

text \<open>A root with a child.\<close>

definition demo_spec :: full_config where
  "demo_spec = zero_config\<lparr>fc_StreamProcessor := [demo_component ''a'' ''a'' demo_sp_template, demo_component ''b'' ''a'' demo_sp_template]\<rparr>"

text \<open>A stream processor whose root is gone.\<close>

definition demo_orphan :: full_config where
  "demo_orphan = zero_config\<lparr>fc_StreamProcessor := [demo_component ''b'' ''a'' demo_sp_template]\<rparr>"

definition demo_yaml :: yaml_lib where
  "demo_yaml = \<lparr>y_Decode = (\<lambda>_ _. Inr demo_spec), y_Marshal = (\<lambda>_. Inr ''doc''), y_MarshalPC = (\<lambda>_. Inr ''pc''),
     y_UnmarshalPC = (\<lambda>_. Inr zero_pc_template), y_MarshalSP = (\<lambda>_. Inr ''sp''), y_UnmarshalSP = (\<lambda>_. Inr demo_sp_template)\<rparr>"

definition live :: gctx where
  "live = (\<lambda>_. None)"

lemma quiet_live: "quiet live"
  by (simp add: quiet_def live_def)

lemmas demo_yaml_simps = demo_spec_def demo_orphan_def demo_component_def demo_yaml_def zero_config_def writable_def roots_agree_def
  root_config_def is_root_def templates_survive_def survives_def

lemma demo_writable: "writable demo_spec" "writable demo_orphan" "templates_survive demo_yaml demo_spec" "templates_survive demo_yaml demo_orphan"
  by (simp_all add: demo_yaml_simps)


theorem orphan_config_lost_witness:
  "\<exists>y n' spec'. convertSpecToYaml demo_order live demo_orphan 0 = (Inr y, n') \<and> fst (convertYamlToSpec demo_yaml demo_order live y n') = Inr spec'
    \<and> ti_Config (fc_StreamProcessor demo_orphan ! 0) = demo_sp_template \<and> ti_Config (fc_StreamProcessor spec' ! 0) = zero_sp_template"
  using orphan_config_lost [OF quiet_live range_demo_order demo_writable(4), of 0 "demo_component ''b'' ''a'' demo_sp_template" 0] demo_writable(2)
  by (auto simp: demo_yaml_simps)

end
