(* ===== verification/Config_Edits.thy ===== *)
theory Config_Edits
  imports Config_Yaml S6_Time
begin

text \<open>
  What the atomic operations of the configuration manager do to a configuration, between reading it
  and writing it back: \<^verbatim>\<open>pkg/config/manager.go\<close> (location, data flow components, historian),
  \<^verbatim>\<open>protocolconverter.go\<close>, \<^verbatim>\<open>streamprocessor.go\<close>, \<^verbatim>\<open>datamodel.go\<close> and
  \<^verbatim>\<open>datacontract.go\<close>. An edit gives the configuration to be written, if there is one to be
  written, and the component that the operation returns. Hints and quotation marks in the texts of
  errors are left out.
\<close>

section \<open>Edits\<close>

datatype edit_result = EDone | EDataFlow data_flow | EConverter protocol_converter | EProcessor stream_processor

type_synonym edit = "full_config \<Rightarrow> goerror + (full_config option \<times> edit_result)"

definition write_back :: "full_config \<Rightarrow> goerror + (full_config option \<times> edit_result)" where
  "write_back c = Inr (Some c, EDone)"

text \<open>The first index at which a condition holds.\<close>

fun index_of :: "('a \<Rightarrow> bool) \<Rightarrow> 'a list \<Rightarrow> nat option" where
  "index_of P [] = None"
| "index_of P (x # xs) = (if P x then Some 0 else map_option Suc (index_of P xs))"

definition drop_index :: "nat \<Rightarrow> 'a list \<Rightarrow> 'a list" where
  "drop_index i xs = take i xs @ drop (Suc i) xs"

subsection \<open>Location\<close>

record location_model =
  lm_Enterprise :: string
  lm_Site :: "string option"
  lm_Area :: "string option"
  lm_Line :: "string option"
  lm_WorkCell :: "string option"

definition set_level :: "int \<Rightarrow> string option \<Rightarrow> (int, string) fmap \<Rightarrow> (int, string) fmap" where
  "set_level k v m = (case v of None \<Rightarrow> m | Some x \<Rightarrow> fmupd k x m)"

definition location_levels :: "location_model \<Rightarrow> (int, string) fmap" where
  "location_levels l = set_level 4 (lm_WorkCell l) (set_level 3 (lm_Line l) (set_level 2 (lm_Area l)
     (set_level 1 (lm_Site l) (fmupd 0 (lm_Enterprise l) fmempty))))"

definition location_strings :: "(int, string) fmap \<Rightarrow> (string, string) fmap" where
  "location_strings m = fmap_of_list (map (\<lambda>k. (FormatInt k, the (fmlookup m k))) (sorted_list_of_fset (fmdom m)))"

definition relocate :: "(string, string) fmap \<Rightarrow> 't templated \<Rightarrow> 't templated" where
  "relocate m pc = pc\<lparr>ti_Location := ti_Location pc ++\<^sub>f m\<rparr>"

definition edit_SetLocation :: "location_model \<Rightarrow> edit" where
  "edit_SetLocation l c =
     (let levels = location_levels l; m = location_strings levels
      in write_back (c\<lparr>fc_Agent := (fc_Agent c)\<lparr>ag_Location := levels\<rparr>,
           fc_ProtocolConverter := map (relocate m) (fc_ProtocolConverter c),
           fc_StreamProcessor := map (relocate m) (fc_StreamProcessor c), fc_Alloc := True\<rparr>))"

subsection \<open>Data flow components\<close>

text \<open>\<open>gen\<close> is the library's UUID of a name (\<^verbatim>\<open>uuid.NewSHA1\<close>).\<close>

definition edit_AddDataflow :: "data_flow \<Rightarrow> edit" where
  "edit_AddDataflow dfc c =
     (if list_ex (\<lambda>cmp. df_Name cmp = df_Name dfc) (fc_DataFlow c)
      then Inl (ErrorNew 311 (''another dataflow component with name '' @ df_Name dfc @ '' already exists''))
      else write_back (c\<lparr>fc_DataFlow := fc_DataFlow c @ [dfc], fc_Alloc := True\<rparr>))"

definition edit_DeleteDataflow :: "(string \<Rightarrow> string) \<Rightarrow> string \<Rightarrow> edit" where
  "edit_DeleteDataflow gen uuid c =
     (if list_ex (\<lambda>cmp. gen (df_Name cmp) = uuid) (fc_DataFlow c)
      then write_back (c\<lparr>fc_DataFlow := filter (\<lambda>cmp. gen (df_Name cmp) \<noteq> uuid) (fc_DataFlow c), fc_Alloc := True\<rparr>)
      else Inl (ErrorNew 312 (''dataflow component with UUID '' @ uuid @ '' not found'')))"

definition edit_EditDataflow :: "(string \<Rightarrow> string) \<Rightarrow> string \<Rightarrow> data_flow \<Rightarrow> edit" where
  "edit_EditDataflow gen uuid dfc c =
     (if list_ex (\<lambda>cmp. df_Name cmp = df_Name dfc \<and> gen (df_Name cmp) \<noteq> uuid) (fc_DataFlow c)
      then Inl (ErrorNew 311 (''another dataflow component with name '' @ df_Name dfc @ '' already exists''))
      else case index_of (\<lambda>cmp. gen (df_Name cmp) = uuid) (fc_DataFlow c) of
        None \<Rightarrow> Inl (ErrorNew 312 (''dataflow component with UUID '' @ uuid @ '' not found''))
      | Some i \<Rightarrow>
          if df_hasAnchors (fc_DataFlow c ! i)
          then Inl (ErrorNew 313 (''dataFlowComponentConfig for '' @ uuid @ '' is defined via YAML anchors/aliases''))
          else Inr (Some (c\<lparr>fc_DataFlow := (fc_DataFlow c)[i := dfc]\<rparr>), EDataFlow (fc_DataFlow c ! i)))"

subsection \<open>Historian\<close>

definition ErrHistorianNotConfigured :: goerror where
  "ErrHistorianNotConfigured = ErrorNew 314 ''historian is not configured''"

definition ErrHistorianAlreadyConfigured :: goerror where
  "ErrHistorianAlreadyConfigured = ErrorNew 315 ''historian is already configured''"

definition edit_SetHistorian :: "historian_config \<Rightarrow> edit" where
  "edit_SetHistorian h c =
     (case fc_Historian c of
        Some old \<Rightarrow> if old = h then Inr (None, EDone) else Inl ErrHistorianAlreadyConfigured
      | None \<Rightarrow> write_back (c\<lparr>fc_Historian := Some h\<rparr>))"

definition edit_EditHistorian :: "historian_config \<Rightarrow> edit" where
  "edit_EditHistorian h c =
     (case fc_Historian c of
        None \<Rightarrow> Inl ErrHistorianNotConfigured
      | Some old \<Rightarrow>
          let new = (if hc_Password h = [] then h\<lparr>hc_Password := hc_Password old\<rparr> else h)
          in write_back (c\<lparr>fc_Historian := Some new\<rparr>))"

definition edit_DeleteHistorian :: edit where
  "edit_DeleteHistorian c = write_back (c\<lparr>fc_Historian := None\<rparr>)"

subsection \<open>Protocol converters\<close>

text \<open>A child needs a root of the name it refers to.\<close>

definition child_without_root :: "'t templated \<Rightarrow> 't templated list \<Rightarrow> bool" where
  "child_without_root pc pcs \<longleftrightarrow> ti_TemplateRef pc \<noteq> [] \<and> ti_TemplateRef pc \<noteq> ti_Name pc
     \<and> \<not> list_ex (\<lambda>e. ti_Name e = ti_TemplateRef pc \<and> ti_TemplateRef e = ti_Name e) pcs"

definition template_missing :: "'t templated \<Rightarrow> goerror" where
  "template_missing pc = ErrorNew 316 (''template '' @ ti_TemplateRef pc @ '' not found for child '' @ ti_Name pc)"

definition edit_AddProtocolConverter :: "protocol_converter \<Rightarrow> edit" where
  "edit_AddProtocolConverter pc c =
     (if list_ex (\<lambda>cmp. ti_Name cmp = ti_Name pc) (fc_ProtocolConverter c)
      then Inl (ErrorNew 317 (''another protocol converter with name '' @ ti_Name pc @ '' already exists''))
      else if child_without_root pc (fc_ProtocolConverter c) then Inl (template_missing pc)
      else write_back (c\<lparr>fc_ProtocolConverter := fc_ProtocolConverter c @ [pc], fc_Alloc := True\<rparr>))"

definition follow_rename :: "string \<Rightarrow> string \<Rightarrow> 't templated \<Rightarrow> 't templated" where
  "follow_rename old new pc = (if ti_TemplateRef pc = old then pc\<lparr>ti_TemplateRef := new\<rparr> else pc)"

definition edit_EditProtocolConverter :: "(string \<Rightarrow> string) \<Rightarrow> string \<Rightarrow> protocol_converter \<Rightarrow> edit" where
  "edit_EditProtocolConverter gen uuid pc c =
     (let pcs = fc_ProtocolConverter c
      in case index_of (\<lambda>cmp. gen (ti_Name cmp) = uuid) pcs of
           None \<Rightarrow> Inl (ErrorNew 318 (''protocol converter with UUID '' @ uuid @ '' not found''))
         | Some i \<Rightarrow>
             let old = pcs ! i
             in if list_ex (\<lambda>cmp. ti_Name cmp = ti_Name pc) (drop_index i pcs)
                then Inl (ErrorNew 317 (''another protocol converter with name '' @ ti_Name pc @ '' already exists''))
                else
                  let renamed = (if is_root old \<and> is_root pc \<and> ti_Name old \<noteq> ti_Name pc
                                 then map (follow_rename (ti_Name old) (ti_Name pc)) pcs else pcs)
                  in if \<not> is_root old \<and> ti_TemplateRef pc \<noteq> []
                     then Inl (ErrorNew 319 (''cannot edit child '' @ ti_Name old @ ''; it is not a root. Edit the root instead: '' @ ti_TemplateRef old))
                     else Inr (Some (c\<lparr>fc_ProtocolConverter := renamed[i := pc]\<rparr>), EConverter old))"

definition edit_DeleteProtocolConverter :: "(string \<Rightarrow> string) \<Rightarrow> string \<Rightarrow> edit" where
  "edit_DeleteProtocolConverter gen uuid c =
     (let pcs = fc_ProtocolConverter c
      in case index_of (\<lambda>cmp. gen (ti_Name cmp) = uuid) pcs of
           None \<Rightarrow> Inl (ErrorNew 318 (''protocol converter with UUID '' @ uuid @ '' not found''))
         | Some i \<Rightarrow>
             let target = pcs ! i;
                 childCount = length (filter (\<lambda>cmp. ti_TemplateRef cmp = ti_Name target) (drop_index i pcs))
             in if is_root target \<and> 0 < childCount
                then Inl (ErrorNew 320 (''cannot delete root '' @ ti_Name target @ ''; '' @ itoa childCount @ '' dependent converters exist''))
                else write_back (c\<lparr>fc_ProtocolConverter := drop_index i pcs, fc_Alloc := True\<rparr>))"

subsection \<open>Stream processors\<close>

definition edit_AddStreamProcessor :: "stream_processor \<Rightarrow> edit" where
  "edit_AddStreamProcessor sp c =
     (if list_ex (\<lambda>cmp. ti_Name cmp = ti_Name sp) (fc_StreamProcessor c)
      then Inl (ErrorNew 321 (''another stream processor with name '' @ ti_Name sp @ '' already exists''))
      else if child_without_root sp (fc_StreamProcessor c) then Inl (template_missing sp)
      else write_back (c\<lparr>fc_StreamProcessor := fc_StreamProcessor c @ [sp], fc_Alloc := True\<rparr>))"

definition edit_EditStreamProcessor :: "stream_processor \<Rightarrow> edit" where
  "edit_EditStreamProcessor sp c =
     (let sps = fc_StreamProcessor c
      in case index_of (\<lambda>cmp. ti_Name cmp = ti_Name sp) sps of
           None \<Rightarrow> Inl (ErrorNew 322 (''stream processor with name '' @ ti_Name sp @ '' not found''))
         | Some i \<Rightarrow>
             let old = sps ! i
             in if ti_TemplateRef old \<noteq> [] \<and> ti_TemplateRef old \<noteq> ti_Name old
                then Inl (ErrorNew 323 (''cannot edit child stream processor '' @ ti_Name sp @ '' directly''))
                else Inr (Some (c\<lparr>fc_StreamProcessor := sps[i := sp]\<rparr>), EProcessor old))"

definition edit_DeleteStreamProcessor :: "string \<Rightarrow> edit" where
  "edit_DeleteStreamProcessor name c =
     (let sps = fc_StreamProcessor c
      in case index_of (\<lambda>cmp. ti_Name cmp = name) sps of
           None \<Rightarrow> Inl (ErrorNew 322 (''stream processor with name '' @ name @ '' not found''))
         | Some i \<Rightarrow>
             (case if ti_TemplateRef (sps ! i) = ti_Name (sps ! i)
                   then find (\<lambda>cmp. ti_Name cmp \<noteq> name \<and> ti_TemplateRef cmp = name) sps else None of
                Some child \<Rightarrow> Inl (ErrorNew 324 (''cannot delete root stream processor '' @ name @ '' because child '' @ ti_Name child @ '' depends on it''))
              | None \<Rightarrow> write_back (c\<lparr>fc_StreamProcessor := drop_index i sps, fc_Alloc := True\<rparr>)))"

subsection \<open>Data models and contracts\<close>

definition edit_AddDataModel :: "string \<Rightarrow> DataModelVersion \<Rightarrow> string \<Rightarrow> edit" where
  "edit_AddDataModel name v description c =
     (if list_ex (\<lambda>dm. cdm_Name dm = name) (fc_DataModels c)
      then Inl (ErrorNew 325 (''another data model with name '' @ name @ '' already exists''))
      else write_back (c\<lparr>fc_DataModels := fc_DataModels c @
        [\<lparr>cdm_Name = name, cdm_Description = description, cdm_Versions = Some (fmupd ''v1'' v fmempty)\<rparr>], fc_Alloc := True\<rparr>))"

definition version_number :: "string \<Rightarrow> int" where
  "version_number key = (if prefix ''v'' key then case Atoi (drop 1 key) of Some n \<Rightarrow> n | None \<Rightarrow> 0 else 0)"

definition max_version :: "(string, DataModelVersion) fmap \<Rightarrow> int" where
  "max_version vs = fold max (sorted_list_of_fset (version_number |`| fmdom vs)) 0"

definition next_version :: "(string, DataModelVersion) fmap \<Rightarrow> string" where
  "next_version vs = ''v'' @ FormatInt (wrap_int64 (max_version vs + 1))"

text \<open>Writing to a nil map panics; the panic is the error with tag 327.\<close>

definition edit_EditDataModel :: "string \<Rightarrow> DataModelVersion \<Rightarrow> string \<Rightarrow> edit" where
  "edit_EditDataModel name v description c =
     (let dms = fc_DataModels c
      in case index_of (\<lambda>dm. cdm_Name dm = name) dms of
           None \<Rightarrow> Inl (ErrorNew 326 (''data model with name '' @ name @ '' not found''))
         | Some i \<Rightarrow>
             (case cdm_Versions (dms ! i) of
                None \<Rightarrow> Inl (ErrorNew 327 ''panic: assignment to entry in nil map'')
              | Some vs \<Rightarrow> write_back (c\<lparr>fc_DataModels :=
                  dms[i := (dms ! i)\<lparr>cdm_Versions := Some (fmupd (next_version vs) v vs), cdm_Description := description\<rparr>]\<rparr>)))"

definition edit_DeleteDataModel :: "string \<Rightarrow> edit" where
  "edit_DeleteDataModel name c =
     (case index_of (\<lambda>dm. cdm_Name dm = name) (fc_DataModels c) of
        None \<Rightarrow> Inl (ErrorNew 326 (''data model with name '' @ name @ '' not found''))
      | Some i \<Rightarrow> write_back (c\<lparr>fc_DataModels := drop_index i (fc_DataModels c), fc_Alloc := True\<rparr>))"

definition edit_AddDataContract :: "data_contract \<Rightarrow> edit" where
  "edit_AddDataContract dc c =
     (if list_ex (\<lambda>d. dct_Name d = dct_Name dc) (fc_DataContracts c)
      then Inl (ErrorNew 328 (''another data contract with name '' @ dct_Name dc @ '' already exists''))
      else write_back (c\<lparr>fc_DataContracts := fc_DataContracts c @ [dc], fc_Alloc := True\<rparr>))"


subsection \<open>All of them\<close>

datatype config_op =
    SetLocation location_model
  | AddDataflow data_flow | DeleteDataflow string | EditDataflow string data_flow
  | SetHistorian historian_config | EditHistorian historian_config | DeleteHistorian
  | AddProtocolConverter protocol_converter | EditProtocolConverter string protocol_converter | DeleteProtocolConverter string
  | AddStreamProcessor stream_processor | EditStreamProcessor stream_processor | DeleteStreamProcessor string
  | AddDataModel string DataModelVersion string | EditDataModel string DataModelVersion string | DeleteDataModel string
  | AddDataContract data_contract

fun edit_of :: "(string \<Rightarrow> string) \<Rightarrow> config_op \<Rightarrow> edit" where
  "edit_of gen (SetLocation l) = edit_SetLocation l"
| "edit_of gen (AddDataflow d) = edit_AddDataflow d"
| "edit_of gen (DeleteDataflow u) = edit_DeleteDataflow gen u"
| "edit_of gen (EditDataflow u d) = edit_EditDataflow gen u d"
| "edit_of gen (SetHistorian h) = edit_SetHistorian h"
| "edit_of gen (EditHistorian h) = edit_EditHistorian h"
| "edit_of gen DeleteHistorian = edit_DeleteHistorian"
| "edit_of gen (AddProtocolConverter p) = edit_AddProtocolConverter p"
| "edit_of gen (EditProtocolConverter u p) = edit_EditProtocolConverter gen u p"
| "edit_of gen (DeleteProtocolConverter u) = edit_DeleteProtocolConverter gen u"
| "edit_of gen (AddStreamProcessor p) = edit_AddStreamProcessor p"
| "edit_of gen (EditStreamProcessor p) = edit_EditStreamProcessor p"
| "edit_of gen (DeleteStreamProcessor n) = edit_DeleteStreamProcessor n"
| "edit_of gen (AddDataModel n v d) = edit_AddDataModel n v d"
| "edit_of gen (EditDataModel n v d) = edit_EditDataModel n v d"
| "edit_of gen (DeleteDataModel n) = edit_DeleteDataModel n"
| "edit_of gen (AddDataContract d) = edit_AddDataContract d"

section \<open>Lists of named things\<close>

lemma index_of_None: "index_of P xs = None \<longleftrightarrow> (\<forall>x \<in> set xs. \<not> P x)"
  by (induction xs) auto

lemma index_of_Some: "index_of P xs = Some i \<Longrightarrow> i < length xs \<and> P (xs ! i)"
  by (induction xs arbitrary: i) (auto split: if_splits)

lemma drop_index_simps [simp]:
  "drop_index i [] = []"
  "drop_index 0 (x # xs) = xs"
  "drop_index (Suc i) (x # xs) = x # drop_index i xs"
  by (simp_all add: drop_index_def)

lemma drop_index_subset: "set (drop_index i xs) \<subseteq> set xs"
  by (auto simp: drop_index_def dest: in_set_takeD in_set_dropD)

lemma drop_index_others: "j < length xs \<Longrightarrow> j \<noteq> i \<Longrightarrow> xs ! j \<in> set (drop_index i xs)"
proof (induction xs arbitrary: i j)
  case (Cons x xs)
  then show ?case by (cases i; cases j) auto
qed simp

lemma drop_index_member: "x \<in> set (drop_index i xs) \<longleftrightarrow> (\<exists>j < length xs. j \<noteq> i \<and> xs ! j = x)"
proof (induction xs arbitrary: i)
  case (Cons y xs)
  show ?case
  proof (cases i)
    case 0
    then show ?thesis by (auto simp: in_set_conv_nth less_Suc_eq_0_disj)
  next
    case (Suc k)
    have "(\<exists>j < length (y # xs). j \<noteq> Suc k \<and> (y # xs) ! j = x) \<longleftrightarrow> y = x \<or> (\<exists>j < length xs. j \<noteq> k \<and> xs ! j = x)"
      by (auto simp: less_Suc_eq_0_disj)
    then show ?thesis using Cons.IH [of k] by (simp add: Suc) metis
  qed
qed simp

lemma distinct_drop_index: "distinct (map f xs) \<Longrightarrow> distinct (map f (drop_index i xs))"
proof (induction xs arbitrary: i)
  case (Cons x xs)
  then show ?case using drop_index_subset [of _ xs] by (cases i) fastforce+
qed simp

lemma distinct_update:
  assumes "distinct (map f xs)" "i < length xs" "\<And>j. j < length xs \<Longrightarrow> j \<noteq> i \<Longrightarrow> f (xs ! j) \<noteq> f y"
  shows "distinct (map f (xs[i := y]))"
  using assms(1,2) assms(3) [symmetric] by (auto simp: distinct_conv_nth nth_list_update assms(3))

lemma distinct_snoc: "distinct (map f xs) \<Longrightarrow> \<not> list_ex (\<lambda>x. f x = f y) xs \<Longrightarrow> distinct (map f (xs @ [y]))"
  by (auto simp: list_ex_iff)

definition names_ok :: "full_config \<Rightarrow> bool" where
  "names_ok c \<longleftrightarrow> distinct (map df_Name (fc_DataFlow c)) \<and> distinct (map ti_Name (fc_ProtocolConverter c))
     \<and> distinct (map ti_Name (fc_StreamProcessor c)) \<and> distinct (map cdm_Name (fc_DataModels c)) \<and> distinct (map dct_Name (fc_DataContracts c))"


lemma map_name_relocate [simp]: "map ti_Name (map (relocate m) pcs) = map ti_Name pcs"
  by (simp add: relocate_def)

lemma name_follow [simp]: "ti_Name (follow_rename a b pc) = ti_Name pc"
  by (simp add: follow_rename_def)

text \<open>An edit by UUID finds the component whose name has that UUID.\<close>

lemma edit_dataflow_names:
  assumes "inj gen" "distinct (map df_Name ds)" "\<not> list_ex (\<lambda>cmp. df_Name cmp = df_Name d \<and> gen (df_Name cmp) \<noteq> u) ds"
    and "index_of (\<lambda>cmp. gen (df_Name cmp) = u) ds = Some i"
  shows "distinct (map df_Name (ds[i := d]))"
proof (rule distinct_update)
  note i = index_of_Some [OF assms(4)]
  show "distinct (map df_Name ds)" "i < length ds" using assms(2) i by auto
  fix j assume j: "j < length ds" "j \<noteq> i"
  then have "df_Name (ds ! j) \<noteq> df_Name (ds ! i)" using assms(2) i nth_eq_iff_index_eq [OF assms(2), of j i] by simp
  then have "gen (df_Name (ds ! j)) \<noteq> u" using i assms(1) by (auto simp: inj_eq)
  then show "df_Name (ds ! j) \<noteq> df_Name d" using assms(3) j(1) by (auto simp: list_ex_iff)
qed

lemma edit_templated_names:
  assumes "distinct (map ti_Name pcs)" "i < length pcs" "\<not> list_ex (\<lambda>cmp. ti_Name cmp = ti_Name pc) (drop_index i pcs)"
  shows "distinct (map ti_Name (pcs[i := pc]))"
  using assms drop_index_others [of _ pcs i] by (intro distinct_update) (auto simp: list_ex_iff)

lemmas edit_defs = edit_SetLocation_def edit_AddDataflow_def edit_DeleteDataflow_def edit_EditDataflow_def
  edit_SetHistorian_def edit_EditHistorian_def edit_DeleteHistorian_def edit_AddProtocolConverter_def
  edit_EditProtocolConverter_def edit_DeleteProtocolConverter_def edit_AddStreamProcessor_def
  edit_EditStreamProcessor_def edit_DeleteStreamProcessor_def edit_AddDataModel_def edit_EditDataModel_def
  edit_DeleteDataModel_def edit_AddDataContract_def

lemmas edit_cases = edit_defs write_back_def Let_def

lemma list_ex_name: "list_ex (\<lambda>x. f x = k) xs \<longleftrightarrow> k \<in> set (map f xs)"
  by (auto simp: list_ex_iff)

lemma same_name_update: "i < length xs \<Longrightarrow> f y = f (xs ! i) \<Longrightarrow> map f (xs[i := y]) = map f xs"
  by (metis length_map list_update_id map_update nth_map)

lemma filter_names: "distinct (map f xs) \<Longrightarrow> distinct (map f (filter P xs))"
  by (induction xs) auto

lemma names_DataFlow:
  "inj gen \<Longrightarrow> distinct (map df_Name (fc_DataFlow c)) \<Longrightarrow> edit_of gen op c = Inr (Some c', r) \<Longrightarrow> distinct (map df_Name (fc_DataFlow c'))"
  by (cases op) (auto simp: edit_cases filter_names list_ex_name simp del: set_map intro!: edit_dataflow_names split: if_splits option.splits)

lemma names_edit_converter:
  assumes "distinct (map ti_Name pcs)" "i < length pcs" "\<not> list_ex (\<lambda>cmp. ti_Name cmp = ti_Name pc) (drop_index i pcs)"
  shows "distinct (map ti_Name ((map (follow_rename a b) pcs)[i := pc]))"
proof -
  have m: "map ti_Name ((map (follow_rename a b) pcs)[i := pc]) = map ti_Name (pcs[i := pc])" by (simp add: map_update o_def)
  show ?thesis unfolding m by (rule edit_templated_names [OF assms])
qed

lemma names_ProtocolConverter:
  assumes "distinct (map ti_Name (fc_ProtocolConverter c))" "edit_of gen op c = Inr (Some c', r)"
  shows "distinct (map ti_Name (fc_ProtocolConverter c'))"
proof (cases op)
  case (EditProtocolConverter u pc)
  then show ?thesis using assms
    by (auto simp: edit_cases dest!: index_of_Some intro!: edit_templated_names names_edit_converter split: if_splits option.splits)
qed (use assms in \<open>auto simp: edit_cases distinct_drop_index list_ex_name relocate_def o_def simp del: set_map split: if_splits option.splits\<close>)

lemma names_StreamProcessor:
  assumes "distinct (map ti_Name (fc_StreamProcessor c))" "edit_of gen op c = Inr (Some c', r)"
  shows "distinct (map ti_Name (fc_StreamProcessor c'))"
proof (cases op)
  case (EditStreamProcessor sp)
  then obtain i where "index_of (\<lambda>cmp. ti_Name cmp = ti_Name sp) (fc_StreamProcessor c) = Some i" "fc_StreamProcessor c' = (fc_StreamProcessor c)[i := sp]"
    using assms(2) by (auto simp: edit_cases split: if_splits option.splits)
  then show ?thesis using assms(1) index_of_Some [of "\<lambda>cmp. ti_Name cmp = ti_Name sp" "fc_StreamProcessor c" i] by (simp only: same_name_update)
qed (use assms in \<open>auto simp: edit_cases distinct_drop_index list_ex_name relocate_def o_def simp del: set_map split: if_splits option.splits\<close>)

lemma names_DataModels:
  assumes "distinct (map cdm_Name (fc_DataModels c))" "edit_of gen op c = Inr (Some c', r)"
  shows "distinct (map cdm_Name (fc_DataModels c'))"
proof (cases op)
  case (EditDataModel n v d)
  then obtain i dm where "index_of (\<lambda>dm. cdm_Name dm = n) (fc_DataModels c) = Some i" "fc_DataModels c' = (fc_DataModels c)[i := dm]"
    "cdm_Name dm = cdm_Name (fc_DataModels c ! i)"
    using assms(2) by (auto simp: edit_cases split: if_splits option.splits)
  then show ?thesis using assms(1) index_of_Some [of "\<lambda>dm. cdm_Name dm = n" "fc_DataModels c" i] by (simp only: same_name_update)
qed (use assms in \<open>auto simp: edit_cases distinct_drop_index list_ex_name simp del: set_map split: if_splits option.splits\<close>)

lemma names_DataContracts:
  "distinct (map dct_Name (fc_DataContracts c)) \<Longrightarrow> edit_of gen op c = Inr (Some c', r) \<Longrightarrow> distinct (map dct_Name (fc_DataContracts c'))"
  by (cases op) (auto simp: edit_cases list_ex_name simp del: set_map split: if_splits option.splits)


section \<open>Versions\<close>

lemma is_digit_char [simp]: "d < 10 \<Longrightarrow> is_digit (digit_char d)"
  by (simp add: is_digit_def digit_char_def)

lemma dec_value_snoc: "dec_value (s @ [ch]) = dec_value s * 10 + byte_digit ch"
  by (simp add: dec_value_def)

lemma itoa_value: "dec_value (itoa n) = int n \<and> list_all is_digit (itoa n)"
proof (induction n rule: itoa.induct)
  case (1 n)
  show ?case
  proof (cases "n < 10")
    case True
    then show ?thesis by (simp add: itoa.simps [of n] dec_value_def)
  next
    case False
    then have "dec_value (itoa (n div 10)) = int (n div 10) \<and> list_all is_digit (itoa (n div 10))" using 1 by simp
    then show ?thesis using False by (simp add: itoa.simps [of n] dec_value_snoc) presburger
  qed
qed

lemma itoa_hd: "hd (itoa n) \<noteq> CHR ''-'' \<and> hd (itoa n) \<noteq> CHR ''+''"
proof -
  have "is_digit (hd (itoa n))" using itoa_value [of n] by (cases "itoa n") auto
  then show ?thesis by (auto simp: is_digit_def)
qed

lemma Atoi_FormatInt: "0 \<le> n \<Longrightarrow> n \<le> max_int64 \<Longrightarrow> Atoi (FormatInt n) = Some n"
  using itoa_value [of "nat n"] itoa_hd [of "nat n"] by (simp add: Atoi_def FormatInt_def Let_def max_int64_def)

lemma fold_max: "(m :: int) \<le> fold max xs m" "x \<in> set xs \<Longrightarrow> x \<le> fold max xs m"
  using Max.set_eq_fold [of m xs] by (simp_all flip: Max.set_eq_fold)

lemma max_version_ge: "k |\<in>| fmdom vs \<Longrightarrow> version_number k \<le> max_version vs"
  unfolding max_version_def by (rule fold_max(2)) simp

lemma max_version_nonneg: "0 \<le> max_version vs"
  unfolding max_version_def by (rule fold_max(1))

lemma next_version_number:
  assumes "max_version vs < max_int64"
  shows "version_number (next_version vs) = max_version vs + 1"
proof -
  have "wrap_int64 (max_version vs + 1) = max_version vs + 1"
    using assms max_version_nonneg [of vs] by (simp add: wrap_int64_def max_int64_def)
  then show ?thesis using assms max_version_nonneg [of vs] Atoi_FormatInt [of "max_version vs + 1"]
    by (simp add: version_number_def next_version_def)
qed

lemma next_version_fresh: "max_version vs < max_int64 \<Longrightarrow> fmlookup vs (next_version vs) = None"
  using max_version_ge [of "next_version vs" vs] next_version_number [of vs] by (cases "fmlookup vs (next_version vs)") (auto simp: fmlookup_dom_iff)


section \<open>Properties\<close>

text \<open>
  C22: no operation gives two components of one kind the same name, whichever component it adds,
  edits, renames or removes; the edit of a data flow component by UUID relies on different names
  having different UUIDs.
\<close>

theorem edits_keep_names:
  assumes "inj gen" "names_ok c" "edit_of gen op c = Inr (Some c', r)"
  shows "names_ok c'"
  using assms names_DataFlow [OF assms(1) _ assms(3)] names_ProtocolConverter [OF _ assms(3)] names_StreamProcessor [OF _ assms(3)]
    names_DataModels [OF _ assms(3)] names_DataContracts [OF _ assms(3)]
  by (simp add: names_ok_def)

definition by_name :: "data_flow list \<Rightarrow> string \<Rightarrow> data_flow option" where
  "by_name ds = map_of (map (\<lambda>d. (df_Name d, d)) ds)"

lemma by_name_member: "distinct (map df_Name ds) \<Longrightarrow> by_name ds n = Some d \<longleftrightarrow> d \<in> set ds \<and> df_Name d = n"
  unfolding by_name_def by (subst map_of_eq_Some_iff) (auto simp: o_def)

lemma by_name_None: "by_name ds n = None \<longleftrightarrow> n \<notin> set (map df_Name ds)"
  by (simp add: by_name_def map_of_eq_None_iff image_image)

text \<open>The data flow section as a map from names to components.\<close>

fun dataflow_spec :: "(string \<Rightarrow> string) \<Rightarrow> config_op \<Rightarrow> (string \<Rightarrow> data_flow option) \<Rightarrow> (string \<Rightarrow> data_flow option) \<Rightarrow> bool" where
  "dataflow_spec gen (AddDataflow d) m m' \<longleftrightarrow> m (df_Name d) = None \<and> m' = m(df_Name d \<mapsto> d)"
| "dataflow_spec gen (DeleteDataflow u) m m' \<longleftrightarrow> (\<exists>n. gen n = u \<and> m n \<noteq> None \<and> m' = m(n := None))"
| "dataflow_spec gen (EditDataflow u d) m m' \<longleftrightarrow> (\<exists>n old. gen n = u \<and> m n = Some old \<and> \<not> df_hasAnchors old
     \<and> (df_Name d = n \<or> m (df_Name d) = None) \<and> m' = (m(n := None))(df_Name d \<mapsto> d))"
| "dataflow_spec gen op m m' \<longleftrightarrow> m' = m"

lemma map_eqI: "(\<And>k x. f k = Some x \<longleftrightarrow> g k = Some x) \<Longrightarrow> f = g"
  by (intro ext) (metis not_Some_eq option.inject)

lemma by_name_add: "distinct (map df_Name ds) \<Longrightarrow> df_Name d \<notin> set (map df_Name ds) \<Longrightarrow> by_name (ds @ [d]) = (by_name ds)(df_Name d \<mapsto> d)"
  by (rule map_eqI) (auto simp: by_name_member by_name_None image_iff)

lemma by_name_delete:
  assumes "inj gen" "distinct (map df_Name ds)"
  shows "by_name (filter (\<lambda>d. gen (df_Name d) \<noteq> gen n) ds) = (by_name ds)(n := None)"
  by (rule map_eqI) (use assms in \<open>auto simp: by_name_member filter_names inj_eq\<close>)

lemma by_name_edit:
  assumes "distinct (map df_Name ds)" "distinct (map df_Name (ds[i := d]))" "i < length ds"
  shows "by_name (ds[i := d]) = ((by_name ds)(df_Name (ds ! i) := None))(df_Name d \<mapsto> d)"
proof (rule map_eqI)
  fix k x
  have others: "j < length ds \<Longrightarrow> j \<noteq> i \<Longrightarrow> df_Name (ds ! j) \<noteq> df_Name (ds ! i) \<and> df_Name (ds ! j) \<noteq> df_Name d" for j
    using assms nth_eq_iff_index_eq [OF assms(1), of j i] nth_eq_iff_index_eq [OF assms(2), of j i] by simp
  have rest: "x \<in> set ds \<and> df_Name x \<noteq> df_Name (ds ! i) \<longleftrightarrow> (\<exists>j < length ds. j \<noteq> i \<and> ds ! j = x)"
    using others by (auto simp: in_set_conv_nth)
  then have "x \<in> set (ds[i := d]) \<longleftrightarrow> x = d \<or> x \<in> set ds \<and> df_Name x \<noteq> df_Name (ds ! i)"
    using assms(3) unfolding rest by (auto simp: in_set_conv_nth nth_list_update)
  moreover have "x \<in> set ds \<and> df_Name x \<noteq> df_Name (ds ! i) \<Longrightarrow> df_Name x \<noteq> df_Name d" using rest others by auto
  ultimately show "by_name (ds[i := d]) k = Some x \<longleftrightarrow> (((by_name ds)(df_Name (ds ! i) := None))(df_Name d \<mapsto> d)) k = Some x"
    unfolding fun_upd_apply using by_name_member [OF assms(2), of k x] by_name_member [OF assms(1), of k x] by auto
qed

text \<open>
  C29: seen as a map from names to components, the data flow section is changed as the operations
  promise: an addition binds a free name, a deletion unbinds the name with the UUID, an edit
  replaces the component with the UUID, under its old or a free name and only if it was not written
  with YAML anchors, and the other operations leave the section alone. When an operation on the
  section fails, the map does not allow it.
\<close>

theorem dataflow_refines_map:
  assumes "inj gen" "names_ok c"
  shows "case edit_of gen op c of
      Inr (Some c', r) \<Rightarrow> dataflow_spec gen op (by_name (fc_DataFlow c)) (by_name (fc_DataFlow c'))
    | Inr (None, r) \<Rightarrow> dataflow_spec gen op (by_name (fc_DataFlow c)) (by_name (fc_DataFlow c))
    | Inl e \<Rightarrow> (\<forall>d u. op = AddDataflow d \<or> op = DeleteDataflow u \<or> op = EditDataflow u d \<longrightarrow> \<not> (\<exists>m'. dataflow_spec gen op (by_name (fc_DataFlow c)) m'))"
proof (cases op)
  case (AddDataflow d)
  then show ?thesis using assms by (simp add: edit_cases list_ex_name by_name_None by_name_add names_ok_def del: set_map)
next
  case (DeleteDataflow u)
  show ?thesis
  proof (cases "list_ex (\<lambda>cmp. gen (df_Name cmp) = u) (fc_DataFlow c)")
    case True
    then obtain d where "d \<in> set (fc_DataFlow c)" "u = gen (df_Name d)" by (auto simp: list_ex_iff)
    then show ?thesis using assms True by (auto simp: DeleteDataflow edit_cases by_name_delete by_name_None names_ok_def intro!: exI [of _ "df_Name d"])
  next
    case False
    then show ?thesis using assms by (auto simp: DeleteDataflow edit_cases by_name_member names_ok_def list_ex_iff)
  qed
next
  case (EditDataflow u d)
  let ?ds = "fc_DataFlow c"
  have dist: "distinct (map df_Name ?ds)" using assms(2) by (simp add: names_ok_def)
  show ?thesis
  proof (cases "list_ex (\<lambda>cmp. df_Name cmp = df_Name d \<and> gen (df_Name cmp) \<noteq> u) ?ds")
    case True
    then obtain x where "x \<in> set ?ds" "df_Name x = df_Name d" "gen (df_Name x) \<noteq> u" by (auto simp: list_ex_iff)
    then have "by_name ?ds (df_Name d) = Some x" "gen (df_Name d) \<noteq> u" using dist by (auto simp: by_name_member)
    then show ?thesis using True by (auto simp: EditDataflow edit_cases)
  next
    case free: False
    show ?thesis
    proof (cases "index_of (\<lambda>cmp. gen (df_Name cmp) = u) ?ds")
      case None
      then have "\<forall>x \<in> set ?ds. gen (df_Name x) \<noteq> u" by (simp add: index_of_None)
      then show ?thesis using free dist None by (auto simp: EditDataflow edit_cases by_name_member)
    next
      case (Some i)
      note i = index_of_Some [OF Some]
      have old: "by_name ?ds (df_Name (?ds ! i)) = Some (?ds ! i)" using i dist by (simp add: by_name_member)
      have who: "gen n = u \<Longrightarrow> n = df_Name (?ds ! i)" for n using i injD [OF assms(1), of n "df_Name (?ds ! i)"] by metis
      have ok: "df_Name d = df_Name (?ds ! i) \<or> by_name ?ds (df_Name d) = None"
        using free who by (auto simp: by_name_None list_ex_iff)
      have spec: "dataflow_spec gen op (by_name ?ds) m' \<longleftrightarrow> \<not> df_hasAnchors (?ds ! i) \<and> m' = by_name (?ds[i := d])" for m'
        unfolding EditDataflow dataflow_spec.simps using by_name_edit [OF dist edit_dataflow_names [OF assms(1) dist free Some]] i old ok who
        by (metis option.inject)
      show ?thesis using free Some unfolding spec by (simp add: EditDataflow edit_cases)
    qed
  qed
qed (auto simp: edit_cases split: option.splits)


text \<open>
  Versions of data models are append-only. Whatever operation other than the deletion of a data
  model succeeds, every version of every data model is still there under its key and unchanged, as
  long as the version numbers have not reached the largest 64-bit integer.
\<close>

theorem versions_append_only:
  assumes "edit_of gen op c = Inr (Some c', r)" "\<forall>n. op \<noteq> DeleteDataModel n"
    and "dm \<in> set (fc_DataModels c)" "cdm_Versions dm = Some vs" "max_version vs < max_int64" "fmlookup vs k = Some v"
  shows "\<exists>dm' \<in> set (fc_DataModels c'). cdm_Name dm' = cdm_Name dm \<and> (\<exists>vs'. cdm_Versions dm' = Some vs' \<and> fmlookup vs' k = Some v)"
proof (cases "\<exists>n w d. op = EditDataModel n w d")
  case False
  then have "set (fc_DataModels c) \<subseteq> set (fc_DataModels c')"
    using assms(1,2) by (cases op) (auto simp: edit_cases split: if_splits option.splits)
  then show ?thesis using assms(3-6) by auto
next
  case True
  then obtain n w d where op: "op = EditDataModel n w d" by blast
  let ?dms = "fc_DataModels c"
  obtain i us where i: "index_of (\<lambda>x. cdm_Name x = n) ?dms = Some i" "cdm_Versions (?dms ! i) = Some us"
    "fc_DataModels c' = ?dms[i := (?dms ! i)\<lparr>cdm_Versions := Some (fmupd (next_version us) w us), cdm_Description := d\<rparr>]"
    using assms(1) by (auto simp: op edit_cases split: option.splits)
  note il = index_of_Some [OF i(1)]
  obtain j where j: "j < length ?dms" "?dms ! j = dm" using assms(3) by (auto simp: in_set_conv_nth)
  show ?thesis
  proof (cases "j = i")
    case True
    then have "us = vs" using i(2) j assms(4) by simp
    moreover have "k \<noteq> next_version vs" using next_version_fresh [OF assms(5)] assms(6) by auto
    moreover have "fc_DataModels c' ! i = (?dms ! i)\<lparr>cdm_Versions := Some (fmupd (next_version us) w us), cdm_Description := d\<rparr>" "i < length (fc_DataModels c')"
      using i(3) il by simp_all
    ultimately show ?thesis using True j assms(6) nth_mem [of i "fc_DataModels c'"]
      by (intro bexI [of _ "fc_DataModels c' ! i"]) simp_all
  next
    case False
    then have "fc_DataModels c' ! j = dm" using i(3) j by simp
    moreover have "j < length (fc_DataModels c')" using i(3) j by simp
    ultimately have "dm \<in> set (fc_DataModels c')" by (metis nth_mem)
    then show ?thesis using assms(4,6) by (intro bexI [of _ dm]) simp_all
  qed
qed

text \<open>Every templated component has its root.\<close>

definition resolved :: "'t templated list \<Rightarrow> bool" where
  "resolved pcs \<longleftrightarrow> (\<forall>pc \<in> set pcs. ti_TemplateRef pc \<noteq> [] \<longrightarrow> (\<exists>e \<in> set pcs. is_root e \<and> ti_Name e = ti_TemplateRef pc))"


lemma resolved_add: "resolved pcs \<Longrightarrow> \<not> child_without_root pc pcs \<Longrightarrow> resolved (pcs @ [pc])"
  by (fastforce simp: resolved_def child_without_root_def is_root_def list_ex_iff)

lemma resolved_relocate: "resolved pcs \<Longrightarrow> resolved (map (relocate m) pcs)"
  by (auto simp: resolved_def relocate_def is_root_def)

lemma resolved_drop:
  assumes "resolved pcs" "\<And>x. is_root (pcs ! i) \<Longrightarrow> x \<in> set (drop_index i pcs) \<Longrightarrow> ti_TemplateRef x \<noteq> ti_Name (pcs ! i)"
  shows "resolved (drop_index i pcs)"
  unfolding resolved_def
proof (intro ballI impI)
  fix pc assume pc: "pc \<in> set (drop_index i pcs)" "ti_TemplateRef pc \<noteq> []"
  then obtain e where e: "e \<in> set pcs" "is_root e" "ti_Name e = ti_TemplateRef pc"
    using assms(1) drop_index_subset [of i pcs] unfolding resolved_def by blast
  then obtain j where j: "j < length pcs" "pcs ! j = e" by (auto simp: in_set_conv_nth)
  have "j \<noteq> i" using assms(2) [OF _ pc(1)] e j by auto
  then show "\<exists>e \<in> set (drop_index i pcs). is_root e \<and> ti_Name e = ti_TemplateRef pc" using drop_index_others [OF j(1)] j e by auto
qed

lemma follow_rename_same [simp]: "follow_rename a a = id"
  by (rule ext) (simp add: follow_rename_def)

lemma resolved_rename:
  assumes "resolved pcs" "i < length pcs" "is_root (pcs ! i)" "is_root pc"
  shows "resolved ((map (follow_rename (ti_Name (pcs ! i)) (ti_Name pc)) pcs)[i := pc])"
  unfolding resolved_def
proof (intro ballI impI)
  let ?f = "follow_rename (ti_Name (pcs ! i)) (ti_Name pc)" and ?new = "(map (follow_rename (ti_Name (pcs ! i)) (ti_Name pc)) pcs)[i := pc]"
  have new: "pc \<in> set ?new" using assms(2) by (simp add: set_update_memI)
  have others: "k < length pcs \<Longrightarrow> k \<noteq> i \<Longrightarrow> ?f (pcs ! k) \<in> set ?new" for k
    using nth_mem [of k ?new] by simp
  fix x assume x: "x \<in> set ?new" "ti_TemplateRef x \<noteq> []"
  then obtain j where j: "j < length pcs" "?new ! j = x" by (auto simp: in_set_conv_nth)
  show "\<exists>e \<in> set ?new. is_root e \<and> ti_Name e = ti_TemplateRef x"
  proof (cases "j = i \<or> ti_TemplateRef (pcs ! j) = ti_Name (pcs ! i)")
    case True
    then have "ti_TemplateRef x = ti_Name pc" using j assms(2,4) by (auto simp: follow_rename_def is_root_def nth_list_update split: if_splits)
    then show ?thesis using new assms(4) by auto
  next
    case False
    then have xj: "x = pcs ! j" using j by (simp add: follow_rename_def)
    then obtain k where k: "k < length pcs" "is_root (pcs ! k)" "ti_Name (pcs ! k) = ti_TemplateRef x"
      using assms(1) j x(2) by (metis in_set_conv_nth resolved_def)
    then have "k \<noteq> i" "?f (pcs ! k) = pcs ! k" using False xj by (auto simp: follow_rename_def is_root_def)
    then show ?thesis using others [of k] k by metis
  qed
qed

lemma resolved_standalone:
  assumes "resolved pcs" "i < length pcs" "\<not> is_root (pcs ! i)" "ti_TemplateRef pc = []"
  shows "resolved (pcs[i := pc])"
  unfolding resolved_def
proof (intro ballI impI)
  fix x assume x: "x \<in> set (pcs[i := pc])" "ti_TemplateRef x \<noteq> []"
  then have "x \<in> set pcs" using assms(4) set_update_subset_insert [of pcs i pc] by auto
  then obtain k where k: "k < length pcs" "is_root (pcs ! k)" "ti_Name (pcs ! k) = ti_TemplateRef x"
    using assms(1) x(2) by (metis in_set_conv_nth resolved_def)
  then have "pcs ! k \<in> set (pcs[i := pc])" using assms(3) nth_mem [of k "pcs[i := pc]"] by (cases "k = i") auto
  then show "\<exists>e \<in> set (pcs[i := pc]). is_root e \<and> ti_Name e = ti_TemplateRef x" using k by auto
qed

text \<open>
  C28: no operation leaves a templated component without its template. Adding refuses a child without
  root, deleting refuses a root with children, renaming a root takes its children along; only an
  edit that turns a root into something else, or a stream processor into a child, is not checked.
\<close>

theorem edits_keep_templates:
  assumes "names_ok c" "edit_of gen op c = Inr (Some c', r)" "resolved (fc_ProtocolConverter c)" "resolved (fc_StreamProcessor c)"
    and "\<forall>u pc x. op = EditProtocolConverter u pc \<and> x \<in> set (fc_ProtocolConverter c) \<and> gen (ti_Name x) = u \<and> is_root x \<longrightarrow> is_root pc"
    and "\<forall>sp. op \<noteq> EditStreamProcessor sp"
  shows "resolved (fc_ProtocolConverter c') \<and> resolved (fc_StreamProcessor c')"
proof (cases op)
  case (EditProtocolConverter u pc)
  let ?pcs = "fc_ProtocolConverter c"
  obtain i where i: "index_of (\<lambda>cmp. gen (ti_Name cmp) = u) ?pcs = Some i" using assms(2)
    by (auto simp: EditProtocolConverter edit_cases split: option.splits)
  note il = index_of_Some [OF i]
  have sp: "fc_StreamProcessor c' = fc_StreamProcessor c"
    using assms(2) by (auto simp: EditProtocolConverter edit_cases split: option.splits if_splits)
  show ?thesis
  proof (cases "is_root (?pcs ! i)")
    case True
    then have root: "is_root pc" using assms(5) il by (auto simp: EditProtocolConverter)
    have "fc_ProtocolConverter c' = (map (follow_rename (ti_Name (?pcs ! i)) (ti_Name pc)) ?pcs)[i := pc]"
      using assms(2) i True root by (auto simp: EditProtocolConverter edit_cases split: if_splits)
    then show ?thesis using resolved_rename [OF assms(3) _ True root] il sp assms(4) by simp
  next
    case False
    then have "fc_ProtocolConverter c' = ?pcs[i := pc] \<and> ti_TemplateRef pc = []"
      using assms(2) i by (auto simp: EditProtocolConverter edit_cases split: if_splits)
    then show ?thesis using resolved_standalone [OF assms(3) _ False] il sp assms(4) by simp
  qed
next
  case (DeleteProtocolConverter u)
  then show ?thesis using assms(2-4)
    by (auto simp: edit_cases filter_empty_conv intro!: resolved_drop split: option.splits if_splits)
next
  case (DeleteStreamProcessor n)
  let ?sps = "fc_StreamProcessor c"
  obtain i where i: "index_of (\<lambda>cmp. ti_Name cmp = n) ?sps = Some i" using assms(2)
    by (auto simp: DeleteStreamProcessor edit_cases split: option.splits)
  note il = index_of_Some [OF i]
  have nochild: "fc_StreamProcessor c' = drop_index i ?sps" "fc_ProtocolConverter c' = fc_ProtocolConverter c"
    "is_root (?sps ! i) \<Longrightarrow> x \<in> set ?sps \<Longrightarrow> ti_Name x \<noteq> n \<Longrightarrow> ti_TemplateRef x \<noteq> n" for x
    using assms(2) i by (auto simp: DeleteStreamProcessor edit_cases find_None_iff is_root_def split: option.splits if_splits)
  have "ti_Name x \<noteq> n" if x: "x \<in> set (drop_index i ?sps)" for x
  proof -
    obtain j where "j < length ?sps" "j \<noteq> i" "?sps ! j = x" using x by (auto simp: drop_index_member)
    then show ?thesis using assms(1) il nth_eq_iff_index_eq [of "map ti_Name ?sps" j i] by (auto simp: names_ok_def)
  qed
  then have "resolved (drop_index i ?sps)" using nochild(3) il drop_index_subset [of i ?sps] by (intro resolved_drop assms(4)) auto
  then show ?thesis using nochild assms(3) by simp
qed (use assms(2-6) in \<open>auto simp: edit_cases resolved_add resolved_relocate split: if_splits option.splits\<close>)


section \<open>Witnesses\<close>

definition demo_flow :: "string \<Rightarrow> data_flow" where
  "demo_flow n = \<lparr>df_Name = n, df_DesiredFSMState = ''active'', df_ServiceConfig = VNil, df_DebugLevel = False, df_hasAnchors = False\<rparr>"

definition demo_config :: full_config where
  "demo_config = zero_config\<lparr>fc_DataFlow := [demo_flow ''x'', demo_flow ''y''],
     fc_ProtocolConverter := [demo_component ''a'' ''a'' zero_pc_template, demo_component ''b'' ''a'' zero_pc_template],
     fc_DataModels := [\<lparr>cdm_Name = ''pump'', cdm_Description = [], cdm_Versions = Some (fmupd ''v1'' \<lparr>Structure = []\<rparr> fmempty)\<rparr>]\<rparr>"

lemmas demo_config_simps = demo_config_def zero_config_def demo_flow_def demo_component_def

lemma demo_names_ok: "names_ok demo_config"
  by (simp add: names_ok_def demo_config_simps)

theorem edits_keep_names_witness:
  "\<exists>c'. edit_of id (EditDataflow ''y'' (demo_flow ''z'')) demo_config = Inr (Some c', EDataFlow (demo_flow ''y'')) \<and> names_ok c'"
proof -
  have "edit_of id (EditDataflow ''y'' (demo_flow ''z'')) demo_config =
      Inr (Some (demo_config\<lparr>fc_DataFlow := [demo_flow ''x'', demo_flow ''z'']\<rparr>), EDataFlow (demo_flow ''y''))"
    by (simp add: edit_EditDataflow_def demo_config_simps)
  then show ?thesis using edits_keep_names [OF inj_on_id demo_names_ok] by blast
qed

theorem dataflow_refines_map_witness:
  "\<exists>c'. edit_of id (DeleteDataflow ''y'') demo_config = Inr (Some c', EDone) \<and> by_name (fc_DataFlow c') = (by_name (fc_DataFlow demo_config))(''y'' := None)"
proof -
  have "edit_of id (DeleteDataflow ''y'') demo_config = Inr (Some (demo_config\<lparr>fc_DataFlow := [demo_flow ''x''], fc_Alloc := True\<rparr>), EDone)"
    by (simp add: edit_DeleteDataflow_def write_back_def demo_config_simps)
  then show ?thesis using dataflow_refines_map [OF inj_on_id demo_names_ok, of "DeleteDataflow ''y''"] by simp
qed

theorem versions_append_only_witness:
  "\<exists>c'. edit_of id (EditDataModel ''pump'' \<lparr>Structure = []\<rparr> ''d'') demo_config = Inr (Some c', EDone)
    \<and> (\<exists>dm \<in> set (fc_DataModels c'). cdm_Name dm = ''pump'' \<and> (\<exists>vs. cdm_Versions dm = Some vs \<and> fmlookup vs ''v1'' = Some \<lparr>Structure = []\<rparr>))"
proof -
  let ?vs = "fmupd ''v1'' \<lparr>Structure = []\<rparr> fmempty" and ?dm = "\<lparr>cdm_Name = ''pump'', cdm_Description = [], cdm_Versions = Some (fmupd ''v1'' \<lparr>Structure = []\<rparr> fmempty)\<rparr>"
  obtain c' where c: "edit_of id (EditDataModel ''pump'' \<lparr>Structure = []\<rparr> ''d'') demo_config = Inr (Some c', EDone)"
    by (simp add: edit_EditDataModel_def write_back_def demo_config_simps)
  have "version_number ''v1'' = 1"
    by (simp add: version_number_def Atoi_def is_digit_def dec_value_def byte_digit_def max_int64_def)
  then have "max_version ?vs < max_int64" by (simp add: max_version_def max_int64_def sorted_list_of_fset.rep_eq)
  then show ?thesis using versions_append_only [OF c, of ?dm ?vs "''v1''" "\<lparr>Structure = []\<rparr>"] c by (simp add: demo_config_simps)
qed

theorem edits_keep_templates_witness:
  "\<exists>c'. edit_of id (EditProtocolConverter ''a'' (demo_component ''z'' ''z'' zero_pc_template)) demo_config = Inr (Some c', EConverter (demo_component ''a'' ''a'' zero_pc_template))
    \<and> resolved (fc_ProtocolConverter c')"
proof -
  let ?op = "EditProtocolConverter ''a'' (demo_component ''z'' ''z'' zero_pc_template)"
  obtain c' where c: "edit_of id ?op demo_config = Inr (Some c', EConverter (demo_component ''a'' ''a'' zero_pc_template))"
    by (simp add: edit_EditProtocolConverter_def drop_index_def is_root_def demo_config_simps)
  have "resolved (fc_ProtocolConverter demo_config)" "resolved (fc_StreamProcessor demo_config)"
    by (simp_all add: resolved_def is_root_def demo_config_simps)
  then show ?thesis using edits_keep_templates [OF demo_names_ok c] c by (simp add: is_root_def demo_component_def)
qed

end
