(* ===== verification/Config_Files.thy ===== *)
theory Config_Files
  imports File_System
begin

text \<open>
  The file service as the configuration manager uses it: the operations of \<^verbatim>\<open>File_System\<close> with
  \<^verbatim>\<open>Stat\<close>, and the contract the manager relies on for its one file.
\<close>

section \<open>Stat\<close>

text \<open>Of the file's information only the modification time is used; a nil information is \<^const>\<open>None\<close>.\<close>

record 's cfg_fsys = "'s fsys" +
  op_Stat :: "string \<Rightarrow> 's \<Rightarrow> (goerror + int option) \<times> 's"

definition fs_Stat :: "string \<Rightarrow> int option fsop" where
  "fs_Stat p =
     with_context check_failed (\<lambda>f s.
       case ft_cancel f of
         Some e \<Rightarrow> (Inl e, s)
       | None \<Rightarrow>
           (case (case ft_os f of Some e \<Rightarrow> Inl e | None \<Rightarrow> (case os_node (fv_tree s) p of None \<Rightarrow> Inl err_not_exist | Some n \<Rightarrow> Inr n)) of
              Inl e \<Rightarrow> (Inl (Errorf ''failed to get file info: '' e), s)
            | Inr n \<Rightarrow> (Inr (Some (fst (stat_node n))), s)))"

definition DefaultService :: "FileService cfg_fsys" where
  "DefaultService = fsys.extend DefaultFileService \<lparr>op_Stat = fs_Stat\<rparr>"

lemma DefaultService_simps [simp]:
  "op_PathExists DefaultService = PathExists" "op_FileExists DefaultService = FileExists" "op_ReadFile DefaultService = ReadFile"
  "op_ReadDir DefaultService = ReadDir" "op_EnsureDirectory DefaultService = EnsureDirectory" "op_WriteFile DefaultService = WriteFile"
  "op_Remove DefaultService = fs_Remove" "op_Stat DefaultService = fs_Stat"
  by (simp_all add: DefaultService_def DefaultFileService_def fsys.extend_def)

section \<open>Paths\<close>

definition DefaultConfigPath :: string where
  "DefaultConfigPath = ''/data/config.yaml''"

definition ConfigBackupDir :: string where
  "ConfigBackupDir = ''/data/config-backups''"

section \<open>The contract\<close>

text \<open>
  \<open>stored\<close> is the content and the modification time of the one file at \<open>path\<close>, \<open>lawful\<close> the invariant of
  the service, \<open>clock\<close> its time. Whatever goes wrong on the way, only a write to the path changes the
  file, with a time that was never used before; a successful read or stat tells the truth.
\<close>

locale config_files =
  fixes fs :: "'s cfg_fsys"
    and path :: string
    and stored :: "'s \<Rightarrow> (string \<times> int) option"
    and lawful :: "'s \<Rightarrow> bool"
    and clock :: "'s \<Rightarrow> int"
  assumes stamp: "lawful s \<Longrightarrow> stored s = Some (d, t) \<Longrightarrow> t \<le> clock s"
    and stat_law: "lawful s \<Longrightarrow> op_Stat fs path s = (ri, s') \<Longrightarrow> lawful s' \<and> stored s' = stored s \<and> clock s \<le> clock s'"
    and stat_true: "lawful s \<Longrightarrow> op_Stat fs path s = (Inr i, s') \<Longrightarrow> \<exists>d t. stored s = Some (d, t) \<and> i = Some t"
    and exists_law: "lawful s \<Longrightarrow> op_FileExists fs path s = (rb, s') \<Longrightarrow> lawful s' \<and> stored s' = stored s \<and> clock s \<le> clock s'"
    and read_law: "lawful s \<Longrightarrow> op_ReadFile fs p s = (rs, s') \<Longrightarrow> lawful s' \<and> stored s' = stored s \<and> clock s \<le> clock s'"
    and read_true: "lawful s \<Longrightarrow> op_ReadFile fs path s = (Inr d, s') \<Longrightarrow> \<exists>t. stored s = Some (d, t)"
    and dir_law: "lawful s \<Longrightarrow> op_ReadDir fs ConfigBackupDir s = (re, s') \<Longrightarrow> lawful s' \<and> stored s' = stored s \<and> clock s \<le> clock s'"
    and dir_plain: "lawful s \<Longrightarrow> op_ReadDir fs ConfigBackupDir s = (Inr es, s') \<Longrightarrow> e \<in> set es \<Longrightarrow> CHR ''/'' \<notin> set (fst e)"
    and ensure_law: "lawful s \<Longrightarrow> p = filepath_Dir path \<or> p = ConfigBackupDir \<Longrightarrow> op_EnsureDirectory fs p s = (ru, s')
        \<Longrightarrow> lawful s' \<and> stored s' = stored s \<and> clock s \<le> clock s'"
    and write_law: "lawful s \<Longrightarrow> op_WriteFile fs path d s = (ru, s')
        \<Longrightarrow> lawful s' \<and> clock s < clock s' \<and> (stored s' = stored s \<or> (\<exists>d'. stored s' = Some (d', clock s')))"
    and write_true: "lawful s \<Longrightarrow> op_WriteFile fs path d s = (Inr (), s') \<Longrightarrow> stored s' = Some (d, clock s')"
    and backup_law: "lawful s \<Longrightarrow> plain_name n \<Longrightarrow> op_WriteFile fs (filepath_Join ConfigBackupDir n) d s = (ru, s')
        \<Longrightarrow> lawful s' \<and> stored s' = stored s \<and> clock s \<le> clock s'"
    and remove_law: "lawful s \<Longrightarrow> plain_name n \<Longrightarrow> op_Remove fs (filepath_Join ConfigBackupDir n) s = (ru, s')
        \<Longrightarrow> lawful s' \<and> stored s' = stored s \<and> clock s \<le> clock s'"
begin

end

section \<open>The service keeps it\<close>

text \<open>No link touches the data directory, and the file is not a directory.\<close>

definition data_dir :: string where "data_dir = ''/data''"

definition unlinked :: "tree \<Rightarrow> bool" where
  "unlinked t \<longleftrightarrow> (\<forall>(l, n) \<in> set t. is_NLink n \<longrightarrow> \<not> below data_dir l \<and> \<not> below l data_dir)"

definition config_file :: "FileService \<Rightarrow> (string \<times> int) option" where
  "config_file s = (case map_of (fv_tree s) DefaultConfigPath of Some (NFile d t) \<Rightarrow> Some (d, t) | _ \<Rightarrow> None)"

definition plain_entries :: "(string \<times> bool) list \<Rightarrow> bool" where
  "plain_entries es \<longleftrightarrow> (\<forall>e \<in> set es. CHR ''/'' \<notin> set (fst e))"

definition plain_cache :: "(string \<times> int \<times> (string \<times> bool) list) list \<Rightarrow> bool" where
  "plain_cache c \<longleftrightarrow> (\<forall>x \<in> set c. plain_entries (snd (snd x)))"

definition plain_listings :: "FileService \<Rightarrow> bool" where
  "plain_listings s \<longleftrightarrow> plain_cache (fv_dirCache s)"

definition config_lawful :: "FileService \<Rightarrow> bool" where
  "config_lawful s \<longleftrightarrow> read_inv s \<and> unlinked (fv_tree s) \<and> map_of (fv_tree s) DefaultConfigPath \<noteq> Some NDir
     \<and> plain_listings s"

lemma unlinked_path: "unlinked t \<Longrightarrow> below data_dir p \<Longrightarrow> link_of t p = None"
  unfolding link_of_None
proof (intro allI impI notI)
  fix l tg assume a: "unlinked t" "below data_dir p" "(l, NLink tg) \<in> set t" "below l p"
  have "below l data_dir \<or> below data_dir l" by (rule below_linear [OF a(4,2)])
  then show False using bspec [OF a(1) [unfolded unlinked_def] a(3)] by simp
qed

lemma resolve_data: "unlinked t \<Longrightarrow> below data_dir p \<Longrightarrow> resolve t p = p"
  by (simp add: resolve_def unlinked_path)

lemma data_paths: "below data_dir DefaultConfigPath" "below data_dir ConfigBackupDir" "below data_dir data_dir"
  "filepath_Dir DefaultConfigPath = data_dir" "shouldCachePath DefaultConfigPath" "filepath_Clean DefaultConfigPath = DefaultConfigPath"
  by code_simp+


lemma backup_path:
  assumes "plain_name n"
  shows "filepath_Join ConfigBackupDir n = ConfigBackupDir @ ''/'' @ n" "below data_dir (filepath_Join ConfigBackupDir n)"
    "filepath_Join ConfigBackupDir n \<noteq> DefaultConfigPath"
proof -
  have "is_rooted ConfigBackupDir" "path_elems ConfigBackupDir \<noteq> []" "filepath_Clean ConfigBackupDir = ConfigBackupDir" by code_simp+
  then show j: "filepath_Join ConfigBackupDir n = ConfigBackupDir @ ''/'' @ n" using Join_plain [of ConfigBackupDir n] assms by simp
  show "below data_dir (filepath_Join ConfigBackupDir n)" "filepath_Join ConfigBackupDir n \<noteq> DefaultConfigPath"
    unfolding j by (simp_all add: below_def data_dir_def ConfigBackupDir_def DefaultConfigPath_def)
qed

subsection \<open>Time and listings\<close>

text \<open>An operation takes its time first; its body leaves the clock alone and caches plain listings only.\<close>

definition settles :: "FileService \<Rightarrow> FileService \<Rightarrow> bool" where
  "settles s s' \<longleftrightarrow> fv_now s' = fv_now s \<and> (plain_listings s \<longrightarrow> plain_listings s')"

lemma settles_refl [simp]: "settles s s" "settles s (s\<lparr>fv_pathCache := pc\<rparr>)" "settles s (s\<lparr>fv_fileCache := fc\<rparr>)" "settles s (s\<lparr>fv_tree := t\<rparr>)"
  by (simp_all add: settles_def plain_listings_def)

lemma settles_invalidate: "settles s (invalidatePathCache p (s\<lparr>fv_tree := t\<rparr>))" "settles s (invalidatePathCache p s)"
  by (auto simp: settles_def plain_listings_def plain_cache_def invalidatePathCache_def Let_def drop_key_def)

lemma op_settles:
  assumes "with_context wrap body s = (r, s')" "read_inv s" "\<And>f s1 s2 r. body f s1 = (r, s2) \<Longrightarrow> settles s1 s2"
  shows "fv_now s < fv_now s' \<and> (plain_listings s \<longrightarrow> plain_listings s')"
proof -
  obtain f s1 where f: "next_fate s = (f, s1)" by (cases "next_fate s")
  then have s1: "fv_now s < fv_now s1" "plain_listings s1 = plain_listings s"
    using assms(2) by (auto simp: next_fate_def read_inv_def plain_listings_def split: list.splits)
  have "settles s1 s'" using assms(1,3) f by (auto simp: with_context_def split: option.splits)
  then show ?thesis using s1 by (simp add: settles_def)
qed

lemma Stat_settles: "fs_Stat p s = (r, s') \<Longrightarrow> read_inv s \<Longrightarrow> fv_now s < fv_now s' \<and> (plain_listings s \<longrightarrow> plain_listings s')"
  unfolding fs_Stat_def by (erule (1) op_settles) (auto split: option.splits sum.splits)

lemma PathExists_settles: "PathExists p s = (r, s') \<Longrightarrow> read_inv s \<Longrightarrow> fv_now s < fv_now s' \<and> (plain_listings s \<longrightarrow> plain_listings s')"
  unfolding PathExists_def by (erule (1) op_settles) (auto simp: Let_def pathExistsUncached_def split: option.splits sum.splits bool.splits if_splits)

lemma ReadFile_settles: "ReadFile p s = (r, s') \<Longrightarrow> read_inv s \<Longrightarrow> fv_now s < fv_now s' \<and> (plain_listings s \<longrightarrow> plain_listings s')"
  unfolding ReadFile_def
  by (erule (1) op_settles) (auto simp: Let_def readFileUncached_def split: option.splits sum.splits prod.splits node.splits if_splits)

lemma plain_dir_entries: "plain_entries (dir_entries t p)"
  by (auto simp: plain_entries_def dir_entries_def Let_def)

lemma plain_store: "plain_listings s \<Longrightarrow> plain_listings (s\<lparr>fv_dirCache := store_key k (x, dir_entries t p) (fv_dirCache s)\<rparr>)"
  by (auto simp: plain_listings_def plain_cache_def plain_dir_entries store_key_def drop_key_def)

lemma ReadDir_settles: "ReadDir p s = (r, s') \<Longrightarrow> read_inv s \<Longrightarrow> fv_now s < fv_now s' \<and> (plain_listings s \<longrightarrow> plain_listings s')"
  unfolding ReadDir_def
  by (erule (1) op_settles) (auto simp: Let_def readDirUncached_def settles_def plain_store split: option.splits sum.splits prod.splits if_splits)

lemma os_change_settles: "os_change msg full part err id f s = (r, s') \<Longrightarrow> settles s s'"
  by (auto simp: os_change_def split: option.splits)

lemma Ensure_settles: "EnsureDirectory p s = (r, s') \<Longrightarrow> read_inv s \<Longrightarrow> fv_now s < fv_now s' \<and> (plain_listings s \<longrightarrow> plain_listings s')"
  unfolding EnsureDirectory_def by (erule (1) op_settles) (simp add: Let_def os_change_settles)

lemma Write_settles: "WriteFile p d s = (r, s') \<Longrightarrow> read_inv s \<Longrightarrow> fv_now s < fv_now s' \<and> (plain_listings s \<longrightarrow> plain_listings s')"
  unfolding WriteFile_def by (erule (1) op_settles) (simp add: Let_def os_change_settles)

lemma Remove_settles: "fs_Remove p s = (r, s') \<Longrightarrow> read_inv s \<Longrightarrow> fv_now s < fv_now s' \<and> (plain_listings s \<longrightarrow> plain_listings s')"
  unfolding fs_Remove_def
  by (erule (1) op_settles) (auto simp: Let_def settles_invalidate split: option.splits if_splits)


subsection \<open>The tree\<close>

text \<open>A change of the tree away from the file.\<close>

definition spares :: "tree \<Rightarrow> tree \<Rightarrow> bool" where
  "spares t t' \<longleftrightarrow> map_of t' DefaultConfigPath = map_of t DefaultConfigPath \<and> (unlinked t \<longrightarrow> unlinked t')"

lemma spares_refl [simp]: "spares t t"
  by (simp add: spares_def)

lemma unlinked_put: "unlinked t \<Longrightarrow> \<not> is_NLink n \<Longrightarrow> unlinked (put_node q n t)"
  by (auto simp: unlinked_def put_node_def)

lemma spares_put: "q \<noteq> DefaultConfigPath \<Longrightarrow> \<not> is_NLink n \<Longrightarrow> spares t (put_node q n t)"
  by (simp add: spares_def map_of_put unlinked_put)

lemma spares_cut: "q \<noteq> DefaultConfigPath \<Longrightarrow> spares t (cut_nodes (\<lambda>k. k = q) t)"
  by (auto simp: spares_def map_of_cut unlinked_def dest!: subsetD [OF cut_subset])

lemma spares_dirs: "DefaultConfigPath \<notin> set qs \<Longrightarrow> spares t (fold make_dir qs t)"
proof (induction qs arbitrary: t)
  case (Cons q qs)
  have "spares t (make_dir q t)" using Cons.prems spares_put [of q NDir t] by (auto simp: make_dir_def)
  then show ?case using Cons.IH [of "make_dir q t"] Cons.prems by (auto simp: spares_def)
qed simp

lemma data_ancestors: "DefaultConfigPath \<notin> set (ancestors data_dir @ [data_dir])" "DefaultConfigPath \<notin> set (ancestors ConfigBackupDir @ [ConfigBackupDir])"
  by code_simp+

lemma Ensure_spares:
  assumes "EnsureDirectory p s = (r, s')" "unlinked (fv_tree s)" "p = data_dir \<or> p = ConfigBackupDir"
  shows "spares (fv_tree s) (fv_tree s')"
proof -
  have res: "resolve (fv_tree s) p = p" using assms(2,3) data_paths by (auto intro: resolve_data)
  have d: "DefaultConfigPath \<notin> set (ancestors p @ [p])" using assms(3) data_ancestors by auto
  show ?thesis using assms(1) unfolding EnsureDirectory_def
  proof (rule with_contextE)
    fix f s1 assume b: "(let q = resolve (fv_tree s1) p; made = fold make_dir (ancestors q @ [q])
       in os_change (''failed to create directory '' @ p @ '': '') made (\<lambda>t. if ft_effect f q \<and> link_of t q = None then made t else t)
            (if link_of (fv_tree s1) q \<noteq> None then Some err_loop
             else case map_of (fv_tree s1) q of Some (NFile _ _) \<Rightarrow> Some err_not_dir | _ \<Rightarrow> None) id f s1) = (r, s')" and t: "fv_tree s1 = fv_tree s"
    show ?thesis using b unfolding t res Let_def
      by (rule os_changeE) (use spares_dirs [OF d] t in \<open>auto split: if_splits\<close>)
  qed simp
qed

lemma Write_effect:
  assumes "WriteFile p d s = (r, s')" "unlinked (fv_tree s)" "below data_dir p" "read_inv s"
  shows "fv_tree s' = fv_tree s \<and> r \<noteq> Inr () \<or> (\<exists>d'. fv_tree s' = put_node p (NFile d' (fv_now s')) (fv_tree s) \<and> (r = Inr () \<longrightarrow> d' = d)) \<and> map_of (fv_tree s) p \<noteq> Some NDir"
proof -
  obtain f s1 where f: "next_fate s = (f, s1)" by (cases "next_fate s")
  have t: "fv_tree s1 = fv_tree s" by (rule next_fate_tree [OF f])
  note res = resolve_data [OF assms(2,3)] unlinked_path [OF assms(2,3)]
  show ?thesis
  proof (cases "ft_ctx f")
    case (Some e)
    then show ?thesis using assms(1) f t by (auto simp: WriteFile_def with_context_def)
  next
    case None
    then show ?thesis using assms(1) f t
      by (auto simp: WriteFile_def with_context_def os_change_def t res split: option.splits if_splits)
  qed
qed

lemma Remove_spares:
  assumes "fs_Remove p s = (r, s')" "unlinked (fv_tree s)" "below data_dir p" "p \<noteq> DefaultConfigPath"
  shows "spares (fv_tree s) (fv_tree s')"
proof -
  have "\<not> (\<exists>tg. map_of (fv_tree s) p = Some (NLink tg))"
    using unlinked_path [OF assms(2,3)] unfolding link_of_None by (auto dest!: map_of_SomeD)
  then have "resolve_parent (fv_tree s) p = p"
    using resolve_data [OF assms(2,3)] by (auto simp: resolve_parent_def split: option.splits node.splits)
  then show ?thesis using assms(1) next_fate_tree [of s] spares_cut [OF assms(4)] unfolding fs_Remove_def with_context_def
    by (auto simp: Let_def split: option.splits prod.splits if_splits)
qed


lemma Stat_tree:
  assumes "fs_Stat p s = (r, s')"
  shows "fv_tree s' = fv_tree s \<and> (\<forall>i. r = Inr i \<longrightarrow> (\<exists>n. os_node (fv_tree s) p = Some n \<and> i = Some (fst (stat_node n))))"
  using assms unfolding fs_Stat_def
  by (rule with_contextE) (auto split: option.splits sum.splits)

lemma Stat_inv: "fs_Stat p s = (r, s') \<Longrightarrow> read_inv s \<Longrightarrow> read_inv s'"
  unfolding fs_Stat_def by (erule (1) with_context_inv) (auto split: option.splits sum.splits)

lemma lawful_step:
  assumes "config_lawful s" "read_inv s'" "fv_now s < fv_now s' \<and> (plain_listings s \<longrightarrow> plain_listings s')" "spares (fv_tree s) (fv_tree s')"
  shows "config_lawful s' \<and> config_file s' = config_file s \<and> fv_now s \<le> fv_now s'"
  using assms by (simp add: config_lawful_def config_file_def spares_def)

lemma config_node:
  assumes "config_lawful s"
  shows "os_node (fv_tree s) DefaultConfigPath = (case config_file s of Some (d, t) \<Rightarrow> Some (NFile d t) | None \<Rightarrow> None)"
proof -
  have u: "unlinked (fv_tree s)" and nd: "map_of (fv_tree s) DefaultConfigPath \<noteq> Some NDir" using assms by (auto simp: config_lawful_def)
  have l: "link_of (fv_tree s) DefaultConfigPath = None" by (rule unlinked_path [OF u data_paths(1)])
  then have "\<not> (\<exists>tg. map_of (fv_tree s) DefaultConfigPath = Some (NLink tg))"
    unfolding link_of_None by (auto dest!: map_of_SomeD)
  then show ?thesis using nd l resolve_data [OF u data_paths(1)]
    by (auto simp: os_node_def config_file_def split: option.splits node.splits)
qed

lemma lawful_parts: "config_lawful s \<Longrightarrow> read_inv s \<and> unlinked (fv_tree s) \<and> plain_listings s \<and> map_of (fv_tree s) DefaultConfigPath \<noteq> Some NDir"
  by (simp add: config_lawful_def)

lemma lawful_stamp:
  assumes "config_lawful s" "config_file s = Some (d, t)"
  shows "t \<le> fv_now s"
proof -
  have "map_of (fv_tree s) DefaultConfigPath = Some (NFile d t)" using assms(2) by (auto simp: config_file_def split: option.splits node.splits)
  then have "(t, d) \<in> tree_files (fv_tree s)" by (auto simp: tree_files_def dest: map_of_SomeD)
  then show ?thesis using lawful_parts [OF assms(1)] unfolding read_inv_def Let_def by blast
qed

lemma write_config:
  assumes "config_lawful s" "WriteFile DefaultConfigPath d s = (r, s')"
  shows "config_lawful s' \<and> fv_now s < fv_now s' \<and> (config_file s' = config_file s \<or> (\<exists>d'. config_file s' = Some (d', fv_now s')))"
    and "r = Inr () \<Longrightarrow> config_file s' = Some (d, fv_now s')"
proof -
  note p = lawful_parts [OF assms(1)]
  have e: "fv_tree s' = fv_tree s \<and> r \<noteq> Inr () \<or>
      (\<exists>d'. fv_tree s' = put_node DefaultConfigPath (NFile d' (fv_now s')) (fv_tree s) \<and> (r = Inr () \<longrightarrow> d' = d)) \<and> map_of (fv_tree s) DefaultConfigPath \<noteq> Some NDir"
    using Write_effect [OF assms(2)] p data_paths(1) by blast
  note st = Write_settles [OF assms(2)] WriteFile_inv [OF assms(2)]
  show "config_lawful s' \<and> fv_now s < fv_now s' \<and> (config_file s' = config_file s \<or> (\<exists>d'. config_file s' = Some (d', fv_now s')))"
    "r = Inr () \<Longrightarrow> config_file s' = Some (d, fv_now s')"
    using e p st by (auto simp: config_lawful_def config_file_def map_of_put intro!: unlinked_put)
qed

lemma write_backup:
  assumes "config_lawful s" "plain_name n" "WriteFile (filepath_Join ConfigBackupDir n) d s = (r, s')"
  shows "config_lawful s' \<and> config_file s' = config_file s \<and> fv_now s \<le> fv_now s'"
proof (rule lawful_step [OF assms(1)])
  note p = lawful_parts [OF assms(1)] and b = backup_path [OF assms(2)]
  show "read_inv s'" "fv_now s < fv_now s' \<and> (plain_listings s \<longrightarrow> plain_listings s')"
    using Write_settles [OF assms(3)] WriteFile_inv [OF assms(3)] p by auto
  show "spares (fv_tree s) (fv_tree s')"
  proof -
    have "fv_tree s' = fv_tree s \<or> (\<exists>d'. fv_tree s' = put_node (filepath_Join ConfigBackupDir n) (NFile d' (fv_now s')) (fv_tree s))"
      using Write_effect [OF assms(3) _ b(2)] p by blast
    then show ?thesis using spares_put [OF b(3)] by auto
  qed
qed

lemma listing_plain:
  assumes "plain_listings s" "ReadDir p s = (Inr es, s')"
  shows "plain_entries es"
proof -
  obtain f s1 where f: "next_fate s = (f, s1)" by (cases "next_fate s")
  then have c: "plain_cache (fv_dirCache s1)" using assms(1) by (auto simp: plain_listings_def next_fate_def split: list.splits)
  have hit: "plain_entries es" if "map_of (fv_dirCache s1) k = Some (x, es)" for k x es
    using c map_of_SomeD [OF that] by (force simp: plain_cache_def)
  show ?thesis using assms(2) f hit unfolding ReadDir_def with_context_def
    by (auto simp: Let_def readDirUncached_def plain_dir_entries split: option.splits if_splits prod.splits)
qed

interpretation cfs: config_files DefaultService DefaultConfigPath config_file config_lawful fv_now
proof (unfold_locales, unfold DefaultService_simps, goal_cases)
  case (1 s d t)
  then show ?case by (rule lawful_stamp)
next
  case (2 s ri s')
  then show ?case using lawful_step [OF 2(1)] Stat_tree [OF 2(2)] Stat_inv [OF 2(2)] Stat_settles [OF 2(2)] lawful_parts [OF 2(1)] by simp
next
  case (3 s i s')
  then show ?case using Stat_tree [OF 3(2)] by (auto simp: config_node [OF 3(1)] stat_node_def split: option.splits)
next
  case (4 s rb s')
  then have e: "PathExists DefaultConfigPath s = (rb, s')" by (simp add: FileExists_def)
  show ?case using lawful_step [OF 4(1)] PathExists_tree [OF e] PathExists_inv [OF e] PathExists_settles [OF e] lawful_parts [OF 4(1)] by simp
next
  case (5 s p rs s')
  then show ?case using lawful_step [OF 5(1)] ReadFile_tree [OF 5(2)] ReadFile_inv [OF 5(2)] ReadFile_settles [OF 5(2)] lawful_parts [OF 5(1)] by simp
next
  case (6 s d s')
  then show ?case using ReadFile_content [OF 6(2)] ReadFile_tree [OF 6(2)] lawful_parts [OF 6(1)] by (auto simp: config_node [OF 6(1)] split: option.splits)
next
  case (7 s re s')
  then show ?case using lawful_step [OF 7(1)] ReadDir_tree [OF 7(2)] ReadDir_inv [OF 7(2)] ReadDir_settles [OF 7(2)] lawful_parts [OF 7(1)] by simp
next
  case (8 s es s' e)
  then show ?case using listing_plain [OF _ 8(2)] lawful_parts [OF 8(1)] by (simp add: plain_entries_def)
next
  case (9 s p ru s')
  then show ?case using lawful_step [OF 9(1)] Ensure_spares [OF 9(3)] EnsureDirectory_inv [OF 9(3)] Ensure_settles [OF 9(3)] lawful_parts [OF 9(1)]
    by (simp add: data_paths(4))
next
  case (10 s d ru s')
  then show ?case by (rule write_config(1))
next
  case (11 s d s')
  then show ?case using write_config(2) [OF 11] by simp
next
  case (12 s n d ru s')
  then show ?case by (rule write_backup)
next
  case (13 s n ru s')
  note b = backup_path [OF 13(2)] and p = lawful_parts [OF 13(1)]
  show ?case using lawful_step [OF 13(1)] Remove_spares [OF 13(3) _ b(2,3)] Remove_inv [OF 13(3)] Remove_settles [OF 13(3)] p by simp
qed

end
