(* ===== verification/Config_Manager.thy ===== *)
theory Config_Manager
  imports Config_Edits Config_Files Backoff
begin

text \<open>
  The configuration manager (\<^verbatim>\<open>pkg/config/manager.go\<close>): one file, a cache of what it holds
  keyed by its modification time, a background refresh, atomic updates and backups.

  Locks are taken with a context and are given back at the end of the operation, so that taking one
  is a look at the context. The clock and the time zone are parameters.
\<close>

section \<open>State\<close>

record cfg_env =
  e_configPath :: string
  e_backupEnabled :: bool
  e_yaml :: yaml_lib
  e_order :: map_order
  e_uuid :: "string \<Rightarrow> string"
  e_rfc3339 :: "int \<Rightarrow> string"
  e_clock :: "nat \<Rightarrow> int"

text \<open>
  \<open>cm_refresh\<close> is the modification time a background refresh has been started for, while it holds its
  lock; \<open>cm_asked\<close> counts the looks at the context.
\<close>

record 's cfg_manager =
  cm_fs :: 's
  cm_asked :: nat
  cm_modTime :: "int option"
  cm_config :: full_config
  cm_raw :: string
  cm_error :: "goerror option"
  cm_refresh :: "int option"
  cm_backups :: u64

type_synonym ('s, 'a) cfg_act = "('s cfg_manager, 'a) act"

definition on_fs :: "('s \<Rightarrow> (goerror + 'a) \<times> 's) \<Rightarrow> ('s, 'a) cfg_act" where
  "on_fs f m = (case f (cm_fs m) of (r, s) \<Rightarrow> (r, m\<lparr>cm_fs := s\<rparr>))"

definition on_ctx :: "(nat, 'a) act \<Rightarrow> ('s, 'a) cfg_act" where
  "on_ctx f m = (case f (cm_asked m) of (r, n) \<Rightarrow> (r, m\<lparr>cm_asked := n\<rparr>))"

definition look :: "gctx \<Rightarrow> ('s, unit) cfg_act" where
  "look cx = on_ctx (ask cx)"

definition lock_file :: "gctx \<Rightarrow> ('s, unit) cfg_act" where
  "lock_file cx = wrapped ''failed to lock config file: '' (look cx)"

section \<open>Reading\<close>

text \<open>The decision between the cache and a refresh, for a file with modification time \<open>t\<close>.\<close>

definition from_cache :: "int \<Rightarrow> ('s, full_config) cfg_act" where
  "from_cache t m =
     (if cm_modTime m = Some t then (Inr (cm_config m), m)
      else
        let m1 = (if cm_refresh m = None then m\<lparr>cm_refresh := Some t\<rparr> else m)
        in if isEmptyConfig (cm_config m1)
           then (case cm_error m1 of
                   None \<Rightarrow> (Inl (ErrorNew 330 ''cached config is empty. may be fixed by a background refresh''), m1)
                 | Some e \<Rightarrow> (Inl e, m1))
           else (case cm_error m1 of None \<Rightarrow> (Inr (cm_config m1), m1) | Some e \<Rightarrow> (Inl e, m1)))"

definition missing :: "cfg_env \<Rightarrow> goerror" where
  "missing E = ErrorNew 331 (''config file does not exist: '' @ e_configPath E)"

definition nil_info :: "cfg_env \<Rightarrow> goerror" where
  "nil_info E = ErrorNew 332 (''stat returned nil for config file: '' @ e_configPath E)"

definition GetConfig :: "'s cfg_fsys \<Rightarrow> cfg_env \<Rightarrow> gctx \<Rightarrow> ('s, full_config) cfg_act" where
  "GetConfig F E cx =
     call (lock_file cx) (\<lambda>_.
     call (look cx) (\<lambda>_.
     call (wrapped ''failed to create config directory: '' (on_fs (op_EnsureDirectory F (filepath_Dir (e_configPath E))))) (\<lambda>_.
     call (look cx) (\<lambda>_.
     call (wrapped (''failed to check if config file exists in '' @ e_configPath E @ '': '') (on_fs (op_FileExists F (e_configPath E)))) (\<lambda>exists.
     if \<not> exists then fail (missing E)
     else
       call (attempt (on_fs (op_Stat F (e_configPath E)))) (\<lambda>info.
         case info of
           Inl e \<Rightarrow> if errors_is e err_not_exist then fail (missing E) else fail (Errorf ''failed to stat config file: '' e)
         | Inr None \<Rightarrow> fail (nil_info E)
         | Inr (Some t) \<Rightarrow> from_cache t))))))"

definition release_channels :: "string list" where
  "release_channels = [''nightly'', ''stable'', ''enterprise'']"

text \<open>A missing location map is made, an unknown release channel is replaced.\<close>

definition sanitised :: "full_config \<Rightarrow> full_config" where
  "sanitised c =
     (let c1 = (if ag_Location (fc_Agent c) = fmempty then c\<lparr>fc_Alloc := True\<rparr> else c)
      in if ag_ReleaseChannel (fc_Agent c1) \<in> set release_channels then c1
         else c1\<lparr>fc_Agent := (fc_Agent c1)\<lparr>ag_ReleaseChannel := ''n/a''\<rparr>\<rparr>)"

definition readAndParseConfig :: "'s cfg_fsys \<Rightarrow> cfg_env \<Rightarrow> gctx \<Rightarrow> ('s, full_config \<times> string) cfg_act" where
  "readAndParseConfig F E cx =
     call (wrapped ''failed to read config file: '' (on_fs (op_ReadFile F (e_configPath E)))) (\<lambda>data.
     call (look cx) (\<lambda>_.
     call (wrapped ''failed to parse config file: '' (on_ctx (ParseConfig (e_yaml E) (e_order E) cx False data))) (\<lambda>config.
     call (look cx) (\<lambda>_.
     if isEmptyConfig config then fail (ErrorNew 333 (''config file is empty: '' @ e_configPath E))
     else ret (sanitised config, data)))))"

text \<open>The background refresh in its two parts: reading, and replacing the cache.\<close>

definition refresh_commit :: "int \<Rightarrow> goerror + (full_config \<times> string) \<Rightarrow> 's cfg_manager \<Rightarrow> 's cfg_manager" where
  "refresh_commit t r m =
     (case r of
        Inl e \<Rightarrow> m\<lparr>cm_config := zero_config, cm_raw := [], cm_modTime := Some t, cm_error := Some e\<rparr>
      | Inr (config, raw) \<Rightarrow> m\<lparr>cm_config := config, cm_raw := raw, cm_modTime := Some t, cm_error := None\<rparr>)\<lparr>cm_refresh := None\<rparr>"

definition backgroundRefresh :: "'s cfg_fsys \<Rightarrow> cfg_env \<Rightarrow> gctx \<Rightarrow> 's cfg_manager \<Rightarrow> 's cfg_manager" where
  "backgroundRefresh F E cx m =
     (case cm_refresh m of
        None \<Rightarrow> m
      | Some t \<Rightarrow> (case readAndParseConfig F E cx m of (r, m1) \<Rightarrow> refresh_commit t r m1))"

definition NewFileConfigManager :: "'s cfg_fsys \<Rightarrow> cfg_env \<Rightarrow> gctx \<Rightarrow> 's \<Rightarrow> 's cfg_manager" where
  "NewFileConfigManager F E cx s =
     (let m0 = \<lparr>cm_fs = s, cm_asked = 0, cm_modTime = None, cm_config = zero_config, cm_raw = [], cm_error = None, cm_refresh = None, cm_backups = 0\<rparr>
      in case readAndParseConfig F E cx m0 of (r, m1) \<Rightarrow>
           (case on_fs (op_Stat F (e_configPath E)) m1 of
              (Inr (Some t), m2) \<Rightarrow> refresh_commit t r m2
            | (Inr None, m2) \<Rightarrow> m2\<lparr>cm_error := None\<rparr>
            | (Inl e, m2) \<Rightarrow> m2\<lparr>cm_error := Some e\<rparr>))"

definition GetConfigAsString :: "'s cfg_fsys \<Rightarrow> cfg_env \<Rightarrow> gctx \<Rightarrow> ('s, string) cfg_act" where
  "GetConfigAsString F E cx = call (wrapped ''failed to get config: '' (GetConfig F E cx)) (\<lambda>_ m. (Inr (cm_raw m), m))"

definition GetCacheModTimeWithoutUpdate :: "'s cfg_manager \<Rightarrow> int option" where
  "GetCacheModTimeWithoutUpdate m = cm_modTime m"

definition UpdateAndGetCacheModTime :: "'s cfg_fsys \<Rightarrow> cfg_env \<Rightarrow> gctx \<Rightarrow> ('s, int option) cfg_act" where
  "UpdateAndGetCacheModTime F E cx =
     call (wrapped ''failed to get config: '' (GetConfig F E cx)) (\<lambda>_ m. (Inr (GetCacheModTimeWithoutUpdate m), m))"

section \<open>Backups\<close>

definition ConfigBackupMaxEntries :: nat where
  "ConfigBackupMaxEntries = 100"

definition yaml_files :: "(string \<times> bool) list \<Rightarrow> string list" where
  "yaml_files es = map fst (filter (\<lambda>(name, isDir). \<not> isDir \<and> suffix ''.yaml'' name) es)"

definition getLatestBackupContent :: "'s cfg_fsys \<Rightarrow> ('s, string option) cfg_act" where
  "getLatestBackupContent F =
     call (attempt (on_fs (op_ReadDir F ConfigBackupDir))) (\<lambda>r.
       case r of
         Inl _ \<Rightarrow> ret None
       | Inr es \<Rightarrow>
           if yaml_files es = [] then ret None
           else call (attempt (on_fs (op_ReadFile F (filepath_Join ConfigBackupDir (last (sort (yaml_files es))))))) (\<lambda>d.
                  case d of Inl _ \<Rightarrow> ret None | Inr data \<Rightarrow> ret (Some data)))"

fun remove_backups :: "'s cfg_fsys \<Rightarrow> string list \<Rightarrow> ('s, unit) cfg_act" where
  "remove_backups F [] = ret ()"
| "remove_backups F (name # names) =
     call (attempt (on_fs (op_Remove F (filepath_Join ConfigBackupDir name)))) (\<lambda>_. remove_backups F names)"

definition oldest_backups :: "string list \<Rightarrow> string list" where
  "oldest_backups names = take (length names - ConfigBackupMaxEntries) (sort names)"

definition cleanupOldBackups :: "'s cfg_fsys \<Rightarrow> ('s, unit) cfg_act" where
  "cleanupOldBackups F =
     call (attempt (on_fs (op_ReadDir F ConfigBackupDir))) (\<lambda>r.
       case r of
         Inl _ \<Rightarrow> ret ()
       | Inr es \<Rightarrow>
           if length (yaml_files es) \<le> ConfigBackupMaxEntries then ret ()
           else remove_backups F (oldest_backups (yaml_files es)))"

text \<open>\<^verbatim>\<open>time.Now().UTC().Format("20060102T150405.000000000Z") + ".yaml"\<close>.\<close>

definition backup_name :: "int \<Rightarrow> string" where
  "backup_name t =
     (case civil_date (t div 86400000000000) of (y, mo, d) \<Rightarrow>
        let r = nat (t mod 86400000000000); sec = r div 1000000000
        in pad 4 (nat y) @ pad 2 (nat mo) @ pad 2 (nat d) @ ''T'' @ pad 2 (sec div 3600) @ pad 2 (sec div 60 mod 60) @ pad 2 (sec mod 60)
           @ ''.'' @ pad 9 (r mod 1000000000) @ ''Z.yaml'')"

definition write_backup :: "'s cfg_fsys \<Rightarrow> cfg_env \<Rightarrow> string \<Rightarrow> ('s, unit) cfg_act" where
  "write_backup F E content m =
     call (attempt (on_fs (op_WriteFile F (filepath_Join ConfigBackupDir (backup_name (e_clock E (cm_asked m)))) content))) (\<lambda>w.
       case w of
         Inl _ \<Rightarrow> ret ()
       | Inr _ \<Rightarrow> (\<lambda>m1. cleanupOldBackups F (m1\<lparr>cm_backups := cm_backups m1 + 1\<rparr>))) m"

definition createConfigBackup :: "'s cfg_fsys \<Rightarrow> cfg_env \<Rightarrow> ('s, unit) cfg_act" where
  "createConfigBackup F E =
     (if \<not> e_backupEnabled E then ret ()
      else
        call (attempt (on_fs (op_FileExists F (e_configPath E)))) (\<lambda>ex.
        if ex \<noteq> Inr True then ret ()
        else
          call (attempt (on_fs (op_ReadFile F (e_configPath E)))) (\<lambda>rd.
            case rd of
              Inl _ \<Rightarrow> ret ()
            | Inr content \<Rightarrow>
                call (attempt (on_fs (op_EnsureDirectory F ConfigBackupDir))) (\<lambda>en.
                  case en of
                    Inl _ \<Rightarrow> ret ()
                  | Inr _ \<Rightarrow>
                      call (getLatestBackupContent F) (\<lambda>latest.
                        if latest = Some content then ret () else write_backup F E content)))))"

section \<open>Writing\<close>

definition cache_written :: "int \<Rightarrow> full_config \<Rightarrow> string \<Rightarrow> ('s, unit) cfg_act" where
  "cache_written t config data m = (Inr (), m\<lparr>cm_modTime := Some t, cm_config := config, cm_raw := data\<rparr>)"

text \<open>A nil file information would be dereferenced; that panic is the error with tag 334.\<close>

definition writeConfig :: "'s cfg_fsys \<Rightarrow> cfg_env \<Rightarrow> gctx \<Rightarrow> full_config \<Rightarrow> ('s, unit) cfg_act" where
  "writeConfig F E cx config =
     call (lock_file cx) (\<lambda>_.
     call (look cx) (\<lambda>_.
     call (wrapped ''failed to create config directory: '' (on_fs (op_EnsureDirectory F (filepath_Dir (e_configPath E))))) (\<lambda>_.
     call (wrapped ''failed to convert spec to yaml: '' (on_ctx (convertSpecToYaml (e_order E) cx config))) (\<lambda>yamlConfig.
     call (wrapped ''failed to marshal config: '' (lift_result (y_Marshal (e_yaml E) yamlConfig))) (\<lambda>data.
     call (wrapped ''failed to write config file: '' (on_fs (op_WriteFile F (e_configPath E) data))) (\<lambda>_.
     call (createConfigBackup F E) (\<lambda>_.
     call (wrapped ''failed to get file stats: '' (on_fs (op_Stat F (e_configPath E)))) (\<lambda>info.
       case info of
         None \<Rightarrow> fail (ErrorNew 334 ''panic: nil pointer dereference'')
       | Some t \<Rightarrow> cache_written t config data))))))))"

text \<open>An atomic operation: the configuration is read and edited, and later written.\<close>

definition begin_edit :: "'s cfg_fsys \<Rightarrow> cfg_env \<Rightarrow> gctx \<Rightarrow> config_op \<Rightarrow> ('s, full_config option \<times> edit_result) cfg_act" where
  "begin_edit F E cx op =
     call (lock_file cx) (\<lambda>_.
     call (wrapped ''failed to get config: '' (GetConfig F E cx)) (\<lambda>config.
     lift_result (edit_of (e_uuid E) op config)))"

definition finish_edit :: "'s cfg_fsys \<Rightarrow> cfg_env \<Rightarrow> gctx \<Rightarrow> full_config option \<times> edit_result \<Rightarrow> ('s, edit_result) cfg_act" where
  "finish_edit F E cx p =
     (case p of
        (None, r) \<Rightarrow> ret r
      | (Some config, r) \<Rightarrow> call (wrapped ''failed to write config: '' (writeConfig F E cx config)) (\<lambda>_. ret r))"

definition atomic_edit :: "'s cfg_fsys \<Rightarrow> cfg_env \<Rightarrow> gctx \<Rightarrow> config_op \<Rightarrow> ('s, edit_result) cfg_act" where
  "atomic_edit F E cx op = call (begin_edit F E cx op) (finish_edit F E cx)"

definition WriteYAMLConfigFromString :: "'s cfg_fsys \<Rightarrow> cfg_env \<Rightarrow> gctx \<Rightarrow> string \<Rightarrow> string \<Rightarrow> ('s, unit) cfg_act" where
  "WriteYAMLConfigFromString F E cx configStr expectedModTime =
     call (attempt (on_ctx (ParseConfig (e_yaml E) (e_order E) cx False configStr))) (\<lambda>strict.
     call (case strict of
             Inr _ \<Rightarrow> ret ()
           | Inl _ \<Rightarrow> unit_of (wrapped ''failed to parse config: '' (on_ctx (ParseConfig (e_yaml E) (e_order E) cx True configStr)))) (\<lambda>_.
     call (lock_file cx) (\<lambda>_.
     call (if expectedModTime = [] then ret ()
           else call (attempt (on_fs (op_Stat F (e_configPath E)))) (\<lambda>info.
             case info of
               Inl e \<Rightarrow> if errors_is e err_not_exist then ret () else fail (Errorf ''failed to stat config file: '' e)
             | Inr None \<Rightarrow> fail (nil_info E)
             | Inr (Some t) \<Rightarrow>
                 if e_rfc3339 E t \<noteq> expectedModTime
                 then fail (ErrorNew 335 (''concurrent modification detected: file modified at '' @ e_rfc3339 E t @ '', expected '' @ expectedModTime))
                 else ret ())) (\<lambda>_.
     call (wrapped ''failed to create config directory: '' (on_fs (op_EnsureDirectory F (filepath_Dir (e_configPath E))))) (\<lambda>_.
     call (wrapped ''failed to write config file: '' (on_fs (op_WriteFile F (e_configPath E) configStr))) (\<lambda>_.
     call (createConfigBackup F E) (\<lambda>_.
     call (wrapped ''failed to get file stats: '' (on_fs (op_Stat F (e_configPath E)))) (\<lambda>info.
     call (attempt (on_ctx (ParseConfig (e_yaml E) (e_order E) cx True configStr))) (\<lambda>r m.
       case r of
         Inl e \<Rightarrow> (Inl (Errorf ''failed to parse new config for cache update: '' e),
                   m\<lparr>cm_modTime := None, cm_config := zero_config, cm_raw := [], cm_error := Some e\<rparr>)
       | Inr newConfig \<Rightarrow>
           (case info of
              None \<Rightarrow> (Inl (ErrorNew 334 ''panic: nil pointer dereference''), m)
            | Some t \<Rightarrow> (Inr (), m\<lparr>cm_modTime := Some t, cm_config := newConfig, cm_raw := configStr, cm_error := None\<rparr>)))))))))))"


section \<open>First start\<close>

definition NewInstanceRedpandaTopicCleanupPolicy :: string where
  "NewInstanceRedpandaTopicCleanupPolicy = ''delete''"

definition NewInstanceRedpandaTopicRetentionMs :: int where
  "NewInstanceRedpandaTopicRetentionMs = 604800000"

definition first_boot_config :: full_config where
  "first_boot_config = zero_config\<lparr>
     fc_Agent := zero_agent\<lparr>ag_MetricsPort := 8080, ag_EnableResourceLimitBlocking := DefaultEnableResourceLimitBlocking\<rparr>,
     fc_Internal := zero_internal\<lparr>ic_TopicCleanupPolicy := NewInstanceRedpandaTopicCleanupPolicy,
       ic_TopicRetentionMs := NewInstanceRedpandaTopicRetentionMs\<rparr>\<rparr>"

definition agent_overrides :: "agent_config \<Rightarrow> agent_config \<Rightarrow> agent_config" where
  "agent_overrides ov a =
     a\<lparr>ag_MetricsPort := (if ag_MetricsPort ov > 0 then ag_MetricsPort ov else ag_MetricsPort a),
       ag_APIURL := (if ag_APIURL ov \<noteq> [] then ag_APIURL ov else ag_APIURL a),
       ag_AuthToken := (if ag_AuthToken ov \<noteq> [] then ag_AuthToken ov else ag_AuthToken a),
       ag_ReleaseChannel := (if ag_ReleaseChannel ov \<noteq> [] then ag_ReleaseChannel ov else ag_ReleaseChannel a),
       ag_AllowInsecureTLS := (if ag_AllowInsecureTLS ov then ag_AllowInsecureTLS ov else ag_AllowInsecureTLS a),
       ag_Location := (case fmlookup (ag_Location ov) 0 of
          None \<Rightarrow> ag_Location a | Some v \<Rightarrow> if v \<noteq> [] then ag_Location ov else ag_Location a)\<rparr>"

definition with_overrides :: "full_config \<Rightarrow> full_config \<Rightarrow> full_config" where
  "with_overrides ov c =
     c\<lparr>fc_Agent := agent_overrides (fc_Agent ov) (fc_Agent c),
       fc_Internal := (fc_Internal c)\<lparr>
         ic_RedpandaDesiredFSMState := (if ic_RedpandaDesiredFSMState (fc_Internal c) = []
            then ic_RedpandaDesiredFSMState (fc_Internal ov) else ic_RedpandaDesiredFSMState (fc_Internal c)),
         ic_TopicBrowserDesiredFSMState := (if ic_TopicBrowserDesiredFSMState (fc_Internal c) = []
            then ic_TopicBrowserDesiredFSMState (fc_Internal ov) else ic_TopicBrowserDesiredFSMState (fc_Internal c))\<rparr>,
       fc_Alloc := (fc_Alloc c \<or> pred_option (\<lambda>v. v \<noteq> []) (fmlookup (ag_Location (fc_Agent ov)) 0))\<rparr>"

definition GetConfigWithOverwritesOrCreateNew :: "'s cfg_fsys \<Rightarrow> cfg_env \<Rightarrow> gctx \<Rightarrow> full_config \<Rightarrow> ('s, full_config) cfg_act" where
  "GetConfigWithOverwritesOrCreateNew F E cx ov =
     call (look cx) (\<lambda>_.
     call (wrapped ''failed to check config file existence: '' (on_fs (op_FileExists F (e_configPath E)))) (\<lambda>exists.
     call (if exists then wrapped ''failed to get config that exists: '' (GetConfig F E cx) else ret first_boot_config) (\<lambda>config.
     let new = with_overrides ov config
     in call (wrapped ''failed to write new config: '' (writeConfig F E cx new)) (\<lambda>_. ret new))))"

section \<open>The manager with backoff\<close>

text \<open>
  \<^verbatim>\<open>FileConfigManagerWithBackoff\<close>: the backoff manager with its two operations as parameters of
  the model of \<^verbatim>\<open>Backoff\<close>, in front of the manager. The other operations check the context and
  go through.
\<close>

definition backoff_GetConfig ::
  "('b \<Rightarrow> int \<times> 'b) \<Rightarrow> ('b \<Rightarrow> 'b) \<Rightarrow> 's cfg_fsys \<Rightarrow> cfg_env \<Rightarrow> gctx \<Rightarrow> u64 \<Rightarrow> 'b BackoffManager \<times> 's cfg_manager
    \<Rightarrow> (goerror option \<times> full_config) \<times> 'b BackoffManager \<times> 's cfg_manager" where
  "backoff_GetConfig nextBackOff reset F E cx tick w =
     (case w of (b, m) \<Rightarrow>
        case look cx m of
          (Inl e, m1) \<Rightarrow> ((Some e, zero_config), b, m1)
        | (Inr _, m1) \<Rightarrow>
            if ShouldSkipOperation b tick then ((GetBackoffError b tick, zero_config), b, m1)
            else
              (case GetConfig F E cx m1 of
                 (Inl e, m2) \<Rightarrow> ((Some e, zero_config), snd (SetError nextBackOff b (Some e) tick), m2)
               | (Inr c, m2) \<Rightarrow> ((None, c), Reset reset b, m2)))"

definition backoff_atomic_edit :: "'s cfg_fsys \<Rightarrow> cfg_env \<Rightarrow> gctx \<Rightarrow> config_op \<Rightarrow> ('s, edit_result) cfg_act" where
  "backoff_atomic_edit F E cx op = call (look cx) (\<lambda>_. atomic_edit F E cx op)"

definition backoff_WriteYAML :: "'s cfg_fsys \<Rightarrow> cfg_env \<Rightarrow> gctx \<Rightarrow> string \<Rightarrow> string \<Rightarrow> ('s, unit) cfg_act" where
  "backoff_WriteYAML F E cx str expected = call (look cx) (\<lambda>_. WriteYAMLConfigFromString F E cx str expected)"

section \<open>Interleavings\<close>

text \<open>
  What the goroutines of the program and other programs do to the file, one piece at a time. The two
  parts of a background refresh and of an atomic operation are events of their own; the lock for
  atomic operations lets one of them run at a time, the other lock makes reads and writes single
  steps.
\<close>

record 's cfg_system =
  sys_m :: "'s cfg_manager"
  sys_read :: "(goerror + (full_config \<times> string)) option"
  sys_edit :: "(full_config option \<times> edit_result) option"

datatype cfg_event =
    EvGetConfig gctx
  | EvRefreshRead gctx
  | EvRefreshCommit
  | EvBeginEdit gctx config_op
  | EvFinishEdit gctx
  | EvWriteYAML gctx string string
  | EvExternal string

fun cfg_step :: "'s cfg_fsys \<Rightarrow> cfg_env \<Rightarrow> cfg_event \<Rightarrow> 's cfg_system \<Rightarrow> 's cfg_system" where
  "cfg_step F E (EvGetConfig cx) w = w\<lparr>sys_m := snd (GetConfig F E cx (sys_m w))\<rparr>"
| "cfg_step F E (EvRefreshRead cx) w =
     (if cm_refresh (sys_m w) = None \<or> sys_read w \<noteq> None then w
      else case readAndParseConfig F E cx (sys_m w) of (r, m) \<Rightarrow> w\<lparr>sys_m := m, sys_read := Some r\<rparr>)"
| "cfg_step F E EvRefreshCommit w =
     (case (cm_refresh (sys_m w), sys_read w) of
        (Some t, Some r) \<Rightarrow> w\<lparr>sys_m := refresh_commit t r (sys_m w), sys_read := None\<rparr>
      | _ \<Rightarrow> w)"
| "cfg_step F E (EvBeginEdit cx op) w =
     (if sys_edit w \<noteq> None then w
      else case begin_edit F E cx op (sys_m w) of
             (Inr p, m) \<Rightarrow> w\<lparr>sys_m := m, sys_edit := Some p\<rparr>
           | (Inl e, m) \<Rightarrow> w\<lparr>sys_m := m\<rparr>)"
| "cfg_step F E (EvFinishEdit cx) w =
     (case sys_edit w of
        None \<Rightarrow> w
      | Some p \<Rightarrow> w\<lparr>sys_m := snd (finish_edit F E cx p (sys_m w)), sys_edit := None\<rparr>)"
| "cfg_step F E (EvWriteYAML cx str expected) w = w\<lparr>sys_m := snd (WriteYAMLConfigFromString F E cx str expected (sys_m w))\<rparr>"
| "cfg_step F E (EvExternal data) w =
     w\<lparr>sys_m := snd (on_fs (op_WriteFile F (e_configPath E) data) (sys_m w))\<rparr>"

definition cfg_start :: "'s cfg_fsys \<Rightarrow> cfg_env \<Rightarrow> gctx \<Rightarrow> 's \<Rightarrow> 's cfg_system" where
  "cfg_start F E cx s = \<lparr>sys_m = NewFileConfigManager F E cx s, sys_read = None, sys_edit = None\<rparr>"

definition cfg_run :: "'s cfg_fsys \<Rightarrow> cfg_env \<Rightarrow> cfg_event list \<Rightarrow> 's cfg_system \<Rightarrow> 's cfg_system" where
  "cfg_run F E evs w = fold (cfg_step F E) evs w"

end
