(* ===== verification/Config_Props.thy ===== *)
theory Config_Props
  imports Config_Manager
begin

text \<open>
  What the configuration manager serves: the cache against the file, under any interleaving and any
  failures of the file system.
\<close>

section \<open>What a configuration has to do with a file\<close>

text \<open>A configuration describes a text if it was read from it or if the text was written for it.\<close>

definition describes :: "cfg_env \<Rightarrow> full_config \<Rightarrow> string \<Rightarrow> bool" where
  "describes E c d \<longleftrightarrow>
     (\<exists>cx u n n' p. ParseConfig (e_yaml E) (e_order E) cx u d n = (Inr p, n') \<and> (c = p \<or> c = sanitised p))
   \<or> (\<exists>cx n n' y. convertSpecToYaml (e_order E) cx c n = (Inr y, n') \<and> y_Marshal (e_yaml E) y = Inr d)"

definition serves :: "cfg_env \<Rightarrow> full_config \<Rightarrow> string \<Rightarrow> string \<Rightarrow> bool" where
  "serves E c raw d \<longleftrightarrow> raw = d \<and> describes E c d \<or> raw = [] \<and> c = zero_config"

lemma on_fs_ok [ok_simps]: "on_fs f m = (Inr x, m') \<longleftrightarrow> (\<exists>s'. f (cm_fs m) = (Inr x, s') \<and> m' = m\<lparr>cm_fs := s'\<rparr>)"
  by (auto simp: on_fs_def split: prod.splits)

lemma on_ctx_ok [ok_simps]: "on_ctx f m = (Inr x, m') \<longleftrightarrow> (\<exists>n. f (cm_asked m) = (Inr x, n) \<and> m' = m\<lparr>cm_asked := n\<rparr>)"
  by (auto simp: on_ctx_def split: prod.splits)

lemma GetConfig_split:
  assumes "GetConfig F E cx m = (Inr c, m')"
  obtains sa s0 n t s1 where "op_EnsureDirectory F (filepath_Dir (e_configPath E)) (cm_fs m) = (Inr (), sa)"
    "op_FileExists F (e_configPath E) sa = (Inr True, s0)" "op_Stat F (e_configPath E) s0 = (Inr (Some t), s1)" "from_cache t (m\<lparr>cm_asked := n, cm_fs := s1\<rparr>) = (Inr c, m')"
proof -
  obtain n sa s0 info m4 where e: "op_EnsureDirectory F (filepath_Dir (e_configPath E)) (cm_fs m) = (Inr (), sa)"
    "op_FileExists F (e_configPath E) sa = (Inr True, s0)" and i: "attempt (on_fs (op_Stat F (e_configPath E))) (m\<lparr>cm_asked := n, cm_fs := s0\<rparr>) = (Inr info, m4)"
    "(case info of Inl e \<Rightarrow> if errors_is e err_not_exist then fail (missing E) else fail (Errorf ''failed to stat config file: '' e)
         | Inr None \<Rightarrow> fail (nil_info E) | Inr (Some t) \<Rightarrow> from_cache t) m4 = (Inr c, m')"
    using assms unfolding GetConfig_def lock_file_def look_def
    by (auto simp: call_ok wrapped_ok on_fs_ok on_ctx_ok if_act fail_ok split: if_splits)
  show ?thesis
  proof (cases info)
    case (Inl e)
    then show ?thesis using i(2) by (simp add: fail_def split: if_splits)
  next
    case (Inr x)
    then show ?thesis using i that [OF e] by (cases x) (auto simp: fail_def ok_simps)
  qed
qed

section \<open>The cache follows the file\<close>

context config_files
begin

text \<open>Steps of the file service that leave the file alone, and steps that may write it.\<close>

definition same :: "'s \<Rightarrow> 's \<Rightarrow> bool" where
  "same s s' \<longleftrightarrow> lawful s' \<and> stored s' = stored s \<and> clock s \<le> clock s'"

definition later :: "'s \<Rightarrow> 's \<Rightarrow> bool" where
  "later s s' \<longleftrightarrow> lawful s' \<and> clock s \<le> clock s' \<and> (stored s' = stored s \<or> (\<exists>d u. stored s' = Some (d, u) \<and> clock s < u))"

definition tracks :: "cfg_env \<Rightarrow> 's cfg_manager \<Rightarrow> bool" where
  "tracks E m \<longleftrightarrow> lawful (cm_fs m)
     \<and> (\<forall>t. cm_modTime m = Some t \<longrightarrow> t \<le> clock (cm_fs m) \<and> (\<forall>d. stored (cm_fs m) = Some (d, t) \<longrightarrow> serves E (cm_config m) (cm_raw m) d))
     \<and> (\<forall>t. cm_refresh m = Some t \<longrightarrow> t \<le> clock (cm_fs m))"

text \<open>What a finished read of the refresh says, seen from the file of now.\<close>

definition read_ok :: "cfg_env \<Rightarrow> 's cfg_manager \<Rightarrow> goerror + (full_config \<times> string) \<Rightarrow> bool" where
  "read_ok E m r \<longleftrightarrow> (\<forall>c raw t d. r = Inr (c, raw) \<and> cm_refresh m = Some t \<and> stored (cm_fs m) = Some (d, t) \<longrightarrow> raw = d \<and> describes E c d)"

text \<open>Predicates that such steps keep.\<close>

definition unaffected :: "('s \<Rightarrow> 's \<Rightarrow> bool) \<Rightarrow> ('s cfg_manager \<Rightarrow> bool) \<Rightarrow> bool" where
  "unaffected R P \<longleftrightarrow> (\<forall>m s'. P m \<and> R (cm_fs m) s' \<longrightarrow> P (m\<lparr>cm_fs := s'\<rparr>)) \<and> (\<forall>m n. P m \<longrightarrow> P (m\<lparr>cm_asked := n\<rparr>))
     \<and> (\<forall>m n. P m \<longrightarrow> P (m\<lparr>cm_backups := n\<rparr>)) \<and> (\<forall>m. P m \<longrightarrow> lawful (cm_fs m))"

lemma same_later: "same s s' \<Longrightarrow> later s s'"
  by (simp add: same_def later_def)

lemma unaffected_same: "unaffected later P \<Longrightarrow> unaffected same P"
  unfolding unaffected_def using same_later by blast

lemma unaffectedI:
  assumes "\<And>m s'. P m \<Longrightarrow> R (cm_fs m) s' \<Longrightarrow> P (m\<lparr>cm_fs := s'\<rparr>)" "\<And>m n. P m \<Longrightarrow> P (m\<lparr>cm_asked := n\<rparr>)"
    "\<And>m n. P m \<Longrightarrow> P (m\<lparr>cm_backups := n\<rparr>)" "\<And>m. P m \<Longrightarrow> lawful (cm_fs m)"
  shows "unaffected R P"
  using assms by (simp add: unaffected_def)

lemma tracks_later:
  assumes "tracks E m" "later (cm_fs m) s'"
  shows "tracks E (m\<lparr>cm_fs := s'\<rparr>)"
proof -
  have "t \<le> clock s' \<and> (\<forall>d. stored s' = Some (d, t) \<longrightarrow> serves E (cm_config m) (cm_raw m) d)" if "cm_modTime m = Some t" for t
  proof -
    have t: "t \<le> clock (cm_fs m)" "\<And>d. stored (cm_fs m) = Some (d, t) \<Longrightarrow> serves E (cm_config m) (cm_raw m) d" using assms(1) that by (simp_all add: tracks_def)
    have l: "clock (cm_fs m) \<le> clock s'" "stored s' = stored (cm_fs m) \<or> (\<exists>d u. stored s' = Some (d, u) \<and> clock (cm_fs m) < u)" using assms(2) by (simp_all add: later_def)
    then have "stored (cm_fs m) = Some (d, t)" if "stored s' = Some (d, t)" for d using t(1) that by auto
    then show ?thesis using t l(1) by auto
  qed
  moreover have "t \<le> clock s'" if "cm_refresh m = Some t" for t
  proof -
    have "t \<le> clock (cm_fs m)" "clock (cm_fs m) \<le> clock s'" using assms that by (simp_all add: tracks_def later_def)
    then show ?thesis by simp
  qed
  ultimately show ?thesis using assms(2) by (simp add: tracks_def later_def)
qed

lemma tracks_unaffected: "unaffected later (tracks E)"
proof (rule unaffectedI)
  show "tracks E (m\<lparr>cm_fs := s'\<rparr>)" if "tracks E m" "later (cm_fs m) s'" for m s' by (rule tracks_later [OF that])
qed (simp_all add: tracks_def)

lemma read_ok_later:
  assumes "tracks E m" "read_ok E m r" "later (cm_fs m) s'"
  shows "read_ok E (m\<lparr>cm_fs := s'\<rparr>) r"
  unfolding read_ok_def
proof (intro allI impI)
  fix c raw t d assume a: "r = Inr (c, raw) \<and> cm_refresh (m\<lparr>cm_fs := s'\<rparr>) = Some t \<and> stored (cm_fs (m\<lparr>cm_fs := s'\<rparr>)) = Some (d, t)"
  then have "t \<le> clock (cm_fs m)" using assms(1) by (simp add: tracks_def)
  then have "stored (cm_fs m) = Some (d, t)" using a assms(3) by (auto simp: later_def)
  then show "raw = d \<and> describes E c d" using a assms(2) by (simp add: read_ok_def)
qed

subsection \<open>Calls\<close>

lemma keeps_fs:
  assumes "unaffected R P" "\<And>s r s'. lawful s \<Longrightarrow> f s = (r, s') \<Longrightarrow> R s s'"
  shows "keeps P (on_fs f)"
  by (rule keepsI) (use assms in \<open>auto simp: on_fs_def unaffected_def split: prod.splits\<close>)

lemma keeps_ctx: "unaffected R P \<Longrightarrow> keeps P (on_ctx f)"
  by (rule keepsI) (auto simp: on_ctx_def unaffected_def split: prod.splits)

lemma keeps_look: "unaffected R P \<Longrightarrow> keeps P (look cx)" "unaffected R P \<Longrightarrow> keeps P (lock_file cx)"
  unfolding look_def lock_file_def by (rule keeps_ctx keeps_wrapped; assumption?)+

text \<open>The calls that leave the file alone.\<close>

lemma keeps_stat: "unaffected same P \<Longrightarrow> keeps P (on_fs (op_Stat fs path))"
  by (erule keeps_fs) (use stat_law in \<open>auto simp: same_def\<close>)

lemma keeps_exists: "unaffected same P \<Longrightarrow> keeps P (on_fs (op_FileExists fs path))"
  by (erule keeps_fs) (use exists_law in \<open>auto simp: same_def\<close>)

lemma keeps_read: "unaffected same P \<Longrightarrow> keeps P (on_fs (op_ReadFile fs p))"
  by (erule keeps_fs) (use read_law in \<open>auto simp: same_def\<close>)

lemma keeps_dir: "unaffected same P \<Longrightarrow> keeps P (on_fs (op_ReadDir fs ConfigBackupDir))"
  by (erule keeps_fs) (use dir_law in \<open>auto simp: same_def\<close>)

lemma keeps_ensure: "unaffected same P \<Longrightarrow> p = filepath_Dir path \<or> p = ConfigBackupDir \<Longrightarrow> keeps P (on_fs (op_EnsureDirectory fs p))"
  by (erule keeps_fs) (use ensure_law in \<open>auto simp: same_def\<close>)

lemma keeps_backup: "unaffected same P \<Longrightarrow> plain_name n \<Longrightarrow> keeps P (on_fs (op_WriteFile fs (filepath_Join ConfigBackupDir n) d))"
  by (erule keeps_fs) (use backup_law in \<open>auto simp: same_def\<close>)

lemma keeps_remove: "unaffected same P \<Longrightarrow> plain_name n \<Longrightarrow> keeps P (on_fs (op_Remove fs (filepath_Join ConfigBackupDir n)))"
  by (erule keeps_fs) (use remove_law in \<open>auto simp: same_def\<close>)

lemma keeps_write: "unaffected later P \<Longrightarrow> keeps P (on_fs (op_WriteFile fs path d))"
proof (erule keeps_fs)
  fix s r s' assume "lawful s" "op_WriteFile fs path d s = (r, s')"
  then show "later s s'" using write_law [of s d r s'] by (auto simp: later_def)
qed

subsection \<open>Backups\<close>

lemma yaml_plain:
  assumes "\<And>e. e \<in> set es \<Longrightarrow> CHR ''/'' \<notin> set (fst e)" "n \<in> set (yaml_files es)"
  shows "plain_name n"
proof -
  obtain e where e: "e \<in> set es" "n = fst e" "suffix ''.yaml'' n" using assms(2) by (auto simp: yaml_files_def)
  then obtain x where "n = x @ ''.yaml''" by (auto simp: suffix_def)
  then have "n \<noteq> []" "n \<noteq> ''.''" "n \<noteq> ''..''" by (auto simp: append_eq_Cons_conv)
  then show ?thesis using assms(1) [OF e(1)] e(2) by (simp add: plain_name_def)
qed

lemma keeps_remove_backups: "unaffected same P \<Longrightarrow> \<forall>n \<in> set names. plain_name n \<Longrightarrow> keeps P (remove_backups fs names)"
  by (induction names) (auto intro!: keeps_rules keeps_remove)

lemma oldest_subset: "set (oldest_backups names) \<subseteq> set names"
  using set_take_subset [of "length names - ConfigBackupMaxEntries" "sort names"] by (simp add: oldest_backups_def)

text \<open>A listing is made of plain names.\<close>

lemma triple_dir:
  assumes "unaffected same P"
  shows "triple P (attempt (on_fs (op_ReadDir fs ConfigBackupDir))) (\<lambda>r m. P m \<and> (\<forall>es n. r = Inr es \<and> n \<in> set (yaml_files es) \<longrightarrow> plain_name n)) P"
proof (rule tripleI)
  fix m r m' assume P: "P m" and "attempt (on_fs (op_ReadDir fs ConfigBackupDir)) m = (Inr r, m')"
  then have d: "on_fs (op_ReadDir fs ConfigBackupDir) m = (r, m')" by (simp add: ok_simps)
  have l: "lawful (cm_fs m)" using assms P by (simp add: unaffected_def)
  have "plain_name n" if "r = Inr es" "n \<in> set (yaml_files es)" for es n
    using yaml_plain [OF dir_plain [OF l] that(2)] d that(1) by (auto simp: on_fs_def split: prod.splits)
  then show "P m' \<and> (\<forall>es n. r = Inr es \<and> n \<in> set (yaml_files es) \<longrightarrow> plain_name n)" using keepsD [OF keeps_dir [OF assms] d P] by blast
qed (simp add: ok_simps)

lemma keeps_listing:
  assumes "unaffected same P" "\<And>es. \<forall>n \<in> set (yaml_files es). plain_name n \<Longrightarrow> keeps P (k (Inr es))" "\<And>e. keeps P (k (Inl e))"
  shows "keeps P (call (attempt (on_fs (op_ReadDir fs ConfigBackupDir))) k)"
  unfolding keeps_def
proof (rule triple_call [OF triple_dir [OF assms(1)]])
  fix r show "triple (\<lambda>m. P m \<and> (\<forall>es n. r = Inr es \<and> n \<in> set (yaml_files es) \<longrightarrow> plain_name n)) (k r) (\<lambda>_. P) P"
    using assms(2,3) by (cases r) (auto simp: keeps_def triple_def)
qed

lemma keeps_cleanup:
  assumes "unaffected same P"
  shows "keeps P (cleanupOldBackups fs)"
  unfolding cleanupOldBackups_def
proof (rule keeps_listing [OF assms], goal_cases)
  case (1 es)
  then have "\<forall>n \<in> set (oldest_backups (yaml_files es)). plain_name n" using oldest_subset by blast
  then show ?case by (simp add: keeps_ret keeps_remove_backups [OF assms])
qed (simp add: keeps_ret)

lemma keeps_latest:
  assumes "unaffected same P"
  shows "keeps P (getLatestBackupContent fs)"
  unfolding getLatestBackupContent_def
  by (rule keeps_listing [OF assms]) (auto intro!: keeps_rules keeps_read [OF assms] split: sum.split)

lemma backup_name_plain: "plain_name (backup_name t)"
proof -
  have "CHR ''/'' \<noteq> digit_char (k mod 10)" for k
  proof -
    have "is_digit (digit_char (k mod 10))" by simp
    moreover have "\<not> is_digit (CHR ''/'')" by (simp add: is_digit_def)
    ultimately show ?thesis by metis
  qed
  then have "CHR ''/'' \<notin> set (pad w k)" for w k by (induction w arbitrary: k) auto
  then have "\<And>e. e \<in> set [(backup_name t, False)] \<Longrightarrow> CHR ''/'' \<notin> set (fst e)" by (simp add: backup_name_def Let_def split: prod.split)
  moreover have "suffix (''.yaml'') (backup_name t)"
    by (simp add: backup_name_def Let_def suffix_def split: prod.split)
  then have "backup_name t \<in> set (yaml_files [(backup_name t, False)])" by (simp add: yaml_files_def)
  ultimately show ?thesis by (rule yaml_plain)
qed

lemma keeps_write_backup:
  assumes "unaffected same P"
  shows "keeps P (write_backup fs E content)"
proof (rule keepsI)
  fix m r m' assume P: "P m" and w: "write_backup fs E content m = (r, m')"
  have count: "P (x\<lparr>cm_backups := n\<rparr>)" if "P x" for x n using assms that by (simp add: unaffected_def)
  have "keeps P (\<lambda>m1. cleanupOldBackups fs (m1\<lparr>cm_backups := cm_backups m1 + 1\<rparr>))"
    using keepsD [OF keeps_cleanup [OF assms]] count by (intro keepsI) blast
  then have "keeps P (call (attempt (on_fs (op_WriteFile fs (filepath_Join ConfigBackupDir (backup_name (e_clock E (cm_asked m)))) content))) (\<lambda>w.
       case w of Inl _ \<Rightarrow> ret () | Inr _ \<Rightarrow> (\<lambda>m1. cleanupOldBackups fs (m1\<lparr>cm_backups := cm_backups m1 + 1\<rparr>))))"
    by (auto intro!: keeps_call keeps_attempt keeps_ret keeps_backup [OF assms backup_name_plain] split: sum.split)
  then show "P m'" using w P unfolding write_backup_def by (rule keepsD)
qed

lemma keeps_create_backup:
  assumes "unaffected same P" "e_configPath E = path"
  shows "keeps P (createConfigBackup fs E)"
  unfolding createConfigBackup_def assms(2)
  by (auto intro!: keeps_rules keeps_exists [OF assms(1)] keeps_read [OF assms(1)] keeps_ensure [OF assms(1)] keeps_latest [OF assms(1)]
      keeps_write_backup [OF assms(1)] split: sum.split)

subsection \<open>Operations\<close>

lemma keeps_opening:
  assumes "unaffected same P" "e_configPath E = path"
  shows "keeps P (on_fs (op_EnsureDirectory fs (filepath_Dir (e_configPath E))))"
  unfolding assms(2) by (rule keeps_ensure [OF assms(1)]) simp

text \<open>A successful \<^verbatim>\<open>Stat\<close> gives the time of the file, which is not in the future.\<close>

lemma triple_stat:
  assumes "unaffected same P" "\<And>m. P m \<Longrightarrow> Q m"
  shows "triple P (on_fs (op_Stat fs path)) (\<lambda>i m. P m \<and> (\<exists>d t. stored (cm_fs m) = Some (d, t) \<and> i = Some t \<and> t \<le> clock (cm_fs m))) Q"
proof (rule tripleI)
  fix m i m' assume P: "P m" and s: "on_fs (op_Stat fs path) m = (Inr i, m')"
  then obtain s' where s': "op_Stat fs path (cm_fs m) = (Inr i, s')" "m' = m\<lparr>cm_fs := s'\<rparr>" by (auto simp: on_fs_def split: prod.splits)
  have l: "lawful (cm_fs m)" using assms P by (simp add: unaffected_def)
  obtain d t where "stored (cm_fs m) = Some (d, t)" "i = Some t" using stat_true [OF l s'(1)] by blast
  moreover from this have "t \<le> clock s'" using stamp [OF l] stat_law [OF l s'(1)] by fastforce
  ultimately show "P m' \<and> (\<exists>d t. stored (cm_fs m') = Some (d, t) \<and> i = Some t \<and> t \<le> clock (cm_fs m'))"
    using keepsD [OF keeps_stat [OF assms(1)] s P] s' stat_law [OF l s'(1)] by auto
next
  fix m e m' assume "P m" "on_fs (op_Stat fs path) m = (Inl e, m')"
  then show "Q m'" using keepsD [OF keeps_stat [OF assms(1)]] assms(2) by blast
qed

text \<open>What the operations may do to the cache without harm to \<open>P\<close>.\<close>

definition robust :: "cfg_env \<Rightarrow> ('s cfg_manager \<Rightarrow> bool) \<Rightarrow> bool" where
  "robust E P \<longleftrightarrow> unaffected later P
     \<and> (\<forall>m t. P m \<and> cm_refresh m = None \<and> t \<le> clock (cm_fs m) \<longrightarrow> P (m\<lparr>cm_refresh := Some t\<rparr>))
     \<and> (\<forall>m t c d err. P m \<and> stored (cm_fs m) = Some (d, t) \<and> describes E c d
          \<longrightarrow> P (m\<lparr>cm_modTime := Some t, cm_config := c, cm_raw := d, cm_error := err\<rparr>))
     \<and> (\<forall>m err. P m \<longrightarrow> P (m\<lparr>cm_modTime := None, cm_config := zero_config, cm_raw := [], cm_error := err\<rparr>))"

lemma robust_same: "robust E P \<Longrightarrow> unaffected same P"
  by (simp add: robust_def unaffected_same)

lemma triple_from_cache:
  assumes "robust E P"
  shows "triple (\<lambda>m. P m \<and> t \<le> clock (cm_fs m)) (from_cache t) (\<lambda>_. P) P"
proof -
  have "P (m\<lparr>cm_refresh := Some t\<rparr>)" if "P m" "cm_refresh m = None" "t \<le> clock (cm_fs m)" for m using assms that unfolding robust_def by blast
  then show ?thesis by (auto simp: triple_def from_cache_def Let_def split: option.split)
qed

lemma triple_attempt_stat:
  assumes "unaffected same P"
  shows "triple P (attempt (on_fs (op_Stat fs path)))
    (\<lambda>r m. P m \<and> (\<forall>i. r = Inr i \<longrightarrow> (\<exists>d t. stored (cm_fs m) = Some (d, t) \<and> i = Some t \<and> t \<le> clock (cm_fs m)))) P"
  by (rule triple_attempt [OF triple_weaken [OF triple_stat [OF assms]]]) auto

lemma keeps_GetConfig:
  assumes "robust E P" "e_configPath E = path"
  shows "keeps P (GetConfig fs E cx)"
proof -
  note u = robust_same [OF assms(1)]
  have fin: "keeps P (call (attempt (on_fs (op_Stat fs (e_configPath E)))) (\<lambda>info. case info of
           Inl e \<Rightarrow> if errors_is e err_not_exist then fail (missing E) else fail (Errorf ''failed to stat config file: '' e)
         | Inr None \<Rightarrow> fail (nil_info E) | Inr (Some t) \<Rightarrow> from_cache t))"
    unfolding keeps_def assms(2)
  proof (rule triple_call [OF triple_attempt_stat [OF u]])
    fix r
    show "triple (\<lambda>m. P m \<and> (\<forall>i. r = Inr i \<longrightarrow> (\<exists>d t. stored (cm_fs m) = Some (d, t) \<and> i = Some t \<and> t \<le> clock (cm_fs m))))
      (case r of Inl e \<Rightarrow> if errors_is e err_not_exist then fail (missing E) else fail (Errorf ''failed to stat config file: '' e)
         | Inr None \<Rightarrow> fail (nil_info E) | Inr (Some t) \<Rightarrow> from_cache t) (\<lambda>_. P) P"
      using triple_from_cache [OF assms(1)] by (cases r) (auto simp: triple_def fail_def split: option.split)
  qed
  show ?thesis unfolding GetConfig_def
    apply (rule keeps_call, rule keeps_look(2) [OF u])
    apply (rule keeps_call, rule keeps_look(1) [OF u])
    apply (rule keeps_call, rule keeps_wrapped, rule keeps_opening [OF u assms(2)])
    apply (rule keeps_call, rule keeps_look(1) [OF u])
    apply (rule keeps_call, rule keeps_wrapped)
    using keeps_exists [OF u] apply (simp add: assms(2))
    by (rule keeps_if [OF keeps_fail fin])
qed

lemma keeps_readAndParse:
  assumes "unaffected same P" "e_configPath E = path"
  shows "keeps P (readAndParseConfig fs E cx)"
  unfolding readAndParseConfig_def
  by (intro keeps_call keeps_wrapped keeps_if keeps_fail keeps_ret keeps_look [OF assms(1)] keeps_ctx [OF assms(1)] keeps_read [OF assms(1)])

lemma read_describes:
  assumes "lawful (cm_fs m)" "e_configPath E = path" "readAndParseConfig fs E cx m = (Inr (c, raw), m')"
  shows "(\<exists>t. stored (cm_fs m) = Some (raw, t)) \<and> describes E c raw"
proof -
  obtain data s1 p n n' where d: "op_ReadFile fs path (cm_fs m) = (Inr data, s1)"
    and p: "ParseConfig (e_yaml E) (e_order E) cx False data n = (Inr p, n')" "c = sanitised p" "raw = data"
    using assms(3) unfolding readAndParseConfig_def by (auto simp: ok_simps assms(2) split: if_splits)
  have "\<exists>t. stored (cm_fs m) = Some (data, t)" by (rule read_true [OF assms(1) d])
  then show ?thesis using p unfolding describes_def by blast
qed

text \<open>After the write, the file holds what was written until the cache is updated.\<close>

lemma triple_write:
  assumes "unaffected later P"
  shows "triple P (on_fs (op_WriteFile fs path d)) (\<lambda>_ m. P m \<and> (\<exists>t. stored (cm_fs m) = Some (d, t))) P"
proof (rule tripleI)
  fix m x m' assume P: "P m" and w: "on_fs (op_WriteFile fs path d) m = (Inr x, m')"
  have "lawful (cm_fs m)" using assms P by (simp add: unaffected_def)
  then show "P m' \<and> (\<exists>t. stored (cm_fs m') = Some (d, t))"
    using keepsD [OF keeps_write [OF assms] w P] w write_true by (auto simp: ok_simps)
next
  fix m e m' assume "P m" "on_fs (op_WriteFile fs path d) m = (Inl e, m')"
  then show "P m'" using keepsD [OF keeps_write [OF assms]] by blast
qed

lemma holding_unaffected: "unaffected later P \<Longrightarrow> unaffected same (\<lambda>m. P m \<and> (\<exists>t. stored (cm_fs m) = Some (d, t)))"
  using unaffected_same [of P] by (auto simp: unaffected_def same_def)

lemma triple_keeps: "keeps P m \<Longrightarrow> triple P m (\<lambda>_. P) P"
  by (simp add: keeps_def)

lemma triple_stat_written:
  assumes "robust E P"
  shows "triple (\<lambda>m. P m \<and> (\<exists>t. stored (cm_fs m) = Some (d, t))) (on_fs (op_Stat fs path)) (\<lambda>i m. P m \<and> (\<exists>t. stored (cm_fs m) = Some (d, t) \<and> i = Some t)) P"
proof -
  have "unaffected later P" using assms by (simp add: robust_def)
  from triple_stat [OF holding_unaffected [OF this, of d], where Q = P] show ?thesis by (rule triple_weaken) auto
qed

lemma triple_written:
  assumes "robust E P" "e_configPath E = path" "\<And>i. triple (\<lambda>m. P m \<and> (\<exists>t. stored (cm_fs m) = Some (d, t) \<and> i = Some t)) (k i) (\<lambda>_. P) P"
  shows "keeps P (call (wrapped w1 (on_fs (op_WriteFile fs (e_configPath E) d))) (\<lambda>_.
     call (createConfigBackup fs E) (\<lambda>_. call (wrapped w2 (on_fs (op_Stat fs (e_configPath E)))) k)))"
proof -
  have u: "unaffected later P" using assms(1) by (simp add: robust_def)
  note b = triple_keeps [OF keeps_create_backup [OF holding_unaffected [OF u] assms(2)]]
  show ?thesis unfolding keeps_def assms(2)
    apply (rule triple_call, rule triple_wrapped, rule triple_write [OF u])
    apply (rule triple_call, rule triple_weaken [OF b], assumption, assumption, blast)
    by (rule triple_call, rule triple_wrapped, rule triple_stat_written [OF assms(1)], rule assms(3))
qed

lemma robust_cache:
  assumes "robust E P" "P m" "stored (cm_fs m) = Some (d, t)" "describes E c d"
  shows "P (m\<lparr>cm_modTime := Some t, cm_config := c, cm_raw := d, cm_error := err\<rparr>)" "P (m\<lparr>cm_modTime := Some t, cm_config := c, cm_raw := d\<rparr>)"
proof -
  show r: "P (m\<lparr>cm_modTime := Some t, cm_config := c, cm_raw := d, cm_error := err\<rparr>)" for err
    using assms unfolding robust_def by blast
  show "P (m\<lparr>cm_modTime := Some t, cm_config := c, cm_raw := d\<rparr>)" using r [of "cm_error m"] by simp
qed

lemma robust_clear: "robust E P \<Longrightarrow> P m \<Longrightarrow> P (m\<lparr>cm_modTime := None, cm_config := zero_config, cm_raw := [], cm_error := err\<rparr>)"
  unfolding robust_def by blast

lemma keeps_writeConfig:
  assumes "robust E P" "e_configPath E = path"
  shows "keeps P (writeConfig fs E cx config)"
proof -
  note u = robust_same [OF assms(1)]
  have fin: "keeps P (call (wrapped ''failed to marshal config: '' (lift_result (y_Marshal (e_yaml E) y))) (\<lambda>data.
     call (wrapped ''failed to write config file: '' (on_fs (op_WriteFile fs (e_configPath E) data))) (\<lambda>_.
     call (createConfigBackup fs E) (\<lambda>_.
     call (wrapped ''failed to get file stats: '' (on_fs (op_Stat fs (e_configPath E)))) (\<lambda>info.
       case info of None \<Rightarrow> fail (ErrorNew 334 ''panic: nil pointer dereference'') | Some t \<Rightarrow> cache_written t config data)))))"
    (is "keeps P (call ?mar ?k)") if "convertSpecToYaml (e_order E) cx config n = (Inr y, n')" for y n n'
  proof (rule keepsI)
    fix m r m' assume P: "P m" and c: "call ?mar ?k m = (r, m')"
    show "P m'"
    proof (cases "y_Marshal (e_yaml E) y")
      case (Inl e)
      then show ?thesis using c P by (auto simp: call_def wrapped_def lift_result_def)
    next
      case (Inr data)
      have d: "describes E config data" using that Inr unfolding describes_def by blast
      have "keeps P (?k data)"
        by (rule triple_written [OF assms]) (use robust_cache(2) [OF assms(1) _ _ d] in \<open>auto simp: triple_def cache_written_def\<close>)
      moreover have "?k data m = (r, m')" using c Inr by (simp add: call_def wrapped_def lift_result_def)
      ultimately show ?thesis using P by (rule keepsD)
    qed
  qed
  have conv: "keeps P (call (wrapped ''failed to convert spec to yaml: '' (on_ctx (convertSpecToYaml (e_order E) cx config))) k)"
    if k: "\<And>y n n'. convertSpecToYaml (e_order E) cx config n = (Inr y, n') \<Longrightarrow> keeps P (k y)" for k
  proof (rule keepsI)
    fix m r m' assume P: "P m" and c: "call (wrapped ''failed to convert spec to yaml: '' (on_ctx (convertSpecToYaml (e_order E) cx config))) k m = (r, m')"
    obtain q n' where q: "convertSpecToYaml (e_order E) cx config (cm_asked m) = (q, n')" by fastforce
    have P': "P (m\<lparr>cm_asked := n'\<rparr>)" using u P by (simp add: unaffected_def)
    show "P m'"
    proof (cases q)
      case (Inl e)
      then show ?thesis using c q P' by (auto simp: call_def wrapped_def on_ctx_def)
    next
      case (Inr y)
      then have "k y (m\<lparr>cm_asked := n'\<rparr>) = (r, m')" using c q by (simp add: call_def wrapped_def on_ctx_def)
      then show ?thesis using keepsD [OF k] q Inr P' by blast
    qed
  qed
  show ?thesis unfolding writeConfig_def
    by (rule keeps_call, rule keeps_look(2) [OF u], rule keeps_call, rule keeps_look(1) [OF u],
        rule keeps_call, rule keeps_wrapped, rule keeps_opening [OF u assms(2)], rule conv, rule fin)
qed

lemma keeps_WriteYAML:
  assumes "robust E P" "e_configPath E = path"
  shows "keeps P (WriteYAMLConfigFromString fs E cx str expected)"
proof -
  note u = robust_same [OF assms(1)]
  have parse: "P m' \<and> cm_fs m' = cm_fs m" if "P m" "on_ctx f m = (r, m')" for m r m' and f :: "(nat, 'a) act"
    using keepsD [OF keeps_ctx [OF u] that(2,1)] that(2) by (auto simp: on_ctx_def split: prod.splits)
  have upd: "triple (\<lambda>m. P m \<and> (\<exists>t. stored (cm_fs m) = Some (str, t) \<and> i = Some t))
     (call (attempt (on_ctx (ParseConfig (e_yaml E) (e_order E) cx True str))) (\<lambda>r m.
       case r of
         Inl e \<Rightarrow> (Inl (Errorf ''failed to parse new config for cache update: '' e),
                   m\<lparr>cm_modTime := None, cm_config := zero_config, cm_raw := [], cm_error := Some e\<rparr>)
       | Inr newConfig \<Rightarrow>
           (case i of
              None \<Rightarrow> (Inl (ErrorNew 334 ''panic: nil pointer dereference''), m)
            | Some t \<Rightarrow> (Inr (), m\<lparr>cm_modTime := Some t, cm_config := newConfig, cm_raw := str, cm_error := None\<rparr>)))) (\<lambda>_. P) P"
    (is "triple ?pre ?act _ _") for i
    unfolding triple_def
  proof (intro allI impI)
    fix m assume pre: "?pre m"
    then obtain t where t: "P m" "stored (cm_fs m) = Some (str, t)" "i = Some t" by blast
    obtain q n where q: "ParseConfig (e_yaml E) (e_order E) cx True str (cm_asked m) = (q, n)" by fastforce
    have P': "P (m\<lparr>cm_asked := n\<rparr>)" using u t(1) by (simp add: unaffected_def)
    have zero: "P (m\<lparr>cm_asked := n, cm_modTime := None, cm_config := zero_config, cm_raw := [], cm_error := Some e\<rparr>)" for e
      by (rule robust_clear [OF assms(1) P'])
    show "case ?act m of (Inl _, m') \<Rightarrow> P m' | (Inr _, m') \<Rightarrow> P m'"
    proof (cases q)
      case (Inl e)
      then show ?thesis using q zero by (simp add: call_def attempt_def on_ctx_def)
    next
      case (Inr c)
      then have d: "describes E c str" using q unfolding describes_def by blast
      show ?thesis using Inr q t robust_cache(1) [OF assms(1) P' _ d, of t None] by (simp add: call_def attempt_def on_ctx_def)
    qed
  qed
  show ?thesis unfolding WriteYAMLConfigFromString_def
    apply (rule keeps_call, rule keeps_attempt, rule keeps_ctx [OF u])
    subgoal for strict
      apply (rule keeps_call, cases strict)
        apply (auto intro!: keeps_rules keeps_ctx [OF u])[2]
      apply (rule keeps_call, rule keeps_look(2) [OF u])
      apply (rule keeps_call)
       apply (auto intro!: keeps_rules keeps_stat [OF u] split: sum.split option.split simp: assms(2))[1]
      by (rule keeps_call, rule keeps_wrapped, rule keeps_opening [OF u assms(2)], rule triple_written [OF assms upd])
    done
qed

subsection \<open>The whole\<close>

definition sys_ok :: "cfg_env \<Rightarrow> (goerror + (full_config \<times> string)) option \<Rightarrow> 's cfg_manager \<Rightarrow> bool" where
  "sys_ok E rd m \<longleftrightarrow> tracks E m \<and> (\<forall>r. rd = Some r \<longrightarrow> cm_refresh m \<noteq> None \<and> read_ok E m r)"

lemma tracks_cache:
  assumes "tracks E m" "stored (cm_fs m) = Some (d, t)" "serves E c raw d"
  shows "tracks E (m\<lparr>cm_modTime := Some t, cm_config := c, cm_raw := raw, cm_error := err\<rparr>)"
  using assms stamp [of "cm_fs m" d t] by (simp add: tracks_def)

lemma robust_sys_ok: "robust E (sys_ok E rd)"
  unfolding robust_def
proof (intro conjI allI impI)
  show "unaffected later (sys_ok E rd)"
    by (rule unaffectedI) (auto simp: sys_ok_def tracks_later intro: read_ok_later, simp_all add: tracks_def read_ok_def)
  fix m t assume "sys_ok E rd m \<and> cm_refresh m = None \<and> t \<le> clock (cm_fs m)"
  then show "sys_ok E rd (m\<lparr>cm_refresh := Some t\<rparr>)" by (cases rd) (auto simp: sys_ok_def tracks_def)
next
  fix m t c d err assume a: "sys_ok E rd m \<and> stored (cm_fs m) = Some (d, t) \<and> describes E c d"
  then have "serves E c d d" by (simp add: serves_def)
  then show "sys_ok E rd (m\<lparr>cm_modTime := Some t, cm_config := c, cm_raw := d, cm_error := err\<rparr>)"
    using a tracks_cache [of E m d t c d err] by (simp add: sys_ok_def read_ok_def)
next
  fix m err assume "sys_ok E rd m"
  then show "sys_ok E rd (m\<lparr>cm_modTime := None, cm_config := zero_config, cm_raw := [], cm_error := err\<rparr>)"
    by (simp add: sys_ok_def tracks_def read_ok_def)
qed

lemma read_step:
  assumes "tracks E m" "e_configPath E = path" "readAndParseConfig fs E cx m = (r, m')"
  shows "tracks E m' \<and> stored (cm_fs m') = stored (cm_fs m) \<and> cm_refresh m' = cm_refresh m
    \<and> (\<forall>c raw. r = Inr (c, raw) \<longrightarrow> (\<exists>t. stored (cm_fs m') = Some (raw, t)) \<and> describes E c raw)"
proof -
  let ?P = "\<lambda>x. tracks E x \<and> stored (cm_fs x) = stored (cm_fs m) \<and> cm_refresh x = cm_refresh m"
  have "unaffected same ?P"
  proof (rule unaffectedI)
    fix x s' assume "?P x" "same (cm_fs x) s'"
    then show "?P (x\<lparr>cm_fs := s'\<rparr>)" using tracks_later [of E x s'] same_later [of "cm_fs x" s'] by (simp add: same_def)
  qed (simp_all add: tracks_def)
  then have "?P m'" using keepsD [OF keeps_readAndParse [OF _ assms(2)] assms(3)] assms(1) by blast
  moreover have "lawful (cm_fs m)" using assms(1) by (simp add: tracks_def)
  ultimately show ?thesis using read_describes [OF _ assms(2)] assms(3) by auto
qed

lemma commit_tracks:
  assumes "tracks E m" "t \<le> clock (cm_fs m)" "\<And>c raw d. r = Inr (c, raw) \<Longrightarrow> stored (cm_fs m) = Some (d, t) \<Longrightarrow> raw = d \<and> describes E c d"
  shows "tracks E (refresh_commit t r m)"
proof (cases r)
  case (Inl e)
  then show ?thesis using assms(1,2) by (simp add: refresh_commit_def tracks_def serves_def)
next
  case (Inr cr)
  then show ?thesis using assms by (cases cr) (simp add: refresh_commit_def tracks_def serves_def)
qed

lemma start_tracks:
  assumes "lawful s" "e_configPath E = path"
  shows "tracks E (NewFileConfigManager fs E cx s)"
proof -
  let ?m0 = "\<lparr>cm_fs = s, cm_asked = 0, cm_modTime = None, cm_config = zero_config, cm_raw = [], cm_error = None, cm_refresh = None, cm_backups = 0\<rparr>"
  obtain r m1 where r: "readAndParseConfig fs E cx ?m0 = (r, m1)" by fastforce
  have "tracks E ?m0" using assms(1) by (simp add: tracks_def)
  note s1 = read_step [OF this assms(2) r]
  obtain i m2 where i: "on_fs (op_Stat fs path) m1 = (i, m2)" by fastforce
  have l: "lawful (cm_fs m1)" using s1 by (simp add: tracks_def)
  have m2: "tracks E m2" "stored (cm_fs m2) = stored (cm_fs m1)"
  proof -
    show "tracks E m2" using keepsD [OF keeps_stat [OF unaffected_same [OF tracks_unaffected]] i] s1 by blast
    show "stored (cm_fs m2) = stored (cm_fs m1)" using i stat_law [OF l] by (auto simp: on_fs_def split: prod.splits)
  qed
  have com: "tracks E (refresh_commit t r m2)" if it: "i = Inr (Some t)" for t
  proof (rule commit_tracks [OF m2(1)])
    obtain d where d: "stored (cm_fs m1) = Some (d, t)" using stat_true [OF l] i unfolding it by (auto simp: ok_simps)
    then show "t \<le> clock (cm_fs m2)" using m2 stamp [of "cm_fs m2" d t] by (simp add: tracks_def)
    show "raw = d' \<and> describes E c d'" if "r = Inr (c, raw)" "stored (cm_fs m2) = Some (d', t)" for c raw d'
      using that s1 m2(2) by auto
  qed
  have err: "tracks E (m2\<lparr>cm_error := x\<rparr>)" for x using m2(1) by (simp add: tracks_def)
  show ?thesis using r i com err by (auto simp: NewFileConfigManager_def assms(2) split: sum.split option.split)
qed

lemma step_ok:
  assumes "e_configPath E = path" "sys_ok E (sys_read w) (sys_m w)"
  shows "sys_ok E (sys_read (cfg_step fs E ev w)) (sys_m (cfg_step fs E ev w))"
proof (cases ev)
  note R = robust_sys_ok [of E "sys_read w"]
  have u: "unaffected later (sys_ok E (sys_read w))" using R by (simp add: robust_def)
  have get: "keeps (sys_ok E (sys_read w)) (GetConfig fs E cx)" for cx by (rule keeps_GetConfig [OF R assms(1)])
  have keep: "sys_ok E (sys_read w) (snd (act (sys_m w)))" if "keeps (sys_ok E (sys_read w)) act" for act :: "('s, 'x) cfg_act"
    using keepsD [OF that] assms(2) by (metis prod.collapse)
  {
    case (EvGetConfig cx)
    then show ?thesis using keep [OF get] by simp
  next
    case (EvRefreshRead cx)
    show ?thesis
    proof (cases "cm_refresh (sys_m w) = None \<or> sys_read w \<noteq> None")
      case True
      then show ?thesis using EvRefreshRead assms(2) by auto
    next
      case False
      obtain r m' where r: "readAndParseConfig fs E cx (sys_m w) = (r, m')" by fastforce
      have "tracks E (sys_m w)" using assms(2) by (simp add: sys_ok_def)
      note s = read_step [OF this assms(1) r]
      then have "read_ok E m' r" unfolding read_ok_def by (metis option.inject prod.inject)
      then show ?thesis using False EvRefreshRead r s by (auto simp: sys_ok_def)
    qed
  next
    case EvRefreshCommit
    show ?thesis
    proof (cases "cm_refresh (sys_m w) = None \<or> sys_read w = None")
      case True
      then show ?thesis using EvRefreshCommit assms(2) by (auto split: option.splits)
    next
      case False
      then obtain t r where t: "cm_refresh (sys_m w) = Some t" "sys_read w = Some r" by auto
      have "tracks E (refresh_commit t r (sys_m w))"
        by (rule commit_tracks) (use assms(2) t in \<open>auto simp: sys_ok_def tracks_def read_ok_def\<close>)
      then show ?thesis using t EvRefreshCommit by (simp add: sys_ok_def)
    qed
  next
    case (EvBeginEdit cx op)
    have "keeps (sys_ok E (sys_read w)) (lift_result x :: ('s, 'x) cfg_act)" for x :: "goerror + 'x"
      by (rule keepsI) (simp add: lift_result_def)
    then have "keeps (sys_ok E (sys_read w)) (begin_edit fs E cx op)"
      unfolding begin_edit_def by (intro keeps_call keeps_wrapped get keeps_look [OF u])
    from keep [OF this] show ?thesis using EvBeginEdit assms(2) by (auto split: prod.splits sum.splits)
  next
    case (EvFinishEdit cx)
    have "keeps (sys_ok E (sys_read w)) (finish_edit fs E cx p)" for p
      unfolding finish_edit_def by (auto intro!: keeps_rules keeps_writeConfig [OF R assms(1)] split: prod.split option.split)
    from keep [OF this] show ?thesis using EvFinishEdit assms(2) by (auto split: option.splits)
  next
    case (EvWriteYAML cx str expected)
    then show ?thesis using keep [OF keeps_WriteYAML [OF R assms(1)]] by simp
  next
    case (EvExternal d)
    then show ?thesis using keep [OF keeps_write [OF u]] by (simp add: assms(1))
  }
qed

lemma run_ok:
  assumes "lawful s" "e_configPath E = path"
  shows "sys_ok E (sys_read (cfg_run fs E evs (cfg_start fs E cx s))) (sys_m (cfg_run fs E evs (cfg_start fs E cx s)))"
proof (induction evs rule: rev_induct)
  case Nil
  show ?case using start_tracks [OF assms] by (simp add: cfg_run_def cfg_start_def sys_ok_def)
next
  case (snoc ev evs)
  then show ?case using step_ok [OF assms(2) snoc] by (simp add: cfg_run_def)
qed

lemma get_served:
  assumes "sys_ok E rd m" "e_configPath E = path" "GetConfig fs E cx m = (Inr c, m')"
  shows "\<exists>d t. stored (cm_fs m') = Some (d, t) \<and>
    (if cm_modTime m' = Some t then serves E c (cm_raw m') d else c = cm_config m \<and> \<not> isEmptyConfig c \<and> cm_refresh m' \<noteq> None)"
proof -
  have tr: "tracks E m'" using keepsD [OF keeps_GetConfig [OF robust_sys_ok assms(2)] assms(3,1)] by (simp add: sys_ok_def)
  obtain sa s0 n t s1 where e: "op_EnsureDirectory fs (filepath_Dir (e_configPath E)) (cm_fs m) = (Inr (), sa)" "op_FileExists fs (e_configPath E) sa = (Inr True, s0)"
    and s: "op_Stat fs (e_configPath E) s0 = (Inr (Some t), s1)" "from_cache t (m\<lparr>cm_asked := n, cm_fs := s1\<rparr>) = (Inr c, m')"
    by (rule GetConfig_split [OF assms(3)])
  note e = e [unfolded assms(2)] and s = s [unfolded assms(2)]
  have "lawful (cm_fs m)" using assms(1) by (simp add: sys_ok_def tracks_def)
  then have "lawful sa" using ensure_law e(1) by blast
  then have l: "lawful s0" using exists_law e(2) by blast
  obtain d where d: "stored s0 = Some (d, t)" using stat_true [OF l s(1)] by auto
  have m': "cm_fs m' = s1" "cm_modTime m' = cm_modTime m" "cm_raw m' = cm_raw m" "cm_config m' = cm_config m" "c = cm_config m"
    "cm_modTime m \<noteq> Some t \<Longrightarrow> \<not> isEmptyConfig c \<and> cm_refresh m' \<noteq> None"
    using s(2) by (auto simp: from_cache_def Let_def split: if_splits option.splits)
  have "stored (cm_fs m') = Some (d, t)" using m'(1) stat_law [OF l s(1)] d by simp
  then show ?thesis using tr m' by (auto simp: tracks_def)
qed

end

section \<open>Properties\<close>


end
