(* ===== verification/Config_Calm.thy ===== *)
theory Config_Calm
  imports Config_Props
begin

text \<open>
  The configuration manager when the file system works: every call succeeds, the data directory is
  there. What a read after a change of the file returns, what an atomic operation leaves behind, and
  what goes wrong without any failure.
\<close>

section \<open>A file system that works\<close>

definition calm :: "FileService \<Rightarrow> bool" where
  "calm s \<longleftrightarrow> config_lawful s \<and> fv_fates s = [] \<and> map_of (fv_tree s) data_dir = Some NDir"

lemma calm_next_fate: "fv_fates s = [] \<Longrightarrow> next_fate s = (fine, s\<lparr>fv_now := fv_now s + 1\<rparr>)"
  by (simp add: next_fate_def)

lemma calm_with_context: "fv_fates s = [] \<Longrightarrow> with_context wrap body s = body fine (s\<lparr>fv_now := fv_now s + 1\<rparr>)"
  by (simp add: with_context_def calm_next_fate fine_def)

lemma invalidate_fates [simp]: "fv_fates (invalidatePathCache p s) = fv_fates s"
  by (simp add: invalidatePathCache_def Let_def)

lemma fates_stay:
  assumes "fv_fates s = []"
  shows "fv_fates (snd (fs_Stat p s)) = []" "fv_fates (snd (FileExists p s)) = []" "fv_fates (snd (ReadFile p s)) = []"
    "fv_fates (snd (ReadDir p s)) = []" "fv_fates (snd (EnsureDirectory p s)) = []" "fv_fates (snd (WriteFile p d s)) = []"
    "fv_fates (snd (fs_Remove p s)) = []"
  using assms
  by (auto simp: fs_Stat_def FileExists_def PathExists_def ReadFile_def ReadDir_def EnsureDirectory_def WriteFile_def fs_Remove_def
      calm_with_context Let_def pathExistsUncached_def readFileUncached_def readDirUncached_def os_change_def
      split: option.split sum.split prod.split node.split if_split bool.split)

text \<open>The data directory stays.\<close>

definition dir_stays :: "tree \<Rightarrow> tree \<Rightarrow> bool" where
  "dir_stays t t' \<longleftrightarrow> (map_of t data_dir = Some NDir \<longrightarrow> map_of t' data_dir = Some NDir)"

lemma dir_stays_refl [simp]: "dir_stays t t"
  by (simp add: dir_stays_def)

lemma dir_stays_put: "q \<noteq> data_dir \<Longrightarrow> dir_stays t (put_node q n t)"
  by (simp add: dir_stays_def map_of_put)

lemma dir_stays_dirs: "dir_stays t (fold make_dir qs t)"
proof (induction qs arbitrary: t)
  case (Cons q qs)
  have "dir_stays t (make_dir q t)" by (simp add: dir_stays_def make_dir_def map_of_put)
  then show ?case using Cons.IH [of "make_dir q t"] by (simp add: dir_stays_def)
qed (simp add: dir_stays_def)

lemma Ensure_dir_stays:
  assumes "EnsureDirectory p s = (r, s')" "unlinked (fv_tree s)" "below data_dir p"
  shows "dir_stays (fv_tree s) (fv_tree s')"
  using assms(1) unfolding EnsureDirectory_def
proof (rule with_contextE)
  fix f s1 assume b: "(let q = resolve (fv_tree s1) p; made = fold make_dir (ancestors q @ [q])
       in os_change (''failed to create directory '' @ p @ '': '') made (\<lambda>t. if ft_effect f q \<and> link_of t q = None then made t else t)
            (if link_of (fv_tree s1) q \<noteq> None then Some err_loop
             else case map_of (fv_tree s1) q of Some (NFile _ _) \<Rightarrow> Some err_not_dir | _ \<Rightarrow> None) id f s1) = (r, s')" and t: "fv_tree s1 = fv_tree s"
  show ?thesis using b unfolding t Let_def
    by (rule os_changeE) (use dir_stays_dirs [of "fv_tree s" "ancestors (resolve (fv_tree s) p) @ [resolve (fv_tree s) p]"] t in \<open>auto split: if_splits\<close>)
qed (simp add: dir_stays_def)

lemma Write_dir_stays:
  assumes "WriteFile p d s = (r, s')" "unlinked (fv_tree s)" "below data_dir p" "p \<noteq> data_dir" "read_inv s"
  shows "dir_stays (fv_tree s) (fv_tree s')"
proof -
  have "fv_tree s' = fv_tree s \<or> (\<exists>d'. fv_tree s' = put_node p (NFile d' (fv_now s')) (fv_tree s))"
    using Write_effect [OF assms(1-3,5)] by blast
  then show ?thesis using dir_stays_put [OF assms(4)] by (auto simp: dir_stays_def)
qed

lemma Remove_dir_stays:
  assumes "fs_Remove p s = (r, s')" "unlinked (fv_tree s)" "below data_dir p" "p \<noteq> data_dir"
  shows "dir_stays (fv_tree s) (fv_tree s')"
proof -
  have "\<not> (\<exists>tg. map_of (fv_tree s) p = Some (NLink tg))"
    using unlinked_path [OF assms(2,3)] unfolding link_of_None by (auto dest!: map_of_SomeD)
  then have "resolve_parent (fv_tree s) p = p"
    using resolve_data [OF assms(2,3)] by (auto simp: resolve_parent_def split: option.splits node.splits)
  then show ?thesis using assms(1,4) next_fate_tree [of s] unfolding fs_Remove_def with_context_def
    by (auto simp: Let_def dir_stays_def map_of_cut split: option.splits prod.splits if_splits)
qed

lemma calm_step:
  assumes "calm s" "config_lawful s'" "fv_fates s' = []" "dir_stays (fv_tree s) (fv_tree s')"
  shows "calm s'"
  using assms by (simp add: calm_def dir_stays_def)


lemma calm_parts: "calm s \<Longrightarrow> config_lawful s \<and> fv_fates s = [] \<and> map_of (fv_tree s) data_dir = Some NDir \<and> unlinked (fv_tree s) \<and> read_inv s"
  by (simp add: calm_def config_lawful_def)

lemma snd_result: "f s = (r, s') \<Longrightarrow> snd (f s) = s'"
  by simp

lemma backup_not_dir:
  "plain_name n \<Longrightarrow> filepath_Join ConfigBackupDir n \<noteq> data_dir"
  "DefaultConfigPath \<noteq> data_dir"
proof -
  have "ConfigBackupDir @ ''/'' @ n \<noteq> data_dir" by (simp add: ConfigBackupDir_def data_dir_def)
  then show "filepath_Join ConfigBackupDir n \<noteq> data_dir" if "plain_name n" using backup_path(1) [OF that] by simp
qed (simp add: data_dir_def DefaultConfigPath_def)

interpretation cmf: config_files DefaultService DefaultConfigPath config_file calm fv_now
proof (unfold_locales, unfold DefaultService_simps, goal_cases)
  case (1 s d t)
  then show ?case using lawful_stamp calm_parts by blast
next
  case (2 s ri s')
  note p = calm_parts [OF 2(1)]
  show ?case using cfs.stat_law [of s ri s'] p 2 calm_step [OF 2(1), of s'] Stat_tree [OF 2(2)] fates_stay(1) [of s DefaultConfigPath] by simp
next
  case (3 s i s')
  then show ?case using cfs.stat_true [of s i s'] calm_parts [OF 3(1)] by simp
next
  case (4 s rb s')
  have "fv_tree s' = fv_tree s" using PathExists_tree [of DefaultConfigPath s rb s'] 4(2) by (simp add: FileExists_def)
  then show ?case using cfs.exists_law [of s rb s'] calm_parts [OF 4(1)] 4 calm_step [OF 4(1), of s'] fates_stay(2) [of s DefaultConfigPath] by simp
next
  case (5 s p rs s')
  then show ?case using cfs.read_law [of s p rs s'] calm_parts [OF 5(1)] calm_step [OF 5(1), of s'] ReadFile_tree [OF 5(2)] fates_stay(3) [of s p] by simp
next
  case (6 s d s')
  then show ?case using cfs.read_true [of s d s'] calm_parts [OF 6(1)] by simp
next
  case (7 s re s')
  then show ?case using cfs.dir_law [of s re s'] calm_parts [OF 7(1)] calm_step [OF 7(1), of s'] ReadDir_tree [OF 7(2)] fates_stay(4) [of s ConfigBackupDir] by simp
next
  case (8 s es s' e)
  then show ?case using cfs.dir_plain [of s es s' e] calm_parts [OF 8(1)] by simp
next
  case (9 s p ru s')
  have b: "below data_dir p" using 9(2) data_paths by auto
  show ?case using cfs.ensure_law [of s p ru s'] calm_parts [OF 9(1)] calm_step [OF 9(1), of s'] 9 Ensure_dir_stays [OF 9(3) _ b] fates_stay(5) [of s p] by simp
next
  case (10 s d ru s')
  then show ?case using cfs.write_law [of s d ru s'] calm_parts [OF 10(1)] calm_step [OF 10(1), of s']
      Write_dir_stays [OF 10(2) _ data_paths(1) backup_not_dir(2)] fates_stay(6) [of s DefaultConfigPath d] by simp
next
  case (11 s d s')
  then show ?case using cfs.write_true [of s d s'] calm_parts [OF 11(1)] by simp
next
  case (12 s n d ru s')
  note p = calm_parts [OF 12(1)] and b = backup_path [OF 12(2)]
  show ?case using cfs.backup_law [of s n d ru s'] p 12 calm_step [OF 12(1), of s']
      Write_dir_stays [OF 12(3) _ b(2) backup_not_dir(1) [OF 12(2)]] fates_stay(6) [of s "filepath_Join ConfigBackupDir n" d] by simp
next
  case (13 s n ru s')
  note p = calm_parts [OF 13(1)] and b = backup_path [OF 13(2)]
  show ?case using cfs.remove_law [of s n ru s'] p 13 calm_step [OF 13(1), of s']
      Remove_dir_stays [OF 13(3) _ b(2) backup_not_dir(1) [OF 13(2)]] fates_stay(7) [of s "filepath_Join ConfigBackupDir n"] by simp
qed


subsection \<open>Every call succeeds\<close>

lemma calm_file_node:
  assumes "calm s" "config_file s = Some (d, t)"
  shows "os_node (fv_tree s) DefaultConfigPath = Some (NFile d t)"
  using config_node [of s] assms by (simp add: calm_def)

lemma calm_ensure: "calm s \<Longrightarrow> \<exists>s'. EnsureDirectory data_dir s = (Inr (), s') \<and> calm s' \<and> config_file s' = config_file s"
proof -
  assume c: "calm s"
  note p = calm_parts [OF c]
  obtain s' where s': "EnsureDirectory data_dir s = (Inr (), s')"
    using p unlinked_path [of "fv_tree s" data_dir] resolve_data [of "fv_tree s" data_dir]
    by (simp add: EnsureDirectory_def calm_with_context os_change_def fine_def Let_def)
  then show ?thesis using cmf.ensure_law [of s data_dir "Inr ()" s'] c by (simp add: data_paths(4))
qed

lemma calm_exists:
  assumes "calm s" "config_file s = Some (d, t)"
  shows "\<exists>s'. FileExists DefaultConfigPath s = (Inr True, s') \<and> calm s' \<and> config_file s' = config_file s"
proof -
  have "\<exists>s'. FileExists DefaultConfigPath s = (Inr True, s')"
    using calm_parts [OF assms(1)] calm_file_node [OF assms]
    by (auto simp: FileExists_def PathExists_def calm_with_context Let_def pathExistsUncached_def fine_def split: option.split)
  then show ?thesis using cmf.exists_law [OF assms(1)] by fastforce
qed

lemma calm_stat:
  assumes "calm s" "config_file s = Some (d, t)"
  shows "\<exists>s'. fs_Stat DefaultConfigPath s = (Inr (Some t), s') \<and> calm s' \<and> config_file s' = config_file s"
proof -
  have "\<exists>s'. fs_Stat DefaultConfigPath s = (Inr (Some t), s')"
    using calm_parts [OF assms(1)] calm_file_node [OF assms] by (simp add: fs_Stat_def calm_with_context fine_def stat_node_def)
  then show ?thesis using cmf.stat_law [OF assms(1)] by fastforce
qed

lemma calm_read:
  assumes "calm s" "config_file s = Some (d, t)"
  shows "\<exists>s'. ReadFile DefaultConfigPath s = (Inr d, s') \<and> calm s' \<and> config_file s' = config_file s"
proof -
  have "\<exists>x s'. ReadFile DefaultConfigPath s = (Inr x, s')"
    using calm_parts [OF assms(1)] calm_file_node [OF assms]
    by (auto simp: ReadFile_def calm_with_context fine_def readFileUncached_def stat_node_def Let_def split: option.split)
  then obtain x s' where r: "ReadFile DefaultConfigPath s = (Inr x, s')" by blast
  then have "x = d" using cmf.read_true [of s x s'] assms by simp
  then show ?thesis using r cmf.read_law [OF assms(1), of DefaultConfigPath "Inr x" s'] by simp
qed

lemma calm_write:
  assumes "calm s"
  shows "\<exists>s'. WriteFile DefaultConfigPath d s = (Inr (), s') \<and> calm s' \<and> config_file s' = Some (d, fv_now s')"
proof -
  note p = calm_parts [OF assms]
  have nd: "map_of (fv_tree s) DefaultConfigPath \<noteq> Some NDir" using p by (simp add: config_lawful_def)
  obtain s' where s': "WriteFile DefaultConfigPath d s = (Inr (), s')"
    using p nd unlinked_path [OF _ data_paths(1), of "fv_tree s"] resolve_data [OF _ data_paths(1), of "fv_tree s"]
    by (simp add: WriteFile_def calm_with_context os_change_def fine_def Let_def data_paths(4))
  then show ?thesis using cmf.write_true [OF assms] cmf.write_law [OF assms] by simp
qed

subsection \<open>The operations\<close>

lemma quiet_look: "quiet cx \<Longrightarrow> look cx m = (Inr (), m\<lparr>cm_asked := Suc (cm_asked m)\<rparr>)"
  by (simp add: look_def on_ctx_def ask_quiet)

lemma quiet_lock: "quiet cx \<Longrightarrow> lock_file cx m = (Inr (), m\<lparr>cm_asked := Suc (cm_asked m)\<rparr>)"
  by (simp add: lock_file_def wrapped_def quiet_look)

lemma calm_GetConfig:
  assumes "calm (cm_fs m)" "config_file (cm_fs m) = Some (d, t)" "quiet cx" "e_configPath E = DefaultConfigPath"
  shows "\<exists>s' n. calm s' \<and> config_file s' = Some (d, t) \<and> GetConfig DefaultService E cx m = from_cache t (m\<lparr>cm_asked := n, cm_fs := s'\<rparr>)"
proof -
  note q = quiet_look [OF assms(3)] quiet_lock [OF assms(3)]
  obtain s1 where s1: "EnsureDirectory data_dir (cm_fs m) = (Inr (), s1)" "calm s1" "config_file s1 = Some (d, t)"
    using calm_ensure [OF assms(1)] assms(2) by auto
  obtain s2 where s2: "FileExists DefaultConfigPath s1 = (Inr True, s2)" "calm s2" "config_file s2 = Some (d, t)"
    using calm_exists [OF s1(2,3)] s1(3) by auto
  obtain s3 where s3: "fs_Stat DefaultConfigPath s2 = (Inr (Some t), s3)" "calm s3" "config_file s3 = Some (d, t)"
    using calm_stat [OF s2(2,3)] s2(3) by auto
  have "GetConfig DefaultService E cx m = from_cache t (m\<lparr>cm_asked := Suc (Suc (Suc (cm_asked m))), cm_fs := s3\<rparr>)"
    unfolding GetConfig_def by (simp add: call_def q wrapped_def on_fs_def assms(4) data_paths(4) s1(1) s2(1) s3(1) attempt_def)
  then show ?thesis using s3 by blast
qed


text \<open>What the file parses to, whenever the context is asked.\<close>

definition parses :: "cfg_env \<Rightarrow> gctx \<Rightarrow> string \<Rightarrow> full_config \<Rightarrow> bool" where
  "parses E cx d p \<longleftrightarrow> (\<forall>n. fst (ParseConfig (e_yaml E) (e_order E) cx False d n) = Inr p)"

definition broken :: "cfg_env \<Rightarrow> gctx \<Rightarrow> string \<Rightarrow> bool" where
  "broken E cx d \<longleftrightarrow> (\<forall>n. isl (fst (ParseConfig (e_yaml E) (e_order E) cx False d n)))"

lemma calm_readAndParse:
  assumes "calm (cm_fs m)" "config_file (cm_fs m) = Some (d, t)" "quiet cx" "e_configPath E = DefaultConfigPath"
  shows "\<exists>r s' n. readAndParseConfig DefaultService E cx m = (r, m\<lparr>cm_fs := s', cm_asked := n\<rparr>) \<and> calm s' \<and> config_file s' = Some (d, t)
    \<and> (parses E cx d p \<and> \<not> isEmptyConfig p \<longrightarrow> r = Inr (sanitised p, d)) \<and> (broken E cx d \<longrightarrow> isl r)"
proof -
  note q = quiet_look [OF assms(3)]
  obtain s1 where s1: "ReadFile DefaultConfigPath (cm_fs m) = (Inr d, s1)" "calm s1" "config_file s1 = Some (d, t)"
    using calm_read [OF assms(1,2)] assms(2) by auto
  obtain x n where x: "ParseConfig (e_yaml E) (e_order E) cx False d (Suc (cm_asked m)) = (x, n)" by fastforce
  show ?thesis
  proof (cases x)
    case (Inl e)
    then have "readAndParseConfig DefaultService E cx m = (Inl (Errorf ''failed to parse config file: '' e), m\<lparr>cm_fs := s1, cm_asked := n\<rparr>)"
      unfolding readAndParseConfig_def by (simp add: call_def q wrapped_def on_fs_def on_ctx_def assms(4) s1(1) x)
    moreover have "\<not> parses E cx d p" using x Inl unfolding parses_def by (metis fst_conv sum.simps(4))
    ultimately show ?thesis using s1 by auto
  next
    case (Inr c)
    then have "readAndParseConfig DefaultService E cx m =
        ((if isEmptyConfig c then Inl (ErrorNew 333 (''config file is empty: '' @ e_configPath E)) else Inr (sanitised c, d)), m\<lparr>cm_fs := s1, cm_asked := Suc n\<rparr>)"
      unfolding readAndParseConfig_def by (simp add: call_def q wrapped_def on_fs_def on_ctx_def assms(4) s1(1) x fail_def ret_def)
    moreover have "\<not> broken E cx d" "parses E cx d p \<Longrightarrow> c = p" using x Inr unfolding broken_def parses_def by (metis fst_conv sum.disc(2), metis fst_conv sum.inject(2))
    ultimately show ?thesis using s1 by auto
  qed
qed

text \<open>A read that finds a new file starts a refresh; the refresh; the next read.\<close>

lemma two_reads:
  assumes "calm (cm_fs m)" "config_file (cm_fs m) = Some (d, t)" "quiet cx" "e_configPath E = DefaultConfigPath"
    and "cm_modTime m \<noteq> Some t" "cm_refresh m = None"
  defines "m1 \<equiv> backgroundRefresh DefaultService E cx (snd (GetConfig DefaultService E cx m))"
  shows "\<exists>r. m1 = refresh_commit t r (m1\<lparr>cm_refresh := Some t\<rparr>) \<and> calm (cm_fs m1) \<and> config_file (cm_fs m1) = Some (d, t)
    \<and> (parses E cx d p \<and> \<not> isEmptyConfig p \<longrightarrow> r = Inr (sanitised p, d)) \<and> (broken E cx d \<longrightarrow> isl r)"
proof -
  obtain s' n where g: "calm s'" "config_file s' = Some (d, t)" "GetConfig DefaultService E cx m = from_cache t (m\<lparr>cm_asked := n, cm_fs := s'\<rparr>)"
    using calm_GetConfig [OF assms(1-4)] by blast
  let ?m0 = "m\<lparr>cm_asked := n, cm_fs := s', cm_refresh := Some t\<rparr>"
  have m0: "snd (GetConfig DefaultService E cx m) = ?m0" unfolding g(3) using assms(5,6) by (simp add: from_cache_def Let_def split: option.split)
  obtain r s2 n2 where r: "readAndParseConfig DefaultService E cx ?m0 = (r, ?m0\<lparr>cm_fs := s2, cm_asked := n2\<rparr>)" "calm s2" "config_file s2 = Some (d, t)"
    "parses E cx d p \<and> \<not> isEmptyConfig p \<longrightarrow> r = Inr (sanitised p, d)" "broken E cx d \<longrightarrow> isl r"
    using calm_readAndParse [of ?m0 d t cx E p] g assms(3,4) by auto
  have m1: "m1 = refresh_commit t r (?m0\<lparr>cm_fs := s2, cm_asked := n2\<rparr>)" unfolding m1_def m0 backgroundRefresh_def by (simp add: r(1))
  have "refresh_commit t r ((refresh_commit t r x)\<lparr>cm_refresh := Some t\<rparr>) = refresh_commit t r x" "cm_fs (refresh_commit t r x) = cm_fs x" for x :: "FileService cfg_manager"
    by (auto simp: refresh_commit_def split: sum.split)
  then show ?thesis using r m1 by (intro exI [of _ r]) simp
qed


subsection \<open>Writing\<close>

lemma remove_backups_ok: "\<exists>m'. remove_backups F names m = (Inr (), m')"
  by (induction names arbitrary: m) (auto simp: ret_def call_def attempt_def split: prod.splits)

lemma backup_never_fails: "\<exists>m'. createConfigBackup F E m = (Inr (), m')"
proof -
  have clean: "\<exists>m'. cleanupOldBackups F m = (Inr (), m')" for m
    unfolding cleanupOldBackups_def using remove_backups_ok by (auto simp: ret_def call_def attempt_def split: prod.splits sum.splits)
  have wr: "\<exists>m'. write_backup F E c m = (Inr (), m')" for c m
    unfolding write_backup_def using clean by (auto simp: ret_def call_def attempt_def split: prod.splits sum.splits)
  have latest: "\<exists>x m'. getLatestBackupContent F m = (Inr x, m')" for m
    unfolding getLatestBackupContent_def by (auto simp: ret_def call_def attempt_def split: prod.splits sum.splits)
  have last: "\<exists>m'. call (getLatestBackupContent F) (\<lambda>latest. if latest = Some content then ret () else write_backup F E content) m = (Inr (), m')" for content m
    using latest [of m] wr by (auto simp: call_def ret_def)
  show ?thesis unfolding createConfigBackup_def
    using last by (auto simp: ret_def call_def [of "attempt _"] attempt_def split: prod.splits sum.splits)
qed

text \<open>The backup leaves the file and the cache alone.\<close>

lemma calm_backup:
  assumes "calm (cm_fs m)" "e_configPath E = DefaultConfigPath"
  shows "\<exists>s' n b. createConfigBackup DefaultService E m = (Inr (), m\<lparr>cm_fs := s', cm_asked := n, cm_backups := b\<rparr>) \<and> calm s' \<and> config_file s' = config_file (cm_fs m)"
proof -
  let ?P = "\<lambda>x. calm (cm_fs x) \<and> config_file (cm_fs x) = config_file (cm_fs m)
    \<and> x = m\<lparr>cm_fs := cm_fs x, cm_asked := cm_asked x, cm_backups := cm_backups x\<rparr>"
  have rest: "x = m\<lparr>cm_fs := cm_fs x, cm_asked := cm_asked x, cm_backups := cm_backups x\<rparr> \<longleftrightarrow>
      cm_modTime x = cm_modTime m \<and> cm_config x = cm_config m \<and> cm_raw x = cm_raw m \<and> cm_error x = cm_error m \<and> cm_refresh x = cm_refresh m" for x
    by (cases x; cases m) auto
  have "cmf.unaffected cmf.same ?P" unfolding rest
    by (rule cmf.unaffectedI) (auto simp: cmf.same_def)
  from cmf.keeps_create_backup [OF this assms(2)] have k: "keeps ?P (createConfigBackup DefaultService E)" .
  obtain m' where m': "createConfigBackup DefaultService E m = (Inr (), m')" using backup_never_fails by blast
  have "?P m" using assms(1) by simp
  then have "?P m'" by (rule keepsD [OF k m'])
  then show ?thesis using m' by (intro exI [of _ "cm_fs m'"] exI [of _ "cm_asked m'"] exI [of _ "cm_backups m'"]) simp
qed

lemma calm_writeConfig:
  assumes "calm (cm_fs m)" "quiet cx" "e_configPath E = DefaultConfigPath" "range_order (e_order E)" "writable c"
    and "\<forall>y. \<exists>body. y_Marshal (e_yaml E) y = Inr body"
  shows "\<exists>m' y n n' body t'. writeConfig DefaultService E cx c m = (Inr (), m') \<and> convertSpecToYaml (e_order E) cx c n = (Inr y, n')
    \<and> y_Marshal (e_yaml E) y = Inr body \<and> calm (cm_fs m') \<and> config_file (cm_fs m') = Some (body, t') \<and> cm_config m' = c \<and> cm_modTime m' = Some t' \<and> cm_raw m' = body"
proof -
  note q = quiet_look [OF assms(2)] quiet_lock [OF assms(2)]
  obtain s1 where s1: "EnsureDirectory data_dir (cm_fs m) = (Inr (), s1)" "calm s1" using calm_ensure [OF assms(1)] by auto
  obtain y n' where y: "convertSpecToYaml (e_order E) cx c (Suc (Suc (cm_asked m))) = (Inr y, n')"
    using convertSpecToYaml_quiet [OF assms(2,4), of c "Suc (Suc (cm_asked m))"] assms(5) by auto
  obtain body where body: "y_Marshal (e_yaml E) y = Inr body" using assms(6) by blast
  obtain s2 where s2: "WriteFile DefaultConfigPath body s1 = (Inr (), s2)" "calm s2" "config_file s2 = Some (body, fv_now s2)" using calm_write [OF s1(2)] by blast
  let ?m2 = "m\<lparr>cm_asked := n', cm_fs := s2\<rparr>"
  obtain s3 k b where s3: "createConfigBackup DefaultService E ?m2 = (Inr (), ?m2\<lparr>cm_fs := s3, cm_asked := k, cm_backups := b\<rparr>)" "calm s3" "config_file s3 = Some (body, fv_now s2)"
    using calm_backup [of ?m2 E] s2 assms(3) by auto
  obtain s4 where s4: "fs_Stat DefaultConfigPath s3 = (Inr (Some (fv_now s2)), s4)" "calm s4" "config_file s4 = Some (body, fv_now s2)"
    using calm_stat [OF s3(2,3)] s3(3) by auto
  have "\<exists>m'. writeConfig DefaultService E cx c m = (Inr (), m') \<and> cm_fs m' = s4 \<and> cm_config m' = c \<and> cm_modTime m' = Some (fv_now s2) \<and> cm_raw m' = body"
    using s3(1) unfolding writeConfig_def
    by (simp add: call_def q wrapped_def on_fs_def on_ctx_def lift_result_def assms(3) data_paths(4) s1(1) y body s2(1) s4(1) cache_written_def)
  then show ?thesis using y body s4 by blast
qed


section \<open>Properties\<close>

text \<open>The cached configuration is what a read returns: it is as old as the file, or good enough meanwhile.\<close>

definition answers :: "'s cfg_manager \<Rightarrow> int \<Rightarrow> bool" where
  "answers m t \<longleftrightarrow> cm_modTime m = Some t \<or> \<not> isEmptyConfig (cm_config m) \<and> cm_error m = None"

lemma answers_from_cache: "answers m t \<Longrightarrow> \<exists>m1. from_cache t m = (Inr (cm_config m), m1) \<and> cm_fs m1 = cm_fs m"
  by (cases "cm_modTime m = Some t"; cases "cm_refresh m = None") (auto simp: from_cache_def Let_def answers_def)

lemma calm_atomic:
  assumes "calm (cm_fs m)" "config_file (cm_fs m) = Some (d, t)" "quiet cx" "e_configPath E = DefaultConfigPath" "range_order (e_order E)"
    and "\<forall>y. \<exists>body. y_Marshal (e_yaml E) y = Inr body" "answers m t"
    and "edit_of (e_uuid E) op (cm_config m) = Inr (Some c, r)" "writable c"
  shows "\<exists>m' y n n' body t'. atomic_edit DefaultService E cx op m = (Inr r, m') \<and> convertSpecToYaml (e_order E) cx c n = (Inr y, n')
    \<and> y_Marshal (e_yaml E) y = Inr body \<and> calm (cm_fs m') \<and> config_file (cm_fs m') = Some (body, t') \<and> cm_config m' = c \<and> cm_modTime m' = Some t' \<and> cm_raw m' = body"
proof -
  let ?m0 = "m\<lparr>cm_asked := Suc (cm_asked m)\<rparr>"
  obtain s1 k where g: "calm s1" "config_file s1 = Some (d, t)" "GetConfig DefaultService E cx ?m0 = from_cache t (?m0\<lparr>cm_asked := k, cm_fs := s1\<rparr>)"
    using calm_GetConfig [of ?m0 d t cx E] assms(1-4) by auto
  obtain m1 where m1: "from_cache t (?m0\<lparr>cm_asked := k, cm_fs := s1\<rparr>) = (Inr (cm_config m), m1)" "cm_fs m1 = s1"
    using answers_from_cache [of "?m0\<lparr>cm_asked := k, cm_fs := s1\<rparr>" t] assms(7) by (auto simp: answers_def)
  have g': "GetConfig DefaultService E cx ?m0 = (Inr (cm_config m), m1)" using g(3) m1(1) by (simp only:)
  have c1: "calm (cm_fs m1)" using m1(2) g(1) by simp
  obtain m' y n n' body t' where w: "writeConfig DefaultService E cx c m1 = (Inr (), m')" "convertSpecToYaml (e_order E) cx c n = (Inr y, n')"
    "y_Marshal (e_yaml E) y = Inr body" "calm (cm_fs m')" "config_file (cm_fs m') = Some (body, t')" "cm_config m' = c" "cm_modTime m' = Some t'" "cm_raw m' = body"
    using calm_writeConfig [OF c1 assms(3-5,9,6)] by blast
  have "atomic_edit DefaultService E cx op m = (Inr r, m')"
    unfolding atomic_edit_def begin_edit_def
    by (simp add: call_def quiet_lock [OF assms(3)] wrapped_def g' lift_result_def assms(8) finish_edit_def w(1) ret_def)
  then show ?thesis using w(2-8) by blast
qed

text \<open>
  C10: an atomic operation does what its edit says. When the file system works and the edited
  configuration can be written, the operation returns the result of the edit, the file holds the
  written form of the edited configuration, and the next read returns that configuration.
\<close>

theorem atomic_edit_effect:
  assumes "calm (cm_fs m)" "config_file (cm_fs m) = Some (d, t)" "quiet cx" "e_configPath E = DefaultConfigPath" "range_order (e_order E)"
    and "\<forall>y. \<exists>body. y_Marshal (e_yaml E) y = Inr body" "answers m t"
    and "edit_of (e_uuid E) op (cm_config m) = Inr (Some c, r)" "writable c"
  shows "\<exists>m' y n n' body t'. atomic_edit DefaultService E cx op m = (Inr r, m') \<and> convertSpecToYaml (e_order E) cx c n = (Inr y, n')
    \<and> y_Marshal (e_yaml E) y = Inr body \<and> config_file (cm_fs m') = Some (body, t') \<and> fst (GetConfig DefaultService E cx m') = Inr c"
proof -
  obtain m' y n n' body t' where a: "atomic_edit DefaultService E cx op m = (Inr r, m')" "convertSpecToYaml (e_order E) cx c n = (Inr y, n')"
    "y_Marshal (e_yaml E) y = Inr body" "calm (cm_fs m')" "config_file (cm_fs m') = Some (body, t')" "cm_config m' = c" "cm_modTime m' = Some t'"
    using calm_atomic [OF assms] by blast
  obtain s' k where "GetConfig DefaultService E cx m' = from_cache t' (m'\<lparr>cm_asked := k, cm_fs := s'\<rparr>)"
    using calm_GetConfig [OF a(4,5) assms(3,4)] by blast
  then have "fst (GetConfig DefaultService E cx m') = Inr c" using a(6,7) by (simp add: from_cache_def)
  then show ?thesis using a by blast
qed

text \<open>
  A change of the file is seen by the second read. When the file system works, after one read of
  a changed file and the refresh it starts, every further read of the unchanged file returns what the
  file says, with an unknown release channel replaced.
\<close>

theorem second_read_fresh:
  assumes "calm (cm_fs m)" "config_file (cm_fs m) = Some (d, t)" "quiet cx" "e_configPath E = DefaultConfigPath"
    and "cm_modTime m \<noteq> Some t" "cm_refresh m = None" "parses E cx d p" "\<not> isEmptyConfig p"
  shows "fst (GetConfig DefaultService E cx (backgroundRefresh DefaultService E cx (snd (GetConfig DefaultService E cx m)))) = Inr (sanitised p)"
proof -
  let ?m1 = "backgroundRefresh DefaultService E cx (snd (GetConfig DefaultService E cx m))"
  obtain r where r: "?m1 = refresh_commit t r (?m1\<lparr>cm_refresh := Some t\<rparr>)" "calm (cm_fs ?m1)" "config_file (cm_fs ?m1) = Some (d, t)" "r = Inr (sanitised p, d)"
    using two_reads [OF assms(1-6), of p] assms(7,8) by blast
  have c: "cm_modTime ?m1 = Some t" "cm_config ?m1 = sanitised p"
    by (subst r(1), simp add: r(4) refresh_commit_def)+
  obtain s' k where "GetConfig DefaultService E cx ?m1 = from_cache t (?m1\<lparr>cm_asked := k, cm_fs := s'\<rparr>)"
    using calm_GetConfig [OF r(2,3) assms(3,4)] by blast
  then show ?thesis using c by (simp add: from_cache_def)
qed

text \<open>
  C39: a file that cannot be parsed makes the manager serve the empty configuration, without an error.
  After one read of the broken file and the refresh it starts, every further read succeeds with the
  empty configuration: the refresh puts it into the cache with the time of the file, and the fast
  path does not look at the error. An atomic operation then replaces the file by the written form of
  the empty configuration with its edit; here the addition of a data flow component.
\<close>

theorem broken_file_serves_empty:
  assumes "calm (cm_fs m)" "config_file (cm_fs m) = Some (d, t)" "quiet cx" "e_configPath E = DefaultConfigPath" "range_order (e_order E)"
    and "cm_modTime m \<noteq> Some t" "cm_refresh m = None" "broken E cx d" "\<forall>y. \<exists>body. y_Marshal (e_yaml E) y = Inr body"
  defines "m1 \<equiv> backgroundRefresh DefaultService E cx (snd (GetConfig DefaultService E cx m))"
  shows "fst (GetConfig DefaultService E cx m1) = Inr zero_config
    \<and> (\<exists>m2 t2 body n. atomic_edit DefaultService E cx (AddDataflow dfc) m1 = (Inr EDone, m2) \<and> config_file (cm_fs m2) = Some (body, t2)
       \<and> (\<exists>y n'. convertSpecToYaml (e_order E) cx (zero_config\<lparr>fc_DataFlow := [dfc], fc_Alloc := True\<rparr>) n = (Inr y, n') \<and> y_Marshal (e_yaml E) y = Inr body))"
proof
  obtain r where r: "m1 = refresh_commit t r (m1\<lparr>cm_refresh := Some t\<rparr>)" "calm (cm_fs m1)" "config_file (cm_fs m1) = Some (d, t)" "isl r"
    using two_reads [OF assms(1-4,6,7), of undefined] assms(8) unfolding m1_def by blast
  obtain e where e: "r = Inl e" using r(4) by (cases r) auto
  have c: "cm_modTime m1 = Some t" "cm_config m1 = zero_config"
    by (subst r(1), simp add: e refresh_commit_def)+
  obtain s' k where "GetConfig DefaultService E cx m1 = from_cache t (m1\<lparr>cm_asked := k, cm_fs := s'\<rparr>)"
    using calm_GetConfig [OF r(2,3) assms(3,4)] by blast
  then show "fst (GetConfig DefaultService E cx m1) = Inr zero_config" using c by (simp add: from_cache_def)
  have ed: "edit_of (e_uuid E) (AddDataflow dfc) (cm_config m1) = Inr (Some (zero_config\<lparr>fc_DataFlow := [dfc], fc_Alloc := True\<rparr>), EDone)"
    unfolding c(2) by (simp add: edit_AddDataflow_def write_back_def zero_config_def)
  have "writable (zero_config\<lparr>fc_DataFlow := [dfc], fc_Alloc := True\<rparr>)" by (simp add: writable_def roots_agree_def zero_config_def)
  moreover have "answers m1 t" using c by (simp add: answers_def)
  ultimately show "\<exists>m2 t2 body n. atomic_edit DefaultService E cx (AddDataflow dfc) m1 = (Inr EDone, m2) \<and> config_file (cm_fs m2) = Some (body, t2)
       \<and> (\<exists>y n'. convertSpecToYaml (e_order E) cx (zero_config\<lparr>fc_DataFlow := [dfc], fc_Alloc := True\<rparr>) n = (Inr y, n') \<and> y_Marshal (e_yaml E) y = Inr body)"
    using calm_atomic [OF r(2,3) assms(3-5,9) _ ed] by blast
qed

text \<open>
  An atomic operation right after a change of the file by someone else undoes that change. The
  read inside the operation returns the cached configuration and only starts a refresh, so that the
  file is replaced by the written form of the edit of the old configuration, whatever the new text
  was.
\<close>

theorem stale_edit_overwrites:
  assumes "calm (cm_fs m)" "quiet cx" "e_configPath E = DefaultConfigPath" "range_order (e_order E)"
    and "\<forall>y. \<exists>body. y_Marshal (e_yaml E) y = Inr body" "\<not> isEmptyConfig (cm_config m)" "cm_error m = None"
    and "edit_of (e_uuid E) op (cm_config m) = Inr (Some c, r)" "writable c"
    and "on_fs (WriteFile DefaultConfigPath other) m = (Inr (), m1)"
  shows "\<exists>m2 y n n' body t2. config_file (cm_fs m1) = Some (other, fv_now (cm_fs m1)) \<and> atomic_edit DefaultService E cx op m1 = (Inr r, m2)
    \<and> convertSpecToYaml (e_order E) cx c n = (Inr y, n') \<and> y_Marshal (e_yaml E) y = Inr body \<and> config_file (cm_fs m2) = Some (body, t2)"
proof -
  obtain s' where s': "WriteFile DefaultConfigPath other (cm_fs m) = (Inr (), s')" "m1 = m\<lparr>cm_fs := s'\<rparr>" using assms(10) by (auto simp: ok_simps)
  have w: "calm s'" "config_file s' = Some (other, fv_now s')" using calm_write [OF assms(1), of other] s'(1) by auto
  have "answers m1 (fv_now s')" using assms(6,7) s'(2) by (simp add: answers_def)
  then show ?thesis using calm_atomic [of m1 other "fv_now s'" cx E op c r] w s'(2) assms(2-5,8,9) by auto
qed


text \<open>
  The manager with backoff never hands out an empty configuration for a suspended read. While the
  backoff suspends reads, or after too many failures, the answer is an error and the file is not
  touched; an answer without error is that of the manager, and it ends the suspension.
\<close>

theorem backoff_guards_reads:
  "case backoff_GetConfig nextBackOff reset F E cx tick (b, m) of ((err, c), b', m') \<Rightarrow>
     (ShouldSkipOperation b tick \<longrightarrow> err \<noteq> None \<and> cm_fs m' = cm_fs m \<and> b' = b)
   \<and> (err = None \<longrightarrow> (\<exists>m1. GetConfig F E cx m1 = (Inr c, m') \<and> cm_fs m1 = cm_fs m) \<and> lastError b' = None \<and> \<not> permanentFailure b')"
proof -
  have skip: "ShouldSkipOperation b tick \<Longrightarrow> GetBackoffError b tick \<noteq> None"
    by (auto simp: ShouldSkipOperation_def GetBackoffError_def word_neq_0_conv split: if_splits)
  obtain r m1 where l: "look cx m = (r, m1)" by fastforce
  then have fs: "cm_fs m1 = cm_fs m" by (auto simp: look_def on_ctx_def split: prod.splits)
  show ?thesis using skip fs by (cases r; cases "GetConfig F E cx m1")
    (auto simp: backoff_GetConfig_def l Reset_def split: sum.splits prod.splits)
qed

section \<open>Witnesses\<close>

definition demo_disk :: "string \<Rightarrow> FileService" where
  "demo_disk d = NewFileService [(''/data'', NDir), (''/data/config.yaml'', NFile d 5)] 10 []"

definition demo_file_config :: full_config where
  "demo_file_config = zero_config\<lparr>fc_DataFlow := [demo_flow ''x''], fc_Alloc := True\<rparr>"

definition demo_cfg_env :: cfg_env where
  "demo_cfg_env = \<lparr>e_configPath = DefaultConfigPath, e_backupEnabled = True,
     e_yaml = demo_yaml\<lparr>y_Decode := (\<lambda>_ s. if s = ''good'' then Inr demo_file_config else Inl (ErrorNew 1 ''yaml''))\<rparr>,
     e_order = demo_order, e_uuid = id, e_rfc3339 = (\<lambda>_. []), e_clock = (\<lambda>_. 0)\<rparr>"

definition demo_manager :: "FileService \<Rightarrow> FileService cfg_manager" where
  "demo_manager s = \<lparr>cm_fs = s, cm_asked = 0, cm_modTime = Some 3, cm_config = demo_config, cm_raw = [], cm_error = None, cm_refresh = None, cm_backups = 0\<rparr>"

lemma demo_calm: "calm (demo_disk d)" "config_file (demo_disk d) = Some (d, 5)"
  by (auto simp: calm_def config_lawful_def read_inv_def demo_disk_def NewFileService_def tree_files_def cache_files_def stamps_unique_def sizes_ok_def
      unlinked_def plain_listings_def plain_cache_def config_file_def DefaultConfigPath_def data_dir_def below_def)

lemma demo_env_facts: "e_configPath demo_cfg_env = DefaultConfigPath" "range_order (e_order demo_cfg_env)" "\<forall>y. \<exists>body. y_Marshal (e_yaml demo_cfg_env) y = Inr body"
  by (simp_all add: demo_cfg_env_def range_demo_order demo_yaml_def)

lemma demo_parses: "parses demo_cfg_env live ''good'' demo_file_config" "broken demo_cfg_env live ''bad''"
proof -
  have "convertYamlToSpec Y demo_order live demo_file_config n = (Inr demo_file_config, Suc n)" for Y n
    by (simp add: convertYamlToSpec_def call_def ask_quiet [OF quiet_live] ret_def demo_order_def demo_file_config_def zero_config_def sorted_list_of_fset.rep_eq)
  then show "parses demo_cfg_env live ''good'' demo_file_config"
    by (simp add: parses_def ParseConfig_def call_def wrapped_def lift_result_def demo_cfg_env_def)
  show "broken demo_cfg_env live ''bad''"
    by (simp add: broken_def ParseConfig_def call_def wrapped_def lift_result_def demo_cfg_env_def)
qed

lemma demo_not_empty: "\<not> isEmptyConfig demo_file_config" "\<not> isEmptyConfig demo_config"
  by (simp_all add: isEmptyConfig_def configWithDefaults_def demo_file_config_def demo_config_def zero_config_def)

lemma demo_manager_simps [simp]: "cm_fs (demo_manager s) = s" "cm_modTime (demo_manager s) = Some 3" "cm_config (demo_manager s) = demo_config"
  "cm_refresh (demo_manager s) = None" "cm_error (demo_manager s) = None"
  by (simp_all add: demo_manager_def)

lemma demo_edit:
  "edit_of (e_uuid demo_cfg_env) (DeleteDataflow ''y'') demo_config = Inr (Some (demo_config\<lparr>fc_DataFlow := [demo_flow ''x''], fc_Alloc := True\<rparr>), EDone)"
  "writable (demo_config\<lparr>fc_DataFlow := [demo_flow ''x''], fc_Alloc := True\<rparr>)"
  by (simp_all add: edit_DeleteDataflow_def write_back_def demo_cfg_env_def demo_config_simps writable_def roots_agree_def root_config_def is_root_def)

theorem atomic_edit_effect_witness:
  "\<exists>m'. atomic_edit DefaultService demo_cfg_env live (DeleteDataflow ''y'') (demo_manager (demo_disk ''good'')) = (Inr EDone, m')
    \<and> fst (GetConfig DefaultService demo_cfg_env live m') = Inr (demo_config\<lparr>fc_DataFlow := [demo_flow ''x''], fc_Alloc := True\<rparr>)"
  using atomic_edit_effect [of "demo_manager (demo_disk ''good'')" "''good''" 5 live demo_cfg_env "DeleteDataflow ''y''"]
    demo_calm quiet_live demo_env_facts demo_edit demo_not_empty by (auto simp: answers_def)

theorem second_read_fresh_witness:
  "fst (GetConfig DefaultService demo_cfg_env live (backgroundRefresh DefaultService demo_cfg_env live
     (snd (GetConfig DefaultService demo_cfg_env live (demo_manager (demo_disk ''good'')))))) = Inr (sanitised demo_file_config)"
  using second_read_fresh [of "demo_manager (demo_disk ''good'')" "''good''" 5 live demo_cfg_env demo_file_config]
    demo_calm quiet_live demo_env_facts demo_parses demo_not_empty by simp

theorem broken_file_serves_empty_witness:
  "fst (GetConfig DefaultService demo_cfg_env live (backgroundRefresh DefaultService demo_cfg_env live
     (snd (GetConfig DefaultService demo_cfg_env live (demo_manager (demo_disk ''bad'')))))) = Inr zero_config"
  using broken_file_serves_empty [of "demo_manager (demo_disk ''bad'')" "''bad''" 5 live demo_cfg_env]
    demo_calm quiet_live demo_env_facts demo_parses by simp

theorem stale_edit_overwrites_witness:
  "\<exists>m1 m2 body t2. config_file (cm_fs m1) = Some (''new'', fv_now (cm_fs m1))
    \<and> atomic_edit DefaultService demo_cfg_env live (DeleteDataflow ''y'') m1 = (Inr EDone, m2) \<and> config_file (cm_fs m2) = Some (body, t2)"
proof -
  obtain s' where "WriteFile DefaultConfigPath ''new'' (demo_disk ''good'') = (Inr (), s')" using calm_write [OF demo_calm(1)] by blast
  then have w: "on_fs (WriteFile DefaultConfigPath ''new'') (demo_manager (demo_disk ''good'')) = (Inr (), (demo_manager (demo_disk ''good''))\<lparr>cm_fs := s'\<rparr>)"
    by (simp add: on_fs_def)
  have m: "calm (cm_fs (demo_manager (demo_disk ''good'')))" "\<not> isEmptyConfig (cm_config (demo_manager (demo_disk ''good'')))"
    "cm_error (demo_manager (demo_disk ''good'')) = None"
    "edit_of (e_uuid demo_cfg_env) (DeleteDataflow ''y'') (cm_config (demo_manager (demo_disk ''good''))) = Inr (Some (demo_config\<lparr>fc_DataFlow := [demo_flow ''x''], fc_Alloc := True\<rparr>), EDone)"
    using demo_calm(1) demo_not_empty(2) demo_edit(1) by simp_all
  from stale_edit_overwrites [OF m(1) quiet_live demo_env_facts m(2-4) demo_edit(2) w] show ?thesis by blast
qed

theorem backoff_guards_reads_witness:
  "case backoff_GetConfig (\<lambda>x. (0, x)) id DefaultService demo_cfg_env live 7
      (\<lparr>lastError = Some (ErrorNew 1 ''e''), backoff = (), suspendedUntilTick = 9, ticksToWait = 5, permanentFailure = False\<rparr>, demo_manager (demo_disk ''good''))
    of ((err, c), b', m') \<Rightarrow> err \<noteq> None \<and> cm_fs m' = demo_disk ''good''"
  using backoff_guards_reads [where nextBackOff = "\<lambda>x. (0, x)" and reset = id and F = DefaultService and E = demo_cfg_env and cx = live and tick = 7
      and b = "\<lparr>lastError = Some (ErrorNew 1 ''e''), backoff = (), suspendedUntilTick = 9, ticksToWait = 5, permanentFailure = False\<rparr>" and m = "demo_manager (demo_disk ''good'')"]
  by (simp add: ShouldSkipOperation_def split: prod.splits)


lemma demo_start:
  "cm_modTime (NewFileConfigManager DefaultService demo_cfg_env live (demo_disk ''good'')) = Some 5"
  "cm_config (NewFileConfigManager DefaultService demo_cfg_env live (demo_disk ''good'')) = sanitised demo_file_config"
  "calm (cm_fs (NewFileConfigManager DefaultService demo_cfg_env live (demo_disk ''good'')))"
  "config_file (cm_fs (NewFileConfigManager DefaultService demo_cfg_env live (demo_disk ''good''))) = Some (''good'', 5)"
proof -
  let ?m0 = "\<lparr>cm_fs = demo_disk ''good'', cm_asked = 0, cm_modTime = None, cm_config = zero_config, cm_raw = [], cm_error = None, cm_refresh = None, cm_backups = 0\<rparr>"
  have c: "calm (cm_fs ?m0)" "config_file (cm_fs ?m0) = Some (''good'', 5)" using demo_calm [of "''good''"] by simp_all
  obtain s1 n where r: "readAndParseConfig DefaultService demo_cfg_env live ?m0 = (Inr (sanitised demo_file_config, ''good''), ?m0\<lparr>cm_fs := s1, cm_asked := n\<rparr>)"
    "calm s1" "config_file s1 = Some (''good'', 5)"
    using calm_readAndParse [OF c quiet_live demo_env_facts(1), of demo_file_config] demo_parses(1) demo_not_empty(1) by blast
  obtain s2 where s2: "fs_Stat DefaultConfigPath s1 = (Inr (Some 5), s2)" "calm s2" "config_file s2 = Some (''good'', 5)"
    using calm_stat [OF r(2,3)] r(3) by auto
  have "NewFileConfigManager DefaultService demo_cfg_env live (demo_disk ''good'') =
      refresh_commit 5 (Inr (sanitised demo_file_config, ''good'')) (?m0\<lparr>cm_fs := s2, cm_asked := n\<rparr>)"
    using s2(1) by (simp add: NewFileConfigManager_def r(1) on_fs_def demo_env_facts(1))
  then show "cm_modTime (NewFileConfigManager DefaultService demo_cfg_env live (demo_disk ''good'')) = Some 5"
    "cm_config (NewFileConfigManager DefaultService demo_cfg_env live (demo_disk ''good'')) = sanitised demo_file_config"
    "calm (cm_fs (NewFileConfigManager DefaultService demo_cfg_env live (demo_disk ''good'')))"
    "config_file (cm_fs (NewFileConfigManager DefaultService demo_cfg_env live (demo_disk ''good''))) = Some (''good'', 5)"
    using s2 by (simp_all add: refresh_commit_def)
qed


end
