(* ===== verification/Spec2Isabelle.thy ===== *)
theory Spec2Isabelle
  imports S6_Manager S6_Logs S6_Removal Port_Manager Topic_Communicator Schema_Props
    Delta_Sync Config_Calm
begin

text \<open>
  A verification development for UMH Core (directory \<^verbatim>\<open>src/umh-core\<close>), the edge gateway that keeps a
  set of supervised processes (data flows, bridges, brokers) in line with a configuration file and
  streams the topics it sees to a management console.

  \<^bold>\<open>The program's parts and their theories.\<close>

  \<^item> \<open>UMH_Prelude\<close>: Go error values with wrapping, the string functions applied to them, machine
    integers, generic lemmas.
  \<^item> \<open>Backoff\<close>: \<^verbatim>\<open>pkg/backoff\<close> over the vendored retry policy. State: the last error, the policy,
    the tick until which work is suspended, the permanent flag. The policy is reached through the
    contract \<open>retry_policy\<close>, interpreted on the policy the program builds.
  \<^item> \<open>Base_FSM\<close>: \<^verbatim>\<open>internal/fsm\<close> over the vendored state machine: lifecycle, events, removal,
    permanent errors, detection of stuck instances. Every concrete instance extends its record.
  \<^item> \<open>Base_Manager\<close>: \<^verbatim>\<open>pkg/fsm/base_manager.go\<close>: creation, update and removal with rate limits,
    batching, escalation. It is generic in the injected functions; the contract
    \<open>managed_instance\<close> says what it relies on.
  \<^item> \<open>S6_FSM\<close>, \<open>S6_Runs\<close>, \<open>S6_Manager\<close>: \<^verbatim>\<open>pkg/fsm/s6\<close>: the state machine of one supervised
    process, its reachable states, calls and runs, and its manager, on which \<open>managed_instance\<close> is
    interpreted.
  \<^item> \<open>S6_Time\<close>, \<open>S6_Logs\<close>: the log reader of \<^verbatim>\<open>pkg/service/s6\<close>: time stamps, both line parsers, the ring
    of recent lines (contract \<open>line_ring\<close>), rotation, the ranged file read.
  \<^item> \<open>S6_Status\<close>, \<open>S6_Script\<close>: the status reader and the run scripts of \<^verbatim>\<open>pkg/service/s6\<close>.
  \<^item> \<open>Go_Path\<close>, \<open>File_System\<close>: \<^verbatim>\<open>path/filepath\<close> and \<^verbatim>\<open>pkg/service/filesystem/filesystem.go\<close>: a tree of files
    behind three caches; the contract \<open>file_service\<close> is interpreted on it.
  \<^item> \<open>Go_Calls\<close>, \<open>S6_Service\<close>, \<open>S6_Lifecycle\<close>, \<open>S6_Removal\<close>: the lifecycle of a service on disk (\<^verbatim>\<open>lifecycle.go\<close>,
    \<^verbatim>\<open>lifecycle_force.go\<close>, \<^verbatim>\<open>s6.go\<close>): its operations over any file system, what they guarantee over
    \<open>file_service\<close> (and \<open>calm_file_service\<close>, \<open>command_log\<close>), and removal across retries.
  \<^item> \<open>Port_Manager\<close>: \<^verbatim>\<open>pkg/portmanager\<close>: exclusive ports for instances; the contract
    \<open>port_contract\<close> is interpreted on it.
  \<^item> \<open>Ring_Buffer\<close>, \<open>Topic_Bundle\<close>, \<open>Topic_Cache\<close>, \<open>Topic_Communicator\<close>: the topic browser, from
    the ring buffer of received bundles (contract \<open>bounded_log\<close>) through the cache to the
    messages a subscriber gets.
  \<^item> \<open>Data_Model\<close>: \<^verbatim>\<open>pkg/datamodel/validator.go\<close>: structural, reference and payload shape checks of
    user-defined data models.
  \<^item> \<open>Data_Translator\<close>: \<^verbatim>\<open>pkg/datamodel/translator.go\<close>: from a validated model to one JSON schema per payload shape;
    the level-by-level extraction equals the grouped list of leaves of the resolved model.
  \<^item> \<open>Schema_Registry\<close>, \<open>Mock_Registry\<close>, \<open>Schema_Props\<close>: \<^verbatim>\<open>pkg/service/redpanda/schema_registry.go\<close> and
    \<^verbatim>\<open>schema_registry_mock.go\<close>: the state machine that keeps the schemas of a registry in line with the
    data contracts, over any registry, and the registry server of the repository, on which the
    contract \<open>schema_server\<close> is interpreted. Shown: every call returns, requests are justified, one
    call converges.

  \<^item> \<open>Go_Value\<close>, \<open>Persistence\<close>, \<open>Memory_Store\<close>: documents and what JSON makes of them, the store
    interface of \<^verbatim>\<open>fsmv2/persistence\<close> with its query builder, transaction and retry helpers, and the
    in-memory store, on which the contract \<open>document_store\<close> is interpreted.
  \<^item> \<open>Delta_Store\<close>, \<open>Triangular_Store\<close>, \<open>Triangular_Laws\<close>, \<open>Triangular_Runs\<close>, \<open>Triangular_Props\<close>,
    \<open>Delta_Sync\<close>: \<^verbatim>\<open>fsmv2/cse/storage\<close>: identity, desired and observed document of each worker, change
    detection, tombstones, the snapshot cache, the delta log, clients that follow it, compaction, and
    \<^verbatim>\<open>scenariorunner/dump.go\<close>. The operations are over any store; their effects are proved over
    \<open>document_store\<close>, then for every sequence of calls.
  \<^item> \<open>Config_Types\<close>, \<open>Config_Yaml\<close>, \<open>Config_Edits\<close>: the configuration of \<^verbatim>\<open>pkg/config\<close>: its records, the
    two layouts of \<^verbatim>\<open>yamlParsing.go\<close> (the file keeps templates once, the program keeps them in each bridge)
    and the edits of \<^verbatim>\<open>manager.go\<close>, \<^verbatim>\<open>protocolconverter.go\<close>, \<^verbatim>\<open>streamprocessor.go\<close>, \<^verbatim>\<open>datamodel.go\<close> and
    \<^verbatim>\<open>datacontract.go\<close> as functions on a configuration. Their lemmas: the layouts are inverse to each
    other, edits keep names unique, versions are appended, a flow is found after it is added.
  \<^item> \<open>Config_Files\<close>, \<open>Config_Manager\<close>, \<open>Config_Props\<close>, \<open>Config_Calm\<close>: the configuration manager: the cached
    read with its background refresh, the write with its backup, the atomic edits, the first start and
    the backoff wrapper. The contract \<open>config_files\<close> is interpreted on the file service twice: for
    every behaviour of the file system, where only what is served can be bounded, and for one without
    I/O errors, where an edit is shown to take effect.

  \<^bold>\<open>How they interact.\<close> The manager calls its instances once per tick; an instance consults its
  backoff manager before it works, observes its service, moves its state machine by one event and
  records or clears its error. The model composes them the same way: \<open>Reconcile\<close> of the manager at the
  operations \<open>NewS6Manager\<close> calls \<open>s6_Reconcile\<close>, which calls the operations of \<open>Base_FSM\<close>, which call
  those of \<open>Backoff\<close>. The triangular store calls its document store directly and in transactions and
  appends to the delta log, which lives in the same store. The configuration manager reads and writes
  its file through \<open>File_System\<close> and suspends reads through \<open>Backoff\<close>; reads, refreshes, edits and
  outside changes of the file interleave as a sequence of events.
  The schema registry client translates every contract with \<open>Data_Translator\<close>, which validates with
  \<open>Data_Model\<close>, and sends requests to the server it is given.

  \<^bold>\<open>Conventions.\<close> A struct is a record, an error a value of \<open>goerror option\<close>, a fallible result a pair
  or a sum as in the source. Everything the code reads from outside (clocks, contexts, random
  values, the order in which Go ranges over a map, what a service answers) is an argument.
  Ticks are 64-bit words. Durations and times are \<open>int\<close> nanoseconds.

  \<^bold>\<open>Bounds.\<close> \<open>SendEvent\<close> and the auto-remove callback call each other; the nesting is cut at depth 2,
  and \<open>SendEvent_depth_enough\<close> shows that a larger depth gives the same result. References between
  data models are followed to depth 10, the program's own limit, which is also the measure of the
  recursion. The retries of \<open>WithRetry\<close> decrease towards \<^verbatim>\<open>maxRetries\<close>; the paging loop of
  \<open>DumpScenario\<close> is a partial function, shown to end on every reachable state; so is the loop of phases of the
  schema registry client, shown to end for every registry. The translator follows references for nine
  levels, the program's limit less one. All other recursions
  are structural.

  \<^bold>\<open>Not modelled.\<close> File and network I/O, YAML and JSON libraries, HTTP, metrics, logging, Sentry, the
  supervisors of the second-generation runtime \<^verbatim>\<open>fsmv2\<close> (its store is modelled), the remaining concrete state machines, and code that is
  vendored or generated, except where a modelled operation runs through it. Of the configuration, the
  rendering and validation of templates is left out; the YAML library, fresh UUIDs and the clock are
  arguments. Goroutines appear as the
  outcomes the manager can see of them.
\<close>

end
